(* ===== verification/Scarab_Prelude.thy ===== *)
theory Scarab_Prelude
  imports Main "HOL-Library.Word"
begin

text \<open>
  Shared vocabulary of the development: the integer types of
  \<^verbatim>\<open>globals/global_types.h\<close>, the bit and counter macros of \<^verbatim>\<open>globals/utils.h\<close>, and the
  scanning loops that the components repeat: the first way that satisfies a test, the victim with
  the smallest key, and the victim with the largest key. Each loop is defined once, with the lemmas
  that say what it returns.

  C arrays are lists and an array index is \<open>unat\<close> of the C index. A failed \<^verbatim>\<open>ASSERT\<close>, which
  stops the simulator, is the value \<open>None\<close>. Signed 32-bit integers are kept in 32-bit words and
  read with \<open>sint\<close>.
\<close>

unbundle bit_operations_syntax

section \<open>Types\<close>

type_synonym uns8 = "8 word"
type_synonym uns = "32 word"
type_synonym uns32 = "32 word"
type_synonym uns64 = "64 word"
type_synonym Addr = "64 word"
type_synonym Counter = "64 word"
type_synonym cint = "32 word"

named_theorems frame_simps "fields an operation leaves alone, and lengths it keeps"
named_theorems inv_intros "preservation of the component invariants"

section \<open>Macros\<close>

text \<open>\<^verbatim>\<open>LOG2\<close> is the index of the highest set bit. The C macro is undefined at 0.\<close>

fun log2_floor :: "nat \<Rightarrow> nat" where
  "log2_floor n = (if n \<le> 1 then 0 else Suc (log2_floor (n div 2)))"

declare log2_floor.simps [simp del]

definition LOG2 :: "uns \<Rightarrow> nat" where
  "LOG2 x = log2_floor (unat x)"

definition N_BIT_MASK :: "nat \<Rightarrow> uns64" where
  "N_BIT_MASK n = push_bit n 1 - 1"

definition CIRC_INC2 :: "uns \<Rightarrow> uns \<Rightarrow> uns" where
  "CIRC_INC2 v pow2 = (v + 1) AND (pow2 - 1)"

definition CIRC_DEC2 :: "uns \<Rightarrow> uns \<Rightarrow> uns" where
  "CIRC_DEC2 v pow2 = (v - 1) AND (pow2 - 1)"

definition CIRC_INC :: "uns \<Rightarrow> uns \<Rightarrow> uns" where
  "CIRC_INC v num = (if v = num - 1 then 0 else v + 1)"

definition ADDR_PLUS_OFFSET :: "Addr \<Rightarrow> Addr \<Rightarrow> Addr" where
  "ADDR_PLUS_OFFSET a offset =
     (a AND 0xFFFF000000000000) OR ((a + offset) AND 0x0000FFFFFFFFFFFF)"

definition SAT_INC :: "'a::len word \<Rightarrow> 'a word \<Rightarrow> 'a word" where
  "SAT_INC v max_v = (if v = max_v then max_v else v + 1)"

definition SAT_DEC :: "'a::len word \<Rightarrow> 'a word \<Rightarrow> 'a word" where
  "SAT_DEC v min_v = (if v = min_v then min_v else v - 1)"

definition MAX_CTR :: Counter where
  "MAX_CTR = 0xffffffffffffffff"

definition get_proc_id_from_cmp_addr :: "Addr \<Rightarrow> uns" where
  "get_proc_id_from_cmp_addr a = ucast (drop_bit 58 a)"

definition CMP_ADDR_MASK :: Addr where
  "CMP_ADDR_MASK = push_bit 58 (- 1)"

definition convert_to_cmp_addr :: "uns8 \<Rightarrow> Addr \<Rightarrow> Addr" where
  "convert_to_cmp_addr proc_id a =
     (let a = (if a AND CMP_ADDR_MASK \<noteq> 0 then a AND NOT CMP_ADDR_MASK else a)
      in a OR push_bit 58 (ucast proc_id))"

lemma log2_floor_pow2 [simp]: "log2_floor (2 ^ k) = k"
proof (induction k)
  case 0
  show ?case by (simp add: log2_floor.simps)
next
  case (Suc k)
  have "1 < 2 * (2::nat) ^ k"
    by (metis one_less_numeral_iff one_less_power power_Suc semiring_norm(76) zero_less_Suc)
  with Suc show ?case by (subst log2_floor.simps) simp
qed

lemma log2_floor_bounds:
  "0 < n \<Longrightarrow> 2 ^ log2_floor n \<le> n \<and> n < 2 ^ Suc (log2_floor n)"
proof (induction n rule: log2_floor.induct)
  case (1 n)
  show ?case
  proof (cases "n \<le> 1")
    case True
    with "1.prems" show ?thesis by (simp add: log2_floor.simps)
  next
    case False
    with "1.IH" have "2 ^ log2_floor (n div 2) \<le> n div 2 \<and> n div 2 < 2 ^ Suc (log2_floor (n div 2))"
      by simp
    with False show ?thesis by (subst log2_floor.simps, subst (2) log2_floor.simps) auto
  qed
qed

lemma N_BIT_MASK_mask [simp]: "N_BIT_MASK n = mask n"
  by (simp add: N_BIT_MASK_def mask_eq_exp_minus_1 push_bit_of_1)

lemma CIRC_INC2_pow2:
  assumes "k < 32"
  shows "unat (CIRC_INC2 v (2 ^ k)) = (unat v + 1) mod 2 ^ k"
proof -
  have "CIRC_INC2 v (2 ^ k) = take_bit k (v + 1)"
    by (simp add: CIRC_INC2_def take_bit_eq_mask mask_eq_exp_minus_1)
  then have "unat (CIRC_INC2 v (2 ^ k)) = unat (v + 1) mod 2 ^ k"
    by (simp add: unsigned_take_bit_eq take_bit_nat_def)
  also have "unat (v + 1) = (unat v + 1) mod 2 ^ 32"
    by (simp add: unat_word_ariths)
  also have "\<dots> mod 2 ^ k = (unat v + 1) mod 2 ^ k"
    using assms by (simp add: mod_mod_cancel le_imp_power_dvd del: power_numeral)
  finally show ?thesis .
qed

lemma CIRC_DEC2_pow2:
  assumes "k < 32"
  shows "unat (CIRC_DEC2 v (2 ^ k)) = (unat v + (2 ^ k - 1)) mod 2 ^ k"
proof -
  have "CIRC_DEC2 v (2 ^ k) = take_bit k (v - 1)"
    by (simp add: CIRC_DEC2_def take_bit_eq_mask mask_eq_exp_minus_1)
  then have "uint (CIRC_DEC2 v (2 ^ k)) = uint (v - 1) mod 2 ^ k"
    by (simp add: unsigned_take_bit_eq take_bit_int_def)
  also have "uint (v - 1) = (uint v - 1) mod 2 ^ 32"
    by (simp add: uint_word_ariths)
  also have "\<dots> mod 2 ^ k = (uint v - 1) mod 2 ^ k"
    using assms by (simp add: mod_mod_cancel le_imp_power_dvd del: power_numeral)
  also have "\<dots> = (uint v + (2 ^ k - 1)) mod 2 ^ k"
    by (metis add_diff_eq mod_add_self2 diff_add_eq)
  also have "uint v + (2 ^ k - 1) = int (unat v + (2 ^ k - 1))"
  proof -
    have "int (2 ^ k - 1) = 2 ^ k - 1" by (simp add: of_nat_diff)
    then show ?thesis unfolding of_nat_add by simp
  qed
  finally have "int (unat (CIRC_DEC2 v (2 ^ k))) = int ((unat v + (2 ^ k - 1)) mod 2 ^ k)"
    by (simp add: zmod_int)
  then show ?thesis by (simp only: of_nat_eq_iff)
qed

lemma SAT_INC_le: "v \<le> m \<Longrightarrow> SAT_INC v m \<le> m"
  by (auto simp: SAT_INC_def inc_le)

lemma SAT_DEC_le: "v \<le> m \<Longrightarrow> SAT_DEC v 0 \<le> m"
proof -
  assume "v \<le> m"
  have "v - 1 \<le> v" if "v \<noteq> 0" using that by (simp add: word_le_nat_alt unat_minus_one)
  with \<open>v \<le> m\<close> show ?thesis by (auto simp: SAT_DEC_def intro: order.trans)
qed

section \<open>Words and lists\<close>

lemma unat_inc: "x < (m :: 'a::len word) \<Longrightarrow> unat (x + 1) = Suc (unat x)"
proof -
  assume "x < m"
  then have "unat x + unat (1 :: 'a word) < 2 ^ LENGTH('a)"
    using unsigned_less [where 'a = nat, of m] unfolding word_less_nat_alt unat_1 by linarith
  then show ?thesis by (metis unat_add_lem Suc_eq_plus1 unat_1)
qed

lemma unat_ucast_64 [simp]: "unat (ucast (x :: uns) :: uns64) = unat x"
proof -
  have "unat x < 2 ^ 64" using unsigned_less [where 'a = nat, of x] by simp
  then show ?thesis by (simp add: unsigned_ucast_eq take_bit_nat_eq_self)
qed

lemma unat_ucast_le: "unat (ucast (x :: 'a::len word) :: 'b::len word) \<le> unat x"
  by (simp add: unsigned_ucast_eq)

lemma sint_small: "(a :: cint) < 0x80000000 \<Longrightarrow> sint a = int (unat a)"
proof -
  assume "a < 0x80000000"
  then have "uint a < 2 ^ 31" by (simp add: word_less_def)
  then have "signed_take_bit 31 (uint a) = uint a"
    by (intro signed_take_bit_int_eq_self) (auto intro: order.trans [OF _ uint_ge_0])
  then show ?thesis by (simp add: sint_uint)
qed

lemma unat_bit_max: "k < 32 \<Longrightarrow> unat (push_bit k 1 - 1 :: uns) = 2 ^ k - 1"
proof -
  assume "k < 32"
  then have "uint (mask k :: uns) = mask k" by (simp add: uint_mask_eq min_def)
  then have "unat (mask k :: uns) = nat (mask k)" by (metis nat_uint_eq)
  then show ?thesis
    by (simp add: push_bit_of_1 mask_eq_exp_minus_1 [symmetric] nat_mask_eq) (simp add: mask_eq_exp_minus_1)
qed

lemma unat_pow_max [simp]: "k < 32 \<Longrightarrow> unat (2 ^ k - 1 :: uns) = 2 ^ k - 1"
  using unat_bit_max by (simp add: push_bit_of_1)

lemma unat_Suc_uns: "unat (x :: uns) + 1 < 4294967296 \<Longrightarrow> unat (x + 1) = unat x + 1"
  using unat_add_lem [of x 1] by simp

lemma unat_half [simp]: "unat (drop_bit (Suc 0) x) = unat x div 2" for x :: "'a::len word"
  unfolding unat_drop_bit_eq by (simp add: drop_bit_eq_div)

lemma unat_ucast_32: "unat (x :: uns64) < 4294967296 \<Longrightarrow> unat (ucast x :: uns) = unat x"
  by (simp add: unsigned_ucast_eq take_bit_nat_eq_self)

lemma unat_mult_64: "unat x * unat y < 18446744073709551616 \<Longrightarrow> unat (x * y :: uns64) = unat x * unat y"
  using unat_mult_lem [of x y] by simp

lemma unat_of_nat_small: "n < 4294967296 \<Longrightarrow> unat (of_nat n :: uns) = n"
  by (simp add: unat_of_nat)

lemma unat_pow2: "k < 32 \<Longrightarrow> unat (2 ^ k :: uns) = 2 ^ k"
proof -
  assume "k < 32"
  then have "(2::nat) ^ k < 2 ^ 32" by (intro power_strict_increasing) auto
  then show ?thesis using unat_of_nat_small [of "2 ^ k"] by simp
qed

text \<open>Extending a negative 32-bit integer with zeros instead of its sign.\<close>

lemma ucast_negative: "sint (d :: cint) < 0 \<Longrightarrow> (ucast d :: uns64) = scast d + 2 ^ 32"
proof -
  assume "sint d < 0"
  have "uint d = sint d + 2 ^ 32"
  proof -
    have "sint d = take_bit 32 (uint d) - 2 ^ 32 * of_bool (bit (uint d) 31)"
      by (simp add: sint_uint signed_take_bit_eq_take_bit_minus)
    also have "take_bit 32 (uint d) = uint d" using uint_lt2p [of d] by (simp add: take_bit_int_eq_self)
    finally show ?thesis using \<open>sint d < 0\<close> uint_ge_0 [of d] by (cases "bit (uint d) 31") auto
  qed
  then have "(of_int (uint d) :: uns64) = of_int (sint d) + 2 ^ 32" by simp
  then show ?thesis by simp
qed

lemma in_set_updD: "r \<in> set (q[i := x]) \<Longrightarrow> r \<in> set q \<or> r = x"
  using set_update_subset_insert [of q i x] by auto

lemma list_all_update: "list_all Q xs \<Longrightarrow> Q x \<Longrightarrow> list_all Q (xs[i := x])"
  by (auto simp: list_all_iff dest: set_update_subset_insert [THEN subsetD])

lemma list_all_nth: "list_all Q xs \<Longrightarrow> i < length xs \<Longrightarrow> Q (xs ! i)"
  by (simp add: list_all_length)

lemma sum_list_half: "(\<Sum>x\<leftarrow>xs. f x div 2) \<le> (\<Sum>x\<leftarrow>xs. f x :: nat) div 2"
  by (induction xs) auto

lemma distinct_map_filter_conv:
  "distinct (map f (filter v g)) \<longleftrightarrow>
     (\<forall>i < length g. \<forall>j < length g. i \<noteq> j \<longrightarrow> v (g ! i) \<longrightarrow> v (g ! j) \<longrightarrow> f (g ! i) \<noteq> f (g ! j))"
proof (induction g)
  case Nil
  show ?case by simp
next
  case (Cons x g)
  show ?case
    by (auto simp: Cons All_less_Suc2 in_set_conv_nth image_iff)
qed

lemma distinct_map_filterD:
  "distinct (map f (filter v g)) \<Longrightarrow> i < length g \<Longrightarrow> j < length g \<Longrightarrow> v (g ! i) \<Longrightarrow> v (g ! j) \<Longrightarrow>
     f (g ! i) = f (g ! j) \<Longrightarrow> i = j"
  unfolding distinct_map_filter_conv by blast

lemma distinct_map_filter_update:
  assumes "distinct (map f (filter v g))" "\<And>j. j < length g \<Longrightarrow> j \<noteq> i \<Longrightarrow> v (g ! j) \<Longrightarrow> f (g ! j) \<noteq> f e"
  shows "distinct (map f (filter v (g[i := e])))"
  unfolding distinct_map_filter_conv
proof (intro allI impI)
  fix a b assume "a < length (g[i := e])" "b < length (g[i := e])" "a \<noteq> b" "v (g[i := e] ! a)" "v (g[i := e] ! b)"
  then show "f (g[i := e] ! a) \<noteq> f (g[i := e] ! b)"
    using assms(2) [of a] assms(2) [of b] distinct_map_filterD [OF assms(1), of a b]
    by (cases "a = i"; cases "b = i") auto
qed

section \<open>Scanning loops\<close>

text \<open>
  \<^verbatim>\<open>for(ii = 0; ii < n; ii++) if(P(a[ii])) { ...; break; }\<close>: the first index that satisfies the
  test, \<open>None\<close> when the loop runs to its end.
\<close>

fun find_ix :: "('a \<Rightarrow> bool) \<Rightarrow> 'a list \<Rightarrow> nat option" where
  "find_ix P [] = None"
| "find_ix P (x # xs) = (if P x then Some 0 else map_option Suc (find_ix P xs))"

lemma find_ix_None: "find_ix P xs = None \<longleftrightarrow> (\<forall>x \<in> set xs. \<not> P x)"
  by (induction xs) auto

lemma find_ix_Some:
  "find_ix P xs = Some i \<longleftrightarrow> i < length xs \<and> P (xs ! i) \<and> (\<forall>j < i. \<not> P (xs ! j))"
proof (induction xs arbitrary: i)
  case Nil
  show ?case by simp
next
  case (Cons x xs)
  show ?case by (cases i) (auto simp: Cons All_less_Suc2)
qed

lemma find_ix_SomeD:
  assumes "find_ix P xs = Some i"
  shows "i < length xs" "P (xs ! i)" "\<And>j. j < i \<Longrightarrow> \<not> P (xs ! j)"
  using assms by (auto simp: find_ix_Some)

lemma find_ix_ex: "x \<in> set xs \<Longrightarrow> P x \<Longrightarrow> \<exists>i. find_ix P xs = Some i"
  by (metis find_ix_None not_None_eq)

lemma find_ix_cong:
  "length xs = length ys \<Longrightarrow> (\<And>i. i < length xs \<Longrightarrow> Q (xs ! i) = R (ys ! i)) \<Longrightarrow> find_ix Q xs = find_ix R ys"
proof (induction xs ys rule: list_induct2)
  case (Cons x xs y ys)
  have "find_ix Q xs = find_ix R ys"
    using Cons.prems [of "Suc i" for i] by (intro Cons.IH) auto
  with Cons.prems [of 0] show ?case by simp
qed simp

text \<open>
  The least-recently-used scan that the cache library repeats:
  \<^verbatim>\<open>ind = 0; time = MAX_CTR;\<close>
  \<^verbatim>\<open>for(ii...) { if(!valid) { ind = ii; break; } if(t[ii] < time) { ind = ii; time = t[ii]; } }\<close>
  The result is the index and the time that the two variables hold after the loop.
\<close>

fun lru_scan :: "('a \<Rightarrow> bool) \<Rightarrow> ('a \<Rightarrow> 'k::linorder) \<Rightarrow> nat \<Rightarrow> nat \<Rightarrow> 'k \<Rightarrow> 'a list \<Rightarrow> nat \<times> 'k" where
  "lru_scan v t i ind tm [] = (ind, tm)"
| "lru_scan v t i ind tm (e # es) =
     (if \<not> v e then (i, tm)
      else if t e < tm then lru_scan v t (Suc i) i (t e) es
      else lru_scan v t (Suc i) ind tm es)"

lemma lru_scan_cases:
  assumes "lru_scan v t i ind tm xs = (r, tr)"
  shows "(r = ind \<and> tr = tm \<and> (\<forall>x \<in> set xs. v x \<and> tm \<le> t x)) \<or>
    (\<exists>k < length xs. r = i + k \<and> \<not> v (xs ! k)) \<or>
    (\<exists>k < length xs. r = i + k \<and> tr = t (xs ! k) \<and> tr < tm \<and> (\<forall>x \<in> set xs. v x \<and> tr \<le> t x))"
  using assms
proof (induction xs arbitrary: i ind tm)
  case Nil
  then show ?case by simp
next
  case (Cons e es)
  consider "\<not> v e" | "v e" "t e < tm" | "v e" "\<not> t e < tm" by blast
  then show ?case
  proof cases
    case 1
    with Cons.prems show ?thesis by auto
  next
    case 2
    with Cons.prems Cons.IH [of "Suc i" i "t e"] show ?thesis
      by (auto intro: exI [of _ "0::nat"])
  next
    case 3
    with Cons.prems Cons.IH [of "Suc i" ind tm] show ?thesis
      by (auto simp: not_less)
  qed
qed

text \<open>
  Started as the code starts it, the scan returns an invalid entry if there is one; otherwise an
  entry that no other is older than.
\<close>

lemma lru_scan_victim:
  assumes "lru_scan v t 0 0 mx xs = (r, tr)" and "xs \<noteq> []" and "\<And>y. t y \<le> mx"
  shows "r < length xs"
    and "\<not> v (xs ! r) \<or> (\<forall>x \<in> set xs. v x \<and> t (xs ! r) \<le> t x)"
  using lru_scan_cases [OF assms(1)] assms(2,3) by (auto intro: order.trans)

text \<open>
  The victim scan of the stride, stride-PC and GHB prefetchers:
  \<^verbatim>\<open>if(!valid) { idx = ii; break; } if(idx == -1 || t[idx] < t[ii]) idx = ii;\<close>
  Here \<open>cur\<close> is \<open>idx\<close> with the key it points to; \<open>None\<close> is \<open>-1\<close>.
\<close>

fun mru_scan :: "('a \<Rightarrow> bool) \<Rightarrow> ('a \<Rightarrow> 'k::linorder) \<Rightarrow> nat \<Rightarrow> (nat \<times> 'k) option \<Rightarrow> 'a list \<Rightarrow> nat option" where
  "mru_scan v t i cur [] = map_option fst cur"
| "mru_scan v t i cur (e # es) =
     (if \<not> v e then Some i
      else case cur of
        None \<Rightarrow> mru_scan v t (Suc i) (Some (i, t e)) es
      | Some (j, m) \<Rightarrow> mru_scan v t (Suc i) (if m < t e then Some (i, t e) else cur) es)"

lemma mru_scan_cases:
  assumes "mru_scan v t i (Some (c, m)) xs = Some r"
  shows "(r = c \<and> (\<forall>x \<in> set xs. v x \<and> t x \<le> m)) \<or>
    (\<exists>k < length xs. r = i + k \<and> \<not> v (xs ! k)) \<or>
    (\<exists>k < length xs. r = i + k \<and> m < t (xs ! k) \<and> (\<forall>x \<in> set xs. v x \<and> t x \<le> t (xs ! k)))"
  using assms
proof (induction xs arbitrary: i c m)
  case Nil
  then show ?case by simp
next
  case (Cons e es)
  consider "\<not> v e" | "v e" "m < t e" | "v e" "\<not> m < t e" by blast
  then show ?case
  proof cases
    case 1
    with Cons.prems show ?thesis by auto
  next
    case 2
    with Cons.prems Cons.IH [of "Suc i" i "t e"] show ?thesis
      by (auto intro: exI [of _ "0::nat"])
  next
    case 3
    with Cons.prems Cons.IH [of "Suc i" c m] show ?thesis
      by (auto simp: not_less)
  qed
qed

lemma mru_scan_Some: "\<exists>r. mru_scan v t i (Some c) xs = Some r"
  by (induction xs arbitrary: i c) (auto split: prod.splits)

text \<open>Started as the code starts it: an invalid entry, or the entry with the \<^emph>\<open>largest\<close> key.\<close>

lemma mru_scan_victim:
  assumes "mru_scan v t 0 None xs = Some r"
  shows "r < length xs"
    and "\<not> v (xs ! r) \<or> (\<forall>x \<in> set xs. v x \<and> t x \<le> t (xs ! r))"
proof -
  obtain e es where xs: "xs = e # es" using assms by (cases xs) auto
  have *: "r < length xs \<and> (\<not> v (xs ! r) \<or> (\<forall>x \<in> set xs. v x \<and> t x \<le> t (xs ! r)))"
  proof (cases "v e")
    case True
    with assms xs have "mru_scan v t 1 (Some (0, t e)) es = Some r" by simp
    from mru_scan_cases [OF this] show ?thesis
      using True by (auto simp: xs)
  next
    case False
    with assms xs show ?thesis by auto
  qed
  then show "r < length xs" "\<not> v (xs ! r) \<or> (\<forall>x \<in> set xs. v x \<and> t x \<le> t (xs ! r))"
    by auto
qed

lemma mru_scan_total: "xs \<noteq> [] \<Longrightarrow> \<exists>r. mru_scan v t 0 None xs = Some r"
  by (cases xs) (auto simp: mru_scan_Some)

end
