(* ===== verification/Pref_Common.thy ===== *)
theory Pref_Common
  imports Scarab_Prelude
begin

text \<open>
  The prefetcher framework of \<^verbatim>\<open>prefetcher/pref_common.c\<close>: the per-core request queues for the
  DL0, MLC and UL1 caches, their insertion and filtering, the feedback counters, the pollution bit
  vector, and the gshare-like filter. \<open>pref_state\<close> is the C global \<^verbatim>\<open>pref\<close>, together with the
  \<^verbatim>\<open>hwp_info\<close> records of \<^verbatim>\<open>pref_table\<close>, the static counter of
  \<^verbatim>\<open>pref_feed_back_info_update\<close> and the simulator's \<^verbatim>\<open>cycle_count\<close>.

  \<^verbatim>\<open>pref.cores\<close> is an array of pointers into \<^verbatim>\<open>pref.cores_array\<close>: with
  \<^verbatim>\<open>PREF_SHARED_QUEUES\<close> every core points to element 0. \<open>core_ix\<close> is that indirection, so an
  update through one core is seen through all of them.

  Statistics counters and trace files are left out: \<^verbatim>\<open>STAT_EVENT\<close> is empty in a build without
  statistics and nothing modelled here reads them.
\<close>

section \<open>Data\<close>

record pref_params =
  PREF_FRAMEWORK_ON :: bool
  PREF_SHARED_QUEUES :: bool
  PREF_DL0REQ_QUEUE_SIZE :: uns
  PREF_UMLC_REQ_QUEUE_SIZE :: uns
  PREF_UL1REQ_QUEUE_SIZE :: uns
  PREF_DL0REQ_QUEUE_FILTER_ON :: bool
  PREF_UMLC_REQ_QUEUE_FILTER_ON :: bool
  PREF_UL1REQ_QUEUE_FILTER_ON :: bool
  PREF_DL0REQ_ADD_FILTER_ON :: bool
  PREF_UMLC_REQ_ADD_FILTER_ON :: bool
  PREF_UL1REQ_ADD_FILTER_ON :: bool
  PREF_DL0REQ_QUEUE_OVERWRITE_ON_FULL :: bool
  PREF_UMLC_REQ_QUEUE_OVERWRITE_ON_FULL :: bool
  PREF_UL1REQ_QUEUE_OVERWRITE_ON_FULL :: bool
  PREF_REPORT_PREF_MATCH_AS_MISS :: bool
  PREF_REPORT_PREF_MATCH_AS_HIT :: bool
  PREF_UPDATE_INTERVAL :: uns64
  PREF_POLBV_ON :: bool
  PREF_POLBV_SIZE :: uns
  PREF_DHAL :: bool
  PREF_DHAL_SENTTHRESH :: uns
  PREF_DHAL_USETHRESH_MAX :: uns
  PREF_DHAL_USETHRESH_MIN2 :: uns
  PREF_DHAL_USETHRESH_MIN1 :: uns
  PREF_DHAL_MAXDEG :: uns
  PREF_HFILTER_ON :: bool
  PREF_HFILTER_INDEX_BITS :: uns
  PREF_HFILTER_USE_PC :: bool
  PREF_HFILTER_PRED_USELESS_THRES :: uns8
  PREF_DL0_MISS_ON :: bool
  PREF_DL0_HIT_ON :: bool
  DUMB_CORE_ON :: bool
  DUMB_CORE :: uns
  NUM_CORES :: uns
  DCACHE_LINE_SIZE :: uns
  L1_LINE_SIZE :: uns

record Pref_Mem_Req =
  pmr_proc_id :: uns8
  pmr_line_addr :: Addr
  pmr_line_index :: Addr
  pmr_loadPC :: Addr
  pmr_global_hist :: uns32
  pmr_prefetcher_id :: uns8
  pmr_distance :: uns
  pmr_valid :: bool
  pmr_bw_limited :: bool
  pmr_rdy_cycle :: Counter

definition zero_req :: Pref_Mem_Req where
  "zero_req = \<lparr>pmr_proc_id = 0, pmr_line_addr = 0, pmr_line_index = 0, pmr_loadPC = 0,
     pmr_global_hist = 0, pmr_prefetcher_id = 0, pmr_distance = 0, pmr_valid = False,
     pmr_bw_limited = False, pmr_rdy_cycle = 0\<rparr>"

record Pref_Polbv_Info =
  polbv_proc_id :: uns8
  polbv_pollution :: bool

record HWP_Info =
  hwp_id :: uns8
  hwp_enabled :: bool
  hwp_priority :: cint
  useful_core :: "Counter list"
  sent_core :: "Counter list"
  late_core :: "Counter list"
  curr_useful_core :: "Counter list"
  curr_sent_core :: "Counter list"
  curr_late_core :: "Counter list"
  dyn_degree_core :: "uns list"

record HWP_Core =
  dl0req_queue :: "Pref_Mem_Req list"
  umlc_req_queue :: "Pref_Mem_Req list"
  ul1req_queue :: "Pref_Mem_Req list"
  dl0req_queue_req_pos :: cint
  dl0req_queue_send_pos :: cint
  umlc_req_queue_req_pos :: cint
  umlc_req_queue_send_pos :: cint
  ul1req_queue_req_pos :: cint
  ul1req_queue_send_pos :: cint
  ul1_misses :: Counter
  curr_ul1_misses :: Counter
  pfpol :: Counter
  curr_pfpol :: Counter
  pref_polbv_info :: "Pref_Polbv_Info list"
  update_acc :: bool
  pref_hfilter_pht :: "uns8 list"

record pref_state =
  cores_array :: "HWP_Core list"
  hwp_infos :: "HWP_Info list"
  num_ul1_evicted :: Counter
  num_ul1_misses :: Counter
  curr_num_ul1_misses :: Counter
  prev_num_ul1_evicted :: Counter
  cycle_count :: Counter

section \<open>Cores and prefetcher records through their pointers\<close>

definition core_ix :: "pref_params \<Rightarrow> uns8 \<Rightarrow> nat" where
  "core_ix P proc_id = (if PREF_SHARED_QUEUES P then 0 else unat proc_id)"

definition the_core :: "pref_params \<Rightarrow> uns8 \<Rightarrow> pref_state \<Rightarrow> HWP_Core" where
  "the_core P proc_id s = cores_array s ! core_ix P proc_id"

definition upd_core :: "pref_params \<Rightarrow> uns8 \<Rightarrow> (HWP_Core \<Rightarrow> HWP_Core) \<Rightarrow> pref_state \<Rightarrow> pref_state" where
  "upd_core P proc_id f s =
     s\<lparr>cores_array := (cores_array s)[core_ix P proc_id := f (the_core P proc_id s)]\<rparr>"

definition the_info :: "uns8 \<Rightarrow> pref_state \<Rightarrow> HWP_Info" where
  "the_info prefetcher_id s = hwp_infos s ! unat prefetcher_id"

definition upd_info :: "uns8 \<Rightarrow> (HWP_Info \<Rightarrow> HWP_Info) \<Rightarrow> pref_state \<Rightarrow> pref_state" where
  "upd_info prefetcher_id f s =
     s\<lparr>hwp_infos := (hwp_infos s)[unat prefetcher_id := f (the_info prefetcher_id s)]\<rparr>"

lemma upd_core_frame [frame_simps]:
  "hwp_infos (upd_core P p f s) = hwp_infos s"
  "num_ul1_evicted (upd_core P p f s) = num_ul1_evicted s"
  "num_ul1_misses (upd_core P p f s) = num_ul1_misses s"
  "curr_num_ul1_misses (upd_core P p f s) = curr_num_ul1_misses s"
  "prev_num_ul1_evicted (upd_core P p f s) = prev_num_ul1_evicted s"
  "cycle_count (upd_core P p f s) = cycle_count s"
  "length (cores_array (upd_core P p f s)) = length (cores_array s)"
  by (simp_all add: upd_core_def)

lemma the_core_upd_core [simp]:
  "core_ix P p < length (cores_array s) \<Longrightarrow> core_ix P q = core_ix P p \<Longrightarrow>
     the_core P q (upd_core P p f s) = f (the_core P p s)"
  by (simp add: the_core_def upd_core_def)

lemma the_core_upd_core_other [simp]:
  "core_ix P q \<noteq> core_ix P p \<Longrightarrow> the_core P q (upd_core P p f s) = the_core P q s"
  by (simp add: the_core_def upd_core_def)

lemma upd_info_frame [frame_simps]:
  "cores_array (upd_info i f s) = cores_array s"
  "num_ul1_evicted (upd_info i f s) = num_ul1_evicted s"
  "cycle_count (upd_info i f s) = cycle_count s"
  "length (hwp_infos (upd_info i f s)) = length (hwp_infos s)"
  "the_core P p (upd_info i f s) = the_core P p s"
  by (simp_all add: upd_info_def the_core_def)

lemma the_info_upd_info [simp]:
  "unat i < length (hwp_infos s) \<Longrightarrow> the_info i (upd_info i f s) = f (the_info i s)"
  by (simp add: the_info_def upd_info_def)


section \<open>Initialisation\<close>

definition pref_core_init :: "pref_params \<Rightarrow> HWP_Core" where
  "pref_core_init P =
     \<lparr>dl0req_queue = replicate (unat (PREF_DL0REQ_QUEUE_SIZE P)) zero_req,
      umlc_req_queue = replicate (unat (PREF_UMLC_REQ_QUEUE_SIZE P)) zero_req,
      ul1req_queue = replicate (unat (PREF_UL1REQ_QUEUE_SIZE P)) zero_req,
      dl0req_queue_req_pos = - 1, dl0req_queue_send_pos = 0,
      umlc_req_queue_req_pos = - 1, umlc_req_queue_send_pos = 0,
      ul1req_queue_req_pos = - 1, ul1req_queue_send_pos = 0,
      ul1_misses = 0, curr_ul1_misses = 0, pfpol = 0, curr_pfpol = 0,
      pref_polbv_info = [], update_acc = False, pref_hfilter_pht = []\<rparr>"

definition hwp_info_init :: "pref_params \<Rightarrow> nat \<Rightarrow> HWP_Info" where
  "hwp_info_init P ii =
     (let z = replicate (unat (NUM_CORES P)) 0
      in \<lparr>hwp_id = of_nat ii, hwp_enabled = False, hwp_priority = 0,
          useful_core = z, sent_core = z, late_core = z,
          curr_useful_core = z, curr_sent_core = z, curr_late_core = z,
          dyn_degree_core = replicate (unat (NUM_CORES P)) 2\<rparr>)"

text \<open>
  The state that \<^verbatim>\<open>pref_init\<close> builds for a table of \<open>n\<close> prefetchers, apart from what the
  prefetchers' own \<^verbatim>\<open>init_func\<close> do. The loops over the cores go through \<^verbatim>\<open>pref.cores\<close>: with shared
  queues they write element 0 again and again.
\<close>

definition pref_init_polbv :: "pref_params \<Rightarrow> pref_state \<Rightarrow> pref_state" where
  "pref_init_polbv P s =
     (if PREF_POLBV_ON P
      then fold (\<lambda>p. upd_core P (of_nat p) (\<lambda>c. c\<lparr>pref_polbv_info :=
             replicate (unat (PREF_POLBV_SIZE P)) \<lparr>polbv_proc_id = 0, polbv_pollution = False\<rparr>\<rparr>))
             [0..<unat (NUM_CORES P)] s
      else s)"

definition pref_init_hfilter :: "pref_params \<Rightarrow> pref_state \<Rightarrow> pref_state" where
  "pref_init_hfilter P s =
     (if PREF_HFILTER_ON P
      then fold (\<lambda>p. upd_core P (of_nat p) (\<lambda>c. c\<lparr>pref_hfilter_pht :=
             replicate (2 ^ unat (PREF_HFILTER_INDEX_BITS P)) 0\<rparr>)) [0..<unat (NUM_CORES P)] s
      else s)"

definition pref_init_tables :: "pref_params \<Rightarrow> nat \<Rightarrow> Counter \<Rightarrow> pref_state" where
  "pref_init_tables P n now =
     pref_init_hfilter P (pref_init_polbv P
       \<lparr>cores_array = replicate (unat (NUM_CORES P)) (pref_core_init P),
        hwp_infos = map (hwp_info_init P) [0..<n],
        num_ul1_evicted = 0, num_ul1_misses = 0, curr_num_ul1_misses = 0,
        prev_num_ul1_evicted = 0, cycle_count = now\<rparr>)"

section \<open>Feedback counters\<close>

text \<open>
  \<^verbatim>\<open>(0.5 * x) + (0.5 * y)\<close> assigned to a \<^verbatim>\<open>Counter\<close>. The operands are converted to
  \<^verbatim>\<open>double\<close> (round to nearest even, 53 significant bits), halving is exact, the sum is rounded
  again, and the assignment truncates. \<open>dbl_round\<close> is the rounding of a natural number; a sum of
  halves is half the sum, and halving commutes with the rounding.
\<close>

definition dbl_round :: "nat \<Rightarrow> nat" where
  "dbl_round n =
     (let l = log2_floor n
      in if l \<le> 52 then n
         else let e = l - 52; q = n div 2 ^ e; r = n mod 2 ^ e; h = 2 ^ (e - 1)
              in (if h < r \<or> (r = h \<and> odd q) then q + 1 else q) * 2 ^ e)"

definition half_sum :: "Counter \<Rightarrow> Counter \<Rightarrow> Counter" where
  "half_sum x y = of_nat (dbl_round (dbl_round (unat x) + dbl_round (unat y)) div 2)"

text \<open>One core's turn of the loop in \<^verbatim>\<open>pref_feed_back_info_update\<close>.\<close>

definition feed_back_core :: "pref_params \<Rightarrow> uns8 \<Rightarrow> nat \<Rightarrow> pref_state \<Rightarrow> pref_state" where
  "feed_back_core P pid p s =
     (if curr_sent_core (the_info pid s) ! p \<noteq> 0 then
        let s = upd_info pid (\<lambda>h. h\<lparr>
                   useful_core := (useful_core h)[p := half_sum (useful_core h ! p) (curr_useful_core h ! p)],
                   curr_useful_core := (curr_useful_core h)[p := 0],
                   sent_core := (sent_core h)[p := half_sum (sent_core h ! p) (curr_sent_core h ! p)],
                   curr_sent_core := (curr_sent_core h)[p := 0],
                   late_core := (late_core h)[p := half_sum (late_core h ! p) (curr_late_core h ! p)],
                   curr_late_core := (curr_late_core h)[p := 0]\<rparr>) s;
            s = upd_core P (of_nat p) (\<lambda>c. c\<lparr>
                   pfpol := half_sum (pfpol c) (curr_pfpol c), curr_pfpol := 0,
                   ul1_misses := half_sum (ul1_misses c) (curr_ul1_misses c), curr_ul1_misses := 0,
                   update_acc := True\<rparr>) s
        in s\<lparr>num_ul1_misses := curr_num_ul1_misses s\<rparr>
      else s)"

definition pref_feed_back_info_update :: "pref_params \<Rightarrow> uns8 \<Rightarrow> pref_state \<Rightarrow> pref_state" where
  "pref_feed_back_info_update P pid s =
     (if PREF_UPDATE_INTERVAL P \<noteq> 0 \<and>
         PREF_UPDATE_INTERVAL P \<le> num_ul1_evicted s - prev_num_ul1_evicted s
      then let s = s\<lparr>prev_num_ul1_evicted := num_ul1_evicted s\<rparr>;
               s = fold (feed_back_core P pid) [0..<unat (NUM_CORES P)] s
           in s\<lparr>curr_num_ul1_misses := 0\<rparr>
      else s)"

section \<open>Request queues\<close>

text \<open>The slot a new request goes to, and the three steps the insertion functions share.\<close>

definition ring_next :: "cint \<Rightarrow> uns \<Rightarrow> cint" where
  "ring_next pos qsize = (pos + 1) mod qsize"

definition queue_has_index :: "Pref_Mem_Req list \<Rightarrow> Addr \<Rightarrow> bool" where
  "queue_has_index q li = list_ex (\<lambda>r. pmr_line_index r = li) q"

definition ring_full :: "Pref_Mem_Req list \<Rightarrow> cint \<Rightarrow> uns \<Rightarrow> bool" where
  "ring_full q pos qsize = pmr_valid (q ! unat (ring_next pos qsize))"

definition line_of_index :: "pref_params \<Rightarrow> Addr \<Rightarrow> Addr" where
  "line_of_index P li = push_bit (LOG2 (DCACHE_LINE_SIZE P)) li"

definition pref_addto_dl0req_queue ::
    "pref_params \<Rightarrow> uns8 \<Rightarrow> Addr \<Rightarrow> uns8 \<Rightarrow> pref_state \<Rightarrow> bool \<times> pref_state" where
  "pref_addto_dl0req_queue P proc_id line_index prefetcher_id s =
     (let c = the_core P proc_id s; q = dl0req_queue c; pos = dl0req_queue_req_pos c;
          qsize = PREF_DL0REQ_QUEUE_SIZE P
      in if line_index = 0 then (True, s)
         else if PREF_DL0REQ_ADD_FILTER_ON P \<and> queue_has_index q line_index then (True, s)
         else if ring_full q pos qsize \<and> \<not> PREF_DL0REQ_QUEUE_OVERWRITE_ON_FULL P then (False, s)
         else let new_req = zero_req\<lparr>pmr_proc_id := proc_id, pmr_line_addr := line_of_index P line_index,
                   pmr_line_index := line_index, pmr_valid := True, pmr_prefetcher_id := prefetcher_id\<rparr>;
                  pos = ring_next pos qsize
              in (True, upd_core P proc_id (\<lambda>c. c\<lparr>dl0req_queue_req_pos := pos,
                          dl0req_queue := (dl0req_queue c)[unat pos := new_req]\<rparr>) s))"

definition pref_addto_umlc_req_queue ::
    "pref_params \<Rightarrow> uns8 \<Rightarrow> Addr \<Rightarrow> uns8 \<Rightarrow> pref_state \<Rightarrow> bool \<times> pref_state" where
  "pref_addto_umlc_req_queue P proc_id line_index prefetcher_id s =
     (let c = the_core P proc_id s; q = umlc_req_queue c; pos = umlc_req_queue_req_pos c;
          qsize = PREF_UMLC_REQ_QUEUE_SIZE P
      in if line_index = 0 then (True, s)
         else if PREF_UMLC_REQ_ADD_FILTER_ON P \<and> queue_has_index q line_index then (True, s)
         else if ring_full q pos qsize \<and> \<not> PREF_UMLC_REQ_QUEUE_OVERWRITE_ON_FULL P then (False, s)
         else let new_req = zero_req\<lparr>pmr_proc_id := proc_id, pmr_line_addr := line_of_index P line_index,
                   pmr_line_index := line_index, pmr_valid := True, pmr_distance := 0,
                   pmr_bw_limited := False, pmr_prefetcher_id := prefetcher_id\<rparr>;
                  pos = ring_next pos qsize
              in (True, upd_core P proc_id (\<lambda>c. c\<lparr>umlc_req_queue_req_pos := pos,
                          umlc_req_queue := (umlc_req_queue c)[unat pos := new_req]\<rparr>) s))"

definition pref_addto_ul1req_queue_set ::
    "pref_params \<Rightarrow> uns8 \<Rightarrow> Addr \<Rightarrow> uns8 \<Rightarrow> uns \<Rightarrow> Addr \<Rightarrow> uns32 \<Rightarrow> bool \<Rightarrow> pref_state \<Rightarrow>
       bool \<times> pref_state" where
  "pref_addto_ul1req_queue_set P proc_id line_index prefetcher_id distance loadPC ghist bw s =
     (if line_index = 0 then (True, s)
      else let s = pref_feed_back_info_update P prefetcher_id s;
               c = the_core P proc_id s; q = ul1req_queue c; pos = ul1req_queue_req_pos c;
               qsize = PREF_UL1REQ_QUEUE_SIZE P
           in if PREF_UL1REQ_ADD_FILTER_ON P \<and> queue_has_index q line_index then (True, s)
              else if ring_full q pos qsize \<and> \<not> PREF_UL1REQ_QUEUE_OVERWRITE_ON_FULL P then (False, s)
              else let new_req = \<lparr>pmr_proc_id = proc_id, pmr_line_addr = line_of_index P line_index,
                         pmr_line_index = line_index, pmr_loadPC = loadPC, pmr_global_hist = ghist,
                         pmr_prefetcher_id = prefetcher_id, pmr_distance = distance, pmr_valid = True,
                         pmr_bw_limited = bw, pmr_rdy_cycle = cycle_count s\<rparr>;
                       pos = ring_next pos qsize
                   in (True, upd_core P proc_id (\<lambda>c. c\<lparr>ul1req_queue_req_pos := pos,
                               ul1req_queue := (ul1req_queue c)[unat pos := new_req]\<rparr>) s))"

definition pref_addto_ul1req_queue ::
    "pref_params \<Rightarrow> uns8 \<Rightarrow> Addr \<Rightarrow> uns8 \<Rightarrow> pref_state \<Rightarrow> bool \<times> pref_state" where
  "pref_addto_ul1req_queue P proc_id line_index prefetcher_id s =
     pref_addto_ul1req_queue_set P proc_id line_index prefetcher_id 0 0 0 False s"

text \<open>
  Filtering by a demand request: the first valid entry for the same line is invalidated. The core
  is the one named by the address, \<^verbatim>\<open>addr >> 58\<close>.
\<close>

definition same_line :: "pref_params \<Rightarrow> Addr \<Rightarrow> Pref_Mem_Req \<Rightarrow> bool" where
  "same_line P a r \<longleftrightarrow> pmr_valid r \<and>
     drop_bit (LOG2 (DCACHE_LINE_SIZE P)) (pmr_line_addr r) = drop_bit (LOG2 (DCACHE_LINE_SIZE P)) a"

definition drop_first_match :: "pref_params \<Rightarrow> Addr \<Rightarrow> Pref_Mem_Req list \<Rightarrow> bool \<times> Pref_Mem_Req list" where
  "drop_first_match P a q =
     (case find_ix (same_line P a) q of
        None \<Rightarrow> (False, q)
      | Some ii \<Rightarrow> (True, q[ii := (q ! ii)\<lparr>pmr_valid := False\<rparr>]))"

definition pref_dl0req_queue_filter :: "pref_params \<Rightarrow> Addr \<Rightarrow> pref_state \<Rightarrow> bool \<times> pref_state" where
  "pref_dl0req_queue_filter P a s =
     (if \<not> PREF_DL0REQ_QUEUE_FILTER_ON P then (False, s)
      else let p = ucast (get_proc_id_from_cmp_addr a);
               (hit, q) = drop_first_match P a (dl0req_queue (the_core P p s))
           in (hit, upd_core P p (\<lambda>c. c\<lparr>dl0req_queue := q\<rparr>) s))"

definition pref_umlc_req_queue_filter :: "pref_params \<Rightarrow> Addr \<Rightarrow> pref_state \<Rightarrow> bool \<times> pref_state" where
  "pref_umlc_req_queue_filter P a s =
     (if \<not> PREF_UMLC_REQ_QUEUE_FILTER_ON P then (False, s)
      else let p = ucast (get_proc_id_from_cmp_addr a);
               (hit, q) = drop_first_match P a (umlc_req_queue (the_core P p s))
           in (hit, upd_core P p (\<lambda>c. c\<lparr>umlc_req_queue := q\<rparr>) s))"

definition pref_ul1req_queue_filter :: "pref_params \<Rightarrow> Addr \<Rightarrow> pref_state \<Rightarrow> bool \<times> pref_state" where
  "pref_ul1req_queue_filter P a s =
     (if \<not> PREF_UL1REQ_QUEUE_FILTER_ON P then (False, s)
      else let p = ucast (get_proc_id_from_cmp_addr a);
               (hit, q) = drop_first_match P a (ul1req_queue (the_core P p s))
           in (hit, upd_core P p (\<lambda>c. c\<lparr>ul1req_queue := q\<rparr>) s))"

definition pref_ul1req_queue_match :: "pref_params \<Rightarrow> Addr \<Rightarrow> pref_state \<Rightarrow> bool" where
  "pref_ul1req_queue_match P a s =
     list_ex (same_line P a) (ul1req_queue (the_core P (ucast (get_proc_id_from_cmp_addr a)) s))"


section \<open>Pollution bit vector\<close>

text \<open>
  The index mask is \<^verbatim>\<open>LOG2(PREF_POLBV_SIZE)\<close> in the code, the number of index bits, where a mask
  would be \<^verbatim>\<open>PREF_POLBV_SIZE - 1\<close>.
\<close>

definition polbv_index :: "pref_params \<Rightarrow> Addr \<Rightarrow> nat" where
  "polbv_index P a =
     (let line_index = drop_bit (LOG2 (DCACHE_LINE_SIZE P)) a
      in unat (ucast ((drop_bit (LOG2 (PREF_POLBV_SIZE P)) line_index XOR line_index)
                 AND of_nat (LOG2 (PREF_POLBV_SIZE P))) :: uns))"

definition pref_polbv_update_on_evict :: "pref_params \<Rightarrow> uns8 \<Rightarrow> uns8 \<Rightarrow> Addr \<Rightarrow> pref_state \<Rightarrow> pref_state option" where
  "pref_polbv_update_on_evict P pref_proc_id evicted_proc_id a s =
     (if PREF_POLBV_ON P
      then Some (upd_core P pref_proc_id (\<lambda>c. c\<lparr>pref_polbv_info := (pref_polbv_info c)[polbv_index P a :=
             \<lparr>polbv_proc_id = evicted_proc_id, polbv_pollution = True\<rparr>]\<rparr>) s)
      else None)"

definition polbv_lookup_core :: "nat \<Rightarrow> uns8 \<Rightarrow> HWP_Core \<Rightarrow> HWP_Core" where
  "polbv_lookup_core index proc_id c =
     (let e = pref_polbv_info c ! index
      in if polbv_proc_id e = proc_id \<and> polbv_pollution e
         then c\<lparr>curr_pfpol := curr_pfpol c + 1,
                pref_polbv_info := (pref_polbv_info c)[index := e\<lparr>polbv_pollution := False\<rparr>]\<rparr>
         else c)"

definition pref_polbv_lookup_on_miss :: "pref_params \<Rightarrow> uns8 \<Rightarrow> Addr \<Rightarrow> pref_state \<Rightarrow> pref_state option" where
  "pref_polbv_lookup_on_miss P proc_id a s =
     (if PREF_POLBV_ON P
      then Some (fold (\<lambda>p. upd_core P (of_nat p) (polbv_lookup_core (polbv_index P a) proc_id))
                   [0..<unat (NUM_CORES P)] s)
      else None)"

definition polbv_repref_core :: "nat \<Rightarrow> uns8 \<Rightarrow> HWP_Core \<Rightarrow> HWP_Core" where
  "polbv_repref_core index proc_id c =
     (let e = pref_polbv_info c ! index
      in if polbv_proc_id e = proc_id
         then c\<lparr>pref_polbv_info := (pref_polbv_info c)[index := e\<lparr>polbv_pollution := False\<rparr>]\<rparr>
         else c)"

definition pref_polbv_update_on_repref :: "pref_params \<Rightarrow> uns8 \<Rightarrow> Addr \<Rightarrow> pref_state \<Rightarrow> pref_state option" where
  "pref_polbv_update_on_repref P proc_id a s =
     (if PREF_POLBV_ON P
      then Some (fold (\<lambda>p. upd_core P (of_nat p) (polbv_repref_core (polbv_index P a) proc_id))
                   [0..<unat (NUM_CORES P)] s)
      else None)"

section \<open>The gshare-like prefetch filter\<close>

definition COOK_HIST_BITS :: "uns32 \<Rightarrow> nat \<Rightarrow> nat \<Rightarrow> uns32" where
  "COOK_HIST_BITS hist len untouched = push_bit untouched (drop_bit (32 - len + untouched) hist)"

definition COOK_ADDR_BITS :: "Addr \<Rightarrow> nat \<Rightarrow> nat \<Rightarrow> uns64" where
  "COOK_ADDR_BITS a len sh = ucast (drop_bit sh (ucast a :: uns32)) AND N_BIT_MASK len"

definition hfilter_index :: "pref_params \<Rightarrow> Addr \<Rightarrow> Addr \<Rightarrow> uns32 \<Rightarrow> nat" where
  "hfilter_index P a loadPC ghist =
     (let bits = unat (PREF_HFILTER_INDEX_BITS P);
          cooked_hist = COOK_HIST_BITS ghist bits 0;
          cooked_addr = (if PREF_HFILTER_USE_PC P then ucast (COOK_ADDR_BITS loadPC bits 0)
                         else ucast (COOK_ADDR_BITS a bits (LOG2 (L1_LINE_SIZE P)))) :: uns32
      in unat (cooked_hist XOR cooked_addr))"

definition pref_evictline_used :: "pref_params \<Rightarrow> uns8 \<Rightarrow> Addr \<Rightarrow> Addr \<Rightarrow> uns32 \<Rightarrow> pref_state \<Rightarrow> pref_state" where
  "pref_evictline_used P proc_id a loadPC ghist s =
     (if PREF_FRAMEWORK_ON P \<and> PREF_HFILTER_ON P
      then let i = hfilter_index P a loadPC ghist
           in upd_core P proc_id (\<lambda>c. c\<lparr>pref_hfilter_pht :=
                (pref_hfilter_pht c)[i := SAT_DEC (pref_hfilter_pht c ! i) 0]\<rparr>) s
      else s)"

definition pref_evictline_notused :: "pref_params \<Rightarrow> uns8 \<Rightarrow> Addr \<Rightarrow> Addr \<Rightarrow> uns32 \<Rightarrow> pref_state \<Rightarrow> pref_state" where
  "pref_evictline_notused P proc_id a loadPC ghist s =
     (if PREF_FRAMEWORK_ON P \<and> PREF_HFILTER_ON P
      then let i = hfilter_index P a loadPC ghist
           in upd_core P proc_id (\<lambda>c. c\<lparr>pref_hfilter_pht :=
                (pref_hfilter_pht c)[i := SAT_INC (pref_hfilter_pht c ! i) 3]\<rparr>) s
      else s)"

text \<open>\<open>None\<close> is the failed \<^verbatim>\<open>ASSERT(0, PREF_HFILTER_ON)\<close>.\<close>

definition pref_hfilter_pred_useless :: "pref_params \<Rightarrow> uns8 \<Rightarrow> Addr \<Rightarrow> Addr \<Rightarrow> uns32 \<Rightarrow> pref_state \<Rightarrow> bool option" where
  "pref_hfilter_pred_useless P proc_id a loadPC ghist s =
     (if \<not> PREF_FRAMEWORK_ON P then Some False
      else if \<not> PREF_HFILTER_ON P then None
      else Some (PREF_HFILTER_PRED_USELESS_THRES P \<le>
                   pref_hfilter_pht (the_core P proc_id s) ! hfilter_index P a loadPC ghist))"

definition pref_hfilter_pht_reset :: "pref_params \<Rightarrow> pref_state \<Rightarrow> pref_state" where
  "pref_hfilter_pht_reset P s =
     fold (\<lambda>p. upd_core P (of_nat p) (\<lambda>c. c\<lparr>pref_hfilter_pht := map (\<lambda>_. 0) (pref_hfilter_pht c)\<rparr>))
       [0..<unat (NUM_CORES P)] s"

section \<open>Sent, evicted and dropped prefetches\<close>

text \<open>
  \<^verbatim>\<open>pref_ul1sent\<close>: a prefetch went out on the bus. With \<^verbatim>\<open>PREF_DHAL\<close> the dynamic degree is
  adjusted after every \<^verbatim>\<open>PREF_DHAL_SENTTHRESH\<close> prefetches.
\<close>

definition dhal_degree :: "pref_params \<Rightarrow> Counter \<Rightarrow> uns \<Rightarrow> uns" where
  "dhal_degree P useful deg =
     (if ucast (PREF_DHAL_USETHRESH_MAX P) < useful
      then (if deg < PREF_DHAL_MAXDEG P then deg + 1 else deg)
      else if useful < ucast (PREF_DHAL_USETHRESH_MIN2 P)
      then (if useful < ucast (PREF_DHAL_USETHRESH_MIN1 P)
            then (if 8 < deg then deg div 2 else 4)
            else (if 4 < deg then deg - 1 else deg))
      else deg)"

definition pref_ul1sent :: "pref_params \<Rightarrow> uns8 \<Rightarrow> Addr \<Rightarrow> uns8 \<Rightarrow> pref_state \<Rightarrow> pref_state option" where
  "pref_ul1sent P proc_id a pid s =
     (if \<not> PREF_FRAMEWORK_ON P \<or> pid = 0 then Some s
      else case (if PREF_POLBV_ON P then pref_polbv_update_on_repref P proc_id a s else Some s) of
        None \<Rightarrow> None
      | Some s \<Rightarrow>
          let p = unat proc_id;
              s = upd_info pid (\<lambda>h. h\<lparr>curr_sent_core := (curr_sent_core h)[p := curr_sent_core h ! p + 1]\<rparr>) s;
              h = the_info pid s
          in Some (if curr_sent_core h ! p = ucast (PREF_DHAL_SENTTHRESH P) \<and> PREF_DHAL P
                   then upd_info pid (\<lambda>h. h\<lparr>
                          dyn_degree_core := (dyn_degree_core h)[p :=
                             dhal_degree P (curr_useful_core h ! p) (dyn_degree_core h ! p)],
                          curr_sent_core := (curr_sent_core h)[p := 0],
                          curr_useful_core := (curr_useful_core h)[p := 0]\<rparr>) s
                   else s))"

definition pref_ul1evict :: "pref_params \<Rightarrow> uns8 \<Rightarrow> Addr \<Rightarrow> pref_state \<Rightarrow> pref_state" where
  "pref_ul1evict P proc_id a s =
     (if PREF_FRAMEWORK_ON P then s\<lparr>num_ul1_evicted := num_ul1_evicted s + 1\<rparr> else s)"

definition pref_ul1evictOnPF :: "pref_params \<Rightarrow> uns8 \<Rightarrow> uns8 \<Rightarrow> Addr \<Rightarrow> pref_state \<Rightarrow> pref_state option" where
  "pref_ul1evictOnPF P pref_proc_id evicted_proc_id a s =
     (if PREF_FRAMEWORK_ON P \<and> PREF_POLBV_ON P
      then pref_polbv_update_on_evict P pref_proc_id evicted_proc_id a s else Some s)"

text \<open>
  \<^verbatim>\<open>pref_req_drop_process\<close>: the test in the code is on the array pointer, which is never
  \<^verbatim>\<open>NULL\<close>, so the element is decremented unconditionally.
\<close>

definition pref_req_drop_process :: "pref_params \<Rightarrow> uns8 \<Rightarrow> uns8 \<Rightarrow> pref_state \<Rightarrow> pref_state option" where
  "pref_req_drop_process P proc_id pid s =
     (if PREF_FRAMEWORK_ON P \<and> pid \<noteq> 0
      then Some (upd_info pid (\<lambda>h. h\<lparr>curr_sent_core :=
             (curr_sent_core h)[unat proc_id := curr_sent_core h ! unat proc_id - 1]\<rparr>) s)
      else None)"

section \<open>Dispatch to the prefetchers\<close>

text \<open>
  \<^verbatim>\<open>pref_table\<close> holds one \<^verbatim>\<open>HWP\<close> of function pointers per prefetcher. A callback transforms the
  framework's state together with the private state \<open>'w\<close> of the prefetchers, and may fail an
  assertion; a \<^verbatim>\<open>NULL\<close> pointer is \<open>None\<close>.
\<close>

type_synonym 'w step = "pref_state \<times> 'w \<Rightarrow> (pref_state \<times> 'w) option"

record 'w HWP =
  hwp_name :: string
  init_func :: "(nat \<Rightarrow> 'w step) option"
  done_func :: "('w step) option"
  per_core_done_func :: "(uns \<Rightarrow> 'w step) option"
  dl0_miss_func :: "(Addr \<Rightarrow> Addr \<Rightarrow> 'w step) option"
  dl0_hit_func :: "(Addr \<Rightarrow> Addr \<Rightarrow> 'w step) option"
  dl0_pref_hit :: "(Addr \<Rightarrow> Addr \<Rightarrow> 'w step) option"
  umlc_miss_func :: "(uns8 \<Rightarrow> Addr \<Rightarrow> Addr \<Rightarrow> uns32 \<Rightarrow> 'w step) option"
  umlc_hit_func :: "(uns8 \<Rightarrow> Addr \<Rightarrow> Addr \<Rightarrow> uns32 \<Rightarrow> 'w step) option"
  umlc_pref_hit :: "(uns8 \<Rightarrow> Addr \<Rightarrow> Addr \<Rightarrow> uns32 \<Rightarrow> 'w step) option"
  ul1_miss_func :: "(uns8 \<Rightarrow> Addr \<Rightarrow> Addr \<Rightarrow> uns32 \<Rightarrow> 'w step) option"
  ul1_hit_func :: "(uns8 \<Rightarrow> Addr \<Rightarrow> Addr \<Rightarrow> uns32 \<Rightarrow> 'w step) option"
  ul1_pref_hit :: "(uns8 \<Rightarrow> Addr \<Rightarrow> Addr \<Rightarrow> uns32 \<Rightarrow> 'w step) option"

text \<open>The loop over the table: the enabled prefetchers that have the callback, in table order.\<close>

fun dispatch_from :: "nat \<Rightarrow> (('w HWP \<Rightarrow> 'w step option)) \<Rightarrow> 'w HWP list \<Rightarrow> 'w step" where
  "dispatch_from ii sel [] sw = Some sw"
| "dispatch_from ii sel (h # hs) sw =
     (case (if hwp_enabled (hwp_infos (fst sw) ! ii)
            then (case sel h of None \<Rightarrow> Some sw | Some f \<Rightarrow> f sw) else Some sw) of
        None \<Rightarrow> None
      | Some sw \<Rightarrow> dispatch_from (Suc ii) sel hs sw)"

definition dispatch :: "('w HWP \<Rightarrow> 'w step option) \<Rightarrow> 'w HWP list \<Rightarrow> 'w step" where
  "dispatch = dispatch_from 0"

definition lift_pref :: "(pref_state \<Rightarrow> pref_state option) \<Rightarrow> 'w step" where
  "lift_pref f sw = map_option (\<lambda>s. (s, snd sw)) (f (fst sw))"


definition bump_useful :: "uns8 \<Rightarrow> uns8 \<Rightarrow> pref_state \<Rightarrow> pref_state" where
  "bump_useful proc_id pid = upd_info pid (\<lambda>h. h\<lparr>curr_useful_core :=
     (curr_useful_core h)[unat proc_id := curr_useful_core h ! unat proc_id + 1]\<rparr>)"

definition bump_late :: "uns8 \<Rightarrow> uns8 \<Rightarrow> pref_state \<Rightarrow> pref_state" where
  "bump_late proc_id pid = upd_info pid (\<lambda>h. h\<lparr>curr_late_core :=
     (curr_late_core h)[unat proc_id := curr_late_core h ! unat proc_id + 1]\<rparr>)"

definition polbv_on_miss :: "pref_params \<Rightarrow> uns8 \<Rightarrow> Addr \<Rightarrow> 'w step" where
  "polbv_on_miss P proc_id line_addr =
     lift_pref (\<lambda>s. if PREF_POLBV_ON P then pref_polbv_lookup_on_miss P proc_id line_addr s else Some s)"

definition pref_dl0_miss :: "pref_params \<Rightarrow> 'w HWP list \<Rightarrow> Addr \<Rightarrow> Addr \<Rightarrow> 'w step" where
  "pref_dl0_miss P tbl line_addr load_PC sw =
     (if PREF_FRAMEWORK_ON P \<and> PREF_DL0_MISS_ON P
      then dispatch (\<lambda>h. map_option (\<lambda>f. f line_addr load_PC) (dl0_miss_func h)) tbl sw else Some sw)"

definition pref_dl0_hit :: "pref_params \<Rightarrow> 'w HWP list \<Rightarrow> Addr \<Rightarrow> Addr \<Rightarrow> 'w step" where
  "pref_dl0_hit P tbl line_addr load_PC sw =
     (if PREF_FRAMEWORK_ON P \<and> PREF_DL0_HIT_ON P
      then dispatch (\<lambda>h. map_option (\<lambda>f. f line_addr load_PC) (dl0_hit_func h)) tbl sw else Some sw)"

definition pref_dl0_pref_hit :: "pref_params \<Rightarrow> 'w HWP list \<Rightarrow> Addr \<Rightarrow> Addr \<Rightarrow> uns8 \<Rightarrow> 'w step" where
  "pref_dl0_pref_hit P tbl line_addr load_PC pid sw =
     (if PREF_FRAMEWORK_ON P \<and> pid \<noteq> 0 \<and> PREF_DL0_HIT_ON P
      then dispatch (\<lambda>h. map_option (\<lambda>f. f line_addr load_PC) (dl0_pref_hit h)) tbl sw else Some sw)"

definition pref_umlc_miss :: "pref_params \<Rightarrow> 'w HWP list \<Rightarrow> uns8 \<Rightarrow> Addr \<Rightarrow> Addr \<Rightarrow> uns32 \<Rightarrow> 'w step" where
  "pref_umlc_miss P tbl proc_id line_addr load_PC ghist sw =
     (if \<not> PREF_FRAMEWORK_ON P then Some sw
      else case polbv_on_miss P proc_id line_addr sw of
        None \<Rightarrow> None
      | Some sw \<Rightarrow> dispatch (\<lambda>h. map_option (\<lambda>f. f proc_id line_addr load_PC ghist) (umlc_miss_func h)) tbl sw)"

definition pref_umlc_hit :: "pref_params \<Rightarrow> 'w HWP list \<Rightarrow> uns8 \<Rightarrow> Addr \<Rightarrow> Addr \<Rightarrow> uns32 \<Rightarrow> 'w step" where
  "pref_umlc_hit P tbl proc_id line_addr load_PC ghist sw =
     (if \<not> PREF_FRAMEWORK_ON P then Some sw
      else dispatch (\<lambda>h. map_option (\<lambda>f. f proc_id line_addr load_PC ghist) (umlc_hit_func h)) tbl sw)"

text \<open>\<^verbatim>\<open>lru_position\<close> is passed along and read by nobody.\<close>

definition pref_umlc_pref_hit ::
    "pref_params \<Rightarrow> 'w HWP list \<Rightarrow> uns8 \<Rightarrow> Addr \<Rightarrow> Addr \<Rightarrow> uns32 \<Rightarrow> cint \<Rightarrow> uns8 \<Rightarrow> 'w step" where
  "pref_umlc_pref_hit P tbl proc_id line_addr load_PC ghist lru_position pid sw =
     (if pid = 0 \<or> \<not> PREF_FRAMEWORK_ON P then Some sw
      else dispatch (\<lambda>h. map_option (\<lambda>f. f proc_id line_addr load_PC ghist) (umlc_pref_hit h)) tbl
             (bump_useful proc_id pid (fst sw), snd sw))"

text \<open>
  The late variant calls \<^verbatim>\<open>pref_umlc_pref_hit(proc_id, line_addr, -1, load_PC, global_hist, id)\<close>,
  with the arguments in that order: the load PC of the callback is \<open>-1\<close> and its history is the
  truncated load PC.
\<close>

definition pref_umlc_pref_hit_late ::
    "pref_params \<Rightarrow> 'w HWP list \<Rightarrow> uns8 \<Rightarrow> Addr \<Rightarrow> Addr \<Rightarrow> uns32 \<Rightarrow> uns8 \<Rightarrow> 'w step" where
  "pref_umlc_pref_hit_late P tbl proc_id line_addr load_PC ghist pid sw =
     (if \<not> PREF_FRAMEWORK_ON P \<or> pid = 0 then Some sw
      else pref_umlc_pref_hit P tbl proc_id line_addr (- 1) (ucast load_PC) ghist pid
             (bump_late proc_id pid (fst sw), snd sw))"

definition pref_ul1_miss :: "pref_params \<Rightarrow> 'w HWP list \<Rightarrow> uns8 \<Rightarrow> Addr \<Rightarrow> Addr \<Rightarrow> uns32 \<Rightarrow> 'w step" where
  "pref_ul1_miss P tbl proc_id line_addr load_PC ghist sw =
     (if \<not> PREF_FRAMEWORK_ON P \<or> (DUMB_CORE_ON P \<and> DUMB_CORE P = ucast proc_id) then Some sw
      else let s = fst sw;
               s = s\<lparr>curr_num_ul1_misses := curr_num_ul1_misses s + 1\<rparr>;
               s = upd_core P proc_id (\<lambda>c. c\<lparr>curr_ul1_misses := curr_ul1_misses c + 1\<rparr>) s
           in case polbv_on_miss P proc_id line_addr (s, snd sw) of
                None \<Rightarrow> None
              | Some sw \<Rightarrow>
                  dispatch (\<lambda>h. map_option (\<lambda>f. f proc_id line_addr load_PC ghist) (ul1_miss_func h)) tbl sw)"

definition pref_ul1_hit :: "pref_params \<Rightarrow> 'w HWP list \<Rightarrow> uns8 \<Rightarrow> Addr \<Rightarrow> Addr \<Rightarrow> uns32 \<Rightarrow> 'w step" where
  "pref_ul1_hit P tbl proc_id line_addr load_PC ghist sw =
     (if \<not> PREF_FRAMEWORK_ON P \<or> (DUMB_CORE_ON P \<and> DUMB_CORE P = ucast proc_id) then Some sw
      else dispatch (\<lambda>h. map_option (\<lambda>f. f proc_id line_addr load_PC ghist) (ul1_hit_func h)) tbl sw)"

definition pref_ul1_pref_hit ::
    "pref_params \<Rightarrow> 'w HWP list \<Rightarrow> uns8 \<Rightarrow> Addr \<Rightarrow> Addr \<Rightarrow> uns32 \<Rightarrow> cint \<Rightarrow> uns8 \<Rightarrow> 'w step" where
  "pref_ul1_pref_hit P tbl proc_id line_addr load_PC ghist lru_position pid sw =
     (if pid = 0 \<or> \<not> PREF_FRAMEWORK_ON P then Some sw
      else dispatch (\<lambda>h. map_option (\<lambda>f. f proc_id line_addr load_PC ghist) (ul1_pref_hit h)) tbl
             (bump_useful proc_id pid (fst sw), snd sw))"

definition pref_ul1_pref_hit_late ::
    "pref_params \<Rightarrow> 'w HWP list \<Rightarrow> uns8 \<Rightarrow> Addr \<Rightarrow> Addr \<Rightarrow> uns32 \<Rightarrow> uns8 \<Rightarrow> 'w step" where
  "pref_ul1_pref_hit_late P tbl proc_id line_addr load_PC ghist pid sw =
     (if \<not> PREF_FRAMEWORK_ON P \<or> pid = 0 then Some sw
      else case pref_ul1_pref_hit P tbl proc_id line_addr load_PC ghist (- 1) pid
                  (bump_late proc_id pid (fst sw), snd sw) of
        None \<Rightarrow> None
      | Some sw \<Rightarrow>
          (case (if PREF_REPORT_PREF_MATCH_AS_MISS P
                 then pref_ul1_miss P tbl proc_id line_addr load_PC ghist sw else Some sw) of
             None \<Rightarrow> None
           | Some sw \<Rightarrow> (if PREF_REPORT_PREF_MATCH_AS_HIT P
                         then pref_ul1_hit P tbl proc_id line_addr load_PC ghist sw else Some sw)))"

definition pref_per_core_done :: "'w HWP list \<Rightarrow> uns \<Rightarrow> 'w step" where
  "pref_per_core_done tbl proc_id = dispatch (\<lambda>h. map_option (\<lambda>f. f proc_id) (per_core_done_func h)) tbl"

definition pref_done :: "pref_params \<Rightarrow> 'w HWP list \<Rightarrow> 'w step" where
  "pref_done P tbl sw = (if PREF_FRAMEWORK_ON P then dispatch done_func tbl sw else Some sw)"

section \<open>Well-formed states\<close>

definition wf_params :: "pref_params \<Rightarrow> bool" where
  "wf_params P \<longleftrightarrow> 0 < PREF_DL0REQ_QUEUE_SIZE P \<and> 0 < PREF_UMLC_REQ_QUEUE_SIZE P \<and>
     0 < PREF_UL1REQ_QUEUE_SIZE P \<and> 0 < NUM_CORES P \<and> NUM_CORES P \<le> 64"

definition wf_core :: "pref_params \<Rightarrow> HWP_Core \<Rightarrow> bool" where
  "wf_core P c \<longleftrightarrow>
     length (dl0req_queue c) = unat (PREF_DL0REQ_QUEUE_SIZE P) \<and>
     length (umlc_req_queue c) = unat (PREF_UMLC_REQ_QUEUE_SIZE P) \<and>
     length (ul1req_queue c) = unat (PREF_UL1REQ_QUEUE_SIZE P) \<and>
     (dl0req_queue_req_pos c = - 1 \<or> dl0req_queue_req_pos c < PREF_DL0REQ_QUEUE_SIZE P) \<and>
     (umlc_req_queue_req_pos c = - 1 \<or> umlc_req_queue_req_pos c < PREF_UMLC_REQ_QUEUE_SIZE P) \<and>
     (ul1req_queue_req_pos c = - 1 \<or> ul1req_queue_req_pos c < PREF_UL1REQ_QUEUE_SIZE P)"

definition wf_pref :: "pref_params \<Rightarrow> pref_state \<Rightarrow> bool" where
  "wf_pref P s \<longleftrightarrow> length (cores_array s) = unat (NUM_CORES P) \<and> list_all (wf_core P) (cores_array s)"

definition core_ok :: "pref_params \<Rightarrow> uns8 \<Rightarrow> bool" where
  "core_ok P proc_id \<longleftrightarrow> unat proc_id < unat (NUM_CORES P)"

lemma core_ix_lt [simp]: "core_ok P p \<Longrightarrow> core_ix P p < unat (NUM_CORES P)"
  by (auto simp: core_ok_def core_ix_def)

lemma wf_pref_core [dest]: "wf_pref P s \<Longrightarrow> core_ok P p \<Longrightarrow> wf_core P (the_core P p s)"
  by (auto simp: wf_pref_def the_core_def list_all_length)

lemma wf_upd_core [inv_intros]:
  "wf_pref P s \<Longrightarrow> core_ok P p \<Longrightarrow> wf_core P (f (the_core P p s)) \<Longrightarrow> wf_pref P (upd_core P p f s)"
  by (auto simp: wf_pref_def upd_core_def list_all_length nth_list_update)

lemma ring_next_lt: "0 < qsize \<Longrightarrow> ring_next pos qsize < qsize"
  by (simp add: ring_next_def word_mod_less_divisor)

lemma ring_next_nat: "0 < qsize \<Longrightarrow> unat (ring_next pos qsize) < unat qsize"
  using ring_next_lt [of qsize pos] by (simp add: word_less_nat_alt)

end
