(* ===== verification/Pref_Queue.thy ===== *)
theory Pref_Queue
  imports Pref_Common
begin

text \<open>
  What the request queues of \<^verbatim>\<open>prefetcher/pref_common.c\<close> promise to the prefetchers: the locale
  \<open>prefetch_sink\<close> states the contract of an insertion, its client lemmas are proved once, and the
  three insertion functions of the framework are interpreted in it.
\<close>

section \<open>The contract of an insertion\<close>

locale prefetch_sink =
  fixes add :: "Addr \<Rightarrow> 's \<Rightarrow> bool \<times> 's"
    and entries :: "'s \<Rightarrow> Pref_Mem_Req list"
    and inv :: "'s \<Rightarrow> bool"
    and lossy :: bool
  assumes add_inv: "inv s \<Longrightarrow> inv (snd (add a s))"
    and add_length: "inv s \<Longrightarrow> length (entries (snd (add a s))) = length (entries s)"
    and add_only: "inv s \<Longrightarrow> r \<in> set (entries (snd (add a s))) \<Longrightarrow>
          r \<in> set (entries s) \<or> (pmr_valid r \<and> pmr_line_index r = a \<and> a \<noteq> 0)"
    and add_present: "inv s \<Longrightarrow> fst (add a s) \<Longrightarrow> a \<noteq> 0 \<Longrightarrow>
          a \<in> pmr_line_index ` set (entries (snd (add a s)))"
    and add_refused: "inv s \<Longrightarrow> \<not> fst (add a s) \<Longrightarrow> entries (snd (add a s)) = entries s"
    and add_keeps: "inv s \<Longrightarrow> \<not> lossy \<Longrightarrow> r \<in> set (entries s) \<Longrightarrow> pmr_valid r \<Longrightarrow>
          r \<in> set (entries (snd (add a s)))"
begin

text \<open>A prefetcher offers several lines in a row and ignores which of them were taken.\<close>

definition add_all :: "Addr list \<Rightarrow> 's \<Rightarrow> 's" where
  "add_all as s = fold (\<lambda>a s. snd (add a s)) as s"

lemma add_all_simps [simp]:
  "add_all [] s = s"
  "add_all (a # as) s = add_all as (snd (add a s))"
  by (simp_all add: add_all_def)

lemma add_all_inv: "inv s \<Longrightarrow> inv (add_all as s)"
  by (induction as arbitrary: s) (auto simp: add_inv)

lemma add_all_length: "inv s \<Longrightarrow> length (entries (add_all as s)) = length (entries s)"
  by (induction as arbitrary: s) (auto simp: add_inv add_length)

lemma add_all_only:
  "inv s \<Longrightarrow> r \<in> set (entries (add_all as s)) \<Longrightarrow>
     r \<in> set (entries s) \<or> (pmr_valid r \<and> pmr_line_index r \<in> set as)"
proof (induction as arbitrary: s)
  case Nil
  then show ?case by simp
next
  case (Cons a as)
  from Cons.prems have "inv (snd (add a s))" "r \<in> set (entries (add_all as (snd (add a s))))"
    by (simp_all add: add_inv)
  from Cons.IH [OF this] add_only [OF Cons.prems(1), of r a] show ?case by auto
qed

lemma add_all_keeps:
  "inv s \<Longrightarrow> \<not> lossy \<Longrightarrow> r \<in> set (entries s) \<Longrightarrow> pmr_valid r \<Longrightarrow> r \<in> set (entries (add_all as s))"
  by (induction as arbitrary: s) (auto simp: add_inv add_keeps)

end

section \<open>Frame facts of the feedback update\<close>

lemma the_core_upd_frame:
  assumes "\<And>c. g (f c) = g c"
  shows "g (the_core P q (upd_core P p f s)) = g (the_core P q s)"
proof (cases "core_ix P q = core_ix P p \<and> core_ix P p < length (cores_array s)")
  case True
  with assms show ?thesis by (simp add: the_core_def upd_core_def)
next
  case False
  then show ?thesis
    by (cases "core_ix P p < length (cores_array s)")
      (auto simp: the_core_def upd_core_def nth_list_update list_update_beyond)
qed

lemma wf_upd_core_frame:
  assumes "wf_pref P s" and "\<And>c. wf_core P (f c) = wf_core P c"
  shows "wf_pref P (upd_core P p f s)"
  using assms by (cases "core_ix P p < length (cores_array s)")
    (auto simp: wf_pref_def upd_core_def the_core_def list_all_length nth_list_update list_update_beyond)

lemma the_core_misc [simp]:
  "the_core P q (s\<lparr>num_ul1_evicted := x\<rparr>) = the_core P q s"
  "the_core P q (s\<lparr>num_ul1_misses := x\<rparr>) = the_core P q s"
  "the_core P q (s\<lparr>curr_num_ul1_misses := x\<rparr>) = the_core P q s"
  "the_core P q (s\<lparr>prev_num_ul1_evicted := x\<rparr>) = the_core P q s"
  by (simp_all add: the_core_def)

lemma feed_back_core_frame:
  "ul1req_queue (the_core P q (feed_back_core P pid p s)) = ul1req_queue (the_core P q s)"
  "ul1req_queue_req_pos (the_core P q (feed_back_core P pid p s)) = ul1req_queue_req_pos (the_core P q s)"
  "cycle_count (feed_back_core P pid p s) = cycle_count s"
  by (simp_all add: feed_back_core_def Let_def frame_simps the_core_upd_frame)

lemma wf_pref_misc [simp]:
  "wf_pref P (s\<lparr>num_ul1_evicted := x\<rparr>) = wf_pref P s"
  "wf_pref P (s\<lparr>num_ul1_misses := x\<rparr>) = wf_pref P s"
  "wf_pref P (s\<lparr>curr_num_ul1_misses := x\<rparr>) = wf_pref P s"
  "wf_pref P (s\<lparr>prev_num_ul1_evicted := x\<rparr>) = wf_pref P s"
  "wf_pref P (upd_info i f s) = wf_pref P s"
  by (simp_all add: wf_pref_def upd_info_def)

lemma core_ok_of_nat: "wf_params P \<Longrightarrow> p < unat (NUM_CORES P) \<Longrightarrow> core_ok P (of_nat p)"
  by (auto simp: core_ok_def wf_params_def word_le_nat_alt unat_of_nat)

lemma wf_feed_back_core:
  "wf_pref P s \<Longrightarrow> wf_pref P (feed_back_core P pid p s)"
  by (auto simp: feed_back_core_def Let_def wf_core_def intro!: wf_upd_core_frame)

lemma fold_frame:
  "(\<And>x s. x \<in> set xs \<Longrightarrow> g (f x s) = g s) \<Longrightarrow> g (fold f xs s) = g s"
  by (induction xs arbitrary: s) auto

lemma fold_inv:
  "(\<And>x s. x \<in> set xs \<Longrightarrow> I s \<Longrightarrow> I (f x s)) \<Longrightarrow> I s \<Longrightarrow> I (fold f xs s)"
  by (induction xs arbitrary: s) auto

lemma feed_back_frame [simp]:
  "ul1req_queue (the_core P q (pref_feed_back_info_update P pid s)) = ul1req_queue (the_core P q s)"
  "ul1req_queue_req_pos (the_core P q (pref_feed_back_info_update P pid s)) = ul1req_queue_req_pos (the_core P q s)"
  "cycle_count (pref_feed_back_info_update P pid s) = cycle_count s"
  by (simp_all add: pref_feed_back_info_update_def Let_def feed_back_core_frame
      fold_frame [where g = "\<lambda>s. ul1req_queue (the_core P q s)"]
      fold_frame [where g = "\<lambda>s. ul1req_queue_req_pos (the_core P q s)"]
      fold_frame [where g = cycle_count])

lemma wf_feed_back [inv_intros]:
  "wf_pref P s \<Longrightarrow> wf_pref P (pref_feed_back_info_update P pid s)"
  unfolding pref_feed_back_info_update_def Let_def
  by (auto intro!: fold_inv [where I = "wf_pref P"] wf_feed_back_core)


section \<open>The three queues keep the contract\<close>

lemma the_core_upd_wf [simp]:
  "wf_pref P s \<Longrightarrow> core_ok P p \<Longrightarrow> the_core P p (upd_core P p f s) = f (the_core P p s)"
  by (simp add: wf_pref_def)

lemma upd_keeps: "\<not> P (q ! i) \<Longrightarrow> r \<in> set q \<Longrightarrow> P r \<Longrightarrow> r \<in> set (q[i := x])"
  by (auto simp: in_set_conv_nth nth_list_update) (metis length_list_update nth_list_update_neq)

lemma queue_has_indexD: "queue_has_index q a \<Longrightarrow> a \<in> pmr_line_index ` set q"
  by (auto simp: queue_has_index_def list_ex_iff)

lemma wf_core_slot:
  assumes "wf_core P c" and "wf_params P"
  shows "unat (ring_next (dl0req_queue_req_pos c) (PREF_DL0REQ_QUEUE_SIZE P)) < length (dl0req_queue c)"
    and "unat (ring_next (umlc_req_queue_req_pos c) (PREF_UMLC_REQ_QUEUE_SIZE P)) < length (umlc_req_queue c)"
    and "unat (ring_next (ul1req_queue_req_pos c) (PREF_UL1REQ_QUEUE_SIZE P)) < length (ul1req_queue c)"
  using assms by (simp_all add: wf_core_def wf_params_def ring_next_nat)

lemma wf_core_put:
  assumes "wf_core P c" and "wf_params P"
  shows "wf_core P (c\<lparr>dl0req_queue_req_pos := ring_next pos (PREF_DL0REQ_QUEUE_SIZE P),
            dl0req_queue := (dl0req_queue c)[i := r]\<rparr>)"
    and "wf_core P (c\<lparr>umlc_req_queue_req_pos := ring_next pos (PREF_UMLC_REQ_QUEUE_SIZE P),
            umlc_req_queue := (umlc_req_queue c)[i := r]\<rparr>)"
    and "wf_core P (c\<lparr>ul1req_queue_req_pos := ring_next pos (PREF_UL1REQ_QUEUE_SIZE P),
            ul1req_queue := (ul1req_queue c)[i := r]\<rparr>)"
  using assms by (auto simp: wf_core_def wf_params_def ring_next_lt)

definition queue_inv :: "pref_params \<Rightarrow> uns8 \<Rightarrow> pref_state \<Rightarrow> bool" where
  "queue_inv P p s \<longleftrightarrow> wf_params P \<and> core_ok P p \<and> wf_pref P s"

lemma queue_invD:
  "queue_inv P p s \<Longrightarrow> wf_params P \<and> core_ok P p \<and> wf_pref P s \<and> wf_core P (the_core P p s)"
  by (auto simp: queue_inv_def)

interpretation dl0q: prefetch_sink "\<lambda>a. pref_addto_dl0req_queue P p a i" "\<lambda>s. dl0req_queue (the_core P p s)"
  "queue_inv P p" "PREF_DL0REQ_QUEUE_OVERWRITE_ON_FULL P" for P p i
proof unfold_locales
  fix s :: pref_state and a r
  let ?res = "pref_addto_dl0req_queue P p a i s" and ?q = "\<lambda>s. dl0req_queue (the_core P p s)"
  assume inv: "queue_inv P p s"
  note w = queue_invD [OF inv]
  note slot = wf_core_slot(1) [OF conjunct2 [OF conjunct2 [OF conjunct2 [OF w]]] conjunct1 [OF w]]
  show "queue_inv P p (snd ?res)"
    using w by (auto simp: pref_addto_dl0req_queue_def Let_def queue_inv_def intro!: wf_upd_core wf_core_put)
  show "length (?q (snd ?res)) = length (?q s)"
    using w by (simp add: pref_addto_dl0req_queue_def Let_def)
  show "r \<in> set (?q s) \<or> (pmr_valid r \<and> pmr_line_index r = a \<and> a \<noteq> 0)" if "r \<in> set (?q (snd ?res))"
    using w that by (auto simp: pref_addto_dl0req_queue_def Let_def split: if_splits dest!: in_set_updD)
  show "a \<in> pmr_line_index ` set (?q (snd ?res))" if "fst ?res" "a \<noteq> 0"
    using w that slot by (auto simp: pref_addto_dl0req_queue_def Let_def image_iff
        split: if_splits dest!: queue_has_indexD intro!: bexI [OF _ set_update_memI])
  show "?q (snd ?res) = ?q s" if "\<not> fst ?res"
    using that by (auto simp: pref_addto_dl0req_queue_def Let_def split: if_splits)
  show "r \<in> set (?q (snd ?res))"
    if "\<not> PREF_DL0REQ_QUEUE_OVERWRITE_ON_FULL P" "r \<in> set (?q s)" "pmr_valid r"
    using w that by (auto simp: pref_addto_dl0req_queue_def Let_def ring_full_def intro: upd_keeps)
qed

interpretation umlcq: prefetch_sink "\<lambda>a. pref_addto_umlc_req_queue P p a i" "\<lambda>s. umlc_req_queue (the_core P p s)"
  "queue_inv P p" "PREF_UMLC_REQ_QUEUE_OVERWRITE_ON_FULL P" for P p i
proof unfold_locales
  fix s :: pref_state and a r
  let ?res = "pref_addto_umlc_req_queue P p a i s" and ?q = "\<lambda>s. umlc_req_queue (the_core P p s)"
  assume inv: "queue_inv P p s"
  note w = queue_invD [OF inv]
  note slot = wf_core_slot(2) [OF conjunct2 [OF conjunct2 [OF conjunct2 [OF w]]] conjunct1 [OF w]]
  show "queue_inv P p (snd ?res)"
    using w by (auto simp: pref_addto_umlc_req_queue_def Let_def queue_inv_def intro!: wf_upd_core wf_core_put)
  show "length (?q (snd ?res)) = length (?q s)"
    using w by (simp add: pref_addto_umlc_req_queue_def Let_def)
  show "r \<in> set (?q s) \<or> (pmr_valid r \<and> pmr_line_index r = a \<and> a \<noteq> 0)" if "r \<in> set (?q (snd ?res))"
    using w that by (auto simp: pref_addto_umlc_req_queue_def Let_def split: if_splits dest!: in_set_updD)
  show "a \<in> pmr_line_index ` set (?q (snd ?res))" if "fst ?res" "a \<noteq> 0"
    using w that slot by (auto simp: pref_addto_umlc_req_queue_def Let_def image_iff
        split: if_splits dest!: queue_has_indexD intro!: bexI [OF _ set_update_memI])
  show "?q (snd ?res) = ?q s" if "\<not> fst ?res"
    using that by (auto simp: pref_addto_umlc_req_queue_def Let_def split: if_splits)
  show "r \<in> set (?q (snd ?res))"
    if "\<not> PREF_UMLC_REQ_QUEUE_OVERWRITE_ON_FULL P" "r \<in> set (?q s)" "pmr_valid r"
    using w that by (auto simp: pref_addto_umlc_req_queue_def Let_def ring_full_def intro: upd_keeps)
qed

interpretation ul1q: prefetch_sink "\<lambda>a. pref_addto_ul1req_queue_set P p a i d pc gh bw"
  "\<lambda>s. ul1req_queue (the_core P p s)" "queue_inv P p" "PREF_UL1REQ_QUEUE_OVERWRITE_ON_FULL P"
  for P p i d pc gh bw
proof unfold_locales
  fix s :: pref_state and a r
  let ?res = "pref_addto_ul1req_queue_set P p a i d pc gh bw s" and ?q = "\<lambda>s. ul1req_queue (the_core P p s)"
  assume inv: "queue_inv P p s"
  note w = queue_invD [OF inv]
  have wf': "wf_pref P (pref_feed_back_info_update P i s)" using w by (simp add: wf_feed_back)
  with w have c': "wf_core P (the_core P p (pref_feed_back_info_update P i s))" by auto
  note slot = wf_core_slot(3) [OF conjunct2 [OF conjunct2 [OF conjunct2 [OF w]]] conjunct1 [OF w]]
  show "queue_inv P p (snd ?res)"
    using w wf' c' by (auto simp: pref_addto_ul1req_queue_set_def Let_def queue_inv_def intro!: wf_upd_core wf_core_put)
  show "length (?q (snd ?res)) = length (?q s)"
    using w wf' by (simp add: pref_addto_ul1req_queue_set_def Let_def)
  show "r \<in> set (?q s) \<or> (pmr_valid r \<and> pmr_line_index r = a \<and> a \<noteq> 0)" if "r \<in> set (?q (snd ?res))"
    using w wf' that by (auto simp: pref_addto_ul1req_queue_set_def Let_def split: if_splits dest!: in_set_updD)
  show "a \<in> pmr_line_index ` set (?q (snd ?res))" if "fst ?res" "a \<noteq> 0"
    using w wf' that slot by (auto simp: pref_addto_ul1req_queue_set_def Let_def image_iff
        split: if_splits dest!: queue_has_indexD intro!: bexI [OF _ set_update_memI])
  show "?q (snd ?res) = ?q s" if "\<not> fst ?res"
    using that by (auto simp: pref_addto_ul1req_queue_set_def Let_def split: if_splits)
  show "r \<in> set (?q (snd ?res))"
    if "\<not> PREF_UL1REQ_QUEUE_OVERWRITE_ON_FULL P" "r \<in> set (?q s)" "pmr_valid r"
    using w wf' that by (auto simp: pref_addto_ul1req_queue_set_def Let_def ring_full_def intro: upd_keeps)
qed

end
