(* ===== verification/Pref_SPP.thy ===== *)
theory Pref_SPP
  imports Pref_Queue
begin

text \<open>
  The Signature Path Prefetcher, \<^verbatim>\<open>prefetcher/pref_spp.c\<close> and \<^verbatim>\<open>pref_spp.h\<close>, function by function:
  the hash, the signature table, the pattern table, the prefetch filter, the global history
  register, the lookahead driver and the framework callbacks.

  The C global \<^verbatim>\<open>spp\<close> is a record; \<open>spp_alloc\<close> says that the pointer is not \<^verbatim>\<open>NULL\<close>. The
  \<^verbatim>\<open>PREF_SPP_*\<close> statistics, which only this file writes, are the field \<open>spp_stats\<close>. A failed
  assertion is \<open>None\<close>.
\<close>

section \<open>Parameters and tables\<close>

record spp_params =
  PREF_SPP_ON :: bool
  PREF_SPP_LOOKAHEAD_ON :: bool
  PREF_SPP_FILTER_ON :: bool
  PREF_SPP_GHR_ON :: bool
  PREF_SPP_MAX_DEPTH :: uns
  PREF_SPP_PF_THRESHOLD :: uns
  PREF_SPP_ISSUE_THRESHOLD :: uns
  PREF_SPP_FILL_THRESHOLD :: uns
  PREF_SPP_ST_SET :: uns
  PREF_SPP_ST_WAY :: uns
  PREF_SPP_ST_TAG_BIT :: uns
  PREF_SPP_SIG_SHIFT :: uns
  PREF_SPP_SIG_BIT :: uns
  PREF_SPP_SIG_DELTA_BIT :: uns
  PREF_SPP_PT_SET :: uns
  PREF_SPP_PT_WAY :: uns
  PREF_SPP_C_SIG_BIT :: uns
  PREF_SPP_C_DELTA_BIT :: uns
  PREF_SPP_QUOTIENT_BIT :: uns
  PREF_SPP_REMAINDER_BIT :: uns
  PREF_SPP_GHR_ENTRIES :: uns
  PREF_SPP_GLOBAL_CTR_BIT :: uns
  VA_PAGE_SIZE_BYTES :: uns

datatype Spp_Filter_Req =
  SPP_FILTER_L2_PREFETCH | SPP_FILTER_LLC_PREFETCH | SPP_FILTER_DEMAND | SPP_FILTER_EVICT

record Spp_ST_Entry =
  ste_valid :: bool
  ste_tag :: uns
  ste_sig :: uns
  ste_last_offset :: uns
  ste_lru :: uns

record Spp_PT_Way =
  ptw_delta :: cint
  ptw_c_delta :: uns

record Spp_PT_Set =
  pts_ways :: "Spp_PT_Way list"
  pts_c_sig :: uns

record Spp_Filter_Entry =
  fe_valid :: bool
  fe_useful :: bool
  fe_remainder_tag :: uns

record Spp_GHR_Entry =
  ghre_valid :: bool
  ghre_sig :: uns
  ghre_confidence :: uns
  ghre_offset :: uns
  ghre_delta :: cint

datatype spp_stat =
    PREF_SPP_OPERATE | PREF_SPP_ST_HIT | PREF_SPP_ST_MISS_INSTALL | PREF_SPP_GHR_BOOT
  | PREF_SPP_PF_ISSUED_L2 | PREF_SPP_PF_ISSUED_LLC | PREF_SPP_PF_FILTERED | PREF_SPP_PF_PAGE_CROSS
  | PREF_SPP_PF_USEFUL | PREF_SPP_LOOKAHEAD_DEPTH_TOTAL | PREF_SPP_LOOKAHEAD_DEPTH nat

record Pref_SPP =
  spp_alloc :: bool
  spp_hwp_id :: uns8
  spp_st :: "Spp_ST_Entry list list"
  spp_pt :: "Spp_PT_Set list"
  spp_filter :: "Spp_Filter_Entry list"
  spp_ghrs :: "Spp_GHR_Entry list"
  pf_useful :: uns64
  pf_issued :: uns64
  global_accuracy_pct :: uns
  sig_mask :: uns
  sig_delta_sign_bit :: uns
  st_tag_mask :: uns
  filter_set :: uns
  global_counter_max :: uns
  spp_stats :: "uns8 \<Rightarrow> spp_stat \<Rightarrow> Counter"

definition INC_STAT_EVENT :: "uns8 \<Rightarrow> spp_stat \<Rightarrow> Counter \<Rightarrow> Pref_SPP \<Rightarrow> Pref_SPP" where
  "INC_STAT_EVENT p ev n s =
     s\<lparr>spp_stats := (spp_stats s)(p := (spp_stats s p)(ev := spp_stats s p ev + n))\<rparr>"

definition STAT_EVENT :: "uns8 \<Rightarrow> spp_stat \<Rightarrow> Pref_SPP \<Rightarrow> Pref_SPP" where
  "STAT_EVENT p ev = INC_STAT_EVENT p ev 1"

section \<open>Helpers\<close>

definition spp_hash64 :: "uns64 \<Rightarrow> uns64" where
  "spp_hash64 key =
     (let key = key + push_bit 12 key;
          key = key XOR drop_bit 22 key;
          key = key + push_bit 4 key;
          key = key XOR drop_bit 9 key;
          key = key + push_bit 10 key;
          key = key XOR drop_bit 2 key;
          key = key + push_bit 7 key;
          key = key XOR drop_bit 12 key
      in drop_bit 3 key * 2654435761)"

definition spp_encode_sig_delta :: "Pref_SPP \<Rightarrow> cint \<Rightarrow> uns" where
  "spp_encode_sig_delta s delta =
     (if sint delta < 0 then (- delta) + sig_delta_sign_bit s else delta)"

text \<open>\<^verbatim>\<open>((sig << PREF_SPP_SIG_SHIFT) ^ sig_delta) & spp->sig_mask\<close>, written three times in the code.\<close>

definition spp_mix_sig :: "spp_params \<Rightarrow> Pref_SPP \<Rightarrow> uns \<Rightarrow> cint \<Rightarrow> uns" where
  "spp_mix_sig P s sg delta =
     (push_bit (unat (PREF_SPP_SIG_SHIFT P)) sg XOR spp_encode_sig_delta s delta) AND sig_mask s"

text \<open>\<^verbatim>\<open>(uns)(spp_hash64(key) % n)\<close> as an index.\<close>

definition spp_set_index :: "uns64 \<Rightarrow> uns \<Rightarrow> nat" where
  "spp_set_index key n = unat (ucast (spp_hash64 key mod ucast n) :: uns)"

section \<open>Signature table\<close>

text \<open>
  The promotion of the matched way to most recently used. The loop asserts that no counter reaches
  \<^verbatim>\<open>st_way\<close>.
\<close>

definition spp_lru_promote :: "uns \<Rightarrow> nat \<Rightarrow> Spp_ST_Entry list \<Rightarrow> Spp_ST_Entry list option" where
  "spp_lru_promote st_way match row =
     (let matched_lru = ste_lru (row ! match);
          row' = map (\<lambda>e. if ste_lru e < matched_lru then e\<lparr>ste_lru := ste_lru e + 1\<rparr> else e) row
      in if list_all (\<lambda>e. ste_lru e < matched_lru \<longrightarrow> ste_lru e + 1 < st_way) row
         then Some (row'[match := (row' ! match)\<lparr>ste_lru := 0\<rparr>])
         else None)"

text \<open>
  The fall-back to the global history register: the valid entry for this offset with the largest
  confidence, the first one on ties, none of confidence 0.
\<close>

fun spp_ghr_best :: "uns \<Rightarrow> nat \<Rightarrow> nat option \<Rightarrow> uns \<Rightarrow> Spp_GHR_Entry list \<Rightarrow> nat option" where
  "spp_ghr_best off i best best_cnf [] = best"
| "spp_ghr_best off i best best_cnf (e # es) =
     (if ghre_valid e \<and> ghre_offset e = off \<and> best_cnf < ghre_confidence e
      then spp_ghr_best off (Suc i) (Some i) (ghre_confidence e) es
      else spp_ghr_best off (Suc i) best best_cnf es)"

definition spp_st_hit :: "uns \<Rightarrow> Spp_ST_Entry \<Rightarrow> bool" where
  "spp_st_hit partial_page e \<longleftrightarrow> ste_valid e \<and> ste_tag e = partial_page"

text \<open>
  Cases 1 to 3 on the row of the page: the way, whether it was a hit, the two signatures and the
  delta, and the new row. \<open>None\<close> is the assertion that an LRU victim exists.
\<close>

definition spp_st_lookup ::
    "spp_params \<Rightarrow> Pref_SPP \<Rightarrow> uns \<Rightarrow> uns \<Rightarrow> Spp_ST_Entry list \<Rightarrow>
       (nat \<times> bool \<times> uns \<times> uns \<times> cint \<times> Spp_ST_Entry list) option" where
  "spp_st_lookup P s partial_page page_offset row =
     (case find_ix (spp_st_hit partial_page) row of
        Some w \<Rightarrow>
          let e = row ! w; delta = page_offset - ste_last_offset e
          in if delta \<noteq> 0 then
               let sg = spp_mix_sig P s (ste_sig e) delta
               in Some (w, True, ste_sig e, sg, delta,
                        row[w := e\<lparr>ste_sig := sg, ste_last_offset := page_offset\<rparr>])
             else Some (w, True, 0, 0, delta, row)
      | None \<Rightarrow>
          (case find_ix (\<lambda>e. \<not> ste_valid e) row of
             Some w \<Rightarrow>
               Some (w, False, 0, 0, 0, row[w := (row ! w)\<lparr>ste_valid := True, ste_tag := partial_page,
                        ste_sig := 0, ste_last_offset := page_offset\<rparr>])
           | None \<Rightarrow>
               (case find_ix (\<lambda>e. ste_lru e = PREF_SPP_ST_WAY P - 1) row of
                  Some w \<Rightarrow>
                    Some (w, False, 0, 0, 0, row[w := (row ! w)\<lparr>ste_tag := partial_page,
                             ste_sig := 0, ste_last_offset := page_offset\<rparr>])
                | None \<Rightarrow> None)))"

definition spp_st_read_and_update ::
    "spp_params \<Rightarrow> Addr \<Rightarrow> uns \<Rightarrow> Pref_SPP \<Rightarrow> ((uns \<times> uns \<times> cint) \<times> Pref_SPP) option" where
  "spp_st_read_and_update P page page_offset s =
     (let set = spp_set_index page (PREF_SPP_ST_SET P);
          partial_page = ucast page AND st_tag_mask s;
          row = spp_st s ! set
      in case spp_st_lookup P s partial_page page_offset row of
           None \<Rightarrow> None
         | Some (match, st_hit, last_sig, curr_sig, delta, row) \<Rightarrow>
             let s = STAT_EVENT 0 (if st_hit then PREF_SPP_ST_HIT else PREF_SPP_ST_MISS_INSTALL) s;
                 best = (if PREF_SPP_GHR_ON P \<and> \<not> st_hit
                         then spp_ghr_best page_offset 0 None 0 (spp_ghrs s) else None);
                 (curr_sig, row, s) =
                   (case best of
                      None \<Rightarrow> (curr_sig, row, s)
                    | Some b \<Rightarrow>
                        let g = spp_ghrs s ! b; sg = spp_mix_sig P s (ghre_sig g) (ghre_delta g)
                        in (sg, row[match := (row ! match)\<lparr>ste_sig := sg\<rparr>], STAT_EVENT 0 PREF_SPP_GHR_BOOT s))
             in (case spp_lru_promote (PREF_SPP_ST_WAY P) match row of
                   None \<Rightarrow> None
                 | Some row \<Rightarrow> Some ((last_sig, curr_sig, delta), s\<lparr>spp_st := (spp_st s)[set := row]\<rparr>)))"

section \<open>Pattern table\<close>

text \<open>\<^verbatim>\<open>pt_row->c_sig++\<close> with the halving of the set when the counter passes its maximum.\<close>

definition spp_pt_bump :: "spp_params \<Rightarrow> Spp_PT_Set \<Rightarrow> Spp_PT_Set" where
  "spp_pt_bump P row =
     (let c_sig_max = push_bit (unat (PREF_SPP_C_SIG_BIT P)) 1 - 1;
          row = row\<lparr>pts_c_sig := pts_c_sig row + 1\<rparr>
      in if c_sig_max < pts_c_sig row
         then row\<lparr>pts_ways := map (\<lambda>w. w\<lparr>ptw_c_delta := drop_bit 1 (ptw_c_delta w)\<rparr>) (pts_ways row),
                  pts_c_sig := drop_bit 1 (pts_c_sig row)\<rparr>
         else row)"

text \<open>The way with the smallest counter, the first one on ties.\<close>

fun spp_pt_victim :: "nat \<Rightarrow> nat \<Rightarrow> uns \<Rightarrow> Spp_PT_Way list \<Rightarrow> nat" where
  "spp_pt_victim w victim min_c [] = victim"
| "spp_pt_victim w victim min_c (x # xs) =
     (if ptw_c_delta x < min_c then spp_pt_victim (Suc w) w (ptw_c_delta x) xs
      else spp_pt_victim (Suc w) victim min_c xs)"

definition spp_pt_update_row :: "spp_params \<Rightarrow> cint \<Rightarrow> Spp_PT_Set \<Rightarrow> Spp_PT_Set" where
  "spp_pt_update_row P curr_delta row =
     (let ways = pts_ways row
      in case find_ix (\<lambda>w. ptw_delta w = curr_delta) ways of
           Some m \<Rightarrow>
             let c = ptw_c_delta (ways ! m);
                 c' = (if c < push_bit (unat (PREF_SPP_C_DELTA_BIT P)) 1 - 1 then c + 1 else c)
             in spp_pt_bump P (row\<lparr>pts_ways := ways[m := (ways ! m)\<lparr>ptw_c_delta := c'\<rparr>]\<rparr>)
         | None \<Rightarrow>
             let victim = spp_pt_victim 1 0 (ptw_c_delta (ways ! 0)) (tl ways)
             in spp_pt_bump P (row\<lparr>pts_ways := ways[victim := \<lparr>ptw_delta = curr_delta, ptw_c_delta = 0\<rparr>]\<rparr>))"

definition spp_pt_update_pattern :: "spp_params \<Rightarrow> uns \<Rightarrow> cint \<Rightarrow> Pref_SPP \<Rightarrow> Pref_SPP" where
  "spp_pt_update_pattern P last_sig curr_delta s =
     (let set = spp_set_index (ucast last_sig) (PREF_SPP_PT_SET P)
      in s\<lparr>spp_pt := (spp_pt s)[set := spp_pt_update_row P curr_delta (spp_pt s ! set)]\<rparr>)"


text \<open>
  \<^verbatim>\<open>spp_pt_read_pattern\<close> writes into the caller's scratch arrays. \<open>spp_pt_scan\<close> is its loop: the
  arrays, the tail, the way chosen so far and its confidence. \<open>path_conf\<close> is the confidence of a
  way, the counter ratio at depth 0 and the alpha-weighted path confidence beyond.
\<close>

definition spp_path_conf :: "Pref_SPP \<Rightarrow> uns \<Rightarrow> uns \<Rightarrow> uns \<Rightarrow> nat \<Rightarrow> uns" where
  "spp_path_conf s c_delta c_sig lookahead_conf depth =
     (if depth = 0 then ucast ((100 * ucast c_delta :: uns64) div ucast c_sig)
      else ucast ((ucast (global_accuracy_pct s) * ucast c_delta :: uns64) div ucast c_sig
                    * ucast lookahead_conf div 100))"

fun spp_pt_scan ::
    "spp_params \<Rightarrow> Pref_SPP \<Rightarrow> uns \<Rightarrow> uns \<Rightarrow> nat \<Rightarrow> nat \<Rightarrow> cint list \<Rightarrow> uns list \<Rightarrow> nat \<Rightarrow> nat option \<Rightarrow> uns \<Rightarrow>
       Spp_PT_Way list \<Rightarrow> cint list \<times> uns list \<times> nat \<times> nat option \<times> uns" where
  "spp_pt_scan P s c_sig la_conf depth w delta_q conf_q tail way max_conf [] =
     (delta_q, conf_q, tail, way, max_conf)"
| "spp_pt_scan P s c_sig la_conf depth w delta_q conf_q tail way max_conf (x # xs) =
     (let path_conf = spp_path_conf s (ptw_c_delta x) c_sig la_conf depth
      in if PREF_SPP_PF_THRESHOLD P \<le> path_conf
         then spp_pt_scan P s c_sig la_conf depth (Suc w)
                (delta_q[tail := ptw_delta x]) (conf_q[tail := path_conf]) (Suc tail)
                (if max_conf < path_conf then Some w else way)
                (if max_conf < path_conf then path_conf else max_conf) xs
         else spp_pt_scan P s c_sig la_conf depth (Suc w) delta_q conf_q tail way max_conf xs)"

text \<open>
  Returns the arrays, the tail, the lookahead way (\<open>None\<close> is \<^verbatim>\<open>pt_way\<close>) and the lookahead
  confidence. An untrained set leaves the confidence as it was.
\<close>

definition spp_pt_read_pattern ::
    "spp_params \<Rightarrow> uns \<Rightarrow> cint list \<Rightarrow> uns list \<Rightarrow> nat \<Rightarrow> uns \<Rightarrow> nat \<Rightarrow> Pref_SPP \<Rightarrow>
       cint list \<times> uns list \<times> nat \<times> nat option \<times> uns" where
  "spp_pt_read_pattern P curr_sig delta_q conf_q tail la_conf depth s =
     (let row = spp_pt s ! spp_set_index (ucast curr_sig) (PREF_SPP_PT_SET P)
      in if pts_c_sig row = 0 then (delta_q, conf_q[tail := 0], tail, None, la_conf)
         else spp_pt_scan P s (pts_c_sig row) la_conf depth 0 delta_q conf_q tail None 0 (pts_ways row))"

section \<open>Prefetch filter\<close>

definition spp_filter_quotient :: "spp_params \<Rightarrow> uns64 \<Rightarrow> nat" where
  "spp_filter_quotient P h =
     unat (ucast (drop_bit (unat (PREF_SPP_REMAINDER_BIT P)) h
                    AND (push_bit (unat (PREF_SPP_QUOTIENT_BIT P)) 1 - 1)) :: uns)"

definition spp_filter_remainder :: "spp_params \<Rightarrow> uns64 \<Rightarrow> uns" where
  "spp_filter_remainder P h = ucast (h AND (push_bit (unat (PREF_SPP_REMAINDER_BIT P)) 1 - 1))"

definition spp_set_filter :: "nat \<Rightarrow> Spp_Filter_Entry \<Rightarrow> Pref_SPP \<Rightarrow> Pref_SPP" where
  "spp_set_filter i e s = s\<lparr>spp_filter := (spp_filter s)[i := e]\<rparr>"

definition spp_count_useful :: "Pref_SPP \<Rightarrow> Pref_SPP" where
  "spp_count_useful s =
     (let s = s\<lparr>pf_useful := pf_useful s + 1\<rparr>
      in if ucast (global_counter_max s) < pf_useful s
         then s\<lparr>pf_useful := drop_bit 1 (pf_useful s), pf_issued := drop_bit 1 (pf_issued s)\<rparr> else s)"

definition spp_count_issued :: "Pref_SPP \<Rightarrow> Pref_SPP" where
  "spp_count_issued s =
     (let s = s\<lparr>pf_issued := pf_issued s + 1\<rparr>
      in if ucast (global_counter_max s) < pf_issued s
         then s\<lparr>pf_issued := drop_bit 1 (pf_issued s), pf_useful := drop_bit 1 (pf_useful s)\<rparr> else s)"

definition spp_filter_check ::
    "pref_params \<Rightarrow> spp_params \<Rightarrow> Addr \<Rightarrow> Spp_Filter_Req \<Rightarrow> Pref_SPP \<Rightarrow> bool \<times> Pref_SPP" where
  "spp_filter_check PC P a req s =
     (if \<not> PREF_SPP_FILTER_ON P then (True, s)
      else let cache_line = drop_bit (LOG2 (DCACHE_LINE_SIZE PC)) a;
               h = spp_hash64 cache_line;
               quotient = spp_filter_quotient P h;
               remainder = spp_filter_remainder P h;
               e = spp_filter s ! quotient
           in case req of
                SPP_FILTER_L2_PREFETCH \<Rightarrow>
                  if (fe_valid e \<or> fe_useful e) \<and> fe_remainder_tag e = remainder then (False, s)
                  else (True, spp_set_filter quotient
                          \<lparr>fe_valid = True, fe_useful = False, fe_remainder_tag = remainder\<rparr> s)
              | SPP_FILTER_LLC_PREFETCH \<Rightarrow>
                  (\<not> ((fe_valid e \<or> fe_useful e) \<and> fe_remainder_tag e = remainder), s)
              | SPP_FILTER_DEMAND \<Rightarrow>
                  if fe_remainder_tag e = remainder \<and> \<not> fe_useful e then
                    let s = spp_set_filter quotient (e\<lparr>fe_useful := True\<rparr>) s
                    in (True, if fe_valid e then spp_count_useful (STAT_EVENT 0 PREF_SPP_PF_USEFUL s) else s)
                  else (True, s)
              | SPP_FILTER_EVICT \<Rightarrow>
                  let s = (if fe_valid e \<and> \<not> fe_useful e \<and> pf_useful s \<noteq> 0
                           then s\<lparr>pf_useful := pf_useful s - 1\<rparr> else s)
                  in (True, spp_set_filter quotient
                        \<lparr>fe_valid = False, fe_useful = False, fe_remainder_tag = 0\<rparr> s))"

section \<open>Global history register\<close>

text \<open>
  The loop of \<^verbatim>\<open>spp_ghr_update\<close>: \<open>Inl i\<close> when entry \<open>i\<close> already holds the offset, \<open>Inr v\<close> with
  the victim (\<open>None\<close> is \<^verbatim>\<open>PREF_SPP_GHR_ENTRIES\<close>) when the loop runs to its end.
\<close>

fun spp_ghr_scan :: "uns \<Rightarrow> nat \<Rightarrow> nat option \<Rightarrow> uns \<Rightarrow> Spp_GHR_Entry list \<Rightarrow> nat + nat option" where
  "spp_ghr_scan off i victim min_c [] = Inr victim"
| "spp_ghr_scan off i victim min_c (e # es) =
     (if ghre_valid e \<and> ghre_offset e = off then Inl i
      else if ghre_confidence e < min_c then spp_ghr_scan off (Suc i) (Some i) (ghre_confidence e) es
      else spp_ghr_scan off (Suc i) victim min_c es)"

definition spp_ghr_update :: "spp_params \<Rightarrow> uns \<Rightarrow> uns \<Rightarrow> uns \<Rightarrow> cint \<Rightarrow> Pref_SPP \<Rightarrow> Pref_SPP option" where
  "spp_ghr_update P pf_sig pf_conf pf_offset pf_delta s =
     (if \<not> PREF_SPP_GHR_ON P then Some s
      else case spp_ghr_scan pf_offset 0 None (- 1) (spp_ghrs s) of
        Inl i \<Rightarrow> Some (s\<lparr>spp_ghrs := (spp_ghrs s)[i := (spp_ghrs s ! i)\<lparr>ghre_sig := pf_sig,
                   ghre_confidence := pf_conf, ghre_delta := pf_delta\<rparr>]\<rparr>)
      | Inr None \<Rightarrow> None
      | Inr (Some v) \<Rightarrow> Some (s\<lparr>spp_ghrs := (spp_ghrs s)[v := \<lparr>ghre_valid = True, ghre_sig = pf_sig,
                   ghre_confidence = pf_conf, ghre_offset = pf_offset, ghre_delta = pf_delta\<rparr>]\<rparr>))"

section \<open>The driver\<close>

definition page_of :: "spp_params \<Rightarrow> Addr \<Rightarrow> Addr" where
  "page_of P a = a AND NOT (ucast (VA_PAGE_SIZE_BYTES P - 1))"

definition line_base :: "pref_params \<Rightarrow> Addr \<Rightarrow> Addr" where
  "line_base PC a = a AND NOT (ucast (DCACHE_LINE_SIZE PC - 1))"

definition spp_offs_mask :: "pref_params \<Rightarrow> spp_params \<Rightarrow> uns" where
  "spp_offs_mask PC P = VA_PAGE_SIZE_BYTES P div DCACHE_LINE_SIZE PC - 1"

definition spp_page_offset :: "pref_params \<Rightarrow> spp_params \<Rightarrow> Addr \<Rightarrow> uns" where
  "spp_page_offset PC P a =
     ucast (drop_bit (LOG2 (DCACHE_LINE_SIZE PC)) a AND ucast (spp_offs_mask PC P))"

text \<open>\<^verbatim>\<open>((Addr)((int64)delta << log2_line))\<close>\<close>

definition delta_bytes :: "pref_params \<Rightarrow> cint \<Rightarrow> Addr" where
  "delta_bytes PC delta = push_bit (LOG2 (DCACHE_LINE_SIZE PC)) (scast delta)"

definition spp_issue_cutoff :: "spp_params \<Rightarrow> uns" where
  "spp_issue_cutoff P =
     (if PREF_SPP_ISSUE_THRESHOLD P \<noteq> 0 then PREF_SPP_ISSUE_THRESHOLD P else PREF_SPP_PF_THRESHOLD P)"

text \<open>One candidate of the queue: the body of the inner \<^verbatim>\<open>while\<close>.\<close>

definition spp_issue ::
    "pref_params \<Rightarrow> spp_params \<Rightarrow> uns8 \<Rightarrow> Addr \<Rightarrow> Addr \<Rightarrow> uns \<Rightarrow> uns \<Rightarrow> cint \<Rightarrow>
       Pref_SPP \<times> pref_state \<Rightarrow> (Pref_SPP \<times> pref_state) option" where
  "spp_issue PC P proc_id a base_addr curr_sig this_conf this_delta sq =
     (let (s, q) = sq in
      if this_conf < spp_issue_cutoff P then Some (s, q)
      else
        let pf_addr = line_base PC base_addr + delta_bytes PC this_delta
        in if page_of P a = page_of P pf_addr then
             let fill_l2 = PREF_SPP_FILL_THRESHOLD P \<le> this_conf;
                 (go, s) = spp_filter_check PC P pf_addr
                    (if fill_l2 then SPP_FILTER_L2_PREFETCH else SPP_FILTER_LLC_PREFETCH) s
             in if go then
                  let (ok, q) = pref_addto_ul1req_queue PC proc_id
                                  (drop_bit (LOG2 (DCACHE_LINE_SIZE PC)) pf_addr) (spp_hwp_id s) q
                  in if ok then
                       (if fill_l2 then Some (spp_count_issued (STAT_EVENT proc_id PREF_SPP_PF_ISSUED_L2 s), q)
                        else Some (STAT_EVENT proc_id PREF_SPP_PF_ISSUED_LLC s, q))
                     else Some (s, q)
                else Some (STAT_EVENT proc_id PREF_SPP_PF_FILTERED s, q)
           else if PREF_SPP_GHR_ON P then
             map_option (\<lambda>s. (s, q))
               (spp_ghr_update P curr_sig this_conf (spp_page_offset PC P pf_addr) this_delta
                  (STAT_EVENT proc_id PREF_SPP_PF_PAGE_CROSS s))
           else Some (s, q))"

text \<open>The inner \<^verbatim>\<open>while\<close> over the candidates between head and tail.\<close>

fun spp_drain ::
    "pref_params \<Rightarrow> spp_params \<Rightarrow> uns8 \<Rightarrow> Addr \<Rightarrow> Addr \<Rightarrow> uns \<Rightarrow> (uns \<times> cint) list \<Rightarrow>
       Pref_SPP \<times> pref_state \<Rightarrow> (Pref_SPP \<times> pref_state) option" where
  "spp_drain PC P proc_id a base_addr curr_sig [] sq = Some sq"
| "spp_drain PC P proc_id a base_addr curr_sig ((conf, delta) # cs) sq =
     (case spp_issue PC P proc_id a base_addr curr_sig conf delta sq of
        None \<Rightarrow> None
      | Some sq \<Rightarrow> spp_drain PC P proc_id a base_addr curr_sig cs sq)"

text \<open>
  One turn of the \<^verbatim>\<open>do ... while\<close>: read the pattern, drain the candidates, take the next hop. The
  result is \<^verbatim>\<open>do_lookahead\<close> with the next base address, signature, confidence and depth.
\<close>

definition spp_hop ::
    "pref_params \<Rightarrow> spp_params \<Rightarrow> uns8 \<Rightarrow> Addr \<Rightarrow> Addr \<Rightarrow> uns \<Rightarrow> uns \<Rightarrow> nat \<Rightarrow> Pref_SPP \<times> pref_state \<Rightarrow>
       (bool \<times> Addr \<times> uns \<times> uns \<times> nat \<times> Pref_SPP \<times> pref_state) option" where
  "spp_hop PC P proc_id a base_addr curr_sig la_conf depth sq =
     (let qlen = Suc (unat (PREF_SPP_PT_WAY P));
          (delta_q, conf_q, tail, way, la_conf') =
            spp_pt_read_pattern P curr_sig (replicate qlen 0) (replicate qlen 0) 0 la_conf depth (fst sq)
      in case spp_drain PC P proc_id a base_addr curr_sig (zip (take tail conf_q) (take tail delta_q)) sq of
           None \<Rightarrow> None
         | Some (s, q) \<Rightarrow>
             (case way of
                Some w \<Rightarrow>
                  let chosen = ptw_delta (pts_ways (spp_pt s ! spp_set_index (ucast curr_sig) (PREF_SPP_PT_SET P)) ! w)
                  in Some (0 < tail, base_addr + delta_bytes PC chosen, spp_mix_sig P s curr_sig chosen, la_conf',
                           (if PREF_SPP_PF_THRESHOLD P \<le> la_conf' then Suc depth else depth), s, q)
              | None \<Rightarrow> Some (False, base_addr, curr_sig, la_conf', depth, s, q)))"

text \<open>A way is chosen only when its confidence reached the threshold, so a hop that goes on is one
  deeper. This is what bounds the \<^verbatim>\<open>do ... while\<close>.\<close>

lemma spp_pt_scan_way:
  assumes "spp_pt_scan P s c_sig la d w dq cq t way mc xs = (dq', cq', t', way', mc')"
    and "way \<noteq> None \<longrightarrow> PREF_SPP_PF_THRESHOLD P \<le> mc"
  shows "way' \<noteq> None \<longrightarrow> PREF_SPP_PF_THRESHOLD P \<le> mc'"
  using assms
  by (induction xs arbitrary: w dq cq t way mc) (auto simp: Let_def split: if_splits)

lemma spp_pt_read_pattern_way:
  assumes "spp_pt_read_pattern P sg dq cq t la d s = (dq', cq', t', way', la')" "way' \<noteq> None"
  shows "PREF_SPP_PF_THRESHOLD P \<le> la'"
  using assms spp_pt_scan_way unfolding spp_pt_read_pattern_def Let_def
  by (fastforce split: if_splits)

lemma spp_hop_deeper:
  assumes "spp_hop PC P p a base sg la d sq = Some (True, base', sg', la', d', sq')"
  shows "d' = Suc d"
  using assms spp_pt_read_pattern_way
  unfolding spp_hop_def Let_def
  by (fastforce split: prod.splits option.splits if_splits)

text \<open>
  The loop. The result is the depth that the statistics record, with the final state.
\<close>

function spp_lookahead ::
    "pref_params \<Rightarrow> spp_params \<Rightarrow> uns8 \<Rightarrow> Addr \<Rightarrow> Addr \<Rightarrow> uns \<Rightarrow> uns \<Rightarrow> nat \<Rightarrow> Pref_SPP \<times> pref_state \<Rightarrow>
       (nat \<times> Pref_SPP \<times> pref_state) option" where
  "spp_lookahead PC P proc_id a base_addr curr_sig la_conf depth sq =
     (case spp_hop PC P proc_id a base_addr curr_sig la_conf depth sq of
        None \<Rightarrow> None
      | Some (do_lookahead, base_addr, curr_sig, la_conf, depth, sq) \<Rightarrow>
          if do_lookahead \<and> depth < unat (PREF_SPP_MAX_DEPTH P) \<and> PREF_SPP_LOOKAHEAD_ON P
          then spp_lookahead PC P proc_id a base_addr curr_sig la_conf depth sq
          else Some (depth, sq))"
  by pat_completeness auto

termination
  by (relation "measure (\<lambda>(PC, P, p, a, b, sg, la, d, sq). unat (PREF_SPP_MAX_DEPTH P) - d)")
    (auto dest!: spp_hop_deeper)

declare spp_lookahead.simps [simp del]

text \<open>
  \<^verbatim>\<open>spp_operate\<close>: training on one demand access, then the lookahead. \<open>None\<close> is a failed assertion.
\<close>

definition spp_accuracy :: "Pref_SPP \<Rightarrow> uns" where
  "spp_accuracy s = (if pf_issued s \<noteq> 0 then ucast ((100 * pf_useful s) div pf_issued s) else 0)"

definition spp_operate ::
    "pref_params \<Rightarrow> spp_params \<Rightarrow> uns8 \<Rightarrow> Addr \<Rightarrow> Pref_SPP \<times> pref_state \<Rightarrow> (Pref_SPP \<times> pref_state) option" where
  "spp_operate PC P proc_id lineAddr sq =
     (let (s, q) = sq in
      if \<not> spp_alloc s then None
      else
        let a = line_base PC lineAddr;
            page = drop_bit (LOG2 (VA_PAGE_SIZE_BYTES P)) a;
            page_offset = spp_page_offset PC P a;
            s = s\<lparr>global_accuracy_pct := spp_accuracy s\<rparr>;
            s = STAT_EVENT proc_id PREF_SPP_OPERATE s
        in case spp_st_read_and_update P page page_offset s of
             None \<Rightarrow> None
           | Some ((last_sig, curr_sig, delta), s) \<Rightarrow>
               let s = snd (spp_filter_check PC P a SPP_FILTER_DEMAND s);
                   s = (if last_sig \<noteq> 0 then spp_pt_update_pattern P last_sig delta s else s)
               in if PREF_SPP_MAX_DEPTH P = 0 then Some (s, q)
                  else case spp_lookahead PC P proc_id a a curr_sig 100 0 (s, q) of
                         None \<Rightarrow> None
                       | Some (depth, s, q) \<Rightarrow>
                           let s = INC_STAT_EVENT proc_id PREF_SPP_LOOKAHEAD_DEPTH_TOTAL (of_nat depth) s
                           in Some (STAT_EVENT proc_id (PREF_SPP_LOOKAHEAD_DEPTH (min 9 depth)) s, q))"

section \<open>Framework callbacks\<close>

text \<open>The global before \<^verbatim>\<open>pref_spp_init\<close>, and after \<^verbatim>\<open>pref_spp_done\<close>: \<^verbatim>\<open>spp == NULL\<close>.\<close>

definition spp_null :: Pref_SPP where
  "spp_null = \<lparr>spp_alloc = False, spp_hwp_id = 0, spp_st = [], spp_pt = [], spp_filter = [],
     spp_ghrs = [], pf_useful = 0, pf_issued = 0, global_accuracy_pct = 0, sig_mask = 0,
     sig_delta_sign_bit = 0, st_tag_mask = 0, filter_set = 0, global_counter_max = 0,
     spp_stats = (\<lambda>_ _. 0)\<rparr>"

text \<open>The tables that \<^verbatim>\<open>pref_spp_init\<close> allocates, zeroed but for the LRU counters.\<close>

definition spp_fresh :: "spp_params \<Rightarrow> uns8 \<Rightarrow> (uns8 \<Rightarrow> spp_stat \<Rightarrow> Counter) \<Rightarrow> Pref_SPP" where
  "spp_fresh P hid stats =
     \<lparr>spp_alloc = True, spp_hwp_id = hid,
      spp_st = replicate (unat (PREF_SPP_ST_SET P))
                 (map (\<lambda>w. \<lparr>ste_valid = False, ste_tag = 0, ste_sig = 0, ste_last_offset = 0, ste_lru = of_nat w\<rparr>)
                    [0..<unat (PREF_SPP_ST_WAY P)]),
      spp_pt = replicate (unat (PREF_SPP_PT_SET P))
                 \<lparr>pts_ways = replicate (unat (PREF_SPP_PT_WAY P)) \<lparr>ptw_delta = 0, ptw_c_delta = 0\<rparr>, pts_c_sig = 0\<rparr>,
      spp_filter = replicate (unat (push_bit (unat (PREF_SPP_QUOTIENT_BIT P)) 1 :: uns))
                     \<lparr>fe_valid = False, fe_useful = False, fe_remainder_tag = 0\<rparr>,
      spp_ghrs = replicate (unat (PREF_SPP_GHR_ENTRIES P))
                  \<lparr>ghre_valid = False, ghre_sig = 0, ghre_confidence = 0, ghre_offset = 0, ghre_delta = 0\<rparr>,
      pf_useful = 0, pf_issued = 0, global_accuracy_pct = 0,
      sig_mask = push_bit (unat (PREF_SPP_SIG_BIT P)) 1 - 1,
      sig_delta_sign_bit = push_bit (unat (PREF_SPP_SIG_DELTA_BIT P - 1)) 1,
      st_tag_mask = push_bit (unat (PREF_SPP_ST_TAG_BIT P)) 1 - 1,
      filter_set = push_bit (unat (PREF_SPP_QUOTIENT_BIT P)) 1,
      global_counter_max = push_bit (unat (PREF_SPP_GLOBAL_CTR_BIT P)) 1 - 1,
      spp_stats = stats\<rparr>"

definition pref_spp_init :: "pref_params \<Rightarrow> spp_params \<Rightarrow> nat \<Rightarrow> Pref_SPP step" where
  "pref_spp_init PC P ii qs =
     (let (q, s) = qs in
      if \<not> PREF_SPP_ON P then Some (q, s)
      else if \<not> (PREF_REPORT_PREF_MATCH_AS_HIT PC \<or> PREF_REPORT_PREF_MATCH_AS_MISS PC) then None
      else let hid = hwp_id (hwp_infos q ! ii)
           in Some (upd_info (of_nat ii) (\<lambda>h. h\<lparr>hwp_enabled := True\<rparr>) q, spp_fresh P hid (spp_stats s)))"

definition pref_spp_done :: "Pref_SPP step" where
  "pref_spp_done qs =
     (let (q, s) = qs in Some (q, if spp_alloc s then spp_null\<lparr>spp_stats := spp_stats s\<rparr> else s))"

definition pref_spp_ul1_miss :: "pref_params \<Rightarrow> spp_params \<Rightarrow> uns8 \<Rightarrow> Addr \<Rightarrow> Addr \<Rightarrow> uns32 \<Rightarrow> Pref_SPP step" where
  "pref_spp_ul1_miss PC P proc_id lineAddr loadPC ghist qs =
     (let (q, s) = qs in
      if \<not> PREF_SPP_ON P \<or> \<not> spp_alloc s then Some (q, s)
      else map_option prod.swap (spp_operate PC P proc_id lineAddr (s, q)))"

definition pref_spp_ul1_hit :: "pref_params \<Rightarrow> spp_params \<Rightarrow> uns8 \<Rightarrow> Addr \<Rightarrow> Addr \<Rightarrow> uns32 \<Rightarrow> Pref_SPP step" where
  "pref_spp_ul1_hit PC P proc_id lineAddr loadPC ghist qs =
     (let (q, s) = qs in
      if \<not> PREF_SPP_ON P \<or> \<not> spp_alloc s then Some (q, s)
      else if \<not> PREF_REPORT_PREF_MATCH_AS_HIT PC then Some (q, s)
      else map_option prod.swap (spp_operate PC P proc_id lineAddr (s, q)))"

definition pref_spp_ul1_pref_hit :: "pref_params \<Rightarrow> spp_params \<Rightarrow> uns8 \<Rightarrow> Addr \<Rightarrow> Addr \<Rightarrow> uns32 \<Rightarrow> Pref_SPP step" where
  "pref_spp_ul1_pref_hit PC P proc_id lineAddr loadPC ghist qs =
     (let (q, s) = qs in
      if \<not> PREF_SPP_ON P \<or> \<not> spp_alloc s then Some (q, s)
      else Some (q, snd (spp_filter_check PC P (line_base PC lineAddr) SPP_FILTER_DEMAND s)))"

end
