(* ===== verification/Pref_SPP_Inv.thy ===== *)
theory Pref_SPP_Inv
  imports Pref_SPP
begin

text \<open>
  What the tables of the Signature Path Prefetcher keep, operation by operation, and what the driver
  does with them.

  A signature-table row keeps its LRU counters a permutation of the way numbers, so a victim always
  exists and no counter overflows, and it holds a tag at most once, so the row is a map from tags. A pattern-table set keeps the sum of its per-delta counters below
  its signature counter, so local confidences are percentages. The filter's counters stay below the
  global maximum. The global history register keeps one entry per offset.
\<close>

section \<open>The LRU counters of a row\<close>

definition lru_row :: "uns \<Rightarrow> Spp_ST_Entry list \<Rightarrow> bool" where
  "lru_row n row \<longleftrightarrow> length row = unat n \<and> distinct (map ste_lru row) \<and> (\<forall>e \<in> set row. ste_lru e < n)"

lemma lru_row_oldest:
  assumes "lru_row n row" and "0 < n"
  shows "\<exists>e \<in> set row. ste_lru e = n - 1"
proof -
  let ?f = "unat \<circ> ste_lru"
  have "distinct (map ?f row)"
    using assms(1)
    by (auto simp: lru_row_def distinct_map inj_on_def dest: word_eq_iff_unsigned [THEN iffD2, rotated])
  then have "card (?f ` set row) = unat n"
    using assms(1) by (metis distinct_card length_map list.set_map lru_row_def)
  moreover have "?f ` set row \<subseteq> {..<unat n}"
    using assms(1) by (auto simp: lru_row_def word_less_nat_alt)
  ultimately have eq: "?f ` set row = {..<unat n}"
    by (metis card_lessThan card_subset_eq finite_lessThan)
  have "unat (n - 1) < unat n"
    using assms(2) by (simp add: measure_unat)
  then have "unat (n - 1) \<in> ?f ` set row" unfolding eq by simp
  then obtain e where e: "e \<in> set row" "unat (n - 1) = ?f e" by (rule imageE)
  then have "ste_lru e = n - 1" by (simp add: word_unat_eq_iff)
  with e(1) show ?thesis by (rule bexI [rotated])
qed

text \<open>Promotion maps the counters by this injection.\<close>

definition lru_move :: "uns \<Rightarrow> uns \<Rightarrow> uns" where
  "lru_move m x = (if x < m then x + 1 else if x = m then 0 else x)"

lemma lru_move_inj: "inj_on (lru_move m) A"
proof (rule inj_onI)
  fix x y assume "lru_move m x = lru_move m y"
  then have "unat (lru_move m x) = unat (lru_move m y)" by simp
  then show "x = y"
    by (auto simp: lru_move_def unat_inc word_less_nat_alt not_less split: if_splits
        intro!: word_unat_eq_iff [THEN iffD2])
qed

lemma lru_move_less: "x < n \<Longrightarrow> m < n \<Longrightarrow> lru_move m x < n"
  by (auto simp: lru_move_def unat_inc word_less_nat_alt)

lemma lru_promote_row:
  assumes row: "lru_row n row" and m: "match < length row"
    and row': "row' = map (\<lambda>e. if ste_lru e < ste_lru (row ! match) then e\<lparr>ste_lru := ste_lru e + 1\<rparr> else e) row"
  shows "map ste_lru (row'[match := (row' ! match)\<lparr>ste_lru := 0\<rparr>]) =
           map (lru_move (ste_lru (row ! match))) (map ste_lru row)"
proof (rule nth_equalityI)
  fix i assume "i < length (map ste_lru (row'[match := (row' ! match)\<lparr>ste_lru := 0\<rparr>]))"
  then have i: "i < length row" by (simp add: row')
  have "ste_lru (row ! i) \<noteq> ste_lru (row ! match)" if "i \<noteq> match"
    using row m i that by (auto simp: lru_row_def distinct_conv_nth)
  then show "map ste_lru (row'[match := (row' ! match)\<lparr>ste_lru := 0\<rparr>]) ! i =
      map (lru_move (ste_lru (row ! match))) (map ste_lru row) ! i"
    using i m by (auto simp: row' nth_list_update lru_move_def)
qed (simp add: row')

lemma spp_lru_promote_ok:
  assumes row: "lru_row n row" and m: "match < length row"
  obtains row' where "spp_lru_promote n match row = Some row'" "lru_row n row'"
    "ste_lru (row' ! match) = 0" "length row' = length row"
    "\<And>i. i < length row \<Longrightarrow> ste_valid (row' ! i) = ste_valid (row ! i) \<and> ste_tag (row' ! i) = ste_tag (row ! i)
        \<and> ste_sig (row' ! i) = ste_sig (row ! i) \<and> ste_last_offset (row' ! i) = ste_last_offset (row ! i)"
proof -
  let ?m = "ste_lru (row ! match)"
  define r1 where "r1 = map (\<lambda>e. if ste_lru e < ?m then e\<lparr>ste_lru := ste_lru e + 1\<rparr> else e) row"
  define r2 where "r2 = r1[match := (r1 ! match)\<lparr>ste_lru := 0\<rparr>]"
  have mn: "?m < n" using row m by (auto simp: lru_row_def)
  have "list_all (\<lambda>e. ste_lru e < ?m \<longrightarrow> ste_lru e + 1 < n) row"
    using row mn by (auto simp: lru_row_def list_all_iff unat_inc word_less_nat_alt)
  then have "spp_lru_promote n match row = Some r2"
    by (simp add: spp_lru_promote_def Let_def r1_def r2_def)
  moreover have lrus: "map ste_lru r2 = map (lru_move ?m) (map ste_lru row)"
    unfolding r2_def by (rule lru_promote_row [OF row m r1_def])
  have "distinct (map ste_lru r2)"
    unfolding lrus using row by (simp add: lru_row_def distinct_map [where f = "lru_move m" for m] lru_move_inj del: map_map)
  moreover have "\<forall>x \<in> set (map ste_lru r2). x < n"
    unfolding lrus using row mn by (auto simp: lru_row_def lru_move_less)
  moreover have "length r2 = length row" by (simp add: r2_def r1_def)
  ultimately show thesis
    using row m by (intro that [of r2]) (auto simp: lru_row_def r2_def r1_def nth_list_update)
qed

section \<open>Indexes stay in their tables\<close>

lemma spp_set_index_lt: "n \<noteq> 0 \<Longrightarrow> spp_set_index key n < unat n"
proof -
  assume "n \<noteq> 0"
  then have pos: "0 < unat n" by (simp add: unat_gt_0)
  have "unat (spp_hash64 key mod ucast n) = unat (spp_hash64 key) mod unat n"
    by (simp add: unat_mod)
  then have "unat (spp_hash64 key mod ucast n) < unat n" using pos by simp
  then show ?thesis
    unfolding spp_set_index_def by (rule le_less_trans [OF unat_ucast_le])
qed

lemma spp_filter_quotient_lt:
  "spp_filter_quotient P h < 2 ^ unat (PREF_SPP_QUOTIENT_BIT P)"
proof -
  let ?k = "unat (PREF_SPP_QUOTIENT_BIT P)"
  have "unat (x AND (push_bit ?k 1 - 1) :: uns64) = take_bit ?k (unat x)" for x
    unfolding push_bit_of_1 mask_eq_exp_minus_1 [symmetric] take_bit_eq_mask [symmetric]
    by (simp add: unsigned_take_bit_eq)
  then have "unat (x AND (push_bit ?k 1 - 1) :: uns64) < 2 ^ ?k" for x by simp
  then show ?thesis
    unfolding spp_filter_quotient_def by (rule le_less_trans [OF unat_ucast_le])
qed

section \<open>The invariant\<close>

text \<open>What the parameters have to satisfy: the tables are non-empty and the bit widths fit.\<close>

definition spp_params_ok :: "pref_params \<Rightarrow> spp_params \<Rightarrow> bool" where
  "spp_params_ok PC P \<longleftrightarrow>
     PREF_SPP_ST_SET P \<noteq> 0 \<and> PREF_SPP_ST_WAY P \<noteq> 0 \<and> PREF_SPP_PT_SET P \<noteq> 0 \<and> PREF_SPP_PT_WAY P \<noteq> 0 \<and>
     PREF_SPP_GHR_ENTRIES P \<noteq> 0 \<and> PREF_SPP_SIG_BIT P < 32 \<and> PREF_SPP_QUOTIENT_BIT P < 32 \<and>
     PREF_SPP_C_SIG_BIT P < 32 \<and> PREF_SPP_C_DELTA_BIT P < 32 \<and> PREF_SPP_GLOBAL_CTR_BIT P < 32 \<and>
     PREF_SPP_ST_TAG_BIT P < 32 \<and>
     0 < PREF_SPP_SIG_DELTA_BIT P \<and> PREF_SPP_SIG_DELTA_BIT P \<le> 32 \<and> spp_offs_mask PC P < 0x7fffffff"

text \<open>A delta between two lines of one page.\<close>

definition delta_ok :: "pref_params \<Rightarrow> spp_params \<Rightarrow> cint \<Rightarrow> bool" where
  "delta_ok PC P d \<longleftrightarrow> \<bar>sint d\<bar> \<le> uint (spp_offs_mask PC P)"

definition st_entry_ok :: "pref_params \<Rightarrow> spp_params \<Rightarrow> uns \<Rightarrow> Spp_ST_Entry \<Rightarrow> bool" where
  "st_entry_ok PC P sm e \<longleftrightarrow> ste_sig e \<le> sm \<and> ste_last_offset e \<le> spp_offs_mask PC P"

definition st_row_ok :: "pref_params \<Rightarrow> spp_params \<Rightarrow> uns \<Rightarrow> Spp_ST_Entry list \<Rightarrow> bool" where
  "st_row_ok PC P sm row \<longleftrightarrow>
     lru_row (PREF_SPP_ST_WAY P) row \<and> list_all (st_entry_ok PC P sm) row \<and>
     distinct (map ste_tag (filter ste_valid row))"

definition c_total :: "Spp_PT_Way list \<Rightarrow> nat" where
  "c_total ws = (\<Sum>w\<leftarrow>ws. unat (ptw_c_delta w))"

definition pt_set_ok :: "pref_params \<Rightarrow> spp_params \<Rightarrow> Spp_PT_Set \<Rightarrow> bool" where
  "pt_set_ok PC P r \<longleftrightarrow>
     length (pts_ways r) = unat (PREF_SPP_PT_WAY P) \<and>
     c_total (pts_ways r) \<le> unat (pts_c_sig r) \<and> unat (pts_c_sig r) < 2 ^ unat (PREF_SPP_C_SIG_BIT P) \<and>
     list_all (\<lambda>w. unat (ptw_c_delta w) < 2 ^ unat (PREF_SPP_C_DELTA_BIT P) \<and> delta_ok PC P (ptw_delta w)) (pts_ways r)"

definition ghr_ok :: "pref_params \<Rightarrow> spp_params \<Rightarrow> uns \<Rightarrow> Spp_GHR_Entry list \<Rightarrow> bool" where
  "ghr_ok PC P sm g \<longleftrightarrow>
     length g = unat (PREF_SPP_GHR_ENTRIES P) \<and>
     distinct (map ghre_offset (filter ghre_valid g)) \<and>
     list_all (\<lambda>e. delta_ok PC P (ghre_delta e) \<and> ghre_sig e \<le> sm \<and>
                    ghre_offset e \<le> spp_offs_mask PC P) g"

definition ctrs_ok :: "Pref_SPP \<Rightarrow> bool" where
  "ctrs_ok s \<longleftrightarrow> pf_useful s \<le> ucast (global_counter_max s) \<and> pf_issued s \<le> ucast (global_counter_max s)"

definition spp_consts :: "spp_params \<Rightarrow> Pref_SPP \<Rightarrow> bool" where
  "spp_consts P s \<longleftrightarrow>
     sig_mask s = push_bit (unat (PREF_SPP_SIG_BIT P)) 1 - 1 \<and>
     sig_delta_sign_bit s = push_bit (unat (PREF_SPP_SIG_DELTA_BIT P - 1)) 1 \<and>
     st_tag_mask s = push_bit (unat (PREF_SPP_ST_TAG_BIT P)) 1 - 1 \<and>
     filter_set s = push_bit (unat (PREF_SPP_QUOTIENT_BIT P)) 1 \<and>
     global_counter_max s = push_bit (unat (PREF_SPP_GLOBAL_CTR_BIT P)) 1 - 1"

definition spp_inv :: "pref_params \<Rightarrow> spp_params \<Rightarrow> Pref_SPP \<Rightarrow> bool" where
  "spp_inv PC P s \<longleftrightarrow>
     spp_alloc s \<and> spp_consts P s \<and> ctrs_ok s \<and>
     length (spp_st s) = unat (PREF_SPP_ST_SET P) \<and> list_all (st_row_ok PC P (sig_mask s)) (spp_st s) \<and>
     length (spp_pt s) = unat (PREF_SPP_PT_SET P) \<and> list_all (pt_set_ok PC P) (spp_pt s) \<and>
     length (spp_filter s) = 2 ^ unat (PREF_SPP_QUOTIENT_BIT P) \<and> ghr_ok PC P (sig_mask s) (spp_ghrs s)"

section \<open>The signature table\<close>

lemma spp_page_offset_le: "spp_page_offset PC P a \<le> spp_offs_mask PC P"
proof -
  have "unat (spp_page_offset PC P a) \<le> unat (drop_bit (LOG2 (DCACHE_LINE_SIZE PC)) a AND ucast (spp_offs_mask PC P))"
    unfolding spp_page_offset_def by (rule unat_ucast_le)
  also have "\<dots> \<le> unat (ucast (spp_offs_mask PC P) :: uns64)"
    by (simp only: word_le_nat_alt [symmetric] word_and_le1)
  finally show ?thesis by (simp add: word_le_nat_alt)
qed

lemma spp_mix_sig_le: "spp_mix_sig P s sg d \<le> sig_mask s"
  by (simp add: spp_mix_sig_def word_and_le1)

lemma delta_ok_diff:
  assumes "spp_offs_mask PC P < 0x7fffffff" "a \<le> spp_offs_mask PC P" "b \<le> spp_offs_mask PC P"
  shows "delta_ok PC P (a - b)"
proof -
  let ?m = "spp_offs_mask PC P"
  have "?m < 0x80000000" by (rule less_trans [OF assms(1)]) simp
  with assms(2,3) have "a < 0x80000000" "b < 0x80000000" by (auto intro: le_less_trans)
  then have ab: "sint a = uint a" "sint b = uint b" by (simp_all add: sint_small)
  have le: "uint a \<le> uint ?m" "uint b \<le> uint ?m" "uint ?m < 0x7fffffff" "0 \<le> uint a" "0 \<le> uint b"
    using assms by (simp_all add: word_le_def word_less_def)
  have rng: "- 2147483648 \<le> uint a - uint b" "uint a - uint b < 2147483648" using le by linarith+
  have "sint (a - b) = signed_take_bit 31 (sint a - sint b)"
    by (simp add: sint_word_ariths)
  also have "\<dots> = sint a - sint b"
    unfolding ab using rng by (intro signed_take_bit_int_eq_self) simp_all
  finally have "sint (a - b) = uint a - uint b" by (simp add: ab)
  with le show ?thesis unfolding delta_ok_def by linarith
qed

lemma delta_ok_0 [simp]: "delta_ok PC P 0"
  by (simp add: delta_ok_def)

lemma lru_row_same: "map ste_lru row' = map ste_lru row \<Longrightarrow> lru_row n row \<Longrightarrow> lru_row n row'"
  unfolding lru_row_def by (metis (no_types, lifting) in_set_conv_nth length_map nth_map)

lemma map_lru_update:
  "ste_lru e = ste_lru (row ! i) \<Longrightarrow> map ste_lru (row[i := e]) = map ste_lru row"
  by (cases "i < length row") (auto simp: map_update list_update_id list_update_beyond, metis list_update_id length_map nth_map)

text \<open>An entry may be rewritten under its own tag, or take a tag that no valid entry of the row has.\<close>

lemma st_row_ok_update:
  assumes "st_row_ok PC P sm row" "ste_lru e = ste_lru (row ! w)" "st_entry_ok PC P sm e"
    and tags: "ste_valid e = ste_valid (row ! w) \<and> ste_tag e = ste_tag (row ! w) \<or>
      (\<forall>x \<in> set row. ste_valid x \<longrightarrow> ste_tag x \<noteq> ste_tag e)"
  shows "st_row_ok PC P sm (row[w := e])"
proof -
  have d: "distinct (map ste_tag (filter ste_valid row))" using assms(1) by (simp add: st_row_ok_def)
  have "distinct (map ste_tag (filter ste_valid (row[w := e])))"
    using tags
  proof
    assume "ste_valid e = ste_valid (row ! w) \<and> ste_tag e = ste_tag (row ! w)"
    then have "ste_valid (row[w := e] ! i) = ste_valid (row ! i) \<and> ste_tag (row[w := e] ! i) = ste_tag (row ! i)" for i
      by (cases "i = w"; cases "w < length row") (auto simp: list_update_beyond)
    then show ?thesis
      using d unfolding distinct_map_filter_conv by simp
  next
    assume "\<forall>x \<in> set row. ste_valid x \<longrightarrow> ste_tag x \<noteq> ste_tag e"
    then show ?thesis by (intro distinct_map_filter_update [OF d]) auto
  qed
  with assms lru_row_same [OF map_lru_update [OF assms(2)]] show ?thesis
    by (simp add: st_row_ok_def list_all_update)
qed

lemma spp_st_lookup_ok:
  assumes "spp_params_ok PC P" "st_row_ok PC P (sig_mask s) row" "off \<le> spp_offs_mask PC P"
  obtains w hit last cur d row' where
    "spp_st_lookup P s pp off row = Some (w, hit, last, cur, d, row')"
    "w < length row" "st_row_ok PC P (sig_mask s) row'" "length row' = length row"
    "last \<le> sig_mask s" "cur \<le> sig_mask s" "delta_ok PC P d"
proof -
  have lru: "lru_row (PREF_SPP_ST_WAY P) row" and ok: "list_all (st_entry_ok PC P (sig_mask s)) row"
    using assms(2) by (auto simp: st_row_ok_def)
  note keep = st_row_ok_update [OF assms(2)]
  show thesis
  proof (cases "find_ix (spp_st_hit pp) row")
    case (Some w)
    note w = find_ix_SomeD(1) [OF Some]
    have e: "st_entry_ok PC P (sig_mask s) (row ! w)" using ok w by (rule list_all_nth)
    have d: "delta_ok PC P (off - ste_last_offset (row ! w))"
      using assms e by (auto simp: spp_params_ok_def st_entry_ok_def intro: delta_ok_diff)
    show thesis
    proof (cases "off = ste_last_offset (row ! w)")
      case True
      with Some assms(2) show thesis
        by (intro that [OF _ w]) (auto simp: spp_st_lookup_def Let_def)
    next
      case False
      let ?sg = "spp_mix_sig P s (ste_sig (row ! w)) (off - ste_last_offset (row ! w))"
      have eq: "spp_st_lookup P s pp off row = Some (w, True, ste_sig (row ! w), ?sg,
          off - ste_last_offset (row ! w), row[w := (row ! w)\<lparr>ste_sig := ?sg, ste_last_offset := off\<rparr>])"
        using Some False by (simp add: spp_st_lookup_def Let_def)
      show thesis
        using e d assms(3) by (intro that [OF eq w keep]) (auto simp: st_entry_ok_def spp_mix_sig_le)
    qed
  next
    case None
    then have new: "\<forall>x \<in> set row. ste_valid x \<longrightarrow> ste_tag x \<noteq> pp" by (simp add: find_ix_None spp_st_hit_def)
    show thesis
    proof (cases "find_ix (\<lambda>e. \<not> ste_valid e) row")
      case (Some w)
      note w = find_ix_SomeD(1) [OF Some]
      have eq: "spp_st_lookup P s pp off row = Some (w, False, 0, 0, 0, row[w := (row ! w)\<lparr>ste_valid := True, ste_tag := pp, ste_sig := 0, ste_last_offset := off\<rparr>])"
        using Some None by (simp add: spp_st_lookup_def)
      show thesis
        using assms(3) new by (intro that [OF eq w keep]) (auto simp: st_entry_ok_def)
    next
      case None': None
      have "0 < PREF_SPP_ST_WAY P" using assms(1) by (simp add: spp_params_ok_def word_gt_0)
      then obtain e where "e \<in> set row" "ste_lru e = PREF_SPP_ST_WAY P - 1"
        using lru_row_oldest [OF lru] by auto
      then obtain w where Some: "find_ix (\<lambda>e. ste_lru e = PREF_SPP_ST_WAY P - 1) row = Some w"
        using find_ix_ex [of e row "\<lambda>e. ste_lru e = PREF_SPP_ST_WAY P - 1"] by auto
      note w = find_ix_SomeD(1) [OF Some]
      have eq: "spp_st_lookup P s pp off row = Some (w, False, 0, 0, 0, row[w := (row ! w)\<lparr>ste_tag := pp, ste_sig := 0, ste_last_offset := off\<rparr>])"
        using Some None None' by (simp add: spp_st_lookup_def)
      show thesis
        using assms(3) new by (intro that [OF eq w keep]) (auto simp: st_entry_ok_def)
    qed
  qed
qed


text \<open>The statistics touch nothing else.\<close>

lemma stat_frame [simp]:
  "spp_alloc (INC_STAT_EVENT p ev n s) = spp_alloc s"
  "spp_hwp_id (INC_STAT_EVENT p ev n s) = spp_hwp_id s"
  "spp_st (INC_STAT_EVENT p ev n s) = spp_st s"
  "spp_pt (INC_STAT_EVENT p ev n s) = spp_pt s"
  "spp_filter (INC_STAT_EVENT p ev n s) = spp_filter s"
  "spp_ghrs (INC_STAT_EVENT p ev n s) = spp_ghrs s"
  "pf_useful (INC_STAT_EVENT p ev n s) = pf_useful s"
  "pf_issued (INC_STAT_EVENT p ev n s) = pf_issued s"
  "global_accuracy_pct (INC_STAT_EVENT p ev n s) = global_accuracy_pct s"
  "sig_mask (INC_STAT_EVENT p ev n s) = sig_mask s"
  "sig_delta_sign_bit (INC_STAT_EVENT p ev n s) = sig_delta_sign_bit s"
  "st_tag_mask (INC_STAT_EVENT p ev n s) = st_tag_mask s"
  "filter_set (INC_STAT_EVENT p ev n s) = filter_set s"
  "global_counter_max (INC_STAT_EVENT p ev n s) = global_counter_max s"
  by (simp_all add: INC_STAT_EVENT_def)

lemma spp_consts_frame [simp]:
  "spp_consts P (s\<lparr>spp_st := a\<rparr>) = spp_consts P s"
  "spp_consts P (s\<lparr>spp_pt := b\<rparr>) = spp_consts P s"
  "spp_consts P (s\<lparr>spp_filter := c\<rparr>) = spp_consts P s"
  "spp_consts P (s\<lparr>spp_ghrs := d\<rparr>) = spp_consts P s"
  "spp_consts P (s\<lparr>pf_useful := e\<rparr>) = spp_consts P s"
  "spp_consts P (s\<lparr>pf_issued := e\<rparr>) = spp_consts P s"
  "spp_consts P (s\<lparr>global_accuracy_pct := f\<rparr>) = spp_consts P s"
  "spp_consts P (s\<lparr>spp_stats := g\<rparr>) = spp_consts P s"
  by (simp_all add: spp_consts_def)

lemma spp_inv_stat [simp]:
  "spp_inv PC P (INC_STAT_EVENT p ev n s) = spp_inv PC P s"
  "spp_inv PC P (s\<lparr>global_accuracy_pct := x\<rparr>) = spp_inv PC P s"
  by (simp_all add: spp_inv_def ctrs_ok_def INC_STAT_EVENT_def)

lemma spp_mix_sig_cong [simp]:
  "spp_mix_sig P (INC_STAT_EVENT p ev n s) = spp_mix_sig P s"
  by (simp add: spp_mix_sig_def spp_encode_sig_delta_def fun_eq_iff)

lemma spp_st_read_and_update_ok:
  assumes ok: "spp_params_ok PC P" and inv: "spp_inv PC P s" and off: "off \<le> spp_offs_mask PC P"
  obtains last cur d st' stats' where
    "spp_st_read_and_update P page off s = Some ((last, cur, d), s\<lparr>spp_st := st', spp_stats := stats'\<rparr>)"
    "spp_inv PC P (s\<lparr>spp_st := st', spp_stats := stats'\<rparr>)"
    "last \<le> sig_mask s" "cur \<le> sig_mask s" "delta_ok PC P d"
proof -
  define set where "set = spp_set_index page (PREF_SPP_ST_SET P)"
  have set: "set < length (spp_st s)"
    using ok inv by (simp add: set_def spp_params_ok_def spp_inv_def spp_set_index_lt)
  then have row: "st_row_ok PC P (sig_mask s) (spp_st s ! set)"
    using inv by (auto simp: spp_inv_def list_all_length)
  obtain w hit last cur d row where look:
    "spp_st_lookup P s (ucast page AND st_tag_mask s) off (spp_st s ! set) = Some (w, hit, last, cur, d, row)"
    "w < length row" "st_row_ok PC P (sig_mask s) row" "last \<le> sig_mask s" "cur \<le> sig_mask s" "delta_ok PC P d"
    using spp_st_lookup_ok [OF ok row off] by metis
  define s1 where "s1 = STAT_EVENT 0 (if hit then PREF_SPP_ST_HIT else PREF_SPP_ST_MISS_INSTALL) s"
  define best where "best = (if PREF_SPP_GHR_ON P \<and> \<not> hit then spp_ghr_best off 0 None 0 (spp_ghrs s) else None)"
  define sg where "sg = (case best of None \<Rightarrow> cur | Some b \<Rightarrow> spp_mix_sig P s (ghre_sig (spp_ghrs s ! b)) (ghre_delta (spp_ghrs s ! b)))"
  define row2 where "row2 = (case best of None \<Rightarrow> row | Some b \<Rightarrow> row[w := (row ! w)\<lparr>ste_sig := sg\<rparr>])"
  define s2 where "s2 = (case best of None \<Rightarrow> s1 | Some b \<Rightarrow> STAT_EVENT 0 PREF_SPP_GHR_BOOT s1)"
  have sg: "sg \<le> sig_mask s" using look(5) by (simp add: sg_def spp_mix_sig_le split: option.split)
  have "st_entry_ok PC P (sig_mask s) (row ! w)"
    using look(2,3) by (simp add: st_row_ok_def list_all_nth)
  then have row2: "st_row_ok PC P (sig_mask s) row2"
    using look(3) sg by (auto simp: row2_def st_entry_ok_def intro: st_row_ok_update split: option.split)
  have w2: "w < length row2" using look(2) by (simp add: row2_def split: option.split)
  obtain row3 where row3: "spp_lru_promote (PREF_SPP_ST_WAY P) w row2 = Some row3"
    "lru_row (PREF_SPP_ST_WAY P) row3" "length row3 = length row2"
    "\<And>i. i < length row2 \<Longrightarrow> ste_valid (row3 ! i) = ste_valid (row2 ! i) \<and> ste_tag (row3 ! i) = ste_tag (row2 ! i)
        \<and> ste_sig (row3 ! i) = ste_sig (row2 ! i) \<and> ste_last_offset (row3 ! i) = ste_last_offset (row2 ! i)"
    using spp_lru_promote_ok [OF conjunct1 [OF row2 [unfolded st_row_ok_def]] w2] by metis
  have row3': "st_row_ok PC P (sig_mask s) row3"
    using row2 row3 by (auto simp: st_row_ok_def list_all_length st_entry_ok_def distinct_map_filter_conv)
  have s2: "s2 = s\<lparr>spp_stats := spp_stats s2\<rparr>"
    by (auto simp: s2_def s1_def STAT_EVENT_def INC_STAT_EVENT_def split: option.split)
  have "spp_st_read_and_update P page off s = Some ((last, sg, d), s2\<lparr>spp_st := (spp_st s)[set := row3]\<rparr>)"
    using look(1) row3(1)
    by (cases best) (auto simp: spp_st_read_and_update_def Let_def s2_def s1_def best_def sg_def row2_def set_def
        STAT_EVENT_def split: if_splits)
  moreover have "s2\<lparr>spp_st := (spp_st s)[set := row3]\<rparr> = s\<lparr>spp_st := (spp_st s)[set := row3], spp_stats := spp_stats s2\<rparr>"
    by (subst s2) simp
  moreover have "spp_inv PC P (s\<lparr>spp_st := (spp_st s)[set := row3], spp_stats := spp_stats s2\<rparr>)"
    using inv row3' by (simp add: spp_inv_def ctrs_ok_def list_all_update)
  ultimately show thesis using sg look that by metis
qed

section \<open>The pattern table\<close>

definition ways_ok :: "pref_params \<Rightarrow> spp_params \<Rightarrow> Spp_PT_Way list \<Rightarrow> bool" where
  "ways_ok PC P ws \<longleftrightarrow> length ws = unat (PREF_SPP_PT_WAY P) \<and>
     list_all (\<lambda>w. unat (ptw_c_delta w) < 2 ^ unat (PREF_SPP_C_DELTA_BIT P) \<and> delta_ok PC P (ptw_delta w)) ws"

lemma pt_set_ok_alt:
  "pt_set_ok PC P r \<longleftrightarrow> ways_ok PC P (pts_ways r) \<and> c_total (pts_ways r) \<le> unat (pts_c_sig r) \<and>
     unat (pts_c_sig r) < 2 ^ unat (PREF_SPP_C_SIG_BIT P)"
  by (auto simp: pt_set_ok_def ways_ok_def)

lemma c_total_update:
  "i < length ws \<Longrightarrow> c_total (ws[i := w]) + unat (ptw_c_delta (ws ! i)) = c_total ws + unat (ptw_c_delta w)"
  using elem_le_sum_list [of i "map (\<lambda>w. unat (ptw_c_delta w)) ws"]
  by (simp add: c_total_def map_update sum_list_update)

lemma ways_ok_update:
  "ways_ok PC P ws \<Longrightarrow> unat (ptw_c_delta w) < 2 ^ unat (PREF_SPP_C_DELTA_BIT P) \<Longrightarrow> delta_ok PC P (ptw_delta w)
     \<Longrightarrow> ways_ok PC P (ws[i := w])"
  by (simp add: ways_ok_def list_all_update)

lemma spp_pt_bump_ok:
  assumes ok: "spp_params_ok PC P" and ws: "ways_ok PC P (pts_ways r)"
    and tot: "c_total (pts_ways r) \<le> unat (pts_c_sig r) + 1"
    and sg: "unat (pts_c_sig r) < 2 ^ unat (PREF_SPP_C_SIG_BIT P)"
  shows "pt_set_ok PC P (spp_pt_bump P r)"
proof -
  let ?b = "unat (PREF_SPP_C_SIG_BIT P)" and ?k = "unat (pts_c_sig r)"
  have b: "?b < 32" using ok by (simp add: spp_params_ok_def word_less_nat_alt)
  have "(2::nat) ^ ?b \<le> 2 ^ 31" using b by (intro power_increasing) auto
  then have inc: "unat (pts_c_sig r + 1) = ?k + 1" using sg by (intro unat_Suc_uns) simp
  show ?thesis
  proof (cases "2 ^ ?b - 1 < ?k + 1")
    case True
    have "c_total (map (\<lambda>w. w\<lparr>ptw_c_delta := drop_bit 1 (ptw_c_delta w)\<rparr>) (pts_ways r)) \<le> c_total (pts_ways r) div 2"
      using sum_list_half [of "\<lambda>w. unat (ptw_c_delta w)" "pts_ways r"]
      by (simp add: c_total_def comp_def unat_half)
    also have "\<dots> \<le> (?k + 1) div 2" using tot by (rule div_le_mono)
    finally have 1: "c_total (map (\<lambda>w. w\<lparr>ptw_c_delta := drop_bit 1 (ptw_c_delta w)\<rparr>) (pts_ways r)) \<le> (?k + 1) div 2" .
    have 2: "(?k + 1) div 2 < 2 ^ ?b" using sg by linarith
    have 3: "ways_ok PC P (map (\<lambda>w. w\<lparr>ptw_c_delta := drop_bit 1 (ptw_c_delta w)\<rparr>) (pts_ways r))"
      using ws by (auto simp: ways_ok_def list_all_iff unat_half intro: le_less_trans [OF div_le_dividend])
    show ?thesis
      using True 1 2 3 b inc
      by (simp add: spp_pt_bump_def Let_def pt_set_ok_alt word_less_nat_alt unat_bit_max unat_half)
  next
    case False
    with ws tot b inc show ?thesis
      by (simp add: spp_pt_bump_def Let_def pt_set_ok_alt word_less_nat_alt unat_bit_max)
  qed
qed

lemma spp_pt_victim_lt: "v < n \<Longrightarrow> w + length xs \<le> n \<Longrightarrow> spp_pt_victim w v c xs < n"
  by (induction xs arbitrary: w v c) auto

lemma spp_pt_update_row_ok:
  assumes ok: "spp_params_ok PC P" and r: "pt_set_ok PC P r" and d: "delta_ok PC P d"
  shows "pt_set_ok PC P (spp_pt_update_row P d r)"
proof -
  let ?ws = "pts_ways r" and ?k = "unat (PREF_SPP_C_DELTA_BIT P)"
  have ws: "ways_ok PC P ?ws" and tot: "c_total ?ws \<le> unat (pts_c_sig r)"
    and sg: "unat (pts_c_sig r) < 2 ^ unat (PREF_SPP_C_SIG_BIT P)"
    using r by (simp_all add: pt_set_ok_alt)
  have k: "?k < 32" and pos: "0 < length ?ws"
    using ok ws by (simp_all add: spp_params_ok_def word_less_nat_alt ways_ok_def unat_gt_0)
  show ?thesis
  proof (cases "find_ix (\<lambda>w. ptw_delta w = d) ?ws")
    case (Some m)
    let ?c = "ptw_c_delta (?ws ! m)"
    define c' where "c' = (if ?c < push_bit ?k 1 - 1 then ?c + 1 else ?c)"
    note m = find_ix_SomeD [OF Some]
    have "unat ?c < 2 ^ ?k" using ws m(1) by (simp add: ways_ok_def list_all_length)
    then have c': "unat c' \<le> unat ?c + 1 \<and> unat c' < 2 ^ ?k"
      using unat_inc [of ?c "push_bit ?k 1 - 1"] unat_bit_max [OF k]
      by (auto simp: c'_def word_less_nat_alt simp del: push_bit_of_1)
    let ?ws' = "?ws[m := (?ws ! m)\<lparr>ptw_c_delta := c'\<rparr>]"
    have "c_total ?ws' \<le> unat (pts_c_sig r) + 1"
      using c_total_update [OF m(1), of "(?ws ! m)\<lparr>ptw_c_delta := c'\<rparr>"] c' tot by simp
    moreover have "ways_ok PC P ?ws'" using ws c' m d by (intro ways_ok_update) auto
    ultimately show ?thesis
      using Some sg spp_pt_bump_ok [OF ok, of "r\<lparr>pts_ways := ?ws'\<rparr>"]
      unfolding spp_pt_update_row_def Let_def by (simp only: option.case c'_def) simp
  next
    case None
    let ?v = "spp_pt_victim 1 0 (ptw_c_delta (?ws ! 0)) (tl ?ws)"
    have v: "?v < length ?ws" using pos by (intro spp_pt_victim_lt) auto
    let ?ws' = "?ws[?v := \<lparr>ptw_delta = d, ptw_c_delta = 0\<rparr>]"
    have "c_total ?ws' \<le> unat (pts_c_sig r) + 1"
      using c_total_update [OF v, of "\<lparr>ptw_delta = d, ptw_c_delta = 0\<rparr>"] tot by simp
    moreover have "ways_ok PC P ?ws'" using ws d by (intro ways_ok_update) auto
    ultimately show ?thesis
      using None sg by (simp add: spp_pt_update_row_def Let_def spp_pt_bump_ok [OF ok])
  qed
qed

lemma spp_pt_update_pattern_inv:
  assumes "spp_params_ok PC P" "spp_inv PC P s" "delta_ok PC P d"
  shows "spp_inv PC P (spp_pt_update_pattern P sg d s)"
proof -
  let ?i = "spp_set_index (ucast sg) (PREF_SPP_PT_SET P)"
  have "?i < length (spp_pt s)"
    using assms(1,2) by (simp add: spp_params_ok_def spp_inv_def spp_set_index_lt)
  with assms show ?thesis
    by (simp add: spp_pt_update_pattern_def Let_def spp_inv_def ctrs_ok_def list_all_update
        list_all_nth spp_pt_update_row_ok)
qed

section \<open>The prefetch filter and the two counters\<close>

lemma ctrs_ok_nat:
  "ctrs_ok s \<longleftrightarrow> unat (pf_useful s) \<le> unat (global_counter_max s) \<and> unat (pf_issued s) \<le> unat (global_counter_max s)"
  by (simp add: ctrs_ok_def word_le_nat_alt)

lemma unat_Suc_counter: "unat (x :: uns64) \<le> unat (m :: uns) \<Longrightarrow> unat (x + 1) = unat x + 1"
proof -
  assume "unat x \<le> unat m"
  moreover have "unat m < 4294967296" using unsigned_less [where 'a = nat, of m] by simp
  ultimately have "unat x + unat (1 :: uns64) < 2 ^ LENGTH(64)" by simp
  then show ?thesis by (subst (asm) unat_add_lem) simp
qed

lemma spp_count_ok:
  assumes "ctrs_ok s"
  shows "ctrs_ok (spp_count_useful s)" "ctrs_ok (spp_count_issued s)"
proof -
  note inc = unat_Suc_counter [of "pf_useful s" "global_counter_max s"]
    unat_Suc_counter [of "pf_issued s" "global_counter_max s"]
  show "ctrs_ok (spp_count_useful s)" "ctrs_ok (spp_count_issued s)"
    using assms inc
    by (auto simp: spp_count_useful_def spp_count_issued_def ctrs_ok_nat Let_def word_less_nat_alt not_less)
qed

lemma spp_count_frame [simp]:
  "spp_alloc (spp_count_useful s) = spp_alloc s" "spp_alloc (spp_count_issued s) = spp_alloc s"
  "spp_st (spp_count_useful s) = spp_st s" "spp_st (spp_count_issued s) = spp_st s"
  "spp_pt (spp_count_useful s) = spp_pt s" "spp_pt (spp_count_issued s) = spp_pt s"
  "spp_filter (spp_count_useful s) = spp_filter s" "spp_filter (spp_count_issued s) = spp_filter s"
  "spp_ghrs (spp_count_useful s) = spp_ghrs s" "spp_ghrs (spp_count_issued s) = spp_ghrs s"
  "sig_mask (spp_count_useful s) = sig_mask s" "sig_mask (spp_count_issued s) = sig_mask s"
  "spp_consts P (spp_count_useful s) = spp_consts P s" "spp_consts P (spp_count_issued s) = spp_consts P s"
  "global_accuracy_pct (spp_count_useful s) = global_accuracy_pct s"
  "global_accuracy_pct (spp_count_issued s) = global_accuracy_pct s"
  "spp_hwp_id (spp_count_useful s) = spp_hwp_id s" "spp_hwp_id (spp_count_issued s) = spp_hwp_id s"
  by (simp_all add: spp_count_useful_def spp_count_issued_def Let_def)

lemma spp_consts_stat [simp]: "spp_consts P (INC_STAT_EVENT p e n s) = spp_consts P s"
  by (simp add: spp_consts_def)

lemma ctrs_ok_stat [simp]: "ctrs_ok (INC_STAT_EVENT p e n s) = ctrs_ok s"
  by (simp add: ctrs_ok_def)

lemma spp_inv_count [inv_intros]:
  "spp_inv PC P s \<Longrightarrow> spp_inv PC P (spp_count_useful s)"
  "spp_inv PC P s \<Longrightarrow> spp_inv PC P (spp_count_issued s)"
  by (simp_all add: spp_inv_def spp_count_ok)

lemma spp_inv_set_filter [inv_intros]:
  "spp_inv PC P s \<Longrightarrow> spp_inv PC P (spp_set_filter i e s)"
  by (simp add: spp_inv_def spp_set_filter_def ctrs_ok_def)

lemma spp_inv_useful_less [inv_intros]:
  "spp_inv PC P s \<Longrightarrow> pf_useful s \<noteq> 0 \<Longrightarrow> spp_inv PC P (s\<lparr>pf_useful := pf_useful s - 1\<rparr>)"
proof -
  assume a: "spp_inv PC P s" and "pf_useful s \<noteq> 0"
  then have "pf_useful s - 1 \<le> pf_useful s"
    by (metis less_imp_le measure_unat word_less_nat_alt)
  with a show ?thesis by (auto simp: spp_inv_def ctrs_ok_def)
qed

lemma spp_filter_check_inv [inv_intros]:
  "spp_inv PC P s \<Longrightarrow> spp_inv PC P (snd (spp_filter_check PC P a req s))"
  by (cases req) (auto simp: spp_filter_check_def Let_def STAT_EVENT_def intro!: inv_intros)

lemma spp_filter_check_frame [simp]:
  "spp_alloc (snd (spp_filter_check PC P a req s)) = spp_alloc s"
  "spp_hwp_id (snd (spp_filter_check PC P a req s)) = spp_hwp_id s"
  "spp_st (snd (spp_filter_check PC P a req s)) = spp_st s"
  "spp_pt (snd (spp_filter_check PC P a req s)) = spp_pt s"
  "spp_ghrs (snd (spp_filter_check PC P a req s)) = spp_ghrs s"
  "sig_mask (snd (spp_filter_check PC P a req s)) = sig_mask s"
  "global_accuracy_pct (snd (spp_filter_check PC P a req s)) = global_accuracy_pct s"
  by (cases req; auto simp: spp_filter_check_def Let_def STAT_EVENT_def spp_set_filter_def)+

section \<open>The global history register\<close>

lemma spp_ghr_scan_Inl:
  "spp_ghr_scan off i v c g = Inl k \<Longrightarrow>
     i \<le> k \<and> k < i + length g \<and> ghre_valid (g ! (k - i)) \<and> ghre_offset (g ! (k - i)) = off"
proof (induction g arbitrary: i v c)
  case Nil
  then show ?case by simp
next
  case (Cons e g)
  consider "ghre_valid e \<and> ghre_offset e = off" | v' c' where "spp_ghr_scan off (Suc i) v' c' g = Inl k"
    using Cons.prems by (auto split: if_splits)
  then show ?case
  proof cases
    case 1
    with Cons.prems show ?thesis by auto
  next
    case 2
    from Cons.IH [OF this] show ?thesis by (auto simp: nth_Cons' Suc_diff_Suc)
  qed
qed

lemma spp_ghr_scan_Inr:
  "spp_ghr_scan off i v c g = Inr r \<Longrightarrow>
     (\<forall>e \<in> set g. \<not> (ghre_valid e \<and> ghre_offset e = off)) \<and>
     (r = v \<and> (\<forall>e \<in> set g. c \<le> ghre_confidence e) \<or>
      (\<exists>k < length g. r = Some (i + k) \<and> ghre_confidence (g ! k) < c \<and>
         (\<forall>e \<in> set g. ghre_confidence (g ! k) \<le> ghre_confidence e)))"
proof (induction g arbitrary: i v c)
  case Nil
  then show ?case by simp
next
  case (Cons e g)
  have ne: "\<not> (ghre_valid e \<and> ghre_offset e = off)" using Cons.prems by (auto split: if_splits)
  show ?case
  proof (cases "ghre_confidence e < c")
    case True
    with Cons.prems ne Cons.IH [of "Suc i" "Some i" "ghre_confidence e"] show ?thesis
      by (auto intro: exI [of _ "0::nat"])
  next
    case False
    with Cons.prems ne Cons.IH [of "Suc i" v c] show ?thesis
      by (auto simp: not_less)
  qed
qed

lemma ghr_ok_update:
  assumes "ghr_ok PC P sm g" "i < length g" "delta_ok PC P (ghre_delta e)" "ghre_sig e \<le> sm"
    "ghre_offset e \<le> spp_offs_mask PC P"
    "\<And>j. j < length g \<Longrightarrow> j \<noteq> i \<Longrightarrow> ghre_valid (g ! j) \<Longrightarrow> ghre_offset (g ! j) \<noteq> ghre_offset e"
  shows "ghr_ok PC P sm (g[i := e])"
  using assms distinct_map_filter_update [of ghre_offset ghre_valid g i e]
  by (simp add: ghr_ok_def list_all_update)

lemma ghr_ok_once:
  assumes "ghr_ok PC P sm g" "i < length g" "j < length g" "ghre_valid (g ! i)" "ghre_valid (g ! j)"
    "ghre_offset (g ! i) = ghre_offset (g ! j)"
  shows "i = j"
  using assms distinct_map_filterD [of ghre_offset ghre_valid g i j] by (simp add: ghr_ok_def)

text \<open>
  An update keeps one entry per offset. It can only fail its assertion when every register has
  confidence \<^verbatim>\<open>(uns)-1\<close>.
\<close>

lemma spp_ghr_update_ok:
  assumes "spp_inv PC P s" "sg \<le> sig_mask s" "off \<le> spp_offs_mask PC P" "delta_ok PC P d"
    and "spp_ghr_update P sg conf off d s = Some s'"
  shows "spp_inv PC P s' \<and> (\<exists>g. s' = s\<lparr>spp_ghrs := g\<rparr>)"
proof (cases "PREF_SPP_GHR_ON P")
  case False
  with assms(5) have "s' = s" by (simp add: spp_ghr_update_def)
  then have "s' = s\<lparr>spp_ghrs := spp_ghrs s\<rparr>" by simp
  with assms(1) \<open>s' = s\<close> show ?thesis by blast
next
  case True
  let ?g = "spp_ghrs s"
  have g: "ghr_ok PC P (sig_mask s) ?g" using assms(1) by (simp add: spp_inv_def)
  have put: "spp_inv PC P (s\<lparr>spp_ghrs := ?g[i := e]\<rparr>)" if "ghr_ok PC P (sig_mask s) (?g[i := e])" for i e
    using assms(1) that by (simp add: spp_inv_def ctrs_ok_def)
  show ?thesis
  proof (cases "spp_ghr_scan off 0 None (- 1) ?g")
    case (Inl i)
    from spp_ghr_scan_Inl [OF Inl] have i: "i < length ?g" "ghre_valid (?g ! i)" "ghre_offset (?g ! i) = off" by auto
    have other: "ghre_offset (?g ! j) \<noteq> off" if "j < length ?g" "j \<noteq> i" "ghre_valid (?g ! j)" for j
      using ghr_ok_once [OF g i(1) that(1) i(2) that(3)] i(3) that(2) by metis
    have "ghr_ok PC P (sig_mask s) (?g[i := (?g ! i)\<lparr>ghre_sig := sg, ghre_confidence := conf, ghre_delta := d\<rparr>])"
      by (rule ghr_ok_update [OF g i(1)]) (use i assms(2-4) other in simp_all)
    from put [OF this] assms(5) show ?thesis
      unfolding spp_ghr_update_def using True Inl by auto
  next
    case (Inr r)
    with True assms(5) obtain v where r: "r = Some v" by (cases r) (auto simp: spp_ghr_update_def)
    from spp_ghr_scan_Inr [OF Inr] r have v: "v < length ?g" "\<forall>e \<in> set ?g. \<not> (ghre_valid e \<and> ghre_offset e = off)"
      by auto
    have "ghr_ok PC P (sig_mask s) (?g[v := \<lparr>ghre_valid = True, ghre_sig = sg, ghre_confidence = conf,
        ghre_offset = off, ghre_delta = d\<rparr>])"
      by (rule ghr_ok_update [OF g v(1)]) (use v assms(2-4) in auto)
    from put [OF this] assms(5) show ?thesis
      unfolding spp_ghr_update_def using True Inr r by auto
  qed
qed

lemma spp_ghr_update_total:
  assumes "spp_inv PC P s" "spp_params_ok PC P" "\<forall>e \<in> set (spp_ghrs s). ghre_confidence e < - 1"
  shows "\<exists>s'. spp_ghr_update P sg conf off d s = Some s'"
proof -
  have "spp_ghrs s \<noteq> []"
    using assms(1,2) by (auto simp: spp_inv_def ghr_ok_def spp_params_ok_def unat_eq_0)
  then obtain e where e: "e \<in> set (spp_ghrs s)" by (metis hd_in_set)
  have "spp_ghr_scan off 0 None (- 1) (spp_ghrs s) \<noteq> Inr None"
  proof
    assume "spp_ghr_scan off 0 None (- 1) (spp_ghrs s) = Inr None"
    from spp_ghr_scan_Inr [OF this] e have "- 1 \<le> ghre_confidence e" by blast
    with assms(3) e show False by (metis leD)
  qed
  then show ?thesis
    by (auto simp: spp_ghr_update_def split: sum.split option.split)
qed

section \<open>Confidences and the candidate queue\<close>

lemma spp_path_conf_le_100:
  assumes cd: "c_delta \<le> c_sig" and cs: "c_sig \<noteq> 0"
    and acc: "depth \<noteq> 0 \<Longrightarrow> global_accuracy_pct s \<le> 100 \<and> la \<le> 100"
  shows "spp_path_conf s c_delta c_sig la depth \<le> 100"
proof -
  have bnd: "unat c_delta < 4294967296" using unsigned_less [where 'a = nat, of c_delta] by simp
  have le: "unat c_delta \<le> unat c_sig" "0 < unat c_sig" using cd cs by (simp_all add: word_le_nat_alt unat_gt_0)
  have ratio: "k * unat c_delta div unat c_sig \<le> k" for k
    using le by (metis div_le_mono mult_le_mono2 nonzero_mult_div_cancel_right less_irrefl_nat)
  show ?thesis
  proof (cases "depth = 0")
    case True
    have "unat (100 * ucast c_delta :: uns64) = 100 * unat c_delta"
      using bnd by (subst unat_mult_64) simp_all
    then have "unat ((100 * ucast c_delta :: uns64) div ucast c_sig) = 100 * unat c_delta div unat c_sig"
      by (simp add: unat_div_distrib)
    with ratio [of 100] True show ?thesis
      by (simp add: spp_path_conf_def word_le_nat_alt unat_ucast_32)
  next
    case False
    let ?a = "global_accuracy_pct s" and ?r = "(ucast (global_accuracy_pct s) * ucast c_delta :: uns64) div ucast c_sig"
    have a: "unat ?a \<le> 100" "unat la \<le> 100" using acc [OF False] by (simp_all add: word_le_nat_alt)
    have "unat ?a * unat c_delta \<le> 100 * unat c_delta" using a(1) by (rule mult_le_mono1)
    with bnd have "unat ?a * unat c_delta < 18446744073709551616" by linarith
    then have "unat (ucast ?a * ucast c_delta :: uns64) = unat ?a * unat c_delta"
      by (subst unat_mult_64) simp_all
    then have r: "unat ?r \<le> 100"
      using ratio [of "unat ?a"] a by (simp add: unat_div_distrib)
    then have p: "unat ?r * unat la \<le> 100 * 100" using a by (intro mult_le_mono)
    then have "unat (?r * ucast la) = unat ?r * unat la" by (subst unat_mult_64) simp_all
    then have "unat (?r * ucast la div 100) \<le> 100"
      using div_le_mono [OF p, of 100] by (simp add: unat_div_distrib)
    with False show ?thesis
      by (simp add: spp_path_conf_def word_le_nat_alt unat_ucast_32)
  qed
qed

text \<open>
  The scan never writes past the scratch arrays, writes only deltas of the set, and picks a way of
  the set.
\<close>

lemma spp_pt_scan_queue:
  assumes "spp_pt_scan P s c_sig la d w dq cq t way mc xs = (dq', cq', t', way', mc')"
  shows "t' \<le> t + length xs \<and> length dq' = length dq \<and> length cq' = length cq \<and>
    set dq' \<subseteq> set dq \<union> ptw_delta ` set xs \<and>
    set cq' \<subseteq> set cq \<union> (\<lambda>x. spp_path_conf s (ptw_c_delta x) c_sig la d) ` set xs \<and>
    (way' = way \<and> mc' = mc \<or>
       (\<exists>k < length xs. way' = Some (w + k) \<and> mc' = spp_path_conf s (ptw_c_delta (xs ! k)) c_sig la d))"
  using assms
proof (induction xs arbitrary: w dq cq t way mc)
  case Nil
  then show ?case by simp
next
  case (Cons x xs)
  let ?pc = "spp_path_conf s (ptw_c_delta x) c_sig la d"
  show ?case
  proof (cases "PREF_SPP_PF_THRESHOLD P \<le> ?pc")
    case False
    with Cons.prems have "spp_pt_scan P s c_sig la d (Suc w) dq cq t way mc xs = (dq', cq', t', way', mc')"
      by (simp add: Let_def)
    from Cons.IH [OF this] show ?thesis by auto
  next
    case True
    define way1 mc1 where "way1 = (if mc < ?pc then Some w else way)" and "mc1 = (if mc < ?pc then ?pc else mc)"
    from True Cons.prems have "spp_pt_scan P s c_sig la d (Suc w) (dq[t := ptw_delta x]) (cq[t := ?pc]) (Suc t) way1 mc1 xs
        = (dq', cq', t', way', mc')"
      by (simp add: Let_def way1_def mc1_def)
    note ih = Cons.IH [OF this]
    have sub: "set (dq[t := ptw_delta x]) \<subseteq> insert (ptw_delta x) (set dq)" "set (cq[t := ?pc]) \<subseteq> insert ?pc (set cq)"
      by (rule set_update_subset_insert)+
    have way: "way' = way \<and> mc' = mc \<or>
       (\<exists>k < length (x # xs). way' = Some (w + k) \<and> mc' = spp_path_conf s (ptw_c_delta ((x # xs) ! k)) c_sig la d)"
    proof (cases "way' = way1 \<and> mc' = mc1")
      case True
      then show ?thesis by (auto simp: way1_def mc1_def intro: exI [of _ "0::nat"])
    next
      case False
      with ih obtain k where "k < length xs" "way' = Some (Suc w + k)"
        "mc' = spp_path_conf s (ptw_c_delta (xs ! k)) c_sig la d" by blast
      then show ?thesis by (intro disjI2 exI [of _ "Suc k"]) simp
    qed
    from ih sub have "set dq' \<subseteq> set dq \<union> ptw_delta ` set (x # xs)" by auto
    moreover from ih sub have "set cq' \<subseteq> set cq \<union> (\<lambda>x. spp_path_conf s (ptw_c_delta x) c_sig la d) ` set (x # xs)"
      by auto
    ultimately show ?thesis using ih way by simp
  qed
qed

lemma c_delta_le_c_sig: "pt_set_ok PC P r \<Longrightarrow> x \<in> set (pts_ways r) \<Longrightarrow> ptw_c_delta x \<le> pts_c_sig r"
  using member_le_sum_list [of "unat (ptw_c_delta x)" "map (\<lambda>w. unat (ptw_c_delta w)) (pts_ways r)"]
  by (auto simp: pt_set_ok_def c_total_def word_le_nat_alt)

lemma spp_pt_read_pattern_ok:
  assumes ok: "spp_params_ok PC P" and inv: "spp_inv PC P s"
    and n: "unat (PREF_SPP_PT_WAY P) < n"
    and rd: "spp_pt_read_pattern P sg (replicate n 0) (replicate n 0) 0 la d s = (dq, cq, t, way, la')"
  shows "t \<le> unat (PREF_SPP_PT_WAY P)" "length dq = n" "length cq = n" "list_all (delta_ok PC P) dq"
    "\<And>w. way = Some w \<Longrightarrow> w < unat (PREF_SPP_PT_WAY P)"
    "(d \<noteq> 0 \<longrightarrow> global_accuracy_pct s \<le> 100) \<Longrightarrow> la \<le> 100 \<Longrightarrow> list_all (\<lambda>c. c \<le> 100) cq \<and> la' \<le> 100"
proof -
  let ?r = "spp_pt s ! spp_set_index (ucast sg) (PREF_SPP_PT_SET P)"
  have r: "pt_set_ok PC P ?r"
    using ok inv by (simp add: spp_params_ok_def spp_inv_def spp_set_index_lt list_all_nth)
  have zero: "set (replicate n (0::uns)) \<subseteq> {0}" by auto
  have "t \<le> unat (PREF_SPP_PT_WAY P) \<and> length dq = n \<and> length cq = n \<and> set dq \<subseteq> {0} \<union> ptw_delta ` set (pts_ways ?r) \<and>
    (\<forall>w. way = Some w \<longrightarrow> w < unat (PREF_SPP_PT_WAY P)) \<and>
    (set cq \<subseteq> {0} \<union> (\<lambda>x. spp_path_conf s (ptw_c_delta x) (pts_c_sig ?r) la d) ` set (pts_ways ?r)) \<and>
    (la' = la \<or> la' = 0 \<or> la' \<in> (\<lambda>x. spp_path_conf s (ptw_c_delta x) (pts_c_sig ?r) la d) ` set (pts_ways ?r)) \<and>
    (pts_c_sig ?r = 0 \<longrightarrow> set cq \<subseteq> {0} \<and> la' = la)"
  proof (cases "pts_c_sig ?r = 0")
    case True
    with rd have "dq = replicate n 0 \<and> cq = (replicate n 0)[0 := 0] \<and> t = 0 \<and> way = None \<and> la' = la"
      by (auto simp: spp_pt_read_pattern_def Let_def)
    with zero show ?thesis by (auto dest: in_set_updD)
  next
    case False
    with rd have "spp_pt_scan P s (pts_c_sig ?r) la d 0 (replicate n 0) (replicate n 0) 0 None 0 (pts_ways ?r)
        = (dq, cq, t, way, la')"
      by (simp add: spp_pt_read_pattern_def Let_def)
    from spp_pt_scan_queue [OF this] zero False r show ?thesis
      by (auto simp: pt_set_ok_def)
  qed
  note * = this
  then show "t \<le> unat (PREF_SPP_PT_WAY P)" "length dq = n" "length cq = n"
    "\<And>w. way = Some w \<Longrightarrow> w < unat (PREF_SPP_PT_WAY P)" by auto
  show "list_all (delta_ok PC P) dq"
  proof -
    have "delta_ok PC P (ptw_delta x)" if "x \<in> set (pts_ways ?r)" for x
      using r that by (simp add: pt_set_ok_def list_all_iff)
    moreover have "set dq \<subseteq> {0} \<union> ptw_delta ` set (pts_ways ?r)" using * by simp
    ultimately show ?thesis unfolding list_all_iff using delta_ok_0 by blast
  qed
  show "list_all (\<lambda>c. c \<le> 100) cq \<and> la' \<le> 100"
    if "d \<noteq> 0 \<longrightarrow> global_accuracy_pct s \<le> 100" "la \<le> 100"
  proof (cases "pts_c_sig ?r = 0")
    case True
    with * that show ?thesis by (auto simp: list_all_iff)
  next
    case False
    then have "spp_path_conf s (ptw_c_delta x) (pts_c_sig ?r) la d \<le> 100" if "x \<in> set (pts_ways ?r)" for x
      using \<open>d \<noteq> 0 \<longrightarrow> _\<close> \<open>la \<le> 100\<close> c_delta_le_c_sig [OF r that] by (intro spp_path_conf_le_100) auto
    then have "(\<lambda>x. spp_path_conf s (ptw_c_delta x) (pts_c_sig ?r) la d) ` set (pts_ways ?r) \<subseteq> {..100}" by auto
    moreover have "(0::uns) \<in> {..100}" by simp
    ultimately have "set cq \<subseteq> {..100}" "la' \<in> {..100}" using * \<open>la \<le> 100\<close> by blast+
    then show ?thesis by (auto simp: list_all_iff)
  qed
qed

section \<open>Issuing a candidate\<close>

text \<open>A request for a line in the page of the demand address.\<close>

definition req_in_page :: "pref_params \<Rightarrow> spp_params \<Rightarrow> Addr \<Rightarrow> Pref_Mem_Req \<Rightarrow> bool" where
  "req_in_page PC P a r \<longleftrightarrow> pmr_valid r \<and> page_of P (line_of_index PC (pmr_line_index r)) = page_of P a"

definition line_pow2 :: "pref_params \<Rightarrow> bool" where
  "line_pow2 PC \<longleftrightarrow> DCACHE_LINE_SIZE PC = 2 ^ LOG2 (DCACHE_LINE_SIZE PC)"

lemma LOG2_lt: "LOG2 x < 32"
proof (cases "x = 0")
  case True
  then show ?thesis by (simp add: LOG2_def log2_floor.simps)
next
  case False
  have "unat x < 2 ^ 32" using unsigned_less [where 'a = nat, of x] by simp
  with False log2_floor_bounds [of "unat x"] have "2 ^ log2_floor (unat x) < (2::nat) ^ 32"
    by (simp add: unat_gt_0)
  then have "log2_floor (unat x) < 32" by (rule power_less_imp_less_exp [rotated]) simp
  then show ?thesis by (simp add: LOG2_def)
qed

lemma ucast_line_mask:
  assumes "line_pow2 PC"
  shows "ucast (DCACHE_LINE_SIZE PC - 1) = (mask (LOG2 (DCACHE_LINE_SIZE PC)) :: Addr)"
proof -
  let ?l = "LOG2 (DCACHE_LINE_SIZE PC)"
  have "DCACHE_LINE_SIZE PC - 1 = mask ?l"
    using assms by (simp add: line_pow2_def mask_eq_exp_minus_1)
  moreover have "ucast (mask ?l :: uns) = (mask ?l :: Addr)"
    using LOG2_lt [of "DCACHE_LINE_SIZE PC"] by (simp add: ucast_mask_eq min_def)
  ultimately show ?thesis by simp
qed

lemma line_of_index_line:
  assumes "line_pow2 PC"
  shows "line_of_index PC (drop_bit (LOG2 (DCACHE_LINE_SIZE PC)) (line_base PC b + delta_bytes PC d)) =
    line_base PC b + delta_bytes PC d"
proof -
  let ?l = "LOG2 (DCACHE_LINE_SIZE PC)" and ?x = "line_base PC b + delta_bytes PC d"
  have "line_base PC b = push_bit ?l (drop_bit ?l b)"
    unfolding line_base_def ucast_line_mask [OF assms]
    by (rule bit_eqI) (auto simp: bit_simps)
  then have x: "?x = push_bit ?l (drop_bit ?l b + scast d)"
    by (simp add: delta_bytes_def push_bit_add)
  have "push_bit ?l (drop_bit ?l (push_bit ?l z)) = push_bit ?l z" for z :: Addr
    by (rule bit_eqI) (auto simp: bit_simps)
  then have "push_bit ?l (drop_bit ?l ?x) = ?x" unfolding x .
  then show ?thesis by (simp add: line_of_index_def)
qed

text \<open>What the candidate loop may do to the two states.\<close>

definition spp_step_ok ::
    "pref_params \<Rightarrow> spp_params \<Rightarrow> uns8 \<Rightarrow> Addr \<Rightarrow> Pref_SPP \<times> pref_state \<Rightarrow> Pref_SPP \<times> pref_state \<Rightarrow> bool" where
  "spp_step_ok PC P p a sq sq' \<longleftrightarrow>
     (case sq of (s, q) \<Rightarrow> case sq' of (s', q') \<Rightarrow>
        spp_inv PC P s' \<and> queue_inv PC p q' \<and> spp_st s' = spp_st s \<and> spp_pt s' = spp_pt s \<and>
        sig_mask s' = sig_mask s \<and> global_accuracy_pct s' = global_accuracy_pct s \<and>
        (\<forall>r \<in> set (ul1req_queue (the_core PC p q')).
           r \<in> set (ul1req_queue (the_core PC p q)) \<or> req_in_page PC P a r))"

lemma spp_step_ok_refl: "spp_inv PC P s \<Longrightarrow> queue_inv PC p q \<Longrightarrow> spp_step_ok PC P p a (s, q) (s, q)"
  by (simp add: spp_step_ok_def)

lemma spp_step_ok_trans:
  "spp_step_ok PC P p a x y \<Longrightarrow> spp_step_ok PC P p a y z \<Longrightarrow> spp_step_ok PC P p a x z"
  by (cases x; cases y; cases z) (auto simp: spp_step_ok_def)

lemma spp_step_okI:
  assumes "spp_inv PC P s'" "queue_inv PC p q" "spp_st s' = spp_st s" "spp_pt s' = spp_pt s"
    "sig_mask s' = sig_mask s" "global_accuracy_pct s' = global_accuracy_pct s"
  shows "spp_step_ok PC P p a (s, q) (s', q)"
  using assms by (simp add: spp_step_ok_def)

lemma spp_step_ok_count:
  assumes "spp_step_ok PC P p a x (s, q)"
  shows "spp_step_ok PC P p a x (INC_STAT_EVENT p' e n s, q)" "spp_step_ok PC P p a x (spp_count_issued s, q)"
  using assms by (auto simp: spp_step_ok_def spp_inv_count split: prod.splits)

lemma spp_addto_step:
  assumes geo: "line_pow2 PC" and inv: "spp_inv PC P s" and q: "queue_inv PC p q"
    and page: "page_of P a = page_of P (line_base PC b + delta_bytes PC d)"
    and add: "pref_addto_ul1req_queue PC p
      (drop_bit (LOG2 (DCACHE_LINE_SIZE PC)) (line_base PC b + delta_bytes PC d)) hid q = (ok, q')"
  shows "spp_step_ok PC P p a (s, q) (s, q')"
proof -
  let ?li = "drop_bit (LOG2 (DCACHE_LINE_SIZE PC)) (line_base PC b + delta_bytes PC d)"
  have q': "q' = snd (pref_addto_ul1req_queue_set PC p ?li hid 0 0 0 False q)"
    using add by (simp add: pref_addto_ul1req_queue_def)
  have "queue_inv PC p q'" unfolding q' by (rule ul1q.add_inv [OF q])
  moreover have "r \<in> set (ul1req_queue (the_core PC p q)) \<or> req_in_page PC P a r"
    if "r \<in> set (ul1req_queue (the_core PC p q'))" for r
    using ul1q.add_only [OF q that [unfolded q']] page line_of_index_line [OF geo]
    by (auto simp: req_in_page_def)
  ultimately show ?thesis using inv by (simp add: spp_step_ok_def)
qed

lemma spp_issue_step:
  assumes geo: "line_pow2 PC" and inv: "spp_inv PC P s" and q: "queue_inv PC p q"
    and sg: "sg \<le> sig_mask s" and d: "delta_ok PC P d"
    and res: "spp_issue PC P p a b sg conf d (s, q) = Some sq'"
  shows "spp_step_ok PC P p a (s, q) sq'"
proof -
  let ?pf = "line_base PC b + delta_bytes PC d" and ?l2 = "PREF_SPP_FILL_THRESHOLD P \<le> conf"
  note refl = spp_step_ok_refl [OF inv q]
  consider (cut) "conf < spp_issue_cutoff P" | (inside) "\<not> conf < spp_issue_cutoff P" "page_of P a = page_of P ?pf"
    | (cross) "\<not> conf < spp_issue_cutoff P" "page_of P a \<noteq> page_of P ?pf" by blast
  then show ?thesis
  proof cases
    case cut
    with res refl show ?thesis by (simp add: spp_issue_def)
  next
    case inside
    let ?f = "spp_filter_check PC P ?pf (if ?l2 then SPP_FILTER_L2_PREFETCH else SPP_FILTER_LLC_PREFETCH) s"
    obtain go s1 where f: "?f = (go, s1)" by fastforce
    then have s1: "s1 = snd ?f" by simp
    have 1: "spp_step_ok PC P p a (s, q) (s1, q)"
      unfolding s1 using inv q by (intro spp_step_okI spp_filter_check_inv) simp_all
    then have inv1: "spp_inv PC P s1" by (simp add: spp_step_ok_def)
    obtain ok q1 where add: "pref_addto_ul1req_queue PC p (drop_bit (LOG2 (DCACHE_LINE_SIZE PC)) ?pf) (spp_hwp_id s1) q = (ok, q1)"
      by fastforce
    have 2: "spp_step_ok PC P p a (s, q) (s1, q1)"
      using spp_step_ok_trans [OF 1 spp_addto_step [OF geo inv1 q inside(2) add]] .
    have 3: "spp_step_ok PC P p a (s, q) (INC_STAT_EVENT p e n s1, q1)"
      "spp_step_ok PC P p a (s, q) (INC_STAT_EVENT p e n s1, q)" for e n
      using 1 2 by (simp_all add: spp_step_ok_count)
    show ?thesis
      using res inside f add 1 2 3 spp_step_ok_count(2) [OF 3(1)]
      by (auto simp: spp_issue_def Let_def STAT_EVENT_def split: if_splits)
  next
    case cross
    show ?thesis
    proof (cases "PREF_SPP_GHR_ON P")
      case False
      with cross res refl show ?thesis by (simp add: spp_issue_def Let_def)
    next
      case True
      with cross res obtain s' where s': "spp_ghr_update P sg conf (spp_page_offset PC P ?pf) d
          (STAT_EVENT p PREF_SPP_PF_PAGE_CROSS s) = Some s'" "sq' = (s', q)"
        by (auto simp: spp_issue_def Let_def)
      have "spp_inv PC P s' \<and> (\<exists>g. s' = (STAT_EVENT p PREF_SPP_PF_PAGE_CROSS s)\<lparr>spp_ghrs := g\<rparr>)"
        using inv sg d spp_page_offset_le
        by (intro spp_ghr_update_ok [OF _ _ _ _ s'(1)]) (simp_all add: STAT_EVENT_def)
      with s'(2) q show ?thesis by (auto simp: STAT_EVENT_def intro!: spp_step_okI)
    qed
  qed
qed

section \<open>The candidate loop and the lookahead\<close>

lemma spp_drain_step:
  assumes "line_pow2 PC" "spp_inv PC P s" "queue_inv PC p q" "sg \<le> sig_mask s"
    "list_all (\<lambda>(c, d). delta_ok PC P d) cs" "spp_drain PC P p a b sg cs (s, q) = Some sq'"
  shows "spp_step_ok PC P p a (s, q) sq'"
  using assms(2-)
proof (induction cs arbitrary: s q)
  case Nil
  then show ?case by (auto intro: spp_step_ok_refl)
next
  case (Cons cd cs)
  obtain c d where cd: "cd = (c, d)" by fastforce
  with Cons.prems obtain s1 q1 where i: "spp_issue PC P p a b sg c d (s, q) = Some (s1, q1)"
    and r: "spp_drain PC P p a b sg cs (s1, q1) = Some sq'" by (auto split: option.splits)
  have 1: "spp_step_ok PC P p a (s, q) (s1, q1)"
    using Cons.prems cd by (intro spp_issue_step [OF assms(1) _ _ _ _ i]) auto
  then have "spp_step_ok PC P p a (s1, q1) sq'"
    using Cons.prems r by (intro Cons.IH) (auto simp: spp_step_ok_def)
  with 1 show ?case by (rule spp_step_ok_trans)
qed

lemma candidates_ok:
  "list_all (delta_ok PC P) dq \<Longrightarrow> list_all (\<lambda>(c, d). delta_ok PC P d) (zip (take t cq) (take t dq))"
  by (auto simp: list_all_iff dest!: set_zip_rightD in_set_takeD)

lemma spp_hop_step:
  assumes ok: "spp_params_ok PC P" and geo: "line_pow2 PC" and inv: "spp_inv PC P s" and q: "queue_inv PC p q"
    and sg: "sg \<le> sig_mask s"
    and res: "spp_hop PC P p a b sg la d (s, q) = Some (go, b', sg', la', d', s', q')"
  shows "spp_step_ok PC P p a (s, q) (s', q')" "sg' \<le> sig_mask s'"
proof -
  let ?n = "Suc (unat (PREF_SPP_PT_WAY P))"
  obtain dq cq t way la1 where rd: "spp_pt_read_pattern P sg (replicate ?n 0) (replicate ?n 0) 0 la d s
      = (dq, cq, t, way, la1)" by (metis prod_cases5)
  note rp = spp_pt_read_pattern_ok [OF ok inv _ rd, simplified]
  from res rd have dr: "spp_drain PC P p a b sg (zip (take t cq) (take t dq)) (s, q) = Some (s', q')"
    unfolding spp_hop_def Let_def by (auto split: option.splits prod.splits simp del: replicate.simps)
  show 1: "spp_step_ok PC P p a (s, q) (s', q')"
    by (rule spp_drain_step [OF geo inv q sg candidates_ok [OF rp(4)] dr])
  then have "sig_mask s' = sig_mask s" by (simp add: spp_step_ok_def)
  have "way = None \<Longrightarrow> sg' = sg" "\<And>w. way = Some w \<Longrightarrow> \<exists>c. sg' = spp_mix_sig P s' sg c"
    using res rd dr unfolding spp_hop_def Let_def by (simp_all del: replicate.simps, blast)
  then show "sg' \<le> sig_mask s'"
    using sg \<open>sig_mask s' = sig_mask s\<close> spp_mix_sig_le [of P s'] by (cases way) auto
qed

text \<open>What every hop keeps, the lookahead keeps, and if no hop fails, it returns.\<close>

lemma spp_lookahead_rule:
  assumes "I b sg la d sq"
    and "\<And>b sg la d sq go b' sg' la' d' sq'. I b sg la d sq \<Longrightarrow>
      spp_hop PC P p a b sg la d sq = Some (go, b', sg', la', d', sq') \<Longrightarrow> I b' sg' la' d' sq'"
    and "spp_lookahead PC P p a b sg la d sq = Some (dep, sq')"
  shows "\<exists>b sg la. I b sg la dep sq'"
  using assms
proof (induction PC P p a b sg la d sq rule: spp_lookahead.induct)
  case (1 PC P p a b sg la d sq)
  from "1.prems"(3) obtain go b1 sg1 la1 d1 sq1 where
    h: "spp_hop PC P p a b sg la d sq = Some (go, b1, sg1, la1, d1, sq1)"
    by (subst (asm) spp_lookahead.simps) (auto split: option.splits)
  from "1.prems"(1,2) h have I: "I b1 sg1 la1 d1 sq1" by blast
  show ?case
  proof (cases "go \<and> d1 < unat (PREF_SPP_MAX_DEPTH P) \<and> PREF_SPP_LOOKAHEAD_ON P")
    case True
    with "1.prems"(3) h have "spp_lookahead PC P p a b1 sg1 la1 d1 sq1 = Some (dep, sq')"
      by (subst (asm) spp_lookahead.simps) simp
    from "1.IH" [OF h refl refl refl refl refl True I _ this] "1.prems"(2) show ?thesis by blast
  next
    case False
    with "1.prems"(3) h have "dep = d1 \<and> sq' = sq1"
      by (subst (asm) spp_lookahead.simps) auto
    with I show ?thesis by blast
  qed
qed

lemma spp_lookahead_total:
  assumes "I b sg la d sq"
    and "\<And>b sg la d sq. I b sg la d sq \<Longrightarrow>
      \<exists>go b' sg' la' d' sq'. spp_hop PC P p a b sg la d sq = Some (go, b', sg', la', d', sq') \<and> I b' sg' la' d' sq'"
  shows "\<exists>dep sq' b1 sg1 la1. spp_lookahead PC P p a b sg la d sq = Some (dep, sq') \<and> I b1 sg1 la1 dep sq'"
  using assms
proof (induction PC P p a b sg la d sq rule: spp_lookahead.induct)
  case (1 PC P p a b sg la d sq)
  from "1.prems" obtain go b1 sg1 la1 d1 sq1 where
    h: "spp_hop PC P p a b sg la d sq = Some (go, b1, sg1, la1, d1, sq1)" and I: "I b1 sg1 la1 d1 sq1" by blast
  show ?case
  proof (cases "go \<and> d1 < unat (PREF_SPP_MAX_DEPTH P) \<and> PREF_SPP_LOOKAHEAD_ON P")
    case True
    from "1.IH" [OF h refl refl refl refl refl True I] "1.prems"(2)
    have "\<exists>dep sq' b sg la. spp_lookahead PC P p a b1 sg1 la1 d1 sq1 = Some (dep, sq') \<and> I b sg la dep sq'" by blast
    with True h show ?thesis by (subst spp_lookahead.simps) simp
  next
    case False
    with h have "spp_lookahead PC P p a b sg la d sq = Some (d1, sq1)"
      by (subst spp_lookahead.simps) auto
    with I show ?thesis by blast
  qed
qed

lemma spp_lookahead_step:
  assumes "spp_params_ok PC P" "line_pow2 PC" "spp_inv PC P s" "queue_inv PC p q"
    "sg \<le> sig_mask s" "spp_lookahead PC P p a b sg la d (s, q) = Some (dep, sq')"
  shows "spp_step_ok PC P p a (s, q) sq'"
proof -
  define I where "I = (\<lambda>(b::Addr) sg (la::uns) (d::nat) sq1. spp_step_ok PC P p a (s, q) sq1 \<and> sg \<le> sig_mask (fst sq1))"
  have "I b' sg' la' d' sq2" if "I b sg la d sq1"
    "spp_hop PC P p a b sg la d sq1 = Some (go, b', sg', la', d', sq2)" for b sg la d sq1 go b' sg' la' d' sq2
  proof -
    obtain s1 q1 s2 q2 where [simp]: "sq1 = (s1, q1)" "sq2 = (s2, q2)" by fastforce
    have 1: "spp_inv PC P s1" "queue_inv PC p q1" "sg \<le> sig_mask s1" "spp_step_ok PC P p a (s, q) (s1, q1)"
      using that(1) by (auto simp: I_def spp_step_ok_def)
    from spp_hop_step [OF assms(1,2) 1(1-3) that(2) [simplified]] spp_step_ok_trans [OF 1(4)]
    show ?thesis by (simp add: I_def)
  qed
  moreover have "I b sg la d (s, q)" using assms by (simp add: I_def spp_step_ok_refl)
  ultimately have "\<exists>b sg la. I b sg la dep sq'"
    using spp_lookahead_rule [where I = I, OF _ _ assms(6)] by blast
  then show ?thesis by (auto simp: I_def)
qed

text \<open>The depth that is counted never passes the limit.\<close>

lemma spp_hop_depth:
  assumes "spp_hop PC P p a b sg la d sq = Some (go, b', sg', la', d', sq')"
  shows "d' \<le> Suc d"
  using assms unfolding spp_hop_def Let_def
  by (auto split: option.splits prod.splits if_splits simp del: replicate.simps)

lemma spp_lookahead_depth:
  assumes "spp_lookahead PC P p a b sg la d sq = Some (dep, sq')" "d < unat (PREF_SPP_MAX_DEPTH P)"
  shows "dep \<le> unat (PREF_SPP_MAX_DEPTH P)"
  using assms
proof (induction PC P p a b sg la d sq rule: spp_lookahead.induct)
  case (1 PC P p a b sg la d sq)
  from "1.prems"(1) obtain go b1 sg1 la1 d1 sq1 where
    h: "spp_hop PC P p a b sg la d sq = Some (go, b1, sg1, la1, d1, sq1)"
    by (subst (asm) spp_lookahead.simps) (auto split: option.splits)
  show ?case
  proof (cases "go \<and> d1 < unat (PREF_SPP_MAX_DEPTH P) \<and> PREF_SPP_LOOKAHEAD_ON P")
    case True
    with "1.prems"(1) h have "spp_lookahead PC P p a b1 sg1 la1 d1 sq1 = Some (dep, sq')"
      by (subst (asm) spp_lookahead.simps) simp
    with "1.IH" [OF h refl refl refl refl refl True] True show ?thesis by blast
  next
    case False
    with "1.prems"(1) h have "dep = d1"
      by (subst (asm) spp_lookahead.simps) auto
    with spp_hop_depth [OF h] "1.prems"(2) show ?thesis by simp
  qed
qed

section \<open>Confidences in the global history register\<close>

text \<open>
  With an accuracy of at most 100 percent every confidence is a percentage, and then the register
  always has a victim.
\<close>

definition ghr_conf_ok :: "spp_params \<Rightarrow> Pref_SPP \<Rightarrow> bool" where
  "ghr_conf_ok P s \<longleftrightarrow> (PREF_SPP_GHR_ON P \<longrightarrow> list_all (\<lambda>e. ghre_confidence e \<le> 100) (spp_ghrs s))"

lemma ghr_conf_ok_cong: "spp_ghrs s' = spp_ghrs s \<Longrightarrow> ghr_conf_ok P s' = ghr_conf_ok P s"
  by (simp add: ghr_conf_ok_def)

lemma spp_ghr_update_conf:
  assumes "spp_inv PC P s" "spp_params_ok PC P" "ghr_conf_ok P s" "conf \<le> 100"
  shows "\<exists>s'. spp_ghr_update P sg conf off d s = Some s' \<and> ghr_conf_ok P s'"
proof (cases "PREF_SPP_GHR_ON P")
  case False
  then show ?thesis by (simp add: spp_ghr_update_def ghr_conf_ok_def)
next
  case True
  with assms(3) have le: "list_all (\<lambda>e. ghre_confidence e \<le> 100) (spp_ghrs s)" by (simp add: ghr_conf_ok_def)
  have "(100::uns) < - 1" by simp
  with le have "\<forall>e \<in> set (spp_ghrs s). ghre_confidence e < - 1"
    by (auto simp: list_all_iff intro: le_less_trans)
  with spp_ghr_update_total [OF assms(1,2)] obtain s' where s': "spp_ghr_update P sg conf off d s = Some s'" by blast
  with True le assms(4) have "ghr_conf_ok P s'"
    by (auto simp: spp_ghr_update_def ghr_conf_ok_def list_all_update split: sum.splits option.splits)
  with s' show ?thesis by blast
qed

lemma spp_issue_total:
  assumes "spp_inv PC P s" "spp_params_ok PC P" "ghr_conf_ok P s" "conf \<le> 100"
  shows "\<exists>s' q'. spp_issue PC P p a b sg conf d (s, q) = Some (s', q') \<and> ghr_conf_ok P s'"
proof -
  let ?pf = "line_base PC b + delta_bytes PC d"
  have c: "ghr_conf_ok P (INC_STAT_EVENT p' e n s1) = ghr_conf_ok P s1" "ghr_conf_ok P (spp_count_issued s1) = ghr_conf_ok P s1"
    "ghr_conf_ok P (snd (spp_filter_check PC P x r s1)) = ghr_conf_ok P s1" for p' e n x r s1
    by (rule ghr_conf_ok_cong, simp)+
  obtain s2 where g: "spp_ghr_update P sg conf (spp_page_offset PC P ?pf) d (STAT_EVENT p PREF_SPP_PF_PAGE_CROSS s) = Some s2"
    "ghr_conf_ok P s2"
    using spp_ghr_update_conf [of PC P "STAT_EVENT p PREF_SPP_PF_PAGE_CROSS s" conf] assms c
    unfolding STAT_EVENT_def spp_inv_stat by blast
  consider (cut) "conf < spp_issue_cutoff P" | (inside) "\<not> conf < spp_issue_cutoff P" "page_of P a = page_of P ?pf"
    | (cross) "\<not> conf < spp_issue_cutoff P" "page_of P a \<noteq> page_of P ?pf" by blast
  then show ?thesis
  proof cases
    case cut
    with assms(3) show ?thesis by (simp add: spp_issue_def)
  next
    case inside
    let ?f = "spp_filter_check PC P ?pf (if PREF_SPP_FILL_THRESHOLD P \<le> conf then SPP_FILTER_L2_PREFETCH
      else SPP_FILTER_LLC_PREFETCH) s"
    obtain go s1 where f: "?f = (go, s1)" by fastforce
    then have "s1 = snd ?f" by simp
    then have s1: "ghr_conf_ok P s1" using c(3) assms(3) by metis
    obtain ok q1 where "pref_addto_ul1req_queue PC p (drop_bit (LOG2 (DCACHE_LINE_SIZE PC)) ?pf) (spp_hwp_id s1) q = (ok, q1)"
      by fastforce
    with inside f s1 c(1,2) show ?thesis by (simp add: spp_issue_def Let_def STAT_EVENT_def)
  next
    case cross
    with g assms(3) show ?thesis by (simp add: spp_issue_def Let_def)
  qed
qed

lemma spp_drain_total:
  assumes "line_pow2 PC" "spp_params_ok PC P" "spp_inv PC P s" "queue_inv PC p q" "sg \<le> sig_mask s"
    "list_all (\<lambda>(c, d). delta_ok PC P d \<and> c \<le> 100) cs" "ghr_conf_ok P s"
  shows "\<exists>s' q'. spp_drain PC P p a b sg cs (s, q) = Some (s', q') \<and> ghr_conf_ok P s'"
  using assms(3-)
proof (induction cs arbitrary: s q)
  case Nil
  then show ?case by simp
next
  case (Cons cd cs)
  obtain c d where cd: "cd = (c, d)" by fastforce
  obtain s1 q1 where i: "spp_issue PC P p a b sg c d (s, q) = Some (s1, q1)" "ghr_conf_ok P s1"
    using spp_issue_total [OF Cons.prems(1) assms(2) Cons.prems(5)] Cons.prems(4) cd by fastforce
  have "spp_step_ok PC P p a (s, q) (s1, q1)"
    using Cons.prems cd by (intro spp_issue_step [OF assms(1) _ _ _ _ i(1)]) auto
  then have "\<exists>s' q'. spp_drain PC P p a b sg cs (s1, q1) = Some (s', q') \<and> ghr_conf_ok P s'"
    using Cons.prems i(2) by (intro Cons.IH) (auto simp: spp_step_ok_def)
  with i(1) show ?case by (simp add: cd)
qed

lemma spp_hop_total:
  assumes ok: "spp_params_ok PC P" and geo: "line_pow2 PC" and inv: "spp_inv PC P s" and q: "queue_inv PC p q"
    and sg: "sg \<le> sig_mask s" and acc: "global_accuracy_pct s \<le> 100" and la: "la \<le> 100" and g: "ghr_conf_ok P s"
  shows "\<exists>go b' sg' la' d' s' q'. spp_hop PC P p a b sg la d (s, q) = Some (go, b', sg', la', d', s', q') \<and>
    la' \<le> 100 \<and> ghr_conf_ok P s'"
proof -
  let ?n = "Suc (unat (PREF_SPP_PT_WAY P))"
  obtain dq cq t way la1 where rd: "spp_pt_read_pattern P sg (replicate ?n 0) (replicate ?n 0) 0 la d s
      = (dq, cq, t, way, la1)" by (metis prod_cases5)
  note rp = spp_pt_read_pattern_ok [OF ok inv _ rd, simplified]
  have "list_all (\<lambda>(c, d). delta_ok PC P d \<and> c \<le> 100) (zip (take t cq) (take t dq))"
    using rp(4) rp(6) acc la
    by (auto simp: list_all_iff dest!: in_set_takeD dest: set_zip_leftD set_zip_rightD)
  then obtain s' q' where dr: "spp_drain PC P p a b sg (zip (take t cq) (take t dq)) (s, q) = Some (s', q')"
    "ghr_conf_ok P s'"
    using spp_drain_total [OF geo ok inv q sg _ g] by blast
  have "la1 \<le> 100" using rp(6) acc la by simp
  with rd dr show ?thesis
    unfolding spp_hop_def Let_def by (cases way) (auto simp del: replicate.simps)
qed

lemma spp_lookahead_returns:
  assumes "spp_params_ok PC P" "line_pow2 PC" "spp_inv PC P s" "queue_inv PC p q"
    "sg \<le> sig_mask s" "global_accuracy_pct s \<le> 100" "la \<le> 100" "ghr_conf_ok P s"
  shows "\<exists>dep s' q'. spp_lookahead PC P p a b sg la d (s, q) = Some (dep, s', q') \<and> ghr_conf_ok P s'"
proof -
  define I where "I = (\<lambda>(b::Addr) sg la (d::nat) sq1. spp_step_ok PC P p a (s, q) sq1 \<and> sg \<le> sig_mask (fst sq1) \<and>
     la \<le> (100::uns) \<and> ghr_conf_ok P (fst sq1))"
  have "\<exists>go b' sg' la' d' sq2. spp_hop PC P p a b sg la d sq1 = Some (go, b', sg', la', d', sq2) \<and> I b' sg' la' d' sq2"
    if "I b sg la d sq1" for b sg la d sq1
  proof -
    obtain s1 q1 where [simp]: "sq1 = (s1, q1)" by fastforce
    have 1: "spp_inv PC P s1" "queue_inv PC p q1" "sg \<le> sig_mask s1" "global_accuracy_pct s1 \<le> 100" "la \<le> 100"
      "ghr_conf_ok P s1" "spp_step_ok PC P p a (s, q) (s1, q1)"
      using that assms(6) by (auto simp: I_def spp_step_ok_def)
    obtain go b' sg' la' d' s2 q2 where h: "spp_hop PC P p a b sg la d (s1, q1) = Some (go, b', sg', la', d', s2, q2)"
      "la' \<le> 100" "ghr_conf_ok P s2"
      using spp_hop_total [OF assms(1,2) 1(1-6)] by blast
    from h spp_hop_step [OF assms(1,2) 1(1-3) h(1)] spp_step_ok_trans [OF 1(7)] show ?thesis
      by (auto simp: I_def)
  qed
  moreover have "I b sg la d (s, q)" using assms by (simp add: I_def spp_step_ok_refl)
  ultimately have "\<exists>dep sq' b1 sg1 la1. spp_lookahead PC P p a b sg la d (s, q) = Some (dep, sq') \<and> I b1 sg1 la1 dep sq'"
    using spp_lookahead_total [where I = I] by blast
  then show ?thesis by (auto simp: I_def)
qed

end
