(* ===== verification/Pref_SPP_Run.thy ===== *)
theory Pref_SPP_Run
  imports Pref_SPP_Inv
begin

text \<open>
  Whole demand accesses of the Signature Path Prefetcher and runs of it: what \<^verbatim>\<open>spp_operate\<close> and the
  callbacks keep, when no assertion can fail, and the states reachable from \<^verbatim>\<open>pref_spp_init\<close> under
  any sequence of callbacks with an arbitrary well-formed framework in between.
\<close>

section \<open>One demand access\<close>

lemma spp_inv_accuracy: "spp_inv PC P s \<Longrightarrow> spp_inv PC P (s\<lparr>global_accuracy_pct := x\<rparr>)"
  by simp

text \<open>The state in which the lookahead starts.\<close>

definition spp_trained ::
    "pref_params \<Rightarrow> spp_params \<Rightarrow> uns8 \<Rightarrow> Addr \<Rightarrow> Pref_SPP \<Rightarrow> (uns \<times> Pref_SPP) option" where
  "spp_trained PC P p a s =
     (case spp_st_read_and_update P (drop_bit (LOG2 (VA_PAGE_SIZE_BYTES P)) a) (spp_page_offset PC P a)
             (STAT_EVENT p PREF_SPP_OPERATE (s\<lparr>global_accuracy_pct := spp_accuracy s\<rparr>)) of
        None \<Rightarrow> None
      | Some ((last_sig, curr_sig, delta), s) \<Rightarrow>
          let s = snd (spp_filter_check PC P a SPP_FILTER_DEMAND s)
          in Some (curr_sig, if last_sig \<noteq> 0 then spp_pt_update_pattern P last_sig delta s else s))"

lemma spp_operate_trained:
  "spp_operate PC P p x (s, q) =
     (if \<not> spp_alloc s then None
      else case spp_trained PC P p (line_base PC x) s of
        None \<Rightarrow> None
      | Some (sg, s) \<Rightarrow>
          if PREF_SPP_MAX_DEPTH P = 0 then Some (s, q)
          else case spp_lookahead PC P p (line_base PC x) (line_base PC x) sg 100 0 (s, q) of
            None \<Rightarrow> None
          | Some (depth, s, q) \<Rightarrow>
              Some (STAT_EVENT p (PREF_SPP_LOOKAHEAD_DEPTH (min 9 depth))
                     (INC_STAT_EVENT p PREF_SPP_LOOKAHEAD_DEPTH_TOTAL (of_nat depth) s), q))"
  by (simp add: spp_operate_def spp_trained_def Let_def split: option.split prod.split)

lemma spp_pt_update_frame [simp]:
  "global_accuracy_pct (spp_pt_update_pattern P l d s) = global_accuracy_pct s"
  "spp_ghrs (spp_pt_update_pattern P l d s) = spp_ghrs s"
  "sig_mask (spp_pt_update_pattern P l d s) = sig_mask s"
  by (simp_all add: spp_pt_update_pattern_def Let_def)

lemma spp_trained_ok:
  assumes ok: "spp_params_ok PC P" and inv: "spp_inv PC P s"
  obtains sg s' where "spp_trained PC P p a s = Some (sg, s')" "spp_inv PC P s'" "sg \<le> sig_mask s'"
    "global_accuracy_pct s' = spp_accuracy s" "spp_ghrs s' = spp_ghrs s"
proof -
  let ?s = "STAT_EVENT p PREF_SPP_OPERATE (s\<lparr>global_accuracy_pct := spp_accuracy s\<rparr>)"
  have "spp_inv PC P ?s" using inv by (simp add: STAT_EVENT_def)
  from spp_st_read_and_update_ok [OF ok this spp_page_offset_le]
  obtain last cur d st' stats' where
    rd: "spp_st_read_and_update P (drop_bit (LOG2 (VA_PAGE_SIZE_BYTES P)) a) (spp_page_offset PC P a) ?s
      = Some ((last, cur, d), ?s\<lparr>spp_st := st', spp_stats := stats'\<rparr>)"
    "spp_inv PC P (?s\<lparr>spp_st := st', spp_stats := stats'\<rparr>)"
    "cur \<le> sig_mask ?s" "delta_ok PC P d"
    by metis
  let ?f = "snd (spp_filter_check PC P a SPP_FILTER_DEMAND (?s\<lparr>spp_st := st', spp_stats := stats'\<rparr>))"
  let ?r = "if last \<noteq> 0 then spp_pt_update_pattern P last d ?f else ?f"
  have "spp_trained PC P p a s = Some (cur, ?r)"
    using rd(1) by (simp add: spp_trained_def Let_def)
  moreover have "spp_inv PC P ?r"
    using rd(2,4) ok by (simp add: spp_filter_check_inv spp_pt_update_pattern_inv)
  moreover have "cur \<le> sig_mask ?r" using rd(3) by (simp add: STAT_EVENT_def)
  moreover have "global_accuracy_pct ?r = spp_accuracy s" "spp_ghrs ?r = spp_ghrs s" by (simp_all add: STAT_EVENT_def)
  ultimately show thesis by (rule that)
qed

lemma spp_operate_step:
  assumes ok: "spp_params_ok PC P" and geo: "line_pow2 PC" and inv: "spp_inv PC P s" and q: "queue_inv PC p q"
    and res: "spp_operate PC P p x (s, q) = Some (s', q')"
  shows "spp_inv PC P s'" "queue_inv PC p q'"
    "\<And>r. r \<in> set (ul1req_queue (the_core PC p q')) \<Longrightarrow>
       r \<in> set (ul1req_queue (the_core PC p q)) \<or> req_in_page PC P (line_base PC x) r"
proof -
  obtain sg s1 where t: "spp_trained PC P p (line_base PC x) s = Some (sg, s1)" "spp_inv PC P s1" "sg \<le> sig_mask s1"
    using spp_trained_ok [OF ok inv] by metis
  have "spp_inv PC P s' \<and> queue_inv PC p q' \<and> (\<forall>r \<in> set (ul1req_queue (the_core PC p q')).
       r \<in> set (ul1req_queue (the_core PC p q)) \<or> req_in_page PC P (line_base PC x) r)"
  proof (cases "PREF_SPP_MAX_DEPTH P = 0")
    case True
    with res t q show ?thesis by (auto simp: spp_operate_trained split: if_splits)
  next
    case False
    with res t obtain dep s2 where
      l: "spp_lookahead PC P p (line_base PC x) (line_base PC x) sg 100 0 (s1, q) = Some (dep, s2, q')"
      and s': "s' = STAT_EVENT p (PREF_SPP_LOOKAHEAD_DEPTH (min 9 dep))
                     (INC_STAT_EVENT p PREF_SPP_LOOKAHEAD_DEPTH_TOTAL (of_nat dep) s2)"
      by (auto simp: spp_operate_trained split: if_splits option.splits)
    from spp_lookahead_step [OF ok geo t(2) q t(3) l] show ?thesis
      by (simp add: s' spp_step_ok_def STAT_EVENT_def)
  qed
  then show "spp_inv PC P s'" "queue_inv PC p q'"
    "\<And>r. r \<in> set (ul1req_queue (the_core PC p q')) \<Longrightarrow>
       r \<in> set (ul1req_queue (the_core PC p q)) \<or> req_in_page PC P (line_base PC x) r" by auto
qed

lemma spp_operate_total:
  assumes ok: "spp_params_ok PC P" and geo: "line_pow2 PC" and inv: "spp_inv PC P s" and q: "queue_inv PC p q"
    and acc: "spp_accuracy s \<le> 100" and g: "ghr_conf_ok P s"
  shows "\<exists>s' q'. spp_operate PC P p x (s, q) = Some (s', q') \<and> ghr_conf_ok P s'"
proof -
  obtain sg s1 where t: "spp_trained PC P p (line_base PC x) s = Some (sg, s1)" "spp_inv PC P s1" "sg \<le> sig_mask s1"
    "global_accuracy_pct s1 = spp_accuracy s" "spp_ghrs s1 = spp_ghrs s"
    using spp_trained_ok [OF ok inv] by metis
  have g1: "ghr_conf_ok P s1" using g t(5) by (simp add: ghr_conf_ok_def)
  obtain dep s2 q2 where
    l: "spp_lookahead PC P p (line_base PC x) (line_base PC x) sg 100 0 (s1, q) = Some (dep, s2, q2)" "ghr_conf_ok P s2"
    using spp_lookahead_returns [OF ok geo t(2) q t(3) _ _ g1] acc t(4) by fastforce
  have "spp_alloc s" using inv by (simp add: spp_inv_def)
  with t(1) l g1 show ?thesis
    by (auto simp: spp_operate_trained STAT_EVENT_def ghr_conf_ok_def)
qed

section \<open>Initialisation and runs\<close>

lemma lru_row_fresh:
  "lru_row n (map (\<lambda>w. \<lparr>ste_valid = False, ste_tag = 0, ste_sig = 0, ste_last_offset = 0, ste_lru = of_nat w\<rparr>)
     [0..<unat n])"
proof -
  have lt: "w < 4294967296" if "w < unat n" for w
    using that unsigned_less [where 'a = nat, of n] by simp
  have "inj_on (\<lambda>w. of_nat w :: uns) {0..<unat n}"
  proof (rule inj_onI)
    fix x y assume "x \<in> {0..<unat n}" "y \<in> {0..<unat n}" "(of_nat x :: uns) = of_nat y"
    then have "unat (of_nat x :: uns) = unat (of_nat y :: uns)" "x < unat n" "y < unat n" by simp_all
    then show "x = y" using lt [of x] lt [of y] by (simp add: unat_of_nat)
  qed
  moreover have "(of_nat w :: uns) < n" if "w < unat n" for w
    using that lt [OF that] by (simp add: word_less_nat_alt unat_of_nat)
  ultimately show ?thesis
    by (simp add: lru_row_def comp_def distinct_map)
qed

lemma spp_inv_fresh:
  assumes "spp_params_ok PC P"
  shows "spp_inv PC P (spp_fresh P hid st)"
proof -
  have k: "unat (PREF_SPP_QUOTIENT_BIT P) < 32" using assms by (simp add: spp_params_ok_def word_less_nat_alt)
  have "unat (of_nat (2 ^ unat (PREF_SPP_QUOTIENT_BIT P)) :: uns) = 2 ^ unat (PREF_SPP_QUOTIENT_BIT P) mod 2 ^ 32"
    by (simp add: unat_of_nat del: of_nat_power of_nat_numeral)
  then have "unat (2 ^ unat (PREF_SPP_QUOTIENT_BIT P) :: uns) = 2 ^ unat (PREF_SPP_QUOTIENT_BIT P)"
    using k power_strict_increasing [OF k, of "2::nat"] by simp
  then show ?thesis
    using assms lru_row_fresh [of "PREF_SPP_ST_WAY P"]
    by (auto simp: spp_inv_def spp_fresh_def spp_consts_def ctrs_ok_def st_row_ok_def st_entry_ok_def
        pt_set_ok_def c_total_def ghr_ok_def list_all_iff sum_list_replicate filter_replicate)
qed

text \<open>What the framework may ask of the prefetcher, and the state it asks in.\<close>

datatype spp_event = Ul1_Miss uns8 Addr Addr uns32 | Ul1_Hit uns8 Addr Addr uns32 | Ul1_Pref_Hit uns8 Addr Addr uns32

fun spp_event_step :: "pref_params \<Rightarrow> spp_params \<Rightarrow> spp_event \<Rightarrow> Pref_SPP step" where
  "spp_event_step PC P (Ul1_Miss p a pc gh) = pref_spp_ul1_miss PC P p a pc gh"
| "spp_event_step PC P (Ul1_Hit p a pc gh) = pref_spp_ul1_hit PC P p a pc gh"
| "spp_event_step PC P (Ul1_Pref_Hit p a pc gh) = pref_spp_ul1_pref_hit PC P p a pc gh"

fun event_core :: "spp_event \<Rightarrow> uns8" where
  "event_core (Ul1_Miss p a pc gh) = p"
| "event_core (Ul1_Hit p a pc gh) = p"
| "event_core (Ul1_Pref_Hit p a pc gh) = p"

text \<open>
  Runs: the prefetcher starts as \<^verbatim>\<open>pref_spp_init\<close> leaves it, answers callbacks for valid cores, and
  between two callbacks the rest of the simulator changes the framework's state in any well-formed
  way.
\<close>

inductive spp_reach :: "pref_params \<Rightarrow> spp_params \<Rightarrow> pref_state \<times> Pref_SPP \<Rightarrow> bool" for PC P where
  start: "spp_reach PC P (q', s')"
    if "pref_spp_init PC P ii (q, s) = Some (q', s')" "PREF_SPP_ON P" "wf_pref PC q"
| event: "spp_reach PC P qs'" if "spp_reach PC P qs" "core_ok PC (event_core e)" "spp_event_step PC P e qs = Some qs'"
| other: "spp_reach PC P (q', s)" if "spp_reach PC P (q, s)" "wf_pref PC q'"

lemma queue_inv_iff: "queue_inv PC p q \<longleftrightarrow> wf_params PC \<and> core_ok PC p \<and> wf_pref PC q"
  by (simp add: queue_inv_def)

lemma pref_spp_init_ok:
  assumes "pref_spp_init PC P ii (q, s) = Some (q', s')" "PREF_SPP_ON P" "wf_pref PC q" "spp_params_ok PC P"
  shows "spp_inv PC P s' \<and> wf_pref PC q'"
  using assms by (auto simp: pref_spp_init_def Let_def spp_inv_fresh split: if_splits)

lemma spp_event_step_ok:
  assumes "spp_params_ok PC P" "line_pow2 PC" "wf_params PC" "spp_inv PC P s" "wf_pref PC q"
    "core_ok PC (event_core e)" "spp_event_step PC P e (q, s) = Some (q', s')"
  shows "spp_inv PC P s' \<and> wf_pref PC q'"
proof -
  have op: "spp_inv PC P s1 \<and> wf_pref PC q1"
    if "spp_operate PC P (event_core e) x (s, q) = Some (s1, q1)" for x s1 q1
    using spp_operate_step(1,2) [OF assms(1,2,4) _ that] assms(3,5,6) by (simp add: queue_inv_iff)
  show ?thesis
    using assms(4,5,7) op
    by (cases e) (auto simp: pref_spp_ul1_miss_def pref_spp_ul1_hit_def pref_spp_ul1_pref_hit_def
        intro: spp_filter_check_inv split: if_splits)
qed

lemma spp_reach_inv:
  assumes "spp_reach PC P qs" "spp_params_ok PC P" "line_pow2 PC" "wf_params PC"
  shows "spp_inv PC P (snd qs) \<and> wf_pref PC (fst qs)"
  using assms
proof (induction rule: spp_reach.induct)
  case (start ii q s q' s')
  then show ?case using pref_spp_init_ok by auto
next
  case (event qs e qs')
  then show ?case
    using spp_event_step_ok [of PC P "snd qs" "fst qs" e "fst qs'" "snd qs'"] by simp
next
  case (other q s q')
  then show ?case by simp
qed

text \<open>Line addresses and pages.\<close>

definition page_pow2 :: "pref_params \<Rightarrow> spp_params \<Rightarrow> bool" where
  "page_pow2 PC P \<longleftrightarrow> VA_PAGE_SIZE_BYTES P = 2 ^ LOG2 (VA_PAGE_SIZE_BYTES P) \<and>
     LOG2 (DCACHE_LINE_SIZE PC) \<le> LOG2 (VA_PAGE_SIZE_BYTES P)"

lemma ucast_pow2_mask:
  assumes "n = 2 ^ LOG2 n"
  shows "ucast (n - 1) = (mask (LOG2 n) :: Addr)"
proof -
  have "n - 1 = mask (LOG2 n)" using assms by (simp add: mask_eq_exp_minus_1)
  moreover have "ucast (mask (LOG2 n) :: uns) = (mask (LOG2 n) :: Addr)"
    using LOG2_lt [of n] by (simp add: ucast_mask_eq min_def)
  ultimately show ?thesis by simp
qed

lemma page_of_line_base:
  assumes "line_pow2 PC" "page_pow2 PC P"
  shows "page_of P (line_base PC a) = page_of P a"
proof -
  have p: "ucast (VA_PAGE_SIZE_BYTES P - 1) = (mask (LOG2 (VA_PAGE_SIZE_BYTES P)) :: Addr)"
    using assms(2) unfolding page_pow2_def by (intro ucast_pow2_mask) simp
  show ?thesis
    using assms(2) unfolding page_of_def line_base_def p ucast_line_mask [OF assms(1)] page_pow2_def
    by (intro bit_eqI) (auto simp: bit_simps)
qed

end
