(* ===== verification/Pref_SPP_Func.thy ===== *)
theory Pref_SPP_Func
  imports Pref_SPP_Run
begin

text \<open>
  What the tables of the Signature Path Prefetcher compute, against abstract views of them: the
  signature table as a map from pages to a signature and an offset, the counters of a pattern, the
  filter as a memory of issued lines, and the sign-magnitude code of a delta.
\<close>

section \<open>The sign-magnitude code\<close>

definition spp_decode_sig_delta :: "Pref_SPP \<Rightarrow> uns \<Rightarrow> cint" where
  "spp_decode_sig_delta s e = (if sig_delta_sign_bit s \<le> e then - (e - sig_delta_sign_bit s) else e)"

lemma uint_of_sint: "0 \<le> sint w \<Longrightarrow> uint w = sint w" for w :: cint
proof -
  assume "0 \<le> sint w"
  moreover have "sint w < 2 ^ 31" using sint_lt [of w] by simp
  ultimately have "take_bit 32 (sint w) = sint w" by (intro take_bit_int_eq_self) auto
  then show ?thesis by (simp add: uint_sint)
qed

lemma spp_encode_decode:
  assumes "\<bar>sint d\<bar> < uint (sig_delta_sign_bit s)" "uint (sig_delta_sign_bit s) \<le> 2 ^ 31"
  shows "spp_decode_sig_delta s (spp_encode_sig_delta s d) = d"
    "uint (spp_encode_sig_delta s d) < 2 * uint (sig_delta_sign_bit s)"
proof -
  let ?S = "sig_delta_sign_bit s"
  have "spp_decode_sig_delta s (spp_encode_sig_delta s d) = d \<and> uint (spp_encode_sig_delta s d) < 2 * uint ?S"
  proof (cases "sint d < 0")
    case False
    then have "uint d = sint d" by (simp add: uint_of_sint)
    with False assms show ?thesis
      by (auto simp: spp_decode_sig_delta_def spp_encode_sig_delta_def word_le_def)
  next
    case True
    have "sint (- d) = signed_take_bit 31 (- sint d)" by (simp add: sint_word_ariths)
    also have "\<dots> = - sint d" using True assms by (intro signed_take_bit_int_eq_self) auto
    finally have m: "uint (- d) = - sint d" using True by (simp add: uint_of_sint)
    have "uint (- d) + uint ?S < 2 ^ LENGTH(32)" using m assms True by simp
    then have u: "uint (- d + ?S) = uint (- d) + uint ?S" by (simp only: uint_add_lem)
    with True m assms show ?thesis
      by (auto simp: spp_decode_sig_delta_def spp_encode_sig_delta_def word_le_def)
  qed
  then show "spp_decode_sig_delta s (spp_encode_sig_delta s d) = d"
    "uint (spp_encode_sig_delta s d) < 2 * uint ?S" by auto
qed

section \<open>The signature table as a map\<close>

text \<open>What a row knows of a page tag: the signature and the last offset of the entry that would hit.\<close>

definition row_entry :: "uns \<Rightarrow> Spp_ST_Entry list \<Rightarrow> (uns \<times> uns) option" where
  "row_entry pp row = map_option (\<lambda>w. (ste_sig (row ! w), ste_last_offset (row ! w))) (find_ix (spp_st_hit pp) row)"

definition st_entry :: "spp_params \<Rightarrow> Addr \<Rightarrow> Pref_SPP \<Rightarrow> (uns \<times> uns) option" where
  "st_entry P page s = row_entry (ucast page AND st_tag_mask s) (spp_st s ! spp_set_index page (PREF_SPP_ST_SET P))"

text \<open>
  The table tells pages apart by their set and their partial tag. A miss in a full set evicts the
  entry of the least recently used way.
\<close>

definition st_key :: "spp_params \<Rightarrow> Pref_SPP \<Rightarrow> Addr \<Rightarrow> nat \<times> uns" where
  "st_key P s page = (spp_set_index page (PREF_SPP_ST_SET P), ucast page AND st_tag_mask s)"

definition row_victim :: "spp_params \<Rightarrow> uns \<Rightarrow> Spp_ST_Entry list \<Rightarrow> uns option" where
  "row_victim P pp row =
     (if find_ix (spp_st_hit pp) row \<noteq> None \<or> find_ix (\<lambda>e. \<not> ste_valid e) row \<noteq> None then None
      else map_option (\<lambda>w. ste_tag (row ! w)) (find_ix (\<lambda>e. ste_lru e = PREF_SPP_ST_WAY P - 1) row))"

definition st_victim :: "spp_params \<Rightarrow> Addr \<Rightarrow> Pref_SPP \<Rightarrow> (nat \<times> uns) option" where
  "st_victim P page s =
     (let (set, pp) = st_key P s page in map_option (Pair set) (row_victim P pp (spp_st s ! set)))"

text \<open>The signature that the global history register offers a page first touched at this offset.\<close>

definition ghr_boot :: "spp_params \<Rightarrow> uns \<Rightarrow> Pref_SPP \<Rightarrow> uns" where
  "ghr_boot P off s =
     (case (if PREF_SPP_GHR_ON P then spp_ghr_best off 0 None 0 (spp_ghrs s) else None) of
        None \<Rightarrow> 0
      | Some b \<Rightarrow> spp_mix_sig P s (ghre_sig (spp_ghrs s ! b)) (ghre_delta (spp_ghrs s ! b)))"

text \<open>
  The abstract step on the entry of one page: the last signature, the current signature and the
  delta that are returned, and the entry that is left.
\<close>

definition st_spec :: "spp_params \<Rightarrow> uns \<Rightarrow> Pref_SPP \<Rightarrow> (uns \<times> uns) option \<Rightarrow> (uns \<times> uns \<times> cint) \<times> (uns \<times> uns)" where
  "st_spec P off s e =
     (case e of
        None \<Rightarrow> ((0, ghr_boot P off s, 0), (ghr_boot P off s, off))
      | Some (sg, prev) \<Rightarrow>
          if off = prev then ((0, 0, 0), (sg, prev))
          else let sg' = spp_mix_sig P s sg (off - prev) in ((sg, sg', off - prev), (sg', off)))"

lemma row_entry_cong:
  assumes "length r' = length r"
    and "\<And>i. i < length r \<Longrightarrow> ste_valid (r' ! i) = ste_valid (r ! i) \<and> ste_tag (r' ! i) = ste_tag (r ! i)
        \<and> ste_sig (r' ! i) = ste_sig (r ! i) \<and> ste_last_offset (r' ! i) = ste_last_offset (r ! i)"
  shows "row_entry pp r' = row_entry pp r"
proof -
  have "find_ix (spp_st_hit pp) r' = find_ix (spp_st_hit pp) r"
    using assms by (intro find_ix_cong) (auto simp: spp_st_hit_def)
  then show ?thesis
    using assms by (auto simp: row_entry_def split: option.splits dest!: find_ix_SomeD)
      (cases "find_ix (spp_st_hit pp) r"; auto dest: find_ix_SomeD(1))
qed

text \<open>The first entry that hits, rewritten so that it still hits, is still the first.\<close>

lemma row_entry_put:
  assumes "w < length row" "\<And>j. j < w \<Longrightarrow> \<not> spp_st_hit pp (row ! j)" "spp_st_hit pp e"
  shows "row_entry pp (row[w := e]) = Some (ste_sig e, ste_last_offset e)"
proof -
  have "find_ix (spp_st_hit pp) (row[w := e]) = Some w"
    using assms by (auto simp: find_ix_Some)
  with assms(1) show ?thesis by (simp add: row_entry_def)
qed

text \<open>Rewriting one way for another tag leaves what the row knows of a tag, unless that way held it.\<close>

lemma row_entry_other:
  assumes "\<not> spp_st_hit q e" "\<not> spp_st_hit q (row ! w)"
  shows "row_entry q (row[w := e]) = row_entry q row"
proof -
  have no: "spp_st_hit q (row[w := e] ! i) = spp_st_hit q (row ! i)" if "i < length row" for i
    using assms that by (cases "i = w") auto
  then have "find_ix (spp_st_hit q) (row[w := e]) = find_ix (spp_st_hit q) row"
    by (intro find_ix_cong) auto
  moreover have "row[w := e] ! i = row ! i" if "find_ix (spp_st_hit q) row = Some i" for i
    using assms(2) find_ix_SomeD [OF that] by (cases "i = w") auto
  ultimately show ?thesis
    by (cases "find_ix (spp_st_hit q) row") (auto simp: row_entry_def)
qed

lemma row_entry_evict:
  assumes "distinct (map ste_tag (filter ste_valid row))" "w < length row" "spp_st_hit q (row ! w)" "\<not> spp_st_hit q e"
  shows "row_entry q (row[w := e]) = None"
proof -
  have "\<not> spp_st_hit q (row ! i)" if "i < length row" "i \<noteq> w" for i
    using assms(2,3) that distinct_map_filterD [OF assms(1) that(1) assms(2)] by (auto simp: spp_st_hit_def)
  then have "\<not> spp_st_hit q (row[w := e] ! i)" if "i < length row" for i
    using that assms(4) by (cases "i = w") auto
  then show ?thesis by (auto simp: row_entry_def find_ix_None in_set_conv_nth)
qed

lemma spp_st_lookup_frame:
  assumes "spp_st_lookup P s pp off row = Some (w, hit, lst, cur, d, row')"
    and dist: "distinct (map ste_tag (filter ste_valid row))" and q: "q \<noteq> pp"
  shows "row_entry q row' = (if row_victim P pp row = Some q then None else row_entry q row)"
proof (cases "find_ix (spp_st_hit pp) row")
  case (Some v)
  then have "spp_st_hit pp (row ! v)" by (rule find_ix_SomeD)
  then have "\<not> spp_st_hit q (row ! v)" "ste_tag (row ! v) \<noteq> q" using q by (auto simp: spp_st_hit_def)
  moreover from this(2) have "row_victim P pp row = None" using Some by (simp add: row_victim_def)
  ultimately show ?thesis
    using assms(1) Some by (auto simp: spp_st_lookup_def Let_def spp_st_hit_def intro!: row_entry_other split: if_splits)
next
  case None
  show ?thesis
  proof (cases "find_ix (\<lambda>e. \<not> ste_valid e) row")
    case (Some v)
    then have "\<not> spp_st_hit q (row ! v)" using find_ix_SomeD(2) by (auto simp: spp_st_hit_def)
    moreover have "row_victim P pp row = None" using Some by (simp add: row_victim_def)
    ultimately show ?thesis
      using assms(1) None Some q by (auto simp: spp_st_lookup_def spp_st_hit_def intro!: row_entry_other)
  next
    case full: None
    then obtain v where v: "find_ix (\<lambda>e. ste_lru e = PREF_SPP_ST_WAY P - 1) row = Some v"
      "row' = row[v := (row ! v)\<lparr>ste_tag := pp, ste_sig := 0, ste_last_offset := off\<rparr>]"
      using assms(1) None by (auto simp: spp_st_lookup_def split: option.splits)
    have vl: "v < length row" by (rule find_ix_SomeD [OF v(1)])
    then have "spp_st_hit q (row ! v) = (row_victim P pp row = Some q)"
      using None full v(1) by (auto simp: row_victim_def spp_st_hit_def find_ix_None)
    moreover have "\<not> spp_st_hit q ((row ! v)\<lparr>ste_tag := pp, ste_sig := 0, ste_last_offset := off\<rparr>)"
      using q by (simp add: spp_st_hit_def)
    ultimately show ?thesis
      using row_entry_evict [OF dist vl] row_entry_other v(2) by simp
  qed
qed

lemma spp_st_lookup_spec:
  assumes "spp_st_lookup P s pp off row = Some (w, hit, lst, cur, d, row')"
  shows "w < length row' \<and> length row' = length row \<and> spp_st_hit pp (row' ! w) \<and> (\<forall>j < w. \<not> spp_st_hit pp (row' ! j)) \<and>
    hit = (row_entry pp row \<noteq> None) \<and>
    (case row_entry pp row of
       None \<Rightarrow> lst = 0 \<and> cur = 0 \<and> d = 0 \<and> ste_sig (row' ! w) = 0 \<and> ste_last_offset (row' ! w) = off
     | Some e \<Rightarrow> ((lst, cur, d), (ste_sig (row' ! w), ste_last_offset (row' ! w))) = st_spec P off s (Some e))"
proof (cases "find_ix (spp_st_hit pp) row")
  case (Some v)
  note v = find_ix_SomeD [OF Some]
  have e: "row_entry pp row = Some (ste_sig (row ! v), ste_last_offset (row ! v))"
    using Some by (simp add: row_entry_def)
  show ?thesis
  proof (cases "off = ste_last_offset (row ! v)")
    case True
    with assms Some have "w = v" "hit" "lst = 0" "cur = 0" "d = 0" "row' = row"
      by (auto simp: spp_st_lookup_def Let_def)
    with v e True show ?thesis by (simp add: st_spec_def)
  next
    case False
    with assms Some v e show ?thesis
      by (auto simp: spp_st_lookup_def Let_def st_spec_def spp_st_hit_def)
  qed
next
  case None
  then have miss: "\<not> spp_st_hit pp x" if "x \<in> set row" for x using that by (simp add: find_ix_None)
  have e: "row_entry pp row = None" using None by (simp add: row_entry_def)
  have valid: "find_ix (\<lambda>e. \<not> ste_valid e) row = None \<Longrightarrow> i < length row \<Longrightarrow> ste_valid (row ! i)" for i
    by (auto simp: find_ix_None)
  from assms None obtain v where v: "v < length row" "w = v" "lst = 0" "cur = 0" "d = 0" "\<not> hit"
    "ste_valid (row' ! v)" "ste_tag (row' ! v) = pp" "ste_sig (row' ! v) = 0" "ste_last_offset (row' ! v) = off"
    "length row' = length row" "\<And>j. j < v \<Longrightarrow> row' ! j = row ! j"
    by (auto simp: spp_st_lookup_def find_ix_Some valid split: option.splits)
  with miss e show ?thesis by (auto simp: spp_st_hit_def)
qed

text \<open>
  The refinement: what \<^verbatim>\<open>spp_st_read_and_update\<close> returns, and what the table then knows of the
  page, is the abstract step on what it knew; every other page keeps its entry, except the victim.
\<close>

lemma spp_st_refines:
  assumes ok: "spp_params_ok PC P" and inv: "spp_inv PC P s"
    and res: "spp_st_read_and_update P page off s = Some (out, s')"
  shows "(out, the (st_entry P page s')) = st_spec P off s (st_entry P page s) \<and> st_entry P page s' \<noteq> None \<and>
    (\<forall>q. st_key P s q \<noteq> st_key P s page \<longrightarrow>
       st_entry P q s' = (if st_victim P page s = Some (st_key P s q) then None else st_entry P q s))"
proof -
  define set where "set = spp_set_index page (PREF_SPP_ST_SET P)"
  define pp where "pp = (ucast page AND st_tag_mask s :: uns)"
  have set: "set < length (spp_st s)"
    using ok inv by (simp add: set_def spp_params_ok_def spp_inv_def spp_set_index_lt)
  obtain w hit lst cur d row where look: "spp_st_lookup P s pp off (spp_st s ! set) = Some (w, hit, lst, cur, d, row)"
    using res by (cases "spp_st_lookup P s pp off (spp_st s ! set)")
      (auto simp: spp_st_read_and_update_def Let_def set_def pp_def)
  note spec = spp_st_lookup_spec [OF look]
  define best where "best = (if PREF_SPP_GHR_ON P \<and> \<not> hit then spp_ghr_best off 0 None 0 (spp_ghrs s) else None)"
  define sg where "sg = (case best of None \<Rightarrow> cur | Some b \<Rightarrow> spp_mix_sig P s (ghre_sig (spp_ghrs s ! b)) (ghre_delta (spp_ghrs s ! b)))"
  define row2 where "row2 = (case best of None \<Rightarrow> row | Some b \<Rightarrow> row[w := (row ! w)\<lparr>ste_sig := sg\<rparr>])"
  have "\<exists>row3. spp_lru_promote (PREF_SPP_ST_WAY P) w row2 = Some row3 \<and> out = (lst, sg, d) \<and>
      spp_st s' = (spp_st s)[set := row3] \<and> st_tag_mask s' = st_tag_mask s"
    using res look
    by (cases best) (auto simp: spp_st_read_and_update_def Let_def best_def sg_def row2_def set_def pp_def
        STAT_EVENT_def split: option.splits if_splits)
  then obtain row3 where pr: "spp_lru_promote (PREF_SPP_ST_WAY P) w row2 = Some row3" "out = (lst, sg, d)"
    "spp_st s' = (spp_st s)[set := row3]" "st_tag_mask s' = st_tag_mask s" by blast
  have w2: "w < length row2" "spp_st_hit pp (row2 ! w)" "\<And>j. j < w \<Longrightarrow> \<not> spp_st_hit pp (row2 ! j)"
    using spec by (auto simp: row2_def spp_st_hit_def split: option.split)
  have "row_entry pp row3 = row_entry pp row2"
    using pr(1) w2(1) by (intro row_entry_cong) (auto simp: spp_lru_promote_def Let_def nth_list_update split: if_splits)
  also have "\<dots> = Some (ste_sig (row2 ! w), ste_last_offset (row2 ! w))"
    using row_entry_put [OF w2(1) w2(3) w2(2)] by simp
  finally have e': "st_entry P page s' = Some (ste_sig (row2 ! w), ste_last_offset (row2 ! w))"
    using set pr(3,4) by (simp add: st_entry_def set_def [symmetric] pp_def [symmetric])
  have e: "st_entry P page s = row_entry pp (spp_st s ! set)" by (simp add: st_entry_def set_def pp_def)
  have dist: "distinct (map ste_tag (filter ste_valid (spp_st s ! set)))"
    using inv set by (simp add: spp_inv_def st_row_ok_def list_all_length)
  have other: "row_entry t row3 = (if row_victim P pp (spp_st s ! set) = Some t then None else row_entry t (spp_st s ! set))"
    if "t \<noteq> pp" for t
  proof -
    have "row_entry t row3 = row_entry t row2"
      using pr(1) w2(1) by (intro row_entry_cong) (auto simp: spp_lru_promote_def Let_def nth_list_update split: if_splits)
    also have "\<dots> = row_entry t row"
      using spec that by (auto simp: row2_def spp_st_hit_def intro!: row_entry_other split: option.split)
    finally show ?thesis using spp_st_lookup_frame [OF look dist that] by simp
  qed
  have frame: "st_entry P q s' = (if st_victim P page s = Some (st_key P s q) then None else st_entry P q s)"
    if "st_key P s q \<noteq> st_key P s page" for q
  proof (cases "spp_set_index q (PREF_SPP_ST_SET P) = set")
    case True
    with that have "ucast q AND st_tag_mask s \<noteq> pp" by (simp add: st_key_def set_def pp_def)
    from other [OF this] True set pr(3,4) show ?thesis
      by (auto simp: st_entry_def st_victim_def st_key_def set_def [symmetric] pp_def [symmetric])
  next
    case False
    then show ?thesis
      using pr(3,4) by (auto simp: st_entry_def st_victim_def st_key_def set_def [symmetric] pp_def [symmetric])
  qed
  have "(out, the (st_entry P page s')) = st_spec P off s (st_entry P page s) \<and> st_entry P page s' \<noteq> None"
  proof (cases "row_entry pp (spp_st s ! set)")
    case None
    with spec have "sg = ghr_boot P off s" "ste_sig (row2 ! w) = sg" "ste_last_offset (row2 ! w) = off"
      by (auto simp: sg_def best_def ghr_boot_def row2_def split: option.splits)
    with None spec show ?thesis by (simp add: e e' pr(2) st_spec_def)
  next
    case (Some en)
    with spec have "best = None" by (simp add: best_def)
    with Some spec show ?thesis by (simp add: e e' pr(2) sg_def row2_def)
  qed
  with frame show ?thesis by blast
qed

section \<open>Learning a pattern\<close>

definition fresh_set :: "spp_params \<Rightarrow> Spp_PT_Set" where
  "fresh_set P = \<lparr>pts_ways = replicate (unat (PREF_SPP_PT_WAY P)) \<lparr>ptw_delta = 0, ptw_c_delta = 0\<rparr>, pts_c_sig = 0\<rparr>"

lemma spp_pt_victim_0: "(\<And>x. x \<in> set xs \<Longrightarrow> c \<le> ptw_c_delta x) \<Longrightarrow> spp_pt_victim w v c xs = v"
proof (induction xs arbitrary: w)
  case (Cons x xs)
  from Cons.prems have "\<not> ptw_c_delta x < c" by (simp add: not_less)
  with Cons show ?case by simp
qed simp

text \<open>The set after \<open>n\<close> trainings of one delta, as long as no counter saturates.\<close>

lemma spp_pt_train_n:
  assumes ok: "spp_params_ok PC P" and d: "d \<noteq> 0"
    and n: "Suc n < 2 ^ unat (PREF_SPP_C_SIG_BIT P)" "n < 2 ^ unat (PREF_SPP_C_DELTA_BIT P)"
  shows "(spp_pt_update_row P d ^^ Suc n) (fresh_set P) =
    \<lparr>pts_ways = (pts_ways (fresh_set P))[0 := \<lparr>ptw_delta = d, ptw_c_delta = of_nat n\<rparr>], pts_c_sig = of_nat (Suc n)\<rparr>"
  using n
proof (induction n)
  case 0
  let ?k = "unat (PREF_SPP_PT_WAY P)"
  have b: "unat (PREF_SPP_C_SIG_BIT P) < 32" and k: "0 < ?k"
    using ok by (simp_all add: spp_params_ok_def word_less_nat_alt unat_gt_0)
  have 1: "find_ix (\<lambda>w. ptw_delta w = d) (pts_ways (fresh_set P)) = None"
    using d by (simp add: find_ix_None fresh_set_def)
  have 2: "spp_pt_victim 1 0 (ptw_c_delta (pts_ways (fresh_set P) ! 0)) (tl (pts_ways (fresh_set P))) = 0"
    using k by (intro spp_pt_victim_0) (simp add: fresh_set_def)
  have 3: "\<not> push_bit (unat (PREF_SPP_C_SIG_BIT P)) 1 - 1 < (1::uns)"
    using 0 b by (simp add: word_less_nat_alt)
  show ?case
    using 1 2 3 by (simp add: spp_pt_update_row_def Let_def spp_pt_bump_def) (simp add: fresh_set_def)
next
  case (Suc n)
  let ?k = "unat (PREF_SPP_PT_WAY P)"
  have b: "unat (PREF_SPP_C_SIG_BIT P) < 32" "unat (PREF_SPP_C_DELTA_BIT P) < 32" and k: "0 < ?k"
    using ok by (simp_all add: spp_params_ok_def word_less_nat_alt unat_gt_0)
  let ?r = "\<lparr>pts_ways = (pts_ways (fresh_set P))[0 := \<lparr>ptw_delta = d, ptw_c_delta = of_nat n\<rparr>],
    pts_c_sig = of_nat (Suc n)\<rparr> :: Spp_PT_Set"
  have sz: "Suc (Suc n) < 4294967296"
    using Suc.prems(1) power_strict_increasing [OF b(1), of "2::nat"] by simp
  have 1: "find_ix (\<lambda>w. ptw_delta w = d) (pts_ways ?r) = Some 0"
    using k by (simp add: find_ix_Some fresh_set_def)
  have 2: "(of_nat n :: uns) < 2 ^ unat (PREF_SPP_C_DELTA_BIT P) - 1"
    using Suc.prems(2) b sz by (simp add: word_less_nat_alt unat_of_nat_small)
  have 3: "\<not> 2 ^ unat (PREF_SPP_C_SIG_BIT P) - 1 < (of_nat (Suc (Suc n)) :: uns)"
    using Suc.prems(1) b sz by (simp add: word_less_nat_alt unat_of_nat_small del: of_nat_Suc)
  have "(spp_pt_update_row P d ^^ Suc (Suc n)) (fresh_set P) = spp_pt_update_row P d ?r"
    using Suc.IH Suc.prems by simp
  also have "\<dots> = \<lparr>pts_ways = (pts_ways (fresh_set P))[0 := \<lparr>ptw_delta = d, ptw_c_delta = of_nat (Suc n)\<rparr>],
      pts_c_sig = of_nat (Suc (Suc n))\<rparr>"
    using 1 2 3 k
    by (simp add: spp_pt_update_row_def Let_def spp_pt_bump_def fresh_set_def add.commute)
  finally show ?case .
qed

lemma spp_pt_update_pattern_n:
  assumes "spp_set_index (ucast sg) (PREF_SPP_PT_SET P) < length (spp_pt s)"
  shows "spp_pt ((spp_pt_update_pattern P sg d ^^ n) s) =
    (spp_pt s)[spp_set_index (ucast sg) (PREF_SPP_PT_SET P) :=
       (spp_pt_update_row P d ^^ n) (spp_pt s ! spp_set_index (ucast sg) (PREF_SPP_PT_SET P))]"
  using assms
  by (induction n) (simp_all add: spp_pt_update_pattern_def Let_def)

text \<open>The scan at depth 0 over a trained set: one candidate.\<close>

lemma spp_pt_scan_zeros:
  assumes "0 < PREF_SPP_PF_THRESHOLD P" "\<And>x. x \<in> set xs \<Longrightarrow> ptw_c_delta x = 0"
  shows "spp_pt_scan P s c la 0 w dq cq t way mc xs = (dq, cq, t, way, mc)"
  using assms(2)
  by (induction xs arbitrary: w) (use assms(1) in \<open>auto simp: spp_path_conf_def Let_def not_le\<close>)

lemma spp_path_conf_0:
  assumes "n < 4294967296" "m < 4294967296" "m \<noteq> 0" "n \<le> m"
  shows "spp_path_conf s (of_nat n) (of_nat m) la 0 = of_nat (100 * n div m)"
proof -
  have "unat (100 * ucast (of_nat n :: uns) :: uns64) = 100 * n"
    using assms by (subst unat_mult_64) (simp_all add: unat_of_nat_small)
  then have "unat ((100 * ucast (of_nat n :: uns) :: uns64) div ucast (of_nat m :: uns)) = 100 * n div m"
    using assms by (simp add: unat_div_distrib unat_of_nat_small)
  moreover have "100 * n div m \<le> 100"
    using assms by (metis div_le_mono mult_le_mono2 nonzero_mult_div_cancel_right)
  ultimately have "unat (spp_path_conf s (of_nat n) (of_nat m) la 0) = 100 * n div m"
    by (simp add: spp_path_conf_def unat_ucast_32)
  with \<open>100 * n div m \<le> 100\<close> show ?thesis by (simp add: word_unat_eq_iff unat_of_nat_small)
qed

section \<open>The filter as a memory of issued lines\<close>

lemma spp_filter_check_L2:
  assumes "PREF_SPP_FILTER_ON P" "spp_inv PC P s"
    and "spp_filter_check PC P a SPP_FILTER_L2_PREFETCH s = (True, s')"
  shows "spp_filter s' ! spp_filter_quotient P (spp_hash64 (drop_bit (LOG2 (DCACHE_LINE_SIZE PC)) a)) =
      \<lparr>fe_valid = True, fe_useful = False,
        fe_remainder_tag = spp_filter_remainder P (spp_hash64 (drop_bit (LOG2 (DCACHE_LINE_SIZE PC)) a))\<rparr>"
    "pf_useful s' = pf_useful s" "pf_issued s' = pf_issued s" "spp_inv PC P s'"
proof -
  have "spp_filter_quotient P h < length (spp_filter s)" for h
    using assms(2) spp_filter_quotient_lt by (simp add: spp_inv_def)
  then show "spp_filter s' ! spp_filter_quotient P (spp_hash64 (drop_bit (LOG2 (DCACHE_LINE_SIZE PC)) a)) =
      \<lparr>fe_valid = True, fe_useful = False,
        fe_remainder_tag = spp_filter_remainder P (spp_hash64 (drop_bit (LOG2 (DCACHE_LINE_SIZE PC)) a))\<rparr>"
    "pf_useful s' = pf_useful s" "pf_issued s' = pf_issued s"
    using assms(1,3) by (auto simp: spp_filter_check_def Let_def spp_set_filter_def split: if_splits)
  show "spp_inv PC P s'" using spp_filter_check_inv [OF assms(2), of a SPP_FILTER_L2_PREFETCH] assms(3) by simp
qed

lemma spp_filter_check_same_line:
  assumes "drop_bit (LOG2 (DCACHE_LINE_SIZE PC)) b = drop_bit (LOG2 (DCACHE_LINE_SIZE PC)) a"
  shows "spp_filter_check PC P b req s = spp_filter_check PC P a req s"
  using assms by (simp add: spp_filter_check_def)

text \<open>After a demand on a prefetched line, once more is as good as none.\<close>

lemma spp_filter_demand_used:
  assumes "PREF_SPP_FILTER_ON P" "spp_inv PC P s"
    and "e = spp_filter s ! spp_filter_quotient P (spp_hash64 (drop_bit (LOG2 (DCACHE_LINE_SIZE PC)) a))"
    and "fe_valid e" "\<not> fe_useful e"
    "fe_remainder_tag e = spp_filter_remainder P (spp_hash64 (drop_bit (LOG2 (DCACHE_LINE_SIZE PC)) a))"
  shows "spp_filter_check PC P a SPP_FILTER_DEMAND s =
      (True, spp_count_useful (STAT_EVENT 0 PREF_SPP_PF_USEFUL
        (spp_set_filter (spp_filter_quotient P (spp_hash64 (drop_bit (LOG2 (DCACHE_LINE_SIZE PC)) a)))
           (e\<lparr>fe_useful := True\<rparr>) s)))"
  using assms by (simp add: spp_filter_check_def Let_def)

section \<open>From one page to the next through the global history register\<close>

lemma spp_ghr_best_none:
  "(\<And>e. e \<in> set g \<Longrightarrow> \<not> (ghre_valid e \<and> ghre_offset e = off)) \<Longrightarrow> spp_ghr_best off i best c g = best"
  by (induction g arbitrary: i) auto

lemma spp_ghr_best_unique:
  assumes "k < length g" "ghre_valid (g ! k)" "ghre_offset (g ! k) = off" "c < ghre_confidence (g ! k)"
    and "\<And>j. j < length g \<Longrightarrow> j \<noteq> k \<Longrightarrow> \<not> (ghre_valid (g ! j) \<and> ghre_offset (g ! j) = off)"
  shows "spp_ghr_best off i best c g = Some (i + k)"
  using assms
proof (induction g arbitrary: i k)
  case Nil
  then show ?case by simp
next
  case (Cons e g)
  show ?case
  proof (cases k)
    case 0
    have "\<not> (ghre_valid x \<and> ghre_offset x = off)" if "x \<in> set g" for x
      using Cons.prems(5) [of "Suc j" for j] that 0 by (auto simp: in_set_conv_nth)
    with Cons.prems 0 show ?thesis by (simp add: spp_ghr_best_none)
  next
    case (Suc l)
    have "\<not> (ghre_valid e \<and> ghre_offset e = off)" using Cons.prems(5) [of 0] Suc by simp
    moreover have "spp_ghr_best off (Suc i) best c g = Some (Suc i + l)"
      using Cons.prems(1-4) Suc Cons.prems(5) [of "Suc j" for j] by (intro Cons.IH) auto
    ultimately show ?thesis using Suc by (auto simp: not_less)
  qed
qed

lemma spp_ghr_boot_after:
  assumes "PREF_SPP_GHR_ON P" "spp_inv PC P s" "0 < conf"
    and "spp_ghr_update P sg conf off d s = Some s'"
  shows "ghr_boot P off s' = spp_mix_sig P s' sg d"
proof -
  let ?g = "spp_ghrs s"
  have g: "ghr_ok PC P (sig_mask s) ?g" using assms(2) by (simp add: spp_inv_def)
  have "\<exists>k e. spp_ghrs s' = ?g[k := e] \<and> k < length ?g \<and> ghre_valid e \<and> ghre_offset e = off \<and>
      ghre_confidence e = conf \<and> ghre_sig e = sg \<and> ghre_delta e = d \<and>
      (\<forall>j < length ?g. j \<noteq> k \<longrightarrow> \<not> (ghre_valid (?g ! j) \<and> ghre_offset (?g ! j) = off))"
  proof (cases "spp_ghr_scan off 0 None (- 1) ?g")
    case (Inl i)
    from spp_ghr_scan_Inl [OF Inl] have i: "i < length ?g" "ghre_valid (?g ! i)" "ghre_offset (?g ! i) = off" by auto
    have "\<not> (ghre_valid (?g ! j) \<and> ghre_offset (?g ! j) = off)" if "j < length ?g" "j \<noteq> i" for j
      using ghr_ok_once [OF g i(1) that(1) i(2)] i(3) that(2) by metis
    with assms(1,4) Inl i show ?thesis
      by (intro exI [of _ i] exI [of _ "(?g ! i)\<lparr>ghre_sig := sg, ghre_confidence := conf, ghre_delta := d\<rparr>"])
        (auto simp: spp_ghr_update_def)
  next
    case (Inr r)
    with assms(1,4) obtain v where r: "r = Some v" by (cases r) (auto simp: spp_ghr_update_def)
    from spp_ghr_scan_Inr [OF Inr] r have v: "v < length ?g" "\<forall>e \<in> set ?g. \<not> (ghre_valid e \<and> ghre_offset e = off)"
      by auto
    with assms(1,4) Inr r show ?thesis
      by (intro exI [of _ v] exI [of _ "\<lparr>ghre_valid = True, ghre_sig = sg, ghre_confidence = conf,
        ghre_offset = off, ghre_delta = d\<rparr>"]) (auto simp: spp_ghr_update_def)
  qed
  then obtain k e where k: "spp_ghrs s' = ?g[k := e]" "k < length ?g" "ghre_valid e" "ghre_offset e = off"
    "ghre_confidence e = conf" "ghre_sig e = sg" "ghre_delta e = d"
    "\<And>j. j < length ?g \<Longrightarrow> j \<noteq> k \<Longrightarrow> \<not> (ghre_valid (?g ! j) \<and> ghre_offset (?g ! j) = off)" by blast
  have "spp_ghr_best off 0 None 0 (spp_ghrs s') = Some (0 + k)"
    using k assms(3) by (intro spp_ghr_best_unique) auto
  with assms(1) k show ?thesis by (simp add: ghr_boot_def)
qed

end
