(* ===== verification/Pref_Small.thy ===== *)
theory Pref_Small
  imports Pref_SPP_Func
begin

text \<open>
  A small configuration on which the properties are applied: one core, queues of two entries, 64-byte
  lines and 4 KB pages, and tables of one or two entries.
\<close>

definition pref_small :: pref_params where
  "pref_small = \<lparr>PREF_FRAMEWORK_ON = True, PREF_SHARED_QUEUES = False,
     PREF_DL0REQ_QUEUE_SIZE = 2, PREF_UMLC_REQ_QUEUE_SIZE = 2, PREF_UL1REQ_QUEUE_SIZE = 2,
     PREF_DL0REQ_QUEUE_FILTER_ON = True, PREF_UMLC_REQ_QUEUE_FILTER_ON = True, PREF_UL1REQ_QUEUE_FILTER_ON = True,
     PREF_DL0REQ_ADD_FILTER_ON = False, PREF_UMLC_REQ_ADD_FILTER_ON = False, PREF_UL1REQ_ADD_FILTER_ON = False,
     PREF_DL0REQ_QUEUE_OVERWRITE_ON_FULL = False, PREF_UMLC_REQ_QUEUE_OVERWRITE_ON_FULL = False,
     PREF_UL1REQ_QUEUE_OVERWRITE_ON_FULL = False,
     PREF_REPORT_PREF_MATCH_AS_MISS = False, PREF_REPORT_PREF_MATCH_AS_HIT = True, PREF_UPDATE_INTERVAL = 0,
     PREF_POLBV_ON = True, PREF_POLBV_SIZE = 4, PREF_DHAL = True, PREF_DHAL_SENTTHRESH = 8,
     PREF_DHAL_USETHRESH_MAX = 6, PREF_DHAL_USETHRESH_MIN2 = 4, PREF_DHAL_USETHRESH_MIN1 = 2, PREF_DHAL_MAXDEG = 16,
     PREF_HFILTER_ON = True, PREF_HFILTER_INDEX_BITS = 2, PREF_HFILTER_USE_PC = True,
     PREF_HFILTER_PRED_USELESS_THRES = 2, PREF_DL0_MISS_ON = True, PREF_DL0_HIT_ON = True,
     DUMB_CORE_ON = False, DUMB_CORE = 0, NUM_CORES = 1, DCACHE_LINE_SIZE = 64, L1_LINE_SIZE = 64\<rparr>"

definition spp_small :: spp_params where
  "spp_small = \<lparr>PREF_SPP_ON = True, PREF_SPP_LOOKAHEAD_ON = True, PREF_SPP_FILTER_ON = True, PREF_SPP_GHR_ON = True,
     PREF_SPP_MAX_DEPTH = 3, PREF_SPP_PF_THRESHOLD = 25, PREF_SPP_ISSUE_THRESHOLD = 0, PREF_SPP_FILL_THRESHOLD = 50,
     PREF_SPP_ST_SET = 1, PREF_SPP_ST_WAY = 2, PREF_SPP_ST_TAG_BIT = 16, PREF_SPP_SIG_SHIFT = 3, PREF_SPP_SIG_BIT = 12,
     PREF_SPP_SIG_DELTA_BIT = 7, PREF_SPP_PT_SET = 1, PREF_SPP_PT_WAY = 2, PREF_SPP_C_SIG_BIT = 4,
     PREF_SPP_C_DELTA_BIT = 4, PREF_SPP_QUOTIENT_BIT = 2, PREF_SPP_REMAINDER_BIT = 6, PREF_SPP_GHR_ENTRIES = 2,
     PREF_SPP_GLOBAL_CTR_BIT = 10, VA_PAGE_SIZE_BYTES = 4096\<rparr>"

definition spp_0 :: Pref_SPP where
  "spp_0 = spp_fresh spp_small 0 (\<lambda>_ _. 0)"

definition pref_0 :: pref_state where
  "pref_0 = \<lparr>cores_array = [pref_core_init pref_small], hwp_infos = [hwp_info_init pref_small 0],
     num_ul1_evicted = 0, num_ul1_misses = 0, curr_num_ul1_misses = 0, prev_num_ul1_evicted = 0, cycle_count = 0\<rparr>"

text \<open>Both slots of the UL1 queue are taken.\<close>

definition pref_full :: pref_state where
  "pref_full = pref_0\<lparr>cores_array := [(pref_core_init pref_small)\<lparr>ul1req_queue :=
     [zero_req\<lparr>pmr_valid := True, pmr_line_index := 1\<rparr>, zero_req\<lparr>pmr_valid := True, pmr_line_index := 2\<rparr>]\<rparr>]\<rparr>"

lemma LOG2_numerals [simp]: "LOG2 64 = 6" "LOG2 4096 = 12" "LOG2 4 = 2"
  using log2_floor_pow2 [of 6] log2_floor_pow2 [of 12] log2_floor_pow2 [of 2] by (simp_all add: LOG2_def)

lemma pref_small_wf [simp]: "wf_params pref_small"
  by (simp add: wf_params_def pref_small_def)

lemma pref_small_core [simp]: "core_ok pref_small 0"
  by (simp add: core_ok_def pref_small_def)

lemma pref_small_line [simp]: "line_pow2 pref_small"
  by (simp add: line_pow2_def pref_small_def)

lemma pref_small_page [simp]: "page_pow2 pref_small spp_small"
  by (simp add: page_pow2_def pref_small_def spp_small_def)

lemma spp_small_ok [simp]: "spp_params_ok pref_small spp_small"
  by (simp add: spp_params_ok_def spp_small_def pref_small_def spp_offs_mask_def)

lemma spp_0_inv [simp]: "spp_inv pref_small spp_small spp_0"
  unfolding spp_0_def by (rule spp_inv_fresh) simp

lemma wf_core_init [simp]: "wf_core P (pref_core_init P)"
  by (simp add: wf_core_def pref_core_init_def)

lemma pref_0_wf [simp]: "wf_pref pref_small pref_0" "wf_pref pref_small pref_full"
  by (simp_all add: wf_pref_def pref_0_def pref_full_def) (simp_all add: pref_small_def wf_core_def pref_core_init_def)

lemma pref_0_inv [simp]: "queue_inv pref_small 0 pref_0" "queue_inv pref_small 0 pref_full"
  by (simp_all add: queue_inv_def)

lemma spp_0_conf [simp]: "ghr_conf_ok spp_small spp_0" "spp_accuracy spp_0 = 0"
  by (simp_all add: ghr_conf_ok_def spp_0_def spp_fresh_def spp_accuracy_def list_all_iff)

end
