(* ===== verification/Pref_SPP_Props.thy ===== *)
theory Pref_SPP_Props
  imports Pref_Small
begin

text \<open>
  The properties of the Signature Path Prefetcher, each with an application to the small
  configuration.
\<close>

text \<open>C1: A demand access never fails an assertion and keeps every table well formed, as long as the
  measured accuracy is a percentage: the LRU victim exists, no LRU counter overflows, and the global
  history register has a victim. The confidences in the register stay percentages too.\<close>

theorem spp_operate_safe:
  assumes "spp_params_ok PC P" "line_pow2 PC" "spp_inv PC P s" "queue_inv PC p q"
    and "spp_accuracy s \<le> 100" "ghr_conf_ok P s"
  shows "\<exists>s' q'. spp_operate PC P p lineAddr (s, q) = Some (s', q') \<and> spp_inv PC P s' \<and> queue_inv PC p q' \<and>
    ghr_conf_ok P s'"
  using spp_operate_total [OF assms] spp_operate_step(1,2) [OF assms(1-4)] by blast

theorem spp_operate_safe_witness:
  "\<exists>s' q'. spp_operate pref_small spp_small 0 0x1040 (spp_0, pref_0) = Some (s', q') \<and>
    spp_inv pref_small spp_small s' \<and> queue_inv pref_small 0 q' \<and> ghr_conf_ok spp_small s'"
  by (rule spp_operate_safe) simp_all

text \<open>C2: In every state that the prefetcher reaches from its initialisation, under any sequence of
  misses, hits and prefetch hits, with the rest of the framework changing its queues in any
  well-formed way in between, the tables satisfy the invariant.\<close>

theorem spp_reachable_inv:
  assumes "spp_reach PC P (q, s)" "spp_params_ok PC P" "line_pow2 PC" "wf_params PC"
  shows "spp_inv PC P s \<and> wf_pref PC q"
  using spp_reach_inv [OF assms] by simp

lemma spp_reach_small:
  "\<exists>q s. spp_reach pref_small spp_small (q, s) \<and> pf_useful s = 0"
proof -
  have i: "pref_spp_init pref_small spp_small 0 (pref_0, spp_null) =
      Some (upd_info 0 (\<lambda>h. h\<lparr>hwp_enabled := True\<rparr>) pref_0, spp_0)"
    by (simp add: pref_spp_init_def spp_0_def spp_null_def pref_0_def hwp_info_init_def Let_def)
      (simp add: pref_small_def spp_small_def)
  have "spp_reach pref_small spp_small (upd_info 0 (\<lambda>h. h\<lparr>hwp_enabled := True\<rparr>) pref_0, spp_0)"
    by (rule spp_reach.start [OF i]) (simp_all add: spp_small_def)
  then show ?thesis by (force simp: spp_0_def spp_fresh_def)
qed

theorem spp_reachable_inv_witness:
  "\<exists>q s. spp_reach pref_small spp_small (q, s) \<and> spp_inv pref_small spp_small s \<and> wf_pref pref_small q"
proof -
  obtain q s where r: "spp_reach pref_small spp_small (q, s)" using spp_reach_small by blast
  from r spp_reachable_inv [OF r] show ?thesis by auto
qed

text \<open>C3: The prefetcher never crosses a page: every request that a demand access adds to the UL1
  queue is valid and is for a line of the page of the demand address.\<close>

theorem spp_requests_in_page:
  assumes "spp_params_ok PC P" "line_pow2 PC" "page_pow2 PC P" "spp_inv PC P s" "queue_inv PC p q"
    and "spp_operate PC P p lineAddr (s, q) = Some (s', q')"
  shows "set (ul1req_queue (the_core PC p q')) \<subseteq> set (ul1req_queue (the_core PC p q)) \<union>
    {r. pmr_valid r \<and> page_of P (line_of_index PC (pmr_line_index r)) = page_of P lineAddr}"
  using spp_operate_step(3) [OF assms(1,2,4,5,6)] page_of_line_base [OF assms(2,3)]
  by (auto simp: req_in_page_def)

text \<open>One pattern trained: whatever the signature, the next line with confidence 100.\<close>

definition spp_1 :: Pref_SPP where
  "spp_1 = spp_0\<lparr>spp_pt := [\<lparr>pts_ways = [\<lparr>ptw_delta = 1, ptw_c_delta = 4\<rparr>, \<lparr>ptw_delta = 0, ptw_c_delta = 0\<rparr>],
     pts_c_sig = 4\<rparr>]\<rparr>"

lemma spp_1_inv [simp]: "spp_inv pref_small spp_small spp_1"
  using spp_0_inv by (auto simp: spp_inv_def spp_1_def ctrs_ok_def pt_set_ok_def c_total_def delta_ok_def)
    (simp_all add: spp_0_def spp_fresh_def spp_small_def pref_small_def spp_offs_mask_def)


theorem spp_requests_in_page_witness:
  "\<exists>s' q'. spp_operate pref_small spp_small 0 0x1040 (spp_1, pref_0) = Some (s', q') \<and>
    set (ul1req_queue (the_core pref_small 0 q')) \<subseteq> set (ul1req_queue (the_core pref_small 0 pref_0)) \<union>
      {r. pmr_valid r \<and> page_of spp_small (line_of_index pref_small (pmr_line_index r)) = page_of spp_small 0x1040}"
proof -
  have "ghr_conf_ok spp_small spp_1" "spp_accuracy spp_1 \<le> 100"
    by (simp_all add: spp_1_def ghr_conf_ok_def spp_0_def spp_fresh_def spp_accuracy_def list_all_iff)
  then obtain s' q' where r: "spp_operate pref_small spp_small 0 0x1040 (spp_1, pref_0) = Some (s', q')"
    using spp_operate_total [of pref_small spp_small spp_1 0 pref_0 "0x1040"] by auto
  have "set (ul1req_queue (the_core pref_small 0 q')) \<subseteq> set (ul1req_queue (the_core pref_small 0 pref_0)) \<union>
      {r. pmr_valid r \<and> page_of spp_small (line_of_index pref_small (pmr_line_index r)) = page_of spp_small 0x1040}"
    by (rule spp_requests_in_page [OF _ _ _ _ _ r]) simp_all
  with r show ?thesis by blast
qed

text \<open>C4: The signature table refines a map from pages (set and partial tag) to a signature and an offset: what
  an access returns (last signature, current signature, delta), and what the table knows of the page
  afterwards, is the abstract step on what it knew before; every other page keeps what the table knew
  of it, except that a miss in a full set forgets exactly the page in the least recently used way.\<close>

theorem spp_st_refinement:
  assumes "spp_params_ok PC P" "spp_inv PC P s" "spp_st_read_and_update P page off s = Some (out, s')"
  shows "(out, the (st_entry P page s')) = st_spec P off s (st_entry P page s) \<and> st_entry P page s' \<noteq> None \<and>
    (\<forall>q. st_key P s q \<noteq> st_key P s page \<longrightarrow>
       st_entry P q s' = (if st_victim P page s = Some (st_key P s q) then None else st_entry P q s))"
  using assms by (rule spp_st_refines)

text \<open>A full row of two pages: an access to page 3 takes the way of page 2, the least recently used.\<close>

definition spp_2 :: Pref_SPP where
  "spp_2 = spp_0\<lparr>spp_st := [[\<lparr>ste_valid = True, ste_tag = 1, ste_sig = 5, ste_last_offset = 4, ste_lru = 0\<rparr>,
     \<lparr>ste_valid = True, ste_tag = 2, ste_sig = 6, ste_last_offset = 9, ste_lru = 1\<rparr>]]\<rparr>"

lemma spp_2_inv [simp]: "spp_inv pref_small spp_small spp_2"
  using spp_0_inv by (auto simp: spp_inv_def spp_2_def ctrs_ok_def st_row_ok_def lru_row_def st_entry_ok_def)
    (simp_all add: spp_0_def spp_fresh_def spp_small_def pref_small_def spp_offs_mask_def)

theorem spp_st_refinement_witness:
  "\<exists>out s'. spp_st_read_and_update spp_small 3 2 spp_2 = Some (out, s') \<and>
    (out, the (st_entry spp_small 3 s')) = st_spec spp_small 2 spp_2 None \<and>
    st_entry spp_small 1 s' = Some (5, 4) \<and> st_entry spp_small 2 spp_2 = Some (6, 9) \<and> st_entry spp_small 2 s' = None"
proof -
  have "(2::uns) \<le> spp_offs_mask pref_small spp_small"
    by (simp add: spp_offs_mask_def pref_small_def spp_small_def)
  from spp_st_read_and_update_ok [OF spp_small_ok spp_2_inv this] obtain out s' where
    r: "spp_st_read_and_update spp_small 3 2 spp_2 = Some (out, s')" by metis
  have one: "spp_set_index q 1 = 0" for q by (simp add: spp_set_index_def)
  have mask: "st_tag_mask spp_2 = 0xffff" "PREF_SPP_ST_SET spp_small = 1" "PREF_SPP_ST_WAY spp_small = 2"
    by (simp_all add: spp_2_def spp_0_def spp_fresh_def spp_small_def)
  have keys: "st_key spp_small spp_2 1 = (0, 1)" "st_key spp_small spp_2 2 = (0, 2)" "st_key spp_small spp_2 3 = (0, 3)"
    by (simp_all add: st_key_def mask one)
  have vic: "st_victim spp_small 3 spp_2 = Some (0, 2)"
    by (simp add: st_victim_def keys row_victim_def mask) (simp add: spp_2_def spp_st_hit_def)
  have old: "st_entry spp_small 1 spp_2 = Some (5, 4)" "st_entry spp_small 2 spp_2 = Some (6, 9)" "st_entry spp_small 3 spp_2 = None"
    by (simp_all add: st_entry_def mask one row_entry_def) (simp_all add: spp_2_def spp_st_hit_def)
  note ref = spp_st_refinement [OF spp_small_ok spp_2_inv r]
  then have frame: "st_entry spp_small q s' = (if st_victim spp_small 3 spp_2 = Some (st_key spp_small spp_2 q) then None
      else st_entry spp_small q spp_2)" if "st_key spp_small spp_2 q \<noteq> st_key spp_small spp_2 3" for q
    using that by blast
  from frame [of 1] frame [of 2] ref r show ?thesis by (auto simp: keys vic old)
qed

text \<open>C16: The signature table always answers: for an in-page offset neither assertion fails, and the
  LRU counters of every row remain distinct and below the number of ways.\<close>

theorem spp_st_always_answers:
  assumes "spp_params_ok PC P" "spp_inv PC P s" "off \<le> spp_offs_mask PC P"
  shows "\<exists>out s'. spp_st_read_and_update P page off s = Some (out, s') \<and>
    list_all (lru_row (PREF_SPP_ST_WAY P)) (spp_st s')"
proof -
  from spp_st_read_and_update_ok [OF assms] obtain out s' where
    "spp_st_read_and_update P page off s = Some (out, s')" "spp_inv PC P s'" by metis
  moreover from this(2) have "list_all (lru_row (PREF_SPP_ST_WAY P)) (spp_st s')"
    by (auto simp: spp_inv_def st_row_ok_def list_all_iff)
  ultimately show ?thesis by blast
qed

theorem spp_st_always_answers_witness:
  "\<exists>out s'. spp_st_read_and_update spp_small 7 63 spp_0 = Some (out, s') \<and>
    list_all (lru_row (PREF_SPP_ST_WAY spp_small)) (spp_st s')"
  by (rule spp_st_always_answers [of pref_small])
    (simp_all add: spp_offs_mask_def, simp_all add: pref_small_def spp_small_def)

text \<open>C17: Confidences of a signature are percentages: at the first hop \<^verbatim>\<open>spp_pt_read_pattern\<close> reports
  only values up to 100, stays within its scratch arrays of \<^verbatim>\<open>PREF_SPP_PT_WAY + 1\<close> entries, and offers
  only deltas between lines of one page.\<close>

theorem spp_read_pattern_bounds:
  assumes "spp_params_ok PC P" "spp_inv PC P s" "la \<le> 100"
    and "spp_pt_read_pattern P sg (replicate (Suc (unat (PREF_SPP_PT_WAY P))) 0)
           (replicate (Suc (unat (PREF_SPP_PT_WAY P))) 0) 0 la 0 s = (dq, cq, t, way, la')"
  shows "t \<le> unat (PREF_SPP_PT_WAY P) \<and> length dq = Suc (unat (PREF_SPP_PT_WAY P)) \<and>
    length cq = Suc (unat (PREF_SPP_PT_WAY P)) \<and> list_all (delta_ok PC P) dq \<and>
    list_all (\<lambda>c. c \<le> 100) cq \<and> la' \<le> 100"
  using spp_pt_read_pattern_ok [OF assms(1,2) _ assms(4)] assms(3) by simp

theorem spp_read_pattern_bounds_witness:
  "case spp_pt_read_pattern spp_small 0 (replicate 3 0) (replicate 3 0) 0 100 0 spp_1 of (dq, cq, t, way, la') \<Rightarrow>
     t = 1 \<and> t \<le> 2 \<and> la' = 100 \<and> list_all (\<lambda>c. c \<le> 100) cq \<and> list_all (delta_ok pref_small spp_small) dq"
proof -
  have n: "Suc (unat (PREF_SPP_PT_WAY spp_small)) = 3" "unat (PREF_SPP_PT_WAY spp_small) = 2"
    by (simp_all add: spp_small_def)
  have r: "spp_pt_read_pattern spp_small 0 (replicate 3 0) (replicate 3 0) 0 100 0 spp_1 =
      ([1, 0, 0], [100, 0, 0], 1, Some 0, 100)"
    by code_simp
  show ?thesis
    using spp_read_pattern_bounds [of pref_small spp_small spp_1 100 0] r by (simp add: n)
qed

text \<open>C18: Learning: on an untrained set, after \<open>n + 1\<close> trainings of one signature with one delta, below
  saturation, the set offers exactly that delta, with confidence \<open>100 n / (n + 1)\<close>, and picks its way for
  the lookahead.\<close>

theorem spp_pattern_learned:
  assumes ok: "spp_params_ok PC P" and inv: "spp_inv PC P s"
    and d: "d \<noteq> 0" and n: "Suc n < 2 ^ unat (PREF_SPP_C_SIG_BIT P)" "n < 2 ^ unat (PREF_SPP_C_DELTA_BIT P)"
    and fresh: "spp_pt s ! spp_set_index (ucast sg) (PREF_SPP_PT_SET P) = fresh_set P"
    and thr: "0 < PREF_SPP_PF_THRESHOLD P" "unat (PREF_SPP_PF_THRESHOLD P) \<le> 100 * n div Suc n"
  shows "spp_pt_read_pattern P sg dq cq 0 la 0 ((spp_pt_update_pattern P sg d ^^ Suc n) s) =
    (dq[0 := d], cq[0 := of_nat (100 * n div Suc n)], 1, Some 0, of_nat (100 * n div Suc n))"
proof -
  let ?i = "spp_set_index (ucast sg) (PREF_SPP_PT_SET P)" and ?c = "100 * n div Suc n"
  obtain k where k: "unat (PREF_SPP_PT_WAY P) = Suc k"
    using ok by (cases "unat (PREF_SPP_PT_WAY P)") (auto simp: spp_params_ok_def unat_eq_0)
  have i: "?i < length (spp_pt s)" using ok inv by (simp add: spp_params_ok_def spp_inv_def spp_set_index_lt)
  have "(2::nat) ^ unat (PREF_SPP_C_SIG_BIT P) \<le> 2 ^ 31"
    using ok by (intro power_increasing) (auto simp: spp_params_ok_def word_less_nat_alt)
  then have sz: "n < 4294967296" "Suc n < 4294967296" using n(1) by simp_all
  have row: "spp_pt ((spp_pt_update_pattern P sg d ^^ Suc n) s) ! ?i =
    \<lparr>pts_ways = \<lparr>ptw_delta = d, ptw_c_delta = of_nat n\<rparr> # replicate k \<lparr>ptw_delta = 0, ptw_c_delta = 0\<rparr>,
     pts_c_sig = of_nat (Suc n)\<rparr>"
    using spp_pt_update_pattern_n [OF i, of "Suc n" d] i spp_pt_train_n [OF ok d n]
    unfolding fresh by (simp add: fresh_set_def k)
  have conf: "spp_path_conf s1 (of_nat n) (of_nat (Suc n)) la 0 = of_nat ?c" for s1
    using sz by (intro spp_path_conf_0) simp_all
  have "?c \<le> 100" using div_le_mono [of "100 * n" "100 * Suc n" "Suc n"] by (simp del: mult_Suc_right)
  then have c: "unat (of_nat ?c :: uns) = ?c" by (intro unat_of_nat_small) simp
  then have thr': "PREF_SPP_PF_THRESHOLD P \<le> of_nat ?c" "(0::uns) < of_nat ?c"
    using thr by (simp_all add: word_le_nat_alt word_less_nat_alt del: of_nat_Suc)
  have "(of_nat (Suc n) :: uns) \<noteq> 0"
    using unat_of_nat_small [OF sz(2)] by (metis Zero_not_Suc unat_0)
  with conf thr' row spp_pt_scan_zeros [OF thr(1), of "replicate k \<lparr>ptw_delta = 0, ptw_c_delta = 0\<rparr>"]
  show ?thesis
    by (simp add: spp_pt_read_pattern_def Let_def del: of_nat_Suc funpow.simps)
qed

theorem spp_pattern_learned_witness:
  "spp_pt_read_pattern spp_small 5 (replicate 3 0) (replicate 3 0) 0 100 0
     ((spp_pt_update_pattern spp_small 5 2 ^^ Suc 3) spp_0) = ([2, 0, 0], [75, 0, 0], 1, Some 0, 75)"
proof -
  have f: "spp_pt spp_0 ! spp_set_index (ucast (5::uns)) (PREF_SPP_PT_SET spp_small) = fresh_set spp_small"
    by (simp add: spp_0_def spp_fresh_def fresh_set_def spp_set_index_def spp_small_def)
  have "spp_pt_read_pattern spp_small 5 (replicate 3 0) (replicate 3 0) 0 100 0
     ((spp_pt_update_pattern spp_small 5 2 ^^ Suc 3) spp_0) =
     ((replicate 3 0)[0 := 2], (replicate 3 0)[0 := of_nat (100 * 3 div Suc 3)], 1, Some 0, of_nat (100 * 3 div Suc 3))"
    by (rule spp_pattern_learned [OF spp_small_ok spp_0_inv _ _ _ f]) (simp_all add: spp_small_def)
  moreover have "replicate 3 (0::uns) = [0, 0, 0]" by (simp add: numeral_3_eq_3)
  ultimately show ?thesis by (simp del: funpow.simps)
qed

text \<open>C19: The filter remembers an issued line: once a fill-to-L2 request for a line passed, every further
  prefetch of that line is refused, whatever its level, and the next demand on the line is counted useful
  exactly once.\<close>

theorem spp_filter_remembers:
  assumes "PREF_SPP_FILTER_ON P" "spp_inv PC P s"
    and "spp_filter_check PC P a SPP_FILTER_L2_PREFETCH s = (True, s1)"
    and "drop_bit (LOG2 (DCACHE_LINE_SIZE PC)) b = drop_bit (LOG2 (DCACHE_LINE_SIZE PC)) a"
  shows "spp_filter_check PC P b SPP_FILTER_L2_PREFETCH s1 = (False, s1) \<and>
    spp_filter_check PC P b SPP_FILTER_LLC_PREFETCH s1 = (False, s1) \<and>
    (\<exists>s2. spp_filter_check PC P b SPP_FILTER_DEMAND s1 = (True, s2) \<and>
       pf_useful s2 = pf_useful (spp_count_useful s) \<and> spp_filter_check PC P b SPP_FILTER_DEMAND s2 = (True, s2))"
proof -
  let ?h = "spp_hash64 (drop_bit (LOG2 (DCACHE_LINE_SIZE PC)) a)"
  let ?e = "\<lparr>fe_valid = True, fe_useful = False, fe_remainder_tag = spp_filter_remainder P ?h\<rparr>"
  note f = spp_filter_check_L2 [OF assms(1-3)]
  note same = spp_filter_check_same_line [OF assms(4), where P = P]
  have q: "spp_filter_quotient P ?h < length (spp_filter s1)"
    using f(4) spp_filter_quotient_lt by (simp add: spp_inv_def)
  have refuse: "spp_filter_check PC P b SPP_FILTER_L2_PREFETCH s1 = (False, s1)"
    "spp_filter_check PC P b SPP_FILTER_LLC_PREFETCH s1 = (False, s1)"
    using f(1) assms(1) unfolding same by (simp_all add: spp_filter_check_def Let_def)
  define s2 where "s2 = spp_count_useful (STAT_EVENT 0 PREF_SPP_PF_USEFUL
    (spp_set_filter (spp_filter_quotient P ?h) (?e\<lparr>fe_useful := True\<rparr>) s1))"
  have demand: "spp_filter_check PC P b SPP_FILTER_DEMAND s1 = (True, s2)"
    unfolding same s2_def by (rule spp_filter_demand_used [OF assms(1) f(4) f(1) [symmetric]]) simp_all
  have "global_counter_max s1 = global_counter_max s"
    using f(4) assms(2) by (simp add: spp_inv_def spp_consts_def)
  then have "pf_useful s2 = pf_useful (spp_count_useful s)"
    using f(2) by (simp add: s2_def spp_count_useful_def Let_def STAT_EVENT_def spp_set_filter_def)
  moreover have "fe_useful (spp_filter s2 ! spp_filter_quotient P ?h)"
    using q by (simp add: s2_def spp_set_filter_def STAT_EVENT_def)
  then have "spp_filter_check PC P b SPP_FILTER_DEMAND s2 = (True, s2)"
    using assms(1) unfolding same by (simp add: spp_filter_check_def Let_def)
  ultimately show ?thesis using refuse demand by blast
qed

theorem spp_filter_remembers_witness:
  "\<exists>s1. spp_filter_check pref_small spp_small 0x1040 SPP_FILTER_L2_PREFETCH spp_0 = (True, s1) \<and>
     spp_filter_check pref_small spp_small 0x1047 SPP_FILTER_LLC_PREFETCH s1 = (False, s1)"
proof -
  have "fst (spp_filter_check pref_small spp_small 0x1040 SPP_FILTER_L2_PREFETCH spp_0)" by code_simp
  then obtain s1 where s1: "spp_filter_check pref_small spp_small 0x1040 SPP_FILTER_L2_PREFETCH spp_0 = (True, s1)"
    by (metis prod.collapse)
  have "spp_filter_check pref_small spp_small 0x1047 SPP_FILTER_LLC_PREFETCH s1 = (False, s1)"
    using spp_filter_remembers [OF _ spp_0_inv s1, where b = "0x1047"] by (simp add: spp_small_def pref_small_def)
  with s1 show ?thesis by blast
qed

text \<open>Usefulness can be counted for prefetches that were never issued: when a candidate passes the
  filter and the UL1 queue is full, the filter entry stays marked although \<^verbatim>\<open>pf_issued\<close> is not
  incremented, and the next demand on the line increments \<^verbatim>\<open>pf_useful\<close>. Starting from an accuracy of
  100 the accuracy is then above 100, against the comment \<^verbatim>\<open>0..100\<close> on \<^verbatim>\<open>global_accuracy_pct\<close>.\<close>

theorem spp_accuracy_above_100:
  assumes pf: "pf = line_base PC b + delta_bytes PC d" and on: "PREF_SPP_FILTER_ON P" and inv: "spp_inv PC P s"
    and conf: "spp_issue_cutoff P \<le> conf" "PREF_SPP_FILL_THRESHOLD P \<le> conf"
    and page: "page_of P a = page_of P pf"
    and go: "fst (spp_filter_check PC P pf SPP_FILTER_L2_PREFETCH s)"
    and full: "\<not> fst (pref_addto_ul1req_queue PC p (drop_bit (LOG2 (DCACHE_LINE_SIZE PC)) pf) (spp_hwp_id s) q)"
    and c: "pf_useful s = pf_issued s" "0 < pf_issued s" "pf_issued s \<le> 100" "pf_useful s < ucast (global_counter_max s)"
  shows "\<exists>s' q'. spp_issue PC P p a b sg conf d (s, q) = Some (s', q') \<and>
    100 < spp_accuracy (snd (spp_filter_check PC P pf SPP_FILTER_DEMAND s'))"
proof -
  obtain s1 where f: "spp_filter_check PC P pf SPP_FILTER_L2_PREFETCH s = (True, s1)"
    using go by (metis prod.collapse)
  note l2 = spp_filter_check_L2 [OF on inv f]
  have hid: "spp_hwp_id s1 = spp_hwp_id s"
    using spp_filter_check_frame(2) [of PC P pf SPP_FILTER_L2_PREFETCH s] f by simp
  obtain q1 where add: "pref_addto_ul1req_queue PC p (drop_bit (LOG2 (DCACHE_LINE_SIZE PC)) pf) (spp_hwp_id s1) q = (False, q1)"
    using full hid by (metis prod.collapse)
  have issue: "spp_issue PC P p a b sg conf d (s, q) = Some (s1, q1)"
    using conf page f add by (simp add: spp_issue_def Let_def pf [symmetric])
  let ?s2 = "snd (spp_filter_check PC P pf SPP_FILTER_DEMAND s1)"
  have g: "global_counter_max s1 = global_counter_max s"
    using l2(4) inv by (simp add: spp_inv_def spp_consts_def)
  have u: "unat (pf_issued s) \<le> 100" "0 < unat (pf_issued s)"
    using c by (simp_all add: word_le_nat_alt word_less_nat_alt)
  have inc: "unat (pf_useful s + 1) = unat (pf_issued s) + 1"
    using c(1) unat_inc [OF c(4)] by simp
  have "\<not> ucast (global_counter_max s) < pf_useful s + 1"
    using c(4) by (simp add: inc_le not_less)
  with l2 on g have s2: "pf_useful ?s2 = pf_useful s + 1" "pf_issued ?s2 = pf_issued s"
    by (simp_all add: spp_filter_check_def Let_def STAT_EVENT_def spp_count_useful_def spp_set_filter_def)
  have "unat (100 * (pf_useful s + 1)) = 100 * (unat (pf_issued s) + 1)"
    using u inc by (subst unat_mult_64) simp_all
  then have "unat (100 * (pf_useful s + 1) div pf_issued s) = 100 * (unat (pf_issued s) + 1) div unat (pf_issued s)"
    by (simp add: unat_div_distrib)
  moreover have "101 * unat (pf_issued s) \<le> 100 * (unat (pf_issued s) + 1)" using u by simp
  then have "101 \<le> 100 * (unat (pf_issued s) + 1) div unat (pf_issued s)"
    using u by (metis div_le_mono nonzero_mult_div_cancel_right less_irrefl_nat)
  moreover have "100 * (unat (pf_issued s) + 1) div unat (pf_issued s) < 4294967296"
    using u by (intro le_less_trans [OF div_le_dividend]) simp
  moreover have "pf_issued s \<noteq> 0" using c(2) by auto
  ultimately have "100 < spp_accuracy ?s2"
    using s2 by (simp add: spp_accuracy_def word_less_nat_alt unat_ucast_32)
  with issue show ?thesis by blast
qed


theorem spp_accuracy_above_100_witness:
  "\<exists>s' q'. spp_issue pref_small spp_small 0 0x1000 0x1000 5 80 1 (spp_0\<lparr>pf_useful := 4, pf_issued := 4\<rparr>, pref_full)
      = Some (s', q') \<and>
    100 < spp_accuracy (snd (spp_filter_check pref_small spp_small 0x1040 SPP_FILTER_DEMAND s'))"
proof -
  let ?s = "spp_0\<lparr>pf_useful := 4, pf_issued := 4\<rparr>"
  have inv: "spp_inv pref_small spp_small ?s"
    using spp_0_inv by (simp add: spp_inv_def ctrs_ok_def) (simp add: spp_0_def spp_fresh_def spp_small_def)
  have pf: "0x1040 = line_base pref_small 0x1000 + delta_bytes pref_small 1"
    by (simp add: line_base_def delta_bytes_def) (simp add: pref_small_def)
  have go: "fst (spp_filter_check pref_small spp_small 0x1040 SPP_FILTER_L2_PREFETCH ?s)"
    by code_simp
  have full: "\<not> fst (pref_addto_ul1req_queue pref_small 0 (drop_bit (LOG2 (DCACHE_LINE_SIZE pref_small)) 0x1040) (spp_hwp_id ?s) pref_full)"
    by code_simp
  show ?thesis
    by (rule spp_accuracy_above_100 [OF pf _ inv _ _ _ go full])
      (simp_all add: spp_small_def spp_issue_cutoff_def page_of_def spp_0_def spp_fresh_def)
qed

text \<open>A page-crossing prediction carries over: after the global history register recorded a
  signature, a delta and a positive confidence for a landing offset, a page first touched at that offset
  starts with the signature extended by that delta.\<close>

theorem spp_ghr_carries_over:
  assumes "PREF_SPP_GHR_ON P" "spp_inv PC P s" "0 < conf"
    and "spp_ghr_update P sg conf off d s = Some s'"
  shows "ghr_boot P off s' = spp_mix_sig P s' sg d"
  using assms by (rule spp_ghr_boot_after)

theorem spp_ghr_carries_over_witness:
  "\<exists>s'. spp_ghr_update spp_small 5 40 3 2 spp_0 = Some s' \<and> ghr_boot spp_small 3 s' = spp_mix_sig spp_small s' 5 2"
proof -
  obtain s' where s': "spp_ghr_update spp_small 5 40 3 2 spp_0 = Some s'"
    using spp_ghr_update_conf [OF spp_0_inv spp_small_ok spp_0_conf(1), of 40 5 3 2] by auto
  have "ghr_boot spp_small 3 s' = spp_mix_sig spp_small s' 5 2"
    by (rule spp_ghr_carries_over [OF _ spp_0_inv _ s']) (simp_all add: spp_small_def)
  with s' show ?thesis by blast
qed

text \<open>The sign-magnitude code of a delta is exact: for deltas of magnitude below the sign bit the code
  fits the field and decodes to the delta, so different deltas have different codes.\<close>

theorem spp_sig_delta_roundtrip:
  assumes "\<bar>sint d\<bar> < uint (sig_delta_sign_bit s)" "uint (sig_delta_sign_bit s) \<le> 2 ^ 31"
  shows "spp_decode_sig_delta s (spp_encode_sig_delta s d) = d \<and>
    uint (spp_encode_sig_delta s d) < 2 * uint (sig_delta_sign_bit s)"
  using spp_encode_decode [OF assms] by simp

theorem spp_sig_delta_roundtrip_witness:
  "spp_decode_sig_delta spp_0 (spp_encode_sig_delta spp_0 (- 3)) = - 3 \<and> uint (spp_encode_sig_delta spp_0 (- 3)) < 128"
  using spp_sig_delta_roundtrip [of "- 3" spp_0] by (simp add: spp_0_def spp_fresh_def spp_small_def)

text \<open>C20: The lookahead ends: from any depth below the limit it takes at most the remaining number of hops,
  and the depth it reports never exceeds \<^verbatim>\<open>PREF_SPP_MAX_DEPTH\<close>; with an accuracy that is a percentage it
  does return.\<close>

theorem spp_lookahead_bounded:
  assumes "spp_params_ok PC P" "line_pow2 PC" "spp_inv PC P s" "queue_inv PC p q"
    and "sg \<le> sig_mask s" "global_accuracy_pct s \<le> 100" "la \<le> 100" "ghr_conf_ok P s"
    and "d < unat (PREF_SPP_MAX_DEPTH P)"
  shows "\<exists>dep s' q'. spp_lookahead PC P p a b sg la d (s, q) = Some (dep, s', q') \<and>
    dep \<le> unat (PREF_SPP_MAX_DEPTH P)"
  using spp_lookahead_returns [OF assms(1-8)] spp_lookahead_depth [OF _ assms(9)] by blast

theorem spp_lookahead_bounded_witness:
  "\<exists>dep s' q'. spp_lookahead pref_small spp_small 0 0x1000 0x1000 0 100 0 (spp_1, pref_0) = Some (dep, s', q') \<and> dep \<le> 3"
proof -
  have "\<exists>dep s' q'. spp_lookahead pref_small spp_small 0 0x1000 0x1000 0 100 0 (spp_1, pref_0) = Some (dep, s', q') \<and>
      dep \<le> unat (PREF_SPP_MAX_DEPTH spp_small)"
    by (rule spp_lookahead_bounded)
      (simp_all, simp_all add: spp_1_def spp_0_def spp_fresh_def ghr_conf_ok_def spp_small_def list_all_iff)
  then show ?thesis by (simp add: spp_small_def)
qed

end
