(* ===== verification/Hash_Lib.thy ===== *)
theory Hash_Lib
  imports Scarab_Prelude "HOL-Library.Multiset"
begin

text \<open>
  The chained hash table of \<^verbatim>\<open>libs/hash_lib.c\<close>. A table owns its nodes: no other code holds a
  pointer to one, so a chain is the list of its nodes. A node's data is a pointer of type \<open>'p\<close>, which
  \<^verbatim>\<open>smalloc\<close> chooses for a new node: the creating functions take it as an argument. \<^verbatim>\<open>NULL\<close>
  results are \<open>None\<close>, and so is a failed assertion.
\<close>

section \<open>Data\<close>

record 'p Hash_Table_Entry =
  hte_key :: "64 word"
  hte_data :: 'p

record 'p Hash_Table =
  ht_name :: string
  ht_buckets :: uns
  ht_data_size :: uns
  ht_count :: cint
  ht_entries :: "'p Hash_Table_Entry list list"
  ht_eq_func :: "('p \<Rightarrow> 'p \<Rightarrow> bool) option"

definition init_complex_hash_table ::
    "string \<Rightarrow> uns \<Rightarrow> uns \<Rightarrow> ('p \<Rightarrow> 'p \<Rightarrow> bool) option \<Rightarrow> 'p Hash_Table" where
  "init_complex_hash_table name buckets data_size eq_func =
     \<lparr>ht_name = name, ht_buckets = buckets, ht_data_size = data_size, ht_count = 0,
      ht_entries = replicate (unat buckets) [], ht_eq_func = eq_func\<rparr>"

definition init_hash_table :: "string \<Rightarrow> uns \<Rightarrow> uns \<Rightarrow> 'p Hash_Table" where
  "init_hash_table name buckets data_size = init_complex_hash_table name buckets data_size None"

definition HASH_INDEX :: "'p Hash_Table \<Rightarrow> 64 word \<Rightarrow> nat" where
  "HASH_INDEX table key = unat ((ucast key :: uns) mod ht_buckets table)"

definition hash_table_primes :: "uns list" where
  "hash_table_primes = [1, 5, 11, 23, 47, 101, 211, 401, 811, 1601, 3209, 6373]"

section \<open>Chains\<close>

text \<open>The node that matches, by the key alone or by the key and the table's \<^verbatim>\<open>eq_func\<close>.\<close>

definition key_match :: "64 word \<Rightarrow> 'p Hash_Table_Entry \<Rightarrow> bool" where
  "key_match key e \<longleftrightarrow> hte_key e = key"

definition data_match :: "64 word \<Rightarrow> ('p \<Rightarrow> 'p \<Rightarrow> bool) \<Rightarrow> 'p \<Rightarrow> 'p Hash_Table_Entry \<Rightarrow> bool" where
  "data_match key eq dat e \<longleftrightarrow> hte_key e = key \<and> eq (hte_data e) dat"

definition bucket_of :: "'p Hash_Table \<Rightarrow> 64 word \<Rightarrow> 'p Hash_Table_Entry list" where
  "bucket_of table key = ht_entries table ! HASH_INDEX table key"

definition set_bucket :: "64 word \<Rightarrow> 'p Hash_Table_Entry list \<Rightarrow> 'p Hash_Table \<Rightarrow> 'p Hash_Table" where
  "set_bucket key b table = table\<lparr>ht_entries := (ht_entries table)[HASH_INDEX table key := b]\<rparr>"

text \<open>Unlinking node \<open>i\<close> of a chain.\<close>

definition unlink_nth :: "nat \<Rightarrow> 'a list \<Rightarrow> 'a list" where
  "unlink_nth i xs = take i xs @ drop (Suc i) xs"

section \<open>Operations\<close>

definition chain_access :: "('p Hash_Table_Entry \<Rightarrow> bool) \<Rightarrow> 64 word \<Rightarrow> 'p Hash_Table \<Rightarrow> 'p option" where
  "chain_access m key table =
     (case find_ix m (bucket_of table key) of
        None \<Rightarrow> None
      | Some i \<Rightarrow> Some (hte_data (bucket_of table key ! i)))"

definition hash_table_access :: "'p Hash_Table \<Rightarrow> 64 word \<Rightarrow> 'p option" where
  "hash_table_access table key = chain_access (key_match key) key table"

definition complex_hash_table_access :: "'p Hash_Table \<Rightarrow> 64 word \<Rightarrow> 'p option \<Rightarrow> 'p option option" where
  "complex_hash_table_access table key dat =
     (case (ht_eq_func table, dat) of
        (Some eq, Some d) \<Rightarrow> Some (chain_access (data_match key eq d) key table)
      | _ \<Rightarrow> None)"

text \<open>
  The data of the matching node, or of a new node at the end of the chain; whether it is new; the
  table.
\<close>

definition chain_create ::
    "('p Hash_Table_Entry \<Rightarrow> bool) \<Rightarrow> 64 word \<Rightarrow> 'p \<Rightarrow> 'p Hash_Table \<Rightarrow> ('p \<times> bool \<times> 'p Hash_Table) option" where
  "chain_create m key fresh table =
     (if \<not> HASH_INDEX table key < unat (ht_buckets table) then None
      else case chain_access m key table of
        Some d \<Rightarrow> Some (d, False, table)
      | None \<Rightarrow>
          Some (fresh, True, set_bucket key (bucket_of table key @ [\<lparr>hte_key = key, hte_data = fresh\<rparr>])
                              (table\<lparr>ht_count := ht_count table + 1\<rparr>)))"

definition hash_table_access_create ::
    "'p Hash_Table \<Rightarrow> 64 word \<Rightarrow> 'p \<Rightarrow> ('p \<times> bool \<times> 'p Hash_Table) option" where
  "hash_table_access_create table key fresh = chain_create (key_match key) key fresh table"

definition complex_hash_table_access_create ::
    "'p Hash_Table \<Rightarrow> 64 word \<Rightarrow> 'p option \<Rightarrow> 'p \<Rightarrow> ('p \<times> bool \<times> 'p Hash_Table) option" where
  "complex_hash_table_access_create table key dat fresh =
     (case (ht_eq_func table, dat) of
        (Some eq, Some d) \<Rightarrow> chain_create (data_match key eq d) key fresh table
      | _ \<Rightarrow> None)"

definition chain_delete ::
    "('p Hash_Table_Entry \<Rightarrow> bool) \<Rightarrow> 64 word \<Rightarrow> 'p Hash_Table \<Rightarrow> (bool \<times> 'p Hash_Table) option" where
  "chain_delete m key table =
     (case find_ix m (bucket_of table key) of
        None \<Rightarrow> Some (False, table)
      | Some i \<Rightarrow>
          let table = set_bucket key (unlink_nth i (bucket_of table key)) (table\<lparr>ht_count := ht_count table - 1\<rparr>)
          in if 0 \<le> sint (ht_count table) then Some (True, table) else None)"

definition hash_table_access_delete :: "'p Hash_Table \<Rightarrow> 64 word \<Rightarrow> (bool \<times> 'p Hash_Table) option" where
  "hash_table_access_delete table key = chain_delete (key_match key) key table"

definition complex_hash_table_access_delete ::
    "'p Hash_Table \<Rightarrow> 64 word \<Rightarrow> 'p option \<Rightarrow> (bool \<times> 'p Hash_Table) option" where
  "complex_hash_table_access_delete table key dat =
     (case (ht_eq_func table, dat) of
        (Some eq, Some d) \<Rightarrow> chain_delete (data_match key eq d) key table
      | _ \<Rightarrow> None)"

definition all_nodes :: "'p Hash_Table \<Rightarrow> 'p Hash_Table_Entry list" where
  "all_nodes table = concat (ht_entries table)"

definition hash_table_clear :: "'p Hash_Table \<Rightarrow> 'p Hash_Table option" where
  "hash_table_clear table =
     (if of_nat (length (all_nodes table)) = ht_count table
      then Some (table\<lparr>ht_entries := map (\<lambda>_. []) (ht_entries table), ht_count := 0\<rparr>)
      else None)"

text \<open>The array of the data pointers; \<open>Some None\<close> is the \<^verbatim>\<open>NULL\<close> of an empty table.\<close>

definition hash_table_flatten :: "'p Hash_Table \<Rightarrow> 'p list option option" where
  "hash_table_flatten table =
     (if ht_count table = 0 then Some None
      else let new_array = map hte_data (all_nodes table); count = of_nat (length new_array) :: uns
           in if count = ht_count table \<and> 0 < count then Some (Some new_array) else None)"

text \<open>\<^verbatim>\<open>scan_func\<close> acts on the rest of the simulator's state, \<open>'s\<close>.\<close>

definition hash_table_scan :: "'p Hash_Table \<Rightarrow> ('p \<Rightarrow> 's \<Rightarrow> 's) \<Rightarrow> 's \<Rightarrow> 's option" where
  "hash_table_scan table scan_func st =
     (if ht_count table = 0 then Some st
      else if (of_nat (length (all_nodes table)) :: uns) = ht_count table
      then Some (fold (\<lambda>e. scan_func (hte_data e)) (all_nodes table) st)
      else None)"

definition next_prime :: "uns \<Rightarrow> uns" where
  "next_prime old_buckets =
     (case find_ix (\<lambda>p. p = old_buckets) (take 11 hash_table_primes) of
        None \<Rightarrow> old_buckets
      | Some ii \<Rightarrow> hash_table_primes ! Suc ii)"

text \<open>The insertion loop of the rehash pushes each node on the front of its new chain.\<close>

definition push_node :: "'p Hash_Table_Entry \<Rightarrow> 'p Hash_Table \<Rightarrow> 'p Hash_Table" where
  "push_node e table = set_bucket (hte_key e) (e # bucket_of table (hte_key e)) table"

definition hash_table_rehash :: "'p Hash_Table \<Rightarrow> cint \<Rightarrow> 'p Hash_Table option" where
  "hash_table_rehash table new_buckets =
     (if sint new_buckets < 0 then None
      else let new_buckets = (if new_buckets = 0 then next_prime (ht_buckets table) else new_buckets)
           in if new_buckets = ht_buckets table then Some table
              else if (of_nat (length (all_nodes table)) :: uns) \<noteq> ht_count table then None
              else if \<not> (0 < sint new_buckets \<and> sint new_buckets < 100000) then None
              else Some (fold push_node (all_nodes table)
                     (table\<lparr>ht_buckets := new_buckets, ht_entries := replicate (unat new_buckets) []\<rparr>)))"

definition hash_table_access_replace :: "'p Hash_Table \<Rightarrow> 64 word \<Rightarrow> 'p option \<Rightarrow> 'p Hash_Table option" where
  "hash_table_access_replace table key replacement =
     (case replacement of
        None \<Rightarrow> None
      | Some d \<Rightarrow>
          if \<not> HASH_INDEX table key < unat (ht_buckets table) then None
          else case find_ix (key_match key) (bucket_of table key) of
            Some i \<Rightarrow> Some (set_bucket key ((bucket_of table key)[i := (bucket_of table key ! i)\<lparr>hte_data := d\<rparr>]) table)
          | None \<Rightarrow> Some (set_bucket key (bucket_of table key @ [\<lparr>hte_key = key, hte_data = d\<rparr>])
                           (table\<lparr>ht_count := ht_count table + 1\<rparr>)))"

section \<open>The invariant, and the table as a finite map\<close>

definition ht_inv :: "'p Hash_Table \<Rightarrow> bool" where
  "ht_inv t \<longleftrightarrow> 0 < ht_buckets t \<and> length (ht_entries t) = unat (ht_buckets t) \<and>
     (\<forall>i < length (ht_entries t). \<forall>e \<in> set (ht_entries t ! i). HASH_INDEX t (hte_key e) = i) \<and>
     distinct (map hte_key (all_nodes t)) \<and>
     ht_count t = of_nat (length (all_nodes t)) \<and> length (all_nodes t) < 2 ^ 31"

lemma HASH_INDEX_lt: "0 < ht_buckets t \<Longrightarrow> HASH_INDEX t key < unat (ht_buckets t)"
  by (simp add: HASH_INDEX_def unat_mod unat_gt_0 word_gt_0)

lemma HASH_INDEX_frame [simp]:
  "HASH_INDEX (t\<lparr>ht_count := c\<rparr>) key = HASH_INDEX t key"
  "HASH_INDEX (t\<lparr>ht_entries := en\<rparr>) key = HASH_INDEX t key"
  "HASH_INDEX (set_bucket k b t) key = HASH_INDEX t key"
  by (simp_all add: HASH_INDEX_def set_bucket_def)

lemma set_bucket_frame [simp]:
  "ht_buckets (set_bucket k b t) = ht_buckets t"
  "ht_count (set_bucket k b t) = ht_count t"
  "length (ht_entries (set_bucket k b t)) = length (ht_entries t)"
  by (simp_all add: set_bucket_def)

lemma mset_concat_update:
  "i < length xs \<Longrightarrow> mset (concat (xs[i := b])) + mset (xs ! i) = mset (concat xs) + mset b"
proof (induction xs arbitrary: i)
  case (Cons x xs)
  then show ?case by (cases i) (auto simp: ac_simps)
qed simp

lemma all_nodes_set_bucket:
  assumes "ht_inv t"
  shows "mset (all_nodes (set_bucket k b t)) + mset (bucket_of t k) = mset (all_nodes t) + mset b"
  using assms HASH_INDEX_lt [of t k] mset_concat_update [of "HASH_INDEX t k" "ht_entries t" b]
  by (simp add: all_nodes_def set_bucket_def bucket_of_def ht_inv_def)

lemma node_in_bucket:
  assumes "ht_inv t" "e \<in> set (all_nodes t)"
  shows "e \<in> set (bucket_of t (hte_key e))"
proof -
  obtain i where i: "i < length (ht_entries t)" "e \<in> set (ht_entries t ! i)"
    using assms(2) by (auto simp: all_nodes_def) (metis in_set_conv_nth)
  then have "HASH_INDEX t (hte_key e) = i" using assms(1) by (simp add: ht_inv_def)
  with i show ?thesis by (simp add: bucket_of_def)
qed

lemma bucket_node:
  assumes "ht_inv t" "e \<in> set (bucket_of t k)"
  shows "e \<in> set (all_nodes t)" "HASH_INDEX t (hte_key e) = HASH_INDEX t k"
  using assms HASH_INDEX_lt [of t k] by (auto simp: all_nodes_def bucket_of_def ht_inv_def)

lemma ht_unique:
  assumes "ht_inv t" "e \<in> set (all_nodes t)" "e' \<in> set (all_nodes t)" "hte_key e = hte_key e'"
  shows "e = e'"
  using assms by (auto simp: ht_inv_def distinct_map inj_on_def)

text \<open>Looking a key up is membership in the multiset of nodes.\<close>

lemma access_Some:
  assumes "ht_inv t"
  shows "hash_table_access t k = Some d \<longleftrightarrow> (\<exists>e \<in> set (all_nodes t). hte_key e = k \<and> hte_data e = d)"
proof
  assume "hash_table_access t k = Some d"
  then obtain i where "find_ix (key_match k) (bucket_of t k) = Some i" "d = hte_data (bucket_of t k ! i)"
    by (auto simp: hash_table_access_def chain_access_def split: option.splits)
  moreover from find_ix_SomeD(1,2) [OF this(1)]
  have "bucket_of t k ! i \<in> set (bucket_of t k)" "hte_key (bucket_of t k ! i) = k"
    by (simp_all add: key_match_def)
  ultimately show "\<exists>e \<in> set (all_nodes t). hte_key e = k \<and> hte_data e = d"
    using bucket_node(1) [OF assms] by blast
next
  assume "\<exists>e \<in> set (all_nodes t). hte_key e = k \<and> hte_data e = d"
  then obtain e where e: "e \<in> set (all_nodes t)" "hte_key e = k" "hte_data e = d" by blast
  then have b: "e \<in> set (bucket_of t k)" using node_in_bucket [OF assms e(1)] by simp
  then obtain i where i: "find_ix (key_match k) (bucket_of t k) = Some i"
    using find_ix_ex [OF b, of "key_match k"] e(2) by (auto simp: key_match_def)
  from find_ix_SomeD(1,2) [OF i] have "bucket_of t k ! i \<in> set (bucket_of t k)" "hte_key (bucket_of t k ! i) = k"
    by (simp_all add: key_match_def)
  then have "bucket_of t k ! i \<in> set (all_nodes t)" "hte_key (bucket_of t k ! i) = k"
    using bucket_node(1) [OF assms] by auto
  then have "bucket_of t k ! i = e" using ht_unique [OF assms _ e(1)] e(2) by simp
  with i e(3) show "hash_table_access t k = Some d" by (simp add: hash_table_access_def chain_access_def)
qed

lemma access_None:
  assumes "ht_inv t"
  shows "hash_table_access t k = None \<longleftrightarrow> k \<notin> hte_key ` set (all_nodes t)"
proof (cases "hash_table_access t k")
  case None
  then have "\<not> (\<exists>e \<in> set (all_nodes t). hte_key e = k \<and> hte_data e = d)" for d
    using access_Some [OF assms, of k d] by simp
  with None show ?thesis by auto
next
  case (Some d)
  then have "\<exists>e \<in> set (all_nodes t). hte_key e = k \<and> hte_data e = d"
    using access_Some [OF assms, of k d] by simp
  with Some show ?thesis by auto
qed

text \<open>Two tables with the same nodes answer alike.\<close>

lemma access_cong:
  assumes "ht_inv t" "ht_inv t'" "mset (all_nodes t') = mset (all_nodes t)"
  shows "hash_table_access t' = hash_table_access t"
proof
  fix k
  have "set (all_nodes t') = set (all_nodes t)" using assms(3) by (rule mset_eq_setD)
  then have "hash_table_access t' k = Some d \<longleftrightarrow> hash_table_access t k = Some d" for d
    using access_Some [OF assms(1)] access_Some [OF assms(2)] by simp
  then show "hash_table_access t' k = hash_table_access t k"
    by (metis not_Some_eq)
qed

lemma ht_inv_init: "0 < buckets \<Longrightarrow> ht_inv (init_complex_hash_table name buckets n eq)"
  by (auto simp: ht_inv_def init_complex_hash_table_def all_nodes_def)

text \<open>Replacing a chain keeps the invariant when the keys stay distinct and in place.\<close>

lemma ht_inv_set_bucket:
  assumes inv: "ht_inv t" and m: "mset (all_nodes (set_bucket k b t)) = M"
    and b: "\<And>e. e \<in> set b \<Longrightarrow> HASH_INDEX t (hte_key e) = HASH_INDEX t k"
    and d: "\<And>xs. mset xs = M \<Longrightarrow> distinct (map hte_key xs)"
    and c: "c = of_nat (size M)" "size M < 2 ^ 31"
  shows "ht_inv ((set_bucket k b t)\<lparr>ht_count := c\<rparr>)"
proof -
  have "size M = length (all_nodes (set_bucket k b t))" using m by auto
  moreover have "all_nodes (t'\<lparr>ht_count := c'\<rparr>) = all_nodes t'" for t' :: "'a Hash_Table" and c'
    by (simp add: all_nodes_def)
  moreover have "\<forall>e \<in> set (ht_entries (set_bucket k b t) ! i). HASH_INDEX t (hte_key e) = i"
    if "i < length (ht_entries t)" for i
    using inv b that by (cases "i = HASH_INDEX t k") (auto simp: set_bucket_def ht_inv_def)
  ultimately show ?thesis
    using inv d [OF m] c by (auto simp: ht_inv_def)
qed

section \<open>What the operations do to the map\<close>

lemma all_nodes_count [simp]: "all_nodes (t\<lparr>ht_count := c\<rparr>) = all_nodes t"
  by (simp add: all_nodes_def)

lemma bucket_of_count [simp]: "bucket_of (t\<lparr>ht_count := c\<rparr>) k = bucket_of t k"
  by (simp add: bucket_of_def)

lemma set_bucket_count: "set_bucket k b (t\<lparr>ht_count := c\<rparr>) = (set_bucket k b t)\<lparr>ht_count := c\<rparr>"
  by (simp add: set_bucket_def)

lemma distinct_keys_mset:
  assumes "mset (map hte_key xs) = mset (map hte_key ys)" "distinct (map hte_key ys)"
  shows "distinct (map hte_key xs)"
  using mset_eq_imp_distinct_iff [OF assms(1)] assms(2) by simp

text \<open>Appending a node for a new key.\<close>

definition ht_append :: "64 word \<Rightarrow> 'p \<Rightarrow> 'p Hash_Table \<Rightarrow> 'p Hash_Table" where
  "ht_append key d t = set_bucket key (bucket_of t key @ [\<lparr>hte_key = key, hte_data = d\<rparr>])
     (t\<lparr>ht_count := ht_count t + 1\<rparr>)"

lemma ht_append_nodes:
  assumes "ht_inv t"
  shows "mset (all_nodes (ht_append k d t)) = add_mset \<lparr>hte_key = k, hte_data = d\<rparr> (mset (all_nodes t))"
  using all_nodes_set_bucket [OF assms, of k "bucket_of t k @ [\<lparr>hte_key = k, hte_data = d\<rparr>]"]
  by (simp add: ht_append_def set_bucket_count)

lemma ht_append_inv:
  assumes inv: "ht_inv t" and new: "k \<notin> hte_key ` set (all_nodes t)" and room: "length (all_nodes t) + 1 < 2 ^ 31"
  shows "ht_inv (ht_append k d t)"
  unfolding ht_append_def set_bucket_count
proof (rule ht_inv_set_bucket [OF inv refl])
  let ?b = "bucket_of t k @ [\<lparr>hte_key = k, hte_data = d\<rparr>]"
  have m: "mset (all_nodes (set_bucket k ?b t)) = add_mset \<lparr>hte_key = k, hte_data = d\<rparr> (mset (all_nodes t))"
    using ht_append_nodes [OF inv] by (simp add: ht_append_def set_bucket_count)
  show "HASH_INDEX t (hte_key e) = HASH_INDEX t k" if "e \<in> set ?b" for e
    using that bucket_node(2) [OF inv] by auto
  show "distinct (map hte_key xs)" if "mset xs = mset (all_nodes (set_bucket k ?b t))" for xs
  proof (rule distinct_keys_mset)
    have "mset xs = mset (\<lparr>hte_key = k, hte_data = d\<rparr> # all_nodes t)" using that m by simp
    then show "mset (map hte_key xs) = mset (map hte_key (\<lparr>hte_key = k, hte_data = d\<rparr> # all_nodes t))"
      by (metis mset_map)
    show "distinct (map hte_key (\<lparr>hte_key = k, hte_data = d\<rparr> # all_nodes t))"
      using inv new by (auto simp: ht_inv_def)
  qed
  show "ht_count t + 1 = of_nat (size (mset (all_nodes (set_bucket k ?b t))))"
    "size (mset (all_nodes (set_bucket k ?b t))) < 2 ^ 31"
    using m inv room by (auto simp: ht_inv_def)
qed

lemma ht_append_access:
  assumes "ht_inv t" "k \<notin> hte_key ` set (all_nodes t)" "length (all_nodes t) + 1 < 2 ^ 31"
  shows "hash_table_access (ht_append k d t) k' = (if k' = k then Some d else hash_table_access t k')"
proof -
  have set: "set (all_nodes (ht_append k d t)) = insert \<lparr>hte_key = k, hte_data = d\<rparr> (set (all_nodes t))"
    using mset_eq_setD [of "all_nodes (ht_append k d t)" "\<lparr>hte_key = k, hte_data = d\<rparr> # all_nodes t"]
      ht_append_nodes [OF assms(1)] by simp
  have "hash_table_access (ht_append k d t) k' = Some x \<longleftrightarrow> (if k' = k then x = d else hash_table_access t k' = Some x)" for x
    unfolding access_Some [OF ht_append_inv [OF assms]] access_Some [OF assms(1)] set
    using assms(2) by auto
  then show ?thesis by (metis not_Some_eq)
qed

lemma hash_table_access_create_eq:
  assumes "ht_inv t"
  shows "hash_table_access_create t k p =
    Some (case hash_table_access t k of Some d \<Rightarrow> (d, False, t) | None \<Rightarrow> (p, True, ht_append k p t))"
  using HASH_INDEX_lt [of t k] assms
  by (auto simp: hash_table_access_create_def chain_create_def hash_table_access_def ht_append_def ht_inv_def
      split: option.splits)

lemma access_other_keys:
  assumes "ht_inv t" "ht_inv t'" "\<And>e. hte_key e \<noteq> k \<Longrightarrow> e \<in> set (all_nodes t') \<longleftrightarrow> e \<in> set (all_nodes t)" "k' \<noteq> k"
  shows "hash_table_access t' k' = hash_table_access t k'"
proof -
  have "hash_table_access t' k' = Some x \<longleftrightarrow> hash_table_access t k' = Some x" for x
    unfolding access_Some [OF assms(1)] access_Some [OF assms(2)] using assms(3,4) by blast
  then show ?thesis by (metis not_Some_eq)
qed

lemma mset_nth_split: "i < length b \<Longrightarrow> mset b = add_mset (b ! i) (mset (unlink_nth i b))"
  by (subst (1) id_take_nth_drop [of i b]) (simp_all add: unlink_nth_def)

lemma mset_nth_update: "i < length b \<Longrightarrow> mset (b[i := e]) = add_mset e (mset (unlink_nth i b))"
  by (simp add: upd_conv_take_nth_drop unlink_nth_def)

text \<open>Changing the data of the node that matches.\<close>

lemma ht_change:
  assumes inv: "ht_inv t" and i: "find_ix (key_match k) (bucket_of t k) = Some i"
    and t': "t' = set_bucket k ((bucket_of t k)[i := (bucket_of t k ! i)\<lparr>hte_data := d\<rparr>]) t"
  shows "ht_inv t'" "hash_table_access t' k' = (if k' = k then Some d else hash_table_access t k')"
    "length (all_nodes t') = length (all_nodes t)"
proof -
  let ?b = "bucket_of t k" and ?e = "(bucket_of t k ! i)\<lparr>hte_data := d\<rparr>"
  have l: "i < length ?b" and key: "hte_key (?b ! i) = k"
    using find_ix_SomeD(1,2) [OF i] by (simp_all add: key_match_def)
  have m: "add_mset (?b ! i) (mset (all_nodes t')) = add_mset ?e (mset (all_nodes t))"
    using all_nodes_set_bucket [OF inv, of k "?b[i := ?e]"] mset_nth_split [OF l] mset_nth_update [OF l, of ?e]
    by (simp add: t' [symmetric])
  have keys: "mset (map hte_key (all_nodes t')) = mset (map hte_key (all_nodes t))"
  proof -
    have "image_mset hte_key (add_mset (?b ! i) (mset (all_nodes t'))) = image_mset hte_key (add_mset ?e (mset (all_nodes t)))"
      using m by simp
    then show ?thesis by simp
  qed
  have len: "length (all_nodes t') = length (all_nodes t)"
    using keys by (metis length_map mset_eq_length)
  then show "length (all_nodes t') = length (all_nodes t)" .
  have "ht_inv ((set_bucket k (?b[i := ?e]) t)\<lparr>ht_count := ht_count t\<rparr>)"
  proof (rule ht_inv_set_bucket [OF inv refl])
    show "HASH_INDEX t (hte_key x) = HASH_INDEX t k" if "x \<in> set (?b[i := ?e])" for x
      using set_update_subset_insert [of ?b i ?e] that bucket_node(2) [OF inv] key by auto
    show "distinct (map hte_key xs)" if "mset xs = mset (all_nodes (set_bucket k (?b[i := ?e]) t))" for xs
    proof (rule distinct_keys_mset)
      show "mset (map hte_key xs) = mset (map hte_key (all_nodes t))"
        using that keys by (metis mset_map t')
      show "distinct (map hte_key (all_nodes t))" using inv by (simp add: ht_inv_def)
    qed
  qed (use inv len t' in \<open>simp_all add: ht_inv_def\<close>)
  then show inv': "ht_inv t'" by (simp add: t' set_bucket_count [symmetric])
  have "set_mset (add_mset (?b ! i) (mset (all_nodes t'))) = set_mset (add_mset ?e (mset (all_nodes t)))"
    using m by simp
  then have set: "insert (?b ! i) (set (all_nodes t')) = insert ?e (set (all_nodes t))" by simp
  have "hash_table_access t' k = Some d"
  proof (cases "?e = ?b ! i")
    case True
    have "?b ! i \<in> set ?b" using l by simp
    with True have "?e \<in> set (all_nodes t)" using bucket_node(1) [OF inv] by metis
    moreover have "mset (all_nodes t') = mset (all_nodes t)" using m True by simp
    then have "set (all_nodes t') = set (all_nodes t)" by (rule mset_eq_setD)
    ultimately show ?thesis unfolding access_Some [OF inv'] using key by (intro bexI [of _ ?e]) auto
  next
    case False
    then have "?e \<in> set (all_nodes t')" using set by auto
    then show ?thesis unfolding access_Some [OF inv'] using key by (intro bexI [of _ ?e]) auto
  qed
  moreover have "hash_table_access t' k' = hash_table_access t k'" if "k' \<noteq> k"
  proof (rule access_other_keys [OF inv inv' _ that])
    fix e :: "'a Hash_Table_Entry" assume "hte_key e \<noteq> k"
    then have "e \<noteq> ?b ! i" "e \<noteq> ?e" using key by auto
    moreover have "e \<in> insert (?b ! i) (set (all_nodes t')) \<longleftrightarrow> e \<in> insert ?e (set (all_nodes t))" by (simp only: set)
    ultimately show "e \<in> set (all_nodes t') \<longleftrightarrow> e \<in> set (all_nodes t)" by simp
  qed
  ultimately show "hash_table_access t' k' = (if k' = k then Some d else hash_table_access t k')" by simp
qed

lemma hash_table_access_replace_ok:
  assumes "ht_inv t" "length (all_nodes t) + 1 < 2 ^ 31"
  obtains t' where "hash_table_access_replace t k (Some d) = Some t'" "ht_inv t'"
    "\<And>k'. hash_table_access t' k' = (if k' = k then Some d else hash_table_access t k')"
    "length (all_nodes t') \<le> length (all_nodes t) + 1"
proof (cases "find_ix (key_match k) (bucket_of t k)")
  case None
  then have "hash_table_access t k = None" by (simp add: hash_table_access_def chain_access_def)
  then have new: "k \<notin> hte_key ` set (all_nodes t)" by (simp add: access_None [OF assms(1)])
  have "hash_table_access_replace t k (Some d) = Some (ht_append k d t)"
    using None assms(1) HASH_INDEX_lt [of t k] by (simp add: hash_table_access_replace_def ht_append_def ht_inv_def)
  moreover have "length (all_nodes (ht_append k d t)) = length (all_nodes t) + 1"
    using arg_cong [OF ht_append_nodes [OF assms(1), of k d], of size] by simp
  ultimately show thesis
    using ht_append_inv [OF assms(1) new assms(2)] ht_append_access [OF assms(1) new assms(2)] that by auto
next
  case (Some i)
  let ?t = "set_bucket k ((bucket_of t k)[i := (bucket_of t k ! i)\<lparr>hte_data := d\<rparr>]) t"
  have "hash_table_access_replace t k (Some d) = Some ?t"
    using Some assms(1) HASH_INDEX_lt [of t k] by (simp add: hash_table_access_replace_def ht_inv_def)
  with ht_change [OF assms(1) Some refl] that show thesis by auto
qed

lemma hash_table_access_delete_ok:
  assumes inv: "ht_inv t"
  obtains t' where "hash_table_access_delete t k = Some (hash_table_access t k \<noteq> None, t')" "ht_inv t'"
    "\<And>k'. hash_table_access t' k' = (if k' = k then None else hash_table_access t k')"
    "length (all_nodes t') \<le> length (all_nodes t)"
proof (cases "find_ix (key_match k) (bucket_of t k)")
  case None
  then have "hash_table_access t k = None" by (simp add: hash_table_access_def chain_access_def)
  with None inv show thesis
    by (intro that [of t]) (auto simp: hash_table_access_delete_def chain_delete_def)
next
  case (Some i)
  let ?b = "bucket_of t k"
  let ?s = "set_bucket k (unlink_nth i ?b) t"
  let ?t = "?s\<lparr>ht_count := ht_count t - 1\<rparr>"
  have l: "i < length ?b" and key: "hte_key (?b ! i) = k"
    using find_ix_SomeD(1,2) [OF Some] by (simp_all add: key_match_def)
  have sub: "set (unlink_nth i ?b) \<subseteq> set ?b"
    by (auto simp: unlink_nth_def dest: in_set_takeD in_set_dropD)
  have m: "add_mset (?b ! i) (mset (all_nodes ?s)) = mset (all_nodes t)"
    using all_nodes_set_bucket [OF inv, of k "unlink_nth i ?b"] mset_nth_split [OF l] by simp
  then have len: "length (all_nodes t) = Suc (length (all_nodes ?s))"
    by (metis m size_add_mset size_mset)
  have dk: "distinct (map hte_key (?b ! i # xs))" if "mset xs = mset (all_nodes ?s)" for xs
  proof (rule distinct_keys_mset)
    have "mset (?b ! i # xs) = mset (all_nodes t)" using that m by simp
    then show "mset (map hte_key (?b ! i # xs)) = mset (map hte_key (all_nodes t))" by (metis mset_map)
    show "distinct (map hte_key (all_nodes t))" using inv by (simp add: ht_inv_def)
  qed
  have cnt: "ht_count t = of_nat (length (all_nodes t))" "length (all_nodes t) < 2 ^ 31" using inv by (simp_all add: ht_inv_def)
  have inv': "ht_inv ?t"
  proof (rule ht_inv_set_bucket [OF inv refl])
    show "HASH_INDEX t (hte_key e) = HASH_INDEX t k" if "e \<in> set (unlink_nth i ?b)" for e
      using that sub bucket_node(2) [OF inv] by auto
    show "distinct (map hte_key xs)" if "mset xs = mset (all_nodes ?s)" for xs
      using dk [OF that] by simp
  qed (use cnt len in auto)
  have "ht_count ?t = of_nat (length (all_nodes ?s))" using cnt len by simp
  moreover have "0 \<le> sint (of_nat n :: cint)" if "n < 2 ^ 31" for n
    using that by (subst sint_small) (simp_all add: word_less_nat_alt unat_of_nat)
  ultimately have "0 \<le> sint (ht_count ?t)" using cnt(2) len by simp
  moreover have found: "hash_table_access t k \<noteq> None" using Some by (simp add: hash_table_access_def chain_access_def)
  ultimately have "hash_table_access_delete t k = Some (hash_table_access t k \<noteq> None, ?t)"
    using Some by (simp add: hash_table_access_delete_def chain_delete_def Let_def set_bucket_count)
  moreover have "set (all_nodes ?t) = set (all_nodes t) - {?b ! i}" "k \<notin> hte_key ` set (all_nodes ?t)"
  proof -
    have "set_mset (add_mset (?b ! i) (mset (all_nodes ?s))) = set (all_nodes t)" using m by simp
    then show "set (all_nodes ?t) = set (all_nodes t) - {?b ! i}" using dk [OF refl] by auto
    show "k \<notin> hte_key ` set (all_nodes ?t)" using dk [OF refl] key by auto
  qed
  then have "hash_table_access ?t k' = (if k' = k then None else hash_table_access t k')" for k'
    using access_other_keys [OF inv inv', of k k'] access_None [OF inv', of k] key by auto
  ultimately show thesis using inv' len by (intro that) auto
qed

text \<open>Rehashing pushes every node into the new array: the nodes stay the same.\<close>

definition ht_placed :: "'p Hash_Table \<Rightarrow> bool" where
  "ht_placed t \<longleftrightarrow> 0 < ht_buckets t \<and> length (ht_entries t) = unat (ht_buckets t) \<and>
     (\<forall>i < length (ht_entries t). \<forall>e \<in> set (ht_entries t ! i). HASH_INDEX t (hte_key e) = i)"

lemma ht_inv_placed:
  "ht_inv t \<longleftrightarrow> ht_placed t \<and> distinct (map hte_key (all_nodes t)) \<and>
     ht_count t = of_nat (length (all_nodes t)) \<and> length (all_nodes t) < 2 ^ 31"
  by (auto simp: ht_inv_def ht_placed_def)

lemma push_node_ok:
  assumes "ht_placed t"
  shows "ht_placed (push_node e t)" "mset (all_nodes (push_node e t)) = add_mset e (mset (all_nodes t))"
    "ht_count (push_node e t) = ht_count t" "ht_buckets (push_node e t) = ht_buckets t"
proof -
  let ?k = "hte_key e" and ?i = "HASH_INDEX t (hte_key e)"
  have i: "?i < length (ht_entries t)" using assms HASH_INDEX_lt [of t ?k] by (simp add: ht_placed_def)
  have "mset (concat ((ht_entries t)[?i := e # ht_entries t ! ?i])) + mset (ht_entries t ! ?i) =
      mset (concat (ht_entries t)) + mset (e # ht_entries t ! ?i)"
    by (rule mset_concat_update [OF i])
  then show "mset (all_nodes (push_node e t)) = add_mset e (mset (all_nodes t))"
    by (simp add: push_node_def all_nodes_def set_bucket_def bucket_of_def)
  show "ht_placed (push_node e t)"
    using assms i by (auto simp: push_node_def ht_placed_def set_bucket_def bucket_of_def nth_list_update)
qed (simp_all add: push_node_def)

lemma push_nodes_ok:
  "ht_placed t \<Longrightarrow> ht_placed (fold push_node es t) \<and>
     mset (all_nodes (fold push_node es t)) = mset es + mset (all_nodes t) \<and>
     ht_count (fold push_node es t) = ht_count t \<and> ht_buckets (fold push_node es t) = ht_buckets t"
  by (induction es arbitrary: t) (auto simp: push_node_ok)

lemma next_prime_ok: "0 < n \<Longrightarrow> 0 < next_prime n \<and> (next_prime n = n \<or> next_prime n \<le> 6373)"
  by (auto simp: next_prime_def hash_table_primes_def)

lemma hash_table_rehash_ok:
  assumes inv: "ht_inv t" and n: "n = 0 \<or> 0 < sint n \<and> sint n < 100000"
  obtains t' where "hash_table_rehash t n = Some t'" "ht_inv t'"
    "mset (all_nodes t') = mset (all_nodes t)" "hash_table_access t' = hash_table_access t"
proof -
  define m where "m = (if n = 0 then next_prime (ht_buckets t) else n)"
  have cnt: "(of_nat (length (all_nodes t)) :: uns) = ht_count t" using inv by (simp add: ht_inv_def)
  show thesis
  proof (cases "m = ht_buckets t")
    case True
    have "hash_table_rehash t n = Some t" using True n by (auto simp: hash_table_rehash_def m_def Let_def)
    with inv that show thesis by blast
  next
    case False
    have m: "0 < sint m \<and> sint m < 100000"
    proof (cases "n = 0")
      case False
      with n show ?thesis by (simp add: m_def)
    next
      case True
      with \<open>m \<noteq> ht_buckets t\<close> inv have "0 < m" "m \<le> 6373"
        using next_prime_ok [of "ht_buckets t"] by (auto simp: m_def ht_inv_def)
      then have "0 < uint m" "uint m \<le> 6373" "m < 0x80000000"
        by (simp_all add: word_less_def word_le_def)
      then show ?thesis by (simp add: sint_small)
    qed
    then have "0 < m" by (metis sint_0 word_gt_0 less_irrefl)
    let ?t = "t\<lparr>ht_buckets := m, ht_entries := replicate (unat m) []\<rparr>"
    have "ht_placed ?t" using \<open>0 < m\<close> by (auto simp: ht_placed_def)
    note p = push_nodes_ok [OF this, of "all_nodes t"]
    have "hash_table_rehash t n = Some (fold push_node (all_nodes t) ?t)"
      using False m n cnt by (auto simp: hash_table_rehash_def m_def Let_def)
    moreover have "mset (all_nodes (fold push_node (all_nodes t) ?t)) = mset (all_nodes t)"
      using p by (simp add: all_nodes_def)
    moreover from this have "ht_inv (fold push_node (all_nodes t) ?t)"
      using p inv distinct_keys_mset [of "all_nodes (fold push_node (all_nodes t) ?t)" "all_nodes t"]
      by (auto simp: ht_inv_placed dest: mset_eq_length)
    ultimately show thesis using access_cong [OF inv] that by blast
  qed
qed

lemma hash_table_clear_ok:
  assumes "ht_inv t"
  obtains t' where "hash_table_clear t = Some t'" "ht_inv t'" "\<And>k. hash_table_access t' k = None"
proof -
  let ?t = "t\<lparr>ht_entries := map (\<lambda>_. []) (ht_entries t), ht_count := 0\<rparr>"
  have "concat (map (\<lambda>_. []) xs) = []" for xs :: "'b list" by (induction xs) auto
  then have n: "all_nodes ?t = []" by (simp add: all_nodes_def)
  then have inv': "ht_inv ?t" using assms by (auto simp: ht_inv_def)
  moreover have "hash_table_clear t = Some ?t" using assms by (simp add: hash_table_clear_def ht_inv_def)
  moreover have "hash_table_access ?t k = None" for k using n by (simp add: access_None [OF inv'])
  ultimately show thesis using that by blast
qed

lemma ht_count_zero: "ht_inv t \<Longrightarrow> ht_count t = 0 \<longleftrightarrow> all_nodes t = []"
proof -
  assume "ht_inv t"
  then have "unat (ht_count t) = length (all_nodes t)" by (simp add: ht_inv_def unat_of_nat)
  then show ?thesis by (metis length_0_conv unat_0 unat_eq_0)
qed

lemma hash_table_flatten_ok:
  assumes "ht_inv t"
  shows "hash_table_flatten t =
    Some (if all_nodes t = [] then None else Some (map hte_data (all_nodes t)))"
proof -
  have "ht_count t = of_nat (length (all_nodes t))" using assms by (simp add: ht_inv_def)
  then show ?thesis
    using ht_count_zero [OF assms] by (auto simp: hash_table_flatten_def Let_def word_gt_0)
qed

lemma hash_table_scan_ok:
  assumes "ht_inv t"
  shows "hash_table_scan t f st = Some (fold (\<lambda>e. f (hte_data e)) (all_nodes t) st)"
  using ht_count_zero [OF assms] assms by (auto simp: hash_table_scan_def ht_inv_def)

section \<open>The contract of a map\<close>

text \<open>
  What the clients of a table rely on. Insertion and removal may fail (an assertion); while there is
  room they do not.
\<close>

locale map_store =
  fixes look :: "'s \<Rightarrow> 'k \<Rightarrow> 'v option"
    and put :: "'k \<Rightarrow> 'v \<Rightarrow> 's \<Rightarrow> 's option"
    and del :: "'k \<Rightarrow> 's \<Rightarrow> 's option"
    and inv :: "nat \<Rightarrow> 's \<Rightarrow> bool"
  assumes put_ok: "inv (Suc n) s \<Longrightarrow> \<exists>s'. put k v s = Some s' \<and> inv n s' \<and>
          (\<forall>k'. look s' k' = (if k' = k then Some v else look s k'))"
    and del_ok: "inv n s \<Longrightarrow> \<exists>s'. del k s = Some s' \<and> inv n s' \<and>
          (\<forall>k'. look s' k' = (if k' = k then None else look s k'))"
begin

fun put_all :: "('k \<times> 'v) list \<Rightarrow> 's \<Rightarrow> 's option" where
  "put_all [] s = Some s"
| "put_all ((k, v) # kvs) s = (case put k v s of None \<Rightarrow> None | Some s \<Rightarrow> put_all kvs s)"

lemma put_all_ok:
  "inv (length kvs + n) s \<Longrightarrow> \<exists>s'. put_all kvs s = Some s' \<and> inv n s' \<and>
     (\<forall>k. look s' k = (case map_of (rev kvs) k of None \<Rightarrow> look s k | Some v \<Rightarrow> Some v))"
proof (induction kvs arbitrary: s)
  case Nil
  then show ?case by simp
next
  case (Cons kv kvs)
  obtain k v where kv: "kv = (k, v)" by fastforce
  from Cons.prems put_ok [of "length kvs + n" s k v] obtain s1 where
    s1: "put k v s = Some s1" "inv (length kvs + n) s1" "\<forall>k'. look s1 k' = (if k' = k then Some v else look s k')"
    by auto
  obtain s' where s': "put_all kvs s1 = Some s'" "inv n s'"
    "\<And>k. look s' k = (case map_of (rev kvs) k of None \<Rightarrow> look s1 k | Some v \<Rightarrow> Some v)"
    using Cons.IH [OF s1(2)] by blast
  have "look s' k' = (case map_of (rev (kv # kvs)) k' of None \<Rightarrow> look s k' | Some v \<Rightarrow> Some v)" for k'
    using s'(3) [of k'] s1(3) by (cases "map_of (rev kvs) k'") (simp_all add: kv map_add_def)
  with s1(1) s'(1,2) show ?case by (simp add: kv)
qed

lemma put_del:
  assumes "inv (Suc n) s" "look s k = None"
  obtains s1 s2 where "put k v s = Some s1" "del k s1 = Some s2" "look s2 = look s"
proof -
  obtain s1 where s1: "put k v s = Some s1" "inv n s1" "\<forall>k'. look s1 k' = (if k' = k then Some v else look s k')"
    using put_ok [OF assms(1)] by blast
  obtain s2 where s2: "del k s1 = Some s2" "\<forall>k'. look s2 k' = (if k' = k then None else look s1 k')"
    using del_ok [OF s1(2)] by blast
  have "look s2 = look s" using s1(3) s2(2) assms(2) by (auto simp: fun_eq_iff)
  with s1(1) s2(1) show thesis by (rule that)
qed

end

text \<open>The hash table provides it; the number is the room that is left below \<open>2 ^ 31\<close> nodes.\<close>

definition ht_room :: "nat \<Rightarrow> 'p Hash_Table \<Rightarrow> bool" where
  "ht_room n t \<longleftrightarrow> ht_inv t \<and> length (all_nodes t) + n < 2 ^ 31"

interpretation ht: map_store hash_table_access
  "\<lambda>k d t. hash_table_access_replace t k (Some d)"
  "\<lambda>k t. map_option snd (hash_table_access_delete t k)"
  ht_room
proof
  fix n :: nat and s :: "'a Hash_Table" and k v
  show "\<exists>s'. hash_table_access_replace s k (Some v) = Some s' \<and> ht_room n s' \<and>
      (\<forall>k'. hash_table_access s' k' = (if k' = k then Some v else hash_table_access s k'))" if "ht_room (Suc n) s"
  proof -
    have "ht_inv s" "length (all_nodes s) + 1 < 2 ^ 31" using that by (simp_all add: ht_room_def)
    from hash_table_access_replace_ok [OF this, of k v] obtain s' where
      "hash_table_access_replace s k (Some v) = Some s'" "ht_inv s'" "length (all_nodes s') \<le> length (all_nodes s) + 1"
      "\<And>k'. hash_table_access s' k' = (if k' = k then Some v else hash_table_access s k')" by metis
    with that show ?thesis by (auto simp: ht_room_def)
  qed
  show "\<exists>s'. map_option snd (hash_table_access_delete s k) = Some s' \<and> ht_room n s' \<and>
      (\<forall>k'. hash_table_access s' k' = (if k' = k then None else hash_table_access s k'))" if "ht_room n s"
  proof -
    have "ht_inv s" using that by (simp add: ht_room_def)
    from hash_table_access_delete_ok [OF this, of k] obtain s' where
      "hash_table_access_delete s k = Some (hash_table_access s k \<noteq> None, s')" "ht_inv s'"
      "length (all_nodes s') \<le> length (all_nodes s)"
      "\<And>k'. hash_table_access s' k' = (if k' = k then None else hash_table_access s k')" by metis
    with that show ?thesis by (auto simp: ht_room_def)
  qed
qed

text \<open>A sequence of replacing insertions, outside the locale.\<close>

fun ht_put_all :: "(64 word \<times> 'p) list \<Rightarrow> 'p Hash_Table \<Rightarrow> 'p Hash_Table option" where
  "ht_put_all [] t = Some t"
| "ht_put_all ((k, d) # kvs) t =
     (case hash_table_access_replace t k (Some d) of None \<Rightarrow> None | Some t \<Rightarrow> ht_put_all kvs t)"

lemma ht_put_all_eq: "ht_put_all kvs t = ht.put_all kvs t"
  by (induction kvs t rule: ht_put_all.induct) (auto split: option.splits)

end
