(* ===== verification/Port_Lib.thy ===== *)
theory Port_Lib
  imports Scarab_Prelude
begin

text \<open>
  Cache ports, \<^verbatim>\<open>libs/port_lib.c\<close>. The simulator's \<^verbatim>\<open>cycle_count\<close> is an argument; \<open>None\<close> is a
  failed assertion, and the flag says whether the port was granted.
\<close>

record Ports =
  ports_name :: string
  read_last_cycle :: Counter
  write_last_cycle :: Counter
  num_read_ports :: uns
  read_ports_in_use :: uns
  num_write_ports :: uns
  write_ports_in_use :: uns
  writes_prevent_reads :: bool

text \<open>\<^verbatim>\<open>MAX_STR_LENGTH\<close> is 1024.\<close>

definition init_ports :: "string \<Rightarrow> uns \<Rightarrow> uns \<Rightarrow> bool \<Rightarrow> Ports" where
  "init_ports name read write wpr =
     \<lparr>ports_name = take 1024 name, read_last_cycle = 0, write_last_cycle = 0, num_read_ports = read,
      read_ports_in_use = 0, num_write_ports = write, write_ports_in_use = 0, writes_prevent_reads = wpr\<rparr>"

definition get_read_port :: "Counter \<Rightarrow> Ports \<Rightarrow> (bool \<times> Ports) option" where
  "get_read_port cycle p =
     (if read_last_cycle p \<noteq> cycle then
        (if 0 < num_read_ports p then Some (True, p\<lparr>read_last_cycle := cycle, read_ports_in_use := 1\<rparr>) else None)
      else if read_ports_in_use p = num_read_ports p then Some (False, p)
      else if write_ports_in_use p \<noteq> 0 \<and> writes_prevent_reads p then Some (False, p)
      else Some (True, p\<lparr>read_ports_in_use := read_ports_in_use p + 1\<rparr>))"

definition get_write_port :: "Counter \<Rightarrow> Ports \<Rightarrow> (bool \<times> Ports) option" where
  "get_write_port cycle p =
     (if write_last_cycle p \<noteq> cycle then
        (if 0 < num_write_ports p then Some (True, p\<lparr>write_last_cycle := cycle, write_ports_in_use := 1\<rparr>) else None)
      else if write_ports_in_use p = num_write_ports p then Some (False, p)
      else if writes_prevent_reads p \<and> read_ports_in_use p \<noteq> 0 then None
      else Some (True, p\<lparr>write_ports_in_use := write_ports_in_use p + 1\<rparr>))"

section \<open>At most the configured number of grants per cycle\<close>

definition ports_ok :: "Ports \<Rightarrow> bool" where
  "ports_ok p \<longleftrightarrow> read_ports_in_use p \<le> num_read_ports p \<and> write_ports_in_use p \<le> num_write_ports p"

lemma ports_ok_init: "ports_ok (init_ports n r w b)"
  by (simp add: ports_ok_def init_ports_def)

lemma one_le_pos: "0 < (n :: uns) \<Longrightarrow> 1 \<le> n"
  using inc_le [of 0 n] by simp

lemma get_read_port_ok:
  assumes "ports_ok p" "get_read_port cycle p = Some (g, p')"
  shows "ports_ok p'" "num_read_ports p' = num_read_ports p" "num_write_ports p' = num_write_ports p"
    "read_last_cycle p' = cycle"
  using assms by (auto simp: get_read_port_def ports_ok_def one_le_pos split: if_splits)
    (simp add: inc_le)+

lemma get_write_port_ok:
  assumes "ports_ok p" "get_write_port cycle p = Some (g, p')"
  shows "ports_ok p'" "num_read_ports p' = num_read_ports p" "num_write_ports p' = num_write_ports p"
    "write_last_cycle p' = cycle"
  using assms by (auto simp: get_write_port_def ports_ok_def one_le_pos split: if_splits)
    (simp add: inc_le)+

text \<open>The requests for read ports in one cycle: what was granted, in order.\<close>

fun read_requests :: "nat \<Rightarrow> Counter \<Rightarrow> Ports \<Rightarrow> (bool list \<times> Ports) option" where
  "read_requests 0 cycle p = Some ([], p)"
| "read_requests (Suc n) cycle p =
     (case get_read_port cycle p of
        None \<Rightarrow> None
      | Some (g, p) \<Rightarrow> map_option (\<lambda>(gs, p). (g # gs, p)) (read_requests n cycle p))"

definition grants :: "bool list \<Rightarrow> nat" where
  "grants gs = length (filter id gs)"

lemma read_requests_same_cycle:
  assumes "ports_ok p" "read_last_cycle p = cycle" "read_requests n cycle p = Some (gs, p')"
  shows "unat (read_ports_in_use p') = unat (read_ports_in_use p) + grants gs \<and> ports_ok p' \<and>
    num_read_ports p' = num_read_ports p"
  using assms
proof (induction n arbitrary: p gs)
  case 0
  then show ?case by (simp add: grants_def)
next
  case (Suc n)
  then obtain g p1 gs1 where s: "get_read_port cycle p = Some (g, p1)" "read_requests n cycle p1 = Some (gs1, p')" "gs = g # gs1"
    by (auto split: option.splits)
  note ok = get_read_port_ok [OF Suc.prems(1) s(1)]
  have "unat (read_ports_in_use p1) = unat (read_ports_in_use p) + (if g then 1 else 0)"
  proof (cases g)
    case True
    with s(1) Suc.prems(1,2) have "read_ports_in_use p < num_read_ports p" "read_ports_in_use p1 = read_ports_in_use p + 1"
      by (auto simp: get_read_port_def ports_ok_def split: if_splits)
    with True show ?thesis by (simp add: unat_inc)
  next
    case False
    with s(1) Suc.prems(2) show ?thesis by (auto simp: get_read_port_def split: if_splits)
  qed
  with Suc.IH [OF ok(1,4) s(2)] ok(2) show ?case by (auto simp: s(3) grants_def)
qed

lemma read_requests_bound:
  assumes "ports_ok p" "read_requests n cycle p = Some (gs, p')"
  shows "grants gs \<le> unat (num_read_ports p)"
proof (cases n)
  case 0
  with assms show ?thesis by (simp add: grants_def)
next
  case (Suc m)
  with assms obtain g p1 gs1 where s: "get_read_port cycle p = Some (g, p1)" "read_requests m cycle p1 = Some (gs1, p')" "gs = g # gs1"
    by (auto split: option.splits)
  note ok = get_read_port_ok [OF assms(1) s(1)]
  have g: "g \<Longrightarrow> 0 < unat (read_ports_in_use p1)"
  proof -
    assume g
    with s(1) assms(1) have "read_ports_in_use p1 = 1 \<or>
        (read_ports_in_use p < num_read_ports p \<and> read_ports_in_use p1 = read_ports_in_use p + 1)"
      by (auto simp: get_read_port_def ports_ok_def split: if_splits)
    then show ?thesis by (auto simp: unat_inc)
  qed
  have r: "unat (read_ports_in_use p') = unat (read_ports_in_use p1) + grants gs1" "ports_ok p'"
    "num_read_ports p' = num_read_ports p"
    using read_requests_same_cycle [OF ok(1,4) s(2)] ok(2) by auto
  then have le: "unat (read_ports_in_use p1) + grants gs1 \<le> unat (num_read_ports p)"
    by (simp add: ports_ok_def word_le_nat_alt)
  show ?thesis
  proof (cases g)
    case True
    with le g show ?thesis by (simp add: s(3) grants_def)
  next
    case False
    with le show ?thesis by (simp add: s(3) grants_def)
  qed
qed

end
