(* ===== verification/Lib_Props.thy ===== *)
theory Lib_Props
  imports Hash_Lib Port_Lib
begin

text \<open>
  Properties of the support libraries under \<^verbatim>\<open>libs/\<close>: the hash table and the ports.
\<close>

section \<open>Hash table\<close>

text \<open>C34: A sequence of replacing insertions behaves as the sequence of updates of a map: as long as there
  is room below \<open>2 ^ 31\<close> nodes no assertion fails, and afterwards a key is bound to the last data
  inserted for it, or to what it was bound to before.\<close>

theorem hash_table_put_sequence:
  assumes "ht_inv t" "length (all_nodes t) + length kvs < 2 ^ 31"
  shows "\<exists>t'. ht_put_all kvs t = Some t' \<and> ht_inv t' \<and>
    (\<forall>k. hash_table_access t' k = (case map_of (rev kvs) k of None \<Rightarrow> hash_table_access t k | Some d \<Rightarrow> Some d))"
  using ht.put_all_ok [of kvs 0 t] assms by (auto simp: ht_room_def ht_put_all_eq)

theorem hash_table_put_sequence_witness:
  "\<exists>t'. ht_put_all [(5, 70), (10, 71), (5, 72 :: nat)] (init_hash_table [] 5 8) = Some t' \<and> ht_inv t' \<and>
    (\<forall>k. hash_table_access t' k =
      (case map_of (rev [(5, 70), (10, 71), (5, 72 :: nat)]) k of
         None \<Rightarrow> hash_table_access (init_hash_table [] 5 8) k | Some d \<Rightarrow> Some d))"
  by (rule hash_table_put_sequence)
    (auto simp: init_hash_table_def ht_inv_init all_nodes_def init_complex_hash_table_def ht_inv_def)

text \<open>C35: Rehashing, to a given number of buckets or to the next prime, returns a well-formed table with
  every lookup unchanged.\<close>

theorem hash_table_rehash_lookup:
  assumes "ht_inv t" "n = 0 \<or> 0 < sint n \<and> sint n < 100000"
  shows "\<exists>t'. hash_table_rehash t n = Some t' \<and> ht_inv t' \<and> hash_table_access t' = hash_table_access t"
  using hash_table_rehash_ok [OF assms] by metis

theorem hash_table_rehash_lookup_witness:
  "\<exists>t'. hash_table_rehash (init_hash_table [] 5 8 :: nat Hash_Table) 0 = Some t' \<and> ht_inv t' \<and>
    hash_table_access t' = hash_table_access (init_hash_table [] 5 8)"
  by (rule hash_table_rehash_lookup) (simp_all add: init_hash_table_def ht_inv_init)

text \<open>Access-create returns the data already stored under the key, or the new node's; then the key is
  bound to what was returned and no other key changes.\<close>

theorem hash_table_create_binds:
  assumes "ht_inv t" "length (all_nodes t) + 1 < 2 ^ 31"
  shows "\<exists>d new t'. hash_table_access_create t k fresh = Some (d, new, t') \<and> ht_inv t' \<and>
    new = (hash_table_access t k = None) \<and> d = (case hash_table_access t k of None \<Rightarrow> fresh | Some d \<Rightarrow> d) \<and>
    hash_table_access t' = (hash_table_access t)(k \<mapsto> d)"
proof (cases "hash_table_access t k")
  case None
  then have "k \<notin> hte_key ` set (all_nodes t)" using access_None [OF assms(1)] by simp
  with None show ?thesis
    using ht_append_inv [OF assms(1) _ assms(2), of k fresh] ht_append_access [OF assms(1) _ assms(2), of k fresh]
    by (auto simp: hash_table_access_create_eq [OF assms(1)] fun_eq_iff)
next
  case (Some d)
  with assms show ?thesis by (auto simp: hash_table_access_create_eq [OF assms(1)] fun_upd_idem)
qed

theorem hash_table_create_binds_witness:
  "\<exists>d new t'. hash_table_access_create (init_hash_table [] 5 8) 3 (77 :: nat) = Some (d, new, t') \<and> ht_inv t' \<and>
    hash_table_access t' = (hash_table_access (init_hash_table [] 5 8))(3 \<mapsto> d)"
proof -
  have "ht_inv (init_hash_table [] 5 8 :: nat Hash_Table)" by (simp add: init_hash_table_def ht_inv_init)
  moreover have "length (all_nodes (init_hash_table [] 5 8 :: nat Hash_Table)) + 1 < 2 ^ 31"
    by (simp add: init_hash_table_def init_complex_hash_table_def all_nodes_def)
  ultimately show ?thesis using hash_table_create_binds [of "init_hash_table [] 5 8" 3 77] by metis
qed

text \<open>Deleting a key reports whether it was bound, unbinds it, and leaves every other key alone; the
  count cannot fall below zero.\<close>

theorem hash_table_delete_unbinds:
  assumes "ht_inv t"
  shows "\<exists>t'. hash_table_access_delete t k = Some (hash_table_access t k \<noteq> None, t') \<and> ht_inv t' \<and>
    hash_table_access t' = (hash_table_access t)(k := None)"
  using hash_table_access_delete_ok [OF assms, of k] by (metis fun_upd_apply ext)

theorem hash_table_delete_unbinds_witness:
  "\<exists>t'. hash_table_access_delete (init_hash_table [] 5 8 :: nat Hash_Table) 3 =
      Some (hash_table_access (init_hash_table [] 5 8 :: nat Hash_Table) 3 \<noteq> None, t') \<and> ht_inv t' \<and>
    hash_table_access t' = (hash_table_access (init_hash_table [] 5 8))(3 := None)"
  by (rule hash_table_delete_unbinds) (simp add: init_hash_table_def ht_inv_init)

section \<open>Ports\<close>

text \<open>However many requests for a read port are made in a cycle, at most the configured number are
  granted.\<close>

theorem read_ports_per_cycle:
  assumes "ports_ok p" "read_requests n cycle p = Some (gs, p')"
  shows "grants gs \<le> unat (num_read_ports p)"
  using read_requests_bound [OF assms] .

theorem read_ports_per_cycle_witness:
  "\<exists>gs p'. read_requests 3 7 (init_ports [] 2 1 False) = Some (gs, p') \<and> grants gs \<le> unat (2 :: uns)"
proof -
  have "read_requests 3 7 (init_ports [] 2 1 False) =
    Some ([True, True, False], (init_ports [] 2 1 False)\<lparr>read_last_cycle := 7, read_ports_in_use := 2\<rparr>)"
    by (simp add: eval_nat_numeral get_read_port_def init_ports_def)
  from read_ports_per_cycle [OF ports_ok_init this] this show ?thesis by (simp add: init_ports_def)
qed

text \<open>Where writes exclude reads, the exclusion holds for every read but the first of a cycle: that one
  is granted whatever writes the cycle has already done.\<close>

theorem first_read_ignores_writes:
  assumes "ports_ok p" "get_write_port cycle p = Some (True, p1)" "read_last_cycle p \<noteq> cycle" "0 < num_read_ports p"
  shows "\<exists>p2. get_read_port cycle p1 = Some (True, p2) \<and> 0 < write_ports_in_use p2 \<and>
    write_last_cycle p2 = cycle \<and> writes_prevent_reads p2 = writes_prevent_reads p"
proof -
  have "write_ports_in_use p \<noteq> num_write_ports p \<Longrightarrow> write_ports_in_use p < num_write_ports p"
    using assms(1) by (auto simp: ports_ok_def)
  then have "unat (write_ports_in_use p + 1) = Suc (unat (write_ports_in_use p))"
    if "write_ports_in_use p \<noteq> num_write_ports p" using that unat_inc by blast
  then have "0 < write_ports_in_use p1" using assms(2)
    by (auto simp: get_write_port_def word_less_nat_alt split: if_splits)
  moreover have "read_last_cycle p1 = read_last_cycle p" "num_read_ports p1 = num_read_ports p"
    "write_last_cycle p1 = cycle" "writes_prevent_reads p1 = writes_prevent_reads p"
    using assms(2) by (auto simp: get_write_port_def split: if_splits)
  ultimately show ?thesis using assms(3,4) by (simp add: get_read_port_def)
qed

theorem first_read_ignores_writes_witness:
  "\<exists>p1 p2. get_write_port 7 (init_ports [] 1 1 True) = Some (True, p1) \<and> get_read_port 7 p1 = Some (True, p2) \<and>
    0 < write_ports_in_use p2 \<and> writes_prevent_reads p2"
proof -
  let ?p = "init_ports [] 1 1 True"
  have w: "get_write_port 7 ?p = Some (True, ?p\<lparr>write_last_cycle := 7, write_ports_in_use := 1\<rparr>)"
    by (simp add: get_write_port_def init_ports_def)
  have "read_last_cycle ?p \<noteq> 7" "0 < num_read_ports ?p" "writes_prevent_reads ?p" by (simp_all add: init_ports_def)
  with first_read_ignores_writes [OF ports_ok_init w] w show ?thesis by auto
qed

end
