(* ===== verification/List_Lib.thy ===== *)
theory List_Lib
  imports Scarab_Prelude "HOL-Library.Monad_Syntax"
begin

text \<open>
  The linked lists of \<^verbatim>\<open>libs/list_lib.c\<close>, on an explicit heap of entries. An address is a natural
  number, the null pointer is \<open>None\<close>; the two fields of an entry are kept as one function each, so an
  entry that was never written holds whatever those functions say. \<^verbatim>\<open>malloc\<close> hands out addresses that
  were never used before, and \<^verbatim>\<open>free\<close> makes an address dead. The result \<open>None\<close> of an operation is the
  dereference of a null or dead pointer, a second \<^verbatim>\<open>free\<close>, or a failed assertion.

  A function that returns a pointer to the data of an entry returns the entry's address.
  \<^verbatim>\<open>verify_list_counts\<close> has an empty body, since \<^verbatim>\<open>VERIFY_LIST_COUNTS\<close> is \<^verbatim>\<open>FALSE\<close>.
\<close>

section \<open>Data\<close>

type_synonym eptr = "nat option"

record list_heap =
  le_next :: "nat \<Rightarrow> eptr"
  le_prev :: "nat \<Rightarrow> eptr"
  le_live :: "nat \<Rightarrow> bool"
  le_top :: nat

record List_rec =
  li_name :: string
  li_data_size :: uns
  li_head :: eptr
  li_tail :: eptr
  li_current :: eptr
  li_free :: eptr
  li_count :: cint
  li_place :: cint
  li_use_free_list :: bool
  li_free_count :: cint
  li_total_count :: cint

type_synonym lstate = "list_heap \<times> List_rec"

definition FREE_LIST_ALLOC_SIZE :: nat where
  "FREE_LIST_ALLOC_SIZE = 8"

text \<open>Reading and writing through a pointer.\<close>

definition deref :: "list_heap \<Rightarrow> eptr \<Rightarrow> nat option" where
  "deref h p = (case p of None \<Rightarrow> None | Some a \<Rightarrow> if le_live h a then Some a else None)"

definition get_next :: "list_heap \<Rightarrow> eptr \<Rightarrow> eptr option" where
  "get_next h p = map_option (le_next h) (deref h p)"

definition get_prev :: "list_heap \<Rightarrow> eptr \<Rightarrow> eptr option" where
  "get_prev h p = map_option (le_prev h) (deref h p)"

definition put_next :: "eptr \<Rightarrow> eptr \<Rightarrow> list_heap \<Rightarrow> list_heap option" where
  "put_next p v h = map_option (\<lambda>a. h\<lparr>le_next := (le_next h)(a := v)\<rparr>) (deref h p)"

definition put_prev :: "eptr \<Rightarrow> eptr \<Rightarrow> list_heap \<Rightarrow> list_heap option" where
  "put_prev p v h = map_option (\<lambda>a. h\<lparr>le_prev := (le_prev h)(a := v)\<rparr>) (deref h p)"

definition free_mem :: "eptr \<Rightarrow> list_heap \<Rightarrow> list_heap option" where
  "free_mem p h = map_option (\<lambda>a. h\<lparr>le_live := (le_live h)(a := False)\<rparr>) (deref h p)"

text \<open>A block of \<open>n\<close> entries; its first one is at the returned address.\<close>

definition malloc_entries :: "nat \<Rightarrow> list_heap \<Rightarrow> nat \<times> list_heap" where
  "malloc_entries n h =
     (le_top h, h\<lparr>le_live := (\<lambda>a. le_live h a \<or> (le_top h \<le> a \<and> a < le_top h + n)), le_top := le_top h + n\<rparr>)"

section \<open>Entries\<close>

text \<open>\<open>init_list\<close> leaves \<^verbatim>\<open>current\<close> and \<^verbatim>\<open>place\<close> as they were.\<close>

definition init_list :: "string \<Rightarrow> uns \<Rightarrow> bool \<Rightarrow> List_rec \<Rightarrow> List_rec" where
  "init_list nm data_size use_free_list l =
     l\<lparr>li_name := nm, li_data_size := data_size, li_head := None, li_tail := None, li_free := None, li_count := 0,
       li_use_free_list := use_free_list, li_free_count := 0, li_total_count := 0\<rparr>"

text \<open>The loop that links the entries of a new block: \<open>n\<close> links, then the end.\<close>

primrec link_block :: "nat \<Rightarrow> nat \<Rightarrow> (nat \<Rightarrow> eptr) \<Rightarrow> nat \<Rightarrow> eptr" where
  "link_block temp 0 f = f(temp := None)"
| "link_block temp (Suc n) f = link_block (Suc temp) n (f(temp := Some (Suc temp)))"

definition get_list_entry :: "lstate \<Rightarrow> (nat \<times> lstate) option" where
  "get_list_entry = (\<lambda>(h, l).
     (if li_use_free_list l then
        case li_free l of
          Some temp \<Rightarrow> do {
            nx \<leftarrow> get_next h (Some temp);
            Some (temp, h, l\<lparr>li_free := nx, li_free_count := li_free_count l - 1\<rparr>)
          }
        | None \<Rightarrow>
            let (rval, h) = malloc_entries FREE_LIST_ALLOC_SIZE h;
                temp = Suc rval;
                l = l\<lparr>li_free := Some temp, li_total_count := li_total_count l + of_nat FREE_LIST_ALLOC_SIZE,
                      li_free_count := li_free_count l + of_nat FREE_LIST_ALLOC_SIZE - 1\<rparr>
            in Some (rval, h\<lparr>le_next := link_block temp (FREE_LIST_ALLOC_SIZE - 2) (le_next h)\<rparr>, l)
      else
        let (rval, h) = malloc_entries 1 h
        in Some (rval, h, l\<lparr>li_total_count := li_total_count l + 1\<rparr>)))"

definition free_list_entry :: "eptr \<Rightarrow> lstate \<Rightarrow> lstate option" where
  "free_list_entry entry = (\<lambda>(h, l).
     (if li_use_free_list l then do {
        h \<leftarrow> put_next entry (li_free l) h;
        Some (h, l\<lparr>li_free := entry, li_free_count := li_free_count l + 1, li_count := li_count l - 1\<rparr>)
      } else do {
        h \<leftarrow> free_mem entry h;
        Some (h, l\<lparr>li_total_count := li_total_count l - 1, li_count := li_count l - 1\<rparr>)
      }))"

text \<open>The loops that give a chain of entries back to \<^verbatim>\<open>free\<close>.\<close>

partial_function (option) free_chain :: "eptr \<Rightarrow> list_heap \<Rightarrow> list_heap option" where
  "free_chain p h =
     (case p of
        None \<Rightarrow> Some h
      | Some _ \<Rightarrow> do { temp1 \<leftarrow> get_next h p; h \<leftarrow> free_mem p h; free_chain temp1 h })"

definition clear_list :: "lstate \<Rightarrow> lstate option" where
  "clear_list = (\<lambda>(h, l).
     (if li_tail l \<noteq> None then do {
        (h, l) \<leftarrow>
          (if li_use_free_list l then do {
             h \<leftarrow> put_next (li_tail l) (li_free l) h;
             Some (h, l\<lparr>li_free := li_head l, li_free_count := li_free_count l + li_count l\<rparr>)
           } else do { h \<leftarrow> free_chain (li_head l) h; Some (h, l) });
        Some (h, l\<lparr>li_head := None, li_tail := None, li_count := 0\<rparr>)
      } else if li_count l = 0 then Some (h, l) else None))"

definition clip_list_at_current :: "lstate \<Rightarrow> lstate option" where
  "clip_list_at_current = (\<lambda>(h, l). do {
     nx \<leftarrow> get_next h (li_current l);
     if nx \<noteq> None then do {
       (h, l) \<leftarrow>
         (if li_use_free_list l then do {
            h \<leftarrow> put_next (li_tail l) (li_free l) h;
            fr \<leftarrow> get_next h (li_current l);
            h \<leftarrow> put_next (li_current l) None h;
            Some (h, l\<lparr>li_free := fr, li_free_count := li_free_count l + (li_count l - (li_place l + 1))\<rparr>)
          } else do { h \<leftarrow> free_chain nx h; Some (h, l) });
       h \<leftarrow> put_next (li_current l) None h;
       Some (h, l\<lparr>li_tail := li_current l, li_count := li_place l + 1\<rparr>)
     } else Some (h, l)
   })"

section \<open>Adding\<close>

definition sl_list_add_tail :: "lstate \<Rightarrow> (nat \<times> lstate) option" where
  "sl_list_add_tail s = do {
     (temp, h, l) \<leftarrow> get_list_entry s;
     h \<leftarrow> put_next (Some temp) None h;
     (h, l) \<leftarrow>
       (if li_count l = 0 then Some (h, l\<lparr>li_head := Some temp, li_tail := Some temp\<rparr>)
        else do { h \<leftarrow> put_next (li_tail l) (Some temp) h; Some (h, l\<lparr>li_tail := Some temp\<rparr>) });
     Some (temp, h, l\<lparr>li_count := li_count l + 1\<rparr>)
   }"

definition dl_list_add_tail :: "lstate \<Rightarrow> (nat \<times> lstate) option" where
  "dl_list_add_tail s = do {
     (temp, h, l) \<leftarrow> get_list_entry s;
     h \<leftarrow> put_next (Some temp) None h;
     h \<leftarrow> put_prev (Some temp) None h;
     (h, l) \<leftarrow>
       (if li_count l = 0 then do {
          h \<leftarrow> put_prev (Some temp) None h;
          Some (h, l\<lparr>li_head := Some temp, li_tail := Some temp\<rparr>)
        } else do {
          h \<leftarrow> put_prev (Some temp) (li_tail l) h;
          h \<leftarrow> put_next (li_tail l) (Some temp) h;
          Some (h, l\<lparr>li_tail := Some temp\<rparr>)
        });
     Some (temp, h, l\<lparr>li_count := li_count l + 1\<rparr>)
   }"

definition sl_list_add_head :: "lstate \<Rightarrow> (nat \<times> lstate) option" where
  "sl_list_add_head s = do {
     (temp, h, l) \<leftarrow> get_list_entry s;
     h \<leftarrow> put_next (Some temp) (li_head l) h;
     let l = l\<lparr>li_head := Some temp\<rparr>;
     let l = (if li_count l = 0 then l\<lparr>li_tail := Some temp\<rparr> else l);
     Some (temp, h, l\<lparr>li_count := li_count l + 1\<rparr>)
   }"

definition dl_list_add_head :: "lstate \<Rightarrow> (nat \<times> lstate) option" where
  "dl_list_add_head s = do {
     (temp, h, l) \<leftarrow> get_list_entry s;
     h \<leftarrow> put_next (Some temp) (li_head l) h;
     h \<leftarrow> put_prev (Some temp) None h;
     (h, l) \<leftarrow>
       (if li_count l = 0 then Some (h, l\<lparr>li_tail := Some temp\<rparr>)
        else do { h \<leftarrow> put_prev (li_head l) (Some temp) h; Some (h, l) });
     Some (temp, h, l\<lparr>li_head := Some temp, li_count := li_count l + 1\<rparr>)
   }"

text \<open>
  The entry is fetched before \<^verbatim>\<open>current\<close> is looked at; without a current entry the call that adds at
  the tail fetches another one.
\<close>

definition sl_list_add_after_current :: "lstate \<Rightarrow> (nat \<times> lstate) option" where
  "sl_list_add_after_current s = do {
     (temp, h, l) \<leftarrow> get_list_entry s;
     if li_current l = None then sl_list_add_tail (h, l)
     else do {
       nx \<leftarrow> get_next h (li_current l);
       h \<leftarrow> put_next (Some temp) nx h;
       h \<leftarrow> put_next (li_current l) (Some temp) h;
       let l = (if li_tail l = li_current l then l\<lparr>li_tail := Some temp\<rparr> else l);
       Some (temp, h, l\<lparr>li_count := li_count l + 1\<rparr>)
     }
   }"

definition dl_list_add_after_current :: "lstate \<Rightarrow> (nat \<times> lstate) option" where
  "dl_list_add_after_current s = do {
     (temp, h, l) \<leftarrow> get_list_entry s;
     if li_current l = None then dl_list_add_tail (h, l)
     else do {
       nx \<leftarrow> get_next h (li_current l);
       h \<leftarrow> put_next (Some temp) nx h;
       h \<leftarrow> put_prev (Some temp) (li_current l) h;
       (h, l) \<leftarrow>
         (if li_tail l = li_current l then Some (h, l\<lparr>li_tail := Some temp\<rparr>)
          else do {
            nx \<leftarrow> get_next h (li_current l);
            h \<leftarrow> put_prev nx (Some temp) h;
            Some (h, l)
          });
       h \<leftarrow> put_next (li_current l) (Some temp) h;
       Some (temp, h, l\<lparr>li_count := li_count l + 1\<rparr>)
     }
   }"

section \<open>Removing\<close>

definition sl_list_remove_head :: "lstate \<Rightarrow> (eptr \<times> lstate) option" where
  "sl_list_remove_head = (\<lambda>(h, l).
     (if li_head l \<noteq> None then do {
        let free = li_head l;
        l \<leftarrow>
          (if li_tail l = li_head l then Some (l\<lparr>li_head := None, li_tail := None\<rparr>)
           else do { nx \<leftarrow> get_next h (li_head l); Some (l\<lparr>li_head := nx\<rparr>) });
        s \<leftarrow> free_list_entry free (h, l);
        Some (free, s)
      } else Some (None, h, l)))"

definition dl_list_remove_head :: "lstate \<Rightarrow> (eptr \<times> lstate) option" where
  "dl_list_remove_head = (\<lambda>(h, l).
     (if li_head l \<noteq> None then do {
        let free = li_head l;
        (h, l) \<leftarrow>
          (if li_tail l = li_head l then Some (h, l\<lparr>li_head := None, li_tail := None\<rparr>)
           else do {
             nx \<leftarrow> get_next h (li_head l);
             h \<leftarrow> put_prev nx None h;
             Some (h, l\<lparr>li_head := nx\<rparr>)
           });
        s \<leftarrow> free_list_entry free (h, l);
        Some (free, s)
      } else Some (None, h, l)))"

definition dl_list_remove_tail :: "lstate \<Rightarrow> (eptr \<times> lstate) option" where
  "dl_list_remove_tail = (\<lambda>(h, l).
     (if li_tail l \<noteq> None then do {
        let free = li_tail l;
        (h, l) \<leftarrow>
          (if li_tail l = li_head l then Some (h, l\<lparr>li_head := None, li_tail := None\<rparr>)
           else do {
             pv \<leftarrow> get_prev h (li_tail l);
             h \<leftarrow> put_next pv None h;
             Some (h, l\<lparr>li_tail := pv\<rparr>)
           });
        s \<leftarrow> free_list_entry free (h, l);
        Some (free, s)
      } else Some (None, h, l)))"

definition dl_list_remove_current :: "lstate \<Rightarrow> (eptr \<times> lstate) option" where
  "dl_list_remove_current = (\<lambda>(h, l). do {
     nx \<leftarrow> get_next h (li_current l);
     pv \<leftarrow> get_prev h (li_current l);
     let free = li_current l;
     (h, l) \<leftarrow>
       (if nx \<noteq> None \<and> pv \<noteq> None then do {
          h \<leftarrow> put_prev nx pv h;
          h \<leftarrow> put_next pv nx h;
          Some (h, l\<lparr>li_current := pv\<rparr>)
        } else if nx \<noteq> None then
          if li_head l = li_current l then do {
            h \<leftarrow> put_prev nx None h;
            Some (h, l\<lparr>li_head := nx, li_current := None\<rparr>)
          } else None
        else if pv \<noteq> None then
          if li_tail l = li_current l then do {
            h \<leftarrow> put_next pv None h;
            Some (h, l\<lparr>li_tail := pv, li_current := pv\<rparr>)
          } else None
        else if li_head l = li_current l \<and> li_tail l = li_current l
        then Some (h, l\<lparr>li_head := None, li_tail := None, li_current := None\<rparr>) else None);
     s \<leftarrow> free_list_entry free (h, l);
     Some (free, s)
   })"

section \<open>Access and traversal\<close>

definition list_get_head :: "List_rec \<Rightarrow> eptr" where
  "list_get_head l = li_head l"

definition list_get_tail :: "List_rec \<Rightarrow> eptr" where
  "list_get_tail l = li_tail l"

definition list_get_current :: "List_rec \<Rightarrow> eptr" where
  "list_get_current l = li_current l"

definition list_start_head_traversal :: "List_rec \<Rightarrow> eptr \<times> List_rec" where
  "list_start_head_traversal l = (li_head l, l\<lparr>li_current := li_head l, li_place := 0\<rparr>)"

definition list_start_tail_traversal :: "List_rec \<Rightarrow> eptr \<times> List_rec" where
  "list_start_tail_traversal l = (li_tail l, l\<lparr>li_current := li_tail l, li_place := li_count l - 1\<rparr>)"

definition list_next_element :: "lstate \<Rightarrow> (eptr \<times> lstate) option" where
  "list_next_element = (\<lambda>(h, l). do {
     c \<leftarrow> (if li_current l \<noteq> None then get_next h (li_current l) else Some (li_head l));
     Some (c, h, l\<lparr>li_current := c, li_place := li_place l + 1\<rparr>)
   })"

definition list_prev_element :: "lstate \<Rightarrow> (eptr \<times> lstate) option" where
  "list_prev_element = (\<lambda>(h, l). do {
     c \<leftarrow> (if li_current l \<noteq> None then get_prev h (li_current l) else Some (li_tail l));
     Some (c, h, l\<lparr>li_current := c, li_place := li_place l - 1\<rparr>)
   })"

definition list_at_head :: "List_rec \<Rightarrow> bool" where
  "list_at_head l \<longleftrightarrow> li_current l = li_head l"

definition list_at_tail :: "List_rec \<Rightarrow> bool" where
  "list_at_tail l \<longleftrightarrow> li_current l = li_tail l"

primrec flatten_from :: "list_heap \<Rightarrow> nat \<Rightarrow> eptr \<Rightarrow> nat list option" where
  "flatten_from h 0 cur = Some []"
| "flatten_from h (Suc n) cur = do {
     nx \<leftarrow> get_next h cur;
     rest \<leftarrow> flatten_from h n nx;
     Some (the cur # rest)
   }"

definition list_flatten :: "lstate \<Rightarrow> nat list option" where
  "list_flatten = (\<lambda>(h, l). flatten_from h (nat (sint (li_count l))) (li_head l))"

definition list_get_count :: "List_rec \<Rightarrow> cint" where
  "list_get_count l = li_count l"

end
