(* ===== verification/List_Inv.thy ===== *)
theory List_Inv
  imports List_Lib
begin

text \<open>
  What the lists of \<^verbatim>\<open>libs/list_lib.c\<close> are in the heap, and that every operation keeps it: \<open>sl_inv\<close> for
  the entries in order with the pool of free ones, \<open>dl_inv\<close> with the backward links as well.
\<close>

section \<open>Segments\<close>

text \<open>Following \<open>f\<close> from \<open>p\<close> one meets the entries \<open>xs\<close>, and then \<open>q\<close>.\<close>

primrec seg :: "(nat \<Rightarrow> eptr) \<Rightarrow> eptr \<Rightarrow> nat list \<Rightarrow> eptr \<Rightarrow> bool" where
  "seg f p [] q \<longleftrightarrow> p = q"
| "seg f p (x # xs) q \<longleftrightarrow> p = Some x \<and> seg f (f x) xs q"

lemma seg_append [simp]: "seg f p (xs @ ys) q \<longleftrightarrow> (\<exists>r. seg f p xs r \<and> seg f r ys q)"
  by (induction xs arbitrary: p) auto

lemma seg_upd [simp]: "x \<notin> set xs \<Longrightarrow> seg (f(x := v)) p xs q \<longleftrightarrow> seg f p xs q"
  by (induction xs arbitrary: p) auto

lemma seg_cong: "(\<And>x. x \<in> set xs \<Longrightarrow> f x = g x) \<Longrightarrow> seg f p xs q \<longleftrightarrow> seg g p xs q"
  by (induction xs arbitrary: p) auto

lemma seg_hd: "seg f p xs q \<Longrightarrow> p = (if xs = [] then q else Some (hd xs))"
  by (cases xs) auto

lemma seg_last: "seg f p xs q \<Longrightarrow> xs \<noteq> [] \<Longrightarrow> f (last xs) = q"
  by (induction xs arbitrary: p) (auto split: if_splits)

lemma seg_extend: "seg f p xs q \<Longrightarrow> xs \<noteq> [] \<Longrightarrow> distinct xs \<Longrightarrow> seg (f(last xs := r)) p xs r"
  by (induction xs arbitrary: p) (auto split: if_splits)

lemma seg_unique: "seg f p xs None \<Longrightarrow> seg f p ys None \<Longrightarrow> xs = ys"
proof (induction xs arbitrary: p ys)
  case Nil
  then show ?case by (cases ys) auto
next
  case (Cons x xs)
  then show ?case by (cases ys) auto
qed

lemma seg_split: "seg f p (us @ c # vs) q \<Longrightarrow> seg f p us (Some c) \<and> f c = (if vs = [] then q else Some (hd vs)) \<and> seg f (f c) vs q"
  using seg_hd [of f "f c" vs q] by auto

section \<open>The invariants\<close>

text \<open>\<open>k\<close> entries of the list's account are in the hands of the operation.\<close>

definition pool_inv :: "nat \<Rightarrow> list_heap \<Rightarrow> List_rec \<Rightarrow> nat list \<Rightarrow> nat list \<Rightarrow> bool" where
  "pool_inv k h l xs fs \<longleftrightarrow> distinct (xs @ fs) \<and> (\<forall>a \<in> set (xs @ fs). le_live h a \<and> a < le_top h) \<and>
     (\<forall>a. le_live h a \<longrightarrow> a < le_top h) \<and>
     seg (le_next h) (li_free l) fs None \<and> li_free_count l = of_nat (length fs) \<and>
     (if li_use_free_list l then li_total_count l = of_nat (length xs + length fs + k) else fs = [])"

definition sl_inv :: "list_heap \<Rightarrow> List_rec \<Rightarrow> nat list \<Rightarrow> nat list \<Rightarrow> bool" where
  "sl_inv h l xs fs \<longleftrightarrow> pool_inv 0 h l xs fs \<and> seg (le_next h) (li_head l) xs None \<and>
     li_tail l = (if xs = [] then None else Some (last xs)) \<and>
     li_count l = of_nat (length xs) \<and> length xs < 2 ^ 31"

definition dl_inv :: "list_heap \<Rightarrow> List_rec \<Rightarrow> nat list \<Rightarrow> nat list \<Rightarrow> bool" where
  "dl_inv h l xs fs \<longleftrightarrow> sl_inv h l xs fs \<and> seg (le_prev h) (li_tail l) (rev xs) None"

lemmas inv_defs = dl_inv_def sl_inv_def pool_inv_def
lemmas deref_defs = deref_def get_next_def get_prev_def put_next_def put_prev_def free_mem_def

lemma count_0 [simp]: "length xs < 2 ^ 31 \<Longrightarrow> (of_nat (length xs) :: cint) = 0 \<longleftrightarrow> xs = []"
  by (auto simp: word_of_nat_eq_0_iff dest!: dvd_imp_le)

lemma init_list_inv: "(\<forall>a. le_live h a \<longrightarrow> a < le_top h) \<Longrightarrow> dl_inv h (init_list nm sz fl l) [] []"
  by (simp add: inv_defs init_list_def)

section \<open>Getting and freeing an entry\<close>

lemma link_block_seg: "seg (link_block temp n f) (Some temp) [temp..<Suc (temp + n)] None"
proof (induction n arbitrary: temp f)
  case (Suc n)
  have keep: "link_block t m g x = g x" if "x < t" for t m g x
    using that by (induction m arbitrary: t g) auto
  have "[temp..<Suc (temp + Suc n)] = temp # [Suc temp..<Suc (Suc temp + n)]" by (simp add: upt_conv_Cons del: upt_Suc)
  moreover have "link_block (Suc temp) n (f(temp := Some (Suc temp))) temp = Some (Suc temp)" by (simp add: keep)
  ultimately show ?case using Suc.IH [of "Suc temp" "f(temp := Some (Suc temp))"]
    by (simp only: link_block.simps seg.simps simp_thms)
qed simp

lemma link_block_other: "x < temp \<or> temp + n < x \<Longrightarrow> link_block temp n f x = f x"
  by (induction n arbitrary: temp f) auto

lemma get_list_entry_ok:
  assumes inv: "pool_inv 0 h l xs fs"
  obtains a h' l' fs' where "get_list_entry (h, l) = Some (a, h', l')" "pool_inv 1 h' l' xs fs'"
    "a \<notin> set (xs @ fs')" "le_live h' a" "a < le_top h'" "\<forall>x \<in> set xs. le_next h' x = le_next h x" "le_prev h' = le_prev h"
    "li_head l' = li_head l" "li_tail l' = li_tail l" "li_count l' = li_count l" "li_current l' = li_current l"
    "li_place l' = li_place l" "li_use_free_list l' = li_use_free_list l"
    "length fs' + 1 \<le> length fs + (if fs = [] then 8 else 0)"
proof (cases "li_use_free_list l")
  case True
  show thesis
  proof (cases fs)
    case Nil
    let ?a = "le_top h"
    let ?h = "(snd (malloc_entries 8 h))\<lparr>le_next := link_block (Suc ?a) 6 (le_next h)\<rparr>"
    let ?l = "l\<lparr>li_free := Some (Suc ?a), li_total_count := li_total_count l + 8, li_free_count := li_free_count l + 8 - 1\<rparr>"
    have get: "get_list_entry (h, l) = Some (?a, ?h, ?l)"
      using inv True Nil by (simp add: get_list_entry_def inv_defs malloc_entries_def FREE_LIST_ALLOC_SIZE_def)
    have live: "\<And>a. le_live h a \<Longrightarrow> a < ?a" "\<And>a. a \<in> set xs \<Longrightarrow> le_live h a \<and> a < ?a" using inv by (auto simp: inv_defs)
    have pool: "pool_inv 1 ?h ?l xs [Suc ?a..<?a + 8]"
      using inv True Nil live link_block_seg [of "Suc ?a" 6 "le_next h"]
      by (auto simp: inv_defs malloc_entries_def eval_nat_numeral less_Suc_eq simp del: upt_Suc dest: live)
    show thesis by (rule that [OF get pool]) (use live in \<open>auto simp: malloc_entries_def Nil intro!: link_block_other less_SucI\<close>)
  next
    case (Cons a fs')
    let ?l = "l\<lparr>li_free := le_next h a, li_free_count := li_free_count l - 1\<rparr>"
    have get: "get_list_entry (h, l) = Some (a, h, ?l)" using inv True Cons by (simp add: get_list_entry_def inv_defs deref_defs)
    have pool: "pool_inv 1 h ?l xs fs'" using inv True Cons by (auto simp: inv_defs)
    show thesis by (rule that [OF get pool]) (use inv Cons in \<open>auto simp: inv_defs\<close>)
  qed
next
  case False
  let ?a = "le_top h"
  let ?l = "l\<lparr>li_total_count := li_total_count l + 1\<rparr>"
  have get: "get_list_entry (h, l) = Some (?a, snd (malloc_entries 1 h), ?l)"
    using False by (simp add: get_list_entry_def malloc_entries_def)
  have fs: "fs = []" using inv False by (simp add: inv_defs)
  have pool: "pool_inv 1 (snd (malloc_entries 1 h)) ?l xs []"
    using inv False by (auto simp: inv_defs malloc_entries_def less_Suc_eq)
  show thesis by (rule that [OF get pool]) (use inv fs in \<open>auto simp: inv_defs malloc_entries_def\<close>)
qed

text \<open>Only the set of entries in use matters to the pool, and what the fields of the free ones hold.\<close>

lemma pool_cong:
  assumes "pool_inv k h l xs fs" "set ys = set xs" "length ys = length xs" "le_live h' = le_live h" "le_top h' = le_top h"
    and "\<And>x. x \<in> set fs \<Longrightarrow> le_next h' x = le_next h x"
    and "li_free l' = li_free l" "li_free_count l' = li_free_count l" "li_total_count l' = li_total_count l"
      "li_use_free_list l' = li_use_free_list l"
  shows "pool_inv k h' l' ys fs"
proof -
  have "distinct ys" using assms(1-3) by (metis pool_inv_def card_distinct distinct_append distinct_card)
  moreover have "seg (le_next h') (li_free l) fs None" using assms(1,6) seg_cong [of fs "le_next h'" "le_next h"]
    by (auto simp: pool_inv_def)
  ultimately show ?thesis using assms by (auto simp: pool_inv_def)
qed

lemma pool_add:
  assumes "pool_inv 1 h l xs fs" "a \<notin> set (xs @ fs)" "le_live h a" "a < le_top h"
  shows "pool_inv 0 h l (a # xs) fs"
  using assms by (auto simp: pool_inv_def)

lemma pool_member: "pool_inv k h l xs fs \<Longrightarrow> x \<in> set xs \<Longrightarrow> le_live h x \<and> x < le_top h \<and> x \<notin> set fs"
  by (auto simp: pool_inv_def)

lemma pool_distinct: "pool_inv k h l xs fs \<Longrightarrow> distinct xs"
  by (simp add: pool_inv_def)

lemma free_list_entry_ok:
  assumes inv: "pool_inv 0 h l (a # ys) fs"
  obtains h' l' fs' where "free_list_entry (Some a) (h, l) = Some (h', l')" "pool_inv 0 h' l' ys fs'"
    "\<forall>x. x \<noteq> a \<longrightarrow> le_next h' x = le_next h x" "le_prev h' = le_prev h" "le_top h' = le_top h"
    "li_head l' = li_head l" "li_tail l' = li_tail l" "li_count l' = li_count l - 1" "li_current l' = li_current l"
    "li_place l' = li_place l" "li_use_free_list l' = li_use_free_list l"
    "fs' = (if li_use_free_list l then a # fs else fs)"
    "le_live h' a \<longleftrightarrow> li_use_free_list l"
proof (cases "li_use_free_list l")
  case True
  let ?h = "h\<lparr>le_next := (le_next h)(a := li_free l)\<rparr>"
  let ?l = "l\<lparr>li_free := Some a, li_free_count := li_free_count l + 1, li_count := li_count l - 1\<rparr>"
  have "free_list_entry (Some a) (h, l) = Some (?h, ?l)" using True inv by (simp add: free_list_entry_def deref_defs pool_inv_def)
  moreover have "pool_inv 0 ?h ?l ys (a # fs)" using True inv by (auto simp: pool_inv_def)
  ultimately show thesis by (rule that) (use True inv in \<open>auto simp: pool_inv_def\<close>)
next
  case False
  let ?h = "h\<lparr>le_live := (le_live h)(a := False)\<rparr>"
  let ?l = "l\<lparr>li_total_count := li_total_count l - 1, li_count := li_count l - 1\<rparr>"
  have "free_list_entry (Some a) (h, l) = Some (?h, ?l)" using False inv by (simp add: free_list_entry_def deref_defs pool_inv_def)
  moreover have "pool_inv 0 ?h ?l ys fs" using False inv by (auto simp: pool_inv_def)
  ultimately show thesis by (rule that) (use False inv in \<open>auto simp: pool_inv_def\<close>)
qed

section \<open>Adding\<close>

text \<open>What is left of the room for entries after one was taken.\<close>

definition room :: "nat \<Rightarrow> nat list \<Rightarrow> nat list \<Rightarrow> bool" where
  "room n xs fs \<longleftrightarrow> length xs + length fs + 8 * n < 2 ^ 31"

text \<open>What an addition starts from: a fresh entry, and the list as it was.\<close>

lemma fresh_entry:
  assumes inv: "sl_inv h l xs fs" and room: "room (Suc n) xs fs"
  obtains a h1 l1 fs' where "get_list_entry (h, l) = Some (a, h1, l1)" "pool_inv 0 h1 l1 (a # xs) fs'" "a \<notin> set xs"
    "seg (le_next h1) (li_head l1) xs None" "le_prev h1 = le_prev h"
    "li_tail l1 = (if xs = [] then None else Some (last xs))" "li_count l1 = of_nat (length xs)"
    "li_current l1 = li_current l" "li_place l1 = li_place l" "li_use_free_list l1 = li_use_free_list l" "li_tail l1 = li_tail l"
    "length xs + 1 < 2 ^ 31" "length (a # xs) + length fs' + 8 * n < 2 ^ 31"
proof -
  have pool: "pool_inv 0 h l xs fs" using inv by (simp add: sl_inv_def)
  obtain a h1 l1 fs' where g: "get_list_entry (h, l) = Some (a, h1, l1)" and p: "pool_inv 1 h1 l1 xs fs'"
    and a: "a \<notin> set (xs @ fs')" "le_live h1 a" "a < le_top h1" and nx: "\<forall>x \<in> set xs. le_next h1 x = le_next h x"
    and pv: "le_prev h1 = le_prev h"
    and l1: "li_head l1 = li_head l" "li_tail l1 = li_tail l" "li_count l1 = li_count l" "li_current l1 = li_current l"
      "li_place l1 = li_place l" "li_use_free_list l1 = li_use_free_list l"
    and len: "length fs' + 1 \<le> length fs + (if fs = [] then 8 else 0)"
    by (rule get_list_entry_ok [OF pool])
  have "seg (le_next h1) (li_head l1) xs None" using inv nx seg_cong [of xs "le_next h1" "le_next h"] l1 by (simp add: sl_inv_def)
  then show thesis
    by (intro that [OF g pool_add [OF p a]])
      (use a pv l1 inv room len in \<open>auto simp: sl_inv_def room_def split: if_splits\<close>)
qed

lemma sl_add_tail_step:
  assumes "get_list_entry s = Some (a, h, l)" "le_live h a"
  shows "li_count l = 0 \<Longrightarrow> sl_list_add_tail s =
      Some (a, h\<lparr>le_next := (le_next h)(a := None)\<rparr>, l\<lparr>li_head := Some a, li_tail := Some a, li_count := 1\<rparr>)"
    and "li_count l \<noteq> 0 \<Longrightarrow> li_tail l = Some b \<Longrightarrow> le_live h b \<Longrightarrow> sl_list_add_tail s =
      Some (a, h\<lparr>le_next := (le_next h)(a := None, b := Some a)\<rparr>, l\<lparr>li_tail := Some a, li_count := li_count l + 1\<rparr>)"
  using assms by (simp_all add: sl_list_add_tail_def deref_defs)

lemma sl_add_tail_ok:
  assumes inv: "sl_inv h l xs fs" and room: "room (Suc n) xs fs"
  obtains a h' l' fs' where "sl_list_add_tail (h, l) = Some (a, h', l')" "sl_inv h' l' (xs @ [a]) fs'" "a \<notin> set xs"
    "room n (xs @ [a]) fs'" "li_current l' = li_current l" "li_use_free_list l' = li_use_free_list l"
proof -
  obtain a h1 l1 fs' where g: "get_list_entry (h, l) = Some (a, h1, l1)" and p: "pool_inv 0 h1 l1 (a # xs) fs'" and a: "a \<notin> set xs"
    and s: "seg (le_next h1) (li_head l1) xs None" and tl: "li_tail l1 = (if xs = [] then None else Some (last xs))"
    and c: "li_count l1 = of_nat (length xs)" and l1: "li_current l1 = li_current l" "li_use_free_list l1 = li_use_free_list l"
    and len: "length xs + 1 < 2 ^ 31" "length (a # xs) + length fs' + 8 * n < 2 ^ 31"
    by (rule fresh_entry [OF inv room])
  have live: "le_live h1 a" "xs \<noteq> [] \<Longrightarrow> le_live h1 (last xs)" "distinct xs" "a \<notin> set fs'" "xs \<noteq> [] \<Longrightarrow> last xs \<notin> set fs'"
    using pool_member [OF p] pool_distinct [OF p] by auto
  show thesis
  proof (cases "xs = []")
    case True
    let ?h = "h1\<lparr>le_next := (le_next h1)(a := None)\<rparr>" and ?l = "l1\<lparr>li_head := Some a, li_tail := Some a, li_count := 1\<rparr>"
    have add: "sl_list_add_tail (h, l) = Some (a, ?h, ?l)" by (rule sl_add_tail_step(1) [OF g live(1)]) (simp add: c True)
    have "pool_inv 0 ?h ?l [a] fs'" by (rule pool_cong [OF p]) (use True live(4) in auto)
    then have "sl_inv ?h ?l (xs @ [a]) fs'" by (simp add: sl_inv_def True)
    then show thesis by (rule that [OF add]) (use a l1 len True in \<open>auto simp: room_def\<close>)
  next
    case False
    let ?h = "h1\<lparr>le_next := (le_next h1)(a := None, last xs := Some a)\<rparr>"
    let ?l = "l1\<lparr>li_tail := Some a, li_count := li_count l1 + 1\<rparr>"
    have add: "sl_list_add_tail (h, l) = Some (a, ?h, ?l)"
      by (rule sl_add_tail_step(2) [OF g live(1)]) (use c len False tl live(2) in auto)
    have "pool_inv 0 ?h ?l (xs @ [a]) fs'" by (rule pool_cong [OF p]) (use False live(4,5) in auto)
    moreover have "seg (le_next ?h) (li_head ?l) (xs @ [a]) None"
      using a s False live(3) seg_extend [of "(le_next h1)(a := None)" "li_head l1" xs None "Some a"] by auto
    ultimately have "sl_inv ?h ?l (xs @ [a]) fs'" using c len by (simp add: sl_inv_def)
    then show thesis by (rule that [OF add]) (use a l1 len in \<open>auto simp: room_def\<close>)
  qed
qed


lemma sl_inv_prev [simp]: "sl_inv (h\<lparr>le_prev := p\<rparr>) l xs fs = sl_inv h l xs fs"
  by (simp add: sl_inv_def pool_inv_def)

lemma get_list_entry_frame:
  "get_list_entry (h, l) = Some (a, h1, l1) \<Longrightarrow> le_prev h1 = le_prev h \<and> li_head l1 = li_head l \<and> li_tail l1 = li_tail l \<and>
     li_count l1 = li_count l \<and> li_current l1 = li_current l \<and> li_place l1 = li_place l"
  by (auto simp: get_list_entry_def malloc_entries_def Let_def split: if_splits option.splits bind_splits)

text \<open>The doubly linked additions do what the singly linked ones do, and set the backward links.\<close>

lemma dl_add_tail_sl:
  assumes "sl_list_add_tail (h, l) = Some (a, h', l')"
  shows "dl_list_add_tail (h, l) =
    Some (a, h'\<lparr>le_prev := (le_prev h)(a := if li_count l = 0 then None else li_tail l)\<rparr>, l')"
proof -
  obtain h1 l1 where g: "get_list_entry (h, l) = Some (a, h1, l1)" and a: "le_live h1 a"
    using assms by (auto simp: sl_list_add_tail_def deref_defs split: bind_splits if_splits option.splits)
  note fr = get_list_entry_frame [OF g]
  show ?thesis
  proof (cases "li_count l1 = 0")
    case True
    from sl_add_tail_step(1) [OF g a True] assms show ?thesis
      using True g a fr by (auto simp: dl_list_add_tail_def deref_defs)
  next
    case False
    then obtain b where b: "li_tail l1 = Some b" "le_live h1 b"
      using assms g a by (auto simp: sl_list_add_tail_def deref_defs split: bind_splits if_splits option.splits)
    from sl_add_tail_step(2) [OF g a False b] assms show ?thesis
      using False g a b fr by (auto simp: dl_list_add_tail_def deref_defs)
  qed
qed

lemma dl_add_tail_ok:
  assumes inv: "dl_inv h l xs fs" and room: "room (Suc n) xs fs"
  obtains a h' l' fs' where "dl_list_add_tail (h, l) = Some (a, h', l')" "dl_inv h' l' (xs @ [a]) fs'" "a \<notin> set xs"
    "room n (xs @ [a]) fs'" "li_current l' = li_current l" "li_use_free_list l' = li_use_free_list l"
proof -
  have sl: "sl_inv h l xs fs" using inv by (simp add: dl_inv_def)
  obtain a h' l' fs' where add: "sl_list_add_tail (h, l) = Some (a, h', l')" and inv': "sl_inv h' l' (xs @ [a]) fs'"
    and a: "a \<notin> set xs" and r: "room n (xs @ [a]) fs'" "li_current l' = li_current l" "li_use_free_list l' = li_use_free_list l"
    by (rule sl_add_tail_ok [OF sl room])
  have "(li_count l = 0) = (xs = [])" using sl by (simp add: sl_inv_def)
  moreover have "li_tail l' = Some a" "xs = [] \<Longrightarrow> li_tail l = None" using inv' sl by (simp_all add: sl_inv_def)
  ultimately have "dl_inv (h'\<lparr>le_prev := (le_prev h)(a := if li_count l = 0 then None else li_tail l)\<rparr>) l' (xs @ [a]) fs'"
    using inv inv' a by (auto simp: dl_inv_def)
  then show thesis by (rule that [OF dl_add_tail_sl [OF add] _ a r])
qed

lemma sl_add_head_step:
  "get_list_entry s = Some (a, h, l) \<Longrightarrow> le_live h a \<Longrightarrow> sl_list_add_head s =
     Some (a, h\<lparr>le_next := (le_next h)(a := li_head l)\<rparr>,
       l\<lparr>li_head := Some a, li_tail := (if li_count l = 0 then Some a else li_tail l), li_count := li_count l + 1\<rparr>)"
  by (simp add: sl_list_add_head_def deref_defs Let_def)

lemma sl_add_head_ok:
  assumes inv: "sl_inv h l xs fs" and room: "room (Suc n) xs fs"
  obtains a h' l' fs' where "sl_list_add_head (h, l) = Some (a, h', l')" "sl_inv h' l' (a # xs) fs'" "a \<notin> set xs"
    "room n (a # xs) fs'" "li_current l' = li_current l" "li_use_free_list l' = li_use_free_list l" "le_prev h' = le_prev h"
proof -
  obtain a h1 l1 fs' where g: "get_list_entry (h, l) = Some (a, h1, l1)" and p: "pool_inv 0 h1 l1 (a # xs) fs'" and a: "a \<notin> set xs"
    and s: "seg (le_next h1) (li_head l1) xs None" and pv: "le_prev h1 = le_prev h"
    and tl: "li_tail l1 = (if xs = [] then None else Some (last xs))"
    and c: "li_count l1 = of_nat (length xs)" and l1: "li_current l1 = li_current l" "li_use_free_list l1 = li_use_free_list l"
    and len: "length xs + 1 < 2 ^ 31" "length (a # xs) + length fs' + 8 * n < 2 ^ 31"
    by (rule fresh_entry [OF inv room])
  have live: "le_live h1 a" "a \<notin> set fs'" using pool_member [OF p] by auto
  let ?h = "h1\<lparr>le_next := (le_next h1)(a := li_head l1)\<rparr>"
  let ?l = "l1\<lparr>li_head := Some a, li_tail := (if li_count l1 = 0 then Some a else li_tail l1), li_count := li_count l1 + 1\<rparr>"
  have "pool_inv 0 ?h ?l (a # xs) fs'" by (rule pool_cong [OF p]) (use live in auto)
  then have "sl_inv ?h ?l (a # xs) fs'" using s a tl c len by (simp add: sl_inv_def)
  then show thesis by (rule that [OF sl_add_head_step [OF g live(1)]]) (use a l1 len pv in \<open>auto simp: room_def\<close>)
qed

lemma dl_add_head_sl:
  assumes "sl_list_add_head (h, l) = Some (a, h', l')" and "li_count l = 0 \<or> (\<exists>b. li_head l = Some b \<and> le_live h' b)"
  shows "dl_list_add_head (h, l) = Some (a, h'\<lparr>le_prev :=
    (if li_count l = 0 then (le_prev h)(a := None) else (le_prev h)(a := None, the (li_head l) := Some a))\<rparr>, l')"
proof -
  obtain h1 l1 where g: "get_list_entry (h, l) = Some (a, h1, l1)" and a: "le_live h1 a"
    using assms(1) by (auto simp: sl_list_add_head_def deref_defs Let_def split: bind_splits if_splits option.splits)
  note fr = get_list_entry_frame [OF g]
  have "h' = h1\<lparr>le_next := (le_next h1)(a := li_head l1)\<rparr>" using sl_add_head_step [OF g a] assms(1) by simp
  then show ?thesis using sl_add_head_step [OF g a] assms g a fr by (auto simp: dl_list_add_head_def deref_defs)
qed

lemma dl_add_head_ok:
  assumes inv: "dl_inv h l xs fs" and room: "room (Suc n) xs fs"
  obtains a h' l' fs' where "dl_list_add_head (h, l) = Some (a, h', l')" "dl_inv h' l' (a # xs) fs'" "a \<notin> set xs"
    "room n (a # xs) fs'" "li_current l' = li_current l" "li_use_free_list l' = li_use_free_list l"
proof -
  have sl: "sl_inv h l xs fs" using inv by (simp add: dl_inv_def)
  obtain a h' l' fs' where add: "sl_list_add_head (h, l) = Some (a, h', l')" and inv': "sl_inv h' l' (a # xs) fs'"
    and a: "a \<notin> set xs" and r: "room n (a # xs) fs'" "li_current l' = li_current l" "li_use_free_list l' = li_use_free_list l"
    and pv: "le_prev h' = le_prev h"
    by (rule sl_add_head_ok [OF sl room])
  have c: "(li_count l = 0) = (xs = [])" and hd: "li_head l = (if xs = [] then None else Some (hd xs))"
    using sl seg_hd [of "le_next h" "li_head l" xs None] by (auto simp: sl_inv_def)
  have tl: "li_tail l' = (if xs = [] then Some a else li_tail l)" using inv' sl by (simp add: sl_inv_def)
  have p: "pool_inv 0 h' l' (a # xs) fs'" using inv' by (simp add: sl_inv_def)
  have "xs \<noteq> [] \<Longrightarrow> le_live h' (hd xs)" using pool_member [OF p, of "hd xs"] by auto
  then have live: "li_count l = 0 \<or> (\<exists>b. li_head l = Some b \<and> le_live h' b)" using c hd by auto
  have "xs \<noteq> [] \<Longrightarrow> seg ((le_prev h)(a := None, hd xs := Some a)) (li_tail l) (rev xs) (Some a)"
    using inv a pool_distinct [OF p] seg_extend [of "(le_prev h)(a := None)" "li_tail l" "rev xs" None "Some a"]
    by (simp add: dl_inv_def last_rev)
  moreover have "xs \<noteq> [] \<Longrightarrow> hd xs \<noteq> a" using a by auto
  ultimately have "dl_inv (h'\<lparr>le_prev := (if li_count l = 0 then (le_prev h)(a := None)
      else (le_prev h)(a := None, the (li_head l) := Some a))\<rparr>) l' (a # xs) fs'"
    using inv' c hd tl by (auto simp: dl_inv_def)
  then show thesis by (rule that [OF dl_add_head_sl [OF add live] _ a r])
qed


section \<open>Removing\<close>

text \<open>The new links when \<open>c\<close> is taken out between \<open>us\<close> and \<open>vs\<close>, in one direction.\<close>

lemma seg_unlink:
  assumes "seg f p (us @ c # vs) None" "distinct (us @ c # vs)"
  shows "seg (if us = [] then f else f(last us := f c)) (if us = [] then f c else p) (us @ vs) None"
proof (cases "us = []")
  case False
  have u: "seg f p us (Some c)" and v: "seg f (f c) vs None" using assms(1) by auto
  have "last us \<notin> set vs" 
    by (metis False assms(2) disjoint_iff distinct_append last_in_set list.set_intros(2))
  with seg_extend [OF u False, of "f c"] v False assms(2) show ?thesis by auto
qed (use assms in simp)

lemma free_list_entry_defined: "free_list_entry p s = Some s' \<Longrightarrow> p \<noteq> None"
  by (cases s) (auto simp: free_list_entry_def deref_defs split: if_splits option.splits)

text \<open>
  What remains of a list after its entry \<open>c\<close>, already unlinked in \<open>h1\<close> and \<open>l1\<close>, is given to the pool.
\<close>

lemma unlinked_ok:
  assumes pool: "pool_inv 0 h l (us @ c # vs) fs" and len: "length (us @ c # vs) < 2 ^ 31"
    and h1: "le_live h1 = le_live h" "le_top h1 = le_top h" "\<And>x. x \<in> set fs \<Longrightarrow> le_next h1 x = le_next h x"
    and l1: "li_free l1 = li_free l" "li_free_count l1 = li_free_count l" "li_total_count l1 = li_total_count l"
      "li_use_free_list l1 = li_use_free_list l" "li_count l1 = of_nat (length (us @ c # vs))"
    and s: "seg (le_next h1) (li_head l1) (us @ vs) None" "li_tail l1 = (if us @ vs = [] then None else Some (last (us @ vs)))"
  obtains h' l' fs' where "free_list_entry (Some c) (h1, l1) = Some (h', l')" "sl_inv h' l' (us @ vs) fs'"
    "le_prev h' = le_prev h1" "li_head l' = li_head l1" "li_tail l' = li_tail l1" "li_current l' = li_current l1"
    "li_place l' = li_place l1" "li_use_free_list l' = li_use_free_list l"
    "length fs' \<le> Suc (length fs)" "le_live h' c \<longleftrightarrow> li_use_free_list l"
proof -
  have p: "pool_inv 0 h1 l1 (c # us @ vs) fs" by (rule pool_cong [OF pool]) (use h1 l1 in auto)
  have c: "c \<notin> set (us @ vs)" using pool_distinct [OF pool] by auto
  obtain h' l' fs' where fr: "free_list_entry (Some c) (h1, l1) = Some (h', l')" and p': "pool_inv 0 h' l' (us @ vs) fs'"
    and nx: "\<forall>x. x \<noteq> c \<longrightarrow> le_next h' x = le_next h1 x" and r: "le_prev h' = le_prev h1" "le_top h' = le_top h1" "li_head l' = li_head l1"
      "li_tail l' = li_tail l1" "li_count l' = li_count l1 - 1" "li_current l' = li_current l1" "li_place l' = li_place l1"
      "li_use_free_list l' = li_use_free_list l1" "fs' = (if li_use_free_list l1 then c # fs else fs)"
      "le_live h' c \<longleftrightarrow> li_use_free_list l1"
    by (rule free_list_entry_ok [OF p])
  have "seg (le_next h') (li_head l') (us @ vs) None" using s(1) c nx r(3) seg_cong [of "us @ vs" "le_next h'" "le_next h1"] by force
  then have "sl_inv h' l' (us @ vs) fs'" using p' s(2) r len l1 by (simp add: sl_inv_def)
  then show thesis by (rule that [OF fr]) (use r l1 in auto)
qed

lemma sl_remove_head_ok:
  assumes inv: "sl_inv h l (x # xs) fs"
  obtains h' l' fs' where "sl_list_remove_head (h, l) = Some (Some x, h', l')" "sl_inv h' l' xs fs'"
    "li_current l' = li_current l" "li_use_free_list l' = li_use_free_list l" "length fs' \<le> Suc (length fs)"
    "le_live h' x \<longleftrightarrow> li_use_free_list l" "le_prev h' = le_prev h" "li_tail l' = (if xs = [] then None else li_tail l)"
proof -
  have p: "pool_inv 0 h l ([] @ x # xs) fs" and hd: "li_head l = Some x" "seg (le_next h) (le_next h x) xs None"
    and tl: "li_tail l = Some (last (x # xs))" and len: "length ([] @ x # xs) < 2 ^ 31" "li_count l = of_nat (length ([] @ x # xs))"
    using inv by (auto simp: sl_inv_def)
  have live: "le_live h x" using pool_member [OF p, of x] by simp
  have ne: "xs \<noteq> [] \<Longrightarrow> last xs \<noteq> x" using pool_distinct [OF p] by auto
  define l1 where "l1 = (if xs = [] then l\<lparr>li_head := None, li_tail := None\<rparr> else l\<lparr>li_head := le_next h x\<rparr>)"
  have s1: "seg (le_next h) (li_head l1) ([] @ xs) None" "li_tail l1 = (if [] @ xs = [] then None else Some (last ([] @ xs)))"
    using hd tl by (auto simp: l1_def)
  have l1: "li_free l1 = li_free l" "li_free_count l1 = li_free_count l" "li_total_count l1 = li_total_count l"
    "li_use_free_list l1 = li_use_free_list l" "li_count l1 = of_nat (length ([] @ x # xs))" "li_current l1 = li_current l"
    "li_tail l1 = (if xs = [] then None else li_tail l)" using len(2) by (simp_all add: l1_def)
  obtain h' l' fs' where f: "free_list_entry (Some x) (h, l1) = Some (h', l')" "sl_inv h' l' ([] @ xs) fs'"
    "le_prev h' = le_prev h" "li_head l' = li_head l1" "li_tail l' = li_tail l1" "li_current l' = li_current l1"
    "li_place l' = li_place l1" "li_use_free_list l' = li_use_free_list l" "length fs' \<le> Suc (length fs)" "le_live h' x \<longleftrightarrow> li_use_free_list l"
    by (rule unlinked_ok [OF p len(1) refl refl refl l1(1-5) s1])
  have "sl_list_remove_head (h, l) = Some (Some x, h', l')"
    using f(1) hd tl live ne by (auto simp: sl_list_remove_head_def deref_defs l1_def)
  then show thesis by (rule that) (use f l1 in auto)
qed

lemma sl_remove_head_empty: "sl_inv h l [] fs \<Longrightarrow> sl_list_remove_head (h, l) = Some (None, h, l)"
  by (simp add: sl_inv_def sl_list_remove_head_def)


text \<open>Both directions of a doubly linked list around the entry \<open>c\<close>.\<close>

lemma dl_around:
  assumes inv: "dl_inv h l (us @ c # vs) fs"
  shows "le_live h c" "le_next h c = (if vs = [] then None else Some (hd vs))"
    "le_prev h c = (if us = [] then None else Some (last us))"
    "us \<noteq> [] \<Longrightarrow> le_live h (last us)" "vs \<noteq> [] \<Longrightarrow> le_live h (hd vs)"
    "us \<noteq> [] \<Longrightarrow> last us \<notin> set fs" "li_head l = Some (if us = [] then c else hd us)"
    "li_tail l = Some (if vs = [] then c else last vs)"
proof -
  have p: "pool_inv 0 h l (us @ c # vs) fs" and f: "seg (le_next h) (li_head l) (us @ c # vs) None"
    using inv by (simp_all only: dl_inv_def sl_inv_def)
  have b: "seg (le_prev h) (li_tail l) (rev vs @ c # rev us) None" using inv by (simp add: dl_inv_def)
  show "le_live h c" "us \<noteq> [] \<Longrightarrow> le_live h (last us)" "vs \<noteq> [] \<Longrightarrow> le_live h (hd vs)" "us \<noteq> [] \<Longrightarrow> last us \<notin> set fs"
    using pool_member [OF p] by auto
  show "le_next h c = (if vs = [] then None else Some (hd vs))" using seg_split [OF f] by simp
  show "le_prev h c = (if us = [] then None else Some (last us))" using seg_split [OF b] by (simp add: hd_rev)
  show "li_head l = Some (if us = [] then c else hd us)" using seg_hd [OF f] by simp
  show "li_tail l = Some (if vs = [] then c else last vs)" using seg_hd [OF b] by (simp add: hd_rev)
qed

definition unlink_fields :: "list_heap \<Rightarrow> List_rec \<Rightarrow> nat list \<Rightarrow> nat \<Rightarrow> nat list \<Rightarrow> list_heap \<times> List_rec" where
  "unlink_fields h l us c vs =
     (let h = (if vs = [] then h else h\<lparr>le_prev := (le_prev h)(hd vs := le_prev h c)\<rparr>);
          h = (if us = [] then h else h\<lparr>le_next := (le_next h)(last us := le_next h c)\<rparr>);
          l = (if us = [] then l\<lparr>li_head := le_next h c\<rparr> else l);
          l = (if vs = [] then l\<lparr>li_tail := le_prev h c\<rparr> else l)
      in (h, l))"

text \<open>Taking \<open>c\<close> out, whichever operation does it; the cursor may be moved as well.\<close>

lemma dl_unlink_ok:
  assumes inv: "dl_inv h l (us @ c # vs) fs" and u: "unlink_fields h l us c vs = (h1, l1)"
  obtains h' l' fs' where "free_list_entry (Some c) (h1, l1\<lparr>li_current := cur\<rparr>) = Some (h', l')" "dl_inv h' l' (us @ vs) fs'"
    "li_current l' = cur" "li_place l' = li_place l" "li_use_free_list l' = li_use_free_list l" "length fs' \<le> Suc (length fs)"
    "le_live h' c \<longleftrightarrow> li_use_free_list l"
proof -
  have p: "pool_inv 0 h l (us @ c # vs) fs" and f: "seg (le_next h) (li_head l) (us @ c # vs) None"
    and len: "length (us @ c # vs) < 2 ^ 31" "li_count l = of_nat (length (us @ c # vs))"
    using inv by (simp_all only: dl_inv_def sl_inv_def)
  have b: "seg (le_prev h) (li_tail l) (rev vs @ c # rev us) None" using inv by (simp add: dl_inv_def)
  note ar = dl_around [OF inv]
  have d: "distinct (us @ c # vs)" "distinct (rev vs @ c # rev us)" using pool_distinct [OF p] by auto
  let ?l1 = "l1\<lparr>li_current := cur\<rparr>"
  have h1: "h1 = fst (unlink_fields h l us c vs)" and l1: "l1 = snd (unlink_fields h l us c vs)" using u by simp_all
  note ud = h1 l1 unlink_fields_def Let_def
  have s1: "seg (le_next h1) (li_head ?l1) (us @ vs) None" using seg_unlink [OF f d(1)]
    by (cases "us = []"; cases "vs = []") (auto simp: ud)
  have tl: "li_tail ?l1 = (if us @ vs = [] then None else Some (last (us @ vs)))" using ar by (simp add: ud)
  have nx: "le_next h1 x = le_next h x" if "x \<in> set fs" for x using ar(6) that by (auto simp: ud)
  have fields: "li_free ?l1 = li_free l" "li_free_count ?l1 = li_free_count l" "li_total_count ?l1 = li_total_count l"
    "li_use_free_list ?l1 = li_use_free_list l" "li_count ?l1 = of_nat (length (us @ c # vs))" "le_live h1 = le_live h" "le_top h1 = le_top h"
    using len(2) by (simp_all add: ud)
  obtain h' l' fs' where r: "free_list_entry (Some c) (h1, ?l1) = Some (h', l')" "sl_inv h' l' (us @ vs) fs'"
    "le_prev h' = le_prev h1" "li_head l' = li_head ?l1" "li_tail l' = li_tail ?l1" "li_current l' = li_current ?l1"
    "li_place l' = li_place ?l1" "li_use_free_list l' = li_use_free_list l" "length fs' \<le> Suc (length fs)" "le_live h' c \<longleftrightarrow> li_use_free_list l"
    by (rule unlinked_ok [OF p len(1) fields(6,7) nx fields(1-5) s1 tl])
  have "seg (le_prev h') (li_tail l') (rev (us @ vs)) None"
    using seg_unlink [OF b d(2)] r(3,5)
    by (cases "us = []"; cases "vs = []") (auto simp: ud last_rev)
  with r(2) have "dl_inv h' l' (us @ vs) fs'" by (simp add: dl_inv_def)
  then show thesis by (rule that [OF r(1)]) (use r in \<open>auto simp: ud\<close>)
qed

lemma dl_remove_head_ok:
  assumes inv: "dl_inv h l (x # xs) fs"
  obtains h' l' fs' where "dl_list_remove_head (h, l) = Some (Some x, h', l')" "dl_inv h' l' xs fs'"
    "li_current l' = li_current l" "li_use_free_list l' = li_use_free_list l" "length fs' \<le> Suc (length fs)"
    "le_live h' x \<longleftrightarrow> li_use_free_list l"
proof -
  have i: "dl_inv h l ([] @ x # xs) fs" using inv by simp
  note ar = dl_around [OF i]
  obtain h1 l1 where u: "unlink_fields h l [] x xs = (h1, l1)" by fastforce
  obtain h' l' fs' where r: "free_list_entry (Some x) (h1, l1\<lparr>li_current := li_current l\<rparr>) = Some (h', l')" "dl_inv h' l' ([] @ xs) fs'"
    "li_current l' = li_current l" "li_place l' = li_place l" "li_use_free_list l' = li_use_free_list l" "length fs' \<le> Suc (length fs)"
    "le_live h' x \<longleftrightarrow> li_use_free_list l"
    by (rule dl_unlink_ok [OF i u])
  have ne: "xs \<noteq> [] \<Longrightarrow> last xs \<noteq> x" using inv by (auto simp: dl_inv_def sl_inv_def pool_inv_def)
  have "l1\<lparr>li_current := li_current l\<rparr> = l1" using u by (auto simp: unlink_fields_def Let_def split: if_splits)
  then have "dl_list_remove_head (h, l) = Some (Some x, h', l')"
    using r(1) u ar ne by (cases "xs = []") (auto simp: dl_list_remove_head_def deref_defs unlink_fields_def Let_def)
  then show thesis by (rule that) (use r in auto)
qed

lemma dl_remove_tail_ok:
  assumes inv: "dl_inv h l (xs @ [x]) fs"
  obtains h' l' fs' where "dl_list_remove_tail (h, l) = Some (Some x, h', l')" "dl_inv h' l' xs fs'"
    "li_current l' = li_current l" "li_use_free_list l' = li_use_free_list l" "length fs' \<le> Suc (length fs)"
    "le_live h' x \<longleftrightarrow> li_use_free_list l"
proof -
  note ar = dl_around [OF inv]
  obtain h1 l1 where u: "unlink_fields h l xs x [] = (h1, l1)" by fastforce
  obtain h' l' fs' where r: "free_list_entry (Some x) (h1, l1\<lparr>li_current := li_current l\<rparr>) = Some (h', l')" "dl_inv h' l' (xs @ []) fs'"
    "li_current l' = li_current l" "li_place l' = li_place l" "li_use_free_list l' = li_use_free_list l" "length fs' \<le> Suc (length fs)"
    "le_live h' x \<longleftrightarrow> li_use_free_list l"
    by (rule dl_unlink_ok [OF inv u])
  have ne: "xs \<noteq> [] \<Longrightarrow> hd xs \<noteq> x" using inv by (auto simp: dl_inv_def sl_inv_def pool_inv_def)
  have "l1\<lparr>li_current := li_current l\<rparr> = l1" using u by (auto simp: unlink_fields_def Let_def split: if_splits)
  then have "dl_list_remove_tail (h, l) = Some (Some x, h', l')"
    using r(1) u ar ne by (cases "xs = []") (auto simp: dl_list_remove_tail_def deref_defs unlink_fields_def Let_def)
  then show thesis by (rule that) (use r in auto)
qed

lemma dl_remove_current_ok:
  assumes inv: "dl_inv h l (us @ c # vs) fs" and cur: "li_current l = Some c"
  obtains h' l' fs' where "dl_list_remove_current (h, l) = Some (Some c, h', l')" "dl_inv h' l' (us @ vs) fs'"
    "li_current l' = (if us = [] then None else Some (last us))" "li_place l' = li_place l"
    "li_use_free_list l' = li_use_free_list l" "length fs' \<le> Suc (length fs)"
proof -
  note ar = dl_around [OF inv]
  let ?cur = "if us = [] then None else Some (last us)"
  obtain h1 l1 where u: "unlink_fields h l us c vs = (h1, l1)" by fastforce
  obtain h' l' fs' where r: "free_list_entry (Some c) (h1, l1\<lparr>li_current := ?cur\<rparr>) = Some (h', l')" "dl_inv h' l' (us @ vs) fs'"
    "li_current l' = ?cur" "li_place l' = li_place l" "li_use_free_list l' = li_use_free_list l" "length fs' \<le> Suc (length fs)"
    "le_live h' c \<longleftrightarrow> li_use_free_list l"
    by (rule dl_unlink_ok [OF inv u])
  have "dl_list_remove_current (h, l) = Some (Some c, h', l')"
    using r(1) u ar cur by (cases "us = []"; cases "vs = []")
      (auto simp: dl_list_remove_current_def deref_defs unlink_fields_def Let_def)
  then show thesis by (rule that) (use r in auto)
qed

lemma dl_remove_empty:
  "dl_inv h l [] fs \<Longrightarrow> dl_list_remove_head (h, l) = Some (None, h, l)"
  "dl_inv h l [] fs \<Longrightarrow> dl_list_remove_tail (h, l) = Some (None, h, l)"
  by (simp_all add: dl_inv_def sl_inv_def dl_list_remove_head_def dl_list_remove_tail_def)


section \<open>Traversal\<close>

lemma inv_cursor [simp]:
  "pool_inv k h (l\<lparr>li_current := c, li_place := p\<rparr>) xs fs = pool_inv k h l xs fs"
  "sl_inv h (l\<lparr>li_current := c, li_place := p\<rparr>) xs fs = sl_inv h l xs fs"
  "dl_inv h (l\<lparr>li_current := c, li_place := p\<rparr>) xs fs = dl_inv h l xs fs"
  by (simp_all add: inv_defs)

text \<open>The element after the part \<open>us\<close> of the list, with the cursor on its last entry, or nowhere when \<open>us\<close> is empty.\<close>

lemma next_element:
  assumes inv: "dl_inv h l (us @ vs) fs" and cur: "li_current l = (if us = [] then None else Some (last us))"
  defines "p \<equiv> (if vs = [] then None else Some (hd vs))"
  shows "list_next_element (h, l) = Some (p, h, l\<lparr>li_current := p, li_place := li_place l + 1\<rparr>)"
proof (cases "us = []")
  case True
  then have "li_head l = p" using inv seg_hd [of "le_next h" "li_head l" vs None] by (simp add: dl_inv_def sl_inv_def p_def)
  with True cur show ?thesis by (simp add: list_next_element_def)
next
  case False
  then have us: "us @ vs = butlast us @ last us # vs" by simp
  note ar = dl_around [OF inv [unfolded us]]
  show ?thesis using False cur ar(1,2) by (simp add: list_next_element_def deref_defs p_def)
qed

text \<open>
  The way the simulator walks over a list and takes entries out of it: from
  \<^verbatim>\<open>list_start_head_traversal\<close> by \<^verbatim>\<open>list_next_element\<close> until it returns the null pointer, calling
  \<^verbatim>\<open>dl_list_remove_current\<close> on the entries that satisfy \<open>P\<close>. The entries seen are collected.
\<close>

partial_function (option) visit :: "(nat \<Rightarrow> bool) \<Rightarrow> eptr \<Rightarrow> lstate \<Rightarrow> (nat list \<times> lstate) option" where
  "visit P p s =
     (case p of
        None \<Rightarrow> Some ([], s)
      | Some a \<Rightarrow> do {
          s \<leftarrow> (if P a then map_option snd (dl_list_remove_current s) else Some s);
          (p, s) \<leftarrow> list_next_element s;
          (as, s) \<leftarrow> visit P p s;
          Some (a # as, s)
        })"

definition traverse_remove :: "(nat \<Rightarrow> bool) \<Rightarrow> lstate \<Rightarrow> (nat list \<times> lstate) option" where
  "traverse_remove P = (\<lambda>(h, l). case list_start_head_traversal l of (p, l) \<Rightarrow> visit P p (h, l))"

lemma visit_None: "visit P None s = Some ([], s)"
  by (simp add: visit.simps)

lemma visit_ok:
  assumes "dl_inv h l (us @ c # vs) fs" "li_current l = Some c"
  shows "\<exists>h' l' fs'. visit P (Some c) (h, l) = Some (c # vs, h', l') \<and>
    dl_inv h' l' (us @ filter (\<lambda>x. \<not> P x) (c # vs)) fs' \<and> li_use_free_list l' = li_use_free_list l"
  using assms
proof (induction vs arbitrary: us c h l fs)
  case Nil
  show ?case
  proof (cases "P c")
    case True
    obtain h1 l1 fs1 where r: "dl_list_remove_current (h, l) = Some (Some c, h1, l1)" "dl_inv h1 l1 (us @ []) fs1"
      "li_current l1 = (if us = [] then None else Some (last us))" "li_place l1 = li_place l"
      "li_use_free_list l1 = li_use_free_list l" "length fs1 \<le> Suc (length fs)"
      by (rule dl_remove_current_ok [OF Nil])
    show ?thesis using True r next_element [OF r(2,3)] by (subst visit.simps) (auto simp: visit_None)
  next
    case False
    have "dl_inv h l ((us @ [c]) @ []) fs" using Nil(1) by simp
    from next_element [OF this] False Nil show ?thesis by (subst visit.simps) (auto simp: visit_None)
  qed
next
  case (Cons v vs)
  show ?case
  proof (cases "P c")
    case True
    obtain h1 l1 fs1 where r: "dl_list_remove_current (h, l) = Some (Some c, h1, l1)" "dl_inv h1 l1 (us @ v # vs) fs1"
      "li_current l1 = (if us = [] then None else Some (last us))" "li_place l1 = li_place l"
      "li_use_free_list l1 = li_use_free_list l" "length fs1 \<le> Suc (length fs)"
      by (rule dl_remove_current_ok [OF Cons.prems])
    let ?l1 = "l1\<lparr>li_current := Some v, li_place := li_place l1 + 1\<rparr>"
    have "dl_inv h1 ?l1 (us @ v # vs) fs1" using r(2) by simp
    from Cons.IH [OF this] obtain h' l' fs' where "visit P (Some v) (h1, ?l1) = Some (v # vs, h', l')"
      "dl_inv h' l' (us @ filter (\<lambda>x. \<not> P x) (v # vs)) fs'" "li_use_free_list l' = li_use_free_list l1" by auto
    with True r next_element [OF r(2,3)] show ?thesis by (subst visit.simps) auto
  next
    case False
    have i: "dl_inv h l ((us @ [c]) @ v # vs) fs" using Cons.prems(1) by simp
    let ?l1 = "l\<lparr>li_current := Some v, li_place := li_place l + 1\<rparr>"
    have "dl_inv h ?l1 ((us @ [c]) @ v # vs) fs" using i by simp
    from Cons.IH [OF this] obtain h' l' fs' where "visit P (Some v) (h, ?l1) = Some (v # vs, h', l')"
      "dl_inv h' l' ((us @ [c]) @ filter (\<lambda>x. \<not> P x) (v # vs)) fs'" "li_use_free_list l' = li_use_free_list l" by auto
    with False next_element [OF i] Cons.prems(2) show ?thesis by (subst visit.simps) auto
  qed
qed

lemma traverse_remove_ok:
  assumes inv: "dl_inv h l xs fs"
  shows "\<exists>h' l' fs'. traverse_remove P (h, l) = Some (xs, h', l') \<and> dl_inv h' l' (filter (\<lambda>x. \<not> P x) xs) fs' \<and>
    li_use_free_list l' = li_use_free_list l"
proof (cases xs)
  case Nil
  then show ?thesis using inv by (auto simp: traverse_remove_def list_start_head_traversal_def visit_None dl_inv_def sl_inv_def pool_inv_def)
next
  case (Cons c vs)
  have hd: "li_head l = Some c" using inv Cons by (simp add: dl_inv_def sl_inv_def)
  have "dl_inv h (l\<lparr>li_current := Some c, li_place := 0\<rparr>) ([] @ c # vs) fs" using inv Cons by simp
  from visit_ok [OF this, of P] hd Cons show ?thesis by (auto simp: traverse_remove_def list_start_head_traversal_def)
qed

section \<open>Flattening and clearing\<close>

lemma flatten_from_seg: "seg (le_next h) p xs None \<Longrightarrow> (\<forall>x \<in> set xs. le_live h x) \<Longrightarrow> flatten_from h (length xs) p = Some xs"
  by (induction xs arbitrary: p) (auto simp: deref_defs)

lemma list_flatten_ok: "sl_inv h l xs fs \<Longrightarrow> list_flatten (h, l) = Some xs"
proof -
  assume inv: "sl_inv h l xs fs"
  then have "sint (li_count l) = int (length xs)"
    by (simp add: sl_inv_def sint_uint uint_nat unat_of_nat signed_take_bit_int_eq_self)
  with inv show ?thesis by (simp add: list_flatten_def sl_inv_def pool_inv_def flatten_from_seg)
qed

lemma free_chain_seg:
  assumes "seg (le_next h) p xs None" "distinct xs" "\<forall>x \<in> set xs. le_live h x"
  shows "\<exists>h'. free_chain p h = Some h' \<and> le_live h' = (\<lambda>a. le_live h a \<and> a \<notin> set xs) \<and> le_next h' = le_next h \<and> le_top h' = le_top h"
  using assms
proof (induction xs arbitrary: p h)
  case Nil
  then show ?case by (simp add: free_chain.simps)
next
  case (Cons x xs)
  let ?h = "h\<lparr>le_live := (le_live h)(x := False)\<rparr>"
  from Cons.prems have "seg (le_next ?h) (le_next h x) xs None" "distinct xs" "\<forall>y \<in> set xs. le_live ?h y" by auto
  from Cons.IH [OF this] Cons.prems show ?case by (subst free_chain.simps) (auto simp: deref_defs)
qed

lemma clear_list_ok:
  assumes inv: "dl_inv h l xs fs" and room: "length xs + length fs < 2 ^ 31"
  shows "\<exists>h' l'. clear_list (h, l) = Some (h', l') \<and> dl_inv h' l' [] (if li_use_free_list l then xs @ fs else [])"
proof (cases "xs = []")
  case True
  then show ?thesis using inv by (auto simp: clear_list_def inv_defs)
next
  case False
  have p: "pool_inv 0 h l xs fs" and s: "seg (le_next h) (li_head l) xs None" and tl: "li_tail l = Some (last xs)"
    and c: "li_count l = of_nat (length xs)" using inv False by (auto simp: dl_inv_def sl_inv_def)
  note mem = pool_member [OF p]
  show ?thesis
  proof (cases "li_use_free_list l")
    case True
    let ?h = "h\<lparr>le_next := (le_next h)(last xs := li_free l)\<rparr>"
    let ?l = "l\<lparr>li_free := li_head l, li_free_count := li_free_count l + li_count l, li_head := None, li_tail := None, li_count := 0\<rparr>"
    have clear: "clear_list (h, l) = Some (?h, ?l)" using True tl mem [of "last xs"] False by (simp add: clear_list_def deref_defs)
    have "seg (le_next ?h) (li_head l) xs (li_free l)" using seg_extend [OF s False pool_distinct [OF p]] by simp
    moreover have "seg (le_next ?h) (li_free l) fs None" using p mem [of "last xs"] False by (simp add: pool_inv_def)
    ultimately have "dl_inv ?h ?l [] (xs @ fs)" using p c True by (auto simp: dl_inv_def sl_inv_def pool_inv_def)
    with clear True show ?thesis by auto
  next
    case False
    obtain h1 where h1: "free_chain (li_head l) h = Some h1" "le_live h1 = (\<lambda>a. le_live h a \<and> a \<notin> set xs)" "le_next h1 = le_next h"
      "le_top h1 = le_top h" using free_chain_seg [OF s pool_distinct [OF p]] mem by auto
    have "clear_list (h, l) = Some (h1, l\<lparr>li_head := None, li_tail := None, li_count := 0\<rparr>)"
      using False tl h1(1) by (simp add: clear_list_def)
    moreover have "dl_inv h1 (l\<lparr>li_head := None, li_tail := None, li_count := 0\<rparr>) [] []"
      using p False h1 by (auto simp: dl_inv_def sl_inv_def pool_inv_def)
    ultimately show ?thesis using False by auto
  qed
qed

end
