(* ===== verification/List_Props.thy ===== *)
theory List_Props
  imports List_Inv
begin

text \<open>
  The lists of \<^verbatim>\<open>libs/list_lib.c\<close> as their callers use them: an entry is fetched by an addition, data
  is written through the returned pointer, and a removal returns the pointer the data is read
  through. The locale \<open>entry_store\<close> states what such a caller relies on; the doubly and the singly
  linked operations are interpreted in it.
\<close>

section \<open>Callers that keep data in the entries\<close>

datatype side = At_Head | At_Tail

fun put_side :: "side \<Rightarrow> 'a \<Rightarrow> 'a list \<Rightarrow> 'a list" where
  "put_side At_Head x xs = x # xs"
| "put_side At_Tail x xs = xs @ [x]"

fun end_of :: "side \<Rightarrow> 'a list \<Rightarrow> 'a" where
  "end_of At_Head xs = hd xs"
| "end_of At_Tail xs = last xs"

fun rest_of :: "side \<Rightarrow> 'a list \<Rightarrow> 'a list" where
  "rest_of At_Head xs = tl xs"
| "rest_of At_Tail xs = butlast xs"

lemma side_map [simp]:
  "map f (put_side sd x xs) = put_side sd (f x) (map f xs)"
  "map f (rest_of sd xs) = rest_of sd (map f xs)"
  "xs \<noteq> [] \<Longrightarrow> end_of sd (map f xs) = f (end_of sd xs)"
  by (cases sd; simp add: map_tl map_butlast hd_map last_map)+

lemma set_put_side [simp]: "set (put_side sd x xs) = insert x (set xs)"
  by (cases sd) auto

datatype ('p, 't, 'd) store_op = Put 'p 'd | Take 't

text \<open>A script of additions and removals: what each removal returns, or nothing.\<close>

fun run_store ::
    "('p \<Rightarrow> 's \<Rightarrow> (nat \<times> 's) option) \<Rightarrow> ('t \<Rightarrow> 's \<Rightarrow> (eptr \<times> 's) option) \<Rightarrow> ('p, 't, 'd) store_op list \<Rightarrow> 's \<Rightarrow> (nat \<Rightarrow> 'd) \<Rightarrow>
     ('d option list \<times> 's \<times> (nat \<Rightarrow> 'd)) option" where
  "run_store put take_out [] s m = Some ([], s, m)"
| "run_store put take_out (Put p d # ops) s m = do {
     (a, s) \<leftarrow> put p s;
     (rs, s, m) \<leftarrow> run_store put take_out ops s (m(a := d));
     Some (None # rs, s, m)
   }"
| "run_store put take_out (Take t # ops) s m = do {
     (a, s) \<leftarrow> take_out t s;
     (rs, s, m') \<leftarrow> run_store put take_out ops s m;
     Some (map_option m a # rs, s, m')
   }"

fun spec_store :: "('p \<Rightarrow> side) \<Rightarrow> ('t \<Rightarrow> side) \<Rightarrow> ('p, 't, 'd) store_op list \<Rightarrow> 'd list \<Rightarrow> 'd option list \<times> 'd list" where
  "spec_store pside tside [] ds = ([], ds)"
| "spec_store pside tside (Put p d # ops) ds =
     (case spec_store pside tside ops (put_side (pside p) d ds) of (rs, ds) \<Rightarrow> (None # rs, ds))"
| "spec_store pside tside (Take t # ops) ds =
     (if ds = [] then (case spec_store pside tside ops [] of (rs, ds) \<Rightarrow> (None # rs, ds))
      else (case spec_store pside tside ops (rest_of (tside t) ds) of (rs, ds') \<Rightarrow> (Some (end_of (tside t) ds) # rs, ds')))"

locale entry_store =
  fixes put :: "'p \<Rightarrow> 's \<Rightarrow> (nat \<times> 's) option"
    and take_out :: "'t \<Rightarrow> 's \<Rightarrow> (eptr \<times> 's) option"
    and pside :: "'p \<Rightarrow> side"
    and tside :: "'t \<Rightarrow> side"
    and inv :: "nat \<Rightarrow> 's \<Rightarrow> nat list \<Rightarrow> bool"
  assumes put_ok: "inv (Suc n) s xs \<Longrightarrow> \<exists>a s'. put p s = Some (a, s') \<and> a \<notin> set xs \<and> inv n s' (put_side (pside p) a xs)"
    and take_ok: "inv n s xs \<Longrightarrow> xs \<noteq> [] \<Longrightarrow> \<exists>s'. take_out t s = Some (Some (end_of (tside t) xs), s') \<and> inv n s' (rest_of (tside t) xs)"
    and take_empty: "inv n s [] \<Longrightarrow> take_out t s = Some (None, s)"
    and inv_less: "inv (Suc n) s xs \<Longrightarrow> inv n s xs"
begin

lemma run_refines:
  "inv (length ops) s xs \<Longrightarrow> \<exists>s' m' xs'. run_store put take_out ops s m = Some (fst (spec_store pside tside ops (map m xs)), s', m') \<and>
     inv 0 s' xs' \<and> map m' xs' = snd (spec_store pside tside ops (map m xs))"
proof (induction ops arbitrary: s xs m)
  case Nil
  then show ?case by auto
next
  case (Cons x ops)
  show ?case
  proof (cases x)
    case (Put p d)
    from Cons.prems have "inv (Suc (length ops)) s xs" by simp
    from put_ok [OF this, of p] obtain a s1 where s1: "put p s = Some (a, s1)" "a \<notin> set xs" "inv (length ops) s1 (put_side (pside p) a xs)"
      by blast
    define M where "M = m(a := d)"
    have "map M (put_side (pside p) a xs) = put_side (pside p) d (map m xs)"
      using s1(2) by (simp add: M_def)
    from Cons.IH [OF s1(3), of M, unfolded this] obtain s' m' xs' where
      "run_store put take_out ops s1 M = Some (fst (spec_store pside tside ops (put_side (pside p) d (map m xs))), s', m')"
      "inv 0 s' xs'" "map m' xs' = snd (spec_store pside tside ops (put_side (pside p) d (map m xs)))" by blast
    with Put s1(1) show ?thesis by (auto simp: M_def [symmetric] split: prod.splits)
  next
    case (Take t)
    have less: "inv (length ops) s xs" using Cons.prems inv_less by simp
    show ?thesis
    proof (cases "xs = []")
      case True
      from Cons.IH [OF less, of m] Take True take_empty [OF less [unfolded True], of t] show ?thesis by (auto split: prod.splits)
    next
      case False
      from take_ok [OF less False, of t] obtain s1 where s1: "take_out t s = Some (Some (end_of (tside t) xs), s1)"
        "inv (length ops) s1 (rest_of (tside t) xs)" by blast
      from Cons.IH [OF s1(2), of m] Take False s1(1) show ?thesis by (auto split: prod.splits)
    qed
  qed
qed

end

section \<open>The two kinds of list\<close>

fun dl_put :: "side \<Rightarrow> lstate \<Rightarrow> (nat \<times> lstate) option" where
  "dl_put At_Head = dl_list_add_head"
| "dl_put At_Tail = dl_list_add_tail"

fun dl_take :: "side \<Rightarrow> lstate \<Rightarrow> (eptr \<times> lstate) option" where
  "dl_take At_Head = dl_list_remove_head"
| "dl_take At_Tail = dl_list_remove_tail"

fun sl_put :: "side \<Rightarrow> lstate \<Rightarrow> (nat \<times> lstate) option" where
  "sl_put At_Head = sl_list_add_head"
| "sl_put At_Tail = sl_list_add_tail"

fun sl_take :: "unit \<Rightarrow> lstate \<Rightarrow> (eptr \<times> lstate) option" where
  "sl_take u = sl_list_remove_head"

text \<open>Lists with a free list, where a removed entry's data can still be read; room for \<open>n\<close> more entries.\<close>

fun dl_holds :: "nat \<Rightarrow> lstate \<Rightarrow> nat list \<Rightarrow> bool" where
  "dl_holds n (h, l) xs \<longleftrightarrow> (\<exists>fs. dl_inv h l xs fs \<and> li_use_free_list l \<and> room n xs fs)"

fun sl_holds :: "nat \<Rightarrow> lstate \<Rightarrow> nat list \<Rightarrow> bool" where
  "sl_holds n (h, l) xs \<longleftrightarrow> (\<exists>fs. sl_inv h l xs fs \<and> li_use_free_list l \<and> room n xs fs)"

interpretation dl: entry_store dl_put dl_take "\<lambda>x. x" "\<lambda>x. x" dl_holds
proof unfold_locales
  fix n :: nat and s :: lstate and xs :: "nat list" and sd :: side
  obtain h l where s: "s = (h, l)" by fastforce
  show "dl_holds (Suc n) s xs \<Longrightarrow> dl_holds n s xs" unfolding s by (force simp: room_def)
  show "\<exists>a s'. dl_put sd s = Some (a, s') \<and> a \<notin> set xs \<and> dl_holds n s' (put_side sd a xs)" if "dl_holds (Suc n) s xs"
  proof -
    from that obtain fs where i: "dl_inv h l xs fs" "room (Suc n) xs fs" and u: "li_use_free_list l" by (auto simp: s)
    show ?thesis
    proof (cases sd)
      case At_Head
      obtain a h' l' fs' where "dl_list_add_head (h, l) = Some (a, h', l')" "dl_inv h' l' (a # xs) fs'" "a \<notin> set xs"
        "room n (a # xs) fs'" "li_current l' = li_current l" "li_use_free_list l' = li_use_free_list l"
        by (rule dl_add_head_ok [OF i])
      with At_Head u show ?thesis by (auto simp: s)
    next
      case At_Tail
      obtain a h' l' fs' where "dl_list_add_tail (h, l) = Some (a, h', l')" "dl_inv h' l' (xs @ [a]) fs'" "a \<notin> set xs"
        "room n (xs @ [a]) fs'" "li_current l' = li_current l" "li_use_free_list l' = li_use_free_list l"
        by (rule dl_add_tail_ok [OF i])
      with At_Tail u show ?thesis by (auto simp: s)
    qed
  qed
  show "dl_take sd s = Some (None, s)" if "dl_holds n s []"
    using that dl_remove_empty by (cases sd) (auto simp: s)
  show "\<exists>s'. dl_take sd s = Some (Some (end_of sd xs), s') \<and> dl_holds n s' (rest_of sd xs)" if "dl_holds n s xs" "xs \<noteq> []"
  proof -
    from that obtain fs where i: "dl_inv h l xs fs" and u: "li_use_free_list l" and r: "room n xs fs" by (auto simp: s)
    show ?thesis
    proof (cases sd)
      case At_Head
      have "dl_inv h l (hd xs # tl xs) fs" using i that(2) by simp
      then obtain h' l' fs' where "dl_list_remove_head (h, l) = Some (Some (hd xs), h', l')" "dl_inv h' l' (tl xs) fs'"
        "li_use_free_list l' = li_use_free_list l" "length fs' \<le> Suc (length fs)" by (rule dl_remove_head_ok)
      with At_Head u r that(2) show ?thesis by (cases xs) (force simp: s room_def)+
    next
      case At_Tail
      have "dl_inv h l (butlast xs @ [last xs]) fs" using i that(2) by simp
      then obtain h' l' fs' where "dl_list_remove_tail (h, l) = Some (Some (last xs), h', l')" "dl_inv h' l' (butlast xs) fs'"
        "li_use_free_list l' = li_use_free_list l" "length fs' \<le> Suc (length fs)" by (rule dl_remove_tail_ok)
      with At_Tail u r that(2) show ?thesis by (cases xs) (force simp: s room_def)+
    qed
  qed
qed

interpretation sl: entry_store sl_put sl_take "\<lambda>x. x" "\<lambda>_. At_Head" sl_holds
proof unfold_locales
  fix n :: nat and s :: lstate and xs :: "nat list" and sd :: side and u :: unit
  obtain h l where s: "s = (h, l)" by fastforce
  show "sl_holds (Suc n) s xs \<Longrightarrow> sl_holds n s xs" unfolding s by (force simp: room_def)
  show "\<exists>a s'. sl_put sd s = Some (a, s') \<and> a \<notin> set xs \<and> sl_holds n s' (put_side sd a xs)" if "sl_holds (Suc n) s xs"
  proof -
    from that obtain fs where i: "sl_inv h l xs fs" "room (Suc n) xs fs" and u: "li_use_free_list l" by (auto simp: s)
    show ?thesis
    proof (cases sd)
      case At_Head
      obtain a h' l' fs' where "sl_list_add_head (h, l) = Some (a, h', l')" "sl_inv h' l' (a # xs) fs'" "a \<notin> set xs"
        "room n (a # xs) fs'" "li_current l' = li_current l" "li_use_free_list l' = li_use_free_list l" "le_prev h' = le_prev h"
        by (rule sl_add_head_ok [OF i])
      with At_Head u show ?thesis by (auto simp: s)
    next
      case At_Tail
      obtain a h' l' fs' where "sl_list_add_tail (h, l) = Some (a, h', l')" "sl_inv h' l' (xs @ [a]) fs'" "a \<notin> set xs"
        "room n (xs @ [a]) fs'" "li_current l' = li_current l" "li_use_free_list l' = li_use_free_list l"
        by (rule sl_add_tail_ok [OF i])
      with At_Tail u show ?thesis by (auto simp: s)
    qed
  qed
  show "sl_take u s = Some (None, s)" if "sl_holds n s []" using that sl_remove_head_empty by (auto simp: s)
  show "\<exists>s'. sl_take u s = Some (Some (end_of At_Head xs), s') \<and> sl_holds n s' (rest_of At_Head xs)" if "sl_holds n s xs" "xs \<noteq> []"
  proof -
    from that obtain fs where i: "sl_inv h l xs fs" and u: "li_use_free_list l" and r: "room n xs fs" by (auto simp: s)
    have "sl_inv h l (hd xs # tl xs) fs" using i that(2) by simp
    then obtain h' l' fs' where "sl_list_remove_head (h, l) = Some (Some (hd xs), h', l')" "sl_inv h' l' (tl xs) fs'"
      "li_use_free_list l' = li_use_free_list l" "length fs' \<le> Suc (length fs)" by (rule sl_remove_head_ok)
    with u r that(2) show ?thesis by (cases xs) (force simp: s room_def)+
  qed
qed


section \<open>Properties\<close>

text \<open>A heap on which nothing has been allocated; what its entries hold is irrelevant.\<close>

definition empty_heap :: "(nat \<Rightarrow> eptr) \<Rightarrow> (nat \<Rightarrow> eptr) \<Rightarrow> list_heap" where
  "empty_heap nx pv = \<lparr>le_next = nx, le_prev = pv, le_live = (\<lambda>_. False), le_top = 0\<rparr>"

definition null_list :: List_rec where
  "null_list = \<lparr>li_name = [], li_data_size = 0, li_head = None, li_tail = None, li_current = None, li_free = None,
     li_count = 0, li_place = 0, li_use_free_list = False, li_free_count = 0, li_total_count = 0\<rparr>"

text \<open>C40: A doubly linked list with a free list, whatever the memory and the list structure held before
  its initialisation, implements a double-ended queue of data: every script of additions and removals at
  both ends runs without a bad dereference and its removals return what the abstract queue returns.\<close>

theorem dl_list_is_deque:
  assumes "8 * length ops < 2 ^ 31"
  shows "\<exists>s' m'. run_store dl_put dl_take ops (empty_heap nx pv, init_list nm sz True l) m =
    Some (fst (spec_store (\<lambda>x. x) (\<lambda>x. x) ops []), s', m')"
proof -
  have "dl_inv (empty_heap nx pv) (init_list nm sz True l) [] []" by (rule init_list_inv) (simp add: empty_heap_def)
  then have "dl_holds (length ops) (empty_heap nx pv, init_list nm sz True l) []"
    using assms by (auto simp: room_def init_list_def)
  from dl.run_refines [OF this, of m] show ?thesis by auto
qed

theorem dl_list_is_deque_witness:
  "\<exists>s' m'. run_store dl_put dl_take [Put At_Tail 10, Put At_Tail 11, Put At_Head 12, Take At_Head, Take At_Tail, Take At_Head, Take At_Tail]
      (empty_heap (\<lambda>_. None) (\<lambda>_. None), init_list [] 4 True null_list) (\<lambda>_. 0 :: nat) =
    Some ([None, None, None, Some 12, Some 11, Some 10, None], s', m')"
  using dl_list_is_deque [of "[Put At_Tail 10, Put At_Tail 11, Put At_Head 12, Take At_Head, Take At_Tail, Take At_Head, Take At_Tail]"
      "\<lambda>_. None" "\<lambda>_. None" "[]" 4 null_list "\<lambda>_. 0 :: nat"] by simp

text \<open>Entries may be taken out of a list while it is walked over: the walk that removes the current entry
  whenever it satisfies \<open>P\<close> ends, has seen every entry exactly once and in order, and leaves the list of
  the entries that do not satisfy \<open>P\<close>, well linked in both directions.\<close>

theorem removal_during_traversal:
  assumes "dl_inv h l xs fs"
  shows "\<exists>h' l' fs'. traverse_remove P (h, l) = Some (xs, h', l') \<and> dl_inv h' l' (filter (\<lambda>x. \<not> P x) xs) fs'"
  using traverse_remove_ok [OF assms, of P] by blast

text \<open>Three entries in a list without a free list.\<close>

definition three_heap :: list_heap where
  "three_heap = \<lparr>le_next = (\<lambda>a. if a < 2 then Some (Suc a) else None),
     le_prev = (\<lambda>a. if a = 0 then None else Some (a - 1)), le_live = (\<lambda>a. a < 3), le_top = 3\<rparr>"

definition three_list :: List_rec where
  "three_list = null_list\<lparr>li_head := Some 0, li_tail := Some 2, li_count := 3, li_total_count := 3\<rparr>"

theorem removal_during_traversal_witness:
  "\<exists>h' l' fs'. traverse_remove even (three_heap, three_list) = Some ([0, 1, 2], h', l') \<and> dl_inv h' l' [1] fs'"
proof -
  have "dl_inv three_heap three_list [0, 1, 2] []"
    by (simp add: dl_inv_def sl_inv_def pool_inv_def three_heap_def three_list_def null_list_def)
  from removal_during_traversal [OF this, of even] show ?thesis by simp
qed

end
