(* ===== verification/Cache_Lib.thy ===== *)
theory Cache_Lib
  imports Scarab_Prelude
begin

text \<open>
  The set-associative cache of \<^verbatim>\<open>libs/cache_lib.c\<close>: indexing, initialisation, lookup, insertion with
  every replacement policy, invalidation, the shadow cache, the ideal replacement with its lists of
  unsure lines, and way partitioning.

  A line's data is a pointer, a number with 0 for \<^verbatim>\<open>NULL\<close>. The library itself reads and writes a
  data buffer only where it allocates one and in \<^verbatim>\<open>insert_sure_line\<close>, so the heap of buffers is
  threaded through the operations that can reach that code. The globals the code reads
  (\<^verbatim>\<open>sim_time\<close>, the value the next \<^verbatim>\<open>rand()\<close> returns, \<^verbatim>\<open>NUM_CORES\<close>, \<^verbatim>\<open>L1_PART_ON\<close>) are the record
  \<open>Cache_Env\<close>. \<open>None\<close> is a failed assertion, or an access outside an array.
\<close>

section \<open>Data\<close>

datatype Repl_Policy = REPL_TRUE_LRU | REPL_RANDOM | REPL_NOT_MRU | REPL_ROUND_ROBIN | REPL_IDEAL
  | REPL_ISO_PREF | REPL_LOW_PREF | REPL_SHADOW_IDEAL | REPL_IDEAL_STORAGE | REPL_MLP | REPL_PARTITION

datatype Cache_Insert_Repl = INSERT_REPL_DEFAULT | INSERT_REPL_LRU | INSERT_REPL_LOWQTR
  | INSERT_REPL_MID | INSERT_REPL_MRU

type_synonym ptr = nat

record Cache_Entry =
  ce_proc_id :: uns8
  ce_valid :: bool
  ce_tag :: Addr
  ce_base :: Addr
  ce_last_access_time :: Counter
  ce_insertion_time :: Counter
  ce_data :: ptr
  ce_pref :: bool
  ce_dirty :: bool

record Cache =
  cache_name :: string
  cache_data_size :: uns
  cache_assoc :: uns
  cache_num_lines :: uns
  cache_num_sets :: uns
  cache_line_size :: uns
  cache_repl_policy :: Repl_Policy
  cache_set_bits :: uns
  cache_shift_bits :: uns
  cache_set_mask :: Addr
  cache_tag_mask :: Addr
  cache_offset_mask :: Addr
  cache_repl_ctrs :: "uns list"
  cache_entries :: "Cache_Entry list list"
  cache_unsure_lists :: "Cache_Entry list list"
  cache_shadow_entries :: "Cache_Entry list list"
  cache_queue_end :: "uns list"
  cache_num_demand_access :: Counter
  cache_last_update :: Counter
  cache_num_ways_allocted_core :: "uns list option"
  cache_num_ways_occupied_core :: "uns list"
  cache_lru_index_core :: "uns list"
  cache_lru_time_core :: "Counter list"

record Cache_Env =
  sim_time :: Counter
  rand_value :: uns
  num_cores :: uns
  l1_part_on :: bool

definition INIT_CACHE_DATA_VALUE :: ptr where
  "INIT_CACHE_DATA_VALUE = 0x8badbeef"

definition ideal_num_entries :: nat where
  "ideal_num_entries = 256"

text \<open>The heap of data buffers: what \<^verbatim>\<open>malloc\<close> leaves in a new buffer is the field \<open>junk\<close>.\<close>

record Heap =
  bufs :: "ptr \<Rightarrow> uns8 list option"
  next_ptr :: ptr
  junk :: "ptr \<Rightarrow> nat \<Rightarrow> uns8"

definition malloc_buf :: "nat \<Rightarrow> Heap \<Rightarrow> ptr \<times> Heap" where
  "malloc_buf n h =
     (next_ptr h, h\<lparr>bufs := (bufs h)(next_ptr h := Some (map (junk h (next_ptr h)) [0..<n])),
                    next_ptr := Suc (next_ptr h)\<rparr>)"

definition free_buf :: "ptr \<Rightarrow> Heap \<Rightarrow> Heap" where
  "free_buf p h = h\<lparr>bufs := (bufs h)(p := None)\<rparr>"

definition memcpy_buf :: "ptr \<Rightarrow> ptr \<Rightarrow> nat \<Rightarrow> Heap \<Rightarrow> Heap option" where
  "memcpy_buf dst src n h =
     (case (bufs h dst, bufs h src) of
        (Some d, Some s) \<Rightarrow>
          if n \<le> length d \<and> n \<le> length s
          then Some (h\<lparr>bufs := (bufs h)(dst := Some (take n s @ drop n d))\<rparr>) else None
      | _ \<Rightarrow> None)"

section \<open>Indexing\<close>

text \<open>The set, the tag and the line address.\<close>

definition cache_index :: "Cache \<Rightarrow> Addr \<Rightarrow> nat \<times> Addr \<times> Addr" where
  "cache_index c addr =
     (unat (ucast (drop_bit (unat (cache_shift_bits c)) addr AND cache_set_mask c) :: uns),
      drop_bit (unat (cache_shift_bits c)) addr AND cache_tag_mask c,
      addr AND NOT (cache_offset_mask c))"

definition get_cache_line_addr :: "Cache \<Rightarrow> Addr \<Rightarrow> Addr" where
  "get_cache_line_addr c addr = snd (snd (cache_index c addr))"

section \<open>Initialisation\<close>

text \<open>
  One line: \<open>u\<close> is what the allocated memory holds before the code sets the valid bit and the data
  pointer.
\<close>

definition init_line :: "uns \<Rightarrow> Cache_Entry \<Rightarrow> Heap \<Rightarrow> Cache_Entry \<times> Heap" where
  "init_line data_size u h =
     (if data_size \<noteq> 0 then
        let (p, h) = malloc_buf (unat data_size) h
        in (u\<lparr>ce_valid := False, ce_data := p\<rparr>,
            h\<lparr>bufs := (bufs h)(p := Some (replicate (unat data_size) 0))\<rparr>)
      else (u\<lparr>ce_valid := False, ce_data := INIT_CACHE_DATA_VALUE\<rparr>, h))"

fun init_lines :: "uns \<Rightarrow> (nat \<Rightarrow> Cache_Entry) \<Rightarrow> nat \<Rightarrow> nat \<Rightarrow> Heap \<Rightarrow> Cache_Entry list \<times> Heap" where
  "init_lines data_size u jj 0 h = ([], h)"
| "init_lines data_size u jj (Suc n) h =
     (let (e, h) = init_line data_size (u jj) h; (es, h) = init_lines data_size u (Suc jj) n h in (e # es, h))"

fun init_sets :: "uns \<Rightarrow> (nat \<Rightarrow> nat \<Rightarrow> Cache_Entry) \<Rightarrow> nat \<Rightarrow> nat \<Rightarrow> nat \<Rightarrow> Heap \<Rightarrow> Cache_Entry list list \<times> Heap" where
  "init_sets data_size u n ii 0 h = ([], h)"
| "init_sets data_size u n ii (Suc m) h =
     (let (s, h) = init_lines data_size (u ii) 0 n h; (ss, h) = init_sets data_size u n (Suc ii) m h in (s # ss, h))"

text \<open>
  The caller's structure \<open>c\<close> is overwritten; fields that a policy does not use keep what they held.
  \<open>u\<close> and \<open>us\<close> are the uninitialised memory of the lines and of the shadow lines, \<open>up\<close> that of the
  partition arrays. A division by zero (\<^verbatim>\<open>line_size\<close> or \<^verbatim>\<open>assoc\<close> 0) stops the program,
  and \<^verbatim>\<open>LOG2\<close> of no sets at all is undefined.
\<close>

definition init_cache ::
    "Cache_Env \<Rightarrow> (nat \<Rightarrow> nat \<Rightarrow> Cache_Entry) \<Rightarrow> (nat \<Rightarrow> nat \<Rightarrow> Cache_Entry) \<Rightarrow> (nat \<Rightarrow> uns) \<Rightarrow>
     Cache \<Rightarrow> string \<Rightarrow> uns \<Rightarrow> uns \<Rightarrow> uns \<Rightarrow> uns \<Rightarrow> Repl_Policy \<Rightarrow> Heap \<Rightarrow> (Cache \<times> Heap) option" where
  "init_cache E u us up c name cache_size assoc line_size data_size repl_policy h =
     (if line_size = 0 \<or> assoc = 0 \<or> cache_size div line_size div assoc = 0 then None
      else
        let num_lines = cache_size div line_size; num_sets = cache_size div line_size div assoc;
            set_bits = LOG2 num_sets; shift_bits = LOG2 line_size;
            (entries, h) = init_sets data_size u (unat assoc) 0 (unat num_sets) h;
            c = c\<lparr>cache_name := take 1024 name, cache_data_size := data_size, cache_num_lines := num_lines,
                  cache_assoc := assoc, cache_num_sets := num_sets, cache_line_size := line_size,
                  cache_repl_policy := repl_policy, cache_set_bits := of_nat set_bits,
                  cache_shift_bits := of_nat shift_bits, cache_set_mask := N_BIT_MASK set_bits,
                  cache_tag_mask := NOT (N_BIT_MASK set_bits), cache_offset_mask := N_BIT_MASK shift_bits,
                  cache_repl_ctrs := replicate (unat num_sets) 0, cache_entries := entries,
                  cache_num_demand_access := 0, cache_last_update := 0\<rparr>;
            c = (if repl_policy = REPL_IDEAL then c\<lparr>cache_unsure_lists := replicate (unat num_sets) []\<rparr> else c);
            cores = [0..<unat (num_cores E)];
            c = (if repl_policy = REPL_PARTITION
                 then c\<lparr>cache_num_ways_allocted_core := Some (map up cores),
                        cache_num_ways_occupied_core := map up cores, cache_lru_index_core := map up cores,
                        cache_lru_time_core := map (\<lambda>i. ucast (up i)) cores\<rparr>
                 else c)
        in if repl_policy = REPL_SHADOW_IDEAL
           then let (sh, h) = init_sets data_size us (unat assoc) 0 (unat num_sets) h
                in Some (c\<lparr>cache_shadow_entries := sh\<rparr>, h)
           else if repl_policy = REPL_IDEAL_STORAGE
           then let (sh, h) = init_sets data_size us ideal_num_entries 0 (unat num_sets) h
                in Some (c\<lparr>cache_shadow_entries := sh, cache_queue_end := replicate (unat num_sets) 0\<rparr>, h)
           else Some (c, h))"

section \<open>Lines and sets\<close>

definition cache_row :: "Cache \<Rightarrow> nat \<Rightarrow> Cache_Entry list" where
  "cache_row c si = cache_entries c ! si"

definition upd_line :: "nat \<Rightarrow> nat \<Rightarrow> (Cache_Entry \<Rightarrow> Cache_Entry) \<Rightarrow> Cache \<Rightarrow> Cache" where
  "upd_line si way f c =
     c\<lparr>cache_entries := (cache_entries c)[si := (cache_row c si)[way := f (cache_row c si ! way)]]\<rparr>"

definition upd_shadow :: "nat \<Rightarrow> nat \<Rightarrow> (Cache_Entry \<Rightarrow> Cache_Entry) \<Rightarrow> Cache \<Rightarrow> Cache" where
  "upd_shadow si way f c =
     (let row = cache_shadow_entries c ! si
      in c\<lparr>cache_shadow_entries := (cache_shadow_entries c)[si := row[way := f (row ! way)]]\<rparr>)"

definition set_repl_ctr :: "nat \<Rightarrow> uns \<Rightarrow> Cache \<Rightarrow> Cache" where
  "set_repl_ctr si v c = c\<lparr>cache_repl_ctrs := (cache_repl_ctrs c)[si := v]\<rparr>"

definition hit_line :: "Addr \<Rightarrow> Cache_Entry \<Rightarrow> bool" where
  "hit_line tag e \<longleftrightarrow> ce_valid e \<and> ce_tag e = tag"

text \<open>The way that the repeated least-recently-used loop of the library ends with.\<close>

definition lru_way :: "Cache_Entry list \<Rightarrow> nat \<times> Counter" where
  "lru_way row = lru_scan ce_valid ce_last_access_time 0 0 MAX_CTR row"

section \<open>Choosing the victim\<close>

text \<open>The last invalid way, or the way the counter names.\<close>

definition last_invalid :: "nat \<Rightarrow> Cache_Entry list \<Rightarrow> nat" where
  "last_invalid ctr row = foldl (\<lambda>w ii. if ce_valid (row ! ii) then w else ii) ctr [0..<length row]"

text \<open>
  The first loop over the ways under \<^verbatim>\<open>REPL_PARTITION\<close>: it stops at an invalid way, and otherwise
  counts each core's lines and finds each core's oldest line.
\<close>

type_synonym part_tables = "uns list \<times> uns list \<times> Counter list"

fun part_scan :: "nat \<Rightarrow> part_tables \<Rightarrow> Cache_Entry list \<Rightarrow> (nat option \<times> part_tables) option" where
  "part_scan ii tabs [] = Some (None, tabs)"
| "part_scan ii (occ, idx, tm) (e # es) =
     (if \<not> ce_valid e then Some (Some ii, occ, idx, tm)
      else let p = unat (ce_proc_id e)
           in if \<not> p < length occ then None
              else let occ = occ[p := occ ! p + 1]
                   in if ce_last_access_time e < tm ! p
                      then part_scan (Suc ii) (occ, idx[p := of_nat ii], tm[p := ce_last_access_time e]) es
                      else part_scan (Suc ii) (occ, idx, tm) es)"

text \<open>The core that is furthest above its allocation, with \<^verbatim>\<open>repl_proc_id\<close> -1 when none is.\<close>

definition part_worst_step :: "uns list \<Rightarrow> uns list \<Rightarrow> int \<times> int \<Rightarrow> nat \<Rightarrow> int \<times> int" where
  "part_worst_step alloc occ = (\<lambda>(max_extra, repl_id) w.
     (if alloc ! w < occ ! w \<and> max_extra < sint (occ ! w - alloc ! w)
      then (sint (occ ! w - alloc ! w), int w) else (max_extra, repl_id)))"

definition part_worst :: "uns list \<Rightarrow> uns list \<Rightarrow> int \<times> int" where
  "part_worst alloc occ = foldl (part_worst_step alloc occ) (0, -1) [0..<length alloc]"

definition part_victim_core :: "uns \<Rightarrow> uns list \<Rightarrow> uns list \<Rightarrow> nat \<Rightarrow> nat \<Rightarrow> nat option" where
  "part_victim_core n alloc occ proc_id si =
     (let (max_extra, repl_id) = part_worst alloc occ;
          extra = sint (occ ! proc_id - alloc ! proc_id)
      in if occ ! proc_id < alloc ! proc_id \<or> extra + 1 < max_extra \<or>
            (extra < max_extra \<and>
             (of_int repl_id + of_nat si) mod n < ((of_nat proc_id + of_nat si) mod n :: uns))
         then (if 0 \<le> repl_id then Some (nat repl_id) else None)
         else Some proc_id)"

definition part_find ::
    "Cache_Env \<Rightarrow> Cache \<Rightarrow> uns8 \<Rightarrow> nat \<Rightarrow> (nat \<times> Cache) option" where
  "part_find E c proc_id si =
     (case cache_num_ways_allocted_core c of
        None \<Rightarrow> None
      | Some alloc \<Rightarrow>
          let cores = unat (num_cores E); pid = unat proc_id
          in if length alloc \<noteq> cores \<or> \<not> pid < cores \<or> 0 \<in> set alloc \<or> \<not> sum_list alloc \<le> cache_assoc c
             then None
             else case part_scan 0 (replicate cores 0, cache_lru_index_core c, replicate cores MAX_CTR)
                    (cache_row c si) of
               None \<Rightarrow> None
             | Some (free_way, occ, idx, tm) \<Rightarrow>
                 let c = c\<lparr>cache_num_ways_occupied_core := occ, cache_lru_index_core := idx,
                           cache_lru_time_core := tm\<rparr>
                 in case free_way of
                   Some w \<Rightarrow> Some (w, c)
                 | None \<Rightarrow> map_option (\<lambda>core. (unat (idx ! core), c))
                             (part_victim_core (num_cores E) alloc occ pid si))"

text \<open>
  \<^verbatim>\<open>find_repl_entry\<close>: the way of the victim. Under \<^verbatim>\<open>REPL_IDEAL\<close> and \<^verbatim>\<open>REPL_IDEAL_STORAGE\<close> it runs into
  \<^verbatim>\<open>ASSERT(0, FALSE)\<close>, and so it does for a policy without a case. The partition tables are the only
  state it writes.
\<close>

definition find_repl_entry :: "Cache_Env \<Rightarrow> Cache \<Rightarrow> uns8 \<Rightarrow> nat \<Rightarrow> (nat \<times> Cache) option" where
  "find_repl_entry E c proc_id si =
     (let row = cache_row c si;
          r = (case cache_repl_policy c of
                 REPL_SHADOW_IDEAL \<Rightarrow> Some (fst (lru_way row), c)
               | REPL_TRUE_LRU \<Rightarrow> Some (fst (lru_way row), c)
               | REPL_RANDOM \<Rightarrow> Some (last_invalid (unat (cache_repl_ctrs c ! si)) row, c)
               | REPL_NOT_MRU \<Rightarrow> Some (last_invalid (unat (cache_repl_ctrs c ! si)) row, c)
               | REPL_ROUND_ROBIN \<Rightarrow> Some (last_invalid (unat (cache_repl_ctrs c ! si)) row, c)
               | REPL_LOW_PREF \<Rightarrow> Some (last_invalid (unat (cache_repl_ctrs c ! si)) row, c)
               | REPL_PARTITION \<Rightarrow> part_find E c proc_id si
               | _ \<Rightarrow> None)
      in case r of None \<Rightarrow> None | Some (w, c) \<Rightarrow> if w < length row then Some (w, c) else None)"

section \<open>Updating the replacement state\<close>

text \<open>
  \<^verbatim>\<open>REPL_LOW_PREF\<close>: the oldest prefetched line, up to the first invalid way; when there is none, the
  oldest line. The first component is \<^verbatim>\<open>lru_ind\<close>, \<open>None\<close> for -1.
\<close>

fun low_pref_scan :: "nat \<Rightarrow> nat option \<times> Counter \<Rightarrow> Cache_Entry list \<Rightarrow> nat option \<times> Counter" where
  "low_pref_scan ii cur [] = cur"
| "low_pref_scan ii (ind, tm) (e # es) =
     (if \<not> ce_valid e then (Some ii, tm)
      else if ce_last_access_time e < tm \<and> ce_pref e then low_pref_scan (Suc ii) (Some ii, ce_last_access_time e) es
      else low_pref_scan (Suc ii) (ind, tm) es)"

fun oldest_scan :: "nat \<Rightarrow> nat option \<times> Counter \<Rightarrow> Cache_Entry list \<Rightarrow> nat option \<times> Counter" where
  "oldest_scan ii cur [] = cur"
| "oldest_scan ii (ind, tm) (e # es) =
     (if ce_last_access_time e < tm then oldest_scan (Suc ii) (Some ii, ce_last_access_time e) es
      else oldest_scan (Suc ii) (ind, tm) es)"

definition low_pref_victim :: "Cache_Entry list \<Rightarrow> uns" where
  "low_pref_victim row =
     (case low_pref_scan 0 (None, MAX_CTR) row of
        (Some i, _) \<Rightarrow> of_nat i
      | (None, tm) \<Rightarrow> (case oldest_scan 0 (None, tm) row of (Some i, _) \<Rightarrow> of_nat i | (None, _) \<Rightarrow> - 1))"

definition update_repl_policy :: "Cache_Env \<Rightarrow> nat \<Rightarrow> nat \<Rightarrow> Cache \<Rightarrow> Cache option" where
  "update_repl_policy E si way c =
     (let ctr = cache_repl_ctrs c ! si;
          touch = upd_line si way (\<lambda>e. e\<lparr>ce_last_access_time := sim_time E\<rparr>) c
      in case cache_repl_policy c of
           REPL_IDEAL_STORAGE \<Rightarrow> Some touch
         | REPL_SHADOW_IDEAL \<Rightarrow> Some touch
         | REPL_TRUE_LRU \<Rightarrow> Some touch
         | REPL_PARTITION \<Rightarrow> Some touch
         | REPL_RANDOM \<Rightarrow> Some (set_repl_ctr si (rand_value E mod cache_assoc c) c)
         | REPL_NOT_MRU \<Rightarrow>
             Some (if way = unat ctr then set_repl_ctr si (CIRC_INC2 ctr (cache_assoc c)) c else c)
         | REPL_ROUND_ROBIN \<Rightarrow> Some (set_repl_ctr si (CIRC_INC2 ctr (cache_assoc c)) c)
         | REPL_IDEAL \<Rightarrow> Some c
         | REPL_LOW_PREF \<Rightarrow> Some (set_repl_ctr si (low_pref_victim (cache_row c si)) c)
         | _ \<Rightarrow> None)"

section \<open>Ideal replacement: the unsure lines\<close>

text \<open>
  A set's counter holds the number of its sure lines. The unsure list is a \<^verbatim>\<open>List\<close> of
  \<^verbatim>\<open>libs/list_lib.c\<close>, used only through head traversals, removal of the current element, addition at
  the tail and clearing: it is the list of its entries.
\<close>

definition unsure_ix :: "Addr \<Rightarrow> Cache_Entry list \<Rightarrow> nat option option" where
  "unsure_ix tag us =
     (case find_ix (\<lambda>e. ce_tag e = tag) us of
        None \<Rightarrow> if list_all ce_valid us then Some None else None
      | Some k \<Rightarrow> if list_all ce_valid (take (Suc k) us) then Some (Some k) else None)"

definition access_unsure_lines :: "nat \<Rightarrow> Addr \<Rightarrow> Cache \<times> Heap \<Rightarrow> (ptr \<times> Cache \<times> Heap) option" where
  "access_unsure_lines si tag = (\<lambda>(c, h).
     (let us = cache_unsure_lists c ! si
      in case unsure_ix tag us of
        None \<Rightarrow> None
      | Some None \<Rightarrow> Some (0, c, h)
      | Some (Some k) \<Rightarrow>
          (case find_ix (\<lambda>e. \<not> ce_valid e) (cache_row c si) of
             None \<Rightarrow> None
           | Some ii \<Rightarrow>
               let temp = us ! k; us = take k us @ drop (Suc k) us; ctr = cache_repl_ctrs c ! si + 1;
                   c = set_repl_ctr si ctr (upd_line si ii (\<lambda>_. temp) c)
               in if \<not> ctr \<le> cache_assoc c then None
                  else if ctr = cache_assoc c
                  then Some (ce_data temp, c\<lparr>cache_unsure_lists := (cache_unsure_lists c)[si := []]\<rparr>,
                             fold (\<lambda>e. free_buf (ce_data e)) us h)
                  else Some (ce_data temp, c\<lparr>cache_unsure_lists := (cache_unsure_lists c)[si := us]\<rparr>, h))))"

text \<open>
  Demoting the sure lines: each is copied to the tail of the list with a new buffer of
  \<^verbatim>\<open>sizeof(cache->data_size)\<close>, 4, bytes, and 4 bytes are copied from the new buffer to the line's.
\<close>

fun demote_lines :: "Cache_Entry list \<Rightarrow> Heap \<Rightarrow> (Cache_Entry list \<times> Cache_Entry list \<times> nat \<times> Heap) option" where
  "demote_lines [] h = Some ([], [], 0, h)"
| "demote_lines (e # es) h =
     (if ce_valid e then
        let (p, h) = malloc_buf 4 h
        in case memcpy_buf (ce_data e) p 4 h of
             None \<Rightarrow> None
           | Some h \<Rightarrow> map_option (\<lambda>(row, us, n, h). (e\<lparr>ce_valid := False\<rparr> # row, e\<lparr>ce_data := p\<rparr> # us, Suc n, h))
                         (demote_lines es h)
      else map_option (\<lambda>(row, us, n, h). (e # row, us, n, h)) (demote_lines es h))"

definition insert_sure_line :: "nat \<Rightarrow> Cache \<times> Heap \<Rightarrow> (nat \<times> Cache \<times> Heap) option" where
  "insert_sure_line si = (\<lambda>(c, h).
     (let us = cache_unsure_lists c ! si; ctr = cache_repl_ctrs c ! si; row = cache_row c si
      in if us \<noteq> [] \<or> ctr = cache_assoc c then
           (case demote_lines row h of
              None \<Rightarrow> None
            | Some (row, moved, n, h) \<Rightarrow>
                if of_nat n \<noteq> ctr then None
                else Some (0, set_repl_ctr si 1
                       (c\<lparr>cache_entries := (cache_entries c)[si := row],
                          cache_unsure_lists := (cache_unsure_lists c)[si := us @ moved]\<rparr>), h))
         else
           (case find_ix (\<lambda>e. \<not> ce_valid e) row of
              None \<Rightarrow> None
            | Some ii \<Rightarrow> if ctr + 1 \<le> cache_assoc c then Some (ii, set_repl_ctr si (ctr + 1) c, h) else None)))"

definition invalidate_unsure_line :: "nat \<Rightarrow> Addr \<Rightarrow> Cache \<times> Heap \<Rightarrow> (Cache \<times> Heap) option" where
  "invalidate_unsure_line si tag = (\<lambda>(c, h).
     (let us = cache_unsure_lists c ! si
      in case unsure_ix tag us of
        None \<Rightarrow> None
      | Some None \<Rightarrow> Some (c, h)
      | Some (Some k) \<Rightarrow>
          Some (c\<lparr>cache_unsure_lists := (cache_unsure_lists c)[si := take k us @ drop (Suc k) us]\<rparr>,
                free_buf (ce_data (us ! k)) h)))"

section \<open>Shadow cache\<close>

text \<open>
  The loop over the shadow ways \<open>iis\<close>. The two variables of the victim scan live outside the loop, so
  a second match starts its scan from where the first one's ended.
\<close>

fun shadow_scan :: "Cache_Env \<Rightarrow> nat \<Rightarrow> Addr \<Rightarrow> nat list \<Rightarrow> nat \<times> Counter \<Rightarrow> Cache \<Rightarrow> (ptr \<times> Cache) option" where
  "shadow_scan E si tag [] lru c = Some (0, c)"
| "shadow_scan E si tag (ii # iis) (ind, tm) c =
     (let line = cache_shadow_entries c ! si ! ii
      in if ce_tag line = tag \<and> ce_valid line then
           (if ce_data line = 0 then None
            else let (ind, tm) = lru_scan ce_valid ce_last_access_time 0 ind tm (cache_row c si)
                 in if tm < ce_last_access_time line then
                      let main = cache_row c si ! ind
                      in Some (ce_data main,
                           upd_shadow si ii (\<lambda>_. main\<lparr>ce_last_access_time := ce_last_access_time line\<rparr>)
                             (upd_line si ind (\<lambda>_. line\<lparr>ce_last_access_time := sim_time E\<rparr>) c))
                    else shadow_scan E si tag iis (ind, tm) (upd_shadow si ii (\<lambda>e. e\<lparr>ce_valid := False\<rparr>) c))
         else shadow_scan E si tag iis (ind, tm) c)"

definition access_shadow_lines :: "Cache_Env \<Rightarrow> nat \<Rightarrow> Addr \<Rightarrow> Cache \<Rightarrow> (ptr \<times> Cache) option" where
  "access_shadow_lines E si tag c = shadow_scan E si tag [0..<unat (cache_assoc c)] (0, MAX_CTR) c"

definition shadow_cache_insert :: "Cache_Env \<Rightarrow> nat \<Rightarrow> Addr \<Rightarrow> Addr \<Rightarrow> Cache \<Rightarrow> Cache" where
  "shadow_cache_insert E si tag base c =
     upd_shadow si (fst (lru_way (cache_shadow_entries c ! si)))
       (\<lambda>e. e\<lparr>ce_valid := True, ce_tag := tag, ce_base := base, ce_last_access_time := sim_time E\<rparr>) c"

section \<open>Ideal storage\<close>

definition queue_ind :: "Cache \<Rightarrow> nat \<Rightarrow> nat \<Rightarrow> nat" where
  "queue_ind c si n = (n + unat (cache_queue_end c ! si)) mod ideal_num_entries"

text \<open>One step of the loop that lowers the counters of the younger lines.\<close>

definition storage_age :: "nat \<Rightarrow> nat \<Rightarrow> Cache \<times> nat \<Rightarrow> Cache \<times> nat" where
  "storage_age si jj = (\<lambda>(c, valid_start).
     (let e = cache_shadow_entries c ! si ! queue_ind c si jj
      in if ce_valid e
         then (upd_shadow si (queue_ind c si jj) (\<lambda>e. e\<lparr>ce_last_access_time := ce_last_access_time e - 1\<rparr>) c,
               if ce_last_access_time e - 1 = 0 then jj else valid_start)
         else (c, valid_start)))"

definition storage_drop :: "nat \<Rightarrow> nat \<Rightarrow> Cache \<Rightarrow> Cache" where
  "storage_drop si jj c = upd_shadow si (queue_ind c si jj) (\<lambda>e. e\<lparr>ce_valid := False\<rparr>) c"

definition access_ideal_storage :: "Cache_Env \<Rightarrow> nat \<Rightarrow> Addr \<Rightarrow> Addr \<Rightarrow> Cache \<Rightarrow> (ptr \<times> Cache) option" where
  "access_ideal_storage E si tag addr c =
     (let c = c\<lparr>cache_entries := (cache_entries c)[si :=
                  map (\<lambda>e. if hit_line tag e then e\<lparr>ce_last_access_time := sim_time E\<rparr> else e) (cache_row c si)]\<rparr>;
          qe = unat (cache_queue_end c ! si)
      in case find_ix (hit_line tag) (cache_shadow_entries c ! si) of
           None \<Rightarrow> Some (0, c)
         | Some ii \<Rightarrow>
             let dat = ce_data (cache_shadow_entries c ! si ! ii)
             in if dat = 0 then None
                else if ii = (qe + ideal_num_entries - 1) mod ideal_num_entries then Some (dat, c)
                else
                  let (c, valid_start) = fold (storage_age si)
                        [(ii + ideal_num_entries - qe) mod ideal_num_entries..<ideal_num_entries] (c, 0);
                      c = fold (storage_drop si) [0..<Suc valid_start] c;
                      c = upd_shadow si qe (\<lambda>e. e\<lparr>ce_valid := True, ce_tag := tag, ce_base := addr,
                            ce_last_access_time := ucast (cache_assoc c)\<rparr>) c
                  in Some (dat, c\<lparr>cache_queue_end := (cache_queue_end c)[si := of_nat ((qe + 1) mod ideal_num_entries)]\<rparr>))"

section \<open>Lookup\<close>

text \<open>
  \<^verbatim>\<open>cache_access\<close>: the data pointer (0 for a miss), the line address, the cache and the heap.
\<close>

definition cache_access ::
    "Cache_Env \<Rightarrow> Addr \<Rightarrow> bool \<Rightarrow> Cache \<times> Heap \<Rightarrow> (ptr \<times> Addr \<times> Cache \<times> Heap) option" where
  "cache_access E addr update_repl = (\<lambda>(c, h).
     (let (si, tag, line_addr) = cache_index c addr
      in if cache_repl_policy c = REPL_IDEAL_STORAGE
         then map_option (\<lambda>(p, c). (p, line_addr, c, h)) (access_ideal_storage E si tag addr c)
         else case find_ix (hit_line tag) (cache_row c si) of
           Some ii \<Rightarrow>
             let p = ce_data (cache_row c si ! ii)
             in if p = 0 then None
                else if update_repl
                then map_option (\<lambda>c. (p, line_addr, c, h))
                       (update_repl_policy E si ii
                         ((upd_line si ii (\<lambda>e. e\<lparr>ce_pref := False\<rparr>) c)
                            \<lparr>cache_num_demand_access := cache_num_demand_access c + 1\<rparr>))
                else Some (p, line_addr, c, h)
         | None \<Rightarrow>
             if cache_repl_policy c = REPL_IDEAL
             then map_option (\<lambda>(p, c, h). (p, line_addr, c, h)) (access_unsure_lines si tag (c, h))
             else if cache_repl_policy c = REPL_SHADOW_IDEAL
             then map_option (\<lambda>(p, c). (p, line_addr, c, h)) (access_shadow_lines E si tag c)
             else Some (0, line_addr, c, h)))"

section \<open>Insertion\<close>

text \<open>
  The first part of both insertion functions: the way the line goes to and the address it replaces,
  0 when the way was invalid. A valid victim of the shadow policy goes to the shadow cache.
\<close>

definition cache_take_line ::
    "Cache_Env \<Rightarrow> uns8 \<Rightarrow> nat \<Rightarrow> Cache \<times> Heap \<Rightarrow> (nat \<times> Addr \<times> Cache \<times> Heap) option" where
  "cache_take_line E proc_id si = (\<lambda>(c, h).
     (if cache_repl_policy c = REPL_IDEAL
      then map_option (\<lambda>(w, c, h). (w, 0, c, h)) (insert_sure_line si (c, h))
      else case find_repl_entry E c proc_id si of
        None \<Rightarrow> None
      | Some (w, c) \<Rightarrow>
          let e = cache_row c si ! w;
              c = (if cache_repl_policy c = REPL_SHADOW_IDEAL \<and> ce_valid e
                   then shadow_cache_insert E si (ce_tag e) (ce_base e) c else c)
          in Some (w, if ce_valid e then ce_base e else 0, c, h)))"

text \<open>
  The insertion sort of the access times in a set, an invalid line counting as 0. The array is kept
  reversed, so that the exchange with the left neighbour looks at the head.
\<close>

fun sort_in :: "Counter \<Rightarrow> Counter list \<Rightarrow> Counter list" where
  "sort_in x [] = [x]"
| "sort_in x (y # ys) = (if x < y then y # sort_in x ys else x # y # ys)"

definition access_times :: "Cache_Entry list \<Rightarrow> Counter list" where
  "access_times row =
     rev (foldl (\<lambda>acc e. sort_in (if ce_valid e then ce_last_access_time e else 0) acc) [] row)"

definition insert_time :: "Cache_Env \<Rightarrow> Cache_Insert_Repl \<Rightarrow> uns \<Rightarrow> Cache_Entry list \<Rightarrow> Counter \<Rightarrow> Counter" where
  "insert_time E repl assoc row t =
     (let t = (case repl of
                 INSERT_REPL_LRU \<Rightarrow> 123
               | INSERT_REPL_MRU \<Rightarrow> sim_time E
               | INSERT_REPL_MID \<Rightarrow> access_times row ! unat (assoc div 2)
               | INSERT_REPL_LOWQTR \<Rightarrow> access_times row ! unat (assoc div 4)
               | INSERT_REPL_DEFAULT \<Rightarrow> t)
      in if repl \<in> {INSERT_REPL_MID, INSERT_REPL_LOWQTR} \<and> t = 0 then sim_time E else t)"

text \<open>
  Under \<^verbatim>\<open>REPL_IDEAL_STORAGE\<close> the victim search stops at its assertion, so the last part of the two
  functions, for that policy, is never reached.
\<close>

definition cache_insert_replpos ::
    "Cache_Env \<Rightarrow> uns8 \<Rightarrow> Addr \<Rightarrow> Cache_Insert_Repl \<Rightarrow> bool \<Rightarrow> Cache \<times> Heap \<Rightarrow>
     (ptr \<times> Addr \<times> Addr \<times> Cache \<times> Heap) option" where
  "cache_insert_replpos E proc_id addr repl isPrefetch = (\<lambda>(c, h).
     (let (si, tag, line_addr) = cache_index c addr
      in case cache_take_line E proc_id si (c, h) of
        None \<Rightarrow> None
      | Some (w, repl_line_addr, c, h) \<Rightarrow>
          let c = upd_line si w (\<lambda>e. e\<lparr>ce_proc_id := proc_id, ce_valid := True, ce_tag := tag, ce_base := line_addr,
                                     ce_last_access_time := sim_time E, ce_pref := isPrefetch\<rparr>) c;
              r = (if repl = INSERT_REPL_DEFAULT then update_repl_policy E si w c
                   else Some (upd_line si w (\<lambda>e. e\<lparr>ce_last_access_time :=
                          insert_time E repl (cache_assoc c) (cache_row c si) (ce_last_access_time e)\<rparr>) c))
          in map_option (\<lambda>c. (ce_data (cache_row c si ! w), line_addr, repl_line_addr, c, h)) r))"

definition cache_insert ::
    "Cache_Env \<Rightarrow> uns8 \<Rightarrow> Addr \<Rightarrow> Cache \<times> Heap \<Rightarrow> (ptr \<times> Addr \<times> Addr \<times> Cache \<times> Heap) option" where
  "cache_insert E proc_id addr = cache_insert_replpos E proc_id addr INSERT_REPL_DEFAULT False"

definition cache_insert_lru ::
    "Cache_Env \<Rightarrow> uns8 \<Rightarrow> Addr \<Rightarrow> Cache \<times> Heap \<Rightarrow> (ptr \<times> Addr \<times> Addr \<times> Cache \<times> Heap) option" where
  "cache_insert_lru E proc_id addr = (\<lambda>(c, h).
     (let (si, tag, line_addr) = cache_index c addr
      in case cache_take_line E proc_id si (c, h) of
        None \<Rightarrow> None
      | Some (w, repl_line_addr, c, h) \<Rightarrow>
          (case update_repl_policy E si w
                  (upd_line si w (\<lambda>e. e\<lparr>ce_proc_id := proc_id, ce_valid := True, ce_tag := tag, ce_base := line_addr\<rparr>) c) of
             None \<Rightarrow> None
           | Some c \<Rightarrow>
               let c = (if cache_repl_policy c = REPL_TRUE_LRU
                        then upd_line si w (\<lambda>e. e\<lparr>ce_last_access_time := 137\<rparr>) c else c)
               in Some (ce_data (cache_row c si ! w), line_addr, repl_line_addr, c, h))))"

section \<open>The other operations\<close>

definition cache_invalidate :: "Addr \<Rightarrow> Cache \<times> Heap \<Rightarrow> (Addr \<times> Cache \<times> Heap) option" where
  "cache_invalidate addr = (\<lambda>(c, h).
     (let (si, tag, line_addr) = cache_index c addr;
          c = c\<lparr>cache_entries := (cache_entries c)[si :=
                map (\<lambda>e. if hit_line tag e then e\<lparr>ce_tag := 0, ce_valid := False, ce_base := 0\<rparr> else e) (cache_row c si)]\<rparr>
      in if cache_repl_policy c = REPL_IDEAL
         then map_option (\<lambda>(c, h). (line_addr, c, h)) (invalidate_unsure_line si tag (c, h))
         else Some (line_addr, c, h)))"

text \<open>The data pointer, base address and valid bit of the line that the next insertion would replace.\<close>

definition get_next_repl_line ::
    "Cache_Env \<Rightarrow> uns8 \<Rightarrow> Addr \<Rightarrow> Cache \<Rightarrow> (ptr \<times> Addr \<times> bool \<times> Cache) option" where
  "get_next_repl_line E proc_id addr c =
     (let (si, _, _) = cache_index c addr
      in map_option (\<lambda>(w, c). let e = cache_row c si ! w in (ce_data e, ce_base e, ce_valid e, c))
           (find_repl_entry E c proc_id si))"

definition reset_cache :: "Cache \<Rightarrow> Cache" where
  "reset_cache c = c\<lparr>cache_entries := map (map (\<lambda>e. e\<lparr>ce_valid := False\<rparr>)) (cache_entries c)\<rparr>"

text \<open>The number of younger lines of the same core; -1 for a miss.\<close>

definition cache_find_pos_in_lru_stack :: "uns8 \<Rightarrow> Addr \<Rightarrow> Cache \<Rightarrow> int option" where
  "cache_find_pos_in_lru_stack proc_id addr c =
     (let (si, tag, _) = cache_index c addr; row = cache_row c si
      in case find_ix (hit_line tag) row of
           None \<Rightarrow> Some (-1)
         | Some ii \<Rightarrow>
             if ce_proc_id (row ! ii) \<noteq> proc_id then None
             else Some (int (length (filter (\<lambda>e. ce_proc_id (row ! ii) = ce_proc_id e \<and>
                         ce_last_access_time (row ! ii) < ce_last_access_time e) row))))"

definition set_partition_allocate :: "Cache_Env \<Rightarrow> uns8 \<Rightarrow> uns \<Rightarrow> Cache \<Rightarrow> Cache option" where
  "set_partition_allocate E proc_id num_ways c =
     (case cache_num_ways_allocted_core c of
        Some alloc \<Rightarrow>
          if l1_part_on E \<and> unat proc_id < length alloc
          then Some (c\<lparr>cache_num_ways_allocted_core := Some (alloc[unat proc_id := num_ways])\<rparr>) else None
      | None \<Rightarrow> None)"

definition get_partition_allocated :: "uns8 \<Rightarrow> Cache \<Rightarrow> uns option" where
  "get_partition_allocated proc_id c =
     (case cache_num_ways_allocted_core c of
        Some alloc \<Rightarrow>
          if cache_repl_policy c = REPL_PARTITION \<and> unat proc_id < length alloc
          then Some (alloc ! unat proc_id) else None
      | None \<Rightarrow> None)"

end
