(* ===== verification/Cache_Inv.thy ===== *)
theory Cache_Inv
  imports Cache_Lib
begin

text \<open>
  The cache as a map from lines to data pointers: the invariant of the entries, what each operation
  does to the map, and the policies that keep their lines in the main entries only.
\<close>

section \<open>Invariant\<close>

definition row_ok :: "Cache_Entry list \<Rightarrow> bool" where
  "row_ok row \<longleftrightarrow> distinct (map ce_tag (filter ce_valid row)) \<and>
     (\<forall>e \<in> set row. ce_data e \<noteq> 0 \<and> (ce_valid e \<longrightarrow> ce_last_access_time e < MAX_CTR))"

definition index_ok :: "Cache \<Rightarrow> bool" where
  "index_ok c \<longleftrightarrow> (\<exists>k < 32. cache_set_mask c = mask k \<and> cache_tag_mask c = NOT (mask k) \<and>
       2 ^ k \<le> length (cache_entries c)) \<and>
     cache_shift_bits c < 32 \<and> cache_offset_mask c = mask (unat (cache_shift_bits c))"

definition base_ok :: "Cache \<Rightarrow> nat \<Rightarrow> Cache_Entry \<Rightarrow> bool" where
  "base_ok c si e \<longleftrightarrow> (ce_valid e \<longrightarrow> cache_index c (ce_base e) = (si, ce_tag e, ce_base e))"

definition cache_inv :: "Cache \<Rightarrow> bool" where
  "cache_inv c \<longleftrightarrow> 0 < cache_assoc c \<and> index_ok c \<and> length (cache_repl_ctrs c) = length (cache_entries c) \<and>
     (\<forall>si < length (cache_entries c). length (cache_row c si) = unat (cache_assoc c) \<and> row_ok (cache_row c si) \<and>
        (\<forall>e \<in> set (cache_row c si). base_ok c si e) \<and> cache_repl_ctrs c ! si < cache_assoc c)"

text \<open>The policies that keep a line in the main entries only.\<close>

definition direct_policy :: "Repl_Policy \<Rightarrow> bool" where
  "direct_policy r \<longleftrightarrow> r \<in> {REPL_TRUE_LRU, REPL_RANDOM, REPL_NOT_MRU, REPL_ROUND_ROBIN, REPL_LOW_PREF, REPL_PARTITION}"

text \<open>The abstract cache: the data pointer of a resident line.\<close>

definition row_look :: "Addr \<Rightarrow> Cache_Entry list \<Rightarrow> ptr option" where
  "row_look tag row = map_option (\<lambda>i. ce_data (row ! i)) (find_ix (hit_line tag) row)"

definition cache_look :: "Cache \<Rightarrow> Addr \<Rightarrow> ptr option" where
  "cache_look c a = (let (si, tag, _) = cache_index c a in row_look tag (cache_row c si))"

section \<open>Indexing\<close>

lemma cache_index_lt:
  assumes "index_ok c" "cache_index c a = (si, tag, la)"
  shows "si < length (cache_entries c)"
proof -
  obtain k where k: "k < 32" "cache_set_mask c = mask k" "2 ^ k \<le> length (cache_entries c)"
    using assms(1) by (auto simp: index_ok_def)
  let ?x = "drop_bit (unat (cache_shift_bits c)) a AND mask k :: Addr"
  have "unat ?x < 2 ^ k"
    by (simp add: unsigned_take_bit_eq flip: take_bit_eq_mask)
  moreover have "si \<le> unat ?x" using assms(2) k(2) unat_ucast_le [of ?x] by (auto simp: cache_index_def)
  ultimately show ?thesis using k(3) by linarith
qed

lemma and_split: "x = y \<longleftrightarrow> x AND m = y AND m \<and> x AND NOT m = y AND NOT m" for x y m :: Addr
  by (auto simp: bit_eq_iff bit_simps)

lemma line_drop_bit:
  "a AND NOT (mask s) = b AND NOT (mask s) \<longleftrightarrow> drop_bit s a = drop_bit s b" for a b :: Addr
proof -
  have e: "x AND NOT (mask s) = push_bit s (drop_bit s x)" for x :: Addr
    by (rule bit_eqI) (auto simp: bit_simps not_less)
  have "drop_bit s (push_bit s (drop_bit s x)) = drop_bit s x" for x :: Addr
    by (rule bit_eqI) (auto simp: bit_simps dest: bit_imp_le_length)
  then show ?thesis unfolding e by metis
qed

lemma set_index_eq:
  fixes x y :: Addr
  assumes "k < 32"
  shows "unat (ucast (x AND mask k) :: uns) = unat (ucast (y AND mask k) :: uns) \<longleftrightarrow> x AND mask k = y AND mask k"
proof -
  have "unat (ucast (z AND mask k) :: uns) = unat (z AND mask k)" for z :: Addr
  proof (rule unat_ucast_32)
    have "unat (z AND mask k) < 2 ^ k" by (simp add: unsigned_take_bit_eq flip: take_bit_eq_mask)
    also have "(2::nat) ^ k \<le> 2 ^ 31" using assms by (intro power_increasing) auto
    finally show "unat (z AND mask k) < 4294967296" by simp
  qed
  then show ?thesis by (simp add: word_unat_eq_iff)
qed

lemma cache_index_line:
  assumes "index_ok c" "cache_index c a = (si, tag, la)" "cache_index c b = (sj, tag', lb)"
  shows "si = sj \<and> tag = tag' \<longleftrightarrow> la = lb"
proof -
  obtain k where k: "k < 32" "cache_set_mask c = mask k" "cache_tag_mask c = NOT (mask k)"
    using assms(1) by (auto simp: index_ok_def)
  let ?s = "unat (cache_shift_bits c)"
  have "la = lb \<longleftrightarrow> drop_bit ?s a = drop_bit ?s b"
    using assms line_drop_bit [of a ?s b] by (auto simp: cache_index_def index_ok_def)
  also have "\<dots> \<longleftrightarrow> si = sj \<and> tag = tag'"
    using assms(2,3) k(2,3) set_index_eq [OF k(1), of "drop_bit ?s a" "drop_bit ?s b"]
      and_split [of "drop_bit ?s a" "drop_bit ?s b" "mask k"]
    by (auto simp: cache_index_def)
  finally show ?thesis by blast
qed

text \<open>A line address is its own line, so that a base address indexes back to its entry.\<close>

lemma cache_index_base:
  assumes "index_ok c" "cache_index c a = (si, tag, la)"
  shows "cache_index c la = (si, tag, la)"
proof -
  obtain sj tag' lb where b: "cache_index c la = (sj, tag', lb)" using prod_cases3 by blast
  have "lb = la" using assms b by (auto simp: cache_index_def bit_eq_iff bit_simps)
  with cache_index_line [OF assms(1) b assms(2)] b show ?thesis by simp
qed

lemma cache_index_frame:
  assumes "cache_shift_bits c' = cache_shift_bits c" "cache_set_mask c' = cache_set_mask c"
    "cache_tag_mask c' = cache_tag_mask c" "cache_offset_mask c' = cache_offset_mask c"
  shows "cache_index c' = cache_index c"
  using assms by (simp add: cache_index_def fun_eq_iff)

section \<open>Rows\<close>

lemma find_hit:
  assumes "distinct (map ce_tag (filter ce_valid row))"
  shows "find_ix (hit_line tag) row = Some i \<longleftrightarrow> i < length row \<and> hit_line tag (row ! i)"
proof
  assume "find_ix (hit_line tag) row = Some i"
  then show "i < length row \<and> hit_line tag (row ! i)" using find_ix_SomeD(1,2) by blast
next
  assume i: "i < length row \<and> hit_line tag (row ! i)"
  then have "\<not> hit_line tag (row ! j)" if "j < i" for j
    using distinct_map_filterD [OF assms, of i j] that by (auto simp: hit_line_def)
  with i show "find_ix (hit_line tag) row = Some i" by (simp add: find_ix_Some)
qed

lemma row_look_Some:
  assumes "distinct (map ce_tag (filter ce_valid row))"
  shows "row_look tag row = Some p \<longleftrightarrow> (\<exists>i < length row. hit_line tag (row ! i) \<and> ce_data (row ! i) = p)"
  using find_hit [OF assms] by (auto simp: row_look_def)

lemma row_look_None: "row_look tag row = None \<longleftrightarrow> (\<forall>i < length row. \<not> hit_line tag (row ! i))"
  by (simp add: row_look_def find_ix_None all_set_conv_all_nth)

lemma row_look_cong:
  assumes "length r' = length r"
    "\<And>i. i < length r \<Longrightarrow> ce_valid (r' ! i) = ce_valid (r ! i) \<and> ce_tag (r' ! i) = ce_tag (r ! i) \<and> ce_data (r' ! i) = ce_data (r ! i)"
  shows "row_look tag r' = row_look tag r"
proof -
  have "find_ix (hit_line tag) r' = find_ix (hit_line tag) r"
    using assms by (intro find_ix_cong) (auto simp: hit_line_def)
  then show ?thesis using assms
    by (cases "find_ix (hit_line tag) r") (auto simp: row_look_def dest: find_ix_SomeD(1))
qed

text \<open>Writing a valid line whose tag no other way holds.\<close>

lemma row_update:
  assumes d: "distinct (map ce_tag (filter ce_valid row))" and w: "w < length row" and v: "ce_valid e"
    and new: "\<And>j. j < length row \<Longrightarrow> j \<noteq> w \<Longrightarrow> \<not> hit_line (ce_tag e) (row ! j)"
  shows "distinct (map ce_tag (filter ce_valid (row[w := e])))"
    and "row_look tag (row[w := e]) =
      (if tag = ce_tag e then Some (ce_data e) else if hit_line tag (row ! w) then None else row_look tag row)"
proof -
  show d': "distinct (map ce_tag (filter ce_valid (row[w := e])))"
    using new by (intro distinct_map_filter_update [OF d]) (auto simp: hit_line_def)
  show "row_look tag (row[w := e]) =
      (if tag = ce_tag e then Some (ce_data e) else if hit_line tag (row ! w) then None else row_look tag row)"
  proof (cases "tag = ce_tag e")
    case True
    then show ?thesis using w v
      by (simp add: row_look_Some [OF d']) (auto intro: exI [of _ w] simp: hit_line_def)
  next
    case ne: False
    show ?thesis
    proof (cases "hit_line tag (row ! w)")
      case True
      then have "\<not> hit_line tag (row ! j)" if "j < length row" "j \<noteq> w" for j
        using distinct_map_filterD [OF d _ w, of j] that by (auto simp: hit_line_def)
      then have "\<not> hit_line tag (row[w := e] ! j)" if "j < length row" for j
        using that ne w by (cases "j = w") (auto simp: hit_line_def)
      with ne True show ?thesis by (simp add: row_look_None)
    next
      case False
      have n: "\<not> hit_line tag e" using ne by (simp add: hit_line_def)
      have "find_ix (hit_line tag) (row[w := e]) = find_ix (hit_line tag) row"
        using n False w by (intro find_ix_cong) (auto simp: nth_list_update)
      moreover have "i \<noteq> w" if "find_ix (hit_line tag) row = Some i" for i
        using False find_ix_SomeD(2) [OF that] by auto
      ultimately have "row_look tag (row[w := e]) = row_look tag row"
        by (cases "find_ix (hit_line tag) row") (auto simp: row_look_def)
      with ne False show ?thesis by simp
    qed
  qed
qed

text \<open>Clearing a valid bit.\<close>

lemma row_invalidate:
  assumes d: "distinct (map ce_tag (filter ce_valid row))"
    and f: "f = (\<lambda>e. if hit_line tag e then e\<lparr>ce_tag := 0, ce_valid := False, ce_base := 0\<rparr> else e)"
  shows "distinct (map ce_tag (filter ce_valid (map f row)))"
    and "row_look t (map f row) = (if t = tag then None else row_look t row)"
proof -
  have h: "hit_line t (f e) \<longleftrightarrow> t \<noteq> tag \<and> hit_line t e" for t e by (auto simp: f hit_line_def)
  have fe: "hit_line t (f e) \<Longrightarrow> f e = e" for t e by (auto simp: f hit_line_def)
  show d': "distinct (map ce_tag (filter ce_valid (map f row)))"
    unfolding distinct_map_filter_conv
  proof (intro allI impI)
    fix i j assume "i < length (map f row)" "j < length (map f row)" "i \<noteq> j" "ce_valid (map f row ! i)" "ce_valid (map f row ! j)"
    then show "ce_tag (map f row ! i) \<noteq> ce_tag (map f row ! j)"
      using distinct_map_filterD [OF d, of i j] by (auto simp: f split: if_splits)
  qed
  have "row_look t (map f row) = Some p \<longleftrightarrow> t \<noteq> tag \<and> row_look t row = Some p" for p
    using h fe by (auto simp: row_look_Some [OF d] row_look_Some [OF d'])
  then show "row_look t (map f row) = (if t = tag then None else row_look t row)"
    by (metis not_Some_eq)
qed

section \<open>Writing a line, a counter\<close>

lemma cache_row_upd_line:
  assumes "si < length (cache_entries c)"
  shows "cache_row (upd_line si w f c) sj =
    (if sj = si then (cache_row c si)[w := f (cache_row c si ! w)] else cache_row c sj)"
  using assms by (simp add: upd_line_def cache_row_def)

lemma upd_line_frame [simp]:
  "cache_index (upd_line si w f c) = cache_index c"
  "length (cache_entries (upd_line si w f c)) = length (cache_entries c)"
  "cache_repl_ctrs (upd_line si w f c) = cache_repl_ctrs c"
  "cache_assoc (upd_line si w f c) = cache_assoc c"
  "cache_repl_policy (upd_line si w f c) = cache_repl_policy c"
  "index_ok (upd_line si w f c) = index_ok c"
  "cache_shadow_entries (upd_line si w f c) = cache_shadow_entries c"
  "base_ok (upd_line si w f c) = base_ok c"
  by (simp_all add: upd_line_def cache_index_def index_ok_def fun_eq_iff base_ok_def)

lemma set_repl_ctr_frame [simp]:
  "cache_index (set_repl_ctr si v c) = cache_index c"
  "cache_entries (set_repl_ctr si v c) = cache_entries c"
  "cache_row (set_repl_ctr si v c) = cache_row c"
  "cache_look (set_repl_ctr si v c) = cache_look c"
  "cache_assoc (set_repl_ctr si v c) = cache_assoc c"
  "cache_repl_policy (set_repl_ctr si v c) = cache_repl_policy c"
  "index_ok (set_repl_ctr si v c) = index_ok c"
  "length (cache_repl_ctrs (set_repl_ctr si v c)) = length (cache_repl_ctrs c)"
  "base_ok (set_repl_ctr si v c) = base_ok c"
  by (simp_all add: set_repl_ctr_def cache_index_def index_ok_def fun_eq_iff cache_row_def cache_look_def base_ok_def)

lemma cache_invD:
  assumes "cache_inv c"
  shows "0 < cache_assoc c" "index_ok c" "length (cache_repl_ctrs c) = length (cache_entries c)"
    "si < length (cache_entries c) \<Longrightarrow> length (cache_row c si) = unat (cache_assoc c)"
    "si < length (cache_entries c) \<Longrightarrow> row_ok (cache_row c si)"
    "si < length (cache_entries c) \<Longrightarrow> distinct (map ce_tag (filter ce_valid (cache_row c si)))"
    "si < length (cache_entries c) \<Longrightarrow> e \<in> set (cache_row c si) \<Longrightarrow> base_ok c si e"
    "si < length (cache_entries c) \<Longrightarrow> e \<in> set (cache_row c si) \<Longrightarrow> ce_data e \<noteq> 0"
    "si < length (cache_entries c) \<Longrightarrow> e \<in> set (cache_row c si) \<Longrightarrow> ce_valid e \<Longrightarrow> ce_last_access_time e < MAX_CTR"
    "si < length (cache_entries c) \<Longrightarrow> cache_repl_ctrs c ! si < cache_assoc c"
  using assms by (auto simp: cache_inv_def row_ok_def)

lemma cache_row_ne: "cache_inv c \<Longrightarrow> si < length (cache_entries c) \<Longrightarrow> cache_row c si \<noteq> []"
  using cache_invD(1) [of c] cache_invD(4) [of c si] by (auto simp: word_less_nat_alt)

lemma set_repl_ctr_nth: "cache_repl_ctrs (set_repl_ctr si v c) = (cache_repl_ctrs c)[si := v]"
  by (simp add: set_repl_ctr_def)

lemma set_repl_ctr_inv:
  "cache_inv c \<Longrightarrow> v < cache_assoc c \<Longrightarrow> cache_inv (set_repl_ctr si v c)"
  by (auto simp: cache_inv_def) (metis nth_list_update nth_list_update_neq set_repl_ctr_nth)

text \<open>A write at a way keeps the invariant when the new line is well formed and its tag is new to the set.\<close>

lemma upd_line_inv:
  assumes inv: "cache_inv c" and si: "si < length (cache_entries c)" and w: "w < length (cache_row c si)"
    and e: "e = f (cache_row c si ! w)" "ce_data e \<noteq> 0" "base_ok c si e"
    and v: "ce_valid e" "ce_last_access_time e < MAX_CTR"
    and new: "\<And>j. j < length (cache_row c si) \<Longrightarrow> j \<noteq> w \<Longrightarrow> \<not> hit_line (ce_tag e) (cache_row c si ! j)"
  shows "cache_inv (upd_line si w f c)"
    and "cache_look (upd_line si w f c) a =
      (let (sj, t, _) = cache_index c a
       in if sj = si \<and> t = ce_tag e then Some (ce_data e)
          else if sj = si \<and> hit_line t (cache_row c si ! w) then None else cache_look c a)"
proof -
  note row = cache_row_upd_line [OF si, of w f]
  note d = cache_invD(6) [OF inv si]
  note u = row_update [OF d w v(1) new]
  have "row_ok ((cache_row c si)[w := e])"
    using u(1) cache_invD(5) [OF inv si] e(2) v by (auto simp: row_ok_def dest: in_set_updD)
  moreover have "base_ok c si x" if "x \<in> set ((cache_row c si)[w := e])" for x
    using in_set_updD [OF that] cache_invD(7) [OF inv si] e(3) by auto
  ultimately show "cache_inv (upd_line si w f c)"
    using inv unfolding cache_inv_def by (auto simp: row e(1))
  show "cache_look (upd_line si w f c) a =
      (let (sj, t, _) = cache_index c a
       in if sj = si \<and> t = ce_tag e then Some (ce_data e)
          else if sj = si \<and> hit_line t (cache_row c si ! w) then None else cache_look c a)"
    using u(2) by (auto simp: cache_look_def row e(1) split: prod.splits)
qed

text \<open>A write that keeps tag, base, data and valid bit of a valid line changes nothing in the map.\<close>

lemma touch_line_ok:
  assumes inv: "cache_inv c" and si: "si < length (cache_entries c)" and w: "w < length (cache_row c si)"
    and v: "ce_valid (cache_row c si ! w)"
    and f: "\<And>e. ce_valid (f e) = ce_valid e" "\<And>e. ce_tag (f e) = ce_tag e" "\<And>e. ce_base (f e) = ce_base e"
      "\<And>e. ce_data (f e) = ce_data e" "ce_last_access_time (f (cache_row c si ! w)) < MAX_CTR"
  shows "cache_inv (upd_line si w f c)" and "cache_look (upd_line si w f c) = cache_look c"
proof -
  let ?e = "cache_row c si ! w"
  have m: "?e \<in> set (cache_row c si)" using w by simp
  have new: "\<not> hit_line (ce_tag (f ?e)) (cache_row c si ! j)" if "j < length (cache_row c si)" "j \<noteq> w" for j
    using distinct_map_filterD [OF cache_invD(6) [OF inv si] that(1) w] that v by (auto simp: hit_line_def f)
  have b: "base_ok c si (f ?e)" using cache_invD(7) [OF inv si m] by (simp add: base_ok_def f)
  have fe: "ce_data (f ?e) \<noteq> 0" "ce_valid (f ?e)" using cache_invD(8) [OF inv si m] v by (simp_all add: f)
  note u = upd_line_inv [where f = f and e = "f ?e", OF inv si w refl fe(1) b fe(2) f(5) new]
  show "cache_inv (upd_line si w f c)" by (rule u(1))
  have "cache_look c a = (let (sj, t, _) = cache_index c a
       in if sj = si \<and> t = ce_tag (f ?e) then Some (ce_data (f ?e))
          else if sj = si \<and> hit_line t ?e then None else cache_look c a)" for a
  proof -
    obtain sj t la where i: "cache_index c a = (sj, t, la)" using prod_cases3 by blast
    have "row_look (ce_tag ?e) (cache_row c si) = Some (ce_data ?e)"
      using row_look_Some [OF cache_invD(6) [OF inv si]] w v by (auto simp: hit_line_def)
    then show ?thesis using i by (auto simp: cache_look_def f hit_line_def)
  qed
  then show "cache_look (upd_line si w f c) = cache_look c"
    using u(2) by (simp add: fun_eq_iff)
qed

section \<open>The replacement state\<close>

lemma CIRC_INC2_lt: "0 < (n :: uns) \<Longrightarrow> CIRC_INC2 v n < n"
proof -
  assume n: "0 < n"
  have "1 \<le> n" using inc_le [of 0 n] n by simp
  then have "unat (n - 1) = unat n - 1" using unat_sub [of 1 n] by simp
  with n have "n - 1 < n" by (simp add: word_less_nat_alt)
  have "CIRC_INC2 v n \<le> n - 1" unfolding CIRC_INC2_def by (rule word_and_le1)
  then show ?thesis using \<open>n - 1 < n\<close> by (rule order.strict_trans1)
qed

lemma low_pref_scan_Some: "fst (low_pref_scan ii (Some k, tm) row) \<noteq> None"
  by (induction row arbitrary: ii k tm) auto

lemma low_pref_scan_ix:
  "low_pref_scan ii (ind, tm) row = (Some i, t) \<Longrightarrow> i < ii + length row \<or> ind = Some i"
  by (induction row arbitrary: ii ind tm) (fastforce split: if_splits)+

lemma low_pref_scan_None:
  "low_pref_scan ii (None, tm) row = (None, t) \<Longrightarrow> t = tm \<and> (\<forall>e \<in> set row. ce_valid e)"
proof (induction row arbitrary: ii)
  case (Cons e row)
  then show ?case using low_pref_scan_Some [of "Suc ii" ii "ce_last_access_time e" row]
    by (auto split: if_splits)
qed simp

lemma oldest_scan_ix:
  "oldest_scan ii (ind, tm) row = (Some i, t) \<Longrightarrow> i < ii + length row \<or> ind = Some i"
  by (induction row arbitrary: ii ind tm) (fastforce split: if_splits)+

lemma oldest_scan_Some: "fst (oldest_scan ii (Some k, tm) row) \<noteq> None"
  by (induction row arbitrary: ii k tm) auto

lemma low_pref_victim_lt:
  assumes "row \<noteq> []" "length row < 2 ^ 32" "\<And>e. e \<in> set row \<Longrightarrow> ce_valid e \<Longrightarrow> ce_last_access_time e < MAX_CTR"
  shows "unat (low_pref_victim row) < length row"
proof (cases "low_pref_scan 0 (None, MAX_CTR) row")
  case (Pair ind t)
  show ?thesis
  proof (cases ind)
    case (Some i)
    with Pair low_pref_scan_ix [of 0 None MAX_CTR row i t] assms(2) show ?thesis
      by (simp add: low_pref_victim_def unat_of_nat)
  next
    case None
    with Pair have t: "t = MAX_CTR" "\<forall>e \<in> set row. ce_valid e"
      using low_pref_scan_None [of 0 MAX_CTR row t] by auto
    obtain e es where row: "row = e # es" using assms(1) by (cases row) auto
    have "ce_last_access_time e < MAX_CTR" using assms(3) [of e] t(2) row by simp
    then have "fst (oldest_scan 0 (None, MAX_CTR) row) \<noteq> None"
      using oldest_scan_Some [of 1 0 "ce_last_access_time e" es] by (simp add: row)
    then obtain i t' where s: "oldest_scan 0 (None, MAX_CTR) row = (Some i, t')"
      by (cases "oldest_scan 0 (None, MAX_CTR) row") auto
    with oldest_scan_ix [of 0 None MAX_CTR row i t'] have "i < length row" by simp
    with None Pair s t(1) assms(2) show ?thesis by (simp add: low_pref_victim_def unat_of_nat)
  qed
qed

text \<open>Updating the replacement state of a valid line leaves the map alone and keeps the invariant.\<close>

lemma update_repl_ok:
  assumes inv: "cache_inv c" and p: "direct_policy (cache_repl_policy c)" and si: "si < length (cache_entries c)"
    and w: "w < length (cache_row c si)" "ce_valid (cache_row c si ! w)" and t: "sim_time E < MAX_CTR"
  obtains c' where "update_repl_policy E si w c = Some c'" "cache_inv c'" "cache_look c' = cache_look c"
    "cache_repl_policy c' = cache_repl_policy c" "cache_index c' = cache_index c" "cache_assoc c' = cache_assoc c"
    "length (cache_entries c') = length (cache_entries c)"
    "map ce_data (cache_row c' si) = map ce_data (cache_row c si)"
proof -
  let ?f = "\<lambda>e. e\<lparr>ce_last_access_time := sim_time E\<rparr>"
  note touch = touch_line_ok [of c si w ?f, OF inv si w]
  have data: "map ce_data (cache_row (upd_line si w ?f c) si) = map ce_data (cache_row c si)"
    using w(1) by (simp add: cache_row_upd_line [OF si] map_update list_update_same_conv)
  have assoc: "0 < cache_assoc c" "length (cache_row c si) = unat (cache_assoc c)"
    using cache_invD(1,4) [OF inv] si by auto
  have lt: "low_pref_victim (cache_row c si) < cache_assoc c"
    using low_pref_victim_lt [of "cache_row c si"] assoc cache_invD(9) [OF inv si] w(1)
      unsigned_less [where 'a = nat, of "cache_assoc c"]
    by (fastforce simp: word_less_nat_alt)
  have "0 < cache_assoc c \<Longrightarrow> rand_value E mod cache_assoc c < cache_assoc c"
    by (simp add: word_less_nat_alt unat_mod unat_gt_0 word_gt_0)
  with assoc(1) have m: "rand_value E mod cache_assoc c < cache_assoc c" by blast
  note ctr = set_repl_ctr_inv [OF inv]
  have "cache_repl_policy c \<in> {REPL_TRUE_LRU, REPL_RANDOM, REPL_NOT_MRU, REPL_ROUND_ROBIN, REPL_LOW_PREF, REPL_PARTITION}"
    using p by (simp add: direct_policy_def)
  then show thesis
    using touch t data ctr lt m CIRC_INC2_lt [OF assoc(1)] inv
    by (intro that [of "the (update_repl_policy E si w c)"]) (auto simp: update_repl_policy_def Let_def)
qed

section \<open>The victim\<close>

lemma le_MAX_CTR: "x \<le> MAX_CTR"
proof -
  have m: "MAX_CTR = - 1" by (simp add: MAX_CTR_def)
  show ?thesis unfolding m by (rule word_order.extremum)
qed

lemma lru_way_lt: "row \<noteq> [] \<Longrightarrow> fst (lru_way row) < length row"
  using lru_scan_victim(1) [of ce_valid ce_last_access_time MAX_CTR row]
  by (cases "lru_way row") (auto simp: lru_way_def le_MAX_CTR)

lemma last_invalid_cases:
  "(last_invalid ctr row = ctr \<and> (\<forall>i < length row. ce_valid (row ! i))) \<or>
   (last_invalid ctr row < length row \<and> \<not> ce_valid (row ! last_invalid ctr row))"
proof -
  have "(foldl (\<lambda>w ii. if ce_valid (row ! ii) then w else ii) ctr [0..<n] = ctr \<and> (\<forall>i < n. ce_valid (row ! i))) \<or>
     (foldl (\<lambda>w ii. if ce_valid (row ! ii) then w else ii) ctr [0..<n] < n \<and>
      \<not> ce_valid (row ! foldl (\<lambda>w ii. if ce_valid (row ! ii) then w else ii) ctr [0..<n]))" for n
    by (induction n) (auto simp: less_Suc_eq)
  then show ?thesis by (simp add: last_invalid_def)
qed

text \<open>Only the partition tables change, and the way is one of the set.\<close>

definition part_tables_upd :: "part_tables \<Rightarrow> Cache \<Rightarrow> Cache" where
  "part_tables_upd = (\<lambda>(occ, idx, tm) c.
     c\<lparr>cache_num_ways_occupied_core := occ, cache_lru_index_core := idx, cache_lru_time_core := tm\<rparr>)"

lemma part_tables_frame [simp]:
  "cache_index (part_tables_upd x c) = cache_index c"
  "cache_entries (part_tables_upd x c) = cache_entries c"
  "cache_row (part_tables_upd x c) = cache_row c"
  "cache_look (part_tables_upd x c) = cache_look c"
  "cache_assoc (part_tables_upd x c) = cache_assoc c"
  "cache_repl_policy (part_tables_upd x c) = cache_repl_policy c"
  "cache_repl_ctrs (part_tables_upd x c) = cache_repl_ctrs c"
  "cache_inv (part_tables_upd x c) = cache_inv c"
  by (simp_all add: part_tables_upd_def cache_index_def fun_eq_iff cache_row_def cache_look_def
      cache_inv_def index_ok_def base_ok_def split: prod.splits)

lemma part_find_tables:
  "part_find E c pid si = Some (w, c1) \<Longrightarrow> \<exists>x. c1 = part_tables_upd x c"
  by (auto simp: part_find_def part_tables_upd_def Let_def split: option.splits if_splits prod.splits)

lemma find_repl_frame:
  assumes "find_repl_entry E c pid si = Some (w, c1)"
  shows "w < length (cache_row c si)" "c1 = c \<or> (\<exists>x. c1 = part_tables_upd x c)"
    "cache_row c1 = cache_row c" "cache_index c1 = cache_index c" "cache_look c1 = cache_look c"
    "cache_inv c1 = cache_inv c" "cache_repl_policy c1 = cache_repl_policy c" "cache_assoc c1 = cache_assoc c"
    "length (cache_entries c1) = length (cache_entries c)"
proof -
  show *: "c1 = c \<or> (\<exists>x. c1 = part_tables_upd x c)"
    using assms
    by (auto simp: find_repl_entry_def Let_def simp del: split_paired_Ex split_paired_All
        split: option.splits if_splits Repl_Policy.splits dest!: part_find_tables)
  show "w < length (cache_row c si)"
    using assms by (auto simp: find_repl_entry_def Let_def split: option.splits if_splits)
  show "cache_row c1 = cache_row c" "cache_index c1 = cache_index c" "cache_look c1 = cache_look c"
    "cache_inv c1 = cache_inv c" "cache_repl_policy c1 = cache_repl_policy c" "cache_assoc c1 = cache_assoc c"
    "length (cache_entries c1) = length (cache_entries c)"
    using * by auto
qed

lemma find_repl_total:
  assumes inv: "cache_inv c" and si: "si < length (cache_entries c)"
    and p: "direct_policy (cache_repl_policy c)" "cache_repl_policy c \<noteq> REPL_PARTITION"
  shows "\<exists>w. find_repl_entry E c pid si = Some (w, c)"
proof -
  have l: "length (cache_row c si) = unat (cache_assoc c)" by (rule cache_invD(4) [OF inv si])
  then have ne: "cache_row c si \<noteq> []" using cache_invD(1) [OF inv] by (auto simp: word_less_nat_alt)
  have "last_invalid (unat (cache_repl_ctrs c ! si)) (cache_row c si) < length (cache_row c si)"
    using last_invalid_cases [of "unat (cache_repl_ctrs c ! si)" "cache_row c si"] cache_invD(10) [OF inv si] l
    by (auto simp: word_less_nat_alt)
  with lru_way_lt [OF ne] p show ?thesis
    by (auto simp: find_repl_entry_def direct_policy_def Let_def)
qed

section \<open>Insertion times\<close>

lemma set_sort_in: "set (sort_in x ys) = insert x (set ys)"
  by (induction ys) auto

lemma length_sort_in: "length (sort_in x ys) = Suc (length ys)"
  by (induction ys) auto

lemma sorted_sort_in: "sorted (rev ys) \<Longrightarrow> sorted (rev (sort_in x ys))"
  by (induction ys) (auto simp: sorted_append set_sort_in)

text \<open>The insertion sort of the code sorts.\<close>

lemma access_times_sorted:
  "sorted (access_times row)" "length (access_times row) = length row"
  "set (access_times row) = (\<lambda>e. if ce_valid e then ce_last_access_time e else 0) ` set row"
proof -
  let ?t = "\<lambda>e. if ce_valid e then ce_last_access_time e else 0"
  have "(sorted (rev acc) \<longrightarrow> sorted (rev (foldl (\<lambda>acc e. sort_in (?t e) acc) acc row))) \<and>
    length (foldl (\<lambda>acc e. sort_in (?t e) acc) acc row) = length acc + length row \<and>
    set (foldl (\<lambda>acc e. sort_in (?t e) acc) acc row) = set acc \<union> ?t ` set row" for acc
    by (induction row arbitrary: acc) (auto simp: set_sort_in length_sort_in sorted_sort_in)
  from this [of "[]"] show "sorted (access_times row)" "length (access_times row) = length row"
    "set (access_times row) = ?t ` set row"
    by (simp_all add: access_times_def)
qed

lemma insert_time_lt:
  assumes "sim_time E < MAX_CTR" "t < MAX_CTR" "length row = unat assoc" "0 < assoc"
    "\<And>e. e \<in> set row \<Longrightarrow> ce_valid e \<Longrightarrow> ce_last_access_time e < MAX_CTR"
  shows "insert_time E repl assoc row t < MAX_CTR"
proof -
  have "unat (assoc div k) < length (access_times row)" if "k = 2 \<or> k = 4" for k
    using that assms(3,4) by (auto simp: access_times_sorted(2) unat_div word_less_nat_alt)
  then have "access_times row ! unat (assoc div k) \<in> set (access_times row)" if "k = 2 \<or> k = 4" for k
    using that by simp
  then have "access_times row ! unat (assoc div k) < MAX_CTR" if "k = 2 \<or> k = 4" for k
    using that assms(5) unfolding access_times_sorted(3) by (fastforce simp: MAX_CTR_def)
  with assms(1,2) show ?thesis by (auto simp: insert_time_def Let_def MAX_CTR_def split: Cache_Insert_Repl.splits)
qed

section \<open>The operations on the map\<close>

lemma cache_repl_policy_demand: "cache_repl_policy (c\<lparr>cache_num_demand_access := n\<rparr>) = cache_repl_policy c"
  by simp

lemma demand_frame [simp]:
  "cache_inv (c\<lparr>cache_num_demand_access := n\<rparr>) = cache_inv c"
  "cache_look (c\<lparr>cache_num_demand_access := n\<rparr>) = cache_look c"
  "cache_index (c\<lparr>cache_num_demand_access := n\<rparr>) = cache_index c"
  "cache_row (c\<lparr>cache_num_demand_access := n\<rparr>) = cache_row c"
  by (simp_all add: cache_inv_def cache_look_def cache_index_def cache_row_def fun_eq_iff index_ok_def base_ok_def)

lemma cache_look_hit:
  assumes inv: "cache_inv c" and i: "cache_index c a = (si, tag, la)"
  shows "si < length (cache_entries c)"
    and "cache_look c a = map_option (\<lambda>i. ce_data (cache_row c si ! i)) (find_ix (hit_line tag) (cache_row c si))"
    and "find_ix (hit_line tag) (cache_row c si) = Some ii \<Longrightarrow> ii < length (cache_row c si) \<and>
      ce_valid (cache_row c si ! ii) \<and> ce_tag (cache_row c si ! ii) = tag \<and> ce_data (cache_row c si ! ii) \<noteq> 0 \<and>
      ce_base (cache_row c si ! ii) = la"
proof -
  show si: "si < length (cache_entries c)" using cache_index_lt [OF cache_invD(2) [OF inv] i] .
  show "cache_look c a = map_option (\<lambda>i. ce_data (cache_row c si ! i)) (find_ix (hit_line tag) (cache_row c si))"
    by (simp add: cache_look_def i row_look_def)
  assume f: "find_ix (hit_line tag) (cache_row c si) = Some ii"
  let ?e = "cache_row c si ! ii"
  from find_ix_SomeD(1,2) [OF f] have e: "ii < length (cache_row c si)" "ce_valid ?e" "ce_tag ?e = tag"
    by (auto simp: hit_line_def)
  then have m: "?e \<in> set (cache_row c si)" by simp
  have "cache_index c (ce_base ?e) = (si, tag, ce_base ?e)"
    using cache_invD(7) [OF inv si m] e by (simp add: base_ok_def)
  with cache_index_line [OF cache_invD(2) [OF inv] this i] have "ce_base ?e = la" by simp
  with e cache_invD(8) [OF inv si m] show "ii < length (cache_row c si) \<and> ce_valid ?e \<and> ce_tag ?e = tag \<and>
      ce_data ?e \<noteq> 0 \<and> ce_base ?e = la" by simp
qed

lemma cache_access_ok:
  assumes inv: "cache_inv c" and p: "direct_policy (cache_repl_policy c)" and t: "sim_time E < MAX_CTR"
  obtains c' where "cache_access E a upd (c, h) =
      Some (case cache_look c a of None \<Rightarrow> 0 | Some p \<Rightarrow> p, get_cache_line_addr c a, c', h)"
    "cache_inv c'" "cache_look c' = cache_look c" "cache_repl_policy c' = cache_repl_policy c"
    "cache_index c' = cache_index c"
proof -
  obtain si tag la where i: "cache_index c a = (si, tag, la)" using prod_cases3 by blast
  note k = cache_look_hit [OF inv i]
  have la: "get_cache_line_addr c a = la" by (simp add: get_cache_line_addr_def i)
  have pol: "cache_repl_policy c \<noteq> REPL_IDEAL_STORAGE" "cache_repl_policy c \<noteq> REPL_IDEAL"
    "cache_repl_policy c \<noteq> REPL_SHADOW_IDEAL" using p by (auto simp: direct_policy_def)
  show thesis
  proof (cases "find_ix (hit_line tag) (cache_row c si)")
    case None
    then show thesis using inv pol by (intro that [of c]) (simp_all add: cache_access_def i k(2) la)
  next
    case (Some ii)
    note e = k(3) [OF Some]
    show thesis
    proof (cases upd)
      case False
      with Some e show thesis using inv pol by (intro that [of c]) (simp_all add: cache_access_def i k(2) la)
    next
      case True
      let ?f = "\<lambda>e. e\<lparr>ce_pref := False\<rparr>"
      let ?c = "(upd_line si ii ?f c)\<lparr>cache_num_demand_access := cache_num_demand_access c + 1\<rparr>"
      have "ce_last_access_time (cache_row c si ! ii) < MAX_CTR"
        using cache_invD(9) [OF inv k(1)] e by simp
      note touch = touch_line_ok [of c si ii ?f, OF inv k(1)]
      have 1: "cache_inv ?c" "cache_look ?c = cache_look c"
        using touch e \<open>ce_last_access_time _ < _\<close> by simp_all
      have row: "cache_row ?c si = (cache_row c si)[ii := ?f (cache_row c si ! ii)]"
        by (simp add: cache_row_upd_line [OF k(1)])
      have 2: "direct_policy (cache_repl_policy ?c)" "si < length (cache_entries ?c)"
        "ii < length (cache_row ?c si)" "ce_valid (cache_row ?c si ! ii)"
        using p k(1) e by (simp_all add: row del: demand_frame(4))
      obtain c' where c': "update_repl_policy E si ii ?c = Some c'" "cache_inv c'" "cache_look c' = cache_look c"
        "cache_repl_policy c' = cache_repl_policy c" "cache_index c' = cache_index c"
        using update_repl_ok [OF 1(1) 2 t] 1(2) by (metis upd_line_frame(1,5) demand_frame(3) cache_repl_policy_demand)
      with True Some e pol show thesis
        by (intro that [of c']) (simp_all add: cache_access_def i k(2) la)
    qed
  qed
qed

lemma get_next_eq:
  assumes "cache_index c a = (si, tag, la)"
  shows "get_next_repl_line E pid a c = Some (p, b, v, c1) \<longleftrightarrow>
    (\<exists>w. find_repl_entry E c pid si = Some (w, c1) \<and> p = ce_data (cache_row c si ! w) \<and>
       b = ce_base (cache_row c si ! w) \<and> v = ce_valid (cache_row c si ! w))"
  using find_repl_frame(3) by (fastforce simp: get_next_repl_line_def assms Let_def)

text \<open>
  What a successful insertion leaves: the new line with the victim's data pointer, and every other
  line but the victim's.
\<close>

definition inserted :: "Cache \<Rightarrow> Addr \<Rightarrow> ptr \<Rightarrow> Addr \<Rightarrow> bool \<Rightarrow> Cache \<Rightarrow> bool" where
  "inserted c a p base v c' \<longleftrightarrow> cache_inv c' \<and> cache_index c' = cache_index c \<and>
     cache_repl_policy c' = cache_repl_policy c \<and>
     (\<forall>b. cache_look c' b =
        (if get_cache_line_addr c b = get_cache_line_addr c a then Some p
         else if v \<and> get_cache_line_addr c b = base then None else cache_look c b))"

lemma write_new_line:
  assumes inv: "cache_inv c" and i: "cache_index c a = (si, tag, la)" and miss: "cache_look c a = None"
    and w: "w < length (cache_row c si)"
    and f: "\<And>e. ce_valid (f e)" "\<And>e. ce_tag (f e) = tag" "\<And>e. ce_base (f e) = la" "\<And>e. ce_data (f e) = ce_data e"
    and t: "ce_last_access_time (f (cache_row c si ! w)) < MAX_CTR"
  shows "inserted c a (ce_data (cache_row c si ! w)) (ce_base (cache_row c si ! w)) (ce_valid (cache_row c si ! w))
    (upd_line si w f c)"
proof -
  let ?e = "cache_row c si ! w"
  note k = cache_look_hit [OF inv i]
  have m: "?e \<in> set (cache_row c si)" using w by simp
  have nohit: "\<not> hit_line tag (cache_row c si ! j)" if "j < length (cache_row c si)" for j
    using miss that by (simp add: cache_look_def i row_look_None)
  have new: "\<not> hit_line (ce_tag (f ?e)) (cache_row c si ! j)" if "j < length (cache_row c si)" "j \<noteq> w" for j
    using nohit [OF that(1)] by (simp add: f)
  have b: "base_ok c si (f ?e)"
    using cache_index_base [OF cache_invD(2) [OF inv] i] by (simp add: base_ok_def f)
  have d: "ce_data (f ?e) \<noteq> 0" using cache_invD(8) [OF inv k(1) m] by (simp add: f)
  note u = upd_line_inv [where f = f and e = "f ?e", OF inv k(1) w refl d b f(1) t new]
  have "cache_look (upd_line si w f c) b =
      (if get_cache_line_addr c b = la then Some (ce_data ?e)
       else if ce_valid ?e \<and> get_cache_line_addr c b = ce_base ?e then None else cache_look c b)" for b
  proof -
    obtain sj t lb where j: "cache_index c b = (sj, t, lb)" using prod_cases3 by blast
    have 1: "sj = si \<and> t = tag \<longleftrightarrow> lb = la"
      using cache_index_line [OF cache_invD(2) [OF inv] j i] .
    have 2: "sj = si \<and> hit_line t ?e \<longleftrightarrow> ce_valid ?e \<and> lb = ce_base ?e"
    proof (cases "ce_valid ?e")
      case True
      then have "cache_index c (ce_base ?e) = (si, ce_tag ?e, ce_base ?e)"
        using cache_invD(7) [OF inv k(1) m] by (simp add: base_ok_def)
      from cache_index_line [OF cache_invD(2) [OF inv] j this] True show ?thesis by (auto simp: hit_line_def)
    qed (simp add: hit_line_def)
    have "cache_look (upd_line si w f c) b =
        (if sj = si \<and> t = tag then Some (ce_data ?e)
          else if sj = si \<and> hit_line t ?e then None else cache_look c b)"
      using u(2) [of b] by (simp add: j f)
    then show ?thesis unfolding 1 2 by (simp add: get_cache_line_addr_def j)
  qed
  with u(1) show ?thesis by (simp add: inserted_def get_cache_line_addr_def i)
qed

lemma inserted_trans:
  "inserted c a p base v c' \<Longrightarrow> cache_inv c'' \<Longrightarrow> cache_look c'' = cache_look c' \<Longrightarrow>
     cache_index c'' = cache_index c' \<Longrightarrow> cache_repl_policy c'' = cache_repl_policy c' \<Longrightarrow> inserted c a p base v c''"
  by (simp add: inserted_def)

lemma take_line_direct:
  assumes "direct_policy (cache_repl_policy c)" "find_repl_entry E c pid si = Some (w, c1)"
  shows "cache_take_line E pid si (c, h) =
    Some (w, if ce_valid (cache_row c si ! w) then ce_base (cache_row c si ! w) else 0, c1, h)"
  using assms find_repl_frame [OF assms(2)]
  by (auto simp: cache_take_line_def direct_policy_def Let_def)

lemma map_nth_eq: "map f xs = map f ys \<Longrightarrow> i < length ys \<Longrightarrow> f (xs ! i) = f (ys ! i)"
  by (metis length_map nth_map)

text \<open>The two writes of an insertion, and the update of the replacement state in between.\<close>

lemma cache_insert_replpos_ok:
  assumes inv: "cache_inv c" and pol: "direct_policy (cache_repl_policy c)" and t: "sim_time E < MAX_CTR"
    and miss: "cache_look c a = None" and nxt: "get_next_repl_line E pid a c = Some (p, base, v, c1)"
  obtains c' where "cache_insert_replpos E pid a repl pref (c, h) =
      Some (p, get_cache_line_addr c a, if v then base else 0, c', h)"
    "inserted c a p base v c'"
proof -
  obtain si tag la where i: "cache_index c a = (si, tag, la)" using prod_cases3 by blast
  then obtain w where fr: "find_repl_entry E c pid si = Some (w, c1)" and
    e: "p = ce_data (cache_row c si ! w)" "base = ce_base (cache_row c si ! w)" "v = ce_valid (cache_row c si ! w)"
    using nxt by (auto simp: get_next_eq)
  note g = find_repl_frame [OF fr]
  note k = cache_look_hit [OF inv i]
  let ?f = "\<lambda>e. e\<lparr>ce_proc_id := pid, ce_valid := True, ce_tag := tag, ce_base := la,
                  ce_last_access_time := sim_time E, ce_pref := pref\<rparr>"
  let ?c = "upd_line si w ?f c1"
  have k1: "si < length (cache_entries c1)" using k(1) g(9) by simp
  have ins: "inserted c a p base v ?c"
    using write_new_line [of c1 a si tag la w ?f] inv i miss g t
    by (simp add: e inserted_def get_cache_line_addr_def)
  have row: "cache_row ?c si = (cache_row c si)[w := ?f (cache_row c si ! w)]"
    by (simp add: cache_row_upd_line [OF k1] g(3))
  have len: "w < length (cache_row ?c si)" "ce_valid (cache_row ?c si ! w)" "si < length (cache_entries ?c)"
    "ce_data (cache_row ?c si ! w) = p"
    using g(1) k1 by (simp_all add: row e)
  have inv': "cache_inv ?c" using ins by (simp add: inserted_def)
  have la: "get_cache_line_addr c a = la" by (simp add: get_cache_line_addr_def i)
  show thesis
  proof (cases "repl = INSERT_REPL_DEFAULT")
    case True
    have "direct_policy (cache_repl_policy ?c)" using pol g(7) by simp
    then obtain c' where c': "update_repl_policy E si w ?c = Some c'" "cache_inv c'" "cache_look c' = cache_look ?c"
      "cache_repl_policy c' = cache_repl_policy ?c" "cache_index c' = cache_index ?c"
      "map ce_data (cache_row c' si) = map ce_data (cache_row ?c si)"
      using update_repl_ok [OF inv' _ len(3,1,2) t] by metis
    have "ce_data (cache_row c' si ! w) = p" using map_nth_eq [OF c'(6) len(1)] len(4) by simp
    with c'(1) True show thesis
      by (intro that [OF _ inserted_trans [OF ins c'(2,3,5,4)]])
        (simp add: cache_insert_replpos_def i take_line_direct [OF pol fr] Let_def la e)
  next
    case False
    let ?g = "\<lambda>e. e\<lparr>ce_last_access_time := insert_time E repl (cache_assoc ?c) (cache_row ?c si) (ce_last_access_time e)\<rparr>"
    have "insert_time E repl (cache_assoc ?c) (cache_row ?c si) (ce_last_access_time (cache_row ?c si ! w)) < MAX_CTR"
      using cache_invD(1,4,9) [OF inv'] len t by (intro insert_time_lt) auto
    then have tl: "cache_inv (upd_line si w ?g ?c)" "cache_look (upd_line si w ?g ?c) = cache_look ?c"
      using touch_line_ok [of ?c si w ?g, OF inv' len(3,1,2)] by simp_all
    have "ce_data (cache_row (upd_line si w ?g ?c) si ! w) = p"
      using len by (simp add: cache_row_upd_line [OF len(3)] del: cache_row_upd_line)
    with False show thesis
      by (intro that [OF _ inserted_trans [OF ins tl]])
        (simp_all add: cache_insert_replpos_def i take_line_direct [OF pol fr] Let_def la e)
  qed
qed

section \<open>Invalidation\<close>

lemma cache_invalidate_ok:
  assumes inv: "cache_inv c" and pol: "cache_repl_policy c \<noteq> REPL_IDEAL"
  obtains c' where "cache_invalidate a (c, h) = Some (get_cache_line_addr c a, c', h)" "cache_inv c'"
    "\<And>b. cache_look c' b = (if get_cache_line_addr c b = get_cache_line_addr c a then None else cache_look c b)"
    "cache_index c' = cache_index c" "cache_repl_policy c' = cache_repl_policy c"
    "cache_shadow_entries c' = cache_shadow_entries c" "cache_assoc c' = cache_assoc c"
proof -
  obtain si tag la where i: "cache_index c a = (si, tag, la)" using prod_cases3 by blast
  note k = cache_look_hit [OF inv i]
  define f where "f = (\<lambda>e. if hit_line tag e then e\<lparr>ce_tag := 0, ce_valid := False, ce_base := 0\<rparr> else e)"
  let ?c = "c\<lparr>cache_entries := (cache_entries c)[si := map f (cache_row c si)]\<rparr>"
  have row: "cache_row ?c sj = (if sj = si then map f (cache_row c si) else cache_row c sj)" for sj
    using k(1) by (simp add: cache_row_def)
  note r = row_invalidate [OF cache_invD(6) [OF inv k(1)] f_def]
  have ix: "cache_index ?c = cache_index c" "base_ok ?c = base_ok c" "index_ok ?c = index_ok c"
    by (simp_all add: cache_index_def fun_eq_iff base_ok_def index_ok_def)
  have "row_ok (map f (cache_row c si))" "\<forall>e \<in> set (map f (cache_row c si)). base_ok c si e"
    using r(1) cache_invD(5,7) [OF inv k(1)] by (auto simp: row_ok_def f_def base_ok_def)
  then have "cache_inv ?c" using inv unfolding cache_inv_def by (auto simp: row ix)
  moreover have "cache_look ?c b = (if get_cache_line_addr c b = la then None else cache_look c b)" for b
  proof -
    obtain sj t lb where j: "cache_index c b = (sj, t, lb)" using prod_cases3 by blast
    from cache_index_line [OF cache_invD(2) [OF inv] j i] show ?thesis
      by (auto simp: cache_look_def ix j row r(2) get_cache_line_addr_def)
  qed
  moreover have "cache_invalidate a (c, h) = Some (la, ?c, h)"
    using pol by (simp add: cache_invalidate_def i f_def Let_def)
  ultimately show thesis using ix by (intro that [of ?c]) (simp_all add: get_cache_line_addr_def i)
qed

section \<open>Initialisation\<close>

lemma init_line_ok:
  assumes "0 < next_ptr h" "init_line n u h = (e, h')"
  shows "\<not> ce_valid e" "ce_data e \<noteq> 0" "0 < next_ptr h'"
  using assms by (auto simp: init_line_def malloc_buf_def INIT_CACHE_DATA_VALUE_def split: if_splits)

lemma init_lines_ok:
  assumes "0 < next_ptr h" "init_lines n u jj m h = (es, h')"
  shows "length es = m \<and> (\<forall>e \<in> set es. \<not> ce_valid e \<and> ce_data e \<noteq> 0) \<and> 0 < next_ptr h'"
  using assms
proof (induction m arbitrary: jj h es h')
  case (Suc m)
  obtain e h1 es1 where s: "init_line n (u jj) h = (e, h1)" "init_lines n u (Suc jj) m h1 = (es1, h')" "es = e # es1"
    using Suc.prems(2) by (auto split: prod.splits)
  note e = init_line_ok [OF Suc.prems(1) s(1)]
  from Suc.IH [OF e(3) s(2)] e s(3) show ?case by simp
qed simp

lemma init_sets_ok:
  assumes "0 < next_ptr h" "init_sets n u k ii m h = (ss, h')"
  shows "length ss = m \<and> (\<forall>es \<in> set ss. length es = k \<and> (\<forall>e \<in> set es. \<not> ce_valid e \<and> ce_data e \<noteq> 0)) \<and> 0 < next_ptr h'"
  using assms
proof (induction m arbitrary: ii h ss h')
  case (Suc m)
  obtain es h1 ss1 where s: "init_lines n (u ii) 0 k h = (es, h1)" "init_sets n u k (Suc ii) m h1 = (ss1, h')" "ss = es # ss1"
    using Suc.prems(2) by (auto split: prod.splits)
  note e = init_lines_ok [OF Suc.prems(1) s(1)]
  from Suc.IH [OF _ s(2)] e s(3) show ?case by simp
qed simp

lemma LOG2_bounds: "0 < x \<Longrightarrow> 2 ^ LOG2 x \<le> unat x \<and> LOG2 x < 32"
proof -
  assume "0 < x"
  then have b: "2 ^ LOG2 x \<le> unat x" using log2_floor_bounds [of "unat x"] by (simp add: LOG2_def word_less_nat_alt)
  also have "unat x < 2 ^ 32" using unsigned_less [where 'a = nat, of x] by simp
  finally have "LOG2 x < 32" using power_less_imp_less_exp [of 2 "LOG2 x" 32] by simp
  with b show ?thesis by simp
qed

lemma all_invalid_row_ok: "\<forall>e \<in> set es. \<not> ce_valid e \<and> ce_data e \<noteq> 0 \<Longrightarrow> row_ok es"
  by (simp add: row_ok_def filter_empty_conv)

lemma init_cache_ok:
  assumes "0 < next_ptr h" "init_cache E u us up c0 name n assoc line_size data_size repl h = Some (c, h')"
  shows "cache_inv c" "cache_look c a = None" "cache_repl_policy c = repl"
proof -
  let ?n = "n div line_size div assoc"
  have pos: "0 < ?n" "0 < assoc" "0 < line_size"
    using assms(2) by (auto simp: init_cache_def word_gt_0 split: if_splits)
  obtain ss h1 where s: "init_sets data_size u (unat assoc) 0 (unat ?n) h = (ss, h1)" by fastforce
  note ok = init_sets_ok [OF assms(1) s]
  have c: "cache_assoc c = assoc" "cache_entries c = ss" "cache_repl_ctrs c = replicate (unat ?n) 0"
    "cache_set_mask c = mask (LOG2 ?n)" "cache_tag_mask c = NOT (mask (LOG2 ?n))"
    "cache_shift_bits c = of_nat (LOG2 line_size)" "cache_offset_mask c = mask (LOG2 line_size)"
    "cache_repl_policy c = repl"
    using assms(2) pos s by (auto simp: init_cache_def Let_def split: if_splits prod.splits)
  note l = LOG2_bounds [OF pos(1)] LOG2_bounds [OF pos(3)]
  then have sh: "unat (cache_shift_bits c) = LOG2 line_size" by (simp add: c unat_of_nat_small)
  then have ix: "index_ok c" using l ok c by (auto simp: index_ok_def word_less_nat_alt)
  have row: "cache_row c si \<in> set ss" if "si < length ss" for si using that by (simp add: cache_row_def c)
  then have "row_ok (cache_row c si)" "\<forall>e \<in> set (cache_row c si). base_ok c si e" if "si < length ss" for si
    using that ok all_invalid_row_ok by (auto simp: base_ok_def)
  then show inv: "cache_inv c" using ix ok row pos(2) by (auto simp: cache_inv_def c)
  show "cache_repl_policy c = repl" by (rule c)
  obtain si tag la where i: "cache_index c a = (si, tag, la)" using prod_cases3 by blast
  then have "si < length ss" using cache_index_lt [OF ix i] c by simp
  with row ok show "cache_look c a = None"
    by (fastforce simp: cache_look_def i row_look_None hit_line_def)
qed

end
