(* ===== verification/Cache_Policies.thy ===== *)
theory Cache_Policies
  imports Cache_Inv "HOL-Library.Multiset"
begin

text \<open>
  What the replacement policies promise: the LRU stack, the not-most-recently-used counter, and the
  partition of the ways among cores.
\<close>

section \<open>The LRU stack\<close>

definition younger :: "Cache_Entry list \<Rightarrow> Cache_Entry \<Rightarrow> nat" where
  "younger row x = length (filter (\<lambda>e. ce_proc_id x = ce_proc_id e \<and> ce_last_access_time x < ce_last_access_time e) row)"

lemma length_filter_update:
  assumes "i < length xs"
  shows "length (filter Q (xs[i := y])) + (if Q (xs ! i) then 1 else 0) = length (filter Q xs) + (if Q y then 1 else 0)"
proof -
  have "length (filter Q xs) = length (filter Q (take i xs)) + (if Q (xs ! i) then 1 else 0) + length (filter Q (drop (Suc i) xs))"
    by (subst id_take_nth_drop [OF assms]) simp
  moreover have "length (filter Q (xs[i := y])) = length (filter Q (take i xs)) + (if Q y then 1 else 0) + length (filter Q (drop (Suc i) xs))"
    by (simp add: upd_conv_take_nth_drop [OF assms])
  ultimately show ?thesis by simp
qed

lemma length_filter_mono: "(\<And>x. x \<in> set xs \<Longrightarrow> P x \<Longrightarrow> Q x) \<Longrightarrow> length (filter P xs) \<le> length (filter Q xs)"
  by (induction xs) (auto intro: le_SucI)

text \<open>Of two lines of one core, the one with fewer younger lines is the younger one.\<close>

lemma younger_less:
  assumes "x \<in> set row" "ce_proc_id x = ce_proc_id y"
  shows "younger row x < younger row y \<longleftrightarrow> ce_last_access_time y < ce_last_access_time x"
proof (cases "ce_last_access_time y < ce_last_access_time x")
  case True
  let ?P = "\<lambda>z e. ce_proc_id z = ce_proc_id e \<and> ce_last_access_time z < ce_last_access_time e"
  have "length (filter (?P x) row) = length (filter (?P x) (filter (?P y) row))"
    using True assms(2) by (simp add: filter_filter) (metis (no_types, lifting) order.strict_trans)
  also have "\<dots> < length (filter (?P y) row)"
    using True assms by (intro length_filter_less [of x]) auto
  finally show ?thesis using True by (simp add: younger_def)
next
  case False
  have "younger row y \<le> younger row x"
    unfolding younger_def
    using False assms(2) by (intro length_filter_mono) auto
  with False show ?thesis by simp
qed

text \<open>A hit that becomes the youngest: the lines above it in the stack move down by one.\<close>

lemma younger_touch:
  assumes d: "i < length row" "j < length row" "i \<noteq> j" and p: "ce_proc_id (row ! i) = ce_proc_id (row ! j)"
    and new: "\<forall>e \<in> set row. ce_last_access_time e < t"
    and x: "ce_proc_id x = ce_proc_id (row ! i)" "ce_last_access_time x = t"
  shows "younger (row[i := x]) x = 0"
    and "younger (row[i := x]) (row ! j) =
      (if younger row (row ! j) \<le> younger row (row ! i) then Suc (younger row (row ! j)) else younger row (row ! j))"
proof -
  show "younger (row[i := x]) x = 0"
    using new x by (auto simp: younger_def filter_empty_conv dest!: in_set_updD)
  have j: "ce_last_access_time (row ! j) < t" using new d by simp
  have "younger (row[i := x]) (row ! j) +
      (if ce_last_access_time (row ! j) < ce_last_access_time (row ! i) then 1 else 0) = Suc (younger row (row ! j))"
    using length_filter_update [OF d(1), where y = x and Q = "\<lambda>e. ce_proc_id (row ! j) = ce_proc_id e \<and>
        ce_last_access_time (row ! j) < ce_last_access_time e"] p x j
    by (simp add: younger_def)
  moreover have "ce_last_access_time (row ! j) < ce_last_access_time (row ! i) \<longleftrightarrow>
      younger row (row ! i) < younger row (row ! j)"
    using younger_less [of "row ! i" row "row ! j"] d p by simp
  ultimately show "younger (row[i := x]) (row ! j) =
      (if younger row (row ! j) \<le> younger row (row ! i) then Suc (younger row (row ! j)) else younger row (row ! j))"
    by (simp split: if_splits)
qed

lemma find_pos_eq:
  assumes "cache_index c a = (si, tag, la)" "find_ix (hit_line tag) (cache_row c si) = Some ii"
  shows "cache_find_pos_in_lru_stack pid a c =
    (if ce_proc_id (cache_row c si ! ii) = pid then Some (int (younger (cache_row c si) (cache_row c si ! ii))) else None)"
  using assms by (simp add: cache_find_pos_in_lru_stack_def younger_def Let_def)

lemma find_pos_hit:
  assumes "cache_index c a = (si, tag, la)" "cache_find_pos_in_lru_stack pid a c = Some (int n)"
  obtains ii where "find_ix (hit_line tag) (cache_row c si) = Some ii" "ce_proc_id (cache_row c si ! ii) = pid"
    "n = younger (cache_row c si) (cache_row c si ! ii)"
proof (cases "find_ix (hit_line tag) (cache_row c si)")
  case None
  with assms show thesis by (simp add: cache_find_pos_in_lru_stack_def Let_def)
next
  case (Some ii)
  with assms show thesis by (intro that [OF Some]) (auto simp: find_pos_eq split: if_splits)
qed

text \<open>A hit under \<^verbatim>\<open>REPL_TRUE_LRU\<close>.\<close>

lemma lru_access_eq:
  assumes "cache_inv c" "cache_repl_policy c = REPL_TRUE_LRU" "cache_index c a = (si, tag, la)"
    and "find_ix (hit_line tag) (cache_row c si) = Some ii"
  obtains c' where "cache_access E a True (c, h) = Some (ce_data (cache_row c si ! ii), la, c', h)"
    "cache_row c' si = (cache_row c si)[ii := (cache_row c si ! ii)\<lparr>ce_pref := False, ce_last_access_time := sim_time E\<rparr>]"
    "cache_index c' = cache_index c"
proof -
  note k = cache_look_hit(1,3) [OF assms(1,3)]
  let ?c = "(upd_line si ii (\<lambda>e. e\<lparr>ce_pref := False\<rparr>) c)\<lparr>cache_num_demand_access := cache_num_demand_access c + 1\<rparr>"
  let ?c' = "upd_line si ii (\<lambda>e. e\<lparr>ce_last_access_time := sim_time E\<rparr>) ?c"
  have s: "si < length (cache_entries ?c)" using k(1) by simp
  have "cache_access E a True (c, h) = Some (ce_data (cache_row c si ! ii), la, ?c', h)"
    using assms k(2) [OF assms(4)] by (simp add: cache_access_def update_repl_policy_def Let_def)
  moreover have "cache_row ?c' si =
      (cache_row c si)[ii := (cache_row c si ! ii)\<lparr>ce_pref := False, ce_last_access_time := sim_time E\<rparr>]"
    using k(2) [OF assms(4)] by (simp add: cache_row_upd_line [OF s] cache_row_upd_line [OF k(1)])
  ultimately show thesis by (intro that [of ?c']) simp_all
qed

lemma lru_stack_touch:
  assumes inv: "cache_inv c" and pol: "cache_repl_policy c = REPL_TRUE_LRU"
    and i: "cache_index c a = (si, tag, la)" "cache_index c b = (si, tag', lb)" "la \<noteq> lb"
    and new: "\<forall>e \<in> set (cache_row c si). ce_last_access_time e < sim_time E"
    and pos: "cache_find_pos_in_lru_stack pid a c = Some (int m)" "cache_find_pos_in_lru_stack pid b c = Some (int n)"
  obtains p c' where "cache_access E a True (c, h) = Some (p, la, c', h)"
    "cache_find_pos_in_lru_stack pid a c' = Some 0"
    "cache_find_pos_in_lru_stack pid b c' = Some (int (if n \<le> m then Suc n else n))"
proof -
  obtain ii where ii: "find_ix (hit_line tag) (cache_row c si) = Some ii" "ce_proc_id (cache_row c si ! ii) = pid"
    "m = younger (cache_row c si) (cache_row c si ! ii)" using find_pos_hit [OF i(1) pos(1)] .
  obtain jj where jj: "find_ix (hit_line tag') (cache_row c si) = Some jj" "ce_proc_id (cache_row c si ! jj) = pid"
    "n = younger (cache_row c si) (cache_row c si ! jj)" using find_pos_hit [OF i(2) pos(2)] .
  note ki = cache_look_hit(3) [OF inv i(1) ii(1)] and kj = cache_look_hit(3) [OF inv i(2) jj(1)]
  have ne: "ii \<noteq> jj" using ki kj i(3) by auto
  let ?x = "(cache_row c si ! ii)\<lparr>ce_pref := False, ce_last_access_time := sim_time E\<rparr>"
  obtain c' where c': "cache_access E a True (c, h) = Some (ce_data (cache_row c si ! ii), la, c', h)"
    "cache_row c' si = (cache_row c si)[ii := ?x]" "cache_index c' = cache_index c"
    using lru_access_eq [OF inv pol i(1) ii(1)] by metis
  have f: "find_ix (hit_line u) (cache_row c' si) = find_ix (hit_line u) (cache_row c si)" for u
    using ki by (intro find_ix_cong) (auto simp: c'(2) nth_list_update hit_line_def)
  have ia: "cache_index c' a = (si, tag, la)" "find_ix (hit_line tag) (cache_row c' si) = Some ii"
    and ib: "cache_index c' b = (si, tag', lb)" "find_ix (hit_line tag') (cache_row c' si) = Some jj"
    using i ii(1) jj(1) by (simp_all add: f c'(3))
  note y = younger_touch [of ii "cache_row c si" jj "sim_time E" ?x]
  have "cache_find_pos_in_lru_stack pid a c' = Some 0"
    unfolding find_pos_eq [OF ia] using y(1) ki kj ne ii jj new by (simp add: c'(2))
  moreover have "cache_find_pos_in_lru_stack pid b c' = Some (int (if n \<le> m then Suc n else n))"
    unfolding find_pos_eq [OF ib] using y(2) ki kj ne ii jj new by (simp add: c'(2))
  ultimately show thesis by (rule that [OF c'(1)])
qed

text \<open>The victim is an invalid way, or a line with no older line in the set.\<close>

lemma lru_victim:
  assumes inv: "cache_inv c" and si: "si < length (cache_entries c)"
    and pol: "cache_repl_policy c = REPL_TRUE_LRU \<or> cache_repl_policy c = REPL_SHADOW_IDEAL"
    and fr: "find_repl_entry E c pid si = Some (w, c1)"
  shows "\<not> ce_valid (cache_row c si ! w) \<or>
    (\<forall>e \<in> set (cache_row c si). ce_valid e \<and> ce_last_access_time (cache_row c si ! w) \<le> ce_last_access_time e)"
proof -
  have "w = fst (lru_way (cache_row c si))"
    using fr pol by (auto simp: find_repl_entry_def Let_def split: if_splits)
  moreover have "cache_row c si \<noteq> []" using find_repl_frame(1) [OF fr] by auto
  ultimately show ?thesis
    using lru_scan_victim(2) [of ce_valid ce_last_access_time MAX_CTR "cache_row c si"]
    by (cases "lru_way (cache_row c si)") (auto simp: lru_way_def le_MAX_CTR)
qed

lemma lru_victim_pos:
  assumes inv: "cache_inv c" and pol: "cache_repl_policy c = REPL_TRUE_LRU"
    and i: "cache_index c a = (si, tag, la)" "cache_index c b = (si, tag', lb)"
    and one: "\<forall>e \<in> set (cache_row c si). ce_proc_id e = pid"
    and nxt: "get_next_repl_line E pid a c = Some (p, base, True, c1)"
    and pos: "cache_find_pos_in_lru_stack pid b c = Some n"
  obtains m where "cache_find_pos_in_lru_stack pid base c = Some m" "n \<le> m"
proof -
  obtain w where w: "find_repl_entry E c pid si = Some (w, c1)" "base = ce_base (cache_row c si ! w)" "ce_valid (cache_row c si ! w)"
    using nxt by (auto simp: get_next_eq [OF i(1)])
  note si = cache_index_lt [OF cache_invD(2) [OF inv] i(1)]
  have wl: "w < length (cache_row c si)" by (rule find_repl_frame(1) [OF w(1)])
  have ib: "cache_index c base = (si, ce_tag (cache_row c si ! w), base)"
    using cache_invD(7) [OF inv si, of "cache_row c si ! w"] w wl by (simp add: base_ok_def)
  have f: "find_ix (hit_line (ce_tag (cache_row c si ! w))) (cache_row c si) = Some w"
    using w(3) wl by (simp add: find_hit [OF cache_invD(6) [OF inv si]] hit_line_def)
  have pw: "ce_proc_id (cache_row c si ! w) = pid" using one wl by simp
  have m: "cache_find_pos_in_lru_stack pid base c = Some (int (younger (cache_row c si) (cache_row c si ! w)))"
    unfolding find_pos_eq [OF ib f] using pw by simp
  have "n \<le> int (younger (cache_row c si) (cache_row c si ! w))"
  proof (cases "find_ix (hit_line tag') (cache_row c si)")
    case None
    with pos show ?thesis by (simp add: cache_find_pos_in_lru_stack_def i(2))
  next
    case (Some jj)
    have jl: "jj < length (cache_row c si)" using find_ix_SomeD(1) [OF Some] .
    have "ce_last_access_time (cache_row c si ! w) \<le> ce_last_access_time (cache_row c si ! jj)"
      using lru_victim [OF inv si disjI1 [OF pol] w(1)] w(3) jl by auto
    then have "\<not> younger (cache_row c si) (cache_row c si ! w) < younger (cache_row c si) (cache_row c si ! jj)"
      using younger_less [of "cache_row c si ! w" "cache_row c si" "cache_row c si ! jj"] one wl jl by simp
    with pos one jl show ?thesis by (simp add: find_pos_eq [OF i(2) Some] split: if_splits)
  qed
  with m show thesis by (rule that)
qed

text \<open>The insertion sort of the middle insertion positions permutes.\<close>

lemma mset_sort_in: "mset (sort_in x ys) = add_mset x (mset ys)"
  by (induction ys) auto

lemma access_times_mset:
  "mset (access_times row) = mset (map (\<lambda>e. if ce_valid e then ce_last_access_time e else 0) row)"
proof -
  let ?t = "\<lambda>e. if ce_valid e then ce_last_access_time e else 0"
  have "mset (foldl (\<lambda>acc e. sort_in (?t e) acc) acc row) = mset acc + mset (map ?t row)" for acc
    by (induction row arbitrary: acc) (simp_all add: mset_sort_in)
  from this [of "[]"] show ?thesis by (simp add: access_times_def)
qed

section \<open>Not most recently used\<close>

lemma CIRC_INC2_moves:
  assumes "0 < k" "k < 32" "v < 2 ^ k"
  shows "CIRC_INC2 v (2 ^ k) \<noteq> v"
proof
  assume "CIRC_INC2 v (2 ^ k) = v"
  then have e: "(unat v + 1) mod 2 ^ k = unat v" using CIRC_INC2_pow2 [OF assms(2), of v] by simp
  have lt: "unat v < 2 ^ k" using assms(2,3) by (simp add: word_less_nat_alt unat_pow2)
  show False
  proof (cases "unat v + 1 = 2 ^ k")
    case True
    with e have "unat v = 0" by simp
    with True have "(2::nat) ^ k = 1" by simp
    with assms(1) show False by simp
  next
    case False
    with e lt show False by simp
  qed
qed

text \<open>Under \<^verbatim>\<open>REPL_NOT_MRU\<close> a hit leaves the counter pointing elsewhere.\<close>

lemma not_mru_access_eq:
  assumes "cache_inv c" "cache_repl_policy c = REPL_NOT_MRU" "cache_index c a = (si, tag, la)"
    and "find_ix (hit_line tag) (cache_row c si) = Some ii"
  obtains c' where "cache_access E a True (c, h) = Some (ce_data (cache_row c si ! ii), la, c', h)"
    "cache_row c' si = (cache_row c si)[ii := (cache_row c si ! ii)\<lparr>ce_pref := False\<rparr>]"
    "cache_index c' = cache_index c" "cache_repl_policy c' = REPL_NOT_MRU"
    "cache_repl_ctrs c' ! si = (if ii = unat (cache_repl_ctrs c ! si)
       then CIRC_INC2 (cache_repl_ctrs c ! si) (cache_assoc c) else cache_repl_ctrs c ! si)"
proof -
  note k = cache_look_hit(1,3) [OF assms(1,3)]
  let ?c = "(upd_line si ii (\<lambda>e. e\<lparr>ce_pref := False\<rparr>) c)\<lparr>cache_num_demand_access := cache_num_demand_access c + 1\<rparr>"
  let ?c' = "if ii = unat (cache_repl_ctrs c ! si)
    then set_repl_ctr si (CIRC_INC2 (cache_repl_ctrs c ! si) (cache_assoc c)) ?c else ?c"
  have "cache_access E a True (c, h) = Some (ce_data (cache_row c si ! ii), la, ?c', h)"
    using assms k(2) [OF assms(4)] by (simp add: cache_access_def update_repl_policy_def Let_def)
  moreover have "cache_row ?c' si = (cache_row c si)[ii := (cache_row c si ! ii)\<lparr>ce_pref := False\<rparr>]"
    by (simp add: cache_row_upd_line [OF k(1)])
  moreover have "cache_repl_ctrs ?c' ! si = (if ii = unat (cache_repl_ctrs c ! si)
       then CIRC_INC2 (cache_repl_ctrs c ! si) (cache_assoc c) else cache_repl_ctrs c ! si)"
    using k(1) cache_invD(3) [OF assms(1)] by (simp add: set_repl_ctr_nth)
  ultimately show thesis using assms(2) by (intro that [of ?c']) simp_all
qed

lemma not_mru_find:
  assumes "cache_repl_policy c = REPL_NOT_MRU" "find_repl_entry E c pid si = Some (w, c1)"
  shows "w = last_invalid (unat (cache_repl_ctrs c ! si)) (cache_row c si)"
  using assms by (auto simp: find_repl_entry_def Let_def split: if_splits)

lemma not_mru_victim:
  assumes inv: "cache_inv c" and pol: "cache_repl_policy c = REPL_NOT_MRU"
    and assoc: "cache_assoc c = 2 ^ k" "0 < k" "k < 32"
    and i: "cache_index c a = (si, tag, la)" and hit: "find_ix (hit_line tag) (cache_row c si) = Some ii"
    and acc: "cache_access E a True (c, h) = Some (p, la, c', h')"
    and fr: "find_repl_entry E' c' pid si = Some (w, c1)"
  shows "\<not> ce_valid (cache_row c' si ! w) \<or> w \<noteq> ii"
proof -
  obtain c2 where c2: "cache_access E a True (c, h) = Some (ce_data (cache_row c si ! ii), la, c2, h)"
    "cache_repl_policy c2 = REPL_NOT_MRU"
    "cache_repl_ctrs c2 ! si = (if ii = unat (cache_repl_ctrs c ! si)
       then CIRC_INC2 (cache_repl_ctrs c ! si) (cache_assoc c) else cache_repl_ctrs c ! si)"
    using not_mru_access_eq [OF inv pol i hit] by metis
  have c': "c' = c2" using acc c2(1) by simp
  note si = cache_index_lt [OF cache_invD(2) [OF inv] i]
  have "unat (cache_repl_ctrs c' ! si) \<noteq> ii"
    using c2(3) CIRC_INC2_moves [OF assoc(2,3), of "cache_repl_ctrs c ! si"] cache_invD(10) [OF inv si]
    unfolding assoc(1) c' by (auto simp: word_unat_eq_iff)
  moreover have "w = last_invalid (unat (cache_repl_ctrs c' ! si)) (cache_row c' si)"
    using not_mru_find [OF _ fr] c2(2) c' by simp
  ultimately show ?thesis
    using last_invalid_cases [of "unat (cache_repl_ctrs c' ! si)" "cache_row c' si"] by auto
qed

section \<open>Partitioned ways\<close>

text \<open>The lines of a set that a core owns.\<close>

definition owned :: "nat \<Rightarrow> Cache_Entry list \<Rightarrow> Cache_Entry list" where
  "owned q row = filter (\<lambda>e. unat (ce_proc_id e) = q) row"

lemma owned_Cons: "owned q (e # es) = (if unat (ce_proc_id e) = q then e # owned q es else owned q es)"
  by (simp add: owned_def)

text \<open>
  The state of the scan after a prefix: each core's count, and the way and time of the oldest line
  of each core that has one.
\<close>

definition core_ok :: "Cache_Entry list \<Rightarrow> nat \<Rightarrow> uns \<Rightarrow> uns \<Rightarrow> Counter \<Rightarrow> bool" where
  "core_ok row q n i t \<longleftrightarrow> n = of_nat (length (owned q row)) \<and> (owned q row = [] \<longrightarrow> t = MAX_CTR) \<and>
     (owned q row \<noteq> [] \<longrightarrow> (\<exists>k < length row. i = of_nat k \<and> unat (ce_proc_id (row ! k)) = q \<and>
        t = ce_last_access_time (row ! k) \<and> (\<forall>e \<in> set (owned q row). t \<le> ce_last_access_time e)))"

definition scan_ok :: "nat \<Rightarrow> Cache_Entry list \<Rightarrow> part_tables \<Rightarrow> bool" where
  "scan_ok n row = (\<lambda>(occ, idx, tm). length occ = n \<and> length idx = n \<and> length tm = n \<and>
     (\<forall>q < n. core_ok row q (occ ! q) (idx ! q) (tm ! q)))"

lemma owned_snoc: "owned q (xs @ [e]) = owned q xs @ (if unat (ce_proc_id e) = q then [e] else [])"
  by (simp add: owned_def)

lemma core_ok_other: "core_ok row q n i t \<Longrightarrow> unat (ce_proc_id e) \<noteq> q \<Longrightarrow> core_ok (row @ [e]) q n i t"
  by (fastforce simp: core_ok_def owned_snoc nth_append intro: less_SucI)

lemma core_ok_older:
  "core_ok row q n i t \<Longrightarrow> unat (ce_proc_id e) = q \<Longrightarrow> ce_last_access_time e < t \<Longrightarrow>
     core_ok (row @ [e]) q (n + 1) (of_nat (length row)) (ce_last_access_time e)"
  by (cases "owned q row = []") (auto simp: core_ok_def owned_snoc intro!: exI [of _ "length row"])

lemma core_ok_younger:
  "core_ok row q n i t \<Longrightarrow> unat (ce_proc_id e) = q \<Longrightarrow> \<not> ce_last_access_time e < t \<Longrightarrow>
     ce_last_access_time e < MAX_CTR \<Longrightarrow> core_ok (row @ [e]) q (n + 1) i t"
  by (fastforce simp: core_ok_def owned_snoc nth_append not_less intro: less_SucI)

lemma part_scan_ok:
  assumes "scan_ok n row (occ, idx, tm)" "\<forall>e \<in> set es. ce_valid e \<and> unat (ce_proc_id e) < n \<and> ce_last_access_time e < MAX_CTR"
  shows "\<exists>tabs. part_scan (length row) (occ, idx, tm) es = Some (None, tabs) \<and> scan_ok n (row @ es) tabs"
  using assms
proof (induction es arbitrary: row occ idx tm)
  case Nil
  then show ?case by simp
next
  case (Cons e es)
  let ?p = "unat (ce_proc_id e)"
  have e: "ce_valid e" "?p < n" "ce_last_access_time e < MAX_CTR" using Cons.prems(2) by simp_all
  have len: "length occ = n" "length idx = n" "length tm = n" and ok: "\<And>q. q < n \<Longrightarrow> core_ok row q (occ ! q) (idx ! q) (tm ! q)"
    using Cons.prems(1) by (simp_all add: scan_ok_def)
  let ?o = "occ[?p := occ ! ?p + 1]"
  show ?case
  proof (cases "ce_last_access_time e < tm ! ?p")
    case True
    have "scan_ok n (row @ [e]) (?o, idx[?p := of_nat (length row)], tm[?p := ce_last_access_time e])"
      using len ok e True core_ok_older [OF ok [OF e(2)] refl] core_ok_other
      by (auto simp: scan_ok_def nth_list_update)
    from Cons.IH [OF this] Cons.prems(2) e True len show ?thesis by (simp add: Let_def)
  next
    case False
    have "scan_ok n (row @ [e]) (?o, idx, tm)"
      using len ok e False core_ok_younger [OF ok [OF e(2)] refl] core_ok_other
      by (auto simp: scan_ok_def nth_list_update)
    from Cons.IH [OF this] Cons.prems(2) e False len show ?thesis by (simp add: Let_def)
  qed
qed

text \<open>With an invalid way in the set the scan stops there.\<close>

lemma part_scan_invalid:
  assumes "\<exists>e \<in> set es. \<not> ce_valid e" "\<forall>e \<in> set es. ce_valid e \<longrightarrow> unat (ce_proc_id e) < length occ"
  shows "\<exists>w tabs. part_scan ii (occ, idx, tm) es = Some (Some (ii + w), tabs) \<and> w < length es \<and> \<not> ce_valid (es ! w)"
  using assms
proof (induction es arbitrary: ii occ idx tm)
  case (Cons e es)
  show ?case
  proof (cases "ce_valid e")
    case False
    then show ?thesis by (auto intro: exI [of _ 0])
  next
    case True
    then have "\<exists>w tabs. part_scan (Suc ii) (occ[unat (ce_proc_id e) := y], x, z) es = Some (Some (Suc ii + w), tabs) \<and>
        w < length es \<and> \<not> ce_valid (es ! w)" for x y z
      using Cons.prems by (intro Cons.IH) auto
    note ih = this
    show ?thesis
    proof (cases "ce_last_access_time e < tm ! unat (ce_proc_id e)")
      case lt: True
      obtain w tabs where "part_scan (Suc ii) (occ[unat (ce_proc_id e) := occ ! unat (ce_proc_id e) + 1],
          idx[unat (ce_proc_id e) := of_nat ii], tm[unat (ce_proc_id e) := ce_last_access_time e]) es =
          Some (Some (Suc ii + w), tabs)" "w < length es" "\<not> ce_valid (es ! w)" using ih by blast
      with True lt Cons.prems(2) show ?thesis by (intro exI [of _ "Suc w"] exI [of _ tabs]) (simp add: Let_def)
    next
      case ge: False
      obtain w tabs where "part_scan (Suc ii) (occ[unat (ce_proc_id e) := occ ! unat (ce_proc_id e) + 1], idx, tm) es =
          Some (Some (Suc ii + w), tabs)" "w < length es" "\<not> ce_valid (es ! w)" using ih by blast
      with True ge Cons.prems(2) show ?thesis by (intro exI [of _ "Suc w"] exI [of _ tabs]) (simp add: Let_def)
    qed
  qed
qed simp

lemma sint_diff:
  assumes "unat (x :: uns) < 2 ^ 31" "unat y < 2 ^ 31"
  shows "sint (x - y) = int (unat x) - int (unat y)"
proof -
  have "sint (x - y) = signed_take_bit 31 (uint (x - y))" by (simp add: sint_uint)
  also have "uint (x - y) = take_bit 32 (uint x - uint y)"
    unfolding uint_word_ariths(2) by (simp add: take_bit_eq_mod)
  also have "signed_take_bit 31 (take_bit 32 (uint x - uint y)) = signed_take_bit 31 (uint x - uint y)"
    unfolding Bit_Operations.signed_take_bit_take_bit by simp
  also have "\<dots> = uint x - uint y"
  proof (rule signed_take_bit_int_eq_self)
    have b: "uint x < 2147483648" "uint y < 2147483648"
      using assms unfolding unat_eq_nat_uint nat_less_iff [OF uint_ge_0] by simp_all
    have p: "0 \<le> uint x" "0 \<le> uint y" by (rule uint_ge_0)+
    have "- 2147483648 \<le> uint x - uint y" "uint x - uint y < 2147483648" using b p by linarith+
    then show "- (2 ^ 31) \<le> uint x - uint y" "uint x - uint y < 2 ^ 31" by simp_all
  qed
  finally show ?thesis by simp
qed

definition extra :: "uns list \<Rightarrow> uns list \<Rightarrow> nat \<Rightarrow> int" where
  "extra alloc occ w = int (unat (occ ! w)) - int (unat (alloc ! w))"

lemma extra_le: "extra alloc occ w \<le> 0 \<longleftrightarrow> unat (occ ! w) \<le> unat (alloc ! w)"
  "extra alloc occ w < 0 \<longleftrightarrow> unat (occ ! w) < unat (alloc ! w)"
  unfolding extra_def by linarith+

text \<open>The core chosen by the loop over the cores.\<close>

lemma part_worst_prefix:
  assumes "\<forall>w < n. unat (alloc ! w) < 2 ^ 31 \<and> unat (occ ! w) < 2 ^ 31"
  shows "let (m, r) = foldl (part_worst_step alloc occ) (0, -1) [0..<n] in
    (\<forall>w < n. extra alloc occ w \<le> m) \<and> (r = -1 \<and> m = 0 \<or> 0 \<le> r \<and> nat r < n \<and> 0 < m \<and> extra alloc occ (nat r) = m)"
  using assms
proof (induction n)
  case (Suc n)
  obtain m r where mr: "foldl (part_worst_step alloc occ) (0, -1) [0..<n] = (m, r)" by fastforce
  have s: "sint (occ ! n - alloc ! n) = extra alloc occ n"
    using Suc.prems sint_diff by (simp add: extra_def)
  have l: "alloc ! n < occ ! n \<longleftrightarrow> 0 < extra alloc occ n" by (simp add: extra_def word_less_def)
  have "(\<forall>w < n. extra alloc occ w \<le> m) \<and> (r = -1 \<and> m = 0 \<or> 0 \<le> r \<and> nat r < n \<and> 0 < m \<and> extra alloc occ (nat r) = m)"
    using Suc.IH Suc.prems by (simp add: mr)
  moreover have "part_worst_step alloc occ (m, r) n =
      (if 0 < extra alloc occ n \<and> m < extra alloc occ n then (extra alloc occ n, int n) else (m, r))"
    by (simp add: part_worst_step_def s l)
  ultimately show ?case by (auto simp: mr less_Suc_eq)
qed simp

lemma part_worst_ok:
  assumes "\<forall>w < length alloc. unat (alloc ! w) < 2 ^ 31 \<and> unat (occ ! w) < 2 ^ 31" "part_worst alloc occ = (m, r)"
  shows "\<forall>w < length alloc. extra alloc occ w \<le> m"
    "r = -1 \<and> m = 0 \<or> 0 \<le> r \<and> nat r < length alloc \<and> 0 < m \<and> extra alloc occ (nat r) = m"
  using part_worst_prefix [OF assms(1)] assms(2) by (auto simp: part_worst_def)

text \<open>
  The victim's core: when the set is full and the allocations fit, the assertion on \<^verbatim>\<open>repl_proc_id\<close>
  holds, and the core is over its allocation or is the requester at or above its own.
\<close>

lemma part_victim_core_ok:
  assumes small: "\<forall>w < length alloc. unat (alloc ! w) < 2 ^ 31 \<and> unat (occ ! w) < 2 ^ 31"
    and sum: "(\<Sum>w < length alloc. unat (alloc ! w)) \<le> (\<Sum>w < length alloc. unat (occ ! w))"
    and pid: "pid < length alloc"
  obtains q where "part_victim_core n alloc occ pid si = Some q" "q < length alloc"
    "0 < extra alloc occ q \<or> q = pid \<and> 0 \<le> extra alloc occ pid"
proof -
  obtain m r where mr: "part_worst alloc occ = (m, r)" by fastforce
  note w = part_worst_ok [OF small mr]
  have s: "sint (occ ! pid - alloc ! pid) = extra alloc occ pid"
    using small pid sint_diff by (simp add: extra_def)
  have l: "occ ! pid < alloc ! pid \<longleftrightarrow> extra alloc occ pid < 0" by (simp add: extra_def word_less_def)
  have pigeon: "0 \<le> r" if "extra alloc occ pid < 0"
  proof (rule ccontr)
    assume "\<not> 0 \<le> r"
    with w have le: "\<forall>w < length alloc. unat (occ ! w) \<le> unat (alloc ! w)" by (auto simp: extra_le)
    have "(\<Sum>w < length alloc. unat (occ ! w)) < (\<Sum>w < length alloc. unat (alloc ! w))"
      using that pid le by (intro sum_strict_mono_ex1) (auto simp: extra_le)
    with sum show False by simp
  qed
  show thesis
  proof (cases "occ ! pid < alloc ! pid \<or> extra alloc occ pid + 1 < m \<or> (extra alloc occ pid < m \<and>
             (of_int r + of_nat si) mod n < ((of_nat pid + of_nat si) mod n :: uns))")
    case True
    with w pigeon l have r: "0 \<le> r" "nat r < length alloc" "0 < extra alloc occ (nat r)" by auto
    with True show thesis by (intro that [of "nat r"]) (simp_all add: part_victim_core_def mr s)
  next
    case False
    then show thesis using l pid by (intro that [of pid]) (auto simp: part_victim_core_def mr s)
  qed
qed

text \<open>A partition that fits the cache, and a set whose lines belong to the cores.\<close>

definition part_ok :: "Cache_Env \<Rightarrow> Cache \<Rightarrow> nat \<Rightarrow> uns list \<Rightarrow> bool" where
  "part_ok E c si alloc \<longleftrightarrow> cache_repl_policy c = REPL_PARTITION \<and> cache_num_ways_allocted_core c = Some alloc \<and>
     length alloc = unat (num_cores E) \<and> length (cache_lru_index_core c) = length alloc \<and> 0 \<notin> set alloc \<and>
     sum_list (map unat alloc) \<le> unat (cache_assoc c) \<and> unat (cache_assoc c) < 2 ^ 31 \<and>
     (\<forall>e \<in> set (cache_row c si). ce_valid e \<longrightarrow> unat (ce_proc_id e) < length alloc)"

lemma unat_sum_list_le: "unat (sum_list xs) \<le> sum_list (map unat xs)" for xs :: "uns list"
proof (induction xs)
  case (Cons x xs)
  have "unat (x + sum_list xs) \<le> unat x + unat (sum_list xs)" by (simp add: unat_word_ariths)
  with Cons show ?case by simp
qed simp

lemma owned_sum:
  "\<forall>e \<in> set row. unat (ce_proc_id e) < n \<Longrightarrow> (\<Sum>q < n. length (owned q row)) = length row"
proof (induction row)
  case (Cons e row)
  have "(\<Sum>q < n. length (owned q (e # row))) =
      (\<Sum>q < n. (if q = unat (ce_proc_id e) then 1 else 0) + length (owned q row))"
    by (intro sum.cong) (auto simp: owned_Cons)
  also have "\<dots> = (\<Sum>q < n. if q = unat (ce_proc_id e) then 1 else 0) + (\<Sum>q < n. length (owned q row))"
    by (rule sum.distrib)
  finally show ?case using Cons by (simp add: sum.delta)
qed (simp add: owned_def)

lemma length_owned_le: "length (owned q row) \<le> length row"
  by (simp add: owned_def)

lemma partition_full_set:
  assumes inv: "cache_inv c" and si: "si < length (cache_entries c)" and ok: "part_ok E c si alloc"
    and pid: "unat pid < length alloc" and full: "\<forall>e \<in> set (cache_row c si). ce_valid e"
  obtains w c1 where "find_repl_entry E c pid si = Some (w, c1)"
    "\<And>e. e \<in> set (owned (unat (ce_proc_id (cache_row c si ! w))) (cache_row c si)) \<Longrightarrow>
       ce_last_access_time (cache_row c si ! w) \<le> ce_last_access_time e"
    "let q = unat (ce_proc_id (cache_row c si ! w))
     in unat (alloc ! q) < length (owned q (cache_row c si)) \<or>
        q = unat pid \<and> unat (alloc ! q) \<le> length (owned q (cache_row c si))"
proof -
  let ?row = "cache_row c si" and ?n = "length alloc"
  have len: "length ?row = unat (cache_assoc c)" by (rule cache_invD(4) [OF inv si])
  have row: "\<forall>e \<in> set ?row. ce_valid e \<and> unat (ce_proc_id e) < ?n \<and> ce_last_access_time e < MAX_CTR"
    using full ok cache_invD(9) [OF inv si] by (auto simp: part_ok_def)
  have "scan_ok ?n [] (replicate ?n 0, cache_lru_index_core c, replicate ?n MAX_CTR)"
    using ok by (auto simp: scan_ok_def core_ok_def owned_def part_ok_def)
  from part_scan_ok [OF this row] obtain occ idx tm where
    scan: "part_scan 0 (replicate ?n 0, cache_lru_index_core c, replicate ?n MAX_CTR) ?row = Some (None, occ, idx, tm)"
    "scan_ok ?n ?row (occ, idx, tm)" by auto
  have occ: "unat (occ ! q) = length (owned q ?row)" if "q < ?n" for q
    using scan(2) that length_owned_le [of q ?row] ok len
    by (simp add: scan_ok_def core_ok_def part_ok_def unat_of_nat_small)
  have "unat (alloc ! q) \<le> unat (cache_assoc c)" if "q < ?n" for q
    using ok member_le_sum_list [of "unat (alloc ! q)" "map unat alloc"] that by (simp add: part_ok_def)
  then have small: "\<forall>q < ?n. unat (alloc ! q) < 2 ^ 31 \<and> unat (occ ! q) < 2 ^ 31"
    using ok occ length_owned_le [of _ ?row] len by (fastforce simp: part_ok_def intro: order.strict_trans1)
  have "(\<Sum>q < ?n. unat (alloc ! q)) = sum_list (map unat alloc)"
    by (simp add: sum_list_sum_nth atLeast0LessThan)
  also have "\<dots> \<le> (\<Sum>q < ?n. length (owned q ?row))"
    using ok owned_sum [of ?row ?n] row len by (simp add: part_ok_def)
  finally have sum: "(\<Sum>q < ?n. unat (alloc ! q)) \<le> (\<Sum>q < ?n. unat (occ ! q))" using occ by simp
  obtain q where q: "part_victim_core (num_cores E) alloc occ (unat pid) si = Some q" "q < ?n"
    "0 < extra alloc occ q \<or> q = unat pid \<and> 0 \<le> extra alloc occ (unat pid)"
    using part_victim_core_ok [OF small sum pid] by metis
  have "alloc ! q \<in> set alloc" using q(2) by simp
  then have "alloc ! q \<noteq> 0" using ok by (metis part_ok_def)
  then have "0 < unat (alloc ! q)" by (metis unat_eq_0 gr0I)
  with q(2,3) occ have c: "unat (alloc ! q) < length (owned q ?row) \<or> q = unat pid \<and> unat (alloc ! q) \<le> length (owned q ?row)"
    by (auto simp: extra_def simp del: of_nat_unat uint_nat)
  with \<open>0 < unat (alloc ! q)\<close> have "owned q ?row \<noteq> []" by auto
  then obtain k where k: "k < length ?row" "idx ! q = of_nat k" "unat (ce_proc_id (?row ! k)) = q"
    "\<forall>e \<in> set (owned q ?row). ce_last_access_time (?row ! k) \<le> ce_last_access_time e"
    using scan(2) q(2) by (auto simp: scan_ok_def core_ok_def)
  have "unat (idx ! q) = k" using k(1,2) len ok by (simp add: part_ok_def unat_of_nat_small)
  moreover have "sum_list alloc \<le> cache_assoc c"
    using ok unat_sum_list_le [of alloc] by (simp add: part_ok_def word_le_nat_alt)
  ultimately obtain c1 where "find_repl_entry E c pid si = Some (k, c1)"
    using ok pid scan(1) q(1) k(1) by (simp add: find_repl_entry_def part_find_def part_ok_def Let_def)
  with k c show thesis by (intro that [of k c1]) (simp_all add: Let_def)
qed

text \<open>With an invalid way in the set, the victim is an invalid way.\<close>

lemma partition_free_way:
  assumes inv: "cache_inv c" and si: "si < length (cache_entries c)" and ok: "part_ok E c si alloc"
    and pid: "unat pid < length alloc" and free: "\<exists>e \<in> set (cache_row c si). \<not> ce_valid e"
  obtains w c1 where "find_repl_entry E c pid si = Some (w, c1)" "\<not> ce_valid (cache_row c si ! w)"
proof -
  obtain w occ idx tm where w: "part_scan 0 (replicate (length alloc) 0, cache_lru_index_core c, replicate (length alloc) MAX_CTR)
      (cache_row c si) = Some (Some w, occ, idx, tm)" "w < length (cache_row c si)" "\<not> ce_valid (cache_row c si ! w)"
    using part_scan_invalid [OF free, of "replicate (length alloc) 0" 0 "cache_lru_index_core c" "replicate (length alloc) MAX_CTR"] ok
    by (auto simp: part_ok_def)
  have "sum_list alloc \<le> cache_assoc c"
    using ok unat_sum_list_le [of alloc] by (simp add: part_ok_def word_le_nat_alt)
  with w ok pid obtain c1 where "find_repl_entry E c pid si = Some (w, c1)"
    by (simp add: find_repl_entry_def part_find_def part_ok_def Let_def)
  with w(3) show thesis using that by blast
qed

section \<open>The shadow cache\<close>

lemma shadow_scan_skip:
  "\<forall>j \<in> set xs. \<not> hit_line tag (cache_shadow_entries c ! si ! j) \<Longrightarrow>
     shadow_scan E si tag (xs @ ys) lru c = shadow_scan E si tag ys lru c"
  by (induction xs) (cases lru, auto simp: hit_line_def Let_def)+

text \<open>A line found in the shadow cache, younger than the oldest main line, changes places with it.\<close>

lemma shadow_promote:
  assumes pol: "cache_repl_policy c = REPL_SHADOW_IDEAL" and i: "cache_index c a = (si, tag, la)"
    and si: "si < length (cache_entries c)" and d: "distinct (map ce_tag (filter ce_valid (cache_row c si)))"
    and ne: "cache_row c si \<noteq> []" and miss: "cache_look c a = None"
    and len: "length (cache_shadow_entries c ! si) = unat (cache_assoc c)"
    and sh: "find_ix (hit_line tag) (cache_shadow_entries c ! si) = Some ii" "ce_data (cache_shadow_entries c ! si ! ii) \<noteq> 0"
    and lru: "lru_way (cache_row c si) = (w, tm)" "tm < ce_last_access_time (cache_shadow_entries c ! si ! ii)"
  obtains c' where "cache_access E a upd (c, h) = Some (ce_data (cache_row c si ! w), la, c', h)"
    "cache_look c' a = Some (ce_data (cache_shadow_entries c ! si ! ii))"
proof -
  let ?line = "cache_shadow_entries c ! si ! ii" and ?main = "cache_row c si ! w"
  note s = find_ix_SomeD [OF sh(1)]
  have w: "w < length (cache_row c si)" using lru_way_lt [OF ne] lru(1) by simp
  have nohit: "\<not> hit_line tag (cache_row c si ! j)" if "j < length (cache_row c si)" for j
    using miss that by (simp add: cache_look_def i row_look_None)
  have l: "hit_line tag ?line" "ce_valid ?line" "ce_tag ?line = tag" using s(2) by (auto simp: hit_line_def)
  have split: "[0..<unat (cache_assoc c)] = [0..<ii] @ ii # [Suc ii..<unat (cache_assoc c)]"
    using s(1) len upt_add_eq_append [of 0 ii "unat (cache_assoc c) - ii"] upt_conv_Cons by simp
  have "find_ix (hit_line tag) (cache_row c si) = None"
    using nohit by (auto simp: find_ix_None in_set_conv_nth)
  let ?c1 = "upd_line si w (\<lambda>_. ?line\<lparr>ce_last_access_time := sim_time E\<rparr>) c"
  let ?c' = "upd_shadow si ii (\<lambda>_. ?main\<lparr>ce_last_access_time := ce_last_access_time ?line\<rparr>) ?c1"
  have "access_shadow_lines E si tag c = Some (ce_data ?main, ?c')"
    unfolding access_shadow_lines_def split
    using l sh(2) lru s(3) by (subst shadow_scan_skip) (auto simp: lru_way_def Let_def)
  then have 1: "cache_access E a upd (c, h) = Some (ce_data ?main, la, ?c', h)"
    using pol \<open>find_ix _ _ = None\<close> by (simp add: cache_access_def i)
  have fr: "cache_index ?c' = cache_index c" "cache_row ?c' = cache_row ?c1"
    by (simp_all add: upd_shadow_def Let_def cache_index_def cache_row_def fun_eq_iff upd_line_def)
  let ?e = "?line\<lparr>ce_last_access_time := sim_time E\<rparr>"
  have "row_look (ce_tag ?e) ((cache_row c si)[w := ?e]) = Some (ce_data ?e)"
    using row_update(2) [OF d w, of ?e "ce_tag ?e"] l nohit by simp
  then have "cache_look ?c' a = Some (ce_data ?line)"
    using l by (simp add: cache_look_def fr i cache_row_upd_line [OF si])
  with 1 show thesis by (rule that)
qed

section \<open>Ideal replacement\<close>

lemma demote_count: "demote_lines row h = Some (r, us, n, h') \<Longrightarrow> n = length (filter ce_valid row)"
  by (induction row arbitrary: h r us n h') (auto split: if_splits option.splits prod.splits)

lemma ideal_count_mismatch:
  assumes pol: "cache_repl_policy c = REPL_IDEAL" and si: "si < length (cache_entries c)"
    and len: "length (cache_row c si) = unat (cache_assoc c)" and some: "\<exists>e \<in> set (cache_row c si). \<not> ce_valid e"
    and sure: "cache_repl_ctrs c ! si = cache_assoc c" and i: "cache_index c b = (si, tag, lb)"
  shows "cache_insert_replpos E pid b repl pref (c, h) = None"
proof -
  have lt: "length (filter ce_valid (cache_row c si)) < unat (cache_assoc c)"
    using some len length_filter_less [of _ "cache_row c si" ce_valid] by metis
  have "unat (cache_assoc c) < 2 ^ 32" using unsigned_less [where 'a = nat, of "cache_assoc c"] by simp
  with lt have "unat (of_nat (length (filter ce_valid (cache_row c si))) :: uns) < unat (cache_assoc c)"
    by (simp add: unat_of_nat_small)
  then have "insert_sure_line si (c, h) = None"
    using sure by (auto simp: insert_sure_line_def Let_def dest!: demote_count split: option.splits)
  then show ?thesis using pol by (simp add: cache_insert_replpos_def i cache_take_line_def)
qed

section \<open>Reachable caches\<close>

lemma reset_cache_ok:
  assumes "cache_inv c"
  shows "cache_inv (reset_cache c)" "cache_look (reset_cache c) a = None" "cache_repl_policy (reset_cache c) = cache_repl_policy c"
proof -
  let ?f = "map (\<lambda>e. e\<lparr>ce_valid := False\<rparr>)"
  have row: "cache_row (reset_cache c) si = ?f (cache_row c si)" if "si < length (cache_entries c)" for si
    using that by (simp add: reset_cache_def cache_row_def)
  have ix: "cache_index (reset_cache c) = cache_index c" "index_ok (reset_cache c) = index_ok c"
    by (simp_all add: reset_cache_def cache_index_def index_ok_def fun_eq_iff)
  have sel: "cache_assoc (reset_cache c) = cache_assoc c" "cache_repl_ctrs (reset_cache c) = cache_repl_ctrs c"
    "length (cache_entries (reset_cache c)) = length (cache_entries c)" by (simp_all add: reset_cache_def)
  have inval: "\<forall>e \<in> set (cache_row (reset_cache c) si). \<not> ce_valid e \<and> ce_data e \<noteq> 0" if "si < length (cache_entries c)" for si
    using row [OF that] cache_invD(8) [OF assms that] by auto
  have "row_ok (cache_row (reset_cache c) si)" "\<forall>e \<in> set (cache_row (reset_cache c) si). base_ok (reset_cache c) si e"
    if "si < length (cache_entries c)" for si
    using all_invalid_row_ok [OF inval [OF that]] inval [OF that] by (simp_all add: base_ok_def)
  then show "cache_inv (reset_cache c)"
    using assms unfolding cache_inv_def by (simp add: ix sel row)
  obtain si tag la where i: "cache_index c a = (si, tag, la)" using prod_cases3 by blast
  with cache_index_lt [OF cache_invD(2) [OF assms] i] show "cache_look (reset_cache c) a = None"
    by (simp add: cache_look_def ix row row_look_None hit_line_def)
qed (simp add: reset_cache_def)

lemma insert_next:
  assumes "cache_insert_replpos E pid a repl pref (c, h) = Some r" "cache_repl_policy c \<noteq> REPL_IDEAL"
  obtains p base v c1 where "get_next_repl_line E pid a c = Some (p, base, v, c1)"
proof -
  obtain si tag la where i: "cache_index c a = (si, tag, la)" using prod_cases3 by blast
  with assms obtain w c1 where "find_repl_entry E c pid si = Some (w, c1)"
    by (auto simp: cache_insert_replpos_def cache_take_line_def split: option.splits)
  with that get_next_eq [OF i] show thesis by blast
qed

inductive cache_reach :: "Repl_Policy \<Rightarrow> Cache \<times> Heap \<Rightarrow> bool" for pol where
  start: "init_cache E u us up c0 name n assoc ls ds pol h = Some (c, h') \<Longrightarrow> 0 < next_ptr h \<Longrightarrow> cache_reach pol (c, h')"
| access: "cache_reach pol (c, h) \<Longrightarrow> sim_time E < MAX_CTR \<Longrightarrow>
    cache_access E a upd (c, h) = Some (p, la, c', h') \<Longrightarrow> cache_reach pol (c', h')"
| insert: "cache_reach pol (c, h) \<Longrightarrow> sim_time E < MAX_CTR \<Longrightarrow> cache_access E a False (c, h) = Some (0, la', ch) \<Longrightarrow>
    cache_insert_replpos E pid a repl pref (c, h) = Some (p, la, ra, c', h') \<Longrightarrow> cache_reach pol (c', h')"
| invalidate: "cache_reach pol (c, h) \<Longrightarrow> cache_invalidate a (c, h) = Some (la, c', h') \<Longrightarrow> cache_reach pol (c', h')"
| partition: "cache_reach pol (c, h) \<Longrightarrow> set_partition_allocate E pid n c = Some c' \<Longrightarrow> cache_reach pol (c', h)"
| reset: "cache_reach pol (c, h) \<Longrightarrow> cache_reach pol (reset_cache c, h)"

lemma set_partition_frame:
  "set_partition_allocate E pid n c = Some c' \<Longrightarrow>
     cache_inv c' = cache_inv c \<and> cache_repl_policy c' = cache_repl_policy c"
  by (auto simp: set_partition_allocate_def cache_inv_def cache_row_def index_ok_def base_ok_def cache_index_def
      split: option.splits if_splits)

lemma cache_access_miss:
  assumes "cache_inv c" "direct_policy (cache_repl_policy c)" "sim_time E < MAX_CTR"
    "cache_access E a upd (c, h) = Some (0, la, ch)"
  shows "cache_look c a = None"
proof (cases "cache_look c a")
  case (Some p)
  obtain si tag la where i: "cache_index c a = (si, tag, la)" using prod_cases3 by blast
  from Some have "p \<noteq> 0" using cache_look_hit(2,3) [OF assms(1) i] by auto
  with cache_access_ok [OF assms(1-3), of a upd h] Some assms(4) show ?thesis by (metis option.simps(5) option.inject prod.inject)
qed

lemma cache_reach_inv:
  "cache_reach pol (c, h) \<Longrightarrow> direct_policy pol \<Longrightarrow> cache_inv c \<and> cache_repl_policy c = pol"
proof (induction "(c, h)" arbitrary: c h rule: cache_reach.induct)
  case (start E u us up c0 name n assoc ls ds h c h')
  then show ?case using init_cache_ok [OF start(2,1)] by simp
next
  case (access c h E a upd p la c' h')
  then have inv: "cache_inv c" "cache_repl_policy c = pol" by simp_all
  with access.prems have d: "direct_policy (cache_repl_policy c)" by simp
  obtain c2 where "cache_access E a upd (c, h) =
      Some (case cache_look c a of None \<Rightarrow> 0 | Some p \<Rightarrow> p, get_cache_line_addr c a, c2, h)"
    "cache_inv c2" "cache_repl_policy c2 = cache_repl_policy c"
    by (rule cache_access_ok [OF inv(1) d access(3)])
  with access(4) inv(2) show ?case by simp
next
  case (insert c h E a la' ch pid repl pref p la ra c' h')
  then have inv: "cache_inv c" "cache_repl_policy c = pol" by simp_all
  with insert.prems have d: "direct_policy (cache_repl_policy c)" "cache_repl_policy c \<noteq> REPL_IDEAL"
    by (auto simp: direct_policy_def)
  obtain p0 base v c1 where n: "get_next_repl_line E pid a c = Some (p0, base, v, c1)"
    using insert_next [OF insert(5) d(2)] .
  have miss: "cache_look c a = None" using cache_access_miss [OF inv(1) d(1) insert(3,4)] .
  obtain c2 where "cache_insert_replpos E pid a repl pref (c, h) =
      Some (p0, get_cache_line_addr c a, if v then base else 0, c2, h)" "inserted c a p0 base v c2"
    by (rule cache_insert_replpos_ok [OF inv(1) d(1) insert(3) miss n])
  with insert(5) inv(2) show ?case by (simp add: inserted_def)
next
  case (invalidate c h a la c' h')
  then have inv: "cache_inv c" "cache_repl_policy c = pol" by simp_all
  with invalidate.prems have "cache_repl_policy c \<noteq> REPL_IDEAL" by (auto simp: direct_policy_def)
  obtain c2 where "cache_invalidate a (c, h) = Some (get_cache_line_addr c a, c2, h)" "cache_inv c2"
    "cache_repl_policy c2 = cache_repl_policy c"
    by (rule cache_invalidate_ok [OF inv(1) \<open>cache_repl_policy c \<noteq> REPL_IDEAL\<close>])
  with invalidate(3) inv(2) show ?case by simp
next
  case (partition c h E pid n c')
  then show ?case using set_partition_frame by blast
next
  case (reset c h)
  then show ?case using reset_cache_ok by simp
qed

inductive_cases cache_reachE: "cache_reach pol (c, h)"

end
