(* ===== verification/Cache_Props.thy ===== *)
theory Cache_Props
  imports Cache_Policies
begin

text \<open>
  The properties of the cache library. The witnesses run on a cache of one set, with 64-byte lines
  and the lines given.
\<close>

definition line_ex :: "Addr \<Rightarrow> Counter \<Rightarrow> ptr \<Rightarrow> Cache_Entry" where
  "line_ex base t p = \<lparr>ce_proc_id = 0, ce_valid = True, ce_tag = drop_bit 6 base, ce_base = base,
     ce_last_access_time = t, ce_insertion_time = 0, ce_data = p, ce_pref = False, ce_dirty = False\<rparr>"

definition cache_ex :: "Repl_Policy \<Rightarrow> uns \<Rightarrow> Cache_Entry list \<Rightarrow> Cache_Entry list \<Rightarrow> Cache" where
  "cache_ex pol ctr row shadow =
     \<lparr>cache_name = [], cache_data_size = 8, cache_assoc = of_nat (length row), cache_num_lines = of_nat (length row),
      cache_num_sets = 1, cache_line_size = 64, cache_repl_policy = pol, cache_set_bits = 0, cache_shift_bits = 6,
      cache_set_mask = mask 0, cache_tag_mask = NOT (mask 0), cache_offset_mask = mask 6, cache_repl_ctrs = [ctr],
      cache_entries = [row], cache_unsure_lists = [[]], cache_shadow_entries = [shadow], cache_queue_end = [0],
      cache_num_demand_access = 0, cache_last_update = 0, cache_num_ways_allocted_core = Some [1, 1],
      cache_num_ways_occupied_core = [0, 0], cache_lru_index_core = [0, 0], cache_lru_time_core = [0, 0]\<rparr>"

definition env_ex :: Cache_Env where
  "env_ex = \<lparr>sim_time = 100, rand_value = 0, num_cores = 2, l1_part_on = True\<rparr>"

definition heap_ex :: Heap where
  "heap_ex = \<lparr>bufs = \<lambda>_. None, next_ptr = 1, junk = \<lambda>_ _. 0\<rparr>"

lemma cache_ex_sel [simp]:
  "cache_assoc (cache_ex pol ctr row sh) = of_nat (length row)" "cache_repl_policy (cache_ex pol ctr row sh) = pol"
  "cache_entries (cache_ex pol ctr row sh) = [row]" "cache_row (cache_ex pol ctr row sh) 0 = row"
  "cache_repl_ctrs (cache_ex pol ctr row sh) = [ctr]" "cache_shadow_entries (cache_ex pol ctr row sh) = [sh]"
  "cache_unsure_lists (cache_ex pol ctr row sh) = [[]]"
  "cache_index (cache_ex pol ctr row sh) a = (0, drop_bit 6 a, a AND NOT (mask 6))"
  "get_cache_line_addr (cache_ex pol ctr row sh) a = a AND NOT (mask 6)"
  by (simp_all add: cache_ex_def cache_row_def cache_index_def get_cache_line_addr_def)

lemma env_ex_sel [simp]: "sim_time env_ex = 100" "num_cores env_ex = 2" "rand_value env_ex = 0"
  by (simp_all add: env_ex_def)

lemma line_ex_sel [simp]: "ce_valid (line_ex b t p)" "ce_tag (line_ex b t p) = drop_bit 6 b"
  "ce_base (line_ex b t p) = b" "ce_last_access_time (line_ex b t p) = t" "ce_data (line_ex b t p) = p"
  "ce_proc_id (line_ex b t p) = 0"
  by (simp_all add: line_ex_def)

lemma cache_ex_index_ok [simp]: "index_ok (cache_ex pol ctr row sh)"
  by (auto simp: index_ok_def cache_ex_def intro!: exI [of _ 0])

lemma cache_ex_inv:
  assumes "distinct (map ce_tag (filter ce_valid row))" "row \<noteq> []" "length row < 2 ^ 32" "ctr < of_nat (length row)"
    "\<forall>e \<in> set row. ce_data e \<noteq> 0 \<and> (ce_valid e \<longrightarrow> ce_last_access_time e < MAX_CTR \<and>
       ce_tag e = drop_bit 6 (ce_base e) \<and> ce_base e AND NOT (mask 6) = ce_base e)"
  shows "cache_inv (cache_ex pol ctr row sh)"
  using assms
  by (auto simp: cache_inv_def row_ok_def base_ok_def unat_of_nat_small word_less_nat_alt)

lemma line_ex_addr [simp]:
  "(64 :: Addr) AND NOT (mask 6) = 64" "(128 :: Addr) AND NOT (mask 6) = 128" "(192 :: Addr) AND NOT (mask 6) = 192"
  by (simp_all add: mask_eq_exp_minus_1)

text \<open>Two lines, at addresses 64 and 128; the second is the older one.\<close>

abbreviation row_ex :: "Cache_Entry list" where
  "row_ex \<equiv> [line_ex 64 20 7, line_ex 128 10 8]"

lemma row_ex_inv [simp]: "ctr < 2 \<Longrightarrow> cache_inv (cache_ex pol ctr row_ex sh)"
  by (rule cache_ex_inv) (auto simp: MAX_CTR_def)

lemma row_ex_look [simp]:
  "cache_look (cache_ex pol ctr row_ex sh) 64 = Some 7" "cache_look (cache_ex pol ctr row_ex sh) 128 = Some 8"
  "cache_look (cache_ex pol ctr row_ex sh) 192 = None"
  by (simp_all add: cache_look_def row_look_def hit_line_def)

section \<open>The cache as a map\<close>

text \<open>C23: An insertion of an absent line never fails when the victim search answers; it returns the data
  pointer, and reports the address, of the very line that \<^verbatim>\<open>get_next_repl_line\<close> announces, and
  afterwards the cache holds the new line, every old line but the victim, and nothing else. This
  holds for every insertion position and every policy that keeps its lines in the main entries.\<close>

theorem cache_insert_replaces_next:
  assumes "cache_inv c" "direct_policy (cache_repl_policy c)" "sim_time E < MAX_CTR" "cache_look c a = None"
    and "get_next_repl_line E pid a c = Some (p, base, v, c1)"
  shows "\<exists>c'. cache_insert_replpos E pid a repl pref (c, h) =
      Some (p, get_cache_line_addr c a, if v then base else 0, c', h) \<and> cache_inv c' \<and>
    (\<forall>b. cache_look c' b =
      (if get_cache_line_addr c b = get_cache_line_addr c a then Some p
       else if v \<and> get_cache_line_addr c b = base then None else cache_look c b))"
  by (rule cache_insert_replpos_ok [OF assms]) (auto simp: inserted_def)

theorem cache_insert_replaces_next_witness:
  "\<exists>c'. cache_insert_replpos env_ex 0 192 INSERT_REPL_MID True (cache_ex REPL_TRUE_LRU 0 row_ex [], heap_ex) =
      Some (8, 192, 128, c', heap_ex) \<and> cache_look c' 192 = Some 8 \<and> cache_look c' 64 = Some 7 \<and> cache_look c' 128 = None"
proof -
  let ?c = "cache_ex REPL_TRUE_LRU 0 row_ex []"
  have n: "get_next_repl_line env_ex 0 192 ?c = Some (8, 128, True, ?c)"
    by (simp add: get_next_repl_line_def find_repl_entry_def lru_way_def MAX_CTR_def)
  obtain c' where "cache_insert_replpos env_ex 0 192 INSERT_REPL_MID True (?c, heap_ex) =
      Some (8, get_cache_line_addr ?c 192, if True then 128 else 0, c', heap_ex)"
    "\<forall>b. cache_look c' b = (if get_cache_line_addr ?c b = get_cache_line_addr ?c 192 then Some 8
       else if True \<and> get_cache_line_addr ?c b = 128 then None else cache_look ?c b)"
    using cache_insert_replaces_next [OF _ _ _ _ n, where repl = INSERT_REPL_MID and pref = True and h = heap_ex]
    by (auto simp: direct_policy_def MAX_CTR_def)
  then show ?thesis by simp
qed

text \<open>C24: Under the six policies that keep their lines in the main entries (\<open>direct_policy\<close>: true LRU, random,
  not-MRU, round robin, low-priority prefetches, partition), before time \<^verbatim>\<open>MAX_CTR\<close>, a lookup returns the data
  pointer of the resident line and \<^verbatim>\<open>NULL\<close> otherwise, whatever it does to the replacement state: it never
  changes which lines are resident. The shadow and the ideal policies, which move lines between the main and
  other entries in a lookup, are not meant.\<close>

theorem cache_access_map:
  assumes "cache_inv c" "direct_policy (cache_repl_policy c)" "sim_time E < MAX_CTR"
  shows "\<exists>c'. cache_access E a upd (c, h) =
      Some (case cache_look c a of None \<Rightarrow> 0 | Some p \<Rightarrow> p, get_cache_line_addr c a, c', h) \<and>
    cache_inv c' \<and> cache_look c' = cache_look c"
  by (rule cache_access_ok [OF assms]) auto

theorem cache_access_map_witness:
  "\<exists>c'. cache_access env_ex 64 True (cache_ex REPL_LOW_PREF 0 row_ex [], heap_ex) = Some (7, 64, c', heap_ex) \<and>
    cache_look c' = cache_look (cache_ex REPL_LOW_PREF 0 row_ex [])"
  using cache_access_map [of "cache_ex REPL_LOW_PREF 0 row_ex []" env_ex 64 True heap_ex]
  by (auto simp: direct_policy_def MAX_CTR_def)

text \<open>C25: Under the six policies that keep their lines in the main entries (\<open>direct_policy\<close>), invalidating a
  line makes it, and no other line, absent. Under \<^verbatim>\<open>REPL_SHADOW_IDEAL\<close> a line may stay in the shadow entries,
  where an invalidation does not look; that policy and \<^verbatim>\<open>REPL_IDEAL\<close> are not meant.\<close>

theorem cache_invalidate_map:
  assumes "cache_inv c" "direct_policy (cache_repl_policy c)"
  shows "\<exists>c'. cache_invalidate a (c, h) = Some (get_cache_line_addr c a, c', h) \<and> cache_inv c' \<and>
    (\<forall>b. cache_look c' b = (if get_cache_line_addr c b = get_cache_line_addr c a then None else cache_look c b))"
proof -
  have "cache_repl_policy c \<noteq> REPL_IDEAL" using assms(2) by (auto simp: direct_policy_def)
  from cache_invalidate_ok [OF assms(1) this] show ?thesis by metis
qed

theorem cache_invalidate_map_witness:
  "\<exists>c'. cache_invalidate 64 (cache_ex REPL_TRUE_LRU 0 row_ex [], heap_ex) = Some (64, c', heap_ex) \<and>
    cache_look c' 64 = None \<and> cache_look c' 128 = Some 8"
  using cache_invalidate_map [of "cache_ex REPL_TRUE_LRU 0 row_ex []" 64 heap_ex] by (auto simp: direct_policy_def)

text \<open>C26: From \<^verbatim>\<open>init_cache\<close> on, for a cache of one of the six policies that keep their lines in the main
  entries (\<open>direct_policy\<close>; not the shadow and the ideal policies), through lookups, insertions after a
  missing lookup, invalidations, repartitioning and resets, no set ever holds a tag twice, every valid line sits in the set its
  address indexes, and the replacement counters name a way.\<close>

theorem cache_reachable_inv:
  assumes "cache_reach pol (c, h)" "direct_policy pol"
  shows "cache_inv c"
  using cache_reach_inv [OF assms] by simp

lemma cache_reach_ex:
  "\<exists>c h. cache_reach REPL_ROUND_ROBIN (c, h) \<and> cache_assoc c = 2"
proof -
  have "\<exists>c h. init_cache env_ex (\<lambda>_ _. line_ex 0 0 0) (\<lambda>_ _. line_ex 0 0 0) (\<lambda>_. 0)
      (cache_ex REPL_RANDOM 0 [] []) [] 256 2 64 8 REPL_ROUND_ROBIN heap_ex = Some (c, h) \<and> cache_assoc c = 2"
    by (auto simp: init_cache_def Let_def split: prod.splits)
  then obtain c h where i: "init_cache env_ex (\<lambda>_ _. line_ex 0 0 0) (\<lambda>_ _. line_ex 0 0 0) (\<lambda>_. 0)
      (cache_ex REPL_RANDOM 0 [] []) [] 256 2 64 8 REPL_ROUND_ROBIN heap_ex = Some (c, h)" "cache_assoc c = 2" by blast
  then have "cache_reach REPL_ROUND_ROBIN (c, h)" by (intro cache_reach.start [OF i(1)]) (simp add: heap_ex_def)
  with i(2) show ?thesis by blast
qed

theorem cache_reachable_inv_witness:
  "\<exists>c h. cache_reach REPL_ROUND_ROBIN (c, h) \<and> cache_assoc c = 2 \<and> cache_inv c"
proof -
  obtain c h where r: "cache_reach REPL_ROUND_ROBIN (c, h)" "cache_assoc c = 2" using cache_reach_ex by blast
  with cache_reachable_inv [OF r(1)] show ?thesis by (auto simp: direct_policy_def)
qed

section \<open>Replacement\<close>

text \<open>C32: Under true LRU a hit at a new time moves the line to position 0 of the LRU stack; a line of the
  same core above or level with it moves down by one, and a line below it keeps its position.\<close>

theorem lru_stack_update:
  assumes "cache_inv c" "cache_repl_policy c = REPL_TRUE_LRU"
    and "cache_index c a = (si, tag, la)" "cache_index c b = (si, tag', lb)" "la \<noteq> lb"
    and "\<forall>e \<in> set (cache_row c si). ce_last_access_time e < sim_time E"
    and "cache_find_pos_in_lru_stack pid a c = Some (int m)" "cache_find_pos_in_lru_stack pid b c = Some (int n)"
  shows "\<exists>p c'. cache_access E a True (c, h) = Some (p, la, c', h) \<and>
    cache_find_pos_in_lru_stack pid a c' = Some 0 \<and>
    cache_find_pos_in_lru_stack pid b c' = Some (int (if n \<le> m then Suc n else n))"
  by (rule lru_stack_touch [OF assms, where h = h]) auto

theorem lru_stack_update_witness:
  "\<exists>p c'. cache_access env_ex 128 True (cache_ex REPL_TRUE_LRU 0 row_ex [], heap_ex) = Some (p, 128, c', heap_ex) \<and>
    cache_find_pos_in_lru_stack 0 128 c' = Some 0 \<and> cache_find_pos_in_lru_stack 0 64 c' = Some 1"
proof -
  let ?c = "cache_ex REPL_TRUE_LRU 0 row_ex []"
  have "cache_find_pos_in_lru_stack 0 128 ?c = Some (int 1)" "cache_find_pos_in_lru_stack 0 64 ?c = Some (int 0)"
    by (simp_all add: cache_find_pos_in_lru_stack_def hit_line_def)
  from lru_stack_update [OF _ _ _ _ _ _ this, where h = heap_ex and E = env_ex] show ?thesis by simp
qed

text \<open>Under true LRU the line to be replaced next in a full set of one core is at the bottom of the LRU
  stack: no line of the set has a larger position.\<close>

theorem lru_evicts_bottom:
  assumes "cache_inv c" "cache_repl_policy c = REPL_TRUE_LRU"
    and "cache_index c a = (si, tag, la)" "cache_index c b = (si, tag', lb)"
    and "\<forall>e \<in> set (cache_row c si). ce_proc_id e = pid"
    and "get_next_repl_line E pid a c = Some (p, base, True, c1)"
    and "cache_find_pos_in_lru_stack pid b c = Some n"
  shows "\<exists>m. cache_find_pos_in_lru_stack pid base c = Some m \<and> n \<le> m"
  by (rule lru_victim_pos [OF assms]) auto

theorem lru_evicts_bottom_witness:
  "\<exists>m. cache_find_pos_in_lru_stack 0 128 (cache_ex REPL_TRUE_LRU 0 row_ex []) = Some m \<and> 0 \<le> m"
proof -
  let ?c = "cache_ex REPL_TRUE_LRU 0 row_ex []"
  have n: "get_next_repl_line env_ex 0 192 ?c = Some (8, 128, True, ?c)"
    by (simp add: get_next_repl_line_def find_repl_entry_def lru_way_def MAX_CTR_def)
  have "cache_find_pos_in_lru_stack 0 64 ?c = Some 0"
    by (simp add: cache_find_pos_in_lru_stack_def hit_line_def)
  from lru_evicts_bottom [OF _ _ _ _ _ n this] show ?thesis by simp
qed

text \<open>Under not-most-recently-used replacement, when the associativity is a power of two of at least 2,
  a line that has just been hit is not the line to be replaced next.\<close>

theorem not_mru_spares_mru:
  assumes "cache_inv c" "cache_repl_policy c = REPL_NOT_MRU" "cache_assoc c = 2 ^ k" "0 < k" "k < 32"
    and "cache_look c a \<noteq> None" "cache_access E a True (c, h) = Some (p, la, c', h')"
    and "get_next_repl_line E' pid a c' = Some (p', base, v, c1)"
  shows "\<not> (v \<and> base = la)"
proof -
  obtain si tag la' where i: "cache_index c a = (si, tag, la')" using prod_cases3 by blast
  obtain ii where hit: "find_ix (hit_line tag) (cache_row c si) = Some ii"
    using assms(6) by (auto simp: cache_look_hit(2) [OF assms(1) i])
  obtain c2 where c2: "cache_access E a True (c, h) = Some (ce_data (cache_row c si ! ii), la', c2, h)"
    "cache_row c2 si = (cache_row c si)[ii := (cache_row c si ! ii)\<lparr>ce_pref := False\<rparr>]" "cache_index c2 = cache_index c"
    by (rule not_mru_access_eq [OF assms(1,2) i hit]) 
  with assms(7) have c': "c' = c2" "la' = la" by simp_all
  then obtain w where w: "find_repl_entry E' c' pid si = Some (w, c1)" "base = ce_base (cache_row c' si ! w)"
    "v = ce_valid (cache_row c' si ! w)"
    using assms(8) get_next_eq [of c' a si tag la] i c2(3) by auto
  have wl: "w < length (cache_row c si)" using find_repl_frame(1) [OF w(1)] c2(2) c' by simp
  note e = cache_look_hit(3) [OF assms(1) i hit]
  have "\<not> ce_valid (cache_row c' si ! w) \<or> w \<noteq> ii"
    using not_mru_victim [OF assms(1-5) _ hit assms(7) w(1)] i c' by simp
  moreover have "ce_valid (cache_row c si ! w) \<Longrightarrow> ce_base (cache_row c si ! w) = la \<Longrightarrow> w = ii"
  proof -
    assume v: "ce_valid (cache_row c si ! w)" "ce_base (cache_row c si ! w) = la"
    have "base_ok c si (cache_row c si ! w)"
      using cache_invD(7) [OF assms(1) cache_look_hit(1) [OF assms(1) i]] wl by simp
    with v have "cache_index c la = (si, ce_tag (cache_row c si ! w), la)" by (simp add: base_ok_def)
    moreover have "cache_index c la = (si, tag, la)"
      using cache_index_base [OF cache_invD(2) [OF assms(1)] i] c'(2) by simp
    ultimately have "ce_tag (cache_row c si ! w) = ce_tag (cache_row c si ! ii)" using e by simp
    with distinct_map_filterD [OF cache_invD(6) [OF assms(1) cache_look_hit(1) [OF assms(1) i]] wl] e v
    show "w = ii" by blast
  qed
  ultimately show ?thesis
    using w(2,3) c' c2(2) wl by (cases "w = ii") auto
qed

theorem not_mru_spares_mru_witness:
  "\<exists>c'. cache_access env_ex 64 True (cache_ex REPL_NOT_MRU 0 row_ex [], heap_ex) = Some (7, 64, c', heap_ex) \<and>
    (\<exists>p base v c1. get_next_repl_line env_ex 0 64 c' = Some (p, base, v, c1) \<and> \<not> (v \<and> base = 64))"
proof -
  let ?c = "cache_ex REPL_NOT_MRU 0 row_ex []"
  have inv: "cache_inv ?c" "direct_policy (cache_repl_policy ?c)" "sim_time env_ex < MAX_CTR"
    by (simp_all add: direct_policy_def MAX_CTR_def)
  obtain c' where c': "cache_access env_ex 64 True (?c, heap_ex) = Some (7, 64, c', heap_ex)" "cache_inv c'"
    "cache_repl_policy c' = REPL_NOT_MRU" "cache_index c' = cache_index ?c"
    by (rule cache_access_ok [OF inv, of 64 True heap_ex]) simp
  have "(0::nat) < length (cache_entries c')"
    using cache_index_lt [OF cache_invD(2) [OF c'(2)], of 64 0] c'(4) by simp
  from find_repl_total [OF c'(2) this] c'(3) obtain w where
    "find_repl_entry env_ex c' 0 0 = Some (w, c')" by (auto simp: direct_policy_def)
  then obtain p base v c1 where n: "get_next_repl_line env_ex 0 64 c' = Some (p, base, v, c1)"
    using get_next_eq [of c' 64 0] c'(4) by auto
  have "cache_assoc ?c = 2 ^ 1" by simp
  from not_mru_spares_mru [OF inv(1) _ this _ _ _ c'(1) n] have "\<not> (v \<and> base = 64)" by simp
  with c'(1) n show ?thesis by blast
qed

text \<open>The wrap of the counter is a bit mask, so with three ways it never leaves way 0 or way 2: a line hit
  there while it is the next victim stays the next victim, although it is now the most recently
  used.\<close>

theorem not_mru_three_ways_stuck:
  assumes "cache_inv c" "cache_repl_policy c = REPL_NOT_MRU" "cache_assoc c = 3"
    and "cache_index c a = (si, tag, la)" "cache_repl_ctrs c ! si \<in> {0, 2}"
    and "get_next_repl_line E pid a c = Some (p, la, True, c1)"
  shows "\<exists>c'. cache_access E a True (c, h) = Some (p, la, c', h) \<and>
    get_next_repl_line E pid a c' = Some (p, la, True, c')"
proof -
  obtain w where w: "find_repl_entry E c pid si = Some (w, c1)" "p = ce_data (cache_row c si ! w)"
    "la = ce_base (cache_row c si ! w)" "ce_valid (cache_row c si ! w)"
    using assms(6) by (auto simp: get_next_eq [OF assms(4)])
  note si = cache_look_hit(1) [OF assms(1,4)]
  have wl: "w < length (cache_row c si)" by (rule find_repl_frame(1) [OF w(1)])
  have "base_ok c si (cache_row c si ! w)" using cache_invD(7) [OF assms(1) si] wl by simp
  then have "cache_index c la = (si, ce_tag (cache_row c si ! w), la)" using w(3,4) by (simp add: base_ok_def)
  then have "ce_tag (cache_row c si ! w) = tag" using cache_index_base [OF cache_invD(2) [OF assms(1)] assms(4)] by simp
  then have hit: "find_ix (hit_line tag) (cache_row c si) = Some w"
    using wl w(4) by (simp add: find_hit [OF cache_invD(6) [OF assms(1) si]] hit_line_def)
  have lw: "w = last_invalid (unat (cache_repl_ctrs c ! si)) (cache_row c si)" by (rule not_mru_find [OF assms(2) w(1)])
  with last_invalid_cases [of "unat (cache_repl_ctrs c ! si)" "cache_row c si"] w(4)
  have v: "w = unat (cache_repl_ctrs c ! si)" "\<forall>i < length (cache_row c si). ce_valid (cache_row c si ! i)" by auto
  have "CIRC_INC2 0 3 = (0 :: uns)" "CIRC_INC2 2 3 = (2 :: uns)" by (simp_all add: CIRC_INC2_def)
  then have stuck: "CIRC_INC2 (cache_repl_ctrs c ! si) 3 = cache_repl_ctrs c ! si" using assms(5) by auto
  obtain c' where c': "cache_access E a True (c, h) = Some (ce_data (cache_row c si ! w), la, c', h)"
    "cache_row c' si = (cache_row c si)[w := (cache_row c si ! w)\<lparr>ce_pref := False\<rparr>]" "cache_index c' = cache_index c"
    "cache_repl_policy c' = REPL_NOT_MRU" "cache_repl_ctrs c' ! si = cache_repl_ctrs c ! si"
    using not_mru_access_eq [OF assms(1,2,4) hit] stuck assms(3) by metis
  have "\<forall>i < length (cache_row c' si). ce_valid (cache_row c' si ! i)"
    using v(2) by (auto simp: c'(2) nth_list_update wl)
  then have "last_invalid (unat (cache_repl_ctrs c' ! si)) (cache_row c' si) = w"
    using last_invalid_cases [of "unat (cache_repl_ctrs c' ! si)" "cache_row c' si"] v(1) c'(5) by auto
  then have f: "find_repl_entry E c' pid si = Some (w, c')"
    using wl c'(2,4) by (simp add: find_repl_entry_def)
  have i': "cache_index c' a = (si, tag, la)" using assms(4) c'(3) by simp
  have "get_next_repl_line E pid a c' = Some (p, la, True, c')"
    unfolding get_next_eq [OF i'] using f w(2-4) wl by (auto simp: c'(2))
  with c'(1) w(2) show ?thesis by blast
qed

theorem not_mru_three_ways_stuck_witness:
  "\<exists>c'. cache_access env_ex 64 True (cache_ex REPL_NOT_MRU 0 (row_ex @ [line_ex 192 5 9]) [], heap_ex) = Some (7, 64, c', heap_ex) \<and>
    get_next_repl_line env_ex 0 64 c' = Some (7, 64, True, c')"
proof -
  let ?c = "cache_ex REPL_NOT_MRU 0 (row_ex @ [line_ex 192 5 9]) []"
  have inv: "cache_inv ?c" by (rule cache_ex_inv) (auto simp: MAX_CTR_def)
  have n: "get_next_repl_line env_ex 0 64 ?c = Some (7, 64, True, ?c)"
    by (simp add: get_next_repl_line_def find_repl_entry_def last_invalid_def upt_rec)
  show ?thesis by (rule not_mru_three_ways_stuck [OF inv _ _ _ _ n, of 0 1]) simp_all
qed

text \<open>C33: Under a partition that fits the ways, the victim search never fails an assertion. The victim is an
  invalid way, or the oldest line of its owner, and that owner is over its allocation or is the
  requesting core at or above its own: a core within its allocation never loses a line to another.\<close>

theorem partition_protects:
  assumes "cache_inv c" "si < length (cache_entries c)" "part_ok E c si alloc" "unat pid < length alloc"
  shows "\<exists>w c1. find_repl_entry E c pid si = Some (w, c1) \<and>
    (\<not> ce_valid (cache_row c si ! w) \<or>
     (let q = unat (ce_proc_id (cache_row c si ! w)); lines = owned q (cache_row c si)
      in (unat (alloc ! q) < length lines \<or> q = unat pid \<and> unat (alloc ! q) \<le> length lines) \<and>
         (\<forall>e \<in> set lines. ce_last_access_time (cache_row c si ! w) \<le> ce_last_access_time e)))"
proof (cases "\<forall>e \<in> set (cache_row c si). ce_valid e")
  case True
  from partition_full_set [OF assms True] show ?thesis by (metis (no_types, lifting))
next
  case False
  then have "\<exists>e \<in> set (cache_row c si). \<not> ce_valid e" by blast
  from partition_free_way [OF assms this] show ?thesis by blast
qed

theorem partition_protects_witness:
  "\<exists>w c1. find_repl_entry env_ex (cache_ex REPL_PARTITION 0 row_ex []) 1 0 = Some (w, c1) \<and>
    (\<not> ce_valid (row_ex ! w) \<or>
     (let q = unat (ce_proc_id (row_ex ! w)); lines = owned q row_ex
      in (unat ([1, 1 :: uns] ! q) < length lines \<or> q = unat (1 :: uns8) \<and> unat ([1, 1 :: uns] ! q) \<le> length lines) \<and>
         (\<forall>e \<in> set lines. ce_last_access_time (row_ex ! w) \<le> ce_last_access_time e)))"
proof -
  let ?c = "cache_ex REPL_PARTITION 0 row_ex []"
  have ok: "part_ok env_ex ?c 0 [1, 1]" by (simp add: part_ok_def) (simp add: cache_ex_def)
  show ?thesis using partition_protects [OF _ _ ok, of 1] by simp
qed

text \<open>The array built for the middle and lower-quarter insertion positions is the sorted list of the
  access times of the set, an invalid line counting as 0.\<close>

theorem access_times_is_sort:
  "access_times row = sort (map (\<lambda>e. if ce_valid e then ce_last_access_time e else 0) row)"
proof -
  have "mset (access_times row) = mset (map (\<lambda>e. if ce_valid e then ce_last_access_time e else 0) row)"
    by (rule access_times_mset)
  from properties_for_sort [OF this access_times_sorted(1)] show ?thesis by simp
qed

section \<open>Shadow cache and ideal replacement\<close>

text \<open>When a line missing from the main entries is found in the shadow cache and promoted, the pointer
  returned is the data of the line that was demoted, while the promoted line, which the next lookup
  finds, has the shadow line's data.\<close>

theorem shadow_hit_returns_victim_data:
  assumes "cache_inv c" "cache_repl_policy c = REPL_SHADOW_IDEAL" "cache_index c a = (si, tag, la)" "cache_look c a = None"
    and "length (cache_shadow_entries c ! si) = unat (cache_assoc c)"
    and "find_ix (hit_line tag) (cache_shadow_entries c ! si) = Some ii" "ce_data (cache_shadow_entries c ! si ! ii) \<noteq> 0"
    and "lru_way (cache_row c si) = (w, tm)" "tm < ce_last_access_time (cache_shadow_entries c ! si ! ii)"
  shows "\<exists>c'. cache_access E a upd (c, h) = Some (ce_data (cache_row c si ! w), la, c', h) \<and>
    cache_look c' a = Some (ce_data (cache_shadow_entries c ! si ! ii))"
proof -
  note si = cache_look_hit(1) [OF assms(1,3)]
  have "cache_row c si \<noteq> []" by (rule cache_row_ne [OF assms(1) si])
  from shadow_promote [OF assms(2,3) si cache_invD(6) [OF assms(1) si] this assms(4-9), of E upd h]
  show ?thesis by blast
qed

theorem shadow_hit_returns_victim_data_witness:
  "\<exists>c'. cache_access env_ex 192 True (cache_ex REPL_SHADOW_IDEAL 0 row_ex [line_ex 192 15 9, line_ex 256 3 10], heap_ex) =
      Some (8, 192, c', heap_ex) \<and> cache_look c' 192 = Some 9"
proof -
  let ?c = "cache_ex REPL_SHADOW_IDEAL 0 row_ex [line_ex 192 15 9, line_ex 256 3 10]"
  show ?thesis
    using shadow_hit_returns_victim_data [of ?c 192 0 3 192 0 1 10 env_ex True heap_ex]
    by (simp add: hit_line_def lru_way_def MAX_CTR_def)
qed

text \<open>Invalidating a line does not reach its copy in the shadow cache: when that copy is younger than the
  oldest main line, the next lookup of the invalidated address still hits.\<close>

theorem shadow_survives_invalidation:
  assumes "cache_inv c" "cache_repl_policy c = REPL_SHADOW_IDEAL" "cache_index c a = (si, tag, la)"
    and "length (cache_shadow_entries c ! si) = unat (cache_assoc c)"
    and "find_ix (hit_line tag) (cache_shadow_entries c ! si) = Some ii" "ce_data (cache_shadow_entries c ! si ! ii) \<noteq> 0"
    and "cache_invalidate a (c, h) = Some (la, c1, h)"
    and "lru_way (cache_row c1 si) = (w, tm)" "tm < ce_last_access_time (cache_shadow_entries c ! si ! ii)"
  shows "\<exists>p c2. cache_access E a upd (c1, h) = Some (p, la, c2, h) \<and> p \<noteq> 0"
proof -
  have "cache_repl_policy c \<noteq> REPL_IDEAL" using assms(2) by simp
  then obtain c2 where "cache_invalidate a (c, h) = Some (get_cache_line_addr c a, c2, h)" "cache_inv c2"
    "\<And>b. cache_look c2 b = (if get_cache_line_addr c b = get_cache_line_addr c a then None else cache_look c b)"
    "cache_index c2 = cache_index c" "cache_repl_policy c2 = cache_repl_policy c"
    "cache_shadow_entries c2 = cache_shadow_entries c" "cache_assoc c2 = cache_assoc c"
    using cache_invalidate_ok [OF assms(1), of a h] by metis
  with assms(7) have c1: "cache_inv c1" "cache_look c1 a = None" "cache_index c1 a = (si, tag, la)"
    "cache_repl_policy c1 = REPL_SHADOW_IDEAL" "cache_shadow_entries c1 = cache_shadow_entries c"
    "cache_assoc c1 = cache_assoc c" using assms(2,3) by simp_all
  note si = cache_look_hit(1) [OF c1(1,3)]
  have ne: "cache_row c1 si \<noteq> []" by (rule cache_row_ne [OF c1(1) si])
  then have "w < length (cache_row c1 si)" using lru_way_lt assms(8) by (metis fst_conv)
  then have "ce_data (cache_row c1 si ! w) \<noteq> 0" using cache_invD(8) [OF c1(1) si] by simp
  moreover from shadow_promote [OF c1(4,3) si cache_invD(6) [OF c1(1) si] ne c1(2), of ii w tm E upd h] assms(4-6,8,9) c1(5,6)
  obtain c' where "cache_access E a upd (c1, h) = Some (ce_data (cache_row c1 si ! w), la, c', h)" by auto
  ultimately show ?thesis by blast
qed

theorem shadow_survives_invalidation_witness:
  "\<exists>c1 p c2. cache_invalidate 128 (cache_ex REPL_SHADOW_IDEAL 0 row_ex [line_ex 128 25 9, line_ex 256 3 10], heap_ex) =
      Some (128, c1, heap_ex) \<and> cache_access env_ex 128 True (c1, heap_ex) = Some (p, 128, c2, heap_ex) \<and> p \<noteq> 0"
proof -
  let ?c = "cache_ex REPL_SHADOW_IDEAL 0 row_ex [line_ex 128 25 9, line_ex 256 3 10]"
  let ?row = "[line_ex 64 20 7, (line_ex 128 10 8)\<lparr>ce_tag := 0, ce_valid := False, ce_base := 0\<rparr>]"
  obtain c1 where c1: "cache_invalidate 128 (?c, heap_ex) = Some (128, c1, heap_ex)" "cache_row c1 0 = ?row"
    by (simp add: cache_invalidate_def hit_line_def cache_row_def)
  have l: "lru_way (cache_row c1 0) = (1, 20)" by (simp add: c1(2) lru_way_def MAX_CTR_def)
  have "cache_inv ?c" by simp
  from shadow_survives_invalidation [OF this _ _ _ _ _ c1(1) l, of 2 0 env_ex True] c1(1) show ?thesis
    by (auto simp: hit_line_def)
qed

text \<open>Under ideal replacement the counter of a set counts its sure lines, but invalidating a sure line
  does not lower it: after an invalidation in a set whose lines are all sure, every later insertion
  into the set fails the count assertion.\<close>

theorem ideal_invalidate_breaks_count:
  assumes "cache_repl_policy c = REPL_IDEAL" "cache_index c a = (si, tag, la)" "si < length (cache_entries c)"
    and "length (cache_row c si) = unat (cache_assoc c)" "cache_repl_ctrs c ! si = cache_assoc c"
    and "\<exists>e \<in> set (cache_row c si). hit_line tag e" "cache_unsure_lists c ! si = []"
    and "cache_index c b = (si, tag', lb)"
  shows "\<exists>c'. cache_invalidate a (c, h) = Some (la, c', h) \<and> cache_insert_replpos E pid b repl pref (c', h) = None"
proof -
  let ?f = "\<lambda>e. if hit_line tag e then e\<lparr>ce_tag := 0, ce_valid := False, ce_base := 0\<rparr> else e"
  let ?c = "c\<lparr>cache_entries := (cache_entries c)[si := map ?f (cache_row c si)]\<rparr>"
  have inval: "cache_invalidate a (c, h) = Some (la, ?c, h)"
    using assms(1,2,7) by (simp add: cache_invalidate_def invalidate_unsure_line_def unsure_ix_def Let_def)
  have row: "cache_row ?c si = map ?f (cache_row c si)" using assms(3) by (simp add: cache_row_def)
  obtain e where e: "e \<in> set (cache_row c si)" "hit_line tag e" using assms(6) by blast
  have "?f e \<in> set (cache_row ?c si)" unfolding row set_map by (rule imageI [where f = ?f, OF e(1)])
  moreover have "\<not> ce_valid (?f e)" using e(2) by simp
  ultimately have "\<exists>e \<in> set (cache_row ?c si). \<not> ce_valid e" by blast
  moreover have "cache_index ?c b = (si, tag', lb)" using assms(8) by (simp add: cache_index_def)
  ultimately have "cache_insert_replpos E pid b repl pref (?c, h) = None"
    using assms(1,3-5) row by (intro ideal_count_mismatch [of ?c si]) simp_all
  with inval show ?thesis by blast
qed

theorem ideal_invalidate_breaks_count_witness:
  "\<exists>c'. cache_invalidate 64 (cache_ex REPL_IDEAL 2 row_ex [], heap_ex) = Some (64, c', heap_ex) \<and>
    cache_insert_replpos env_ex 0 192 INSERT_REPL_DEFAULT False (c', heap_ex) = None"
proof -
  let ?c = "cache_ex REPL_IDEAL 2 row_ex []"
  show ?thesis by (rule ideal_invalidate_breaks_count [of ?c 64 0 1 64 192 3 192]) (simp_all add: hit_line_def)
qed

end
