(* ===== verification/Pref_Update.thy ===== *)
theory Pref_Update
  imports Pref_Queue Cache_Lib Port_Lib
begin

text \<open>
  The drain of the request queues, \<^verbatim>\<open>pref_update\<close> and \<^verbatim>\<open>pref_update_core\<close> of \<^verbatim>\<open>prefetcher/pref_common.c\<close>. In
  every cycle a few requests of the L1 data cache queue are looked up in the data cache, and go to the
  UL1 queue when they miss; a few requests of the other two queues go to the memory system.

  The data caches and their ports are those of \<^verbatim>\<open>Cache_Lib\<close> and \<^verbatim>\<open>Port_Lib\<close>. The memory system is an
  argument: how many request buffers a core uses, and whether a new request is accepted.
  \<open>None\<close> is a failed assertion, an access outside an array or a division by zero.
\<close>

section \<open>Parameters and state\<close>

record update_params =
  PREF_DL0SCHEDULE_NUM :: uns
  PREF_UMLC_SCHEDULE_NUM :: uns
  PREF_UL1SCHEDULE_NUM :: uns
  PREF_REQ_DROP :: bool
  PREF_L1Q_DEMAND_RESERVE :: uns
  MEM_REQ_BUFFER_ENTRIES :: uns
  PREF_HFILTER_RESET_ENABLE :: bool
  PREF_HFILTER_RESET_INTERVAL :: uns
  DCACHE_BANKS :: uns

datatype Destination = DEST_MLC | DEST_L1

record 'm mem_system =
  model_mem :: bool
  mem_get_req_count :: "uns8 \<Rightarrow> 'm \<Rightarrow> cint"
  new_mem_req :: "Pref_Mem_Req \<Rightarrow> Destination \<Rightarrow> 'm \<Rightarrow> bool \<times> 'm"

text \<open>The data cache stages of the cores: caches and the ports of their banks.\<close>

record dc_stages =
  dc_caches :: "Cache list"
  dc_ports :: "Ports list list"
  dc_heap :: Heap

section \<open>The L1 data cache queue\<close>

definition dl0_advance :: "pref_params \<Rightarrow> uns8 \<Rightarrow> pref_state \<Rightarrow> pref_state" where
  "dl0_advance PC p = upd_core PC p (\<lambda>c. c\<lparr>dl0req_queue_send_pos :=
     ring_next (dl0req_queue_send_pos c) (PREF_DL0REQ_QUEUE_SIZE PC)\<rparr>)"

text \<open>One turn of the first loop. The valid bit of the request is not touched.\<close>

definition dl0_step ::
    "pref_params \<Rightarrow> update_params \<Rightarrow> Cache_Env \<Rightarrow> uns8 \<Rightarrow> pref_state \<times> dc_stages \<Rightarrow> (pref_state \<times> dc_stages) option" where
  "dl0_step PC U E p = (\<lambda>(q, d).
     (let c = the_core PC p q; ix = unat (dl0req_queue_send_pos c); r = dl0req_queue c ! ix; i = unat p
      in if \<not> ix < length (dl0req_queue c) then None
         else if \<not> pmr_valid r then Some (dl0_advance PC p q, d)
         else if ucast p \<noteq> drop_bit 58 (pmr_line_addr r) \<or> \<not> (i < length (dc_caches d) \<and> i < length (dc_ports d)) then None
         else
           let dcache = dc_caches d ! i;
               bank = unat (drop_bit (unat (cache_shift_bits dcache)) (pmr_line_addr r) AND N_BIT_MASK (LOG2 (DCACHE_BANKS U)))
           in if \<not> bank < length (dc_ports d ! i) then None
              else case get_read_port (cycle_count q) (dc_ports d ! i ! bank) of
                None \<Rightarrow> None
              | Some (ok, port) \<Rightarrow>
                  let d = d\<lparr>dc_ports := (dc_ports d)[i := (dc_ports d ! i)[bank := port]]\<rparr>
                  in if \<not> ok then Some (q, d)
                     else case cache_access E (pmr_line_addr r) False (dcache, dc_heap d) of
                       None \<Rightarrow> None
                     | Some (dc_hit, _, dcache, h) \<Rightarrow>
                         let d = d\<lparr>dc_caches := (dc_caches d)[i := dcache], dc_heap := h\<rparr>
                         in if dc_hit \<noteq> 0 then Some (dl0_advance PC p q, d)
                            else
                              let (ok, q) = pref_addto_ul1req_queue PC p (pmr_line_index r) (pmr_prefetcher_id r) q
                              in Some (if ok then dl0_advance PC p q else q, d)))"

fun dl0_drain ::
    "pref_params \<Rightarrow> update_params \<Rightarrow> Cache_Env \<Rightarrow> uns8 \<Rightarrow> nat \<Rightarrow> pref_state \<times> dc_stages \<Rightarrow> (pref_state \<times> dc_stages) option" where
  "dl0_drain PC U E p 0 s = Some s"
| "dl0_drain PC U E p (Suc n) s = (case dl0_step PC U E p s of None \<Rightarrow> None | Some s \<Rightarrow> dl0_drain PC U E p n s)"

section \<open>The queues to the memory system\<close>

text \<open>
  The other two loops are the same but for the queue and the destination. The loop works on one ring:
  its entries and the position of the next one to send.
\<close>

definition no_buffer :: "update_params \<Rightarrow> 'm mem_system \<Rightarrow> uns8 \<Rightarrow> 'm \<Rightarrow> bool" where
  "no_buffer U M p m \<longleftrightarrow> model_mem M \<and> MEM_REQ_BUFFER_ENTRIES U - mem_get_req_count M p m < PREF_L1Q_DEMAND_RESERVE U"

fun ring_drain ::
    "update_params \<Rightarrow> 'm mem_system \<Rightarrow> Destination \<Rightarrow> uns \<Rightarrow> nat \<Rightarrow> Pref_Mem_Req list \<times> cint \<times> 'm \<Rightarrow>
     (Pref_Mem_Req list \<times> cint \<times> 'm) option" where
  "ring_drain U M dest qsize 0 s = Some s"
| "ring_drain U M dest qsize (Suc n) (rs, pos, m) =
     (let ix = unat pos; r = rs ! ix; p = pmr_proc_id r; invalid = rs[ix := r\<lparr>pmr_valid := False\<rparr>]
      in if \<not> ix < length rs then None
         else if \<not> pmr_valid r then ring_drain U M dest qsize n (rs, ring_next pos qsize, m)
         else if ucast p \<noteq> drop_bit 58 (pmr_line_addr r) then None
         else if no_buffer U M p m then
           Some (if PREF_REQ_DROP U \<and> MEM_REQ_BUFFER_ENTRIES U = mem_get_req_count M p m then invalid else rs, pos, m)
         else if model_mem M then
           let (ok, m) = new_mem_req M r dest m
           in if ok then ring_drain U M dest qsize n (invalid, ring_next pos qsize, m) else Some (rs, pos, m)
         else Some (rs, pos, m))"

definition umlc_drain ::
    "pref_params \<Rightarrow> update_params \<Rightarrow> 'm mem_system \<Rightarrow> uns8 \<Rightarrow> pref_state \<times> 'm \<Rightarrow> (pref_state \<times> 'm) option" where
  "umlc_drain PC U M p = (\<lambda>(q, m).
     (let c = the_core PC p q
      in map_option (\<lambda>(rs, pos, m). (upd_core PC p (\<lambda>c. c\<lparr>umlc_req_queue := rs, umlc_req_queue_send_pos := pos\<rparr>) q, m))
           (ring_drain U M DEST_MLC (PREF_UMLC_REQ_QUEUE_SIZE PC) (unat (PREF_UMLC_SCHEDULE_NUM U))
             (umlc_req_queue c, umlc_req_queue_send_pos c, m))))"

definition ul1_drain ::
    "pref_params \<Rightarrow> update_params \<Rightarrow> 'm mem_system \<Rightarrow> uns8 \<Rightarrow> pref_state \<times> 'm \<Rightarrow> (pref_state \<times> 'm) option" where
  "ul1_drain PC U M p = (\<lambda>(q, m).
     (let c = the_core PC p q
      in map_option (\<lambda>(rs, pos, m). (upd_core PC p (\<lambda>c. c\<lparr>ul1req_queue := rs, ul1req_queue_send_pos := pos\<rparr>) q, m))
           (ring_drain U M DEST_L1 (PREF_UL1REQ_QUEUE_SIZE PC) (unat (PREF_UL1SCHEDULE_NUM U))
             (ul1req_queue c, ul1req_queue_send_pos c, m))))"

section \<open>The update of a cycle\<close>

definition pref_update_core ::
    "pref_params \<Rightarrow> update_params \<Rightarrow> Cache_Env \<Rightarrow> 'm mem_system \<Rightarrow> uns8 \<Rightarrow>
     pref_state \<times> dc_stages \<times> 'm \<Rightarrow> (pref_state \<times> dc_stages \<times> 'm) option" where
  "pref_update_core PC U E M p = (\<lambda>(q, d, m).
     (case dl0_drain PC U E p (unat (PREF_DL0SCHEDULE_NUM U)) (q, d) of
        None \<Rightarrow> None
      | Some (q, d) \<Rightarrow>
          (case umlc_drain PC U M p (q, m) of
             None \<Rightarrow> None
           | Some (q, m) \<Rightarrow> map_option (\<lambda>(q, m). (q, d, m)) (ul1_drain PC U M p (q, m)))))"

fun pref_update_cores ::
    "pref_params \<Rightarrow> update_params \<Rightarrow> Cache_Env \<Rightarrow> 'm mem_system \<Rightarrow> nat list \<Rightarrow>
     pref_state \<times> dc_stages \<times> 'm \<Rightarrow> (pref_state \<times> dc_stages \<times> 'm) option" where
  "pref_update_cores PC U E M [] s = Some s"
| "pref_update_cores PC U E M (p # ps) s =
     (case pref_update_core PC U E M (of_nat p) s of None \<Rightarrow> None | Some s \<Rightarrow> pref_update_cores PC U E M ps s)"

definition pref_update ::
    "pref_params \<Rightarrow> update_params \<Rightarrow> Cache_Env \<Rightarrow> 'm mem_system \<Rightarrow>
     pref_state \<times> dc_stages \<times> 'm \<Rightarrow> (pref_state \<times> dc_stages \<times> 'm) option" where
  "pref_update PC U E M = (\<lambda>(q, d, m).
     (if \<not> PREF_FRAMEWORK_ON PC then Some (q, d, m)
      else if PREF_HFILTER_ON PC \<and> PREF_HFILTER_RESET_ENABLE U \<and> PREF_HFILTER_RESET_INTERVAL U = 0 then None
      else
        let q = (if PREF_HFILTER_ON PC \<and> PREF_HFILTER_RESET_ENABLE U \<and>
                    cycle_count q mod ucast (PREF_HFILTER_RESET_INTERVAL U) = 0 then pref_hfilter_pht_reset PC q else q)
        in pref_update_cores PC U E M (if PREF_SHARED_QUEUES PC then [0] else [0..<unat (NUM_CORES PC)]) (q, d, m)))"

section \<open>What stays in the L1 data cache queue\<close>

lemma dl0_queue_upd_core:
  assumes "\<And>c. dl0req_queue (f c) = dl0req_queue c"
  shows "dl0req_queue (the_core PC p (upd_core PC p' f q)) = dl0req_queue (the_core PC p q)"
  using assms by (rule the_core_upd_frame)

lemma dl0_queue_advance [simp]: "dl0req_queue (the_core PC p (dl0_advance PC p' q)) = dl0req_queue (the_core PC p q)"
  by (simp add: dl0_advance_def dl0_queue_upd_core)

lemma dl0_queue_feed_back_core: "dl0req_queue (the_core PC p (feed_back_core PC i k q)) = dl0req_queue (the_core PC p q)"
  by (simp add: feed_back_core_def Let_def dl0_queue_upd_core frame_simps)

lemma dl0_queue_feed_back: "dl0req_queue (the_core PC p (pref_feed_back_info_update PC i q)) = dl0req_queue (the_core PC p q)"
  by (simp add: pref_feed_back_info_update_def Let_def fold_frame [where g = "\<lambda>s. dl0req_queue (the_core PC p s)"]
      dl0_queue_feed_back_core)

lemma dl0_queue_addto_ul1 [simp]:
  "dl0req_queue (the_core PC p (snd (pref_addto_ul1req_queue_set PC p' a i di pc gh bw q))) = dl0req_queue (the_core PC p q)"
  by (simp add: pref_addto_ul1req_queue_set_def Let_def dl0_queue_upd_core dl0_queue_feed_back)

lemma dl0_step_queue:
  "dl0_step PC U E p' (q, d) = Some (q', d') \<Longrightarrow> dl0req_queue (the_core PC p q') = dl0req_queue (the_core PC p q)"
  using dl0_queue_addto_ul1
  by (auto simp: dl0_step_def Let_def pref_addto_ul1req_queue_def split: if_splits option.splits prod.splits dest!: arg_cong [where f = snd])

lemma dl0_drain_queue:
  "dl0_drain PC U E p' n (q, d) = Some (q', d') \<Longrightarrow> dl0req_queue (the_core PC p q') = dl0req_queue (the_core PC p q)"
proof (induction n arbitrary: q d)
  case (Suc n)
  then obtain q1 d1 where "dl0_step PC U E p' (q, d) = Some (q1, d1)" "dl0_drain PC U E p' n (q1, d1) = Some (q', d')"
    by (auto split: option.splits)
  with Suc.IH dl0_step_queue show ?case by metis
qed simp

lemma pref_update_core_dl0:
  "pref_update_core PC U E M p' (q, d, m) = Some (q', d', m') \<Longrightarrow> dl0req_queue (the_core PC p q') = dl0req_queue (the_core PC p q)"
  by (auto simp: pref_update_core_def umlc_drain_def ul1_drain_def Let_def dl0_queue_upd_core split: option.splits
      dest!: dl0_drain_queue [where p = p])

lemma pref_update_cores_dl0:
  "pref_update_cores PC U E M ps (q, d, m) = Some (q', d', m') \<Longrightarrow> dl0req_queue (the_core PC p q') = dl0req_queue (the_core PC p q)"
proof (induction ps arbitrary: q d m)
  case (Cons a ps)
  then obtain q1 d1 m1 where "pref_update_core PC U E M (of_nat a) (q, d, m) = Some (q1, d1, m1)"
    "pref_update_cores PC U E M ps (q1, d1, m1) = Some (q', d', m')"
    by (auto split: option.splits)
  with Cons.IH pref_update_core_dl0 show ?case by metis
qed simp

lemma pref_update_dl0:
  "pref_update PC U E M (q, d, m) = Some (q', d', m') \<Longrightarrow> dl0req_queue (the_core PC p q') = dl0req_queue (the_core PC p q)"
proof -
  have "dl0req_queue (the_core PC p (pref_hfilter_pht_reset PC q)) = dl0req_queue (the_core PC p q)"
    unfolding pref_hfilter_pht_reset_def by (rule fold_frame) (simp add: dl0_queue_upd_core)
  then show "pref_update PC U E M (q, d, m) = Some (q', d', m') \<Longrightarrow> ?thesis"
    by (auto simp: pref_update_def Let_def simp del: pref_update_cores.simps split: if_splits
        dest!: pref_update_cores_dl0 [where p = p])
qed

section \<open>Draining into a memory that accepts\<close>

definition ring_slots :: "nat \<Rightarrow> nat \<Rightarrow> 'a list \<Rightarrow> 'a list" where
  "ring_slots pos n xs = map (\<lambda>k. xs ! ((pos + k) mod length xs)) [0..<n]"

lemma ring_slots_rotate: "n \<le> length xs \<Longrightarrow> ring_slots pos n xs = take n (rotate pos xs)"
  by (rule nth_equalityI) (auto simp: ring_slots_def nth_rotate)

lemma ring_slots_Suc:
  assumes "pos < length xs" "Suc n \<le> length xs"
  shows "ring_slots pos (Suc n) xs = xs ! pos # ring_slots (Suc pos mod length xs) n (xs[pos := y])"
proof -
  have "xs[pos := y] ! ((Suc pos mod length xs + k) mod length xs) = xs ! ((pos + Suc k) mod length xs)" if "k < n" for k
  proof -
    have "(pos + Suc k) mod length xs \<noteq> pos"
      using that assms by (cases "pos + Suc k < length xs") (auto simp: mod_if)
    then show ?thesis by (simp add: mod_add_left_eq)
  qed
  then show ?thesis using assms
    by (auto simp: ring_slots_def map_upt_Suc simp del: upt_Suc cong: map_cong)
qed

definition accepting :: "update_params \<Rightarrow> 'm mem_system \<Rightarrow> Destination \<Rightarrow> bool" where
  "accepting U M dest \<longleftrightarrow> model_mem M \<and> (\<forall>p m. \<not> no_buffer U M p m) \<and> (\<forall>r m. fst (new_mem_req M r dest m))"

definition own_address :: "Pref_Mem_Req \<Rightarrow> bool" where
  "own_address r \<longleftrightarrow> (pmr_valid r \<longrightarrow> ucast (pmr_proc_id r) = drop_bit 58 (pmr_line_addr r))"

lemma ring_next_unat:
  assumes "pos < qsize" "unat qsize < 2 ^ 31"
  shows "unat (ring_next pos qsize) = Suc (unat pos) mod unat qsize"
proof -
  have "unat (pos + 1) = Suc (unat pos)" using unat_inc [OF assms(1)] .
  then show ?thesis by (simp add: ring_next_def unat_mod_distrib)
qed

lemma invalid_same: "\<not> pmr_valid r \<Longrightarrow> r\<lparr>pmr_valid := False\<rparr> = r"
  by (cases r) simp

lemma ring_drain_accepting:
  assumes "accepting U M dest" "unat qsize < 2 ^ 31"
  shows "length rs = unat qsize \<Longrightarrow> pos < qsize \<Longrightarrow> n \<le> unat qsize \<Longrightarrow> list_all own_address rs \<Longrightarrow>
    \<exists>rs' pos'. ring_drain U M dest qsize n (rs, pos, m) =
        Some (rs', pos', fold (\<lambda>r m. snd (new_mem_req M r dest m)) (filter pmr_valid (ring_slots (unat pos) n rs)) m) \<and>
      list_all (\<lambda>r. \<not> pmr_valid r) (ring_slots (unat pos) n rs') \<and> length rs' = unat qsize \<and>
      (\<forall>j < unat qsize. \<not> pmr_valid (rs ! j) \<longrightarrow> \<not> pmr_valid (rs' ! j))"
proof (induction n arbitrary: rs pos m)
  case 0
  then show ?case by (simp add: ring_slots_def)
next
  case (Suc n)
  let ?r = "rs ! unat pos" and ?next = "ring_next pos qsize"
  let ?rs = "rs[unat pos := ?r\<lparr>pmr_valid := False\<rparr>]"
  have q: "0 < qsize" using Suc.prems(2) by (auto simp: word_less_nat_alt)
  have pos: "unat pos < length rs" using Suc.prems by (simp add: word_less_nat_alt)
  have own: "own_address ?r" using Suc.prems(4) pos by (simp add: list_all_length)
  have "own_address (?r\<lparr>pmr_valid := False\<rparr>)" by (simp add: own_address_def)
  then have prems: "length ?rs = unat qsize" "?next < qsize" "n \<le> unat qsize" "list_all own_address ?rs"
    using Suc.prems ring_next_lt [OF q] by (auto intro!: list_all_update)
  define m1 where "m1 = (if pmr_valid ?r then snd (new_mem_req M ?r dest m) else m)"
  note nx = ring_next_unat [OF Suc.prems(2) assms(2)]
  have step: "ring_drain U M dest qsize (Suc n) (rs, pos, m) = ring_drain U M dest qsize n (?rs, ?next, m1)"
  proof (cases "pmr_valid ?r")
    case True
    then have "ucast (pmr_proc_id ?r) = drop_bit 58 (pmr_line_addr ?r)" using own by (simp add: own_address_def)
    with True show ?thesis using pos assms(1) by (auto simp: accepting_def m1_def Let_def split: prod.splits dest: spec)
        (metis fst_conv snd_conv)+
  next
    case False
    have same: "?rs = rs" by (simp only: invalid_same [OF False] list_update_id)
    show ?thesis unfolding same using False pos by (simp add: m1_def Let_def)
  qed
  have slots: "ring_slots (unat pos) (Suc n) rs = ?r # ring_slots (unat ?next) n ?rs"
    using ring_slots_Suc [of "unat pos" rs n] pos Suc.prems nx by simp
  obtain rs' pos' where ih: "ring_drain U M dest qsize n (?rs, ?next, m1) =
        Some (rs', pos', fold (\<lambda>r m. snd (new_mem_req M r dest m)) (filter pmr_valid (ring_slots (unat ?next) n ?rs)) m1)"
    "list_all (\<lambda>r. \<not> pmr_valid r) (ring_slots (unat ?next) n rs')" "length rs' = unat qsize"
    "\<forall>j < unat qsize. \<not> pmr_valid (?rs ! j) \<longrightarrow> \<not> pmr_valid (rs' ! j)"
    using Suc.IH [OF prems, of m1] by blast
  have "\<not> pmr_valid (rs' ! unat pos)" using ih(4) pos Suc.prems(1) by simp
  then have "list_all (\<lambda>r. \<not> pmr_valid r) (ring_slots (unat pos) (Suc n) rs')"
    using ring_slots_Suc [of "unat pos" rs' n "rs' ! unat pos"] ih(2,3) pos Suc.prems nx by simp
  moreover have "\<forall>j < unat qsize. \<not> pmr_valid (rs ! j) \<longrightarrow> \<not> pmr_valid (rs' ! j)"
  proof (intro allI impI)
    fix j
    assume j: "j < unat qsize" "\<not> pmr_valid (rs ! j)"
    then have "\<not> pmr_valid (?rs ! j)" using pos by (cases "j = unat pos") auto
    then show "\<not> pmr_valid (rs' ! j)" using ih(4) j(1) by blast
  qed
  ultimately show ?case using step ih slots by (auto simp: m1_def)
qed

end
