(* ===== verification/Pref_Stride.thy ===== *)
theory Pref_Stride
  imports Pref_Queue
begin

text \<open>
  The region-based multi-stride prefetcher, \<^verbatim>\<open>prefetcher/pref_stride.c\<close>. A training step works on the
  prefetcher's tables and on the framework's state, whose UL1 request queue it fills and whose
  \<^verbatim>\<open>cycle_count\<close> it reads. \<open>None\<close> is an access outside a table.

  The C types matter here: a stride is a 32-bit \<^verbatim>\<open>int\<close>, an index a 64-bit \<^verbatim>\<open>Addr\<close>. Adding a stride to
  an index extends its sign, but \<^verbatim>\<open>stride * PREF_STRIDE_STARTDISTANCE\<close> is a product with an \<^verbatim>\<open>uns\<close>, so
  it is unsigned and is extended with zeros.
\<close>

section \<open>Data\<close>

record stride_params =
  PREF_STRIDE_ON :: bool
  PREF_STRIDE_TABLE_N :: uns
  PREF_STRIDE_REGION_BITS :: uns
  PREF_STRIDE_DEGREE :: uns
  PREF_STRIDE_DISTANCE :: uns
  PREF_STRIDE_STARTDISTANCE :: uns
  PREF_STRIDE_SINGLE_THRESH :: uns
  PREF_STRIDE_MULTI_THRESH :: uns
  PREF_STRIDE_SINGLE_STRIDE_MODE :: bool

record Stride_Region_Table_Entry =
  sr_tag :: Addr
  sr_valid :: bool
  sr_last_access :: uns

record Stride_Index_Table_Entry =
  si_trained :: bool
  si_train_count_mode :: bool
  si_num_states :: uns
  si_curr_state :: uns
  si_last_index :: Addr
  si_stride :: "cint list"
  si_s_cnt :: "cint list"
  si_strans :: "cint list"
  si_recnt :: cint
  si_count :: cint
  si_pref_count :: cint
  si_pref_curr_state :: uns
  si_pref_last_index :: Addr
  si_pref_sent :: Counter

record Pref_Stride =
  stride_hwp_id :: uns8
  region_table :: "Stride_Region_Table_Entry list"
  index_table :: "Stride_Index_Table_Entry list"

definition STRIDE_REGION :: "stride_params \<Rightarrow> Addr \<Rightarrow> Addr" where
  "STRIDE_REGION P x = drop_bit (unat (PREF_STRIDE_REGION_BITS P)) x"

definition zero_region :: Stride_Region_Table_Entry where
  "zero_region = \<lparr>sr_tag = 0, sr_valid = False, sr_last_access = 0\<rparr>"

definition zero_index :: Stride_Index_Table_Entry where
  "zero_index = \<lparr>si_trained = False, si_train_count_mode = False, si_num_states = 0, si_curr_state = 0,
     si_last_index = 0, si_stride = [0, 0], si_s_cnt = [0, 0], si_strans = [0, 0], si_recnt = 0, si_count = 0,
     si_pref_count = 0, si_pref_curr_state = 0, si_pref_last_index = 0, si_pref_sent = 0\<rparr>"

definition pref_stride_init ::
    "pref_params \<Rightarrow> stride_params \<Rightarrow> nat \<Rightarrow> pref_state \<times> Pref_Stride \<Rightarrow> (pref_state \<times> Pref_Stride) option" where
  "pref_stride_init PC P ii = (\<lambda>(q, s).
     (if \<not> PREF_STRIDE_ON P then Some (q, s)
      else if \<not> (PREF_REPORT_PREF_MATCH_AS_HIT PC \<or> PREF_REPORT_PREF_MATCH_AS_MISS PC) then None
      else Some (upd_info (of_nat ii) (\<lambda>h. h\<lparr>hwp_enabled := True\<rparr>) q,
                 \<lparr>stride_hwp_id = hwp_id (hwp_infos q ! ii),
                  region_table = replicate (unat (PREF_STRIDE_TABLE_N P)) zero_region,
                  index_table = replicate (unat (PREF_STRIDE_TABLE_N P)) zero_index\<rparr>)))"

section \<open>Training\<close>

text \<open>\<^verbatim>\<open>pref_stride_create_newentry\<close>: the fields of the prefetch position keep what they held.\<close>

definition new_region :: "Counter \<Rightarrow> Addr \<Rightarrow> Stride_Region_Table_Entry \<Rightarrow> Stride_Region_Table_Entry" where
  "new_region now tag r = r\<lparr>sr_tag := tag, sr_valid := True, sr_last_access := ucast now\<rparr>"

definition new_index :: "Addr \<Rightarrow> Stride_Index_Table_Entry \<Rightarrow> Stride_Index_Table_Entry" where
  "new_index line_index e =
     e\<lparr>si_trained := False, si_num_states := 1, si_curr_state := 0, si_last_index := line_index,
       si_stride := [0, 0], si_s_cnt := [0, 0], si_strans := [0, 0], si_recnt := 0, si_count := 0,
       si_train_count_mode := False, si_pref_sent := 0\<rparr>"

definition pref_stride_create_newentry ::
    "pref_params \<Rightarrow> Counter \<Rightarrow> nat \<Rightarrow> Addr \<Rightarrow> Addr \<Rightarrow> Pref_Stride \<Rightarrow> Pref_Stride" where
  "pref_stride_create_newentry PC now idx line_addr region_tag s =
     s\<lparr>region_table := (region_table s)[idx := new_region now region_tag (region_table s ! idx)],
       index_table := (index_table s)[idx :=
         new_index (drop_bit (LOG2 (DCACHE_LINE_SIZE PC)) line_addr) (index_table s ! idx)]\<rparr>"

text \<open>The state the entry is in, 0 or 1, and the other one.\<close>

definition flip_state :: "uns \<Rightarrow> uns" where
  "flip_state st = 1 - st"

text \<open>Capturing strides.\<close>

definition stride_capture :: "stride_params \<Rightarrow> cint \<Rightarrow> Stride_Index_Table_Entry \<Rightarrow> Stride_Index_Table_Entry" where
  "stride_capture P stride e =
     (let c = unat (si_curr_state e)
      in if si_stride e ! c = 0
         then e\<lparr>si_stride := (si_stride e)[c := stride], si_s_cnt := (si_s_cnt e)[c := 1]\<rparr>
         else if si_stride e ! c = stride
         then e\<lparr>si_stride := (si_stride e)[c := stride], si_s_cnt := (si_s_cnt e)[c := si_s_cnt e ! c + 1]\<rparr>
         else if PREF_STRIDE_SINGLE_STRIDE_MODE P
         then e\<lparr>si_stride := (si_stride e)[c := stride], si_s_cnt := (si_s_cnt e)[c := 1]\<rparr>
         else
           let e = e\<lparr>si_strans := (si_strans e)[c := stride]\<rparr>;
               e = (if si_num_states e = 1 then e\<lparr>si_num_states := 2\<rparr> else e);
               e = e\<lparr>si_curr_state := flip_state (si_curr_state e)\<rparr>
           in if si_curr_state e = 0 then e\<lparr>si_train_count_mode := True, si_count := 0, si_recnt := 0\<rparr> else e)"

text \<open>Whether a stride continues the run of the current state, or is its transition.\<close>

definition in_run :: "cint \<Rightarrow> Stride_Index_Table_Entry \<Rightarrow> bool" where
  "in_run stride e \<longleftrightarrow> stride = si_stride e ! unat (si_curr_state e) \<and>
     sint (si_count e) < sint (si_s_cnt e ! unat (si_curr_state e))"

definition at_transition :: "cint \<Rightarrow> Stride_Index_Table_Entry \<Rightarrow> bool" where
  "at_transition stride e \<longleftrightarrow> stride = si_strans e ! unat (si_curr_state e) \<and>
     si_count e = si_s_cnt e ! unat (si_curr_state e)"

text \<open>Checking mode; \<open>None\<close> where the code starts the entry anew.\<close>

definition stride_check :: "cint \<Rightarrow> Stride_Index_Table_Entry \<Rightarrow> Stride_Index_Table_Entry option" where
  "stride_check stride e =
     (if in_run stride e then Some (e\<lparr>si_recnt := si_recnt e + 1, si_count := si_count e + 1\<rparr>)
      else if at_transition stride e
      then Some (e\<lparr>si_recnt := si_recnt e + 1, si_count := 0, si_curr_state := flip_state (si_curr_state e)\<rparr>)
      else None)"

text \<open>
  The single-stride threshold. \<^verbatim>\<open>curr_state\<close> is set to 0 before \<^verbatim>\<open>stride[curr_state]\<close> is read.
\<close>

definition stride_single_done :: "stride_params \<Rightarrow> Stride_Index_Table_Entry \<Rightarrow> Stride_Index_Table_Entry" where
  "stride_single_done P e =
     (if PREF_STRIDE_SINGLE_THRESH P \<le> si_s_cnt e ! unat (si_curr_state e)
      then let e = e\<lparr>si_trained := True, si_num_states := 1, si_curr_state := 0\<rparr>;
               e = e\<lparr>si_stride := (si_stride e)[0 := si_stride e ! unat (si_curr_state e)]\<rparr>
           in e\<lparr>si_pref_last_index := si_last_index e + ucast (si_stride e ! 0 * PREF_STRIDE_STARTDISTANCE P)\<rparr>
      else e)"

text \<open>One step of the prefetch position along the two-stride pattern.\<close>

definition pref_step_index :: "Stride_Index_Table_Entry \<Rightarrow> Addr" where
  "pref_step_index e =
     (let c = unat (si_pref_curr_state e)
      in if si_pref_count e = si_s_cnt e ! c
         then si_pref_last_index e + scast (si_strans e ! c) else si_pref_last_index e + scast (si_stride e ! c))"

definition pref_step_state :: "Stride_Index_Table_Entry \<Rightarrow> Stride_Index_Table_Entry" where
  "pref_step_state e =
     (let c = unat (si_pref_curr_state e); ix = pref_step_index e
      in if si_pref_count e = si_s_cnt e ! c
         then e\<lparr>si_pref_count := 0, si_pref_curr_state := flip_state (si_pref_curr_state e), si_pref_last_index := ix\<rparr>
         else e\<lparr>si_pref_count := si_pref_count e + 1, si_pref_last_index := ix\<rparr>)"

definition stride_multi_done :: "stride_params \<Rightarrow> Stride_Index_Table_Entry \<Rightarrow> Stride_Index_Table_Entry" where
  "stride_multi_done P e =
     (if PREF_STRIDE_MULTI_THRESH P \<le> si_recnt e
      then (pref_step_state ^^ unat (PREF_STRIDE_STARTDISTANCE P))
             (e\<lparr>si_trained := True, si_pref_count := si_count e, si_pref_curr_state := si_curr_state e,
                si_pref_last_index := si_last_index e\<rparr>)
      else e)"

section \<open>Sending\<close>

text \<open>
  The two loops that send prefetches, at most \<open>n\<close> of them; they stop when the queue refuses one.
\<close>

fun stride_send_single ::
    "pref_params \<Rightarrow> stride_params \<Rightarrow> uns8 \<Rightarrow> nat \<Rightarrow> Stride_Index_Table_Entry \<times> pref_state \<Rightarrow>
     Stride_Index_Table_Entry \<times> pref_state" where
  "stride_send_single PC P hid 0 (e, q) = (e, q)"
| "stride_send_single PC P hid (Suc n) (e, q) =
     (if si_pref_sent e < ucast (PREF_STRIDE_DISTANCE P) then
        let pref_index = si_pref_last_index e + scast (si_stride e ! 0);
            (ok, q) = pref_addto_ul1req_queue PC 0 pref_index hid q
        in if ok
           then stride_send_single PC P hid n (e\<lparr>si_pref_last_index := pref_index, si_pref_sent := si_pref_sent e + 1\<rparr>, q)
           else (e, q)
      else (e, q))"

fun stride_send_multi ::
    "pref_params \<Rightarrow> stride_params \<Rightarrow> uns8 \<Rightarrow> nat \<Rightarrow> Stride_Index_Table_Entry \<times> pref_state \<Rightarrow>
     Stride_Index_Table_Entry \<times> pref_state" where
  "stride_send_multi PC P hid 0 (e, q) = (e, q)"
| "stride_send_multi PC P hid (Suc n) (e, q) =
     (if si_pref_sent e < ucast (PREF_STRIDE_DISTANCE P) then
        let (ok, q) = pref_addto_ul1req_queue PC 0 (pref_step_index e) hid q
        in if ok
           then stride_send_multi PC P hid n ((pref_step_state e)\<lparr>si_pref_sent := si_pref_sent e + 1\<rparr>, q)
           else (e, q)
      else (e, q))"

text \<open>The entry is forgotten when a stride does not fit.\<close>

definition stride_forget :: "Stride_Index_Table_Entry \<Rightarrow> Stride_Index_Table_Entry" where
  "stride_forget e =
     e\<lparr>si_trained := False, si_train_count_mode := False, si_num_states := 1, si_curr_state := 0,
       si_stride := [0, 0], si_s_cnt := [0, 0], si_strans := [0, 0], si_count := 0, si_recnt := 0, si_pref_sent := 0\<rparr>"

definition stride_trained_step ::
    "pref_params \<Rightarrow> stride_params \<Rightarrow> uns8 \<Rightarrow> cint \<Rightarrow> Stride_Index_Table_Entry \<times> pref_state \<Rightarrow>
     Stride_Index_Table_Entry \<times> pref_state" where
  "stride_trained_step PC P hid stride = (\<lambda>(e, q).
     (let e = (if si_pref_sent e \<noteq> 0 then e\<lparr>si_pref_sent := si_pref_sent e - 1\<rparr> else e);
          n = unat (PREF_STRIDE_DEGREE P)
      in if si_num_states e = 1 \<and> stride = si_stride e ! 0 then stride_send_single PC P hid n (e, q)
         else if in_run stride e \<or> at_transition stride e then
           let e = (if si_count e = si_s_cnt e ! unat (si_curr_state e)
                    then e\<lparr>si_count := 0, si_curr_state := flip_state (si_curr_state e)\<rparr>
                    else e\<lparr>si_count := si_count e + 1\<rparr>)
           in stride_send_multi PC P hid n (e, q)
         else (stride_forget e, q)))"

definition stride_untrained_step ::
    "stride_params \<Rightarrow> Addr \<Rightarrow> cint \<Rightarrow> Stride_Index_Table_Entry \<Rightarrow> Stride_Index_Table_Entry" where
  "stride_untrained_step P line_index stride e =
     (let e = (if \<not> si_train_count_mode e then stride_capture P stride e
               else case stride_check stride e of Some e \<Rightarrow> e | None \<Rightarrow> new_index line_index e)
      in stride_multi_done P (stride_single_done P e))"

definition pref_stride_ul1_train ::
    "pref_params \<Rightarrow> stride_params \<Rightarrow> Addr \<Rightarrow> bool \<Rightarrow> pref_state \<times> Pref_Stride \<Rightarrow> (pref_state \<times> Pref_Stride) option" where
  "pref_stride_ul1_train PC P lineAddr ul1_hit = (\<lambda>(q, s).
     (let lineIndex = drop_bit (LOG2 (DCACHE_LINE_SIZE PC)) lineAddr;
          index_tag = STRIDE_REGION P lineAddr; now = cycle_count q
      in case find_ix (\<lambda>r. sr_tag r = index_tag \<and> sr_valid r) (region_table s) of
           None \<Rightarrow>
             if ul1_hit then Some (q, s)
             else (case mru_scan sr_valid sr_last_access 0 None (region_table s) of
                     None \<Rightarrow> None
                   | Some idx \<Rightarrow> Some (q, pref_stride_create_newentry PC now idx lineAddr index_tag s))
         | Some idx \<Rightarrow>
             let e = index_table s ! idx;
                 stride = ucast (lineIndex - si_last_index e) :: cint;
                 e = e\<lparr>si_last_index := lineIndex\<rparr>;
                 s = s\<lparr>region_table := (region_table s)[idx := (region_table s ! idx)\<lparr>sr_last_access := ucast now\<rparr>]\<rparr>;
                 (e, q) = (if \<not> si_trained e then (stride_untrained_step P lineIndex stride e, q)
                           else stride_trained_step PC P (stride_hwp_id s) stride (e, q))
             in Some (q, s\<lparr>index_table := (index_table s)[idx := e]\<rparr>)))"

definition pref_stride_ul1_hit ::
    "pref_params \<Rightarrow> stride_params \<Rightarrow> uns8 \<Rightarrow> Addr \<Rightarrow> Addr \<Rightarrow> uns32 \<Rightarrow> pref_state \<times> Pref_Stride \<Rightarrow>
     (pref_state \<times> Pref_Stride) option" where
  "pref_stride_ul1_hit PC P proc_id lineAddr loadPC ghist = pref_stride_ul1_train PC P lineAddr True"

definition pref_stride_ul1_miss ::
    "pref_params \<Rightarrow> stride_params \<Rightarrow> uns8 \<Rightarrow> Addr \<Rightarrow> Addr \<Rightarrow> uns32 \<Rightarrow> pref_state \<times> Pref_Stride \<Rightarrow>
     (pref_state \<times> Pref_Stride) option" where
  "pref_stride_ul1_miss PC P proc_id lineAddr loadPC ghist = pref_stride_ul1_train PC P lineAddr False"

section \<open>Indices in bounds\<close>

definition si_ok :: "Stride_Index_Table_Entry \<Rightarrow> bool" where
  "si_ok e \<longleftrightarrow> length (si_stride e) = 2 \<and> length (si_s_cnt e) = 2 \<and> length (si_strans e) = 2 \<and>
     si_curr_state e \<in> {0, 1} \<and> si_pref_curr_state e \<in> {0, 1}"

definition stride_inv :: "stride_params \<Rightarrow> Pref_Stride \<Rightarrow> bool" where
  "stride_inv P s \<longleftrightarrow> 0 < PREF_STRIDE_TABLE_N P \<and> length (region_table s) = unat (PREF_STRIDE_TABLE_N P) \<and>
     length (index_table s) = unat (PREF_STRIDE_TABLE_N P) \<and> list_all si_ok (index_table s)"

lemma flip_state_ok: "st \<in> {0, 1} \<Longrightarrow> flip_state st \<in> {0, 1}"
  by (auto simp: flip_state_def)

lemmas stride_step_defs = stride_capture_def stride_check_def stride_single_done_def stride_forget_def
  new_index_def pref_step_state_def Let_def

lemma stride_capture_ok: "si_ok e \<Longrightarrow> si_ok (stride_capture P d e)"
  using flip_state_ok [of "si_curr_state e"] by (auto simp: si_ok_def stride_capture_def Let_def)

lemma stride_check_ok: "si_ok e \<Longrightarrow> stride_check d e = Some e' \<Longrightarrow> si_ok e'"
  using flip_state_ok [of "si_curr_state e"] by (auto simp: si_ok_def stride_check_def split: if_splits)

lemma stride_single_done_ok: "si_ok e \<Longrightarrow> si_ok (stride_single_done P e)"
  by (simp add: si_ok_def stride_single_done_def Let_def)

lemma pref_step_state_ok: "si_ok e \<Longrightarrow> si_ok (pref_step_state e)"
  using flip_state_ok [of "si_pref_curr_state e"] by (auto simp: si_ok_def pref_step_state_def Let_def)

lemma pref_steps_ok: "si_ok e \<Longrightarrow> si_ok ((pref_step_state ^^ n) e)"
  by (induction n) (auto simp: pref_step_state_ok)

lemma stride_multi_done_ok: "si_ok e \<Longrightarrow> si_ok (stride_multi_done P e)"
  by (auto simp: stride_multi_done_def intro!: pref_steps_ok) (simp add: si_ok_def)

lemma stride_untrained_ok: "si_ok e \<Longrightarrow> si_ok (stride_untrained_step P li d e)"
proof -
  assume e: "si_ok e"
  have "si_ok (if \<not> si_train_count_mode e then stride_capture P d e
      else case stride_check d e of Some e \<Rightarrow> e | None \<Rightarrow> new_index li e)"
    using e stride_capture_ok [OF e] stride_check_ok [OF e, of d]
    by (auto simp: new_index_def si_ok_def split: option.splits)
  then show ?thesis
    unfolding stride_untrained_step_def Let_def by (intro stride_multi_done_ok stride_single_done_ok)
qed

lemma stride_send_single_ok: "si_ok e \<Longrightarrow> si_ok (fst (stride_send_single PC P hid n (e, q)))"
  by (induction n arbitrary: e q) (auto simp: Let_def si_ok_def split: prod.splits)

lemma stride_send_multi_ok: "si_ok e \<Longrightarrow> si_ok (fst (stride_send_multi PC P hid n (e, q)))"
proof (induction n arbitrary: e q)
  case (Suc n)
  have "si_ok ((pref_step_state e)\<lparr>si_pref_sent := x\<rparr>)" for x
    using pref_step_state_ok [OF Suc.prems] by (simp add: si_ok_def)
  then show ?case using Suc by (auto simp: Let_def split: prod.splits)
qed simp

lemma stride_trained_ok: "si_ok e \<Longrightarrow> si_ok (fst (stride_trained_step PC P hid d (e, q)))"
proof -
  assume e: "si_ok e"
  define e1 where "e1 = (if si_pref_sent e \<noteq> 0 then e\<lparr>si_pref_sent := si_pref_sent e - 1\<rparr> else e)"
  define e2 where "e2 = (if si_count e1 = si_s_cnt e1 ! unat (si_curr_state e1)
    then e1\<lparr>si_count := 0, si_curr_state := flip_state (si_curr_state e1)\<rparr> else e1\<lparr>si_count := si_count e1 + 1\<rparr>)"
  have ok: "si_ok e1" "si_ok e2" "si_ok (stride_forget e1)"
    using e flip_state_ok [of "si_curr_state e"] by (auto simp: e1_def e2_def si_ok_def stride_forget_def)
  have "stride_trained_step PC P hid d (e, q) =
    (if si_num_states e1 = 1 \<and> d = si_stride e1 ! 0 then stride_send_single PC P hid (unat (PREF_STRIDE_DEGREE P)) (e1, q)
     else if in_run d e1 \<or> at_transition d e1 then stride_send_multi PC P hid (unat (PREF_STRIDE_DEGREE P)) (e2, q)
     else (stride_forget e1, q))"
    by (simp add: stride_trained_step_def Let_def e1_def [symmetric]) (auto simp: e2_def)
  then show ?thesis using ok stride_send_single_ok stride_send_multi_ok by (auto split: if_splits)
qed

lemma stride_inv_init:
  "0 < PREF_STRIDE_TABLE_N P \<Longrightarrow> PREF_STRIDE_ON P \<Longrightarrow> pref_stride_init PC P ii (q, s) = Some (q', s') \<Longrightarrow> stride_inv P s'"
  by (auto simp: pref_stride_init_def stride_inv_def si_ok_def zero_index_def list_all_iff split: if_splits)

lemma stride_train_ok:
  assumes inv: "stride_inv P s"
  obtains q' s' where "pref_stride_ul1_train PC P a hit (q, s) = Some (q', s')" "stride_inv P s'"
proof -
  let ?tag = "STRIDE_REGION P a" and ?li = "drop_bit (LOG2 (DCACHE_LINE_SIZE PC)) a"
  show thesis
  proof (cases "find_ix (\<lambda>r. sr_tag r = ?tag \<and> sr_valid r) (region_table s)")
    case None
    have "region_table s \<noteq> []" using inv by (auto simp: stride_inv_def word_less_nat_alt)
    then obtain idx where idx: "mru_scan sr_valid sr_last_access 0 None (region_table s) = Some idx"
      using mru_scan_total by blast
    have "idx < length (index_table s)" using mru_scan_victim(1) [OF idx] inv by (simp add: stride_inv_def)
    then have "si_ok (new_index ?li (index_table s ! idx))"
      using inv list_all_nth [of si_ok "index_table s" idx] by (simp add: stride_inv_def si_ok_def new_index_def)
    then have "stride_inv P (pref_stride_create_newentry PC (cycle_count q) idx a ?tag s)"
      using inv by (auto simp: stride_inv_def pref_stride_create_newentry_def intro: list_all_update)
    with None idx inv show thesis
      by (cases hit) (auto simp: pref_stride_ul1_train_def Let_def intro: that)
  next
    case (Some idx)
    define e where "e = (index_table s ! idx)\<lparr>si_last_index := ?li\<rparr>"
    define r where "r = (if \<not> si_trained e
      then (stride_untrained_step P ?li (ucast (?li - si_last_index (index_table s ! idx))) e, q)
      else stride_trained_step PC P (stride_hwp_id s) (ucast (?li - si_last_index (index_table s ! idx))) (e, q))"
    have "idx < length (index_table s)" using find_ix_SomeD(1) [OF Some] inv by (simp add: stride_inv_def)
    then have "si_ok e" using inv list_all_nth [of si_ok "index_table s" idx] by (simp add: stride_inv_def si_ok_def e_def)
    then have ok: "si_ok (fst r)" by (simp add: r_def stride_untrained_ok stride_trained_ok)
    obtain e' q' where r': "r = (e', q')" by fastforce
    have "pref_stride_ul1_train PC P a hit (q, s) = Some (q', s\<lparr>region_table :=
        (region_table s)[idx := (region_table s ! idx)\<lparr>sr_last_access := ucast (cycle_count q)\<rparr>],
        index_table := (index_table s)[idx := e']\<rparr>)"
      using Some r' by (auto simp: pref_stride_ul1_train_def Let_def r_def e_def split: prod.splits if_splits)
    with ok r' inv show thesis by (intro that) (auto simp: stride_inv_def intro: list_all_update)
  qed
qed

end
