(* ===== verification/Pref_StridePC.thy ===== *)
theory Pref_StridePC
  imports Pref_Queue
begin

text \<open>
  The PC-based stride prefetcher, \<^verbatim>\<open>prefetcher/pref_stridepc.c\<close>: one table per core, indexed by a search
  for the load's PC. \<open>None\<close> is a failed assertion, an access outside a table, or a division by zero.
  As in \<^verbatim>\<open>pref_stride.c\<close> the start distance is an \<^verbatim>\<open>uns\<close>, so its product with the stride is extended
  with zeros.
\<close>

section \<open>Data\<close>

record stridepc_params =
  PREF_STRIDEPC_ON :: bool
  PREF_STRIDEPC_TABLE_N :: uns
  PREF_STRIDEPC_DEGREE :: uns
  PREF_STRIDEPC_DISTANCE :: uns
  PREF_STRIDEPC_USELOADADDR :: bool
  PREF_STRIDEPC_TRAINNUM :: uns
  PREF_STRIDEPC_STARTDIS :: uns

record StridePC_Table_Entry =
  pc_trained :: bool
  pc_valid :: bool
  pc_last_addr :: Addr
  pc_load_addr :: Addr
  pc_start_index :: Addr
  pc_pref_last_index :: Addr
  pc_stride :: cint
  pc_train_num :: Counter
  pc_pref_sent :: Counter
  pc_last_access :: Counter

record Pref_StridePC =
  stridepc_hwp_id :: uns8
  stride_table :: "StridePC_Table_Entry list"

definition zero_pc :: StridePC_Table_Entry where
  "zero_pc = \<lparr>pc_trained = False, pc_valid = False, pc_last_addr = 0, pc_load_addr = 0, pc_start_index = 0,
     pc_pref_last_index = 0, pc_stride = 0, pc_train_num = 0, pc_pref_sent = 0, pc_last_access = 0\<rparr>"

definition pref_stridepc_init ::
    "pref_params \<Rightarrow> stridepc_params \<Rightarrow> nat \<Rightarrow> pref_state \<times> Pref_StridePC list \<Rightarrow> pref_state \<times> Pref_StridePC list" where
  "pref_stridepc_init PC P ii = (\<lambda>(q, ss).
     (if \<not> PREF_STRIDEPC_ON P then (q, ss)
      else (upd_info (of_nat ii) (\<lambda>h. h\<lparr>hwp_enabled := True\<rparr>) q,
            replicate (unat (NUM_CORES PC))
              \<lparr>stridepc_hwp_id = hwp_id (hwp_infos q ! ii),
               stride_table = replicate (unat (PREF_STRIDEPC_TABLE_N P)) zero_pc\<rparr>)))"

section \<open>One entry\<close>

text \<open>What the entry follows: the address or the line index.\<close>

definition pc_position :: "pref_params \<Rightarrow> stridepc_params \<Rightarrow> Addr \<Rightarrow> Addr" where
  "pc_position PC P lineAddr =
     (if PREF_STRIDEPC_USELOADADDR P then lineAddr else drop_bit (LOG2 (DCACHE_LINE_SIZE PC)) lineAddr)"

definition pc_new_entry :: "Counter \<Rightarrow> Addr \<Rightarrow> Addr \<Rightarrow> StridePC_Table_Entry \<Rightarrow> StridePC_Table_Entry" where
  "pc_new_entry now loadPC pos e =
     e\<lparr>pc_trained := False, pc_valid := True, pc_stride := 0, pc_train_num := 0, pc_pref_sent := 0,
       pc_last_addr := pos, pc_load_addr := loadPC, pc_last_access := now\<rparr>"

definition pc_untrained_step :: "stridepc_params \<Rightarrow> Addr \<Rightarrow> cint \<Rightarrow> StridePC_Table_Entry \<Rightarrow> StridePC_Table_Entry" where
  "pc_untrained_step P pos stride e =
     (let e = (if pc_stride e \<noteq> stride then e\<lparr>pc_stride := stride, pc_train_num := 1\<rparr>
               else e\<lparr>pc_train_num := pc_train_num e + 1\<rparr>)
      in if pc_train_num e = ucast (PREF_STRIDEPC_TRAINNUM P)
         then e\<lparr>pc_trained := True, pc_start_index := pos,
                pc_pref_last_index := pos + ucast (PREF_STRIDEPC_STARTDIS P * pc_stride e), pc_pref_sent := 0\<rparr>
         else e)"

text \<open>The sending loop: at most \<open>n\<close> requests, until the queue refuses one.\<close>

fun pc_send ::
    "pref_params \<Rightarrow> stridepc_params \<Rightarrow> uns8 \<Rightarrow> uns8 \<Rightarrow> nat \<Rightarrow> StridePC_Table_Entry \<times> pref_state \<Rightarrow>
     (StridePC_Table_Entry \<times> pref_state) option" where
  "pc_send PC P proc_id hid 0 (e, q) = Some (e, q)"
| "pc_send PC P proc_id hid (Suc n) (e, q) =
     (if pc_pref_sent e < ucast (PREF_STRIDEPC_DISTANCE P) then
        let pref_index = pc_pref_last_index e + scast (pc_stride e)
        in if ucast proc_id \<noteq> drop_bit (58 - LOG2 (DCACHE_LINE_SIZE PC)) pref_index then None
           else
             let (ok, q) = pref_addto_ul1req_queue PC proc_id
                   (if PREF_STRIDEPC_USELOADADDR P then drop_bit (LOG2 (DCACHE_LINE_SIZE PC)) pref_index else pref_index) hid q
             in if ok
                then pc_send PC P proc_id hid n (e\<lparr>pc_pref_last_index := pref_index, pc_pref_sent := pc_pref_sent e + 1\<rparr>, q)
                else Some (e, q)
      else Some (e, q))"

text \<open>
  \<^verbatim>\<open>stride % entry->stride\<close> is C's remainder, with the sign of the dividend; only whether it is 0
  matters. The quotient of \<^verbatim>\<open>INT_MIN\<close> by -1 does not fit an \<^verbatim>\<open>int\<close> and is undefined.
\<close>

definition c_rem_zero :: "cint \<Rightarrow> cint \<Rightarrow> bool option" where
  "c_rem_zero a b = (if b = 0 \<or> (a = 0x80000000 \<and> b = - 1) then None else Some (sint b dvd sint a))"

definition pc_in_window :: "cint \<Rightarrow> Addr \<Rightarrow> StridePC_Table_Entry \<Rightarrow> bool" where
  "pc_in_window stride pos e \<longleftrightarrow>
     (0 < sint stride \<and> pc_start_index e \<le> pos \<and> pos \<le> pc_pref_last_index e) \<or>
     (sint stride < 0 \<and> pos \<le> pc_start_index e \<and> pc_pref_last_index e \<le> pos)"

definition pc_trained_step ::
    "pref_params \<Rightarrow> stridepc_params \<Rightarrow> uns8 \<Rightarrow> uns8 \<Rightarrow> Addr \<Rightarrow> cint \<Rightarrow> StridePC_Table_Entry \<times> pref_state \<Rightarrow>
     (StridePC_Table_Entry \<times> pref_state) option" where
  "pc_trained_step PC P proc_id hid pos stride = (\<lambda>(e, q).
     (let e = (if pc_pref_sent e \<noteq> 0 then e\<lparr>pc_pref_sent := pc_pref_sent e - 1\<rparr> else e)
      in case c_rem_zero stride (pc_stride e) of
           None \<Rightarrow> None
         | Some z \<Rightarrow>
             if z \<and> pc_in_window stride pos e
             then pc_send PC P proc_id hid (unat (PREF_STRIDEPC_DEGREE P)) (e, q)
             else Some (e\<lparr>pc_trained := False, pc_train_num := 1\<rparr>, q)))"

section \<open>Training\<close>

definition pref_stridepc_ul1_train ::
    "pref_params \<Rightarrow> stridepc_params \<Rightarrow> uns8 \<Rightarrow> Addr \<Rightarrow> Addr \<Rightarrow> bool \<Rightarrow> pref_state \<times> Pref_StridePC \<Rightarrow>
     (pref_state \<times> Pref_StridePC) option" where
  "pref_stridepc_ul1_train PC P proc_id lineAddr loadPC ul1_hit = (\<lambda>(q, s).
     (let pos = pc_position PC P lineAddr; now = cycle_count q
      in if loadPC = 0 then Some (q, s)
         else case find_ix (\<lambda>e. pc_load_addr e = loadPC \<and> pc_valid e) (stride_table s) of
           None \<Rightarrow>
             if ul1_hit then Some (q, s)
             else (case mru_scan pc_valid pc_last_access 0 None (stride_table s) of
                     None \<Rightarrow> None
                   | Some idx \<Rightarrow> Some (q, s\<lparr>stride_table :=
                         (stride_table s)[idx := pc_new_entry now loadPC pos (stride_table s ! idx)]\<rparr>))
         | Some idx \<Rightarrow>
             let e = (stride_table s ! idx)\<lparr>pc_last_access := now\<rparr>;
                 stride = ucast (pos - pc_last_addr e) :: cint;
                 put = (\<lambda>e. s\<lparr>stride_table := (stride_table s)[idx := e]\<rparr>)
             in if \<not> pc_trained e then
                  if stride = 0 then Some (q, put e)
                  else Some (q, put ((pc_untrained_step P pos stride e)\<lparr>pc_last_addr := pos\<rparr>))
                else
                  map_option (\<lambda>(e, q). (q, put (e\<lparr>pc_last_addr := pos\<rparr>)))
                    (pc_trained_step PC P proc_id (stridepc_hwp_id s) pos stride (e, q))))"

text \<open>The callbacks select the core's table; the pointer \<^verbatim>\<open>stridepc_hwp\<close> is not used in between.\<close>

definition on_core ::
    "uns8 \<Rightarrow> (pref_state \<times> Pref_StridePC \<Rightarrow> (pref_state \<times> Pref_StridePC) option) \<Rightarrow>
     pref_state \<times> Pref_StridePC list \<Rightarrow> (pref_state \<times> Pref_StridePC list) option" where
  "on_core proc_id f = (\<lambda>(q, ss).
     (if unat proc_id < length ss
      then map_option (\<lambda>(q, s). (q, ss[unat proc_id := s])) (f (q, ss ! unat proc_id)) else None))"

definition pref_stridepc_ul1_hit ::
    "pref_params \<Rightarrow> stridepc_params \<Rightarrow> uns8 \<Rightarrow> Addr \<Rightarrow> Addr \<Rightarrow> uns32 \<Rightarrow> pref_state \<times> Pref_StridePC list \<Rightarrow>
     (pref_state \<times> Pref_StridePC list) option" where
  "pref_stridepc_ul1_hit PC P proc_id lineAddr loadPC ghist =
     on_core proc_id (pref_stridepc_ul1_train PC P proc_id lineAddr loadPC True)"

definition pref_stridepc_ul1_miss ::
    "pref_params \<Rightarrow> stridepc_params \<Rightarrow> uns8 \<Rightarrow> Addr \<Rightarrow> Addr \<Rightarrow> uns32 \<Rightarrow> pref_state \<times> Pref_StridePC list \<Rightarrow>
     (pref_state \<times> Pref_StridePC list) option" where
  "pref_stridepc_ul1_miss PC P proc_id lineAddr loadPC ghist =
     on_core proc_id (pref_stridepc_ul1_train PC P proc_id lineAddr loadPC False)"

section \<open>Descending streams\<close>

text \<open>The window of an entry trained on a negative stride ends above its start.\<close>

lemma pc_untrained_trains:
  assumes "pc_stride e = d" "pc_train_num e + 1 = ucast (PREF_STRIDEPC_TRAINNUM P)"
  shows "pc_untrained_step P pos d e = e\<lparr>pc_train_num := pc_train_num e + 1, pc_trained := True, pc_start_index := pos,
    pc_pref_last_index := pos + ucast (PREF_STRIDEPC_STARTDIS P * d), pc_pref_sent := 0\<rparr>"
  using assms by (simp add: pc_untrained_step_def Let_def)

lemma above_start: "unat (pos :: Addr) + 2 ^ 32 \<le> 2 ^ 64 \<Longrightarrow> pos \<le> pos + ucast (x :: uns)"
proof -
  assume a: "unat pos + 2 ^ 32 \<le> 2 ^ 64"
  have "unat (ucast x :: Addr) < 2 ^ 32" using unsigned_less [where 'a = nat, of x] by simp
  with a have "unat (pos + ucast x) = unat pos + unat (ucast x :: Addr)"
    by (intro iffD1 [OF unat_add_lem]) simp
  then show ?thesis by (simp add: word_le_nat_alt)
qed

lemma below_start: "sint (d :: cint) < 0 \<Longrightarrow> nat (- sint d) \<le> unat (pos :: Addr) \<Longrightarrow> pos + scast d < pos"
proof -
  assume d: "sint d < 0" and le: "nat (- sint d) \<le> unat pos"
  define n where "n = nat (- sint d)"
  have "sint d = - int n" using d by (simp add: n_def)
  then have "(scast d :: Addr) = - of_nat n" by (metis of_int_minus of_int_of_nat_eq of_int_sint)
  moreover have "unat (of_nat n :: Addr) = n"
    using le unsigned_less [where 'a = nat, of pos] by (simp add: unat_of_nat n_def)
  ultimately have "unat (pos + scast d) = unat pos - n"
    using le unat_sub [of "of_nat n" pos] by (simp add: word_le_nat_alt n_def)
  with d le show ?thesis by (simp add: word_less_nat_alt n_def)
qed

lemma pc_negative_retrains:
  assumes "pc_start_index e = pos" "pc_pref_last_index e = pos + ucast (x :: uns)" "unat pos + 2 ^ 32 \<le> 2 ^ 64"
    and "sint d < 0" "nat (- sint d) \<le> unat pos"
  shows "\<not> pc_in_window d (pos + scast d) e"
proof -
  have "pos + scast d < pos" by (rule below_start [OF assms(4,5)])
  also have "pos \<le> pos + ucast x" by (rule above_start [OF assms(3)])
  finally show ?thesis using assms(1,2,4) by (auto simp: pc_in_window_def)
qed

lemma ucast_scast: "ucast (scast (d :: cint) :: Addr) = d"
  by (rule bit_word_eqI) (auto simp: bit_simps)

end
