(* ===== verification/Pref_Markov.thy ===== *)
theory Pref_Markov
  imports Pref_Queue
begin

text \<open>
  The Markov prefetcher, \<^verbatim>\<open>prefetcher/pref_markov.c\<close>: per core, a table of successor lists indexed by
  the line of the last miss. \<open>None\<close> is an access outside a table or a division by zero.
\<close>

section \<open>Data\<close>

record markov_params =
  PREF_MARKOV_ON :: bool
  PREF_MARKOV_NUM_ENTRIES :: uns
  PREF_MARKOV_NUM_NEXT_STATES :: uns
  PREF_MARKOV_SEND_ON_PREF_HIT :: bool
  PREF_MARKOV_UPDATE_ON_PREF_HIT :: bool
  PREF_MARKOV_TABLE_UPDATE_POLICY :: uns8
  PREF_MARKOV_SEND_THRESHOLD :: uns8

record Markov_Table_Entry =
  mk_valid :: bool
  mk_next_addr :: Addr
  mk_tag :: Addr
  mk_count :: Counter

record Pref_Markov =
  mk_hwp_id :: uns8
  markov_table :: "Markov_Table_Entry list list"

text \<open>The two arrays over the cores: the tables and the addresses of the last misses.\<close>

record markov_state =
  markov_hwp_core :: "Pref_Markov list"
  last_miss_addr_core :: "Addr list"

definition zero_mk :: Markov_Table_Entry where
  "zero_mk = \<lparr>mk_valid = False, mk_next_addr = 0, mk_tag = 0, mk_count = 0\<rparr>"

definition pref_markov_init ::
    "pref_params \<Rightarrow> markov_params \<Rightarrow> nat \<Rightarrow> pref_state \<times> markov_state \<Rightarrow> pref_state \<times> markov_state" where
  "pref_markov_init PC P ii = (\<lambda>(q, m).
     (if \<not> PREF_MARKOV_ON P then (q, m)
      else (upd_info (of_nat ii) (\<lambda>h. h\<lparr>hwp_enabled := True\<rparr>) q,
        \<lparr>markov_hwp_core = replicate (unat (NUM_CORES PC))
           \<lparr>mk_hwp_id = hwp_id (hwp_infos q ! ii),
            markov_table = replicate (unat (PREF_MARKOV_NUM_ENTRIES P))
              (replicate (unat (PREF_MARKOV_NUM_NEXT_STATES P)) zero_mk)\<rparr>,
         last_miss_addr_core = replicate (unat (NUM_CORES PC)) 0\<rparr>)))"

section \<open>The table\<close>

definition markov_index :: "pref_params \<Rightarrow> markov_params \<Rightarrow> Addr \<Rightarrow> nat" where
  "markov_index PC P a =
     unat (ucast (drop_bit (LOG2 (L1_LINE_SIZE PC)) a mod ucast (PREF_MARKOV_NUM_ENTRIES P)) :: uns)"

text \<open>
  The search stops at the matching successor or at the first free slot; past the end the last slot
  is taken. The result: the slot, whether the entry is new, and the row with the match counted.
\<close>

definition markov_slot :: "Addr \<Rightarrow> Addr \<Rightarrow> Markov_Table_Entry list \<Rightarrow> nat \<times> bool \<times> Markov_Table_Entry list" where
  "markov_slot tag cur row =
     (case find_ix (\<lambda>e. \<not> mk_valid e \<or> (mk_next_addr e = cur \<and> mk_tag e = tag)) row of
        None \<Rightarrow> (length row - 1, True, row)
      | Some i \<Rightarrow>
          if mk_valid (row ! i)
          then (i, False, row[i := (row ! i)\<lparr>mk_count :=
                  if mk_count (row ! i) < MAX_CTR then mk_count (row ! i) + 1 else mk_count (row ! i)\<rparr>])
          else (i, True, row))"

text \<open>LRU: slots \<open>0..i-1\<close> move down by one and \<open>x\<close> goes to the front.\<close>

definition to_front :: "nat \<Rightarrow> 'a \<Rightarrow> 'a list \<Rightarrow> 'a list" where
  "to_front i x row = x # take i row @ drop (Suc i) row"

text \<open>LFU: slot \<open>i\<close> moves up past every slot it is counted more often than.\<close>

fun sift_up :: "nat \<Rightarrow> Markov_Table_Entry list \<Rightarrow> Markov_Table_Entry list" where
  "sift_up 0 row = row"
| "sift_up (Suc i) row =
     (if mk_count (row ! i) < mk_count (row ! Suc i)
      then sift_up i (row[Suc i := row ! i, i := row ! Suc i]) else row)"

definition markov_row_update :: "uns8 \<Rightarrow> Addr \<Rightarrow> Addr \<Rightarrow> Markov_Table_Entry list \<Rightarrow> Markov_Table_Entry list" where
  "markov_row_update policy tag cur row =
     (let (i, new, row) = markov_slot tag cur row;
          fresh = \<lparr>mk_valid = True, mk_next_addr = cur, mk_tag = tag, mk_count = 1\<rparr>
      in if policy = 0 then to_front i (if new then fresh else row ! i) row
         else if policy = 1 then (if new then row[i := fresh] else sift_up i row)
         else row)"

definition pref_markov_update_table ::
    "pref_params \<Rightarrow> markov_params \<Rightarrow> uns8 \<Rightarrow> Addr \<Rightarrow> bool \<Rightarrow> markov_state \<Rightarrow> markov_state option" where
  "pref_markov_update_table PC P proc_id current_addr true_miss m =
     (let p = unat proc_id; last_miss = last_miss_addr_core m ! p;
          set_last = (\<lambda>m. m\<lparr>last_miss_addr_core := (last_miss_addr_core m)[p := current_addr]\<rparr>);
          hwp = markov_hwp_core m ! p; ti = markov_index PC P last_miss
      in if \<not> (p < length (markov_hwp_core m) \<and> p < length (last_miss_addr_core m)) \<or> PREF_MARKOV_NUM_ENTRIES P = 0
         then None
         else if last_miss = 0 then Some (set_last m)
         else if \<not> ti < length (markov_table hwp) \<or> markov_table hwp ! ti = [] then None
         else
           let row = markov_row_update (PREF_MARKOV_TABLE_UPDATE_POLICY P) last_miss current_addr (markov_table hwp ! ti);
               m = m\<lparr>markov_hwp_core := (markov_hwp_core m)[p :=
                       hwp\<lparr>markov_table := (markov_table hwp)[ti := row]\<rparr>]\<rparr>
           in Some (if true_miss then set_last m else m))"

section \<open>Sending\<close>

text \<open>The lines asked for, in order: the loop stops at the first free slot.\<close>

definition markov_targets :: "pref_params \<Rightarrow> markov_params \<Rightarrow> Addr \<Rightarrow> Markov_Table_Entry list \<Rightarrow> Addr list" where
  "markov_targets PC P miss row =
     map (\<lambda>e. drop_bit (LOG2 (L1_LINE_SIZE PC)) (mk_next_addr e))
       (filter (\<lambda>e. mk_tag e = miss \<and> ucast (PREF_MARKOV_SEND_THRESHOLD P) < mk_count e) (takeWhile mk_valid row))"

definition pref_markov_send_prefetches ::
    "pref_params \<Rightarrow> markov_params \<Rightarrow> uns8 \<Rightarrow> Addr \<Rightarrow> pref_state \<times> markov_state \<Rightarrow> pref_state option" where
  "pref_markov_send_prefetches PC P proc_id miss = (\<lambda>(q, m).
     (let hwp = markov_hwp_core m ! unat proc_id; ti = markov_index PC P miss
      in if \<not> unat proc_id < length (markov_hwp_core m) \<or> PREF_MARKOV_NUM_ENTRIES P = 0 \<or>
            \<not> ti < length (markov_table hwp) then None
         else Some (fold (\<lambda>a q. snd (pref_addto_ul1req_queue PC proc_id a (mk_hwp_id hwp) q))
                (markov_targets PC P miss (markov_table hwp ! ti)) q)))"

definition pref_markov_ul1_prefhit ::
    "pref_params \<Rightarrow> markov_params \<Rightarrow> uns8 \<Rightarrow> Addr \<Rightarrow> Addr \<Rightarrow> uns32 \<Rightarrow> pref_state \<times> markov_state \<Rightarrow>
     (pref_state \<times> markov_state) option" where
  "pref_markov_ul1_prefhit PC P proc_id lineAddr load_PC ghist = (\<lambda>(q, m).
     (case (if PREF_MARKOV_UPDATE_ON_PREF_HIT P
            then pref_markov_update_table PC P proc_id lineAddr False m else Some m) of
        None \<Rightarrow> None
      | Some m \<Rightarrow>
          if PREF_MARKOV_SEND_ON_PREF_HIT P
          then map_option (\<lambda>q. (q, m)) (pref_markov_send_prefetches PC P proc_id lineAddr (q, m))
          else Some (q, m)))"

definition pref_markov_ul1_miss ::
    "pref_params \<Rightarrow> markov_params \<Rightarrow> uns8 \<Rightarrow> Addr \<Rightarrow> Addr \<Rightarrow> uns32 \<Rightarrow> pref_state \<times> markov_state \<Rightarrow>
     (pref_state \<times> markov_state) option" where
  "pref_markov_ul1_miss PC P proc_id lineAddr load_PC ghist = (\<lambda>(q, m).
     (case pref_markov_update_table PC P proc_id lineAddr True m of
        None \<Rightarrow> None
      | Some m \<Rightarrow> map_option (\<lambda>q. (q, m)) (pref_markov_send_prefetches PC P proc_id lineAddr (q, m))))"

section \<open>What the table learns\<close>

text \<open>Under LRU the successor just seen is at the front of its row, valid and counted.\<close>

lemma markov_front:
  assumes "row \<noteq> []"
  obtains e rest where "markov_row_update 0 tag cur row = e # rest" "mk_valid e" "mk_next_addr e = cur"
    "mk_tag e = tag" "0 < mk_count e" "length rest = length row - 1"
proof (cases "find_ix (\<lambda>e. \<not> mk_valid e \<or> (mk_next_addr e = cur \<and> mk_tag e = tag)) row")
  case None
  with assms show thesis by (intro that) (auto simp: markov_row_update_def markov_slot_def to_front_def)
next
  case (Some i)
  note s = find_ix_SomeD(1,2) [OF Some]
  show thesis
  proof (cases "mk_valid (row ! i)")
    case False
    with Some s(1) show thesis by (intro that) (auto simp: markov_row_update_def markov_slot_def to_front_def)
  next
    case True
    let ?c = "mk_count (row ! i)"
    let ?e = "(row ! i)\<lparr>mk_count := if ?c < MAX_CTR then ?c + 1 else ?c\<rparr>"
    have "0 < (if ?c < MAX_CTR then ?c + 1 else ?c)"
    proof (cases "?c < MAX_CTR")
      case lt: True
      have "unat (?c + 1) = Suc (unat ?c)" by (rule unat_inc [OF lt])
      with lt show ?thesis by (simp add: word_less_nat_alt)
    next
      case False
      then show ?thesis by (auto simp: MAX_CTR_def not_less intro: order.strict_trans2 [rotated])
    qed
    with True s have e: "mk_valid ?e" "mk_next_addr ?e = cur" "mk_tag ?e = tag" "0 < mk_count ?e" by auto
    have "markov_row_update 0 tag cur row = ?e # take i (row[i := ?e]) @ drop (Suc i) (row[i := ?e])"
      using Some True s(1) by (simp add: markov_row_update_def markov_slot_def to_front_def)
    then show thesis by (rule that [OF _ e]) (use s(1) in simp)
  qed
qed

lemma markov_targets_front:
  "mk_valid e \<Longrightarrow> mk_tag e = miss \<Longrightarrow> ucast (PREF_MARKOV_SEND_THRESHOLD P) < mk_count e \<Longrightarrow>
     markov_targets PC P miss (e # rest) =
       drop_bit (LOG2 (L1_LINE_SIZE PC)) (mk_next_addr e) # markov_targets PC P miss rest"
  by (simp add: markov_targets_def)

end
