(* ===== verification/Pref_Phase.thy ===== *)
theory Pref_Phase
  imports Pref_Queue
begin

text \<open>
  The phase prefetcher, \<^verbatim>\<open>prefetcher/pref_phase.c\<close>. It records, per phase, the lines missed in the
  tracked regions, and replays the record when the phase comes back. \<open>None\<close> is an access outside an
  array or a division by zero. The retired-instruction count \<^verbatim>\<open>inst_count[0]\<close> is an argument, and so is
  the test \<open>below diffnum missnum\<close> that stands for the single-precision comparison
  \<^verbatim>\<open>(1.0 * diffnum) / (1.0 * missnum) < PREF_PHASE_MISSPER\<close>. The study output file is left out.
\<close>

section \<open>Data\<close>

record phase_params =
  PREF_PHASE_ON :: bool
  PREF_PHASE_PRIME_HASH :: uns
  PREF_PHASE_INFOSIZE :: uns
  PREF_PHASE_LOG2REGIONSIZE :: uns
  PREF_PHASE_REGIONENTRIES :: uns
  PREF_PHASE_TRACKEDREGIONS :: uns
  PREF_PHASE_INTERVAL :: uns
  PREF_PHASE_TABLE_SIZE :: uns
  PREF_PHASE_MAXDIFF_THRESH :: uns
  PREF_PHASE_MIN_MISSES :: uns

definition MAX_PREF_PHASE_REGIONENTRIES :: nat where
  "MAX_PREF_PHASE_REGIONENTRIES = 64"

record Phase_Region =
  ph_PageNumber :: Addr
  ph_RegionMemAccess :: "bool list"
  ph_last_access :: Counter
  ph_valid :: bool

record PhaseInfoEntry =
  pi_MemAccess :: "bool list"
  pi_mapped_regions :: "Phase_Region list"
  pi_last_access :: Counter
  pi_valid :: bool

record Pref_PHASE =
  phase_hwp_id :: uns8
  phase_table :: "PhaseInfoEntry list"
  interval_start :: Counter
  curr_phaseid :: uns
  phase_MemAccess :: "bool list"
  phase_mapped_regions :: "Phase_Region list"
  currsent_regid :: uns
  currsent_regid_offset :: uns
  num_misses :: Counter

definition zero_phase_region :: Phase_Region where
  "zero_phase_region = \<lparr>ph_PageNumber = 0, ph_RegionMemAccess = replicate MAX_PREF_PHASE_REGIONENTRIES False,
     ph_last_access = 0, ph_valid = False\<rparr>"

definition zero_regions :: "phase_params \<Rightarrow> Phase_Region list" where
  "zero_regions P = replicate (unat (PREF_PHASE_TRACKEDREGIONS P)) zero_phase_region"

definition zero_accesses :: "phase_params \<Rightarrow> bool list" where
  "zero_accesses P = replicate (unat (PREF_PHASE_INFOSIZE P)) False"

text \<open>
  The structure comes from \<^verbatim>\<open>malloc\<close>: \<^verbatim>\<open>currsent_regid\<close> and its offset, which the initialisation does not
  set, hold what the memory \<open>u\<close> held.
\<close>

definition pref_phase_init ::
    "phase_params \<Rightarrow> nat \<Rightarrow> Pref_PHASE \<Rightarrow> pref_state \<times> Pref_PHASE \<Rightarrow> (pref_state \<times> Pref_PHASE) option" where
  "pref_phase_init P ii u = (\<lambda>(q, s).
     (if \<not> PREF_PHASE_ON P then Some (q, s)
      else if \<not> unat (PREF_PHASE_REGIONENTRIES P) \<le> MAX_PREF_PHASE_REGIONENTRIES then None
      else Some (upd_info (of_nat ii) (\<lambda>h. h\<lparr>hwp_enabled := True\<rparr>) q,
        \<lparr>phase_hwp_id = hwp_id (hwp_infos q ! ii),
         phase_table = replicate (unat (PREF_PHASE_TABLE_SIZE P))
           \<lparr>pi_MemAccess = zero_accesses P, pi_mapped_regions = zero_regions P, pi_last_access = 0, pi_valid = False\<rparr>,
         interval_start = 0, curr_phaseid = 0, phase_MemAccess = zero_accesses P,
         phase_mapped_regions = zero_regions P, currsent_regid = currsent_regid u,
         currsent_regid_offset = currsent_regid_offset u, num_misses = 0\<rparr>)))"

section \<open>Recording\<close>

definition PAGENUM :: "phase_params \<Rightarrow> Addr \<Rightarrow> Addr" where
  "PAGENUM P x = drop_bit (unat (PREF_PHASE_LOG2REGIONSIZE P)) x"

text \<open>
  The slot search shared by the two tables: the first match; otherwise the last invalid slot, or the
  oldest one.
\<close>

fun oldest_slot :: "('a \<Rightarrow> bool) \<Rightarrow> ('a \<Rightarrow> bool) \<Rightarrow> ('a \<Rightarrow> Counter) \<Rightarrow> nat \<Rightarrow> (nat \<times> 'a) option \<Rightarrow> 'a list \<Rightarrow> (bool \<times> nat) option" where
  "oldest_slot m v t ii cur [] = map_option (\<lambda>(i, e). (False, i)) cur"
| "oldest_slot m v t ii cur (e # es) =
     (if v e \<and> m e then Some (True, ii)
      else oldest_slot m v t (Suc ii)
        (case cur of
           None \<Rightarrow> Some (ii, e)
         | Some (i, x) \<Rightarrow> if \<not> v e then Some (ii, e) else if v x \<and> t e < t x then Some (ii, e) else Some (i, x)) es)"

lemma oldest_slot_bound:
  "oldest_slot m v t ii cur es = Some (b, i) \<Longrightarrow> case cur of None \<Rightarrow> True | Some (j, _) \<Rightarrow> j < ii \<Longrightarrow> i < ii + length es"
  by (induction m v t ii cur es rule: oldest_slot.induct) (fastforce split: if_splits option.splits prod.splits)+

definition pref_phase_updateregioninfo ::
    "pref_params \<Rightarrow> phase_params \<Rightarrow> Counter \<Rightarrow> Addr \<Rightarrow> Phase_Region list \<Rightarrow> Phase_Region list option" where
  "pref_phase_updateregioninfo PC P now lineAddr regions =
     (let pagenum = PAGENUM P lineAddr; lg = LOG2 (DCACHE_LINE_SIZE PC);
          region_offset = unat (drop_bit lg lineAddr AND N_BIT_MASK (unat (PREF_PHASE_LOG2REGIONSIZE P) - lg))
      in case oldest_slot (\<lambda>r. ph_PageNumber r = pagenum) ph_valid ph_last_access 0 None regions of
           None \<Rightarrow> None
         | Some (_, i) \<Rightarrow>
             let r = regions ! i;
                 acc = (if \<not> ph_valid r \<or> ph_PageNumber r \<noteq> pagenum
                        then replicate (unat (PREF_PHASE_REGIONENTRIES P)) False @
                             drop (unat (PREF_PHASE_REGIONENTRIES P)) (ph_RegionMemAccess r)
                        else ph_RegionMemAccess r)
             in if region_offset < MAX_PREF_PHASE_REGIONENTRIES
                then Some (regions[i := \<lparr>ph_PageNumber = pagenum, ph_RegionMemAccess = acc[region_offset := True],
                             ph_last_access = now, ph_valid = True\<rparr>])
                else None)"

lemma phase_record_obtain:
  assumes "pref_phase_updateregioninfo PC P now x regions = Some regions'"
    and "list_all (\<lambda>r. length (ph_RegionMemAccess r) = MAX_PREF_PHASE_REGIONENTRIES) regions"
    and "unat (PREF_PHASE_REGIONENTRIES P) \<le> MAX_PREF_PHASE_REGIONENTRIES"
  obtains i acc off where "i < length regions" "length acc = MAX_PREF_PHASE_REGIONENTRIES"
    "off < MAX_PREF_PHASE_REGIONENTRIES"
    "off = unat (drop_bit (LOG2 (DCACHE_LINE_SIZE PC)) x AND
       mask (unat (PREF_PHASE_LOG2REGIONSIZE P) - LOG2 (DCACHE_LINE_SIZE PC)))"
    "regions' = regions[i := \<lparr>ph_PageNumber = PAGENUM P x, ph_RegionMemAccess = acc[off := True],
       ph_last_access = now, ph_valid = True\<rparr>]"
proof -
  define off where "off = unat (drop_bit (LOG2 (DCACHE_LINE_SIZE PC)) x AND
    mask (unat (PREF_PHASE_LOG2REGIONSIZE P) - LOG2 (DCACHE_LINE_SIZE PC)))"
  let ?n = "unat (PREF_PHASE_REGIONENTRIES P)"
  obtain b i where i: "oldest_slot (\<lambda>r. ph_PageNumber r = PAGENUM P x) ph_valid ph_last_access 0 None regions = Some (b, i)"
    using assms(1) by (auto simp: pref_phase_updateregioninfo_def Let_def split: option.splits)
  have il: "i < length regions" using oldest_slot_bound [OF i] by simp
  define acc where "acc = (if \<not> ph_valid (regions ! i) \<or> ph_PageNumber (regions ! i) \<noteq> PAGENUM P x
    then replicate ?n False @ drop ?n (ph_RegionMemAccess (regions ! i)) else ph_RegionMemAccess (regions ! i))"
  have "length acc = MAX_PREF_PHASE_REGIONENTRIES"
    using assms(2,3) il by (simp add: acc_def list_all_length)
  moreover have "off < MAX_PREF_PHASE_REGIONENTRIES \<and> regions' = regions[i := \<lparr>ph_PageNumber = PAGENUM P x,
      ph_RegionMemAccess = acc[off := True], ph_last_access = now, ph_valid = True\<rparr>]"
    using assms(1) i by (auto simp: pref_phase_updateregioninfo_def Let_def off_def acc_def split: if_splits)
  ultimately show thesis using il by (intro that) (auto simp: off_def)
qed

section \<open>Changing the phase\<close>

definition phase_diff :: "bool list \<Rightarrow> bool list \<Rightarrow> nat" where
  "phase_diff xs ys = length (filter (\<lambda>(x, y). x \<noteq> y) (zip xs ys))"

definition phase_matches :: "phase_params \<Rightarrow> (nat \<Rightarrow> nat \<Rightarrow> bool) \<Rightarrow> bool list \<Rightarrow> PhaseInfoEntry \<Rightarrow> bool" where
  "phase_matches P below acc e \<longleftrightarrow>
     phase_diff acc (pi_MemAccess e) < unat (PREF_PHASE_MAXDIFF_THRESH P) \<and>
     below (phase_diff acc (pi_MemAccess e)) (length (filter id acc))"

definition pref_phase_computenextphase ::
    "phase_params \<Rightarrow> (nat \<Rightarrow> nat \<Rightarrow> bool) \<Rightarrow> Pref_PHASE \<Rightarrow> (nat \<times> Pref_PHASE) option" where
  "pref_phase_computenextphase P below s =
     (case oldest_slot (phase_matches P below (phase_MemAccess s)) pi_valid pi_last_access 0 None (phase_table s) of
        None \<Rightarrow> None
      | Some (True, i) \<Rightarrow> Some (i, s)
      | Some (False, i) \<Rightarrow>
          Some (i, s\<lparr>phase_table := (phase_table s)[i := (phase_table s ! i)\<lparr>pi_valid := False\<rparr>]\<rparr>))"

text \<open>
  The swaps of the pattern and region arrays: the current pattern is kept in the next phase's entry,
  the current regions in the entry of the phase that ends, and the arrays they replace are cleared.
\<close>

definition phase_switch :: "phase_params \<Rightarrow> Counter \<Rightarrow> nat \<Rightarrow> Pref_PHASE \<Rightarrow> Pref_PHASE option" where
  "phase_switch P now next s =
     (let cur = unat (curr_phaseid s)
      in if \<not> cur < length (phase_table s) \<or> \<not> next < length (phase_table s) then None
         else
           let t = phase_table s;
               t = t[next := (t ! next)\<lparr>pi_MemAccess := phase_MemAccess s\<rparr>];
               t = t[cur := (t ! cur)\<lparr>pi_mapped_regions := phase_mapped_regions s\<rparr>];
               t = (if \<not> pi_valid (t ! next)
                    then t[next := (t ! next)\<lparr>pi_valid := True, pi_mapped_regions := zero_regions P\<rparr>] else t);
               t = t[next := (t ! next)\<lparr>pi_last_access := now\<rparr>]
           in Some (s\<lparr>phase_table := t, phase_MemAccess := zero_accesses P, phase_mapped_regions := zero_regions P,
                      curr_phaseid := of_nat next, currsent_regid := 0, currsent_regid_offset := 0\<rparr>))"

section \<open>Sending\<close>

text \<open>
  The inner loop over the lines of a region: the offset it stops at, and whether the queue refused a
  line. An offset beyond the array is \<open>None\<close>.
\<close>

fun phase_send_region ::
    "pref_params \<Rightarrow> uns8 \<Rightarrow> Addr \<Rightarrow> bool list \<Rightarrow> nat \<Rightarrow> nat \<Rightarrow> pref_state \<Rightarrow> (nat \<times> bool \<times> pref_state) option" where
  "phase_send_region PC hid start acc off 0 q = Some (off, False, q)"
| "phase_send_region PC hid start acc off (Suc n) q =
     (if \<not> off < length acc then None
      else if acc ! off then
        let (ok, q) = pref_addto_ul1req_queue PC 0 (start + of_nat off) hid q
        in if ok then phase_send_region PC hid start acc (Suc off) n q else Some (off, True, q)
      else phase_send_region PC hid start acc (Suc off) n q)"

text \<open>
  The outer loop, with \<open>n\<close> iterations left: its bound is \<^verbatim>\<open>PREF_PHASE_REGIONENTRIES\<close>, the number of
  lines in a region, while the array has \<^verbatim>\<open>PREF_PHASE_TRACKEDREGIONS\<close> elements.
\<close>

fun phase_send ::
    "pref_params \<Rightarrow> phase_params \<Rightarrow> Phase_Region list \<Rightarrow> uns8 \<Rightarrow> nat \<Rightarrow> nat \<Rightarrow> nat \<Rightarrow> pref_state \<Rightarrow>
     (nat \<times> nat \<times> pref_state) option" where
  "phase_send PC P regions hid 0 regid off q = Some (regid, off, q)"
| "phase_send PC P regions hid (Suc n) regid off q =
     (if \<not> regid < length regions then None
      else
        let region = regions ! regid;
            start = push_bit (unat (PREF_PHASE_LOG2REGIONSIZE P) - LOG2 (DCACHE_LINE_SIZE PC)) (ph_PageNumber region)
        in if ph_valid region then
             (case phase_send_region PC hid start (ph_RegionMemAccess region) off
                     (unat (PREF_PHASE_REGIONENTRIES P) - off) q of
                None \<Rightarrow> None
              | Some (off, True, q) \<Rightarrow> Some (regid, off, q)
              | Some (off, False, q) \<Rightarrow> phase_send PC P regions hid n (Suc regid) 0 q)
           else phase_send PC P regions hid n (Suc regid) 0 q)"

definition pref_phase_ul1_train ::
    "pref_params \<Rightarrow> phase_params \<Rightarrow> (nat \<Rightarrow> nat \<Rightarrow> bool) \<Rightarrow> Counter \<Rightarrow> Addr \<Rightarrow> pref_state \<times> Pref_PHASE \<Rightarrow>
     (pref_state \<times> Pref_PHASE) option" where
  "pref_phase_ul1_train PC P below inst lineAddr = (\<lambda>(q, s).
     (let lineIndex = drop_bit (LOG2 (DCACHE_LINE_SIZE PC)) lineAddr; now = cycle_count q
      in if PREF_PHASE_PRIME_HASH P = 0 then None
         else
           let hashIndex = unat (lineIndex mod ucast (PREF_PHASE_PRIME_HASH P))
           in if \<not> hashIndex < length (phase_MemAccess s) then None
              else case pref_phase_updateregioninfo PC P now lineIndex (phase_mapped_regions s) of
                None \<Rightarrow> None
              | Some regions \<Rightarrow>
                  let s = s\<lparr>phase_MemAccess := (phase_MemAccess s)[hashIndex := True],
                            phase_mapped_regions := regions, num_misses := num_misses s + 1\<rparr>;
                      s' = (if ucast (PREF_PHASE_INTERVAL P) < inst - interval_start s then
                              let s = s\<lparr>interval_start := inst\<rparr>
                              in if ucast (PREF_PHASE_MIN_MISSES P) < num_misses s then
                                   (case pref_phase_computenextphase P below (s\<lparr>num_misses := 0\<rparr>) of
                                      None \<Rightarrow> None
                                    | Some (next, s) \<Rightarrow> phase_switch P now next s)
                                 else Some s
                            else Some s)
                  in case s' of
                       None \<Rightarrow> None
                     | Some s \<Rightarrow>
                         if \<not> unat (curr_phaseid s) < length (phase_table s) then None
                         else map_option (\<lambda>(regid, off, q). (q, s\<lparr>currsent_regid := of_nat regid, currsent_regid_offset := of_nat off\<rparr>))
                           (phase_send PC P (pi_mapped_regions (phase_table s ! unat (curr_phaseid s))) (phase_hwp_id s)
                             (unat (PREF_PHASE_REGIONENTRIES P) - unat (currsent_regid s))
                             (unat (currsent_regid s)) (unat (currsent_regid_offset s)) q)))"

definition pref_phase_ul1_hit ::
    "uns8 \<Rightarrow> Addr \<Rightarrow> Addr \<Rightarrow> uns32 \<Rightarrow> pref_state \<times> Pref_PHASE \<Rightarrow> (pref_state \<times> Pref_PHASE) option" where
  "pref_phase_ul1_hit proc_id lineAddr loadPC ghist = Some"

definition pref_phase_ul1_prefhit ::
    "pref_params \<Rightarrow> phase_params \<Rightarrow> (nat \<Rightarrow> nat \<Rightarrow> bool) \<Rightarrow> Counter \<Rightarrow> uns8 \<Rightarrow> Addr \<Rightarrow> Addr \<Rightarrow> uns32 \<Rightarrow>
     pref_state \<times> Pref_PHASE \<Rightarrow> (pref_state \<times> Pref_PHASE) option" where
  "pref_phase_ul1_prefhit PC P below inst proc_id lineAddr loadPC ghist = pref_phase_ul1_train PC P below inst lineAddr"

definition pref_phase_ul1_miss ::
    "pref_params \<Rightarrow> phase_params \<Rightarrow> (nat \<Rightarrow> nat \<Rightarrow> bool) \<Rightarrow> Counter \<Rightarrow> uns8 \<Rightarrow> Addr \<Rightarrow> Addr \<Rightarrow> uns32 \<Rightarrow>
     pref_state \<times> Pref_PHASE \<Rightarrow> (pref_state \<times> Pref_PHASE) option" where
  "pref_phase_ul1_miss PC P below inst proc_id lineAddr loadPC ghist = pref_phase_ul1_train PC P below inst lineAddr"

end
