(* ===== verification/Pref_Other_Props.thy ===== *)
theory Pref_Other_Props
  imports Pref_Small Pref_Update Cache_Props Pref_Stride Pref_StridePC Pref_Markov Pref_Phase
begin

text \<open>
  Properties of the request queues and of the prefetchers beside the SPP: the region stride, PC stride,
  Markov and phase prefetchers.
\<close>

section \<open>Small configurations\<close>

definition stride_small :: stride_params where
  "stride_small = \<lparr>PREF_STRIDE_ON = True, PREF_STRIDE_TABLE_N = 2, PREF_STRIDE_REGION_BITS = 16,
     PREF_STRIDE_DEGREE = 2, PREF_STRIDE_DISTANCE = 4, PREF_STRIDE_STARTDISTANCE = 1,
     PREF_STRIDE_SINGLE_THRESH = 2, PREF_STRIDE_MULTI_THRESH = 8, PREF_STRIDE_SINGLE_STRIDE_MODE = False\<rparr>"

definition stride_0 :: Pref_Stride where
  "stride_0 = \<lparr>stride_hwp_id = 0, region_table = [zero_region, zero_region], index_table = [zero_index, zero_index]\<rparr>"

definition stridepc_small :: stridepc_params where
  "stridepc_small = \<lparr>PREF_STRIDEPC_ON = True, PREF_STRIDEPC_TABLE_N = 2, PREF_STRIDEPC_DEGREE = 2,
     PREF_STRIDEPC_DISTANCE = 4, PREF_STRIDEPC_USELOADADDR = False, PREF_STRIDEPC_TRAINNUM = 2,
     PREF_STRIDEPC_STARTDIS = 1\<rparr>"

text \<open>An entry that has seen line 100 and one stride of -2.\<close>

definition pc_seen_once :: StridePC_Table_Entry where
  "pc_seen_once = zero_pc\<lparr>pc_valid := True, pc_load_addr := 40, pc_last_addr := 100, pc_stride := - 2, pc_train_num := 1\<rparr>"

definition markov_small :: markov_params where
  "markov_small = \<lparr>PREF_MARKOV_ON = True, PREF_MARKOV_NUM_ENTRIES = 4, PREF_MARKOV_NUM_NEXT_STATES = 2,
     PREF_MARKOV_SEND_ON_PREF_HIT = False, PREF_MARKOV_UPDATE_ON_PREF_HIT = False,
     PREF_MARKOV_TABLE_UPDATE_POLICY = 0, PREF_MARKOV_SEND_THRESHOLD = 0\<rparr>"

definition markov_0 :: markov_state where
  "markov_0 = \<lparr>markov_hwp_core = [\<lparr>mk_hwp_id = 0, markov_table = [[zero_mk, zero_mk], [zero_mk, zero_mk], [zero_mk, zero_mk], [zero_mk, zero_mk]]\<rparr>],
     last_miss_addr_core = [4096]\<rparr>"

definition phase_small :: phase_params where
  "phase_small = \<lparr>PREF_PHASE_ON = True, PREF_PHASE_PRIME_HASH = 13, PREF_PHASE_INFOSIZE = 16,
     PREF_PHASE_LOG2REGIONSIZE = 12, PREF_PHASE_REGIONENTRIES = 64, PREF_PHASE_TRACKEDREGIONS = 2,
     PREF_PHASE_INTERVAL = 1000, PREF_PHASE_TABLE_SIZE = 2, PREF_PHASE_MAXDIFF_THRESH = 4, PREF_PHASE_MIN_MISSES = 10\<rparr>"

definition phase_0 :: Pref_PHASE where
  "phase_0 = \<lparr>phase_hwp_id = 0, phase_table = replicate 2
       \<lparr>pi_MemAccess = zero_accesses phase_small, pi_mapped_regions = zero_regions phase_small, pi_last_access = 0, pi_valid = False\<rparr>,
     interval_start = 0, curr_phaseid = 0, phase_MemAccess = zero_accesses phase_small,
     phase_mapped_regions = zero_regions phase_small, currsent_regid = 0, currsent_regid_offset = 0, num_misses = 0\<rparr>"

lemma replicate_two [simp]: "replicate 2 x = [x, x]"
  by (simp add: numeral_2_eq_2)

lemma find_ix_put: "find_ix R xs = Some i \<Longrightarrow> R y \<Longrightarrow> find_ix R (xs[i := y]) = Some i"
  by (auto simp: find_ix_Some nth_list_update)

section \<open>The request queues\<close>

text \<open>C36: However many lines a prefetcher offers in a row, the UL1 queue keeps its size, every entry it
  holds afterwards was there before or is a valid request for one of the lines offered, and, unless
  the queue overwrites when it is full, no valid request is lost.\<close>

theorem ul1_offers_keep_queue:
  assumes "queue_inv P p q"
    and "q' = fold (\<lambda>a q. snd (pref_addto_ul1req_queue_set P p a i d pc gh bw q)) as q"
  shows "queue_inv P p q' \<and> length (ul1req_queue (the_core P p q')) = length (ul1req_queue (the_core P p q)) \<and>
    (\<forall>r \<in> set (ul1req_queue (the_core P p q')). r \<in> set (ul1req_queue (the_core P p q)) \<or>
       (pmr_valid r \<and> pmr_line_index r \<in> set as)) \<and>
    (\<not> PREF_UL1REQ_QUEUE_OVERWRITE_ON_FULL P \<longrightarrow>
       (\<forall>r \<in> set (ul1req_queue (the_core P p q)). pmr_valid r \<longrightarrow> r \<in> set (ul1req_queue (the_core P p q'))))"
proof -
  have "q' = ul1q.add_all P p i d pc gh bw as q" by (simp add: assms(2) ul1q.add_all_def)
  with assms(1) show ?thesis
    using ul1q.add_all_inv ul1q.add_all_length ul1q.add_all_only ul1q.add_all_keeps by metis
qed

theorem ul1_offers_keep_queue_witness:
  "queue_inv pref_small 0 (fold (\<lambda>a q. snd (pref_addto_ul1req_queue_set pref_small 0 a 0 0 0 0 False q)) [7, 8, 9] pref_full)"
  by (rule conjunct1 [OF ul1_offers_keep_queue [OF _ refl]]) simp

text \<open>A cycle's worth of scheduling: one request of each queue, into a memory that logs what it accepts.\<close>

definition update_small :: update_params where
  "update_small = \<lparr>PREF_DL0SCHEDULE_NUM = 1, PREF_UMLC_SCHEDULE_NUM = 1, PREF_UL1SCHEDULE_NUM = 2, PREF_REQ_DROP = False,
     PREF_L1Q_DEMAND_RESERVE = 0, MEM_REQ_BUFFER_ENTRIES = 32, PREF_HFILTER_RESET_ENABLE = False,
     PREF_HFILTER_RESET_INTERVAL = 100000, DCACHE_BANKS = 1\<rparr>"

definition mem_log :: "Addr list mem_system" where
  "mem_log = \<lparr>model_mem = True, mem_get_req_count = (\<lambda>_ _. 0), new_mem_req = (\<lambda>r _ m. (True, m @ [pmr_line_index r]))\<rparr>"

definition dl0_full :: pref_state where
  "dl0_full = pref_0\<lparr>cores_array := [(pref_core_init pref_small)\<lparr>dl0req_queue :=
     [zero_req\<lparr>pmr_valid := True, pmr_line_index := 1, pmr_line_addr := 64\<rparr>,
      zero_req\<lparr>pmr_valid := True, pmr_line_index := 2, pmr_line_addr := 128\<rparr>]\<rparr>]\<rparr>"

definition stages_small :: dc_stages where
  "stages_small = \<lparr>dc_caches = [cache_ex REPL_LOW_PREF 0 row_ex []], dc_ports = [[init_ports [] 1 1 False]], dc_heap = heap_ex\<rparr>"

text \<open>C38: A request for the L1 data cache is never taken out of its queue: no update changes the entries. So
  when every slot has been used and \<^verbatim>\<open>PREF_DL0REQ_QUEUE_OVERWRITE_ON_FULL\<close> is off, as by default, the queue takes
  in no request after an update: the answer is TRUE only for what needs no slot (line 0, or, with
  \<^verbatim>\<open>PREF_DL0REQ_ADD_FILTER_ON\<close>, a line that is in the queue already) and FALSE for every other line, and
  the queue stays as it is.\<close>

theorem dl0_requests_never_leave:
  assumes "pref_update PC U E M (q, d, m) = Some (q', d', m')"
    and "length (dl0req_queue (the_core PC p q)) = unat (PREF_DL0REQ_QUEUE_SIZE PC)" "0 < PREF_DL0REQ_QUEUE_SIZE PC"
  shows "dl0req_queue (the_core PC p q') = dl0req_queue (the_core PC p q) \<and>
    (list_all pmr_valid (dl0req_queue (the_core PC p q)) \<and> \<not> PREF_DL0REQ_QUEUE_OVERWRITE_ON_FULL PC \<longrightarrow>
       pref_addto_dl0req_queue PC p li i q' =
         (li = 0 \<or> PREF_DL0REQ_ADD_FILTER_ON PC \<and> queue_has_index (dl0req_queue (the_core PC p q)) li, q'))"
proof -
  note same = pref_update_dl0 [OF assms(1), of p]
  moreover have "ring_full (dl0req_queue (the_core PC p q)) pos (PREF_DL0REQ_QUEUE_SIZE PC)"
    if "list_all pmr_valid (dl0req_queue (the_core PC p q))" for pos
    using that ring_next_nat [OF assms(3), of pos] assms(2) by (simp add: ring_full_def list_all_length)
  ultimately show ?thesis by (simp add: pref_addto_dl0req_queue_def Let_def)
qed

theorem dl0_requests_never_leave_witness:
  "\<exists>q' d' m'. pref_update pref_small update_small env_ex mem_log (dl0_full, stages_small, []) = Some (q', d', m') \<and>
    pref_addto_dl0req_queue pref_small 0 3 1 q' = (False, q')"
proof -
  have "\<not> Option.is_none (pref_update pref_small update_small env_ex mem_log (dl0_full, stages_small, []))" by code_simp
  then obtain q' d' m' where r: "pref_update pref_small update_small env_ex mem_log (dl0_full, stages_small, []) = Some (q', d', m')"
    by (auto simp: Option.is_none_def)
  have full: "length (dl0req_queue (the_core pref_small 0 dl0_full)) = unat (PREF_DL0REQ_QUEUE_SIZE pref_small)"
    "0 < PREF_DL0REQ_QUEUE_SIZE pref_small" "list_all pmr_valid (dl0req_queue (the_core pref_small 0 dl0_full))"
    "\<not> PREF_DL0REQ_QUEUE_OVERWRITE_ON_FULL pref_small" "\<not> PREF_DL0REQ_ADD_FILTER_ON pref_small"
    by (simp_all add: dl0_full_def the_core_def core_ix_def pref_0_def pref_small_def)
  show ?thesis using r dl0_requests_never_leave [OF r full(1,2), of 3 1] full(3-) by auto
qed

text \<open>C39: When the memory system accepts requests, one update sends every valid request among the next
  \<^verbatim>\<open>PREF_UL1SCHEDULE_NUM\<close> slots of the UL1 queue, in the order of the ring and each exactly once, and frees
  those slots; with a schedule number of the queue's size no request stays.\<close>

theorem ul1_drain_delivers:
  assumes "accepting U M DEST_L1" "Pref_Common.core_ok PC p" "wf_pref PC q" "n = unat (PREF_UL1SCHEDULE_NUM U)"
    and "n \<le> unat (PREF_UL1REQ_QUEUE_SIZE PC)" "unat (PREF_UL1REQ_QUEUE_SIZE PC) < 2 ^ 31"
    and "pos = ul1req_queue_send_pos (the_core PC p q)" "pos < PREF_UL1REQ_QUEUE_SIZE PC"
    and "list_all own_address (ul1req_queue (the_core PC p q))"
  shows "\<exists>q'. ul1_drain PC U M p (q, m) = Some (q', fold (\<lambda>r m. snd (new_mem_req M r DEST_L1 m))
        (filter pmr_valid (take n (rotate (unat pos) (ul1req_queue (the_core PC p q))))) m) \<and>
    list_all (\<lambda>r. \<not> pmr_valid r) (take n (rotate (unat pos) (ul1req_queue (the_core PC p q')))) \<and>
    length (ul1req_queue (the_core PC p q')) = unat (PREF_UL1REQ_QUEUE_SIZE PC)"
proof -
  let ?rs = "ul1req_queue (the_core PC p q)"
  have len: "length ?rs = unat (PREF_UL1REQ_QUEUE_SIZE PC)" and ix: "core_ix PC p < length (cores_array q)"
    using wf_pref_core [OF assms(3,2)] assms(2,3) by (auto simp: wf_core_def wf_pref_def)
  obtain rs' pos' where r: "ring_drain U M DEST_L1 (PREF_UL1REQ_QUEUE_SIZE PC) n (?rs, pos, m) =
      Some (rs', pos', fold (\<lambda>r m. snd (new_mem_req M r DEST_L1 m)) (filter pmr_valid (ring_slots (unat pos) n ?rs)) m)"
    "list_all (\<lambda>r. \<not> pmr_valid r) (ring_slots (unat pos) n rs')" "length rs' = unat (PREF_UL1REQ_QUEUE_SIZE PC)"
    using ring_drain_accepting [OF assms(1,6) len assms(8,5,9), of m] by blast
  have "ul1_drain PC U M p (q, m) = Some (upd_core PC p (\<lambda>c. c\<lparr>ul1req_queue := rs', ul1req_queue_send_pos := pos'\<rparr>) q,
      fold (\<lambda>r m. snd (new_mem_req M r DEST_L1 m)) (filter pmr_valid (ring_slots (unat pos) n ?rs)) m)"
    using r(1) assms(4,7) by (simp add: ul1_drain_def Let_def)
  then show ?thesis using r(2,3) ix len assms(5) by (simp add: ring_slots_rotate)
qed

theorem ul1_drain_delivers_witness:
  "\<exists>q'. ul1_drain pref_small update_small mem_log 0 (pref_full, []) = Some (q', [1, 2]) \<and>
    list_all (\<lambda>r. \<not> pmr_valid r) (ul1req_queue (the_core pref_small 0 q'))"
proof -
  have q: "ul1req_queue (the_core pref_small 0 pref_full) =
      [zero_req\<lparr>pmr_valid := True, pmr_line_index := 1\<rparr>, zero_req\<lparr>pmr_valid := True, pmr_line_index := 2\<rparr>]"
    "ul1req_queue_send_pos (the_core pref_small 0 pref_full) = 0"
    by (simp_all add: pref_full_def the_core_def core_ix_def pref_0_def pref_core_init_def pref_small_def)
  have acc: "accepting update_small mem_log DEST_L1" by (simp add: accepting_def mem_log_def no_buffer_def update_small_def)
  have "\<exists>q'. ul1_drain pref_small update_small mem_log 0 (pref_full, []) = Some (q', fold (\<lambda>r m. snd (new_mem_req mem_log r DEST_L1 m))
        (filter pmr_valid (take 2 (rotate (unat (0 :: cint)) (ul1req_queue (the_core pref_small 0 pref_full))))) []) \<and>
    list_all (\<lambda>r. \<not> pmr_valid r) (take 2 (rotate (unat (0 :: cint)) (ul1req_queue (the_core pref_small 0 q')))) \<and>
    length (ul1req_queue (the_core pref_small 0 q')) = unat (PREF_UL1REQ_QUEUE_SIZE pref_small)"
    by (rule ul1_drain_delivers [OF acc]) (simp_all add: q own_address_def zero_req_def, simp_all add: update_small_def pref_small_def)
  then obtain q' where d: "ul1_drain pref_small update_small mem_log 0 (pref_full, []) = Some (q', [1, 2])"
    "list_all (\<lambda>r. \<not> pmr_valid r) (take 2 (ul1req_queue (the_core pref_small 0 q')))"
    "length (ul1req_queue (the_core pref_small 0 q')) = unat (PREF_UL1REQ_QUEUE_SIZE pref_small)"
    by (auto simp: q mem_log_def zero_req_def)
  then show ?thesis by (auto simp: pref_small_def)
qed

section \<open>The region stride prefetcher\<close>

text \<open>C37: With a table of at least one entry, training on any access returns (no access outside the region
  and index tables or the two-element stride arrays), and keeps the tables' shape and the two state
  numbers in range.\<close>

theorem stride_tables_in_bounds:
  assumes "stride_inv P s"
  shows "\<exists>q' s'. pref_stride_ul1_train PC P a hit (q, s) = Some (q', s') \<and> stride_inv P s'"
  by (rule stride_train_ok [OF assms]) blast

theorem stride_tables_in_bounds_witness:
  "\<exists>q' s'. pref_stride_ul1_train pref_small stride_small 4096 False (pref_0, stride_0) = Some (q', s') \<and> stride_inv stride_small s'"
  by (rule stride_tables_in_bounds)
    (simp add: stride_inv_def stride_small_def stride_0_def si_ok_def zero_index_def)

text \<open>When a descending stride reaches the single-stride threshold, the start of the prefetches is
  computed with an unsigned product: it is \<open>2 ^ 32\<close> lines above the position that many strides
  ahead of the access.\<close>

theorem stride_negative_start:
  assumes "si_ok e" "\<not> si_train_count_mode e" "si_curr_state e = 0" "si_stride e ! 0 = d" "d \<noteq> 0"
    and "PREF_STRIDE_SINGLE_THRESH P \<le> si_s_cnt e ! 0 + 1" "\<not> PREF_STRIDE_MULTI_THRESH P \<le> si_recnt e"
    and "sint (d * PREF_STRIDE_STARTDISTANCE P) < 0"
  shows "si_trained (stride_untrained_step P li d e) \<and>
    si_pref_last_index (stride_untrained_step P li d e) =
      si_last_index e + scast (d * PREF_STRIDE_STARTDISTANCE P) + 2 ^ 32"
proof -
  have "length (si_stride e) = 2" "length (si_s_cnt e) = 2" using assms(1) by (simp_all add: si_ok_def)
  then show ?thesis using assms(2-) ucast_negative [OF assms(8)]
    by (simp add: stride_untrained_step_def stride_capture_def stride_single_done_def stride_multi_done_def Let_def)
qed

theorem stride_negative_start_witness:
  "\<exists>e. si_trained e \<and> si_pref_last_index e = (1000 :: Addr) + scast (- 3 :: cint) + 2 ^ 32 \<and>
     e = stride_untrained_step stride_small 1000 (- 3)
           (zero_index\<lparr>si_num_states := 1, si_last_index := 1000, si_stride := [- 3, 0], si_s_cnt := [1, 0]\<rparr>)"
  using stride_negative_start [of "zero_index\<lparr>si_num_states := 1, si_last_index := 1000, si_stride := [- 3, 0],
      si_s_cnt := [1, 0]\<rparr>" "- 3" stride_small 1000]
  by (simp add: si_ok_def zero_index_def stride_small_def)

section \<open>The PC stride prefetcher\<close>

text \<open>A load that walks down with a constant stride never prefetches: the access that trains its entry
  puts the end of the prefetch window above its start, so the next access of the same stride finds the
  entry out of its window, makes it untrained again and asks for nothing.\<close>

theorem stridepc_descending_never_prefetches:
  assumes "loadPC \<noteq> 0" "find_ix (\<lambda>e. pc_load_addr e = loadPC \<and> pc_valid e) (stride_table s) = Some idx"
    and "e = stride_table s ! idx" "\<not> pc_trained e" "pc_stride e = d"
    and "pc_train_num e + 1 = ucast (PREF_STRIDEPC_TRAINNUM P)"
    and "pc_position PC P a = pos" "pos = pc_last_addr e + scast d" "pc_position PC P b = pos + scast d"
    and "sint d < 0" "nat (- sint d) \<le> unat pos" "unat pos + 2 ^ 32 \<le> 2 ^ 64"
  shows "\<exists>s1 s2. pref_stridepc_ul1_train PC P proc_id a loadPC hit (q, s) = Some (q, s1) \<and>
    pc_trained (stride_table s1 ! idx) \<and>
    pref_stridepc_ul1_train PC P proc_id b loadPC hit' (q, s1) = Some (q, s2) \<and> \<not> pc_trained (stride_table s2 ! idx)"
proof -
  note f = find_ix_SomeD(1,2) [OF assms(2)]
  have d: "d \<noteq> 0" "ucast (pos - pc_last_addr e) = d" "ucast (pos + scast d - pos) = d"
    using assms(8,10) by (auto simp: ucast_scast)
  define e1 where "e1 = (pc_untrained_step P pos d (e\<lparr>pc_last_access := cycle_count q\<rparr>))\<lparr>pc_last_addr := pos\<rparr>"
  define s1 where "s1 = s\<lparr>stride_table := (stride_table s)[idx := e1]\<rparr>"
  have e1: "pc_trained e1" "pc_last_addr e1 = pos" "pc_load_addr e1 = loadPC" "pc_valid e1" "pc_stride e1 = d"
    "pc_start_index e1 = pos" "pc_pref_last_index e1 = pos + ucast (PREF_STRIDEPC_STARTDIS P * d)" "pc_pref_sent e1 = 0"
    using assms(3,5,6) f by (simp_all add: e1_def pc_untrained_trains)
  have 1: "pref_stridepc_ul1_train PC P proc_id a loadPC hit (q, s) = Some (q, s1)"
    using assms(1-4,7) d(1,2) by (simp add: pref_stridepc_ul1_train_def Let_def s1_def e1_def)
  have nth: "stride_table s1 ! idx = e1" "idx < length (stride_table s1)" using f by (simp_all add: s1_def)
  have ix: "find_ix (\<lambda>e. pc_load_addr e = loadPC \<and> pc_valid e) (stride_table s1) = Some idx"
    unfolding s1_def using assms(2) e1 by (simp add: find_ix_put)
  have out: "\<not> pc_in_window d (pos + scast d) (e1\<lparr>pc_last_access := cycle_count q\<rparr>)"
    by (rule pc_negative_retrains [where x = "PREF_STRIDEPC_STARTDIS P * d", OF _ _ assms(12,10,11)]) (simp_all add: e1)
  have rem: "c_rem_zero d d = Some True" using d(1) by (auto simp: c_rem_zero_def)
  have "pref_stridepc_ul1_train PC P proc_id b loadPC hit' (q, s1) = Some (q, s1\<lparr>stride_table := (stride_table s1)[idx :=
      e1\<lparr>pc_last_access := cycle_count q, pc_trained := False, pc_train_num := 1, pc_last_addr := pos + scast d\<rparr>]\<rparr>)"
    using assms(1,9) ix nth e1 d(3) out rem
    by (simp add: pref_stridepc_ul1_train_def Let_def pc_trained_step_def)
  with 1 nth e1(1) show ?thesis by auto
qed

theorem stridepc_descending_never_prefetches_witness:
  "\<exists>s1 s2. pref_stridepc_ul1_train pref_small stridepc_small 0 6272 40 False
      (pref_0, \<lparr>stridepc_hwp_id = 0, stride_table = [pc_seen_once, zero_pc]\<rparr>) = Some (pref_0, s1) \<and>
    pc_trained (stride_table s1 ! 0) \<and>
    pref_stridepc_ul1_train pref_small stridepc_small 0 6144 40 False (pref_0, s1) = Some (pref_0, s2) \<and>
    \<not> pc_trained (stride_table s2 ! 0)"
proof -
  have a: "pc_position pref_small stridepc_small 6272 = 98" "pc_position pref_small stridepc_small 6144 = 96"
    by (simp_all add: pc_position_def stridepc_small_def pref_small_def drop_bit_eq_div)
  show ?thesis
    by (rule stridepc_descending_never_prefetches [where d = "- 2" and pos = 98 and e = pc_seen_once])
      (simp_all add: a pc_seen_once_def zero_pc_def, simp add: stridepc_small_def)
qed

section \<open>The Markov prefetcher\<close>

text \<open>Under the LRU policy the prefetcher has learned, after a miss on \<open>cur\<close> that followed a miss on
  \<open>prev\<close>, that \<open>cur\<close> comes next: on the next miss on \<open>prev\<close> the first line it asks for is that of
  \<open>cur\<close>.\<close>

theorem markov_most_recent_first:
  assumes "PREF_MARKOV_TABLE_UPDATE_POLICY P = 0" "PREF_MARKOV_SEND_THRESHOLD P = 0"
    and "pref_markov_update_table PC P proc_id cur miss m = Some m'"
    and "prev = last_miss_addr_core m ! unat proc_id" "prev \<noteq> 0"
  shows "\<exists>lines. pref_markov_send_prefetches PC P proc_id prev (q, m') =
    Some (fold (\<lambda>a q. snd (pref_addto_ul1req_queue PC proc_id a (mk_hwp_id (markov_hwp_core m ! unat proc_id)) q))
      (drop_bit (LOG2 (L1_LINE_SIZE PC)) cur # lines) q)"
proof -
  let ?p = "unat proc_id"
  let ?hwp = "markov_hwp_core m ! ?p"
  let ?ti = "markov_index PC P prev"
  let ?row = "markov_table ?hwp ! ?ti"
  have g: "?p < length (markov_hwp_core m)" "PREF_MARKOV_NUM_ENTRIES P \<noteq> 0" "?ti < length (markov_table ?hwp)" "?row \<noteq> []"
    using assms(3-5) by (auto simp: pref_markov_update_table_def Let_def split: if_splits)
  obtain e rest where r: "markov_row_update 0 prev cur ?row = e # rest"
    and e: "mk_valid e" "mk_next_addr e = cur" "mk_tag e = prev" "0 < mk_count e"
    by (rule markov_front [OF g(4)])
  have m': "markov_hwp_core m' = (markov_hwp_core m)[?p := ?hwp\<lparr>markov_table := (markov_table ?hwp)[?ti := e # rest]\<rparr>]"
    using assms g r by (auto simp: pref_markov_update_table_def Let_def split: if_splits)
  show ?thesis using g m' markov_targets_front [OF e(1,3), of P PC rest] e assms(2)
    by (auto simp: pref_markov_send_prefetches_def Let_def)
qed

theorem markov_most_recent_first_witness:
  "\<exists>m'. pref_markov_update_table pref_small markov_small 0 8192 True markov_0 = Some m' \<and>
    (\<exists>lines. pref_markov_send_prefetches pref_small markov_small 0 4096 (pref_0, m') =
      Some (fold (\<lambda>a q. snd (pref_addto_ul1req_queue pref_small 0 a 0 q)) (128 # lines) pref_0))"
proof -
  have "pref_markov_update_table pref_small markov_small 0 8192 True markov_0 \<noteq> None"
    by (simp add: pref_markov_update_table_def markov_small_def markov_0_def markov_index_def pref_small_def Let_def
        drop_bit_eq_div)
  then obtain m' where m': "pref_markov_update_table pref_small markov_small 0 8192 True markov_0 = Some m'" by blast
  have "\<exists>lines. pref_markov_send_prefetches pref_small markov_small 0 4096 (pref_0, m') =
    Some (fold (\<lambda>a q. snd (pref_addto_ul1req_queue pref_small 0 a (mk_hwp_id (markov_hwp_core markov_0 ! unat (0 :: uns8))) q))
      (drop_bit (LOG2 (L1_LINE_SIZE pref_small)) 8192 # lines) pref_0)"
    by (rule markov_most_recent_first [OF _ _ m']) (simp_all add: markov_small_def markov_0_def)
  then show ?thesis using m' by (auto simp: markov_0_def pref_small_def drop_bit_eq_div)
qed


section \<open>The phase prefetcher\<close>

text \<open>The line that the sending loop computes from a page number and an offset that were recorded for \<open>x\<close>.\<close>

lemma region_line:
  fixes x :: Addr
  shows "lg \<le> R \<Longrightarrow> push_bit (R - lg) (drop_bit R x) + of_nat (unat (drop_bit lg x AND mask (R - lg))) = drop_bit lg x"
  using bits_ident [of "R - lg" "drop_bit lg x"] by (simp add: drop_bit_drop_bit flip: take_bit_eq_mask)

text \<open>The miss handler passes the line index where the recorder expects an address, and the recorder
  shifts again: as long as the phase does not change, what a miss leaves in the record makes the
  sending loop ask for the line at the address shifted twice, not for the line missed.\<close>

theorem phase_records_wrong_line:
  assumes "pref_phase_ul1_train PC P below inst a (q, s) = Some (q', s')"
    and "\<not> ucast (PREF_PHASE_INTERVAL P) < inst - interval_start s"
    and "list_all (\<lambda>r. length (ph_RegionMemAccess r) = MAX_PREF_PHASE_REGIONENTRIES) (phase_mapped_regions s)"
    and "unat (PREF_PHASE_REGIONENTRIES P) \<le> MAX_PREF_PHASE_REGIONENTRIES"
    and "lg = LOG2 (DCACHE_LINE_SIZE PC)" "lg \<le> unat (PREF_PHASE_LOG2REGIONSIZE P)"
  shows "\<exists>r \<in> set (phase_mapped_regions s'). \<exists>off < MAX_PREF_PHASE_REGIONENTRIES. ph_valid r \<and> ph_RegionMemAccess r ! off \<and>
    push_bit (unat (PREF_PHASE_LOG2REGIONSIZE P) - lg) (ph_PageNumber r) + of_nat off = drop_bit lg (drop_bit lg a)"
proof -
  let ?li = "drop_bit lg a" and ?R = "unat (PREF_PHASE_LOG2REGIONSIZE P)"
  define off where "off = unat (drop_bit lg ?li AND mask (?R - lg))"
  obtain regions where u: "pref_phase_updateregioninfo PC P (cycle_count q) ?li (phase_mapped_regions s) = Some regions"
    and s': "phase_mapped_regions s' = regions"
    using assms(1,2) by (auto simp: pref_phase_ul1_train_def Let_def assms(5) split: if_splits option.splits)
  obtain i acc k where i: "i < length (phase_mapped_regions s)" and acc: "length acc = MAX_PREF_PHASE_REGIONENTRIES"
    and k: "k < MAX_PREF_PHASE_REGIONENTRIES"
      "k = unat (drop_bit (LOG2 (DCACHE_LINE_SIZE PC)) ?li AND mask (?R - LOG2 (DCACHE_LINE_SIZE PC)))"
    and r: "regions = (phase_mapped_regions s)[i := \<lparr>ph_PageNumber = PAGENUM P ?li, ph_RegionMemAccess = acc[k := True],
      ph_last_access = cycle_count q, ph_valid = True\<rparr>]"
    by (rule phase_record_obtain [OF u assms(3,4)])
  have off: "off < MAX_PREF_PHASE_REGIONENTRIES" and reg: "regions = (phase_mapped_regions s)[i := \<lparr>ph_PageNumber = drop_bit ?R ?li,
      ph_RegionMemAccess = acc[off := True], ph_last_access = cycle_count q, ph_valid = True\<rparr>]"
    using k r by (simp_all add: off_def assms(5) PAGENUM_def)
  have ri: "regions ! i \<in> set regions" by (rule nth_mem) (use i reg in simp)
  have "ph_valid (regions ! i)" "ph_RegionMemAccess (regions ! i) ! off" "ph_PageNumber (regions ! i) = drop_bit ?R ?li"
    using i off acc reg by simp_all
  with ri off region_line [OF assms(6), of ?li] show ?thesis unfolding s' off_def by metis
qed

definition phase_two_lines :: phase_params where
  "phase_two_lines = phase_small\<lparr>PREF_PHASE_REGIONENTRIES := 2, PREF_PHASE_LOG2REGIONSIZE := 7\<rparr>"

theorem phase_records_wrong_line_witness:
  "\<exists>q' s'. pref_phase_ul1_train pref_small phase_two_lines (\<lambda>_ _. True) 5 4096 (pref_0, phase_0) = Some (q', s') \<and>
    (\<exists>r \<in> set (phase_mapped_regions s'). \<exists>off < MAX_PREF_PHASE_REGIONENTRIES. ph_valid r \<and> ph_RegionMemAccess r ! off \<and>
      push_bit 1 (ph_PageNumber r) + of_nat off = 1)"
proof -
  have "pref_phase_ul1_train pref_small phase_two_lines (\<lambda>_ _. True) 5 4096 (pref_0, phase_0) \<noteq> None"
    by (simp add: pref_phase_ul1_train_def phase_two_lines_def phase_small_def phase_0_def pref_small_def Let_def
        zero_accesses_def zero_regions_def zero_phase_region_def pref_phase_updateregioninfo_def
        PAGENUM_def MAX_PREF_PHASE_REGIONENTRIES_def drop_bit_eq_div)
      (simp add: numeral_2_eq_2)
  then obtain q' s' where t: "pref_phase_ul1_train pref_small phase_two_lines (\<lambda>_ _. True) 5 4096 (pref_0, phase_0) =
    Some (q', s')" by auto
  have "\<exists>r \<in> set (phase_mapped_regions s'). \<exists>off < MAX_PREF_PHASE_REGIONENTRIES. ph_valid r \<and> ph_RegionMemAccess r ! off \<and>
    push_bit (unat (PREF_PHASE_LOG2REGIONSIZE phase_two_lines) - 6) (ph_PageNumber r) + of_nat off = drop_bit 6 (drop_bit 6 4096)"
    by (rule phase_records_wrong_line [OF t])
      (simp_all add: phase_two_lines_def phase_small_def phase_0_def zero_regions_def zero_phase_region_def pref_small_def
        MAX_PREF_PHASE_REGIONENTRIES_def list_all_iff)
  then show ?thesis using t by (simp add: phase_two_lines_def drop_bit_eq_div)
qed

text \<open>The sending loop counts regions up to the number of lines in a region. With fewer tracked regions
  than that, a record without valid regions (as after the initialisation) is read past its end at the
  first miss: training never completes.\<close>

theorem phase_reads_past_regions:
  assumes "\<not> ucast (PREF_PHASE_INTERVAL P) < inst - interval_start s"
    and "\<forall>r \<in> set (pi_mapped_regions (phase_table s ! unat (curr_phaseid s))). \<not> ph_valid r"
    and "length (pi_mapped_regions (phase_table s ! unat (curr_phaseid s))) < unat (PREF_PHASE_REGIONENTRIES P)"
    and "unat (currsent_regid s) < unat (PREF_PHASE_REGIONENTRIES P)"
  shows "pref_phase_ul1_train PC P below inst a (q, s) = None"
proof -
  have none: "phase_send PC P rs hid n regid off q = None"
    if "\<forall>r \<in> set rs. \<not> ph_valid r" "length rs < regid + n" "0 < n" for rs hid n regid off q
    using that by (induction n arbitrary: regid off) (auto simp: Let_def)
  show ?thesis using none [OF assms(2)] assms(1,3,4)
    by (auto simp: pref_phase_ul1_train_def Let_def split: option.splits)
qed

theorem phase_reads_past_regions_witness:
  "pref_phase_ul1_train pref_small phase_small (\<lambda>_ _. True) 5 4096 (pref_0, phase_0) = None"
  by (rule phase_reads_past_regions)
    (simp_all add: phase_small_def phase_0_def zero_regions_def zero_phase_region_def)

end
