(* ===== verification/Bp_Types.thy ===== *)
theory Bp_Types
  imports Cache_Lib
begin

text \<open>
  The data of the branch predictor: the fields of \<^verbatim>\<open>Op\<close>, \<^verbatim>\<open>Op_Info\<close> and \<^verbatim>\<open>Recovery_Info\<close>
  (\<^verbatim>\<open>op.h\<close>, \<^verbatim>\<open>op_info.h\<close>) that \<^verbatim>\<open>bp/\<close> reads or writes, \<^verbatim>\<open>Bp_Data\<close> of \<^verbatim>\<open>bp/bp.h\<close>, the knobs of
  \<^verbatim>\<open>bp/bp.param.def\<close>, and the four tables of function pointers through which \<^verbatim>\<open>bp.c\<close> calls the
  mechanisms. A \<^verbatim>\<open>Flag\<close> that is only ever a truth value is a \<open>bool\<close>; the directions stay \<^verbatim>\<open>uns8\<close>,
  because they are shifted into the histories.

  The payload of a line of a target buffer is an \<^verbatim>\<open>Addr\<close> in the line's data buffer, 8 bytes with the
  least significant first.
\<close>

section \<open>Directions\<close>

definition TAKEN :: uns8 where "TAKEN = 1"

definition NOT_TAKEN :: uns8 where "NOT_TAKEN = 0"

section \<open>Ops\<close>

datatype Cf_Type = NOT_CF | CF_BR | CF_CBR | CF_CALL | CF_IBR | CF_ICALL | CF_ICO | CF_RET | CF_SYS

record Op_Info =
  oi_npc :: Addr
  oi_target :: Addr
  oi_dir :: uns8
  oi_pred_npc :: Addr
  oi_pred_addr :: Addr
  oi_pred :: uns8
  oi_misfetch :: bool
  oi_mispred :: bool
  oi_btb_miss :: bool
  oi_btb_miss_resolved :: bool
  oi_no_target :: bool
  oi_late_pred :: uns8
  oi_late_pred_npc :: Addr
  oi_late_misfetch :: bool
  oi_late_mispred :: bool
  oi_recovery_sch :: bool
  oi_pred_global_hist :: uns32
  oi_pred_conf_perceptron_global_hist :: uns64
  oi_pred_local_hist :: uns32
  oi_pred_targ_hist :: uns32
  oi_hybridgp_gpred :: uns8
  oi_hybridgp_ppred :: uns8
  oi_pred_tc_selector_entry :: uns8
  oi_ibp_miss :: bool
  oi_pred_conf :: bool
  oi_pred_conf_index :: Addr
  oi_opc_index :: uns

record Recovery_Info =
  ri_proc_id :: uns
  ri_pred_global_hist :: uns32
  ri_conf_perceptron_global_hist :: uns64
  ri_conf_perceptron_global_misp_hist :: uns64
  ri_targ_hist :: uns32
  ri_crs_tos :: uns
  ri_crs_next :: uns
  ri_crs_depth :: uns
  ri_op_num :: Counter
  ri_tos_addr :: Addr
  ri_oracle_dir :: uns8
  ri_new_dir :: uns8
  ri_PC :: Addr
  ri_cf_type :: Cf_Type
  ri_branchTarget :: Addr
  ri_branch_id :: "64 word"

record Op =
  op_proc_id :: uns
  op_op_num :: Counter
  op_unique_num :: Counter
  op_inst_uid :: uns64
  op_cf_type :: Cf_Type
  op_inst_addr :: Addr
  op_inst_size :: Addr
  op_oracle_info :: Op_Info
  op_oracle_cp_num :: cint
  op_conf_perceptron_output :: cint
  op_bp_cycle :: Counter
  op_pred_cycle :: Counter
  op_off_path :: bool
  op_cf_within_fetch :: uns
  op_recovery_info :: Recovery_Info
  op_redirect_scheduled :: bool

abbreviation upd_oracle :: "(Op_Info \<Rightarrow> Op_Info) \<Rightarrow> Op \<Rightarrow> Op" where
  "upd_oracle \<equiv> op_oracle_info_update"

abbreviation upd_recovery :: "(Recovery_Info \<Rightarrow> Recovery_Info) \<Rightarrow> Op \<Rightarrow> Op" where
  "upd_recovery \<equiv> op_recovery_info_update"

section \<open>Predictor state\<close>

record Crs_Entry =
  cr_addr :: Addr
  cr_op_num :: Counter
  cr_nos :: uns

record Crs =
  crs_entries :: "Crs_Entry list"
  crs_off_path :: "bool list"
  crs_depth :: uns
  crs_head :: uns
  crs_tail :: uns
  crs_tail_save :: uns
  crs_depth_save :: uns
  crs_tos :: uns
  crs_next :: uns

record Bp_Data =
  bd_proc_id :: uns
  bd_global_hist :: uns32
  bd_btb :: Cache
  bd_crs :: Crs
  bd_tc_tagged :: Cache
  bd_tc_tagless :: "Addr list"
  bd_tc_selector :: "uns8 list"
  bd_targ_hist :: uns32
  bd_target_bit_length :: uns8
  bd_on_path_pred :: bool

record bp_params =
  PERFECT_BP :: bool
  PERFECT_BTB :: bool
  PERFECT_IBP :: bool
  PERFECT_CRS :: bool
  PERFECT_CBR_BTB :: bool
  PERFECT_NT_BTB :: bool
  UPDATE_BP_OFF_PATH :: bool
  LATE_BP_LATENCY :: uns
  HIST_LENGTH :: uns
  PHT_CTR_BITS :: uns
  BP_HASH_TOS :: bool
  IBTB_HASH_TOS :: bool
  BTB_ENTRIES :: uns
  BTB_ASSOC :: uns
  BTB_OFF_PATH_WRITES :: bool
  ENABLE_CRS :: bool
  CRS_ENTRIES :: uns
  CRS_REALISTIC :: uns
  ENABLE_IBP :: bool
  USE_PAT_HIST :: bool
  IBTB_HIST_LENGTH :: uns
  IBTB_OFF_PATH_WRITES :: bool
  TARGETS_IN_HIST :: uns
  TC_ENTRIES :: uns
  TC_ASSOC :: uns
  ENABLE_BP_CONF :: bool
  EXTRA_RECOVERY_CYCLES :: uns
  EXTRA_REDIRECT_CYCLES :: uns
  EXTRA_CALLSYS_CYCLES :: uns

section \<open>Addresses in data buffers\<close>

fun bytes_of :: "nat \<Rightarrow> uns64 \<Rightarrow> uns8 list" where
  "bytes_of 0 a = []"
| "bytes_of (Suc n) a = ucast a # bytes_of n (drop_bit 8 a)"

fun of_bytes :: "uns8 list \<Rightarrow> uns64" where
  "of_bytes [] = 0"
| "of_bytes (b # bs) = ucast b OR push_bit 8 (of_bytes bs)"

definition load_Addr :: "ptr \<Rightarrow> Heap \<Rightarrow> Addr option" where
  "load_Addr p h =
     (case bufs h p of
        Some d \<Rightarrow> if 8 \<le> length d then Some (of_bytes (take 8 d)) else None
      | None \<Rightarrow> None)"

definition store_Addr :: "ptr \<Rightarrow> Addr \<Rightarrow> Heap \<Rightarrow> Heap option" where
  "store_Addr p a h =
     (case bufs h p of
        Some d \<Rightarrow> if 8 \<le> length d then Some (h\<lparr>bufs := (bufs h)(p := Some (bytes_of 8 a @ drop 8 d))\<rparr>) else None
      | None \<Rightarrow> None)"

lemma length_bytes_of [simp]: "length (bytes_of n a) = n"
  by (induction n arbitrary: a) auto

lemma of_bytes_bytes_of: "of_bytes (bytes_of n a) = take_bit (8 * n) a"
proof (induction n arbitrary: a)
  case 0
  show ?case by simp
next
  case (Suc n)
  show ?case
    by (rule bit_word_eqI)
      (auto simp: Suc bit_or_iff bit_push_bit_iff bit_take_bit_iff bit_drop_bit_eq bit_ucast_iff not_less
        add.commute le_add_diff_inverse)
qed

lemma of_bytes_8 [simp]: "of_bytes (bytes_of 8 a) = a"
  using of_bytes_bytes_of [of 8 a] by (simp add: take_bit_word_eq_self)

text \<open>A line of a target buffer: the data pointer holds eight bytes.\<close>

definition addr_buf :: "Heap \<Rightarrow> ptr \<Rightarrow> bool" where
  "addr_buf h p \<longleftrightarrow> (\<exists>d. bufs h p = Some d \<and> 8 \<le> length d)"

lemma load_Addr_Some: "addr_buf h p \<Longrightarrow> \<exists>a. load_Addr p h = Some a"
  by (auto simp: addr_buf_def load_Addr_def)

lemma store_Addr_Some:
  assumes "addr_buf h p"
  obtains h' where "store_Addr p a h = Some h'" "load_Addr p h' = Some a"
    "\<And>q. q \<noteq> p \<Longrightarrow> load_Addr q h' = load_Addr q h" "\<And>q. addr_buf h' q = addr_buf h q"
    "next_ptr h' = next_ptr h"
proof -
  obtain d where d: "bufs h p = Some d" "8 \<le> length d" using assms by (auto simp: addr_buf_def)
  then show thesis
    by (intro that [of "h\<lparr>bufs := (bufs h)(p := Some (bytes_of 8 a @ drop 8 d))\<rparr>"])
      (auto simp: store_Addr_def load_Addr_def addr_buf_def)
qed

end
