(* ===== verification/Bp_Crs.thy ===== *)
theory Bp_Crs
  imports Bp_Types
begin

text \<open>
  The call return stack of \<^verbatim>\<open>bp/bp_targ_mech.c\<close>, in its two forms. The ideal one
  (\<^verbatim>\<open>CRS_REALISTIC\<close> 0) keeps two entries for every position, one for each path, and two saved indices,
  so that ops off the path leave what the ops on the path pushed alone. The realistic one links its
  entries through \<^verbatim>\<open>nos\<close> and every op carries the indices to go back to.

  \<open>None\<close> is a failed assertion, an access outside an array, or a loop that does not end.
\<close>

section \<open>The ideal stack\<close>

text \<open>\<^verbatim>\<open>tail << 1 | flag\<close>\<close>

definition crs_slot :: "uns \<Rightarrow> bool \<Rightarrow> nat" where
  "crs_slot i flag = unat (push_bit 1 i OR (if flag then 1 else 0))"

definition crs_push :: "uns \<Rightarrow> Addr \<Rightarrow> Counter \<Rightarrow> bool \<Rightarrow> Crs \<Rightarrow> Crs option" where
  "crs_push n a op_num off c =
     (let t = crs_tail c; s = crs_slot t off
      in if \<not> (s < length (crs_entries c) \<and> unat t < length (crs_off_path c)) then None
         else
           let c = c\<lparr>crs_entries := (crs_entries c)[s := (crs_entries c ! s)\<lparr>cr_addr := a, cr_op_num := op_num\<rparr>],
                     crs_off_path := (crs_off_path c)[unat t := off], crs_tail := CIRC_INC2 t n\<rparr>;
               c = (if crs_depth c = n then c\<lparr>crs_head := CIRC_INC2 (crs_head c) n\<rparr>
                    else c\<lparr>crs_depth := crs_depth c + 1\<rparr>)
           in if n < crs_depth c then None
              else Some (if off then c else c\<lparr>crs_tail_save := crs_tail c, crs_depth_save := crs_depth c\<rparr>))"

text \<open>The address read, or \<open>None\<close> when the stack is empty.\<close>

definition crs_pop :: "uns \<Rightarrow> bool \<Rightarrow> Crs \<Rightarrow> (Addr option \<times> Crs) option" where
  "crs_pop n off c =
     (let t = CIRC_DEC2 (crs_tail c) n
      in if \<not> (unat t < length (crs_off_path c)) then None
         else
           let s = crs_slot t (crs_off_path c ! unat t)
           in if \<not> s < length (crs_entries c) then None
              else if crs_depth c = 0 then Some (None, c)
              else
                let c' = c\<lparr>crs_tail := t, crs_depth := crs_depth c - 1\<rparr>
                in Some (Some (cr_addr (crs_entries c ! s)),
                     if off then c' else c'\<lparr>crs_tail_save := crs_tail c', crs_depth_save := crs_depth c'\<rparr>))"

text \<open>\<^verbatim>\<open>uns8 ii; for(ii = 0; ii < CRS_ENTRIES; ii++) off_path[ii] = FALSE;\<close>\<close>

partial_function (option) crs_clear :: "uns \<Rightarrow> uns8 \<Rightarrow> bool list \<Rightarrow> bool list option" where
  "crs_clear n ii fl =
     (if ucast ii < n
      then if unat ii < length fl then crs_clear n (ii + 1) (fl[unat ii := False]) else None
      else Some fl)"

definition crs_recover :: "uns \<Rightarrow> Crs \<Rightarrow> Crs option" where
  "crs_recover n c =
     map_option (\<lambda>fl. c\<lparr>crs_off_path := fl, crs_tail := crs_tail_save c, crs_depth := crs_depth_save c\<rparr>)
       (crs_clear n 0 (crs_off_path c))"

definition return_addr :: "Op \<Rightarrow> Addr" where
  "return_addr op = ADDR_PLUS_OFFSET (op_inst_addr op) (op_inst_size op)"

definition bp_crs_push :: "bp_params \<Rightarrow> Op \<Rightarrow> Bp_Data \<Rightarrow> Bp_Data option" where
  "bp_crs_push P op d =
     (if bd_proc_id d \<noteq> op_proc_id op then None
      else map_option (\<lambda>c. d\<lparr>bd_crs := c\<rparr>)
             (crs_push (CRS_ENTRIES P) (return_addr op) (op_op_num op) (op_off_path op) (bd_crs d)))"

text \<open>What the pop functions return: the oracle's target when the stack is perfect.\<close>

definition crs_result :: "bp_params \<Rightarrow> Op \<Rightarrow> Bp_Data \<Rightarrow> Addr option \<Rightarrow> Addr" where
  "crs_result P op d r =
     (if PERFECT_CRS P then oi_target (op_oracle_info op)
      else case r of Some a \<Rightarrow> a | None \<Rightarrow> convert_to_cmp_addr (ucast (bd_proc_id d)) 0)"

definition bp_crs_pop :: "bp_params \<Rightarrow> Op \<Rightarrow> Bp_Data \<Rightarrow> (Addr \<times> Bp_Data) option" where
  "bp_crs_pop P op d =
     (if bd_proc_id d \<noteq> op_proc_id op then None
      else map_option (\<lambda>(r, c). (crs_result P op d r, d\<lparr>bd_crs := c\<rparr>))
             (crs_pop (CRS_ENTRIES P) (op_off_path op) (bd_crs d)))"

definition bp_crs_recover :: "bp_params \<Rightarrow> Bp_Data \<Rightarrow> Bp_Data option" where
  "bp_crs_recover P d = map_option (\<lambda>c. d\<lparr>bd_crs := c\<rparr>) (crs_recover (CRS_ENTRIES P) (bd_crs d))"

section \<open>The realistic stack\<close>

text \<open>Both functions leave in the op the indices that a recovery to it restores.\<close>

definition save_crs :: "Crs \<Rightarrow> Op \<Rightarrow> Op" where
  "save_crs c = upd_recovery (\<lambda>r. r\<lparr>ri_crs_next := crs_next c, ri_crs_tos := crs_tos c, ri_crs_depth := crs_depth c\<rparr>)"

definition crs_realistic_push :: "uns \<Rightarrow> Addr \<Rightarrow> Counter \<Rightarrow> bool \<Rightarrow> Crs \<Rightarrow> Crs option" where
  "crs_realistic_push n a op_num off c =
     (let x = crs_next c; s = unat x
      in if \<not> (s < length (crs_entries c) \<and> s < length (crs_off_path c)) then None
         else
           let c = c\<lparr>crs_entries := (crs_entries c)[s := \<lparr>cr_addr = a, cr_op_num = op_num, cr_nos = crs_tos c\<rparr>],
                     crs_off_path := (crs_off_path c)[s := off], crs_tos := x, crs_next := CIRC_INC2 x n\<rparr>;
               c = (if crs_depth c = n then c else c\<lparr>crs_depth := crs_depth c + 1\<rparr>)
           in if n < crs_depth c then None else Some c)"

definition crs_realistic_pop :: "uns \<Rightarrow> uns \<Rightarrow> Crs \<Rightarrow> (Addr option \<times> Crs) option" where
  "crs_realistic_pop mode n c =
     (let new_next = CIRC_DEC2 (crs_next c) n; es = crs_entries c; s = unat (crs_tos c)
      in if \<not> s < length es \<or> mode \<notin> {1, 2} \<or> (mode = 2 \<and> \<not> unat new_next < length es) then None
         else
           let a = cr_addr (es ! (if mode = 1 then s else unat new_next))
           in if crs_depth c = 0 then Some (None, c)
              else Some (Some a, c\<lparr>crs_next := (if mode = 2 then new_next else crs_next c),
                                   crs_depth := crs_depth c - 1, crs_tos := cr_nos (es ! s)\<rparr>))"

definition bp_crs_realistic_push :: "bp_params \<Rightarrow> Op \<Rightarrow> Bp_Data \<Rightarrow> (Op \<times> Bp_Data) option" where
  "bp_crs_realistic_push P op d =
     (if bd_proc_id d \<noteq> op_proc_id op then None
      else map_option (\<lambda>c. (save_crs c op, d\<lparr>bd_crs := c\<rparr>))
             (crs_realistic_push (CRS_ENTRIES P) (return_addr op) (op_op_num op) (op_off_path op) (bd_crs d)))"

definition bp_crs_realistic_pop :: "bp_params \<Rightarrow> Op \<Rightarrow> Bp_Data \<Rightarrow> (Addr \<times> Op \<times> Bp_Data) option" where
  "bp_crs_realistic_pop P op d =
     (if bd_proc_id d \<noteq> op_proc_id op then None
      else map_option (\<lambda>(r, c). (crs_result P op d r, if r = None then op else save_crs c op, d\<lparr>bd_crs := c\<rparr>))
             (crs_realistic_pop (CRS_REALISTIC P) (CRS_ENTRIES P) (bd_crs d)))"

definition bp_crs_realistic_recover :: "Recovery_Info \<Rightarrow> Bp_Data \<Rightarrow> Bp_Data" where
  "bp_crs_realistic_recover info d =
     d\<lparr>bd_crs := (bd_crs d)\<lparr>crs_next := ri_crs_next info, crs_depth := ri_crs_depth info, crs_tos := ri_crs_tos info\<rparr>\<rparr>"

end
