(* ===== verification/Bp_Crs_Inv.thy ===== *)
theory Bp_Crs_Inv
  imports Bp_Crs
begin

text \<open>
  The call return stack against a bounded stack with a checkpoint. \<open>crs_visible\<close> is the stack the next
  op sees, \<open>crs_saved\<close> the stack of the ops on the path; every operation of the ideal form is an
  operation of these two lists. The realistic form is read through its links: \<open>nos_chain\<close> are the
  positions of the stack, and what is pushed elsewhere does not change it.
\<close>

section \<open>Positions in the ring\<close>

definition ring_up :: "nat \<Rightarrow> nat \<Rightarrow> nat" where
  "ring_up n t = (if Suc t = n then 0 else Suc t)"

definition ring_down :: "nat \<Rightarrow> nat \<Rightarrow> nat" where
  "ring_down n t = (if t = 0 then n - 1 else t - 1)"

text \<open>The position \<open>i\<close> places below the top, when \<open>t\<close> is the position after the top.\<close>

definition ring_back :: "nat \<Rightarrow> nat \<Rightarrow> nat \<Rightarrow> nat" where
  "ring_back n t i = (if i < t then t - 1 - i else t + n - 1 - i)"

lemma unat_CIRC_INC2: "k < 32 \<Longrightarrow> unat t < 2 ^ k \<Longrightarrow> unat (CIRC_INC2 t (2 ^ k)) = ring_up (2 ^ k) (unat t)"
  by (auto simp: CIRC_INC2_pow2 ring_up_def mod_Suc)

lemma unat_CIRC_DEC2: "k < 32 \<Longrightarrow> unat t < 2 ^ k \<Longrightarrow> unat (CIRC_DEC2 t (2 ^ k)) = ring_down (2 ^ k) (unat t)"
proof -
  assume k: "k < 32" and t: "unat t < 2 ^ k"
  show ?thesis
  proof (cases "unat t")
    case (Suc m)
    then have "unat t + (2 ^ k - 1) = m + 2 ^ k" using t by simp
    with Suc t show ?thesis by (simp add: CIRC_DEC2_pow2 [OF k] ring_down_def)
  qed (simp add: CIRC_DEC2_pow2 [OF k] ring_down_def)
qed

lemma ring_back_up [simp]:
  "t < n \<Longrightarrow> ring_back n (ring_up n t) 0 = t"
  "t < n \<Longrightarrow> Suc i < n \<Longrightarrow> ring_back n (ring_up n t) (Suc i) = ring_back n t i"
  by (auto simp: ring_back_def ring_up_def)

lemma ring_back_down [simp]:
  "t < n \<Longrightarrow> ring_back n t 0 = ring_down n t"
  "t < n \<Longrightarrow> Suc i < n \<Longrightarrow> ring_back n (ring_down n t) i = ring_back n t (Suc i)"
  by (auto simp: ring_back_def ring_down_def)

lemma ring_back_ne: "t < n \<Longrightarrow> Suc i < n \<Longrightarrow> ring_back n t i \<noteq> t"
  by (auto simp: ring_back_def)

lemma ring_back_lt: "t < n \<Longrightarrow> i < n \<Longrightarrow> ring_back n t i < n"
  by (auto simp: ring_back_def)

lemma ring_up_lt: "t < n \<Longrightarrow> ring_up n t < n" and ring_down_lt: "t < n \<Longrightarrow> ring_down n t < n"
  by (auto simp: ring_up_def ring_down_def)

lemma crs_slot_eq: "unat i < 2 ^ k \<Longrightarrow> k \<le> 31 \<Longrightarrow> crs_slot i flag = 2 * unat i + of_bool flag"
proof -
  assume i: "unat i < 2 ^ k" "k \<le> 31"
  have "(2::nat) ^ k \<le> 2 ^ 31" using i(2) by (intro power_increasing) auto
  with i(1) have "unat i < 2 ^ 31" by linarith
  then have "unat (2 * i) = 2 * unat i" using unat_mult_lem [of 2 i] by simp
  then have "unat (push_bit 1 i) = 2 * unat i" by (simp add: push_bit_eq_mult mult.commute)
  then show ?thesis
    by (simp add: crs_slot_def unsigned_or_eq or_Suc_0_eq)
qed

section \<open>The two stacks of the ideal form\<close>

definition crs_ok :: "nat \<Rightarrow> Crs \<Rightarrow> bool" where
  "crs_ok k c \<longleftrightarrow> length (crs_entries c) = 2 * 2 ^ k \<and> length (crs_off_path c) = 2 ^ k \<and>
     unat (crs_tail c) < 2 ^ k \<and> unat (crs_tail_save c) < 2 ^ k \<and>
     unat (crs_depth c) \<le> 2 ^ k \<and> unat (crs_depth_save c) \<le> 2 ^ k"

definition stack_at :: "nat \<Rightarrow> Crs_Entry list \<Rightarrow> (nat \<Rightarrow> bool) \<Rightarrow> nat \<Rightarrow> nat \<Rightarrow> Addr list" where
  "stack_at k es fl t m = map (\<lambda>i. let j = ring_back (2 ^ k) t i in cr_addr (es ! (2 * j + of_bool (fl j)))) [0..<m]"

definition crs_visible :: "nat \<Rightarrow> Crs \<Rightarrow> Addr list" where
  "crs_visible k c = stack_at k (crs_entries c) (\<lambda>j. crs_off_path c ! j) (unat (crs_tail c)) (unat (crs_depth c))"

definition crs_saved :: "nat \<Rightarrow> Crs \<Rightarrow> Addr list" where
  "crs_saved k c = stack_at k (crs_entries c) (\<lambda>_. False) (unat (crs_tail_save c)) (unat (crs_depth_save c))"

text \<open>On the path nothing is marked and the saved indices are the current ones.\<close>

definition on_path :: "Crs \<Rightarrow> bool" where
  "on_path c \<longleftrightarrow> (\<forall>f \<in> set (crs_off_path c). \<not> f) \<and> crs_tail c = crs_tail_save c \<and> crs_depth c = crs_depth_save c"

lemma length_stack_at [simp]: "length (stack_at k es fl t m) = m"
  by (simp add: stack_at_def)

lemma stack_at_nth: "i < m \<Longrightarrow> stack_at k es fl t m ! i =
    cr_addr (es ! (2 * ring_back (2 ^ k) t i + of_bool (fl (ring_back (2 ^ k) t i))))"
  by (simp add: stack_at_def)

lemma stack_at_push:
  assumes t: "t < 2 ^ k" and m: "m \<le> 2 ^ k" and s: "s = 2 * t + of_bool f" "s < length es"
  shows "stack_at k (es[s := e]) (fl(t := f)) (ring_up (2 ^ k) t) (min (2 ^ k) (Suc m)) =
    take (2 ^ k) (cr_addr e # stack_at k es fl t m)" (is "?l = ?r")
proof (rule nth_equalityI)
  show "length ?l = length ?r" using m by simp
  fix i assume "i < length ?l"
  then have i: "i < 2 ^ k" "i \<le> m" by simp_all
  show "?l ! i = ?r ! i"
  proof (cases i)
    case 0
    then show ?thesis using t s by (simp add: stack_at_nth)
  next
    case (Suc j)
    then have j: "Suc j < 2 ^ k" "j < m" using i by simp_all
    let ?b = "ring_back (2 ^ k) t j"
    have b: "?b \<noteq> t" using ring_back_ne [OF t j(1)] .
    then have "2 * ?b + of_bool (fl ?b) \<noteq> s" unfolding s(1) by (auto simp: of_bool_def split: if_splits)
    with Suc i j t b show ?thesis by (simp add: stack_at_nth)
  qed
qed

lemma stack_at_pop:
  assumes t: "t < 2 ^ k" and m: "Suc m \<le> 2 ^ k"
  shows "stack_at k es fl t (Suc m) =
    cr_addr (es ! (2 * ring_down (2 ^ k) t + of_bool (fl (ring_down (2 ^ k) t)))) # stack_at k es fl (ring_down (2 ^ k) t) m"
    (is "?l = ?r")
proof (rule nth_equalityI)
  show "length ?l = length ?r" by simp
  fix i assume "i < length ?l"
  then show "?l ! i = ?r ! i" using t m by (cases i) (simp_all add: stack_at_nth)
qed

lemma stack_at_other:
  assumes "\<And>i. i < m \<Longrightarrow> s \<noteq> 2 * ring_back (2 ^ k) t i + of_bool (fl (ring_back (2 ^ k) t i))"
  shows "stack_at k (es[s := e]) fl t m = stack_at k es fl t m"
  by (rule nth_equalityI) (auto simp: stack_at_nth assms)

lemma stack_at_cong:
  assumes "t < 2 ^ k" "m \<le> 2 ^ k" "\<And>j. j < 2 ^ k \<Longrightarrow> fl j = fl' j"
  shows "stack_at k es fl t m = stack_at k es fl' t m"
  by (rule nth_equalityI) (use assms ring_back_lt in \<open>auto simp: stack_at_nth\<close>)

lemma on_path_saved:
  assumes ok: "crs_ok k c" and on: "on_path c"
  shows "crs_saved k c = crs_visible k c"
proof -
  have fl: "\<not> crs_off_path c ! j" if "j < 2 ^ k" for j
  proof -
    have "crs_off_path c ! j \<in> set (crs_off_path c)" using ok that by (simp add: crs_ok_def)
    with on show ?thesis unfolding on_path_def by blast
  qed
  have "stack_at k (crs_entries c) (\<lambda>_. False) (unat (crs_tail c)) (unat (crs_depth c)) =
      stack_at k (crs_entries c) (\<lambda>j. crs_off_path c ! j) (unat (crs_tail c)) (unat (crs_depth c))"
    using ok fl by (intro stack_at_cong) (simp_all add: crs_ok_def)
  then show ?thesis using on by (simp add: crs_saved_def crs_visible_def on_path_def)
qed

section \<open>The operations of the ideal form\<close>

lemma crs_push_ok:
  assumes ok: "crs_ok k c" and k: "k \<le> 31" and path: "\<not> off \<Longrightarrow> on_path c"
  obtains c' where "crs_push (2 ^ k) a m off c = Some c'" "crs_ok k c'" "\<not> off \<Longrightarrow> on_path c'"
    "crs_visible k c' = take (2 ^ k) (a # crs_visible k c)"
    "crs_saved k c' = (if off then crs_saved k c else crs_visible k c')"
proof -
  let ?t = "unat (crs_tail c)" and ?m = "unat (crs_depth c)"
  define s where "s = crs_slot (crs_tail c) off"
  define e where "e = (crs_entries c ! s)\<lparr>cr_addr := a, cr_op_num := m\<rparr>"
  define c1 where "c1 = c\<lparr>crs_entries := (crs_entries c)[s := e], crs_off_path := (crs_off_path c)[?t := off],
    crs_tail := CIRC_INC2 (crs_tail c) (2 ^ k)\<rparr>"
  define c2 where "c2 = (if crs_depth c = 2 ^ k then c1\<lparr>crs_head := CIRC_INC2 (crs_head c1) (2 ^ k)\<rparr>
    else c1\<lparr>crs_depth := crs_depth c + 1\<rparr>)"
  define c' where "c' = (if off then c2 else c2\<lparr>crs_tail_save := crs_tail c2, crs_depth_save := crs_depth c2\<rparr>)"
  have t: "?t < 2 ^ k" and m: "?m \<le> 2 ^ k" and le: "length (crs_entries c) = 2 * 2 ^ k" "length (crs_off_path c) = 2 ^ k"
    and sv: "unat (crs_tail_save c) < 2 ^ k" "unat (crs_depth_save c) \<le> 2 ^ k"
    using ok by (auto simp: crs_ok_def)
  have s: "s = 2 * ?t + of_bool off" "s < length (crs_entries c)"
    using t k le by (auto simp: s_def crs_slot_eq)
  have n: "unat (2 ^ k :: uns) = 2 ^ k" using k by (simp add: unat_pow2)
  have up: "unat (CIRC_INC2 (crs_tail c) (2 ^ k)) = ring_up (2 ^ k) ?t" using k t by (simp add: unat_CIRC_INC2)
  have "(2::nat) ^ k \<le> 2 ^ 31" using k by (intro power_increasing) auto
  then have dep: "unat (crs_depth c2) = min (2 ^ k) (Suc ?m)"
  proof (cases "crs_depth c = 2 ^ k")
    case False
    then have "?m \<noteq> 2 ^ k" using n by (metis word_unat_eq_iff)
    with m \<open>(2::nat) ^ k \<le> 2 ^ 31\<close> False show ?thesis by (simp add: c2_def unat_Suc_uns min_def)
  qed (simp add: c2_def c1_def n)
  have c2: "crs_entries c2 = (crs_entries c)[s := e]" "crs_off_path c2 = (crs_off_path c)[?t := off]"
    "crs_tail c2 = CIRC_INC2 (crs_tail c) (2 ^ k)" "crs_tail_save c2 = crs_tail_save c" "crs_depth_save c2 = crs_depth_save c"
    by (simp_all add: c2_def c1_def)
  have c': "crs_entries c' = (crs_entries c)[s := e]" "crs_off_path c' = (crs_off_path c)[?t := off]"
    "crs_tail c' = CIRC_INC2 (crs_tail c) (2 ^ k)" "crs_depth c' = crs_depth c2"
    by (simp_all add: c'_def c2)
  have "\<not> (2 ^ k < crs_depth c2)" using dep n by (simp add: word_less_nat_alt)
  then have "crs_depth c \<noteq> 2 ^ k \<longrightarrow> \<not> 2 ^ k < crs_depth c + 1"
    by (simp add: c2_def split: if_splits)
  then have run: "crs_push (2 ^ k) a m off c = Some c'"
    using s t le by (simp add: crs_push_def Let_def c'_def c2_def c1_def e_def s_def)
  have ok': "crs_ok k c'"
    using dep up t sv le by (auto simp: crs_ok_def c'_def c2 ring_up_lt)
  have on': "on_path c'" if "\<not> off"
    using path [OF that] that by (auto simp: on_path_def c'_def c2 dest: in_set_updD)
  have upd: "stack_at k es (\<lambda>j. (crs_off_path c)[?t := off] ! j) x y =
      stack_at k es ((\<lambda>j. crs_off_path c ! j)(?t := off)) x y" if "x < 2 ^ k" "y \<le> 2 ^ k" for es x y
    using that le t by (intro stack_at_cong) (auto simp: nth_list_update)
  have "crs_visible k c' = stack_at k ((crs_entries c)[s := e]) ((\<lambda>j. crs_off_path c ! j)(?t := off))
      (ring_up (2 ^ k) ?t) (min (2 ^ k) (Suc ?m))"
    using upd [OF ring_up_lt [OF t] min.cobounded1] by (simp only: crs_visible_def c' up dep)
  also have "\<dots> = take (2 ^ k) (a # crs_visible k c)"
    unfolding stack_at_push [OF t m s] by (simp add: crs_visible_def e_def)
  finally have vis: "crs_visible k c' = take (2 ^ k) (a # crs_visible k c)" .
  have "crs_saved k c' = (if off then crs_saved k c else crs_visible k c')"
  proof (cases off)
    case True
    then have "s \<noteq> 2 * ring_back (2 ^ k) x i + of_bool False" for x i
      unfolding s(1) by simp presburger
    then show ?thesis using True by (simp add: crs_saved_def c'_def c2 stack_at_other)
  next
    case False
    then show ?thesis using on_path_saved [OF ok' on'] by simp
  qed
  with run ok' on' vis show thesis by (intro that [of c']) auto
qed

lemma crs_pop_ok:
  assumes ok: "crs_ok k c" and k: "k \<le> 31" and path: "\<not> off \<Longrightarrow> on_path c"
  obtains c' where
    "crs_pop (2 ^ k) off c = Some (case crs_visible k c of [] \<Rightarrow> None | a # _ \<Rightarrow> Some a, c')" "crs_ok k c'"
    "\<not> off \<Longrightarrow> on_path c'" "crs_visible k c' = tl (crs_visible k c)"
    "crs_saved k c' = (if off then crs_saved k c else crs_visible k c')"
proof -
  let ?t = "unat (crs_tail c)" and ?t' = "CIRC_DEC2 (crs_tail c) (2 ^ k)"
  have t: "?t < 2 ^ k" and m: "unat (crs_depth c) \<le> 2 ^ k" and le: "length (crs_entries c) = 2 * 2 ^ k" "length (crs_off_path c) = 2 ^ k"
    and sv: "unat (crs_tail_save c) < 2 ^ k" "unat (crs_depth_save c) \<le> 2 ^ k"
    using ok by (auto simp: crs_ok_def)
  have down: "unat ?t' = ring_down (2 ^ k) ?t" using k t by (simp add: unat_CIRC_DEC2)
  have t': "unat ?t' < 2 ^ k" using down ring_down_lt [OF t] by simp
  have sl: "crs_slot ?t' f = 2 * unat ?t' + of_bool f" for f using t' k by (simp add: crs_slot_eq)
  have in_range: "2 * unat ?t' + of_bool f < length (crs_entries c)" for f using t' le by (cases f) auto
  show thesis
  proof (cases "crs_depth c = 0")
    case True
    then have "crs_visible k c = []" by (simp add: crs_visible_def stack_at_def)
    with True t' le in_range show thesis using ok path on_path_saved [OF ok]
      by (intro that [of c]) (auto simp: crs_pop_def Let_def sl)
  next
    case False
    define c1 where "c1 = c\<lparr>crs_tail := ?t', crs_depth := crs_depth c - 1\<rparr>"
    define c' where "c' = (if off then c1 else c1\<lparr>crs_tail_save := crs_tail c1, crs_depth_save := crs_depth c1\<rparr>)"
    let ?s = "crs_slot ?t' (crs_off_path c ! unat ?t')"
    have "1 \<le> crs_depth c" using inc_le [of 0 "crs_depth c"] False by (simp add: word_gt_0)
    then obtain m' where m': "unat (crs_depth c) = Suc m'" "unat (crs_depth c - 1) = m'"
      using False by (cases "unat (crs_depth c)") (auto simp: unat_sub unat_eq_0)
    have vis: "crs_visible k c = cr_addr (crs_entries c ! ?s) # crs_visible k c1"
      using t m m' by (simp add: crs_visible_def c1_def stack_at_pop down sl)
    have vis': "crs_visible k c' = crs_visible k c1" by (simp add: crs_visible_def c'_def)
    have "unat ?t' < length (crs_off_path c)" "?s < length (crs_entries c)"
      using t' le(2) in_range by (simp_all only: sl)
    with False have run: "crs_pop (2 ^ k) off c = Some (Some (cr_addr (crs_entries c ! ?s)), c')"
      by (simp add: crs_pop_def Let_def c'_def c1_def)
    have ok': "crs_ok k c'" using ok t' m m' by (auto simp: crs_ok_def c'_def c1_def)
    have on': "on_path c'" if "\<not> off"
      using path [OF that] that by (auto simp: on_path_def c'_def c1_def)
    have "crs_saved k c' = (if off then crs_saved k c else crs_visible k c')"
    proof (cases off)
      case False
      then show ?thesis using on_path_saved [OF ok' on'] by simp
    qed (simp add: crs_saved_def c'_def c1_def)
    with run ok' on' vis vis' show thesis by (intro that [of c']) auto
  qed
qed

section \<open>Recovery\<close>

lemma unat_ucast_8_32 [simp]: "unat (ucast (x :: uns8) :: uns) = unat x"
proof -
  have "unat x < 2 ^ 32" using unsigned_less [where 'a = nat, of x] by simp
  then show ?thesis by (simp add: unsigned_ucast_eq take_bit_nat_eq_self)
qed

lemma crs_clear_ok:
  assumes "unat n \<le> 255" "length fl = unat n" "unat ii \<le> unat n"
  shows "crs_clear n ii fl = Some (take (unat ii) fl @ replicate (unat n - unat ii) False)"
  using assms(2,3)
proof (induction "unat n - unat ii" arbitrary: ii fl)
  case 0
  then have "\<not> ucast ii < n" by (simp add: word_less_nat_alt)
  with 0 show ?case by (subst crs_clear.simps) simp
next
  case (Suc m)
  then have lt: "unat ii < unat n" by simp
  then have "ucast ii < n" by (simp add: word_less_nat_alt)
  have "unat (ii + 1) = Suc (unat ii)"
    using lt assms(1) unat_add_lem [of ii 1] by simp
  then have ii: "m = unat n - unat (ii + 1)" "unat (ii + 1) \<le> unat n" "unat (ii + 1) = Suc (unat ii)"
    using Suc.hyps(2) lt by simp_all
  have "crs_clear n ii fl = crs_clear n (ii + 1) (fl[unat ii := False])"
    using \<open>ucast ii < n\<close> lt Suc.prems by (subst crs_clear.simps) simp
  also have "\<dots> = Some (take (unat ii) fl @ False # replicate (unat n - Suc (unat ii)) False)"
    using Suc.hyps(1) [OF ii(1), of "fl[unat ii := False]"] ii Suc.prems lt
    by (simp add: take_Suc_conv_app_nth)
  also have "False # replicate (unat n - Suc (unat ii)) False = replicate (unat n - unat ii) False"
    using lt by (simp add: Suc_diff_Suc flip: replicate_Suc)
  finally show ?case .
qed

text \<open>With more than 255 entries the 8-bit counter never reaches the bound.\<close>

lemma crs_clear_ends:
  assumes "crs_clear n ii fl = Some r"
  shows "unat n \<le> 255"
proof (rule crs_clear.raw_induct [OF _ assms])
  fix f :: "uns \<Rightarrow> uns8 \<Rightarrow> bool list \<Rightarrow> bool list option" and n ii fl r
  assume IH: "\<And>(n::uns) ii fl r. f n ii fl = Some r \<Longrightarrow> unat n \<le> 255"
    and r: "(if ucast ii < n then if unat ii < length fl then f n (ii + 1) (fl[unat ii := False]) else None
      else Some fl) = Some r"
  show "unat n \<le> 255"
  proof (cases "ucast ii < n")
    case True
    with r IH show ?thesis by (auto split: if_splits)
  next
    case False
    then have "unat n \<le> unat ii" by (simp add: word_less_nat_alt)
    moreover have "unat ii < 256" using unsigned_less [where 'a = nat, of ii] by simp
    ultimately show ?thesis by simp
  qed
qed

lemma crs_recover_ok:
  assumes ok: "crs_ok k c" and k: "k \<le> 7"
  obtains c' where "crs_recover (2 ^ k) c = Some c'" "crs_ok k c'" "on_path c'"
    "crs_visible k c' = crs_saved k c" "crs_saved k c' = crs_saved k c"
proof -
  define c' where "c' = c\<lparr>crs_off_path := replicate (2 ^ k) False, crs_tail := crs_tail_save c, crs_depth := crs_depth_save c\<rparr>"
  have "(2::nat) ^ k \<le> 2 ^ 7" using k by (intro power_increasing) auto
  then have n: "unat (2 ^ k :: uns) = 2 ^ k" "(2::nat) ^ k \<le> 255" using k by (simp_all add: unat_pow2)
  have "crs_recover (2 ^ k) c = Some c'"
    using crs_clear_ok [of "2 ^ k" "crs_off_path c" 0] ok n by (simp add: crs_recover_def c'_def crs_ok_def)
  moreover have ok': "crs_ok k c'" and on': "on_path c'" using ok by (auto simp: crs_ok_def on_path_def c'_def)
  moreover have "crs_saved k c' = crs_saved k c" by (simp add: crs_saved_def c'_def)
  ultimately show thesis using on_path_saved [OF ok' on'] by (intro that [of c']) auto
qed

section \<open>Sequences of operations\<close>

datatype crs_event = Crs_Push Op | Crs_Pop Op | Crs_Recover

text \<open>What the pops of a sequence return, and the state it ends in.\<close>

fun crs_run :: "bp_params \<Rightarrow> crs_event list \<Rightarrow> Bp_Data \<Rightarrow> (Addr list \<times> Bp_Data) option" where
  "crs_run P [] d = Some ([], d)"
| "crs_run P (Crs_Push op # evs) d =
     (case bp_crs_push P op d of None \<Rightarrow> None | Some d \<Rightarrow> crs_run P evs d)"
| "crs_run P (Crs_Pop op # evs) d =
     (case bp_crs_pop P op d of
        None \<Rightarrow> None
      | Some (a, d) \<Rightarrow> map_option (\<lambda>(as, d). (a # as, d)) (crs_run P evs d))"
| "crs_run P (Crs_Recover # evs) d =
     (case bp_crs_recover P d of None \<Rightarrow> None | Some d \<Rightarrow> crs_run P evs d)"

text \<open>
  The specification: a stack of at most \<open>n\<close> addresses, which loses its oldest when it is full, and a
  copy of it that the ops on the path keep up to date and a recovery returns to.
\<close>

definition top_or :: "Addr \<Rightarrow> Addr list \<Rightarrow> Addr" where
  "top_or a s = (case s of [] \<Rightarrow> a | b # _ \<Rightarrow> b)"

fun crs_spec :: "nat \<Rightarrow> (Op \<Rightarrow> Addr list \<Rightarrow> Addr) \<Rightarrow> crs_event list \<Rightarrow> Addr list \<Rightarrow> Addr list \<Rightarrow> Addr list" where
  "crs_spec n ans [] s saved = []"
| "crs_spec n ans (Crs_Push op # evs) s saved =
     (let s = take n (return_addr op # s) in crs_spec n ans evs s (if op_off_path op then saved else s))"
| "crs_spec n ans (Crs_Pop op # evs) s saved =
     ans op s # crs_spec n ans evs (tl s) (if op_off_path op then saved else tl s)"
| "crs_spec n ans (Crs_Recover # evs) s saved = crs_spec n ans evs saved saved"

text \<open>After an op off the path there are only such ops until the next recovery.\<close>

fun path_order :: "uns \<Rightarrow> bool \<Rightarrow> crs_event list \<Rightarrow> bool" where
  "path_order p off [] \<longleftrightarrow> True"
| "path_order p off (Crs_Push op # evs) \<longleftrightarrow>
     op_proc_id op = p \<and> (off \<longrightarrow> op_off_path op) \<and> path_order p (op_off_path op) evs"
| "path_order p off (Crs_Pop op # evs) \<longleftrightarrow>
     op_proc_id op = p \<and> (off \<longrightarrow> op_off_path op) \<and> path_order p (op_off_path op) evs"
| "path_order p off (Crs_Recover # evs) \<longleftrightarrow> path_order p False evs"

lemma crs_result_top:
  "crs_result P op d (case s of [] \<Rightarrow> None | a # _ \<Rightarrow> Some a) =
     (if PERFECT_CRS P then oi_target (op_oracle_info op)
      else top_or (convert_to_cmp_addr (ucast (bd_proc_id d)) 0) s)"
  by (cases s) (simp_all add: crs_result_def top_or_def)

definition crs_answer :: "bp_params \<Rightarrow> uns \<Rightarrow> Op \<Rightarrow> Addr list \<Rightarrow> Addr" where
  "crs_answer P p op s =
     (if PERFECT_CRS P then oi_target (op_oracle_info op) else top_or (convert_to_cmp_addr (ucast p) 0) s)"

lemma crs_run_refines:
  assumes "CRS_ENTRIES P = 2 ^ k" "k \<le> 7"
  shows "crs_ok k (bd_crs d) \<Longrightarrow> (\<not> off \<Longrightarrow> on_path (bd_crs d)) \<Longrightarrow> path_order (bd_proc_id d) off evs \<Longrightarrow>
    \<exists>d'. crs_run P evs d =
        Some (crs_spec (2 ^ k) (crs_answer P (bd_proc_id d)) evs (crs_visible k (bd_crs d)) (crs_saved k (bd_crs d)), d') \<and>
      crs_ok k (bd_crs d')"
proof (induction evs arbitrary: d off)
  case Nil
  then show ?case by simp
next
  case (Cons ev evs)
  have k: "k \<le> 31" using assms(2) by simp
  show ?case
  proof (cases ev)
    case (Crs_Push op)
    then have path: "\<not> op_off_path op \<Longrightarrow> on_path (bd_crs d)" and pid: "op_proc_id op = bd_proc_id d"
      using Cons.prems(2,3) by auto
    obtain c where c: "crs_push (2 ^ k) (return_addr op) (op_op_num op) (op_off_path op) (bd_crs d) = Some c"
      "crs_ok k c" "\<not> op_off_path op \<Longrightarrow> on_path c"
      "crs_visible k c = take (2 ^ k) (return_addr op # crs_visible k (bd_crs d))"
      "crs_saved k c = (if op_off_path op then crs_saved k (bd_crs d) else crs_visible k c)"
      using crs_push_ok [OF Cons.prems(1) k path] by blast
    from Cons.IH [of "d\<lparr>bd_crs := c\<rparr>" "op_off_path op"] c Cons.prems(3) Crs_Push pid show ?thesis
      by (cases "op_off_path op") (simp_all add: bp_crs_push_def assms(1) Let_def)
  next
    case (Crs_Pop op)
    then have path: "\<not> op_off_path op \<Longrightarrow> on_path (bd_crs d)" and pid: "op_proc_id op = bd_proc_id d"
      using Cons.prems(2,3) by auto
    obtain c where c: "crs_pop (2 ^ k) (op_off_path op) (bd_crs d) =
        Some (case crs_visible k (bd_crs d) of [] \<Rightarrow> None | a # _ \<Rightarrow> Some a, c)"
      "crs_ok k c" "\<not> op_off_path op \<Longrightarrow> on_path c" "crs_visible k c = tl (crs_visible k (bd_crs d))"
      "crs_saved k c = (if op_off_path op then crs_saved k (bd_crs d) else crs_visible k c)"
      using crs_pop_ok [OF Cons.prems(1) k path] by blast
    from Cons.IH [of "d\<lparr>bd_crs := c\<rparr>" "op_off_path op"] c Cons.prems(3) Crs_Pop pid show ?thesis
      by (auto simp: bp_crs_pop_def assms(1) crs_result_top crs_answer_def)
  next
    case Crs_Recover
    obtain c where c: "crs_recover (2 ^ k) (bd_crs d) = Some c" "crs_ok k c" "on_path c"
      "crs_visible k c = crs_saved k (bd_crs d)" "crs_saved k c = crs_saved k (bd_crs d)"
      using crs_recover_ok [OF Cons.prems(1) assms(2)] by blast
    from Cons.IH [of "d\<lparr>bd_crs := c\<rparr>" False] c Cons.prems(3) Crs_Recover show ?thesis
      by (simp add: bp_crs_recover_def assms(1))
  qed
qed

section \<open>The realistic form\<close>

text \<open>The positions of the top \<open>m\<close> elements, following the links from \<open>t\<close>.\<close>

fun nos_chain :: "Crs_Entry list \<Rightarrow> nat \<Rightarrow> nat \<Rightarrow> nat list" where
  "nos_chain es t 0 = []"
| "nos_chain es t (Suc m) = t # nos_chain es (unat (cr_nos (es ! t))) m"

definition crs_linked :: "Crs \<Rightarrow> nat list" where
  "crs_linked c = nos_chain (crs_entries c) (unat (crs_tos c)) (unat (crs_depth c))"

definition linked_stack :: "Crs \<Rightarrow> Addr list" where
  "linked_stack c = map (\<lambda>j. cr_addr (crs_entries c ! j)) (crs_linked c)"

definition real_ok :: "nat \<Rightarrow> Crs \<Rightarrow> bool" where
  "real_ok k c \<longleftrightarrow> 2 ^ k \<le> length (crs_entries c) \<and> length (crs_off_path c) = 2 ^ k \<and>
     unat (crs_next c) < 2 ^ k \<and> unat (crs_tos c) < 2 ^ k \<and> unat (crs_depth c) \<le> 2 ^ k \<and>
     (\<forall>j < 2 ^ k. unat (cr_nos (crs_entries c ! j)) < 2 ^ k)"

lemma nos_chain_cong:
  "(\<And>j. j \<in> set (nos_chain es t m) \<Longrightarrow> es ! j = es' ! j) \<Longrightarrow> nos_chain es' t m = nos_chain es t m"
  by (induction m arbitrary: t) auto

lemma linked_stack_cong:
  assumes "\<And>j. j \<in> set (crs_linked c) \<Longrightarrow> crs_entries c' ! j = crs_entries c ! j"
    "crs_tos c' = crs_tos c" "crs_depth c' = crs_depth c"
  shows "crs_linked c' = crs_linked c" "linked_stack c' = linked_stack c"
proof -
  show l: "crs_linked c' = crs_linked c"
    using nos_chain_cong [of "crs_entries c" "unat (crs_tos c)" "unat (crs_depth c)" "crs_entries c'"] assms
    by (simp add: crs_linked_def)
  show "linked_stack c' = linked_stack c" using assms(1) by (simp add: linked_stack_def l)
qed

text \<open>A push to a position outside the stack, when it is not full, and the pop of the link scheme.\<close>

lemma crs_realistic_push_total:
  assumes ok: "real_ok k c" and k: "k \<le> 31"
  obtains c' where "crs_realistic_push (2 ^ k) a m off c = Some c'" "real_ok k c'"
    "unat (crs_next c') = ring_up (2 ^ k) (unat (crs_next c))" "crs_tos c' = crs_next c"
    "unat (crs_depth c') = min (2 ^ k) (Suc (unat (crs_depth c)))"
    "crs_entries c' = (crs_entries c)[unat (crs_next c) := \<lparr>cr_addr = a, cr_op_num = m, cr_nos = crs_tos c\<rparr>]"
proof -
  let ?x = "unat (crs_next c)"
  have x: "?x < 2 ^ k" "?x < length (crs_entries c)" "?x < length (crs_off_path c)" "unat (crs_depth c) \<le> 2 ^ k"
    using ok by (auto simp: real_ok_def)
  have n: "unat (2 ^ k :: uns) = 2 ^ k" using k by (simp add: unat_pow2)
  have up: "unat (CIRC_INC2 (crs_next c) (2 ^ k)) = ring_up (2 ^ k) ?x" using k x by (simp add: unat_CIRC_INC2)
  have "(2::nat) ^ k \<le> 2 ^ 31" using k by (intro power_increasing) auto
  then have dep: "unat (if crs_depth c = 2 ^ k then crs_depth c else crs_depth c + 1) = min (2 ^ k) (Suc (unat (crs_depth c)))"
  proof (cases "crs_depth c = 2 ^ k")
    case False
    then have "unat (crs_depth c) \<noteq> 2 ^ k" using n by (metis word_unat_eq_iff)
    with x \<open>(2::nat) ^ k \<le> 2 ^ 31\<close> False show ?thesis by (simp add: unat_Suc_uns min_def)
  qed (simp add: n)
  define c' where "c' = c\<lparr>crs_entries := (crs_entries c)[?x := \<lparr>cr_addr = a, cr_op_num = m, cr_nos = crs_tos c\<rparr>],
    crs_off_path := (crs_off_path c)[?x := off], crs_tos := crs_next c, crs_next := CIRC_INC2 (crs_next c) (2 ^ k),
    crs_depth := (if crs_depth c = 2 ^ k then crs_depth c else crs_depth c + 1)\<rparr>"
  have "\<not> 2 ^ k < crs_depth c'" using dep n by (simp add: word_less_nat_alt c'_def)
  then have "crs_realistic_push (2 ^ k) a m off c = Some c'"
    using x by (simp add: crs_realistic_push_def Let_def c'_def split: if_splits)
  moreover have "real_ok k c'"
    using ok dep up x by (auto simp: real_ok_def c'_def ring_up_lt nth_list_update)
  ultimately show thesis using up dep by (intro that [of c']) (simp_all add: c'_def)
qed

lemma push_linked:
  assumes c': "crs_tos c' = crs_next c" "unat (crs_depth c') = Suc (unat (crs_depth c))"
    "crs_entries c' = (crs_entries c)[unat (crs_next c) := \<lparr>cr_addr = a, cr_op_num = m, cr_nos = crs_tos c\<rparr>]"
    and x: "unat (crs_next c) < length (crs_entries c)" "unat (crs_next c) \<notin> set (crs_linked c)"
  shows "crs_linked c' = unat (crs_next c) # crs_linked c" "linked_stack c' = a # linked_stack c"
proof -
  have same: "crs_entries c' ! j = crs_entries c ! j" if "j \<in> set (crs_linked c)" for j
  proof -
    have "unat (crs_next c) \<noteq> j" using that x(2) by blast
    then show ?thesis by (simp add: c'(3))
  qed
  have "nos_chain (crs_entries c') (unat (crs_tos c)) (unat (crs_depth c)) = crs_linked c"
    using same nos_chain_cong [of "crs_entries c" "unat (crs_tos c)" "unat (crs_depth c)" "crs_entries c'"]
    by (simp add: crs_linked_def)
  then show l: "crs_linked c' = unat (crs_next c) # crs_linked c"
    using x(1) by (simp add: crs_linked_def c')
  show "linked_stack c' = a # linked_stack c"
    using same x(1) by (simp add: linked_stack_def l) (simp add: c'(3))
qed

lemma crs_realistic_pop_ok:
  assumes ok: "real_ok k c" and k: "k \<le> 31"
  obtains c' where "crs_realistic_pop 1 (2 ^ k) c = Some (case linked_stack c of [] \<Rightarrow> None | a # _ \<Rightarrow> Some a, c')"
    "real_ok k c'" "crs_entries c' = crs_entries c" "crs_next c' = crs_next c"
    "crs_linked c' = tl (crs_linked c)" "linked_stack c' = tl (linked_stack c)"
proof -
  let ?s = "unat (crs_tos c)"
  have s: "?s < 2 ^ k" "?s < length (crs_entries c)" using ok by (auto simp: real_ok_def)
  show thesis
  proof (cases "crs_depth c = 0")
    case True
    then have "crs_linked c = []" "linked_stack c = []" by (simp_all add: linked_stack_def crs_linked_def)
    with True s ok show thesis by (intro that [of c]) (simp_all add: crs_realistic_pop_def Let_def)
  next
    case False
    have "1 \<le> crs_depth c" using inc_le [of 0 "crs_depth c"] False by (simp add: word_gt_0)
    then obtain m where m: "unat (crs_depth c) = Suc m" "unat (crs_depth c - 1) = m"
      using False by (cases "unat (crs_depth c)") (auto simp: unat_sub unat_eq_0)
    let ?c = "c\<lparr>crs_depth := crs_depth c - 1, crs_tos := cr_nos (crs_entries c ! ?s)\<rparr>"
    have l: "crs_linked c = ?s # crs_linked ?c" by (simp add: crs_linked_def m)
    then have "linked_stack c = cr_addr (crs_entries c ! ?s) # linked_stack ?c" by (simp add: linked_stack_def)
    moreover have "real_ok k ?c" using ok m s by (auto simp: real_ok_def)
    ultimately show thesis using l False s
      by (intro that [of ?c]) (simp_all add: crs_realistic_pop_def Let_def)
  qed
qed

text \<open>The state after a sequence of pushes and pops, and the number of pushes in it.\<close>

fun crs_realistic_run :: "bp_params \<Rightarrow> crs_event list \<Rightarrow> Bp_Data \<Rightarrow> Bp_Data option" where
  "crs_realistic_run P [] d = Some d"
| "crs_realistic_run P (Crs_Push op # evs) d =
     (case bp_crs_realistic_push P op d of None \<Rightarrow> None | Some (_, d) \<Rightarrow> crs_realistic_run P evs d)"
| "crs_realistic_run P (Crs_Pop op # evs) d =
     (case bp_crs_realistic_pop P op d of None \<Rightarrow> None | Some (_, _, d) \<Rightarrow> crs_realistic_run P evs d)"
| "crs_realistic_run P (Crs_Recover # evs) d = None"

fun no_recovery :: "uns \<Rightarrow> crs_event list \<Rightarrow> bool" where
  "no_recovery p [] \<longleftrightarrow> True"
| "no_recovery p (Crs_Push op # evs) \<longleftrightarrow> op_proc_id op = p \<and> no_recovery p evs"
| "no_recovery p (Crs_Pop op # evs) \<longleftrightarrow> op_proc_id op = p \<and> no_recovery p evs"
| "no_recovery p (Crs_Recover # evs) \<longleftrightarrow> False"

fun pushes :: "crs_event list \<Rightarrow> nat" where
  "pushes [] = 0"
| "pushes (Crs_Push op # evs) = Suc (pushes evs)"
| "pushes (_ # evs) = pushes evs"

lemma crs_realistic_run_ok:
  assumes P: "CRS_ENTRIES P = 2 ^ k" "k \<le> 31" "CRS_REALISTIC P = 1"
  shows "real_ok k (bd_crs d) \<Longrightarrow> no_recovery (bd_proc_id d) evs \<Longrightarrow>
    \<exists>d'. crs_realistic_run P evs d = Some d' \<and> real_ok k (bd_crs d') \<and>
      (\<forall>j. (\<forall>i < pushes evs. j \<noteq> (unat (crs_next (bd_crs d)) + i) mod 2 ^ k) \<longrightarrow>
        crs_entries (bd_crs d') ! j = crs_entries (bd_crs d) ! j)"
proof (induction evs arbitrary: d)
  case Nil
  then show ?case by simp
next
  case (Cons ev evs)
  show ?case
  proof (cases ev)
    case (Crs_Push op)
    let ?x = "unat (crs_next (bd_crs d))"
    obtain c where c: "crs_realistic_push (2 ^ k) (return_addr op) (op_op_num op) (op_off_path op) (bd_crs d) = Some c"
      "real_ok k c" "unat (crs_next c) = ring_up (2 ^ k) ?x"
      "\<And>j. j \<noteq> ?x \<Longrightarrow> crs_entries c ! j = crs_entries (bd_crs d) ! j"
      using crs_realistic_push_total [OF Cons.prems(1) P(2)] by (metis nth_list_update_neq)
    obtain d' where d': "crs_realistic_run P evs (d\<lparr>bd_crs := c\<rparr>) = Some d'" "real_ok k (bd_crs d')"
      and same: "\<And>j. (\<forall>i < pushes evs. j \<noteq> (ring_up (2 ^ k) ?x + i) mod 2 ^ k) \<Longrightarrow>
        crs_entries (bd_crs d') ! j = crs_entries c ! j"
      using Cons.IH [of "d\<lparr>bd_crs := c\<rparr>"] c Cons.prems(2) Crs_Push by auto
    have x: "?x < 2 ^ k" using Cons.prems(1) by (simp add: real_ok_def)
    have up: "(ring_up (2 ^ k) ?x + i) mod 2 ^ k = (?x + Suc i) mod 2 ^ k" for i
    proof (cases "Suc ?x = 2 ^ k")
      case True
      then have "?x + Suc i = i + 2 ^ k" by simp
      with True show ?thesis by (simp only: ring_up_def refl if_True add_0 mod_add_self2)
    qed (simp add: ring_up_def)
    have "crs_entries (bd_crs d') ! j = crs_entries (bd_crs d) ! j"
      if j: "\<forall>i < Suc (pushes evs). j \<noteq> (?x + i) mod 2 ^ k" for j
    proof -
      have "j \<noteq> ?x" using j x by (auto dest: spec [of _ 0])
      moreover have "j \<noteq> (ring_up (2 ^ k) ?x + i) mod 2 ^ k" if "i < pushes evs" for i
        using j that unfolding up by blast
      ultimately show ?thesis using same c(4) by simp
    qed
    with d' c Cons.prems Crs_Push P show ?thesis
      by (simp add: bp_crs_realistic_push_def)
  next
    case (Crs_Pop op)
    obtain c r where c: "crs_realistic_pop 1 (2 ^ k) (bd_crs d) = Some (r, c)" "real_ok k c"
      "crs_next c = crs_next (bd_crs d)" "crs_entries c = crs_entries (bd_crs d)"
      using crs_realistic_pop_ok [OF Cons.prems(1) P(2)] by metis
    from Cons.IH [of "d\<lparr>bd_crs := c\<rparr>"] c Cons.prems Crs_Pop P show ?thesis
      by (auto simp: bp_crs_realistic_pop_def)
  next
    case Crs_Recover
    with Cons.prems show ?thesis by simp
  qed
qed

end
