(* ===== verification/Bp_Targ.thy ===== *)
theory Bp_Targ
  imports Bp_Types
begin

text \<open>
  The target buffers of \<^verbatim>\<open>bp/bp_targ_mech.c\<close>: the branch target buffer, and the three predictors of
  indirect targets, the tagless and the tagged target cache and their hybrid. The tagged structures are
  caches of \<^verbatim>\<open>Cache_Lib\<close> with lines of size 1, whose data buffers hold a target.

  A function that returns a pointer into a buffer returns the target it points to. \<open>None\<close> is a failed
  assertion, an access outside an array or a null pointer dereferenced.
\<close>

section \<open>The branch target buffer\<close>

text \<open>\<open>u\<close>, \<open>us\<close> and \<open>up\<close> are the uninitialised memory that \<^verbatim>\<open>init_cache\<close> sees.\<close>

definition bp_btb_gen_init ::
    "bp_params \<Rightarrow> Cache_Env \<Rightarrow> (nat \<Rightarrow> nat \<Rightarrow> Cache_Entry) \<Rightarrow> (nat \<Rightarrow> nat \<Rightarrow> Cache_Entry) \<Rightarrow> (nat \<Rightarrow> uns) \<Rightarrow>
     Bp_Data \<times> Heap \<Rightarrow> (Bp_Data \<times> Heap) option" where
  "bp_btb_gen_init P E u us up = (\<lambda>(d, h).
     map_option (\<lambda>(c, h). (d\<lparr>bd_btb := c\<rparr>, h))
       (init_cache E u us up (bd_btb d) ''BTB'' (BTB_ENTRIES P) (BTB_ASSOC P) 1 8 REPL_TRUE_LRU h))"

text \<open>The target found, or \<open>None\<close> in the first component for a miss.\<close>

definition bp_btb_gen_pred ::
    "bp_params \<Rightarrow> Cache_Env \<Rightarrow> Op \<Rightarrow> Bp_Data \<times> Heap \<Rightarrow> (Addr option \<times> Bp_Data \<times> Heap) option" where
  "bp_btb_gen_pred P E op = (\<lambda>(d, h).
     (if PERFECT_BTB P then Some (Some (oi_target (op_oracle_info op)), d, h)
      else case cache_access E (oi_pred_addr (op_oracle_info op)) True (bd_btb d, h) of
             None \<Rightarrow> None
           | Some (p, _, c, h) \<Rightarrow>
               if p = 0 then Some (None, d\<lparr>bd_btb := c\<rparr>, h)
               else map_option (\<lambda>a. (Some a, d\<lparr>bd_btb := c\<rparr>, h)) (load_Addr p h)))"

definition bp_btb_gen_update :: "bp_params \<Rightarrow> Cache_Env \<Rightarrow> Op \<Rightarrow> Bp_Data \<times> Heap \<Rightarrow> (Bp_Data \<times> Heap) option" where
  "bp_btb_gen_update P E op = (\<lambda>(d, h).
     (if bd_proc_id d \<noteq> op_proc_id op then None
      else if BTB_OFF_PATH_WRITES P \<or> \<not> op_off_path op then
        (case cache_insert E (ucast (bd_proc_id d)) (oi_pred_addr (op_oracle_info op)) (bd_btb d, h) of
           None \<Rightarrow> None
         | Some (p, _, _, c, h) \<Rightarrow>
             map_option (\<lambda>h. (d\<lparr>bd_btb := c\<rparr>, h)) (store_Addr p (oi_target (op_oracle_info op)) h))
      else Some (d, h)))"

section \<open>The target history\<close>

text \<open>
  The bits of a target that go into the path history. In C the shifts bind tighter than the mask, so the
  mask is shifted and not the masked bits.
\<close>

definition targ_bits :: "uns8 \<Rightarrow> Addr \<Rightarrow> uns32" where
  "targ_bits len target =
     ucast (drop_bit 2 target AND push_bit (32 - unat len) (N_BIT_MASK (unat len)))"

text \<open>
  The update of the history that the two predictors share: the op with what it remembers for the update
  and the recovery, the history used for this prediction, and the predictor. Shifting a 32-bit
  history by 32 bits or more is undefined.
\<close>

definition targ_hist_step :: "bp_params \<Rightarrow> Op \<Rightarrow> Bp_Data \<Rightarrow> (uns32 \<times> Op \<times> Bp_Data) option" where
  "targ_hist_step P op d =
     (let len = bd_target_bit_length d; target = oi_target (op_oracle_info op)
      in if USE_PAT_HIST P then
           let hist = bd_global_hist d
           in Some (hist,
                upd_recovery (\<lambda>r. r\<lparr>ri_targ_hist := hist\<rparr>) (upd_oracle (\<lambda>o'. o'\<lparr>oi_pred_targ_hist := hist\<rparr>) op),
                d\<lparr>bd_targ_hist := hist\<rparr>)
         else if \<not> len < 32 then None
         else
           let hist = bd_targ_hist d; new_hist = drop_bit (unat len) hist OR targ_bits len target
           in Some (hist,
                upd_recovery (\<lambda>r. r\<lparr>ri_targ_hist := new_hist\<rparr>) (upd_oracle (\<lambda>o'. o'\<lparr>oi_pred_targ_hist := hist\<rparr>) op),
                d\<lparr>bd_targ_hist := new_hist\<rparr>))"

section \<open>The tagged target cache\<close>

definition bp_ibtb_tc_tagged_init ::
    "bp_params \<Rightarrow> Cache_Env \<Rightarrow> (nat \<Rightarrow> nat \<Rightarrow> Cache_Entry) \<Rightarrow> (nat \<Rightarrow> nat \<Rightarrow> Cache_Entry) \<Rightarrow> (nat \<Rightarrow> uns) \<Rightarrow>
     Bp_Data \<times> Heap \<Rightarrow> (Bp_Data \<times> Heap) option" where
  "bp_ibtb_tc_tagged_init P E u us up = (\<lambda>(d, h).
     map_option (\<lambda>(c, h). (d\<lparr>bd_tc_tagged := c\<rparr>, h))
       (init_cache E u us up (bd_tc_tagged d) ''TC'' (TC_ENTRIES P) (TC_ASSOC P) 1 8 REPL_TRUE_LRU h))"

text \<open>\<^verbatim>\<open>uns32 tc_index = hist ^ addr\<close>, hashed with the top of the call return stack on demand.\<close>

definition tagged_index :: "bp_params \<Rightarrow> uns32 \<Rightarrow> Op \<Rightarrow> Addr" where
  "tagged_index P hist op =
     (let ix = ucast (ucast hist XOR oi_pred_addr (op_oracle_info op)) :: uns32
      in if IBTB_HASH_TOS P then ucast (ucast (ucast ix XOR ri_tos_addr (op_recovery_info op)) :: uns32) else ucast ix)"

definition bp_ibtb_tc_tagged_pred ::
    "bp_params \<Rightarrow> Cache_Env \<Rightarrow> Op \<Rightarrow> Bp_Data \<times> Heap \<Rightarrow> (Addr \<times> Op \<times> Bp_Data \<times> Heap) option" where
  "bp_ibtb_tc_tagged_pred P E op = (\<lambda>(d, h).
     (if PERFECT_IBP P then Some (oi_target (op_oracle_info op), op, d, h)
      else case targ_hist_step P op d of
        None \<Rightarrow> None
      | Some (hist, op, d) \<Rightarrow>
          (case cache_access E (tagged_index P hist op) True (bd_tc_tagged d, h) of
             None \<Rightarrow> None
           | Some (p, _, c, h) \<Rightarrow>
               map_option (\<lambda>a. (a, op, d\<lparr>bd_tc_tagged := c\<rparr>, h)) (if p = 0 then Some 0 else load_Addr p h))))"

definition bp_ibtb_tc_tagged_update :: "bp_params \<Rightarrow> Cache_Env \<Rightarrow> Op \<Rightarrow> Bp_Data \<times> Heap \<Rightarrow> (Bp_Data \<times> Heap) option" where
  "bp_ibtb_tc_tagged_update P E op = (\<lambda>(d, h).
     (case cache_insert E (ucast (bd_proc_id d)) (tagged_index P (oi_pred_targ_hist (op_oracle_info op)) op)
             (bd_tc_tagged d, h) of
        None \<Rightarrow> None
      | Some (p, _, _, c, h) \<Rightarrow>
          map_option (\<lambda>h. (d\<lparr>bd_tc_tagged := c\<rparr>, h)) (store_Addr p (oi_target (op_oracle_info op)) h)))"

definition bp_ibtb_tc_tagged_recover :: "Recovery_Info \<Rightarrow> Bp_Data \<Rightarrow> Bp_Data" where
  "bp_ibtb_tc_tagged_recover info d = d\<lparr>bd_targ_hist := ri_targ_hist info\<rparr>"

section \<open>The tagless target cache\<close>

definition bp_ibtb_tc_tagless_init :: "bp_params \<Rightarrow> Bp_Data \<Rightarrow> Bp_Data" where
  "bp_ibtb_tc_tagless_init P d = d\<lparr>bd_tc_tagless := replicate (2 ^ unat (IBTB_HIST_LENGTH P)) 0\<rparr>"

text \<open>
  \<^verbatim>\<open>COOK_HIST_BITS(hist, 0)\<close> and \<^verbatim>\<open>COOK_ADDR_BITS(addr, 2)\<close>, for tables of \<open>2 ^ len\<close> entries. The shifts
  of the code are defined for a length from 1 to 30.
\<close>

definition tc_len_ok :: "bp_params \<Rightarrow> bool" where
  "tc_len_ok P \<longleftrightarrow> 0 < IBTB_HIST_LENGTH P \<and> IBTB_HIST_LENGTH P < 31"

definition tc_hist_bits :: "nat \<Rightarrow> uns32 \<Rightarrow> uns32" where
  "tc_hist_bits len hist = drop_bit (32 - len) hist"

definition tc_addr_bits :: "nat \<Rightarrow> Addr \<Rightarrow> uns32" where
  "tc_addr_bits len a = ucast (drop_bit 2 a AND N_BIT_MASK len)"

definition tagless_index :: "bp_params \<Rightarrow> uns32 \<Rightarrow> Op \<Rightarrow> nat" where
  "tagless_index P hist op =
     (let len = unat (IBTB_HIST_LENGTH P);
          ix = tc_hist_bits len hist XOR tc_addr_bits len (oi_pred_addr (op_oracle_info op))
      in unat (if IBTB_HASH_TOS P then ix XOR tc_addr_bits len (ri_tos_addr (op_recovery_info op)) else ix))"

definition bp_ibtb_tc_tagless_pred :: "bp_params \<Rightarrow> Op \<Rightarrow> Bp_Data \<Rightarrow> (Addr \<times> Op \<times> Bp_Data) option" where
  "bp_ibtb_tc_tagless_pred P op d =
     (if PERFECT_IBP P then Some (oi_target (op_oracle_info op), op, d)
      else case targ_hist_step P op d of
        None \<Rightarrow> None
      | Some (hist, op, d) \<Rightarrow>
          let ix = tagless_index P hist op
          in if tc_len_ok P \<and> ix < length (bd_tc_tagless d) then Some (bd_tc_tagless d ! ix, op, d) else None)"

definition bp_ibtb_tc_tagless_update :: "bp_params \<Rightarrow> Op \<Rightarrow> Bp_Data \<Rightarrow> Bp_Data option" where
  "bp_ibtb_tc_tagless_update P op d =
     (let ix = tagless_index P (oi_pred_targ_hist (op_oracle_info op)) op
      in if tc_len_ok P \<and> ix < length (bd_tc_tagless d)
         then Some (d\<lparr>bd_tc_tagless := (bd_tc_tagless d)[ix := oi_target (op_oracle_info op)]\<rparr>) else None)"

definition bp_ibtb_tc_tagless_recover :: "Recovery_Info \<Rightarrow> Bp_Data \<Rightarrow> Bp_Data" where
  "bp_ibtb_tc_tagless_recover info d = d\<lparr>bd_targ_hist := ri_targ_hist info\<rparr>"

section \<open>The hybrid target cache\<close>

definition TC_SELECTOR_TAGLESS_WEAK :: uns8 where "TC_SELECTOR_TAGLESS_WEAK = 1"

definition TC_SELECTOR_TAGGED_WEAK :: uns8 where "TC_SELECTOR_TAGGED_WEAK = 2"

definition TC_SELECTOR_TAGGED_STRONG :: uns8 where "TC_SELECTOR_TAGGED_STRONG = 3"

definition bp_ibtb_tc_hybrid_init ::
    "bp_params \<Rightarrow> Cache_Env \<Rightarrow> (nat \<Rightarrow> nat \<Rightarrow> Cache_Entry) \<Rightarrow> (nat \<Rightarrow> nat \<Rightarrow> Cache_Entry) \<Rightarrow> (nat \<Rightarrow> uns) \<Rightarrow>
     Bp_Data \<times> Heap \<Rightarrow> (Bp_Data \<times> Heap) option" where
  "bp_ibtb_tc_hybrid_init P E u us up = (\<lambda>(d, h).
     (let n = 2 ^ unat (IBTB_HIST_LENGTH P)
      in map_option (\<lambda>(c, h). (d\<lparr>bd_tc_selector := replicate n TC_SELECTOR_TAGLESS_WEAK,
             bd_tc_tagless := replicate n 0, bd_tc_tagged := c\<rparr>, h))
           (init_cache E u us up (bd_tc_tagged d) ''TC'' (TC_ENTRIES P) (TC_ASSOC P) 1 8 REPL_TRUE_LRU h)))"

text \<open>The selector is indexed as the tagless table, with the history of the conditional branches.\<close>

definition bp_ibtb_tc_hybrid_pred ::
    "bp_params \<Rightarrow> Cache_Env \<Rightarrow> Op \<Rightarrow> Bp_Data \<times> Heap \<Rightarrow> (Addr \<times> Op \<times> Bp_Data \<times> Heap) option" where
  "bp_ibtb_tc_hybrid_pred P E op = (\<lambda>(d, h).
     (let ix = tagless_index P (bd_global_hist d) op; sel = bd_tc_selector d ! ix
      in if bd_proc_id d \<noteq> op_proc_id op \<or> \<not> tc_len_ok P \<or> \<not> ix < length (bd_tc_selector d) \<or>
            TC_SELECTOR_TAGGED_STRONG < sel then None
         else
           map_option (\<lambda>(a, op, d, h).
               (a, upd_oracle (\<lambda>o'. o'\<lparr>oi_pred_global_hist := bd_global_hist d, oi_pred_tc_selector_entry := sel\<rparr>) op, d, h))
             (if TC_SELECTOR_TAGGED_WEAK \<le> sel then bp_ibtb_tc_tagged_pred P E op (d, h)
              else map_option (\<lambda>(a, op, d). (a, op, d, h)) (bp_ibtb_tc_tagless_pred P op d))))"

definition tagged_then :: "bp_params \<Rightarrow> Cache_Env \<Rightarrow> Op \<Rightarrow> nat \<Rightarrow> uns8 \<Rightarrow> Bp_Data \<times> Heap \<Rightarrow> (Bp_Data \<times> Heap) option" where
  "tagged_then P E op ix v = (\<lambda>(d, h).
     bp_ibtb_tc_tagged_update P E op (d\<lparr>bd_tc_selector := (bd_tc_selector d)[ix := v]\<rparr>, h))"

definition tagless_then :: "bp_params \<Rightarrow> Op \<Rightarrow> nat \<Rightarrow> uns8 \<Rightarrow> Bp_Data \<times> Heap \<Rightarrow> (Bp_Data \<times> Heap) option" where
  "tagless_then P op ix v = (\<lambda>(d, h).
     map_option (\<lambda>d. (d, h)) (bp_ibtb_tc_tagless_update P op (d\<lparr>bd_tc_selector := (bd_tc_selector d)[ix := v]\<rparr>)))"

definition bp_ibtb_tc_hybrid_update :: "bp_params \<Rightarrow> Cache_Env \<Rightarrow> Op \<Rightarrow> Bp_Data \<times> Heap \<Rightarrow> (Bp_Data \<times> Heap) option" where
  "bp_ibtb_tc_hybrid_update P E op = (\<lambda>(d, h).
     (let oi = op_oracle_info op;
          ix = tagless_index P (oi_pred_global_hist oi) op; sel = bd_tc_selector d ! ix;
          predicted_tagged = (TC_SELECTOR_TAGGED_WEAK \<le> oi_pred_tc_selector_entry oi)
      in if bd_proc_id d \<noteq> op_proc_id op \<or> \<not> tc_len_ok P \<or> \<not> ix < length (bd_tc_selector d) \<or> oi_mispred oi then None
         else if oi_no_target oi then
           (case bp_ibtb_tc_tagged_update P E op (d, h) of
              None \<Rightarrow> None
            | Some (d, h) \<Rightarrow> map_option (\<lambda>d. (d, h)) (bp_ibtb_tc_tagless_update P op d))
         else if oi_misfetch oi then
           (if predicted_tagged then tagged_then P E op ix (SAT_DEC sel 0) (d, h)
            else tagless_then P op ix (SAT_INC sel TC_SELECTOR_TAGGED_STRONG) (d, h))
         else
           (if predicted_tagged then tagged_then P E op ix (SAT_INC sel TC_SELECTOR_TAGGED_STRONG) (d, h)
            else tagless_then P op ix (SAT_DEC sel 0) (d, h))))"

definition bp_ibtb_tc_hybrid_recover :: "Recovery_Info \<Rightarrow> Bp_Data \<Rightarrow> Bp_Data" where
  "bp_ibtb_tc_hybrid_recover info d = d\<lparr>bd_targ_hist := ri_targ_hist info\<rparr>"

end
