(* ===== verification/Bp_Targ_Inv.thy ===== *)
theory Bp_Targ_Inv
  imports Bp_Targ Cache_Policies
begin

text \<open>
  Lemmas on the target buffers: the tables are never indexed out of range, the selector stays a two-bit
  counter, the branch target buffer is a map from fetch addresses to targets, and the tagged target
  cache, which inserts a new line at every update without looking for the old one.
\<close>

section \<open>The tagless table and the selector\<close>

lemma tc_hist_bits_lt: "len \<le> 32 \<Longrightarrow> unat (tc_hist_bits len hist) < 2 ^ len"
proof -
  assume "len \<le> 32"
  have "unat hist < 2 ^ 32" using unsigned_less [where 'a = nat, of hist] by simp
  also have "(2::nat) ^ 32 = 2 ^ len * 2 ^ (32 - len)" using \<open>len \<le> 32\<close> by (simp flip: power_add)
  finally show ?thesis
    unfolding tc_hist_bits_def unat_drop_bit_eq by (simp add: drop_bit_eq_div less_mult_imp_div_less)
qed

lemma tc_addr_bits_lt: "unat (tc_addr_bits len a) < 2 ^ len"
proof -
  have "unat (tc_addr_bits len a) \<le> unat (drop_bit 2 a AND mask len)"
    by (simp add: tc_addr_bits_def unat_ucast_le)
  also have "\<dots> < 2 ^ len" by (simp add: unsigned_take_bit_eq flip: take_bit_eq_mask)
  finally show ?thesis .
qed

lemma xor_lt: "unat (x :: 'a::len word) < 2 ^ n \<Longrightarrow> unat y < 2 ^ n \<Longrightarrow> unat (x XOR y) < 2 ^ n"
  by (simp add: unsigned_xor_eq flip: take_bit_nat_eq_self_iff)

lemma tagless_index_lt: "tc_len_ok P \<Longrightarrow> tagless_index P hist op < 2 ^ unat (IBTB_HIST_LENGTH P)"
  by (auto simp: tagless_index_def Let_def tc_len_ok_def word_less_nat_alt intro!: xor_lt tc_hist_bits_lt tc_addr_bits_lt)

text \<open>The tables of the hybrid have their size, and every selector is at most 3.\<close>

definition tc_tables_ok :: "bp_params \<Rightarrow> Bp_Data \<Rightarrow> bool" where
  "tc_tables_ok P d \<longleftrightarrow> length (bd_tc_tagless d) = 2 ^ unat (IBTB_HIST_LENGTH P) \<and>
     length (bd_tc_selector d) = 2 ^ unat (IBTB_HIST_LENGTH P) \<and> (\<forall>s \<in> set (bd_tc_selector d). s \<le> TC_SELECTOR_TAGGED_STRONG)"

lemma selector_le: "tc_tables_ok P d \<Longrightarrow> tc_len_ok P \<Longrightarrow>
    bd_tc_selector d ! tagless_index P hist op \<le> TC_SELECTOR_TAGGED_STRONG"
  using tagless_index_lt [of P hist op] by (simp add: tc_tables_ok_def)

section \<open>Caches under true LRU\<close>

lemma lru_insert_eq:
  assumes i: "cache_index c a = (si, tag, la)" and si: "si < length (cache_entries c)"
    and pol: "cache_repl_policy c = REPL_TRUE_LRU" and w: "w = fst (lru_way (cache_row c si))" "cache_row c si \<noteq> []"
  obtains c' where "cache_insert E pid a (c, h) =
      Some (ce_data (cache_row c si ! w), la, if ce_valid (cache_row c si ! w) then ce_base (cache_row c si ! w) else 0, c', h)"
    "w < length (cache_row c si)"
    "cache_row c' si = (cache_row c si)[w := (cache_row c si ! w)\<lparr>ce_proc_id := pid, ce_valid := True, ce_tag := tag,
       ce_base := la, ce_last_access_time := sim_time E, ce_pref := False\<rparr>]"
    "\<And>sj. sj \<noteq> si \<Longrightarrow> cache_row c' sj = cache_row c sj" "cache_index c' = cache_index c"
    "cache_repl_policy c' = REPL_TRUE_LRU" "length (cache_entries c') = length (cache_entries c)"
proof -
  let ?f = "\<lambda>e. e\<lparr>ce_proc_id := pid, ce_valid := True, ce_tag := tag, ce_base := la,
    ce_last_access_time := sim_time E, ce_pref := False\<rparr>"
  let ?c1 = "upd_line si w ?f c" and ?g = "\<lambda>e. e\<lparr>ce_last_access_time := sim_time E\<rparr>"
  let ?c = "upd_line si w ?g ?c1"
  have wl: "w < length (cache_row c si)"
    using lru_way_lt [of "cache_row c si"] w by simp
  have fr: "find_repl_entry E c pid si = Some (w, c)"
    using pol w wl by (simp add: find_repl_entry_def Let_def)
  have tl: "cache_take_line E pid si (c, h) =
      Some (w, if ce_valid (cache_row c si ! w) then ce_base (cache_row c si ! w) else 0, c, h)"
    using pol by (simp add: cache_take_line_def fr Let_def)
  have row1: "cache_row ?c1 si = (cache_row c si)[w := ?f (cache_row c si ! w)]"
    using cache_row_upd_line [OF si] by simp
  have si1: "si < length (cache_entries ?c1)" using si by simp
  have row: "cache_row ?c si = (cache_row c si)[w := ?f (cache_row c si ! w)]"
    using cache_row_upd_line [OF si1, of w ?g si] row1 wl by (cases "cache_row c si ! w") simp
  have "cache_insert E pid a (c, h) =
      Some (ce_data (cache_row ?c si ! w), la, if ce_valid (cache_row c si ! w) then ce_base (cache_row c si ! w) else 0, ?c, h)"
    using pol by (simp add: cache_insert_def cache_insert_replpos_def i tl update_repl_policy_def Let_def)
  moreover have "ce_data (cache_row ?c si ! w) = ce_data (cache_row c si ! w)" using wl by (simp add: row)
  moreover have "cache_row ?c sj = cache_row c sj" if "sj \<noteq> si" for sj
    using that cache_row_upd_line [OF si1] cache_row_upd_line [OF si] by simp
  ultimately show thesis using wl row pol by (intro that [of ?c]) (simp_all only: upd_line_frame)
qed

lemma lru_access_hit:
  assumes i: "cache_index c a = (si, tag, la)" and si: "si < length (cache_entries c)"
    and pol: "cache_repl_policy c = REPL_TRUE_LRU"
    and hit: "find_ix (hit_line tag) (cache_row c si) = Some w" "ce_data (cache_row c si ! w) \<noteq> 0"
  obtains c' where "cache_access E a True (c, h) = Some (ce_data (cache_row c si ! w), la, c', h)"
    "cache_row c' si = (cache_row c si)[w := (cache_row c si ! w)\<lparr>ce_pref := False, ce_last_access_time := sim_time E\<rparr>]"
    "\<And>sj. sj \<noteq> si \<Longrightarrow> cache_row c' sj = cache_row c sj" "cache_index c' = cache_index c"
    "cache_repl_policy c' = REPL_TRUE_LRU" "length (cache_entries c') = length (cache_entries c)"
proof -
  let ?c = "(upd_line si w (\<lambda>e. e\<lparr>ce_pref := False\<rparr>) c)\<lparr>cache_num_demand_access := cache_num_demand_access c + 1\<rparr>"
  let ?c' = "upd_line si w (\<lambda>e. e\<lparr>ce_last_access_time := sim_time E\<rparr>) ?c"
  have s: "si < length (cache_entries ?c)" using si by simp
  have wl: "w < length (cache_row c si)" using find_ix_SomeD(1) [OF hit(1)] .
  have run: "cache_access E a True (c, h) = Some (ce_data (cache_row c si ! w), la, ?c', h)"
    using assms by (simp add: cache_access_def update_repl_policy_def Let_def)
  have r: "cache_row ?c sj = cache_row (upd_line si w (\<lambda>e. e\<lparr>ce_pref := False\<rparr>) c) sj" for sj
    by (simp add: cache_row_def)
  have ix: "cache_index ?c' = cache_index c"
    by (simp add: cache_index_def fun_eq_iff upd_line_def)
  show thesis
  proof (rule that [OF run])
    show "cache_row ?c' si = (cache_row c si)[w := (cache_row c si ! w)\<lparr>ce_pref := False, ce_last_access_time := sim_time E\<rparr>]"
      using cache_row_upd_line [OF s] cache_row_upd_line [OF si] wl by (simp add: r)
    show "cache_row ?c' sj = cache_row c sj" if "sj \<noteq> si" for sj
      using that cache_row_upd_line [OF s] cache_row_upd_line [OF si] by (simp add: r)
  qed (use pol ix in simp_all)
qed

section \<open>The tagged target cache holds on to its first target\<close>

text \<open>
  Way 0 of the set holds a line for the index, with target \<open>t\<close>; no other line of the set was used
  after time \<open>T\<close>. Other ways may hold lines for the same index.
\<close>

definition tc_first :: "Cache \<Rightarrow> Heap \<Rightarrow> Addr \<Rightarrow> Addr \<Rightarrow> Counter \<Rightarrow> bool" where
  "tc_first c h ix t T \<longleftrightarrow> (\<exists>si tag la. cache_index c ix = (si, tag, la) \<and> si < length (cache_entries c) \<and>
     cache_repl_policy c = REPL_TRUE_LRU \<and> 1 < length (cache_row c si) \<and> hit_line tag (cache_row c si ! 0) \<and>
     ce_data (cache_row c si ! 0) \<noteq> 0 \<and> load_Addr (ce_data (cache_row c si ! 0)) h = Some t \<and>
     (\<forall>w < length (cache_row c si). 0 < w \<longrightarrow> ce_data (cache_row c si ! w) \<noteq> ce_data (cache_row c si ! 0) \<and>
        addr_buf h (ce_data (cache_row c si ! w)) \<and>
        (ce_valid (cache_row c si ! w) \<longrightarrow> ce_last_access_time (cache_row c si ! w) \<le> T)))"

text \<open>The line in way 0 has been used after every other line of the set.\<close>

definition tc_hot :: "Cache \<Rightarrow> Addr \<Rightarrow> Counter \<Rightarrow> bool" where
  "tc_hot c ix T \<longleftrightarrow> T < ce_last_access_time (cache_row c (fst (cache_index c ix)) ! 0) \<and>
     ce_last_access_time (cache_row c (fst (cache_index c ix)) ! 0) < MAX_CTR"

lemma tc_first_access:
  assumes st: "tc_first c h ix t T" and tm: "T < sim_time E" "sim_time E < MAX_CTR"
  obtains p la c' where "cache_access E ix True (c, h) = Some (p, la, c', h)" "p \<noteq> 0" "load_Addr p h = Some t"
    "tc_first c' h ix t T" "tc_hot c' ix T"
proof -
  obtain si tag la where s: "cache_index c ix = (si, tag, la)" "si < length (cache_entries c)"
    "cache_repl_policy c = REPL_TRUE_LRU" "1 < length (cache_row c si)" "hit_line tag (cache_row c si ! 0)"
    "ce_data (cache_row c si ! 0) \<noteq> 0" "load_Addr (ce_data (cache_row c si ! 0)) h = Some t"
    and ws: "\<And>w. w < length (cache_row c si) \<Longrightarrow> 0 < w \<Longrightarrow> ce_data (cache_row c si ! w) \<noteq> ce_data (cache_row c si ! 0) \<and>
        addr_buf h (ce_data (cache_row c si ! w)) \<and>
        (ce_valid (cache_row c si ! w) \<longrightarrow> ce_last_access_time (cache_row c si ! w) \<le> T)"
    using st unfolding tc_first_def by blast
  have f: "find_ix (hit_line tag) (cache_row c si) = Some 0"
    using s(4,5) by (cases "cache_row c si") simp_all
  obtain c' where a: "cache_access E ix True (c, h) = Some (ce_data (cache_row c si ! 0), la, c', h)"
    and row: "cache_row c' si = (cache_row c si)[0 := (cache_row c si ! 0)\<lparr>ce_pref := False, ce_last_access_time := sim_time E\<rparr>]"
    and fr: "cache_index c' = cache_index c" "cache_repl_policy c' = REPL_TRUE_LRU"
      "length (cache_entries c') = length (cache_entries c)"
    by (rule lru_access_hit [OF s(1,2,3) f s(6)])
  have r0: "cache_row c' si ! 0 = (cache_row c si ! 0)\<lparr>ce_pref := False, ce_last_access_time := sim_time E\<rparr>"
    unfolding row using s(4) by (intro nth_list_update_eq) linarith
  have rw: "cache_row c' si ! w = cache_row c si ! w" if "0 < w" for w using that by (simp add: row)
  have "tc_first c' h ix t T"
    unfolding tc_first_def fr(1) s(1) using s ws fr r0 rw
    by (intro exI [of _ si] exI [of _ tag] exI [of _ la]) (simp add: row hit_line_def)
  moreover have "tc_hot c' ix T" using tm by (simp add: tc_hot_def fr s(1) r0)
  ultimately show thesis using a s(6,7) by (intro that) auto
qed

lemma lru_way_not_first:
  assumes "1 < length row" "ce_valid (row ! 0)" "ce_last_access_time (row ! 0) < MAX_CTR"
    and "\<And>w. w < length row \<Longrightarrow> 0 < w \<Longrightarrow> ce_valid (row ! w) \<Longrightarrow> ce_last_access_time (row ! w) < ce_last_access_time (row ! 0)"
  shows "0 < fst (lru_way row)"
proof -
  obtain e f fs where row: "row = e # f # fs" using assms(1) by (cases row; cases "tl row") auto
  have "ce_valid f \<Longrightarrow> ce_last_access_time f < ce_last_access_time e"
    using assms(4) [of 1] by (simp add: row)
  moreover obtain r tr where r: "lru_scan ce_valid ce_last_access_time (Suc 0) 0 (ce_last_access_time e) (f # fs) = (r, tr)"
    by fastforce
  ultimately have "0 < r" using lru_scan_cases [OF r] by auto
  moreover have "lru_way row = (r, tr)" using assms(2,3) r by (simp add: lru_way_def row)
  ultimately show ?thesis by simp
qed

lemma tc_first_insert:
  assumes st: "tc_first c h ix t T" and hot: "tc_hot c ix T" and tm: "T \<le> sim_time E"
  obtains p la b c' h' where "cache_insert E pid ix (c, h) = Some (p, la, b, c', h)" "store_Addr p a h = Some h'"
    "tc_first c' h' ix t (sim_time E)"
proof -
  obtain si tag la where s: "cache_index c ix = (si, tag, la)" "si < length (cache_entries c)"
    "cache_repl_policy c = REPL_TRUE_LRU" "1 < length (cache_row c si)" "hit_line tag (cache_row c si ! 0)"
    "ce_data (cache_row c si ! 0) \<noteq> 0" "load_Addr (ce_data (cache_row c si ! 0)) h = Some t"
    and ws: "\<And>w. w < length (cache_row c si) \<Longrightarrow> 0 < w \<Longrightarrow> ce_data (cache_row c si ! w) \<noteq> ce_data (cache_row c si ! 0) \<and>
        addr_buf h (ce_data (cache_row c si ! w)) \<and>
        (ce_valid (cache_row c si ! w) \<longrightarrow> ce_last_access_time (cache_row c si ! w) \<le> T)"
    using st unfolding tc_first_def by blast
  define w where "w = fst (lru_way (cache_row c si))"
  have ne: "cache_row c si \<noteq> []" using s(4) by auto
  have "0 < w" unfolding w_def
  proof (rule lru_way_not_first [OF s(4)])
    show "ce_valid (cache_row c si ! 0)" using s(5) by (simp add: hit_line_def)
    show "ce_last_access_time (cache_row c si ! 0) < MAX_CTR" using hot by (simp add: tc_hot_def s(1))
    show "ce_last_access_time (cache_row c si ! w) < ce_last_access_time (cache_row c si ! 0)"
      if "w < length (cache_row c si)" "0 < w" "ce_valid (cache_row c si ! w)" for w
      using ws [OF that(1,2)] that(3) hot by (auto simp: tc_hot_def s(1) intro: order.strict_trans1)
  qed
  obtain b c' where ins: "cache_insert E pid ix (c, h) = Some (ce_data (cache_row c si ! w), la, b, c', h)"
    and wl: "w < length (cache_row c si)"
    and row: "cache_row c' si = (cache_row c si)[w := (cache_row c si ! w)\<lparr>ce_proc_id := pid, ce_valid := True, ce_tag := tag,
       ce_base := la, ce_last_access_time := sim_time E, ce_pref := False\<rparr>]"
    and fr: "cache_index c' = cache_index c" "cache_repl_policy c' = REPL_TRUE_LRU"
      "length (cache_entries c') = length (cache_entries c)"
    by (rule lru_insert_eq [OF s(1,2,3) w_def ne]) blast
  have wb: "addr_buf h (ce_data (cache_row c si ! w))" and wd: "ce_data (cache_row c si ! w) \<noteq> ce_data (cache_row c si ! 0)"
    using ws [OF wl \<open>0 < w\<close>] by auto
  obtain h' where h': "store_Addr (ce_data (cache_row c si ! w)) a h = Some h'"
    "\<And>q. q \<noteq> ce_data (cache_row c si ! w) \<Longrightarrow> load_Addr q h' = load_Addr q h" "\<And>q. addr_buf h' q = addr_buf h q"
    using store_Addr_Some [OF wb, of a] by metis
  have dat: "ce_data (cache_row c' si ! v) = ce_data (cache_row c si ! v)" if "v < length (cache_row c si)" for v
    using that by (cases "v = w") (simp_all add: row)
  have r0: "cache_row c' si ! 0 = cache_row c si ! 0" using \<open>0 < w\<close> by (simp add: row)
  have old: "ce_last_access_time (cache_row c' si ! v) \<le> sim_time E"
    if "v < length (cache_row c si)" "0 < v" "ce_valid (cache_row c' si ! v)" for v
    using that ws [OF that(1,2)] tm by (cases "v = w") (auto simp: row)
  have l: "length (cache_row c' si) = length (cache_row c si)" by (simp add: row)
  have "tc_first c' h' ix t (sim_time E)"
    unfolding tc_first_def fr(1) s(1) using s ws fr h' wd old dat
    by (intro exI [of _ si] exI [of _ tag] exI [of _ la]) (simp add: r0 l)
  with ins h'(1) show thesis by (intro that) auto
qed

text \<open>
  The occurrences of one branch: each is predicted, and updated when it is resolved. The result is the
  list of the predictions.
\<close>

fun tc_occurrences ::
    "bp_params \<Rightarrow> (Cache_Env \<times> Op \<times> Cache_Env) list \<Rightarrow> Bp_Data \<times> Heap \<Rightarrow> Addr list option" where
  "tc_occurrences P [] s = Some []"
| "tc_occurrences P ((E1, op, E2) # xs) s =
     (case bp_ibtb_tc_tagged_pred P E1 op s of
        None \<Rightarrow> None
      | Some (a, op, s) \<Rightarrow>
          (case bp_ibtb_tc_tagged_update P E2 op s of
             None \<Rightarrow> None
           | Some s \<Rightarrow> map_option (Cons a) (tc_occurrences P xs s)))"

fun later :: "Counter \<Rightarrow> (Cache_Env \<times> Op \<times> Cache_Env) list \<Rightarrow> bool" where
  "later T [] \<longleftrightarrow> True"
| "later T ((E1, op, E2) # xs) \<longleftrightarrow>
     T < sim_time E1 \<and> sim_time E1 \<le> sim_time E2 \<and> sim_time E2 < MAX_CTR \<and> later (sim_time E2) xs"

lemma targ_hist_step_pat:
  assumes "USE_PAT_HIST P"
  shows "targ_hist_step P op d = Some (bd_global_hist d,
    upd_recovery (\<lambda>r. r\<lparr>ri_targ_hist := bd_global_hist d\<rparr>) (upd_oracle (\<lambda>o'. o'\<lparr>oi_pred_targ_hist := bd_global_hist d\<rparr>) op),
    d\<lparr>bd_targ_hist := bd_global_hist d\<rparr>)"
  using assms by (simp add: targ_hist_step_def Let_def)

lemma tagged_index_frame [simp]:
  "tagged_index P g (upd_recovery (\<lambda>r. r\<lparr>ri_targ_hist := x\<rparr>) op) = tagged_index P g op"
  "tagged_index P g (upd_oracle (\<lambda>o'. o'\<lparr>oi_pred_targ_hist := x\<rparr>) op) = tagged_index P g op"
  by (simp_all add: tagged_index_def Let_def)

lemma tc_stays_first:
  assumes P: "USE_PAT_HIST P" "\<not> PERFECT_IBP P"
  shows "tc_first (bd_tc_tagged d) h ix t T \<Longrightarrow> later T xs \<Longrightarrow>
    (\<forall>(E1, op, E2) \<in> set xs. tagged_index P (bd_global_hist d) op = ix) \<Longrightarrow>
    tc_occurrences P xs (d, h) = Some (replicate (length xs) t)"
proof (induction xs arbitrary: d h T)
  case Nil
  then show ?case by simp
next
  case (Cons x xs)
  obtain E1 op E2 where x: "x = (E1, op, E2)" by (cases x)
  have tm: "T < sim_time E1" "sim_time E1 < MAX_CTR" "T \<le> sim_time E2" and ix: "tagged_index P (bd_global_hist d) op = ix"
    using Cons.prems by (auto simp: x)
  obtain p la c1 where acc: "cache_access E1 ix True (bd_tc_tagged d, h) = Some (p, la, c1, h)" "p \<noteq> 0"
    "load_Addr p h = Some t" "tc_first c1 h ix t T" "tc_hot c1 ix T"
    by (rule tc_first_access [OF Cons.prems(1) tm(1,2)])
  obtain p' la' b c2 h' where ins: "cache_insert E2 (ucast (bd_proc_id d)) ix (c1, h) = Some (p', la', b, c2, h)"
    "store_Addr p' (oi_target (op_oracle_info op)) h = Some h'" "tc_first c2 h' ix t (sim_time E2)"
    by (rule tc_first_insert [OF acc(4,5) tm(3)])
  let ?d = "d\<lparr>bd_targ_hist := bd_global_hist d, bd_tc_tagged := c2\<rparr>"
  have "tc_occurrences P xs (?d, h') = Some (replicate (length xs) t)"
    using Cons.IH [of ?d h' "sim_time E2"] Cons.prems(2,3) ins(3) by (simp add: x)
  with acc(1-3) ins(1,2) ix P show ?case
    by (simp add: x bp_ibtb_tc_tagged_pred_def bp_ibtb_tc_tagged_update_def targ_hist_step_pat)
qed

text \<open>The first occurrence of the branch, in a set without valid lines.\<close>

lemma tc_first_starts:
  assumes P: "USE_PAT_HIST P" "\<not> PERFECT_IBP P" and ix: "tagged_index P (bd_global_hist d) op = ix"
    and i: "cache_index (bd_tc_tagged d) ix = (si, tag, la)" and row: "row = cache_row (bd_tc_tagged d) si"
    and c: "si < length (cache_entries (bd_tc_tagged d))" "cache_repl_policy (bd_tc_tagged d) = REPL_TRUE_LRU" "1 < length row"
    and empty: "\<forall>e \<in> set row. \<not> ce_valid e"
    and bf: "distinct (map ce_data row)" "\<forall>e \<in> set row. ce_data e \<noteq> 0 \<and> addr_buf h (ce_data e)"
  obtains op' d1 d2 h' where "bp_ibtb_tc_tagged_pred P E1 op (d, h) = Some (0, op', d1, h)"
    "bp_ibtb_tc_tagged_update P E2 op' (d1, h) = Some (d2, h')" "bd_global_hist d2 = bd_global_hist d"
    "tc_first (bd_tc_tagged d2) h' ix (oi_target (op_oracle_info op)) (sim_time E2)"
proof -
  let ?c = "bd_tc_tagged d"
  have miss: "find_ix (hit_line tag) row = None" using empty by (auto simp: find_ix_None hit_line_def)
  have acc: "cache_access E1 ix True (?c, h) = Some (0, la, ?c, h)"
    using miss c(2) by (simp add: cache_access_def i row)
  have ne: "row \<noteq> []" and l: "0 < length row" using c(3) by auto
  obtain e es where re: "row = e # es" using ne by (cases row) auto
  have w: "0 = fst (lru_way row)" using empty by (simp add: re lru_way_def)
  obtain b c' where ins: "cache_insert E2 (ucast (bd_proc_id d)) ix (?c, h) = Some (ce_data (row ! 0), la, b, c', h)"
    and r: "cache_row c' si = row[0 := (row ! 0)\<lparr>ce_proc_id := ucast (bd_proc_id d), ce_valid := True, ce_tag := tag,
       ce_base := la, ce_last_access_time := sim_time E2, ce_pref := False\<rparr>]"
    and fr: "cache_index c' = cache_index ?c" "cache_repl_policy c' = REPL_TRUE_LRU"
      "length (cache_entries c') = length (cache_entries ?c)"
    by (rule lru_insert_eq [OF i c(1,2) w [unfolded row] ne [unfolded row]]) (use row in blast)
  have bf0: "ce_data (row ! 0) \<noteq> 0" "addr_buf h (ce_data (row ! 0))" using bf(2) l by simp_all
  obtain h' where h': "store_Addr (ce_data (row ! 0)) (oi_target (op_oracle_info op)) h = Some h'"
    "load_Addr (ce_data (row ! 0)) h' = Some (oi_target (op_oracle_info op))" "\<And>q. addr_buf h' q = addr_buf h q"
    using store_Addr_Some [OF bf0(2)] by metis
  have other: "ce_data (row ! w) \<noteq> ce_data (row ! 0) \<and> addr_buf h (ce_data (row ! w)) \<and> \<not> ce_valid (row ! w)"
    if "w < length row" "0 < w" for w
    using that bf empty l nth_eq_iff_index_eq [OF bf(1), of w 0] by auto
  have "tc_first c' h' ix (oi_target (op_oracle_info op)) (sim_time E2)"
    unfolding tc_first_def fr(1) i using c fr h' bf0 other l
    by (intro exI [of _ si] exI [of _ tag] exI [of _ la]) (simp add: r hit_line_def row [symmetric])
  with acc ins h'(1) ix P show thesis
    by (intro that [of "upd_recovery (\<lambda>r. r\<lparr>ri_targ_hist := bd_global_hist d\<rparr>) (upd_oracle (\<lambda>o'. o'\<lparr>oi_pred_targ_hist := bd_global_hist d\<rparr>) op)"
          "d\<lparr>bd_targ_hist := bd_global_hist d, bd_tc_tagged := ?c\<rparr>" "d\<lparr>bd_targ_hist := bd_global_hist d, bd_tc_tagged := c'\<rparr>" h'])
      (simp_all add: bp_ibtb_tc_tagged_pred_def bp_ibtb_tc_tagged_update_def targ_hist_step_pat)
qed

section \<open>The lines' data buffers\<close>

text \<open>Every line has a buffer of its own, with room for an address.\<close>

definition line_data :: "Cache \<Rightarrow> ptr list list" where
  "line_data c = map (map ce_data) (cache_entries c)"

definition own_bufs :: "Cache \<Rightarrow> Heap \<Rightarrow> bool" where
  "own_bufs c h \<longleftrightarrow> distinct (concat (line_data c)) \<and> (\<forall>p \<in> set (concat (line_data c)). addr_buf h p)"

lemma line_data_cong:
  assumes "length (cache_entries c') = length (cache_entries c)"
    "\<And>si. si < length (cache_entries c) \<Longrightarrow> map ce_data (cache_row c' si) = map ce_data (cache_row c si)"
  shows "line_data c' = line_data c"
  using assms by (intro nth_equalityI) (simp_all add: line_data_def cache_row_def)

lemma nth_concat_ex: "i < length xss \<Longrightarrow> j < length (xss ! i) \<Longrightarrow> xss ! i ! j \<in> set (concat xss)"
  by (auto intro!: bexI [of _ "xss ! i"])

lemma distinct_concat_nth:
  assumes "distinct (concat xss)" "i < length xss" "j < length (xss ! i)" "i' < length xss" "j' < length (xss ! i')"
    and "xss ! i ! j = xss ! i' ! j'"
  shows "i = i' \<and> j = j'"
  using assms
proof (induction xss arbitrary: i i')
  case Nil
  then show ?case by simp
next
  case (Cons xs xss)
  show ?case
  proof (cases i; cases i')
    assume "i = 0" "i' = 0"
    with Cons.prems show ?thesis by (auto simp: nth_eq_iff_index_eq)
  next
    fix k assume i: "i = 0" "i' = Suc k"
    have "j < length xs" "xs ! j = xss ! k ! j'" "k < length xss" "j' < length (xss ! k)" using Cons.prems i by simp_all
    then have "xs ! j \<in> set xs \<inter> set (concat xss)" using nth_concat_ex [of k xss j'] nth_mem [of j xs] by (metis IntI)
    then have "\<not> distinct (xs @ concat xss)" by (auto simp del: set_concat)
    with Cons.prems(1) show ?thesis by simp
  next
    fix k assume i: "i = Suc k" "i' = 0"
    have "j' < length xs" "xs ! j' = xss ! k ! j" "k < length xss" "j < length (xss ! k)" using Cons.prems i by simp_all
    then have "xs ! j' \<in> set xs \<inter> set (concat xss)" using nth_concat_ex [of k xss j] nth_mem [of j' xs] by (metis IntI)
    then have "\<not> distinct (xs @ concat xss)" by (auto simp del: set_concat)
    with Cons.prems(1) show ?thesis by simp
  next
    fix k k' assume "i = Suc k" "i' = Suc k'"
    with Cons.IH [of k k'] Cons.prems show ?thesis by auto
  qed
qed

lemma own_bufs_line:
  assumes "own_bufs c h" "si < length (cache_entries c)" "w < length (cache_row c si)"
  shows "addr_buf h (ce_data (cache_row c si ! w))"
proof -
  have "line_data c ! si ! w \<in> set (concat (line_data c))"
    using assms(2,3) by (intro nth_concat_ex) (simp_all add: line_data_def cache_row_def)
  then show ?thesis using assms by (auto simp: own_bufs_def line_data_def cache_row_def)
qed

lemma own_bufs_distinct:
  assumes "own_bufs c h" "si < length (cache_entries c)" "w < length (cache_row c si)"
    "sj < length (cache_entries c)" "v < length (cache_row c sj)"
    and "ce_data (cache_row c si ! w) = ce_data (cache_row c sj ! v)"
  shows "si = sj \<and> w = v"
  using distinct_concat_nth [of "line_data c" si w sj v] assms
  by (simp add: own_bufs_def line_data_def cache_row_def)

text \<open>A freshly initialised cache with lines of 8 bytes.\<close>

lemma init_lines_bufs:
  assumes "init_lines 8 u jj n h = (es, h')"
  shows "map ce_data es = [next_ptr h..<next_ptr h + n]" "next_ptr h' = next_ptr h + n"
    "\<forall>p \<in> {next_ptr h..<next_ptr h + n}. addr_buf h' p"
    "\<forall>p < next_ptr h. bufs h' p = bufs h p"
proof -
  have "map ce_data es = [next_ptr h..<next_ptr h + n] \<and> next_ptr h' = next_ptr h + n \<and>
      (\<forall>p \<in> {next_ptr h..<next_ptr h + n}. addr_buf h' p) \<and> (\<forall>p < next_ptr h. bufs h' p = bufs h p)"
    using assms
  proof (induction n arbitrary: jj h es)
    case 0
    then show ?case by simp
  next
    case (Suc n)
    obtain e h1 es1 where e: "init_line 8 (u jj) h = (e, h1)" "init_lines 8 u (Suc jj) n h1 = (es1, h')" "es = e # es1"
      using Suc.prems by (auto split: prod.splits)
    have h1: "next_ptr h1 = Suc (next_ptr h)" "ce_data e = next_ptr h" "bufs h1 (next_ptr h) = Some (replicate 8 0)"
      "\<forall>p < next_ptr h. bufs h1 p = bufs h p"
      using e(1) by (auto simp: init_line_def malloc_buf_def)
    note ih = Suc.IH [OF e(2)]
    have "bufs h' (next_ptr h) = Some (replicate 8 0)" using ih h1 by simp
    then have "addr_buf h' (next_ptr h)" by (simp add: addr_buf_def)
    with ih h1 e(3) show ?case by (auto simp: upt_conv_Cons not_less_eq_eq dest: le_antisym)
  qed
  then show "map ce_data es = [next_ptr h..<next_ptr h + n]" "next_ptr h' = next_ptr h + n"
    "\<forall>p \<in> {next_ptr h..<next_ptr h + n}. addr_buf h' p" "\<forall>p < next_ptr h. bufs h' p = bufs h p" by auto
qed

lemma init_sets_bufs:
  assumes "init_sets 8 u n ii m h = (ss, h')"
  shows "concat (map (map ce_data) ss) = [next_ptr h..<next_ptr h + m * n]"
    "\<forall>p \<in> {next_ptr h..<next_ptr h + m * n}. addr_buf h' p" "\<forall>p < next_ptr h. bufs h' p = bufs h p"
proof -
  have "concat (map (map ce_data) ss) = [next_ptr h..<next_ptr h + m * n] \<and>
      (\<forall>p \<in> {next_ptr h..<next_ptr h + m * n}. addr_buf h' p) \<and> (\<forall>p < next_ptr h. bufs h' p = bufs h p)"
    using assms
  proof (induction m arbitrary: ii h ss)
    case 0
    then show ?case by simp
  next
    case (Suc m)
    obtain es h1 ss1 where e: "init_lines 8 (u ii) 0 n h = (es, h1)" "init_sets 8 u n (Suc ii) m h1 = (ss1, h')" "ss = es # ss1"
      using Suc.prems by (auto split: prod.splits)
    note l = init_lines_bufs [OF e(1)] and ih = Suc.IH [OF e(2)]
    have "addr_buf h' p" if "p \<in> {next_ptr h..<next_ptr h + n}" for p
      using that l(3) ih l(2) by (simp add: addr_buf_def)
    then have "addr_buf h' p" if "p \<in> {next_ptr h..<next_ptr h + Suc m * n}" for p
      using that ih l(2) by (cases "p < next_ptr h + n") (auto simp: add.assoc)
    moreover have "concat (map (map ce_data) ss) = [next_ptr h..<next_ptr h + Suc m * n]"
      using l(1) ih l(2) e(3) upt_add_eq_append [of "next_ptr h" "next_ptr h + n" "m * n"] by (simp add: add.assoc)
    moreover have "\<forall>p < next_ptr h. bufs h' p = bufs h p" using ih l(2,4) by simp
    ultimately show ?case by blast
  qed
  then show "concat (map (map ce_data) ss) = [next_ptr h..<next_ptr h + m * n]"
    "\<forall>p \<in> {next_ptr h..<next_ptr h + m * n}. addr_buf h' p" "\<forall>p < next_ptr h. bufs h' p = bufs h p" by auto
qed

lemma init_cache_bufs:
  assumes "init_cache E u us up c0 name n assoc line_size 8 repl h = Some (c, h')" "repl = REPL_TRUE_LRU"
  shows "own_bufs c h'" "cache_offset_mask c = mask (LOG2 line_size)"
proof -
  obtain ss h1 where s: "init_sets 8 u (unat assoc) 0 (unat (n div line_size div assoc)) h = (ss, h1)" by fastforce
  have c: "cache_entries c = ss" "h' = h1" "cache_offset_mask c = mask (LOG2 line_size)"
    using assms s by (auto simp: init_cache_def Let_def split: if_splits)
  show "own_bufs c h'" using init_sets_bufs [OF s] by (auto simp: own_bufs_def line_data_def c)
  show "cache_offset_mask c = mask (LOG2 line_size)" by (rule c)
qed

section \<open>A target buffer as a map\<close>

text \<open>The target that the buffer holds for an address.\<close>

definition target_map :: "Cache \<Rightarrow> Heap \<Rightarrow> Addr \<Rightarrow> Addr option" where
  "target_map c h a = (case cache_look c a of None \<Rightarrow> None | Some p \<Rightarrow> load_Addr p h)"

definition targets_ok :: "Cache \<Rightarrow> Heap \<Rightarrow> bool" where
  "targets_ok c h \<longleftrightarrow> cache_inv c \<and> cache_repl_policy c = REPL_TRUE_LRU \<and> cache_offset_mask c = 0 \<and> own_bufs c h"

lemma targets_addr: "targets_ok c h \<Longrightarrow> cache_index c a = (si, tag, la) \<Longrightarrow> la = a"
  by (auto simp: targets_ok_def cache_index_def)

lemma cache_look_line:
  assumes "targets_ok c h" "cache_look c a = Some p"
  obtains si w where "si < length (cache_entries c)" "w < length (cache_row c si)" "p = ce_data (cache_row c si ! w)"
    "ce_valid (cache_row c si ! w)" "ce_base (cache_row c si ! w) = a"
proof -
  have inv: "cache_inv c" using assms(1) by (simp add: targets_ok_def)
  obtain si tag la where i: "cache_index c a = (si, tag, la)" using prod_cases3 by blast
  note k = cache_look_hit [OF inv i]
  obtain w where w: "find_ix (hit_line tag) (cache_row c si) = Some w" "p = ce_data (cache_row c si ! w)"
    using assms(2) k(2) by auto
  show thesis using that [of si w] k(1) k(3) [OF w(1)] w(2) targets_addr [OF assms(1) i] by simp
qed

lemma target_map_iff: "targets_ok c h \<Longrightarrow> target_map c h a = None \<longleftrightarrow> cache_look c a = None"
proof (cases "cache_look c a")
  case (Some p)
  assume ok: "targets_ok c h"
  obtain si w where "si < length (cache_entries c)" "w < length (cache_row c si)" "p = ce_data (cache_row c si ! w)"
    using cache_look_line [OF ok Some] by blast
  then have "addr_buf h p" using ok own_bufs_line by (auto simp: targets_ok_def)
  then show ?thesis using load_Addr_Some Some by (auto simp: target_map_def)
qed (simp add: target_map_def)

lemma targets_access:
  assumes ok: "targets_ok c h" and t: "sim_time E < MAX_CTR"
  obtains p c' where "cache_access E a True (c, h) = Some (p, a, c', h)" "targets_ok c' h"
    "target_map c' h = target_map c h" "(p = 0) = (target_map c h a = None)"
    "target_map c h a = (if p = 0 then None else load_Addr p h)"
proof -
  have inv: "cache_inv c" and pol: "cache_repl_policy c = REPL_TRUE_LRU" "direct_policy (cache_repl_policy c)"
    using ok by (simp_all add: targets_ok_def direct_policy_def)
  obtain si tag la where i: "cache_index c a = (si, tag, la)" using prod_cases3 by blast
  note k = cache_look_hit [OF inv i]
  have la: "la = a" using targets_addr [OF ok i] .
  show thesis
  proof (cases "find_ix (hit_line tag) (cache_row c si)")
    case None
    then have "cache_access E a True (c, h) = Some (0, a, c, h)" using pol(1) by (simp add: cache_access_def i la)
    moreover have "target_map c h a = None" using None k(2) by (simp add: target_map_def)
    ultimately show thesis using ok by (intro that [of 0 c]) simp_all
  next
    case (Some w)
    note e = k(3) [OF Some]
    obtain c1 where c1: "cache_access E a True (c, h) = Some (ce_data (cache_row c si ! w), a, c1, h)"
      "cache_row c1 si = (cache_row c si)[w := (cache_row c si ! w)\<lparr>ce_pref := False, ce_last_access_time := sim_time E\<rparr>]"
      "\<And>sj. sj \<noteq> si \<Longrightarrow> cache_row c1 sj = cache_row c sj" "length (cache_entries c1) = length (cache_entries c)"
      "cache_index c1 = cache_index c" "cache_repl_policy c1 = REPL_TRUE_LRU"
      by (rule lru_access_hit [OF i k(1) pol(1) Some]) (use e la in auto)
    obtain c2 where c2: "cache_access E a True (c, h) = Some (case cache_look c a of None \<Rightarrow> 0 | Some p \<Rightarrow> p, get_cache_line_addr c a, c2, h)"
      "cache_inv c2" "cache_look c2 = cache_look c"
      by (rule cache_access_ok [OF inv pol(2) t])
    have eq: "c1 = c2" using c1(1) c2(1) by simp
    have look: "cache_look c a = Some (ce_data (cache_row c si ! w))" using k(2) Some by simp
    have "line_data c1 = line_data c"
    proof (rule line_data_cong [OF c1(4)])
      fix sj show "map ce_data (cache_row c1 sj) = map ce_data (cache_row c sj)"
        using c1(2,3) e by (cases "sj = si") (simp_all add: map_update list_update_same_conv)
    qed
    moreover have "cache_offset_mask c1 = cache_offset_mask c"
    proof -
      have "NOT (cache_offset_mask c1) = snd (snd (cache_index c1 (- 1)))" "NOT (cache_offset_mask c) = snd (snd (cache_index c (- 1)))"
        by (simp_all add: cache_index_def)
      then have "NOT (NOT (cache_offset_mask c1)) = NOT (NOT (cache_offset_mask c))" using c1(5) by (simp only:)
      then show ?thesis by simp
    qed
    ultimately have ok': "targets_ok c1 h" using ok c1 c2 eq by (simp add: targets_ok_def own_bufs_def)
    have "target_map c1 h = target_map c h" by (simp add: target_map_def fun_eq_iff eq c2(3))
    moreover have "target_map c h a = load_Addr (ce_data (cache_row c si ! w)) h" by (simp add: target_map_def look)
    moreover have "target_map c h a \<noteq> None" using target_map_iff [OF ok] look by simp
    ultimately show thesis using ok' c1(1) e by (intro that [of "ce_data (cache_row c si ! w)" c1]) auto
  qed
qed

text \<open>\<open>v\<close> is the address whose target is lost, if any.\<close>

lemma targets_insert:
  assumes ok: "targets_ok c h" and t: "sim_time E < MAX_CTR" and miss: "target_map c h a = None"
  obtains p r c' h' v where "cache_insert E pid a (c, h) = Some (p, a, r, c', h)" "store_Addr p x h = Some h'"
    "targets_ok c' h'" "\<And>b. target_map c' h' b = (if b = a then Some x else if v = Some b then None else target_map c h b)"
proof -
  have inv: "cache_inv c" and pol: "cache_repl_policy c = REPL_TRUE_LRU" "direct_policy (cache_repl_policy c)"
    and off: "cache_offset_mask c = 0" and own: "own_bufs c h"
    using ok by (simp_all add: targets_ok_def direct_policy_def)
  obtain si tag la where i: "cache_index c a = (si, tag, la)" using prod_cases3 by blast
  have la: "la = a" "get_cache_line_addr c b = b" for b
    using targets_addr [OF ok] i by (auto simp: get_cache_line_addr_def cache_index_def off)
  have si: "si < length (cache_entries c)" using cache_look_hit(1) [OF inv i] .
  define row where "row = cache_row c si"
  define w where "w = fst (lru_way row)"
  have ne: "row \<noteq> []" using cache_row_ne [OF inv si] by (simp add: row_def)
  have wl: "w < length row" using lru_way_lt [OF ne] by (simp add: w_def)
  let ?e = "row ! w"
  have fr: "find_repl_entry E c pid si = Some (w, c)"
    using pol(1) wl by (simp add: find_repl_entry_def Let_def row_def w_def)
  have nxt: "get_next_repl_line E pid a c = Some (ce_data ?e, ce_base ?e, ce_valid ?e, c)"
    using fr by (simp add: get_next_eq [OF i] row_def)
  have look: "cache_look c a = None" using target_map_iff [OF ok] miss by simp
  obtain c1 where c1: "cache_insert E pid a (c, h) = Some (ce_data ?e, la, if ce_valid ?e then ce_base ?e else 0, c1, h)"
    "cache_row c1 si = row[w := ?e\<lparr>ce_proc_id := pid, ce_valid := True, ce_tag := tag, ce_base := la,
       ce_last_access_time := sim_time E, ce_pref := False\<rparr>]"
    "\<And>sj. sj \<noteq> si \<Longrightarrow> cache_row c1 sj = cache_row c sj" "length (cache_entries c1) = length (cache_entries c)"
    by (rule lru_insert_eq [OF i si pol(1), of w]) (use ne row_def w_def in auto)
  obtain c2 where c2: "cache_insert E pid a (c, h) = Some (ce_data ?e, get_cache_line_addr c a, if ce_valid ?e then ce_base ?e else 0, c2, h)"
    and ins: "inserted c a (ce_data ?e) (ce_base ?e) (ce_valid ?e) c2"
    unfolding cache_insert_def by (rule cache_insert_replpos_ok [OF inv pol(2) t look nxt])
  have eq: "c2 = c1" using c1(1) c2 by simp
  have look': "cache_look c1 b = (if b = a then Some (ce_data ?e) else if ce_valid ?e \<and> b = ce_base ?e then None else cache_look c b)" for b
    using ins by (simp add: inserted_def eq la)
  have "addr_buf h (ce_data ?e)" using own_bufs_line [OF own si] wl by (simp add: row_def)
  then obtain h' where h': "store_Addr (ce_data ?e) x h = Some h'" "load_Addr (ce_data ?e) h' = Some x"
    "\<And>q. q \<noteq> ce_data ?e \<Longrightarrow> load_Addr q h' = load_Addr q h" "\<And>q. addr_buf h' q = addr_buf h q"
    using store_Addr_Some by metis
  have dat: "line_data c1 = line_data c"
  proof (rule line_data_cong [OF c1(4)])
    fix sj show "map ce_data (cache_row c1 sj) = map ce_data (cache_row c sj)"
      using c1(2,3) wl by (cases "sj = si") (simp_all add: map_update list_update_same_conv row_def)
  qed
  have "NOT (cache_offset_mask c1) = NOT (cache_offset_mask c)"
  proof -
    have "cache_index c1 = cache_index c" using ins by (simp add: inserted_def eq)
    then have "snd (snd (cache_index c1 (- 1))) = snd (snd (cache_index c (- 1)))" by simp
    then show ?thesis by (simp add: cache_index_def)
  qed
  then have "NOT (NOT (cache_offset_mask c1)) = NOT (NOT (cache_offset_mask c))" by (simp only:)
  then have "cache_offset_mask c1 = 0" by (simp add: off)
  then have ok': "targets_ok c1 h'"
    using ins own dat h'(4) pol by (simp add: targets_ok_def inserted_def eq own_bufs_def)
  define v where "v = (if ce_valid ?e then Some (ce_base ?e) else None)"
  have "target_map c1 h' b = (if b = a then Some x else if v = Some b then None else target_map c h b)" for b
  proof (cases "b = a \<or> v = Some b \<or> cache_look c b = None")
    case True
    then show ?thesis using h'(2) by (auto simp: target_map_def look' v_def)
  next
    case False
    then obtain q where q: "cache_look c b = Some q" by auto
    obtain sj u where u: "sj < length (cache_entries c)" "u < length (cache_row c sj)" "q = ce_data (cache_row c sj ! u)"
      "ce_valid (cache_row c sj ! u)" "ce_base (cache_row c sj ! u) = b"
      by (rule cache_look_line [OF ok q])
    have "q \<noteq> ce_data ?e"
    proof
      assume "q = ce_data ?e"
      then have "sj = si \<and> u = w" using own_bufs_distinct [OF own u(1,2) si] wl u(3) by (simp add: row_def)
      with u(4,5) False show False by (simp add: v_def row_def)
    qed
    then have "load_Addr q h' = load_Addr q h" using h'(3) by blast
    with False q show ?thesis by (auto simp: target_map_def look' v_def)
  qed
  then show thesis using that [OF c1(1) [unfolded la(1)] h'(1) ok', of v] by blast
qed

section \<open>Operations on the buffers\<close>

lemma btb_pred_ok:
  assumes P: "\<not> PERFECT_BTB P" and ok: "targets_ok (bd_btb d) h" and t: "sim_time E < MAX_CTR"
  obtains c where "bp_btb_gen_pred P E op (d, h) =
      Some (target_map (bd_btb d) h (oi_pred_addr (op_oracle_info op)), d\<lparr>bd_btb := c\<rparr>, h)"
    "targets_ok c h" "target_map c h = target_map (bd_btb d) h"
proof -
  let ?a = "oi_pred_addr (op_oracle_info op)"
  obtain p c where c: "cache_access E ?a True (bd_btb d, h) = Some (p, ?a, c, h)" "targets_ok c h"
    "target_map c h = target_map (bd_btb d) h" "(p = 0) = (target_map (bd_btb d) h ?a = None)"
    "target_map (bd_btb d) h ?a = (if p = 0 then None else load_Addr p h)"
    by (rule targets_access [OF ok t, of ?a])
  have "bp_btb_gen_pred P E op (d, h) = Some (target_map (bd_btb d) h ?a, d\<lparr>bd_btb := c\<rparr>, h)"
    using P c by (cases "target_map (bd_btb d) h ?a") (auto simp: bp_btb_gen_pred_def)
  then show thesis using c(2,3) by (rule that)
qed

lemma btb_update_ok:
  assumes ok: "targets_ok (bd_btb d) h" and t: "sim_time E < MAX_CTR" and pid: "op_proc_id op = bd_proc_id d"
    and w: "BTB_OFF_PATH_WRITES P \<or> \<not> op_off_path op"
    and miss: "target_map (bd_btb d) h (oi_pred_addr (op_oracle_info op)) = None"
  obtains c h' v where "bp_btb_gen_update P E op (d, h) = Some (d\<lparr>bd_btb := c\<rparr>, h')" "targets_ok c h'"
    "\<And>b. target_map c h' b = (if b = oi_pred_addr (op_oracle_info op) then Some (oi_target (op_oracle_info op))
       else if v = Some b then None else target_map (bd_btb d) h b)"
proof -
  obtain p r c h' v where "cache_insert E (ucast (bd_proc_id d)) (oi_pred_addr (op_oracle_info op)) (bd_btb d, h) =
      Some (p, oi_pred_addr (op_oracle_info op), r, c, h)" "store_Addr p (oi_target (op_oracle_info op)) h = Some h'"
    "targets_ok c h'" "\<And>b. target_map c h' b = (if b = oi_pred_addr (op_oracle_info op) then Some (oi_target (op_oracle_info op))
       else if v = Some b then None else target_map (bd_btb d) h b)"
    by (rule targets_insert [OF ok t miss, of "ucast (bd_proc_id d)" "oi_target (op_oracle_info op)"]) blast
  note r = this
  have "bp_btb_gen_update P E op (d, h) = Some (d\<lparr>bd_btb := c\<rparr>, h')"
    using pid w r(1,2) by (auto simp: bp_btb_gen_update_def)
  then show thesis using that [OF _ r(3), of v] r(4) by blast
qed

lemma targ_hist_step_frame:
  assumes "targ_hist_step P op d = Some (hist, op', d')"
  shows "bd_tc_selector d' = bd_tc_selector d" "bd_tc_tagless d' = bd_tc_tagless d" "bd_tc_tagged d' = bd_tc_tagged d"
    "bd_proc_id d' = bd_proc_id d" "bd_global_hist d' = bd_global_hist d"
    "bd_target_bit_length d' = bd_target_bit_length d" "bd_btb d' = bd_btb d"
    "oi_pred_targ_hist (op_oracle_info op') = hist" "op_proc_id op' = op_proc_id op"
    "tagless_index P x op' = tagless_index P x op" "tagged_index P x op' = tagged_index P x op"
  using assms by (auto simp: targ_hist_step_def Let_def tagless_index_def tagged_index_def split: if_splits)

text \<open>The path history when it is used, and its bit count a proper one.\<close>

definition hist_ok :: "bp_params \<Rightarrow> Bp_Data \<Rightarrow> bool" where
  "hist_ok P d \<longleftrightarrow> USE_PAT_HIST P \<or> bd_target_bit_length d < 32"

lemma targ_hist_step_total: "hist_ok P d \<Longrightarrow> \<exists>x. targ_hist_step P op d = Some x"
  by (auto simp: hist_ok_def targ_hist_step_def Let_def)

lemma tagless_pred_ok:
  assumes "\<not> PERFECT_IBP P" "tc_len_ok P" "hist_ok P d" "length (bd_tc_tagless d) = 2 ^ unat (IBTB_HIST_LENGTH P)"
  obtains hist op' d' where "targ_hist_step P op d = Some (hist, op', d')"
    "bp_ibtb_tc_tagless_pred P op d = Some (bd_tc_tagless d ! tagless_index P hist op, op', d')"
proof -
  obtain hist op' d' where s: "targ_hist_step P op d = Some (hist, op', d')"
    using targ_hist_step_total [OF assms(3)] by (metis prod_cases3)
  note f = targ_hist_step_frame [OF s]
  have "bp_ibtb_tc_tagless_pred P op d = Some (bd_tc_tagless d ! tagless_index P hist op, op', d')"
    using assms tagless_index_lt [OF assms(2)] f by (simp add: bp_ibtb_tc_tagless_pred_def s Let_def)
  with s show thesis by (rule that)
qed

section \<open>The hybrid target cache never stops\<close>

text \<open>What is left of the cache invariant when a tag may occur twice in a set.\<close>

definition tagged_ok :: "Cache \<Rightarrow> Heap \<Rightarrow> bool" where
  "tagged_ok c h \<longleftrightarrow> index_ok c \<and> cache_repl_policy c = REPL_TRUE_LRU \<and> own_bufs c h \<and>
     0 \<notin> set (concat (line_data c)) \<and> (\<forall>si < length (cache_entries c). cache_row c si \<noteq> [])"

lemma tagged_okD:
  assumes "tagged_ok c h" "cache_index c a = (si, tag, la)"
  shows "si < length (cache_entries c)" "cache_row c si \<noteq> []"
    "w < length (cache_row c si) \<Longrightarrow> ce_data (cache_row c si ! w) \<noteq> 0 \<and> addr_buf h (ce_data (cache_row c si ! w))"
proof -
  show si: "si < length (cache_entries c)" using cache_index_lt assms by (auto simp: tagged_ok_def)
  then show "cache_row c si \<noteq> []" using assms(1) by (simp add: tagged_ok_def)
  assume w: "w < length (cache_row c si)"
  have "line_data c ! si ! w \<in> set (concat (line_data c))"
    using si w by (intro nth_concat_ex) (simp_all add: line_data_def cache_row_def)
  then have "ce_data (cache_row c si ! w) \<in> set (concat (line_data c))"
    using si w by (simp only: line_data_def cache_row_def nth_map)
  then show "ce_data (cache_row c si ! w) \<noteq> 0 \<and> addr_buf h (ce_data (cache_row c si ! w))"
    using assms(1) own_bufs_line si w by (metis tagged_ok_def)
qed

lemma tagged_access_ok:
  assumes ok: "tagged_ok c h"
  obtains p la c' where "cache_access E a True (c, h) = Some (p, la, c', h)" "tagged_ok c' h" "p = 0 \<or> addr_buf h p"
proof -
  obtain si tag la where i: "cache_index c a = (si, tag, la)" using prod_cases3 by blast
  note k = tagged_okD [OF ok i]
  have pol: "cache_repl_policy c = REPL_TRUE_LRU" using ok by (simp add: tagged_ok_def)
  show thesis
  proof (cases "find_ix (hit_line tag) (cache_row c si)")
    case None
    then show thesis using ok pol by (intro that [of 0 la c]) (simp_all add: cache_access_def i)
  next
    case (Some w)
    have w: "w < length (cache_row c si)" using find_ix_SomeD(1) [OF Some] .
    have run: "cache_access E a True (c, h) = Some (ce_data (cache_row c si ! w), la,
        upd_line si w (\<lambda>e. e\<lparr>ce_last_access_time := sim_time E\<rparr>)
          ((upd_line si w (\<lambda>e. e\<lparr>ce_pref := False\<rparr>) c)\<lparr>cache_num_demand_access := cache_num_demand_access c + 1\<rparr>), h)"
      (is "_ = Some (_, _, ?c, h)")
      using Some k(3) [OF w] pol by (simp add: cache_access_def i update_repl_policy_def Let_def)
    have rows: "cache_row ?c sj = (if sj = si then (cache_row c si)[w :=
        (cache_row c si ! w)\<lparr>ce_pref := False, ce_last_access_time := sim_time E\<rparr>] else cache_row c sj)" for sj
      using k(1) w by (simp add: upd_line_def cache_row_def)
    have "line_data ?c = line_data c"
    proof (rule line_data_cong)
      fix sj show "map ce_data (cache_row ?c sj) = map ce_data (cache_row c sj)"
        using w by (simp add: rows map_update list_update_same_conv)
    qed simp
    moreover have "index_ok ?c = index_ok c" by (simp add: index_ok_def upd_line_def)
    ultimately have "tagged_ok ?c h"
      using ok rows by (simp add: tagged_ok_def own_bufs_def)
    with run k(3) [OF w] show thesis by (intro that) auto
  qed
qed

lemma tagged_insert_ok:
  assumes ok: "tagged_ok c h"
  obtains p la r c' h' where "cache_insert E pid a (c, h) = Some (p, la, r, c', h)" "store_Addr p x h = Some h'" "tagged_ok c' h'"
proof -
  obtain si tag la where i: "cache_index c a = (si, tag, la)" using prod_cases3 by blast
  note k = tagged_okD [OF ok i]
  have pol: "cache_repl_policy c = REPL_TRUE_LRU" using ok by (simp add: tagged_ok_def)
  define w where "w = fst (lru_way (cache_row c si))"
  have w: "w < length (cache_row c si)" using lru_way_lt [OF k(2)] by (simp add: w_def)
  let ?f = "\<lambda>e. e\<lparr>ce_proc_id := pid, ce_valid := True, ce_tag := tag, ce_base := la, ce_last_access_time := sim_time E, ce_pref := False\<rparr>"
  let ?g = "\<lambda>e. e\<lparr>ce_last_access_time := sim_time E\<rparr>"
  let ?c = "upd_line si w ?g (upd_line si w ?f c)"
  have fr: "find_repl_entry E c pid si = Some (w, c)" using pol w by (simp add: find_repl_entry_def Let_def w_def)
  have rows: "map ce_data (cache_row ?c sj) = map ce_data (cache_row c sj)" for sj
    using k(1) w by (cases "sj = si") (simp_all add: upd_line_def cache_row_def map_update list_update_same_conv)
  have run: "\<exists>r. cache_insert E pid a (c, h) = Some (ce_data (cache_row c si ! w), la, r, ?c, h)"
    using pol k(1) w fr by (simp add: cache_insert_def cache_insert_replpos_def i cache_take_line_def update_repl_policy_def
        Let_def upd_line_def cache_row_def)
  obtain h' where h': "store_Addr (ce_data (cache_row c si ! w)) x h = Some h'" "\<And>q. addr_buf h' q = addr_buf h q"
    using store_Addr_Some k(3) [OF w] by metis
  have "line_data ?c = line_data c" by (rule line_data_cong) (simp_all add: rows)
  moreover have "cache_row ?c sj \<noteq> []" if "sj < length (cache_entries c)" for sj
    using ok that rows [of sj] by (metis map_is_Nil_conv tagged_ok_def)
  ultimately have "tagged_ok ?c h'" using ok h'(2) by (simp add: tagged_ok_def own_bufs_def)
  with run h'(1) show thesis using that by blast
qed

definition hybrid_ok :: "bp_params \<Rightarrow> Bp_Data \<times> Heap \<Rightarrow> bool" where
  "hybrid_ok P = (\<lambda>(d, h). tc_len_ok P \<and> hist_ok P d \<and> tc_tables_ok P d \<and> tagged_ok (bd_tc_tagged d) h)"

lemma tagged_pred_total:
  assumes "hybrid_ok P (d, h)"
  obtains a op' d' where "bp_ibtb_tc_tagged_pred P E op (d, h) = Some (a, op', d', h)" "hybrid_ok P (d', h)"
proof (cases "PERFECT_IBP P")
  case True
  with assms show thesis by (intro that [of "oi_target (op_oracle_info op)" op d]) (simp_all add: bp_ibtb_tc_tagged_pred_def)
next
  case False
  have ht: "hist_ok P d" using assms by (simp add: hybrid_ok_def)
  obtain hist op' d' where s: "targ_hist_step P op d = Some (hist, op', d')"
    using targ_hist_step_total [OF ht] by (metis prod_cases3)
  note f = targ_hist_step_frame [OF s]
  have ok: "tagged_ok (bd_tc_tagged d') h" using assms by (simp add: hybrid_ok_def f)
  obtain p la c' where c: "cache_access E (tagged_index P hist op') True (bd_tc_tagged d', h) = Some (p, la, c', h)"
    "tagged_ok c' h" "p = 0 \<or> addr_buf h p"
    by (rule tagged_access_ok [OF ok])
  obtain a where a: "(if p = 0 then Some 0 else load_Addr p h) = Some a"
    using c(3) load_Addr_Some [of h p] by (cases "p = 0") auto
  have "hybrid_ok P (d'\<lparr>bd_tc_tagged := c'\<rparr>, h)"
    using assms c(2) f by (simp add: hybrid_ok_def hist_ok_def tc_tables_ok_def)
  with False s c a show thesis
    by (intro that [of a op' "d'\<lparr>bd_tc_tagged := c'\<rparr>"]) (simp_all add: bp_ibtb_tc_tagged_pred_def)
qed

lemma tagless_pred_total:
  assumes "hybrid_ok P (d, h)"
  obtains a op' d' where "bp_ibtb_tc_tagless_pred P op d = Some (a, op', d')" "hybrid_ok P (d', h)"
proof (cases "PERFECT_IBP P")
  case True
  with assms show thesis by (intro that [of "oi_target (op_oracle_info op)" op d]) (simp_all add: bp_ibtb_tc_tagless_pred_def)
next
  case False
  have l: "tc_len_ok P" "hist_ok P d" "length (bd_tc_tagless d) = 2 ^ unat (IBTB_HIST_LENGTH P)"
    using assms by (simp_all add: hybrid_ok_def tc_tables_ok_def)
  obtain hist op' d' where s: "targ_hist_step P op d = Some (hist, op', d')"
    "bp_ibtb_tc_tagless_pred P op d = Some (bd_tc_tagless d ! tagless_index P hist op, op', d')"
    by (rule tagless_pred_ok [OF False l])
  note f = targ_hist_step_frame [OF s(1)]
  have "hybrid_ok P (d', h)" using assms f by (simp add: hybrid_ok_def hist_ok_def tc_tables_ok_def)
  with s(2) show thesis by (rule that)
qed

lemma tagged_update_total:
  assumes "hybrid_ok P (d, h)"
  obtains d' h' where "bp_ibtb_tc_tagged_update P E op (d, h) = Some (d', h')" "hybrid_ok P (d', h')"
    "bd_tc_selector d' = bd_tc_selector d" "bd_proc_id d' = bd_proc_id d"
proof -
  have ok: "tagged_ok (bd_tc_tagged d) h" using assms by (simp add: hybrid_ok_def)
  obtain p la r c' h' where c: "cache_insert E (ucast (bd_proc_id d)) (tagged_index P (oi_pred_targ_hist (op_oracle_info op)) op)
      (bd_tc_tagged d, h) = Some (p, la, r, c', h)" "store_Addr p (oi_target (op_oracle_info op)) h = Some h'" "tagged_ok c' h'"
    by (rule tagged_insert_ok [OF ok])
  have "hybrid_ok P (d\<lparr>bd_tc_tagged := c'\<rparr>, h')"
    using assms c(3) by (simp add: hybrid_ok_def hist_ok_def tc_tables_ok_def)
  with c show thesis
    by (intro that [of "d\<lparr>bd_tc_tagged := c'\<rparr>" h']) (simp_all add: bp_ibtb_tc_tagged_update_def)
qed

lemma tagless_update_total:
  assumes "hybrid_ok P (d, h)"
  obtains d' where "bp_ibtb_tc_tagless_update P op d = Some d'" "hybrid_ok P (d', h)"
proof -
  let ?ix = "tagless_index P (oi_pred_targ_hist (op_oracle_info op)) op"
  have l: "tc_len_ok P" "?ix < length (bd_tc_tagless d)"
    using assms tagless_index_lt [of P] by (simp_all add: hybrid_ok_def tc_tables_ok_def)
  let ?d = "d\<lparr>bd_tc_tagless := (bd_tc_tagless d)[?ix := oi_target (op_oracle_info op)]\<rparr>"
  have "bp_ibtb_tc_tagless_update P op d = Some ?d" using l by (simp add: bp_ibtb_tc_tagless_update_def Let_def)
  moreover have "hybrid_ok P (?d, h)" using assms by (simp add: hybrid_ok_def hist_ok_def tc_tables_ok_def)
  ultimately show thesis by (rule that)
qed

lemma set_selector_ok:
  assumes "hybrid_ok P (d, h)" "v \<le> TC_SELECTOR_TAGGED_STRONG"
  shows "hybrid_ok P (d\<lparr>bd_tc_selector := (bd_tc_selector d)[ix := v]\<rparr>, h)"
  using assms by (auto simp: hybrid_ok_def hist_ok_def tc_tables_ok_def dest: in_set_updD)

lemma hybrid_pred_ok:
  assumes ok: "hybrid_ok P (d, h)" and pid: "op_proc_id op = bd_proc_id d"
  obtains a op' d' where "bp_ibtb_tc_hybrid_pred P E op (d, h) = Some (a, op', d', h)" "hybrid_ok P (d', h)"
proof -
  let ?ix = "tagless_index P (bd_global_hist d) op"
  have l: "tc_len_ok P" "?ix < length (bd_tc_selector d)"
    using ok tagless_index_lt [of P] by (simp_all add: hybrid_ok_def tc_tables_ok_def)
  have "bd_tc_selector d ! ?ix \<le> TC_SELECTOR_TAGGED_STRONG"
    using ok selector_le [of P d] by (simp add: hybrid_ok_def)
  then have s: "\<not> TC_SELECTOR_TAGGED_STRONG < bd_tc_selector d ! ?ix" by simp
  show thesis
  proof (cases "TC_SELECTOR_TAGGED_WEAK \<le> bd_tc_selector d ! ?ix")
    case True
    obtain a op' d' where "bp_ibtb_tc_tagged_pred P E op (d, h) = Some (a, op', d', h)" "hybrid_ok P (d', h)"
      by (rule tagged_pred_total [OF ok])
    with True l s pid show thesis by (intro that) (simp_all add: bp_ibtb_tc_hybrid_pred_def Let_def)
  next
    case False
    obtain a op' d' where "bp_ibtb_tc_tagless_pred P op d = Some (a, op', d')" "hybrid_ok P (d', h)"
      by (rule tagless_pred_total [OF ok])
    with False l s pid show thesis by (intro that) (simp_all add: bp_ibtb_tc_hybrid_pred_def Let_def)
  qed
qed

lemma hybrid_update_ok:
  assumes ok: "hybrid_ok P (d, h)" and pid: "op_proc_id op = bd_proc_id d" and dir: "\<not> oi_mispred (op_oracle_info op)"
  obtains d' h' where "bp_ibtb_tc_hybrid_update P E op (d, h) = Some (d', h')" "hybrid_ok P (d', h')"
proof -
  let ?oi = "op_oracle_info op"
  let ?ix = "tagless_index P (oi_pred_global_hist ?oi) op"
  let ?sel = "bd_tc_selector d ! ?ix"
  have l: "tc_len_ok P" "?ix < length (bd_tc_selector d)"
    using ok tagless_index_lt [of P] by (simp_all add: hybrid_ok_def tc_tables_ok_def)
  have s: "?sel \<le> TC_SELECTOR_TAGGED_STRONG" using ok selector_le [of P d] by (simp add: hybrid_ok_def)
  have tg: "\<exists>d' h'. tagged_then P E op ?ix v (d, h) = Some (d', h') \<and> hybrid_ok P (d', h')"
    if v: "v \<le> TC_SELECTOR_TAGGED_STRONG" for v
  proof -
    obtain d' h' where "bp_ibtb_tc_tagged_update P E op (d\<lparr>bd_tc_selector := (bd_tc_selector d)[?ix := v]\<rparr>, h) = Some (d', h')"
      "hybrid_ok P (d', h')"
      by (rule tagged_update_total [OF set_selector_ok [OF ok v]])
    then show ?thesis by (simp add: tagged_then_def)
  qed
  have tl: "\<exists>d' h'. tagless_then P op ?ix v (d, h) = Some (d', h') \<and> hybrid_ok P (d', h')"
    if v: "v \<le> TC_SELECTOR_TAGGED_STRONG" for v
  proof -
    obtain d' where "bp_ibtb_tc_tagless_update P op (d\<lparr>bd_tc_selector := (bd_tc_selector d)[?ix := v]\<rparr>) = Some d'"
      "hybrid_ok P (d', h)"
      by (rule tagless_update_total [OF set_selector_ok [OF ok v]])
    then show ?thesis by (simp add: tagless_then_def)
  qed
  have both: "\<exists>d' h'. (case bp_ibtb_tc_tagged_update P E op (d, h) of None \<Rightarrow> None
      | Some (d, h) \<Rightarrow> map_option (\<lambda>d. (d, h)) (bp_ibtb_tc_tagless_update P op d)) = Some (d', h') \<and> hybrid_ok P (d', h')"
  proof -
    obtain d1 h1 where 1: "bp_ibtb_tc_tagged_update P E op (d, h) = Some (d1, h1)" "hybrid_ok P (d1, h1)"
      by (rule tagged_update_total [OF ok])
    obtain d2 where "bp_ibtb_tc_tagless_update P op d1 = Some d2" "hybrid_ok P (d2, h1)"
      by (rule tagless_update_total [OF 1(2)])
    with 1(1) show ?thesis by simp
  qed
  have "\<exists>d' h'. bp_ibtb_tc_hybrid_update P E op (d, h) = Some (d', h') \<and> hybrid_ok P (d', h')"
    using both tg [OF SAT_DEC_le [OF s]] tg [OF SAT_INC_le [OF s]] tl [OF SAT_DEC_le [OF s]] tl [OF SAT_INC_le [OF s]]
      l pid dir by (simp add: bp_ibtb_tc_hybrid_update_def Let_def)
  then show thesis using that by blast
qed

end
