(* ===== verification/Bp_Conf.thy ===== *)
theory Bp_Conf
  imports Bp_Types
begin

text \<open>
  The confidence estimators of \<^verbatim>\<open>bp/bp_conf.c\<close>: the table of counters, the window of branches in flight
  that predicts whether fetch is still on the path, and the perceptron.

  The window is the ring from \<^verbatim>\<open>tail\<close> to \<^verbatim>\<open>head\<close>. A loop over it walks a list of indices; its fuel
  is the size of the ring, which is enough when both indices are inside it. \<open>None\<close> is a failed
  assertion, an access outside an array or a loop that does not end.
\<close>

section \<open>Data\<close>

definition OPC_SIZE :: nat where "OPC_SIZE = 512"

record Opc_Entry =
  opc_off_path :: bool
  opc_mispred :: bool
  opc_pred_conf :: bool
  opc_verified :: bool
  opc_op_num :: Counter

record Bpc_Data =
  bpc_ctr_table :: "uns list"
  bpc_opc_table :: "Opc_Entry list"
  bpc_count :: uns
  bpc_head :: uns
  bpc_tail :: uns

record Perceptron_Data =
  conf_pt :: "cint list list"
  pc_global_hist :: uns64
  pc_global_misp_hist :: uns64

text \<open>
  \<open>CONF_PERCEPTRON_THRESHOLD\<close> is the value of the macro of that name, which the code computes in
  floating point from two knobs.
\<close>

record conf_params =
  BPC_BITS :: uns
  BPC_MECH :: bool
  BPC_CTR_RESET :: bool
  BPC_CIT_BITS :: uns
  BPC_CIT_TH :: uns
  BPC_CTR_BITS :: uns
  PERF_BP_CONF_PRED :: bool
  CONF_PERCEPTRON_TH :: cint
  CONF_PERCEPTRON_CTR_BITS :: uns
  CONF_PERCEPTRON_ENTRIES :: uns
  CONF_PERCEPTRON_THRESHOLD :: cint
  CONF_HIST_LENGTH :: uns
  PERCEPTRON_CONF_USE_CONF :: bool
  PERCEPTRON_CONF_TRAIN_HIS :: bool
  PERCEPTRON_CONF_TRAIN_CONF :: bool
  PERCEPTRON_CONF_TRAIN_OFFSET_CONF :: bool
  PERCEPTRON_TRAIN_MISP_FACTOR :: uns
  PERCEPTRON_TRAIN_CORR_FACTOR :: uns
  PERCEPTRON_CONF_HIS_BOTH :: bool
  PERCEPTRON_CONF_HIS_BOTH_LENGTH :: uns

definition op_wrong :: "Op \<Rightarrow> bool" where
  "op_wrong op \<longleftrightarrow> oi_mispred (op_oracle_info op) \<or> oi_misfetch (op_oracle_info op)"

section \<open>The table of counters\<close>

text \<open>\<open>u\<close> is the uninitialised memory of the window.\<close>

definition init_bp_conf :: "conf_params \<Rightarrow> (nat \<Rightarrow> Opc_Entry) \<Rightarrow> Bpc_Data" where
  "init_bp_conf Q u =
     \<lparr>bpc_ctr_table = replicate (2 ^ unat (BPC_BITS Q)) (if BPC_MECH Q then 0 else ucast (N_BIT_MASK (unat (BPC_CIT_BITS Q)))),
      bpc_opc_table = map u [0..<OPC_SIZE], bpc_count = 0, bpc_head = 0, bpc_tail = 0\<rparr>"

definition conf_index :: "conf_params \<Rightarrow> uns32 \<Rightarrow> Addr \<Rightarrow> uns32" where
  "conf_index Q hist a =
     drop_bit (32 - unat (BPC_BITS Q)) hist XOR
     ucast (ucast (drop_bit 2 (ucast a :: uns32)) AND N_BIT_MASK (unat (BPC_BITS Q)))"

definition conf_entry_high :: "conf_params \<Rightarrow> uns \<Rightarrow> bool" where
  "conf_entry_high Q entry =
     (if BPC_MECH Q then (ucast entry :: uns64) = N_BIT_MASK (unat (BPC_CTR_BITS Q))
      else (BPC_CIT_BITS Q * BPC_CIT_TH Q) div 100 <
             of_nat (length (filter (bit entry) [0..<unat (BPC_CIT_BITS Q)])))"

text \<open>With more than 255 bits the 8-bit counter of the vote never reaches its bound.\<close>

definition bp_conf_pred :: "conf_params \<Rightarrow> Bp_Data \<Rightarrow> Op \<Rightarrow> Bpc_Data \<Rightarrow> (Op \<times> Bpc_Data) option" where
  "bp_conf_pred Q d op b =
     (let ix = conf_index Q (bd_global_hist d) (op_inst_addr op)
      in if \<not> unat ix < length (bpc_ctr_table b) \<or> (\<not> BPC_MECH Q \<and> 255 < BPC_CIT_BITS Q) then None
         else
           let conf = (if PERF_BP_CONF_PRED Q then \<not> op_wrong op else conf_entry_high Q (bpc_ctr_table b ! unat ix))
           in Some (upd_oracle (\<lambda>o'. o'\<lparr>oi_pred_conf_index := ucast ix, oi_pred_conf := conf\<rparr>) op, b))"

definition conf_entry_next :: "conf_params \<Rightarrow> bool \<Rightarrow> uns \<Rightarrow> uns" where
  "conf_entry_next Q mispred entry =
     (if BPC_MECH Q then
        if mispred then if BPC_CTR_RESET Q then 0 else SAT_DEC entry 0
        else SAT_INC entry (ucast (N_BIT_MASK (unat (BPC_CTR_BITS Q))))
      else ucast ((ucast (push_bit 1 entry OR (if mispred then 0 else 1)) :: uns64) AND N_BIT_MASK (unat (BPC_CIT_BITS Q))))"

definition bp_update_conf :: "conf_params \<Rightarrow> Op \<Rightarrow> Bpc_Data \<Rightarrow> Bpc_Data option" where
  "bp_update_conf Q op b =
     (let ix = unat (ucast (oi_pred_conf_index (op_oracle_info op)) :: uns32)
      in if ix < length (bpc_ctr_table b)
         then Some (b\<lparr>bpc_ctr_table := (bpc_ctr_table b)[ix := conf_entry_next Q (op_wrong op) (bpc_ctr_table b ! ix)]\<rparr>)
         else None)"

section \<open>The window of branches in flight\<close>

text \<open>The indices \<^verbatim>\<open>ii\<close> of \<^verbatim>\<open>while(ii != head) { ...; ii = CIRC_INC(ii, OPC_SIZE); }\<close>.\<close>

fun opc_walk :: "nat \<Rightarrow> uns \<Rightarrow> uns \<Rightarrow> uns list" where
  "opc_walk 0 ii head = []"
| "opc_walk (Suc n) ii head = (if ii = head then [] else ii # opc_walk n (CIRC_INC ii (of_nat OPC_SIZE)) head)"

definition opc_indices :: "Bpc_Data \<Rightarrow> uns list" where
  "opc_indices b = opc_walk OPC_SIZE (bpc_tail b) (bpc_head b)"

definition opc_entry :: "Bpc_Data \<Rightarrow> uns \<Rightarrow> Opc_Entry" where
  "opc_entry b ii = bpc_opc_table b ! unat ii"

definition count_zeros :: "Bpc_Data \<Rightarrow> nat" where
  "count_zeros b = length (filter (\<lambda>ii. \<not> opc_pred_conf (opc_entry b ii)) (opc_indices b))"

definition compute_onpath_conf :: "bool \<Rightarrow> Bpc_Data \<Rightarrow> bool" where
  "compute_onpath_conf include_last b =
     (if 128 < bpc_count b then False
      else case find (\<lambda>ii. \<not> opc_pred_conf (opc_entry b ii)) (opc_indices b) of
             None \<Rightarrow> True
           | Some ii \<Rightarrow> CIRC_INC ii (of_nat OPC_SIZE) = bpc_head b \<and> \<not> include_last)"

definition pred_onpath_conf :: "Op \<Rightarrow> Bp_Data \<times> Bpc_Data \<Rightarrow> (Op \<times> Bp_Data \<times> Bpc_Data) option" where
  "pred_onpath_conf op = (\<lambda>(d, b).
     (let head = bpc_head b
      in if \<not> (unat (bpc_count b) < OPC_SIZE \<and> unat head < length (bpc_opc_table b)) then None
         else
           let e = \<lparr>opc_off_path = op_off_path op, opc_mispred = op_wrong op,
                    opc_pred_conf = oi_pred_conf (op_oracle_info op), opc_verified = False, opc_op_num = op_op_num op\<rparr>;
               b = b\<lparr>bpc_opc_table := (bpc_opc_table b)[unat head := e], bpc_head := CIRC_INC head (of_nat OPC_SIZE),
                     bpc_count := bpc_count b + 1\<rparr>
           in Some (upd_oracle (\<lambda>o'. o'\<lparr>oi_opc_index := head\<rparr>) op,
                    d\<lparr>bd_on_path_pred := compute_onpath_conf False b\<rparr>, b)))"

text \<open>The indices the loop passes: those of the longest prefix that satisfies a test.\<close>

definition opc_advance :: "(Opc_Entry \<Rightarrow> bool) \<Rightarrow> Bpc_Data \<Rightarrow> uns \<times> nat" where
  "opc_advance Q b =
     (let is = opc_indices b; n = length (takeWhile (\<lambda>ii. Q (opc_entry b ii)) is)
      in (if n < length is then is ! n else bpc_head b, n))"

definition update_onpath_conf :: "Op \<Rightarrow> Bp_Data \<times> Bpc_Data \<Rightarrow> (Bp_Data \<times> Bpc_Data) option" where
  "update_onpath_conf op = (\<lambda>(d, b).
     (let ix = unat (oi_opc_index (op_oracle_info op))
      in if \<not> ix < length (bpc_opc_table b) then None
         else
           let b = b\<lparr>bpc_opc_table := (bpc_opc_table b)[ix :=
                       (bpc_opc_table b ! ix)\<lparr>opc_pred_conf := \<not> op_wrong op, opc_verified := True\<rparr>]\<rparr>;
               (ii, n) = opc_advance (\<lambda>e. opc_verified e \<and> \<not> opc_off_path e \<and> \<not> opc_mispred e) b;
               b = b\<lparr>bpc_count := bpc_count b - of_nat n, bpc_tail := ii\<rparr>
           in Some (d\<lparr>bd_on_path_pred := compute_onpath_conf True b\<rparr>, b)))"

definition recover_onpath_conf :: "Bp_Data \<times> Bpc_Data \<Rightarrow> Bp_Data \<times> Bpc_Data" where
  "recover_onpath_conf = (\<lambda>(d, b).
     (let (ii, n) = opc_advance (\<lambda>e. \<not> (opc_mispred e \<or> opc_off_path e)) b;
          b = b\<lparr>bpc_head := ii, bpc_count := of_nat n\<rparr>
      in (d\<lparr>bd_on_path_pred := compute_onpath_conf True b\<rparr>, b)))"

text \<open>\<^verbatim>\<open>read_conf_head\<close> asserts that the estimator is enabled.\<close>

definition read_conf_head :: "bool \<Rightarrow> Bpc_Data \<Rightarrow> uns option" where
  "read_conf_head enabled b = (if enabled then Some (bpc_head b) else None)"

section \<open>The perceptron\<close>

definition conf_perceptron_init :: "conf_params \<Rightarrow> uns64 \<Rightarrow> uns64 \<Rightarrow> Perceptron_Data" where
  "conf_perceptron_init Q u u' =
     \<lparr>conf_pt = replicate (unat (CONF_PERCEPTRON_ENTRIES Q)) (replicate (unat (CONF_HIST_LENGTH Q) + 1) 0),
      pc_global_hist = u, pc_global_misp_hist = u'\<rparr>"

definition CONF_PERCEPTRON_HASH :: "conf_params \<Rightarrow> Addr \<Rightarrow> nat" where
  "CONF_PERCEPTRON_HASH Q a = unat (ucast (a mod ucast (CONF_PERCEPTRON_ENTRIES Q)) :: uns32)"

definition PERCEPTRON_HIS :: "conf_params \<Rightarrow> uns64 \<Rightarrow> uns64 \<Rightarrow> uns64" where
  "PERCEPTRON_HIS Q hist misp =
     (let n = unat (PERCEPTRON_CONF_HIS_BOTH_LENGTH Q)
      in drop_bit n hist OR push_bit (64 - n) (drop_bit (64 - n) misp AND N_BIT_MASK n))"

definition conf_hist :: "conf_params \<Rightarrow> uns64 \<Rightarrow> uns64 \<Rightarrow> uns64" where
  "conf_hist Q hist misp = (if PERCEPTRON_CONF_HIS_BOTH Q then PERCEPTRON_HIS Q hist misp else hist)"

text \<open>Bit \<open>i\<close> of a history, the newest first; the mask is 0 after 64 steps.\<close>

definition hist_bit :: "uns64 \<Rightarrow> nat \<Rightarrow> bool" where
  "hist_bit hist i \<longleftrightarrow> i < 64 \<and> bit hist (63 - i)"

definition conf_output :: "uns64 \<Rightarrow> cint list \<Rightarrow> cint" where
  "conf_output hist ws =
     ws ! 0 + (\<Sum>i\<leftarrow>[0..<length ws - 1]. if hist_bit hist i then ws ! Suc i else - (ws ! Suc i))"

definition conf_of_output :: "conf_params \<Rightarrow> cint \<Rightarrow> bool" where
  "conf_of_output Q output =
     (let out = sint output; th = sint (CONF_PERCEPTRON_TH Q)
      in if PERCEPTRON_CONF_TRAIN_HIS Q then \<not> (out < th \<and> sint (- CONF_PERCEPTRON_TH Q) < out)
         else if PERCEPTRON_CONF_TRAIN_CONF Q then \<not> th < out
         else out < th)"

text \<open>
  \<^verbatim>\<open>CONF_PERCEPTRON_ENTRIES\<close> 0 divides by zero. Under \<^verbatim>\<open>PERCEPTRON_CONF_HIS_BOTH\<close> a length of 0 or above
  64 shifts by 64 bits or a negative number. Only the weights of the history bits are read.
\<close>

definition conf_perceptron_pred :: "conf_params \<Rightarrow> Op \<Rightarrow> Perceptron_Data \<Rightarrow> (Op \<times> Perceptron_Data) option" where
  "conf_perceptron_pred Q op s =
     (let ix = CONF_PERCEPTRON_HASH Q (op_inst_addr op); oi = op_oracle_info op;
          hist = conf_hist Q (pc_global_hist s) (pc_global_misp_hist s);
          n = PERCEPTRON_CONF_HIS_BOTH_LENGTH Q
      in if CONF_PERCEPTRON_ENTRIES Q = 0 \<or> \<not> ix < length (conf_pt s) \<or>
            length (conf_pt s ! ix) \<noteq> unat (CONF_HIST_LENGTH Q) + 1 \<or>
            (PERCEPTRON_CONF_HIS_BOTH Q \<and> \<not> (0 < n \<and> n < 64)) then None
         else
           let output = conf_output hist (conf_pt s ! ix);
               conf = conf_of_output Q output;
               gh = drop_bit 1 (pc_global_hist s); mh = drop_bit 1 (pc_global_misp_hist s);
               x = (if PERCEPTRON_CONF_USE_CONF Q then if oi_mispred oi \<noteq> conf then 0 else 1 else ucast (oi_dir oi)) :: uns64;
               gh' = gh OR push_bit 63 x;
               mh' = (if PERCEPTRON_CONF_USE_CONF Q then mh else mh OR push_bit 63 (if oi_mispred oi then 1 else 0));
               op' = upd_oracle (\<lambda>o'. o'\<lparr>oi_pred_conf_perceptron_global_hist := pc_global_hist s, oi_pred_conf := conf\<rparr>)
                       (op\<lparr>op_conf_perceptron_output := output\<rparr>);
               op' = upd_recovery (\<lambda>r. r\<lparr>ri_conf_perceptron_global_hist := gh',
                        ri_conf_perceptron_global_misp_hist :=
                          (if PERCEPTRON_CONF_USE_CONF Q then ri_conf_perceptron_global_misp_hist r else mh')\<rparr>) op'
           in Some (op', s\<lparr>pc_global_hist := gh', pc_global_misp_hist := mh'\<rparr>))"

definition MAX_WEIGHT :: "conf_params \<Rightarrow> int" where
  "MAX_WEIGHT Q = 2 ^ (unat (CONF_PERCEPTRON_CTR_BITS Q) - 1) - 1"

definition MIN_WEIGHT :: "conf_params \<Rightarrow> int" where
  "MIN_WEIGHT Q = - (MAX_WEIGHT Q + 1)"

definition clamp_hi :: "conf_params \<Rightarrow> cint \<Rightarrow> cint" where
  "clamp_hi Q w = (if MAX_WEIGHT Q < sint w then of_int (MAX_WEIGHT Q) else w)"

definition clamp_lo :: "conf_params \<Rightarrow> cint \<Rightarrow> cint" where
  "clamp_lo Q w = (if sint w < MIN_WEIGHT Q then of_int (MIN_WEIGHT Q) else w)"

text \<open>
  The new value of a weight for a bit \<open>h\<close> of the history: training with the direction of the branch,
  training with the confidence, and the paper's rule, where the two ways to write it agree.
\<close>

definition his_weight :: "conf_params \<Rightarrow> uns8 \<Rightarrow> bool \<Rightarrow> cint \<Rightarrow> cint" where
  "his_weight Q dir h w = (if (if h then 1 else 0) = dir then clamp_hi Q (w + 1) else clamp_lo Q (w - 1))"

definition conf_weight :: "conf_params \<Rightarrow> bool \<Rightarrow> bool \<Rightarrow> cint \<Rightarrow> cint" where
  "conf_weight Q mispred h w =
     (if mispred then
        if h then clamp_hi Q (w + PERCEPTRON_TRAIN_MISP_FACTOR Q) else clamp_lo Q (w - PERCEPTRON_TRAIN_MISP_FACTOR Q)
      else if h then
        let w = w - PERCEPTRON_TRAIN_CORR_FACTOR Q in if sint w < MAX_WEIGHT Q then of_int (MAX_WEIGHT Q) else w
      else
        let w = w + PERCEPTRON_TRAIN_CORR_FACTOR Q in if MIN_WEIGHT Q < sint w then of_int (MIN_WEIGHT Q) else w)"

definition paper_weight :: "conf_params \<Rightarrow> bool \<Rightarrow> bool \<Rightarrow> cint \<Rightarrow> cint" where
  "paper_weight Q mispred h w = clamp_lo Q (clamp_hi Q (if h = mispred then w + 1 else w - 1))"

text \<open>The loop over the history: bit \<open>i\<close> trains weight \<open>k + i\<close>.\<close>

definition train_from :: "conf_params \<Rightarrow> nat \<Rightarrow> (bool \<Rightarrow> cint \<Rightarrow> cint) \<Rightarrow> uns64 \<Rightarrow> cint list \<Rightarrow> cint list" where
  "train_from Q k f hist ws =
     map (\<lambda>j. if k \<le> j \<and> j - k < unat (CONF_HIST_LENGTH Q) then f (hist_bit hist (j - k)) (ws ! j) else ws ! j)
       [0..<length ws]"

definition train_bias :: "conf_params \<Rightarrow> cint \<Rightarrow> cint list \<Rightarrow> cint list" where
  "train_bias Q step ws = ws[0 := clamp_lo Q (clamp_hi Q (ws ! 0 + step))]"

text \<open>
  The output is inside the threshold, or the confidence was wrong. Under
  \<^verbatim>\<open>PERCEPTRON_CONF_TRAIN_OFFSET_CONF\<close> the code tests \<^verbatim>\<open>if(p)\<close>, and \<^verbatim>\<open>p\<close> is 1 or -1.
\<close>

definition conf_trains :: "conf_params \<Rightarrow> Op \<Rightarrow> bool" where
  "conf_trains Q op =
     (let out = sint (op_conf_perceptron_output op); th = CONF_PERCEPTRON_THRESHOLD Q
      in (\<not> sint th < out \<and> \<not> out < sint (- th)) \<or>
         oi_pred_conf (op_oracle_info op) = oi_mispred (op_oracle_info op))"

definition perceptron_trained :: "conf_params \<Rightarrow> Op \<Rightarrow> uns64 \<Rightarrow> cint list \<Rightarrow> cint list" where
  "perceptron_trained Q op hist ws =
     (let oi = op_oracle_info op; by_dir = (if oi_dir oi \<noteq> 0 then 1 else - 1)
      in if PERCEPTRON_CONF_TRAIN_HIS Q then train_from Q 1 (his_weight Q (oi_dir oi)) hist (train_bias Q by_dir ws)
         else if PERCEPTRON_CONF_TRAIN_CONF Q then
           let ws = train_bias Q (if PERCEPTRON_CONF_TRAIN_OFFSET_CONF Q then PERCEPTRON_TRAIN_MISP_FACTOR Q else by_dir) ws
           in if conf_trains Q op then train_from Q 1 (conf_weight Q (oi_mispred oi)) hist ws else ws
         else if conf_trains Q op then train_from Q 0 (paper_weight Q (oi_mispred oi)) hist ws else ws)"

definition conf_perceptron_update :: "conf_params \<Rightarrow> Op \<Rightarrow> Perceptron_Data \<Rightarrow> Perceptron_Data option" where
  "conf_perceptron_update Q op s =
     (let ix = CONF_PERCEPTRON_HASH Q (op_inst_addr op);
          hist = conf_hist Q (oi_pred_conf_perceptron_global_hist (op_oracle_info op))
                   (ri_conf_perceptron_global_misp_hist (op_recovery_info op));
          n = PERCEPTRON_CONF_HIS_BOTH_LENGTH Q
      in if CONF_PERCEPTRON_ENTRIES Q = 0 \<or> \<not> ix < length (conf_pt s) \<or>
            length (conf_pt s ! ix) \<noteq> unat (CONF_HIST_LENGTH Q) + 1 \<or>
            (PERCEPTRON_CONF_HIS_BOTH Q \<and> \<not> (0 < n \<and> n < 64)) then None
         else Some (s\<lparr>conf_pt := (conf_pt s)[ix := perceptron_trained Q op hist (conf_pt s ! ix)]\<rparr>))"

end
