(* ===== verification/Bp_Conf_Inv.thy ===== *)
theory Bp_Conf_Inv
  imports Bp_Conf Bp_Crs_Inv
begin

text \<open>
  The window of \<^verbatim>\<open>bp_conf.c\<close> as a queue: \<open>opc_window\<close> lists its entries, oldest first. A prediction
  appends one, an update marks one and drops the prefix that is resolved, a recovery keeps the prefix
  before the first wrong branch. Then the perceptron: which weights an update moves, and where to.
\<close>

section \<open>The indices of the window\<close>

definition opc_window :: "Bpc_Data \<Rightarrow> Opc_Entry list" where
  "opc_window b = map (opc_entry b) (opc_indices b)"

definition opc_dist :: "uns \<Rightarrow> uns \<Rightarrow> nat" where
  "opc_dist tail head = (if tail \<le> head then unat head - unat tail else 512 - unat tail + unat head)"

definition opc_ok :: "Bpc_Data \<Rightarrow> bool" where
  "opc_ok b \<longleftrightarrow> length (bpc_opc_table b) = 512 \<and> unat (bpc_head b) < 512 \<and> unat (bpc_tail b) < 512 \<and>
     unat (bpc_count b) = opc_dist (bpc_tail b) (bpc_head b)"

lemma OPC_SIZE_512 [simp]: "OPC_SIZE = 512"
  by (simp add: OPC_SIZE_def)

lemma unat_CIRC_INC_512: "unat i < 512 \<Longrightarrow> unat (CIRC_INC i 512) = (unat i + 1) mod 512"
proof -
  assume i: "unat i < 512"
  show ?thesis
  proof (cases "i = 511")
    case False
    then have "unat i \<noteq> 511" using word_unat_eq_iff [of i 511] by simp
    with i have lt: "unat i < 511" by linarith
    then have "unat (i + 1) = unat i + 1" by (intro unat_Suc_uns) simp
    with False lt show ?thesis by (simp add: CIRC_INC_def)
  qed (simp add: CIRC_INC_def)
qed

lemma mod_512: "x < 1024 \<Longrightarrow> x mod 512 = (if x < 512 then x else x - 512)" for x :: nat
  by (simp add: mod_if)

lemma opc_dist_0: "unat t < 512 \<Longrightarrow> unat h < 512 \<Longrightarrow> opc_dist t h = 0 \<longleftrightarrow> t = h"
  by (auto simp: opc_dist_def word_unat_eq_iff word_le_nat_alt)

lemma opc_dist_lt: "unat t < 512 \<Longrightarrow> unat h < 512 \<Longrightarrow> opc_dist t h < 512"
  by (auto simp: opc_dist_def word_le_nat_alt)

lemma opc_dist_up:
  assumes "unat t < 512" "unat h < 512" "t \<noteq> h"
  shows "opc_dist t h = Suc (opc_dist (CIRC_INC t 512) h)"
proof -
  have "unat t \<noteq> unat h" using assms(3) by (simp add: word_unat_eq_iff)
  then show ?thesis using assms(1,2) unat_CIRC_INC_512 [OF assms(1)] mod_512 [of "unat t + 1"]
    by (auto simp: opc_dist_def word_le_nat_alt)
qed

lemma opc_walk_eq:
  assumes "unat t < 512" "unat h < 512" "opc_dist t h \<le> n"
  shows "opc_walk n t h = map (\<lambda>k. of_nat ((unat t + k) mod 512)) [0..<opc_dist t h]"
  using assms
proof (induction n arbitrary: t)
  case 0
  then show ?case by simp
next
  case (Suc n)
  show ?case
  proof (cases "t = h")
    case True
    then show ?thesis using opc_dist_0 Suc.prems by simp
  next
    case False
    let ?t = "CIRC_INC t 512"
    note d = opc_dist_up [OF Suc.prems(1,2) False] and u = unat_CIRC_INC_512 [OF Suc.prems(1)]
    have "unat ?t < 512" using u by simp
    then have "opc_walk n ?t h = map (\<lambda>k. of_nat ((unat ?t + k) mod 512)) [0..<opc_dist ?t h]"
      using Suc.IH [of ?t] Suc.prems d by simp
    moreover have "[0..<opc_dist t h] = 0 # map Suc [0..<opc_dist ?t h]"
      unfolding map_Suc_upt d by (simp add: upt_conv_Cons del: upt_Suc)
    ultimately show ?thesis using False Suc.prems(1) by (simp add: u mod_add_left_eq)
  qed
qed

lemma opc_indices_eq:
  "opc_ok b \<Longrightarrow> opc_indices b = map (\<lambda>k. of_nat ((unat (bpc_tail b) + k) mod 512)) [0..<unat (bpc_count b)]"
  using opc_dist_lt [of "bpc_tail b" "bpc_head b"] by (auto simp: opc_indices_def opc_ok_def opc_walk_eq)

lemma opc_count_lt: "opc_ok b \<Longrightarrow> unat (bpc_count b) < 512"
  by (auto simp: opc_ok_def opc_dist_lt)

lemma length_opc_indices: "opc_ok b \<Longrightarrow> length (opc_indices b) = unat (bpc_count b)"
  by (simp add: opc_indices_eq)

lemma length_opc_window [simp]: "length (opc_window b) = length (opc_indices b)"
  by (simp add: opc_window_def)

lemma opc_indices_nth:
  "opc_ok b \<Longrightarrow> k < unat (bpc_count b) \<Longrightarrow> unat (opc_indices b ! k) = (unat (bpc_tail b) + k) mod 512"
  by (simp add: opc_indices_eq unat_of_nat_small)

text \<open>The position after the last entry is \<^verbatim>\<open>head\<close>, which is not in the window.\<close>

lemma opc_head_eq: "opc_ok b \<Longrightarrow> unat (bpc_head b) = (unat (bpc_tail b) + unat (bpc_count b)) mod 512"
  by (auto simp: opc_ok_def opc_dist_def word_le_nat_alt mod_512)

lemma opc_indices_distinct: "opc_ok b \<Longrightarrow> distinct (opc_indices b)"
proof -
  assume ok: "opc_ok b"
  have "i = j" if "i < unat (bpc_count b)" "j < unat (bpc_count b)" "opc_indices b ! i = opc_indices b ! j" for i j
  proof -
    have "(unat (bpc_tail b) + i) mod 512 = (unat (bpc_tail b) + j) mod 512"
      using opc_indices_nth [OF ok that(1)] opc_indices_nth [OF ok that(2)] that(3) by simp
    moreover have "i < 512" "j < 512" "unat (bpc_tail b) < 512" using that opc_count_lt [OF ok] ok by (auto simp: opc_ok_def)
    ultimately show ?thesis by (auto simp: mod_512 split: if_splits)
  qed
  then show ?thesis by (auto simp: distinct_conv_nth length_opc_indices [OF ok])
qed

section \<open>The operations on the window\<close>

lemma opc_dist_shift:
  assumes "unat t < 512" "unat h < 512" "n \<le> opc_dist t h" "unat t' = (unat t + n) mod 512"
  shows "opc_dist t' h = opc_dist t h - n"
proof -
  have "unat t' = (if unat t + n < 512 then unat t + n else unat t + n - 512)"
    using assms opc_dist_lt [OF assms(1,2)] by (simp add: mod_512)
  then show ?thesis using assms(1-3) by (auto simp: opc_dist_def word_le_nat_alt split: if_splits)
qed

lemma opc_dist_to:
  assumes "unat t < 512" "n < 512" "unat h' = (unat t + n) mod 512"
  shows "opc_dist t h' = n"
proof -
  have "unat h' = (if unat t + n < 512 then unat t + n else unat t + n - 512)"
    using assms by (simp add: mod_512)
  then show ?thesis using assms(1,2) by (auto simp: opc_dist_def word_le_nat_alt split: if_splits)
qed

lemma unat_of_nat_512 [simp]: "unat (of_nat (x mod 512) :: uns) = x mod 512"
proof -
  have "x mod 512 < 512" by simp
  then show ?thesis by (intro unat_of_nat_small) linarith
qed

text \<open>The index at which \<open>opc_advance\<close> stops, and what it passes.\<close>

lemma opc_advance_ok:
  assumes ok: "opc_ok b" and adv: "opc_advance Q b = (ii, n)"
  shows "n = length (takeWhile Q (opc_window b))" "n \<le> unat (bpc_count b)"
    "unat ii = (unat (bpc_tail b) + n) mod 512"
proof -
  show n: "n = length (takeWhile Q (opc_window b))"
    using adv by (simp add: opc_advance_def Let_def opc_window_def takeWhile_map comp_def)
  have "length (takeWhile Q (opc_window b)) \<le> length (opc_window b)" by (rule length_takeWhile_le)
  then show le: "n \<le> unat (bpc_count b)" by (simp add: n length_opc_indices [OF ok])
  have ii: "ii = (if n < length (opc_indices b) then opc_indices b ! n else bpc_head b)"
    using adv by (auto simp: opc_advance_def Let_def)
  show "unat ii = (unat (bpc_tail b) + n) mod 512"
  proof (cases "n < unat (bpc_count b)")
    case True
    then show ?thesis using opc_indices_nth [OF ok True] by (simp add: ii length_opc_indices [OF ok])
  next
    case False
    with le show ?thesis using opc_head_eq [OF ok] by (simp add: ii length_opc_indices [OF ok])
  qed
qed

lemma opc_set_tail:
  assumes ok: "opc_ok b" and n: "n \<le> unat (bpc_count b)" and ii: "unat ii = (unat (bpc_tail b) + n) mod 512"
  defines "b' \<equiv> b\<lparr>bpc_count := bpc_count b - of_nat n, bpc_tail := ii\<rparr>"
  shows "opc_ok b'" "opc_indices b' = drop n (opc_indices b)" "opc_window b' = drop n (opc_window b)"
    "unat (bpc_count b') = unat (bpc_count b) - n"
proof -
  have "unat (of_nat n :: uns) = n" using n opc_count_lt [OF ok] by (intro unat_of_nat_small) linarith
  then show c: "unat (bpc_count b') = unat (bpc_count b) - n"
    using n by (simp add: b'_def unat_sub word_le_nat_alt)
  show ok': "opc_ok b'"
    using ok c n opc_dist_shift [of "bpc_tail b" "bpc_head b" n ii] ii by (simp add: opc_ok_def b'_def)
  have "opc_indices b' = map (\<lambda>k. of_nat ((unat ii + k) mod 512)) [0..<unat (bpc_count b) - n]"
    using opc_indices_eq [OF ok'] c by (simp add: b'_def)
  also have "\<dots> = map (\<lambda>k. of_nat ((unat (bpc_tail b) + (n + k)) mod 512)) [0..<unat (bpc_count b) - n]"
    by (simp add: ii mod_add_left_eq add.assoc)
  also have "\<dots> = drop n (opc_indices b)"
    unfolding opc_indices_eq [OF ok] by (intro nth_equalityI) (auto simp: less_diff_conv add.commute)
  finally show d: "opc_indices b' = drop n (opc_indices b)" .
  have "opc_entry b' = opc_entry b" by (simp add: opc_entry_def fun_eq_iff b'_def)
  then show "opc_window b' = drop n (opc_window b)" by (simp add: opc_window_def d drop_map)
qed

lemma opc_set_head:
  assumes ok: "opc_ok b" and n: "n \<le> unat (bpc_count b)" and ii: "unat ii = (unat (bpc_tail b) + n) mod 512"
  defines "b' \<equiv> b\<lparr>bpc_head := ii, bpc_count := of_nat n\<rparr>"
  shows "opc_ok b'" "opc_indices b' = take n (opc_indices b)" "opc_window b' = take n (opc_window b)"
    "unat (bpc_count b') = n"
proof -
  have lt: "n < 512" using n opc_count_lt [OF ok] by linarith
  then show c: "unat (bpc_count b') = n" by (simp add: b'_def unat_of_nat_small)
  show ok': "opc_ok b'"
    using ok c lt ii opc_dist_to [of "bpc_tail b" n ii] by (simp add: opc_ok_def b'_def)
  have "opc_indices b' = map (\<lambda>k. of_nat ((unat (bpc_tail b) + k) mod 512)) [0..<n]"
    using opc_indices_eq [OF ok'] c by (simp add: b'_def)
  also have "\<dots> = take n (opc_indices b)"
    using n by (simp add: opc_indices_eq [OF ok] take_map)
  finally show d: "opc_indices b' = take n (opc_indices b)" .
  have "opc_entry b' = opc_entry b" by (simp add: opc_entry_def fun_eq_iff b'_def)
  then show "opc_window b' = take n (opc_window b)" by (simp add: opc_window_def d take_map)
qed

lemma opc_push:
  fixes b :: Bpc_Data and e :: Opc_Entry
  assumes ok: "opc_ok b" and c: "unat (bpc_count b) < 511"
  defines "b' \<equiv> b\<lparr>bpc_opc_table := (bpc_opc_table b)[unat (bpc_head b) := e],
    bpc_head := CIRC_INC (bpc_head b) 512, bpc_count := bpc_count b + 1\<rparr>"
  shows "opc_ok b'" "opc_indices b' = opc_indices b @ [bpc_head b]" "opc_window b' = opc_window b @ [e]"
    "unat (bpc_count b') = Suc (unat (bpc_count b))"
proof -
  have b: "unat (bpc_head b) < 512" "unat (bpc_tail b) < 512" "length (bpc_opc_table b) = 512"
    using ok by (simp_all add: opc_ok_def)
  show c': "unat (bpc_count b') = Suc (unat (bpc_count b))"
    using c by (simp add: b'_def unat_Suc_uns)
  have up: "unat (CIRC_INC (bpc_head b) 512) = (unat (bpc_tail b) + Suc (unat (bpc_count b))) mod 512"
    using unat_CIRC_INC_512 [OF b(1)] opc_head_eq [OF ok] by (simp add: mod_Suc_eq)
  show ok': "opc_ok b'"
    using b c' c up opc_dist_to [OF b(2) _ up] by (simp add: opc_ok_def b'_def)
  have "of_nat (unat (bpc_head b)) = bpc_head b" by simp
  then show d: "opc_indices b' = opc_indices b @ [bpc_head b]"
    unfolding opc_indices_eq [OF ok'] opc_indices_eq [OF ok] c'
    by (simp add: b'_def opc_head_eq [OF ok, symmetric])
  have "bpc_head b \<notin> set (opc_indices b)" using opc_indices_distinct [OF ok'] d by simp
  then have "opc_entry b' i = opc_entry b i" if "i \<in> set (opc_indices b)" for i
  proof -
    have "i \<noteq> bpc_head b" using that \<open>bpc_head b \<notin> set (opc_indices b)\<close> by blast
    then show ?thesis by (simp add: opc_entry_def b'_def word_unat_eq_iff)
  qed
  then show "opc_window b' = opc_window b @ [e]"
    using b by (simp add: opc_window_def d) (simp add: opc_entry_def b'_def)
qed

lemma opc_index_lt: "opc_ok b \<Longrightarrow> j < length (opc_window b) \<Longrightarrow> unat (opc_indices b ! j) < length (bpc_opc_table b)"
  using opc_indices_nth [of b j] by (simp add: length_opc_indices) (simp add: opc_ok_def)

lemma opc_mark:
  fixes b :: Bpc_Data and f :: "Opc_Entry \<Rightarrow> Opc_Entry"
  assumes ok: "opc_ok b" and j: "j < length (opc_window b)" and ix: "opc_indices b ! j = ix"
  defines "b' \<equiv> b\<lparr>bpc_opc_table := (bpc_opc_table b)[unat ix := f (bpc_opc_table b ! unat ix)]\<rparr>"
  shows "opc_ok b'" "opc_indices b' = opc_indices b" "opc_window b' = (opc_window b)[j := f (opc_window b ! j)]"
proof -
  show ok': "opc_ok b'" using ok by (simp add: opc_ok_def b'_def)
  show i: "opc_indices b' = opc_indices b" by (simp add: opc_indices_def b'_def)
  have jl: "j < length (opc_indices b)" using j by simp
  have bound: "unat ix < length (bpc_opc_table b)" using opc_index_lt [OF ok j] by (simp add: ix)
  show "opc_window b' = (opc_window b)[j := f (opc_window b ! j)]"
  proof (rule nth_equalityI)
    show "length (opc_window b') = length ((opc_window b)[j := f (opc_window b ! j)])" by (simp add: i)
    fix m assume "m < length (opc_window b')"
    then have m: "m < length (opc_indices b)" by (simp add: i)
    have "opc_indices b ! m = ix \<longleftrightarrow> m = j"
      using nth_eq_iff_index_eq [OF opc_indices_distinct [OF ok] m jl] ix by simp
    moreover have "opc_window b' ! m = opc_entry b' (opc_indices b ! m)" using m by (simp add: opc_window_def i)
    ultimately show "opc_window b' ! m = (opc_window b)[j := f (opc_window b ! j)] ! m"
      using m jl ix bound
      by (cases "m = j") (simp_all add: opc_window_def opc_entry_def b'_def word_unat_eq_iff)
  qed
qed

section \<open>The prediction\<close>

lemma find_Some_map: "find (\<lambda>x. Q (g x)) xs = None \<longleftrightarrow> list_all (\<lambda>e. \<not> Q e) (map g xs)"
  by (induction xs) auto

lemma compute_onpath_all:
  assumes "opc_ok b"
  shows "compute_onpath_conf True b \<longleftrightarrow> length (opc_window b) \<le> 128 \<and> list_all opc_pred_conf (opc_window b)"
proof -
  have "128 < bpc_count b \<longleftrightarrow> 128 < length (opc_window b)"
    using length_opc_indices [OF assms] by (simp add: word_less_nat_alt)
  moreover have "list_all opc_pred_conf (opc_window b) \<longleftrightarrow>
      find (\<lambda>ii. \<not> opc_pred_conf (opc_entry b ii)) (opc_indices b) = None"
    using find_Some_map [of "\<lambda>e. \<not> opc_pred_conf e" "opc_entry b" "opc_indices b"] by (simp add: opc_window_def)
  ultimately show ?thesis by (simp add: compute_onpath_conf_def not_less split: option.split)
qed

lemma find_append_case: "find Q (xs @ ys) = (case find Q xs of None \<Rightarrow> find Q ys | Some x \<Rightarrow> Some x)"
  by (induction xs) auto

lemma find_in: "find Q xs = Some x \<Longrightarrow> x \<in> set xs \<and> Q x"
  by (auto simp: find_Some_iff)

lemma CIRC_INC_512_inj:
  assumes "unat i < 512" "unat j < 512" "CIRC_INC i 512 = CIRC_INC j 512"
  shows "i = j"
proof -
  have "(unat i + 1) mod 512 = (unat j + 1) mod 512"
    using unat_CIRC_INC_512 [OF assms(1)] unat_CIRC_INC_512 [OF assms(2)] assms(3) by simp
  then have "unat i = unat j"
    using mod_512 [of "unat i + 1"] mod_512 [of "unat j + 1"] assms(1,2) by (simp split: if_splits)
  then show ?thesis by (simp add: word_unat_eq_iff)
qed

text \<open>A prediction leaves its own branch out.\<close>

lemma compute_onpath_butlast:
  assumes ok: "opc_ok b" and ix: "opc_indices b = is @ [i]"
  shows "compute_onpath_conf False b \<longleftrightarrow> length (opc_window b) \<le> 128 \<and> list_all opc_pred_conf (butlast (opc_window b))"
proof -
  have b: "128 < bpc_count b \<longleftrightarrow> 128 < length (opc_window b)"
    using length_opc_indices [OF ok] by (simp add: word_less_nat_alt)
  have lt: "unat x < 512" if "x \<in> set (opc_indices b)" for x
    using that by (auto simp: opc_indices_eq [OF ok])
  have "unat (bpc_count b) = Suc (length is)" using length_opc_indices [OF ok] by (simp add: ix)
  then have "unat i = (unat (bpc_tail b) + length is) mod 512"
    using opc_indices_nth [OF ok, of "length is"] by (simp add: ix)
  then have "unat (CIRC_INC i 512) = unat (bpc_head b)"
    using unat_CIRC_INC_512 [of i] opc_head_eq [OF ok] \<open>unat (bpc_count b) = _\<close> lt [of i]
    by (simp add: ix mod_Suc_eq)
  then have hd: "CIRC_INC i 512 = bpc_head b" by (simp add: word_unat_eq_iff)
  have other: "CIRC_INC x 512 \<noteq> bpc_head b" if "x \<in> set is" for x
  proof
    assume "CIRC_INC x 512 = bpc_head b"
    moreover have "unat x < 512" "unat i < 512" using lt [of x] lt [of i] that by (simp_all add: ix)
    ultimately have "x = i" using CIRC_INC_512_inj hd by metis
    then show False using that opc_indices_distinct [OF ok] by (simp add: ix)
  qed
  let ?Q = "\<lambda>ii. \<not> opc_pred_conf (opc_entry b ii)"
  have w: "butlast (opc_window b) = map (opc_entry b) is" by (simp add: opc_window_def ix)
  show ?thesis
  proof (cases "find ?Q is")
    case None
    then have "list_all opc_pred_conf (butlast (opc_window b))"
      using find_Some_map [of "\<lambda>e. \<not> opc_pred_conf e" "opc_entry b" "is"] by (simp add: w)
    moreover have "find ?Q (is @ [i]) = (if ?Q i then Some i else None)"
      using None by (simp add: find_append_case)
    ultimately show ?thesis using b hd by (auto simp: compute_onpath_conf_def ix)
  next
    case (Some x)
    then have "\<not> list_all opc_pred_conf (butlast (opc_window b))"
      using find_Some_map [of "\<lambda>e. \<not> opc_pred_conf e" "opc_entry b" "is"] by (simp add: w)
    moreover have "find ?Q (is @ [i]) = Some x" using Some by (simp add: find_append_case)
    ultimately show ?thesis using other find_in [OF Some] by (auto simp: compute_onpath_conf_def ix)
  qed
qed

section \<open>The three operations\<close>

definition opc_new :: "Op \<Rightarrow> Opc_Entry" where
  "opc_new op = \<lparr>opc_off_path = op_off_path op, opc_mispred = op_wrong op,
     opc_pred_conf = oi_pred_conf (op_oracle_info op), opc_verified = False, opc_op_num = op_op_num op\<rparr>"

definition opc_resolved :: "Op \<Rightarrow> Opc_Entry \<Rightarrow> Opc_Entry" where
  "opc_resolved op e = e\<lparr>opc_pred_conf := \<not> op_wrong op, opc_verified := True\<rparr>"

definition opc_done :: "Opc_Entry \<Rightarrow> bool" where
  "opc_done e \<longleftrightarrow> opc_verified e \<and> \<not> opc_off_path e \<and> \<not> opc_mispred e"

lemma pred_onpath_ok:
  assumes ok: "opc_ok b" and c: "length (opc_window b) < 511"
  obtains op' d' b' where "pred_onpath_conf op (d, b) = Some (op', d', b')" "opc_ok b'"
    "opc_window b' = opc_window b @ [opc_new op]" "opc_indices b' = opc_indices b @ [oi_opc_index (op_oracle_info op')]"
    "bd_on_path_pred d' \<longleftrightarrow> length (opc_window b') \<le> 128 \<and> list_all opc_pred_conf (opc_window b)"
proof -
  have cl: "unat (bpc_count b) < 511" using c length_opc_indices [OF ok] by simp
  let ?b = "b\<lparr>bpc_opc_table := (bpc_opc_table b)[unat (bpc_head b) := opc_new op],
    bpc_head := CIRC_INC (bpc_head b) 512, bpc_count := bpc_count b + 1\<rparr>"
  note p = opc_push [OF ok cl, of "opc_new op"]
  have "unat (bpc_head b) < length (bpc_opc_table b)" using ok by (simp add: opc_ok_def)
  then have run: "pred_onpath_conf op (d, b) = Some (upd_oracle (\<lambda>o'. o'\<lparr>oi_opc_index := bpc_head b\<rparr>) op,
      d\<lparr>bd_on_path_pred := compute_onpath_conf False ?b\<rparr>, ?b)"
    using cl by (simp add: pred_onpath_conf_def Let_def opc_new_def)
  show thesis
    by (rule that [OF run p(1,3)])
      (use p(2,3) compute_onpath_butlast [OF p(1,2)] in simp_all)
qed

lemma update_onpath_ok:
  assumes ok: "opc_ok b" and j: "j < length (opc_window b)" and ix: "opc_indices b ! j = oi_opc_index (op_oracle_info op)"
  obtains d' b' where "update_onpath_conf op (d, b) = Some (d', b')" "opc_ok b'"
    "opc_window b' = dropWhile opc_done ((opc_window b)[j := opc_resolved op (opc_window b ! j)])"
    "bd_on_path_pred d' \<longleftrightarrow> length (opc_window b') \<le> 128 \<and> list_all opc_pred_conf (opc_window b')"
proof -
  let ?ix = "oi_opc_index (op_oracle_info op)"
  define b1 where "b1 = b\<lparr>bpc_opc_table := (bpc_opc_table b)[unat ?ix := opc_resolved op (bpc_opc_table b ! unat ?ix)]\<rparr>"
  note m = opc_mark [OF ok j ix, of "opc_resolved op", folded b1_def]
  obtain ii n where a: "opc_advance opc_done b1 = (ii, n)" by fastforce
  define b2 where "b2 = b1\<lparr>bpc_count := bpc_count b1 - of_nat n, bpc_tail := ii\<rparr>"
  note ad = opc_advance_ok [OF m(1) a]
  note t = opc_set_tail [OF m(1) ad(2,3), folded b2_def]
  have "opc_done = (\<lambda>e. opc_verified e \<and> \<not> opc_off_path e \<and> \<not> opc_mispred e)" by (simp add: fun_eq_iff opc_done_def)
  then have run: "update_onpath_conf op (d, b) = Some (d\<lparr>bd_on_path_pred := compute_onpath_conf True b2\<rparr>, b2)"
    using opc_index_lt [OF ok j] ix a by (simp add: update_onpath_conf_def Let_def b1_def b2_def opc_resolved_def)
  have w: "opc_window b2 = dropWhile opc_done ((opc_window b)[j := opc_resolved op (opc_window b ! j)])"
    by (simp add: t(3) ad(1) m(3) dropWhile_eq_drop)
  show thesis by (rule that [OF run t(1) w]) (simp add: compute_onpath_all [OF t(1)])
qed

definition opc_good :: "Opc_Entry \<Rightarrow> bool" where
  "opc_good e \<longleftrightarrow> \<not> (opc_mispred e \<or> opc_off_path e)"

lemma recover_onpath_ok:
  assumes ok: "opc_ok b"
  obtains d' b' where "recover_onpath_conf (d, b) = (d', b')" "opc_ok b'"
    "opc_window b' = takeWhile opc_good (opc_window b)"
    "bd_on_path_pred d' \<longleftrightarrow> length (opc_window b') \<le> 128 \<and> list_all opc_pred_conf (opc_window b')"
proof -
  obtain ii n where a: "opc_advance opc_good b = (ii, n)" by fastforce
  define b2 where "b2 = b\<lparr>bpc_head := ii, bpc_count := of_nat n\<rparr>"
  note ad = opc_advance_ok [OF ok a]
  note t = opc_set_head [OF ok ad(2,3), folded b2_def]
  have "opc_good = (\<lambda>e. \<not> (opc_mispred e \<or> opc_off_path e))" by (simp add: fun_eq_iff opc_good_def)
  then have run: "recover_onpath_conf (d, b) = (d\<lparr>bd_on_path_pred := compute_onpath_conf True b2\<rparr>, b2)"
    using a by (simp add: recover_onpath_conf_def b2_def Let_def)
  have w: "opc_window b2 = takeWhile opc_good (opc_window b)"
    by (simp add: t(3) ad(1) takeWhile_eq_take [symmetric])
  show thesis by (rule that [OF run t(1) w]) (simp add: compute_onpath_all [OF t(1)])
qed

text \<open>
  The 512th branch in flight: the two indices meet, so every loop over the window sees none of the
  branches, and the counter stays at 512, where the next prediction stops the program.
\<close>

lemma pred_onpath_full:
  assumes ok: "opc_ok b" and c: "length (opc_window b) = 511"
  obtains op' d' b' where "pred_onpath_conf op (d, b) = Some (op', d', b')" "opc_window b' = []" "bpc_count b' = 512"
    "pred_onpath_conf op2 (d', b') = None"
    "\<And>op3. unat (oi_opc_index (op_oracle_info op3)) < 512 \<Longrightarrow>
       \<exists>d'' b''. update_onpath_conf op3 (d', b') = Some (d'', b'') \<and> opc_window b'' = [] \<and> bpc_count b'' = 512"
proof -
  have cl: "unat (bpc_count b) = 511" using c length_opc_indices [OF ok] by simp
  then have c1: "bpc_count b = 511" by (simp add: word_unat_eq_iff)
  have b: "unat (bpc_head b) < 512" "unat (bpc_tail b) < 512" "length (bpc_opc_table b) = 512"
    using ok by (simp_all add: opc_ok_def)
  let ?b = "b\<lparr>bpc_opc_table := (bpc_opc_table b)[unat (bpc_head b) := opc_new op],
    bpc_head := CIRC_INC (bpc_head b) 512, bpc_count := bpc_count b + 1\<rparr>"
  have "unat (CIRC_INC (bpc_head b) 512) = (unat (bpc_tail b) + 512) mod 512"
    using unat_CIRC_INC_512 [OF b(1)] opc_head_eq [OF ok] by (simp add: cl mod_Suc_eq)
  then have meet: "CIRC_INC (bpc_head b) 512 = bpc_tail b" using b(2) by (simp add: word_unat_eq_iff)
  have walk: "opc_walk 512 (bpc_tail b) (bpc_tail b) = []"
    using opc_walk_eq [OF b(2) b(2), of 512] by (simp add: opc_dist_def)
  have run: "pred_onpath_conf op (d, b) = Some (upd_oracle (\<lambda>o'. o'\<lparr>oi_opc_index := bpc_head b\<rparr>) op,
      d\<lparr>bd_on_path_pred := compute_onpath_conf False ?b\<rparr>, ?b)"
    using b c1 by (simp add: pred_onpath_conf_def Let_def opc_new_def)
  show thesis
  proof (rule that [OF run])
    show "opc_window ?b = []" by (simp add: opc_window_def opc_indices_def meet walk)
    show "bpc_count ?b = 512" by (simp add: c1)
    show "pred_onpath_conf op2 (d\<lparr>bd_on_path_pred := compute_onpath_conf False ?b\<rparr>, ?b) = None"
      by (simp add: pred_onpath_conf_def Let_def c1)
    fix op3 :: Op
    assume "unat (oi_opc_index (op_oracle_info op3)) < 512"
    then show "\<exists>d'' b''. update_onpath_conf op3 (d\<lparr>bd_on_path_pred := compute_onpath_conf False ?b\<rparr>, ?b) = Some (d'', b'') \<and>
        opc_window b'' = [] \<and> bpc_count b'' = 512"
      using b by (simp add: update_onpath_conf_def Let_def opc_advance_def opc_indices_def opc_window_def meet walk c1)
  qed
qed

section \<open>The perceptron\<close>

lemma length_trained [simp]: "length (perceptron_trained Q op hist ws) = length ws"
  by (simp add: perceptron_trained_def train_from_def train_bias_def Let_def)

lemma train_from_nth:
  "j < length ws \<Longrightarrow> train_from Q k f hist ws ! j =
     (if k \<le> j \<and> j - k < unat (CONF_HIST_LENGTH Q) then f (hist_bit hist (j - k)) (ws ! j) else ws ! j)"
  by (simp add: train_from_def)

text \<open>The paper's rule starts at the bias, so the weight of the oldest bit of the history is never moved.\<close>

lemma paper_last_weight:
  assumes "\<not> PERCEPTRON_CONF_TRAIN_HIS Q" "\<not> PERCEPTRON_CONF_TRAIN_CONF Q" "length ws = unat (CONF_HIST_LENGTH Q) + 1"
  shows "perceptron_trained Q op hist ws ! unat (CONF_HIST_LENGTH Q) = ws ! unat (CONF_HIST_LENGTH Q)"
  using assms by (simp add: perceptron_trained_def Let_def train_from_nth)

text \<open>Trained with the confidence, a correct prediction throws every weight to a bound, or beyond it.\<close>

lemma conf_weight_correct:
  assumes b: "1 \<le> CONF_PERCEPTRON_CTR_BITS Q" "CONF_PERCEPTRON_CTR_BITS Q \<le> 32"
  shows "if h then MAX_WEIGHT Q \<le> sint (conf_weight Q False h w) else sint (conf_weight Q False h w) \<le> MIN_WEIGHT Q"
proof -
  let ?n = "unat (CONF_PERCEPTRON_CTR_BITS Q) - 1"
  have n: "?n \<le> 31" using b(2) by (simp add: word_le_nat_alt)
  then have p: "(2::int) ^ ?n \<le> 2 ^ 31" by (intro power_increasing) auto
  have s: "sint (of_int x :: cint) = x" if "- (2 ^ 31) \<le> x" "x < 2 ^ 31" for x
    using that by (simp add: signed_of_int signed_take_bit_int_eq_self)
  have "(1::int) \<le> 2 ^ ?n" by simp
  then have "- (2 ^ 31) \<le> MAX_WEIGHT Q" "MAX_WEIGHT Q < 2 ^ 31" "- (2 ^ 31) \<le> MIN_WEIGHT Q" "MIN_WEIGHT Q < 2 ^ 31"
    using p unfolding MIN_WEIGHT_def MAX_WEIGHT_def by linarith+
  then have "sint (of_int (MAX_WEIGHT Q) :: cint) = MAX_WEIGHT Q" "sint (of_int (MIN_WEIGHT Q) :: cint) = MIN_WEIGHT Q"
    by (auto intro!: s)
  then show ?thesis by (simp add: conf_weight_def Let_def)
qed

end
