(* ===== verification/Bp_Props.thy ===== *)
theory Bp_Props
  imports Bp_Crs_Inv Bp_Targ_Inv Bp_Conf_Inv Cache_Props
begin

text \<open>
  The properties of the branch predictor's mechanisms. The witnesses use a call return stack of two
  entries, target caches of one set with two ways, and a window with one branch in it.
\<close>

section \<open>Small instances\<close>

definition bp_small :: bp_params where
  "bp_small = \<lparr>PERFECT_BP = False, PERFECT_BTB = False, PERFECT_IBP = False, PERFECT_CRS = False, PERFECT_CBR_BTB = False,
     PERFECT_NT_BTB = False, UPDATE_BP_OFF_PATH = False, LATE_BP_LATENCY = 5, HIST_LENGTH = 4, PHT_CTR_BITS = 2,
     BP_HASH_TOS = False, IBTB_HASH_TOS = False, BTB_ENTRIES = 2, BTB_ASSOC = 2, BTB_OFF_PATH_WRITES = True,
     ENABLE_CRS = True, CRS_ENTRIES = 2, CRS_REALISTIC = 0, ENABLE_IBP = True, USE_PAT_HIST = True,
     IBTB_HIST_LENGTH = 4, IBTB_OFF_PATH_WRITES = True, TARGETS_IN_HIST = 2, TC_ENTRIES = 2, TC_ASSOC = 2,
     ENABLE_BP_CONF = True, EXTRA_RECOVERY_CYCLES = 0, EXTRA_REDIRECT_CYCLES = 0, EXTRA_CALLSYS_CYCLES = 20\<rparr>"

lemma bp_small_sel [simp]:
  "\<not> PERFECT_BTB bp_small" "\<not> PERFECT_IBP bp_small" "\<not> PERFECT_CRS bp_small" "\<not> IBTB_HASH_TOS bp_small"
  "CRS_ENTRIES bp_small = 2" "CRS_REALISTIC bp_small = 0" "USE_PAT_HIST bp_small" "IBTB_HIST_LENGTH bp_small = 4"
  "BTB_OFF_PATH_WRITES bp_small" "tc_len_ok bp_small" "HIST_LENGTH bp_small = 4" "PHT_CTR_BITS bp_small = 2"
  "\<not> PERFECT_BP bp_small" "\<not> PERFECT_CBR_BTB bp_small" "\<not> PERFECT_NT_BTB bp_small" "\<not> BP_HASH_TOS bp_small"
  "LATE_BP_LATENCY bp_small = 5" "EXTRA_RECOVERY_CYCLES bp_small = 0"
  "CRS_ENTRIES (bp_small\<lparr>CRS_REALISTIC := x\<rparr>) = 2"
  by (simp_all add: bp_small_def tc_len_ok_def)

definition info_0 :: Op_Info where
  "info_0 = \<lparr>oi_npc = 0, oi_target = 0, oi_dir = 0, oi_pred_npc = 0, oi_pred_addr = 0, oi_pred = 0, oi_misfetch = False,
     oi_mispred = False, oi_btb_miss = False, oi_btb_miss_resolved = False, oi_no_target = False, oi_late_pred = 0,
     oi_late_pred_npc = 0, oi_late_misfetch = False, oi_late_mispred = False, oi_recovery_sch = False,
     oi_pred_global_hist = 0, oi_pred_conf_perceptron_global_hist = 0, oi_pred_local_hist = 0, oi_pred_targ_hist = 0,
     oi_hybridgp_gpred = 0, oi_hybridgp_ppred = 0, oi_pred_tc_selector_entry = 0, oi_ibp_miss = False,
     oi_pred_conf = True, oi_pred_conf_index = 0, oi_opc_index = 0\<rparr>"

definition recovery_0 :: Recovery_Info where
  "recovery_0 = \<lparr>ri_proc_id = 0, ri_pred_global_hist = 0, ri_conf_perceptron_global_hist = 0,
     ri_conf_perceptron_global_misp_hist = 0, ri_targ_hist = 0, ri_crs_tos = 0, ri_crs_next = 0, ri_crs_depth = 0,
     ri_op_num = 0, ri_tos_addr = 0, ri_oracle_dir = 0, ri_new_dir = 0, ri_PC = 0, ri_cf_type = CF_BR,
     ri_branchTarget = 0, ri_branch_id = 0\<rparr>"

text \<open>An op at an address, with its target and whether it is off the path.\<close>

definition op_ex :: "Addr \<Rightarrow> Addr \<Rightarrow> bool \<Rightarrow> Op" where
  "op_ex a t off = \<lparr>op_proc_id = 0, op_op_num = 1, op_unique_num = 1, op_inst_uid = 1, op_cf_type = CF_IBR, op_inst_addr = a,
     op_inst_size = 4, op_oracle_info = info_0\<lparr>oi_target := t, oi_pred_addr := a\<rparr>, op_oracle_cp_num = 0,
     op_conf_perceptron_output = 0, op_bp_cycle = 0, op_pred_cycle = 0, op_off_path = off, op_cf_within_fetch = 0,
     op_recovery_info = recovery_0, op_redirect_scheduled = False\<rparr>"

lemma op_ex_sel [simp]:
  "op_proc_id (op_ex a t off) = 0" "op_off_path (op_ex a t off) = off" "oi_target (op_oracle_info (op_ex a t off)) = t"
  "oi_pred_addr (op_oracle_info (op_ex a t off)) = a" "op_inst_addr (op_ex a t off) = a"
  "oi_opc_index (op_oracle_info (op_ex a t off)) = 0" "oi_mispred (op_oracle_info (op_ex a t off)) = False"
  "return_addr (op_ex a t off) = ADDR_PLUS_OFFSET a 4"
  by (simp_all add: op_ex_def info_0_def return_addr_def)

definition crs_0 :: Crs where
  "crs_0 = \<lparr>crs_entries = replicate 4 \<lparr>cr_addr = 0, cr_op_num = 0, cr_nos = 0\<rparr>, crs_off_path = [False, False], crs_depth = 0,
     crs_head = 0, crs_tail = 0, crs_tail_save = 0, crs_depth_save = 0, crs_tos = 0, crs_next = 0\<rparr>"

text \<open>A target cache of one set with the given lines, of size 1.\<close>

definition tc_ex :: "Cache_Entry list \<Rightarrow> Cache" where
  "tc_ex row = (cache_ex REPL_TRUE_LRU 0 row [])\<lparr>cache_shift_bits := 0, cache_offset_mask := 0\<rparr>"

definition tc_line :: "bool \<Rightarrow> Addr \<Rightarrow> Counter \<Rightarrow> ptr \<Rightarrow> Cache_Entry" where
  "tc_line v a t p = (line_ex a t p)\<lparr>ce_valid := v, ce_tag := a\<rparr>"

definition tc_heap :: Heap where
  "tc_heap = \<lparr>bufs = \<lambda>_. Some (replicate 8 0), next_ptr = 3, junk = \<lambda>_ _. 0\<rparr>"

abbreviation tc_rows :: "Cache_Entry list" where
  "tc_rows \<equiv> [tc_line False 0 0 1, tc_line False 0 0 2]"

lemma tc_ex_sel [simp]:
  "cache_index (tc_ex row) a = (0, a, a)" "cache_entries (tc_ex row) = [row]" "cache_row (tc_ex row) 0 = row"
  "cache_repl_policy (tc_ex row) = REPL_TRUE_LRU" "cache_offset_mask (tc_ex row) = 0"
  by (simp_all add: tc_ex_def cache_ex_def cache_index_def cache_row_def)

lemma tc_line_sel [simp]:
  "ce_valid (tc_line v a t p) = v" "ce_tag (tc_line v a t p) = a" "ce_base (tc_line v a t p) = a"
  "ce_data (tc_line v a t p) = p" "ce_last_access_time (tc_line v a t p) = t"
  by (simp_all add: tc_line_def)

lemma tc_heap_buf [simp]: "addr_buf tc_heap p"
  by (simp add: addr_buf_def tc_heap_def)

lemma tc_ex_index_ok [simp]: "index_ok (tc_ex row)"
  by (auto simp: index_ok_def tc_ex_def cache_ex_def intro!: exI [of _ 0])

definition bp_0 :: Bp_Data where
  "bp_0 = \<lparr>bd_proc_id = 0, bd_global_hist = 5, bd_btb = tc_ex tc_rows, bd_crs = crs_0, bd_tc_tagged = tc_ex tc_rows,
     bd_tc_tagless = replicate 16 0, bd_tc_selector = replicate 16 TC_SELECTOR_TAGLESS_WEAK, bd_targ_hist = 0,
     bd_target_bit_length = 2, bd_on_path_pred = True\<rparr>"

lemma bp_0_sel [simp]:
  "bd_proc_id bp_0 = 0" "bd_global_hist bp_0 = 5" "bd_crs bp_0 = crs_0" "bd_btb bp_0 = tc_ex tc_rows"
  "bd_tc_tagged bp_0 = tc_ex tc_rows"
  by (simp_all add: bp_0_def)

abbreviation env_at :: "Counter \<Rightarrow> Cache_Env" where
  "env_at t \<equiv> env_ex\<lparr>sim_time := t\<rparr>"

section \<open>The call return stack\<close>

text \<open>C14: For a power of two of at most 128 entries, the ideal call return stack, run over any sequence of
  calls, returns and recoveries in which the ops after a wrong path wait for its recovery, returns what a
  bounded stack with a checkpoint returns: the newest address not yet popped, the oldest ones lost when
  it is full, and after a recovery what the ops on the path left.\<close>

theorem crs_is_checkpointed_stack:
  assumes "CRS_ENTRIES P = 2 ^ k" "k \<le> 7" "crs_ok k (bd_crs d)" "\<not> off \<longrightarrow> on_path (bd_crs d)"
    "path_order (bd_proc_id d) off evs"
  shows "\<exists>d'. crs_run P evs d =
    Some (crs_spec (2 ^ k) (crs_answer P (bd_proc_id d)) evs (crs_visible k (bd_crs d)) (crs_saved k (bd_crs d)), d')"
  using crs_run_refines [OF assms(1,2,3) _ assms(5)] assms(4) by blast

lemma crs_0_ok: "crs_ok 1 crs_0" "on_path crs_0" "crs_visible 1 crs_0 = []" "crs_saved 1 crs_0 = []"
  by (simp_all add: crs_ok_def on_path_def crs_0_def crs_visible_def crs_saved_def stack_at_def)

theorem crs_is_checkpointed_stack_witness:
  "\<exists>d'. crs_run bp_small [Crs_Push (op_ex 16 0 False), Crs_Push (op_ex 32 0 True), Crs_Pop (op_ex 40 0 True), Crs_Pop (op_ex 48 0 True),
      Crs_Recover, Crs_Pop (op_ex 64 0 False)] bp_0 = Some ([36, 20, 20], d')"
proof -
  let ?evs = "[Crs_Push (op_ex 16 0 False), Crs_Push (op_ex 32 0 True), Crs_Pop (op_ex 40 0 True), Crs_Pop (op_ex 48 0 True),
      Crs_Recover, Crs_Pop (op_ex 64 0 False)]"
  have size: "CRS_ENTRIES bp_small = 2 ^ 1" and path: "path_order (bd_proc_id bp_0) False ?evs"
    and ok: "crs_ok 1 (bd_crs bp_0)" "on_path (bd_crs bp_0)" using crs_0_ok by simp_all
  have "\<exists>d'. crs_run bp_small ?evs bp_0 = Some (crs_spec (2 ^ 1) (crs_answer bp_small (bd_proc_id bp_0)) ?evs
      (crs_visible 1 (bd_crs bp_0)) (crs_saved 1 (bd_crs bp_0)), d')"
    by (rule crs_is_checkpointed_stack [OF size _ ok(1) _ path]) (simp_all only: ok, simp_all)
  then show ?thesis
    using crs_0_ok by (simp add: crs_answer_def top_or_def ADDR_PLUS_OFFSET_def del: One_nat_def crs_run.simps)
qed

text \<open>The recovery of the ideal call return stack ends exactly when there are at most 255 entries: its loop
  counts in 8 bits.\<close>

theorem crs_recover_ends_iff:
  assumes "length (crs_off_path (bd_crs d)) = unat (CRS_ENTRIES P)"
  shows "(\<exists>d'. bp_crs_recover P d = Some d') \<longleftrightarrow> unat (CRS_ENTRIES P) \<le> 255"
proof
  assume "\<exists>d'. bp_crs_recover P d = Some d'"
  then show "unat (CRS_ENTRIES P) \<le> 255"
    using crs_clear_ends by (auto simp: bp_crs_recover_def crs_recover_def)
next
  assume "unat (CRS_ENTRIES P) \<le> 255"
  then show "\<exists>d'. bp_crs_recover P d = Some d'"
    using crs_clear_ok [of "CRS_ENTRIES P" "crs_off_path (bd_crs d)" 0] assms
    by (auto simp: bp_crs_recover_def crs_recover_def)
qed

theorem crs_recover_ends_iff_witness:
  "bp_crs_recover (bp_small\<lparr>CRS_ENTRIES := 256\<rparr>) (bp_0\<lparr>bd_crs := crs_0\<lparr>crs_off_path := replicate 256 False\<rparr>\<rparr>) = None"
  using crs_recover_ends_iff [of "bp_0\<lparr>bd_crs := crs_0\<lparr>crs_off_path := replicate 256 False\<rparr>\<rparr>" "bp_small\<lparr>CRS_ENTRIES := 256\<rparr>"]
  by auto

text \<open>C31: A recovery of the realistic stack to the state that a branch remembered restores the whole stack,
  whatever was pushed and popped since, as long as the pushes did not go round the ring into an
  entry of the stack.\<close>

theorem realistic_recovery_restores:
  assumes "CRS_ENTRIES P = 2 ^ k" "k \<le> 31" "CRS_REALISTIC P = 1" "real_ok k (bd_crs d)" "no_recovery (bd_proc_id d) evs"
    and "ri_crs_next info = crs_next (bd_crs d)" "ri_crs_tos info = crs_tos (bd_crs d)" "ri_crs_depth info = crs_depth (bd_crs d)"
    and "\<forall>i < pushes evs. (unat (crs_next (bd_crs d)) + i) mod 2 ^ k \<notin> set (crs_linked (bd_crs d))"
  shows "\<exists>d'. crs_realistic_run P evs d = Some d' \<and>
    linked_stack (bd_crs (bp_crs_realistic_recover info d')) = linked_stack (bd_crs d)"
proof -
  obtain d' where d': "crs_realistic_run P evs d = Some d'"
    "\<forall>j. (\<forall>i < pushes evs. j \<noteq> (unat (crs_next (bd_crs d)) + i) mod 2 ^ k) \<longrightarrow> crs_entries (bd_crs d') ! j = crs_entries (bd_crs d) ! j"
    using crs_realistic_run_ok [OF assms(1-5)] by blast
  then have "crs_entries (bd_crs d') ! j = crs_entries (bd_crs d) ! j" if "j \<in> set (crs_linked (bd_crs d))" for j
    using assms(9) that by metis
  then have "linked_stack (bd_crs (bp_crs_realistic_recover info d')) = linked_stack (bd_crs d)"
    using assms(6-8) by (intro linked_stack_cong) (simp_all add: bp_crs_realistic_recover_def)
  with d' show ?thesis by blast
qed

theorem realistic_recovery_restores_witness:
  "\<exists>d1 d2. bp_crs_realistic_push (bp_small\<lparr>CRS_REALISTIC := 1\<rparr>) (op_ex 16 0 False) bp_0 = Some d1 \<and>
     crs_realistic_run (bp_small\<lparr>CRS_REALISTIC := 1\<rparr>) [Crs_Pop (op_ex 40 0 True), Crs_Push (op_ex 32 0 True)] (snd d1) = Some d2 \<and>
     linked_stack (bd_crs (bp_crs_realistic_recover (op_recovery_info (fst d1)) d2)) = [20]"
proof -
  let ?P = "bp_small\<lparr>CRS_REALISTIC := 1\<rparr>" and ?evs = "[Crs_Pop (op_ex 40 0 True), Crs_Push (op_ex 32 0 True)]"
  obtain op d where push: "bp_crs_realistic_push ?P (op_ex 16 0 False) bp_0 = Some (op, d)"
    and c: "bd_crs d = crs_0\<lparr>crs_entries := (crs_entries crs_0)[0 := \<lparr>cr_addr = 20, cr_op_num = 1, cr_nos = 0\<rparr>],
      crs_next := 1, crs_depth := 1\<rparr>" "bd_proc_id d = 0"
    and r: "ri_crs_next (op_recovery_info op) = 1" "ri_crs_tos (op_recovery_info op) = 0" "ri_crs_depth (op_recovery_info op) = 1"
    by (simp add: bp_crs_realistic_push_def crs_realistic_push_def crs_0_def Let_def ADDR_PLUS_OFFSET_def CIRC_INC2_def
        save_crs_def op_ex_def return_addr_def)
  have ok: "real_ok 1 (bd_crs d)" by (auto simp: c real_ok_def crs_0_def nth_list_update less_Suc_eq numeral_2_eq_2)
  have l: "crs_linked (bd_crs d) = [0]" "linked_stack (bd_crs d) = [20]"
    by (simp_all add: c crs_linked_def linked_stack_def crs_0_def)
  from realistic_recovery_restores [of ?P 1 d ?evs "op_recovery_info op"] ok r c l push
  show ?thesis by (auto simp: crs_0_def)
qed

section \<open>The target buffers\<close>

text \<open>C28: The branch target buffer is a map from fetch addresses to targets that forgets at most one address
  at each insertion: after the update of a branch it did not know, a lookup returns that branch's target
  at its address, what it returned before at every other address but one, and lookups change nothing.\<close>

theorem btb_is_map:
  assumes "\<not> PERFECT_BTB P" "targets_ok (bd_btb d) h" "sim_time E < MAX_CTR" "op_proc_id op = bd_proc_id d"
    and "BTB_OFF_PATH_WRITES P \<or> \<not> op_off_path op" "target_map (bd_btb d) h (oi_pred_addr (op_oracle_info op)) = None"
  shows "\<exists>d' h' v. bp_btb_gen_update P E op (d, h) = Some (d', h') \<and> targets_ok (bd_btb d') h' \<and>
    (\<forall>E' op'. sim_time E' < MAX_CTR \<longrightarrow> (\<exists>c. bp_btb_gen_pred P E' op' (d', h') =
       Some (let a = oi_pred_addr (op_oracle_info op') in
             if a = oi_pred_addr (op_oracle_info op) then Some (oi_target (op_oracle_info op))
             else if v = Some a then None else target_map (bd_btb d) h a, d'\<lparr>bd_btb := c\<rparr>, h') \<and>
       target_map c h' = target_map (bd_btb d') h'))"
proof -
  obtain c h' v where u: "bp_btb_gen_update P E op (d, h) = Some (d\<lparr>bd_btb := c\<rparr>, h')" "targets_ok c h'"
    "\<forall>b. target_map c h' b = (if b = oi_pred_addr (op_oracle_info op) then Some (oi_target (op_oracle_info op))
       else if v = Some b then None else target_map (bd_btb d) h b)"
    by (rule btb_update_ok [OF assms(2-6)]) blast
  have ok: "targets_ok (bd_btb (d\<lparr>bd_btb := c\<rparr>)) h'" using u(2) by simp
  have "\<exists>c'. bp_btb_gen_pred P E' op' (d\<lparr>bd_btb := c\<rparr>, h') =
      Some (target_map c h' (oi_pred_addr (op_oracle_info op')), d\<lparr>bd_btb := c'\<rparr>, h') \<and> target_map c' h' = target_map c h'"
    if "sim_time E' < MAX_CTR" for E' op'
    using btb_pred_ok [OF assms(1) ok that, of op'] by fastforce
  with u show ?thesis
    by (intro exI [of _ "d\<lparr>bd_btb := c\<rparr>"] exI [of _ h'] exI [of _ v]) (simp add: Let_def)
qed

lemma tc_ex_targets: "targets_ok (tc_ex tc_rows) tc_heap" "target_map (tc_ex tc_rows) tc_heap a = None"
proof -
  have "row_ok tc_rows" by (simp add: row_ok_def tc_line_def line_ex_def)
  then show "targets_ok (tc_ex tc_rows) tc_heap"
    by (simp add: targets_ok_def own_bufs_def line_data_def cache_inv_def base_ok_def)
      (simp add: tc_ex_def cache_ex_def cache_row_def)
  show "target_map (tc_ex tc_rows) tc_heap a = None"
    by (simp add: target_map_def cache_look_def row_look_def hit_line_def)
qed

theorem btb_is_map_witness:
  "\<exists>d' h' c. bp_btb_gen_update bp_small (env_at 5) (op_ex 16 100 False) (bp_0, tc_heap) = Some (d', h') \<and>
     bp_btb_gen_pred bp_small (env_at 6) (op_ex 16 0 False) (d', h') = Some (Some 100, d'\<lparr>bd_btb := c\<rparr>, h')"
proof -
  have m: "sim_time (env_at 5) < MAX_CTR" "sim_time (env_at 6) < MAX_CTR" by (simp_all add: MAX_CTR_def)
  have p: "op_proc_id (op_ex 16 100 False) = bd_proc_id bp_0" "BTB_OFF_PATH_WRITES bp_small \<or> \<not> op_off_path (op_ex 16 100 False)"
    "targets_ok (bd_btb bp_0) tc_heap" "target_map (bd_btb bp_0) tc_heap (oi_pred_addr (op_oracle_info (op_ex 16 100 False))) = None"
    using tc_ex_targets by simp_all
  obtain d' h' where u: "bp_btb_gen_update bp_small (env_at 5) (op_ex 16 100 False) (bp_0, tc_heap) = Some (d', h')"
    and r: "\<exists>v. \<forall>E' op'. sim_time E' < MAX_CTR \<longrightarrow> (\<exists>c. bp_btb_gen_pred bp_small E' op' (d', h') =
       Some (let a = oi_pred_addr (op_oracle_info op') in
             if a = oi_pred_addr (op_oracle_info (op_ex 16 100 False)) then Some (oi_target (op_oracle_info (op_ex 16 100 False)))
             else if v = Some a then None else target_map (bd_btb bp_0) tc_heap a, d'\<lparr>bd_btb := c\<rparr>, h') \<and>
       target_map c h' = target_map (bd_btb d') h')"
    using btb_is_map [OF bp_small_sel(1) p(3) m(1) p(1,2,4)] by blast
  obtain c where "bp_btb_gen_pred bp_small (env_at 6) (op_ex 16 0 False) (d', h') = Some (Some 100, d'\<lparr>bd_btb := c\<rparr>, h')"
    using r m(2) by (auto simp: Let_def dest!: spec [of _ "env_at 6"] spec [of _ "op_ex 16 0 False"])
  with u show ?thesis by blast
qed

text \<open>The tagged target cache keeps the first target it learns for a branch and history: the update
  inserts a new line without looking for the old one, so in an empty set of at least two ways every later
  occurrence is predicted to go to the first target, whatever the targets since.\<close>

theorem tagged_keeps_first_target:
  assumes "USE_PAT_HIST P" "\<not> PERFECT_IBP P" "tagged_index P (bd_global_hist d) op = ix"
    and "cache_index (bd_tc_tagged d) ix = (si, tag, la)" "row = cache_row (bd_tc_tagged d) si"
    and "si < length (cache_entries (bd_tc_tagged d))" "cache_repl_policy (bd_tc_tagged d) = REPL_TRUE_LRU" "1 < length row"
    and "\<forall>e \<in> set row. \<not> ce_valid e" "distinct (map ce_data row)" "\<forall>e \<in> set row. ce_data e \<noteq> 0 \<and> addr_buf h (ce_data e)"
    and "later (sim_time E2) xs" "\<forall>(E1, op, E2) \<in> set xs. tagged_index P (bd_global_hist d) op = ix"
  shows "tc_occurrences P ((E1, op, E2) # xs) (d, h) = Some (0 # replicate (length xs) (oi_target (op_oracle_info op)))"
proof -
  obtain op' d1 d2 h' where r: "bp_ibtb_tc_tagged_pred P E1 op (d, h) = Some (0, op', d1, h)"
    "bp_ibtb_tc_tagged_update P E2 op' (d1, h) = Some (d2, h')" "bd_global_hist d2 = bd_global_hist d"
    "tc_first (bd_tc_tagged d2) h' ix (oi_target (op_oracle_info op)) (sim_time E2)"
    by (rule tc_first_starts [OF assms(1-11)])
  have "tc_occurrences P xs (d2, h') = Some (replicate (length xs) (oi_target (op_oracle_info op)))"
    using tc_stays_first [OF assms(1,2) r(4) assms(12)] assms(13) r(3) by simp
  with r(1,2) show ?thesis by simp
qed

theorem tagged_keeps_first_target_witness:
  "tc_occurrences bp_small [(env_at 1, op_ex 16 100 False, env_at 2), (env_at 3, op_ex 16 200 False, env_at 4),
     (env_at 5, op_ex 16 200 False, env_at 6)] (bp_0, tc_heap) = Some [0, 100, 100]"
proof -
  have ix: "tagged_index bp_small 5 (op_ex 16 t False) = 21" for t by (simp add: tagged_index_def Let_def)
  show ?thesis
    using tagged_keeps_first_target [of bp_small bp_0 "op_ex 16 100 False" 21 0 21 21 tc_rows tc_heap "env_at 2"
        "[(env_at 3, op_ex 16 200 False, env_at 4), (env_at 5, op_ex 16 200 False, env_at 6)]" "env_at 1"] ix
    by (simp add: MAX_CTR_def del: tc_occurrences.simps)
qed

text \<open>The path history of the indirect predictors does not see the low bits of the targets: two targets
  that agree from bit \<open>34 - len\<close> on leave the same history.\<close>

theorem path_history_ignores_low_bits:
  assumes "unat len \<le> 32" "drop_bit (34 - unat len) t = drop_bit (34 - unat len) t'"
  shows "targ_bits len t = targ_bits len t'"
proof (unfold targ_bits_def, rule arg_cong [where f = ucast], rule bit_word_eqI)
  fix n assume "n < LENGTH(64)"
  have "bit t (2 + n) = bit t' (2 + n)" if "32 - unat len \<le> n"
  proof -
    have "bit (drop_bit (34 - unat len) t) (2 + n - (34 - unat len)) = bit (drop_bit (34 - unat len) t') (2 + n - (34 - unat len))"
      using assms(2) by simp
    moreover have "34 - unat len + (2 + n - (34 - unat len)) = 2 + n" using that assms(1) by simp
    ultimately show ?thesis by (simp only: bit_drop_bit_eq o_def)
  qed
  then show "bit (drop_bit 2 t AND push_bit (32 - unat len) (N_BIT_MASK (unat len))) n =
      bit (drop_bit 2 t' AND push_bit (32 - unat len) (N_BIT_MASK (unat len))) n"
    by (auto simp: bit_and_iff bit_drop_bit_eq bit_push_bit_iff)
qed

theorem path_history_ignores_low_bits_witness: "targ_bits 4 0x1000 = targ_bits 4 0x3fffff00"
  using path_history_ignores_low_bits [of 4 "0x1000" "0x3fffff00"] by simp

section \<open>Confidence\<close>

text \<open>C15: The window of the on-path estimator is a queue of the branches in flight. A prediction adds the branch
  and finds fetch on the path when at most 128 are in flight and every older one is confident; the
  resolution of a branch marks it with its outcome and drops the resolved correct branches at the front; a
  recovery keeps what is older than the first wrong or off-path branch. After both fetch is on the path
  when at most 128 are left, all confident.\<close>

theorem onpath_window_is_queue:
  assumes "opc_ok b"
  shows "(length (opc_window b) < 511 \<longrightarrow>
      (\<exists>op' d' b'. pred_onpath_conf op (d, b) = Some (op', d', b') \<and> opc_ok b' \<and> opc_window b' = opc_window b @ [opc_new op] \<and>
        opc_indices b' = opc_indices b @ [oi_opc_index (op_oracle_info op')] \<and>
        (bd_on_path_pred d' \<longleftrightarrow> length (opc_window b') \<le> 128 \<and> list_all opc_pred_conf (opc_window b)))) \<and>
    (\<forall>j < length (opc_window b). opc_indices b ! j = oi_opc_index (op_oracle_info op) \<longrightarrow>
      (\<exists>d' b'. update_onpath_conf op (d, b) = Some (d', b') \<and> opc_ok b' \<and>
        opc_window b' = dropWhile opc_done ((opc_window b)[j := opc_resolved op (opc_window b ! j)]) \<and>
        (bd_on_path_pred d' \<longleftrightarrow> length (opc_window b') \<le> 128 \<and> list_all opc_pred_conf (opc_window b')))) \<and>
    (\<exists>d' b'. recover_onpath_conf (d, b) = (d', b') \<and> opc_ok b' \<and> opc_window b' = takeWhile opc_good (opc_window b) \<and>
        (bd_on_path_pred d' \<longleftrightarrow> length (opc_window b') \<le> 128 \<and> list_all opc_pred_conf (opc_window b')))"
proof (intro conjI allI impI)
  assume "length (opc_window b) < 511"
  from pred_onpath_ok [OF assms this, of op d] show "\<exists>op' d' b'. pred_onpath_conf op (d, b) = Some (op', d', b') \<and> opc_ok b' \<and>
      opc_window b' = opc_window b @ [opc_new op] \<and> opc_indices b' = opc_indices b @ [oi_opc_index (op_oracle_info op')] \<and>
      (bd_on_path_pred d' \<longleftrightarrow> length (opc_window b') \<le> 128 \<and> list_all opc_pred_conf (opc_window b))" by metis
next
  fix j assume "j < length (opc_window b)" "opc_indices b ! j = oi_opc_index (op_oracle_info op)"
  from update_onpath_ok [OF assms this, of d] show "\<exists>d' b'. update_onpath_conf op (d, b) = Some (d', b') \<and> opc_ok b' \<and>
      opc_window b' = dropWhile opc_done ((opc_window b)[j := opc_resolved op (opc_window b ! j)]) \<and>
      (bd_on_path_pred d' \<longleftrightarrow> length (opc_window b') \<le> 128 \<and> list_all opc_pred_conf (opc_window b'))" by metis
next
  from recover_onpath_ok [OF assms, of d] show "\<exists>d' b'. recover_onpath_conf (d, b) = (d', b') \<and> opc_ok b' \<and>
      opc_window b' = takeWhile opc_good (opc_window b) \<and>
      (bd_on_path_pred d' \<longleftrightarrow> length (opc_window b') \<le> 128 \<and> list_all opc_pred_conf (opc_window b'))" by metis
qed

text \<open>A window from index 0 to \<open>n\<close>, with off-path entries.\<close>

definition opc_ex :: "uns \<Rightarrow> Bpc_Data" where
  "opc_ex n = \<lparr>bpc_ctr_table = [], bpc_opc_table = replicate 512 \<lparr>opc_off_path = True, opc_mispred = False, opc_pred_conf = True,
     opc_verified = False, opc_op_num = 0\<rparr>, bpc_count = n, bpc_head = n, bpc_tail = 0\<rparr>"

lemma opc_ex_ok: "unat n < 512 \<Longrightarrow> opc_ok (opc_ex n)" "unat n < 512 \<Longrightarrow> length (opc_window (opc_ex n)) = unat n"
proof -
  assume n: "unat n < 512"
  then show ok: "opc_ok (opc_ex n)" by (simp add: opc_ok_def opc_ex_def opc_dist_def)
  then show "length (opc_window (opc_ex n)) = unat n" by (simp add: length_opc_indices opc_ex_def opc_window_def)
qed

theorem onpath_window_is_queue_witness:
  "(\<exists>op' d' b'. pred_onpath_conf (op_ex 16 0 False) (bp_0, opc_ex 3) = Some (op', d', b') \<and> length (opc_window b') = 4) \<and>
   (\<exists>d' b'. recover_onpath_conf (bp_0, opc_ex 3) = (d', b') \<and> opc_ok b')"
  using onpath_window_is_queue [of "opc_ex 3" "op_ex 16 0 False" bp_0] opc_ex_ok [of 3] by auto

text \<open>The 512th branch in flight is accepted and leaves a window that looks empty, because both ends meet;
  the next prediction fails its assertion.\<close>

theorem onpath_window_overflows:
  assumes "opc_ok b" "length (opc_window b) = 511"
  shows "\<exists>op' d' b'. pred_onpath_conf op (d, b) = Some (op', d', b') \<and> opc_window b' = [] \<and> bpc_count b' = 512 \<and>
    pred_onpath_conf op2 (d', b') = None"
  using pred_onpath_full [OF assms, of op d op2] by metis

theorem onpath_window_overflows_witness:
  "\<exists>op' d' b'. pred_onpath_conf (op_ex 16 0 False) (bp_0, opc_ex 511) = Some (op', d', b') \<and> opc_window b' = [] \<and>
    pred_onpath_conf (op_ex 32 0 False) (d', b') = None"
  using onpath_window_overflows [of "opc_ex 511" "op_ex 16 0 False" bp_0 "op_ex 32 0 False"] opc_ex_ok [of 511] by auto

fun perceptron_updates :: "conf_params \<Rightarrow> Op list \<Rightarrow> Perceptron_Data \<Rightarrow> Perceptron_Data option" where
  "perceptron_updates Q [] s = Some s"
| "perceptron_updates Q (op # ops) s = Option.bind (conf_perceptron_update Q op s) (perceptron_updates Q ops)"

text \<open>Under the paper's rule the loop that trains the weights starts at the bias, so the weight of the
  oldest bit of the history is never trained: after any sequence of updates it is 0 in every row, as at the
  start.\<close>

theorem perceptron_oldest_weight_untrained:
  assumes "\<not> PERCEPTRON_CONF_TRAIN_HIS Q" "\<not> PERCEPTRON_CONF_TRAIN_CONF Q"
    and "perceptron_updates Q ops (conf_perceptron_init Q u u') = Some s" "ws \<in> set (conf_pt s)"
  shows "ws ! unat (CONF_HIST_LENGTH Q) = 0"
proof -
  let ?n = "unat (CONF_HIST_LENGTH Q)"
  define good where "good = (\<lambda>s :: Perceptron_Data. \<forall>ws \<in> set (conf_pt s). length ws = ?n + 1 \<and> ws ! ?n = 0)"
  have step: "good s2" if g: "good s1" and u: "conf_perceptron_update Q op s1 = Some s2" for op :: Op and s1 s2 :: Perceptron_Data
  proof -
    obtain ix hist where ix: "ix < length (conf_pt s1)"
      "s2 = s1\<lparr>conf_pt := (conf_pt s1)[ix := perceptron_trained Q op hist (conf_pt s1 ! ix)]\<rparr>"
      using u by (auto simp: conf_perceptron_update_def Let_def split: if_splits)
    have l: "length (conf_pt s1 ! ix) = ?n + 1" "(conf_pt s1 ! ix) ! ?n = 0" using g ix(1) by (simp_all add: good_def)
    then have "length (perceptron_trained Q op hist (conf_pt s1 ! ix)) = ?n + 1"
      "perceptron_trained Q op hist (conf_pt s1 ! ix) ! ?n = 0"
      using paper_last_weight [OF assms(1,2) l(1)] by (simp_all add: length_trained)
    with g ix show "good s2" by (auto simp: good_def dest!: in_set_updD)
  qed
  have run: "good s2" if "good s1" "perceptron_updates Q ops s1 = Some s2" for s1 s2 :: Perceptron_Data
    using that by (induction ops arbitrary: s1) (auto simp: bind_eq_Some_conv dest: step)
  have "good (conf_perceptron_init Q u u')" by (simp add: good_def conf_perceptron_init_def nth_append nth_Cons')
  from run [OF this assms(3)] assms(4) show ?thesis by (simp add: good_def)
qed

definition conf_small :: conf_params where
  "conf_small = \<lparr>BPC_BITS = 4, BPC_MECH = True, BPC_CTR_RESET = True, BPC_CIT_BITS = 8, BPC_CIT_TH = 50, BPC_CTR_BITS = 3,
     PERF_BP_CONF_PRED = False, CONF_PERCEPTRON_TH = 0, CONF_PERCEPTRON_CTR_BITS = 8, CONF_PERCEPTRON_ENTRIES = 1,
     CONF_PERCEPTRON_THRESHOLD = 1, CONF_HIST_LENGTH = 2, PERCEPTRON_CONF_USE_CONF = False, PERCEPTRON_CONF_TRAIN_HIS = False,
     PERCEPTRON_CONF_TRAIN_CONF = False, PERCEPTRON_CONF_TRAIN_OFFSET_CONF = False, PERCEPTRON_TRAIN_MISP_FACTOR = 1,
     PERCEPTRON_TRAIN_CORR_FACTOR = 1, PERCEPTRON_CONF_HIS_BOTH = False, PERCEPTRON_CONF_HIS_BOTH_LENGTH = 4\<rparr>"

theorem perceptron_oldest_weight_untrained_witness:
  "\<exists>s. perceptron_updates conf_small [op_ex 16 0 False] (conf_perceptron_init conf_small 0 0) = Some s \<and>
    (\<forall>ws \<in> set (conf_pt s). ws ! 2 = 0)"
proof -
  obtain s where s: "perceptron_updates conf_small [op_ex 16 0 False] (conf_perceptron_init conf_small 0 0) = Some s"
    by (simp add: conf_perceptron_update_def conf_perceptron_init_def conf_small_def CONF_PERCEPTRON_HASH_def Let_def)
  have "ws ! unat (CONF_HIST_LENGTH conf_small) = 0" if "ws \<in> set (conf_pt s)" for ws
    by (rule perceptron_oldest_weight_untrained [OF _ _ s that]) (simp_all add: conf_small_def)
  with s show ?thesis by (simp add: conf_small_def)
qed

end
