(* ===== verification/Bp_Main.thy ===== *)
theory Bp_Main
  imports Bp_Crs Bp_Targ Bp_Conf "HOL-Library.Monad_Syntax"
begin

text \<open>
  The branch prediction front of the simulator, \<^verbatim>\<open>bp/bp.c\<close>: prediction, the discovery of a target,
  resolution, retirement and recovery of a control flow op, and the scheduling of recoveries and
  redirections.

  \<^verbatim>\<open>bp.c\<close> calls the mechanisms through tables of function pointers. A row of a table is a record of
  functions here: the direction predictors (\<open>Bp_Mech\<close>) and the confidence estimators (\<open>Br_Conf\<close>) act on a
  world \<open>'w\<close>, the static data of their files, and the target buffers on \<open>Bp_Data\<close> and the heap of the
  buffers' data. Statistics and debug output are left out; \<open>cycle_count\<close> is an argument.
\<close>

section \<open>The tables\<close>

record 'w Bp_Mech =
  bp_init_func :: "'w \<Rightarrow> 'w option"
  bp_timestamp_func :: "Op \<Rightarrow> 'w \<Rightarrow> (Op \<times> 'w) option"
  bp_pred_func :: "Op \<Rightarrow> 'w \<Rightarrow> (uns8 \<times> Op \<times> 'w) option"
  bp_spec_update_func :: "Op \<Rightarrow> 'w \<Rightarrow> (Op \<times> 'w) option"
  bp_update_func :: "Op \<Rightarrow> 'w \<Rightarrow> (Op \<times> 'w) option"
  bp_retire_func :: "Op \<Rightarrow> 'w \<Rightarrow> (Op \<times> 'w) option"
  bp_recover_func :: "Recovery_Info \<Rightarrow> 'w \<Rightarrow> 'w option"

record Bp_Btb =
  btb_init_func :: "Bp_Data \<times> Heap \<Rightarrow> (Bp_Data \<times> Heap) option"
  btb_pred_func :: "Op \<Rightarrow> Bp_Data \<times> Heap \<Rightarrow> (Addr option \<times> Bp_Data \<times> Heap) option"
  btb_update_func :: "Op \<Rightarrow> Bp_Data \<times> Heap \<Rightarrow> (Bp_Data \<times> Heap) option"

record Bp_Ibtb =
  ibtb_init_func :: "Bp_Data \<times> Heap \<Rightarrow> (Bp_Data \<times> Heap) option"
  ibtb_pred_func :: "Op \<Rightarrow> Bp_Data \<times> Heap \<Rightarrow> (Addr \<times> Op \<times> Bp_Data \<times> Heap) option"
  ibtb_update_func :: "Op \<Rightarrow> Bp_Data \<times> Heap \<Rightarrow> (Bp_Data \<times> Heap) option"
  ibtb_recover_func :: "Recovery_Info \<Rightarrow> Bp_Data \<Rightarrow> Bp_Data"

record 'w Br_Conf =
  conf_init_func :: "'w \<Rightarrow> 'w option"
  conf_pred_func :: "Op \<Rightarrow> Bp_Data \<times> 'w \<Rightarrow> (Op \<times> Bp_Data \<times> 'w) option"
  conf_update_func :: "Op \<Rightarrow> Bp_Data \<times> 'w \<Rightarrow> (Bp_Data \<times> 'w) option"
  conf_recover_func :: "(Bp_Data \<times> 'w \<Rightarrow> Bp_Data \<times> 'w) option"

text \<open>The mechanisms chosen by the knobs; \<^verbatim>\<open>USE_LATE_BP\<close> is that there is a late predictor.\<close>

record 'w bp_mechs =
  mech_bp :: "'w Bp_Mech"
  mech_late_bp :: "'w Bp_Mech option"
  mech_btb :: Bp_Btb
  mech_ibtb :: Bp_Ibtb
  mech_conf :: "'w Br_Conf"

record 'w Bp_State =
  bs_data :: Bp_Data
  bs_heap :: Heap
  bs_world :: 'w
  bs_low_conf_count :: cint
  bs_corrpred_counter :: Counter
  bs_mispred_counter :: Counter

definition IS_CONF_CF :: "Op \<Rightarrow> bool" where
  "IS_CONF_CF op \<longleftrightarrow> op_cf_type op = CF_CBR \<or> op_cf_type op = CF_IBR \<or> op_cf_type op = CF_ICALL"

definition proc_id_in_addr :: "uns \<Rightarrow> Addr \<Rightarrow> bool" where
  "proc_id_in_addr proc_id a \<longleftrightarrow> proc_id = get_proc_id_from_cmp_addr a"

text \<open>A function of the main and then of the late predictor.\<close>

definition both_bp ::
    "('w Bp_Mech \<Rightarrow> Op \<Rightarrow> 'w \<Rightarrow> (Op \<times> 'w) option) \<Rightarrow> 'w bp_mechs \<Rightarrow> Op \<Rightarrow> 'w \<Rightarrow> (Op \<times> 'w) option" where
  "both_bp f M op w =
     do { (op, w) \<leftarrow> f (mech_bp M) op w;
          case mech_late_bp M of None \<Rightarrow> Some (op, w) | Some B \<Rightarrow> f B op w }"

section \<open>Recovery and redirection\<close>

text \<open>
  Ops are shared through pointers: a store maps them to their contents. The information holds the
  pointers of the op that it recovers from and of the op that redirects; a null pointer is \<open>None\<close>. The
  pointer to the instruction is left out.
\<close>

type_synonym op_ptr = nat

record Bp_Recovery_Info =
  bri_proc_id :: uns
  bri_recovery_cycle :: Counter
  bri_recovery_fetch_addr :: Addr
  bri_recovery_op_num :: Counter
  bri_recovery_cf_type :: Cf_Type
  bri_recovery_info :: Recovery_Info
  bri_recovery_force_offpath :: bool
  bri_redirect_cycle :: Counter
  bri_redirect_op_num :: Counter
  bri_redirect_op :: "op_ptr option"
  bri_recovery_op :: "op_ptr option"
  bri_oracle_cp_num :: cint
  bri_recovery_unique_num :: Counter
  bri_recovery_inst_uid :: uns64
  bri_wpe_flag :: bool
  bri_wpe_cycle :: Counter
  bri_late_bp_recovery :: bool
  bri_late_bp_recovery_wrong :: bool

definition zero_recovery :: Recovery_Info where
  "zero_recovery = \<lparr>ri_proc_id = 0, ri_pred_global_hist = 0, ri_conf_perceptron_global_hist = 0,
     ri_conf_perceptron_global_misp_hist = 0, ri_targ_hist = 0, ri_crs_tos = 0, ri_crs_next = 0, ri_crs_depth = 0,
     ri_op_num = 0, ri_tos_addr = 0, ri_oracle_dir = 0, ri_new_dir = 0, ri_PC = 0, ri_cf_type = NOT_CF,
     ri_branchTarget = 0, ri_branch_id = 0\<rparr>"

definition init_bp_recovery_info :: "uns8 \<Rightarrow> Bp_Recovery_Info" where
  "init_bp_recovery_info proc_id =
     \<lparr>bri_proc_id = ucast proc_id, bri_recovery_cycle = MAX_CTR, bri_recovery_fetch_addr = 0, bri_recovery_op_num = 0,
      bri_recovery_cf_type = NOT_CF, bri_recovery_info = zero_recovery, bri_recovery_force_offpath = False,
      bri_redirect_cycle = MAX_CTR, bri_redirect_op_num = 0, bri_redirect_op = None, bri_recovery_op = None,
      bri_oracle_cp_num = 0, bri_recovery_unique_num = 0, bri_recovery_inst_uid = 0, bri_wpe_flag = False,
      bri_wpe_cycle = 0, bri_late_bp_recovery = False, bri_late_bp_recovery_wrong = False\<rparr>"

definition sched_recovery_info ::
    "bp_params \<Rightarrow> op_ptr \<Rightarrow> Op \<Rightarrow> Counter \<Rightarrow> bool \<Rightarrow> bool \<Rightarrow> Bp_Recovery_Info \<Rightarrow> Bp_Recovery_Info" where
  "sched_recovery_info P p op cycle late_bp_recovery force_offpath ri =
     (let oi = op_oracle_info op;
          latency = (if late_bp_recovery then LATE_BP_LATENCY P else 1 + EXTRA_RECOVERY_CYCLES P);
          ri = ri\<lparr>bri_recovery_cycle := cycle + ucast latency, bri_recovery_fetch_addr := oi_npc oi,
                  bri_recovery_op_num := op_op_num op, bri_recovery_cf_type := op_cf_type op,
                  bri_recovery_info := (op_recovery_info op)\<lparr>ri_op_num := op_op_num op\<rparr>,
                  bri_recovery_force_offpath := op_off_path op, bri_recovery_op := Some p,
                  bri_oracle_cp_num := op_oracle_cp_num op, bri_recovery_unique_num := op_unique_num op,
                  bri_recovery_inst_uid := op_inst_uid op, bri_wpe_flag := False,
                  bri_late_bp_recovery := late_bp_recovery\<rparr>
      in if force_offpath
         then ri\<lparr>bri_recovery_fetch_addr := oi_late_pred_npc oi,
                 bri_recovery_info := (bri_recovery_info ri)\<lparr>ri_new_dir := oi_late_pred oi\<rparr>,
                 bri_recovery_force_offpath := True, bri_late_bp_recovery_wrong := True\<rparr>
         else ri\<lparr>bri_late_bp_recovery_wrong := False\<rparr>)"

definition bp_sched_recovery ::
    "bp_params \<Rightarrow> op_ptr \<Rightarrow> Counter \<Rightarrow> bool \<Rightarrow> bool \<Rightarrow> Bp_Recovery_Info \<times> (op_ptr \<Rightarrow> Op option) \<Rightarrow>
     (Bp_Recovery_Info \<times> (op_ptr \<Rightarrow> Op option)) option" where
  "bp_sched_recovery P p cycle late_bp_recovery force_offpath = (\<lambda>(ri, ops).
     (case ops p of
        None \<Rightarrow> None
      | Some op \<Rightarrow>
          if bri_proc_id ri \<noteq> op_proc_id op then None
          else if bri_recovery_cycle ri = MAX_CTR \<or> op_op_num op \<le> bri_recovery_op_num ri then
            (if oi_recovery_sch (op_oracle_info op) \<or> (op_proc_id op \<noteq> 0 \<and> oi_npc (op_oracle_info op) = 0) \<or>
                (force_offpath \<and> \<not> late_bp_recovery) then None
             else Some (sched_recovery_info P p op cycle late_bp_recovery force_offpath ri,
                        ops(p \<mapsto> upd_oracle (\<lambda>o'. o'\<lparr>oi_recovery_sch := True\<rparr>) op)))
          else Some (ri, ops)))"

text \<open>The last assertion reads the op of the earlier redirection when this one is not taken.\<close>

definition bp_sched_redirect ::
    "bp_params \<Rightarrow> op_ptr \<Rightarrow> Counter \<Rightarrow> Bp_Recovery_Info \<times> (op_ptr \<Rightarrow> Op option) \<Rightarrow>
     (Bp_Recovery_Info \<times> (op_ptr \<Rightarrow> Op option)) option" where
  "bp_sched_redirect P p cycle = (\<lambda>(ri, ops).
     (case ops p of
        None \<Rightarrow> None
      | Some op \<Rightarrow>
          let (ri, ops) =
                (if bri_redirect_cycle ri = MAX_CTR \<or> op_op_num op < bri_redirect_op_num ri
                 then (ri\<lparr>bri_redirect_cycle := cycle + 1 + ucast (EXTRA_REDIRECT_CYCLES P) +
                              ucast (if op_cf_type op = CF_SYS then EXTRA_CALLSYS_CYCLES P else 0),
                          bri_redirect_op := Some p, bri_redirect_op_num := op_op_num op\<rparr>,
                       ops(p \<mapsto> op\<lparr>op_redirect_scheduled := True\<rparr>))
                 else (ri, ops))
          in case Option.bind (bri_redirect_op ri) ops of
               None \<Rightarrow> None
             | Some rop \<Rightarrow>
                 if bri_proc_id ri = op_proc_id op \<and> proc_id_in_addr (op_proc_id op) (oi_pred_npc (op_oracle_info rop))
                 then Some (ri, ops) else None))"

section \<open>Initialisation\<close>

text \<open>
  \<open>u\<close> is the uninitialised memory of the entries of the call return stack. The loop clears the addresses
  of the first \<^verbatim>\<open>CRS_ENTRIES\<close> of the \<^verbatim>\<open>2 * CRS_ENTRIES\<close> entries. \<open>z\<close> is the zeroed \<^verbatim>\<open>Bp_Data\<close>.
\<close>

definition init_crs :: "uns \<Rightarrow> (nat \<Rightarrow> Crs_Entry) \<Rightarrow> Crs \<Rightarrow> Crs" where
  "init_crs n u c =
     c\<lparr>crs_entries := map (\<lambda>i. if i < unat n then (u i)\<lparr>cr_addr := 0\<rparr> else u i) [0..<2 * unat n],
       crs_off_path := replicate (unat n) False\<rparr>"

definition init_bp_data ::
    "bp_params \<Rightarrow> 'w bp_mechs \<Rightarrow> uns8 \<Rightarrow> (nat \<Rightarrow> Crs_Entry) \<Rightarrow> Bp_Data \<Rightarrow> Heap \<times> 'w \<Rightarrow> (Bp_Data \<times> Heap \<times> 'w) option" where
  "init_bp_data P M proc_id u z = (\<lambda>(h, w).
     do { w \<leftarrow> bp_init_func (mech_bp M) w;
          w \<leftarrow> (case mech_late_bp M of None \<Rightarrow> Some w | Some B \<Rightarrow> bp_init_func B w);
          (d, h) \<leftarrow> btb_init_func (mech_btb M) (z\<lparr>bd_proc_id := ucast proc_id\<rparr>, h);
          (d, h) \<leftarrow> ibtb_init_func (mech_ibtb M) (d\<lparr>bd_crs := init_crs (CRS_ENTRIES P) u (bd_crs d)\<rparr>, h);
          d \<leftarrow> (if TARGETS_IN_HIST P = 0 then None
               else
                 let d = d\<lparr>bd_target_bit_length := ucast (IBTB_HIST_LENGTH P div TARGETS_IN_HIST P)\<rparr>
                 in if USE_PAT_HIST P \<or> ucast (bd_target_bit_length d) * TARGETS_IN_HIST P = IBTB_HIST_LENGTH P
                    then Some d else None);
          w \<leftarrow> (if ENABLE_BP_CONF P then conf_init_func (mech_conf M) w else Some w);
          Some (d, h, w) })"

section \<open>Prediction\<close>

definition predict_init :: "uns \<Rightarrow> Addr \<Rightarrow> Bp_Data \<Rightarrow> Op \<Rightarrow> Op" where
  "predict_init br_num fetch_addr d op =
     (let oi = op_oracle_info op; c = bd_crs d
      in op\<lparr>op_oracle_info := oi\<lparr>oi_pred_addr := fetch_addr, oi_btb_miss_resolved := False\<rparr>,
            op_cf_within_fetch := br_num,
            op_recovery_info := (op_recovery_info op)\<lparr>ri_proc_id := op_proc_id op, ri_pred_global_hist := bd_global_hist d,
               ri_targ_hist := bd_targ_hist d, ri_new_dir := oi_dir oi, ri_crs_next := crs_next c, ri_crs_tos := crs_tos c,
               ri_crs_depth := crs_depth c, ri_op_num := op_op_num op, ri_PC := op_inst_addr op,
               ri_cf_type := op_cf_type op, ri_oracle_dir := oi_dir oi, ri_branchTarget := oi_target oi\<rparr>\<rparr>)"

text \<open>The address on top of the call return stack, for the predictors that hash it.\<close>

definition crs_tos_addr :: "bp_params \<Rightarrow> Crs \<Rightarrow> Addr option" where
  "crs_tos_addr P c =
     (let n = CRS_ENTRIES P; new_next = CIRC_DEC2 (crs_next c) n; new_tail = CIRC_DEC2 (crs_tail c) n;
          at = (\<lambda>i. if i < length (crs_entries c) then Some (cr_addr (crs_entries c ! i)) else None)
      in if \<not> unat new_tail < length (crs_off_path c) then None
         else if CRS_REALISTIC P = 0 then at (crs_slot new_tail (crs_off_path c ! unat new_tail))
         else if CRS_REALISTIC P = 1 then at (unat (crs_tos c))
         else if CRS_REALISTIC P = 2 then at (unat new_next)
         else Some 0)"

definition predict_tos :: "bp_params \<Rightarrow> Bp_Data \<Rightarrow> Op \<Rightarrow> Op option" where
  "predict_tos P d op =
     (if BP_HASH_TOS P \<or> IBTB_HASH_TOS P
      then map_option (\<lambda>a. upd_recovery (\<lambda>r. r\<lparr>ri_tos_addr := a\<rparr>) op) (crs_tos_addr P (bd_crs d))
      else Some op)"

definition both_taken :: "Op \<Rightarrow> Op" where
  "both_taken = upd_oracle (\<lambda>o'. o'\<lparr>oi_pred := TAKEN, oi_late_pred := TAKEN\<rparr>)"

definition crs_call :: "bp_params \<Rightarrow> Op \<Rightarrow> Bp_Data \<Rightarrow> (Op \<times> Bp_Data) option" where
  "crs_call P op d =
     (if \<not> ENABLE_CRS P then Some (op, d)
      else if CRS_REALISTIC P \<noteq> 0 then bp_crs_realistic_push P op d
      else map_option (\<lambda>d. (op, d)) (bp_crs_push P op d))"

definition crs_return :: "bp_params \<Rightarrow> Addr \<Rightarrow> Op \<Rightarrow> Bp_Data \<Rightarrow> (Addr \<times> Op \<times> Bp_Data) option" where
  "crs_return P target op d =
     (if \<not> ENABLE_CRS P then Some (target, op, d)
      else if CRS_REALISTIC P \<noteq> 0 then bp_crs_realistic_pop P op d
      else map_option (\<lambda>(a, d). (a, op, d)) (bp_crs_pop P op d))"

definition predict_indirect ::
    "bp_params \<Rightarrow> Bp_Ibtb \<Rightarrow> Addr \<Rightarrow> Op \<Rightarrow> Bp_Data \<times> Heap \<Rightarrow> (Addr \<times> Op \<times> Bp_Data \<times> Heap) option" where
  "predict_indirect P I target op s =
     (if \<not> ENABLE_IBP P then Some (target, op, s)
      else
        map_option (\<lambda>(a, op, s).
            if a \<noteq> 0 then (a, upd_oracle (\<lambda>o'. o'\<lparr>oi_no_target := False, oi_ibp_miss := False\<rparr>) op, s)
            else (target, upd_oracle (\<lambda>o'. o'\<lparr>oi_ibp_miss := True\<rparr>) op, s))
          (ibtb_pred_func I op s))"

definition shift_hist :: "uns32 \<Rightarrow> uns8 \<Rightarrow> uns32" where
  "shift_hist hist dir = drop_bit 1 hist OR push_bit 31 (ucast dir)"

definition predict_direction ::
    "bp_params \<Rightarrow> 'w bp_mechs \<Rightarrow> Op \<Rightarrow> 'w \<Rightarrow> (Op \<times> 'w) option" where
  "predict_direction P M op w =
     (if PERFECT_BP P
      then Some (upd_oracle (\<lambda>o'. o'\<lparr>oi_pred := oi_dir o', oi_no_target := False\<rparr>) op, w)
      else
        do { (pred, op, w) \<leftarrow> bp_pred_func (mech_bp M) op w;
             let op = upd_oracle (\<lambda>o'. o'\<lparr>oi_pred := pred\<rparr>) op;
             case mech_late_bp M of
               None \<Rightarrow> Some (op, w)
             | Some B \<Rightarrow>
                 map_option (\<lambda>(late, op, w). (upd_oracle (\<lambda>o'. o'\<lparr>oi_late_pred := late\<rparr>) op, w)) (bp_pred_func B op w) })"

definition predict_cbr ::
    "bp_params \<Rightarrow> 'w bp_mechs \<Rightarrow> Addr \<Rightarrow> Op \<Rightarrow> Bp_Data \<Rightarrow> 'w \<Rightarrow> (Addr \<times> Op \<times> Bp_Data \<times> 'w) option" where
  "predict_cbr P M target op d w =
     do { (op, w) \<leftarrow> predict_direction P M (upd_oracle (\<lambda>o'. o'\<lparr>oi_pred_global_hist := bd_global_hist d\<rparr>) op) w;
          let pred = oi_pred (op_oracle_info op);
          let d = d\<lparr>bd_global_hist := shift_hist (bd_global_hist d) pred\<rparr>;
          Some (if PERFECT_CBR_BTB P \<or> (PERFECT_NT_BTB P \<and> pred = NOT_TAKEN)
                then (oi_target (op_oracle_info op),
                      upd_oracle (\<lambda>o'. o'\<lparr>oi_btb_miss := False, oi_no_target := False\<rparr>) op, d, w)
                else (target, op, d, w)) }"

text \<open>The direction, and the target if the branch is taken, by the type of the op.\<close>

definition predict_type ::
    "bp_params \<Rightarrow> 'w bp_mechs \<Rightarrow> Addr \<Rightarrow> Op \<Rightarrow> Bp_Data \<times> Heap \<times> 'w \<Rightarrow> (Addr \<times> Op \<times> Bp_Data \<times> Heap \<times> 'w) option" where
  "predict_type P M target op = (\<lambda>(d, h, w).
     (case op_cf_type op of
        CF_CBR \<Rightarrow> map_option (\<lambda>(t, op, d, w). (t, op, d, h, w)) (predict_cbr P M target op d w)
      | CF_CALL \<Rightarrow> map_option (\<lambda>(op, d). (target, op, d, h, w)) (crs_call P (both_taken op) d)
      | CF_IBR \<Rightarrow> map_option (\<lambda>(t, op, d, h). (t, op, d, h, w)) (predict_indirect P (mech_ibtb M) target (both_taken op) (d, h))
      | CF_ICALL \<Rightarrow>
          do { (t, op, d, h) \<leftarrow> predict_indirect P (mech_ibtb M) target (both_taken op) (d, h);
               (op, d) \<leftarrow> crs_call P op d;
               Some (t, op, d, h, w) }
      | CF_ICO \<Rightarrow>
          do { (t, op, d) \<leftarrow> crs_return P target (both_taken op) d;
               (op, d) \<leftarrow> crs_call P op d;
               Some (t, op, d, h, w) }
      | CF_RET \<Rightarrow> map_option (\<lambda>(t, op, d). (t, op, d, h, w)) (crs_return P target (both_taken op) d)
      | _ \<Rightarrow> Some (target, both_taken op, d, h, w)))"

text \<open>The flags that compare a prediction with what the op does.\<close>

definition predict_flags :: "bool \<Rightarrow> Addr \<Rightarrow> Op \<Rightarrow> Op" where
  "predict_flags late pred_target op =
     (let oi = op_oracle_info op; pc_plus_offset = return_addr op;
          prediction = (if oi_pred oi \<noteq> 0 then pred_target else pc_plus_offset);
          mispred = (oi_pred oi \<noteq> oi_dir oi \<and> prediction \<noteq> oi_npc oi);
          oi = oi\<lparr>oi_pred_npc := prediction, oi_mispred := mispred, oi_misfetch := \<not> mispred \<and> prediction \<noteq> oi_npc oi\<rparr>;
          late_prediction = (if oi_late_pred oi \<noteq> 0 then pred_target else pc_plus_offset);
          late_mispred = (oi_late_pred oi \<noteq> oi_dir oi \<and> late_prediction \<noteq> oi_npc oi)
      in op\<lparr>op_oracle_info :=
            (if late
             then oi\<lparr>oi_late_pred_npc := late_prediction, oi_late_mispred := late_mispred,
                     oi_late_misfetch := \<not> late_mispred \<and> late_prediction \<noteq> oi_npc oi\<rparr>
             else oi)\<rparr>)"

definition predict_count :: "Op \<Rightarrow> 'w Bp_State \<Rightarrow> 'w Bp_State" where
  "predict_count op s =
     (if op_off_path op then s
      else if oi_mispred (op_oracle_info op) then s\<lparr>bs_mispred_counter := bs_mispred_counter s + 1\<rparr>
      else s\<lparr>bs_corrpred_counter := bs_corrpred_counter s + 1\<rparr>)"

definition predict_conf :: "bp_params \<Rightarrow> 'w bp_mechs \<Rightarrow> Op \<Rightarrow> 'w Bp_State \<Rightarrow> (Op \<times> 'w Bp_State) option" where
  "predict_conf P M op s =
     (if ENABLE_BP_CONF P \<and> IS_CONF_CF op then
        do { (op, d, w) \<leftarrow> conf_pred_func (mech_conf M) op (bs_data s, bs_world s);
             let s = s\<lparr>bs_data := d, bs_world := w\<rparr>;
             Some (op, if oi_pred_conf (op_oracle_info op) then s
                       else s\<lparr>bs_low_conf_count := bs_low_conf_count s + 1\<rparr>) }
      else Some (op, s))"

definition predict_sys :: "'w bp_mechs \<Rightarrow> Op \<Rightarrow> 'w Bp_State \<Rightarrow> (Addr \<times> Op \<times> 'w Bp_State) option" where
  "predict_sys M op s =
     (let npc = oi_npc (op_oracle_info op);
          op = upd_oracle (\<lambda>o'. o'\<lparr>oi_pred := TAKEN, oi_misfetch := False, oi_mispred := False, oi_late_misfetch := False,
                 oi_late_mispred := False, oi_btb_miss := False, oi_no_target := False, oi_pred_npc := npc,
                 oi_late_pred_npc := npc\<rparr>) op
      in if \<not> proc_id_in_addr (op_proc_id op) npc then None
         else map_option (\<lambda>(op, w). (oi_npc (op_oracle_info op), op, s\<lparr>bs_world := w\<rparr>))
                (both_bp bp_spec_update_func M op (bs_world s)))"

definition predict_btb :: "Bp_Btb \<Rightarrow> Op \<Rightarrow> Bp_Data \<times> Heap \<Rightarrow> (Addr \<times> Op \<times> Bp_Data \<times> Heap) option" where
  "predict_btb B op s =
     map_option (\<lambda>(t, s).
         (case t of
            Some a \<Rightarrow> (a, upd_oracle (\<lambda>o'. o'\<lparr>oi_btb_miss := False, oi_no_target := False\<rparr>) op, s)
          | None \<Rightarrow> (oi_target (op_oracle_info op),
                     upd_oracle (\<lambda>o'. o'\<lparr>oi_btb_miss := True, oi_no_target := True\<rparr>) op, s)))
       (btb_pred_func B op s)"

definition bp_predict_op ::
    "bp_params \<Rightarrow> 'w bp_mechs \<Rightarrow> Counter \<Rightarrow> uns \<Rightarrow> Addr \<Rightarrow> Op \<Rightarrow> 'w Bp_State \<Rightarrow> (Addr \<times> Op \<times> 'w Bp_State) option" where
  "bp_predict_op P M cycle_count br_num fetch_addr op s =
     (if bd_proc_id (bs_data s) \<noteq> op_proc_id op \<or> op_cf_type op = NOT_CF then None
      else
        do { (op, w) \<leftarrow> both_bp bp_timestamp_func M (predict_init br_num fetch_addr (bs_data s) op) (bs_world s);
             op \<leftarrow> predict_tos P (bs_data s) op;
             let s = s\<lparr>bs_world := w\<rparr>;
             if op_cf_type op = CF_SYS then predict_sys M op s
             else
               do { (t, op, d, h) \<leftarrow> predict_btb (mech_btb M) op (bs_data s, bs_heap s);
                    (t, op, d, h, w) \<leftarrow> predict_type P M t op (d, h, w);
                    (op, w) \<leftarrow> both_bp bp_spec_update_func M op w;
                    let op = predict_flags (mech_late_bp M \<noteq> None) t op;
                    let prediction = oi_pred_npc (op_oracle_info op);
                    if \<not> proc_id_in_addr (op_proc_id op) prediction then None
                    else
                      do { let op = op\<lparr>op_bp_cycle := cycle_count\<rparr>;
                           (op, s) \<leftarrow> predict_conf P M op
                             (predict_count op (s\<lparr>bs_data := d, bs_heap := h, bs_world := w\<rparr>));
                           Some (prediction, op, s) } } })"

section \<open>After the prediction\<close>

definition bp_target_known_op :: "bp_params \<Rightarrow> 'w bp_mechs \<Rightarrow> Op \<Rightarrow> Bp_Data \<times> Heap \<Rightarrow> (Bp_Data \<times> Heap) option" where
  "bp_target_known_op P M op = (\<lambda>(d, h).
     (if bd_proc_id d \<noteq> op_proc_id op \<or> op_cf_type op = NOT_CF then None
      else
        do { s \<leftarrow> (if oi_btb_miss (op_oracle_info op) then btb_update_func (mech_btb M) op (d, h) else Some (d, h));
             if (op_cf_type op = CF_ICALL \<or> op_cf_type op = CF_IBR) \<and> ENABLE_IBP P \<and>
                (IBTB_OFF_PATH_WRITES P \<or> \<not> op_off_path op)
             then ibtb_update_func (mech_ibtb M) op s else Some s }))"

definition bp_resolve_op :: "bp_params \<Rightarrow> 'w bp_mechs \<Rightarrow> Op \<Rightarrow> Bp_Data \<times> 'w \<Rightarrow> (Op \<times> Bp_Data \<times> 'w) option" where
  "bp_resolve_op P M op = (\<lambda>(d, w).
     (if \<not> UPDATE_BP_OFF_PATH P \<and> op_off_path op then Some (op, d, w)
      else
        do { (op, w) \<leftarrow> both_bp bp_update_func M op w;
             if ENABLE_BP_CONF P \<and> IS_CONF_CF op
             then map_option (\<lambda>(d, w). (op, d, w)) (conf_update_func (mech_conf M) op (d, w))
             else Some (op, d, w) }))"

definition bp_retire_op :: "'w bp_mechs \<Rightarrow> Op \<Rightarrow> 'w \<Rightarrow> (Op \<times> 'w) option" where
  "bp_retire_op M op w = both_bp bp_retire_func M op w"

definition recover_both :: "'w bp_mechs \<Rightarrow> Recovery_Info \<Rightarrow> 'w \<Rightarrow> 'w option" where
  "recover_both M info w =
     do { w \<leftarrow> bp_recover_func (mech_bp M) info w;
          case mech_late_bp M of None \<Rightarrow> Some w | Some B \<Rightarrow> bp_recover_func B info w }"

definition bp_recover_op ::
    "bp_params \<Rightarrow> 'w bp_mechs \<Rightarrow> Cf_Type \<Rightarrow> Recovery_Info \<Rightarrow> Bp_Data \<times> 'w \<Rightarrow> (Bp_Data \<times> 'w) option" where
  "bp_recover_op P M cf_type info = (\<lambda>(d, w).
     (let d = d\<lparr>bd_global_hist := (if cf_type = CF_CBR then shift_hist (ri_pred_global_hist info) (ri_new_dir info)
                                 else ri_pred_global_hist info),
                bd_targ_hist := ri_targ_hist info\<rparr>;
          d = (if cf_type = CF_ICALL \<or> cf_type = CF_IBR then ibtb_recover_func (mech_ibtb M) info d else d)
      in do { w \<leftarrow> recover_both M info w;
              d \<leftarrow> (if CRS_REALISTIC P \<noteq> 0 then Some (bp_crs_realistic_recover info d) else bp_crs_recover P d);
              Some (case (ENABLE_BP_CONF P, conf_recover_func (mech_conf M)) of
                      (True, Some f) \<Rightarrow> f (d, w)
                    | _ \<Rightarrow> (d, w)) }))"

end
