(* ===== verification/Bp_Dir.thy ===== *)
theory Bp_Dir
  imports Bp_Main
begin

text \<open>
  Two direction predictors, \<^verbatim>\<open>bp/gshare.cc\<close> and \<^verbatim>\<open>bp/hybridgp.cc\<close>, with the ring of branches in flight
  of \<^verbatim>\<open>bp/template_lib/utils.h\<close>, and the rows of \<^verbatim>\<open>bp/bp_table.def\<close>.

  The world of the mechanisms is the static data of \<^verbatim>\<open>bp/\<close>. The cache of local histories has a heap of
  its own for its buffers. \<^verbatim>\<open>INF_HYBRIDGP\<close> and \<^verbatim>\<open>KNOB_PRINT_BRINFO\<close> are off. \<open>None\<close> is a failed assertion,
  an index out of range or a shift by the width or more.
\<close>

section \<open>The ring of branches in flight\<close>

record 'a Circular_Buffer =
  cb_buffer :: "'a list"
  cb_buffer_size :: "64 word"
  cb_buffer_access_mask :: "64 word"
  cb_back :: "64 word"
  cb_front :: "64 word"
  cb_size :: "64 word"

text \<open>The first of \<open>n\<close>, \<open>n + 1\<close>, ... bits that is enough for \<open>x\<close> values.\<close>

function bits_from :: "nat \<Rightarrow> nat \<Rightarrow> nat" where
  "bits_from x n = (if x \<le> 2 ^ n then n else bits_from x (Suc n))"
  by auto
termination
proof (relation "measure (\<lambda>(x, n). x - n)")
  fix x n :: nat assume "\<not> x \<le> 2 ^ n"
  then have "n < x" using less_exp [of n] by linarith
  then show "((x, Suc n), x, n) \<in> measure (\<lambda>(x, n). x - n)" by simp
qed simp

declare bits_from.simps [simp del]

definition get_min_num_bits_to_represent :: "nat \<Rightarrow> nat" where
  "get_min_num_bits_to_represent x = bits_from x 1"

text \<open>The sizes are computed with \<^verbatim>\<open>int\<close>: from 31 bits on the shift is undefined.\<close>

definition cb_new :: "'a \<Rightarrow> nat \<Rightarrow> 'a Circular_Buffer option" where
  "cb_new z max_size =
     (let n = get_min_num_bits_to_represent max_size
      in if max_size = 0 \<or> 31 \<le> n then None
         else Some \<lparr>cb_buffer = replicate (2 ^ n) z, cb_buffer_size = 2 ^ n, cb_buffer_access_mask = 2 ^ n - 1,
                    cb_back = - 1, cb_front = 0, cb_size = 0\<rparr>)"

text \<open>Where the element with an identifier is.\<close>

definition cb_slot :: "'a Circular_Buffer \<Rightarrow> 64 word \<Rightarrow> nat option" where
  "cb_slot b i =
     (let k = unat (i AND cb_buffer_access_mask b)
      in if sint (cb_front b) \<le> sint i \<and> sint i \<le> sint (cb_back b) \<and> k < length (cb_buffer b) then Some k else None)"

definition cb_get :: "'a Circular_Buffer \<Rightarrow> 64 word \<Rightarrow> 'a option" where
  "cb_get b i = map_option (\<lambda>k. cb_buffer b ! k) (cb_slot b i)"

definition cb_put :: "64 word \<Rightarrow> ('a \<Rightarrow> 'a) \<Rightarrow> 'a Circular_Buffer \<Rightarrow> 'a Circular_Buffer option" where
  "cb_put i f b = map_option (\<lambda>k. b\<lparr>cb_buffer := (cb_buffer b)[k := f (cb_buffer b ! k)]\<rparr>) (cb_slot b i)"

definition cb_deallocate_after :: "64 word \<Rightarrow> 'a Circular_Buffer \<Rightarrow> 'a Circular_Buffer option" where
  "cb_deallocate_after i b =
     (if sint (cb_front b) \<le> sint i \<and> sint i \<le> sint (cb_back b)
      then Some (b\<lparr>cb_size := cb_size b - (cb_back b - i), cb_back := i\<rparr>) else None)"

definition cb_allocate_back :: "'a Circular_Buffer \<Rightarrow> (64 word \<times> 'a Circular_Buffer) option" where
  "cb_allocate_back b =
     (if sint (cb_size b) < sint (cb_buffer_size b)
      then Some (cb_back b + 1, b\<lparr>cb_back := cb_back b + 1, cb_size := cb_size b + 1\<rparr>) else None)"

definition cb_deallocate_front :: "64 word \<Rightarrow> 'a Circular_Buffer \<Rightarrow> 'a Circular_Buffer option" where
  "cb_deallocate_front i b =
     (if i = cb_front b \<and> 0 < sint (cb_size b)
      then Some (b\<lparr>cb_front := cb_front b + 1, cb_size := cb_size b - 1\<rparr>) else None)"

section \<open>The world\<close>

record Hybridgp_In_Flight_State =
  if_updated_local_history :: bool
  if_pred_phist :: uns32
  if_bht_addr :: Addr

record Hybridgp_State =
  hy_bht :: Cache
  hy_spht :: "uns8 list"
  hy_gpht :: "uns8 list"
  hy_ppht :: "uns8 list"
  hy_filter :: "uns32 list"
  hy_in_flight :: "Hybridgp_In_Flight_State Circular_Buffer"

record Bp_World =
  bw_gshare :: "uns8 list list"
  bw_hybridgp :: "Hybridgp_State list"
  bw_heap :: Heap
  bw_bpc :: Bpc_Data
  bw_perceptron :: Perceptron_Data

record hyb_params =
  BHT_ENTRIES :: uns
  BHT_ASSOC :: uns
  HYBRIDS_INDEX_LENGTH :: uns
  HYBRIDG_HIST_LENGTH :: uns
  HYBRIDP_HIST_LENGTH :: uns
  FILTER_INDEX_LENGTH :: uns
  USE_FILTER :: bool
  NODE_TABLE_SIZE :: uns
  DECODE_CYCLES :: uns

section \<open>Counters of a pattern history table\<close>

definition PHT_INIT_VALUE :: "bp_params \<Rightarrow> uns8" where
  "PHT_INIT_VALUE P = 2 ^ (unat (PHT_CTR_BITS P) - 1)"

text \<open>\<^verbatim>\<open>SAT_INC(entry, N_BIT_MASK(PHT_CTR_BITS))\<close> compares in 64 bits.\<close>

definition pht_next :: "bp_params \<Rightarrow> uns8 \<Rightarrow> uns8 \<Rightarrow> uns8" where
  "pht_next P dir e =
     (if dir \<noteq> 0 then ucast (SAT_INC (ucast e :: uns64) (N_BIT_MASK (unat (PHT_CTR_BITS P)))) else SAT_DEC e 0)"

definition pht_high :: "bp_params \<Rightarrow> uns8 \<Rightarrow> uns8" where
  "pht_high P e = drop_bit (unat (PHT_CTR_BITS P) - 1) e"

text \<open>Lengths of histories and indices with which the shifts of the code are defined.\<close>

definition len_ok :: "uns \<Rightarrow> bool" where
  "len_ok n \<longleftrightarrow> 0 < n \<and> n < 31"

definition ctr_bits_ok :: "bp_params \<Rightarrow> bool" where
  "ctr_bits_ok P \<longleftrightarrow> 0 < PHT_CTR_BITS P \<and> PHT_CTR_BITS P \<le> 8"

section \<open>Gshare\<close>

definition get_pht_index :: "bp_params \<Rightarrow> Addr \<Rightarrow> uns32 \<Rightarrow> uns32" where
  "get_pht_index P a hist =
     (let cooked_hist = drop_bit (32 - unat (HIST_LENGTH P)) hist;
          cooked_addr = ucast (drop_bit 2 a AND N_BIT_MASK (unat (HIST_LENGTH P)))
      in cooked_hist XOR cooked_addr)"

definition bp_gshare_init :: "bp_params \<Rightarrow> uns \<Rightarrow> Bp_World \<Rightarrow> Bp_World option" where
  "bp_gshare_init P n_cores w =
     (if len_ok (HIST_LENGTH P)
      then Some (w\<lparr>bw_gshare := replicate (unat n_cores) (replicate (2 ^ unat (HIST_LENGTH P)) (PHT_INIT_VALUE P))\<rparr>)
      else None)"

text \<open>The entry of an op: the index of its core and of its counter.\<close>

definition gshare_slot :: "bp_params \<Rightarrow> Op \<Rightarrow> Bp_World \<Rightarrow> (nat \<times> nat) option" where
  "gshare_slot P op w =
     (let k = unat (op_proc_id op);
          ix = unat (get_pht_index P (oi_pred_addr (op_oracle_info op)) (oi_pred_global_hist (op_oracle_info op)))
      in if len_ok (HIST_LENGTH P) \<and> k < length (bw_gshare w) \<and> ix < length (bw_gshare w ! k) then Some (k, ix) else None)"

definition bp_gshare_pred :: "bp_params \<Rightarrow> Op \<Rightarrow> Bp_World \<Rightarrow> (uns8 \<times> Op \<times> Bp_World) option" where
  "bp_gshare_pred P op w =
     map_option (\<lambda>(k, ix). (pht_high P (bw_gshare w ! k ! ix) AND 1, op, w)) (gshare_slot P op w)"

definition bp_gshare_update :: "bp_params \<Rightarrow> Op \<Rightarrow> Bp_World \<Rightarrow> (Op \<times> Bp_World) option" where
  "bp_gshare_update P op w =
     (if op_cf_type op \<noteq> CF_CBR then Some (op, w)
      else
        map_option (\<lambda>(k, ix).
            (op, w\<lparr>bw_gshare := (bw_gshare w)[k := (bw_gshare w ! k)[ix :=
                     pht_next P (oi_dir (op_oracle_info op)) (bw_gshare w ! k ! ix)]]\<rparr>))
          (gshare_slot P op w))"

section \<open>Hybridgp\<close>

definition load_uns32 :: "ptr \<Rightarrow> Heap \<Rightarrow> uns32 option" where
  "load_uns32 p h =
     (case bufs h p of
        Some d \<Rightarrow> if 4 \<le> length d then Some (ucast (of_bytes (take 4 d))) else None
      | None \<Rightarrow> None)"

definition store_uns32 :: "ptr \<Rightarrow> uns32 \<Rightarrow> Heap \<Rightarrow> Heap option" where
  "store_uns32 p x h =
     (case bufs h p of
        Some d \<Rightarrow> if 4 \<le> length d then Some (h\<lparr>bufs := (bufs h)(p := Some (bytes_of 4 (ucast x) @ drop 4 d))\<rparr>) else None
      | None \<Rightarrow> None)"

text \<open>\<^verbatim>\<open>get_local_history_entry\<close>: 0 is a null pointer.\<close>

definition get_local_history_entry :: "Cache_Env \<Rightarrow> Addr \<Rightarrow> Cache \<times> Heap \<Rightarrow> (ptr \<times> Cache \<times> Heap) option" where
  "get_local_history_entry E a s = map_option (\<lambda>(p, _, s). (p, s)) (cache_access E a True s)"

definition get_local_history :: "Cache_Env \<Rightarrow> Addr \<Rightarrow> Cache \<times> Heap \<Rightarrow> (uns32 \<times> Cache \<times> Heap) option" where
  "get_local_history E a s =
     do { (p, c, h) \<leftarrow> get_local_history_entry E a s;
          if p \<noteq> 0 then map_option (\<lambda>x. (x, c, h)) (load_uns32 p h) else Some (0, c, h) }"

definition update_local_history :: "Cache_Env \<Rightarrow> uns \<Rightarrow> Addr \<Rightarrow> uns8 \<Rightarrow> Cache \<times> Heap \<Rightarrow> (Cache \<times> Heap) option" where
  "update_local_history E proc_id a new_dir s =
     do { (p, c, h) \<leftarrow> get_local_history_entry E a s;
          if p \<noteq> 0 then
            do { x \<leftarrow> load_uns32 p h;
                 h \<leftarrow> store_uns32 p (shift_hist x new_dir) h;
                 Some (c, h) }
          else
            do { (p, _, _, c, h) \<leftarrow> cache_insert E (ucast proc_id) a (c, h);
                 h \<leftarrow> store_uns32 p (push_bit 31 (ucast new_dir)) h;
                 Some (c, h) } }"

record Hybridgp_Indices =
  ix_spht :: uns32
  ix_gpht :: uns32
  ix_ppht :: uns32
  ix_filter :: uns32

definition cook_history :: "uns32 \<Rightarrow> nat \<Rightarrow> nat \<Rightarrow> uns32" where
  "cook_history hist len shift_factor = drop_bit (32 - (len - len div shift_factor)) hist"

definition cook_addr :: "Addr \<Rightarrow> nat \<Rightarrow> uns32" where
  "cook_addr a width = ucast (drop_bit 2 a AND N_BIT_MASK width)"

definition cook_gindex :: "uns32 \<Rightarrow> uns32 \<Rightarrow> nat \<Rightarrow> nat \<Rightarrow> uns32" where
  "cook_gindex hist a len shift_factor =
     ucast (ucast (push_bit (len div shift_factor) (hist XOR a)) AND N_BIT_MASK len) OR
     ucast (ucast a AND N_BIT_MASK (len div shift_factor))"

definition cook_pindex :: "uns32 \<Rightarrow> uns32 \<Rightarrow> nat \<Rightarrow> nat \<Rightarrow> uns32" where
  "cook_pindex hist a len shift_factor =
     (let k = len div shift_factor;
          component1 = ucast (ucast hist AND N_BIT_MASK k); component2 = ucast (ucast a AND N_BIT_MASK k);
          component3 = ucast (ucast a AND push_bit k (N_BIT_MASK k))
      in (component1 XOR component2) OR component3)"

definition cook_indices :: "hyb_params \<Rightarrow> Addr \<Rightarrow> uns32 \<Rightarrow> uns32 \<Rightarrow> Hybridgp_Indices" where
  "cook_indices H a ghist phist =
     (let s = unat (HYBRIDS_INDEX_LENGTH H); g = unat (HYBRIDG_HIST_LENGTH H); p = unat (HYBRIDP_HIST_LENGTH H);
          cooked_ghist = cook_history ghist g 5; cooked_phist = cook_history phist p 2
      in \<lparr>ix_spht = cook_gindex cooked_ghist (cook_addr a s) s 5, ix_gpht = cook_gindex cooked_ghist (cook_addr a g) g 5,
          ix_ppht = cook_pindex cooked_phist (cook_addr a p) p 2, ix_filter = cook_addr a (unat (FILTER_INDEX_LENGTH H))\<rparr>)"

subsection \<open>The loop filter\<close>

record Loop_Filter_Features =
  lf_packed_entry :: uns32
  lf_dir :: bool
  lf_is_counter_max :: bool
  lf_use_counter :: bool
  lf_end_loop :: bool
  lf_repeated_loop :: bool
  lf_long_loop :: bool

definition lf_counter :: "uns32 \<Rightarrow> uns32" where
  "lf_counter packed = packed AND 0x7f"

definition lf_repeat :: "uns32 \<Rightarrow> uns32" where
  "lf_repeat packed = drop_bit 16 (packed AND 0xf0000)"

definition get_loop_filter_features :: "uns32 \<Rightarrow> Loop_Filter_Features" where
  "get_loop_filter_features packed =
     (let counter = lf_counter packed; last_max = drop_bit 8 (packed AND 0x7f00); repeat_counter = lf_repeat packed
      in \<lparr>lf_packed_entry = packed, lf_dir = (drop_bit 7 (packed AND 0x80) \<noteq> 0), lf_is_counter_max = (126 \<le> counter),
          lf_use_counter = (31 \<le> counter), lf_end_loop = (counter = last_max), lf_repeated_loop = (7 \<le> repeat_counter),
          lf_long_loop = (2 \<le> repeat_counter \<and> 7 \<le> last_max)\<rparr>)"

definition is_loop_filter_prediction_valid :: "Loop_Filter_Features \<Rightarrow> bool" where
  "is_loop_filter_prediction_valid f \<longleftrightarrow>
     lf_is_counter_max f \<or> (lf_use_counter f \<and> \<not> lf_end_loop f) \<or> lf_long_loop f \<or> lf_repeated_loop f"

definition get_loop_filter_prediction :: "Loop_Filter_Features \<Rightarrow> bool" where
  "get_loop_filter_prediction f \<longleftrightarrow> (lf_end_loop f \<and> \<not> lf_is_counter_max f) \<noteq> lf_dir f"

definition update_counter :: "uns32 \<Rightarrow> uns32 \<Rightarrow> bool \<Rightarrow> uns32" where
  "update_counter old_counter maximum is_correct =
     (if is_correct then if old_counter = maximum then maximum else old_counter + 1 else 0)"

definition loop_filter_next :: "uns8 \<Rightarrow> Loop_Filter_Features \<Rightarrow> uns32" where
  "loop_filter_next dir f =
     (let packed = lf_packed_entry f; counter = lf_counter packed
      in if (if lf_dir f then 1 else 0) = dir
         then 0xFFF00000 OR (packed AND 0xFFFFFF80) OR update_counter counter 126 True
         else
           let new_repeat_counter = update_counter (lf_repeat packed) 7 (lf_end_loop f);
               new_counter = (if counter \<noteq> 0 then 0 else 1);
               new_dir = (if counter \<noteq> 0 then lf_dir f else \<not> lf_dir f)
           in 0xFFF00000 OR push_bit 16 new_repeat_counter OR push_bit 8 counter OR
              push_bit 7 (if new_dir then 1 else 0) OR new_counter)"

subsection \<open>The functions of the table\<close>

text \<open>\<open>z\<close> is the zeroed state of a branch in flight, and \<open>c\<close> the zeroed cache.\<close>

definition hybridgp_state_init ::
    "bp_params \<Rightarrow> hyb_params \<Rightarrow> Cache_Env \<Rightarrow> (nat \<Rightarrow> nat \<Rightarrow> Cache_Entry) \<Rightarrow> (nat \<Rightarrow> nat \<Rightarrow> Cache_Entry) \<Rightarrow> (nat \<Rightarrow> uns) \<Rightarrow>
     Cache \<Rightarrow> Hybridgp_In_Flight_State \<Rightarrow> Heap \<Rightarrow> (Hybridgp_State \<times> Heap) option" where
  "hybridgp_state_init P H E u us up c z h =
     (if \<not> (len_ok (HYBRIDS_INDEX_LENGTH H) \<and> len_ok (HYBRIDG_HIST_LENGTH H) \<and> len_ok (HYBRIDP_HIST_LENGTH H) \<and>
            FILTER_INDEX_LENGTH H < 31) then None
      else
        do { b \<leftarrow> cb_new z (unat (NODE_TABLE_SIZE H));
             (c, h) \<leftarrow> init_cache E u us up c ''BHT'' (BHT_ENTRIES H) (BHT_ASSOC H) 1 8 REPL_TRUE_LRU h;
             Some (\<lparr>hy_bht = c, hy_spht = replicate (2 ^ unat (HYBRIDS_INDEX_LENGTH H)) (PHT_INIT_VALUE P),
                    hy_gpht = replicate (2 ^ unat (HYBRIDG_HIST_LENGTH H)) (PHT_INIT_VALUE P),
                    hy_ppht = replicate (2 ^ unat (HYBRIDP_HIST_LENGTH H)) (PHT_INIT_VALUE P),
                    hy_filter = replicate (2 ^ unat (FILTER_INDEX_LENGTH H)) 0, hy_in_flight = b\<rparr>, h) })"

fun hybridgp_states_init :: "(Heap \<Rightarrow> (Hybridgp_State \<times> Heap) option) \<Rightarrow> nat \<Rightarrow> Heap \<Rightarrow> (Hybridgp_State list \<times> Heap) option" where
  "hybridgp_states_init f 0 h = Some ([], h)"
| "hybridgp_states_init f (Suc n) h =
     do { (y, h) \<leftarrow> f h; (ys, h) \<leftarrow> hybridgp_states_init f n h; Some (y # ys, h) }"

text \<open>The indices of an op in the tables of a core, when all are inside.\<close>

definition hyb_slots :: "hyb_params \<Rightarrow> Op \<Rightarrow> uns32 \<Rightarrow> Hybridgp_State \<Rightarrow> Hybridgp_Indices option" where
  "hyb_slots H op phist y =
     (let ix = cook_indices H (oi_pred_addr (op_oracle_info op)) (oi_pred_global_hist (op_oracle_info op)) phist
      in if unat (ix_spht ix) < length (hy_spht y) \<and> unat (ix_gpht ix) < length (hy_gpht y) \<and>
            unat (ix_ppht ix) < length (hy_ppht y) \<and> (USE_FILTER H \<longrightarrow> unat (ix_filter ix) < length (hy_filter y))
         then Some ix else None)"

definition bp_hybridgp_timestamp :: "Op \<Rightarrow> Bp_World \<Rightarrow> (Op \<times> Bp_World) option" where
  "bp_hybridgp_timestamp op w =
     (let k = unat (op_proc_id op); y = bw_hybridgp w ! k
      in if \<not> k < length (bw_hybridgp w) then None
         else
           do { (i, b) \<leftarrow> cb_allocate_back (hy_in_flight y);
                b \<leftarrow> cb_put i (\<lambda>e. e\<lparr>if_updated_local_history := False\<rparr>) b;
                Some (upd_recovery (\<lambda>r. r\<lparr>ri_branch_id := i\<rparr>) op,
                      w\<lparr>bw_hybridgp := (bw_hybridgp w)[k := y\<lparr>hy_in_flight := b\<rparr>]\<rparr>) })"

text \<open>The direction from the three tables and the loop filter, with the two component predictions.\<close>

definition hyb_predict :: "bp_params \<Rightarrow> hyb_params \<Rightarrow> Hybridgp_Indices \<Rightarrow> Hybridgp_State \<Rightarrow> bool \<times> bool \<times> bool" where
  "hyb_predict P H ix y =
     (let spred = pht_high P (hy_spht y ! unat (ix_spht ix)) \<noteq> 0;
          gpred = pht_high P (hy_gpht y ! unat (ix_gpht ix)) \<noteq> 0;
          ppred = pht_high P (hy_ppht y ! unat (ix_ppht ix)) \<noteq> 0;
          f = get_loop_filter_features (hy_filter y ! unat (ix_filter ix));
          pred = (if spred then gpred else ppred)
      in (if USE_FILTER H \<and> is_loop_filter_prediction_valid f then get_loop_filter_prediction f else pred, gpred, ppred))"

definition flag_of :: "bool \<Rightarrow> uns8" where
  "flag_of b = (if b then 1 else 0)"

definition bp_hybridgp_pred ::
    "bp_params \<Rightarrow> hyb_params \<Rightarrow> Cache_Env \<Rightarrow> Counter \<Rightarrow> Op \<Rightarrow> Bp_World \<Rightarrow> (uns8 \<times> Op \<times> Bp_World) option" where
  "bp_hybridgp_pred P H E cycle_count op w =
     (let k = unat (op_proc_id op); y = bw_hybridgp w ! k; a = oi_pred_addr (op_oracle_info op)
      in if \<not> k < length (bw_hybridgp w) then None
         else
           do { (phist, c, h) \<leftarrow> get_local_history E a (hy_bht y, bw_heap w);
                ix \<leftarrow> hyb_slots H op phist y;
                let (taken, gpred, ppred) = hyb_predict P H ix y;
                let pred = flag_of taken;
                let op = upd_oracle (\<lambda>o'. o'\<lparr>oi_hybridgp_gpred := flag_of gpred, oi_hybridgp_ppred := flag_of ppred,
                           oi_pred_local_hist := phist\<rparr>) (op\<lparr>op_pred_cycle := cycle_count\<rparr>);
                b \<leftarrow> cb_put (ri_branch_id (op_recovery_info op))
                      (\<lambda>e. \<lparr>if_updated_local_history = True, if_pred_phist = phist, if_bht_addr = a\<rparr>) (hy_in_flight y);
                (c, h) \<leftarrow> (if op_off_path op then Some (c, h) else update_local_history E (op_proc_id op) a pred (c, h));
                Some (pred, op, w\<lparr>bw_hybridgp := (bw_hybridgp w)[k := y\<lparr>hy_bht := c, hy_in_flight := b\<rparr>], bw_heap := h\<rparr>) })"

definition update_all_phts :: "bp_params \<Rightarrow> hyb_params \<Rightarrow> Op \<Rightarrow> Hybridgp_Indices \<Rightarrow> Hybridgp_State \<Rightarrow> Hybridgp_State" where
  "update_all_phts P H op ix y =
     (let s = unat (ix_spht ix); g = unat (ix_gpht ix); p = unat (ix_ppht ix); dir = oi_dir (op_oracle_info op);
          gpred = (if USE_FILTER H then pht_high P (hy_gpht y ! g) else oi_hybridgp_gpred (op_oracle_info op));
          ppred = pht_high P (hy_ppht y ! p);
          spht_entry = hy_spht y ! s
      in y\<lparr>hy_gpht := (hy_gpht y)[g := pht_next P dir (hy_gpht y ! g)],
           hy_ppht := (hy_ppht y)[p := pht_next P dir (hy_ppht y ! p)],
           hy_spht := (hy_spht y)[s :=
             (if gpred = dir \<and> ppred \<noteq> dir then pht_next P 1 spht_entry
              else if gpred \<noteq> dir \<and> ppred = dir then pht_next P 0 spht_entry else spht_entry)]\<rparr>)"

definition bp_hybridgp_update :: "bp_params \<Rightarrow> hyb_params \<Rightarrow> Counter \<Rightarrow> Op \<Rightarrow> Bp_World \<Rightarrow> (Op \<times> Bp_World) option" where
  "bp_hybridgp_update P H cycle_count op w =
     (let k = unat (op_proc_id op); y = bw_hybridgp w ! k
      in if op_cf_type op \<noteq> CF_CBR then Some (op, w)
         else if \<not> k < length (bw_hybridgp w) \<or> cycle_count - op_pred_cycle op - ucast (DECODE_CYCLES H) = 0 then None
         else
           do { ix \<leftarrow> hyb_slots H op (oi_pred_local_hist (op_oracle_info op)) y;
                let i = unat (ix_filter ix);
                let f = get_loop_filter_features (hy_filter y ! i);
                let y = (if USE_FILTER H
                         then y\<lparr>hy_filter := (hy_filter y)[i := loop_filter_next (oi_dir (op_oracle_info op)) f]\<rparr> else y);
                let y = (if USE_FILTER H \<and> is_loop_filter_prediction_valid f then y else update_all_phts P H op ix y);
                Some (op, w\<lparr>bw_hybridgp := (bw_hybridgp w)[k := y]\<rparr>) })"

definition bp_hybridgp_recover :: "Cache_Env \<Rightarrow> Recovery_Info \<Rightarrow> Bp_World \<Rightarrow> Bp_World option" where
  "bp_hybridgp_recover E info w =
     (let k = unat (ri_proc_id info); y = bw_hybridgp w ! k; i = ri_branch_id info
      in if \<not> k < length (bw_hybridgp w) then None
         else
           do { b \<leftarrow> cb_deallocate_after i (hy_in_flight y);
                let y = y\<lparr>hy_in_flight := b\<rparr>;
                if ri_cf_type info \<noteq> CF_CBR then Some (w\<lparr>bw_hybridgp := (bw_hybridgp w)[k := y]\<rparr>)
                else
                  do { e \<leftarrow> cb_get b i;
                       (if if_updated_local_history e then Some () else None);
                       (p, c, h) \<leftarrow> get_local_history_entry E (if_bht_addr e) (hy_bht y, bw_heap w);
                       (p, c, h) \<leftarrow> (if p \<noteq> 0 then Some (p, c, h)
                         else map_option (\<lambda>(p, _, _, s). (p, s))
                                (cache_insert E (ucast (ri_proc_id info)) (if_bht_addr e) (c, h)));
                       h \<leftarrow> store_uns32 p (shift_hist (if_pred_phist e) (ri_new_dir info)) h;
                       Some (w\<lparr>bw_hybridgp := (bw_hybridgp w)[k := y\<lparr>hy_bht := c\<rparr>], bw_heap := h\<rparr>) } })"

definition bp_hybridgp_retire :: "Op \<Rightarrow> Bp_World \<Rightarrow> (Op \<times> Bp_World) option" where
  "bp_hybridgp_retire op w =
     (let k = unat (op_proc_id op); y = bw_hybridgp w ! k
      in if \<not> k < length (bw_hybridgp w) then None
         else
           map_option (\<lambda>b. (op, w\<lparr>bw_hybridgp := (bw_hybridgp w)[k := y\<lparr>hy_in_flight := b\<rparr>]\<rparr>))
             (cb_deallocate_front (ri_branch_id (op_recovery_info op)) (hy_in_flight y)))"

end
