(* ===== verification/Bp_Table.thy ===== *)
theory Bp_Table
  imports Bp_Dir
begin

text \<open>
  The rows of \<^verbatim>\<open>bp/bp_table.def\<close> for the mechanisms that are modelled, and the choice of a row by the
  knobs. The cycle, the simulated time and what \<^verbatim>\<open>malloc\<close> leaves in new memory are the environment of
  a call.
\<close>

record Bp_Env =
  be_cache :: Cache_Env
  be_cycle :: Counter
  be_lines :: "nat \<Rightarrow> nat \<Rightarrow> Cache_Entry"
  be_shadow :: "nat \<Rightarrow> nat \<Rightarrow> Cache_Entry"
  be_ways :: "nat \<Rightarrow> uns"
  be_opc :: "nat \<Rightarrow> Opc_Entry"
  be_bht :: Cache
  be_in_flight :: Hybridgp_In_Flight_State
  be_hist :: uns64
  be_misp_hist :: uns64

datatype Bp_Id = GSHARE_BP | HYBRIDGP_BP

datatype Ibtb_Id = TC_TAGLESS_IBTB | TC_TAGGED_IBTB | TC_HYBRID_IBTB

datatype Br_Conf_Id = ONPATH_CONF | PERCEPTRON_CONF

definition bp_hybridgp_init :: "bp_params \<Rightarrow> hyb_params \<Rightarrow> Bp_Env \<Rightarrow> Bp_World \<Rightarrow> Bp_World option" where
  "bp_hybridgp_init P H V w =
     map_option (\<lambda>(ys, h). w\<lparr>bw_hybridgp := ys, bw_heap := h\<rparr>)
       (hybridgp_states_init
          (hybridgp_state_init P H (be_cache V) (be_lines V) (be_shadow V) (be_ways V) (be_bht V) (be_in_flight V))
          (unat (num_cores (be_cache V))) (bw_heap w))"

text \<open>The functions of a row that have an empty body.\<close>

definition bp_nothing :: "Op \<Rightarrow> Bp_World \<Rightarrow> (Op \<times> Bp_World) option" where
  "bp_nothing op w = Some (op, w)"

fun bp_table :: "bp_params \<Rightarrow> hyb_params \<Rightarrow> Bp_Env \<Rightarrow> Bp_Id \<Rightarrow> Bp_World Bp_Mech" where
  "bp_table P H V GSHARE_BP =
     \<lparr>bp_init_func = bp_gshare_init P (num_cores (be_cache V)), bp_timestamp_func = bp_nothing,
      bp_pred_func = bp_gshare_pred P, bp_spec_update_func = bp_nothing, bp_update_func = bp_gshare_update P,
      bp_retire_func = bp_nothing, bp_recover_func = (\<lambda>info w. Some w)\<rparr>"
| "bp_table P H V HYBRIDGP_BP =
     \<lparr>bp_init_func = bp_hybridgp_init P H V, bp_timestamp_func = bp_hybridgp_timestamp,
      bp_pred_func = bp_hybridgp_pred P H (be_cache V) (be_cycle V), bp_spec_update_func = bp_nothing,
      bp_update_func = bp_hybridgp_update P H (be_cycle V), bp_retire_func = bp_hybridgp_retire,
      bp_recover_func = bp_hybridgp_recover (be_cache V)\<rparr>"

definition bp_btb_table :: "bp_params \<Rightarrow> Bp_Env \<Rightarrow> Bp_Btb" where
  "bp_btb_table P V =
     \<lparr>btb_init_func = bp_btb_gen_init P (be_cache V) (be_lines V) (be_shadow V) (be_ways V),
      btb_pred_func = bp_btb_gen_pred P (be_cache V), btb_update_func = bp_btb_gen_update P (be_cache V)\<rparr>"

fun bp_ibtb_table :: "bp_params \<Rightarrow> Bp_Env \<Rightarrow> Ibtb_Id \<Rightarrow> Bp_Ibtb" where
  "bp_ibtb_table P V TC_TAGLESS_IBTB =
     \<lparr>ibtb_init_func = (\<lambda>(d, h). Some (bp_ibtb_tc_tagless_init P d, h)),
      ibtb_pred_func = (\<lambda>op (d, h). map_option (\<lambda>(a, op, d). (a, op, d, h)) (bp_ibtb_tc_tagless_pred P op d)),
      ibtb_update_func = (\<lambda>op (d, h). map_option (\<lambda>d. (d, h)) (bp_ibtb_tc_tagless_update P op d)),
      ibtb_recover_func = bp_ibtb_tc_tagless_recover\<rparr>"
| "bp_ibtb_table P V TC_TAGGED_IBTB =
     \<lparr>ibtb_init_func = bp_ibtb_tc_tagged_init P (be_cache V) (be_lines V) (be_shadow V) (be_ways V),
      ibtb_pred_func = bp_ibtb_tc_tagged_pred P (be_cache V), ibtb_update_func = bp_ibtb_tc_tagged_update P (be_cache V),
      ibtb_recover_func = bp_ibtb_tc_tagged_recover\<rparr>"
| "bp_ibtb_table P V TC_HYBRID_IBTB =
     \<lparr>ibtb_init_func = bp_ibtb_tc_hybrid_init P (be_cache V) (be_lines V) (be_shadow V) (be_ways V),
      ibtb_pred_func = bp_ibtb_tc_hybrid_pred P (be_cache V), ibtb_update_func = bp_ibtb_tc_hybrid_update P (be_cache V),
      ibtb_recover_func = bp_ibtb_tc_hybrid_recover\<rparr>"

text \<open>The histories of the perceptron are in memory that nothing initialises.\<close>

fun br_conf_table :: "conf_params \<Rightarrow> Bp_Env \<Rightarrow> Br_Conf_Id \<Rightarrow> Bp_World Br_Conf" where
  "br_conf_table Q V ONPATH_CONF =
     \<lparr>conf_init_func = (\<lambda>w. Some (w\<lparr>bw_bpc := init_bp_conf Q (be_opc V)\<rparr>)),
      conf_pred_func = (\<lambda>op (d, w). map_option (\<lambda>(op, d, b). (op, d, w\<lparr>bw_bpc := b\<rparr>)) (pred_onpath_conf op (d, bw_bpc w))),
      conf_update_func = (\<lambda>op (d, w). map_option (\<lambda>(d, b). (d, w\<lparr>bw_bpc := b\<rparr>)) (update_onpath_conf op (d, bw_bpc w))),
      conf_recover_func = Some (\<lambda>(d, w). let (d, b) = recover_onpath_conf (d, bw_bpc w) in (d, w\<lparr>bw_bpc := b\<rparr>))\<rparr>"
| "br_conf_table Q V PERCEPTRON_CONF =
     \<lparr>conf_init_func = (\<lambda>w. Some (w\<lparr>bw_perceptron := conf_perceptron_init Q (be_hist V) (be_misp_hist V)\<rparr>)),
      conf_pred_func = (\<lambda>op (d, w).
        map_option (\<lambda>(op, p). (op, d, w\<lparr>bw_perceptron := p\<rparr>)) (conf_perceptron_pred Q op (bw_perceptron w))),
      conf_update_func = (\<lambda>op (d, w).
        map_option (\<lambda>p. (d, w\<lparr>bw_perceptron := p\<rparr>)) (conf_perceptron_update Q op (bw_perceptron w))),
      conf_recover_func = None\<rparr>"

text \<open>\<^verbatim>\<open>BP_MECH\<close>, \<^verbatim>\<open>LATE_BP_MECH\<close> (\<open>None\<close> is \<^verbatim>\<open>NUM_BP\<close>), \<^verbatim>\<open>IBTB_MECH\<close> and \<^verbatim>\<open>CONF_MECH\<close>.\<close>

record bp_choice =
  BP_MECH :: Bp_Id
  LATE_BP_MECH :: "Bp_Id option"
  IBTB_MECH :: Ibtb_Id
  CONF_MECH :: Br_Conf_Id

definition bp_mechs_of ::
    "bp_params \<Rightarrow> hyb_params \<Rightarrow> conf_params \<Rightarrow> bp_choice \<Rightarrow> Bp_Env \<Rightarrow> Bp_World bp_mechs" where
  "bp_mechs_of P H Q K V =
     \<lparr>mech_bp = bp_table P H V (BP_MECH K), mech_late_bp = map_option (bp_table P H V) (LATE_BP_MECH K),
      mech_btb = bp_btb_table P V, mech_ibtb = bp_ibtb_table P V (IBTB_MECH K), mech_conf = br_conf_table Q V (CONF_MECH K)\<rparr>"

end
