(* ===== verification/Bp_Main_Inv.thy ===== *)
theory Bp_Main_Inv
  imports Bp_Table Bp_Targ_Inv Bp_Crs_Inv
begin

text \<open>
  What \<^verbatim>\<open>bp.c\<close> relies on in the mechanisms it calls, as locales, with the proofs that the mechanisms of
  \<^verbatim>\<open>bp_table.def\<close> provide it; and the lemmas on prediction and recovery that follow from it.

  A frame says that a mechanism leaves alone what the prediction is about (\<open>op_key\<close>), whenever it returns.
\<close>

section \<open>What the mechanisms leave alone\<close>

record Op_Key =
  key_op :: "uns \<times> Cf_Type \<times> Addr \<times> Addr \<times> bool \<times> Counter"
  key_oracle :: "Addr \<times> Addr \<times> uns8"
  key_pred :: "uns8 \<times> uns8 \<times> Addr \<times> bool \<times> bool \<times> Addr \<times> bool \<times> bool"
  key_recovery :: "uns32 \<times> uns8"

definition op_key :: "Op \<Rightarrow> Op_Key" where
  "op_key op = (let oi = op_oracle_info op; r = op_recovery_info op in
     \<lparr>key_op = (op_proc_id op, op_cf_type op, op_inst_addr op, op_inst_size op, op_off_path op, op_op_num op),
      key_oracle = (oi_npc oi, oi_target oi, oi_dir oi),
      key_pred = (oi_pred oi, oi_late_pred oi, oi_pred_npc oi, oi_mispred oi, oi_misfetch oi, oi_late_pred_npc oi,
        oi_late_mispred oi, oi_late_misfetch oi),
      key_recovery = (ri_pred_global_hist r, ri_new_dir r)\<rparr>)"

lemma op_key_upd [simp]:
  "op_key (upd_recovery (\<lambda>r. r\<lparr>ri_branch_id := b\<rparr>) op) = op_key op"
  "op_key (upd_recovery (\<lambda>r. r\<lparr>ri_targ_hist := h\<rparr>) op) = op_key op"
  "op_key (upd_recovery (\<lambda>r. r\<lparr>ri_tos_addr := a\<rparr>) op) = op_key op"
  "op_key (save_crs c op) = op_key op"
  "op_key (op\<lparr>op_pred_cycle := t\<rparr>) = op_key op" "op_key (op\<lparr>op_bp_cycle := t\<rparr>) = op_key op"
  "op_key (upd_oracle (\<lambda>o'. o'\<lparr>oi_hybridgp_gpred := g, oi_hybridgp_ppred := p, oi_pred_local_hist := l\<rparr>) op) = op_key op"
  "op_key (upd_oracle (\<lambda>o'. o'\<lparr>oi_pred_targ_hist := h\<rparr>) op) = op_key op"
  "op_key (upd_oracle (\<lambda>o'. o'\<lparr>oi_pred_global_hist := h\<rparr>) op) = op_key op"
  "op_key (upd_oracle (\<lambda>o'. o'\<lparr>oi_pred_global_hist := h, oi_pred_tc_selector_entry := e\<rparr>) op) = op_key op"
  "op_key (upd_oracle (\<lambda>o'. o'\<lparr>oi_btb_miss := x, oi_no_target := y\<rparr>) op) = op_key op"
  "op_key (upd_oracle (\<lambda>o'. o'\<lparr>oi_no_target := x, oi_ibp_miss := y\<rparr>) op) = op_key op"
  "op_key (upd_oracle (\<lambda>o'. o'\<lparr>oi_ibp_miss := y\<rparr>) op) = op_key op"
  "op_key (upd_oracle (\<lambda>o'. o'\<lparr>oi_opc_index := i\<rparr>) op) = op_key op"
  "op_key (upd_oracle (\<lambda>o'. o'\<lparr>oi_pred_conf_perceptron_global_hist := h64, oi_pred_conf := y\<rparr>) op) = op_key op"
  "op_key (op\<lparr>op_conf_perceptron_output := out\<rparr>) = op_key op"
  "op_key (upd_recovery (\<lambda>r. r\<lparr>ri_conf_perceptron_global_hist := h64,
     ri_conf_perceptron_global_misp_hist := f r\<rparr>) op) = op_key op"
  by (simp_all add: op_key_def save_crs_def Let_def)

lemma op_keyD:
  assumes "op_key op' = op_key op"
  shows "op_proc_id op' = op_proc_id op" "op_cf_type op' = op_cf_type op" "op_off_path op' = op_off_path op"
    "return_addr op' = return_addr op" "oi_npc (op_oracle_info op') = oi_npc (op_oracle_info op)"
    "oi_target (op_oracle_info op') = oi_target (op_oracle_info op)" "oi_dir (op_oracle_info op') = oi_dir (op_oracle_info op)"
    "oi_pred (op_oracle_info op') = oi_pred (op_oracle_info op)" "oi_late_pred (op_oracle_info op') = oi_late_pred (op_oracle_info op)"
    "oi_pred_npc (op_oracle_info op') = oi_pred_npc (op_oracle_info op)"
    "oi_mispred (op_oracle_info op') = oi_mispred (op_oracle_info op)" "oi_misfetch (op_oracle_info op') = oi_misfetch (op_oracle_info op)"
    "ri_pred_global_hist (op_recovery_info op') = ri_pred_global_hist (op_recovery_info op)"
    "ri_new_dir (op_recovery_info op') = ri_new_dir (op_recovery_info op)"
    "op_inst_addr op' = op_inst_addr op" "op_inst_size op' = op_inst_size op" "op_op_num op' = op_op_num op"
  using assms by (simp_all add: op_key_def return_addr_def Let_def)

text \<open>What the key says of an op before its direction is predicted.\<close>

definition op_base :: "Op \<Rightarrow> (uns \<times> Cf_Type \<times> Addr \<times> Addr \<times> bool \<times> Counter) \<times> (Addr \<times> Addr \<times> uns8) \<times> (uns32 \<times> uns8)" where
  "op_base op = (key_op (op_key op), key_oracle (op_key op), key_recovery (op_key op))"

lemma op_key_base: "op_key op' = op_key op \<Longrightarrow> op_base op' = op_base op"
  by (simp add: op_base_def)

lemma op_base_upd [simp]:
  "op_base (upd_oracle (\<lambda>o'. o'\<lparr>oi_pred := p\<rparr>) op) = op_base op"
  "op_base (upd_oracle (\<lambda>o'. o'\<lparr>oi_late_pred := p\<rparr>) op) = op_base op"
  "op_base (upd_oracle (\<lambda>o'. o'\<lparr>oi_pred := oi_dir o', oi_no_target := n\<rparr>) op) = op_base op"
  "op_base (both_taken op) = op_base op"
  "op_base (predict_flags late t op) = op_base op"
  "op_base (op\<lparr>op_bp_cycle := c\<rparr>) = op_base op"
  by (simp_all add: op_base_def op_key_def both_taken_def predict_flags_def Let_def)

lemma op_baseD:
  assumes "op_base op' = op_base op"
  shows "op_proc_id op' = op_proc_id op" "op_cf_type op' = op_cf_type op" "op_off_path op' = op_off_path op"
    "return_addr op' = return_addr op" "oi_npc (op_oracle_info op') = oi_npc (op_oracle_info op)"
    "oi_target (op_oracle_info op') = oi_target (op_oracle_info op)" "oi_dir (op_oracle_info op') = oi_dir (op_oracle_info op)"
    "ri_pred_global_hist (op_recovery_info op') = ri_pred_global_hist (op_recovery_info op)"
    "ri_new_dir (op_recovery_info op') = ri_new_dir (op_recovery_info op)" "op_inst_addr op' = op_inst_addr op"
  using assms by (simp_all add: op_base_def op_key_def return_addr_def Let_def)

locale dir_frame =
  fixes B :: "'w Bp_Mech"
  assumes timestamp_key: "bp_timestamp_func B op w = Some (op', w') \<Longrightarrow> op_key op' = op_key op"
    and pred_key: "bp_pred_func B op w = Some (p, op', w') \<Longrightarrow> op_key op' = op_key op"
    and spec_key: "bp_spec_update_func B op w = Some (op', w') \<Longrightarrow> op_key op' = op_key op"

locale btb_frame =
  fixes T :: Bp_Btb
  assumes pred_data: "btb_pred_func T op (d, h) = Some (t, d', h') \<Longrightarrow>
      bd_global_hist d' = bd_global_hist d \<and> bd_proc_id d' = bd_proc_id d \<and> bd_crs d' = bd_crs d"

locale ibtb_frame =
  fixes I :: Bp_Ibtb
  assumes pred_key: "ibtb_pred_func I op (d, h) = Some (a, op', d', h') \<Longrightarrow> op_key op' = op_key op"
    and pred_data: "ibtb_pred_func I op (d, h) = Some (a, op', d', h') \<Longrightarrow>
      bd_global_hist d' = bd_global_hist d \<and> bd_proc_id d' = bd_proc_id d \<and> bd_crs d' = bd_crs d"
    and recover_data: "bd_global_hist (ibtb_recover_func I info d) = bd_global_hist d"

locale conf_frame =
  fixes C :: "'w Br_Conf"
  assumes pred_key: "conf_pred_func C op (d, w) = Some (op', d', w') \<Longrightarrow> op_key op' = op_key op"
    and pred_data: "conf_pred_func C op (d, w) = Some (op', d', w') \<Longrightarrow> bd_global_hist d' = bd_global_hist d"
    and recover_data: "conf_recover_func C = Some f \<Longrightarrow> bd_global_hist (fst (f (d, w))) = bd_global_hist d"


section \<open>The mechanisms keep the frames\<close>

lemma hyb_timestamp_key: "bp_hybridgp_timestamp op w = Some (op', w') \<Longrightarrow> op_key op' = op_key op"
  by (auto simp: bp_hybridgp_timestamp_def Let_def bind_eq_Some_conv split: if_splits)

lemma hyb_pred_key:
  assumes "bp_hybridgp_pred P H E t op w = Some (p, op', w')"
  shows "op_key op' = op_key op"
proof -
  obtain phist c h where l: "get_local_history E (oi_pred_addr (op_oracle_info op))
      (hy_bht (bw_hybridgp w ! unat (op_proc_id op)), bw_heap w) = Some (phist, c, h)"
    using assms by (auto simp: bp_hybridgp_pred_def Let_def bind_eq_Some_conv split: if_splits)
  obtain ix where ix: "hyb_slots H op phist (bw_hybridgp w ! unat (op_proc_id op)) = Some ix"
    using assms l by (auto simp: bp_hybridgp_pred_def Let_def bind_eq_Some_conv split: if_splits)
  obtain x g pp where "hyb_predict P H ix (bw_hybridgp w ! unat (op_proc_id op)) = (x, g, pp)" using prod_cases3 by blast
  with assms l ix show ?thesis
    by (auto simp: bp_hybridgp_pred_def Let_def bind_eq_Some_conv split: if_splits)
qed

lemma bp_table_frame: "dir_frame (bp_table P H V i)"
proof (cases i)
  case GSHARE_BP
  then show ?thesis
    by unfold_locales (auto simp: bp_nothing_def bp_gshare_pred_def)
next
  case HYBRIDGP_BP
  then show ?thesis
    by unfold_locales (auto simp: bp_nothing_def dest: hyb_timestamp_key hyb_pred_key)
qed

interpretation dir: dir_frame "bp_table P H V i" for P H V i
  by (rule bp_table_frame)

lemma bp_btb_table_frame: "btb_frame (bp_btb_table P V)"
  by unfold_locales (auto simp: bp_btb_table_def bp_btb_gen_pred_def split: if_splits option.splits)

interpretation btb: btb_frame "bp_btb_table P V" for P V
  by (rule bp_btb_table_frame)

lemma targ_hist_step_key:
  assumes "targ_hist_step P op d = Some (hist, op', d')"
  shows "op_key op' = op_key op" "bd_global_hist d' = bd_global_hist d" "bd_proc_id d' = bd_proc_id d" "bd_crs d' = bd_crs d"
  using assms by (auto simp: targ_hist_step_def Let_def split: if_splits)

lemma tagged_pred_key:
  assumes "bp_ibtb_tc_tagged_pred P E op (d, h) = Some (a, op', d', h')"
  shows "op_key op' = op_key op" "bd_global_hist d' = bd_global_hist d" "bd_proc_id d' = bd_proc_id d" "bd_crs d' = bd_crs d"
  using assms by (auto simp: bp_ibtb_tc_tagged_pred_def split: if_splits option.splits prod.splits dest: targ_hist_step_key)

lemma tagless_pred_key:
  assumes "bp_ibtb_tc_tagless_pred P op d = Some (a, op', d')"
  shows "op_key op' = op_key op" "bd_global_hist d' = bd_global_hist d" "bd_proc_id d' = bd_proc_id d" "bd_crs d' = bd_crs d"
  using assms by (auto simp: bp_ibtb_tc_tagless_pred_def Let_def split: if_splits option.splits dest: targ_hist_step_key)

lemma hybrid_pred_key:
  assumes "bp_ibtb_tc_hybrid_pred P E op (d, h) = Some (a, op', d', h')"
  shows "op_key op' = op_key op" "bd_global_hist d' = bd_global_hist d" "bd_proc_id d' = bd_proc_id d" "bd_crs d' = bd_crs d"
  using assms
  by (auto simp: bp_ibtb_tc_hybrid_pred_def Let_def split: if_splits dest: tagged_pred_key tagless_pred_key)

lemma bp_ibtb_table_frame: "ibtb_frame (bp_ibtb_table P V i)"
  by (cases i; unfold_locales)
    (auto simp: bp_ibtb_tc_tagged_recover_def bp_ibtb_tc_tagless_recover_def bp_ibtb_tc_hybrid_recover_def
      dest: tagged_pred_key tagless_pred_key hybrid_pred_key)

interpretation ibtb: ibtb_frame "bp_ibtb_table P V i" for P V i
  by (rule bp_ibtb_table_frame)

lemma onpath_pred_key:
  assumes "pred_onpath_conf op (d, b) = Some (op', d', b')"
  shows "op_key op' = op_key op" "bd_global_hist d' = bd_global_hist d"
  using assms by (auto simp: pred_onpath_conf_def Let_def split: if_splits)

lemma if_None_SomeD: "(if b then None else Some x) = Some y \<Longrightarrow> x = y"
  by (simp split: if_splits)

lemma perceptron_pred_key:
  assumes "conf_perceptron_pred Q op p = Some (op', p')"
  shows "op_key op' = op_key op"
  using if_None_SomeD [OF assms [unfolded conf_perceptron_pred_def Let_def]]
  by (elim Pair_inject, hypsubst) (simp split del: if_split)

lemma onpath_frame: "conf_frame (br_conf_table Q V ONPATH_CONF)"
proof
  fix op d w op' d' w'
  assume a: "conf_pred_func (br_conf_table Q V ONPATH_CONF) op (d, w) = Some (op', d', w')"
  then show "op_key op' = op_key op" by (auto dest: onpath_pred_key)
  show "bd_global_hist d' = bd_global_hist d" using a by (auto dest: onpath_pred_key)
next
  fix f d w
  assume "conf_recover_func (br_conf_table Q V ONPATH_CONF) = Some f"
  then show "bd_global_hist (fst (f (d, w))) = bd_global_hist d"
    by (auto simp: recover_onpath_conf_def Let_def split: prod.splits)
qed

lemma perceptron_frame: "conf_frame (br_conf_table Q V PERCEPTRON_CONF)"
  by unfold_locales (auto dest: perceptron_pred_key)

lemma br_conf_table_frame: "conf_frame (br_conf_table Q V i)"
  by (cases i) (simp_all only: onpath_frame perceptron_frame)

interpretation conf: conf_frame "br_conf_table Q V i" for Q V i
  by (rule br_conf_table_frame)


section \<open>Prediction, for any mechanisms with these frames\<close>

lemma both_bp_key:
  assumes f: "\<And>B op w op' w'. B = mech_bp M \<or> mech_late_bp M = Some B \<Longrightarrow> f B op w = Some (op', w') \<Longrightarrow> op_key op' = op_key op"
    and r: "both_bp f M op w = Some (op', w')"
  shows "op_key op' = op_key op"
proof -
  obtain op1 w1 where 1: "f (mech_bp M) op w = Some (op1, w1)"
    "(case mech_late_bp M of None \<Rightarrow> Some (op1, w1) | Some B \<Rightarrow> f B op1 w1) = Some (op', w')"
    using r by (auto simp: both_bp_def bind_eq_Some_conv)
  have "op_key op1 = op_key op" using f [OF _ 1(1)] by simp
  moreover have "op_key op' = op_key op1" using 1(2) f [of _ op1 w1 op' w'] by (cases "mech_late_bp M") auto
  ultimately show ?thesis by simp
qed

lemma both_key [simp]:
  "op_key (upd_oracle (\<lambda>o'. o'\<lparr>oi_btb_miss := False, oi_no_target := False\<rparr>) op) = op_key op" by simp

lemma crs_call_key:
  assumes "crs_call P op d = Some (op', d')"
  shows "op_key op' = op_key op" "bd_global_hist d' = bd_global_hist d"
  using assms by (auto simp: crs_call_def bp_crs_realistic_push_def bp_crs_push_def split: if_splits)

lemma crs_return_key:
  assumes "crs_return P t op d = Some (a, op', d')"
  shows "op_key op' = op_key op" "bd_global_hist d' = bd_global_hist d"
  using assms by (auto simp: crs_return_def bp_crs_realistic_pop_def bp_crs_pop_def split: if_splits)

text \<open>The contract of \<^verbatim>\<open>bp_predict_op\<close> with a whole set of mechanisms.\<close>

locale bp_frames =
  fixes M :: "'w bp_mechs"
  assumes main_frame: "dir_frame (mech_bp M)"
    and late_frame: "mech_late_bp M = Some B \<Longrightarrow> dir_frame B"
    and btb_frame: "btb_frame (mech_btb M)"
    and ibtb_frame: "ibtb_frame (mech_ibtb M)"
    and conf_frame: "conf_frame (mech_conf M)"
begin

lemma dir_frames: "B = mech_bp M \<or> mech_late_bp M = Some B \<Longrightarrow> dir_frame B"
  using main_frame late_frame by auto

lemma timestamps_key: "both_bp bp_timestamp_func M op w = Some (op', w') \<Longrightarrow> op_key op' = op_key op"
  by (erule both_bp_key [rotated]) (rule dir_frame.timestamp_key [OF dir_frames])

lemma specs_key: "both_bp bp_spec_update_func M op w = Some (op', w') \<Longrightarrow> op_key op' = op_key op"
  by (erule both_bp_key [rotated]) (rule dir_frame.spec_key [OF dir_frames])

lemma direction_base:
  assumes "predict_direction P M op w = Some (op', w')"
  shows "op_base op' = op_base op"
proof (cases "PERFECT_BP P")
  case True
  with assms show ?thesis by (auto simp: predict_direction_def)
next
  case False
  then obtain p op1 w1 where 1: "bp_pred_func (mech_bp M) op w = Some (p, op1, w1)"
    using assms by (auto simp: predict_direction_def bind_eq_Some_conv)
  have k1: "op_key op1 = op_key op" using dir_frame.pred_key [OF main_frame 1] .
  show ?thesis
  proof (cases "mech_late_bp M")
    case None
    with assms 1 False op_key_base [OF k1] show ?thesis by (auto simp: predict_direction_def)
  next
    case (Some B)
    then obtain l op2 w2 where 2: "bp_pred_func B (upd_oracle (\<lambda>o'. o'\<lparr>oi_pred := p\<rparr>) op1) w1 = Some (l, op2, w2)"
      "op' = upd_oracle (\<lambda>o'. o'\<lparr>oi_late_pred := l\<rparr>) op2"
      using assms 1 False by (auto simp: predict_direction_def)
    show ?thesis
      using op_key_base [OF dir_frame.pred_key [OF late_frame [OF Some] 2(1)]] op_key_base [OF k1] 2(2) by simp
  qed
qed

text \<open>The type-specific part: it shifts the direction of a conditional branch into the history.\<close>

lemma predict_type_hist:
  assumes "predict_type P M t op (d, h, w) = Some (t', op', d', h', w')"
  shows "op_base op' = op_base op"
    "bd_global_hist d' = (if op_cf_type op = CF_CBR then shift_hist (bd_global_hist d) (oi_pred (op_oracle_info op'))
                          else bd_global_hist d)"
proof -
  let ?kept = "op_base op' = op_base op \<and> bd_global_hist d' = bd_global_hist d"
  have ind: "op_base o2 = op_base op \<and> bd_global_hist d2 = bd_global_hist d"
    if p: "predict_indirect P (mech_ibtb M) t (both_taken op) (d, h) = Some (a, o2, d2, h2)" for a o2 d2 h2
  proof (cases "ENABLE_IBP P")
    case True
    then obtain a1 o1 where r: "ibtb_pred_func (mech_ibtb M) (both_taken op) (d, h) = Some (a1, o1, d2, h2)" "op_key o2 = op_key o1"
      using p by (auto simp: predict_indirect_def split: if_splits)
    show ?thesis
      using op_key_base [OF ibtb_frame.pred_key [OF ibtb_frame r(1)]] op_key_base [OF r(2)]
        ibtb_frame.pred_data [OF ibtb_frame r(1)] by simp
  qed (use p in \<open>auto simp: predict_indirect_def\<close>)
  have call: "op_base o2 = op_base o1 \<and> bd_global_hist d2 = bd_global_hist d1" if "crs_call P o1 d1 = Some (o2, d2)" for o1 d1 o2 d2
    using crs_call_key [OF that] op_key_base by blast
  have ret: "op_base o2 = op_base o1 \<and> bd_global_hist d2 = bd_global_hist d1" if "crs_return P t o1 d1 = Some (a, o2, d2)" for a o1 d1 o2 d2
    using crs_return_key [OF that] op_key_base by blast
  have cbr: "op_base op' = op_base op \<and> bd_global_hist d' = shift_hist (bd_global_hist d) (oi_pred (op_oracle_info op'))"
    if ty: "op_cf_type op = CF_CBR"
  proof -
    obtain o2 w2 where o2: "predict_direction P M (upd_oracle (\<lambda>o'. o'\<lparr>oi_pred_global_hist := bd_global_hist d\<rparr>) op) w = Some (o2, w2)"
      and r: "(if PERFECT_CBR_BTB P \<or> (PERFECT_NT_BTB P \<and> oi_pred (op_oracle_info o2) = NOT_TAKEN)
                then (oi_target (op_oracle_info o2), upd_oracle (\<lambda>o'. o'\<lparr>oi_btb_miss := False, oi_no_target := False\<rparr>) o2,
                      d\<lparr>bd_global_hist := shift_hist (bd_global_hist d) (oi_pred (op_oracle_info o2))\<rparr>, w2)
                else (t, o2, d\<lparr>bd_global_hist := shift_hist (bd_global_hist d) (oi_pred (op_oracle_info o2))\<rparr>, w2)) = (t', op', d', w')"
      using assms by (auto simp: ty predict_type_def predict_cbr_def bind_eq_Some_conv Let_def)
    have b: "op_base o2 = op_base op"
      using direction_base [OF o2] op_key_base [OF op_key_upd(9)] by simp
    have "op_key op' = op_key o2" using r by (auto split: if_splits)
    then have "op_base op' = op_base op" using b op_key_base by metis
    moreover have "bd_global_hist d' = shift_hist (bd_global_hist d) (oi_pred (op_oracle_info op'))"
      using r by (auto split: if_splits)
    ultimately show ?thesis by blast
  qed
  have "?kept" if "op_cf_type op \<noteq> CF_CBR"
    using assms that
    by (cases "op_cf_type op") (auto simp: predict_type_def bind_eq_Some_conv dest!: ind call ret)
  with cbr show "op_base op' = op_base op"
    "bd_global_hist d' = (if op_cf_type op = CF_CBR then shift_hist (bd_global_hist d) (oi_pred (op_oracle_info op'))
                          else bd_global_hist d)" by auto
qed

text \<open>What a prediction tells the caller, and the history it leaves.\<close>

lemma predict_op_ok:
  assumes "bp_predict_op P M cyc n a op s = Some (pc, op', s')" "op_cf_type op \<noteq> CF_SYS"
  shows "op_base op' = op_base (predict_init n a (bs_data s) op)" "pc = oi_pred_npc (op_oracle_info op')"
    "oi_mispred (op_oracle_info op') \<longleftrightarrow> oi_pred (op_oracle_info op') \<noteq> oi_dir (op_oracle_info op) \<and> pc \<noteq> oi_npc (op_oracle_info op)"
    "oi_misfetch (op_oracle_info op') \<longleftrightarrow> oi_pred (op_oracle_info op') = oi_dir (op_oracle_info op) \<and> pc \<noteq> oi_npc (op_oracle_info op)"
    "bd_global_hist (bs_data s') = (if op_cf_type op = CF_CBR
       then shift_hist (bd_global_hist (bs_data s)) (oi_pred (op_oracle_info op')) else bd_global_hist (bs_data s))"
    "oi_pred (op_oracle_info op') = 0 \<Longrightarrow> pc = return_addr op"
    "proc_id_in_addr (op_proc_id op) pc"
proof -
  let ?op0 = "predict_init n a (bs_data s) op"
  obtain op1 w1 op2 where 1: "both_bp bp_timestamp_func M ?op0 (bs_world s) = Some (op1, w1)"
    "predict_tos P (bs_data s) op1 = Some op2"
    using assms by (auto simp: bp_predict_op_def bind_eq_Some_conv split: if_splits)
  have "op_key op2 = op_key op1" using 1(2) by (auto simp: predict_tos_def split: if_splits)
  then have b2: "op_base op2 = op_base ?op0" using op_key_base timestamps_key [OF 1(1)] by metis
  note t2 = op_baseD(2) [OF b2]
  have c: "op_cf_type ?op0 = op_cf_type op" by (simp add: predict_init_def Let_def)
  obtain t d3 h3 op3 where 3: "predict_btb (mech_btb M) op2 (bs_data s, bs_heap s) = Some (t, op3, d3, h3)"
    using assms 1 t2 c by (auto simp: bp_predict_op_def bind_eq_Some_conv split: if_splits)
  obtain t4 op4 d4 h4 w4 op5 w5 where 4: "predict_type P M t op3 (d3, h3, w1) = Some (t4, op4, d4, h4, w4)"
    and 5: "both_bp bp_spec_update_func M op4 w4 = Some (op5, w5)"
    using assms 1 t2 c 3 by (auto simp: bp_predict_op_def bind_eq_Some_conv split: if_splits)
  define op6 where "op6 = predict_flags (mech_late_bp M \<noteq> None) t4 op5"
  define s6 where "s6 = predict_count (op6\<lparr>op_bp_cycle := cyc\<rparr>) (s\<lparr>bs_data := d4, bs_heap := h4, bs_world := w5\<rparr>)"
  have 6: "predict_conf P M (op6\<lparr>op_bp_cycle := cyc\<rparr>) s6 = Some (op', s')" "pc = oi_pred_npc (op_oracle_info op6)"
    "proc_id_in_addr (op_proc_id op6) pc"
    using assms 1 t2 c 3 4 5
    by (auto simp: bp_predict_op_def bind_eq_Some_conv op6_def s6_def Let_def simp del: not_None_eq split: if_splits)
  have b3: "op_base op3 = op_base op2"
    using 3 op_key_base [OF op_key_upd(11)] by (auto simp: predict_btb_def split: option.splits)
  have b5: "op_base op5 = op_base op3"
    using predict_type_hist(1) [OF 4] op_key_base [OF specs_key [OF 5]] by simp
  have b6: "op_base op6 = op_base ?op0" using b2 b3 b5 by (simp add: op6_def)
  have k: "op_key op' = op_key op6"
    using 6(1) conf_frame.pred_key [OF conf_frame]
    by (auto simp: predict_conf_def bind_eq_Some_conv Let_def split: if_splits)
  show "op_base op' = op_base ?op0" using op_key_base [OF k] b6 by simp
  show pc: "pc = oi_pred_npc (op_oracle_info op')" using 6(2) op_keyD(10) [OF k] by simp
  have npc: "oi_npc (op_oracle_info op6) = oi_npc (op_oracle_info op)" "oi_dir (op_oracle_info op6) = oi_dir (op_oracle_info op)"
    using op_baseD(5,7) [OF b6] by (simp_all add: predict_init_def Let_def)
  have fl: "oi_mispred (op_oracle_info op6) \<longleftrightarrow> oi_pred (op_oracle_info op6) \<noteq> oi_dir (op_oracle_info op6) \<and>
      oi_pred_npc (op_oracle_info op6) \<noteq> oi_npc (op_oracle_info op6)"
    "oi_misfetch (op_oracle_info op6) \<longleftrightarrow> \<not> oi_mispred (op_oracle_info op6) \<and> oi_pred_npc (op_oracle_info op6) \<noteq> oi_npc (op_oracle_info op6)"
    by (auto simp: op6_def predict_flags_def Let_def)
  show "oi_mispred (op_oracle_info op') \<longleftrightarrow> oi_pred (op_oracle_info op') \<noteq> oi_dir (op_oracle_info op) \<and> pc \<noteq> oi_npc (op_oracle_info op)"
    "oi_misfetch (op_oracle_info op') \<longleftrightarrow> oi_pred (op_oracle_info op') = oi_dir (op_oracle_info op) \<and> pc \<noteq> oi_npc (op_oracle_info op)"
    using fl npc 6(2) op_keyD(8,11,12) [OF k] by auto
  have p6: "oi_pred (op_oracle_info op6) = oi_pred (op_oracle_info op4)"
    using op_keyD(8) [OF specs_key [OF 5]] by (simp add: op6_def predict_flags_def Let_def)
  have d3: "bd_global_hist d3 = bd_global_hist (bs_data s)"
    using 3 btb_frame.pred_data [OF btb_frame] by (auto simp: predict_btb_def split: option.splits)
  have "bd_global_hist (bs_data s6) = bd_global_hist d4" by (simp add: s6_def predict_count_def)
  moreover have "bd_global_hist (bs_data s') = bd_global_hist (bs_data s6)"
    using 6(1) conf_frame.pred_data [OF conf_frame]
    by (auto simp: predict_conf_def bind_eq_Some_conv Let_def split: if_splits)
  moreover have "op_cf_type op3 = op_cf_type op" using op_baseD(2) [OF b3] t2 c by simp
  ultimately show "bd_global_hist (bs_data s') = (if op_cf_type op = CF_CBR
       then shift_hist (bd_global_hist (bs_data s)) (oi_pred (op_oracle_info op')) else bd_global_hist (bs_data s))"
    using predict_type_hist(2) [OF 4] d3 p6 op_keyD(8) [OF k] by simp
  show "pc = return_addr op" if "oi_pred (op_oracle_info op') = 0"
  proof -
    have "oi_pred (op_oracle_info op6) = 0" using that op_keyD(8) [OF k] by simp
    then have "pc = return_addr op5" using 6(2) by (auto simp: op6_def predict_flags_def Let_def)
    also have "\<dots> = return_addr op" using op_baseD(4) [OF b5] op_baseD(4) [OF b3] op_baseD(4) [OF b2]
      by (simp add: predict_init_def return_addr_def Let_def)
    finally show ?thesis .
  qed
  show "proc_id_in_addr (op_proc_id op) pc"
    using 6(3) op_baseD(1) [OF b6] by (simp add: predict_init_def Let_def)
qed

text \<open>A recovery rebuilds the history from the information of the op.\<close>

lemma recover_hist:
  assumes "bp_recover_op P M cf info (d, w) = Some (d', w')"
  shows "bd_global_hist d' = (if cf = CF_CBR then shift_hist (ri_pred_global_hist info) (ri_new_dir info)
    else ri_pred_global_hist info)"
proof -
  define d1 where "d1 = d\<lparr>bd_global_hist := (if cf = CF_CBR then shift_hist (ri_pred_global_hist info) (ri_new_dir info)
    else ri_pred_global_hist info), bd_targ_hist := ri_targ_hist info\<rparr>"
  define d2 where "d2 = (if cf = CF_ICALL \<or> cf = CF_IBR then ibtb_recover_func (mech_ibtb M) info d1 else d1)"
  have "bd_global_hist d2 = bd_global_hist d1" using ibtb_frame.recover_data [OF ibtb_frame] by (simp add: d2_def)
  moreover obtain w1 d3 where 3: "recover_both M info w = Some w1"
    "(if CRS_REALISTIC P \<noteq> 0 then Some (bp_crs_realistic_recover info d2) else bp_crs_recover P d2) = Some d3"
    and fin: "(case (ENABLE_BP_CONF P, conf_recover_func (mech_conf M)) of (True, Some f) \<Rightarrow> f (d3, w1) | _ \<Rightarrow> (d3, w1)) = (d', w')"
    using assms unfolding bp_recover_op_def Let_def d2_def d1_def by (auto simp: bind_eq_Some_conv)
  moreover have "bd_global_hist d3 = bd_global_hist d2"
    using 3(2) by (auto simp: bp_crs_realistic_recover_def bp_crs_recover_def split: if_splits)
  moreover have "bd_global_hist d' = bd_global_hist d3"
    using fin conf_frame.recover_data [OF conf_frame, of _ d3 w1]
    by (cases "ENABLE_BP_CONF P"; cases "conf_recover_func (mech_conf M)") (auto simp: fst_def split: prod.splits)
  ultimately show ?thesis by (simp add: d1_def)
qed

end

lemma bp_mechs_frames: "bp_frames (bp_mechs_of P H Q K V)"
  by (rule bp_frames.intro)
    (auto simp: bp_mechs_of_def intro: bp_table_frame bp_btb_table_frame bp_ibtb_table_frame br_conf_table_frame)

interpretation mechs: bp_frames "bp_mechs_of P H Q K V" for P H Q K V
  by (rule bp_mechs_frames)

section \<open>The oldest mispredicted op recovers\<close>

text \<open>A sequence of requests for a recovery: the op, the cycle and whether the late predictor asks.\<close>

fun sched_all ::
    "bp_params \<Rightarrow> (op_ptr \<times> Counter \<times> bool) list \<Rightarrow> Bp_Recovery_Info \<times> (op_ptr \<Rightarrow> Op option) \<Rightarrow>
     (Bp_Recovery_Info \<times> (op_ptr \<Rightarrow> Op option)) option" where
  "sched_all P [] s = Some s"
| "sched_all P ((p, cycle, late) # xs) s = Option.bind (bp_sched_recovery P p cycle late False s) (sched_all P xs)"

text \<open>The information describes the recovery of an op.\<close>

definition recovers :: "Bp_Recovery_Info \<Rightarrow> op_ptr \<Rightarrow> Op \<Rightarrow> bool" where
  "recovers ri p op \<longleftrightarrow> bri_recovery_cycle ri \<noteq> MAX_CTR \<and> bri_recovery_op ri = Some p \<and> bri_recovery_op_num ri = op_op_num op \<and>
     bri_recovery_fetch_addr ri = oi_npc (op_oracle_info op) \<and>
     bri_recovery_info ri = (op_recovery_info op)\<lparr>ri_op_num := op_op_num op\<rparr>"

definition can_sched :: "bp_params \<Rightarrow> uns \<Rightarrow> Op \<Rightarrow> Counter \<Rightarrow> bool \<Rightarrow> bool" where
  "can_sched P pid op cycle late \<longleftrightarrow> op_proc_id op = pid \<and> \<not> oi_recovery_sch (op_oracle_info op) \<and>
     (pid \<noteq> 0 \<longrightarrow> oi_npc (op_oracle_info op) \<noteq> 0) \<and>
     cycle + ucast (if late then LATE_BP_LATENCY P else 1 + EXTRA_RECOVERY_CYCLES P) \<noteq> MAX_CTR"

lemma sched_taken:
  assumes "ops p = Some op" "can_sched P (bri_proc_id ri) op cycle late"
    and "bri_recovery_cycle ri = MAX_CTR \<or> op_op_num op \<le> bri_recovery_op_num ri"
  obtains ri' where "bp_sched_recovery P p cycle late False (ri, ops) =
      Some (ri', ops(p \<mapsto> upd_oracle (\<lambda>o'. o'\<lparr>oi_recovery_sch := True\<rparr>) op))"
    "recovers ri' p op" "bri_proc_id ri' = bri_proc_id ri"
  using assms
  by (intro that [of "sched_recovery_info P p op cycle late False ri"])
    (auto simp: bp_sched_recovery_def can_sched_def recovers_def sched_recovery_info_def Let_def)

lemma sched_ignored:
  assumes "ops p = Some op" "op_proc_id op = bri_proc_id ri" "recovers ri q oq" "op_op_num oq < op_op_num op"
  shows "bp_sched_recovery P p cycle late False (ri, ops) = Some (ri, ops)"
proof -
  have "\<not> op_op_num op \<le> op_op_num oq" using assms(4) by (simp add: not_le)
  then show ?thesis using assms(1-3) by (simp add: bp_sched_recovery_def recovers_def)
qed

lemma sched_fit_upd:
  assumes "\<forall>(p, cycle, late) \<in> set xs. ops p = Some (ob p) \<and> R p cycle late" "r \<notin> fst ` set xs"
  shows "\<forall>(p, cycle, late) \<in> set xs. (ops(r \<mapsto> x)) p = Some (ob p) \<and> R p cycle late"
proof (clarify, intro conjI)
  fix p cycle late assume i: "(p, cycle, late) \<in> set xs"
  then have "p \<noteq> r" using assms(2) by force
  then show "(ops(r \<mapsto> x)) p = Some (ob p)" "R p cycle late" using assms(1) i by auto
qed

lemma sched_all_from:
  assumes "distinct (map fst xs)" "\<forall>(p, cycle, late) \<in> set xs. ops p = Some (ob p) \<and> can_sched P (bri_proc_id ri) (ob p) cycle late"
    and "recovers ri q oq"
  shows "\<exists>ri' ops' r or. sched_all P xs (ri, ops) = Some (ri', ops') \<and> recovers ri' r or \<and>
    ((r, or) = (q, oq) \<or> r \<in> fst ` set xs \<and> or = ob r) \<and> op_op_num or \<le> op_op_num oq \<and>
    (\<forall>p \<in> fst ` set xs. op_op_num or \<le> op_op_num (ob p))"
  using assms
proof (induction xs arbitrary: ri ops q oq)
  case Nil
  then show ?case by auto
next
  case (Cons x xs)
  obtain p cycle late where x: "x = (p, cycle, late)" by (cases x)
  have p: "ops p = Some (ob p)" "can_sched P (bri_proc_id ri) (ob p) cycle late" using Cons.prems(2) by (auto simp: x)
  have fresh: "p \<notin> fst ` set xs" "distinct (map fst xs)" using Cons.prems(1) by (auto simp: x)
  show ?case
  proof (cases "op_op_num (ob p) \<le> op_op_num oq")
    case True
    then have "op_op_num (ob p) \<le> bri_recovery_op_num ri" using Cons.prems(3) by (simp add: recovers_def)
    then obtain ri1 where 1: "bp_sched_recovery P p cycle late False (ri, ops) =
        Some (ri1, ops(p \<mapsto> upd_oracle (\<lambda>o'. o'\<lparr>oi_recovery_sch := True\<rparr>) (ob p)))" (is "_ = Some (_, ?ops)")
      "recovers ri1 p (ob p)" "bri_proc_id ri1 = bri_proc_id ri"
      using sched_taken [of ops p "ob p" P ri cycle late] p by blast
    have "\<forall>(p, cycle, late) \<in> set xs. ?ops p = Some (ob p) \<and> can_sched P (bri_proc_id ri1) (ob p) cycle late"
      unfolding 1(3) using Cons.prems(2) fresh(1) by (intro sched_fit_upd) (simp_all add: x)
    from Cons.IH [OF fresh(2) this 1(2)] obtain ri' ops' r or where
      "sched_all P xs (ri1, ?ops) = Some (ri', ops')" "recovers ri' r or" "(r, or) = (p, ob p) \<or> r \<in> fst ` set xs \<and> or = ob r"
      "op_op_num or \<le> op_op_num (ob p)" "\<forall>p \<in> fst ` set xs. op_op_num or \<le> op_op_num (ob p)" by blast
    with 1(1) True show ?thesis
      by (intro exI [of _ ri'] exI [of _ ops'] exI [of _ r] exI [of _ or]) (auto simp: x)
  next
    case False
    have "bp_sched_recovery P p cycle late False (ri, ops) = Some (ri, ops)"
      using sched_ignored [where ops = ops, OF p(1) _ Cons.prems(3)] p(2) False by (simp add: can_sched_def)
    moreover have "\<forall>(p, cycle, late) \<in> set xs. ops p = Some (ob p) \<and> can_sched P (bri_proc_id ri) (ob p) cycle late"
      using Cons.prems(2) by (simp add: x)
    from Cons.IH [OF fresh(2) this Cons.prems(3)] obtain ri' ops' r or where
      "sched_all P xs (ri, ops) = Some (ri', ops')" "recovers ri' r or" "(r, or) = (q, oq) \<or> r \<in> fst ` set xs \<and> or = ob r"
      "op_op_num or \<le> op_op_num oq" "\<forall>p \<in> fst ` set xs. op_op_num or \<le> op_op_num (ob p)" by blast
    ultimately show ?thesis using False
      by (intro exI [of _ ri'] exI [of _ ops'] exI [of _ r] exI [of _ or]) (auto simp: x)
  qed
qed

lemma sched_all_fresh:
  assumes "distinct (map fst xs)" "\<forall>(p, cycle, late) \<in> set xs. ops p = Some (ob p) \<and> can_sched P (bri_proc_id ri) (ob p) cycle late"
    and "bri_recovery_cycle ri = MAX_CTR" "xs \<noteq> []"
  shows "\<exists>ri' ops' r. sched_all P xs (ri, ops) = Some (ri', ops') \<and> r \<in> fst ` set xs \<and> recovers ri' r (ob r) \<and>
    (\<forall>p \<in> fst ` set xs. op_op_num (ob r) \<le> op_op_num (ob p))"
proof -
  obtain p cycle late ys where x: "xs = (p, cycle, late) # ys" using assms(4) by (cases xs) auto
  have p: "ops p = Some (ob p)" "can_sched P (bri_proc_id ri) (ob p) cycle late" using assms(2) by (auto simp: x)
  obtain ri1 where 1: "bp_sched_recovery P p cycle late False (ri, ops) =
      Some (ri1, ops(p \<mapsto> upd_oracle (\<lambda>o'. o'\<lparr>oi_recovery_sch := True\<rparr>) (ob p)))" (is "_ = Some (_, ?ops)")
    "recovers ri1 p (ob p)" "bri_proc_id ri1 = bri_proc_id ri"
    using sched_taken [of ops p "ob p" P ri cycle late] p assms(3) by blast
  have "\<forall>(p, cycle, late) \<in> set ys. ?ops p = Some (ob p) \<and> can_sched P (bri_proc_id ri1) (ob p) cycle late"
    unfolding 1(3) using assms(1,2) by (intro sched_fit_upd) (simp_all add: x)
  moreover have "distinct (map fst ys)" using assms(1) by (simp add: x)
  ultimately show ?thesis using sched_all_from [of ys ?ops ob P ri1 p "ob p"] 1(1,2) by (auto simp: x)
qed

end
