(* ===== verification/Bp_Run.thy ===== *)
theory Bp_Run
  imports Bp_Main_Inv
begin

text \<open>
  The branch predictor with gshare and the ideal call return stack never stops the simulator: every
  buffer keeps its shape, and every target it holds is an address of its core, which is what the assertion
  at the end of a prediction asks for.
\<close>

section \<open>Addresses of a core\<close>

lemma own_plus [simp]: "proc_id_in_addr pid (ADDR_PLUS_OFFSET a x) = proc_id_in_addr pid a"
proof -
  have "drop_bit 58 (ADDR_PLUS_OFFSET a x) = drop_bit 58 a"
  proof (rule bit_word_eqI)
    fix n
    have m: "bit (0xFFFF000000000000 :: 64 word) i = (48 \<le> i)" "bit (0x0000FFFFFFFFFFFF :: 64 word) i = (i < 48)" if "i < 64" for i
    proof -
      have e: "(0x0000FFFFFFFFFFFF :: 64 word) = mask 48" "(0xFFFF000000000000 :: 64 word) = NOT (mask 48)"
        by (simp_all add: mask_eq_exp_minus_1)
      show "bit (0xFFFF000000000000 :: 64 word) i = (48 \<le> i)" "bit (0x0000FFFFFFFFFFFF :: 64 word) i = (i < 48)"
        unfolding e using that by (auto simp: bit_not_iff bit_mask_iff)
    qed
    assume "n < LENGTH(64)"
    have e: "(63 :: 64 word) = mask 6" by (simp add: mask_eq_exp_minus_1)
    have "bit (63 :: 64 word) n = (n < 6)" if "n < 64" unfolding e using that by (auto simp: bit_mask_iff)
    then show "bit (drop_bit 58 (ADDR_PLUS_OFFSET a x)) n = bit (drop_bit 58 a) n"
      using m [of "58 + n"] bit_imp_le_length [of a "58 + n"]
      by (cases "58 + n < 64") (auto simp: ADDR_PLUS_OFFSET_def bit_drop_bit_eq bit_or_iff bit_and_iff)
  qed
  then show ?thesis by (simp add: proc_id_in_addr_def get_proc_id_from_cmp_addr_def)
qed

lemma own_convert: "pid < 64 \<Longrightarrow> proc_id_in_addr pid (convert_to_cmp_addr (ucast pid) 0)"
proof -
  assume p: "pid < 64"
  have "drop_bit 58 (push_bit 58 (ucast (ucast pid :: 8 word) :: 64 word)) = ucast pid"
  proof (rule bit_word_eqI)
    fix n assume "n < LENGTH(64)"
    have "take_bit 6 pid = pid" using p less_mask_eq [of pid 6] by (simp add: take_bit_eq_mask)
    then have "bit pid n \<Longrightarrow> n < 6" by (metis bit_take_bit_iff)
    then show "bit (drop_bit 58 (push_bit 58 (ucast (ucast pid :: 8 word) :: 64 word))) n = bit (ucast pid :: 64 word) n"
      by (auto simp: bit_drop_bit_eq bit_push_bit_iff bit_ucast_iff)
  qed
  moreover have "ucast (ucast pid :: 64 word) = pid" by (rule bit_word_eqI) (simp add: bit_ucast_iff)
  ultimately show ?thesis
    by (simp add: proc_id_in_addr_def get_proc_id_from_cmp_addr_def convert_to_cmp_addr_def)
qed

section \<open>Buffers that hold addresses of a core\<close>

text \<open>The target in the buffer of every valid line.\<close>

definition lines_own :: "uns \<Rightarrow> Cache \<Rightarrow> Heap \<Rightarrow> bool" where
  "lines_own pid c h \<longleftrightarrow> (\<forall>si < length (cache_entries c). \<forall>w < length (cache_row c si).
     ce_valid (cache_row c si ! w) \<longrightarrow> (\<exists>a. load_Addr (ce_data (cache_row c si ! w)) h = Some a \<and> proc_id_in_addr pid a))"

definition buffer_ok :: "uns \<Rightarrow> Cache \<Rightarrow> Heap \<Rightarrow> bool" where
  "buffer_ok pid c h \<longleftrightarrow> tagged_ok c h \<and> lines_own pid c h"

lemma store_load:
  assumes "store_Addr p x h = Some h'"
  shows "load_Addr q h' = (if q = p then Some x else load_Addr q h)" "addr_buf h' q = addr_buf h q"
proof -
  have "addr_buf h p" using assms by (auto simp: store_Addr_def addr_buf_def split: option.splits if_splits)
  then obtain h2 where "store_Addr p x h = Some h2" "load_Addr p h2 = Some x"
    "\<And>q. q \<noteq> p \<Longrightarrow> load_Addr q h2 = load_Addr q h" "\<And>q. addr_buf h2 q = addr_buf h q"
    using store_Addr_Some [of h p x] by metis
  with assms show "load_Addr q h' = (if q = p then Some x else load_Addr q h)" "addr_buf h' q = addr_buf h q" by auto
qed

text \<open>A store of an address of the core, into whichever buffer, keeps all of them.\<close>

lemma buffer_store:
  assumes "buffer_ok pid c h" "store_Addr p x h = Some h'" "proc_id_in_addr pid x"
  shows "buffer_ok pid c h'"
proof -
  note st = store_load [OF assms(2)]
  have "tagged_ok c h'" using assms(1) st(2) by (simp add: buffer_ok_def tagged_ok_def own_bufs_def)
  moreover have "lines_own pid c h'" using assms(1,3) st(1) unfolding buffer_ok_def lines_own_def by metis
  ultimately show ?thesis by (simp add: buffer_ok_def)
qed

lemma buffer_access:
  assumes ok: "buffer_ok pid c h"
  obtains p la c' where "cache_access E a True (c, h) = Some (p, la, c', h)" "buffer_ok pid c' h"
    "p = 0 \<or> (\<exists>x. load_Addr p h = Some x \<and> proc_id_in_addr pid x)"
proof -
  have t: "tagged_ok c h" and own: "lines_own pid c h" using ok by (simp_all add: buffer_ok_def)
  have pol: "cache_repl_policy c = REPL_TRUE_LRU" using t by (simp add: tagged_ok_def)
  obtain si tag la where i: "cache_index c a = (si, tag, la)" using prod_cases3 by blast
  note k = tagged_okD [OF t i]
  obtain p la' c' where a: "cache_access E a True (c, h) = Some (p, la', c', h)" "tagged_ok c' h"
    by (rule tagged_access_ok [OF t])
  show thesis
  proof (cases "find_ix (hit_line tag) (cache_row c si)")
    case None
    with a pol i ok show thesis by (intro that [of 0 la c]) (simp_all add: cache_access_def)
  next
    case (Some w)
    have w: "w < length (cache_row c si)" "ce_valid (cache_row c si ! w)"
      using find_ix_SomeD(1,2) [OF Some] by (simp_all add: hit_line_def)
    obtain c2 where c2: "cache_access E a True (c, h) = Some (ce_data (cache_row c si ! w), la, c2, h)"
      "cache_row c2 si = (cache_row c si)[w := (cache_row c si ! w)\<lparr>ce_pref := False, ce_last_access_time := sim_time E\<rparr>]"
      "\<And>sj. sj \<noteq> si \<Longrightarrow> cache_row c2 sj = cache_row c sj" "length (cache_entries c2) = length (cache_entries c)"
      by (rule lru_access_hit [OF i k(1) pol Some]) (use k(3) [OF w(1)] in auto)
    have "lines_own pid c2 h"
      unfolding lines_own_def
    proof (intro allI impI)
      fix sj v assume v: "sj < length (cache_entries c2)" "v < length (cache_row c2 sj)" "ce_valid (cache_row c2 sj ! v)"
      have "ce_valid (cache_row c sj ! v)" "ce_data (cache_row c2 sj ! v) = ce_data (cache_row c sj ! v)"
        "v < length (cache_row c sj)"
        using v c2(2,3) w by (cases "sj = si"; cases "v = w"; auto)+
      then show "\<exists>a. load_Addr (ce_data (cache_row c2 sj ! v)) h = Some a \<and> proc_id_in_addr pid a"
        using own v(1) c2(4) by (simp add: lines_own_def)
    qed
    moreover have "\<exists>x. load_Addr (ce_data (cache_row c si ! w)) h = Some x \<and> proc_id_in_addr pid x"
      using own k(1) w by (simp add: lines_own_def)
    ultimately show thesis using a c2(1) by (intro that [of "ce_data (cache_row c si ! w)" la c2]) (simp_all add: buffer_ok_def)
  qed
qed

lemma buffer_insert:
  assumes ok: "buffer_ok pid c h" and x: "proc_id_in_addr pid x"
  obtains p la r c' h' where "cache_insert E q a (c, h) = Some (p, la, r, c', h)" "store_Addr p x h = Some h'" "buffer_ok pid c' h'"
proof -
  have t: "tagged_ok c h" and own: "lines_own pid c h" using ok by (simp_all add: buffer_ok_def)
  have pol: "cache_repl_policy c = REPL_TRUE_LRU" using t by (simp add: tagged_ok_def)
  obtain si tag la where i: "cache_index c a = (si, tag, la)" using prod_cases3 by blast
  note k = tagged_okD [OF t i]
  obtain p la' r c' h' where a: "cache_insert E q a (c, h) = Some (p, la', r, c', h)" "store_Addr p x h = Some h'" "tagged_ok c' h'"
    by (rule tagged_insert_ok [OF t])
  define w where "w = fst (lru_way (cache_row c si))"
  obtain b c2 where c2: "cache_insert E q a (c, h) = Some (ce_data (cache_row c si ! w), la, b, c2, h)"
    "w < length (cache_row c si)"
    "cache_row c2 si = (cache_row c si)[w := (cache_row c si ! w)\<lparr>ce_proc_id := q, ce_valid := True, ce_tag := tag,
       ce_base := la, ce_last_access_time := sim_time E, ce_pref := False\<rparr>]"
    "\<And>sj. sj \<noteq> si \<Longrightarrow> cache_row c2 sj = cache_row c sj" "length (cache_entries c2) = length (cache_entries c)"
    by (rule lru_insert_eq [OF i k(1) pol w_def k(2)]) blast
  have eq: "c' = c2" "p = ce_data (cache_row c si ! w)" using a(1) c2(1) by auto
  note st = store_load [OF a(2)]
  have "lines_own pid c2 h'"
    unfolding lines_own_def
  proof (intro allI impI)
    fix sj v assume v: "sj < length (cache_entries c2)" "v < length (cache_row c2 sj)" "ce_valid (cache_row c2 sj ! v)"
    show "\<exists>a. load_Addr (ce_data (cache_row c2 sj ! v)) h' = Some a \<and> proc_id_in_addr pid a"
    proof (cases "sj = si \<and> v = w")
      case True
      then have "ce_data (cache_row c2 sj ! v) = p" using c2(2,3) eq by simp
      then show ?thesis using st(1) x by simp
    next
      case False
      then have "cache_row c2 sj ! v = cache_row c sj ! v" "v < length (cache_row c sj)"
        using c2(2,3,4) v by (cases "sj = si"; simp)+
      then have "\<exists>a. load_Addr (ce_data (cache_row c2 sj ! v)) h = Some a \<and> proc_id_in_addr pid a"
        using own v c2(5) by (simp add: lines_own_def)
      then show ?thesis using st(1) x by auto
    qed
  qed
  with a eq show thesis by (intro that) (auto simp: buffer_ok_def)
qed


section \<open>The target buffers\<close>

definition targets_inv :: "bp_params \<Rightarrow> Bp_Data \<times> Heap \<Rightarrow> bool" where
  "targets_inv P = (\<lambda>(d, h). tc_len_ok P \<and> hist_ok P d \<and> tc_tables_ok P d \<and>
     (\<forall>a \<in> set (bd_tc_tagless d). a = 0 \<or> proc_id_in_addr (bd_proc_id d) a) \<and>
     buffer_ok (bd_proc_id d) (bd_tc_tagged d) h \<and> buffer_ok (bd_proc_id d) (bd_btb d) h)"

text \<open>The parts of the data that the invariant reads.\<close>

lemma targets_inv_cong:
  assumes "bd_proc_id d' = bd_proc_id d" "bd_tc_tagless d' = bd_tc_tagless d" "bd_tc_selector d' = bd_tc_selector d"
    "bd_tc_tagged d' = bd_tc_tagged d" "bd_btb d' = bd_btb d" "bd_target_bit_length d' = bd_target_bit_length d"
  shows "targets_inv P (d', h) = targets_inv P (d, h)"
  using assms by (simp add: targets_inv_def hist_ok_def tc_tables_ok_def)

lemma targets_inv_upd [simp]:
  "targets_inv P (d\<lparr>bd_global_hist := g\<rparr>, h) = targets_inv P (d, h)"
  "targets_inv P (d\<lparr>bd_targ_hist := g\<rparr>, h) = targets_inv P (d, h)"
  "targets_inv P (d\<lparr>bd_global_hist := g, bd_targ_hist := g'\<rparr>, h) = targets_inv P (d, h)"
  "targets_inv P (d\<lparr>bd_crs := c\<rparr>, h) = targets_inv P (d, h)"
  by (rule targets_inv_cong; simp)+

lemma hist_step_inv:
  assumes "targ_hist_step P op d = Some (hist, op', d')"
  shows "targets_inv P (d', h) = targets_inv P (d, h)"
  using targ_hist_step_frame [OF assms] by (intro targets_inv_cong)

text \<open>What an indirect predictor promises: it returns, with no target or one of the core.\<close>

locale ibtb_total = ibtb_frame I for I :: Bp_Ibtb +
  fixes P :: bp_params
  assumes pred_total: "targets_inv P (d, h) \<Longrightarrow> op_proc_id op = bd_proc_id d \<Longrightarrow>
      proc_id_in_addr (bd_proc_id d) (oi_target (op_oracle_info op)) \<Longrightarrow>
      \<exists>a op' d'. ibtb_pred_func I op (d, h) = Some (a, op', d', h) \<and> targets_inv P (d', h) \<and>
        (a = 0 \<or> proc_id_in_addr (bd_proc_id d) a)"
    and update_total: "targets_inv P (d, h) \<Longrightarrow> op_proc_id op = bd_proc_id d \<Longrightarrow>
      proc_id_in_addr (bd_proc_id d) (oi_target (op_oracle_info op)) \<Longrightarrow> \<not> oi_mispred (op_oracle_info op) \<Longrightarrow>
      \<exists>d' h'. ibtb_update_func I op (d, h) = Some (d', h') \<and> targets_inv P (d', h') \<and>
        bd_crs d' = bd_crs d \<and> bd_proc_id d' = bd_proc_id d"
    and recover_total: "targets_inv P (ibtb_recover_func I info d, h) = targets_inv P (d, h) \<and>
      bd_crs (ibtb_recover_func I info d) = bd_crs d \<and> bd_proc_id (ibtb_recover_func I info d) = bd_proc_id d"

lemma tagged_pred_own:
  assumes inv: "targets_inv P (d, h)" and t: "proc_id_in_addr (bd_proc_id d) (oi_target (op_oracle_info op))"
  shows "\<exists>a op' d'. bp_ibtb_tc_tagged_pred P E op (d, h) = Some (a, op', d', h) \<and> targets_inv P (d', h) \<and>
    (a = 0 \<or> proc_id_in_addr (bd_proc_id d) a)"
proof (cases "PERFECT_IBP P")
  case True
  with assms show ?thesis by (auto simp: bp_ibtb_tc_tagged_pred_def)
next
  case False
  have "hist_ok P d" using inv by (simp add: targets_inv_def)
  then obtain hist op1 d1 where s: "targ_hist_step P op d = Some (hist, op1, d1)"
    using targ_hist_step_total by (metis prod_cases3)
  note f = targ_hist_step_frame [OF s]
  have inv1: "targets_inv P (d1, h)" using inv hist_step_inv [OF s] by simp
  then have ok: "buffer_ok (bd_proc_id d1) (bd_tc_tagged d1) h" by (simp add: targets_inv_def)
  obtain p la c' where c: "cache_access E (tagged_index P hist op1) True (bd_tc_tagged d1, h) = Some (p, la, c', h)"
    "buffer_ok (bd_proc_id d1) c' h" "p = 0 \<or> (\<exists>x. load_Addr p h = Some x \<and> proc_id_in_addr (bd_proc_id d1) x)"
    by (rule buffer_access [OF ok])
  obtain a where a: "(if p = 0 then Some 0 else load_Addr p h) = Some a" "a = 0 \<or> proc_id_in_addr (bd_proc_id d) a"
    using c(3) f(4) by (cases "p = 0") auto
  have "targets_inv P (d1\<lparr>bd_tc_tagged := c'\<rparr>, h)"
    using inv1 c(2) by (simp add: targets_inv_def hist_ok_def tc_tables_ok_def)
  with False s c a show ?thesis by (simp add: bp_ibtb_tc_tagged_pred_def)
qed

lemma tagless_pred_own:
  assumes inv: "targets_inv P (d, h)" and t: "proc_id_in_addr (bd_proc_id d) (oi_target (op_oracle_info op))"
  shows "\<exists>a op' d'. bp_ibtb_tc_tagless_pred P op d = Some (a, op', d') \<and> targets_inv P (d', h) \<and>
    (a = 0 \<or> proc_id_in_addr (bd_proc_id d) a)"
proof (cases "PERFECT_IBP P")
  case True
  with assms show ?thesis by (auto simp: bp_ibtb_tc_tagless_pred_def)
next
  case False
  have l: "tc_len_ok P" "hist_ok P d" "length (bd_tc_tagless d) = 2 ^ unat (IBTB_HIST_LENGTH P)"
    using inv by (simp_all add: targets_inv_def tc_tables_ok_def)
  obtain hist op' d' where s: "targ_hist_step P op d = Some (hist, op', d')"
    "bp_ibtb_tc_tagless_pred P op d = Some (bd_tc_tagless d ! tagless_index P hist op, op', d')"
    by (rule tagless_pred_ok [OF False l])
  have "bd_tc_tagless d ! tagless_index P hist op \<in> set (bd_tc_tagless d)"
    using tagless_index_lt [OF l(1)] l(3) by simp
  then have "bd_tc_tagless d ! tagless_index P hist op = 0 \<or>
      proc_id_in_addr (bd_proc_id d) (bd_tc_tagless d ! tagless_index P hist op)"
    using inv by (simp add: targets_inv_def)
  moreover have "targets_inv P (d', h)" using inv hist_step_inv [OF s(1)] by simp
  ultimately show ?thesis using s(2) by blast
qed

lemma tagged_update_own:
  assumes inv: "targets_inv P (d, h)" and t: "proc_id_in_addr (bd_proc_id d) (oi_target (op_oracle_info op))"
  shows "\<exists>d' h'. bp_ibtb_tc_tagged_update P E op (d, h) = Some (d', h') \<and> targets_inv P (d', h') \<and>
    bd_crs d' = bd_crs d \<and> bd_proc_id d' = bd_proc_id d"
proof -
  have ok: "buffer_ok (bd_proc_id d) (bd_tc_tagged d) h" "buffer_ok (bd_proc_id d) (bd_btb d) h"
    using inv by (simp_all add: targets_inv_def)
  obtain p la r c' h' where c: "cache_insert E (ucast (bd_proc_id d)) (tagged_index P (oi_pred_targ_hist (op_oracle_info op)) op)
      (bd_tc_tagged d, h) = Some (p, la, r, c', h)" "store_Addr p (oi_target (op_oracle_info op)) h = Some h'"
    "buffer_ok (bd_proc_id d) c' h'"
    by (rule buffer_insert [OF ok(1) t])
  have "targets_inv P (d\<lparr>bd_tc_tagged := c'\<rparr>, h')"
    using inv c(3) buffer_store [OF ok(2) c(2) t] by (simp add: targets_inv_def hist_ok_def tc_tables_ok_def)
  with c show ?thesis by (simp add: bp_ibtb_tc_tagged_update_def)
qed

lemma tagless_update_own:
  assumes inv: "targets_inv P (d, h)" and t: "proc_id_in_addr (bd_proc_id d) (oi_target (op_oracle_info op))"
  shows "\<exists>d'. bp_ibtb_tc_tagless_update P op d = Some d' \<and> targets_inv P (d', h) \<and>
    bd_crs d' = bd_crs d \<and> bd_proc_id d' = bd_proc_id d"
proof -
  let ?ix = "tagless_index P (oi_pred_targ_hist (op_oracle_info op)) op"
  let ?d = "d\<lparr>bd_tc_tagless := (bd_tc_tagless d)[?ix := oi_target (op_oracle_info op)]\<rparr>"
  have l: "tc_len_ok P" "?ix < length (bd_tc_tagless d)"
    using inv tagless_index_lt [of P] by (simp_all add: targets_inv_def tc_tables_ok_def)
  have "\<forall>a \<in> set (bd_tc_tagless ?d). a = 0 \<or> proc_id_in_addr (bd_proc_id d) a"
    using inv t by (auto simp: targets_inv_def dest!: in_set_updD)
  then have "targets_inv P (?d, h)" using inv by (simp add: targets_inv_def hist_ok_def tc_tables_ok_def)
  with l show ?thesis by (simp add: bp_ibtb_tc_tagless_update_def Let_def)
qed

lemma selector_inv:
  assumes "targets_inv P (d, h)" "v \<le> TC_SELECTOR_TAGGED_STRONG"
  shows "targets_inv P (d\<lparr>bd_tc_selector := (bd_tc_selector d)[ix := v]\<rparr>, h)"
  using assms by (auto simp: targets_inv_def hist_ok_def tc_tables_ok_def dest: in_set_updD)

lemma hybrid_pred_own:
  assumes inv: "targets_inv P (d, h)" and pid: "op_proc_id op = bd_proc_id d"
    and t: "proc_id_in_addr (bd_proc_id d) (oi_target (op_oracle_info op))"
  shows "\<exists>a op' d'. bp_ibtb_tc_hybrid_pred P E op (d, h) = Some (a, op', d', h) \<and> targets_inv P (d', h) \<and>
    (a = 0 \<or> proc_id_in_addr (bd_proc_id d) a)"
proof -
  let ?ix = "tagless_index P (bd_global_hist d) op"
  have l: "tc_len_ok P" "?ix < length (bd_tc_selector d)" "tc_tables_ok P d"
    using inv tagless_index_lt [of P] by (simp_all add: targets_inv_def tc_tables_ok_def)
  then have s: "\<not> TC_SELECTOR_TAGGED_STRONG < bd_tc_selector d ! ?ix" using selector_le [OF l(3,1)] by (simp add: not_less)
  show ?thesis
    using tagged_pred_own [OF inv t] tagless_pred_own [OF inv t] l s pid
    by (cases "TC_SELECTOR_TAGGED_WEAK \<le> bd_tc_selector d ! ?ix") (fastforce simp: bp_ibtb_tc_hybrid_pred_def Let_def)+
qed

lemma hybrid_update_own:
  assumes inv: "targets_inv P (d, h)" and pid: "op_proc_id op = bd_proc_id d" and dir: "\<not> oi_mispred (op_oracle_info op)"
    and t: "proc_id_in_addr (bd_proc_id d) (oi_target (op_oracle_info op))"
  shows "\<exists>d' h'. bp_ibtb_tc_hybrid_update P E op (d, h) = Some (d', h') \<and> targets_inv P (d', h') \<and>
    bd_crs d' = bd_crs d \<and> bd_proc_id d' = bd_proc_id d"
proof -
  let ?oi = "op_oracle_info op"
  let ?ix = "tagless_index P (oi_pred_global_hist ?oi) op"
  let ?sel = "bd_tc_selector d ! ?ix" and ?d = "\<lambda>v. d\<lparr>bd_tc_selector := (bd_tc_selector d)[?ix := v]\<rparr>"
  define good where "good = (\<lambda>d' h'. targets_inv P (d', h') \<and> bd_crs d' = bd_crs d \<and> bd_proc_id d' = bd_proc_id d)"
  have l: "tc_len_ok P" "?ix < length (bd_tc_selector d)" "tc_tables_ok P d"
    using inv tagless_index_lt [of P] by (simp_all add: targets_inv_def tc_tables_ok_def)
  have s: "?sel \<le> TC_SELECTOR_TAGGED_STRONG" using selector_le [OF l(3,1)] .
  have tg: "\<exists>d' h'. tagged_then P E op ?ix v (d, h) = Some (d', h') \<and> good d' h'"
    if v: "v \<le> TC_SELECTOR_TAGGED_STRONG" for v
    using tagged_update_own [OF selector_inv [OF inv v, of ?ix], where op = op and E = E] t by (auto simp: tagged_then_def good_def)
  have tl: "\<exists>d' h'. tagless_then P op ?ix v (d, h) = Some (d', h') \<and> good d' h'"
    if v: "v \<le> TC_SELECTOR_TAGGED_STRONG" for v
    using tagless_update_own [OF selector_inv [OF inv v, of ?ix], where op = op] t by (auto simp: tagless_then_def good_def)
  have both: "\<exists>d' h'. (case bp_ibtb_tc_tagged_update P E op (d, h) of None \<Rightarrow> None
      | Some (d, h) \<Rightarrow> map_option (\<lambda>d. (d, h)) (bp_ibtb_tc_tagless_update P op d)) = Some (d', h') \<and> good d' h'"
  proof -
    obtain d1 h1 where 1: "bp_ibtb_tc_tagged_update P E op (d, h) = Some (d1, h1)" "targets_inv P (d1, h1)"
      "bd_crs d1 = bd_crs d" "bd_proc_id d1 = bd_proc_id d"
      using tagged_update_own [OF inv t] by blast
    have t1: "proc_id_in_addr (bd_proc_id d1) (oi_target ?oi)" using t 1(4) by simp
    obtain d2 where "bp_ibtb_tc_tagless_update P op d1 = Some d2" "targets_inv P (d2, h1)"
      "bd_crs d2 = bd_crs d1" "bd_proc_id d2 = bd_proc_id d1"
      using tagless_update_own [OF 1(2) t1] by blast
    with 1 show ?thesis by (simp add: good_def)
  qed
  have "\<exists>d' h'. bp_ibtb_tc_hybrid_update P E op (d, h) = Some (d', h') \<and> good d' h'"
    using both tg [OF SAT_DEC_le [OF s]] tg [OF SAT_INC_le [OF s]] tl [OF SAT_DEC_le [OF s]] tl [OF SAT_INC_le [OF s]]
      l pid dir by (simp add: bp_ibtb_tc_hybrid_update_def Let_def)
  then show ?thesis by (simp add: good_def)
qed

lemma bp_ibtb_table_total: "ibtb_total (bp_ibtb_table P V i) P"
proof (rule ibtb_total.intro [OF bp_ibtb_table_frame], unfold_locales)
  fix d :: Bp_Data and h :: Heap and op :: Op
  assume a: "targets_inv P (d, h)" "op_proc_id op = bd_proc_id d" "proc_id_in_addr (bd_proc_id d) (oi_target (op_oracle_info op))"
  show "\<exists>a op' d'. ibtb_pred_func (bp_ibtb_table P V i) op (d, h) = Some (a, op', d', h) \<and> targets_inv P (d', h) \<and>
        (a = 0 \<or> proc_id_in_addr (bd_proc_id d) a)"
    using tagged_pred_own [OF a(1,3)] tagless_pred_own [OF a(1,3)] hybrid_pred_own [OF a] by (cases i) auto
  assume m: "\<not> oi_mispred (op_oracle_info op)"
  show "\<exists>d' h'. ibtb_update_func (bp_ibtb_table P V i) op (d, h) = Some (d', h') \<and> targets_inv P (d', h') \<and>
        bd_crs d' = bd_crs d \<and> bd_proc_id d' = bd_proc_id d"
    using tagged_update_own [OF a(1,3)] tagless_update_own [OF a(1,3)] hybrid_update_own [OF a(1,2) m a(3)] by (cases i) auto
next
  fix info :: Recovery_Info and d :: Bp_Data and h :: Heap
  show "targets_inv P (ibtb_recover_func (bp_ibtb_table P V i) info d, h) = targets_inv P (d, h) \<and>
      bd_crs (ibtb_recover_func (bp_ibtb_table P V i) info d) = bd_crs d \<and>
      bd_proc_id (ibtb_recover_func (bp_ibtb_table P V i) info d) = bd_proc_id d"
    by (cases i) (simp_all add: bp_ibtb_tc_tagless_recover_def bp_ibtb_tc_tagged_recover_def bp_ibtb_tc_hybrid_recover_def)
qed

interpretation itab: ibtb_total "bp_ibtb_table P V i" P for P V i
  by (rule bp_ibtb_table_total)


section \<open>The branch target buffer\<close>

locale btb_total = btb_frame T for T :: Bp_Btb +
  fixes P :: bp_params
  assumes pred_total: "targets_inv P (d, h) \<Longrightarrow> proc_id_in_addr (bd_proc_id d) (oi_target (op_oracle_info op)) \<Longrightarrow>
      \<exists>t d'. btb_pred_func T op (d, h) = Some (t, d', h) \<and> targets_inv P (d', h) \<and>
        (\<forall>a. t = Some a \<longrightarrow> proc_id_in_addr (bd_proc_id d) a)"
    and update_total: "targets_inv P (d, h) \<Longrightarrow> op_proc_id op = bd_proc_id d \<Longrightarrow>
      proc_id_in_addr (bd_proc_id d) (oi_target (op_oracle_info op)) \<Longrightarrow>
      \<exists>d' h'. btb_update_func T op (d, h) = Some (d', h') \<and> targets_inv P (d', h') \<and>
        bd_crs d' = bd_crs d \<and> bd_proc_id d' = bd_proc_id d"

lemma btb_pred_own:
  assumes inv: "targets_inv P (d, h)" and t: "proc_id_in_addr (bd_proc_id d) (oi_target (op_oracle_info op))"
  shows "\<exists>t d'. bp_btb_gen_pred P E op (d, h) = Some (t, d', h) \<and> targets_inv P (d', h) \<and>
    (\<forall>a. t = Some a \<longrightarrow> proc_id_in_addr (bd_proc_id d) a)"
proof (cases "PERFECT_BTB P")
  case True
  with assms show ?thesis by (simp add: bp_btb_gen_pred_def)
next
  case False
  have ok: "buffer_ok (bd_proc_id d) (bd_btb d) h" using inv by (simp add: targets_inv_def)
  obtain p la c where c: "cache_access E (oi_pred_addr (op_oracle_info op)) True (bd_btb d, h) = Some (p, la, c, h)"
    "buffer_ok (bd_proc_id d) c h" "p = 0 \<or> (\<exists>x. load_Addr p h = Some x \<and> proc_id_in_addr (bd_proc_id d) x)"
    by (rule buffer_access [OF ok])
  have "targets_inv P (d\<lparr>bd_btb := c\<rparr>, h)" using inv c(2) by (simp add: targets_inv_def hist_ok_def tc_tables_ok_def)
  with False c show ?thesis by (cases "p = 0") (auto simp: bp_btb_gen_pred_def)
qed

lemma btb_update_own:
  assumes inv: "targets_inv P (d, h)" and pid: "op_proc_id op = bd_proc_id d"
    and t: "proc_id_in_addr (bd_proc_id d) (oi_target (op_oracle_info op))"
  shows "\<exists>d' h'. bp_btb_gen_update P E op (d, h) = Some (d', h') \<and> targets_inv P (d', h') \<and>
    bd_crs d' = bd_crs d \<and> bd_proc_id d' = bd_proc_id d"
proof (cases "BTB_OFF_PATH_WRITES P \<or> \<not> op_off_path op")
  case False
  with inv pid show ?thesis by (simp add: bp_btb_gen_update_def)
next
  case True
  have ok: "buffer_ok (bd_proc_id d) (bd_btb d) h" "buffer_ok (bd_proc_id d) (bd_tc_tagged d) h"
    using inv by (simp_all add: targets_inv_def)
  obtain p la r c h' where c: "cache_insert E (ucast (bd_proc_id d)) (oi_pred_addr (op_oracle_info op)) (bd_btb d, h) =
      Some (p, la, r, c, h)" "store_Addr p (oi_target (op_oracle_info op)) h = Some h'" "buffer_ok (bd_proc_id d) c h'"
    by (rule buffer_insert [OF ok(1) t])
  have "targets_inv P (d\<lparr>bd_btb := c\<rparr>, h')"
    using inv c(3) buffer_store [OF ok(2) c(2) t] by (simp add: targets_inv_def hist_ok_def tc_tables_ok_def)
  with True pid c show ?thesis by (auto simp: bp_btb_gen_update_def)
qed

lemma bp_btb_table_total: "btb_total (bp_btb_table P V) P"
  by (rule btb_total.intro [OF bp_btb_table_frame], unfold_locales)
    (simp_all add: bp_btb_table_def btb_pred_own btb_update_own)

interpretation btab: btb_total "bp_btb_table P V" P for P V
  by (rule bp_btb_table_total)

section \<open>Gshare\<close>

text \<open>A direction predictor that always returns, for the cores it has a state for.\<close>

locale dir_total = dir_frame B for B :: "'w Bp_Mech" +
  fixes ok :: "'w \<Rightarrow> bool" and core :: "uns \<Rightarrow> bool"
  assumes timestamp_total: "ok w \<Longrightarrow> core (op_proc_id op) \<Longrightarrow> \<exists>op' w'. bp_timestamp_func B op w = Some (op', w') \<and> ok w'"
    and pred_total: "ok w \<Longrightarrow> core (op_proc_id op) \<Longrightarrow> \<exists>p op' w'. bp_pred_func B op w = Some (p, op', w') \<and> ok w'"
    and spec_total: "ok w \<Longrightarrow> core (op_proc_id op) \<Longrightarrow> \<exists>op' w'. bp_spec_update_func B op w = Some (op', w') \<and> ok w'"
    and update_total: "ok w \<Longrightarrow> core (op_proc_id op) \<Longrightarrow> \<exists>op' w'. bp_update_func B op w = Some (op', w') \<and> ok w'"
    and retire_total: "ok w \<Longrightarrow> core (op_proc_id op) \<Longrightarrow> \<exists>op' w'. bp_retire_func B op w = Some (op', w') \<and> ok w'"
    and recover_total: "ok w \<Longrightarrow> \<exists>w'. bp_recover_func B info w = Some w' \<and> ok w'"
    and update_pid: "bp_update_func B op w = Some (op', w') \<Longrightarrow> op_proc_id op' = op_proc_id op"
    and retire_pid: "bp_retire_func B op w = Some (op', w') \<Longrightarrow> op_proc_id op' = op_proc_id op"

definition gshare_ok :: "bp_params \<Rightarrow> nat \<Rightarrow> Bp_World \<Rightarrow> bool" where
  "gshare_ok P n w \<longleftrightarrow> len_ok (HIST_LENGTH P) \<and> length (bw_gshare w) = n \<and>
     (\<forall>t \<in> set (bw_gshare w). length t = 2 ^ unat (HIST_LENGTH P))"

lemma get_pht_index_lt: "len_ok (HIST_LENGTH P) \<Longrightarrow> unat (get_pht_index P a hist) < 2 ^ unat (HIST_LENGTH P)"
  using tc_hist_bits_lt [of "unat (HIST_LENGTH P)" hist] tc_addr_bits_lt [of "unat (HIST_LENGTH P)" a]
  by (simp add: get_pht_index_def tc_hist_bits_def tc_addr_bits_def len_ok_def word_less_nat_alt xor_lt)

lemma gshare_slot_ok:
  assumes "gshare_ok P n w" "unat (op_proc_id op) < n"
  obtains k ix where "gshare_slot P op w = Some (k, ix)" "k < length (bw_gshare w)" "ix < length (bw_gshare w ! k)"
    "k = unat (op_proc_id op)"
    "ix = unat (get_pht_index P (oi_pred_addr (op_oracle_info op)) (oi_pred_global_hist (op_oracle_info op)))"
  using assms get_pht_index_lt by (intro that) (auto simp: gshare_slot_def gshare_ok_def Let_def)

lemma gshare_update_ok:
  assumes "gshare_ok P n w" "k < length (bw_gshare w)"
  shows "gshare_ok P n (w\<lparr>bw_gshare := (bw_gshare w)[k := (bw_gshare w ! k)[ix := e]]\<rparr>)"
  using assms by (auto simp: gshare_ok_def dest!: in_set_updD)

lemma gshare_total: "dir_total (bp_table P H V GSHARE_BP) (gshare_ok P n) (\<lambda>pid. unat pid < n)"
proof (rule dir_total.intro [OF bp_table_frame], unfold_locales)
  fix w :: Bp_World and op :: Op
  assume a: "gshare_ok P n w" "unat (op_proc_id op) < n"
  obtain k ix where g: "gshare_slot P op w = Some (k, ix)" "k < length (bw_gshare w)"
    using gshare_slot_ok [OF a] by metis
  show "\<exists>p op' w'. bp_pred_func (bp_table P H V GSHARE_BP) op w = Some (p, op', w') \<and> gshare_ok P n w'"
    using a g by (simp add: bp_gshare_pred_def)
  show "\<exists>op' w'. bp_update_func (bp_table P H V GSHARE_BP) op w = Some (op', w') \<and> gshare_ok P n w'"
    using a g gshare_update_ok by (simp add: bp_gshare_update_def)
qed (auto simp: bp_nothing_def bp_gshare_update_def split: if_splits)

interpretation gshare: dir_total "bp_table P H V GSHARE_BP" "gshare_ok P n" "\<lambda>pid. unat pid < n" for P H V n
  by (rule gshare_total)

section \<open>The ideal stack holds return addresses of the core\<close>

definition stack_inv :: "bp_params \<Rightarrow> nat \<Rightarrow> uns \<Rightarrow> Crs \<Rightarrow> bool" where
  "stack_inv P k pid c \<longleftrightarrow> CRS_ENTRIES P = 2 ^ k \<and> k \<le> 7 \<and> CRS_REALISTIC P = 0 \<and> crs_ok k c \<and>
     (\<forall>a \<in> set (crs_visible k c) \<union> set (crs_saved k c). proc_id_in_addr pid a)"

lemma crs_call_own:
  assumes inv: "stack_inv P k (bd_proc_id d) (bd_crs d)" and path: "\<not> op_off_path op \<longrightarrow> on_path (bd_crs d)"
    and pid: "op_proc_id op = bd_proc_id d" and own: "proc_id_in_addr (bd_proc_id d) (op_inst_addr op)"
  shows "\<exists>c. crs_call P op d = Some (op, d\<lparr>bd_crs := c\<rparr>) \<and> stack_inv P k (bd_proc_id d) c \<and> (\<not> op_off_path op \<longrightarrow> on_path c)"
proof (cases "ENABLE_CRS P")
  case False
  with assms show ?thesis by (intro exI [of _ "bd_crs d"]) (simp add: crs_call_def)
next
  case True
  have k: "CRS_ENTRIES P = 2 ^ k" "k \<le> 7" "CRS_REALISTIC P = 0" "crs_ok k (bd_crs d)" using inv by (simp_all add: stack_inv_def)
  then have k31: "k \<le> 31" by simp
  obtain c' where c': "crs_push (2 ^ k) (return_addr op) (op_op_num op) (op_off_path op) (bd_crs d) = Some c'" "crs_ok k c'"
    "\<not> op_off_path op \<Longrightarrow> on_path c'" "crs_visible k c' = take (2 ^ k) (return_addr op # crs_visible k (bd_crs d))"
    "crs_saved k c' = (if op_off_path op then crs_saved k (bd_crs d) else crs_visible k c')"
    using crs_push_ok [OF k(4) k31] path by metis
  have ra: "proc_id_in_addr (bd_proc_id d) (return_addr op)" using own by (simp add: return_addr_def)
  have "\<forall>a \<in> set (crs_visible k c'). proc_id_in_addr (bd_proc_id d) a"
    using inv ra by (auto simp: c'(4) stack_inv_def dest!: in_set_takeD)
  then have "stack_inv P k (bd_proc_id d) c'" using inv c'(2,5) by (auto simp: stack_inv_def)
  with True k c' pid show ?thesis by (auto simp: crs_call_def bp_crs_push_def)
qed

lemma crs_return_own:
  assumes inv: "stack_inv P k (bd_proc_id d) (bd_crs d)" and path: "\<not> op_off_path op \<longrightarrow> on_path (bd_crs d)"
    and pid: "op_proc_id op = bd_proc_id d" "bd_proc_id d < 64" and t: "proc_id_in_addr (bd_proc_id d) t"
    and own: "proc_id_in_addr (bd_proc_id d) (oi_target (op_oracle_info op))"
  shows "\<exists>a c. crs_return P t op d = Some (a, op, d\<lparr>bd_crs := c\<rparr>) \<and> stack_inv P k (bd_proc_id d) c \<and>
    (\<not> op_off_path op \<longrightarrow> on_path c) \<and> proc_id_in_addr (bd_proc_id d) a"
proof (cases "ENABLE_CRS P")
  case False
  with assms show ?thesis by (intro exI [of _ t] exI [of _ "bd_crs d"]) (simp add: crs_return_def)
next
  case True
  have k: "CRS_ENTRIES P = 2 ^ k" "k \<le> 7" "CRS_REALISTIC P = 0" "crs_ok k (bd_crs d)" using inv by (simp_all add: stack_inv_def)
  then have k31: "k \<le> 31" by simp
  let ?v = "crs_visible k (bd_crs d)"
  obtain c' where c': "crs_pop (2 ^ k) (op_off_path op) (bd_crs d) = Some (case ?v of [] \<Rightarrow> None | a # _ \<Rightarrow> Some a, c')"
    "crs_ok k c'" "\<not> op_off_path op \<Longrightarrow> on_path c'" "crs_visible k c' = tl ?v"
    "crs_saved k c' = (if op_off_path op then crs_saved k (bd_crs d) else crs_visible k c')"
    using crs_pop_ok [OF k(4) k31] path by metis
  have v: "\<forall>a \<in> set ?v. proc_id_in_addr (bd_proc_id d) a" using inv by (simp add: stack_inv_def)
  then have "\<forall>a \<in> set (tl ?v). proc_id_in_addr (bd_proc_id d) a" by (cases ?v) simp_all
  then have "stack_inv P k (bd_proc_id d) c'" using inv c'(2,4,5) by (auto simp: stack_inv_def)
  moreover have "proc_id_in_addr (bd_proc_id d) (crs_result P op d (case ?v of [] \<Rightarrow> None | a # _ \<Rightarrow> Some a))"
    using v own own_convert [OF pid(2)] by (cases ?v) (simp_all add: crs_result_def)
  ultimately show ?thesis using True k c' pid by (auto simp: crs_return_def bp_crs_pop_def)
qed

lemma crs_tos_total:
  assumes "stack_inv P k pid c"
  obtains a where "crs_tos_addr P c = Some a"
proof -
  have k: "CRS_ENTRIES P = 2 ^ k" "k \<le> 7" "CRS_REALISTIC P = 0" "crs_ok k c" using assms by (simp_all add: stack_inv_def)
  let ?t = "CIRC_DEC2 (crs_tail c) (2 ^ k)"
  have t: "unat (crs_tail c) < 2 ^ k" "length (crs_entries c) = 2 * 2 ^ k" "length (crs_off_path c) = 2 ^ k"
    using k(4) by (simp_all add: crs_ok_def)
  have lt: "unat ?t < 2 ^ k" using k(2) t(1) ring_down_lt [of "unat (crs_tail c)" "2 ^ k"] by (simp add: unat_CIRC_DEC2)
  have "crs_slot ?t f < length (crs_entries c)" for f
    using lt k(2) t(2) by (cases f) (simp_all add: crs_slot_eq)
  with k(1,3) lt t(3) show thesis by (intro that) (simp add: crs_tos_addr_def Let_def)
qed

lemma crs_recover_own:
  assumes inv: "stack_inv P k (bd_proc_id d) (bd_crs d)"
  shows "\<exists>c. bp_crs_recover P d = Some (d\<lparr>bd_crs := c\<rparr>) \<and> stack_inv P k (bd_proc_id d) c \<and> on_path c"
proof -
  have k: "CRS_ENTRIES P = 2 ^ k" "k \<le> 7" "crs_ok k (bd_crs d)" using inv by (simp_all add: stack_inv_def)
  obtain c' where "crs_recover (2 ^ k) (bd_crs d) = Some c'" "crs_ok k c'" "on_path c'"
    "crs_visible k c' = crs_saved k (bd_crs d)" "crs_saved k c' = crs_saved k (bd_crs d)"
    by (rule crs_recover_ok [OF k(3,2)])
  with inv k show ?thesis by (auto simp: bp_crs_recover_def stack_inv_def)
qed


section \<open>Whole operations\<close>

text \<open>The ops of a core: their addresses are addresses of the core.\<close>

definition op_own :: "uns \<Rightarrow> Op \<Rightarrow> bool" where
  "op_own pid op \<longleftrightarrow> op_proc_id op = pid \<and> op_cf_type op \<noteq> NOT_CF \<and> proc_id_in_addr pid (op_inst_addr op) \<and>
     proc_id_in_addr pid (oi_npc (op_oracle_info op)) \<and> proc_id_in_addr pid (oi_target (op_oracle_info op))"

lemma op_own_base:
  assumes "op_base op' = op_base op"
  shows "op_own pid op' = op_own pid op"
  using op_baseD(1,2,5,6,10) [OF assms] by (simp add: op_own_def)

lemma op_own_key: "op_key op' = op_key op \<Longrightarrow> op_own pid op' = op_own pid op"
  by (rule op_own_base) (rule op_key_base)

lemma op_own_init [simp]: "op_own pid (predict_init n a d op) = op_own pid op"
  by (simp add: op_own_def predict_init_def Let_def)

lemma op_own_taken [simp]: "op_own pid (both_taken op) = op_own pid op"
  by (rule op_own_base) simp

lemma op_path_init [simp]: "op_off_path (predict_init n a d op) = op_off_path op" "op_cf_type (predict_init n a d op) = op_cf_type op"
  "op_off_path (both_taken op) = op_off_path op"
  by (simp_all add: predict_init_def both_taken_def Let_def)

lemma predict_count_sel [simp]:
  "bs_data (predict_count op s) = bs_data s" "bs_heap (predict_count op s) = bs_heap s" "bs_world (predict_count op s) = bs_world s"
  by (simp_all add: predict_count_def)

locale bp_total = bp_frames M for M :: "'w bp_mechs" +
  fixes P :: bp_params and ok :: "'w \<Rightarrow> bool" and core :: "uns \<Rightarrow> bool"
  assumes main_total: "dir_total (mech_bp M) ok core"
    and late_total: "mech_late_bp M = Some B \<Longrightarrow> dir_total B ok core"
    and btb_total: "btb_total (mech_btb M) P"
    and ibtb_total: "ibtb_total (mech_ibtb M) P"
begin

text \<open>The state between two calls, with whether the ops on the path may go on.\<close>

definition bp_inv :: "nat \<Rightarrow> Bp_Data \<times> Heap \<times> 'w \<Rightarrow> bool" where
  "bp_inv k = (\<lambda>(d, h, w). targets_inv P (d, h) \<and> stack_inv P k (bd_proc_id d) (bd_crs d) \<and> ok w \<and>
     core (bd_proc_id d) \<and> bd_proc_id d < 64)"

lemma both_total:
  assumes f: "\<And>B op w. B = mech_bp M \<or> mech_late_bp M = Some B \<Longrightarrow> ok w \<Longrightarrow> core (op_proc_id op) \<Longrightarrow>
      \<exists>op' w'. f B op w = Some (op', w') \<and> ok w'"
    and key: "\<And>op w op' w'. f (mech_bp M) op w = Some (op', w') \<Longrightarrow> op_proc_id op' = op_proc_id op"
    and w: "ok w" "core (op_proc_id op)"
  shows "\<exists>op' w'. both_bp f M op w = Some (op', w') \<and> ok w'"
proof -
  obtain op1 w1 where 1: "f (mech_bp M) op w = Some (op1, w1)" "ok w1" using f [of "mech_bp M"] w by blast
  show ?thesis
  proof (cases "mech_late_bp M")
    case None
    with 1 show ?thesis by (simp add: both_bp_def)
  next
    case (Some B)
    then have "\<exists>op' w'. f B op1 w1 = Some (op', w') \<and> ok w'" using f [of B w1 op1] 1 w(2) key by simp
    with Some 1 show ?thesis by (simp add: both_bp_def)
  qed
qed

lemma totals: "B = mech_bp M \<or> mech_late_bp M = Some B \<Longrightarrow> dir_total B ok core"
  using main_total late_total by auto

lemma main_key: "bp_timestamp_func (mech_bp M) op w = Some (op', w') \<Longrightarrow> op_proc_id op' = op_proc_id op"
  "bp_spec_update_func (mech_bp M) op w = Some (op', w') \<Longrightarrow> op_proc_id op' = op_proc_id op"
  by (rule op_keyD(1), rule dir_frame.timestamp_key [OF main_frame], assumption)
    (rule op_keyD(1), rule dir_frame.spec_key [OF main_frame], assumption)

lemma timestamps_total: "ok w \<Longrightarrow> core (op_proc_id op) \<Longrightarrow> \<exists>op' w'. both_bp bp_timestamp_func M op w = Some (op', w') \<and> ok w'"
  by (rule both_total) (rule dir_total.timestamp_total [OF totals], assumption+, rule main_key)

lemma specs_total: "ok w \<Longrightarrow> core (op_proc_id op) \<Longrightarrow> \<exists>op' w'. both_bp bp_spec_update_func M op w = Some (op', w') \<and> ok w'"
  by (rule both_total) (rule dir_total.spec_total [OF totals], assumption+, rule main_key)

lemma direction_total:
  assumes "ok w" "core (op_proc_id op)"
  shows "\<exists>op' w'. predict_direction P M op w = Some (op', w') \<and> ok w'"
proof (cases "PERFECT_BP P")
  case True
  with assms show ?thesis by (simp add: predict_direction_def)
next
  case False
  obtain p op1 w1 where 1: "bp_pred_func (mech_bp M) op w = Some (p, op1, w1)" "ok w1"
    using dir_total.pred_total [OF main_total] assms by blast
  have pid: "op_proc_id op1 = op_proc_id op" using op_keyD(1) [OF dir_frame.pred_key [OF main_frame 1(1)]] .
  show ?thesis
  proof (cases "mech_late_bp M")
    case None
    with False 1 show ?thesis by (simp add: predict_direction_def)
  next
    case (Some B)
    obtain l op2 w2 where "bp_pred_func B (upd_oracle (\<lambda>o'. o'\<lparr>oi_pred := p\<rparr>) op1) w1 = Some (l, op2, w2)" "ok w2"
      using dir_total.pred_total [OF late_total [OF Some] 1(2), of "upd_oracle (\<lambda>o'. o'\<lparr>oi_pred := p\<rparr>) op1"] assms(2) pid by auto
    with Some False 1 show ?thesis by (simp add: predict_direction_def)
  qed
qed

lemma indirect_total:
  assumes inv: "targets_inv P (d, h)" and op: "op_own (bd_proc_id d) op" and t: "proc_id_in_addr (bd_proc_id d) t"
  shows "\<exists>a op' d'. predict_indirect P (mech_ibtb M) t op (d, h) = Some (a, op', d', h) \<and> targets_inv P (d', h) \<and>
    op_key op' = op_key op \<and> bd_crs d' = bd_crs d \<and> bd_proc_id d' = bd_proc_id d \<and> proc_id_in_addr (bd_proc_id d) a"
proof (cases "ENABLE_IBP P")
  case False
  with assms show ?thesis by (simp add: predict_indirect_def)
next
  case True
  have o: "op_proc_id op = bd_proc_id d" "proc_id_in_addr (bd_proc_id d) (oi_target (op_oracle_info op))"
    using op by (simp_all add: op_own_def)
  obtain a op1 d1 where 1: "ibtb_pred_func (mech_ibtb M) op (d, h) = Some (a, op1, d1, h)" "targets_inv P (d1, h)"
    "a = 0 \<or> proc_id_in_addr (bd_proc_id d) a"
    using ibtb_total.pred_total [OF ibtb_total inv o] by blast
  note k = ibtb_frame.pred_key [OF ibtb_frame 1(1)] ibtb_frame.pred_data [OF ibtb_frame 1(1)]
  show ?thesis using True 1 k t by (cases "a = 0") (simp_all add: predict_indirect_def)
qed

text \<open>The type-specific part of a prediction.\<close>

lemma predict_type_total:
  assumes inv: "bp_inv k (d, h, w)" and op: "op_own (bd_proc_id d) op"
    and path: "\<not> op_off_path op \<longrightarrow> on_path (bd_crs d)" and t: "proc_id_in_addr (bd_proc_id d) t"
  shows "\<exists>a op' d' h' w'. predict_type P M t op (d, h, w) = Some (a, op', d', h', w') \<and> bp_inv k (d', h', w') \<and>
    bd_proc_id d' = bd_proc_id d \<and> (\<not> op_off_path op \<longrightarrow> on_path (bd_crs d')) \<and> proc_id_in_addr (bd_proc_id d) a"
proof -
  have i: "targets_inv P (d, h)" "stack_inv P k (bd_proc_id d) (bd_crs d)" "ok w" "core (bd_proc_id d)" "bd_proc_id d < 64"
    using inv by (simp_all add: bp_inv_def)
  have o: "op_proc_id op = bd_proc_id d" "proc_id_in_addr (bd_proc_id d) (op_inst_addr op)"
    "proc_id_in_addr (bd_proc_id d) (oi_target (op_oracle_info op))"
    using op by (simp_all add: op_own_def)
  define good where "good = (\<lambda>a d' h' w'. bp_inv k (d', h', w') \<and> bd_proc_id d' = bd_proc_id d \<and>
    (\<not> op_off_path op \<longrightarrow> on_path (bd_crs d')) \<and> proc_id_in_addr (bd_proc_id d) a)"
  have tk: "op_own (bd_proc_id d) (both_taken op)" using op by simp
  have call: "\<exists>c. crs_call P op1 d1 = Some (op1, d1\<lparr>bd_crs := c\<rparr>) \<and> stack_inv P k (bd_proc_id d) c \<and> (\<not> op_off_path op \<longrightarrow> on_path c)"
    if "stack_inv P k (bd_proc_id d) (bd_crs d1)" "\<not> op_off_path op \<longrightarrow> on_path (bd_crs d1)" "bd_proc_id d1 = bd_proc_id d"
      "op_key op1 = op_key (both_taken op)" for op1 d1
    using crs_call_own [of P k d1 op1] that o(1,2) op_baseD(1,3,10) [OF op_key_base [OF that(4)]]
      op_baseD(1,3,10) [OF op_base_upd(4)] by simp
  have ret: "\<exists>a c. crs_return P t (both_taken op) d = Some (a, both_taken op, d\<lparr>bd_crs := c\<rparr>) \<and>
      stack_inv P k (bd_proc_id d) c \<and> (\<not> op_off_path op \<longrightarrow> on_path c) \<and> proc_id_in_addr (bd_proc_id d) a"
    using crs_return_own [OF i(2), of "both_taken op" t] i(5) path t tk by (simp add: op_own_def)
  have "\<exists>a op' d' h' w'. predict_type P M t op (d, h, w) = Some (a, op', d', h', w') \<and> good a d' h' w'"
  proof (cases "op_cf_type op")
    case CF_CBR
    obtain o2 w2 where d2: "predict_direction P M (upd_oracle (\<lambda>o'. o'\<lparr>oi_pred_global_hist := bd_global_hist d\<rparr>) op) w = Some (o2, w2)"
      "ok w2"
      using direction_total [of w "upd_oracle (\<lambda>o'. o'\<lparr>oi_pred_global_hist := bd_global_hist d\<rparr>) op"] i o by auto
    have "op_base o2 = op_base op" using direction_base [OF d2(1)] op_key_base [OF op_key_upd(9)] by simp
    then have "oi_target (op_oracle_info o2) = oi_target (op_oracle_info op)" by (rule op_baseD(6))
    with CF_CBR d2 i o path t show ?thesis
      by (simp add: predict_type_def predict_cbr_def Let_def good_def bp_inv_def)
  next
    case CF_CALL
    with call [of d "both_taken op"] i path t show ?thesis by (auto simp: predict_type_def good_def bp_inv_def)
  next
    case CF_IBR
    with indirect_total [OF i(1) tk t] i path show ?thesis by (auto simp: predict_type_def good_def bp_inv_def)
  next
    case CF_ICALL
    obtain a op1 d1 where 1: "predict_indirect P (mech_ibtb M) t (both_taken op) (d, h) = Some (a, op1, d1, h)" "targets_inv P (d1, h)"
      "op_key op1 = op_key (both_taken op)" "bd_crs d1 = bd_crs d" "bd_proc_id d1 = bd_proc_id d" "proc_id_in_addr (bd_proc_id d) a"
      using indirect_total [OF i(1) tk t] by blast
    from call [of d1 op1] 1 i path obtain c where "crs_call P op1 d1 = Some (op1, d1\<lparr>bd_crs := c\<rparr>)"
      "stack_inv P k (bd_proc_id d) c" "\<not> op_off_path op \<longrightarrow> on_path c" by auto
    with CF_ICALL 1 i show ?thesis by (simp add: predict_type_def good_def bp_inv_def)
  next
    case CF_ICO
    obtain a c where 1: "crs_return P t (both_taken op) d = Some (a, both_taken op, d\<lparr>bd_crs := c\<rparr>)"
      "stack_inv P k (bd_proc_id d) c" "\<not> op_off_path op \<longrightarrow> on_path c" "proc_id_in_addr (bd_proc_id d) a"
      using ret by blast
    from call [of "d\<lparr>bd_crs := c\<rparr>" "both_taken op"] 1 obtain c2 where
      "crs_call P (both_taken op) (d\<lparr>bd_crs := c\<rparr>) = Some (both_taken op, d\<lparr>bd_crs := c2\<rparr>)"
      "stack_inv P k (bd_proc_id d) c2" "\<not> op_off_path op \<longrightarrow> on_path c2" by auto
    with CF_ICO 1 i show ?thesis by (simp add: predict_type_def good_def bp_inv_def)
  next
    case CF_RET
    with ret i show ?thesis by (auto simp: predict_type_def good_def bp_inv_def)
  qed (use i path t in \<open>simp_all add: predict_type_def good_def bp_inv_def\<close>)
  then show ?thesis by (simp add: good_def)
qed

text \<open>A prediction: it returns an address of the core, when the confidence is not estimated.\<close>

lemma predict_op_total:
  assumes inv: "bp_inv k (bs_data s, bs_heap s, bs_world s)" and op: "op_own (bd_proc_id (bs_data s)) op"
    and path: "\<not> op_off_path op \<longrightarrow> on_path (bd_crs (bs_data s))" and conf: "\<not> ENABLE_BP_CONF P"
  shows "\<exists>pc op' s'. bp_predict_op P M cyc n a op s = Some (pc, op', s') \<and> bp_inv k (bs_data s', bs_heap s', bs_world s') \<and>
    bd_proc_id (bs_data s') = bd_proc_id (bs_data s) \<and> (\<not> op_off_path op \<longrightarrow> on_path (bd_crs (bs_data s')))"
proof -
  let ?d = "bs_data s" and ?h = "bs_heap s" and ?op = "predict_init n a (bs_data s) op"
  let ?pid = "bd_proc_id (bs_data s)"
  have i: "targets_inv P (?d, ?h)" "stack_inv P k ?pid (bd_crs ?d)" "ok (bs_world s)" "core ?pid" "?pid < 64"
    using inv by (simp_all add: bp_inv_def)
  have o: "op_proc_id op = ?pid" "op_cf_type op \<noteq> NOT_CF" "op_proc_id ?op = ?pid"
    using op op_own_init [of ?pid n a ?d op] by (simp_all add: op_own_def)
  obtain op1 w1 where 1: "both_bp bp_timestamp_func M ?op (bs_world s) = Some (op1, w1)" "ok w1"
    using timestamps_total [of "bs_world s" ?op] i(3,4) o(3) by auto
  obtain t where t: "crs_tos_addr P (bd_crs ?d) = Some t" by (rule crs_tos_total [OF i(2)])
  obtain op2 where 2: "predict_tos P ?d op1 = Some op2" "op_key op2 = op_key op1"
    using t by (cases "BP_HASH_TOS P \<or> IBTB_HASH_TOS P") (auto simp: predict_tos_def)
  have k2: "op_key op2 = op_key ?op" using 2(2) timestamps_key [OF 1(1)] by simp
  have own2: "op_own ?pid op2" using op_own_key [OF k2] op by simp
  have p2: "op_off_path op2 = op_off_path op" "op_cf_type op2 = op_cf_type op" using op_keyD(2,3) [OF k2] by simp_all
  have pid2: "op_proc_id op2 = ?pid" "proc_id_in_addr ?pid (oi_npc (op_oracle_info op2))"
    "proc_id_in_addr ?pid (oi_target (op_oracle_info op2))" using own2 by (simp_all add: op_own_def)
  show ?thesis
  proof (cases "op_cf_type op = CF_SYS")
    case True
    let ?npc = "oi_npc (op_oracle_info op2)"
    let ?op3 = "upd_oracle (\<lambda>o'. o'\<lparr>oi_pred := TAKEN, oi_misfetch := False, oi_mispred := False, oi_late_misfetch := False,
      oi_late_mispred := False, oi_btb_miss := False, oi_no_target := False, oi_pred_npc := ?npc, oi_late_pred_npc := ?npc\<rparr>) op2"
    obtain op' w' where "both_bp bp_spec_update_func M ?op3 w1 = Some (op', w')" "ok w'"
      using specs_total [OF 1(2), of ?op3] i(4) pid2(1) by auto
    then have "\<exists>pc op' w'. predict_sys M op2 (s\<lparr>bs_world := w1\<rparr>) = Some (pc, op', s\<lparr>bs_world := w'\<rparr>) \<and> ok w'"
      using pid2 by (auto simp: predict_sys_def Let_def)
    with True 1 2 o i path show ?thesis by (auto simp: bp_predict_op_def p2 bp_inv_def)
  next
    case False
    obtain t3 d3 where 3: "btb_pred_func (mech_btb M) op2 (?d, ?h) = Some (t3, d3, ?h)" "targets_inv P (d3, ?h)"
      "\<forall>a. t3 = Some a \<longrightarrow> proc_id_in_addr ?pid a"
      using btb_total.pred_total [OF btb_total i(1) pid2(3)] by blast
    note f3 = btb_frame.pred_data [OF btb_frame 3(1)]
    obtain ta op3 where b: "predict_btb (mech_btb M) op2 (?d, ?h) = Some (ta, op3, d3, ?h)" "op_key op3 = op_key op2"
      "proc_id_in_addr ?pid ta"
      using 3 pid2(3) by (cases t3) (simp_all add: predict_btb_def)
    have inv3: "bp_inv k (d3, ?h, w1)" using i 3(2) f3 1(2) by (simp add: bp_inv_def)
    have "op_own (bd_proc_id d3) op3" "\<not> op_off_path op3 \<longrightarrow> on_path (bd_crs d3)"
      using op_own_key [OF b(2)] own2 f3 op_keyD(3) [OF b(2)] p2 path by simp_all
    from predict_type_total [OF inv3 this, of ta] b(3) f3 obtain t4 op4 d4 h4 w4 where
      4: "predict_type P M ta op3 (d3, ?h, w1) = Some (t4, op4, d4, h4, w4)" "bp_inv k (d4, h4, w4)"
      "bd_proc_id d4 = ?pid" "\<not> op_off_path op \<longrightarrow> on_path (bd_crs d4)" "proc_id_in_addr ?pid t4"
      using op_keyD(3) [OF b(2)] p2 by auto
    have b4: "op_base op4 = op_base ?op"
      using predict_type_hist(1) [OF 4(1)] op_key_base [OF b(2)] op_key_base [OF k2] by simp
    obtain op5 w5 where 5: "both_bp bp_spec_update_func M op4 w4 = Some (op5, w5)" "ok w5"
      using specs_total [of w4 op4] 4(2,3) op_baseD(1) [OF b4] o(3) by (auto simp: bp_inv_def)
    have b5: "op_base op5 = op_base ?op" using op_key_base [OF specs_key [OF 5(1)]] b4 by simp
    have "op_own ?pid op5" using op_own_base [OF b5, of ?pid] op by simp
    then have "proc_id_in_addr ?pid (return_addr op5)" by (simp add: op_own_def return_addr_def)
    then have pc: "proc_id_in_addr ?pid (oi_pred_npc (op_oracle_info (predict_flags l t4 op5)))" for l
      using 4(5) by (simp add: predict_flags_def Let_def)
    have pid6: "op_proc_id (predict_flags l t4 op5) = ?pid" for l
      using op_baseD(1) [OF op_base_upd(5)] op_baseD(1) [OF b5] o(3) by simp
    have "bp_inv k (d4, h4, w5)" using 4(2) 5(2) by (simp add: bp_inv_def)
    with False 1 2 o b 4 5 pc pid6 conf show ?thesis
      by (simp add: bp_predict_op_def p2 predict_conf_def Let_def del: not_None_eq)
  qed
qed

lemma target_known_total:
  assumes inv: "bp_inv k (d, h, w)" and op: "op_own (bd_proc_id d) op"
    and ind: "op_cf_type op = CF_IBR \<or> op_cf_type op = CF_ICALL \<longrightarrow> \<not> oi_mispred (op_oracle_info op)"
  shows "\<exists>d' h'. bp_target_known_op P M op (d, h) = Some (d', h') \<and> bp_inv k (d', h', w) \<and>
    bd_proc_id d' = bd_proc_id d \<and> bd_crs d' = bd_crs d"
proof -
  have o: "op_proc_id op = bd_proc_id d" "op_cf_type op \<noteq> NOT_CF" "proc_id_in_addr (bd_proc_id d) (oi_target (op_oracle_info op))"
    using op by (simp_all add: op_own_def)
  have i: "targets_inv P (d, h)" using inv by (simp add: bp_inv_def)
  obtain d1 h1 where 1: "(if oi_btb_miss (op_oracle_info op) then btb_update_func (mech_btb M) op (d, h) else Some (d, h)) = Some (d1, h1)"
    "targets_inv P (d1, h1)" "bd_crs d1 = bd_crs d" "bd_proc_id d1 = bd_proc_id d"
    using btb_total.update_total [OF btb_total i o(1,3)] i by (cases "oi_btb_miss (op_oracle_info op)") auto
  show ?thesis
  proof (cases "(op_cf_type op = CF_ICALL \<or> op_cf_type op = CF_IBR) \<and> ENABLE_IBP P \<and> (IBTB_OFF_PATH_WRITES P \<or> \<not> op_off_path op)")
    case True
    with ind have "\<not> oi_mispred (op_oracle_info op)" by auto
    then obtain d2 h2 where "ibtb_update_func (mech_ibtb M) op (d1, h1) = Some (d2, h2)" "targets_inv P (d2, h2)"
      "bd_crs d2 = bd_crs d1" "bd_proc_id d2 = bd_proc_id d1"
      using ibtb_total.update_total [OF ibtb_total 1(2), of op] o 1(4) by auto
    with True 1 o inv show ?thesis by (auto simp: bp_target_known_op_def bp_inv_def)
  next
    case False
    with 1 o inv show ?thesis by (auto simp: bp_target_known_op_def bp_inv_def)
  qed
qed

text \<open>Updates keep the op's core.\<close>

lemma resolve_total:
  assumes inv: "bp_inv k (d, h, w)" and op: "op_own (bd_proc_id d) op" and conf: "\<not> ENABLE_BP_CONF P"
  shows "\<exists>op' w'. bp_resolve_op P M op (d, w) = Some (op', d, w') \<and> bp_inv k (d, h, w')"
proof (cases "\<not> UPDATE_BP_OFF_PATH P \<and> op_off_path op")
  case True
  with inv show ?thesis by (simp add: bp_resolve_op_def)
next
  case False
  have "\<exists>op' w'. both_bp bp_update_func M op w = Some (op', w') \<and> ok w'"
  proof (rule both_total)
    show "ok w" "core (op_proc_id op)" using inv op by (simp_all add: bp_inv_def op_own_def)
  qed (rule dir_total.update_total [OF totals], assumption+, rule dir_total.update_pid [OF main_total])
  with False inv conf show ?thesis by (auto simp: bp_resolve_op_def bp_inv_def)
qed

lemma retire_total:
  assumes inv: "bp_inv k (d, h, w)" and op: "op_own (bd_proc_id d) op"
  shows "\<exists>op' w'. bp_retire_op M op w = Some (op', w') \<and> bp_inv k (d, h, w')"
proof -
  have "\<exists>op' w'. both_bp bp_retire_func M op w = Some (op', w') \<and> ok w'"
  proof (rule both_total)
    show "ok w" "core (op_proc_id op)" using inv op by (simp_all add: bp_inv_def op_own_def)
  qed (rule dir_total.retire_total [OF totals], assumption+, rule dir_total.retire_pid [OF main_total])
  with inv show ?thesis by (simp add: bp_retire_op_def bp_inv_def)
qed

lemma recover_total:
  assumes inv: "bp_inv k (d, h, w)" and conf: "\<not> ENABLE_BP_CONF P"
  shows "\<exists>d' w'. bp_recover_op P M cf info (d, w) = Some (d', w') \<and> bp_inv k (d', h, w') \<and>
    bd_proc_id d' = bd_proc_id d \<and> on_path (bd_crs d')"
proof -
  let ?d1 = "d\<lparr>bd_global_hist := (if cf = CF_CBR then shift_hist (ri_pred_global_hist info) (ri_new_dir info)
    else ri_pred_global_hist info), bd_targ_hist := ri_targ_hist info\<rparr>"
  let ?d2 = "if cf = CF_ICALL \<or> cf = CF_IBR then ibtb_recover_func (mech_ibtb M) info ?d1 else ?d1"
  have i: "targets_inv P (d, h)" "stack_inv P k (bd_proc_id d) (bd_crs d)" "ok w" "core (bd_proc_id d)" "bd_proc_id d < 64"
    using inv by (simp_all add: bp_inv_def)
  have "targets_inv P (?d1, h)" using i(1) targets_inv_cong [of ?d1 d P h] by simp
  then have 2: "targets_inv P (?d2, h)" "bd_crs ?d2 = bd_crs d" "bd_proc_id ?d2 = bd_proc_id d"
    using ibtb_total.recover_total [OF ibtb_total, of info ?d1 h] by (auto split: if_splits)
  obtain w1 where w1: "bp_recover_func (mech_bp M) info w = Some w1" "ok w1"
    using dir_total.recover_total [OF main_total i(3)] by blast
  obtain w2 where w2: "recover_both M info w = Some w2" "ok w2"
  proof (cases "mech_late_bp M")
    case None
    with w1 show thesis by (intro that [of w1]) (simp_all add: recover_both_def)
  next
    case (Some B)
    with w1 dir_total.recover_total [OF late_total [OF Some] w1(2)] show thesis
      by (metis (no_types, lifting) bind.bind_lunit option.simps(5) recover_both_def that)
  qed
  have st: "stack_inv P k (bd_proc_id ?d2) (bd_crs ?d2)" unfolding 2(2,3) by (rule i(2))
  obtain c where c: "bp_crs_recover P ?d2 = Some (?d2\<lparr>bd_crs := c\<rparr>)" "stack_inv P k (bd_proc_id ?d2) c" "on_path c"
    using crs_recover_own [OF st] by blast
  have r: "CRS_REALISTIC P = 0" using i(2) by (simp add: stack_inv_def)
  have "bp_recover_op P M cf info (d, w) = Some (?d2\<lparr>bd_crs := c\<rparr>, w2)"
    unfolding bp_recover_op_def Let_def prod.case r w2(1) bind.bind_lunit c(1) using conf by simp
  moreover have "bp_inv k (?d2\<lparr>bd_crs := c\<rparr>, h, w2)"
    using i(4,5) 2 c(2) w2(2) by (simp add: bp_inv_def split del: if_split)
  moreover have "bd_proc_id (?d2\<lparr>bd_crs := c\<rparr>) = bd_proc_id d" using 2(3) by (simp split del: if_split)
  ultimately show ?thesis using c(3) by fastforce
qed

end


section \<open>Sequences of calls\<close>

datatype bp_event =
    Ev_Predict uns Addr Op
  | Ev_Target_Known Op
  | Ev_Resolve Op
  | Ev_Retire Op
  | Ev_Recover Cf_Type Recovery_Info

fun bp_step :: "bp_params \<Rightarrow> 'w bp_mechs \<Rightarrow> Counter \<Rightarrow> bp_event \<Rightarrow> 'w Bp_State \<Rightarrow> 'w Bp_State option" where
  "bp_step P M cyc (Ev_Predict n a op) s = map_option (\<lambda>(_, _, s). s) (bp_predict_op P M cyc n a op s)"
| "bp_step P M cyc (Ev_Target_Known op) s =
     map_option (\<lambda>(d, h). s\<lparr>bs_data := d, bs_heap := h\<rparr>) (bp_target_known_op P M op (bs_data s, bs_heap s))"
| "bp_step P M cyc (Ev_Resolve op) s =
     map_option (\<lambda>(_, d, w). s\<lparr>bs_data := d, bs_world := w\<rparr>) (bp_resolve_op P M op (bs_data s, bs_world s))"
| "bp_step P M cyc (Ev_Retire op) s = map_option (\<lambda>(_, w). s\<lparr>bs_world := w\<rparr>) (bp_retire_op M op (bs_world s))"
| "bp_step P M cyc (Ev_Recover cf info) s =
     map_option (\<lambda>(d, w). s\<lparr>bs_data := d, bs_world := w\<rparr>) (bp_recover_op P M cf info (bs_data s, bs_world s))"

fun bp_run ::
    "bp_params \<Rightarrow> hyb_params \<Rightarrow> conf_params \<Rightarrow> bp_choice \<Rightarrow> (Bp_Env \<times> bp_event) list \<Rightarrow> Bp_World Bp_State \<Rightarrow> Bp_World Bp_State option" where
  "bp_run P H Q K [] s = Some s"
| "bp_run P H Q K ((V, e) # es) s =
     Option.bind (bp_step P (bp_mechs_of P H Q K V) (be_cycle V) e s) (bp_run P H Q K es)"

text \<open>
  The calls of the pipeline: the ops belong to the core, after an op off the path only such ops are
  predicted until a recovery, and the direction of an indirect branch is never mispredicted.
\<close>

fun event_ok :: "uns \<Rightarrow> bool \<Rightarrow> bp_event \<Rightarrow> bool" where
  "event_ok pid off (Ev_Predict n a op) \<longleftrightarrow> op_own pid op \<and> (off \<longrightarrow> op_off_path op)"
| "event_ok pid off (Ev_Target_Known op) \<longleftrightarrow> op_own pid op \<and>
     (op_cf_type op = CF_IBR \<or> op_cf_type op = CF_ICALL \<longrightarrow> \<not> oi_mispred (op_oracle_info op))"
| "event_ok pid off (Ev_Resolve op) \<longleftrightarrow> op_own pid op"
| "event_ok pid off (Ev_Retire op) \<longleftrightarrow> op_own pid op"
| "event_ok pid off (Ev_Recover cf info) \<longleftrightarrow> True"

fun off_after :: "bool \<Rightarrow> bp_event \<Rightarrow> bool" where
  "off_after off (Ev_Predict n a op) = op_off_path op"
| "off_after off (Ev_Recover cf info) = False"
| "off_after off _ = off"

fun in_order :: "uns \<Rightarrow> bool \<Rightarrow> bp_event list \<Rightarrow> bool" where
  "in_order pid off [] \<longleftrightarrow> True"
| "in_order pid off (e # es) \<longleftrightarrow> event_ok pid off e \<and> in_order pid (off_after off e) es"

text \<open>Gshare for the main and perhaps the late predictor, any indirect predictor.\<close>

definition gshare_choice :: "bool \<Rightarrow> Ibtb_Id \<Rightarrow> Br_Conf_Id \<Rightarrow> bp_choice" where
  "gshare_choice late i c = \<lparr>BP_MECH = GSHARE_BP, LATE_BP_MECH = (if late then Some GSHARE_BP else None), IBTB_MECH = i, CONF_MECH = c\<rparr>"

definition front_ok :: "bp_params \<Rightarrow> nat \<Rightarrow> nat \<Rightarrow> Bp_World Bp_State \<Rightarrow> bool" where
  "front_ok P n k s \<longleftrightarrow> targets_inv P (bs_data s, bs_heap s) \<and> stack_inv P k (bd_proc_id (bs_data s)) (bd_crs (bs_data s)) \<and>
     gshare_ok P n (bs_world s) \<and> unat (bd_proc_id (bs_data s)) < n \<and> bd_proc_id (bs_data s) < 64"

lemma gshare_choice_total:
  "bp_total (bp_mechs_of P H Q (gshare_choice late i c) V) P (gshare_ok P n) (\<lambda>pid. unat pid < n)"
  by (rule bp_total.intro [OF bp_mechs_frames], rule bp_total_axioms.intro)
    (auto simp: bp_mechs_of_def gshare_choice_def gshare_total bp_btb_table_total bp_ibtb_table_total
      simp del: bp_table.simps split: if_splits)

interpretation front: bp_total "bp_mechs_of P H Q (gshare_choice late i c) V" P "gshare_ok P n" "\<lambda>pid. unat pid < n"
  for P H Q late i c V n
  by (rule gshare_choice_total)

lemma front_inv: "front.bp_inv P n k (bs_data s, bs_heap s, bs_world s) = front_ok P n k s"
  by (simp add: front.bp_inv_def front_ok_def)

lemma bp_step_total:
  assumes inv: "front_ok P n k s" and conf: "\<not> ENABLE_BP_CONF P" and e: "event_ok (bd_proc_id (bs_data s)) off e"
    and path: "\<not> off \<longrightarrow> on_path (bd_crs (bs_data s))"
  shows "\<exists>s'. bp_step P (bp_mechs_of P H Q (gshare_choice late i c) V) cyc e s = Some s' \<and> front_ok P n k s' \<and>
    bd_proc_id (bs_data s') = bd_proc_id (bs_data s) \<and> (\<not> off_after off e \<longrightarrow> on_path (bd_crs (bs_data s')))"
proof -
  let ?M = "bp_mechs_of P H Q (gshare_choice late i c) V"
  note i = inv [folded front_inv]
  show ?thesis
  proof (cases e)
    case (Ev_Predict m a op)
    with e path have "op_own (bd_proc_id (bs_data s)) op" "\<not> op_off_path op \<longrightarrow> on_path (bd_crs (bs_data s))" by auto
    from front.predict_op_total [OF i this conf, of H Q late i c V cyc m a] show ?thesis
      unfolding front_inv by (auto simp: Ev_Predict)
  next
    case (Ev_Target_Known op)
    with e have "op_own (bd_proc_id (bs_data s)) op"
      "op_cf_type op = CF_IBR \<or> op_cf_type op = CF_ICALL \<longrightarrow> \<not> oi_mispred (op_oracle_info op)" by auto
    from front.target_known_total [OF i this, of H Q late i c V] obtain d' h' where
      "bp_target_known_op P ?M op (bs_data s, bs_heap s) = Some (d', h')" "front.bp_inv P n k (d', h', bs_world s)"
      "bd_proc_id d' = bd_proc_id (bs_data s)" "bd_crs d' = bd_crs (bs_data s)" by blast
    with path show ?thesis by (simp add: Ev_Target_Known front_ok_def front.bp_inv_def)
  next
    case (Ev_Resolve op)
    with e have "op_own (bd_proc_id (bs_data s)) op" by simp
    from front.resolve_total [OF i this conf, of H Q late i c V] obtain op' w' where
      "bp_resolve_op P ?M op (bs_data s, bs_world s) = Some (op', bs_data s, w')"
      "front.bp_inv P n k (bs_data s, bs_heap s, w')" by blast
    with path show ?thesis by (simp add: Ev_Resolve front_ok_def front.bp_inv_def)
  next
    case (Ev_Retire op)
    with e have "op_own (bd_proc_id (bs_data s)) op" by simp
    from front.retire_total [OF i this, of H Q late i c V] obtain op' w' where
      "bp_retire_op ?M op (bs_world s) = Some (op', w')" "front.bp_inv P n k (bs_data s, bs_heap s, w')" by blast
    with path show ?thesis by (simp add: Ev_Retire front_ok_def front.bp_inv_def)
  next
    case (Ev_Recover cf info)
    from front.recover_total [OF i conf, of H Q late i c V cf info] obtain d' w' where
      "bp_recover_op P ?M cf info (bs_data s, bs_world s) = Some (d', w')" "front.bp_inv P n k (d', bs_heap s, w')"
      "bd_proc_id d' = bd_proc_id (bs_data s)" "on_path (bd_crs d')" by blast
    then show ?thesis by (simp add: Ev_Recover front_ok_def front.bp_inv_def)
  qed
qed

lemma bp_run_total:
  assumes "\<not> ENABLE_BP_CONF P"
  shows "front_ok P n k s \<Longrightarrow> in_order (bd_proc_id (bs_data s)) off (map snd es) \<Longrightarrow>
    \<not> off \<longrightarrow> on_path (bd_crs (bs_data s)) \<Longrightarrow>
    \<exists>s'. bp_run P H Q (gshare_choice late i c) es s = Some s' \<and> front_ok P n k s'"
proof (induction es arbitrary: s off)
  case Nil
  then show ?case by simp
next
  case (Cons x es)
  obtain V e where x: "x = (V, e)" by (cases x)
  have "event_ok (bd_proc_id (bs_data s)) off e" using Cons.prems(2) by (simp add: x)
  from bp_step_total [OF Cons.prems(1) assms this Cons.prems(3), of H Q late i c V "be_cycle V"] obtain s1 where
    1: "bp_step P (bp_mechs_of P H Q (gshare_choice late i c) V) (be_cycle V) e s = Some s1" "front_ok P n k s1"
    "bd_proc_id (bs_data s1) = bd_proc_id (bs_data s)" "\<not> off_after off e \<longrightarrow> on_path (bd_crs (bs_data s1))" by blast
  have "in_order (bd_proc_id (bs_data s1)) (off_after off e) (map snd es)" using Cons.prems(2) 1(3) by (simp add: x)
  from Cons.IH [OF 1(2) this 1(4)] 1(1) show ?case by (simp add: x)
qed


section \<open>The initial state\<close>

lemma init_sets_next:
  assumes "init_sets 8 u n ii m h = (ss, h')"
  shows "next_ptr h' = next_ptr h + m * n"
  using assms
proof (induction m arbitrary: ii h ss h')
  case (Suc m)
  obtain es h1 ss1 where e: "init_lines 8 (u ii) 0 n h = (es, h1)" "init_sets 8 u n (Suc ii) m h1 = (ss1, h')"
    using Suc.prems by (auto split: prod.splits)
  show ?case using Suc.IH [OF e(2)] init_lines_bufs(2) [OF e(1)] by simp
qed simp

text \<open>A new buffer is well formed, its lines are not valid, and older buffers are left alone.\<close>

lemma init_cache_buffer:
  assumes "0 < next_ptr h" "init_cache E u us up c0 name n assoc line_size 8 REPL_TRUE_LRU h = Some (c, h')"
  shows "buffer_ok pid c h'" "next_ptr h \<le> next_ptr h'" "\<forall>p < next_ptr h. bufs h' p = bufs h p"
    "set (concat (line_data c)) \<subseteq> {..<next_ptr h'}"
proof -
  note inv = init_cache_ok [OF assms] and own = init_cache_bufs(1) [OF assms(2) refl]
  obtain ss h1 where s: "init_sets 8 u (unat assoc) 0 (unat (n div line_size div assoc)) h = (ss, h1)" by fastforce
  have c: "cache_entries c = ss" "h' = h1"
    using assms s by (auto simp: init_cache_def Let_def split: if_splits)
  note lines = init_sets_ok [OF assms(1) s] and b = init_sets_bufs [OF s] and nx = init_sets_next [OF s]
  show "next_ptr h \<le> next_ptr h'" "\<forall>p < next_ptr h. bufs h' p = bufs h p" using b(3) nx by (simp_all add: c)
  show "set (concat (line_data c)) \<subseteq> {..<next_ptr h'}"
    using b(1) nx unfolding line_data_def c by (auto simp del: set_concat)
  have row: "cache_row c si \<in> set ss" if "si < length ss" for si using that by (simp add: cache_row_def c)
  have "\<not> ce_valid e" if "si < length ss" "e \<in> set (cache_row c si)" for si e using lines row [OF that(1)] that(2) by blast
  then have "lines_own pid c h'" by (fastforce simp: lines_own_def c)
  moreover have "0 \<notin> set (concat (line_data c))" using lines by (fastforce simp: line_data_def c)
  moreover have "cache_row c si \<noteq> []" if "si < length (cache_entries c)" for si
    using cache_row_ne [OF inv(1) that] by simp
  ultimately show "buffer_ok pid c h'"
    using inv own by (auto simp: buffer_ok_def tagged_ok_def cache_inv_def)
qed

text \<open>Memory allocated later does not touch a buffer.\<close>

lemma buffer_later:
  assumes "buffer_ok pid c h" "set (concat (line_data c)) \<subseteq> {..<next_ptr h}" "\<forall>p < next_ptr h. bufs h' p = bufs h p"
  shows "buffer_ok pid c h'"
proof -
  have eq: "bufs h' p = bufs h p" if "p \<in> set (concat (line_data c))" for p using that assms(2,3) by blast
  have "addr_buf h' p" if "p \<in> set (concat (line_data c))" for p
    using assms(1) that eq [OF that] by (auto simp: buffer_ok_def tagged_ok_def own_bufs_def addr_buf_def)
  then have "tagged_ok c h'" using assms(1) by (simp add: buffer_ok_def tagged_ok_def own_bufs_def)
  moreover have "lines_own pid c h'"
    unfolding lines_own_def
  proof (intro allI impI)
    fix si w assume w: "si < length (cache_entries c)" "w < length (cache_row c si)" "ce_valid (cache_row c si ! w)"
    have "line_data c ! si ! w \<in> set (concat (line_data c))"
      using w(1,2) by (intro nth_concat_ex) (simp_all add: line_data_def cache_row_def)
    then have "ce_data (cache_row c si ! w) \<in> set (concat (line_data c))"
      using w(1,2) by (simp only: line_data_def cache_row_def nth_map)
    then have "load_Addr (ce_data (cache_row c si ! w)) h' = load_Addr (ce_data (cache_row c si ! w)) h"
      using eq by (simp add: load_Addr_def)
    then show "\<exists>a. load_Addr (ce_data (cache_row c si ! w)) h' = Some a \<and> proc_id_in_addr pid a"
      using assms(1) w by (simp add: buffer_ok_def lines_own_def)
  qed
  ultimately show ?thesis by (simp add: buffer_ok_def)
qed

text \<open>The zeroed structure, as far as the mechanisms do not set it up.\<close>

definition zero_data :: "Bp_Data \<Rightarrow> bool" where
  "zero_data z \<longleftrightarrow> crs_depth (bd_crs z) = 0 \<and> crs_tail (bd_crs z) = 0 \<and> crs_tail_save (bd_crs z) = 0 \<and> crs_depth_save (bd_crs z) = 0"

definition knobs_ok :: "bp_params \<Rightarrow> nat \<Rightarrow> bool" where
  "knobs_ok P k \<longleftrightarrow> tc_len_ok P \<and> CRS_ENTRIES P = 2 ^ k \<and> k \<le> 7 \<and> CRS_REALISTIC P = 0 \<and> \<not> ENABLE_BP_CONF P"

lemma init_crs_inv:
  assumes "knobs_ok P k" "zero_data z"
  shows "stack_inv P k pid (init_crs (CRS_ENTRIES P) u (bd_crs z))" "on_path (init_crs (CRS_ENTRIES P) u (bd_crs z))"
proof -
  have n: "unat (2 ^ k :: uns) = 2 ^ k" using assms(1) by (simp add: knobs_ok_def unat_pow2)
  show "stack_inv P k pid (init_crs (CRS_ENTRIES P) u (bd_crs z))"
    using assms n by (simp add: stack_inv_def knobs_ok_def zero_data_def init_crs_def crs_ok_def crs_visible_def crs_saved_def stack_at_def)
  show "on_path (init_crs (CRS_ENTRIES P) u (bd_crs z))"
    using assms by (simp add: on_path_def zero_data_def init_crs_def)
qed

lemma init_front_ok:
  assumes init: "init_bp_data P (bp_mechs_of P H Q (gshare_choice late TC_HYBRID_IBTB c) V) pid u z (h, w) = Some (d, h', w')"
    and knobs: "knobs_ok P k" "zero_data z" and h: "0 < next_ptr h" and pid: "pid < 64" "unat pid < unat (num_cores (be_cache V))"
  shows "targets_inv P (d, h')" "stack_inv P k (ucast pid) (bd_crs d)" "gshare_ok P (unat (num_cores (be_cache V))) w'"
    "bd_proc_id d = ucast pid" "on_path (bd_crs d)"
proof -
  let ?n = "unat (num_cores (be_cache V))"
  let ?T = "(replicate ?n (replicate (2 ^ unat (HIST_LENGTH P)) (PHT_INIT_VALUE P)))"
  obtain cb hb ct where b: "init_cache (be_cache V) (be_lines V) (be_shadow V) (be_ways V) (bd_btb z) ''BTB'' (BTB_ENTRIES P) (BTB_ASSOC P)
      1 8 REPL_TRUE_LRU h = Some (cb, hb)"
    and t: "init_cache (be_cache V) (be_lines V) (be_shadow V) (be_ways V) (bd_tc_tagged z) ''TC'' (TC_ENTRIES P) (TC_ASSOC P)
      1 8 REPL_TRUE_LRU hb = Some (ct, h')"
    and len: "len_ok (HIST_LENGTH P)" "TARGETS_IN_HIST P \<noteq> 0"
    and d: "d = z\<lparr>bd_proc_id := ucast pid, bd_btb := cb, bd_crs := init_crs (CRS_ENTRIES P) u (bd_crs z),
        bd_tc_selector := replicate (2 ^ unat (IBTB_HIST_LENGTH P)) TC_SELECTOR_TAGLESS_WEAK,
        bd_tc_tagless := replicate (2 ^ unat (IBTB_HIST_LENGTH P)) 0, bd_tc_tagged := ct,
        bd_target_bit_length := ucast (IBTB_HIST_LENGTH P div TARGETS_IN_HIST P)\<rparr>"
    and w': "w' = w\<lparr>bw_gshare := ?T\<rparr>"
    using init knobs(1)
    by (auto simp: init_bp_data_def bp_mechs_of_def gshare_choice_def bind_eq_Some_conv bp_gshare_init_def bp_btb_table_def
        bp_btb_gen_init_def bp_ibtb_tc_hybrid_init_def knobs_ok_def Let_def split: if_splits)
  note cb = init_cache_buffer [OF h b]
  have hb: "0 < next_ptr hb" using h cb(2) by simp
  note ct = init_cache_buffer [OF hb t]
  have "buffer_ok (ucast pid) cb h'" by (rule buffer_later [OF cb(1,4) ct(3)])
  moreover have "hist_ok P d"
  proof -
    have "unat (ucast (IBTB_HIST_LENGTH P div TARGETS_IN_HIST P) :: uns8) \<le> unat (IBTB_HIST_LENGTH P div TARGETS_IN_HIST P)"
      by (rule unat_ucast_le)
    also have "\<dots> \<le> unat (IBTB_HIST_LENGTH P)" by (simp add: unat_div)
    also have "\<dots> < 31" using knobs(1) by (simp add: knobs_ok_def tc_len_ok_def word_less_nat_alt)
    finally show ?thesis by (simp add: hist_ok_def d word_less_nat_alt)
  qed
  ultimately show "targets_inv P (d, h')"
    using ct(1) knobs(1) by (simp add: targets_inv_def d tc_tables_ok_def knobs_ok_def hist_ok_def TC_SELECTOR_TAGLESS_WEAK_def TC_SELECTOR_TAGGED_STRONG_def)
  show "gshare_ok P ?n w'" using len(1) by (simp add: gshare_ok_def w')
  show "bd_proc_id d = ucast pid" by (simp add: d)
  show "stack_inv P k (ucast pid) (bd_crs d)" "on_path (bd_crs d)" using init_crs_inv [OF knobs] by (simp_all add: d)
qed

end
