(* ===== verification/Bp_Dir_Inv.thy ===== *)
theory Bp_Dir_Inv
  imports Bp_Run
begin

text \<open>
  Lemmas on the direction predictors: what gshare has learned after a run of equal outcomes, the ring of
  branches in flight as a list, and the indices of the hybrid predictor.
\<close>

section \<open>Saturating counters\<close>

lemma unat_mask_64: "n \<le> 64 \<Longrightarrow> unat (mask n :: 64 word) = 2 ^ n - 1"
proof -
  assume "n \<le> 64"
  then have "uint (mask n :: 64 word) = mask n" by (simp add: uint_mask_eq min_def)
  then show ?thesis by (simp add: mask_eq_exp_minus_1 nat_diff_distrib nat_power_eq flip: nat_uint_eq)
qed

lemma pht_next_taken:
  assumes b: "ctr_bits_ok P" and e: "unat e \<le> 2 ^ unat (PHT_CTR_BITS P) - 1" and d: "dir \<noteq> 0"
  shows "unat (pht_next P dir e) = min (2 ^ unat (PHT_CTR_BITS P) - 1) (Suc (unat e))"
proof -
  let ?n = "unat (PHT_CTR_BITS P)"
  have n: "?n \<le> 8" using b by (simp add: ctr_bits_ok_def word_le_nat_alt)
  then have "(2::nat) ^ ?n \<le> 2 ^ 8" by (intro power_increasing) simp_all
  then have lt: "(2::nat) ^ ?n \<le> 256" by simp
  have m: "unat (mask ?n :: 64 word) = 2 ^ ?n - 1" using unat_mask_64 [of ?n] n by simp
  have e64: "unat (ucast e :: 64 word) = unat e" using unsigned_less [where 'a = nat, of e] by (simp add: unsigned_ucast_eq take_bit_nat_eq_self)
  show ?thesis
  proof (cases "(ucast e :: 64 word) = mask ?n")
    case True
    then have "unat e = 2 ^ ?n - 1" using e64 m by metis
    moreover have "unat (ucast (mask ?n :: 64 word) :: 8 word) = 2 ^ ?n - 1" using m lt by (simp add: unsigned_ucast_eq take_bit_nat_eq_self)
    ultimately show ?thesis using d True by (simp add: pht_next_def SAT_INC_def)
  next
    case False
    then have ne: "unat e \<noteq> 2 ^ ?n - 1" using e64 m by (metis word_unat_eq_iff)
    then have "unat (ucast e + 1 :: 64 word) = Suc (unat e)" using e e64 lt by (simp add: unat_word_ariths)
    then have "unat (ucast (ucast e + 1 :: 64 word) :: 8 word) = Suc (unat e)" using e ne lt by (simp add: unsigned_ucast_eq take_bit_nat_eq_self)
    then show ?thesis using d False e ne by (simp add: pht_next_def SAT_INC_def)
  qed
qed

lemma pht_next_not_taken: "unat (pht_next P 0 e) = unat e - 1"
proof (cases "e = 0")
  case False
  then have "unat (e - 1) = unat e - 1" by (simp add: unat_minus_one)
  with False show ?thesis by (simp add: pht_next_def SAT_DEC_def)
qed (simp add: pht_next_def SAT_DEC_def)

text \<open>The counter after \<open>m\<close> equal outcomes.\<close>

lemma pht_iterate:
  assumes b: "ctr_bits_ok P" and e: "unat e \<le> 2 ^ unat (PHT_CTR_BITS P) - 1"
  shows "unat ((pht_next P dir ^^ m) e) = (if dir = 0 then unat e - m else min (2 ^ unat (PHT_CTR_BITS P) - 1) (unat e + m))"
proof (induction m)
  case 0
  then show ?case using e by simp
next
  case (Suc m)
  show ?case
  proof (cases "dir = 0")
    case True
    with Suc show ?thesis by (simp add: pht_next_not_taken)
  next
    case False
    then have le: "unat ((pht_next P dir ^^ m) e) \<le> 2 ^ unat (PHT_CTR_BITS P) - 1" using Suc by simp
    show ?thesis using pht_next_taken [OF b le False] Suc False by (simp add: min_def)
  qed
qed

lemma pht_high_pred:
  assumes b: "ctr_bits_ok P" and e: "unat e \<le> 2 ^ unat (PHT_CTR_BITS P) - 1"
  shows "pht_high P e AND 1 = (if 2 ^ (unat (PHT_CTR_BITS P) - 1) \<le> unat e then 1 else 0)"
proof -
  let ?k = "unat (PHT_CTR_BITS P) - 1"
  have n: "0 < unat (PHT_CTR_BITS P)" using b by (simp add: ctr_bits_ok_def word_less_nat_alt)
  have u: "unat (pht_high P e) = unat e div 2 ^ ?k" by (simp only: pht_high_def unat_drop_bit_eq) (simp only: drop_bit_eq_div)
  have "2 ^ unat (PHT_CTR_BITS P) = 2 * (2::nat) ^ ?k" using n by (cases "unat (PHT_CTR_BITS P)") simp_all
  then have lt: "unat e < 2 * 2 ^ ?k" using e by (simp add: less_Suc_eq_le [symmetric])
  show ?thesis
  proof (cases "2 ^ ?k \<le> unat e")
    case True
    then have "unat e div 2 ^ ?k = 1" using lt by (simp add: div_nat_eqI)
    then have "pht_high P e = 1" using u by (metis unat_1 word_unat_eq_iff)
    with True show ?thesis by simp
  next
    case False
    then have "pht_high P e = 0" using u by (simp add: unat_eq_0 [symmetric])
    with False show ?thesis by simp
  qed
qed

section \<open>What gshare learns\<close>

fun gshare_updates :: "bp_params \<Rightarrow> Op list \<Rightarrow> Bp_World \<Rightarrow> Bp_World option" where
  "gshare_updates P [] w = Some w"
| "gshare_updates P (op # ops) w = Option.bind (bp_gshare_update P op w) (\<lambda>(_, w). gshare_updates P ops w)"

definition counters_ok :: "bp_params \<Rightarrow> Bp_World \<Rightarrow> bool" where
  "counters_ok P w \<longleftrightarrow> ctr_bits_ok P \<and> (\<forall>t \<in> set (bw_gshare w). \<forall>e \<in> set t. unat e \<le> 2 ^ unat (PHT_CTR_BITS P) - 1)"

lemma gshare_updates_ok:
  assumes "gshare_ok P n w" "\<forall>op \<in> set ops. gshare_slot P op w = Some (k, ix) \<and> op_cf_type op = CF_CBR \<and> oi_dir (op_oracle_info op) = dir"
    and "k < length (bw_gshare w)" "ix < length (bw_gshare w ! k)"
  shows "\<exists>w'. gshare_updates P ops w = Some w' \<and> gshare_ok P n w' \<and>
    bw_gshare w' = (bw_gshare w)[k := (bw_gshare w ! k)[ix := (pht_next P dir ^^ length ops) (bw_gshare w ! k ! ix)]]"
  using assms
proof (induction ops arbitrary: w)
  case Nil
  then show ?case by simp
next
  case (Cons op ops)
  let ?w = "w\<lparr>bw_gshare := (bw_gshare w)[k := (bw_gshare w ! k)[ix := pht_next P dir (bw_gshare w ! k ! ix)]]\<rparr>"
  have u: "bp_gshare_update P op w = Some (op, ?w)" using Cons.prems(2) by (simp add: bp_gshare_update_def)
  have "gshare_slot P o' ?w = gshare_slot P o' w" for o'
    using Cons.prems(3) by (cases "unat (op_proc_id o') = k") (simp_all add: gshare_slot_def Let_def)
  then have "\<forall>op \<in> set ops. gshare_slot P op ?w = Some (k, ix) \<and> op_cf_type op = CF_CBR \<and> oi_dir (op_oracle_info op) = dir"
    using Cons.prems(2) by simp
  from Cons.IH [OF gshare_update_ok [OF Cons.prems(1,3)] this] Cons.prems(3,4) u show ?case
    by (simp add: funpow_swap1)
qed

section \<open>The ring of branches in flight as a list\<close>

definition cb_ok :: "nat \<Rightarrow> 'a Circular_Buffer \<Rightarrow> bool" where
  "cb_ok n b \<longleftrightarrow> n < 63 \<and> length (cb_buffer b) = 2 ^ n \<and> cb_buffer_size b = 2 ^ n \<and> cb_buffer_access_mask b = mask n \<and>
     unat (cb_size b) \<le> 2 ^ n \<and> cb_back b + 1 = cb_front b + cb_size b"

definition cb_list :: "'a Circular_Buffer \<Rightarrow> 'a list" where
  "cb_list b = map (\<lambda>j. cb_buffer b ! ((unat (cb_front b) + j) mod length (cb_buffer b))) [0..<unat (cb_size b)]"

text \<open>How many identifiers have been given out: below \<open>2 ^ 63\<close> they are not negative.\<close>

definition cb_given :: "'a Circular_Buffer \<Rightarrow> nat" where
  "cb_given b = unat (cb_front b) + unat (cb_size b)"

lemma length_cb_list [simp]: "length (cb_list b) = unat (cb_size b)"
  by (simp add: cb_list_def)

lemma sint_small_64: "unat (x :: 64 word) < 2 ^ 63 \<Longrightarrow> sint x = int (unat x)"
proof -
  assume "unat x < 2 ^ 63"
  then have "nat (uint x) < 2 ^ 63" by simp
  then have "uint x < int (2 ^ 63)" by (simp only: nat_less_iff [OF uint_ge_0])
  then have "uint x < 2 ^ 63" by simp
  then have "signed_take_bit 63 (uint x) = uint x"
    by (intro signed_take_bit_int_eq_self) (auto intro: order.trans [OF _ uint_ge_0])
  then show ?thesis by (simp add: sint_uint)
qed

lemma sint_order_64:
  fixes x y :: "64 word"
  assumes "unat x < 2 ^ 63" "unat y < 2 ^ 63"
  shows "sint x \<le> sint y \<longleftrightarrow> unat x \<le> unat y" "sint x < sint y \<longleftrightarrow> unat x < unat y"
  unfolding sint_small_64 [OF assms(1)] sint_small_64 [OF assms(2)] by (simp_all only: of_nat_le_iff of_nat_less_iff)

lemma cb_slot_live:
  assumes ok: "cb_ok n b" and g: "cb_given b < 2 ^ 63" and j: "j < unat (cb_size b)"
  shows "cb_slot b (cb_front b + of_nat j) = Some ((unat (cb_front b) + j) mod 2 ^ n)"
proof -
  let ?i = "cb_front b + of_nat j"
  have n: "n < 63" "length (cb_buffer b) = 2 ^ n" "cb_buffer_access_mask b = mask n" using ok by (simp_all add: cb_ok_def)
  have "unat (of_nat j :: 64 word) = j" using j g by (simp add: unat_of_nat cb_given_def)
  then have i: "unat ?i = unat (cb_front b) + j" using g j by (simp add: unat_word_ariths cb_given_def)
  have "cb_back b = cb_front b + cb_size b - 1" using ok by (simp add: cb_ok_def eq_diff_eq)
  moreover have "unat (cb_front b + cb_size b) = unat (cb_front b) + unat (cb_size b)"
    using g by (simp add: unat_word_ariths cb_given_def)
  ultimately have bk: "unat (cb_back b) = unat (cb_front b) + unat (cb_size b) - 1"
    using j unat_minus_one [of "cb_front b + cb_size b"] by (cases "cb_front b + cb_size b = 0") auto
  have k: "unat (?i AND mask n) = unat ?i mod 2 ^ n"
    by (simp only: take_bit_eq_mask [symmetric] unsigned_take_bit_eq) (simp only: take_bit_eq_mod)
  show ?thesis
    using g j n k i bk by (simp add: cb_slot_def Let_def sint_order_64 cb_given_def)
qed

lemma cb_list_nth: "j < unat (cb_size b) \<Longrightarrow> cb_list b ! j = cb_buffer b ! ((unat (cb_front b) + j) mod length (cb_buffer b))"
  by (simp add: cb_list_def)

lemma mod_add_inj:
  assumes "(f + i) mod k = (f + j) mod (k :: nat)" "i < k" "j < k"
  shows "i = j"
proof -
  have "i = j" if "(f + i) mod k = (f + j) mod k" "i \<le> j" "j < k" for i j
  proof -
    have "k dvd (f + j) - (f + i)" using that(1,2) mod_eq_dvd_iff_nat [of "f + i" "f + j" k] by simp
    then have "k dvd j - i" by simp
    then show "i = j" using that(2,3) by (auto dest: dvd_imp_le)
  qed
  then show ?thesis using assms by (metis nat_le_linear)
qed

lemma cb_put_live:
  assumes ok: "cb_ok n b" and g: "cb_given b < 2 ^ 63" and j: "j < unat (cb_size b)"
  shows "\<exists>b'. cb_put (cb_front b + of_nat j) f b = Some b' \<and> cb_ok n b' \<and> cb_list b' = (cb_list b)[j := f (cb_list b ! j)] \<and>
    cb_front b' = cb_front b \<and> cb_size b' = cb_size b"
proof -
  let ?k = "(unat (cb_front b) + j) mod 2 ^ n"
  let ?b = "b\<lparr>cb_buffer := (cb_buffer b)[?k := f (cb_buffer b ! ?k)]\<rparr>"
  have n: "length (cb_buffer b) = 2 ^ n" "unat (cb_size b) \<le> 2 ^ n" using ok by (simp_all add: cb_ok_def)
  have "cb_list ?b = (cb_list b)[j := f (cb_list b ! j)]"
  proof (rule nth_equalityI)
    fix i assume "i < length (cb_list ?b)"
    then have i: "i < unat (cb_size b)" by simp
    show "cb_list ?b ! i = (cb_list b)[j := f (cb_list b ! j)] ! i"
    proof (cases "i = j")
      case True
      with i j n show ?thesis by (simp add: cb_list_nth)
    next
      case False
      then have "(unat (cb_front b) + i) mod 2 ^ n \<noteq> ?k" using mod_add_inj [of "unat (cb_front b)" i "2 ^ n" j] i j n(2) by auto
      with False i j n show ?thesis by (simp add: cb_list_nth)
    qed
  qed simp
  moreover have "cb_ok n ?b" using ok by (simp add: cb_ok_def)
  ultimately show ?thesis using cb_slot_live [OF ok g j] by (simp add: cb_put_def)
qed

text \<open>The calls of the predictor: allocate and fill, forget everything after a branch, retire the oldest.\<close>

datatype 'a cb_event = Cb_In 'a | Cb_Squash nat | Cb_Retire

fun cb_step :: "'a cb_event \<Rightarrow> 'a Circular_Buffer \<Rightarrow> 'a Circular_Buffer option" where
  "cb_step (Cb_In x) b = Option.bind (cb_allocate_back b) (\<lambda>(i, b). cb_put i (\<lambda>_. x) b)"
| "cb_step (Cb_Squash j) b = cb_deallocate_after (cb_front b + of_nat j) b"
| "cb_step Cb_Retire b = cb_deallocate_front (cb_front b) b"

fun cb_run :: "'a cb_event list \<Rightarrow> 'a Circular_Buffer \<Rightarrow> 'a Circular_Buffer option" where
  "cb_run [] b = Some b"
| "cb_run (e # es) b = Option.bind (cb_step e b) (cb_run es)"

text \<open>The specification: a queue of at most \<open>N\<close> branches, youngest last.\<close>

fun cb_spec :: "nat \<Rightarrow> 'a cb_event list \<Rightarrow> 'a list \<Rightarrow> 'a list option" where
  "cb_spec N [] xs = Some xs"
| "cb_spec N (Cb_In x # es) xs = (if length xs < N then cb_spec N es (xs @ [x]) else None)"
| "cb_spec N (Cb_Squash j # es) xs = (if j < length xs then cb_spec N es (take (Suc j) xs) else None)"
| "cb_spec N (Cb_Retire # es) xs = (case xs of [] \<Rightarrow> None | _ # xs \<Rightarrow> cb_spec N es xs)"

lemma cb_size_small:
  assumes "cb_ok n b"
  shows "sint (cb_size b) < sint (cb_buffer_size b) \<longleftrightarrow> unat (cb_size b) < 2 ^ n" "0 < sint (cb_size b) \<longleftrightarrow> 0 < unat (cb_size b)"
proof -
  have n: "n < 63" "unat (cb_size b) \<le> 2 ^ n" "cb_buffer_size b = 2 ^ n" using assms by (simp_all add: cb_ok_def)
  have le: "(2::nat) ^ n \<le> 2 ^ 62" using n(1) power_increasing [of n 62 "2::nat"] by simp
  then have s: "unat (cb_size b) < 2 ^ 63" using n(2) by simp
  have "unat (of_nat (2 ^ n) :: 64 word) = 2 ^ n" using le by (simp only: unat_of_nat) simp
  then have u: "unat (cb_buffer_size b) = 2 ^ n" using n(3) by simp
  then have "unat (cb_buffer_size b) < 2 ^ 63" using le by simp
  with s u show "sint (cb_size b) < sint (cb_buffer_size b) \<longleftrightarrow> unat (cb_size b) < 2 ^ n" by (simp only: sint_order_64)
  show "0 < sint (cb_size b) \<longleftrightarrow> 0 < unat (cb_size b)" using sint_order_64(2) [of 0 "cb_size b"] s by simp
qed

lemma cb_in_step:
  assumes ok: "cb_ok n b" and g: "Suc (cb_given b) < 2 ^ 63" and room: "unat (cb_size b) < 2 ^ n"
  shows "\<exists>b'. cb_step (Cb_In x) b = Some b' \<and> cb_ok n b' \<and> cb_list b' = cb_list b @ [x] \<and> cb_given b' = Suc (cb_given b)"
proof -
  let ?b = "b\<lparr>cb_back := cb_back b + 1, cb_size := cb_size b + 1\<rparr>" and ?m = "unat (cb_size b)"
  have s: "unat (cb_size b + 1) = Suc ?m" using g by (simp add: unat_word_ariths cb_given_def)
  have ok': "cb_ok n ?b" using ok room s by (simp add: cb_ok_def)
  have g': "cb_given ?b < 2 ^ 63" using g s by (simp add: cb_given_def)
  obtain b' where b': "cb_put (cb_front ?b + of_nat ?m) (\<lambda>_. x) ?b = Some b'" "cb_ok n b'"
    "cb_list b' = (cb_list ?b)[?m := x]" "cb_front b' = cb_front ?b" "cb_size b' = cb_size ?b"
    using cb_put_live [OF ok' g', of ?m "\<lambda>_. x"] s by auto
  have "cb_list ?b = cb_list b @ [cb_buffer b ! ((unat (cb_front b) + ?m) mod length (cb_buffer b))]"
    using s by (simp add: cb_list_def)
  then have "cb_list b' = cb_list b @ [x]" using b'(3) by (metis length_cb_list list_update_length)
  moreover have "cb_back b + 1 = cb_front ?b + of_nat ?m" using ok by (simp add: cb_ok_def)
  ultimately show ?thesis
    using b' room cb_size_small [OF ok] s by (simp add: cb_allocate_back_def cb_given_def)
qed

lemma cb_in_full: "cb_ok n b \<Longrightarrow> \<not> unat (cb_size b) < 2 ^ n \<Longrightarrow> cb_step (Cb_In x) b = None"
  using cb_size_small(1) [of n b] by (simp add: cb_allocate_back_def)

lemma cb_squash_step:
  assumes ok: "cb_ok n b" and g: "cb_given b < 2 ^ 63" and j: "j < unat (cb_size b)"
  shows "\<exists>b'. cb_step (Cb_Squash j) b = Some b' \<and> cb_ok n b' \<and> cb_list b' = take (Suc j) (cb_list b) \<and> cb_given b' \<le> cb_given b"
proof -
  let ?i = "cb_front b + of_nat j"
  let ?b = "b\<lparr>cb_size := cb_size b - (cb_back b - ?i), cb_back := ?i\<rparr>"
  have bk: "cb_back b = cb_front b + cb_size b - 1" using ok by (simp add: cb_ok_def eq_diff_eq)
  have e: "cb_size ?b = of_nat (Suc j)" by (simp add: bk)
  have s: "unat (cb_size ?b) = Suc j" unfolding e using j g by (simp only: unat_of_nat) (simp add: cb_given_def)
  have "cb_ok n ?b" using ok s j by (simp add: cb_ok_def bk)
  moreover have "cb_list ?b = take (Suc j) (cb_list b)" using s j by (simp add: cb_list_def take_map min_def)
  moreover have "cb_given ?b \<le> cb_given b" using s j by (simp add: cb_given_def)
  moreover have "cb_step (Cb_Squash j) b = Some ?b"
    using cb_slot_live [OF ok g j] by (auto simp: cb_deallocate_after_def cb_slot_def Let_def split: if_splits)
  ultimately show ?thesis by blast
qed

lemma cb_retire_step:
  assumes ok: "cb_ok n b" and g: "cb_given b < 2 ^ 63" and j: "cb_list b = x # xs"
  shows "\<exists>b'. cb_step Cb_Retire b = Some b' \<and> cb_ok n b' \<and> cb_list b' = xs \<and> cb_given b' = cb_given b"
proof -
  let ?b = "b\<lparr>cb_front := cb_front b + 1, cb_size := cb_size b - 1\<rparr>"
  have l: "unat (cb_size b) = Suc (length xs)" using length_cb_list [of b] j by simp
  then have "cb_size b \<noteq> 0" by auto
  then have s: "unat (cb_size b - 1) = length xs" using l by (simp add: unat_minus_one)
  have f: "unat (cb_front b + 1) = Suc (unat (cb_front b))" using g l by (simp add: unat_word_ariths cb_given_def)
  have "cb_ok n ?b" using ok s l by (simp add: cb_ok_def)
  moreover have "cb_given ?b = cb_given b" using s f l by (simp add: cb_given_def)
  moreover have "cb_list ?b = tl (cb_list b)"
    using s l f by (simp add: cb_list_def map_tl [symmetric] upt_conv_Cons map_Suc_upt [symmetric] o_def del: upt_Suc)
  moreover have "cb_step Cb_Retire b = Some ?b"
    using l cb_size_small(2) [OF ok] by (simp add: cb_deallocate_front_def)
  ultimately show ?thesis using j by simp
qed

lemma cb_back_int:
  assumes ok: "cb_ok n b" and g: "cb_given b < 2 ^ 63"
  shows "sint (cb_back b) = int (unat (cb_front b) + unat (cb_size b)) - 1"
proof -
  have e: "cb_back b = cb_front b + cb_size b - 1" using ok by (simp add: cb_ok_def eq_diff_eq)
  have u: "unat (cb_front b + cb_size b) = unat (cb_front b) + unat (cb_size b)"
    using g by (simp add: unat_word_ariths cb_given_def)
  show ?thesis
  proof (cases "cb_front b + cb_size b = 0")
    case True
    then have "unat (cb_front b) + unat (cb_size b) = 0" using u by simp
    with True show ?thesis by (simp add: e)
  next
    case False
    then have "0 < unat (cb_front b + cb_size b)" using unat_gt_0 [of "cb_front b + cb_size b"] by blast
    then have "0 < unat (cb_front b) + unat (cb_size b)" unfolding u .
    moreover have "unat (cb_back b) = unat (cb_front b) + unat (cb_size b) - 1"
      unfolding e u [symmetric] by (rule unat_minus_one [OF False])
    moreover from this have "sint (cb_back b) = int (unat (cb_back b))" using g by (intro sint_small_64) (simp add: cb_given_def)
    ultimately show ?thesis by linarith
  qed
qed

lemma cb_squash_beyond:
  assumes ok: "cb_ok n b" and g: "cb_given b + j < 2 ^ 63" and j: "\<not> j < unat (cb_size b)"
  shows "cb_step (Cb_Squash j) b = None"
proof -
  have "unat (of_nat j :: 64 word) = j" using g by (simp add: unat_of_nat)
  then have u: "unat (cb_front b + of_nat j) = unat (cb_front b) + j" using g by (simp add: unat_word_ariths cb_given_def)
  then have "sint (cb_front b + of_nat j) = int (unat (cb_front b) + j)"
    using g sint_small_64 [of "cb_front b + of_nat j"] by (simp add: cb_given_def)
  moreover have "sint (cb_back b) = int (unat (cb_front b) + unat (cb_size b)) - 1" using g by (intro cb_back_int [OF ok]) simp
  ultimately have "\<not> sint (cb_front b + of_nat j) \<le> sint (cb_back b)" using j by (simp only:)
  then show ?thesis by (simp add: cb_deallocate_after_def)
qed

lemma cb_retire_empty: "cb_ok n b \<Longrightarrow> cb_list b = [] \<Longrightarrow> cb_step Cb_Retire b = None"
  using cb_size_small(2) [of n b] length_cb_list [of b] by (simp add: cb_deallocate_front_def)

text \<open>The ring is the queue: it takes the same calls, and holds the same branches after them.\<close>

lemma cb_run_refines:
  "cb_ok n b \<Longrightarrow> cb_given b + length es < 2 ^ 62 \<Longrightarrow> \<forall>j. Cb_Squash j \<in> set es \<longrightarrow> j < 2 ^ 62 \<Longrightarrow>
    map_option cb_list (cb_run es b) = cb_spec (2 ^ n) es (cb_list b)"
proof (induction es arbitrary: b)
  case Nil
  then show ?case by simp
next
  case (Cons e es)
  have g: "cb_given b < 2 ^ 63" "Suc (cb_given b) < 2 ^ 63" using Cons.prems(2) by simp_all
  have IH: "map_option cb_list (cb_run es b1) = cb_spec (2 ^ n) es (cb_list b1)" if "cb_ok n b1" "cb_given b1 \<le> Suc (cb_given b)" for b1
    using Cons.IH [OF that(1)] that(2) Cons.prems(2,3) by simp
  show ?case
  proof (cases e)
    case (Cb_In x)
    show ?thesis
    proof (cases "unat (cb_size b) < 2 ^ n")
      case True
      from cb_in_step [OF Cons.prems(1) g(2) True, of x] IH True show ?thesis by (auto simp: Cb_In simp del: cb_step.simps)
    next
      case False
      with cb_in_full [OF Cons.prems(1) False, of x] show ?thesis by (simp add: Cb_In del: cb_step.simps)
    qed
  next
    case (Cb_Squash j)
    show ?thesis
    proof (cases "j < unat (cb_size b)")
      case True
      obtain b1 where "cb_step (Cb_Squash j) b = Some b1" "cb_ok n b1" "cb_list b1 = take (Suc j) (cb_list b)" "cb_given b1 \<le> Suc (cb_given b)"
        using cb_squash_step [OF Cons.prems(1) g(1) True] le_SucI by blast
      with IH [of b1] True show ?thesis by (simp add: Cb_Squash del: cb_step.simps)
    next
      case False
      have "j < 2 ^ 62" using Cons.prems(3) by (auto simp: Cb_Squash)
      then have "cb_given b + j < 2 ^ 63" using Cons.prems(2) by simp
      from cb_squash_beyond [OF Cons.prems(1) this False] False show ?thesis by (simp add: Cb_Squash del: cb_step.simps)
    qed
  next
    case Cb_Retire
    show ?thesis
    proof (cases "cb_list b")
      case Nil
      with cb_retire_empty [OF Cons.prems(1)] show ?thesis by (simp add: Cb_Retire del: cb_step.simps)
    next
      case (Cons x xs)
      from cb_retire_step [OF Cons.prems(1) g(1) Cons] IH Cons show ?thesis by (auto simp: Cb_Retire simp del: cb_step.simps)
    qed
  qed
qed

text \<open>A new ring: its size is the power of two that the constructor finds.\<close>

lemma bits_from_enough: "x \<le> 2 ^ bits_from x n"
proof (induction x n rule: bits_from.induct)
  case (1 x n)
  then show ?case by (cases "x \<le> 2 ^ n") (simp_all add: bits_from.simps [of x n])
qed

lemma cb_new_ok:
  assumes "cb_new z m = Some b"
  shows "cb_ok (get_min_num_bits_to_represent m) b" "cb_list b = []" "cb_given b = 0" "m \<le> 2 ^ get_min_num_bits_to_represent m"
proof -
  let ?n = "get_min_num_bits_to_represent m"
  have n: "?n < 31" using assms by (cases "31 \<le> ?n") (simp_all add: cb_new_def Let_def)
  have b: "b = \<lparr>cb_buffer = replicate (2 ^ ?n) z, cb_buffer_size = 2 ^ ?n, cb_buffer_access_mask = 2 ^ ?n - 1,
      cb_back = - 1, cb_front = 0, cb_size = 0\<rparr>"
    using assms by (auto simp: cb_new_def Let_def split: if_splits)
  show "cb_ok ?n b" using n by (simp add: cb_ok_def b mask_eq_exp_minus_1)
  show "cb_list b = []" "cb_given b = 0" by (simp_all add: b cb_list_def cb_given_def)
  show "m \<le> 2 ^ ?n" unfolding get_min_num_bits_to_represent_def by (rule bits_from_enough)
qed

section \<open>The indices of the hybrid predictor\<close>

lemma ucast_and_mask_lt: "k \<le> m \<Longrightarrow> unat (ucast ((x :: uns64) AND mask k) :: uns32) < 2 ^ m"
proof -
  assume k: "k \<le> m"
  have "unat (ucast (x AND mask k) :: uns32) \<le> unat (x AND mask k)" by (rule unat_ucast_le)
  also have "\<dots> < 2 ^ k" by (simp add: unsigned_take_bit_eq flip: take_bit_eq_mask)
  also have "\<dots> \<le> 2 ^ m" using k by (intro power_increasing) simp_all
  finally show ?thesis .
qed

lemma or_lt: "unat (x :: 'a::len word) < 2 ^ n \<Longrightarrow> unat y < 2 ^ n \<Longrightarrow> unat (x OR y) < 2 ^ n"
  by (simp add: unsigned_or_eq flip: take_bit_nat_eq_self_iff)

lemma cook_gindex_lt: "unat (cook_gindex hist a len f) < 2 ^ len"
  unfolding cook_gindex_def N_BIT_MASK_mask
  by (intro or_lt ucast_and_mask_lt) simp_all

lemma cook_pindex_lt: "unat (cook_pindex hist a len 2) < 2 ^ len"
proof -
  let ?k = "len div 2"
  have eq: "(x :: uns64) AND push_bit ?k (mask ?k) = (x AND push_bit ?k (mask ?k)) AND mask len" for x
  proof (rule bit_word_eqI)
    fix n assume "n < LENGTH(64)"
    show "bit (x AND push_bit ?k (mask ?k)) n = bit ((x AND push_bit ?k (mask ?k)) AND mask len) n"
      by (auto simp: bit_and_iff bit_push_bit_iff bit_mask_iff)
  qed
  have 3: "unat (ucast ((x :: uns64) AND push_bit ?k (mask ?k)) :: uns32) < 2 ^ len" for x
    by (subst eq) (rule ucast_and_mask_lt [OF order_refl])
  show ?thesis
    unfolding cook_pindex_def Let_def N_BIT_MASK_mask
    by (intro or_lt xor_lt ucast_and_mask_lt 3) simp_all
qed

lemma cook_addr_lt: "unat (cook_addr a n) < 2 ^ n"
  unfolding cook_addr_def N_BIT_MASK_mask by (rule ucast_and_mask_lt) simp

definition hyb_tables_ok :: "hyb_params \<Rightarrow> Hybridgp_State \<Rightarrow> bool" where
  "hyb_tables_ok H y \<longleftrightarrow> length (hy_spht y) = 2 ^ unat (HYBRIDS_INDEX_LENGTH H) \<and>
     length (hy_gpht y) = 2 ^ unat (HYBRIDG_HIST_LENGTH H) \<and> length (hy_ppht y) = 2 ^ unat (HYBRIDP_HIST_LENGTH H) \<and>
     length (hy_filter y) = 2 ^ unat (FILTER_INDEX_LENGTH H)"

lemma hyb_slots_total: "hyb_tables_ok H y \<Longrightarrow> \<exists>ix. hyb_slots H op phist y = Some ix"
  by (simp add: hyb_slots_def hyb_tables_ok_def Let_def cook_indices_def cook_gindex_lt cook_pindex_lt cook_addr_lt)

lemma hyb_update_tables: "hyb_tables_ok H (update_all_phts P H op ix y) = hyb_tables_ok H y"
  by (simp add: hyb_tables_ok_def update_all_phts_def Let_def)

end
