(* ===== verification/Bp_Front_Props.thy ===== *)
theory Bp_Front_Props
  imports Bp_Dir_Inv Bp_Props
begin

text \<open>
  The properties of the whole branch predictor: the calls of the pipeline, the flags of a prediction, the
  global history through a recovery, the choice of the op that recovers, what gshare learns and the ring of
  the branches in flight. The witnesses use one core with gshare, a branch target buffer of two lines and a
  call return stack of two entries.
\<close>

section \<open>A small front end\<close>

definition bp_front :: bp_params where
  "bp_front = bp_small\<lparr>ENABLE_BP_CONF := False\<rparr>"

definition hyb_small :: hyb_params where
  "hyb_small = \<lparr>BHT_ENTRIES = 2, BHT_ASSOC = 2, HYBRIDS_INDEX_LENGTH = 4, HYBRIDG_HIST_LENGTH = 4, HYBRIDP_HIST_LENGTH = 4,
     FILTER_INDEX_LENGTH = 4, USE_FILTER = True, NODE_TABLE_SIZE = 4, DECODE_CYCLES = 1\<rparr>"

definition flight_0 :: Hybridgp_In_Flight_State where
  "flight_0 = \<lparr>if_updated_local_history = False, if_pred_phist = 0, if_bht_addr = 0\<rparr>"

definition front_env :: Bp_Env where
  "front_env = \<lparr>be_cache = env_at 5, be_cycle = 9, be_lines = \<lambda>_ _. line_ex 0 0 0, be_shadow = \<lambda>_ _. line_ex 0 0 0, be_ways = \<lambda>_. 0,
     be_opc = \<lambda>_. \<lparr>opc_off_path = False, opc_mispred = False, opc_pred_conf = False, opc_verified = False, opc_op_num = 0\<rparr>,
     be_bht = tc_ex [], be_in_flight = flight_0, be_hist = 0, be_misp_hist = 0\<rparr>"

definition world_0 :: Bp_World where
  "world_0 = \<lparr>bw_gshare = replicate 2 (replicate 16 2), bw_hybridgp = [], bw_heap = tc_heap,
     bw_bpc = \<lparr>bpc_ctr_table = [], bpc_opc_table = [], bpc_count = 0, bpc_head = 0, bpc_tail = 0\<rparr>,
     bw_perceptron = \<lparr>conf_pt = [], pc_global_hist = 0, pc_global_misp_hist = 0\<rparr>\<rparr>"

definition front_0 :: "Bp_World Bp_State" where
  "front_0 = \<lparr>bs_data = bp_0, bs_heap = tc_heap, bs_world = world_0, bs_low_conf_count = 0, bs_corrpred_counter = 0,
     bs_mispred_counter = 0\<rparr>"

abbreviation front_mechs :: "Bp_World bp_mechs" where
  "front_mechs \<equiv> bp_mechs_of bp_front hyb_small conf_small (gshare_choice False TC_HYBRID_IBTB ONPATH_CONF) front_env"

text \<open>A conditional branch that is taken to the address 100.\<close>

definition cbr_ex :: Op where
  "cbr_ex = upd_oracle (\<lambda>o'. o'\<lparr>oi_dir := 1, oi_npc := 100\<rparr>) ((op_ex 16 100 False)\<lparr>op_cf_type := CF_CBR\<rparr>)"

lemma bp_front_sel [simp]:
  "\<not> ENABLE_BP_CONF bp_front" "CRS_ENTRIES bp_front = 2" "CRS_REALISTIC bp_front = 0" "tc_len_ok bp_front" "hist_ok bp_front bp_0"
  "HIST_LENGTH bp_front = 4" "PHT_CTR_BITS bp_front = 2" "IBTB_HIST_LENGTH bp_front = 4"
  by (simp_all add: bp_front_def bp_small_def tc_len_ok_def hist_ok_def)

lemma cbr_ex_sel [simp]:
  "op_proc_id cbr_ex = 0" "op_cf_type cbr_ex = CF_CBR" "op_off_path cbr_ex = False" "oi_dir (op_oracle_info cbr_ex) = 1"
  "oi_npc (op_oracle_info cbr_ex) = 100" "op_op_num cbr_ex = 1" "oi_pred_addr (op_oracle_info cbr_ex) = 16"
  "oi_recovery_sch (op_oracle_info cbr_ex) = False"
  by (simp_all add: cbr_ex_def op_ex_def info_0_def)

lemma own_0: "x < 0x400000000000000 \<Longrightarrow> proc_id_in_addr 0 x"
proof -
  assume "x < 0x400000000000000"
  then have "unat x < 2 ^ 58" by (simp add: word_less_nat_alt)
  then have "unat (drop_bit 58 x) = 0" by (simp only: unat_drop_bit_eq) (simp add: drop_bit_eq_div)
  then have "drop_bit 58 x = 0" by (simp only: unat_eq_zero)
  then show ?thesis by (simp add: proc_id_in_addr_def get_proc_id_from_cmp_addr_def)
qed

lemma op_ex_own: "op_own 0 (op_ex a t off)" if "a < 1000" "t < 1000"
proof -
  have "a < 0x400000000000000" "t < 0x400000000000000" using that by (simp_all add: word_less_nat_alt)
  then show ?thesis by (simp add: op_own_def op_ex_def info_0_def own_0)
qed

lemma cbr_ex_own: "op_own 0 cbr_ex"
  by (simp add: op_own_def cbr_ex_def op_ex_def info_0_def own_0)

lemma front_0_ok: "front_ok bp_front 2 1 front_0"
proof -
  have t: "tagged_ok (tc_ex tc_rows) tc_heap"
    by (simp add: tagged_ok_def own_bufs_def line_data_def)
  have l: "lines_own 0 (tc_ex tc_rows) tc_heap"
    by (auto simp: lines_own_def less_Suc_eq numeral_2_eq_2)
  have "targets_inv bp_front (bp_0, tc_heap)"
    using t l by (simp add: targets_inv_def tc_tables_ok_def buffer_ok_def)
      (simp add: bp_0_def TC_SELECTOR_TAGLESS_WEAK_def TC_SELECTOR_TAGGED_STRONG_def)
  moreover have "stack_inv bp_front 1 0 crs_0"
    using crs_0_ok by (simp add: stack_inv_def del: One_nat_def)
  ultimately show ?thesis
    by (simp add: front_ok_def front_0_def world_0_def gshare_ok_def len_ok_def)
qed


section \<open>The calls of the pipeline\<close>

text \<open>C11: In the configuration of \<^verbatim>\<open>knobs_ok\<close> the calls of the pipeline never fail an assertion, never index
  out of range and always return: from the initial state, any sequence of predictions, targets found,
  resolutions, retirements and recoveries of the core's ops in which the ops after a wrong path wait for its
  recovery runs to its end. The configuration: gshare as the main, and perhaps the late, predictor; the hybrid
  target cache with an \<^verbatim>\<open>IBTB_HIST_LENGTH\<close> of 1 to 30; the ideal call return stack (\<^verbatim>\<open>CRS_REALISTIC\<close> 0) with a
  \<^verbatim>\<open>CRS_ENTRIES\<close> that is a power of two and at most 128; confidence estimation off (\<^verbatim>\<open>ENABLE_BP_CONF\<close> FALSE);
  and a core number below 64. The defaults of \<^verbatim>\<open>bp.param.def\<close> for these four knobs (16, 0, 32, FALSE) are of this
  kind. Outside it the claim may fail: with more than 255 entries a recovery of the stack does not end
  (\<open>crs_recover_ends_iff\<close>). The environment, with the time and what new memory holds, is different for each
  call.\<close>

theorem bp_calls_never_stop:
  assumes "init_bp_data P (bp_mechs_of P H Q (gshare_choice late TC_HYBRID_IBTB c) V) pid u z (h, w) = Some (d, h', w')"
    and "knobs_ok P k" "zero_data z" "0 < next_ptr h" "pid < 64" "unat pid < unat (num_cores (be_cache V))"
    and "bs_data s = d" "bs_heap s = h'" "bs_world s = w'" "in_order (ucast pid) False (map snd es)"
  shows "\<exists>s'. bp_run P H Q (gshare_choice late TC_HYBRID_IBTB c) es s = Some s'"
proof -
  let ?n = "unat (num_cores (be_cache V))"
  note i = init_front_ok [OF assms(1-6)]
  have "unat pid < 64" using assms(5) by (simp add: word_less_nat_alt)
  then have pid: "unat (ucast pid :: uns) = unat pid" by (simp add: unsigned_ucast_eq take_bit_nat_eq_self)
  then have "(ucast pid :: uns) < 64" using assms(5) by (simp add: word_less_nat_alt)
  then have "front_ok P ?n k s" using i assms(6-9) pid by (simp add: front_ok_def)
  moreover have "\<not> ENABLE_BP_CONF P" using assms(2) by (simp add: knobs_ok_def)
  ultimately show ?thesis
    using bp_run_total [of P ?n k s False es H Q late TC_HYBRID_IBTB c] i(4,5) assms(7,10) by auto
qed

lemma front_init: "\<exists>d h' w'. init_bp_data bp_front front_mechs 0 (\<lambda>_. \<lparr>cr_addr = 7, cr_op_num = 0, cr_nos = 0\<rparr>) bp_0 (tc_heap, world_0) =
    Some (d, h', w')"
  by (auto simp: init_bp_data_def bp_mechs_of_def gshare_choice_def bp_gshare_init_def bp_btb_table_def bp_btb_gen_init_def
      bp_ibtb_tc_hybrid_init_def bp_ibtb_tc_tagged_init_def init_cache_def len_ok_def bp_front_def bp_small_def Let_def split: prod.splits)

theorem bp_calls_never_stop_witness:
  "\<exists>d h' w' s'. init_bp_data bp_front front_mechs 0 (\<lambda>_. \<lparr>cr_addr = 7, cr_op_num = 0, cr_nos = 0\<rparr>) bp_0 (tc_heap, world_0) =
      Some (d, h', w') \<and>
    bp_run bp_front hyb_small conf_small (gshare_choice False TC_HYBRID_IBTB ONPATH_CONF)
      [(front_env, Ev_Predict 0 16 (op_ex 16 100 False)), (front_env, Ev_Predict 1 20 (op_ex 20 200 True)),
       (front_env, Ev_Target_Known (op_ex 16 100 False)), (front_env, Ev_Resolve (op_ex 16 100 False)),
       (front_env, Ev_Recover CF_IBR recovery_0), (front_env, Ev_Predict 0 16 (op_ex 16 100 False))]
      (front_0\<lparr>bs_data := d, bs_heap := h', bs_world := w'\<rparr>) = Some s'"
proof -
  obtain d h' w' where i: "init_bp_data bp_front front_mechs 0 (\<lambda>_. \<lparr>cr_addr = 7, cr_op_num = 0, cr_nos = 0\<rparr>) bp_0 (tc_heap, world_0) =
      Some (d, h', w')" using front_init by blast
  have "knobs_ok bp_front 1" "zero_data bp_0" "0 < next_ptr tc_heap" "unat (0 :: uns8) < unat (num_cores (be_cache front_env))"
    by (simp_all add: knobs_ok_def zero_data_def crs_0_def tc_heap_def front_env_def)
  then have "\<exists>s'. bp_run bp_front hyb_small conf_small (gshare_choice False TC_HYBRID_IBTB ONPATH_CONF)
      [(front_env, Ev_Predict 0 16 (op_ex 16 100 False)), (front_env, Ev_Predict 1 20 (op_ex 20 200 True)),
       (front_env, Ev_Target_Known (op_ex 16 100 False)), (front_env, Ev_Resolve (op_ex 16 100 False)),
       (front_env, Ev_Recover CF_IBR recovery_0), (front_env, Ev_Predict 0 16 (op_ex 16 100 False))]
      (front_0\<lparr>bs_data := d, bs_heap := h', bs_world := w'\<rparr>) = Some s'"
    using op_ex_own [of 16 100 False] op_ex_own [of 20 200 True]
    by (intro bp_calls_never_stop [OF i]) simp_all
  with i show ?thesis by blast
qed

text \<open>C13: What a prediction tells the fetch stage is exact. The op is marked as mispredicted when the direction
  and the next address are wrong, as misfetched when only the next address is; so it has one of the two
  marks exactly when fetch goes on from a wrong address, and never both. A branch predicted not taken goes
  on with the next instruction, and the address is in the core's space.\<close>

theorem prediction_flags_exact:
  assumes "bp_predict_op P (bp_mechs_of P H Q K V) cyc n a op s = Some (pc, op', s')" "op_cf_type op \<noteq> CF_SYS"
  shows "(oi_mispred (op_oracle_info op') \<or> oi_misfetch (op_oracle_info op')) = (pc \<noteq> oi_npc (op_oracle_info op)) \<and>
    \<not> (oi_mispred (op_oracle_info op') \<and> oi_misfetch (op_oracle_info op')) \<and>
    (oi_mispred (op_oracle_info op') \<longrightarrow> oi_pred (op_oracle_info op') \<noteq> oi_dir (op_oracle_info op)) \<and>
    (oi_misfetch (op_oracle_info op') \<longrightarrow> oi_pred (op_oracle_info op') = oi_dir (op_oracle_info op)) \<and>
    (oi_pred (op_oracle_info op') = 0 \<longrightarrow> pc = return_addr op) \<and>
    proc_id_in_addr (op_proc_id op) pc \<and> oi_pred_npc (op_oracle_info op') = pc"
  using mechs.predict_op_ok [OF assms] by auto

theorem prediction_flags_exact_witness:
  "\<exists>pc op' s'. bp_predict_op bp_front front_mechs 7 0 16 cbr_ex front_0 = Some (pc, op', s') \<and>
    (oi_mispred (op_oracle_info op') \<or> oi_misfetch (op_oracle_info op')) = (pc \<noteq> 100)"
proof -
  have "front.bp_inv bp_front 2 1 (bs_data front_0, bs_heap front_0, bs_world front_0)" using front_0_ok by (simp only: front_inv)
  from front.predict_op_total [OF this, of cbr_ex hyb_small conf_small False TC_HYBRID_IBTB ONPATH_CONF front_env 7 0 16]
  obtain pc op' s' where p: "bp_predict_op bp_front front_mechs 7 0 16 cbr_ex front_0 = Some (pc, op', s')"
    using cbr_ex_own crs_0_ok(2) by (auto simp: front_0_def)
  with prediction_flags_exact [OF p] show ?thesis by auto
qed


section \<open>Recovery\<close>

text \<open>C12: The global history survives a wrong path. When a mispredicted op is the one that recovers, the
  recovery leaves the history that was there before the op's own prediction, with the op's true direction
  shifted in if it is a conditional branch, whatever was predicted, updated or recovered in between and
  whatever else changed in the op.\<close>

theorem global_history_recovers:
  assumes "bp_predict_op P (bp_mechs_of P H Q K V) cyc n a op s = Some (pc, op', s')" "op_cf_type op \<noteq> CF_SYS"
    and "ops p = Some op1" "op_recovery_info op1 = op_recovery_info op'" "op_cf_type op1 = op_cf_type op'"
    and "bri_recovery_cycle ri = MAX_CTR" "bp_sched_recovery P p cycle late False (ri, ops) = Some (ri', ops')"
    and "bp_recover_op P (bp_mechs_of P H Q K V') (bri_recovery_cf_type ri') (bri_recovery_info ri') (d, w) = Some (d', w')"
  shows "bd_global_hist d' = (if op_cf_type op = CF_CBR
    then shift_hist (bd_global_hist (bs_data s)) (oi_dir (op_oracle_info op)) else bd_global_hist (bs_data s))"
proof -
  have b: "op_base op' = op_base (predict_init n a (bs_data s) op)" by (rule mechs.predict_op_ok(1) [OF assms(1,2)])
  have "ri' = sched_recovery_info P p op1 cycle late False ri"
    using assms(3,6,7) by (auto simp: bp_sched_recovery_def split: if_splits)
  then have "bri_recovery_cf_type ri' = op_cf_type op'" "ri_pred_global_hist (bri_recovery_info ri') = ri_pred_global_hist (op_recovery_info op')"
    "ri_new_dir (bri_recovery_info ri') = ri_new_dir (op_recovery_info op')"
    using assms(4,5) by (simp_all add: sched_recovery_info_def Let_def)
  then show ?thesis
    using mechs.recover_hist [OF assms(8)] op_baseD(2,8,9) [OF b] by (simp add: predict_init_def Let_def)
qed

theorem global_history_recovers_witness:
  "\<exists>pc op' s' ri' ops' d' w'. bp_predict_op bp_front front_mechs 7 0 16 cbr_ex front_0 = Some (pc, op', s') \<and>
    bp_sched_recovery bp_front 3 9 False False (init_bp_recovery_info 0, [3 \<mapsto> upd_oracle (\<lambda>o'. o'\<lparr>oi_recovery_sch := False\<rparr>) op']) = Some (ri', ops') \<and>
    bp_recover_op bp_front front_mechs (bri_recovery_cf_type ri') (bri_recovery_info ri') (bs_data s', bs_world s') = Some (d', w') \<and>
    bd_global_hist d' = 0x80000002"
proof -
  let ?ri = "init_bp_recovery_info 0"
  have "front.bp_inv bp_front 2 1 (bs_data front_0, bs_heap front_0, bs_world front_0)" using front_0_ok by (simp only: front_inv)
  from front.predict_op_total [OF this, of cbr_ex hyb_small conf_small False TC_HYBRID_IBTB ONPATH_CONF front_env 7 0 16]
  obtain pc op' s' where p: "bp_predict_op bp_front front_mechs 7 0 16 cbr_ex front_0 = Some (pc, op', s')"
    and inv: "front.bp_inv bp_front 2 1 (bs_data s', bs_heap s', bs_world s')"
    using cbr_ex_own crs_0_ok(2) by (auto simp: front_0_def)
  have b: "op_base op' = op_base (predict_init 0 16 (bs_data front_0) cbr_ex)" by (rule mechs.predict_op_ok(1) [OF p]) simp
  obtain ri' ops' where r: "bp_sched_recovery bp_front 3 9 False False (?ri, [3 \<mapsto> upd_oracle (\<lambda>o'. o'\<lparr>oi_recovery_sch := False\<rparr>) op']) = Some (ri', ops')"
    using op_baseD(1) [OF b]
    by (auto simp: bp_sched_recovery_def init_bp_recovery_info_def predict_init_def Let_def)
  obtain d' w' where d: "bp_recover_op bp_front front_mechs (bri_recovery_cf_type ri') (bri_recovery_info ri') (bs_data s', bs_world s') = Some (d', w')"
    using front.recover_total [OF inv, of hyb_small conf_small False TC_HYBRID_IBTB ONPATH_CONF front_env "bri_recovery_cf_type ri'" "bri_recovery_info ri'"]
    by auto
  have "bd_global_hist d' = 0x80000002"
    using global_history_recovers [OF p _ _ _ _ _ r d] by (simp add: init_bp_recovery_info_def front_0_def shift_hist_def)
  with p r d show ?thesis by blast
qed

text \<open>C30: Of several mispredicted ops that ask for a recovery, in any order and from the main or the late
  predictor, the oldest one recovers: the information ends up describing that op, with its next address
  and its checkpoint.\<close>

theorem oldest_recovery_wins:
  assumes "distinct (map fst xs)" "xs \<noteq> []" "bri_recovery_cycle ri = MAX_CTR"
    and "\<forall>(p, cycle, late) \<in> set xs. ops p = Some (ob p) \<and> can_sched P (bri_proc_id ri) (ob p) cycle late"
  shows "\<exists>ri' ops' r. sched_all P xs (ri, ops) = Some (ri', ops') \<and> r \<in> fst ` set xs \<and> recovers ri' r (ob r) \<and>
    (\<forall>p \<in> fst ` set xs. op_op_num (ob r) \<le> op_op_num (ob p))"
  by (rule sched_all_fresh [OF assms(1,4,3,2)])

abbreviation sched_ex :: "(op_ptr \<times> Counter \<times> bool) list" where
  "sched_ex \<equiv> [(3, 20, False), (1, 21, True), (2, 22, False)]"

theorem oldest_recovery_wins_witness:
  "\<exists>ri' ops' r. sched_all bp_front sched_ex (init_bp_recovery_info 0,
      \<lambda>p. Some (cbr_ex\<lparr>op_op_num := of_nat p\<rparr>)) = Some (ri', ops') \<and> recovers ri' r (cbr_ex\<lparr>op_op_num := of_nat r\<rparr>) \<and> r = 1"
proof -
  have "\<exists>ri' ops' r. sched_all bp_front sched_ex (init_bp_recovery_info 0, \<lambda>p. Some (cbr_ex\<lparr>op_op_num := of_nat p\<rparr>)) = Some (ri', ops') \<and>
      r \<in> fst ` set sched_ex \<and> recovers ri' r (cbr_ex\<lparr>op_op_num := of_nat r\<rparr>) \<and>
      (\<forall>p \<in> fst ` set sched_ex. op_op_num (cbr_ex\<lparr>op_op_num := of_nat r\<rparr>) \<le> op_op_num (cbr_ex\<lparr>op_op_num := of_nat p\<rparr>))"
    by (rule oldest_recovery_wins [where ob = "\<lambda>p. cbr_ex\<lparr>op_op_num := of_nat p\<rparr>"])
      (simp_all add: init_bp_recovery_info_def can_sched_def MAX_CTR_def bp_front_def bp_small_def)
  then show ?thesis by (auto simp: word_le_nat_alt simp del: sched_all.simps)
qed

section \<open>The direction predictors\<close>

text \<open>C29: Gshare learns a steady branch. After as many equal outcomes as half the range of a counter, for the same
  core, address and history, it predicts that outcome, whatever the counter held before.\<close>

theorem gshare_learns:
  assumes "gshare_ok P n w" "counters_ok P w" "unat (op_proc_id op) < n" "2 ^ (unat (PHT_CTR_BITS P) - 1) \<le> length ops"
    and "\<forall>o' \<in> set ops. op_cf_type o' = CF_CBR \<and> oi_dir (op_oracle_info o') = dir \<and> op_proc_id o' = op_proc_id op \<and>
      oi_pred_addr (op_oracle_info o') = oi_pred_addr (op_oracle_info op) \<and>
      oi_pred_global_hist (op_oracle_info o') = oi_pred_global_hist (op_oracle_info op)"
  shows "\<exists>w'. gshare_updates P ops w = Some w' \<and> bp_gshare_pred P op w' = Some (if dir = 0 then 0 else 1, op, w')"
proof -
  let ?b = "unat (PHT_CTR_BITS P)"
  obtain k ix where s: "gshare_slot P op w = Some (k, ix)" "k < length (bw_gshare w)" "ix < length (bw_gshare w ! k)"
    "k = unat (op_proc_id op)" "ix = unat (get_pht_index P (oi_pred_addr (op_oracle_info op)) (oi_pred_global_hist (op_oracle_info op)))"
    by (rule gshare_slot_ok [OF assms(1,3)])
  have "\<forall>o' \<in> set ops. gshare_slot P o' w = Some (k, ix) \<and> op_cf_type o' = CF_CBR \<and> oi_dir (op_oracle_info o') = dir"
    using assms(5) s(1) by (auto simp: gshare_slot_def Let_def)
  from gshare_updates_ok [OF assms(1) this s(2,3)] obtain w' where
    w': "gshare_updates P ops w = Some w'" "gshare_ok P n w'"
    "bw_gshare w' = (bw_gshare w)[k := (bw_gshare w ! k)[ix := (pht_next P dir ^^ length ops) (bw_gshare w ! k ! ix)]]" by blast
  let ?e = "bw_gshare w ! k ! ix" and ?e' = "(pht_next P dir ^^ length ops) (bw_gshare w ! k ! ix)"
  have b: "ctr_bits_ok P" and e: "unat ?e \<le> 2 ^ ?b - 1" using assms(2) s(2,3) unfolding counters_ok_def by (blast intro: nth_mem)+
  have b1: "(2::nat) ^ ?b = 2 * 2 ^ (?b - 1)" using b by (cases ?b) (simp_all add: ctr_bits_ok_def word_less_nat_alt)
  have it: "unat ?e' = (if dir = 0 then unat ?e - length ops else min (2 ^ ?b - 1) (unat ?e + length ops))"
    by (rule pht_iterate [OF b e])
  have le: "unat ?e' \<le> 2 ^ ?b - 1"
    unfolding it using e by (auto simp: min_def intro: order.trans [OF diff_le_self])
  have half: "m \<le> (if dir = 0 then x - l else min (2 * m - 1) (x + l)) \<longleftrightarrow> dir \<noteq> 0" if "0 < m" "m \<le> l" "x \<le> 2 * m - 1" for m x l :: nat
    using that by auto
  have "2 ^ (?b - 1) \<le> unat ?e' \<longleftrightarrow> dir \<noteq> 0"
    unfolding it b1 by (rule half [OF _ assms(4) e [unfolded b1]]) simp
  then have "pht_high P ?e' AND 1 = (if dir = 0 then 0 else 1)" using pht_high_pred [OF b le] by simp
  moreover have "gshare_slot P op w' = Some (k, ix)"
    using gshare_slot_ok [OF w'(2) assms(3)] s(4,5) by metis
  ultimately show ?thesis using w' s(2,3) by (simp add: bp_gshare_pred_def)
qed

abbreviation cbr_not_taken :: Op where
  "cbr_not_taken \<equiv> cbr_ex\<lparr>op_oracle_info := info_0\<rparr>"

theorem gshare_learns_witness:
  "\<exists>w'. gshare_updates bp_front [cbr_not_taken, cbr_not_taken] world_0 = Some w' \<and>
    bp_gshare_pred bp_front cbr_not_taken w' = Some (0, cbr_not_taken, w')"
proof -
  have w: "gshare_ok bp_front 2 world_0" "counters_ok bp_front world_0"
    by (simp_all add: gshare_ok_def counters_ok_def world_0_def len_ok_def ctr_bits_ok_def)
  have "\<exists>w'. gshare_updates bp_front [cbr_not_taken, cbr_not_taken] world_0 = Some w' \<and>
      bp_gshare_pred bp_front cbr_not_taken w' = Some (if (0 :: uns8) = 0 then 0 else 1, cbr_not_taken, w')"
    by (rule gshare_learns [OF w]) (simp_all add: info_0_def)
  then show ?thesis by (simp only: if_True simp_thms)
qed

text \<open>C27: The ring of branches in flight is a bounded queue that can drop its youngest elements: from a new ring,
  a sequence of calls runs in the ring exactly when it runs in the queue, and leaves the same branches in
  the same order. Filling a full ring, and going back to or retiring a branch that is not there, fail in
  both.\<close>

theorem in_flight_is_queue:
  assumes "cb_new z m = Some b" "length es < 2 ^ 62" "\<forall>j. Cb_Squash j \<in> set es \<longrightarrow> j < 2 ^ 62"
  shows "map_option cb_list (cb_run es b) = cb_spec (2 ^ get_min_num_bits_to_represent m) es [] \<and>
    m \<le> 2 ^ get_min_num_bits_to_represent m"
  using cb_run_refines [OF cb_new_ok(1) [OF assms(1)] _ assms(3)] cb_new_ok(2-4) [OF assms(1)] assms(2) by simp

theorem in_flight_is_queue_witness:
  "\<exists>b. cb_new 0 3 = Some b \<and>
    map_option cb_list (cb_run [Cb_In 5, Cb_In 6, Cb_In 7, Cb_Squash 1, Cb_In 8, Cb_Retire] b) = Some [6, 8 :: nat]"
proof -
  have n: "get_min_num_bits_to_represent 3 = 2"
    by (simp add: get_min_num_bits_to_represent_def bits_from.simps)
  obtain b where b: "cb_new (0 :: nat) 3 = Some b" by (simp add: cb_new_def n Let_def)
  have "map_option cb_list (cb_run [Cb_In 5, Cb_In 6, Cb_In 7, Cb_Squash 1, Cb_In 8, Cb_Retire] b) = Some [6, 8]"
    using in_flight_is_queue [OF b, of "[Cb_In 5, Cb_In 6, Cb_In 7, Cb_Squash 1, Cb_In 8, Cb_Retire]"] by (simp add: n del: cb_run.simps)
  with b show ?thesis by blast
qed

end
