(* ===== verification/Freq.thy ===== *)
theory Freq
  imports Scarab_Prelude "HOL-Library.Monad_Syntax"
begin

text \<open>
  The clock domains of the simulator, \<^verbatim>\<open>freq.c\<close>: every core, the last level cache and the memory count
  cycles of their own length, and time advances to the next cycle of any of them.

  The unit of time is a femtosecond. The names of the domains are left out, since only debug output
  reads them. \<open>None\<close> is a failed assertion, an index outside an array or a division by zero.
\<close>

section \<open>State\<close>

type_synonym Freq_Domain_Id = uns

record Domain_Info =
  di_cycles :: Counter
  di_cycle_time :: uns
  di_time_until_next_cycle :: uns

record Freq_State =
  fq_cur_time :: Counter
  fq_num_domains :: uns
  fq_domains :: "Domain_Info list"
  FREQ_DOMAIN_CORES :: "Freq_Domain_Id list"
  FREQ_DOMAIN_L1 :: Freq_Domain_Id
  FREQ_DOMAIN_MEMORY :: Freq_Domain_Id

record freq_params =
  CORE_CYCLE_TIMES :: "uns list"
  CHIP_CYCLE_TIME :: uns
  L1_CYCLE_TIME :: uns
  RAMULATOR_TCK :: uns
  NUM_CORES :: nat

definition MAX_FREQ_DOMAINS :: nat where
  "MAX_FREQ_DOMAINS = 100"

definition MAX_NUM_PROCS :: nat where
  "MAX_NUM_PROCS = 64"

text \<open>Static data is zero before \<^verbatim>\<open>freq_init\<close>.\<close>

definition freq_zero :: Freq_State where
  "freq_zero =
     \<lparr>fq_cur_time = 0, fq_num_domains = 0,
      fq_domains = replicate MAX_FREQ_DOMAINS \<lparr>di_cycles = 0, di_cycle_time = 0, di_time_until_next_cycle = 0\<rparr>,
      FREQ_DOMAIN_CORES = replicate MAX_NUM_PROCS 0, FREQ_DOMAIN_L1 = 0, FREQ_DOMAIN_MEMORY = 0\<rparr>"

section \<open>Initialisation\<close>

definition freq_domain_create :: "uns \<Rightarrow> Freq_State \<Rightarrow> (Freq_Domain_Id \<times> Freq_State) option" where
  "freq_domain_create cycle_time s =
     (let n = fq_num_domains s
      in if unat n < MAX_FREQ_DOMAINS \<and> 0 < cycle_time
         then Some (n, s\<lparr>fq_domains := (fq_domains s)[unat n :=
                           \<lparr>di_cycles = 0, di_cycle_time = cycle_time, di_time_until_next_cycle = 0\<rparr>],
                         fq_num_domains := n + 1\<rparr>)
         else None)"

text \<open>The loop over the cores \<open>i\<close>, \<open>i + 1\<close>, ...\<close>

fun create_cores :: "uns list \<Rightarrow> nat \<Rightarrow> nat \<Rightarrow> Freq_State \<Rightarrow> Freq_State option" where
  "create_cores ts i 0 s = Some s"
| "create_cores ts i (Suc n) s =
     (if i < length ts \<and> i < length (FREQ_DOMAIN_CORES s)
      then do { (x, s) \<leftarrow> freq_domain_create (ts ! i) s;
                create_cores ts (Suc i) n (s\<lparr>FREQ_DOMAIN_CORES := (FREQ_DOMAIN_CORES s)[i := x]\<rparr>) }
      else None)"

definition freq_init :: "freq_params \<Rightarrow> Freq_State \<Rightarrow> Freq_State option" where
  "freq_init P s =
     (let chip = (CHIP_CYCLE_TIME P \<noteq> 0);
          ts = (if chip then replicate MAX_NUM_PROCS (CHIP_CYCLE_TIME P) else CORE_CYCLE_TIMES P);
          l1 = (if chip then CHIP_CYCLE_TIME P else L1_CYCLE_TIME P)
      in do { s \<leftarrow> create_cores ts 0 (NUM_CORES P) s;
              (x, s) \<leftarrow> freq_domain_create l1 s;
              (y, s) \<leftarrow> freq_domain_create (RAMULATOR_TCK P) s;
              Some (s\<lparr>FREQ_DOMAIN_L1 := x, FREQ_DOMAIN_MEMORY := y\<rparr>) })"

section \<open>Time\<close>

definition freq_is_ready :: "Freq_Domain_Id \<Rightarrow> Freq_State \<Rightarrow> bool option" where
  "freq_is_ready i s =
     (if i < fq_num_domains s then Some (di_time_until_next_cycle (fq_domains s ! unat i) = 0) else None)"

text \<open>The loops of \<^verbatim>\<open>freq_advance_time\<close>: ready domains wait, the minimum, and the passing of time.\<close>

definition wait_next :: "Domain_Info \<Rightarrow> Domain_Info" where
  "wait_next D =
     (if di_time_until_next_cycle D = 0 then D\<lparr>di_time_until_next_cycle := di_cycle_time D\<rparr> else D)"

definition min_wait :: "Domain_Info list \<Rightarrow> uns \<Rightarrow> uns" where
  "min_wait Ds m = fold (\<lambda>D m. if di_time_until_next_cycle D < m then di_time_until_next_cycle D else m) Ds m"

definition pass_time :: "uns \<Rightarrow> Domain_Info \<Rightarrow> Domain_Info" where
  "pass_time delta D =
     (let u = di_time_until_next_cycle D - delta
      in D\<lparr>di_time_until_next_cycle := u, di_cycles := (if u = 0 then di_cycles D + 1 else di_cycles D)\<rparr>)"

definition freq_advance_time :: "Freq_State \<Rightarrow> Freq_State option" where
  "freq_advance_time s =
     (let n = unat (fq_num_domains s);
          Ds = map wait_next (take n (fq_domains s)) @ drop n (fq_domains s);
          delta = min_wait (tl (take n Ds)) (di_time_until_next_cycle (Ds ! 0))
      in if 0 < delta
         then Some (s\<lparr>fq_cur_time := fq_cur_time s + ucast delta,
                      fq_domains := map (pass_time delta) (take n Ds) @ drop n Ds\<rparr>)
         else None)"

definition freq_reset_cycle_counts :: "Freq_State \<Rightarrow> Freq_State" where
  "freq_reset_cycle_counts s =
     (let n = unat (fq_num_domains s)
      in s\<lparr>fq_domains := map (\<lambda>D. D\<lparr>di_cycles := 0, di_time_until_next_cycle := 0\<rparr>) (take n (fq_domains s)) @
             drop n (fq_domains s)\<rparr>)"

definition freq_cycle_count :: "Freq_Domain_Id \<Rightarrow> Freq_State \<Rightarrow> Counter option" where
  "freq_cycle_count i s = (if i < fq_num_domains s then Some (di_cycles (fq_domains s ! unat i)) else None)"

definition freq_time :: "Freq_State \<Rightarrow> Counter" where
  "freq_time s = fq_cur_time s"

definition freq_future_time :: "Freq_Domain_Id \<Rightarrow> Counter \<Rightarrow> Freq_State \<Rightarrow> Counter option" where
  "freq_future_time i cycles s =
     (let D = fq_domains s ! unat i
      in if i < fq_num_domains s \<and> di_cycles D \<le> cycles
         then Some (freq_time s + (cycles - di_cycles D) * ucast (di_cycle_time D)) else None)"

definition freq_set_cycle_time :: "Freq_Domain_Id \<Rightarrow> uns \<Rightarrow> Freq_State \<Rightarrow> Freq_State option" where
  "freq_set_cycle_time i cycle_time s =
     (if i < fq_num_domains s \<and> 0 < cycle_time
      then Some (s\<lparr>fq_domains := (fq_domains s)[unat i := (fq_domains s ! unat i)\<lparr>di_cycle_time := cycle_time\<rparr>]\<rparr>)
      else None)"

definition freq_get_cycle_time :: "Freq_Domain_Id \<Rightarrow> Freq_State \<Rightarrow> uns option" where
  "freq_get_cycle_time i s = (if i < fq_num_domains s then Some (di_cycle_time (fq_domains s ! unat i)) else None)"

section \<open>Conversions\<close>

definition freq_convert :: "Freq_Domain_Id \<Rightarrow> Counter \<Rightarrow> Freq_Domain_Id \<Rightarrow> Freq_State \<Rightarrow> Counter option" where
  "freq_convert src src_cycle_count dst s =
     (if unat src < length (fq_domains s) \<and> unat dst < length (fq_domains s) \<and> di_cycle_time (fq_domains s ! unat dst) \<noteq> 0
      then Some (src_cycle_count * ucast (di_cycle_time (fq_domains s ! unat src)) div
                   ucast (di_cycle_time (fq_domains s ! unat dst)))
      else None)"

definition flag_ctr :: "bool \<Rightarrow> Counter" where
  "flag_ctr b = (if b then 1 else 0)"

definition freq_convert_future_cycle ::
    "Freq_Domain_Id \<Rightarrow> Counter \<Rightarrow> Freq_Domain_Id \<Rightarrow> Freq_State \<Rightarrow> Counter option" where
  "freq_convert_future_cycle src src_cycle_count dst s =
     (let S = fq_domains s ! unat src; D = fq_domains s ! unat dst;
          until = (\<lambda>X. ucast (di_time_until_next_cycle X) :: Counter); period = (\<lambda>X. ucast (di_cycle_time X) :: Counter);
          remaining_src_cycles = src_cycle_count - di_cycles S;
          last_src_cycle_time = fq_cur_time s + until S - (if until S = 0 then 0 else period S);
          future_time = last_src_cycle_time + remaining_src_cycles * period S;
          dst_not_ready = flag_ctr (until D \<noteq> 0)
      in if \<not> (unat src < length (fq_domains s) \<and> unat dst < length (fq_domains s)) \<or> src_cycle_count < di_cycles S then None
         else if future_time \<le> fq_cur_time s + until D then Some (di_cycles D + dst_not_ready)
         else if period D = 0 then None
         else Some (di_cycles D + dst_not_ready + ((future_time - fq_cur_time s - until D - 1) div period D + 1)))"

end
