(* ===== verification/Freq_Props.thy ===== *)
theory Freq_Props
  imports Freq
begin

text \<open>
  The clock domains tick exactly at the multiples of their cycle times, and the conversions between them
  are exact up to the cases shown here.
\<close>

section \<open>Domains that follow the time\<close>

text \<open>The domain has counted its cycles up to time \<open>t\<close>, and waits for the next one or is ready.\<close>

definition follows :: "nat \<Rightarrow> Domain_Info \<Rightarrow> bool" where
  "follows t D \<longleftrightarrow> 0 < di_cycle_time D \<and> unat (di_cycles D) = t div unat (di_cycle_time D) \<and>
     unat (di_time_until_next_cycle D) =
       (if unat (di_cycle_time D) dvd t then 0 else unat (di_cycle_time D) - t mod unat (di_cycle_time D))"

text \<open>The time until the next cycle, counted from a cycle that starts now.\<close>

definition next_in :: "nat \<Rightarrow> nat \<Rightarrow> nat" where
  "next_in t p = p - t mod p"

lemma next_in_pos: "0 < p \<Longrightarrow> 0 < next_in t p"
  by (simp add: next_in_def)

lemma next_in_tick:
  assumes "0 < p"
  shows "p dvd t + next_in t p" "(t + next_in t p) div p = t div p + 1"
proof -
  have "t + next_in t p = p * (t div p + 1)"
    using mod_less_divisor [OF assms, of t] mult_div_mod_eq [of p t] unfolding next_in_def distrib_left mult_1_right by linarith
  then show "p dvd t + next_in t p" "(t + next_in t p) div p = t div p + 1" using assms by simp_all
qed

lemma before_next:
  assumes "0 < p" "0 < d" "d < next_in t p"
  shows "\<not> p dvd t + d" "(t + d) div p = t div p" "next_in (t + d) p = next_in t p - d"
proof -
  have m: "t mod p + d < p" using assms by (simp add: next_in_def)
  have "(t + d) mod p = (t mod p + d) mod p" by (simp add: mod_add_left_eq)
  then have "(t + d) mod p = t mod p + d" using m by simp
  moreover have "(t + d) div p = t div p"
  proof (rule div_nat_eqI)
    show "p * (t div p) \<le> t + d" using mult_div_mod_eq [of p t] by linarith
    show "t + d < p * Suc (t div p)" using m mult_div_mod_eq [of p t] unfolding mult_Suc_right by linarith
  qed
  ultimately
  show "\<not> p dvd t + d" "(t + d) div p = t div p" "next_in (t + d) p = next_in t p - d"
    using assms(2) by (simp_all add: dvd_eq_mod_eq_0 next_in_def)
qed

lemma wait_next_follows:
  assumes "follows t D"
  shows "unat (di_time_until_next_cycle (wait_next D)) = next_in t (unat (di_cycle_time D))"
    "di_cycle_time (wait_next D) = di_cycle_time D" "di_cycles (wait_next D) = di_cycles D"
proof -
  let ?p = "unat (di_cycle_time D)"
  have "0 < ?p" using assms by (simp add: follows_def unat_gt_0 word_gt_0)
  moreover from this have "t mod ?p < ?p" by (rule mod_less_divisor)
  ultimately show "unat (di_time_until_next_cycle (wait_next D)) = next_in t ?p"
    using assms by (auto simp: follows_def wait_next_def next_in_def unat_eq_0 dvd_eq_mod_eq_0 split: if_splits)
qed (simp_all add: wait_next_def)

lemma pass_time_follows:
  assumes "follows t D" "unat delta \<le> next_in t (unat (di_cycle_time D))" "0 < delta" "t + unat delta < 2 ^ 64"
  shows "follows (t + unat delta) (pass_time delta (wait_next D))" "di_cycle_time (pass_time delta (wait_next D)) = di_cycle_time D"
proof -
  let ?p = "unat (di_cycle_time D)" and ?u = "di_time_until_next_cycle (wait_next D)"
  note w = wait_next_follows [OF assms(1)]
  have p: "0 < ?p" "0 < di_cycle_time D" using assms(1) by (simp_all add: follows_def unat_gt_0 word_gt_0)
  have d: "0 < unat delta" using assms(3) by (simp add: unat_gt_0 word_gt_0)
  have c: "unat (di_cycles D) = t div ?p" using assms(1) by (simp add: follows_def)
  have u: "unat (?u - delta) = next_in t ?p - unat delta"
    using assms(2) w(1) by (simp add: unat_sub word_le_nat_alt)
  show "di_cycle_time (pass_time delta (wait_next D)) = di_cycle_time D" using w(2) by (simp add: pass_time_def Let_def)
  show "follows (t + unat delta) (pass_time delta (wait_next D))"
  proof (cases "unat delta = next_in t ?p")
    case True
    have "t div ?p + 1 \<le> t + unat delta"
      using next_in_tick(2) [OF p(1), of t] True div_le_dividend [of "t + unat delta" ?p] by simp
    then have "unat (di_cycles D + 1) = t div ?p + 1" using c assms(4) by (simp add: unat_word_ariths)
    moreover have z: "?u - delta = 0" using u True by (simp add: unat_eq_0)
    ultimately show ?thesis
      using True w p next_in_tick [OF p(1), of t] by (simp add: follows_def pass_time_def Let_def)
  next
    case False
    with assms(2) have "unat delta < next_in t ?p" by simp
    note b = before_next [OF p(1) d this]
    have "?u - delta \<noteq> 0" using u \<open>unat delta < next_in t ?p\<close> by (metis diff_is_0_eq linorder_not_less unat_0)
    moreover have "next_in t ?p - unat delta = ?p - (t + unat delta) mod ?p" using b(3) by (simp add: next_in_def)
    ultimately show ?thesis
      using b(1,2) w p c u by (simp add: follows_def pass_time_def Let_def)
  qed
qed

section \<open>The minimum\<close>

lemma min_wait_Min:
  "unat (min_wait Ds m) = Min (insert (unat m) ((\<lambda>D. unat (di_time_until_next_cycle D)) ` set Ds))"
proof (induction Ds arbitrary: m)
  case Nil
  show ?case by (simp add: min_wait_def)
next
  case (Cons D Ds)
  let ?f = "\<lambda>D. unat (di_time_until_next_cycle D)"
  let ?m = "if di_time_until_next_cycle D < m then di_time_until_next_cycle D else m"
  have "min_wait (D # Ds) m = min_wait Ds ?m" by (simp add: min_wait_def)
  then have "unat (min_wait (D # Ds) m) = Min (insert (unat ?m) (?f ` set Ds))" using Cons by simp
  also have "unat ?m = min (unat m) (?f D)" by (simp add: word_less_nat_alt)
  also have "Min (insert (min (unat m) (?f D)) (?f ` set Ds)) = Min (insert (unat m) (insert (?f D) (?f ` set Ds)))"
    by (cases "set Ds = {}") (simp_all add: min.assoc)
  finally show ?case by simp
qed


section \<open>Advancing\<close>

definition running :: "Freq_State \<Rightarrow> bool" where
  "running s \<longleftrightarrow> length (fq_domains s) = MAX_FREQ_DOMAINS \<and> unat (fq_num_domains s) \<le> MAX_FREQ_DOMAINS \<and>
     (\<forall>i < unat (fq_num_domains s). follows (unat (fq_cur_time s)) (fq_domains s ! i))"

definition periods :: "Freq_State \<Rightarrow> nat list" where
  "periods s = map (\<lambda>D. unat (di_cycle_time D)) (take (unat (fq_num_domains s)) (fq_domains s))"

fun freq_run :: "nat \<Rightarrow> Freq_State \<Rightarrow> Freq_State option" where
  "freq_run 0 s = Some s"
| "freq_run (Suc m) s = Option.bind (freq_advance_time s) (freq_run m)"

lemma periods_nth: "running s \<Longrightarrow> i < unat (fq_num_domains s) \<Longrightarrow> periods s ! i = unat (di_cycle_time (fq_domains s ! i))"
  by (simp add: periods_def running_def)

lemma length_periods: "running s \<Longrightarrow> length (periods s) = unat (fq_num_domains s)"
  by (simp add: periods_def running_def)

lemma advance_follows:
  assumes run: "running s" and n: "0 < fq_num_domains s" and t: "unat (fq_cur_time s) + 2 ^ 32 \<le> 2 ^ 64"
  obtains s' where "freq_advance_time s = Some s'" "running s'" "fq_num_domains s' = fq_num_domains s" "periods s' = periods s"
    "unat (fq_cur_time s') = unat (fq_cur_time s) + Min (next_in (unat (fq_cur_time s)) ` set (periods s))"
proof -
  let ?n = "unat (fq_num_domains s)" and ?t = "unat (fq_cur_time s)"
  let ?f = "\<lambda>D. unat (di_time_until_next_cycle D)"
  let ?W = "map wait_next (take ?n (fq_domains s))"
  have n0: "0 < ?n" using n by (simp add: unat_gt_0 word_gt_0)
  have len: "length (fq_domains s) = MAX_FREQ_DOMAINS" "?n \<le> MAX_FREQ_DOMAINS" using run by (simp_all add: running_def)
  have fol: "follows ?t D" if "D \<in> set (take ?n (fq_domains s))" for D
    using that run len by (auto simp: running_def in_set_conv_nth)
  have W: "?W \<noteq> []" "take ?n (?W @ drop ?n (fq_domains s)) = ?W" "(?W @ drop ?n (fq_domains s)) ! 0 = hd ?W"
  proof -
    obtain D Ds where "take ?n (fq_domains s) = D # Ds" using n0 len by (cases "take ?n (fq_domains s)") (auto simp: MAX_FREQ_DOMAINS_def)
    then show "?W \<noteq> []" "(?W @ drop ?n (fq_domains s)) ! 0 = hd ?W" by simp_all
    show "take ?n (?W @ drop ?n (fq_domains s)) = ?W" using len by simp
  qed
  define delta where "delta = min_wait (tl ?W) (di_time_until_next_cycle (hd ?W))"
  have "unat delta = Min (?f ` set ?W)"
    unfolding delta_def min_wait_Min using W(1) by (cases ?W) simp_all
  also have "?f ` set ?W = next_in ?t ` set (periods s)"
    using wait_next_follows(1) [OF fol] by (auto simp: periods_def image_iff)
  finally have delta: "unat delta = Min (next_in ?t ` set (periods s))" .
  have ne: "finite (next_in ?t ` set (periods s))" "next_in ?t ` set (periods s) \<noteq> {}"
    using W(1) by (simp_all add: periods_def)
  have pos: "0 < p" if "p \<in> set (periods s)" for p using that fol by (auto simp: periods_def follows_def unat_gt_0 word_gt_0)
  have "0 < unat delta" unfolding delta using ne pos next_in_pos by simp
  then have d0: "0 < delta" by (simp add: unat_gt_0 word_gt_0)
  have "unat delta < 2 ^ 32" using unsigned_less [of delta] by simp
  then have td: "?t + unat delta < 2 ^ 64" using t by simp
  have c: "unat (fq_cur_time s + ucast delta) = ?t + unat delta"
    using td \<open>unat delta < 2 ^ 32\<close> by (simp add: unat_word_ariths unsigned_ucast_eq take_bit_nat_eq_self)
  let ?s = "s\<lparr>fq_cur_time := fq_cur_time s + ucast delta,
    fq_domains := map (pass_time delta) ?W @ drop ?n (fq_domains s)\<rparr>"
  have a: "freq_advance_time s = Some ?s"
    using d0 len W(2,3) by (simp add: freq_advance_time_def Let_def delta_def)
  have le: "unat delta \<le> next_in ?t (unat (di_cycle_time D))" if "D \<in> set (take ?n (fq_domains s))" for D
    unfolding delta using ne(1) that by (intro Min_le) (auto simp: periods_def)
  note p = pass_time_follows [OF fol le d0 td]
  have nth: "fq_domains ?s ! i = pass_time delta (wait_next (fq_domains s ! i))" "fq_domains s ! i \<in> set (take ?n (fq_domains s))"
    if "i < ?n" for i using that len by (auto simp: nth_append in_set_conv_nth)
  have "follows (unat (fq_cur_time ?s)) (fq_domains ?s ! i)" if "i < ?n" for i
    using p(1) [OF nth(2) [OF that] nth(2) [OF that]] c unfolding nth(1) [OF that] by simp
  then have r: "running ?s" using len by (simp add: running_def)
  have "periods ?s = periods s" using len p(2) by (simp add: periods_def)
  with a r c delta show thesis by (intro that [of ?s]) simp_all
qed

text \<open>The cycle boundaries of some domain after time 0 and up to \<open>T\<close>.\<close>

definition ticks :: "nat list \<Rightarrow> nat \<Rightarrow> nat set" where
  "ticks ps T = {u. 0 < u \<and> u \<le> T \<and> (\<exists>p \<in> set ps. p dvd u)}"

lemma finite_ticks [simp]: "finite (ticks ps T)"
  by (rule finite_subset [of _ "{..T}"]) (auto simp: ticks_def)

lemma ticks_next:
  assumes "ps \<noteq> []" "\<forall>p \<in> set ps. 0 < p" "T' = T + Min (next_in T ` set ps)"
  shows "ticks ps T' = insert T' (ticks ps T)" "T < T'"
proof -
  let ?d = "Min (next_in T ` set ps)"
  have "?d \<in> next_in T ` set ps" using assms(1) by (intro Min_in) simp_all
  then obtain q where q: "q \<in> set ps" "?d = next_in T q" by blast
  then have "q dvd T'" "0 < ?d" using assms(2,3) next_in_tick(1) [of q T] next_in_pos [of q T] by simp_all
  then show "T < T'" using assms(3) by simp
  have "\<not> p dvd u" if "p \<in> set ps" "T < u" "u < T'" for p u
  proof -
    have "?d \<le> next_in T p" using that(1) by (intro Min_le) simp_all
    then have "u - T < next_in T p" using that(2,3) assms(3) by linarith
    then have "\<not> p dvd T + (u - T)" using that assms(2) by (intro before_next(1)) auto
    then show ?thesis using that(2) by simp
  qed
  then show "ticks ps T' = insert T' (ticks ps T)"
    using \<open>q dvd T'\<close> q(1) \<open>T < T'\<close> unfolding ticks_def by (auto simp: not_le) (metis le_neq_implies_less not_le)
qed

lemma run_follows:
  assumes "running s" "0 < fq_num_domains s" "unat (fq_cur_time s) + m * 2 ^ 32 \<le> 2 ^ 64"
  shows "\<exists>s'. freq_run m s = Some s' \<and> running s' \<and> fq_num_domains s' = fq_num_domains s \<and> periods s' = periods s \<and>
    unat (fq_cur_time s) \<le> unat (fq_cur_time s') \<and> unat (fq_cur_time s') \<le> unat (fq_cur_time s) + m * 2 ^ 32 \<and> (0 < m \<longrightarrow> unat (fq_cur_time s') \<in> ticks (periods s) (unat (fq_cur_time s'))) \<and>
    card (ticks (periods s) (unat (fq_cur_time s'))) = card (ticks (periods s) (unat (fq_cur_time s))) + m"
  using assms
proof (induction m arbitrary: s)
  case 0
  then show ?case by simp
next
  case (Suc m)
  let ?t = "unat (fq_cur_time s)"
  have "?t + 2 ^ 32 \<le> 2 ^ 64" using Suc.prems(3) by simp
  then obtain s1 where 1: "freq_advance_time s = Some s1" "running s1" "fq_num_domains s1 = fq_num_domains s" "periods s1 = periods s"
    "unat (fq_cur_time s1) = ?t + Min (next_in ?t ` set (periods s))"
    using advance_follows [OF Suc.prems(1,2)] by blast
  have n: "0 < unat (fq_num_domains s)" using Suc.prems(2) by (simp add: unat_gt_0 word_gt_0)
  have ps: "periods s \<noteq> []" "\<forall>p \<in> set (periods s). 0 < p \<and> p < 2 ^ 32"
  proof -
    show "periods s \<noteq> []" using n length_periods [OF Suc.prems(1)] by auto
    have "0 < periods s ! i \<and> periods s ! i < 2 ^ 32" if "i < length (periods s)" for i
      using that length_periods [OF Suc.prems(1)] periods_nth [OF Suc.prems(1)] Suc.prems(1)
        unsigned_less [of "di_cycle_time (fq_domains s ! i)"]
      by (auto simp: running_def follows_def unat_gt_0 word_gt_0)
    then show "\<forall>p \<in> set (periods s). 0 < p \<and> p < 2 ^ 32" by (auto simp: in_set_conv_nth)
  qed
  then have pos: "\<forall>p \<in> set (periods s). 0 < p" by blast
  note tk = ticks_next [OF ps(1) pos 1(5)]
  have mb: "Min (next_in ?t ` set (periods s)) \<le> 2 ^ 32"
  proof -
    have "Min (next_in ?t ` set (periods s)) \<le> next_in ?t (hd (periods s))" using ps(1) by (intro Min_le) auto
    also have "\<dots> \<le> hd (periods s)" by (simp add: next_in_def)
    finally show ?thesis using ps hd_in_set [OF ps(1)] by fastforce
  qed
  have b: "unat (fq_cur_time s1) + m * 2 ^ 32 \<le> 2 ^ 64" using mb Suc.prems(3) 1(5) by simp
  have n1: "0 < fq_num_domains s1" using 1(3) Suc.prems(2) by simp
  have "ticks (periods s) ?t = ticks (periods s) (unat (fq_cur_time s1)) - {unat (fq_cur_time s1)}"
    using tk by (auto simp: ticks_def)
  have "card (ticks (periods s) (unat (fq_cur_time s1))) = card (ticks (periods s) ?t) + 1"
    using tk by (simp add: ticks_def)
  moreover have "unat (fq_cur_time s1) \<in> ticks (periods s) (unat (fq_cur_time s1))" using tk(1) by blast
  moreover obtain s' where "freq_run m s1 = Some s'" "running s'" "fq_num_domains s' = fq_num_domains s1" "periods s' = periods s1"
    "unat (fq_cur_time s1) \<le> unat (fq_cur_time s')" "unat (fq_cur_time s') \<le> unat (fq_cur_time s1) + m * 2 ^ 32" "0 < m \<longrightarrow> unat (fq_cur_time s') \<in> ticks (periods s1) (unat (fq_cur_time s'))"
    "card (ticks (periods s1) (unat (fq_cur_time s'))) = card (ticks (periods s1) (unat (fq_cur_time s1))) + m"
    using Suc.IH [OF 1(2) n1 b] by blast
  ultimately show ?case using 1 mb tk(2) by (cases "m = 0") auto
qed


section \<open>The initial state\<close>

definition cycle_times :: "freq_params \<Rightarrow> uns list" where
  "cycle_times P =
     (if CHIP_CYCLE_TIME P \<noteq> 0 then replicate (NUM_CORES P + 1) (CHIP_CYCLE_TIME P)
      else take (NUM_CORES P) (CORE_CYCLE_TIMES P) @ [L1_CYCLE_TIME P]) @ [RAMULATOR_TCK P]"

lemma create_running:
  assumes "freq_domain_create c s = Some (x, s')" "running s" "fq_cur_time s = 0"
  shows "running s'" "fq_cur_time s' = 0" "periods s' = periods s @ [unat c]" "FREQ_DOMAIN_CORES s' = FREQ_DOMAIN_CORES s"
    "0 < fq_num_domains s'"
proof -
  let ?n = "unat (fq_num_domains s)" and ?D = "\<lparr>di_cycles = 0, di_cycle_time = c, di_time_until_next_cycle = 0\<rparr>"
  have n: "?n < MAX_FREQ_DOMAINS" "0 < c" and s': "s' = s\<lparr>fq_domains := (fq_domains s)[?n := ?D], fq_num_domains := fq_num_domains s + 1\<rparr>"
    using assms(1) by (auto simp: freq_domain_create_def Let_def split: if_splits)
  have u: "unat (fq_num_domains s + 1) = Suc ?n" using n(1) by (simp add: unat_word_ariths MAX_FREQ_DOMAINS_def)
  have l: "length (fq_domains s) = MAX_FREQ_DOMAINS" using assms(2) by (simp add: running_def)
  have "follows 0 ?D" using n(2) by (simp add: follows_def)
  then show "running s'" using assms(2,3) n(1) u l by (auto simp: running_def s' nth_list_update less_Suc_eq)
  have "take (Suc ?n) ((fq_domains s)[?n := ?D]) = take ?n (fq_domains s) @ [?D]"
    using n(1) l by (simp add: take_Suc_conv_app_nth)
  then show "periods s' = periods s @ [unat c]" by (simp add: periods_def s' u)
  have "0 < unat (fq_num_domains s')" by (simp add: s' u)
  then show "0 < fq_num_domains s'" by (simp only: unat_gt_0 word_gt_0)
  show "fq_cur_time s' = 0" "FREQ_DOMAIN_CORES s' = FREQ_DOMAIN_CORES s" using assms(3) by (simp_all add: s')
qed

lemma create_cores_running:
  "create_cores ts i n s = Some s' \<Longrightarrow> running s \<Longrightarrow> fq_cur_time s = 0 \<Longrightarrow>
    running s' \<and> fq_cur_time s' = 0 \<and> periods s' = periods s @ map unat (take n (drop i ts)) \<and> (0 < n \<longrightarrow> i + n \<le> length ts)"
proof (induction ts i n s rule: create_cores.induct)
  case (2 ts i n s)
  obtain x s1 where c: "i < length ts" "freq_domain_create (ts ! i) s = Some (x, s1)"
    "create_cores ts (Suc i) n (s1\<lparr>FREQ_DOMAIN_CORES := (FREQ_DOMAIN_CORES s1)[i := x]\<rparr>) = Some s'" "i < length (FREQ_DOMAIN_CORES s)"
    using "2.prems"(1) by (auto simp: bind_eq_Some_conv split: if_splits)
  let ?s1 = "s1\<lparr>FREQ_DOMAIN_CORES := (FREQ_DOMAIN_CORES s1)[i := x]\<rparr>"
  note r = create_running [OF c(2) "2.prems"(2,3)]
  have r1: "running ?s1" "fq_cur_time ?s1 = 0" "periods ?s1 = periods s1" using r by (simp_all add: running_def periods_def)
  have "drop i ts = ts ! i # drop (Suc i) ts" using c(1) by (rule Cons_nth_drop_Suc [symmetric])
  moreover have "running s' \<and> fq_cur_time s' = 0 \<and> periods s' = periods ?s1 @ map unat (take n (drop (Suc i) ts)) \<and>
      (0 < n \<longrightarrow> Suc i + n \<le> length ts)"
    using "2.IH" [OF _ c(2) refl _ r1(1,2)] c by fastforce
  ultimately show ?case using r(3) r1(3) c(1) by (cases "n = 0") auto
qed simp

lemma freq_init_running:
  assumes "freq_init P freq_zero = Some s"
  shows "running s" "fq_cur_time s = 0" "0 < fq_num_domains s" "periods s = map unat (cycle_times P)"
proof -
  let ?chip = "CHIP_CYCLE_TIME P \<noteq> 0"
  define ts where "ts = (if ?chip then replicate MAX_NUM_PROCS (CHIP_CYCLE_TIME P) else CORE_CYCLE_TIMES P)"
  define l1 where "l1 = (if ?chip then CHIP_CYCLE_TIME P else L1_CYCLE_TIME P)"
  obtain s1 x s2 y s3 where c: "create_cores ts 0 (NUM_CORES P) freq_zero = Some s1" "freq_domain_create l1 s1 = Some (x, s2)"
    "freq_domain_create (RAMULATOR_TCK P) s2 = Some (y, s3)" "s = s3\<lparr>FREQ_DOMAIN_L1 := x, FREQ_DOMAIN_MEMORY := y\<rparr>"
    using assms by (auto simp: freq_init_def bind_eq_Some_conv Let_def ts_def l1_def)
  have z: "running freq_zero" "fq_cur_time freq_zero = 0" "periods freq_zero = []"
    by (simp_all add: running_def periods_def freq_zero_def)
  have r1: "running s1" "fq_cur_time s1 = 0" "periods s1 = map unat (take (NUM_CORES P) ts)" "0 < NUM_CORES P \<longrightarrow> NUM_CORES P \<le> length ts"
    using create_cores_running [OF c(1) z(1,2)] z(3) by simp_all
  note r2 = create_running [OF c(2) r1(1,2)]
  note r3 = create_running [OF c(3) r2(1,2)]
  show "running s" "fq_cur_time s = 0" "0 < fq_num_domains s" using r3 c(4) by (simp_all add: running_def)
  have "periods s = periods s3" by (simp add: c(4) periods_def)
  also have "\<dots> = map unat (take (NUM_CORES P) ts @ [l1, RAMULATOR_TCK P])" using r1(3) r2(3) r3(3) by simp
  also have "take (NUM_CORES P) ts @ [l1, RAMULATOR_TCK P] = cycle_times P"
  proof (cases ?chip)
    case True
    then have "min (NUM_CORES P) MAX_NUM_PROCS = NUM_CORES P" using r1(4) by (auto simp: ts_def)
    then show ?thesis using True by (simp add: cycle_times_def ts_def l1_def replicate_append_same [symmetric])
  qed (simp add: cycle_times_def ts_def l1_def)
  finally show "periods s = map unat (cycle_times P)" .
qed

section \<open>Conversion of future cycles\<close>

text \<open>The least number of periods that reach \<open>x\<close>.\<close>

definition periods_to :: "nat \<Rightarrow> nat \<Rightarrow> nat" where
  "periods_to p x = (LEAST j. x \<le> j * p)"

lemma periods_to_eqI:
  assumes "0 < p" "x \<le> k * p" "k = 0 \<or> (k - 1) * p < x"
  shows "periods_to p x = k"
  unfolding periods_to_def
proof (rule Least_equality)
  fix j assume j: "x \<le> j * p"
  show "k \<le> j"
  proof (rule ccontr)
    assume "\<not> k \<le> j"
    then have "j \<le> k - 1" "k \<noteq> 0" by linarith+
    then have "j * p \<le> (k - 1) * p" by (intro mult_right_mono) simp_all
    with assms(3) j \<open>k \<noteq> 0\<close> show False by linarith
  qed
qed (rule assms(2))

lemma last_boundary:
  assumes "follows t S" "t + 2 ^ 32 \<le> 2 ^ 64" "unat c = t"
  shows "unat (c + ucast (di_time_until_next_cycle S) - (if di_time_until_next_cycle S = 0 then 0 else ucast (di_cycle_time S)) :: Counter) =
    t div unat (di_cycle_time S) * unat (di_cycle_time S)"
proof -
  let ?p = "unat (di_cycle_time S)"
  have p: "0 < ?p" using assms(1) by (simp add: follows_def unat_gt_0 word_gt_0)
  then have m: "t mod ?p < ?p" by simp
  have e: "t div ?p * ?p = t - t mod ?p" by (simp add: minus_mod_eq_div_mult)
  show ?thesis
  proof (cases "?p dvd t")
    case True
    then have "di_time_until_next_cycle S = 0" using assms(1) by (simp add: follows_def unat_eq_0)
    then show ?thesis using True assms(3) by simp
  next
    case False
    let ?u = "ucast (di_time_until_next_cycle S) :: Counter"
    have u: "unat (di_time_until_next_cycle S) = ?p - t mod ?p" using assms(1) False by (simp add: follows_def)
    then have "di_time_until_next_cycle S \<noteq> 0" using m by (metis unat_0 zero_less_diff less_irrefl)
    have lt: "?p < 2 ^ 32" using unsigned_less [of "di_cycle_time S"] by simp
    have "unat ?u = ?p - t mod ?p" "unat (ucast (di_cycle_time S) :: Counter) = ?p"
      using u lt by (simp_all add: unsigned_ucast_eq take_bit_nat_eq_self)
    then have "unat (c + ?u) = t + (?p - t mod ?p)" "unat (ucast (di_cycle_time S) :: Counter) = ?p"
      using assms(2,3) lt by (simp_all add: unat_word_ariths)
    moreover have "?p \<le> t + (?p - t mod ?p)" using m mod_less_eq_dividend [of t ?p] by linarith
    ultimately have "unat (c + ?u - ucast (di_cycle_time S)) = t + (?p - t mod ?p) - ?p"
      by (simp add: unat_sub word_le_nat_alt)
    also have "\<dots> = t - t mod ?p" using m mod_less_eq_dividend [of t ?p] by linarith
    finally show ?thesis using \<open>di_time_until_next_cycle S \<noteq> 0\<close> e by simp
  qed
qed

lemma unat_ucast_uns [simp]: "unat (ucast (x :: uns) :: Counter) = unat x"
  using unsigned_less [of x] by (simp add: unsigned_ucast_eq take_bit_nat_eq_self)

lemma ucast_zero: "(ucast (x :: uns) :: Counter) = 0 \<longleftrightarrow> x = 0"
  by (metis unat_ucast_uns unat_eq_0)

lemma next_boundary:
  assumes "follows t D"
  shows "t + unat (di_time_until_next_cycle D) =
      (unat (di_cycles D) + (if di_time_until_next_cycle D = 0 then 0 else 1)) * unat (di_cycle_time D)"
    "di_time_until_next_cycle D \<noteq> 0 \<Longrightarrow> unat (di_cycles D) * unat (di_cycle_time D) < t"
proof -
  let ?p = "unat (di_cycle_time D)"
  have "0 < ?p" using assms by (simp add: follows_def unat_gt_0 word_gt_0)
  then have m: "t mod ?p < ?p" by simp
  have e: "t div ?p * ?p + t mod ?p = t" by simp
  have c: "unat (di_cycles D) = t div ?p" using assms by (simp add: follows_def)
  consider "di_time_until_next_cycle D = 0" "t mod ?p = 0"
    | "di_time_until_next_cycle D \<noteq> 0" "0 < t mod ?p" "unat (di_time_until_next_cycle D) = ?p - t mod ?p"
  proof (cases "?p dvd t")
    case False
    then have "unat (di_time_until_next_cycle D) = ?p - t mod ?p" using assms by (simp add: follows_def)
    moreover from this m have "di_time_until_next_cycle D \<noteq> 0" by (metis unat_0 zero_less_diff less_irrefl)
    ultimately show thesis using that(2) False by (simp add: dvd_eq_mod_eq_0)
  qed (use assms that in \<open>simp add: follows_def unat_eq_0\<close>)
  then have "t + unat (di_time_until_next_cycle D) = (t div ?p + (if di_time_until_next_cycle D = 0 then 0 else 1)) * ?p \<and>
      (di_time_until_next_cycle D \<noteq> 0 \<longrightarrow> t div ?p * ?p < t)"
  proof cases
    case 2
    have "t + unat (di_time_until_next_cycle D) = t div ?p * ?p + ?p" "t div ?p * ?p < t" using 2(2,3) e m by linarith+
    then show ?thesis using 2(1) by (simp add: distrib_right)
  qed auto
  with c
  show "t + unat (di_time_until_next_cycle D) = (unat (di_cycles D) + (if di_time_until_next_cycle D = 0 then 0 else 1)) * ?p"
    "di_time_until_next_cycle D \<noteq> 0 \<Longrightarrow> unat (di_cycles D) * ?p < t" by simp_all
qed

lemma convert_future:
  assumes run: "running s" and i: "i < fq_num_domains s" and j: "j < fq_num_domains s"
    and c: "di_cycles (fq_domains s ! unat i) \<le> c"
    and t: "unat (fq_cur_time s) < 2 ^ 63" and cp: "unat c * unat (di_cycle_time (fq_domains s ! unat i)) < 2 ^ 63"
  shows "\<exists>k. freq_convert_future_cycle i c j s = Some k \<and>
    unat k = periods_to (unat (di_cycle_time (fq_domains s ! unat j)))
      (max (unat (fq_cur_time s)) (unat c * unat (di_cycle_time (fq_domains s ! unat i))))"
proof -
  let ?S = "fq_domains s ! unat i" and ?D = "fq_domains s ! unat j" and ?t = "unat (fq_cur_time s)"
  let ?p = "unat (di_cycle_time ?S)" and ?q = "unat (di_cycle_time ?D)"
  let ?u = "di_time_until_next_cycle ?D"
  have ij: "unat i < unat (fq_num_domains s)" "unat j < unat (fq_num_domains s)" using i j by (simp_all add: word_less_nat_alt)
  then have len: "unat i < length (fq_domains s)" "unat j < length (fq_domains s)" using run by (simp_all add: running_def)
  have f: "follows ?t ?S" "follows ?t ?D" using run ij by (simp_all add: running_def)
  have q: "0 < ?q" "di_cycle_time ?D \<noteq> 0" using f(2) by (simp_all add: follows_def unat_gt_0 word_gt_0)
  define b where "b = (if ?u = 0 then 0 else 1 :: nat)"
  define lst where "lst = fq_cur_time s + ucast (di_time_until_next_cycle ?S) -
    (if di_time_until_next_cycle ?S = 0 then 0 else ucast (di_cycle_time ?S))"
  define fut where "fut = lst + (c - di_cycles ?S) * ucast (di_cycle_time ?S)"
  have l: "unat lst = unat (di_cycles ?S) * ?p"
    unfolding lst_def using last_boundary [OF f(1) _ refl] t f(1) by (simp add: follows_def)
  have cs: "unat (c - di_cycles ?S) = unat c - unat (di_cycles ?S)" using c by (simp add: unat_sub)
  have le: "unat (di_cycles ?S) \<le> unat c" using c by (simp add: word_le_nat_alt)
  then have sum: "unat (di_cycles ?S) * ?p + (unat c - unat (di_cycles ?S)) * ?p = unat c * ?p"
    by (simp add: distrib_right [symmetric])
  then have "unat ((c - di_cycles ?S) * ucast (di_cycle_time ?S)) = (unat c - unat (di_cycles ?S)) * ?p"
    using cp cs by (simp add: unat_word_ariths)
  then have fut: "unat fut = unat c * ?p" unfolding fut_def using l sum cp by (simp add: unat_word_ariths)
  have u32: "unat ?u < 2 ^ 32" using unsigned_less [of ?u] by simp
  have N: "unat (fq_cur_time s + ucast ?u) = (unat (di_cycles ?D) + b) * ?q" "?t + unat ?u = (unat (di_cycles ?D) + b) * ?q"
    using next_boundary(1) [OF f(2)] t u32 by (simp_all add: unat_word_ariths b_def)
  have low: "(unat (di_cycles ?D) + b - 1) * ?q < ?t \<or> unat (di_cycles ?D) + b = 0 \<or> ?u = 0"
    using next_boundary(2) [OF f(2)] by (simp add: b_def)
  have fl: "flag_ctr ((ucast ?u :: Counter) \<noteq> 0) = of_nat b"
    by (simp add: b_def flag_ctr_def ucast_zero)
  have dc: "unat (di_cycles ?D) \<le> ?t" using f(2) by (simp add: follows_def)
  have nb: "unat (di_cycles ?D + of_nat b) = unat (di_cycles ?D) + b"
    using dc t by (simp add: unat_word_ariths b_def)
  define x where "x = max ?t (unat c * ?p)"
  define m where "m = unat (di_cycles ?D) + b"
  have until: "unat (ucast ?u :: Counter) = unat ?u" by simp
  show ?thesis
  proof (cases "fut \<le> fq_cur_time s + ucast ?u")
    case True
    then have "freq_convert_future_cycle i c j s = Some (di_cycles ?D + of_nat b)"
      using len c fl by (simp add: freq_convert_future_cycle_def Let_def fut_def lst_def ucast_zero not_less)
    moreover have "periods_to ?q x = m"
    proof (rule periods_to_eqI [OF q(1)])
      show "x \<le> m * ?q" using True N fut by (simp add: x_def m_def word_le_nat_alt)
      show "m = 0 \<or> (m - 1) * ?q < x"
      proof (cases "?u = 0")
        case True
        then have "?t = m * ?q" using N(2) by (simp add: m_def)
        then show ?thesis using q(1) by (cases m) (auto simp: x_def)
      next
        case False
        then show ?thesis using low by (auto simp: x_def m_def)
      qed
    qed
    ultimately show ?thesis using nb by (simp add: x_def m_def)
  next
    case False
    then have lt: "m * ?q < unat c * ?p" using N(1) fut by (simp add: m_def word_less_nat_alt not_le)
    define r where "r = (unat c * ?p - m * ?q - 1) div ?q"
    let ?w = "fut - fq_cur_time s - ucast ?u - 1"
    have e: "fut - fq_cur_time s - ucast ?u = fut - (fq_cur_time s + ucast ?u)" by (rule diff_diff_add)
    have "unat (fut - (fq_cur_time s + ucast ?u)) = unat c * ?p - m * ?q"
      using False N(1) fut by (simp add: unat_sub m_def)
    then have w0: "unat (fut - fq_cur_time s - ucast ?u) = unat c * ?p - m * ?q" by (simp only: e)
    then have "1 \<le> fut - fq_cur_time s - ucast ?u" using lt by (simp add: word_le_nat_alt)
    then have w: "unat ?w = unat c * ?p - m * ?q - 1" by (simp only: unat_sub w0 unat_1)
    have r: "r * ?q \<le> unat c * ?p - m * ?q - 1" "unat c * ?p - m * ?q - 1 < (r + 1) * ?q"
      using q(1) by (simp_all add: r_def dividend_less_times_div mult.commute)
    have rb: "m + r + 1 \<le> unat c * ?p"
    proof -
      have "m \<le> m * ?q" "r \<le> r * ?q" using q(1) by simp_all
      with r(1) lt show ?thesis by linarith
    qed
    have d: "unat (?w div ucast (di_cycle_time ?D)) = r" by (simp add: unat_div w r_def)
    have "unat (di_cycles ?D + of_nat b + (?w div ucast (di_cycle_time ?D) + 1)) = m + r + 1"
      using rb cp d nb by (simp add: unat_word_ariths m_def)
    moreover have "freq_convert_future_cycle i c j s = Some (di_cycles ?D + of_nat b + (?w div ucast (di_cycle_time ?D) + 1))"
      using False len c fl q(2) by (simp add: freq_convert_future_cycle_def Let_def fut_def lst_def ucast_zero not_less)
    moreover have "periods_to ?q x = m + r + 1"
    proof (rule periods_to_eqI [OF q(1)])
      have "(m + r + 1) * ?q = m * ?q + (r + 1) * ?q" "(m + r + 1 - 1) * ?q = m * ?q + r * ?q" by (simp_all add: distrib_right)
      moreover have "?t \<le> m * ?q" using N(2) by (simp add: m_def)
      ultimately show "x \<le> (m + r + 1) * ?q" "m + r + 1 = 0 \<or> (m + r + 1 - 1) * ?q < x"
        using r lt unfolding x_def by linarith+
    qed
    ultimately show ?thesis by (simp add: x_def)
  qed
qed


text \<open>A domain by its position, in the states that a run reaches.\<close>

lemma run_domains:
  assumes "freq_init P freq_zero = Some s0" "freq_run m s0 = Some s" "m < 2 ^ 31" "i < length (cycle_times P)"
  shows "running s" "unat (fq_cur_time s) < 2 ^ 63" "unat (of_nat i :: uns) = i" "of_nat i < fq_num_domains s"
    "unat (di_cycle_time (fq_domains s ! i)) = unat (cycle_times P ! i)"
proof -
  note i = freq_init_running [OF assms(1)]
  have "unat (fq_cur_time s0) + m * 2 ^ 32 \<le> 2 ^ 64" using assms(3) by (simp add: i(2))
  with run_follows [OF i(1,3) this] assms(2,3)
  have s: "running s" "fq_num_domains s = fq_num_domains s0" "periods s = periods s0" "unat (fq_cur_time s) < 2 ^ 63"
    by (simp_all add: i(2))
  have l: "i < unat (fq_num_domains s)" using assms(4) length_periods [OF i(1)] i(4) s(2) by simp
  have "unat (fq_num_domains s) < 2 ^ 32" using unsigned_less [of "fq_num_domains s"] by simp
  then have u: "unat (of_nat i :: uns) = i" using l by (simp add: unat_of_nat)
  show "running s" "unat (fq_cur_time s) < 2 ^ 63" "unat (of_nat i :: uns) = i" by (fact s u)+
  show "of_nat i < fq_num_domains s" using u l by (simp add: word_less_nat_alt)
  show "unat (di_cycle_time (fq_domains s ! i)) = unat (cycle_times P ! i)"
    using periods_nth [OF s(1) l] assms(4) i(4) s(3) by simp
qed

text \<open>The future time of a cycle is late by the elapsed part of the current cycle, when the domain is in the middle of one.\<close>

lemma future_time_late:
  assumes "running s" "i < fq_num_domains s" "di_cycles (fq_domains s ! unat i) \<le> c"
    "unat c * unat (di_cycle_time (fq_domains s ! unat i)) < 2 ^ 63"
  shows "\<exists>k. freq_future_time i c s = Some k \<and> unat k =
    unat c * unat (di_cycle_time (fq_domains s ! unat i)) + unat (fq_cur_time s) mod unat (di_cycle_time (fq_domains s ! unat i))"
proof -
  let ?D = "fq_domains s ! unat i"
  let ?p = "unat (di_cycle_time ?D)" and ?t = "unat (fq_cur_time s)"
  have f: "follows ?t ?D" using assms(1,2) by (simp add: running_def word_less_nat_alt)
  then have d: "unat (di_cycles ?D) = ?t div ?p" "0 < ?p" by (simp_all add: follows_def unat_gt_0 word_gt_0)
  have le: "?t div ?p \<le> unat c" using assms(3) d(1) by (simp add: word_le_nat_alt)
  have p32: "?p < 2 ^ 32" using unsigned_less [of "di_cycle_time ?D"] by simp
  have m: "?t mod ?p < ?p" using d(2) by simp
  have e: "?t div ?p * ?p + ?t mod ?p = ?t" by simp
  have sum: "?t div ?p * ?p + (unat c - ?t div ?p) * ?p = unat c * ?p" using le by (simp add: distrib_right [symmetric])
  then have "unat ((c - di_cycles ?D) * ucast (di_cycle_time ?D)) = (unat c - ?t div ?p) * ?p"
    using assms(4) assms(3) d(1) by (simp add: unat_word_ariths(2) unat_sub)
  moreover have "?t + (unat c - ?t div ?p) * ?p = unat c * ?p + ?t mod ?p" using sum e by linarith
  ultimately have "unat (fq_cur_time s + (c - di_cycles ?D) * ucast (di_cycle_time ?D)) = unat c * ?p + ?t mod ?p"
    using assms(4) m p32 by (simp add: unat_word_ariths(1))
  then show ?thesis using assms(2,3) by (simp add: freq_future_time_def freq_time_def Let_def)
qed

section \<open>Properties\<close>

text \<open>C21: Every clock domain ticks exactly at the multiples of its cycle time, and time stops at every tick and
  nowhere else: after \<open>m\<close> advances from the initialisation the time is the \<open>m\<close>-th point, counted from 0, that is a
  multiple of some domain's cycle time; a domain is ready there exactly when the time is a multiple of its
  own, and has counted the multiples up to then.\<close>

theorem freq_ticks_exact:
  assumes "freq_init P freq_zero = Some s0" "m < 2 ^ 32"
  shows "\<exists>s. freq_run m s0 = Some s \<and>
    card (ticks (map unat (cycle_times P)) (unat (freq_time s))) = m \<and>
    (0 < m \<longrightarrow> unat (freq_time s) \<in> ticks (map unat (cycle_times P)) (unat (freq_time s))) \<and>
    (\<forall>i < length (cycle_times P).
       freq_is_ready (of_nat i) s = Some (unat (cycle_times P ! i) dvd unat (freq_time s)) \<and>
       freq_cycle_count (of_nat i) s = Some (of_nat (unat (freq_time s) div unat (cycle_times P ! i))))"
proof -
  note i = freq_init_running [OF assms(1)]
  have "unat (fq_cur_time s0) + m * 2 ^ 32 \<le> 2 ^ 64" using assms(2) by (simp add: i(2))
  moreover have "ticks (periods s0) 0 = {}" by (auto simp: ticks_def)
  ultimately obtain s where
    s: "freq_run m s0 = Some s" "running s" "fq_num_domains s = fq_num_domains s0" "periods s = periods s0"
    "0 < m \<longrightarrow> unat (fq_cur_time s) \<in> ticks (periods s0) (unat (fq_cur_time s))"
    "card (ticks (periods s0) (unat (fq_cur_time s))) = m"
    using run_follows [OF i(1,3)] i(2) by fastforce
  have len: "length (cycle_times P) = unat (fq_num_domains s)" using length_periods [OF i(1)] i(4) s(3) by simp
  have "freq_is_ready (of_nat j) s = Some (unat (cycle_times P ! j) dvd unat (freq_time s)) \<and>
      freq_cycle_count (of_nat j) s = Some (of_nat (unat (freq_time s) div unat (cycle_times P ! j)))"
    if j: "j < length (cycle_times P)" for j
  proof -
    have "unat (fq_num_domains s) < 2 ^ 32" using unsigned_less [of "fq_num_domains s"] by simp
    then have u: "unat (of_nat j :: uns) = j" using j len by (simp add: unat_of_nat)
    then have lt: "(of_nat j :: uns) < fq_num_domains s" using j len by (simp add: word_less_nat_alt)
    have p: "unat (cycle_times P ! j) = unat (di_cycle_time (fq_domains s ! j))"
      using periods_nth [OF s(2)] j len i(4) s(4) by simp
    have f: "follows (unat (fq_cur_time s)) (fq_domains s ! j)" using s(2) j len by (simp add: running_def)
    have "di_cycles (fq_domains s ! j) = of_nat (unat (di_cycles (fq_domains s ! j)))" by simp
    then have c: "di_cycles (fq_domains s ! j) = of_nat (unat (fq_cur_time s) div unat (di_cycle_time (fq_domains s ! j)))"
      using f by (simp only: follows_def)
    have "0 < unat (di_cycle_time (fq_domains s ! j))" using f by (simp add: follows_def unat_gt_0 word_gt_0)
    then have "unat (fq_cur_time s) mod unat (di_cycle_time (fq_domains s ! j)) < unat (di_cycle_time (fq_domains s ! j))" by simp
    then have "di_time_until_next_cycle (fq_domains s ! j) = 0 \<longleftrightarrow> unat (di_cycle_time (fq_domains s ! j)) dvd unat (fq_cur_time s)"
      using f by (auto simp: follows_def unat_eq_0 split: if_splits)
    with u lt p c show ?thesis by (simp add: freq_is_ready_def freq_cycle_count_def freq_time_def)
  qed
  with s i(4) show ?thesis by (intro exI [of _ s]) (simp add: freq_time_def)
qed

definition freq_small :: freq_params where
  "freq_small = \<lparr>CORE_CYCLE_TIMES = replicate 64 2, CHIP_CYCLE_TIME = 0, L1_CYCLE_TIME = 3, RAMULATOR_TCK = 5, NUM_CORES = 1\<rparr>"

lemma freq_small_init: "\<exists>s. freq_init freq_small freq_zero = Some s"
  by (simp add: freq_init_def freq_small_def freq_zero_def freq_domain_create_def MAX_FREQ_DOMAINS_def MAX_NUM_PROCS_def)

theorem freq_ticks_exact_witness:
  "\<exists>s0 s. freq_init freq_small freq_zero = Some s0 \<and> freq_run 4 s0 = Some s \<and> card (ticks [2, 3, 5] (unat (freq_time s))) = 4 \<and>
    freq_is_ready 0 s = Some (2 dvd unat (freq_time s))"
proof -
  have t: "cycle_times freq_small = [2, 3, 5]" by (simp add: cycle_times_def freq_small_def)
  obtain s0 where s0: "freq_init freq_small freq_zero = Some s0" using freq_small_init by blast
  with freq_ticks_exact [OF s0, of 4] show ?thesis by (fastforce simp: t)
qed

text \<open>C22: The conversion of a future cycle is exact: for a cycle count of one domain that is not in its past,
  the result is the first cycle of the other domain that starts at or after the start of that cycle, and
  not before the present. No intermediate value wraps while the times stay below 2 to the 63.\<close>

theorem freq_convert_future_least:
  assumes "freq_init P freq_zero = Some s0" "freq_run m s0 = Some s" "m < 2 ^ 31"
    "i < length (cycle_times P)" "j < length (cycle_times P)"
    "freq_cycle_count (of_nat i) s = Some now" "now \<le> c" "unat c * unat (cycle_times P ! i) < 2 ^ 63"
  shows "\<exists>k. freq_convert_future_cycle (of_nat i) c (of_nat j) s = Some k \<and>
    unat k = (LEAST n. max (unat (freq_time s)) (unat c * unat (cycle_times P ! i)) \<le> n * unat (cycle_times P ! j))"
proof -
  note r = run_domains [OF assms(1-3)]
  have "di_cycles (fq_domains s ! i) \<le> c"
    using assms(6,7) r(3) [OF assms(4)] by (simp add: freq_cycle_count_def split: if_splits)
  then show ?thesis
    using convert_future [OF r(1) r(4) r(4), OF assms(4,4,5)] r(2) [OF assms(4)] r(3,5) [OF assms(4)] r(3,5) [OF assms(5)] assms(8)
    by (simp add: periods_to_def freq_time_def)
qed

theorem freq_convert_future_least_witness:
  "\<exists>s0 s k. freq_init freq_small freq_zero = Some s0 \<and> freq_run 4 s0 = Some s \<and>
    freq_convert_future_cycle 0 7 2 s = Some k \<and> unat k = (LEAST n. max 5 14 \<le> n * (5::nat))"
proof -
  have t: "cycle_times freq_small = [2, 3, 5]" by (simp add: cycle_times_def freq_small_def)
  let ?a = "the (freq_init freq_small freq_zero)" and ?b = "the (freq_run 4 (the (freq_init freq_small freq_zero)))"
  have i: "freq_init freq_small freq_zero = Some ?a" using freq_small_init by auto
  have "map_option freq_time (freq_run 4 ?a) = Some 5" by code_simp
  then have r: "freq_run 4 ?a = Some ?b" "freq_time ?b = 5" by (cases "freq_run 4 ?a"; simp)+
  have "freq_cycle_count 0 ?b = Some 2" by code_simp
  note r = r(1) this r(2)
  have "\<exists>k. freq_convert_future_cycle 0 7 2 ?b = Some k \<and> unat k = (LEAST n. max 5 14 \<le> n * (5::nat))"
    using freq_convert_future_least [OF i r(1), of 0 2 2 7] r(2,3) by (simp add: t)
  with i r(1) show ?thesis by blast
qed

end
