(* ===== verification/Op_Types.thy ===== *)
theory Op_Types
  imports Hash_Lib "HOL-Library.Monad_Syntax"
begin

text \<open>
  The ops of the pipeline as \<^verbatim>\<open>op_pool.c\<close>, \<^verbatim>\<open>map.c\<close> and \<^verbatim>\<open>thread.c\<close> see them, and the state of these
  three files for one core.

  An op pointer is an index into the list of all ops: 0 is the static \<^verbatim>\<open>invalid_op\<close>, and \<open>k + 1\<close> the op
  with \<^verbatim>\<open>op_pool_id\<close> \<open>k\<close>. The free chain through \<^verbatim>\<open>op_pool_next\<close> and the sequential op list are lists of
  such indices, and a wake-up list is the list of its entries, from \<^verbatim>\<open>wake_up_head\<close> to \<^verbatim>\<open>wake_up_tail\<close>; of the
  free wake-up entries only the number is kept. \<open>None\<close> is a failed assertion or a bad pointer.
\<close>

section \<open>Static information\<close>

type_synonym uns16 = "16 word"

datatype Mem_Type = NOT_MEM | MEM_LD | MEM_ST | MEM_PF | MEM_WH | MEM_EVICT

record Table_Info =
  ti_mem_type :: Mem_Type
  ti_num_dest_regs :: uns
  ti_num_src_regs :: uns

text \<open>Of a register only the flattened number \<^verbatim>\<open>id\<close> is used.\<close>

record Inst_Info =
  ii_srcs :: "uns16 list"
  ii_dests :: "uns16 list"
  ii_fake_inst :: bool

definition NUM_REG_IDS :: nat where
  "NUM_REG_IDS = 32 + 32 + 8 + (32 + 32 + 8)"

section \<open>Ops\<close>

datatype Dep_Type = REG_DATA_DEP | MEM_ADDR_DEP | MEM_DATA_DEP

definition MAX_DEPS :: nat where
  "MAX_DEPS = 128"

type_synonym opp = nat

definition invalid_op :: opp where
  "invalid_op = 0"

record Src_Info =
  sr_type :: Dep_Type
  sr_op :: opp
  sr_op_num :: Counter
  sr_unique_num :: Counter

record Wake_Up_Entry =
  wu_op :: opp
  wu_unique_num :: Counter
  wu_dep_type :: Dep_Type
  wu_rdy_bit :: uns8

datatype Op_State =
  OS_FETCHED | OS_ISSUED | OS_IN_RS | OS_SLEEP | OS_WAIT_FWD | OS_LOW_PRIORITY | OS_READY | OS_TENTATIVE |
  OS_SCHEDULED | OS_MISS | OS_WAIT_DCACHE | OS_WAIT_MEM | OS_DONE

text \<open>The fields that \<^verbatim>\<open>op_pool_setup_op\<close> only sets to constants and nothing here reads.\<close>

record Op_Fresh =
  of_bom :: bool
  of_eom :: bool
  of_exit :: bool
  of_derived_from_prog_input :: cint
  of_sources_addr_reg :: bool
  of_thread_id :: uns
  of_fetch_addr :: Addr
  of_fu_num :: uns
  of_map_cycle :: Counter
  of_sched_cycle :: Counter
  of_exec_cycle :: Counter
  of_dcache_cycle :: Counter
  of_done_cycle :: Counter
  of_retire_cycle :: Counter
  of_replay_cycle :: Counter
  of_replay_count :: uns
  of_dont_cause_replays :: bool
  of_exec_count :: uns
  of_in_node_list :: bool
  of_req :: bool
  of_chkpt_num :: Counter
  of_node_id :: Counter
  of_rs_id :: Counter
  of_same_src_last_op :: Counter
  of_update_fpcr :: bool
  of_error_event :: uns
  of_mispred :: bool
  of_misfetch :: bool
  of_recovery_sch :: bool
  of_oracle_cp_num :: cint
  of_dcmiss :: bool
  of_was_dep_on_l1_miss :: bool
  of_engine_num_srcs :: uns
  of_engine_update_fpcr :: bool
  of_recovery_scheduled :: bool
  of_redirect_scheduled :: bool

text \<open>The op, with the fields of its \<^verbatim>\<open>oracle_info\<close> and \<^verbatim>\<open>engine_info\<close> inlined. A missing table or
  instruction information is a null pointer or one to freed memory.\<close>

record Pool_Op =
  po_valid :: bool
  po_proc_id :: uns
  po_op_num :: Counter
  po_unique_num :: Counter
  po_unique_num_per_proc :: Counter
  po_table_info :: "Table_Info option"
  po_inst_info :: "Inst_Info option"
  po_num_srcs :: uns
  po_src_info :: "Src_Info list"
  po_va :: Addr
  po_mem_size :: uns
  po_l1_miss :: bool
  po_l1_miss_satisfied :: bool
  po_dep_on_l1_miss :: bool
  po_state :: Op_State
  po_issue_cycle :: Counter
  po_rdy_cycle :: Counter
  po_off_path :: bool
  po_in_rdy_list :: bool
  po_replay :: bool
  po_srcs_not_rdy_vector :: uns
  po_wake_up_signaled :: "Dep_Type set"
  po_wake_up_list :: "Wake_Up_Entry list"
  po_wake_up_count :: uns
  po_wake_cycle :: Counter
  po_marked :: bool
  po_fresh :: Op_Fresh

section \<open>State\<close>

record Map_Entry =
  me_op :: opp
  me_op_num :: Counter
  me_unique_num :: Counter

record Mem_Map_Entry =
  mm_op :: "opp list"
  mm_flag_mask :: uns
  mm_store_mask :: uns

record Map_Data =
  md_proc_id :: uns
  md_reg_map :: "Map_Entry list"
  md_map_flags :: "bool list"
  md_last_store :: "Map_Entry list"
  md_last_store_flag :: bool
  md_oracle_mem_hash :: "Mem_Map_Entry Hash_Table"
  md_free_list :: nat
  md_wake_up_entries :: uns
  md_active_wake_up_entries :: uns

text \<open>The pool, the thread of the core with its map and its sequential op list, the three counters of fetched ops,
  and the list of ready ops of the node stage. The op list is \<^verbatim>\<open>list_lib.c\<close>'s deque.\<close>

record Op_Machine =
  om_ops :: "Pool_Op list"
  om_free :: "opp list"
  op_pool_entries :: uns
  op_pool_active_ops :: uns
  td_proc_id :: uns
  td_map_data :: Map_Data
  td_seq_op_list :: "opp list"
  op_count :: Counter
  unique_count :: Counter
  unique_count_per_core :: Counter
  rdy_head :: "opp list"

record map_params =
  OBEY_REG_DEP :: bool
  MEM_OBEY_STORE_DEP :: bool
  MEM_OOO_STORES :: bool
  TRACK_L1_MISS_DEPS :: bool
  NODE_TABLE_SIZE :: uns

section \<open>Access to the ops\<close>

definition get_op :: "opp \<Rightarrow> Op_Machine \<Rightarrow> Pool_Op option" where
  "get_op p s = (if p < length (om_ops s) then Some (om_ops s ! p) else None)"

definition upd_op :: "opp \<Rightarrow> (Pool_Op \<Rightarrow> Pool_Op) \<Rightarrow> Op_Machine \<Rightarrow> Op_Machine" where
  "upd_op p f s = s\<lparr>om_ops := (om_ops s)[p := f (om_ops s ! p)]\<rparr>"

abbreviation upd_md :: "(Map_Data \<Rightarrow> Map_Data) \<Rightarrow> Op_Machine \<Rightarrow> Op_Machine" where
  "upd_md \<equiv> td_map_data_update"

text \<open>A loop whose body may fail, and an assertion.\<close>

fun loop :: "('a \<Rightarrow> 's \<Rightarrow> 's option) \<Rightarrow> 'a list \<Rightarrow> 's \<Rightarrow> 's option" where
  "loop f [] s = Some s"
| "loop f (x # xs) s = do { s \<leftarrow> f x s; loop f xs s }"

definition ensure :: "bool \<Rightarrow> unit option" where
  "ensure b = (if b then Some () else None)"

lemma ensure_simps [simp]: "ensure True = Some ()" "ensure False = None" "ensure b = Some u \<longleftrightarrow> b"
  by (auto simp: ensure_def)

lemma ensure_bind [simp]: "ensure b \<bind> f = Some r \<longleftrightarrow> b \<and> f () = Some r"
  by (auto simp: ensure_def)

lemma loop_append: "loop f (xs @ ys) s = loop f xs s \<bind> loop f ys"
  by (induction xs arbitrary: s) (auto simp: Option.bind_assoc split: bind_splits)

lemma loop_inv:
  assumes "loop f xs s = Some s'" "Q s" "\<And>x s s'. x \<in> set xs \<Longrightarrow> Q s \<Longrightarrow> f x s = Some s' \<Longrightarrow> Q s'"
  shows "Q s'"
  using assms by (induction xs arbitrary: s) (auto simp: bind_eq_Some_conv)

lemma get_op_upd [simp]:
  "get_op q (upd_op p f s) = (if q = p then map_option f (get_op p s) else get_op q s)"
  by (auto simp: get_op_def upd_op_def)

lemma get_op_upd_md [simp]: "get_op q (upd_md g s) = get_op q s"
  by (simp add: get_op_def)

lemma get_opD: "get_op p s = Some o' \<Longrightarrow> p < length (om_ops s) \<and> om_ops s ! p = o'"
  by (auto simp: get_op_def split: if_splits)

end
