(* ===== verification/Op_Map.thy ===== *)
theory Op_Map
  imports Op_Types
begin

text \<open>
  \<^verbatim>\<open>map.c\<close>, function by function: the register map and the last-store map, each with an on-path and an
  off-path half, the byte-granular map of the stores in flight, and the wake-up lists.

  The function to call on a wake-up is an argument, as it is in the code. Statistics and debug output are left
  out. A shift by 32 or more, which C leaves undefined, is a failure.
\<close>

section \<open>The not-ready bits\<close>

definition rdy_bit_ok :: "Pool_Op \<Rightarrow> uns \<Rightarrow> bool" where
  "rdy_bit_ok op b \<longleftrightarrow> b < po_num_srcs op \<and> b < 32"

definition clear_not_rdy_bit :: "opp \<Rightarrow> uns \<Rightarrow> Op_Machine \<Rightarrow> Op_Machine option" where
  "clear_not_rdy_bit p b s =
     do { op \<leftarrow> get_op p s; ensure (rdy_bit_ok op b);
          Some (upd_op p (\<lambda>op. op\<lparr>po_srcs_not_rdy_vector :=
                  and (po_srcs_not_rdy_vector op) (not (push_bit (unat b) 1))\<rparr>) s) }"

definition set_not_rdy_bit :: "opp \<Rightarrow> uns \<Rightarrow> Op_Machine \<Rightarrow> Op_Machine option" where
  "set_not_rdy_bit p b s =
     do { op \<leftarrow> get_op p s; ensure (rdy_bit_ok op b);
          Some (upd_op p (\<lambda>op. op\<lparr>po_srcs_not_rdy_vector := or (po_srcs_not_rdy_vector op) (push_bit (unat b) 1)\<rparr>) s) }"

definition test_not_rdy_bit :: "opp \<Rightarrow> uns \<Rightarrow> Op_Machine \<Rightarrow> bool option" where
  "test_not_rdy_bit p b s =
     do { op \<leftarrow> get_op p s; ensure (rdy_bit_ok op b);
          Some (0 < and (po_srcs_not_rdy_vector op) (push_bit (unat b) 1)) }"

section \<open>Sources\<close>

text \<open>Entry \<^verbatim>\<open>num_srcs\<close> of the source array is filled and its not-ready bit is set.\<close>

definition push_src :: "opp \<Rightarrow> Src_Info \<Rightarrow> Op_Machine \<Rightarrow> Op_Machine option" where
  "push_src p info s =
     do { op \<leftarrow> get_op p s;
          let src_num = po_num_srcs op;
          ensure (unat src_num < MAX_DEPS);
          set_not_rdy_bit p src_num
            (upd_op p (\<lambda>op. op\<lparr>po_num_srcs := src_num + 1, po_src_info := (po_src_info op)[unat src_num := info]\<rparr>) s) }"

definition add_src_from_op :: "opp \<Rightarrow> opp \<Rightarrow> Dep_Type \<Rightarrow> Op_Machine \<Rightarrow> Op_Machine option" where
  "add_src_from_op p sp type s =
     do { op \<leftarrow> get_op p s; src_op \<leftarrow> get_op sp s;
          ensure (md_proc_id (td_map_data s) = po_proc_id op \<and> po_proc_id op = po_proc_id src_op \<and>
            po_op_num src_op < po_op_num op);
          s \<leftarrow> push_src p \<lparr>sr_type = type, sr_op = sp, sr_op_num = po_op_num src_op, sr_unique_num = po_unique_num src_op\<rparr> s;
          (if type = MEM_DATA_DEP
           then do { st \<leftarrow> po_table_info src_op; ot \<leftarrow> po_table_info op;
                     ensure (ti_mem_type st = MEM_ST \<and> ti_mem_type ot = MEM_LD) }
           else Some ());
          Some s }"

definition add_src_from_map_entry :: "opp \<Rightarrow> Map_Entry \<Rightarrow> Dep_Type \<Rightarrow> Op_Machine \<Rightarrow> Op_Machine option" where
  "add_src_from_map_entry p e type s =
     do { op \<leftarrow> get_op p s;
          ensure (md_proc_id (td_map_data s) = po_proc_id op \<and> me_op_num e < po_op_num op);
          push_src p \<lparr>sr_type = type, sr_op = me_op e, sr_op_num = me_op_num e, sr_unique_num = me_unique_num e\<rparr> s }"

section \<open>The register map and the last store\<close>

definition reg_ind :: "uns16 \<Rightarrow> bool \<Rightarrow> nat" where
  "reg_ind i off = 2 * unat i + of_bool off"

definition read_reg :: "opp \<Rightarrow> uns16 \<Rightarrow> Op_Machine \<Rightarrow> Op_Machine option" where
  "read_reg p i s =
     (let md = td_map_data s
      in do { ensure (unat i < NUM_REG_IDS);
              add_src_from_map_entry p (md_reg_map md ! reg_ind i (md_map_flags md ! unat i)) REG_DATA_DEP s })"

definition read_reg_map :: "opp \<Rightarrow> Op_Machine \<Rightarrow> Op_Machine option" where
  "read_reg_map p s =
     do { op \<leftarrow> get_op p s; t \<leftarrow> po_table_info op; inst \<leftarrow> po_inst_info op;
          ensure (unat (ti_num_src_regs t) \<le> length (ii_srcs inst));
          loop (read_reg p) (take (unat (ti_num_src_regs t)) (ii_srcs inst)) s }"

definition read_store_map :: "map_params \<Rightarrow> opp \<Rightarrow> Op_Machine \<Rightarrow> Op_Machine option" where
  "read_store_map P p s =
     (if \<not> MEM_OBEY_STORE_DEP P \<or> MEM_OOO_STORES P then Some s
      else do { op \<leftarrow> get_op p s; t \<leftarrow> po_table_info op;
                let md = td_map_data s;
                if ti_mem_type t \<noteq> NOT_MEM
                then add_src_from_map_entry p (md_last_store md ! of_bool (md_last_store_flag md)) MEM_ADDR_DEP s
                else Some s })"

definition written_entry :: "opp \<Rightarrow> Pool_Op \<Rightarrow> Map_Entry" where
  "written_entry p op = \<lparr>me_op = p, me_op_num = po_op_num op, me_unique_num = po_unique_num op\<rparr>"

definition write_reg :: "opp \<Rightarrow> Pool_Op \<Rightarrow> uns16 \<Rightarrow> Map_Data \<Rightarrow> Map_Data option" where
  "write_reg p op i md =
     do { ensure (unat i < NUM_REG_IDS);
          Some (md\<lparr>md_reg_map := (md_reg_map md)[reg_ind i (po_off_path op) := written_entry p op],
                   md_map_flags := (md_map_flags md)[unat i := po_off_path op]\<rparr>) }"

definition write_store :: "opp \<Rightarrow> Pool_Op \<Rightarrow> Map_Data \<Rightarrow> Map_Data" where
  "write_store p op md =
     md\<lparr>md_last_store := (md_last_store md)[of_bool (po_off_path op) := written_entry p op],
        md_last_store_flag := po_off_path op\<rparr>"

definition update_map :: "opp \<Rightarrow> Op_Machine \<Rightarrow> Op_Machine option" where
  "update_map p s =
     do { op \<leftarrow> get_op p s;
          ensure (md_proc_id (td_map_data s) = po_proc_id op);
          t \<leftarrow> po_table_info op; inst \<leftarrow> po_inst_info op;
          ensure (unat (ti_num_dest_regs t) \<le> length (ii_dests inst));
          md \<leftarrow> loop (write_reg p op) (take (unat (ti_num_dest_regs t)) (ii_dests inst)) (td_map_data s);
          Some (s\<lparr>td_map_data := (if ti_mem_type t = MEM_ST then write_store p op md else md)\<rparr>) }"

definition map_op :: "map_params \<Rightarrow> opp \<Rightarrow> Op_Machine \<Rightarrow> Op_Machine option" where
  "map_op P p s =
     do { op \<leftarrow> get_op p s;
          ensure (md_proc_id (td_map_data s) = po_proc_id op);
          s \<leftarrow> read_reg_map p s;
          s \<leftarrow> read_store_map P p s;
          update_map p s }"

section \<open>Traversals of the memory map\<close>

definition BYTE_OVERLAP :: "Addr \<Rightarrow> uns \<Rightarrow> Addr \<Rightarrow> uns \<Rightarrow> bool" where
  "BYTE_OVERLAP a0 s0 a1 s1 \<longleftrightarrow> (ucast a0 :: uns32) - ucast a1 < s1 \<or> (ucast a1 :: uns32) - ucast a0 < s0"

definition MEM_MAP_ENTRY_SIZE :: "'a::len word" where
  "MEM_MAP_ENTRY_SIZE = 8"

definition MEM_MAP_BYTE_IN_ENTRY :: "Addr \<Rightarrow> uns" where
  "MEM_MAP_BYTE_IN_ENTRY va = ucast (and va (MEM_MAP_ENTRY_SIZE - 1))"

definition MEM_MAP_ENTRY_ADDR :: "Addr \<Rightarrow> Addr" where
  "MEM_MAP_ENTRY_ADDR va = and va (not (MEM_MAP_ENTRY_SIZE - 1))"

definition MEM_MAP_KEY :: "Addr \<Rightarrow> 64 word" where
  "MEM_MAP_KEY va = drop_bit 3 va"

definition MEM_MAP_BYTE_INDEX :: "uns \<Rightarrow> bool \<Rightarrow> nat" where
  "MEM_MAP_BYTE_INDEX byte off_path = unat byte + (if off_path then 8 else 0)"

definition TESTBIT :: "uns \<Rightarrow> nat \<Rightarrow> bool" where
  "TESTBIT v b \<longleftrightarrow> and (drop_bit b v) 1 \<noteq> 0"

definition SETBIT :: "uns \<Rightarrow> nat \<Rightarrow> uns" where
  "SETBIT v b = or v (push_bit b 1)"

definition CLRBIT :: "uns \<Rightarrow> nat \<Rightarrow> uns" where
  "CLRBIT v b = and v (not (push_bit b 1))"

definition DEFBIT :: "uns \<Rightarrow> nat \<Rightarrow> bool \<Rightarrow> uns" where
  "DEFBIT v b x = or (and v (not (push_bit b 1))) (push_bit b (if x then 1 else 0))"

record Mem_Map_Traversal =
  tr_entry_addr :: Addr
  tr_first_entry_addr :: Addr
  tr_last_entry_addr :: Addr
  tr_first_entry_first_byte :: uns
  tr_last_entry_last_byte :: uns

definition mem_map_entry_traversal_done :: "Mem_Map_Traversal \<Rightarrow> bool" where
  "mem_map_entry_traversal_done t \<longleftrightarrow> tr_entry_addr t = ADDR_PLUS_OFFSET (tr_last_entry_addr t) MEM_MAP_ENTRY_SIZE"

definition mem_map_entry_traversal_next :: "Mem_Map_Traversal \<Rightarrow> Mem_Map_Traversal" where
  "mem_map_entry_traversal_next t = t\<lparr>tr_entry_addr := ADDR_PLUS_OFFSET (tr_entry_addr t) MEM_MAP_ENTRY_SIZE\<rparr>"

text \<open>The offset \<^verbatim>\<open>size - 1\<close> is computed in 32 bits and extended with zeros. The assertion after the
  special case holds by construction.\<close>

definition mem_map_entry_traversal_init :: "Addr \<Rightarrow> uns \<Rightarrow> Mem_Map_Traversal" where
  "mem_map_entry_traversal_init va sz =
     (let last_va = ADDR_PLUS_OFFSET va (ucast (sz - 1));
          first = MEM_MAP_ENTRY_ADDR va; final = MEM_MAP_ENTRY_ADDR last_va
      in \<lparr>tr_entry_addr = (if sz = 0 then ADDR_PLUS_OFFSET final MEM_MAP_ENTRY_SIZE else first),
          tr_first_entry_addr = first, tr_last_entry_addr = final,
          tr_first_entry_first_byte = MEM_MAP_BYTE_IN_ENTRY va, tr_last_entry_last_byte = MEM_MAP_BYTE_IN_ENTRY last_va\<rparr>)"

text \<open>The bytes of the current entry, in the order in which the byte traversal visits them.\<close>

definition mem_map_byte_traversal :: "Mem_Map_Traversal \<Rightarrow> uns list option" where
  "mem_map_byte_traversal t =
     (let byte = (if tr_entry_addr t = tr_first_entry_addr t then tr_first_entry_first_byte t else 0);
          last_byte = (if tr_entry_addr t = tr_last_entry_addr t then tr_last_entry_last_byte t else MEM_MAP_ENTRY_SIZE - 1)
      in if byte \<le> last_byte then Some (map of_nat [unat byte ..< Suc (unat last_byte)]) else None)"

text \<open>The loop over the entries, with its body as an argument; it need not end.\<close>

partial_function (option) mem_map_entries ::
    "(Mem_Map_Traversal \<Rightarrow> 's \<Rightarrow> 's option) \<Rightarrow> Mem_Map_Traversal \<Rightarrow> 's \<Rightarrow> 's option" where
  "mem_map_entries body t s =
     (if mem_map_entry_traversal_done t then Some s
      else do { s \<leftarrow> body t s; mem_map_entries body (mem_map_entry_traversal_next t) s })"

section \<open>The map of the stores in flight\<close>

text \<open>Writing an entry through the pointer that the lookup returned.\<close>

definition put_entry :: "64 word \<Rightarrow> Mem_Map_Entry \<Rightarrow> Mem_Map_Entry Hash_Table \<Rightarrow> Mem_Map_Entry Hash_Table option" where
  "put_entry k e h = hash_table_access_replace h k (Some e)"

definition delete_byte :: "opp \<Rightarrow> bool \<Rightarrow> uns \<Rightarrow> Mem_Map_Entry \<Rightarrow> Mem_Map_Entry" where
  "delete_byte p off byte e =
     (let ind = MEM_MAP_BYTE_INDEX byte off
      in if TESTBIT (mm_store_mask e) ind \<and> mm_op e ! ind = p
         then e\<lparr>mm_store_mask := CLRBIT (mm_store_mask e) ind\<rparr> else e)"

definition delete_entry ::
    "opp \<Rightarrow> bool \<Rightarrow> Mem_Map_Traversal \<Rightarrow> Mem_Map_Entry Hash_Table \<Rightarrow> Mem_Map_Entry Hash_Table option" where
  "delete_entry p off t h =
     (let k = MEM_MAP_KEY (tr_entry_addr t)
      in case hash_table_access h k of
           None \<Rightarrow> Some h
         | Some e \<Rightarrow>
             do { bytes \<leftarrow> mem_map_byte_traversal t;
                  let e' = fold (delete_byte p off) bytes e;
                  h \<leftarrow> put_entry k e' h;
                  if mm_store_mask e' = 0 then map_option snd (hash_table_access_delete h k) else Some h })"

definition delete_store_hash_entry :: "opp \<Rightarrow> Op_Machine \<Rightarrow> Op_Machine option" where
  "delete_store_hash_entry p s =
     do { op \<leftarrow> get_op p s;
          ensure (md_proc_id (td_map_data s) = po_proc_id op);
          h \<leftarrow> mem_map_entries (delete_entry p (po_off_path op)) (mem_map_entry_traversal_init (po_va op) (po_mem_size op))
                 (md_oracle_mem_hash (td_map_data s));
          Some (upd_md (\<lambda>md. md\<lparr>md_oracle_mem_hash := h\<rparr>) s) }"

definition store_byte :: "opp \<Rightarrow> bool \<Rightarrow> uns \<Rightarrow> Mem_Map_Entry \<Rightarrow> Mem_Map_Entry" where
  "store_byte p off byte e =
     (let ind = MEM_MAP_BYTE_INDEX byte off
      in e\<lparr>mm_flag_mask := DEFBIT (mm_flag_mask e) (unat byte) off,
           mm_store_mask := SETBIT (mm_store_mask e) ind, mm_op := (mm_op e)[ind := p]\<rparr>)"

text \<open>A new entry comes from \<^verbatim>\<open>smalloc\<close>; only its masks are cleared.\<close>

definition store_entry ::
    "Mem_Map_Entry \<Rightarrow> opp \<Rightarrow> bool \<Rightarrow> Mem_Map_Traversal \<Rightarrow> Mem_Map_Entry Hash_Table \<Rightarrow> Mem_Map_Entry Hash_Table option" where
  "store_entry fresh p off t h =
     (let k = MEM_MAP_KEY (tr_entry_addr t)
      in do { (e, new_entry, h) \<leftarrow> hash_table_access_create h k fresh;
              bytes \<leftarrow> mem_map_byte_traversal t;
              put_entry k (fold (store_byte p off) bytes
                (if new_entry then e\<lparr>mm_flag_mask := 0, mm_store_mask := 0\<rparr> else e)) h })"

definition update_store_hash :: "Mem_Map_Entry \<Rightarrow> opp \<Rightarrow> Op_Machine \<Rightarrow> Op_Machine option" where
  "update_store_hash fresh p s =
     do { op \<leftarrow> get_op p s;
          ensure (md_proc_id (td_map_data s) = po_proc_id op);
          h \<leftarrow> mem_map_entries (store_entry fresh p (po_off_path op))
                 (mem_map_entry_traversal_init (po_va op) (po_mem_size op)) (md_oracle_mem_hash (td_map_data s));
          Some (upd_md (\<lambda>md. md\<lparr>md_oracle_mem_hash := h\<rparr>) s) }"

text \<open>A byte of a load: the store that wrote it last, on the path that the flag of the byte tells, becomes a
  source (stores out of order) or is compared with the latest one found so far.\<close>

definition load_byte ::
    "map_params \<Rightarrow> opp \<Rightarrow> Mem_Map_Entry \<Rightarrow> uns \<Rightarrow> opp option \<times> Op_Machine \<Rightarrow> (opp option \<times> Op_Machine) option" where
  "load_byte P p e byte = (\<lambda>(last_src_op, s).
     let ind = MEM_MAP_BYTE_INDEX byte (TESTBIT (mm_flag_mask e) (unat byte)) in
     if \<not> TESTBIT (mm_store_mask e) ind then Some (last_src_op, s)
     else let sp = mm_op e ! ind in
     do { op \<leftarrow> get_op p s; src_op \<leftarrow> get_op sp s;
          ensure (BYTE_OVERLAP (po_va src_op) (po_mem_size src_op) (po_va op) (po_mem_size op));
          s \<leftarrow> (if MEM_OOO_STORES P \<and> \<not> po_marked src_op
               then do { s \<leftarrow> add_src_from_op p sp MEM_DATA_DEP s; Some (upd_op sp (\<lambda>o'. o'\<lparr>po_marked := True\<rparr>) s) }
               else Some s);
          (case last_src_op of
             None \<Rightarrow> Some (Some sp, s)
           | Some l \<Rightarrow> do { lop \<leftarrow> get_op l s;
                            Some (if po_op_num lop < po_op_num src_op then Some sp else Some l, s) }) })"

definition load_entry ::
    "map_params \<Rightarrow> opp \<Rightarrow> Mem_Map_Traversal \<Rightarrow> opp option \<times> Op_Machine \<Rightarrow> (opp option \<times> Op_Machine) option" where
  "load_entry P p t st =
     (case hash_table_access (md_oracle_mem_hash (td_map_data (snd st))) (MEM_MAP_KEY (tr_entry_addr t)) of
        None \<Rightarrow> Some st
      | Some e \<Rightarrow> do { bytes \<leftarrow> mem_map_byte_traversal t; loop (load_byte P p e) bytes st })"

definition unmark_src :: "opp \<Rightarrow> nat \<Rightarrow> Op_Machine \<Rightarrow> Op_Machine option" where
  "unmark_src p i s =
     do { op \<leftarrow> get_op p s;
          let sp = sr_op (po_src_info op ! i);
          src_op \<leftarrow> get_op sp s;
          ensure (po_marked src_op);
          Some (upd_op sp (\<lambda>o'. o'\<lparr>po_marked := False\<rparr>) s) }"

definition add_store_deps :: "map_params \<Rightarrow> opp \<Rightarrow> Op_Machine \<Rightarrow> (opp option \<times> Op_Machine) option" where
  "add_store_deps P p s =
     do { op \<leftarrow> get_op p s;
          ensure (md_proc_id (td_map_data s) = po_proc_id op);
          (last_src_op, s) \<leftarrow>
            mem_map_entries (load_entry P p) (mem_map_entry_traversal_init (po_va op) (po_mem_size op)) (None, s);
          (case last_src_op of
             None \<Rightarrow> Some (None, s)
           | Some l \<Rightarrow>
               do { lop \<leftarrow> get_op l s;
                    ensure (po_op_num lop < po_op_num op \<or> po_off_path op);
                    op' \<leftarrow> get_op p s;
                    s \<leftarrow> (if MEM_OOO_STORES P then loop (unmark_src p) [unat (po_num_srcs op) ..< unat (po_num_srcs op')] s
                         else add_src_from_op p l MEM_DATA_DEP s);
                    Some (Some l, s) }) }"

definition map_mem_dep :: "map_params \<Rightarrow> Mem_Map_Entry \<Rightarrow> opp \<Rightarrow> Op_Machine \<Rightarrow> Op_Machine option" where
  "map_mem_dep P fresh p s =
     (if \<not> MEM_OBEY_STORE_DEP P then Some s
      else do { op \<leftarrow> get_op p s; t \<leftarrow> po_table_info op;
                s \<leftarrow> (if ti_mem_type t = MEM_ST then update_store_hash fresh p s else Some s);
                if ti_mem_type t = MEM_LD then map_option snd (add_store_deps P p s) else Some s })"

section \<open>Initialisation and recovery\<close>

definition WAKE_UP_ENTRIES_INC :: nat where
  "WAKE_UP_ENTRIES_INC = 256"

definition expand_wake_up_entries :: "Map_Data \<Rightarrow> Map_Data option" where
  "expand_wake_up_entries md =
     (let n = md_wake_up_entries md + of_nat WAKE_UP_ENTRIES_INC
      in do { ensure (unat n \<le> WAKE_UP_ENTRIES_INC * 128);
              Some (md\<lparr>md_free_list := md_free_list md + WAKE_UP_ENTRIES_INC, md_wake_up_entries := n\<rparr>) })"

definition reset_entry :: "Map_Entry \<Rightarrow> Map_Entry" where
  "reset_entry e = e\<lparr>me_op := invalid_op, me_op_num := 0\<rparr>"

definition reset_map_data :: "Map_Data \<Rightarrow> Map_Data" where
  "reset_map_data md =
     md\<lparr>md_reg_map := map reset_entry (md_reg_map md), md_map_flags := map (\<lambda>_. False) (md_map_flags md),
        md_last_store := map reset_entry (md_last_store md)\<rparr>"

definition reset_map :: "Op_Machine \<Rightarrow> Op_Machine" where
  "reset_map s = upd_md reset_map_data s"

text \<open>\<^verbatim>\<open>memset\<close> zeroes the structure before the loops.\<close>

definition zero_entry :: Map_Entry where
  "zero_entry = \<lparr>me_op = invalid_op, me_op_num = 0, me_unique_num = 0\<rparr>"

definition init_map :: "map_params \<Rightarrow> uns8 \<Rightarrow> Op_Machine \<Rightarrow> Op_Machine option" where
  "init_map P proc_id s =
     do { md \<leftarrow> expand_wake_up_entries
            \<lparr>md_proc_id = ucast proc_id, md_reg_map = replicate (NUM_REG_IDS * 2) zero_entry,
             md_map_flags = replicate NUM_REG_IDS False, md_last_store = replicate 2 zero_entry,
             md_last_store_flag = False, md_oracle_mem_hash = init_hash_table ''oracle mem dependence map'' (NODE_TABLE_SIZE P) 136,
             md_free_list = 0, md_wake_up_entries = 0, md_active_wake_up_entries = 0\<rparr>;
          Some (s\<lparr>td_map_data := md\<rparr>) }"

definition recover_mem_map_entry :: "Mem_Map_Entry \<Rightarrow> Mem_Map_Entry" where
  "recover_mem_map_entry e = e\<lparr>mm_flag_mask := 0\<rparr>"

text \<open>The scan, with the data of every node changed in place.\<close>

definition recover_mem_hash :: "Mem_Map_Entry Hash_Table \<Rightarrow> Mem_Map_Entry Hash_Table option" where
  "recover_mem_hash h =
     do { _ \<leftarrow> hash_table_scan h (\<lambda>_ u. u) ();
          Some (h\<lparr>ht_entries := map (map (\<lambda>n. n\<lparr>hte_data := recover_mem_map_entry (hte_data n)\<rparr>)) (ht_entries h)\<rparr>) }"

definition rebuild_op :: "Mem_Map_Entry \<Rightarrow> opp \<Rightarrow> Op_Machine \<Rightarrow> Op_Machine option" where
  "rebuild_op fresh p s =
     do { s \<leftarrow> update_map p s;
          op \<leftarrow> get_op p s; t \<leftarrow> po_table_info op;
          if ti_mem_type t = MEM_ST then update_store_hash fresh p s else Some s }"

definition rebuild_offpath_map :: "Mem_Map_Entry \<Rightarrow> Op_Machine \<Rightarrow> Op_Machine option" where
  "rebuild_offpath_map fresh s =
     do { ensure (md_proc_id (td_map_data s) = td_proc_id s);
          loop (rebuild_op fresh) (dropWhile (\<lambda>p. \<not> po_off_path (om_ops s ! p)) (td_seq_op_list s)) s }"

definition recover_map :: "Mem_Map_Entry \<Rightarrow> Op_Machine \<Rightarrow> Op_Machine option" where
  "recover_map fresh s =
     do { let md = td_map_data s;
          h \<leftarrow> recover_mem_hash (md_oracle_mem_hash md);
          rebuild_offpath_map fresh (s\<lparr>td_map_data :=
            md\<lparr>md_map_flags := map (\<lambda>_. False) (md_map_flags md), md_last_store_flag := False, md_oracle_mem_hash := h\<rparr>\<rparr>) }"

section \<open>Wake-up lists\<close>

text \<open>The action of a wake-up: source, dependent and the bit.\<close>

type_synonym wake_action = "opp \<Rightarrow> opp \<Rightarrow> uns8 \<Rightarrow> Op_Machine \<Rightarrow> Op_Machine option"

definition wake_up_one :: "opp \<Rightarrow> Dep_Type \<Rightarrow> wake_action \<Rightarrow> Wake_Up_Entry \<Rightarrow> Op_Machine \<Rightarrow> Op_Machine option" where
  "wake_up_one p type wake_action temp s =
     (if wu_dep_type temp \<noteq> type then Some s
      else do { op \<leftarrow> get_op p s; dep_op \<leftarrow> get_op (wu_op temp) s;
                if po_unique_num dep_op = wu_unique_num temp \<and> po_valid dep_op
                then do { ensure (po_proc_id op = po_proc_id dep_op);
                          nr \<leftarrow> test_not_rdy_bit (wu_op temp) (ucast (wu_rdy_bit temp)) s;
                          if nr then do { s \<leftarrow> clear_not_rdy_bit (wu_op temp) (ucast (wu_rdy_bit temp)) s;
                                          wake_action p (wu_op temp) (wu_rdy_bit temp) s }
                          else Some s }
                else Some s })"

text \<open>No action changes a wake-up list, so the list is read once.\<close>

definition wake_up_ops :: "opp \<Rightarrow> Dep_Type \<Rightarrow> wake_action \<Rightarrow> Op_Machine \<Rightarrow> Op_Machine option" where
  "wake_up_ops p type wake_action s =
     do { op \<leftarrow> get_op p s;
          ensure (type \<notin> po_wake_up_signaled op \<or> po_replay op);
          s \<leftarrow> loop (wake_up_one p type wake_action) (po_wake_up_list op) s;
          Some (upd_op p (\<lambda>op. op\<lparr>po_wake_up_signaled := insert type (po_wake_up_signaled op)\<rparr>) s) }"

text \<open>Taking an entry from the free list, expanding it when it is empty.\<close>

definition take_wake_up_entry :: "Map_Data \<Rightarrow> Map_Data option" where
  "take_wake_up_entry md =
     do { md \<leftarrow> (if md_free_list md = 0
                then do { ensure (md_active_wake_up_entries md = md_wake_up_entries md); expand_wake_up_entries md }
                else Some md);
          Some (md\<lparr>md_active_wake_up_entries := md_active_wake_up_entries md + 1, md_free_list := md_free_list md - 1\<rparr>) }"

definition append_wake :: "Wake_Up_Entry \<Rightarrow> Pool_Op \<Rightarrow> Pool_Op" where
  "append_wake wake op =
     op\<lparr>po_wake_up_list := po_wake_up_list op @ [wake],
        po_wake_up_count := (if po_wake_up_list op = [] then 1 else po_wake_up_count op + 1)\<rparr>"

definition depend_on_src :: "map_params \<Rightarrow> wake_action \<Rightarrow> opp \<Rightarrow> nat \<Rightarrow> Op_Machine \<Rightarrow> Op_Machine option" where
  "depend_on_src P wake_action p ii s =
     do { op \<leftarrow> get_op p s;
          let src_info = po_src_info op ! ii;
          let sp = sr_op src_info;
          src_op \<leftarrow> get_op sp s;
          if (OBEY_REG_DEP P \<or> sr_type src_info \<noteq> REG_DATA_DEP) \<and> po_valid src_op \<and>
             po_unique_num src_op = sr_unique_num src_info
          then do {
            ensure (po_proc_id op = po_proc_id src_op);
            md \<leftarrow> take_wake_up_entry (td_map_data s);
            let wake = \<lparr>wu_op = p, wu_unique_num = po_unique_num op, wu_dep_type = sr_type src_info, wu_rdy_bit = of_nat ii\<rparr>;
            let s = upd_op sp (append_wake wake) (s\<lparr>td_map_data := md\<rparr>);
            let s = (if TRACK_L1_MISS_DEPS P \<and> (po_l1_miss src_op \<and> \<not> po_l1_miss_satisfied src_op \<or> po_dep_on_l1_miss src_op)
                     then upd_op p (\<lambda>op. op\<lparr>po_dep_on_l1_miss := True\<rparr>) s else s);
            if sr_type src_info \<in> po_wake_up_signaled src_op
            then do { s \<leftarrow> clear_not_rdy_bit p (of_nat ii) s; wake_action sp p (of_nat ii) s }
            else Some s }
          else clear_not_rdy_bit p (of_nat ii)
                 (upd_op p (\<lambda>op. op\<lparr>po_src_info := (po_src_info op)[ii := src_info\<lparr>sr_op := invalid_op\<rparr>]\<rparr>) s) }"

text \<open>The op information that is passed is always the op's own \<^verbatim>\<open>oracle_info\<close>.\<close>

definition add_to_wake_up_lists :: "map_params \<Rightarrow> wake_action \<Rightarrow> opp \<Rightarrow> Op_Machine \<Rightarrow> Op_Machine option" where
  "add_to_wake_up_lists P wake_action p s =
     do { op \<leftarrow> get_op p s;
          ensure (po_proc_id op = md_proc_id (td_map_data s));
          loop (depend_on_src P wake_action p) [0 ..< unat (po_num_srcs op)] s }"

definition free_wake_up_list :: "opp \<Rightarrow> Op_Machine \<Rightarrow> Op_Machine option" where
  "free_wake_up_list p s =
     do { op \<leftarrow> get_op p s;
          ensure (po_proc_id op = md_proc_id (td_map_data s));
          if po_wake_up_list op = [] then Some s
          else Some (upd_op p (\<lambda>op. op\<lparr>po_wake_up_list := []\<rparr>)
                 (upd_md (\<lambda>md. md\<lparr>md_free_list := md_free_list md + length (po_wake_up_list op),
                                  md_active_wake_up_entries := md_active_wake_up_entries md - po_wake_up_count op\<rparr>) s)) }"

definition simple_wake :: "Counter \<Rightarrow> wake_action" where
  "simple_wake cycle_count sp dp rdy_bit s =
     do { src_op \<leftarrow> get_op sp s; dep_op \<leftarrow> get_op dp s;
          ensure (po_proc_id src_op = po_proc_id dep_op \<and> sp \<noteq> invalid_op \<and> dp \<noteq> invalid_op);
          let rdy = max (po_rdy_cycle dep_op) (po_wake_cycle src_op);
          Some (upd_op dp (\<lambda>op. op\<lparr>po_rdy_cycle := rdy,
                  po_state := (if po_srcs_not_rdy_vector op = 0
                               then (if rdy = cycle_count + 1 then OS_READY else OS_WAIT_FWD) else po_state op)\<rparr>) s) }"

text \<open>The wake-up of the CMP model, \<^verbatim>\<open>cmp_model.c\<close>: an op in a reservation station whose last source wakes it
  enters the list of ready ops.\<close>

definition cmp_wake :: "uns \<Rightarrow> Counter \<Rightarrow> wake_action" where
  "cmp_wake node_proc_id cycle_count sp dp rdy_bit s =
     do { src_op \<leftarrow> get_op sp s; dep_op \<leftarrow> get_op dp s;
          ensure (po_proc_id src_op = po_proc_id dep_op \<and> po_proc_id dep_op = node_proc_id);
          if po_state dep_op \<noteq> OS_IN_RS
          then Some (upd_op dp (\<lambda>op. op\<lparr>po_rdy_cycle := max (po_rdy_cycle op) (po_wake_cycle src_op)\<rparr>) s)
          else do { s \<leftarrow> simple_wake cycle_count sp dp rdy_bit s;
                    dep_op \<leftarrow> get_op dp s;
                    Some (if po_srcs_not_rdy_vector dep_op = 0 \<and> po_issue_cycle dep_op \<le> cycle_count \<and> \<not> po_in_rdy_list dep_op
                          then upd_op dp (\<lambda>op. op\<lparr>po_in_rdy_list := True\<rparr>) (s\<lparr>rdy_head := dp # rdy_head s\<rparr>) else s) } }"

end
