(* ===== verification/Op_Pool.thy ===== *)
theory Op_Pool
  imports Op_Map
begin

text \<open>
  \<^verbatim>\<open>op_pool.c\<close> and \<^verbatim>\<open>thread.c\<close>, function by function, and the part of the fetch stage that puts an op on the
  path (\<^verbatim>\<open>icache_stage.c\<close>). The front end is outside: what it puts into a fetched op, and whether it agrees with
  a recovery, are arguments.
\<close>

section \<open>The pool\<close>

definition OP_POOL_ENTRIES_INC :: nat where
  "OP_POOL_ENTRIES_INC = 128"

definition fresh_fields :: Op_Fresh where
  "fresh_fields =
     \<lparr>of_bom = False, of_eom = False, of_exit = False, of_derived_from_prog_input = 0, of_sources_addr_reg = False,
      of_thread_id = 0, of_fetch_addr = 0, of_fu_num = - 1, of_map_cycle = MAX_CTR, of_sched_cycle = MAX_CTR,
      of_exec_cycle = MAX_CTR, of_dcache_cycle = MAX_CTR, of_done_cycle = MAX_CTR, of_retire_cycle = MAX_CTR,
      of_replay_cycle = MAX_CTR, of_replay_count = 0, of_dont_cause_replays = False, of_exec_count = 0,
      of_in_node_list = False, of_req = False, of_chkpt_num = MAX_CTR, of_node_id = MAX_CTR, of_rs_id = MAX_CTR,
      of_same_src_last_op = 0, of_update_fpcr = False, of_error_event = 0, of_mispred = False, of_misfetch = False,
      of_recovery_sch = False, of_oracle_cp_num = - 1, of_dcmiss = False, of_was_dep_on_l1_miss = False,
      of_engine_num_srcs = 0, of_engine_update_fpcr = False, of_recovery_scheduled = False,
      of_redirect_scheduled = False\<rparr>"

definition op_pool_setup_op :: "uns \<Rightarrow> opp \<Rightarrow> Op_Machine \<Rightarrow> Op_Machine option" where
  "op_pool_setup_op proc_id p s =
     do { _ \<leftarrow> get_op p s;
          Some (upd_op p (\<lambda>op. op\<lparr>
            po_fresh := fresh_fields, po_srcs_not_rdy_vector := 0, po_marked := False,
            po_op_num := op_count s, po_unique_num := unique_count s, po_unique_num_per_proc := unique_count_per_core s,
            po_proc_id := proc_id, po_off_path := False, po_state := OS_FETCHED, po_issue_cycle := MAX_CTR, po_rdy_cycle := 1,
            po_replay := False, po_in_rdy_list := False, po_num_srcs := 0,
            po_l1_miss := False, po_l1_miss_satisfied := False, po_dep_on_l1_miss := False,
            po_wake_up_signaled := {}\<rparr>) s) }"

text \<open>\<^verbatim>\<open>calloc\<close> zeroes the new ops.\<close>

definition zero_fields :: Op_Fresh where
  "zero_fields =
     \<lparr>of_bom = False, of_eom = False, of_exit = False, of_derived_from_prog_input = 0, of_sources_addr_reg = False,
      of_thread_id = 0, of_fetch_addr = 0, of_fu_num = 0, of_map_cycle = 0, of_sched_cycle = 0,
      of_exec_cycle = 0, of_dcache_cycle = 0, of_done_cycle = 0, of_retire_cycle = 0,
      of_replay_cycle = 0, of_replay_count = 0, of_dont_cause_replays = False, of_exec_count = 0,
      of_in_node_list = False, of_req = False, of_chkpt_num = 0, of_node_id = 0, of_rs_id = 0,
      of_same_src_last_op = 0, of_update_fpcr = False, of_error_event = 0, of_mispred = False, of_misfetch = False,
      of_recovery_sch = False, of_oracle_cp_num = 0, of_dcmiss = False, of_was_dep_on_l1_miss = False,
      of_engine_num_srcs = 0, of_engine_update_fpcr = False, of_recovery_scheduled = False,
      of_redirect_scheduled = False\<rparr>"

definition zero_src :: Src_Info where
  "zero_src = \<lparr>sr_type = REG_DATA_DEP, sr_op = invalid_op, sr_op_num = 0, sr_unique_num = 0\<rparr>"

definition zero_op :: Pool_Op where
  "zero_op =
     \<lparr>po_valid = False, po_proc_id = 0, po_op_num = 0, po_unique_num = 0, po_unique_num_per_proc = 0,
      po_table_info = None, po_inst_info = None, po_num_srcs = 0, po_src_info = replicate MAX_DEPS zero_src,
      po_va = 0, po_mem_size = 0, po_l1_miss = False, po_l1_miss_satisfied = False, po_dep_on_l1_miss = False,
      po_state = OS_FETCHED, po_issue_cycle = 0, po_rdy_cycle = 0, po_off_path = False, po_in_rdy_list = False,
      po_replay = False, po_srcs_not_rdy_vector = 0, po_wake_up_signaled = {}, po_wake_up_list = [],
      po_wake_up_count = 0, po_wake_cycle = 0, po_marked = False, po_fresh = zero_fields\<rparr>"

text \<open>\<^verbatim>\<open>op_pool_init_op\<close> clears two marks that are already clear in zeroed memory.\<close>

definition op_pool_init_op :: "Pool_Op \<Rightarrow> Pool_Op" where
  "op_pool_init_op op = op\<lparr>po_fresh := (po_fresh op)\<lparr>of_mispred := False, of_misfetch := False\<rparr>\<rparr>"

definition expand_op_pool :: "Op_Machine \<Rightarrow> Op_Machine option" where
  "expand_op_pool s =
     (let n = length (om_ops s); entries = op_pool_entries s + of_nat OP_POOL_ENTRIES_INC
      in do { ensure (unat entries \<le> OP_POOL_ENTRIES_INC * 128);
              Some (s\<lparr>om_ops := om_ops s @ replicate OP_POOL_ENTRIES_INC (op_pool_init_op zero_op),
                      om_free := [n ..< n + OP_POOL_ENTRIES_INC] @ om_free s, op_pool_entries := entries\<rparr>) })"

definition reset_op_pool :: "Op_Machine \<Rightarrow> Op_Machine" where
  "reset_op_pool s = s\<lparr>op_pool_entries := 0, op_pool_active_ops := 0\<rparr>"

definition init_op_pool :: "Op_Machine \<Rightarrow> Op_Machine option" where
  "init_op_pool s =
     do { _ \<leftarrow> get_op invalid_op s;
          expand_op_pool (reset_op_pool
            (upd_op invalid_op (\<lambda>op. (op_pool_init_op op)\<lparr>po_valid := False, po_op_num := 0, po_unique_num := 0\<rparr>) s)) }"

definition alloc_op :: "uns \<Rightarrow> Op_Machine \<Rightarrow> (opp \<times> Op_Machine) option" where
  "alloc_op proc_id s =
     do { s \<leftarrow> (if om_free s = [] then do { ensure (op_pool_active_ops s = op_pool_entries s); expand_op_pool s } else Some s);
          let p = hd (om_free s);
          op \<leftarrow> get_op p s;
          ensure (\<not> po_valid op);
          s \<leftarrow> op_pool_setup_op proc_id p (upd_op p (\<lambda>op. op\<lparr>po_valid := True\<rparr>) s);
          Some (p, s\<lparr>op_pool_active_ops := op_pool_active_ops s + 1, om_free := tl (om_free s)\<rparr>) }"

text \<open>A fake instruction is freed with its table information; the op's copy of that pointer is left
  dangling.\<close>

definition free_fake_inst :: "opp \<Rightarrow> Op_Machine \<Rightarrow> Op_Machine option" where
  "free_fake_inst p s =
     do { op \<leftarrow> get_op p s;
          case po_inst_info op of
            None \<Rightarrow> Some s
          | Some inst \<Rightarrow>
              Some (if ii_fake_inst inst then upd_op p (\<lambda>op. op\<lparr>po_table_info := None, po_inst_info := None\<rparr>) s else s) }"

definition free_op :: "opp \<Rightarrow> Op_Machine \<Rightarrow> Op_Machine option" where
  "free_op p s =
     do { op \<leftarrow> get_op p s;
          ensure (po_valid op \<and> \<not> po_marked op);
          let s = upd_op p (\<lambda>op. op\<lparr>po_valid := False\<rparr>) (s\<lparr>op_pool_active_ops := op_pool_active_ops s - 1\<rparr>);
          t \<leftarrow> po_table_info op;
          s \<leftarrow> (if ti_mem_type t = MEM_ST then delete_store_hash_entry p s else Some s);
          s \<leftarrow> free_fake_inst p s;
          free_wake_up_list p (s\<lparr>om_free := p # om_free s\<rparr>) }"

section \<open>The sequential op list\<close>

definition add_to_seq_op_list :: "opp \<Rightarrow> Op_Machine \<Rightarrow> Op_Machine option" where
  "add_to_seq_op_list p s =
     do { op \<leftarrow> get_op p s;
          ensure (td_proc_id s = po_proc_id op \<and> po_valid op);
          ensure (length (td_seq_op_list s) + 1 < 8193);
          Some (s\<lparr>td_seq_op_list := td_seq_op_list s @ [p]\<rparr>) }"

definition remove_next_from_seq_op_list :: "Op_Machine \<Rightarrow> (opp \<times> Op_Machine) option" where
  "remove_next_from_seq_op_list s =
     (case td_seq_op_list s of [] \<Rightarrow> None | p # ps \<Rightarrow> Some (p, s\<lparr>td_seq_op_list := ps\<rparr>))"

definition remove_from_seq_op_list :: "opp \<Rightarrow> Op_Machine \<Rightarrow> Op_Machine option" where
  "remove_from_seq_op_list p s =
     do { (h, s) \<leftarrow> remove_next_from_seq_op_list s;
          op \<leftarrow> get_op h s;
          ensure (td_proc_id s = po_proc_id op \<and> po_valid op \<and> h = p);
          Some s }"

text \<open>The list is kept up to the op with the number of the recovery, if there is one.\<close>

fun clip_after :: "Counter \<Rightarrow> opp list \<Rightarrow> Op_Machine \<Rightarrow> opp list option" where
  "clip_after n [] s = Some []"
| "clip_after n (p # ps) s =
     do { op \<leftarrow> get_op p s;
          ensure (po_op_num op \<le> n);
          if po_op_num op = n then Some [p] else map_option ((#) p) (clip_after n ps s) }"

definition recover_seq_op_list :: "Counter \<Rightarrow> Op_Machine \<Rightarrow> Op_Machine option" where
  "recover_seq_op_list n s =
     (case td_seq_op_list s of
        [] \<Rightarrow> Some s
      | p # ps \<Rightarrow>
          do { op \<leftarrow> get_op p s;
               ensure (td_proc_id s = po_proc_id op);
               if n < po_op_num op
               then do { ensure (po_op_num op = n + 1); Some (s\<lparr>td_seq_op_list := []\<rparr>) }
               else map_option (\<lambda>l. s\<lparr>td_seq_op_list := l\<rparr>) (clip_after n (p # ps) s) })"

text \<open>The front end is told to recover or to stay on the wrong path; \<open>agrees\<close> is whether its next address
  is then the address of the recovery.\<close>

definition recover_thread :: "bool \<Rightarrow> Mem_Map_Entry \<Rightarrow> bool \<Rightarrow> Counter \<Rightarrow> Op_Machine \<Rightarrow> Op_Machine option" where
  "recover_thread FETCH_OFF_PATH_OPS fresh agrees n s =
     do { s \<leftarrow> recover_seq_op_list n s;
          ensure (FETCH_OFF_PATH_OPS \<longrightarrow> agrees);
          recover_map fresh s }"

definition reset_seq_op_list :: "Op_Machine \<Rightarrow> Op_Machine option" where
  "reset_seq_op_list s =
     do { s \<leftarrow> loop (\<lambda>p s. do { op \<leftarrow> get_op p s; ensure (td_proc_id s = po_proc_id op); free_op p s }) (td_seq_op_list s) s;
          Some (s\<lparr>td_seq_op_list := []\<rparr>) }"

definition thread_map_op :: "map_params \<Rightarrow> opp \<Rightarrow> Op_Machine \<Rightarrow> Op_Machine option" where
  "thread_map_op P p s =
     do { op \<leftarrow> get_op p s;
          ensure (td_proc_id s = md_proc_id (td_map_data s) \<and> td_proc_id s = po_proc_id op);
          map_op P p s }"

definition thread_map_mem_dep :: "map_params \<Rightarrow> Mem_Map_Entry \<Rightarrow> opp \<Rightarrow> Op_Machine \<Rightarrow> Op_Machine option" where
  "thread_map_mem_dep P fresh p s =
     do { op \<leftarrow> get_op p s;
          ensure (td_proc_id s = md_proc_id (td_map_data s) \<and> td_proc_id s = po_proc_id op);
          map_mem_dep P fresh p s }"

definition init_thread :: "map_params \<Rightarrow> Op_Machine \<Rightarrow> Op_Machine option" where
  "init_thread P s = do { s \<leftarrow> init_map P 0 s; Some (s\<lparr>td_seq_op_list := []\<rparr>) }"

section \<open>Ops entering and leaving the window\<close>

text \<open>What the front end puts into an op, with the path flag of the fetch stage.\<close>

record Fetched =
  fe_table_info :: Table_Info
  fe_inst_info :: Inst_Info
  fe_va :: Addr
  fe_mem_size :: uns
  fe_off_path :: bool

definition fill_op :: "Fetched \<Rightarrow> Pool_Op \<Rightarrow> Pool_Op" where
  "fill_op f op =
     op\<lparr>po_table_info := Some (fe_table_info f), po_inst_info := Some (fe_inst_info f), po_va := fe_va f,
        po_mem_size := fe_mem_size f, po_off_path := fe_off_path f\<rparr>"

text \<open>Fetching one op: allocation, the front end, the sequential list, the map and the counters.\<close>

definition fetch_op :: "map_params \<Rightarrow> Mem_Map_Entry \<Rightarrow> Fetched \<Rightarrow> Op_Machine \<Rightarrow> (opp \<times> Op_Machine) option" where
  "fetch_op P fresh f s =
     do { (p, s) \<leftarrow> alloc_op (td_proc_id s) s;
          s \<leftarrow> add_to_seq_op_list p (upd_op p (fill_op f) s);
          ensure (length (td_seq_op_list s) \<le> unat (op_pool_active_ops s));
          s \<leftarrow> thread_map_op P p s;
          s \<leftarrow> thread_map_mem_dep P fresh p s;
          Some (p, s\<lparr>op_count := op_count s + 1, unique_count_per_core := unique_count_per_core s + 1,
                    unique_count := unique_count s + 1\<rparr>) }"

text \<open>Retirement of the oldest op.\<close>

definition retire_op :: "opp \<Rightarrow> Op_Machine \<Rightarrow> Op_Machine option" where
  "retire_op p s = do { s \<leftarrow> remove_from_seq_op_list p s; free_op p s }"

text \<open>A recovery to op number \<open>n\<close>: the thread recovers, the stages free the younger ops, and the fetch
  stage goes back to the number after \<open>n\<close>.\<close>

definition recover_window ::
    "bool \<Rightarrow> Mem_Map_Entry \<Rightarrow> bool \<Rightarrow> Counter \<Rightarrow> opp list \<Rightarrow> Op_Machine \<Rightarrow> Op_Machine option" where
  "recover_window off_ops fresh agrees n flushed s =
     do { s \<leftarrow> recover_thread off_ops fresh agrees n s;
          s \<leftarrow> loop free_op flushed s;
          Some (s\<lparr>op_count := n + 1\<rparr>) }"

end
