(* ===== verification/Op_Mem_Inv.thy ===== *)
theory Op_Mem_Inv
  imports Op_Pool
begin

text \<open>
  The map of the stores in flight as two maps from byte addresses to stores, one for each path, and a flag per
  byte. Addresses are natural numbers here: byte \<open>x\<close> is byte \<open>x mod 8\<close> of entry \<open>x div 8\<close>.
\<close>

section \<open>Bits\<close>

lemma TESTBIT_bit [simp]: "TESTBIT v b \<longleftrightarrow> bit v b"
proof -
  have "and (drop_bit b v) 1 = of_bool (odd (drop_bit b v))" by (simp add: and_one_eq mod2_eq_if)
  then show ?thesis by (simp add: TESTBIT_def bit_iff_odd_drop_bit)
qed

lemma bit_SETBIT: "bit (SETBIT v b) i \<longleftrightarrow> bit v i \<or> i = b \<and> b < 32"
  by (auto simp: SETBIT_def bit_simps)

lemma bit_CLRBIT: "bit (CLRBIT v b) i \<longleftrightarrow> bit v i \<and> i \<noteq> b"
  by (auto simp: CLRBIT_def bit_simps dest: bit_imp_le_length)

lemma bit_DEFBIT: "bit (DEFBIT v b x) i \<longleftrightarrow> (if i = b \<and> b < 32 then x else bit v i)"
  by (auto simp: DEFBIT_def bit_simps dest: bit_imp_le_length)

section \<open>The traversals\<close>

text \<open>An access that stays clear of the end of the 48-bit address space.\<close>

definition access_ok :: "Addr \<Rightarrow> uns \<Rightarrow> bool" where
  "access_ok va sz \<longleftrightarrow> unat va mod 2 ^ 48 + unat sz + 8 \<le> 2 ^ 48"

definition bytes_at :: "Addr \<Rightarrow> uns \<Rightarrow> nat set" where
  "bytes_at va sz = {unat va ..< unat va + unat sz}"

lemma same_block:
  fixes a k m :: nat
  assumes "a mod m + k < m"
  shows "(a + k) div m = a div m" "(a + k) mod m = a mod m + k"
proof -
  have e: "a + k = (a mod m + k) + a div m * m" using div_mult_mod_eq [of a m] by linarith
  have m: "m \<noteq> 0" using assms by simp
  show "(a + k) div m = a div m" using assms unfolding e by (simp only: div_mult_self1 [OF m] div_less add_0_right)
  show "(a + k) mod m = a mod m + k" using assms unfolding e by (simp only: mod_mult_self1 mod_less)
qed

lemma ADDR_PLUS_OFFSET_plus:
  assumes "unat a mod 2 ^ 48 + unat k < 2 ^ 48"
  shows "ADDR_PLUS_OFFSET a k = a + k" "unat (a + k) = unat a + unat k"
proof -
  have lt: "unat a < 2 ^ 64" using unsigned_less [of a] by simp
  have e: "unat a = unat a div 2 ^ 48 * 2 ^ 48 + unat a mod 2 ^ 48" by simp
  have "unat a div 2 ^ 48 < 2 ^ 16" using lt by (simp add: less_mult_imp_div_less)
  then have "unat a div 2 ^ 48 * 2 ^ 48 \<le> (2 ^ 16 - 1) * 2 ^ 48" by (intro mult_right_mono) simp_all
  then have "unat a \<le> (2 ^ 16 - 1) * 2 ^ 48 + unat a mod 2 ^ 48" using div_mult_mod_eq [of "unat a" "2 ^ 48"] by linarith
  then have "unat a + unat k < (2 ^ 16 - 1) * 2 ^ 48 + 2 ^ 48" using assms by linarith
  also have "\<dots> = 2 ^ 64" by simp
  finally have "unat a + unat k < 2 ^ 64" .
  then show u: "unat (a + k) = unat a + unat k" by (simp add: unat_word_ariths)
  have d: "(unat a + unat k) div 2 ^ 48 = unat a div 2 ^ 48"
    using assms by (rule same_block)
  have m: "0xFFFF000000000000 = (not (mask 48) :: 64 word)" "0x0000FFFFFFFFFFFF = (mask 48 :: 64 word)"
    by (simp_all add: mask_eq_exp_minus_1)
  have "bit a n \<longleftrightarrow> bit (a + k) n" if "48 \<le> n" for n
  proof -
    have e: "(2 :: nat) ^ n = 2 ^ 48 * 2 ^ (n - 48)" using that by (simp only: power_add [symmetric] le_add_diff_inverse)
    have "m div 2 ^ n = m div 2 ^ 48 div 2 ^ (n - 48)" for m :: nat
      by (simp only: e div_mult2_eq)
    then have "unat (a + k) div 2 ^ n = unat a div 2 ^ n" using d u by metis
    moreover have "bit w n \<longleftrightarrow> odd (unat w div 2 ^ n)" for w :: Addr
      using bit_unsigned_iff [of w n, where 'a = nat] by (simp add: bit_iff_odd)
    ultimately show ?thesis by metis
  qed
  then show "ADDR_PLUS_OFFSET a k = a + k"
    unfolding ADDR_PLUS_OFFSET_def m by (intro bit_word_eqI) (auto simp: bit_simps not_less)
qed

text \<open>The first and the last entry, and the bytes of entry \<open>n\<close> that belong to the access.\<close>

definition first_entry :: "Addr \<Rightarrow> nat" where
  "first_entry va = unat va div 8"

definition last_entry :: "Addr \<Rightarrow> uns \<Rightarrow> nat" where
  "last_entry va sz = (unat va + unat sz - 1) div 8"

definition low_byte :: "Addr \<Rightarrow> nat \<Rightarrow> nat" where
  "low_byte va n = (if n = first_entry va then unat va mod 8 else 0)"

definition high_byte :: "Addr \<Rightarrow> uns \<Rightarrow> nat \<Rightarrow> nat" where
  "high_byte va sz n = (if n = last_entry va sz then (unat va + unat sz - 1) mod 8 else 7)"

definition entry_at :: "Addr \<Rightarrow> uns \<Rightarrow> nat \<Rightarrow> Mem_Map_Traversal" where
  "entry_at va sz n = (mem_map_entry_traversal_init va sz)\<lparr>tr_entry_addr := of_nat (8 * n)\<rparr>"

lemma le_by_digits: "f \<le> x \<longleftrightarrow> f div m \<le> x div m \<and> (x div m = f div m \<longrightarrow> f mod m \<le> x mod m)" for f x m :: nat
proof (cases "x div m = f div m")
  case True
  have "f = x div m * m + f mod m" unfolding True by (rule div_mult_mod_eq [symmetric])
  moreover have "x = x div m * m + x mod m" by simp
  ultimately show ?thesis using True by linarith
next
  case False
  then show ?thesis using div_le_mono [of f x m] div_le_mono [of x f m] by (cases "f \<le> x") auto
qed

lemma digit_range:
  "(f8 \<le> x8 \<and> (x8 = f8 \<longrightarrow> fm \<le> xm)) \<and> (x8 \<le> l8 \<and> (l8 = x8 \<longrightarrow> xm \<le> lm)) \<longleftrightarrow>
    x8 \<in> {f8 .. l8} \<and> (if x8 = f8 then fm else 0) \<le> xm \<and> xm \<le> (if x8 = l8 then lm else 7)"
  if "xm \<le> (7 :: nat)" for f8 x8 l8 :: nat
  using that by auto

lemma byte_in_access:
  assumes "0 < unat sz"
  shows "x \<in> bytes_at va sz \<longleftrightarrow> x div 8 \<in> {first_entry va .. last_entry va sz} \<and>
    low_byte va (x div 8) \<le> x mod 8 \<and> x mod 8 \<le> high_byte va sz (x div 8)"
proof -
  define f l where "f = unat va" and "l = unat va + unat sz - 1"
  have b: "x \<in> bytes_at va sz \<longleftrightarrow> f \<le> x \<and> x \<le> l" using assms by (auto simp: bytes_at_def f_def l_def)
  have "x mod 8 \<le> 7" using mod_less_divisor [of 8 x] by linarith
  note * = digit_range [OF this, of "f div 8" "x div 8" "f mod 8" "l div 8" "l mod 8"]
  have "x \<in> bytes_at va sz \<longleftrightarrow>
      (f div 8 \<le> x div 8 \<and> (x div 8 = f div 8 \<longrightarrow> f mod 8 \<le> x mod 8)) \<and>
      (x div 8 \<le> l div 8 \<and> (l div 8 = x div 8 \<longrightarrow> x mod 8 \<le> l mod 8))"
    by (simp only: b le_by_digits [of f x 8] le_by_digits [of x l 8])
  also note *
  finally show ?thesis unfolding first_entry_def last_entry_def low_byte_def high_byte_def f_def l_def .
qed

lemma unat_and_mask: "unat (and va (mask n)) = unat va mod 2 ^ n" for va :: "'a::len word"
  by (simp add: take_bit_eq_mask [symmetric] unsigned_take_bit_eq take_bit_eq_mod [of _ "unat va", symmetric])

lemma byte_in_entry [simp]: "unat (MEM_MAP_BYTE_IN_ENTRY va) = unat va mod 8"
proof -
  have "MEM_MAP_ENTRY_SIZE - 1 = (mask 3 :: Addr)" by (simp add: MEM_MAP_ENTRY_SIZE_def mask_eq_exp_minus_1)
  then have u: "unat (and va (MEM_MAP_ENTRY_SIZE - 1)) = unat va mod 8" by (simp add: unat_and_mask)
  have "unat va mod 8 < 2 ^ 32" using mod_less_divisor [of 8 "unat va"] by simp
  then show ?thesis by (simp add: MEM_MAP_BYTE_IN_ENTRY_def unsigned_ucast_eq u take_bit_nat_eq_self)
qed

lemma unat_entry_addr: "MEM_MAP_ENTRY_ADDR va = of_nat (8 * (unat va div 8))"
proof -
  have m: "MEM_MAP_ENTRY_SIZE - 1 = (mask 3 :: Addr)" by (simp add: MEM_MAP_ENTRY_SIZE_def mask_eq_exp_minus_1)
  have "MEM_MAP_ENTRY_ADDR va = push_bit 3 (drop_bit 3 va)"
    unfolding MEM_MAP_ENTRY_ADDR_def m by (rule bit_word_eqI) (auto simp: bit_simps)
  also have "drop_bit 3 va = of_nat (unat va div 8)" by (simp add: drop_bit_eq_div word_arith_nat_div)
  finally show ?thesis by (simp add: push_bit_eq_mult mult.commute)
qed


lemma entry_in_block:
  assumes ok: "access_ok va sz" "0 < unat sz" and n: "first_entry va \<le> n" "n \<le> last_entry va sz"
  shows "8 * n mod 2 ^ 48 + 8 < 2 ^ 48" "8 * n + 8 < 2 ^ 64"
proof -
  define B where "B = unat va div 2 ^ 48"
  have va: "unat va = B * 2 ^ 48 + unat va mod 2 ^ 48" unfolding B_def by (rule div_mult_mod_eq [symmetric])
  have "B * 2 ^ 48 \<le> unat va" using va by linarith
  then have "B * 2 ^ 48 div 8 \<le> first_entry va" unfolding first_entry_def by (rule div_le_mono)
  then have lo: "B * 2 ^ 48 \<le> 8 * n" using n(1) by simp
  have "8 * last_entry va sz \<le> unat va + unat sz - 1" unfolding last_entry_def by simp
  then have hi: "8 * n \<le> unat va + unat sz - 1" using n(2) by linarith
  have sum: "unat va mod 2 ^ 48 + unat sz + 8 \<le> 2 ^ 48" using ok(1) by (simp only: access_ok_def)
  define r where "r = 8 * n - B * 2 ^ 48"
  have r: "8 * n = r + B * 2 ^ 48" "r + 8 < 2 ^ 48" using lo hi sum va ok(2) unfolding r_def by linarith+
  then have "8 * n mod 2 ^ 48 = r" by (simp only: mod_mult_self1 mod_less)
  then show "8 * n mod 2 ^ 48 + 8 < 2 ^ 48" using r(2) by simp
  have "unat va < 2 ^ 64" using unsigned_less [of va] by simp
  then have "B < 2 ^ 16" unfolding B_def by (simp add: less_mult_imp_div_less)
  then have "B * 2 ^ 48 \<le> (2 ^ 16 - 1) * 2 ^ 48" by (intro mult_right_mono) simp_all
  then have "8 * n + 8 < (2 ^ 16 - 1) * 2 ^ 48 + 2 ^ 48" using r by linarith
  also have "\<dots> = 2 ^ 64" by simp
  finally show "8 * n + 8 < 2 ^ 64" .
qed

lemma last_va:
  assumes "access_ok va sz" "0 < unat sz"
  shows "unat (ADDR_PLUS_OFFSET va (ucast (sz - 1))) = unat va + unat sz - 1"
proof -
  have "1 \<le> sz" using assms(2) by (simp add: word_le_nat_alt)
  then have u: "unat (sz - 1) = unat sz - 1" by (simp add: unat_sub)
  have "unat sz < 2 ^ 32" using unsigned_less [of sz] by simp
  then have v: "unat (ucast (sz - 1) :: Addr) = unat sz - 1" by (simp add: unsigned_ucast_eq u take_bit_nat_eq_self)
  then have "unat va mod 2 ^ 48 + unat (ucast (sz - 1) :: Addr) < 2 ^ 48" using assms by (simp add: access_ok_def)
  then show ?thesis using ADDR_PLUS_OFFSET_plus v assms(2) by simp
qed

lemma traversal_init:
  assumes "access_ok va sz" "0 < unat sz"
  shows "mem_map_entry_traversal_init va sz = entry_at va sz (first_entry va)"
    "tr_last_entry_addr (entry_at va sz n) = of_nat (8 * last_entry va sz)"
    "tr_first_entry_addr (entry_at va sz n) = of_nat (8 * first_entry va)"
    "unat (tr_first_entry_first_byte (entry_at va sz n)) = unat va mod 8"
    "unat (tr_last_entry_last_byte (entry_at va sz n)) = (unat va + unat sz - 1) mod 8"
proof -
  have "sz \<noteq> 0" using assms(2) by auto
  then show "mem_map_entry_traversal_init va sz = entry_at va sz (first_entry va)"
    by (simp add: entry_at_def mem_map_entry_traversal_init_def Let_def unat_entry_addr first_entry_def)
  show "tr_last_entry_addr (entry_at va sz n) = of_nat (8 * last_entry va sz)"
    "tr_first_entry_addr (entry_at va sz n) = of_nat (8 * first_entry va)"
    "unat (tr_first_entry_first_byte (entry_at va sz n)) = unat va mod 8"
    "unat (tr_last_entry_last_byte (entry_at va sz n)) = (unat va + unat sz - 1) mod 8"
    using last_va [OF assms]
    by (simp_all add: entry_at_def mem_map_entry_traversal_init_def Let_def unat_entry_addr first_entry_def last_entry_def)
qed

lemma of_nat_eq_iff_small: "m < 2 ^ 64 \<Longrightarrow> n < 2 ^ 64 \<Longrightarrow> (of_nat m :: Addr) = of_nat n \<longleftrightarrow> m = n"
  by (simp add: word_of_nat_eq_iff take_bit_nat_eq_self)

lemma traversal_next:
  assumes "access_ok va sz" "0 < unat sz" "first_entry va \<le> n" "n \<le> last_entry va sz"
  shows "mem_map_entry_traversal_next (entry_at va sz n) = entry_at va sz (Suc n)"
    "mem_map_entry_traversal_done (entry_at va sz (Suc n)) \<longleftrightarrow> n = last_entry va sz"
    "\<not> mem_map_entry_traversal_done (entry_at va sz (first_entry va))"
proof -
  have step: "ADDR_PLUS_OFFSET (of_nat (8 * k)) MEM_MAP_ENTRY_SIZE = of_nat (8 * Suc k)"
    if "first_entry va \<le> k" "k \<le> last_entry va sz" for k
  proof -
    note b = entry_in_block [OF assms(1,2) that]
    have "unat (of_nat (8 * k) :: Addr) = 8 * k" using b(2) by (simp only: unsigned_of_nat) (simp add: take_bit_nat_eq_self)
    then have "unat (of_nat (8 * k) :: Addr) mod 2 ^ 48 + unat (MEM_MAP_ENTRY_SIZE :: Addr) < 2 ^ 48"
      using b(1) by (simp only: MEM_MAP_ENTRY_SIZE_def) simp
    from ADDR_PLUS_OFFSET_plus(1) [OF this] show ?thesis by (simp add: MEM_MAP_ENTRY_SIZE_def)
  qed
  show "mem_map_entry_traversal_next (entry_at va sz n) = entry_at va sz (Suc n)"
    using step [OF assms(3,4)] by (simp add: mem_map_entry_traversal_next_def entry_at_def)
  have l: "first_entry va \<le> last_entry va sz" using assms(3,4) by simp
  note d = step [OF l order_refl] entry_in_block(2) [OF assms(1,2) l order_refl] entry_in_block(2) [OF assms]
    entry_in_block(2) [OF assms(1,2) order_refl l]
  have dn: "mem_map_entry_traversal_done (entry_at va sz k) \<longleftrightarrow> k = Suc (last_entry va sz)" if "8 * k < 2 ^ 64" for k
  proof -
    have "mem_map_entry_traversal_done (entry_at va sz k) \<longleftrightarrow> (of_nat (8 * k) :: Addr) = of_nat (8 * Suc (last_entry va sz))"
      using d(1) traversal_init(2) [OF assms(1,2)]
      by (simp add: mem_map_entry_traversal_done_def) (simp add: entry_at_def)
    also have "\<dots> \<longleftrightarrow> 8 * k = 8 * Suc (last_entry va sz)" using that d(2) by (intro of_nat_eq_iff_small) simp_all
    finally show ?thesis by (simp only: mult_cancel1) simp
  qed
  show "mem_map_entry_traversal_done (entry_at va sz (Suc n)) \<longleftrightarrow> n = last_entry va sz"
    using dn [of "Suc n"] d(3) by simp
  show "\<not> mem_map_entry_traversal_done (entry_at va sz (first_entry va))"
    using dn [of "first_entry va"] d(4) l by simp
qed

lemma entries_loop:
  assumes "access_ok va sz" "0 < unat sz"
  shows "mem_map_entries body (mem_map_entry_traversal_init va sz) s =
    loop (\<lambda>n. body (entry_at va sz n)) [first_entry va ..< Suc (last_entry va sz)] s"
proof -
  have "mem_map_entries body (entry_at va sz n) s = loop (\<lambda>n. body (entry_at va sz n)) [n ..< Suc (last_entry va sz)] s"
    if "n \<le> Suc (last_entry va sz)" "mem_map_entry_traversal_done (entry_at va sz n) \<longleftrightarrow> n = Suc (last_entry va sz)"
      "first_entry va \<le> n" for n
    using that
  proof (induction "Suc (last_entry va sz) - n" arbitrary: n s)
    case 0
    then show ?case by (subst mem_map_entries.simps) simp
  next
    case (Suc m)
    then have n: "n \<le> last_entry va sz" "n \<noteq> Suc (last_entry va sz)" by simp_all
    note t = traversal_next [OF assms Suc.prems(3) n(1)]
    have "mem_map_entries body (entry_at va sz n) s = body (entry_at va sz n) s \<bind> mem_map_entries body (entry_at va sz (Suc n))"
      using Suc.prems(2) n(2) t(1) by (subst mem_map_entries.simps) simp
    also have "mem_map_entries body (entry_at va sz (Suc n)) =
        loop (\<lambda>n. body (entry_at va sz n)) [Suc n ..< Suc (last_entry va sz)]"
      using Suc.hyps n Suc.prems(3) t(2) by (intro ext Suc.hyps(1)) auto
    finally show ?case using n(1) by (simp only: upt_rec [of n] less_Suc_eq_le if_True loop.simps)
  qed
  moreover have "first_entry va \<le> last_entry va sz"
    using assms(2) by (simp add: first_entry_def last_entry_def div_le_mono)
  ultimately show ?thesis
    using traversal_init(1) [OF assms] traversal_next(3) [OF assms order_refl] by simp
qed

lemma entries_none: "sz = 0 \<Longrightarrow> mem_map_entries body (mem_map_entry_traversal_init va sz) s = Some s"
  by (subst mem_map_entries.simps)
    (simp add: mem_map_entry_traversal_done_def mem_map_entry_traversal_init_def Let_def)

lemma byte_traversal:
  assumes "access_ok va sz" "0 < unat sz" "first_entry va \<le> n" "n \<le> last_entry va sz"
  shows "mem_map_byte_traversal (entry_at va sz n) = Some (map of_nat [low_byte va n ..< Suc (high_byte va sz n)])"
    "low_byte va n \<le> high_byte va sz n" "high_byte va sz n < 8"
proof -
  have l: "first_entry va \<le> last_entry va sz" using assms(3,4) by simp
  have eq: "(of_nat (8 * n) :: Addr) = of_nat (8 * k) \<longleftrightarrow> n = k" if "first_entry va \<le> k" "k \<le> last_entry va sz" for k
    using of_nat_eq_iff_small [of "8 * n" "8 * k"] entry_in_block(2) [OF assms] entry_in_block(2) [OF assms(1,2) that] by simp
  note t = traversal_init(2-5) [OF assms(1,2)]
  show b: "high_byte va sz n < 8" by (simp add: high_byte_def)
  show "low_byte va n \<le> high_byte va sz n"
  proof -
    have "unat va \<le> unat va + unat sz - 1" using assms(2) by simp
    then show ?thesis using le_by_digits [of "unat va" "unat va + unat sz - 1" 8]
        mod_less_divisor [of 8 "unat va"]
      by (auto simp: low_byte_def high_byte_def first_entry_def last_entry_def simp del: mod_less_divisor)
  qed
  moreover define lo where "lo = (if tr_entry_addr (entry_at va sz n) = tr_first_entry_addr (entry_at va sz n)
    then tr_first_entry_first_byte (entry_at va sz n) else 0)"
  moreover define hi where "hi = (if tr_entry_addr (entry_at va sz n) = tr_last_entry_addr (entry_at va sz n)
    then tr_last_entry_last_byte (entry_at va sz n) else MEM_MAP_ENTRY_SIZE - 1)"
  moreover have a: "tr_entry_addr (entry_at va sz n) = of_nat (8 * n)" by (simp add: entry_at_def)
  moreover have "unat lo = low_byte va n"
    unfolding lo_def low_byte_def a t(2) eq [OF order_refl l] by (simp add: t(3))
  moreover have "unat hi = high_byte va sz n"
    unfolding hi_def high_byte_def a t(1) eq [OF l order_refl] by (simp add: t(4) MEM_MAP_ENTRY_SIZE_def)
  ultimately show "mem_map_byte_traversal (entry_at va sz n) = Some (map of_nat [low_byte va n ..< Suc (high_byte va sz n)])"
    by (simp add: mem_map_byte_traversal_def Let_def word_le_nat_alt del: upt_Suc flip: lo_def hi_def)
qed


section \<open>One entry\<close>

definition slot :: "bool \<Rightarrow> nat \<Rightarrow> nat" where
  "slot off b = b + (if off then 8 else 0)"

definition entry_store :: "Mem_Map_Entry \<Rightarrow> bool \<Rightarrow> nat \<Rightarrow> opp option" where
  "entry_store e off b = (if bit (mm_store_mask e) (slot off b) then Some (mm_op e ! slot off b) else None)"

definition entry_ok :: "Mem_Map_Entry \<Rightarrow> bool" where
  "entry_ok e \<longleftrightarrow> length (mm_op e) = 16 \<and> (\<forall>i. bit (mm_store_mask e) i \<longrightarrow> i < 16)"

lemma slot_eq [simp]: "b < 8 \<Longrightarrow> b' < 8 \<Longrightarrow> slot off b = slot off' b' \<longleftrightarrow> off = off' \<and> b = b'"
  by (auto simp: slot_def)

lemma slot_lt: "b < 8 \<Longrightarrow> slot off b < 16"
  by (simp add: slot_def)

lemma byte_index: "b < 8 \<Longrightarrow> MEM_MAP_BYTE_INDEX (of_nat b) off = slot off b"
  by (simp add: MEM_MAP_BYTE_INDEX_def slot_def unat_of_nat)

lemma store_byte_ok:
  assumes "entry_ok e" "k < 8"
  shows "entry_ok (store_byte p off (of_nat k) e)"
    "b < 8 \<Longrightarrow> entry_store (store_byte p off (of_nat k) e) o' b = (if o' = off \<and> b = k then Some p else entry_store e o' b)"
    "b < 8 \<Longrightarrow> bit (mm_flag_mask (store_byte p off (of_nat k) e)) b = (if b = k then off else bit (mm_flag_mask e) b)"
  using assms slot_lt [of k off]
  by (auto simp: store_byte_def Let_def byte_index entry_ok_def entry_store_def bit_SETBIT bit_DEFBIT unat_of_nat)

lemma delete_byte_ok:
  assumes "entry_ok e" "k < 8"
  shows "entry_ok (delete_byte p off (of_nat k) e)"
    "b < 8 \<Longrightarrow> entry_store (delete_byte p off (of_nat k) e) o' b =
      (if o' = off \<and> b = k \<and> entry_store e o' b = Some p then None else entry_store e o' b)"
    "mm_flag_mask (delete_byte p off (of_nat k) e) = mm_flag_mask e"
proof -
  show "entry_ok (delete_byte p off (of_nat k) e)" "mm_flag_mask (delete_byte p off (of_nat k) e) = mm_flag_mask e"
    using assms by (auto simp: delete_byte_def Let_def byte_index entry_ok_def bit_CLRBIT)
  show "entry_store (delete_byte p off (of_nat k) e) o' b =
      (if o' = off \<and> b = k \<and> entry_store e o' b = Some p then None else entry_store e o' b)" if "b < 8"
    using that assms(2) by (cases "o' = off \<and> b = k") (auto simp: delete_byte_def Let_def byte_index entry_store_def bit_CLRBIT)
qed

lemma store_bytes_ok:
  "entry_ok e \<Longrightarrow> \<forall>k \<in> set ks. k < 8 \<Longrightarrow> entry_ok (fold (store_byte p off) (map of_nat ks) e) \<and>
    (\<forall>b < 8. (\<forall>o'. entry_store (fold (store_byte p off) (map of_nat ks) e) o' b =
        (if o' = off \<and> b \<in> set ks then Some p else entry_store e o' b)) \<and>
      bit (mm_flag_mask (fold (store_byte p off) (map of_nat ks) e)) b = (if b \<in> set ks then off else bit (mm_flag_mask e) b))"
  by (induction ks arbitrary: e) (simp_all add: store_byte_ok)

lemma delete_bytes_ok:
  "entry_ok e \<Longrightarrow> \<forall>k \<in> set ks. k < 8 \<Longrightarrow> entry_ok (fold (delete_byte p off) (map of_nat ks) e) \<and>
    mm_flag_mask (fold (delete_byte p off) (map of_nat ks) e) = mm_flag_mask e \<and>
    (\<forall>b < 8. \<forall>o'. entry_store (fold (delete_byte p off) (map of_nat ks) e) o' b =
        (if o' = off \<and> b \<in> set ks \<and> entry_store e o' b = Some p then None else entry_store e o' b))"
  by (induction ks arbitrary: e) (simp_all add: delete_byte_ok)

lemma no_store_mask:
  assumes "entry_ok e"
  shows "mm_store_mask e = 0 \<longleftrightarrow> (\<forall>off. \<forall>b < 8. entry_store e off b = None)"
proof
  assume *: "\<forall>off. \<forall>b < 8. entry_store e off b = None"
  have "\<not> bit (mm_store_mask e) i" for i
  proof
    assume i: "bit (mm_store_mask e) i"
    then have "i < 16" using assms by (simp add: entry_ok_def)
    then have e: "i = slot (8 \<le> i) (i mod 8)" by (auto simp: slot_def mod_if)
    have "entry_store e (8 \<le> i) (i mod 8) = None" using * by simp
    then have "\<not> bit (mm_store_mask e) (slot (8 \<le> i) (i mod 8))" by (simp add: entry_store_def split: if_splits)
    with i e show False by metis
  qed
  then show "mm_store_mask e = 0" by (intro bit_word_eqI) simp
qed (simp add: entry_store_def)

section \<open>The table\<close>

definition keys :: "Mem_Map_Entry Hash_Table \<Rightarrow> 64 word set" where
  "keys h = {k. hash_table_access h k \<noteq> None}"

definition mem_ok :: "Mem_Map_Entry Hash_Table \<Rightarrow> bool" where
  "mem_ok h \<longleftrightarrow> ht_inv h \<and> (\<forall>k e. hash_table_access h k = Some e \<longrightarrow> entry_ok e \<and> mm_store_mask e \<noteq> 0 \<and> unat k < 2 ^ 61)"

definition mem_store :: "Mem_Map_Entry Hash_Table \<Rightarrow> bool \<Rightarrow> nat \<Rightarrow> opp option" where
  "mem_store h off x = (case hash_table_access h (of_nat (x div 8)) of None \<Rightarrow> None | Some e \<Rightarrow> entry_store e off (x mod 8))"

definition mem_flag :: "Mem_Map_Entry Hash_Table \<Rightarrow> nat \<Rightarrow> bool" where
  "mem_flag h x = (case hash_table_access h (of_nat (x div 8)) of None \<Rightarrow> False | Some e \<Rightarrow> bit (mm_flag_mask e) (x mod 8))"

lemma nodes_card:
  assumes "ht_inv h"
  shows "finite (keys h)" "length (all_nodes h) = card (keys h)"
proof -
  have "keys h = set (map hte_key (all_nodes h))" using access_None [OF assms] by (auto simp: keys_def)
  then show "finite (keys h)" "length (all_nodes h) = card (keys h)"
    using assms distinct_card [of "map hte_key (all_nodes h)"] by (simp_all add: ht_inv_def)
qed

lemma MEM_MAP_KEY_entry: "n < 2 ^ 61 \<Longrightarrow> MEM_MAP_KEY (of_nat (8 * n)) = of_nat n"
proof -
  assume n: "n < 2 ^ 61"
  then have "unat (of_nat (8 * n) :: Addr) = 8 * n" by (simp only: unsigned_of_nat) (simp add: take_bit_nat_eq_self)
  then show ?thesis by (simp add: MEM_MAP_KEY_def drop_bit_eq_div word_arith_nat_div)
qed

lemma key_eq: "n < 2 ^ 61 \<Longrightarrow> x < 2 ^ 64 \<Longrightarrow> (of_nat (x div 8) :: 64 word) = of_nat n \<longleftrightarrow> x div 8 = n"
  by (intro of_nat_eq_iff_small) (simp_all add: div_le_dividend order.strict_trans1)

text \<open>Writing or deleting the entry of key \<open>n\<close>.\<close>

lemma put_entry_ok:
  assumes "ht_inv h" "hash_table_access h k \<noteq> None"
  obtains h' where "put_entry k e h = Some h'" "ht_inv h'"
    "\<And>k'. hash_table_access h' k' = (if k' = k then Some e else hash_table_access h k')"
proof -
  obtain i where i: "find_ix (key_match k) (bucket_of h k) = Some i"
    using assms(2) by (auto simp: hash_table_access_def chain_access_def split: option.splits)
  let ?h = "set_bucket k ((bucket_of h k)[i := (bucket_of h k ! i)\<lparr>hte_data := e\<rparr>]) h"
  have "put_entry k e h = Some ?h"
    using i assms(1) HASH_INDEX_lt [of h k] by (simp add: put_entry_def hash_table_access_replace_def ht_inv_def)
  with ht_change [OF assms(1) i refl] that show thesis by auto
qed

lemma store_entry_ok:
  assumes ok: "mem_ok h" "card (keys h) + 1 < 2 ^ 31" "entry_ok (fresh\<lparr>mm_store_mask := 0\<rparr>)" and n: "n < 2 ^ 61"
    and t: "tr_entry_addr t = of_nat (8 * n)" "mem_map_byte_traversal t = Some (map of_nat [lo ..< Suc hi])" "lo \<le> hi" "hi < 8"
  obtains h' where "store_entry fresh p off t h = Some h'" "mem_ok h'" "keys h' = insert (of_nat n) (keys h)"
    "\<And>x o'. x < 2 ^ 64 \<Longrightarrow> mem_store h' o' x =
      (if x div 8 = n \<and> lo \<le> x mod 8 \<and> x mod 8 \<le> hi \<and> o' = off then Some p else mem_store h o' x)"
    "\<And>x. x < 2 ^ 64 \<Longrightarrow> mem_flag h' x = (if x div 8 = n \<and> lo \<le> x mod 8 \<and> x mod 8 \<le> hi then off else mem_flag h x)"
proof -
  let ?k = "of_nat n :: 64 word" and ?ks = "[lo ..< Suc hi]"
  have inv: "ht_inv h" using ok(1) by (simp add: mem_ok_def)
  define e where "e = (case hash_table_access h ?k of Some e \<Rightarrow> e | None \<Rightarrow> fresh\<lparr>mm_flag_mask := 0, mm_store_mask := 0\<rparr>)"
  define e' where "e' = fold (store_byte p off) (map of_nat ?ks) e"
  have e: "entry_ok e" using ok by (auto simp: e_def mem_ok_def entry_ok_def split: option.split)
  have ks: "\<forall>k \<in> set ?ks. k < 8" using t(4) by auto
  note b = store_bytes_ok [OF e ks, of p off, folded e'_def]
  have E: "mem_store h o' x = entry_store e o' (x mod 8)" "mem_flag h x = bit (mm_flag_mask e) (x mod 8)"
    if "x div 8 = n" for x o' using that by (simp_all add: mem_store_def mem_flag_def e_def entry_store_def split: option.split)
  define h0 where "h0 = (case hash_table_access h ?k of Some d \<Rightarrow> h | None \<Rightarrow> ht_append ?k fresh h)"
  obtain new e0 where c: "hash_table_access_create h ?k fresh = Some (e0, new, h0)"
      "(if new then e0\<lparr>mm_flag_mask := 0, mm_store_mask := 0\<rparr> else e0) = e"
    using hash_table_access_create_eq [OF inv, of ?k fresh] by (auto simp: e_def h0_def split: option.splits)
  have h0: "ht_inv h0 \<and> (\<forall>k'. k' \<noteq> ?k \<longrightarrow> hash_table_access h0 k' = hash_table_access h k') \<and> hash_table_access h0 ?k \<noteq> None"
  proof (cases "hash_table_access h ?k")
    case None
    then have "?k \<notin> hte_key ` set (all_nodes h)" using access_None [OF inv] by simp
    moreover have "length (all_nodes h) + 1 < 2 ^ 31" using ok(2) nodes_card(2) [OF inv] by simp
    ultimately show ?thesis using ht_append_inv [OF inv] ht_append_access [OF inv] None by (simp add: h0_def)
  qed (simp add: h0_def inv)
  obtain h' where p: "put_entry ?k e' h0 = Some h'" "ht_inv h'"
    "\<And>k'. hash_table_access h' k' = (if k' = ?k then Some e' else hash_table_access h0 k')"
    using put_entry_ok [of h0 ?k e'] h0 by blast
  have a: "hash_table_access h' k' = (if k' = ?k then Some e' else hash_table_access h k')" for k' using p(3) h0 by simp
  have "store_entry fresh p off t h = Some h'"
    using c p(1) t(2) MEM_MAP_KEY_entry [OF n] by (simp add: store_entry_def t(1) e'_def del: upt_Suc of_nat_mult)
  moreover have "entry_store e' off lo = Some p" using b t(3,4) by (simp del: upt_Suc)
  then have "mm_store_mask e' \<noteq> 0" using no_store_mask b t(3,4) by (metis le_less_trans option.distinct(1))
  then have "mem_ok h'" using ok(1) a b p(2) n by (auto simp: mem_ok_def unat_of_nat split: if_splits)
  moreover have "keys h' = insert ?k (keys h)" using a by (auto simp: keys_def)
  moreover have "mem_store h' o' x = (if x div 8 = n \<and> lo \<le> x mod 8 \<and> x mod 8 \<le> hi \<and> o' = off then Some p else mem_store h o' x)"
    if "x < 2 ^ 64" for x o'
    using a key_eq [OF n that] E b by (cases "x div 8 = n") (auto simp: mem_store_def less_Suc_eq_le simp del: upt_Suc)
  moreover have "mem_flag h' x = (if x div 8 = n \<and> lo \<le> x mod 8 \<and> x mod 8 \<le> hi then off else mem_flag h x)"
    if "x < 2 ^ 64" for x
    using a key_eq [OF n that] E b by (cases "x div 8 = n") (auto simp: mem_flag_def less_Suc_eq_le simp del: upt_Suc)
  ultimately show thesis by (rule that)
qed


lemma loop_upt:
  assumes "n \<le> m" "Q n s"
    "\<And>k s. n \<le> k \<Longrightarrow> k < m \<Longrightarrow> Q k s \<Longrightarrow> \<exists>s'. f k s = Some s' \<and> Q (Suc k) s'"
  shows "\<exists>s'. loop f [n ..< m] s = Some s' \<and> Q m s'"
  using assms
proof (induction "m - n" arbitrary: n s)
  case 0
  then show ?case by simp
next
  case (Suc d)
  then have n: "n < m" by simp
  then obtain s1 where 1: "f n s = Some s1" "Q (Suc n) s1" using Suc.prems(2,3) by blast
  have "\<exists>s'. loop f [Suc n ..< m] s1 = Some s' \<and> Q m s'"
    using Suc.hyps n Suc.prems(3) 1(2) by (intro Suc.hyps(1)) simp_all
  with n 1(1) show ?case by (simp add: upt_rec [of n])
qed

lemma entry_bound:
  assumes "access_ok va sz" "0 < unat sz" "first_entry va \<le> n" "n \<le> last_entry va sz"
  shows "n < 2 ^ 61"
  using entry_in_block(2) [OF assms] by simp

text \<open>A traversal handles the bytes of the access entry by entry.\<close>

lemma traverse_bytes:
  assumes ok: "access_ok va sz" and start: "P {} s"
    and step: "\<And>n S s. 0 < unat sz \<Longrightarrow> first_entry va \<le> n \<Longrightarrow> n \<le> last_entry va sz \<Longrightarrow> P S s \<Longrightarrow> S \<subseteq> bytes_at va sz \<Longrightarrow>
      \<forall>x \<in> S. x div 8 < n \<Longrightarrow>
      \<exists>s'. body (entry_at va sz n) s = Some s' \<and> P (S \<union> {x \<in> bytes_at va sz. x div 8 = n}) s'"
  shows "\<exists>s'. mem_map_entries body (mem_map_entry_traversal_init va sz) s = Some s' \<and> P (bytes_at va sz) s'"
proof (cases "sz = 0")
  case True
  then show ?thesis using start by (simp add: entries_none bytes_at_def)
next
  case False
  then have sz: "0 < unat sz" by (simp add: unat_gt_0)
  let ?f = "first_entry va" and ?l = "last_entry va sz"
  have fl: "?f \<le> Suc ?l" using sz by (simp add: first_entry_def last_entry_def div_le_mono le_SucI)
  define Q where "Q n = P {x \<in> bytes_at va sz. x div 8 < n}" for n
  have in_fl: "?f \<le> x div 8 \<and> x div 8 \<le> ?l" if "x \<in> bytes_at va sz" for x using byte_in_access [OF sz] that by simp
  have "{x \<in> bytes_at va sz. x div 8 < ?f} = {}" "{x \<in> bytes_at va sz. x div 8 < Suc ?l} = bytes_at va sz"
    using in_fl by (auto simp: not_less less_Suc_eq_le)
  then have Q: "Q ?f s" "Q (Suc ?l) = P (bytes_at va sz)" using start by (simp_all only: Q_def)
  have "\<exists>s'. body (entry_at va sz n) s1 = Some s' \<and> Q (Suc n) s'" if "?f \<le> n" "n < Suc ?l" "Q n s1" for n s1
  proof -
    let ?S = "{x \<in> bytes_at va sz. x div 8 < n}"
    have "n \<le> ?l" "P ?S s1" "?S \<subseteq> bytes_at va sz" "\<forall>x \<in> ?S. x div 8 < n" using that(2,3) by (auto simp only: Q_def less_Suc_eq_le)
    from step [OF sz that(1) this] obtain s' where "body (entry_at va sz n) s1 = Some s'"
      "P (?S \<union> {x \<in> bytes_at va sz. x div 8 = n}) s'" by blast
    moreover have "?S \<union> {x \<in> bytes_at va sz. x div 8 = n} = {x \<in> bytes_at va sz. x div 8 < Suc n}" by auto
    ultimately show ?thesis by (simp only: Q_def option.inject ex_simps) auto
  qed
  then have "\<exists>s'. loop (\<lambda>n. body (entry_at va sz n)) [?f ..< Suc ?l] s = Some s' \<and> Q (Suc ?l) s'"
    using loop_upt [of ?f "Suc ?l" Q s "\<lambda>n. body (entry_at va sz n)", OF fl Q(1)] by blast
  then show ?thesis using entries_loop [OF ok sz, of body s] Q(2) by simp
qed

lemma bytes_here:
  assumes "access_ok va sz" "0 < unat sz" "first_entry va \<le> n" "n \<le> last_entry va sz"
  shows "x div 8 = n \<and> low_byte va n \<le> x mod 8 \<and> x mod 8 \<le> high_byte va sz n \<longleftrightarrow> x \<in> {x \<in> bytes_at va sz. x div 8 = n}"
  using byte_in_access [OF assms(2), of x va] assms(3,4) by auto

text \<open>Recording a store, seen from the byte addresses.\<close>

lemma store_all_bytes:
  assumes ok: "mem_ok h" "entry_ok (fresh\<lparr>mm_store_mask := 0\<rparr>)" "access_ok va sz"
    and room: "card (keys h) + unat sz + 1 < 2 ^ 31"
  shows "\<exists>h'. mem_map_entries (store_entry fresh p off) (mem_map_entry_traversal_init va sz) h = Some h' \<and> mem_ok h' \<and>
    keys h' \<subseteq> keys h \<union> (\<lambda>x. of_nat (x div 8)) ` bytes_at va sz \<and>
    (\<forall>x < 2 ^ 64. (\<forall>o'. mem_store h' o' x = (if x \<in> bytes_at va sz \<and> o' = off then Some p else mem_store h o' x)) \<and>
      mem_flag h' x = (if x \<in> bytes_at va sz then off else mem_flag h x))"
proof -
  define P where "P S h' \<longleftrightarrow> mem_ok h' \<and> keys h' \<subseteq> keys h \<union> (\<lambda>x. of_nat (x div 8)) ` bytes_at va sz \<and>
    (\<forall>x < 2 ^ 64. (\<forall>o'. mem_store h' o' x = (if x \<in> S \<and> o' = off then Some p else mem_store h o' x)) \<and>
      mem_flag h' x = (if x \<in> S then off else mem_flag h x))" for S h'
  have fin: "finite (keys h)" using ok(1) nodes_card(1) by (simp add: mem_ok_def)
  have "\<exists>h2. store_entry fresh p off (entry_at va sz n) h1 = Some h2 \<and> P (S \<union> {x \<in> bytes_at va sz. x div 8 = n}) h2"
    if sz: "0 < unat sz" and n: "first_entry va \<le> n" "n \<le> last_entry va sz" and q: "P S h1" for n S h1
  proof -
    let ?N = "{x \<in> bytes_at va sz. x div 8 = n}"
    note b = byte_traversal [OF ok(3) sz n] and here = bytes_here [OF ok(3) sz n]
    have "card (keys h1) \<le> card (keys h \<union> (\<lambda>x. of_nat (x div 8)) ` bytes_at va sz)"
      using q fin unfolding P_def by (intro card_mono) (simp_all add: bytes_at_def)
    also have "\<dots> \<le> card (keys h) + card (bytes_at va sz)"
      by (intro order_trans [OF card_Un_le] add_left_mono card_image_le) (simp add: bytes_at_def)
    finally have q1: "mem_ok h1" "card (keys h1) + 1 < 2 ^ 31" using q room unfolding P_def by (simp_all add: bytes_at_def)
    obtain h2 where h2: "store_entry fresh p off (entry_at va sz n) h1 = Some h2" "mem_ok h2" "keys h2 = insert (of_nat n) (keys h1)"
      "\<And>x o'. x < 2 ^ 64 \<Longrightarrow> mem_store h2 o' x =
        (if x div 8 = n \<and> low_byte va n \<le> x mod 8 \<and> x mod 8 \<le> high_byte va sz n \<and> o' = off then Some p else mem_store h1 o' x)"
      "\<And>x. x < 2 ^ 64 \<Longrightarrow> mem_flag h2 x =
        (if x div 8 = n \<and> low_byte va n \<le> x mod 8 \<and> x mod 8 \<le> high_byte va sz n then off else mem_flag h1 x)"
      using store_entry_ok [OF q1 ok(2) entry_bound [OF ok(3) sz n] _ b, of p off] by (auto simp: entry_at_def)
    have "8 * n + low_byte va n \<in> ?N" using here [of "8 * n + low_byte va n"] b(2,3) by simp
    then have "of_nat n \<in> (\<lambda>x. of_nat (x div 8) :: 64 word) ` bytes_at va sz"
      by (intro image_eqI [of _ _ "8 * n + low_byte va n"]) auto
    then have k: "keys h2 \<subseteq> keys h \<union> (\<lambda>x. of_nat (x div 8)) ` bytes_at va sz" using q unfolding P_def h2(3) by blast
    have "mem_store h2 o' x = (if x \<in> ?N \<and> o' = off then Some p else mem_store h1 o' x)"
      "mem_flag h2 x = (if x \<in> ?N then off else mem_flag h1 x)" if "x < 2 ^ 64" for x o'
      using h2(4,5) [OF that] unfolding here [symmetric] by (simp_all only: conj_assoc)
    with k h2(1,2) q show ?thesis unfolding P_def by (intro exI [of _ h2]) simp
  qed
  then have "\<exists>h'. mem_map_entries (store_entry fresh p off) (mem_map_entry_traversal_init va sz) h = Some h' \<and> P (bytes_at va sz) h'"
    using ok(1) by (intro traverse_bytes ok(3)) (auto simp: P_def)
  then show ?thesis unfolding P_def .
qed


text \<open>Removing a store.\<close>

lemma delete_entry_ok:
  assumes ok: "mem_ok h" and n: "n < 2 ^ 61"
    and t: "tr_entry_addr t = of_nat (8 * n)" "mem_map_byte_traversal t = Some (map of_nat [lo ..< Suc hi])" "lo \<le> hi" "hi < 8"
  shows "\<exists>h'. delete_entry p off t h = Some h' \<and> mem_ok h' \<and> keys h' \<subseteq> keys h \<and>
    (\<forall>x < 2 ^ 64. (\<forall>o'. mem_store h' o' x =
        (if (x div 8 = n \<and> lo \<le> x mod 8 \<and> x mod 8 \<le> hi) \<and> o' = off \<and> mem_store h o' x = Some p then None else mem_store h o' x)) \<and>
      (mem_flag h' x \<longrightarrow> mem_flag h x) \<and> ((\<exists>o'. mem_store h' o' x \<noteq> None) \<longrightarrow> mem_flag h' x = mem_flag h x))"
proof -
  let ?k = "of_nat n :: 64 word" and ?ks = "[lo ..< Suc hi]"
  have inv: "ht_inv h" using ok by (simp add: mem_ok_def)
  have key: "MEM_MAP_KEY (tr_entry_addr t) = ?k" using MEM_MAP_KEY_entry [OF n] t(1) by simp
  show ?thesis
  proof (cases "hash_table_access h ?k")
    case None
    then have "mem_store h o' x = None" if "x div 8 = n" for x o' using that by (simp add: mem_store_def)
    then show ?thesis using None ok key by (intro exI [of _ h]) (auto simp: delete_entry_def)
  next
    case (Some e)
    have e: "entry_ok e" using ok Some by (auto simp: mem_ok_def)
    define e' where "e' = fold (delete_byte p off) (map of_nat ?ks) e"
    have ks: "\<forall>k \<in> set ?ks. k < 8" using t(4) by auto
    note b = delete_bytes_ok [OF e ks, of p off, folded e'_def]
    obtain h1 where h1: "put_entry ?k e' h = Some h1" "ht_inv h1"
      "\<And>k'. hash_table_access h1 k' = (if k' = ?k then Some e' else hash_table_access h k')"
      using put_entry_ok [OF inv, of ?k e'] Some by blast
    obtain h2 where d: "hash_table_access_delete h1 ?k = Some (hash_table_access h1 ?k \<noteq> None, h2)" "ht_inv h2"
      "\<And>k'. hash_table_access h2 k' = (if k' = ?k then None else hash_table_access h1 k')"
      by (rule hash_table_access_delete_ok [OF h1(2), of ?k]) blast
    have "hash_table_access_delete h1 ?k = Some (True, h2)" using d(1) h1(3) by simp
    note h2 = this d(2,3)
    define h' where "h' = (if mm_store_mask e' = 0 then h2 else h1)"
    have a: "hash_table_access h' k' = (if k' = ?k then (if mm_store_mask e' = 0 then None else Some e') else hash_table_access h k')" for k'
      using h1(3) h2(3) by (simp add: h'_def)
    have "delete_entry p off t h = Some h'"
      using Some key t(2) h1(1) h2(1) by (simp add: delete_entry_def Let_def h'_def e'_def del: upt_Suc)
    moreover have "unat ?k < 2 ^ 61" using ok Some unfolding mem_ok_def by blast
    then have "mem_ok h'" using ok a b h1(2) h2(2) by (auto simp: mem_ok_def h'_def split: if_splits)
    moreover have "keys h' \<subseteq> keys h" using a Some by (auto simp: keys_def split: if_splits)
    moreover have "mem_store h' o' x =
        (if (x div 8 = n \<and> lo \<le> x mod 8 \<and> x mod 8 \<le> hi) \<and> o' = off \<and> mem_store h o' x = Some p then None else mem_store h o' x)"
      "mem_flag h' x \<longrightarrow> mem_flag h x" "mem_store h' o' x \<noteq> None \<longrightarrow> mem_flag h' x = mem_flag h x" if x: "x < 2 ^ 64" for x o'
    proof -
      have c: "(of_nat (x div 8) :: 64 word) = ?k \<longleftrightarrow> x div 8 = n" by (rule key_eq [OF n x])
      have m: "x mod 8 < 8" by simp
      have z: "mm_store_mask e' = 0 \<Longrightarrow> entry_store e' o' (x mod 8) = None" by (simp add: entry_store_def)
      show "mem_store h' o' x =
          (if (x div 8 = n \<and> lo \<le> x mod 8 \<and> x mod 8 \<le> hi) \<and> o' = off \<and> mem_store h o' x = Some p then None else mem_store h o' x)"
      proof (cases "x div 8 = n")
        case True
        have "mem_store h' o' x = entry_store e' o' (x mod 8)" "mem_store h o' x = entry_store e o' (x mod 8)"
          using True a Some z by (simp_all add: mem_store_def)
        then show ?thesis using b m True by (cases "o' = off") (simp_all add: less_Suc_eq_le del: upt_Suc)
      qed (use a c in \<open>simp add: mem_store_def\<close>)
      show "mem_flag h' x \<longrightarrow> mem_flag h x" "mem_store h' o' x \<noteq> None \<longrightarrow> mem_flag h' x = mem_flag h x"
        using a b c Some by (auto simp: mem_flag_def mem_store_def split: if_splits)
    qed
    ultimately show ?thesis by blast
  qed
qed

lemma delete_all_bytes:
  assumes ok: "mem_ok h" "access_ok va sz"
  shows "\<exists>h'. mem_map_entries (delete_entry p off) (mem_map_entry_traversal_init va sz) h = Some h' \<and> mem_ok h' \<and> keys h' \<subseteq> keys h \<and>
    (\<forall>x < 2 ^ 64. (\<forall>o'. mem_store h' o' x =
        (if x \<in> bytes_at va sz \<and> o' = off \<and> mem_store h o' x = Some p then None else mem_store h o' x)) \<and>
      (mem_flag h' x \<longrightarrow> mem_flag h x) \<and> ((\<exists>o'. mem_store h' o' x \<noteq> None) \<longrightarrow> mem_flag h' x = mem_flag h x))"
proof -
  define P where "P S h' \<longleftrightarrow> mem_ok h' \<and> keys h' \<subseteq> keys h \<and>
    (\<forall>x < 2 ^ 64. (\<forall>o'. mem_store h' o' x = (if x \<in> S \<and> o' = off \<and> mem_store h o' x = Some p then None else mem_store h o' x)) \<and>
      (mem_flag h' x \<longrightarrow> mem_flag h x) \<and> ((\<exists>o'. mem_store h' o' x \<noteq> None) \<longrightarrow> mem_flag h' x = mem_flag h x))" for S h'
  have "\<exists>h2. delete_entry p off (entry_at va sz n) h1 = Some h2 \<and> P (S \<union> {x \<in> bytes_at va sz. x div 8 = n}) h2"
    if sz: "0 < unat sz" and n: "first_entry va \<le> n" "n \<le> last_entry va sz" and q: "P S h1" for n S h1
  proof -
    let ?N = "{x \<in> bytes_at va sz. x div 8 = n}"
    note b = byte_traversal [OF ok(2) sz n] and here = bytes_here [OF ok(2) sz n]
    have "mem_ok h1" "tr_entry_addr (entry_at va sz n) = of_nat (8 * n)" using q by (simp_all add: P_def entry_at_def)
    from delete_entry_ok [OF this(1) entry_bound [OF ok(2) sz n] this(2) b, unfolded here, of p off]
    obtain h2 where h2: "delete_entry p off (entry_at va sz n) h1 = Some h2" "mem_ok h2" "keys h2 \<subseteq> keys h1"
      "\<And>x o'. x < 2 ^ 64 \<Longrightarrow> mem_store h2 o' x =
        (if x \<in> ?N \<and> o' = off \<and> mem_store h1 o' x = Some p then None else mem_store h1 o' x)"
      "\<And>x. x < 2 ^ 64 \<Longrightarrow> mem_flag h2 x \<Longrightarrow> mem_flag h1 x"
      "\<And>x o'. x < 2 ^ 64 \<Longrightarrow> mem_store h2 o' x \<noteq> None \<Longrightarrow> mem_flag h2 x = mem_flag h1 x" by blast
    have q': "mem_store h1 o' x = (if x \<in> S \<and> o' = off \<and> mem_store h o' x = Some p then None else mem_store h o' x)"
      "mem_flag h1 x \<Longrightarrow> mem_flag h x" "mem_store h1 o' x \<noteq> None \<Longrightarrow> mem_flag h1 x = mem_flag h x" if "x < 2 ^ 64" for x o'
      using q that unfolding P_def by blast+
    have "mem_store h2 o' x = (if x \<in> S \<union> ?N \<and> o' = off \<and> mem_store h o' x = Some p then None else mem_store h o' x)"
      if "x < 2 ^ 64" for x o' using h2(4) [OF that, of o'] q'(1) [OF that, of o'] by (auto split: if_splits)
    moreover have "mem_store h2 o' x \<noteq> None \<Longrightarrow> mem_flag h2 x = mem_flag h x" if "x < 2 ^ 64" for x o'
      using h2(4,6) [OF that, of o'] q'(3) [OF that, of o'] by (simp split: if_splits)
    ultimately have "P (S \<union> ?N) h2" using h2(2,3,5) q'(2) q unfolding P_def by blast
    with h2(1) show ?thesis by blast
  qed
  then have "\<exists>h'. mem_map_entries (delete_entry p off) (mem_map_entry_traversal_init va sz) h = Some h' \<and> P (bytes_at va sz) h'"
    using ok(1) by (intro traverse_bytes ok(2)) (auto simp: P_def)
  then show ?thesis unfolding P_def .
qed

text \<open>The recovery clears the flags and nothing else.\<close>

lemma recover_mem_hash_ok:
  assumes ok: "mem_ok h"
  shows "\<exists>h'. recover_mem_hash h = Some h' \<and> mem_ok h' \<and> keys h' = keys h \<and> mem_store h' = mem_store h \<and> (\<forall>x. \<not> mem_flag h' x)"
proof -
  have inv: "ht_inv h" using ok by (simp add: mem_ok_def)
  let ?g = "\<lambda>n. n\<lparr>hte_data := recover_mem_map_entry (hte_data n)\<rparr>"
  define h' where "h' = h\<lparr>ht_entries := map (map ?g) (ht_entries h)\<rparr>"
  have n: "all_nodes h' = map ?g (all_nodes h)" by (simp add: all_nodes_def h'_def map_concat)
  have i: "HASH_INDEX h' = HASH_INDEX h" by (rule ext) (simp add: h'_def)
  have g: "hte_key \<circ> ?g = hte_key" by (simp add: fun_eq_iff)
  then have inv': "ht_inv h'" using inv unfolding ht_inv_def i by (auto simp: h'_def n [unfolded h'_def] g)
  have "hash_table_access h' k = map_option recover_mem_map_entry (hash_table_access h k)" for k
  proof -
    have "hash_table_access h' k = Some d \<longleftrightarrow> map_option recover_mem_map_entry (hash_table_access h k) = Some d" for d
      unfolding access_Some [OF inv'] n using access_Some [OF inv, of k] by (auto simp: image_iff)
    then show ?thesis by (metis not_Some_eq)
  qed
  then have "mem_ok h'" "keys h' = keys h" "mem_store h' = mem_store h" "\<forall>x. \<not> mem_flag h' x"
    using ok inv' by (auto simp: mem_ok_def keys_def mem_store_def mem_flag_def entry_ok_def entry_store_def
      recover_mem_map_entry_def fun_eq_iff split: option.splits)
  moreover have "recover_mem_hash h = Some h'"
    unfolding recover_mem_hash_def hash_table_scan_ok [OF inv] by (simp add: h'_def)
  ultimately show ?thesis by blast
qed

end
