(* ===== verification/Op_Window.thy ===== *)
theory Op_Window
  imports Op_Mem_Inv
begin

text \<open>
  The ops in flight as a list in program order: what the register map, the last store and the map of the stores
  in flight are meant to hold, and that mapping an op and recovering keep it.
\<close>

section \<open>The window\<close>

record Win_Op =
  wo_ptr :: opp
  wo_op_num :: Counter
  wo_unique :: Counter
  wo_info :: Fetched

definition wo_off :: "Win_Op \<Rightarrow> bool" where
  "wo_off x = fe_off_path (wo_info x)"

definition mem_type_of :: "Fetched \<Rightarrow> Mem_Type" where
  "mem_type_of f = ti_mem_type (fe_table_info f)"

definition src_regs :: "Fetched \<Rightarrow> uns16 list" where
  "src_regs f = take (unat (ti_num_src_regs (fe_table_info f))) (ii_srcs (fe_inst_info f))"

definition dest_regs :: "Fetched \<Rightarrow> uns16 list" where
  "dest_regs f = take (unat (ti_num_dest_regs (fe_table_info f))) (ii_dests (fe_inst_info f))"

definition writes_reg :: "nat \<Rightarrow> Win_Op \<Rightarrow> bool" where
  "writes_reg i x \<longleftrightarrow> i \<in> unat ` set (dest_regs (wo_info x))"

definition is_store :: "Win_Op \<Rightarrow> bool" where
  "is_store x \<longleftrightarrow> mem_type_of (wo_info x) = MEM_ST"

definition stores_to :: "nat \<Rightarrow> Win_Op \<Rightarrow> bool" where
  "stores_to b x \<longleftrightarrow> is_store x \<and> b \<in> bytes_at (fe_va (wo_info x)) (fe_mem_size (wo_info x))"

text \<open>The youngest op with a property.\<close>

definition youngest :: "('a \<Rightarrow> bool) \<Rightarrow> 'a list \<Rightarrow> 'a option" where
  "youngest P xs = find P (rev xs)"

definition entry_of :: "Win_Op option \<Rightarrow> Map_Entry" where
  "entry_of w = (case w of None \<Rightarrow> zero_entry
     | Some x \<Rightarrow> \<lparr>me_op = wo_ptr x, me_op_num = wo_op_num x, me_unique_num = wo_unique x\<rparr>)"

text \<open>Ops off the path are younger than all ops on it.\<close>

definition path_ok :: "Win_Op list \<Rightarrow> bool" where
  "path_ok H \<longleftrightarrow> sorted_wrt (\<lambda>x y. wo_off x \<longrightarrow> wo_off y) H"

lemma youngest_Nil [simp]: "youngest P [] = None"
  by (simp add: youngest_def)

lemma youngest_snoc [simp]: "youngest P (xs @ [x]) = (if P x then Some x else youngest P xs)"
  by (simp add: youngest_def)

lemma youngest_Some: "youngest P xs = Some x \<Longrightarrow> P x \<and> x \<in> set xs"
  by (auto simp: youngest_def find_Some_iff) (metis length_rev nth_mem set_rev)

lemma youngest_None: "youngest P xs = None \<longleftrightarrow> (\<forall>x \<in> set xs. \<not> P x)"
  by (auto simp: youngest_def find_None_iff)

lemma youngest_append: "youngest P (xs @ ys) = (case youngest P ys of None \<Rightarrow> youngest P xs | Some y \<Rightarrow> Some y)"
  by (induction ys rule: rev_induct) (simp_all add: append_assoc [symmetric] del: append_assoc)

lemma youngest_Cons: "youngest P (x # xs) = (case youngest P xs of None \<Rightarrow> if P x then Some x else None | Some y \<Rightarrow> Some y)"
  using youngest_append [of P "[x]" xs] youngest_snoc [of P "[]" x] by (simp split: option.split)

lemma youngest_cong: "(\<And>x. x \<in> set xs \<Longrightarrow> P x = Q x) \<Longrightarrow> youngest P xs = youngest Q xs"
  by (auto simp: youngest_def intro: find_cong)

lemma path_ok_snoc: "path_ok (H @ [x]) \<longleftrightarrow> path_ok H \<and> (\<not> wo_off x \<longrightarrow> (\<forall>y \<in> set H. \<not> wo_off y))"
  by (auto simp: path_ok_def sorted_wrt_append)

section \<open>A cell with a half for each path\<close>

definition cell_ok :: "(Win_Op \<Rightarrow> bool) \<Rightarrow> Win_Op list \<Rightarrow> Map_Entry \<Rightarrow> Map_Entry \<Rightarrow> bool \<Rightarrow> bool" where
  "cell_ok P H on off flag \<longleftrightarrow> on = entry_of (youngest (\<lambda>x. \<not> wo_off x \<and> P x) H) \<and>
     (flag \<longleftrightarrow> (\<exists>x \<in> set H. wo_off x \<and> P x)) \<and> (flag \<longrightarrow> off = entry_of (youngest (\<lambda>x. wo_off x \<and> P x) H))"

lemma youngest_by_path:
  "path_ok H \<Longrightarrow> youngest P H =
    (if \<exists>x \<in> set H. wo_off x \<and> P x then youngest (\<lambda>x. wo_off x \<and> P x) H else youngest (\<lambda>x. \<not> wo_off x \<and> P x) H)"
proof (induction H rule: rev_induct)
  case (snoc x H)
  then have H: "path_ok H" "\<not> wo_off x \<longrightarrow> (\<forall>y \<in> set H. \<not> wo_off y)" by (simp_all add: path_ok_snoc)
  then show ?case using snoc.IH by auto
qed simp

lemma cell_read:
  assumes "path_ok H" "cell_ok P H on off flag"
  shows "(if flag then off else on) = entry_of (youngest P H)"
  using assms(2) youngest_by_path [OF assms(1), of P] by (auto simp: cell_ok_def)

lemma cell_write:
  assumes "path_ok (H @ [x])" "cell_ok P H on off flag" "P x"
  shows "cell_ok P (H @ [x]) (if wo_off x then on else entry_of (Some x)) (if wo_off x then entry_of (Some x) else off) (wo_off x)"
  using assms by (auto simp: cell_ok_def path_ok_snoc)

lemma cell_skip:
  assumes "cell_ok P H on off flag" "\<not> P x"
  shows "cell_ok P (H @ [x]) on off flag"
  using assms by (auto simp: cell_ok_def)

lemma cell_recover:
  assumes "cell_ok P H on off flag"
  shows "cell_ok P (filter (\<lambda>x. \<not> wo_off x) H) on off' False"
proof -
  have "youngest (\<lambda>x. \<not> wo_off x \<and> P x) (filter (\<lambda>x. \<not> wo_off x) H) = youngest (\<lambda>x. \<not> wo_off x \<and> P x) H"
    by (induction H rule: rev_induct) auto
  then show ?thesis using assms by (auto simp: cell_ok_def)
qed

section \<open>The map data\<close>

definition regs_ok :: "Win_Op list \<Rightarrow> Map_Data \<Rightarrow> bool" where
  "regs_ok H md \<longleftrightarrow> length (md_reg_map md) = 2 * NUM_REG_IDS \<and> length (md_map_flags md) = NUM_REG_IDS \<and>
     length (md_last_store md) = 2 \<and>
     (\<forall>i < NUM_REG_IDS. cell_ok (writes_reg i) H (md_reg_map md ! (2 * i)) (md_reg_map md ! Suc (2 * i)) (md_map_flags md ! i)) \<and>
     cell_ok is_store H (md_last_store md ! 0) (md_last_store md ! Suc 0) (md_last_store_flag md)"

text \<open>What a read of the maps returns.\<close>

lemma reg_lookup:
  assumes "path_ok H" "regs_ok H md" "unat i < NUM_REG_IDS"
  shows "md_reg_map md ! reg_ind i (md_map_flags md ! unat i) = entry_of (youngest (writes_reg (unat i)) H)"
proof -
  let ?c = "md_map_flags md ! unat i"
  have "(if ?c then md_reg_map md ! Suc (2 * unat i) else md_reg_map md ! (2 * unat i)) = entry_of (youngest (writes_reg (unat i)) H)"
    using assms by (intro cell_read) (simp_all add: regs_ok_def)
  then show ?thesis by (cases ?c) (simp_all add: reg_ind_def)
qed

lemma store_lookup:
  assumes "path_ok H" "regs_ok H md"
  shows "md_last_store md ! of_bool (md_last_store_flag md) = entry_of (youngest is_store H)"
proof -
  let ?c = "md_last_store_flag md"
  have "(if ?c then md_last_store md ! Suc 0 else md_last_store md ! 0) = entry_of (youngest is_store H)"
    using assms by (intro cell_read) (simp_all add: regs_ok_def)
  then show ?thesis by (cases ?c) simp_all
qed

text \<open>The op of a window entry in the pool.\<close>

definition op_is :: "uns \<Rightarrow> Win_Op \<Rightarrow> Pool_Op \<Rightarrow> bool" where
  "op_is c x op \<longleftrightarrow> po_valid op \<and> \<not> po_marked op \<and> po_proc_id op = c \<and> po_op_num op = wo_op_num x \<and>
     po_unique_num op = wo_unique x \<and> po_table_info op = Some (fe_table_info (wo_info x)) \<and>
     po_inst_info op = Some (fe_inst_info (wo_info x)) \<and> po_va op = fe_va (wo_info x) \<and>
     po_mem_size op = fe_mem_size (wo_info x) \<and> po_off_path op = wo_off x \<and> length (po_src_info op) = MAX_DEPS"

definition fetched_ok :: "Fetched \<Rightarrow> bool" where
  "fetched_ok f \<longleftrightarrow> unat (ti_num_src_regs (fe_table_info f)) \<le> length (ii_srcs (fe_inst_info f)) \<and>
     unat (ti_num_dest_regs (fe_table_info f)) \<le> length (ii_dests (fe_inst_info f)) \<and>
     (\<forall>i \<in> set (src_regs f) \<union> set (dest_regs f). unat i < NUM_REG_IDS) \<and>
     access_ok (fe_va f) (fe_mem_size f) \<and> unat (fe_mem_size f) \<le> 2 ^ 16"

definition same_md :: "Map_Data \<Rightarrow> Map_Data \<Rightarrow> bool" where
  "same_md md md' \<longleftrightarrow> md_proc_id md' = md_proc_id md \<and> md_oracle_mem_hash md' = md_oracle_mem_hash md \<and>
     md_free_list md' = md_free_list md \<and> md_wake_up_entries md' = md_wake_up_entries md \<and>
     md_active_wake_up_entries md' = md_active_wake_up_entries md"

lemma same_md_refl [simp]: "same_md md md"
  by (simp add: same_md_def)

lemma same_md_trans: "same_md a b \<Longrightarrow> same_md b c \<Longrightarrow> same_md a c"
  by (simp add: same_md_def)

lemma write_regs_ok:
  assumes "\<forall>i \<in> set is. unat i < NUM_REG_IDS" "length (md_reg_map md) = 2 * NUM_REG_IDS" "length (md_map_flags md) = NUM_REG_IDS"
  shows "\<exists>md'. loop (write_reg p op) is md = Some md' \<and> same_md md md' \<and> md_last_store md' = md_last_store md \<and>
    md_last_store_flag md' = md_last_store_flag md \<and>
    length (md_reg_map md') = 2 * NUM_REG_IDS \<and> length (md_map_flags md') = NUM_REG_IDS \<and>
    (\<forall>i < NUM_REG_IDS. md_map_flags md' ! i = (if i \<in> unat ` set is then po_off_path op else md_map_flags md ! i) \<and>
      (\<forall>b. md_reg_map md' ! (2 * i + of_bool b) =
         (if i \<in> unat ` set is \<and> b = po_off_path op then written_entry p op else md_reg_map md ! (2 * i + of_bool b))))"
  using assms
proof (induction "is" arbitrary: md)
  case (Cons j js)
  let ?e = "written_entry p op"
  let ?md = "md\<lparr>md_reg_map := (md_reg_map md)[reg_ind j (po_off_path op) := ?e], md_map_flags := (md_map_flags md)[unat j := po_off_path op]\<rparr>"
  have w: "write_reg p op j md = Some ?md" using Cons.prems(1) by (simp add: write_reg_def)
  obtain md' where IH: "loop (write_reg p op) js ?md = Some md'" "same_md ?md md'" "md_last_store md' = md_last_store ?md"
    "md_last_store_flag md' = md_last_store_flag ?md" "length (md_reg_map md') = 2 * NUM_REG_IDS" "length (md_map_flags md') = NUM_REG_IDS"
    "\<And>i. i < NUM_REG_IDS \<Longrightarrow> md_map_flags md' ! i = (if i \<in> unat ` set js then po_off_path op else md_map_flags ?md ! i)"
    "\<And>i b. i < NUM_REG_IDS \<Longrightarrow> md_reg_map md' ! (2 * i + of_bool b) =
         (if i \<in> unat ` set js \<and> b = po_off_path op then ?e else md_reg_map ?md ! (2 * i + of_bool b))"
    using Cons.IH [of ?md] Cons.prems by auto
  have j: "unat j < NUM_REG_IDS" using Cons.prems(1) by simp
  have r: "md_reg_map ?md ! (2 * i + of_bool b) = (if i = unat j \<and> b = po_off_path op then ?e else md_reg_map md ! (2 * i + of_bool b))"
    if "i < NUM_REG_IDS" for i b
  proof -
    have "2 * i + of_bool b = 2 * unat j + of_bool (po_off_path op) \<longleftrightarrow> i = unat j \<and> b = po_off_path op"
      by (cases b; cases "po_off_path op") (auto, presburger+)
    moreover have "2 * unat j + of_bool (po_off_path op) < 2 * NUM_REG_IDS" using j by (cases "po_off_path op") auto
    ultimately show ?thesis using Cons.prems(2) by (auto simp: reg_ind_def nth_list_update)
  qed
  show ?case
    using w IH r j Cons.prems(3)
    by (intro exI [of _ md']) (auto simp: same_md_def nth_list_update)
qed simp

lemma update_map_ok:
  assumes op: "get_op (wo_ptr x) s = Some op" "op_is (md_proc_id (td_map_data s)) x op"
    and x: "fetched_ok (wo_info x)" "path_ok (H @ [x])" and r: "regs_ok H (td_map_data s)"
  shows "\<exists>md'. update_map (wo_ptr x) s = Some (s\<lparr>td_map_data := md'\<rparr>) \<and> regs_ok (H @ [x]) md' \<and> same_md (td_map_data s) md'"
proof -
  let ?md = "td_map_data s" and ?p = "wo_ptr x"
  have w: "written_entry ?p op = entry_of (Some x)" "po_off_path op = wo_off x"
    using op(2) by (simp_all add: written_entry_def entry_of_def op_is_def)
  obtain md' where md': "loop (write_reg ?p op) (dest_regs (wo_info x)) ?md = Some md'" "same_md ?md md'"
    "md_last_store md' = md_last_store ?md" "md_last_store_flag md' = md_last_store_flag ?md"
    "length (md_reg_map md') = 2 * NUM_REG_IDS" "length (md_map_flags md') = NUM_REG_IDS"
    "\<And>i. i < NUM_REG_IDS \<Longrightarrow> md_map_flags md' ! i = (if writes_reg i x then wo_off x else md_map_flags ?md ! i)"
    "\<And>i b. i < NUM_REG_IDS \<Longrightarrow> md_reg_map md' ! (2 * i + of_bool b) =
         (if writes_reg i x \<and> b = wo_off x then entry_of (Some x) else md_reg_map ?md ! (2 * i + of_bool b))"
    using write_regs_ok [of "dest_regs (wo_info x)" ?md ?p op] x(1) r w
    unfolding fetched_ok_def regs_ok_def writes_reg_def by auto
  have regs: "cell_ok (writes_reg i) (H @ [x]) (md_reg_map md' ! (2 * i)) (md_reg_map md' ! Suc (2 * i)) (md_map_flags md' ! i)"
    if i: "i < NUM_REG_IDS" for i
  proof -
    have c: "cell_ok (writes_reg i) H (md_reg_map ?md ! (2 * i)) (md_reg_map ?md ! Suc (2 * i)) (md_map_flags ?md ! i)"
      using r i by (simp add: regs_ok_def)
    note v = md'(7) [OF i] md'(8) [OF i, of False] md'(8) [OF i, of True]
    show ?thesis
    proof (cases "writes_reg i x")
      case True
      then show ?thesis using cell_write [OF x(2) c True] v by (cases "wo_off x") simp_all
    qed (use cell_skip [OF c] v in simp)
  qed
  let ?md' = "if is_store x then write_store ?p op md' else md'"
  have c: "cell_ok is_store H (md_last_store ?md ! 0) (md_last_store ?md ! Suc 0) (md_last_store_flag ?md)"
    and l: "length (md_last_store ?md) = 2" using r by (simp_all add: regs_ok_def)
  have "cell_ok is_store (H @ [x]) (md_last_store ?md' ! 0) (md_last_store ?md' ! Suc 0) (md_last_store_flag ?md')"
  proof (cases "is_store x")
    case True
    then show ?thesis using cell_write [OF x(2) c True] l md'(3,4) w by (cases "wo_off x") (simp_all add: write_store_def)
  qed (use cell_skip [OF c] md'(3,4) in simp)
  then have "regs_ok (H @ [x]) ?md'" using regs md'(3,5,6) l by (simp add: regs_ok_def write_store_def)
  moreover have "same_md ?md ?md'" using md'(2) by (simp add: same_md_def write_store_def)
  moreover have "update_map ?p s = Some (s\<lparr>td_map_data := ?md'\<rparr>)"
    using op x(1) md'(1) by (auto simp: update_map_def op_is_def fetched_ok_def dest_regs_def is_store_def mem_type_of_def)
  ultimately show ?thesis by blast
qed


section \<open>The stores in flight\<close>

text \<open>The two maps of stores hold the youngest store of their path. A byte that no op of the window off the path
  stores to may still hold one of the ops \<open>Z\<close>, which are about to be freed.\<close>

definition stores_rel :: "Mem_Map_Entry Hash_Table \<Rightarrow> Win_Op list \<Rightarrow> Win_Op list \<Rightarrow> bool" where
  "stores_rel h W Z \<longleftrightarrow> mem_ok h \<and>
     (\<forall>b < 2 ^ 64.
        mem_store h False b = map_option wo_ptr (youngest (\<lambda>x. \<not> wo_off x \<and> stores_to b x) W) \<and>
        (mem_flag h b \<longleftrightarrow> (\<exists>x \<in> set W. wo_off x \<and> stores_to b x)) \<and>
        (case youngest (\<lambda>x. wo_off x \<and> stores_to b x) W of
           Some x \<Rightarrow> mem_store h True b = Some (wo_ptr x)
         | None \<Rightarrow> \<forall>p. mem_store h True b = Some p \<longrightarrow> (\<exists>y \<in> set Z. wo_off y \<and> stores_to b y \<and> wo_ptr y = p)))"

abbreviation stores_ok :: "Mem_Map_Entry Hash_Table \<Rightarrow> Win_Op list \<Rightarrow> bool" where
  "stores_ok h W \<equiv> stores_rel h W []"

text \<open>What a load finds.\<close>

definition supplier :: "Mem_Map_Entry Hash_Table \<Rightarrow> nat \<Rightarrow> opp option" where
  "supplier h b = mem_store h (mem_flag h b) b"

lemma supplier_youngest:
  assumes "stores_ok h W" "path_ok W" "b < 2 ^ 64"
  shows "supplier h b = map_option wo_ptr (youngest (stores_to b) W)"
proof -
  have s: "mem_store h False b = map_option wo_ptr (youngest (\<lambda>x. \<not> wo_off x \<and> stores_to b x) W)"
    "mem_flag h b \<longleftrightarrow> (\<exists>x \<in> set W. wo_off x \<and> stores_to b x)"
    "\<And>x. youngest (\<lambda>x. wo_off x \<and> stores_to b x) W = Some x \<Longrightarrow> mem_store h True b = Some (wo_ptr x)"
    using assms(1,3) unfolding stores_rel_def by (blast, blast, fastforce)
  have y: "youngest (stores_to b) W = (if mem_flag h b then youngest (\<lambda>x. wo_off x \<and> stores_to b x) W
      else youngest (\<lambda>x. \<not> wo_off x \<and> stores_to b x) W)"
    using youngest_by_path [OF assms(2), of "stores_to b"] by (simp only: s(2))
  show ?thesis
  proof (cases "mem_flag h b")
    case True
    then obtain x where "youngest (\<lambda>x. wo_off x \<and> stores_to b x) W = Some x" using s(2) youngest_None by (metis not_Some_eq)
    then show ?thesis using True s(3) y by (simp add: supplier_def)
  next
    case False
    then have "supplier h b = mem_store h False b" by (simp add: supplier_def)
    then show ?thesis using False s(1) y by (simp only: if_False)
  qed
qed

lemma keys_bound:
  assumes h: "mem_ok h" and c: "\<And>b o'. b < 2 ^ 64 \<Longrightarrow> mem_store h o' b \<noteq> None \<Longrightarrow> \<exists>x \<in> set W. stores_to b x"
    and z: "\<forall>x \<in> set W. unat (fe_mem_size (wo_info x)) \<le> 2 ^ 16"
  shows "card (keys h) \<le> length W * 2 ^ 16"
proof -
  define B :: "Win_Op \<Rightarrow> nat set" where "B x = bytes_at (fe_va (wo_info x)) (fe_mem_size (wo_info x))" for x
  have fin: "finite (B x)" "card (B x) \<le> 2 ^ 16" if "x \<in> set W" for x using z that by (simp_all add: B_def bytes_at_def)
  have "keys h \<subseteq> (\<lambda>b. of_nat (b div 8)) ` (\<Union>x \<in> set W. B x)"
  proof
    fix k assume "k \<in> keys h"
    then obtain e where e: "hash_table_access h k = Some e" by (auto simp: keys_def)
    then have m: "entry_ok e" "mm_store_mask e \<noteq> 0" "unat k < 2 ^ 61" using h unfolding mem_ok_def by blast+
    then obtain o' b where b: "b < 8" "entry_store e o' b \<noteq> None" using no_store_mask by blast
    let ?b = "8 * unat k + b"
    have d: "?b div 8 = unat k" "?b mod 8 = b" "?b < 2 ^ 64" using b(1) m(3) by simp_all
    then have "mem_store h o' ?b \<noteq> None" using e b(2) by (simp add: mem_store_def)
    then obtain x where "x \<in> set W" "stores_to ?b x" using c d(3) by blast
    then have "?b \<in> (\<Union>x \<in> set W. B x)" by (auto simp: stores_to_def B_def)
    then show "k \<in> (\<lambda>b. of_nat (b div 8)) ` (\<Union>x \<in> set W. B x)" using d(1) by (intro image_eqI [of _ _ ?b]) simp_all
  qed
  moreover have fU: "finite (\<Union>x \<in> set W. B x)" using fin by simp
  ultimately have "card (keys h) \<le> card ((\<lambda>b. of_nat (b div 8) :: 64 word) ` (\<Union>x \<in> set W. B x))" by (intro card_mono finite_imageI)
  also have "\<dots> \<le> card (\<Union>x \<in> set W. B x)" using fU by (rule card_image_le)
  also have "\<dots> \<le> (\<Sum>x \<in> set W. card (B x))" by (rule card_UN_le) simp
  also have "\<dots> \<le> card (set W) * 2 ^ 16" using sum_bounded_above [of "set W" "\<lambda>x. card (B x)" "2 ^ 16"] fin by simp
  also have "\<dots> \<le> length W * 2 ^ 16" by (intro mult_right_mono card_length) simp
  finally show ?thesis .
qed

lemma stores_rel_covered:
  assumes "stores_rel h W Z" "b < 2 ^ 64" "mem_store h o' b \<noteq> None"
  shows "\<exists>x \<in> set (W @ Z). stores_to b x"
proof (cases o')
  case False
  then have "youngest (\<lambda>x. \<not> wo_off x \<and> stores_to b x) W \<noteq> None" using assms unfolding stores_rel_def by auto
  then show ?thesis by (auto dest: youngest_Some)
next
  case True
  then show ?thesis
  proof (cases "youngest (\<lambda>x. wo_off x \<and> stores_to b x) W")
    case None
    then show ?thesis using True assms unfolding stores_rel_def by fastforce
  qed (auto dest: youngest_Some)
qed

lemma stores_rel_write:
  assumes r: "stores_rel h W Z" and x: "is_store x" "path_ok (W @ [x])" "fetched_ok (wo_info x)"
    and f: "entry_ok (fresh\<lparr>mm_store_mask := 0\<rparr>)" and n: "length W + length Z \<le> 2 ^ 14"
    and z: "\<forall>x \<in> set (W @ Z). fetched_ok (wo_info x)"
  shows "\<exists>h'. mem_map_entries (store_entry fresh (wo_ptr x) (wo_off x))
      (mem_map_entry_traversal_init (fe_va (wo_info x)) (fe_mem_size (wo_info x))) h = Some h' \<and> stores_rel h' (W @ [x]) Z"
proof -
  let ?va = "fe_va (wo_info x)" and ?sz = "fe_mem_size (wo_info x)"
  have m: "mem_ok h" using r by (simp add: stores_rel_def)
  have "card (keys h) \<le> length (W @ Z) * 2 ^ 16"
    using keys_bound [OF m, of "W @ Z"] stores_rel_covered [OF r] z by (auto simp: fetched_ok_def)
  also have "\<dots> \<le> 2 ^ 14 * 2 ^ 16" using n by (intro mult_right_mono) simp_all
  finally have "card (keys h) + unat ?sz + 1 < 2 ^ 31" using x(3) by (simp add: fetched_ok_def)
  moreover have "access_ok ?va ?sz" using x(3) by (simp add: fetched_ok_def)
  ultimately obtain h' where h': "mem_map_entries (store_entry fresh (wo_ptr x) (wo_off x)) (mem_map_entry_traversal_init ?va ?sz) h = Some h'"
    "mem_ok h'"
    "\<And>b o'. b < 2 ^ 64 \<Longrightarrow> mem_store h' o' b = (if b \<in> bytes_at ?va ?sz \<and> o' = wo_off x then Some (wo_ptr x) else mem_store h o' b)"
    "\<And>b. b < 2 ^ 64 \<Longrightarrow> mem_flag h' b = (if b \<in> bytes_at ?va ?sz then wo_off x else mem_flag h b)"
    using store_all_bytes [OF m f, of ?va ?sz "wo_ptr x" "wo_off x"] by blast
  have s: "stores_to b x \<longleftrightarrow> b \<in> bytes_at ?va ?sz" for b using x(1) by (simp add: stores_to_def)
  have on: "\<not> wo_off x \<Longrightarrow> \<forall>y \<in> set W. \<not> wo_off y" using x(2) by (simp add: path_ok_snoc)
  have "stores_rel h' (W @ [x]) Z" unfolding stores_rel_def
  proof (intro conjI allI impI h'(2))
    fix b :: nat assume b: "b < 2 ^ 64"
    note o = h'(3) [OF b, of False] h'(3) [OF b, of True] h'(4) [OF b]
    have r': "mem_store h False b = map_option wo_ptr (youngest (\<lambda>x. \<not> wo_off x \<and> stores_to b x) W)"
      "mem_flag h b \<longleftrightarrow> (\<exists>x \<in> set W. wo_off x \<and> stores_to b x)"
      "(case youngest (\<lambda>x. wo_off x \<and> stores_to b x) W of
           Some x \<Rightarrow> mem_store h True b = Some (wo_ptr x)
         | None \<Rightarrow> \<forall>p. mem_store h True b = Some p \<longrightarrow> (\<exists>y \<in> set Z. wo_off y \<and> stores_to b y \<and> wo_ptr y = p))"
      using r b unfolding stores_rel_def by blast+
    show "mem_store h' False b = map_option wo_ptr (youngest (\<lambda>x. \<not> wo_off x \<and> stores_to b x) (W @ [x]))"
      using o(1) r'(1) s by simp
    show "mem_flag h' b \<longleftrightarrow> (\<exists>y \<in> set (W @ [x]). wo_off y \<and> stores_to b y)" using o(3) r'(2) s on by auto
    show "case youngest (\<lambda>x. wo_off x \<and> stores_to b x) (W @ [x]) of
           Some x \<Rightarrow> mem_store h' True b = Some (wo_ptr x)
         | None \<Rightarrow> \<forall>p. mem_store h' True b = Some p \<longrightarrow> (\<exists>y \<in> set Z. wo_off y \<and> stores_to b y \<and> wo_ptr y = p)"
      using o(2) r'(3) s by (auto split: option.splits)
  qed
  with h'(1) show ?thesis by blast
qed

lemma stores_rel_clear:
  assumes "stores_ok h W" "mem_ok h'" "mem_store h' = mem_store h" "\<forall>b. \<not> mem_flag h' b"
  shows "stores_rel h' (filter (\<lambda>x. \<not> wo_off x) W) W"
proof -
  let ?on = "filter (\<lambda>x. \<not> wo_off x) W"
  have y: "youngest (\<lambda>x. \<not> wo_off x \<and> P x) ?on = youngest (\<lambda>x. \<not> wo_off x \<and> P x) W" "youngest (\<lambda>x. wo_off x \<and> P x) ?on = None" for P
    by (induction W rule: rev_induct) (auto simp: youngest_None)
  show ?thesis unfolding stores_rel_def y
  proof (intro conjI allI impI assms(2))
    fix b :: nat assume b: "b < 2 ^ 64"
    note r = assms(1) [unfolded stores_rel_def, THEN conjunct2, rule_format, OF b]
    show "mem_store h' False b = map_option wo_ptr (youngest (\<lambda>x. \<not> wo_off x \<and> stores_to b x) W)"
      using r assms(3) by simp
    show "mem_flag h' b \<longleftrightarrow> (\<exists>x \<in> set ?on. wo_off x \<and> stores_to b x)" using assms(4) by simp
    have "case youngest (\<lambda>x. wo_off x \<and> stores_to b x) W of Some x \<Rightarrow> mem_store h True b = Some (wo_ptr x)
      | None \<Rightarrow> \<forall>p. mem_store h True b = Some p \<longrightarrow> False" using r by (auto split: option.splits)
    then show "case None of Some x \<Rightarrow> mem_store h' True b = Some (wo_ptr x)
      | None \<Rightarrow> \<forall>p. mem_store h' True b = Some p \<longrightarrow> (\<exists>y \<in> set W. wo_off y \<and> stores_to b y \<and> wo_ptr y = p)"
      using assms(3) by (auto split: option.splits dest!: youngest_Some)
  qed
qed

text \<open>An op of the window that is also about to be freed is no exception.\<close>

lemma stores_rel_less:
  assumes "stores_rel h W Z" "set Z \<subseteq> set W \<union> set Z'"
  shows "stores_rel h W Z'"
  unfolding stores_rel_def
proof (intro conjI allI impI)
  fix b :: nat assume b: "b < 2 ^ 64"
  note r = assms(1) [unfolded stores_rel_def, THEN conjunct2, rule_format, OF b]
  show "mem_store h False b = map_option wo_ptr (youngest (\<lambda>x. \<not> wo_off x \<and> stores_to b x) W)"
    "mem_flag h b \<longleftrightarrow> (\<exists>x \<in> set W. wo_off x \<and> stores_to b x)" using r by blast+
  show "case youngest (\<lambda>x. wo_off x \<and> stores_to b x) W of Some x \<Rightarrow> mem_store h True b = Some (wo_ptr x)
    | None \<Rightarrow> \<forall>p. mem_store h True b = Some p \<longrightarrow> (\<exists>y \<in> set Z'. wo_off y \<and> stores_to b y \<and> wo_ptr y = p)"
  proof (cases "youngest (\<lambda>x. wo_off x \<and> stores_to b x) W")
    case None
    then have "\<forall>x \<in> set W. \<not> (wo_off x \<and> stores_to b x)" by (simp only: youngest_None)
    then show ?thesis using None r assms(2) by fastforce
  qed (use r in simp)
qed (use assms(1) in \<open>simp add: stores_rel_def\<close>)

text \<open>Freeing an op off the path, and retiring the oldest.\<close>

lemma stores_rel_flush:
  assumes r: "stores_rel h W Z" and y: "is_store y" "wo_off y" "fetched_ok (wo_info y)" "wo_ptr y \<notin> wo_ptr ` set W"
  shows "\<exists>h'. mem_map_entries (delete_entry (wo_ptr y) (wo_off y))
      (mem_map_entry_traversal_init (fe_va (wo_info y)) (fe_mem_size (wo_info y))) h = Some h' \<and>
    stores_rel h' W (filter (\<lambda>z. z \<noteq> y) Z)"
proof -
  let ?va = "fe_va (wo_info y)" and ?sz = "fe_mem_size (wo_info y)"
  have m: "mem_ok h" and a: "access_ok ?va ?sz" using r y(3) by (simp_all add: stores_rel_def fetched_ok_def)
  obtain h' where h': "mem_map_entries (delete_entry (wo_ptr y) (wo_off y)) (mem_map_entry_traversal_init ?va ?sz) h = Some h'" "mem_ok h'"
    "\<And>b o'. b < 2 ^ 64 \<Longrightarrow> mem_store h' o' b =
      (if b \<in> bytes_at ?va ?sz \<and> o' = wo_off y \<and> mem_store h o' b = Some (wo_ptr y) then None else mem_store h o' b)"
    "\<And>b. b < 2 ^ 64 \<Longrightarrow> (mem_flag h' b \<longrightarrow> mem_flag h b) \<and> ((\<exists>o'. mem_store h' o' b \<noteq> None) \<longrightarrow> mem_flag h' b = mem_flag h b)"
    using delete_all_bytes [OF m a, of "wo_ptr y" "wo_off y"] by blast
  have "stores_rel h' W (filter (\<lambda>z. z \<noteq> y) Z)" unfolding stores_rel_def
  proof (intro conjI allI impI h'(2))
    fix b :: nat assume b: "b < 2 ^ 64"
    note r = r [unfolded stores_rel_def, THEN conjunct2, rule_format, OF b]
    note o = h'(3) [OF b, of False] h'(3) [OF b, of True] h'(4) [OF b]
    show "mem_store h' False b = map_option wo_ptr (youngest (\<lambda>x. \<not> wo_off x \<and> stores_to b x) W)" using o(1) r y(2) by simp
    show c: "case youngest (\<lambda>x. wo_off x \<and> stores_to b x) W of Some x \<Rightarrow> mem_store h' True b = Some (wo_ptr x)
      | None \<Rightarrow> \<forall>p. mem_store h' True b = Some p \<longrightarrow> (\<exists>z \<in> set (filter (\<lambda>z. z \<noteq> y) Z). wo_off z \<and> stores_to b z \<and> wo_ptr z = p)"
    proof (cases "youngest (\<lambda>x. wo_off x \<and> stores_to b x) W")
      case None
      have "\<exists>z \<in> set (filter (\<lambda>z. z \<noteq> y) Z). wo_off z \<and> stores_to b z \<and> wo_ptr z = p" if p: "mem_store h' True b = Some p" for p
      proof -
        have "mem_store h True b = Some p" "\<not> (b \<in> bytes_at ?va ?sz \<and> p = wo_ptr y)"
          using p o(2) y(2) by (auto split: if_splits)
        moreover from this(1) obtain z where "z \<in> set Z" "wo_off z" "stores_to b z" "wo_ptr z = p" using None r by auto
        ultimately show ?thesis by (auto simp: stores_to_def)
      qed
      then show ?thesis using None by simp
    next
      case (Some x)
      then have "x \<in> set W" by (blast dest: youngest_Some)
      then have "wo_ptr x \<noteq> wo_ptr y" using y(4) by (metis imageI)
      then show ?thesis using Some r o(2) by auto
    qed
    show "mem_flag h' b \<longleftrightarrow> (\<exists>x \<in> set W. wo_off x \<and> stores_to b x)"
    proof (cases "youngest (\<lambda>x. wo_off x \<and> stores_to b x) W")
      case None
      then have "\<not> mem_flag h b" using r by (auto simp: youngest_None)
      then show ?thesis using None o(3) by (auto simp: youngest_None)
    next
      case (Some x)
      then have "mem_store h' True b \<noteq> None" using c by simp
      then show ?thesis using o(3) r by blast
    qed
  qed
  with h'(1) show ?thesis by blast
qed

lemma stores_ok_retire:
  assumes r: "stores_ok h (x # W)" and x: "is_store x" "\<not> wo_off x" "fetched_ok (wo_info x)" "wo_ptr x \<notin> wo_ptr ` set W"
  shows "\<exists>h'. mem_map_entries (delete_entry (wo_ptr x) (wo_off x))
      (mem_map_entry_traversal_init (fe_va (wo_info x)) (fe_mem_size (wo_info x))) h = Some h' \<and> stores_ok h' W"
proof -
  let ?va = "fe_va (wo_info x)" and ?sz = "fe_mem_size (wo_info x)"
  have m: "mem_ok h" and a: "access_ok ?va ?sz" using r x(3) by (simp_all add: stores_rel_def fetched_ok_def)
  obtain h' where h': "mem_map_entries (delete_entry (wo_ptr x) (wo_off x)) (mem_map_entry_traversal_init ?va ?sz) h = Some h'" "mem_ok h'"
    "\<And>b o'. b < 2 ^ 64 \<Longrightarrow> mem_store h' o' b =
      (if b \<in> bytes_at ?va ?sz \<and> o' = wo_off x \<and> mem_store h o' b = Some (wo_ptr x) then None else mem_store h o' b)"
    "\<And>b. b < 2 ^ 64 \<Longrightarrow> (mem_flag h' b \<longrightarrow> mem_flag h b) \<and> ((\<exists>o'. mem_store h' o' b \<noteq> None) \<longrightarrow> mem_flag h' b = mem_flag h b)"
    using delete_all_bytes [OF m a, of "wo_ptr x" "wo_off x"] by blast
  have "stores_ok h' W" unfolding stores_rel_def
  proof (intro conjI allI impI h'(2))
    fix b :: nat assume b: "b < 2 ^ 64"
    note r = r [unfolded stores_rel_def, THEN conjunct2, rule_format, OF b]
    note o = h'(3) [OF b, of False] h'(3) [OF b, of True] h'(4) [OF b]
    have off: "youngest (\<lambda>x. wo_off x \<and> stores_to b x) (x # W) = youngest (\<lambda>x. wo_off x \<and> stores_to b x) W"
      using x(2) by (simp add: youngest_Cons split: option.split)
    show "mem_store h' False b = map_option wo_ptr (youngest (\<lambda>x. \<not> wo_off x \<and> stores_to b x) W)"
    proof (cases "youngest (\<lambda>x. \<not> wo_off x \<and> stores_to b x) W")
      case None
      then show ?thesis using r o(1) x(1,2) by (auto simp: youngest_Cons stores_to_def)
    next
      case (Some y)
      then have "y \<in> set W" by (blast dest: youngest_Some)
      then have "wo_ptr y \<noteq> wo_ptr x" using x(4) by (metis imageI)
      then show ?thesis using Some r o(1) by (auto simp: youngest_Cons)
    qed
    show c: "case youngest (\<lambda>x. wo_off x \<and> stores_to b x) W of Some x \<Rightarrow> mem_store h' True b = Some (wo_ptr x)
      | None \<Rightarrow> \<forall>p. mem_store h' True b = Some p \<longrightarrow> (\<exists>z \<in> set []. wo_off z \<and> stores_to b z \<and> wo_ptr z = p)"
      using r [unfolded off] o(2) x(2) by (auto split: option.splits)
    show "mem_flag h' b \<longleftrightarrow> (\<exists>x \<in> set W. wo_off x \<and> stores_to b x)"
    proof (cases "youngest (\<lambda>x. wo_off x \<and> stores_to b x) W")
      case None
      then have "\<not> mem_flag h b" using r x(2) by (auto simp: youngest_None)
      then show ?thesis using None o(3) by (auto simp: youngest_None)
    next
      case (Some y)
      then have "mem_store h' True b \<noteq> None" using c by simp
      then show ?thesis using o(3) r x(2) by auto
    qed
  qed
  with h'(1) show ?thesis by blast
qed

end
