(* ===== verification/Op_Sources.thy ===== *)
theory Op_Sources
  imports Op_Window
begin

text \<open>
  Reading the maps: which sources an op gets when it is mapped, and that nothing else in the machine changes.
\<close>

section \<open>States that differ in the sources of one op and in marks\<close>

definition srcs :: "Pool_Op \<Rightarrow> Src_Info list" where
  "srcs op = take (unat (po_num_srcs op)) (po_src_info op)"

definition more_srcs :: "Pool_Op \<Rightarrow> Src_Info list \<Rightarrow> Pool_Op \<Rightarrow> bool" where
  "more_srcs op T op' \<longleftrightarrow> (\<exists>n src v. op' = op\<lparr>po_num_srcs := n, po_src_info := src, po_srcs_not_rdy_vector := v\<rparr> \<and>
     length src = length (po_src_info op) \<and> unat n = unat (po_num_srcs op) + length T \<and> take (unat n) src = srcs op @ T)"

definition ext :: "opp \<Rightarrow> Src_Info list \<Rightarrow> opp set \<Rightarrow> Op_Machine \<Rightarrow> Op_Machine \<Rightarrow> bool" where
  "ext p T M s s' \<longleftrightarrow> s' = s\<lparr>om_ops := om_ops s'\<rparr> \<and> length (om_ops s') = length (om_ops s) \<and> p < length (om_ops s) \<and>
     more_srcs (om_ops s ! p) T (om_ops s' ! p) \<and>
     (\<forall>q < length (om_ops s). q \<noteq> p \<longrightarrow>
        om_ops s' ! q = (if q \<in> M then (om_ops s ! q)\<lparr>po_marked := True\<rparr> else om_ops s ! q))"

lemma more_srcs_refl: "length (po_src_info op) = MAX_DEPS \<Longrightarrow> unat (po_num_srcs op) \<le> MAX_DEPS \<Longrightarrow> more_srcs op [] op"
  unfolding more_srcs_def srcs_def
  by (intro exI [of _ "po_num_srcs op"] exI [of _ "po_src_info op"] exI [of _ "po_srcs_not_rdy_vector op"]) simp

lemma more_srcsD:
  assumes "more_srcs op T op'"
  shows "srcs op' = srcs op @ T" "unat (po_num_srcs op') = unat (po_num_srcs op) + length T"
    "length (po_src_info op') = length (po_src_info op)"
    "po_valid op' = po_valid op" "po_proc_id op' = po_proc_id op" "po_op_num op' = po_op_num op"
    "po_unique_num op' = po_unique_num op" "po_table_info op' = po_table_info op" "po_inst_info op' = po_inst_info op"
    "po_va op' = po_va op" "po_mem_size op' = po_mem_size op" "po_off_path op' = po_off_path op" "po_marked op' = po_marked op"
  using assms by (auto simp: more_srcs_def srcs_def)

lemma more_srcs_op_is: "more_srcs op T op' \<Longrightarrow> op_is c x op' = op_is c x op"
  using more_srcsD [of op T op'] by (simp add: op_is_def)

lemma extD:
  assumes "ext p T M s s'"
  shows "length (om_ops s') = length (om_ops s)" "p < length (om_ops s)" "td_map_data s' = td_map_data s"
    "om_free s' = om_free s" "op_pool_entries s' = op_pool_entries s" "op_pool_active_ops s' = op_pool_active_ops s"
    "td_proc_id s' = td_proc_id s" "td_seq_op_list s' = td_seq_op_list s" "op_count s' = op_count s"
    "unique_count s' = unique_count s" "unique_count_per_core s' = unique_count_per_core s" "rdy_head s' = rdy_head s"
proof -
  have e: "s' = s\<lparr>om_ops := om_ops s'\<rparr>" using assms by (simp add: ext_def)
  show "td_map_data s' = td_map_data s" "om_free s' = om_free s" "op_pool_entries s' = op_pool_entries s"
    "op_pool_active_ops s' = op_pool_active_ops s" "td_proc_id s' = td_proc_id s" "td_seq_op_list s' = td_seq_op_list s"
    "op_count s' = op_count s" "unique_count s' = unique_count s" "unique_count_per_core s' = unique_count_per_core s"
    "rdy_head s' = rdy_head s" by (subst e, simp)+
  show "length (om_ops s') = length (om_ops s)" "p < length (om_ops s)" using assms by (simp_all add: ext_def)
qed

lemma ext_refl:
  assumes "get_op p s = Some op" "length (po_src_info op) = MAX_DEPS" "unat (po_num_srcs op) \<le> MAX_DEPS"
  shows "ext p [] {} s s"
  using assms more_srcs_refl [of op] by (auto simp: ext_def dest!: get_opD)

text \<open>An op of the pool in an extended state.\<close>

lemma ext_self:
  assumes "ext p T M s s'" "get_op p s = Some op"
  obtains op' where "get_op p s' = Some op'" "more_srcs op T op'"
  using assms by (auto simp: ext_def get_op_def)

lemma ext_other:
  assumes "ext p T M s s'" "get_op q s = Some op" "q \<noteq> p"
  shows "get_op q s' = Some (if q \<in> M then op\<lparr>po_marked := True\<rparr> else op)"
  using assms by (auto simp: ext_def get_op_def split: if_splits)

lemma ext_push:
  assumes e: "ext p T M s s'" and op: "get_op p s = Some op" "length (po_src_info op) = MAX_DEPS"
    and n: "unat (po_num_srcs op) + length T < 32"
  shows "\<exists>s2. push_src p info s' = Some s2 \<and> ext p (T @ [info]) M s s2"
proof -
  obtain op' where op': "get_op p s' = Some op'" "more_srcs op T op'" by (rule ext_self [OF e op(1)])
  note m = more_srcsD [OF op'(2)]
  let ?k = "po_num_srcs op'"
  have k: "unat ?k = unat (po_num_srcs op) + length T" "unat ?k < 32" using m(2) n by simp_all
  then have k1: "unat (?k + 1) = Suc (unat ?k)" by (simp add: unat_word_ariths)
  then have lt: "?k < ?k + 1" by (simp add: word_less_nat_alt)
  define v where "v = or (po_srcs_not_rdy_vector op') (push_bit (unat ?k) 1)"
  define op2 where "op2 = op'\<lparr>po_num_srcs := ?k + 1, po_src_info := (po_src_info op')[unat ?k := info], po_srcs_not_rdy_vector := v\<rparr>"
  let ?s2 = "s'\<lparr>om_ops := (om_ops s')[p := op2]\<rparr>"
  have k32: "?k < 32" using k(2) by (simp add: word_less_nat_alt)
  have p: "p < length (om_ops s')" "om_ops s' ! p = op'" using op'(1) by (auto dest: get_opD)
  have "push_src p info s' = Some ?s2"
    using op'(1) k(2) lt k32 p
    by (simp add: push_src_def Let_def MAX_DEPS_def set_not_rdy_bit_def rdy_bit_ok_def upd_op_def get_op_def op2_def v_def)
  moreover have calc: "more_srcs op (T @ [info]) op2"
  proof -
    have l: "length (po_src_info op') = MAX_DEPS" using m(3) op(2) by simp
    have "take (Suc (unat ?k)) ((po_src_info op')[unat ?k := info]) = srcs op' @ [info]"
      using l k(2) by (simp add: take_Suc_conv_app_nth srcs_def MAX_DEPS_def)
    then have "take (unat (?k + 1)) ((po_src_info op')[unat ?k := info]) = srcs op @ T @ [info]" using k1 m(1) by simp
    then have t: "unat (?k + 1) = unat (po_num_srcs op) + length (T @ [info])"
      "take (unat (?k + 1)) ((po_src_info op')[unat ?k := info]) = srcs op @ (T @ [info])"
      "length ((po_src_info op')[unat ?k := info]) = length (po_src_info op)" using k k1 m(3) by simp_all
    moreover have "op2 = op\<lparr>po_num_srcs := ?k + 1, po_src_info := (po_src_info op')[unat ?k := info], po_srcs_not_rdy_vector := v\<rparr>"
      using op'(2) by (auto simp: more_srcs_def op2_def)
    ultimately show ?thesis unfolding more_srcs_def by blast
  qed
  have "ext p (T @ [info]) M s ?s2"
  proof -
    have s': "s' = s\<lparr>om_ops := om_ops s'\<rparr>" using e by (simp add: ext_def)
    have "?s2 = s\<lparr>om_ops := om_ops ?s2\<rparr>" by (subst s') simp
    then show ?thesis using calc e op(1) p unfolding ext_def by (auto dest: get_opD)
  qed
  ultimately show ?thesis by blast
qed

section \<open>Register sources\<close>

definition src_of :: "Dep_Type \<Rightarrow> Map_Entry \<Rightarrow> Src_Info" where
  "src_of T e = \<lparr>sr_type = T, sr_op = me_op e, sr_op_num = me_op_num e, sr_unique_num = me_unique_num e\<rparr>"

definition reg_sources :: "Win_Op list \<Rightarrow> Fetched \<Rightarrow> Src_Info list" where
  "reg_sources H f = map (\<lambda>i. src_of REG_DATA_DEP (entry_of (youngest (writes_reg (unat i)) H))) (src_regs f)"

definition addr_sources :: "map_params \<Rightarrow> Win_Op list \<Rightarrow> Fetched \<Rightarrow> Src_Info list" where
  "addr_sources P H f =
     (if MEM_OBEY_STORE_DEP P \<and> \<not> MEM_OOO_STORES P \<and> mem_type_of f \<noteq> NOT_MEM
      then [src_of MEM_ADDR_DEP (entry_of (youngest is_store H))] else [])"

text \<open>The numbers of the ops grow along the history, and the next one is larger.\<close>

definition numbers_ok :: "Win_Op list \<Rightarrow> Counter \<Rightarrow> bool" where
  "numbers_ok H n \<longleftrightarrow> sorted_wrt (\<lambda>x y. wo_op_num x < wo_op_num y) H \<and> (\<forall>x \<in> set H. 0 < wo_op_num x \<and> wo_op_num x < n) \<and> 0 < n"

lemma entry_older: "numbers_ok H n \<Longrightarrow> me_op_num (entry_of (youngest P H)) < n"
  by (cases "youngest P H") (auto simp: entry_of_def zero_entry_def numbers_ok_def dest: youngest_Some)

lemma map_entry_src:
  assumes e: "ext p T M s s'" and op: "get_op p s = Some op" "length (po_src_info op) = MAX_DEPS"
    and n: "unat (po_num_srcs op) + length T < 32" "md_proc_id (td_map_data s) = po_proc_id op" "me_op_num en < po_op_num op"
  shows "\<exists>s2. add_src_from_map_entry p en type s' = Some s2 \<and> ext p (T @ [src_of type en]) M s s2"
proof -
  obtain op' where op': "get_op p s' = Some op'" "more_srcs op T op'" by (rule ext_self [OF e op(1)])
  then show ?thesis using ext_push [OF e op n(1), of "src_of type en"] n(2,3) more_srcsD [OF op'(2)] extD(3) [OF e]
    by (simp add: add_src_from_map_entry_def src_of_def)
qed

lemma read_regs_ok:
  assumes op: "get_op p s = Some op" "length (po_src_info op) = MAX_DEPS" "md_proc_id (td_map_data s) = po_proc_id op"
    and r: "path_ok H" "regs_ok H (td_map_data s)" "numbers_ok H (po_op_num op)"
  shows "ext p T M s s' \<Longrightarrow> \<forall>i \<in> set is. unat i < NUM_REG_IDS \<Longrightarrow> unat (po_num_srcs op) + length T + length is \<le> 32 \<Longrightarrow>
    \<exists>s2. loop (read_reg p) is s' = Some s2 \<and>
      ext p (T @ map (\<lambda>i. src_of REG_DATA_DEP (entry_of (youngest (writes_reg (unat i)) H))) is) M s s2"
proof (induction "is" arbitrary: T s')
  case (Cons i js)
  let ?e = "entry_of (youngest (writes_reg (unat i)) H)"
  have i: "unat i < NUM_REG_IDS" using Cons.prems(2) by simp
  have n: "unat (po_num_srcs op) + length T < 32" using Cons.prems(3) by simp
  obtain s1 where s1: "add_src_from_map_entry p ?e REG_DATA_DEP s' = Some s1" "ext p (T @ [src_of REG_DATA_DEP ?e]) M s s1"
    using map_entry_src [OF Cons.prems(1) op(1,2) n op(3) entry_older [OF r(3)]] by blast
  have "read_reg p i s' = Some s1"
    using s1(1) i reg_lookup [OF r(1,2) i] extD(3) [OF Cons.prems(1)] by (simp add: read_reg_def Let_def)
  moreover obtain s2 where "loop (read_reg p) js s1 = Some s2"
    "ext p ((T @ [src_of REG_DATA_DEP ?e]) @ map (\<lambda>i. src_of REG_DATA_DEP (entry_of (youngest (writes_reg (unat i)) H))) js) M s s2"
    using Cons.IH [OF s1(2)] Cons.prems(2,3) by auto
  ultimately show ?case by (intro exI [of _ s2]) simp
qed simp

lemma read_maps_ok:
  assumes op: "get_op p s = Some op" "op_is (md_proc_id (td_map_data s)) x op" "fetched_ok (wo_info x)" "po_num_srcs op = 0"
    and r: "path_ok H" "regs_ok H (td_map_data s)" "numbers_ok H (wo_op_num x)"
    and n: "length (src_regs (wo_info x)) < 32"
  shows "\<exists>s1 s2. read_reg_map p s = Some s1 \<and> read_store_map P p s1 = Some s2 \<and>
    ext p (reg_sources H (wo_info x) @ addr_sources P H (wo_info x)) {} s s2"
proof -
  let ?f = "wo_info x"
  note o = op(2) [unfolded op_is_def]
  have l: "length (po_src_info op) = MAX_DEPS" and c: "md_proc_id (td_map_data s) = po_proc_id op" using o by simp_all
  have nums: "numbers_ok H (po_op_num op)" using o r(3) by simp
  have e0: "ext p [] {} s s" using ext_refl [OF op(1) l] op(4) by simp
  obtain s1 where s1: "loop (read_reg p) (src_regs ?f) s = Some s1" "ext p (reg_sources H ?f) {} s s1"
    using read_regs_ok [OF op(1) l c r(1,2) nums e0, of "src_regs ?f"] op(3,4) n
    unfolding fetched_ok_def reg_sources_def by auto
  have "read_reg_map p s = Some s1"
    using op(1,3) o s1(1) by (simp add: read_reg_map_def fetched_ok_def src_regs_def)
  moreover have "\<exists>s2. read_store_map P p s1 = Some s2 \<and> ext p (reg_sources H ?f @ addr_sources P H ?f) {} s s2"
  proof (cases "MEM_OBEY_STORE_DEP P \<and> \<not> MEM_OOO_STORES P \<and> mem_type_of ?f \<noteq> NOT_MEM")
    case False
    obtain op' where op': "get_op p s1 = Some op'" "more_srcs op (reg_sources H ?f) op'" by (rule ext_self [OF s1(2) op(1)])
    then show ?thesis
      using False s1(2) o more_srcsD(8) [OF op'(2)] by (auto simp: read_store_map_def addr_sources_def mem_type_of_def)
  next
    case True
    obtain op' where op': "get_op p s1 = Some op'" "more_srcs op (reg_sources H ?f) op'" by (rule ext_self [OF s1(2) op(1)])
    have m: "unat (po_num_srcs op) + length (reg_sources H ?f) < 32" using n op(4) by (simp add: reg_sources_def)
    show ?thesis
      using True map_entry_src [OF s1(2) op(1) l m c entry_older [OF nums, of is_store], of MEM_ADDR_DEP] op'(1)
        o more_srcsD(8) [OF op'(2)] store_lookup [OF r(1,2)] extD(3) [OF s1(2)]
      by (simp add: read_store_map_def addr_sources_def mem_type_of_def)
  qed
  ultimately show ?thesis by blast
qed

end
