(* ===== verification/Op_Load.thy ===== *)
theory Op_Load
  imports Op_Sources
begin

text \<open>
  The memory dependences of a load: the traversal of its bytes finds the youngest store to each of them, and the
  marks are gone at the end.
\<close>

section \<open>What a load depends on\<close>

definition stores_into :: "nat set \<Rightarrow> Win_Op \<Rightarrow> bool" where
  "stores_into B x \<longleftrightarrow> (\<exists>b \<in> B. stores_to b x)"

text \<open>The youngest stores to the bytes, in the order in which the bytes first show them.\<close>

definition load_stores :: "Win_Op list \<Rightarrow> nat list \<Rightarrow> Win_Op list" where
  "load_stores W bs = rev (remdups (rev (List.map_filter (\<lambda>b. youngest (stores_to b) W) bs)))"

definition mem_src :: "Win_Op \<Rightarrow> Src_Info" where
  "mem_src x = src_of MEM_DATA_DEP (entry_of (Some x))"

definition load_sources :: "map_params \<Rightarrow> Win_Op list \<Rightarrow> Fetched \<Rightarrow> Src_Info list" where
  "load_sources P W f =
     (if \<not> MEM_OBEY_STORE_DEP P \<or> mem_type_of f \<noteq> MEM_LD then []
      else if MEM_OOO_STORES P then map mem_src (load_stores W [unat (fe_va f) ..< unat (fe_va f) + unat (fe_mem_size f)])
      else case youngest (stores_into (bytes_at (fe_va f) (fe_mem_size f))) W of None \<Rightarrow> [] | Some x \<Rightarrow> [mem_src x])"

lemma load_stores_Nil [simp]: "load_stores W [] = []"
  by (simp add: load_stores_def List.map_filter_def)

lemma load_stores_snoc:
  "load_stores W (bs @ [b]) = (case youngest (stores_to b) W of None \<Rightarrow> load_stores W bs
     | Some x \<Rightarrow> if x \<in> set (load_stores W bs) then load_stores W bs else load_stores W bs @ [x])"
  by (auto simp: load_stores_def List.map_filter_def split: option.split)

lemma load_stores_set: "set (load_stores W bs) = {x. \<exists>b \<in> set bs. youngest (stores_to b) W = Some x}"
  by (force simp: load_stores_def List.map_filter_def)

lemma load_stores_sub: "set (load_stores W bs) \<subseteq> set W"
  by (auto simp: load_stores_set dest: youngest_Some)

lemma distinct_load_stores: "distinct (load_stores W bs)"
  by (simp add: load_stores_def)

lemma length_load_stores: "length (load_stores W bs) \<le> length bs"
proof -
  have "length (load_stores W bs) \<le> length (List.map_filter (\<lambda>b. youngest (stores_to b) W) bs)"
    unfolding load_stores_def using length_remdups_leq [of "rev (List.map_filter (\<lambda>b. youngest (stores_to b) W) bs)"] by simp
  also have "\<dots> \<le> length bs" by (simp add: List.map_filter_def)
  finally show ?thesis .
qed

text \<open>The later of two.\<close>

lemma youngest_either:
  assumes "sorted_wrt (\<lambda>x y. num x < (num y :: 'a::linorder)) W"
  shows "youngest (\<lambda>x. P x \<or> Q x) W = (case (youngest P W, youngest Q W) of (None, q) \<Rightarrow> q | (Some a, None) \<Rightarrow> Some a
     | (Some a, Some b) \<Rightarrow> Some (if num a < num b then b else a))"
  using assms
proof (induction W rule: rev_induct)
  case (snoc x W)
  have l: "num y < num x" if "y \<in> set W" for y using snoc.prems that by (simp add: sorted_wrt_append)
  have a: "num a < num x" if "youngest P W = Some a" for a using l youngest_Some [OF that] by blast
  have b: "\<not> num x < num b" if "youngest Q W = Some b" for b using l youngest_Some [OF that] by force
  show ?case using snoc a b by (auto simp: sorted_wrt_append split: option.split)
qed simp

lemma BYTE_OVERLAP_common:
  assumes "b \<in> bytes_at a0 s0" "b \<in> bytes_at a1 s1"
  shows "BYTE_OVERLAP a0 s0 a1 s1"
proof -
  have close: "(ucast a :: uns32) - ucast a' < s" if "unat a' \<le> unat a" "unat a < unat a' + unat s" for a a' :: Addr and s :: uns
  proof -
    have "(ucast a :: uns32) - ucast a' = of_nat (unat a - unat a')"
      using that(1) by (simp only: of_nat_diff of_nat_unat)
    moreover have "unat (of_nat k :: uns32) \<le> k" for k by (simp add: unsigned_of_nat)
    ultimately have "unat ((ucast a :: uns32) - ucast a') \<le> unat a - unat a'" by metis
    then show ?thesis using that by (simp only: word_less_nat_alt)
  qed
  show ?thesis
  proof (cases "unat a1 \<le> unat a0")
    case True
    then show ?thesis using close [of a1 a0 s1] assms by (simp add: BYTE_OVERLAP_def bytes_at_def)
  next
    case False
    then show ?thesis using close [of a0 a1 s0] assms by (simp add: BYTE_OVERLAP_def bytes_at_def)
  qed
qed

section \<open>One byte\<close>

definition win_ops :: "uns \<Rightarrow> Op_Machine \<Rightarrow> Win_Op list \<Rightarrow> bool" where
  "win_ops c s W \<longleftrightarrow> distinct (map wo_ptr W) \<and> (\<forall>x \<in> set W. \<exists>op. get_op (wo_ptr x) s = Some op \<and> op_is c x op)"

definition found :: "map_params \<Rightarrow> Win_Op list \<Rightarrow> nat list \<Rightarrow> Win_Op list" where
  "found P W bs = (if MEM_OOO_STORES P then load_stores W bs else [])"

definition loaded :: "map_params \<Rightarrow> Win_Op list \<Rightarrow> opp \<Rightarrow> Op_Machine \<Rightarrow> nat list \<Rightarrow> opp option \<times> Op_Machine \<Rightarrow> bool" where
  "loaded P W p s bs st \<longleftrightarrow> fst st = map_option wo_ptr (youngest (stores_into (set bs)) W) \<and>
     ext p (map mem_src (found P W bs)) (wo_ptr ` set (found P W bs)) s (snd st)"

lemma win_opsD:
  assumes "win_ops c s W" "x \<in> set W"
  obtains xop where "get_op (wo_ptr x) s = Some xop" "op_is c x xop"
  using assms by (auto simp: win_ops_def)

lemma win_ops_inj: "win_ops c s W \<Longrightarrow> x \<in> set W \<Longrightarrow> A \<subseteq> set W \<Longrightarrow> wo_ptr x \<in> wo_ptr ` A \<longleftrightarrow> x \<in> A"
  by (auto simp: win_ops_def distinct_map inj_on_def)

text \<open>An op of the window seen in an extended state.\<close>

lemma ext_win:
  assumes "ext p T M s s'" "win_ops c s W" "x \<in> set W" "p \<notin> wo_ptr ` set W"
  obtains xop where "get_op (wo_ptr x) s' = Some xop" "po_op_num xop = wo_op_num x" "po_unique_num xop = wo_unique x"
    "po_proc_id xop = c" "po_table_info xop = Some (fe_table_info (wo_info x))" "po_va xop = fe_va (wo_info x)"
    "po_mem_size xop = fe_mem_size (wo_info x)" "po_marked xop \<longleftrightarrow> wo_ptr x \<in> M"
proof -
  obtain xop where x: "get_op (wo_ptr x) s = Some xop" "op_is c x xop" by (rule win_opsD [OF assms(2,3)])
  have "wo_ptr x \<noteq> p" using assms(3,4) by blast
  with ext_other [OF assms(1) x(1)] show ?thesis using x(2) that by (auto simp: op_is_def split: if_splits)
qed

lemma ext_mark:
  assumes "ext p T M s s'" "q \<noteq> p"
  shows "ext p T (insert q M) s (upd_op q (\<lambda>o'. o'\<lparr>po_marked := True\<rparr>) s')"
proof -
  let ?s2 = "upd_op q (\<lambda>o'. o'\<lparr>po_marked := True\<rparr>) s'"
  have s': "s' = s\<lparr>om_ops := om_ops s'\<rparr>" using assms(1) by (simp add: ext_def)
  have "?s2 = s\<lparr>om_ops := om_ops ?s2\<rparr>" by (subst s') (simp add: upd_op_def)
  moreover have "om_ops ?s2 ! r = (if r \<in> insert q M then (om_ops s ! r)\<lparr>po_marked := True\<rparr> else om_ops s ! r)"
    if "r < length (om_ops s)" "r \<noteq> p" for r
    using assms(1) that unfolding ext_def by (cases "r = q") (auto simp: upd_op_def)
  ultimately show ?thesis using assms unfolding ext_def by (auto simp: upd_op_def)
qed

lemma ext_src_op:
  assumes e: "ext p T M s s'" and op: "get_op p s = Some op" "length (po_src_info op) = MAX_DEPS"
    "md_proc_id (td_map_data s) = po_proc_id op" "po_table_info op = Some t" "ti_mem_type t = MEM_LD"
    and w: "win_ops (po_proc_id op) s W" "p \<notin> wo_ptr ` set W" "numbers_ok W (po_op_num op)"
    and x: "x \<in> set W" "is_store x"
    and n: "unat (po_num_srcs op) + length T < 32"
  shows "\<exists>s2. add_src_from_op p (wo_ptr x) MEM_DATA_DEP s' = Some s2 \<and> ext p (T @ [mem_src x]) M s s2"
proof -
  obtain op' where op': "get_op p s' = Some op'" "more_srcs op T op'" by (rule ext_self [OF e op(1)])
  obtain xop where xop: "get_op (wo_ptr x) s' = Some xop" "po_op_num xop = wo_op_num x" "po_unique_num xop = wo_unique x"
    "po_proc_id xop = po_proc_id op" "po_table_info xop = Some (fe_table_info (wo_info x))" by (rule ext_win [OF e w(1) x(1) w(2)])
  obtain s2 where s2: "push_src p (mem_src x) s' = Some s2" "ext p (T @ [mem_src x]) M s s2"
    using ext_push [OF e op(1,2) n] by blast
  have "wo_op_num x < po_op_num op" using w(3) x(1) by (simp add: numbers_ok_def)
  then have "add_src_from_op p (wo_ptr x) MEM_DATA_DEP s' = Some s2"
    using op' xop op s2(1) x(2) more_srcsD [OF op'(2)] extD(3) [OF e]
    by (simp add: add_src_from_op_def mem_src_def src_of_def entry_of_def is_store_def mem_type_of_def)
  with s2(2) show ?thesis by blast
qed

lemma load_byte_ok:
  assumes op: "get_op p s = Some op" "length (po_src_info op) = MAX_DEPS"
    "md_proc_id (td_map_data s) = po_proc_id op" "po_table_info op = Some t" "ti_mem_type t = MEM_LD"
    and w: "win_ops (po_proc_id op) s W" "p \<notin> wo_ptr ` set W" "numbers_ok W (po_op_num op)"
    and e: "hash_table_access h (of_nat (b div 8)) = Some e" "supplier h b = map_option wo_ptr (youngest (stores_to b) W)"
      "b \<in> bytes_at (po_va op) (po_mem_size op)"
    and n: "MEM_OOO_STORES P \<Longrightarrow> unat (po_num_srcs op) + length bs < 32"
    and st: "loaded P W p s bs st"
  shows "\<exists>st'. load_byte P p e (of_nat (b mod 8)) st = Some st' \<and> loaded P W p s (bs @ [b]) st'"
proof -
  obtain l s' where st_eq [simp]: "st = (l, s')" by (cases st)
  let ?ind = "slot (mem_flag h b) (b mod 8)"
  have "unat (of_nat (b mod 8) :: uns) = b mod 8" by (simp add: unat_of_nat)
  then have ind: "MEM_MAP_BYTE_INDEX (of_nat (b mod 8)) (bit (mm_flag_mask e) (unat (of_nat (b mod 8) :: uns))) = ?ind"
    using e(1) byte_index [of "b mod 8"] by (simp add: mem_flag_def)
  have s: "map_option wo_ptr (youngest (stores_to b) W) = (if bit (mm_store_mask e) ?ind then Some (mm_op e ! ?ind) else None)"
    using e(1,2) by (simp add: supplier_def mem_store_def entry_store_def)
  note step = load_byte_def Let_def split_conv ind TESTBIT_bit
  have st': "l = map_option wo_ptr (youngest (stores_into (set bs)) W)"
    and ext: "ext p (map mem_src (found P W bs)) (wo_ptr ` set (found P W bs)) s s'" using st by (simp_all add: loaded_def)
  have "stores_into (set (bs @ [b])) = (\<lambda>x. stores_into (set bs) x \<or> stores_to b x)" by (auto simp: stores_into_def fun_eq_iff)
  moreover have "sorted_wrt (\<lambda>x y. wo_op_num x < wo_op_num y) W" using w(3) by (simp add: numbers_ok_def)
  ultimately have y: "youngest (stores_into (set (bs @ [b]))) W =
      (case (youngest (stores_into (set bs)) W, youngest (stores_to b) W) of (None, q) \<Rightarrow> q | (Some a, None) \<Rightarrow> Some a
        | (Some a, Some b) \<Rightarrow> Some (if wo_op_num a < wo_op_num b then b else a))"
    using youngest_either [of wo_op_num W "stores_into (set bs)" "stores_to b"] by simp
  show ?thesis
  proof (cases "youngest (stores_to b) W")
    case None
    then have "\<not> bit (mm_store_mask e) ?ind" using s by (auto split: if_splits)
    then have "load_byte P p e (of_nat (b mod 8)) st = Some st" unfolding step by simp
    moreover have "loaded P W p s (bs @ [b]) st"
    proof -
      have "found P W (bs @ [b]) = found P W bs" using None by (simp add: found_def load_stores_snoc)
      moreover have "youngest (stores_into (set (bs @ [b]))) W = youngest (stores_into (set bs)) W"
        using y None by (simp split: option.split)
      ultimately show ?thesis using st unfolding loaded_def by (simp only:)
    qed
    ultimately show ?thesis by blast
  next
    case (Some x)
    let ?sp = "wo_ptr x" and ?L = "found P W bs"
    have m: "bit (mm_store_mask e) ?ind" "mm_op e ! ?ind = ?sp" using s Some by (auto split: if_splits)
    have x: "x \<in> set W" "stores_to b x" using youngest_Some [OF Some] by simp_all
    have L: "set ?L \<subseteq> set W" using load_stores_sub by (auto simp: found_def)
    obtain op' where op': "get_op p s' = Some op'" "more_srcs op (map mem_src ?L) op'" by (rule ext_self [OF ext op(1)])
    obtain xop where xop: "get_op ?sp s' = Some xop" "po_op_num xop = wo_op_num x" "po_va xop = fe_va (wo_info x)"
      "po_mem_size xop = fe_mem_size (wo_info x)" "po_marked xop \<longleftrightarrow> ?sp \<in> wo_ptr ` set ?L" by (rule ext_win [OF ext w(1) x(1) w(2)])
    have mark: "po_marked xop \<longleftrightarrow> x \<in> set ?L" using xop(5) win_ops_inj [OF w(1) x(1) L] by simp
    have over: "BYTE_OVERLAP (po_va xop) (po_mem_size xop) (po_va op') (po_mem_size op')"
      using BYTE_OVERLAP_common [of b] x(2) e(3) xop(3,4) more_srcsD [OF op'(2)] by (simp add: stores_to_def)
    have "\<exists>s2. (if MEM_OOO_STORES P \<and> \<not> po_marked xop
         then do { s \<leftarrow> add_src_from_op p ?sp MEM_DATA_DEP s'; Some (upd_op ?sp (\<lambda>o'. o'\<lparr>po_marked := True\<rparr>) s) }
         else Some s') = Some s2 \<and> ext p (map mem_src (found P W (bs @ [b]))) (wo_ptr ` set (found P W (bs @ [b]))) s s2"
    proof (cases "MEM_OOO_STORES P \<and> \<not> po_marked xop")
      case False
      then show ?thesis using ext mark Some by (auto simp: found_def load_stores_snoc)
    next
      case True
      then have "unat (po_num_srcs op) + length (map mem_src ?L) < 32" using n length_load_stores [of W bs] by (simp add: found_def)
      from ext_src_op [OF ext op w x(1) _ this] obtain s2 where s2: "add_src_from_op p ?sp MEM_DATA_DEP s' = Some s2"
        "ext p (map mem_src ?L @ [mem_src x]) (wo_ptr ` set ?L) s s2" using x(2) by (auto simp: stores_to_def)
      have "?sp \<noteq> p" using w(2) x(1) by blast
      moreover have "found P W (bs @ [b]) = ?L @ [x]" using True mark Some by (simp add: found_def load_stores_snoc)
      ultimately show ?thesis using True s2(1) ext_mark [OF s2(2), of ?sp] by simp
    qed
    then obtain s2 where s2: "(if MEM_OOO_STORES P \<and> \<not> po_marked xop
         then do { s \<leftarrow> add_src_from_op p ?sp MEM_DATA_DEP s'; Some (upd_op ?sp (\<lambda>o'. o'\<lparr>po_marked := True\<rparr>) s) }
         else Some s') = Some s2" "ext p (map mem_src (found P W (bs @ [b]))) (wo_ptr ` set (found P W (bs @ [b]))) s s2" by blast
    have "load_byte P p e (of_nat (b mod 8)) st = (case l of None \<Rightarrow> Some (Some ?sp, s2)
        | Some l \<Rightarrow> do { lop \<leftarrow> get_op l s2; Some (if po_op_num lop < wo_op_num x then Some ?sp else Some l, s2) })"
      unfolding st_eq step
      by (simp only: m op'(1) xop(1,2) over s2(1) not_True_eq_False if_False bind.bind_lunit ensure_simps)
    moreover have "\<exists>lop. get_op (wo_ptr a) s2 = Some lop \<and> po_op_num lop = wo_op_num a"
      if "youngest (stores_into (set bs)) W = Some a" for a
    proof -
      have "a \<in> set W" using youngest_Some [OF that] by simp
      from ext_win [OF s2(2) w(1) this w(2)] show ?thesis by blast
    qed
    ultimately have "\<exists>l'. load_byte P p e (of_nat (b mod 8)) st = Some (l', s2) \<and>
        l' = map_option wo_ptr (youngest (stores_into (set (bs @ [b]))) W)"
      using st' y Some by (cases "youngest (stores_into (set bs)) W") fastforce+
    with s2(2) show ?thesis by (auto simp: loaded_def)
  qed
qed

section \<open>All bytes\<close>

lemma loaded_none:
  assumes "loaded P W p s bs st" "\<forall>b \<in> set ks. youngest (stores_to b) W = None"
  shows "loaded P W p s (bs @ ks) st"
  using assms
proof (induction ks arbitrary: bs)
  case (Cons b ks)
  have "stores_into (set (bs @ [b])) x \<longleftrightarrow> stores_into (set bs) x" if "x \<in> set W" for x
    using Cons.prems(2) that by (auto simp: stores_into_def youngest_None)
  then have "youngest (stores_into (set (bs @ [b]))) W = youngest (stores_into (set bs)) W" by (rule youngest_cong)
  moreover have "found P W (bs @ [b]) = found P W bs" using Cons.prems(2) by (simp add: found_def load_stores_snoc)
  ultimately have "loaded P W p s (bs @ [b]) st" using Cons.prems(1) unfolding loaded_def by (simp only:)
  then show ?case using Cons.IH [of "bs @ [b]"] Cons.prems(2) by simp
qed simp

lemma load_bytes_ok:
  assumes op: "get_op p s = Some op" "length (po_src_info op) = MAX_DEPS"
    "md_proc_id (td_map_data s) = po_proc_id op" "po_table_info op = Some t" "ti_mem_type t = MEM_LD"
    and w: "win_ops (po_proc_id op) s W" "p \<notin> wo_ptr ` set W" "numbers_ok W (po_op_num op)"
    and e: "hash_table_access h (of_nat n) = Some e"
  shows "\<forall>k \<in> set ks. k < 8 \<and> 8 * n + k \<in> bytes_at (po_va op) (po_mem_size op) \<and>
      supplier h (8 * n + k) = map_option wo_ptr (youngest (stores_to (8 * n + k)) W) \<Longrightarrow>
    MEM_OOO_STORES P \<longrightarrow> unat (po_num_srcs op) + length bs + length ks \<le> 32 \<Longrightarrow>
    loaded P W p s bs st \<Longrightarrow>
    \<exists>st'. loop (load_byte P p e) (map of_nat ks) st = Some st' \<and> loaded P W p s (bs @ map (\<lambda>k. 8 * n + k) ks) st'"
proof (induction ks arbitrary: bs st)
  case (Cons k ks)
  let ?b = "8 * n + k"
  have d: "?b div 8 = n" "?b mod 8 = k" using Cons.prems(1) by simp_all
  obtain st1 where "load_byte P p e (of_nat (?b mod 8)) st = Some st1" "loaded P W p s (bs @ [?b]) st1"
    using load_byte_ok [OF op w, of h ?b e P bs st] e d(1) Cons.prems by auto
  moreover from Cons.IH [OF _ _ this(2)] Cons.prems obtain st2 where "loop (load_byte P p e) (map of_nat ks) st1 = Some st2"
    "loaded P W p s ((bs @ [?b]) @ map (\<lambda>k. 8 * n + k) ks) st2" by auto
  ultimately show ?case using d(2) by simp
qed simp

lemma sorted_blocks:
  assumes "S \<subseteq> bytes_at va sz" "\<forall>x \<in> S. x div 8 < n" "hi < 8"
    and "\<And>x. x div 8 = n \<and> lo \<le> x mod 8 \<and> x mod 8 \<le> hi \<longleftrightarrow> x \<in> {x \<in> bytes_at va sz. x div 8 = n}"
  shows "sorted_list_of_set (S \<union> {x \<in> bytes_at va sz. x div 8 = n}) = sorted_list_of_set S @ map (\<lambda>k. 8 * n + k) [lo ..< Suc hi]"
proof -
  let ?l = "map (\<lambda>k. 8 * n + k) [lo ..< Suc hi]"
  have fin: "finite S" using assms(1) by (rule finite_subset) (simp add: bytes_at_def)
  have l: "x \<in> set ?l \<longleftrightarrow> x div 8 = n \<and> lo \<le> x mod 8 \<and> x mod 8 \<le> hi" for x
  proof
    assume "x div 8 = n \<and> lo \<le> x mod 8 \<and> x mod 8 \<le> hi"
    then have "x = 8 * n + x mod 8" "x mod 8 \<in> set [lo ..< Suc hi]" by auto
    then show "x \<in> set ?l" unfolding set_map by (rule image_eqI)
  qed (use assms(3) in auto)
  have "S \<union> {x \<in> bytes_at va sz. x div 8 = n} = set (sorted_list_of_set S @ ?l)" using l assms(4) fin by auto
  moreover have "x \<le> y" if "x \<in> S" "y \<in> set ?l" for x y
    using that l [of y] assms(2) div_le_mono [of y x 8] by (meson leI less_le_not_le nat_le_linear order.strict_trans2)
  then have "sorted (sorted_list_of_set S @ ?l)" using fin by (simp add: sorted_append sorted_map del: upt_Suc)
  moreover have "S \<inter> set ?l = {}" using l assms(2) by fastforce
  then have "distinct (sorted_list_of_set S @ ?l)" using fin by (auto simp: distinct_map inj_on_def simp del: upt_Suc)
  ultimately show ?thesis by (simp only: sorted_list_of_set.idem_if_sorted_distinct)
qed

lemma load_all_bytes:
  assumes op: "get_op p s = Some op" "length (po_src_info op) = MAX_DEPS"
    "md_proc_id (td_map_data s) = po_proc_id op" "po_table_info op = Some t" "ti_mem_type t = MEM_LD"
    and w: "win_ops (po_proc_id op) s W" "p \<notin> wo_ptr ` set W" "numbers_ok W (po_op_num op)"
    and h: "stores_ok (md_oracle_mem_hash (td_map_data s)) W" "path_ok W" "access_ok (po_va op) (po_mem_size op)"
    and n: "unat (po_num_srcs op) \<le> 32" "MEM_OOO_STORES P \<longrightarrow> unat (po_num_srcs op) + unat (po_mem_size op) \<le> 32"
  shows "\<exists>st. mem_map_entries (load_entry P p) (mem_map_entry_traversal_init (po_va op) (po_mem_size op)) (None, s) = Some st \<and>
    loaded P W p s [unat (po_va op) ..< unat (po_va op) + unat (po_mem_size op)] st"
proof -
  let ?va = "po_va op" and ?sz = "po_mem_size op" and ?h = "md_oracle_mem_hash (td_map_data s)"
  define Q where "Q S = loaded P W p s (sorted_list_of_set S)" for S
  have "stores_into {} = (\<lambda>_. False)" by (simp add: stores_into_def fun_eq_iff)
  then have start: "Q {} (None, s)"
    using ext_refl [OF op(1,2)] n(1) by (simp add: Q_def loaded_def found_def MAX_DEPS_def youngest_None)
  have "\<exists>st'. load_entry P p (entry_at ?va ?sz n) st = Some st' \<and> Q (S \<union> {x \<in> bytes_at ?va ?sz. x div 8 = n}) st'"
    if sz: "0 < unat ?sz" and e: "first_entry ?va \<le> n" "n \<le> last_entry ?va ?sz" and q: "Q S st" and S: "S \<subseteq> bytes_at ?va ?sz"
      "\<forall>x \<in> S. x div 8 < n" for n S st
  proof -
    let ?N = "{x \<in> bytes_at ?va ?sz. x div 8 = n}" and ?ks = "[low_byte ?va n ..< Suc (high_byte ?va ?sz n)]"
    note b = byte_traversal [OF h(3) sz e] and here = bytes_here [OF h(3) sz e]
    have L: "sorted_list_of_set (S \<union> ?N) = sorted_list_of_set S @ map (\<lambda>k. 8 * n + k) ?ks"
      by (rule sorted_blocks [OF S b(3) here])
    have ks: "k < 8" "8 * n + k \<in> bytes_at ?va ?sz" if "k \<in> set ?ks" for k
    proof -
      show k: "k < 8" using that b(3) by auto
      show "8 * n + k \<in> bytes_at ?va ?sz" using that k here [of "8 * n + k"] by auto
    qed
    have lt: "8 * n + k < 2 ^ 64" if "k \<in> set ?ks" for k
    proof -
      have "n < 2 ^ 61" by (rule entry_bound [OF h(3) sz e])
      then show ?thesis using ks(1) [OF that] by simp
    qed
    have sup: "supplier ?h (8 * n + k) = map_option wo_ptr (youngest (stores_to (8 * n + k)) W)" if "k \<in> set ?ks" for k
      by (rule supplier_youngest [OF h(1,2) lt [OF that]])
    have key: "MEM_MAP_KEY (tr_entry_addr (entry_at ?va ?sz n)) = of_nat n"
      using MEM_MAP_KEY_entry [OF entry_bound [OF h(3) sz e]] by (simp add: entry_at_def)
    have hs: "md_oracle_mem_hash (td_map_data (snd st)) = ?h" using q extD(3) by (fastforce simp: Q_def loaded_def)
    show ?thesis
    proof (cases "hash_table_access ?h (of_nat n)")
      case None
      have "youngest (stores_to y) W = None" if "y \<in> set (map (\<lambda>k. 8 * n + k) ?ks)" for y
      proof -
        obtain k where k: "k \<in> set ?ks" "y = 8 * n + k" using \<open>y \<in> _\<close> by auto
        then have "supplier ?h y = None" using None ks(1) by (simp add: supplier_def mem_store_def)
        then show ?thesis using sup [OF k(1)] k(2) by simp
      qed
      then have "Q (S \<union> ?N) st" using q loaded_none unfolding Q_def L by blast
      then show ?thesis using None key hs by (simp add: load_entry_def)
    next
      case (Some en)
      have "card (S \<union> ?N) \<le> card (bytes_at ?va ?sz)" using S(1) by (intro card_mono) (auto simp: bytes_at_def)
      then have "length (sorted_list_of_set S @ map (\<lambda>k. 8 * n + k) ?ks) \<le> card (bytes_at ?va ?sz)"
        unfolding L [symmetric] by simp
      then have "MEM_OOO_STORES P \<longrightarrow> unat (po_num_srcs op) + length (sorted_list_of_set S) + length ?ks \<le> 32"
        using n(2) by (auto simp: bytes_at_def)
      with load_bytes_ok [OF op w Some, of ?ks P "sorted_list_of_set S" st] ks sup q
      obtain st' where "loop (load_byte P p en) (map of_nat ?ks) st = Some st'" "Q (S \<union> ?N) st'" unfolding Q_def L by blast
      then show ?thesis using Some key hs b(1) by (auto simp: load_entry_def simp del: upt_Suc)
    qed
  qed
  then have "\<exists>st. mem_map_entries (load_entry P p) (mem_map_entry_traversal_init ?va ?sz) (None, s) = Some st \<and> Q (bytes_at ?va ?sz) st"
    using start by (intro traverse_bytes h(3)) auto
  moreover have "sorted_list_of_set (bytes_at ?va ?sz) = [unat ?va ..< unat ?va + unat ?sz]" by (simp add: bytes_at_def)
  ultimately show ?thesis by (simp only: Q_def)
qed

section \<open>The marks are cleared\<close>

lemma ext_unmark:
  assumes "ext p T (insert q M) s s'" "q \<noteq> p" "q \<notin> M" "get_op q s = Some op" "\<not> po_marked op"
  shows "ext p T M s (upd_op q (\<lambda>o'. o'\<lparr>po_marked := False\<rparr>) s')"
proof -
  let ?s2 = "upd_op q (\<lambda>o'. o'\<lparr>po_marked := False\<rparr>) s'"
  have s': "s' = s\<lparr>om_ops := om_ops s'\<rparr>" using assms(1) by (simp add: ext_def)
  have "?s2 = s\<lparr>om_ops := om_ops ?s2\<rparr>" by (subst s') (simp add: upd_op_def)
  moreover have "om_ops ?s2 ! r = (if r \<in> M then (om_ops s ! r)\<lparr>po_marked := True\<rparr> else om_ops s ! r)"
    if r: "r < length (om_ops s)" "r \<noteq> p" for r
  proof (cases "r = q")
    case True
    have "(om_ops s ! q)\<lparr>po_marked := False\<rparr> = om_ops s ! q" using assms(4,5) by (auto dest!: get_opD)
    then show ?thesis using True assms(1,3) r unfolding ext_def by (simp add: upd_op_def)
  qed (use assms(1) r in \<open>simp add: ext_def upd_op_def\<close>)
  ultimately show ?thesis using assms unfolding ext_def by (auto simp: upd_op_def)
qed

lemma more_srcs_nth:
  assumes "more_srcs op T op'" "unat (po_num_srcs op) \<le> length (po_src_info op)" "i < length T"
  shows "po_src_info op' ! (unat (po_num_srcs op) + i) = T ! i"
proof -
  let ?k = "unat (po_num_srcs op) + i"
  have "?k < unat (po_num_srcs op')" using more_srcsD(2) [OF assms(1)] assms(3) by simp
  then have "po_src_info op' ! ?k = srcs op' ! ?k" by (simp add: srcs_def)
  also have "\<dots> = T ! i"
    using assms(2) by (simp only: more_srcsD(1) [OF assms(1)]) (simp add: nth_append srcs_def min_absorb2)
  finally show ?thesis .
qed

lemma unmark_all:
  assumes op: "get_op p s = Some op" "unat (po_num_srcs op) \<le> length (po_src_info op)"
    and w: "win_ops c s W" "p \<notin> wo_ptr ` set W"
  shows "ext p (map mem_src (A @ B)) (wo_ptr ` set B) s s' \<Longrightarrow> distinct (A @ B) \<Longrightarrow> set B \<subseteq> set W \<Longrightarrow>
    \<exists>s2. loop (unmark_src p) [unat (po_num_srcs op) + length A ..< unat (po_num_srcs op) + length (A @ B)] s' = Some s2 \<and>
      ext p (map mem_src (A @ B)) {} s s2"
proof (induction B arbitrary: A s')
  case (Cons x B)
  let ?i = "unat (po_num_srcs op) + length A" and ?T = "map mem_src (A @ x # B)" and ?q = "wo_ptr x"
  let ?s1 = "upd_op ?q (\<lambda>o'. o'\<lparr>po_marked := False\<rparr>) s'"
  have x: "x \<in> set W" "x \<notin> set B" "set B \<subseteq> set W" using Cons.prems(2,3) by auto
  then have q: "?q \<noteq> p" "?q \<notin> wo_ptr ` set B" using w(2) win_ops_inj [OF w(1) x(1,3)] by auto
  obtain op' where op': "get_op p s' = Some op'" "more_srcs op ?T op'" by (rule ext_self [OF Cons.prems(1) op(1)])
  have "po_src_info op' ! ?i = mem_src x" using more_srcs_nth [OF op'(2) op(2), of "length A"] by (simp add: nth_append)
  then have "sr_op (po_src_info op' ! ?i) = ?q" by (simp add: mem_src_def src_of_def entry_of_def)
  moreover obtain y where "get_op ?q s' = Some y" "po_marked y"
    by (rule ext_win [OF Cons.prems(1) w(1) x(1) w(2)]) simp
  ultimately have u: "unmark_src p ?i s' = Some ?s1" using op'(1) by (simp add: unmark_src_def Let_def)
  obtain xop where "get_op ?q s = Some xop" "op_is c x xop" by (rule win_opsD [OF w(1) x(1)])
  then have "ext p ?T (wo_ptr ` set B) s ?s1"
    using ext_unmark [of p ?T ?q "wo_ptr ` set B" s s'] Cons.prems(1) q by (simp add: op_is_def)
  then obtain s2 where "loop (unmark_src p) [Suc ?i ..< unat (po_num_srcs op) + length (A @ x # B)] ?s1 = Some s2" "ext p ?T {} s s2"
    using Cons.IH [of "A @ [x]" ?s1] Cons.prems(2,3) by auto
  moreover have "[?i ..< unat (po_num_srcs op) + length (A @ x # B)] = ?i # [Suc ?i ..< unat (po_num_srcs op) + length (A @ x # B)]"
    by (rule upt_conv_Cons) simp
  ultimately show ?case using u by (auto simp del: upt_Suc)
qed simp

section \<open>The memory sources of an op\<close>

definition room :: "map_params \<Rightarrow> Fetched \<Rightarrow> nat \<Rightarrow> bool" where
  "room P f n \<longleftrightarrow> (mem_type_of f = MEM_LD \<and> MEM_OBEY_STORE_DEP P \<longrightarrow>
     (if MEM_OOO_STORES P then n + unat (fe_mem_size f) \<le> 32 else n < 32))"

lemma add_store_deps_ok:
  assumes op: "get_op p s = Some op" "op_is (md_proc_id (td_map_data s)) x op" "fetched_ok (wo_info x)"
    and ld: "mem_type_of (wo_info x) = MEM_LD" "MEM_OBEY_STORE_DEP P"
    and w: "win_ops (md_proc_id (td_map_data s)) s W" "p \<notin> wo_ptr ` set W" "numbers_ok W (wo_op_num x)"
    and h: "stores_ok (md_oracle_mem_hash (td_map_data s)) W" "path_ok W"
    and n: "unat (po_num_srcs op) \<le> 32" "room P (wo_info x) (unat (po_num_srcs op))"
  shows "\<exists>r. add_store_deps P p s = Some r \<and> ext p (load_sources P W (wo_info x)) {} s (snd r)"
proof -
  let ?bs = "[unat (fe_va (wo_info x)) ..< unat (fe_va (wo_info x)) + unat (fe_mem_size (wo_info x))]"
  note o = op(2) [unfolded op_is_def]
  have len: "length (po_src_info op) = MAX_DEPS" and c: "md_proc_id (td_map_data s) = po_proc_id op"
    and t: "po_table_info op = Some (fe_table_info (wo_info x))" "ti_mem_type (fe_table_info (wo_info x)) = MEM_LD"
    and va: "po_va op = fe_va (wo_info x)" "po_mem_size op = fe_mem_size (wo_info x)" and num: "po_op_num op = wo_op_num x"
    using o ld(1) by (simp_all add: mem_type_of_def)
  note w' = w [unfolded c, folded num]
  have bs: "set ?bs = bytes_at (fe_va (wo_info x)) (fe_mem_size (wo_info x))" by (auto simp: bytes_at_def)
  obtain st where tr: "mem_map_entries (load_entry P p) (mem_map_entry_traversal_init (po_va op) (po_mem_size op)) (None, s) = Some st"
    and "loaded P W p s ?bs st"
    using load_all_bytes [OF op(1) len c t w' h, of P] op(3) n ld unfolding va by (auto simp: fetched_ok_def room_def)
  then obtain s' where st: "st = (map_option wo_ptr (youngest (stores_into (set ?bs)) W), s')"
    "ext p (map mem_src (found P W ?bs)) (wo_ptr ` set (found P W ?bs)) s s'" by (cases st) (auto simp: loaded_def)
  have src: "load_sources P W (wo_info x) = (if MEM_OOO_STORES P then map mem_src (load_stores W ?bs)
      else case youngest (stores_into (set ?bs)) W of None \<Rightarrow> [] | Some y \<Rightarrow> [mem_src y])"
    using ld unfolding load_sources_def bs by simp
  show ?thesis
  proof (cases "youngest (stores_into (set ?bs)) W")
    case None
    then have "\<forall>b \<in> set ?bs. youngest (stores_to b) W = None" by (auto simp: youngest_None stores_into_def)
    then have "set (load_stores W ?bs) = {}" unfolding load_stores_set by simp
    then have "load_stores W ?bs = []" by simp
    then have "found P W ?bs = []" "load_sources P W (wo_info x) = []"
      unfolding src None by (simp_all add: found_def)
    then have "ext p (load_sources P W (wo_info x)) {} s s'" using st(2) by (simp only: list.map list.set image_empty)
    moreover have "add_store_deps P p s = Some (None, s')"
      using op(1) c tr unfolding st(1) None by (simp add: add_store_deps_def)
    ultimately show ?thesis by (intro exI [of _ "(None, s')"]) simp
  next
    case (Some y)
    have y: "y \<in> set W" "is_store y" using youngest_Some [OF Some] by (auto simp: stores_into_def stores_to_def)
    obtain yop where yop: "get_op (wo_ptr y) s' = Some yop" "po_op_num yop = wo_op_num y" by (rule ext_win [OF st(2) w(1) y(1) w(2)])
    have older: "wo_op_num y < wo_op_num x" using w(3) y(1) by (simp add: numbers_ok_def)
    obtain op' where op': "get_op p s' = Some op'" "more_srcs op (map mem_src (found P W ?bs)) op'" by (rule ext_self [OF st(2) op(1)])
    have "\<exists>s2. (if MEM_OOO_STORES P then loop (unmark_src p) [unat (po_num_srcs op) ..< unat (po_num_srcs op')] s'
         else add_src_from_op p (wo_ptr y) MEM_DATA_DEP s') = Some s2 \<and> ext p (load_sources P W (wo_info x)) {} s s2"
    proof (cases "MEM_OOO_STORES P")
      case True
      have "unat (po_num_srcs op) \<le> length (po_src_info op)" using n(1) len by (simp add: MAX_DEPS_def)
      from unmark_all [OF op(1) this w(1,2), of "[]" "load_stores W ?bs" s'] show ?thesis
        using True st(2) src load_stores_sub distinct_load_stores more_srcsD(2) [OF op'(2)] by (auto simp: found_def simp del: set_upt)
    next
      case False
      then have "ext p [] {} s s'" "unat (po_num_srcs op) + length [] < 32"
        using st(2) n(2) ld by (simp_all add: found_def room_def)
      from ext_src_op [OF this(1) op(1) len c t w' y this(2)] show ?thesis using False Some src by simp
    qed
    then show ?thesis using Some op(1) c tr st(1) yop older num op'(1) by (auto simp: add_store_deps_def Let_def)
  qed
qed

end
