(* ===== verification/Op_Run.thy ===== *)
theory Op_Run
  imports Op_Load
begin

text \<open>
  The window of ops in flight as a machine: fetching an op, retiring the oldest and recovering never fail, and they
  keep the pool, the sequential list, the register map and the map of stores equal to what the window says.
\<close>

section \<open>The pool\<close>

definition pool_ok :: "Op_Machine \<Rightarrow> opp list \<Rightarrow> bool" where
  "pool_ok s ps \<longleftrightarrow> distinct (om_free s @ ps) \<and> set (om_free s @ ps) = {1 ..< length (om_ops s)} \<and>
     unat (op_pool_entries s) + 1 = length (om_ops s) \<and> length (om_ops s) \<le> OP_POOL_ENTRIES_INC * 128 + 1 \<and>
     unat (op_pool_active_ops s) = length ps \<and>
     (\<forall>p \<in> set (om_free s). \<not> po_valid (om_ops s ! p) \<and> length (po_src_info (om_ops s ! p)) = MAX_DEPS)"

definition same_rest :: "Op_Machine \<Rightarrow> Op_Machine \<Rightarrow> bool" where
  "same_rest s s' \<longleftrightarrow> td_proc_id s' = td_proc_id s \<and> td_seq_op_list s' = td_seq_op_list s \<and> op_count s' = op_count s \<and>
     unique_count s' = unique_count s \<and> unique_count_per_core s' = unique_count_per_core s \<and> rdy_head s' = rdy_head s"

lemma same_rest_refl [simp]: "same_rest s s"
  by (simp add: same_rest_def)

lemma same_rest_trans: "same_rest s s1 \<Longrightarrow> same_rest s1 s2 \<Longrightarrow> same_rest s s2"
  by (simp add: same_rest_def)

lemma pool_okD:
  assumes "pool_ok s ps" "p \<in> set ps"
  shows "p < length (om_ops s)" "0 < p" "p \<notin> set (om_free s)"
proof -
  have "set (om_free s @ ps) = {1 ..< length (om_ops s)}" using assms(1) unfolding pool_ok_def by blast
  moreover have "p \<in> set (om_free s @ ps)" using assms(2) by simp
  ultimately have "p \<in> {1 ..< length (om_ops s)}" by blast
  then show "p < length (om_ops s)" "0 < p" by simp_all
  show "p \<notin> set (om_free s)" using assms by (auto simp: pool_ok_def)
qed

lemma pool_free_bound:
  assumes "pool_ok s ps" "p \<in> set (om_free s)"
  shows "p < length (om_ops s)" "0 < p"
proof -
  have "set (om_free s @ ps) = {1 ..< length (om_ops s)}" using assms(1) unfolding pool_ok_def by blast
  moreover have "p \<in> set (om_free s @ ps)" using assms(2) by simp
  ultimately have "p \<in> {1 ..< length (om_ops s)}" by blast
  then show "p < length (om_ops s)" "0 < p" by simp_all
qed

lemma length_pool: "pool_ok s ps \<Longrightarrow> length (om_free s) + length ps + 1 = length (om_ops s)"
proof -
  assume ok: "pool_ok s ps"
  then have "card (set (om_free s @ ps)) = length (om_free s @ ps)" by (intro distinct_card) (simp add: pool_ok_def)
  moreover have "card (set (om_free s @ ps)) = length (om_ops s) - 1" "0 < length (om_ops s)"
    using ok by (simp_all add: pool_ok_def flip: length_greater_0_conv)
  ultimately show ?thesis unfolding length_append by linarith
qed

lemma expand_ok:
  assumes "pool_ok s ps" "length (om_ops s) + 128 \<le> OP_POOL_ENTRIES_INC * 128 + 1"
  shows "\<exists>s'. expand_op_pool s = Some s' \<and> pool_ok s' ps \<and> same_rest s s' \<and> td_map_data s' = td_map_data s \<and>
    om_free s' \<noteq> [] \<and> (\<forall>q < length (om_ops s). get_op q s' = get_op q s)"
proof -
  let ?n = "length (om_ops s)" and ?e = "op_pool_entries s + of_nat OP_POOL_ENTRIES_INC"
  let ?s' = "s\<lparr>om_ops := om_ops s @ replicate OP_POOL_ENTRIES_INC (op_pool_init_op zero_op),
                      om_free := [?n ..< ?n + OP_POOL_ENTRIES_INC] @ om_free s, op_pool_entries := ?e\<rparr>"
  have n: "unat (op_pool_entries s) + 1 = ?n" using assms(1) by (simp add: pool_ok_def)
  then have e: "unat ?e = unat (op_pool_entries s) + 128" using assms(2) by (simp add: OP_POOL_ENTRIES_INC_def unat_word_ariths)
  have "expand_op_pool s = Some ?s'" using e n assms(2) by (simp add: expand_op_pool_def Let_def OP_POOL_ENTRIES_INC_def)
  moreover have z: "(om_ops s @ replicate OP_POOL_ENTRIES_INC (op_pool_init_op zero_op)) ! p =
      (if p < ?n then om_ops s ! p else op_pool_init_op zero_op)" if "p < ?n + OP_POOL_ENTRIES_INC" for p
    using that by (simp add: nth_append)
  have "pool_ok ?s' ps" unfolding pool_ok_def
  proof (intro conjI ballI)
    show "distinct (om_free ?s' @ ps)"
      using assms(1) pool_free_bound [OF assms(1)] pool_okD [OF assms(1)] by (fastforce simp: pool_ok_def)
    show "set (om_free ?s' @ ps) = {1 ..< length (om_ops ?s')}" using assms(1) n by (auto simp: pool_ok_def)
    fix p assume p: "p \<in> set (om_free ?s')"
    then have "p < ?n + OP_POOL_ENTRIES_INC" "p < ?n \<longrightarrow> p \<in> set (om_free s)"
      using pool_free_bound(1) [OF assms(1), of p] by auto
    then show "\<not> po_valid (om_ops ?s' ! p)" "length (po_src_info (om_ops ?s' ! p)) = MAX_DEPS"
      using z [of p] assms(1) by (simp_all add: pool_ok_def op_pool_init_op_def zero_op_def)
  qed (use assms n e in \<open>simp_all add: pool_ok_def OP_POOL_ENTRIES_INC_def\<close>)
  moreover have "get_op q ?s' = get_op q s" if "q < ?n" for q using that by (simp add: get_op_def nth_append)
  ultimately show ?thesis by (intro exI [of _ ?s']) (simp add: same_rest_def OP_POOL_ENTRIES_INC_def)
qed

lemma alloc_ok:
  assumes ok: "pool_ok s ps" "length ps \<le> 8192"
  shows "\<exists>p s' op. alloc_op c s = Some (p, s') \<and> pool_ok s' (ps @ [p]) \<and> same_rest s s' \<and> td_map_data s' = td_map_data s \<and>
    p \<notin> set ps \<and> (\<forall>q \<in> set ps. get_op q s' = get_op q s) \<and>
    get_op p s' = Some op \<and> po_valid op \<and> \<not> po_marked op \<and> po_proc_id op = c \<and> po_op_num op = op_count s \<and>
    po_unique_num op = unique_count s \<and> po_num_srcs op = 0 \<and> length (po_src_info op) = MAX_DEPS"
proof -
  have "\<exists>s1. (if om_free s = [] then do { ensure (op_pool_active_ops s = op_pool_entries s); expand_op_pool s } else Some s) = Some s1 \<and>
      pool_ok s1 ps \<and> same_rest s s1 \<and> td_map_data s1 = td_map_data s \<and> om_free s1 \<noteq> [] \<and>
      (\<forall>q < length (om_ops s). get_op q s1 = get_op q s)"
  proof (cases "om_free s = []")
    case True
    then have l: "length ps + 1 = length (om_ops s)" using length_pool [OF ok(1)] by simp
    then have "op_pool_active_ops s = op_pool_entries s" using ok(1) by (simp add: pool_ok_def word_unat_eq_iff)
    then show ?thesis using expand_ok [OF ok(1)] True l ok(2) by (simp add: OP_POOL_ENTRIES_INC_def)
  qed (use ok(1) in simp)
  then obtain s1 where s1: "(if om_free s = [] then do { ensure (op_pool_active_ops s = op_pool_entries s); expand_op_pool s } else Some s) = Some s1"
    "pool_ok s1 ps" "same_rest s s1" "td_map_data s1 = td_map_data s" "om_free s1 \<noteq> []" "\<And>q. q < length (om_ops s) \<Longrightarrow> get_op q s1 = get_op q s"
    by blast
  define p where "p = hd (om_free s1)"
  have f: "om_free s1 = p # tl (om_free s1)" using s1(5) by (simp add: p_def)
  have ok1: "distinct (om_free s1 @ ps)" "set (om_free s1 @ ps) = {1 ..< length (om_ops s1)}"
    "\<forall>q \<in> set (om_free s1). \<not> po_valid (om_ops s1 ! q) \<and> length (po_src_info (om_ops s1 ! q)) = MAX_DEPS"
    "unat (op_pool_active_ops s1) = length ps" using s1(2) by (simp_all add: pool_ok_def)
  have p: "p < length (om_ops s1)" "p \<in> set (om_free s1)" "p \<notin> set ps" "p \<notin> set (tl (om_free s1))"
    using ok1(1,2) by (subst (asm) (1 2) f, auto)+
  have c: "op_count s1 = op_count s" "unique_count s1 = unique_count s" using s1(3) by (simp_all add: same_rest_def)
  obtain s2 where s2: "op_pool_setup_op c p (upd_op p (\<lambda>op. op\<lparr>po_valid := True\<rparr>) s1) = Some s2"
    using p(1) by (simp add: op_pool_setup_op_def get_op_def upd_op_def)
  then have s2': "s2 = s1\<lparr>om_ops := om_ops s2\<rparr>" "length (om_ops s2) = length (om_ops s1)" "\<And>q. q \<noteq> p \<Longrightarrow> om_ops s2 ! q = om_ops s1 ! q"
    and op: "po_valid (om_ops s2 ! p)" "\<not> po_marked (om_ops s2 ! p)" "po_proc_id (om_ops s2 ! p) = c"
      "po_op_num (om_ops s2 ! p) = op_count s" "po_unique_num (om_ops s2 ! p) = unique_count s" "po_num_srcs (om_ops s2 ! p) = 0"
      "po_src_info (om_ops s2 ! p) = po_src_info (om_ops s1 ! p)"
    using p(1) c by (auto simp: op_pool_setup_op_def upd_op_def bind_eq_Some_conv)
  let ?s3 = "s2\<lparr>op_pool_active_ops := op_pool_active_ops s2 + 1, om_free := tl (om_free s2)\<rparr>"
  have f2: "om_free s2 = om_free s1" "op_pool_active_ops s2 = op_pool_active_ops s1" "op_pool_entries s2 = op_pool_entries s1"
    "td_map_data s2 = td_map_data s1" "same_rest s1 s2" by (subst s2'(1), simp add: same_rest_def)+
  have "alloc_op c s = Some (p, ?s3)"
    unfolding alloc_op_def s1(1) using p(1,2) ok1(3) s2 by (simp add: Let_def get_op_def flip: p_def)
  moreover have "pool_ok ?s3 (ps @ [p])" unfolding pool_ok_def
  proof (intro conjI ballI)
    show "distinct (om_free ?s3 @ ps @ [p])" using ok1(1) p(3,4) by (subst (asm) f) (auto simp: f2)
    show "set (om_free ?s3 @ ps @ [p]) = {1 ..< length (om_ops ?s3)}"
      using ok1(2) by (subst (asm) f) (auto simp: f2 s2'(2))
    show "unat (op_pool_active_ops ?s3) = length (ps @ [p])" using ok1(4) ok(2) by (simp add: f2 unat_word_ariths)
    fix q assume "q \<in> set (om_free ?s3)"
    then have "q \<in> set (tl (om_free s1))" "q \<noteq> p" using p(4) f2 by auto
    then have "q \<in> set (om_free s1)" "q \<noteq> p" by (auto intro: list.set_sel(2) [OF s1(5)])
    then show "\<not> po_valid (om_ops ?s3 ! q)" "length (po_src_info (om_ops ?s3 ! q)) = MAX_DEPS" using ok1(3) s2'(3) by simp_all
  qed (use s1(2) in \<open>simp_all add: pool_ok_def f2 s2'(2)\<close>)
  moreover have "same_rest s ?s3" using s1(3) f2(5) by (simp add: same_rest_def)
  moreover have "get_op q ?s3 = get_op q s" if "q \<in> set ps" for q
  proof -
    have "q \<noteq> p" using that p(3) by blast
    then have "get_op q ?s3 = get_op q s1" using s2'(2,3) by (simp add: get_op_def)
    then show ?thesis using s1(6) [OF pool_okD(1) [OF ok(1) that]] by simp
  qed
  moreover have "get_op p ?s3 = Some (om_ops s2 ! p)" "length (po_src_info (om_ops s2 ! p)) = MAX_DEPS"
    using p(1,2) s2'(2) ok1(3) op(7) by (simp_all add: get_op_def)
  ultimately show ?thesis using op s1(4) f2(4) p(3) by (intro exI [of _ p] exI [of _ ?s3] exI [of _ "om_ops s2 ! p"]) simp
qed

definition same_maps :: "Map_Data \<Rightarrow> Map_Data \<Rightarrow> bool" where
  "same_maps md md' \<longleftrightarrow> md_proc_id md' = md_proc_id md \<and> md_reg_map md' = md_reg_map md \<and> md_map_flags md' = md_map_flags md \<and>
     md_last_store md' = md_last_store md \<and> md_last_store_flag md' = md_last_store_flag md"

lemma regs_ok_same: "same_maps md md' \<Longrightarrow> regs_ok H md' = regs_ok H md"
  by (simp add: same_maps_def regs_ok_def)

lemma free_ok:
  assumes ok: "pool_ok s ps" "p \<in> set ps" and op: "get_op p s = Some op" "op_is (md_proc_id (td_map_data s)) x op" "wo_ptr x = p"
    and h: "if is_store x then mem_map_entries (delete_entry p (wo_off x))
        (mem_map_entry_traversal_init (fe_va (wo_info x)) (fe_mem_size (wo_info x))) (md_oracle_mem_hash (td_map_data s)) = Some h'
      else h' = md_oracle_mem_hash (td_map_data s)"
  shows "\<exists>s'. free_op p s = Some s' \<and> pool_ok s' (filter (\<lambda>q. q \<noteq> p) ps) \<and> same_rest s s' \<and>
    (\<forall>q. q \<noteq> p \<longrightarrow> get_op q s' = get_op q s) \<and> same_maps (td_map_data s) (td_map_data s') \<and>
    md_oracle_mem_hash (td_map_data s') = h'"
proof -
  note o = op(2) [unfolded op_is_def]
  have pl: "p < length (om_ops s)" "om_ops s ! p = op" using op(1) by (auto dest: get_opD)
  define s1 where "s1 = upd_op p (\<lambda>op. op\<lparr>po_valid := False\<rparr>) (s\<lparr>op_pool_active_ops := op_pool_active_ops s - 1\<rparr>)"
  have g1: "get_op p s1 = Some (op\<lparr>po_valid := False\<rparr>)" using pl by (simp add: s1_def get_op_def upd_op_def)
  have t1: "td_map_data s1 = td_map_data s" by (simp add: s1_def upd_op_def)
  define s2 where "s2 = upd_md (\<lambda>md. md\<lparr>md_oracle_mem_hash := h'\<rparr>) s1"
  have d: "(if ti_mem_type (fe_table_info (wo_info x)) = MEM_ST then delete_store_hash_entry p s1 else Some s1) = Some s2"
    using h g1 t1 o by (auto simp: is_store_def mem_type_of_def delete_store_hash_entry_def s2_def)
  have g2: "get_op p s2 = Some (op\<lparr>po_valid := False\<rparr>)" using g1 by (simp add: s2_def)
  obtain inst where inst: "po_inst_info op = Some inst" using o by simp
  define s3 where "s3 = (if ii_fake_inst inst then upd_op p (\<lambda>op. op\<lparr>po_table_info := None, po_inst_info := None\<rparr>) s2 else s2)"
  have f: "free_fake_inst p s2 = Some s3" using g2 inst by (simp add: free_fake_inst_def s3_def)
  define s4 where "s4 = s3\<lparr>om_free := p # om_free s3\<rparr>"
  have s4: "\<exists>op4. get_op p s4 = Some op4 \<and> \<not> po_valid op4 \<and> length (po_src_info op4) = MAX_DEPS \<and> po_proc_id op4 = md_proc_id (td_map_data s4)"
    using get_opD [OF g2] o t1 by (auto simp: s4_def s3_def get_op_def upd_op_def) (auto simp: s2_def)
  have e4: "length (om_ops s4) = length (om_ops s)" "\<And>q. q \<noteq> p \<Longrightarrow> om_ops s4 ! q = om_ops s ! q" "om_free s4 = p # om_free s"
    "op_pool_entries s4 = op_pool_entries s" "op_pool_active_ops s4 = op_pool_active_ops s - 1" "same_rest s s4"
    "td_map_data s4 = (td_map_data s)\<lparr>md_oracle_mem_hash := h'\<rparr>"
    by (simp_all add: s4_def s3_def s2_def s1_def upd_op_def same_rest_def)
  obtain op4 where op4: "get_op p s4 = Some op4" "\<not> po_valid op4" "length (po_src_info op4) = MAX_DEPS"
    "po_proc_id op4 = md_proc_id (td_map_data s4)" using s4 by blast
  obtain s5 where s5: "free_wake_up_list p s4 = Some s5" using op4 by (cases "po_wake_up_list op4") (simp_all add: free_wake_up_list_def)
  have e5: "length (om_ops s5) = length (om_ops s4)" "\<And>q. q \<noteq> p \<Longrightarrow> om_ops s5 ! q = om_ops s4 ! q" "om_free s5 = om_free s4"
    "op_pool_entries s5 = op_pool_entries s4" "op_pool_active_ops s5 = op_pool_active_ops s4" "same_rest s4 s5"
    "same_maps (td_map_data s4) (td_map_data s5)" "md_oracle_mem_hash (td_map_data s5) = md_oracle_mem_hash (td_map_data s4)"
    "\<not> po_valid (om_ops s5 ! p)" "length (po_src_info (om_ops s5 ! p)) = MAX_DEPS"
    using s5 op4 e4(1) pl(1)
    by (auto simp: free_wake_up_list_def upd_op_def same_rest_def same_maps_def get_op_def split: if_splits)
  have "free_op p s = Some s5"
    using op(1) o d f s5 unfolding free_op_def Let_def
    by (cases "ti_mem_type (fe_table_info (wo_info x)) = MEM_ST") (simp_all flip: s1_def s4_def)
  moreover have "pool_ok s5 (filter (\<lambda>q. q \<noteq> p) ps)" unfolding pool_ok_def
  proof (intro conjI ballI)
    have dist: "distinct (om_free s @ ps)" and all: "set (om_free s @ ps) = {1 ..< length (om_ops s)}" using ok(1) by (simp_all add: pool_ok_def)
    show "distinct (om_free s5 @ filter (\<lambda>q. q \<noteq> p) ps)" using dist ok(2) by (auto simp: e5(3) e4(3))
    show "set (om_free s5 @ filter (\<lambda>q. q \<noteq> p) ps) = {1 ..< length (om_ops s5)}"
      using all ok(2) by (auto simp: e5(1,3) e4(1,3))
    have "distinct ps" using dist by simp
    then have "filter (\<lambda>q. q \<noteq> p) ps = remove1 p ps" by (simp add: distinct_remove1_removeAll removeAll_filter_not_eq neq_commute)
    then have "length (filter (\<lambda>q. q \<noteq> p) ps) = length ps - 1" "0 < length ps"
      using ok(2) by (auto simp: length_remove1)
    moreover have "unat (op_pool_active_ops s) = length ps" using ok(1) by (simp add: pool_ok_def)
    moreover have "unat (op_pool_active_ops s - 1) = unat (op_pool_active_ops s) - 1" if "0 < unat (op_pool_active_ops s)"
      using that by (intro unat_minus_one) (simp flip: unat_gt_0)
    ultimately show "unat (op_pool_active_ops s5) = length (filter (\<lambda>q. q \<noteq> p) ps)" by (simp add: e5(5) e4(5))
    fix q assume "q \<in> set (om_free s5)"
    then have "q = p \<or> q \<noteq> p \<and> q \<in> set (om_free s)" by (auto simp: e5(3) e4(3))
    then show "\<not> po_valid (om_ops s5 ! q)" "length (po_src_info (om_ops s5 ! q)) = MAX_DEPS"
      using ok(1) e5(2,9,10) e4(2) by (auto simp: pool_ok_def)
  qed (use ok(1) in \<open>simp_all add: pool_ok_def e5 e4\<close>)
  moreover have "get_op q s5 = get_op q s" if "q \<noteq> p" for q using that e5(1,2) e4(1,2) by (simp add: get_op_def)
  moreover have "same_rest s s5" using same_rest_trans [OF e4(6) e5(6)] .
  moreover have "same_maps (td_map_data s) (td_map_data s5)" using e5(7) e4(7) by (simp add: same_maps_def)
  moreover have "md_oracle_mem_hash (td_map_data s5) = h'" using e5(8) e4(7) by simp
  ultimately show ?thesis by blast
qed

section \<open>The window\<close>

definition window :: "Op_Machine \<Rightarrow> Win_Op list \<Rightarrow> Win_Op list \<Rightarrow> bool" where
  "window s R W \<longleftrightarrow> md_proc_id (td_map_data s) = td_proc_id s \<and> td_seq_op_list s = map wo_ptr W \<and> length W \<le> 8192 \<and>
     pool_ok s (map wo_ptr W) \<and> win_ops (td_proc_id s) s W \<and> numbers_ok (R @ W) (op_count s) \<and> path_ok (R @ W) \<and>
     (\<forall>x \<in> set R. \<not> wo_off x) \<and> (\<forall>x \<in> set W. fetched_ok (wo_info x)) \<and> regs_ok (R @ W) (td_map_data s) \<and>
     stores_ok (md_oracle_mem_hash (td_map_data s)) W"

text \<open>States that differ in one op and in the maps.\<close>

definition frame :: "opp \<Rightarrow> Op_Machine \<Rightarrow> Op_Machine \<Rightarrow> bool" where
  "frame p s s' \<longleftrightarrow> same_rest s s' \<and> om_free s' = om_free s \<and> op_pool_entries s' = op_pool_entries s \<and>
     op_pool_active_ops s' = op_pool_active_ops s \<and> length (om_ops s') = length (om_ops s) \<and>
     (\<forall>q. q \<noteq> p \<longrightarrow> get_op q s' = get_op q s)"

lemma frame_trans: "frame p s s1 \<Longrightarrow> frame p s1 s2 \<Longrightarrow> frame p s s2"
  by (auto simp: frame_def same_rest_def)

lemma ext_frame: "ext p T {} s s' \<Longrightarrow> frame p s s'"
proof -
  assume e: "ext p T {} s s'"
  have "om_ops s' ! q = om_ops s ! q" if "q \<noteq> p" "q < length (om_ops s)" for q using e that by (simp add: ext_def)
  then have "get_op q s' = get_op q s" if "q \<noteq> p" for q using that extD(1) [OF e] by (simp add: get_op_def)
  then show ?thesis using extD [OF e] by (simp add: frame_def same_rest_def)
qed

lemma frame_md [simp]: "frame p s (upd_md g s)"
  by (simp add: frame_def same_rest_def)

lemma frame_op: "frame p s (upd_op p g s)"
  by (simp add: frame_def same_rest_def upd_op_def get_op_def)

lemma frame_pool:
  assumes "frame p s s'" "pool_ok s ps" "p \<in> set ps"
  shows "pool_ok s' ps"
proof -
  have "om_ops s' ! q = om_ops s ! q" if "q \<in> set (om_free s)" for q
  proof -
    have "q \<noteq> p" using that pool_okD(3) [OF assms(2,3)] by blast
    then have "get_op q s' = get_op q s" "q < length (om_ops s)" "length (om_ops s') = length (om_ops s)"
      using assms(1) pool_free_bound [OF assms(2) that] by (simp_all add: frame_def)
    then show ?thesis by (simp add: get_op_def)
  qed
  then show ?thesis using assms(1,2) by (auto simp: pool_ok_def frame_def)
qed

lemma frame_win: "frame p s s' \<Longrightarrow> win_ops c s W \<Longrightarrow> p \<notin> wo_ptr ` set W \<Longrightarrow> win_ops c s' W"
  by (fastforce simp: win_ops_def frame_def)

text \<open>What may be fetched.\<close>

definition can_fetch :: "map_params \<Rightarrow> Op_Machine \<Rightarrow> Win_Op list \<Rightarrow> Fetched \<Rightarrow> bool" where
  "can_fetch P s W f \<longleftrightarrow> fetched_ok f \<and> length W < 8192 \<and> op_count s + 1 \<noteq> 0 \<and>
     (\<not> fe_off_path f \<longrightarrow> (\<forall>x \<in> set W. \<not> wo_off x)) \<and> length (src_regs f) < 31 \<and>
     (mem_type_of f = MEM_LD \<and> MEM_OOO_STORES P \<longrightarrow> length (src_regs f) + unat (fe_mem_size f) \<le> 32)"

definition fetched_op :: "opp \<Rightarrow> Fetched \<Rightarrow> Op_Machine \<Rightarrow> Win_Op" where
  "fetched_op p f s = \<lparr>wo_ptr = p, wo_op_num = op_count s, wo_unique = unique_count s, wo_info = f\<rparr>"

definition op_sources :: "map_params \<Rightarrow> Win_Op list \<Rightarrow> Win_Op list \<Rightarrow> Fetched \<Rightarrow> Src_Info list" where
  "op_sources P R W f = reg_sources (R @ W) f @ addr_sources P (R @ W) f @ load_sources P W f"

lemma length_sources: "length (reg_sources H f @ addr_sources P H f) \<le> length (src_regs f) + 1"
  by (simp add: reg_sources_def addr_sources_def)

lemma map_regs_ok:
  assumes op: "get_op (wo_ptr x) s = Some op" "op_is (md_proc_id (td_map_data s)) x op" "fetched_ok (wo_info x)" "po_num_srcs op = 0"
    and r: "path_ok (H @ [x])" "path_ok H" "regs_ok H (td_map_data s)" "numbers_ok H (wo_op_num x)" "length (src_regs (wo_info x)) < 32"
  shows "\<exists>s' op'. map_op P (wo_ptr x) s = Some s' \<and> frame (wo_ptr x) s s' \<and> get_op (wo_ptr x) s' = Some op' \<and>
    op_is (md_proc_id (td_map_data s)) x op' \<and> srcs op' = reg_sources H (wo_info x) @ addr_sources P H (wo_info x) \<and>
    unat (po_num_srcs op') = length (reg_sources H (wo_info x) @ addr_sources P H (wo_info x)) \<and>
    regs_ok (H @ [x]) (td_map_data s') \<and> same_md (td_map_data s) (td_map_data s')"
proof -
  let ?p = "wo_ptr x" and ?T = "reg_sources H (wo_info x) @ addr_sources P H (wo_info x)"
  obtain s1 s2 where s: "read_reg_map ?p s = Some s1" "read_store_map P ?p s1 = Some s2" "ext ?p ?T {} s s2"
    using read_maps_ok [OF op r(2-5)] by blast
  obtain op2 where op2: "get_op ?p s2 = Some op2" "more_srcs op ?T op2" by (rule ext_self [OF s(3) op(1)])
  note m = more_srcsD [OF op2(2)] and e = extD [OF s(3)]
  have is2: "op_is (md_proc_id (td_map_data s2)) x op2" using op(2) more_srcs_op_is [OF op2(2)] e(3) by simp
  have "regs_ok H (td_map_data s2)" using r(3) e(3) by simp
  from update_map_ok [OF op2(1) is2 op(3) r(1) this] obtain md' where u: "update_map ?p s2 = Some (s2\<lparr>td_map_data := md'\<rparr>)"
    "regs_ok (H @ [x]) md'" "same_md (td_map_data s2) md'" by blast
  let ?s' = "s2\<lparr>td_map_data := md'\<rparr>"
  have "md_proc_id (td_map_data s) = po_proc_id op" using op(2) by (simp add: op_is_def)
  then have "map_op P ?p s = Some ?s'" using op(1) s u(1) by (simp add: map_op_def)
  moreover have "frame ?p s ?s'" using frame_trans [OF ext_frame [OF s(3)] frame_md [of ?p s2 "\<lambda>_. md'"]] by simp
  moreover have "get_op ?p ?s' = Some op2" using op2(1) by (simp add: get_op_def split: if_splits)
  moreover have "srcs op2 = ?T" "unat (po_num_srcs op2) = length ?T" using m(1,2) op(4) by (simp_all add: srcs_def)
  ultimately show ?thesis using is2 u(2,3) e(3) by (intro exI [of _ ?s'] exI [of _ op2]) (simp del: append_assoc)
qed

lemma stores_rel_skip:
  assumes "stores_rel h W Z" "\<not> is_store x"
  shows "stores_rel h (W @ [x]) Z"
  using assms by (simp add: stores_rel_def stores_to_def)

lemma map_mem_ok:
  assumes op: "get_op (wo_ptr x) s = Some op" "op_is (md_proc_id (td_map_data s)) x op" "fetched_ok (wo_info x)"
    and w: "win_ops (md_proc_id (td_map_data s)) s W" "wo_ptr x \<notin> wo_ptr ` set W" "numbers_ok W (wo_op_num x)"
      "\<forall>y \<in> set W. fetched_ok (wo_info y)" "length W \<le> 8192"
    and h: "stores_ok (md_oracle_mem_hash (td_map_data s)) W" "path_ok (W @ [x])"
    and n: "unat (po_num_srcs op) \<le> 32" "room P (wo_info x) (unat (po_num_srcs op))"
    and P: "MEM_OBEY_STORE_DEP P" "entry_ok (fresh\<lparr>mm_store_mask := 0\<rparr>)"
  shows "\<exists>s' op'. map_mem_dep P fresh (wo_ptr x) s = Some s' \<and> frame (wo_ptr x) s s' \<and> get_op (wo_ptr x) s' = Some op' \<and>
    op_is (md_proc_id (td_map_data s)) x op' \<and> srcs op' = srcs op @ load_sources P W (wo_info x) \<and>
    same_maps (td_map_data s) (td_map_data s') \<and> stores_ok (md_oracle_mem_hash (td_map_data s')) (W @ [x])"
proof -
  let ?p = "wo_ptr x"
  note o = op(2) [unfolded op_is_def]
  have t: "po_table_info op = Some (fe_table_info (wo_info x))" "mem_type_of (wo_info x) = ti_mem_type (fe_table_info (wo_info x))"
    and c: "md_proc_id (td_map_data s) = po_proc_id op" using o by (simp_all add: mem_type_of_def)
  show ?thesis
  proof (cases "mem_type_of (wo_info x) = MEM_LD")
    case True
    have "path_ok W" using h(2) by (simp add: path_ok_snoc)
    from add_store_deps_ok [OF op True P(1) w(1-3) h(1) this n] obtain r where r: "add_store_deps P ?p s = Some r"
      "ext ?p (load_sources P W (wo_info x)) {} s (snd r)" by blast
    obtain op' where op': "get_op ?p (snd r) = Some op'" "more_srcs op (load_sources P W (wo_info x)) op'" by (rule ext_self [OF r(2) op(1)])
    have "map_mem_dep P fresh ?p s = Some (snd r)" using P(1) op(1) t r(1) True by (simp add: map_mem_dep_def)
    moreover have "stores_ok (md_oracle_mem_hash (td_map_data s)) (W @ [x])" using stores_rel_skip [OF h(1)] True by (simp add: is_store_def)
    ultimately show ?thesis
      using op' op(2) more_srcs_op_is [OF op'(2)] more_srcsD(1) [OF op'(2)] ext_frame [OF r(2)] extD(3) [OF r(2)]
      by (intro exI [of _ "snd r"] exI [of _ op']) (simp add: same_maps_def)
  next
    case False
    then have l: "load_sources P W (wo_info x) = []" by (simp add: load_sources_def)
    show ?thesis
    proof (cases "is_store x")
      case True
      obtain h' where h': "mem_map_entries (store_entry fresh ?p (wo_off x))
          (mem_map_entry_traversal_init (fe_va (wo_info x)) (fe_mem_size (wo_info x))) (md_oracle_mem_hash (td_map_data s)) = Some h'"
        "stores_ok h' (W @ [x])"
        using stores_rel_write [OF h(1) True h(2) op(3) P(2)] w(4,5) by auto
      let ?s' = "upd_md (\<lambda>md. md\<lparr>md_oracle_mem_hash := h'\<rparr>) s"
      have "map_mem_dep P fresh ?p s = Some ?s'"
        using P(1) op(1) o True h'(1) by (simp add: map_mem_dep_def update_store_hash_def is_store_def mem_type_of_def)
      then show ?thesis using op(1,2) l h'(2) by (intro exI [of _ ?s'] exI [of _ op]) (simp add: same_maps_def)
    next
      case no: False
      then have "map_mem_dep P fresh ?p s = Some s" using P(1) op(1) t False by (simp add: map_mem_dep_def is_store_def)
      then show ?thesis using op(1,2) l stores_rel_skip [OF h(1) no]
        by (intro exI [of _ s] exI [of _ op]) (simp add: same_maps_def frame_def)
    qed
  qed
qed

lemma upd_op_rest [simp]:
  "td_proc_id (upd_op q g s) = td_proc_id s" "td_seq_op_list (upd_op q g s) = td_seq_op_list s"
  "td_map_data (upd_op q g s) = td_map_data s" "op_count (upd_op q g s) = op_count s"
  by (simp_all add: upd_op_def)

lemma less_next: "w + 1 \<noteq> 0 \<Longrightarrow> w < w + 1" for w :: "'a::len word"
  using unatSuc [of w] by (simp add: word_less_nat_alt add.commute)

lemma fetch_ok:
  assumes w: "window s R W" and f: "can_fetch P s W f"
    and P: "MEM_OBEY_STORE_DEP P" "entry_ok (fresh\<lparr>mm_store_mask := 0\<rparr>)"
  shows "\<exists>p s' op. fetch_op P fresh f s = Some (p, s') \<and> window s' R (W @ [fetched_op p f s]) \<and> td_proc_id s' = td_proc_id s \<and>
    op_count s' = op_count s + 1 \<and> get_op p s' = Some op \<and> srcs op = op_sources P R W f \<and>
    unique_count s' = unique_count s + 1 \<and>
    (\<exists>s1. alloc_op (td_proc_id s) s = Some (p, s1) \<and> length (om_ops s') = length (om_ops s1) \<and> (\<forall>q. q \<noteq> p \<longrightarrow> get_op q s' = get_op q s1))"
proof -
  note win = w [unfolded window_def] and fo = f [unfolded can_fetch_def]
  let ?c = "td_proc_id s" and ?ps = "map wo_ptr W"
  have pool: "pool_ok s ?ps" and l: "length ?ps \<le> 8192" using win by simp_all
  obtain p s1 op1 where s1: "alloc_op ?c s = Some (p, s1)" "pool_ok s1 (?ps @ [p])" "same_rest s s1" "td_map_data s1 = td_map_data s"
    "p \<notin> set ?ps" "\<forall>q \<in> set ?ps. get_op q s1 = get_op q s" "get_op p s1 = Some op1" "po_valid op1" "\<not> po_marked op1"
    "po_proc_id op1 = ?c" "po_op_num op1 = op_count s" "po_unique_num op1 = unique_count s" "po_num_srcs op1 = 0"
    "length (po_src_info op1) = MAX_DEPS"
    using alloc_ok [OF pool l, of ?c] by blast
  define x where "x = fetched_op p f s"
  have x: "wo_ptr x = p" "wo_op_num x = op_count s" "wo_unique x = unique_count s" "wo_info x = f" "wo_off x = fe_off_path f"
    by (simp_all add: x_def fetched_op_def wo_off_def)
  define s3 where "s3 = upd_op p (fill_op f) s1\<lparr>td_seq_op_list := td_seq_op_list s1 @ [p]\<rparr>"
  have g3: "get_op p s3 = Some (fill_op f op1)" using s1(7) by (simp add: s3_def upd_op_def get_op_def split: if_splits)
  have is3: "op_is ?c x (fill_op f op1)" using s1(8-14) x by (simp add: op_is_def fill_op_def)
  have rest1: "td_proc_id s1 = ?c" "td_seq_op_list s1 = ?ps" "op_count s1 = op_count s" "unique_count s1 = unique_count s"
    using s1(3) win by (simp_all add: same_rest_def)
  have r3: "td_map_data s3 = td_map_data s" "td_proc_id s3 = ?c" "td_seq_op_list s3 = ?ps @ [p]" "op_count s3 = op_count s"
    "op_pool_active_ops s3 = op_pool_active_ops s1" using rest1 s1(4) by (simp_all add: s3_def upd_op_def)
  have "pool_ok (upd_op p (fill_op f) s1) (?ps @ [p])" by (rule frame_pool [OF frame_op s1(2)]) simp
  then have fr3: "pool_ok s3 (?ps @ [p])" unfolding pool_ok_def s3_def by simp
  have win3: "win_ops ?c s3 W"
  proof -
    have "get_op q s3 = get_op q s" if "q \<in> set ?ps" for q
    proof -
      have "q \<noteq> p" using that s1(5) by blast
      then have "get_op q s3 = get_op q s1" by (simp add: s3_def get_op_def upd_op_def)
      then show ?thesis using bspec [OF s1(6) that] by simp
    qed
    then show ?thesis using win by (auto simp: win_ops_def)
  qed
  have add: "add_to_seq_op_list p (upd_op p (fill_op f) s1) = Some s3"
    using s1(7,8,10) rest1 fo by (simp add: add_to_seq_op_list_def s3_def fill_op_def)
  have len: "length (td_seq_op_list s3) \<le> unat (op_pool_active_ops s3)" using fr3 r3(3) by (simp add: pool_ok_def)
  have c: "md_proc_id (td_map_data s3) = ?c" using win r3(1) by simp
  have paths: "path_ok ((R @ W) @ [x])" "path_ok (R @ W)" "path_ok (W @ [x])"
    using win fo x(5) by (auto simp: path_ok_snoc path_ok_def sorted_wrt_append)
  have nums: "numbers_ok (R @ W) (wo_op_num x)" "numbers_ok W (wo_op_num x)"
    using win x(2) by (auto simp: numbers_ok_def sorted_wrt_append)
  have src32: "length (src_regs (wo_info x)) < 32" using fo x(4) by simp
  obtain s4 op4 where s4: "map_op P p s3 = Some s4" "frame p s3 s4" "get_op p s4 = Some op4" "op_is ?c x op4"
    "srcs op4 = reg_sources (R @ W) f @ addr_sources P (R @ W) f"
    "unat (po_num_srcs op4) = length (reg_sources (R @ W) f @ addr_sources P (R @ W) f)"
    "regs_ok ((R @ W) @ [x]) (td_map_data s4)" "same_md (td_map_data s3) (td_map_data s4)"
    using map_regs_ok [of x s3 "fill_op f op1" "R @ W" P] g3 is3 c x paths nums src32 fo win r3(1) s1(13) by (auto simp: fill_op_def)
  have c4: "md_proc_id (td_map_data s4) = ?c" "md_oracle_mem_hash (td_map_data s4) = md_oracle_mem_hash (td_map_data s)"
    using s4(8) c r3(1) by (simp_all add: same_md_def)
  have win4: "win_ops ?c s4 W" using frame_win [OF s4(2) win3] s1(5) by simp
  have le: "unat (po_num_srcs op4) \<le> 32" using s4(6) length_sources [of "R @ W" f P] fo by simp
  have rm: "room P f (unat (po_num_srcs op4))"
    unfolding room_def s4(6) using length_sources [of "R @ W" f P] fo by (auto simp: addr_sources_def reg_sources_def)
  obtain s5 op5 where s5: "map_mem_dep P fresh p s4 = Some s5" "frame p s4 s5" "get_op p s5 = Some op5" "op_is ?c x op5"
    "srcs op5 = srcs op4 @ load_sources P W f" "same_maps (td_map_data s4) (td_map_data s5)"
    "stores_ok (md_oracle_mem_hash (td_map_data s5)) (W @ [x])"
    using map_mem_ok [of x s4 op4 W P fresh] s4(3,4) c4 win4 s1(5) x nums(2) win paths(3) le rm P fo by auto
  have f35: "frame p s3 s5" by (rule frame_trans [OF s4(2) s5(2)])
  let ?s' = "s5\<lparr>op_count := op_count s5 + 1, unique_count_per_core := unique_count_per_core s5 + 1, unique_count := unique_count s5 + 1\<rparr>"
  have rest5: "td_proc_id s5 = ?c" "td_seq_op_list s5 = ?ps @ [p]" "op_count s5 = op_count s" "td_proc_id s4 = ?c"
    using f35 s4(2) r3 by (simp_all add: frame_def same_rest_def)
  have "fetch_op P fresh f s = Some (p, ?s')"
    using s1(1) rest1 add len s4(1) s5(1) g3 is3 c c4(1) s4(3,4) r3(2) rest5(4)
    by (simp add: fetch_op_def thread_map_op_def thread_map_mem_dep_def op_is_def)
  moreover have g5: "get_op q ?s' = get_op q s5" for q by (simp add: get_op_def)
  moreover have "window ?s' R (W @ [x])" unfolding window_def
  proof (intro conjI)
    show "md_proc_id (td_map_data ?s') = td_proc_id ?s'" using s5(6) c4(1) rest5(1) by (simp add: same_maps_def)
    show "pool_ok ?s' (map wo_ptr (W @ [x]))" using frame_pool [OF f35 fr3] x(1) by (simp add: pool_ok_def)
    have "win_ops ?c s5 W" using frame_win [OF s5(2) win4] s1(5) by simp
    then show "win_ops (td_proc_id ?s') ?s' (W @ [x])"
      using s5(3,4) x(1) s1(5) rest5(1) g5 by (auto simp: win_ops_def)
    have lt: "op_count s < op_count s + 1" using fo by (intro less_next) simp
    have "wo_op_num y < op_count s + 1" if "y \<in> set R \<union> set W" for y
      using less_trans [OF _ lt] nums(1) that x(2) by (auto simp: numbers_ok_def)
    then show "numbers_ok (R @ W @ [x]) (op_count ?s')"
      using nums(1) x(2) rest5(3) lt by (auto simp: numbers_ok_def sorted_wrt_append)
    show "path_ok (R @ W @ [x])" using paths(1) by simp
    show "regs_ok (R @ W @ [x]) (td_map_data ?s')" using s4(7) regs_ok_same [OF s5(6)] by simp
  qed (use win fo rest5 x s5(7) in auto)
  moreover have "get_op q ?s' = get_op q s1" if "q \<noteq> p" for q
  proof -
    have "get_op q s3 = get_op q s1" using that by (simp add: s3_def get_op_def upd_op_def)
    moreover have "get_op q s5 = get_op q s3" using f35 that by (simp add: frame_def)
    ultimately show ?thesis by (simp add: g5)
  qed
  moreover have "length (om_ops ?s') = length (om_ops s1)" "unique_count s5 = unique_count s"
    using f35 rest1 by (simp_all add: frame_def same_rest_def s3_def upd_op_def)
  ultimately show ?thesis using rest5 s5(3,5) s4(5) s1(1) unfolding x_def op_sources_def
    by (intro exI [of _ p] exI [of _ ?s'] exI [of _ op5]) simp
qed

end
