(* ===== verification/Op_Recover.thy ===== *)
theory Op_Recover
  imports Op_Run "HOL-Library.Multiset"
begin

text \<open>
  Ops leaving the window: the oldest retires, and a recovery drops the youngest and rebuilds the maps for the ops
  off the path that stay. Then runs of the window.
\<close>

section \<open>Retirement\<close>

lemma stores_rel_drop:
  assumes "stores_rel h (x # W) Z" "\<not> is_store x"
  shows "stores_rel h W Z"
proof -
  have y: "youngest (\<lambda>y. Q y \<and> stores_to b y) (x # W) = youngest (\<lambda>y. Q y \<and> stores_to b y) W" for b Q
    using assms(2) by (simp add: youngest_Cons stores_to_def split: option.split)
  have e: "(\<exists>y \<in> set (x # W). wo_off y \<and> stores_to b y) \<longleftrightarrow> (\<exists>y \<in> set W. wo_off y \<and> stores_to b y)" for b
    using assms(2) by (auto simp: stores_to_def)
  show ?thesis using assms(1) unfolding stores_rel_def y e .
qed

lemma retire_ok:
  assumes w: "window s R (x # W)" and x: "\<not> wo_off x"
  shows "\<exists>s'. retire_op (wo_ptr x) s = Some s' \<and> window s' (R @ [x]) W \<and> td_proc_id s' = td_proc_id s \<and> op_count s' = op_count s"
proof -
  let ?p = "wo_ptr x" and ?h = "md_oracle_mem_hash (td_map_data s)"
  note win = w [unfolded window_def]
  obtain op where op: "get_op ?p s = Some op" "op_is (td_proc_id s) x op"
    using win by (auto simp: win_ops_def)
  have p: "?p \<notin> wo_ptr ` set W" and dist: "distinct (map wo_ptr W)" using win by (auto simp: win_ops_def)
  define s1 where "s1 = s\<lparr>td_seq_op_list := map wo_ptr W\<rparr>"
  have g1: "get_op q s1 = get_op q s" for q by (simp add: s1_def get_op_def)
  have r1: "td_map_data s1 = td_map_data s" "td_proc_id s1 = td_proc_id s" "td_seq_op_list s1 = map wo_ptr W" "op_count s1 = op_count s"
    by (simp_all add: s1_def)
  have rm: "remove_from_seq_op_list ?p s = Some s1"
    using win op g1 r1(2) by (simp add: remove_from_seq_op_list_def remove_next_from_seq_op_list_def op_is_def flip: s1_def)
  have "\<exists>h'. (if is_store x then mem_map_entries (delete_entry ?p (wo_off x))
        (mem_map_entry_traversal_init (fe_va (wo_info x)) (fe_mem_size (wo_info x))) ?h = Some h' else h' = ?h) \<and> stores_ok h' W"
  proof (cases "is_store x")
    case True
    then show ?thesis using stores_ok_retire [of ?h x W] win x p by auto
  next
    case False
    then show ?thesis using stores_rel_drop [of ?h x W "[]"] win by auto
  qed
  then obtain h' where h': "if is_store x then mem_map_entries (delete_entry ?p (wo_off x))
        (mem_map_entry_traversal_init (fe_va (wo_info x)) (fe_mem_size (wo_info x))) (md_oracle_mem_hash (td_map_data s1)) = Some h'
      else h' = md_oracle_mem_hash (td_map_data s1)" "stores_ok h' W" unfolding r1(1) by blast
  have pool1: "pool_ok s1 (map wo_ptr (x # W))" using win by (simp add: pool_ok_def s1_def)
  have "get_op ?p s1 = Some op" "op_is (md_proc_id (td_map_data s1)) x op" "?p \<in> set (map wo_ptr (x # W))"
    using op g1 r1 win by simp_all
  from free_ok [OF pool1 this(3,1,2) refl h'(1)] obtain s' where s': "free_op ?p s1 = Some s'"
    "pool_ok s' (filter (\<lambda>q. q \<noteq> ?p) (map wo_ptr (x # W)))" "same_rest s1 s'" "\<And>q. q \<noteq> ?p \<Longrightarrow> get_op q s' = get_op q s1"
    "same_maps (td_map_data s1) (td_map_data s')" "md_oracle_mem_hash (td_map_data s') = h'" by blast
  have f: "filter (\<lambda>q. q \<noteq> ?p) (map wo_ptr (x # W)) = map wo_ptr W" using p by (auto intro!: filter_True)
  have rest: "td_proc_id s' = td_proc_id s" "td_seq_op_list s' = map wo_ptr W" "op_count s' = op_count s"
    using s'(3) r1 by (simp_all add: same_rest_def)
  have "window s' (R @ [x]) W" unfolding window_def
  proof (intro conjI)
    have "get_op (wo_ptr y) s' = get_op (wo_ptr y) s" if "y \<in> set W" for y
    proof -
      have "wo_ptr y \<noteq> ?p" using p that by (metis imageI)
      then show ?thesis using s'(4) g1 by simp
    qed
    then show "win_ops (td_proc_id s') s' W" using win rest(1) by (simp add: win_ops_def)
    show "md_proc_id (td_map_data s') = td_proc_id s'" using s'(5) r1 win rest(1) by (simp add: same_maps_def)
    show "regs_ok ((R @ [x]) @ W) (td_map_data s')" using regs_ok_same [OF s'(5)] win r1(1) by simp
    show "pool_ok s' (map wo_ptr W)" using s'(2) unfolding f .
    show "stores_ok (md_oracle_mem_hash (td_map_data s')) W" using h'(2) s'(6) by simp
    show "numbers_ok ((R @ [x]) @ W) (op_count s')" "path_ok ((R @ [x]) @ W)" using win rest(3) by simp_all
    show "\<forall>x \<in> set (R @ [x]). \<not> wo_off x" using win x by simp
    show "\<forall>x \<in> set W. fetched_ok (wo_info x)" "length W \<le> 8192" using win by simp_all
  qed (rule rest(2))
  moreover have "retire_op ?p s = Some s'" using rm s'(1) by (simp add: retire_op_def)
  ultimately show ?thesis using rest by blast
qed

section \<open>Clipping the sequential list\<close>

definition can_recover :: "Op_Machine \<Rightarrow> Win_Op list \<Rightarrow> Win_Op list \<Rightarrow> Counter \<Rightarrow> bool" where
  "can_recover s K D n \<longleftrightarrow> (\<forall>x \<in> set D. wo_off x) \<and>
     (if K \<noteq> [] then n = wo_op_num (last K) else n + 1 = (if D \<noteq> [] then wo_op_num (hd D) else op_count s))"

lemma clip_ok:
  assumes "K \<noteq> []" "sorted_wrt (\<lambda>x y. wo_op_num x < wo_op_num y) K" "n = wo_op_num (last K)"
    "\<forall>x \<in> set K. \<exists>op. get_op (wo_ptr x) s = Some op \<and> po_op_num op = wo_op_num x"
  shows "clip_after n (map wo_ptr (K @ D)) s = Some (map wo_ptr K)"
  using assms
proof (induction K)
  case (Cons x K)
  obtain op where op: "get_op (wo_ptr x) s = Some op" "po_op_num op = wo_op_num x" using Cons.prems(4) by auto
  show ?case
  proof (cases "K = []")
    case False
    then have "wo_op_num x \<le> n" "wo_op_num x \<noteq> n" using Cons.prems(2,3) by (auto simp: less_imp_le)
    moreover have "clip_after n (map wo_ptr (K @ D)) s = Some (map wo_ptr K)" using Cons False by auto
    ultimately show ?thesis using op by simp
  qed (use Cons.prems(3) op in simp)
qed simp

lemma recover_seq_ok:
  assumes "window s R (K @ D)" "can_recover s K D n"
  shows "recover_seq_op_list n s = Some (s\<lparr>td_seq_op_list := map wo_ptr K\<rparr>)"
proof -
  note win = assms(1) [unfolded window_def]
  have ops: "\<exists>op. get_op (wo_ptr x) s = Some op \<and> po_op_num op = wo_op_num x \<and> po_proc_id op = td_proc_id s" if "x \<in> set (K @ D)" for x
  proof -
    have "win_ops (td_proc_id s) s (K @ D)" using win by blast
    from win_opsD [OF this that] show ?thesis by (auto simp: op_is_def)
  qed
  have srt: "sorted_wrt (\<lambda>x y. wo_op_num x < wo_op_num y) K" "\<forall>x \<in> set (K @ D). 0 < wo_op_num x"
    using win by (auto simp: numbers_ok_def sorted_wrt_append)
  show ?thesis
  proof (cases K)
    case Nil
    show ?thesis
    proof (cases D)
      case Nil
      then show ?thesis using \<open>K = []\<close> win by (simp add: recover_seq_op_list_def)
    next
      case (Cons y D')
      obtain op where op: "get_op (wo_ptr y) s = Some op" "po_op_num op = wo_op_num y" "po_proc_id op = td_proc_id s"
        using ops [of y] Cons by auto
      have "wo_op_num y = n + 1" "n + 1 \<noteq> 0" using assms(2) Cons Nil srt(2) by (auto simp: can_recover_def)
      then show ?thesis using op Cons Nil win less_next [of n] by (simp add: recover_seq_op_list_def)
    qed
  next
    case (Cons x K')
    obtain op where op: "get_op (wo_ptr x) s = Some op" "po_op_num op = wo_op_num x" "po_proc_id op = td_proc_id s"
      using ops [of x] Cons by auto
    have n: "n = wo_op_num (last K)" using assms(2) Cons by (simp add: can_recover_def)
    then have "\<not> n < wo_op_num x" using srt(1) Cons by (cases "K' = []") (auto simp: not_less less_imp_le)
    moreover have "clip_after n (map wo_ptr (K @ D)) s = Some (map wo_ptr K)"
      by (rule clip_ok) (use Cons srt(1) n ops in auto)
    ultimately show ?thesis using op Cons win by (simp add: recover_seq_op_list_def)
  qed
qed

lemma path_split:
  assumes "path_ok K"
  shows "K = filter (\<lambda>x. \<not> wo_off x) K @ filter wo_off K" "dropWhile (\<lambda>x. \<not> wo_off x) K = filter wo_off K"
proof -
  have "K = filter (\<lambda>x. \<not> wo_off x) K @ filter wo_off K \<and> dropWhile (\<lambda>x. \<not> wo_off x) K = filter wo_off K"
    using assms
  proof (induction K)
    case (Cons x K)
    then have "wo_off x \<Longrightarrow> \<forall>y \<in> set K. wo_off y" by (simp add: path_ok_def)
    then show ?case using Cons by (cases "wo_off x") (auto simp: path_ok_def filter_id_conv)
  qed simp
  then show "K = filter (\<lambda>x. \<not> wo_off x) K @ filter wo_off K" "dropWhile (\<lambda>x. \<not> wo_off x) K = filter wo_off K" by blast+
qed

section \<open>Rebuilding the maps\<close>

lemma path_okD: "path_ok (A @ B) \<Longrightarrow> path_ok A" "path_ok (A @ B) \<Longrightarrow> path_ok B"
  by (simp_all add: path_ok_def sorted_wrt_append)

lemma rebuild_ok:
  assumes "\<forall>x \<in> set B. \<exists>op. get_op (wo_ptr x) s = Some op \<and> op_is c x op \<and> fetched_ok (wo_info x)"
    and "md_proc_id (td_map_data s) = c" "path_ok (R @ A @ B)" "regs_ok (R @ A) (td_map_data s)"
    and "stores_rel (md_oracle_mem_hash (td_map_data s)) A Z" "\<forall>x \<in> set (A @ Z). fetched_ok (wo_info x)"
    and "length A + length B + length Z \<le> 2 ^ 14" "entry_ok (fresh\<lparr>mm_store_mask := 0\<rparr>)"
  shows "\<exists>md'. loop (rebuild_op fresh) (map wo_ptr B) s = Some (s\<lparr>td_map_data := md'\<rparr>) \<and> md_proc_id md' = c \<and>
    regs_ok (R @ A @ B) md' \<and> stores_rel (md_oracle_mem_hash md') (A @ B) Z"
  using assms
proof (induction B arbitrary: A s)
  case (Cons x B)
  let ?p = "wo_ptr x"
  obtain op where op: "get_op ?p s = Some op" "op_is c x op" "fetched_ok (wo_info x)" using Cons.prems(1) by auto
  have "path_ok (((R @ A) @ [x]) @ B)" "path_ok (R @ (A @ [x]) @ B)" using Cons.prems(3) by simp_all
  then have paths: "path_ok ((R @ A) @ [x])" "path_ok (A @ [x])" by (blast dest: path_okD)+
  have is_s: "op_is (md_proc_id (td_map_data s)) x op" using op(2) Cons.prems(2) by simp
  obtain md1 where u: "update_map ?p s = Some (s\<lparr>td_map_data := md1\<rparr>)" "regs_ok ((R @ A) @ [x]) md1" "same_md (td_map_data s) md1"
    using update_map_ok [OF op(1) is_s op(3) paths(1) Cons.prems(4)] by blast
  have md1: "md_proc_id md1 = c" "stores_rel (md_oracle_mem_hash md1) A Z" using u(3) Cons.prems(2,5) by (simp_all add: same_md_def)
  have g: "get_op q (s\<lparr>td_map_data := md\<rparr>) = get_op q s" for q md by (simp add: get_op_def)
  note o = op(2) [unfolded op_is_def]
  have "\<exists>md2. rebuild_op fresh ?p s = Some (s\<lparr>td_map_data := md2\<rparr>) \<and> md_proc_id md2 = c \<and> regs_ok (R @ A @ [x]) md2 \<and>
    stores_rel (md_oracle_mem_hash md2) (A @ [x]) Z"
  proof (cases "is_store x")
    case True
    obtain h' where h': "mem_map_entries (store_entry fresh ?p (wo_off x))
        (mem_map_entry_traversal_init (fe_va (wo_info x)) (fe_mem_size (wo_info x))) (md_oracle_mem_hash md1) = Some h'"
      "stores_rel h' (A @ [x]) Z"
      using stores_rel_write [OF md1(2) True paths(2) op(3) Cons.prems(8)] Cons.prems(6,7) by auto
    let ?md2 = "md1\<lparr>md_oracle_mem_hash := h'\<rparr>"
    have "rebuild_op fresh ?p s = Some (s\<lparr>td_map_data := ?md2\<rparr>)"
      using u(1) g op(1) o True h'(1) md1(1) by (simp add: rebuild_op_def is_store_def mem_type_of_def update_store_hash_def)
    moreover have "regs_ok (R @ A @ [x]) ?md2" using u(2) by (simp add: regs_ok_def)
    ultimately show ?thesis using h'(2) md1(1) by (intro exI [of _ ?md2]) simp
  next
    case False
    then have "rebuild_op fresh ?p s = Some (s\<lparr>td_map_data := md1\<rparr>)"
      using u(1) g op(1) o by (simp add: rebuild_op_def is_store_def mem_type_of_def)
    then show ?thesis using u(2) md1 stores_rel_skip [OF md1(2) False] by (intro exI [of _ md1]) simp
  qed
  then obtain md2 where md2: "rebuild_op fresh ?p s = Some (s\<lparr>td_map_data := md2\<rparr>)" "md_proc_id md2 = c" "regs_ok (R @ A @ [x]) md2"
    "stores_rel (md_oracle_mem_hash md2) (A @ [x]) Z" by blast
  have "\<exists>md'. loop (rebuild_op fresh) (map wo_ptr B) (s\<lparr>td_map_data := md2\<rparr>) = Some (s\<lparr>td_map_data := md2\<rparr>\<lparr>td_map_data := md'\<rparr>) \<and>
      md_proc_id md' = c \<and> regs_ok (R @ (A @ [x]) @ B) md' \<and> stores_rel (md_oracle_mem_hash md') ((A @ [x]) @ B) Z"
  proof (rule Cons.IH)
    show "\<forall>y \<in> set B. \<exists>op. get_op (wo_ptr y) (s\<lparr>td_map_data := md2\<rparr>) = Some op \<and> op_is c y op \<and> fetched_ok (wo_info y)"
      using Cons.prems(1) g by simp
  qed (use md2 Cons.prems op(3) in simp_all)
  then show ?case using md2(1) by auto
next
  case Nil
  then show ?case by (intro exI [of _ "td_map_data s"]) simp
qed

section \<open>Freeing the flushed ops\<close>

lemma stores_rel_forget:
  assumes "stores_rel h W (y # Z)" "\<not> is_store y"
  shows "stores_rel h W Z"
proof -
  have e: "(\<exists>z \<in> set (y # Z). wo_off z \<and> stores_to b z \<and> wo_ptr z = p) \<longleftrightarrow> (\<exists>z \<in> set Z. wo_off z \<and> stores_to b z \<and> wo_ptr z = p)" for b p
    using assms(2) by (auto simp: stores_to_def)
  show ?thesis using assms(1) unfolding stores_rel_def e .
qed

lemma flush_ok:
  assumes "pool_ok s (map wo_ptr (K @ F))" "win_ops (md_proc_id (td_map_data s)) s (K @ F)"
    "stores_rel (md_oracle_mem_hash (td_map_data s)) K F" "\<forall>x \<in> set F. wo_off x \<and> fetched_ok (wo_info x)"
  shows "\<exists>s'. loop free_op (map wo_ptr F) s = Some s' \<and> pool_ok s' (map wo_ptr K) \<and> win_ops (md_proc_id (td_map_data s')) s' K \<and>
    stores_ok (md_oracle_mem_hash (td_map_data s')) K \<and> same_rest s s' \<and> same_maps (td_map_data s) (td_map_data s')"
  using assms
proof (induction F arbitrary: s)
  case (Cons y F)
  let ?p = "wo_ptr y" and ?h = "md_oracle_mem_hash (td_map_data s)" and ?c = "md_proc_id (td_map_data s)"
  have y: "y \<in> set (K @ y # F)" "wo_off y" "fetched_ok (wo_info y)" using Cons.prems(4) by simp_all
  obtain op where op: "get_op ?p s = Some op" "op_is ?c y op" by (rule win_opsD [OF Cons.prems(2) y(1)])
  have dist: "distinct (map wo_ptr (K @ y # F))" using Cons.prems(2) by (simp add: win_ops_def)
  have "\<exists>h'. (if is_store y then mem_map_entries (delete_entry ?p (wo_off y))
        (mem_map_entry_traversal_init (fe_va (wo_info y)) (fe_mem_size (wo_info y))) ?h = Some h' else h' = ?h) \<and> stores_rel h' K F"
  proof (cases "is_store y")
    case True
    have "?p \<notin> wo_ptr ` set K" "y \<notin> set F" using dist by auto
    then have "filter (\<lambda>z. z \<noteq> y) (y # F) = F" by (auto intro!: filter_True)
    then show ?thesis using stores_rel_flush [OF Cons.prems(3) True y(2,3)] True \<open>?p \<notin> _\<close> by auto
  qed (use stores_rel_forget [OF Cons.prems(3)] in auto)
  then obtain h' where h': "if is_store y then mem_map_entries (delete_entry ?p (wo_off y))
        (mem_map_entry_traversal_init (fe_va (wo_info y)) (fe_mem_size (wo_info y))) ?h = Some h' else h' = ?h"
    "stores_rel h' K F" by blast
  have "?p \<in> set (map wo_ptr (K @ y # F))" by simp
  from free_ok [OF Cons.prems(1) this op refl h'(1)] obtain s1 where s1: "free_op ?p s = Some s1"
    "pool_ok s1 (filter (\<lambda>q. q \<noteq> ?p) (map wo_ptr (K @ y # F)))" "same_rest s s1" "\<And>q. q \<noteq> ?p \<Longrightarrow> get_op q s1 = get_op q s"
    "same_maps (td_map_data s) (td_map_data s1)" "md_oracle_mem_hash (td_map_data s1) = h'" by blast
  have "\<forall>q \<in> set (map wo_ptr (K @ F)). q \<noteq> ?p" using dist by auto
  then have f: "filter (\<lambda>q. q \<noteq> ?p) (map wo_ptr (K @ y # F)) = map wo_ptr (K @ F)" by (simp add: filter_id_conv)
  have c1: "md_proc_id (td_map_data s1) = ?c" using s1(5) by (simp add: same_maps_def)
  have "win_ops ?c s1 (K @ F)"
    unfolding win_ops_def
  proof (intro conjI ballI)
    fix x assume x: "x \<in> set (K @ F)"
    then have "x \<in> set (K @ y # F)" by auto
    moreover have "wo_ptr x \<in> set (map wo_ptr (K @ F))" using x by auto
    then have "wo_ptr x \<noteq> ?p" using \<open>\<forall>q \<in> set (map wo_ptr (K @ F)). q \<noteq> ?p\<close> by blast
    ultimately show "\<exists>op. get_op (wo_ptr x) s1 = Some op \<and> op_is ?c x op"
      using s1(4) win_opsD [OF Cons.prems(2)] by metis
  qed (use dist in simp)
  then obtain s' where "loop free_op (map wo_ptr F) s1 = Some s'" "pool_ok s' (map wo_ptr K)" "win_ops (md_proc_id (td_map_data s')) s' K"
    "stores_ok (md_oracle_mem_hash (td_map_data s')) K" "same_rest s1 s'" "same_maps (td_map_data s1) (td_map_data s')"
    using Cons.IH [of s1] s1(2) [unfolded f] c1 s1(6) h'(2) Cons.prems(4) by auto
  moreover have "same_maps (td_map_data s) (td_map_data s')" using calculation(6) s1(5) by (simp add: same_maps_def)
  ultimately show ?case using s1(1) same_rest_trans [OF s1(3)] by auto
qed (simp add: same_maps_def)

section \<open>Recovery\<close>

lemma regs_recover:
  assumes "regs_ok H md"
  shows "regs_ok (filter (\<lambda>x. \<not> wo_off x) H) (md\<lparr>md_map_flags := map (\<lambda>_. False) (md_map_flags md), md_last_store_flag := False, md_oracle_mem_hash := h\<rparr>)"
  using assms cell_recover by (auto simp: regs_ok_def)

lemma pool_ok_perm:
  assumes "pool_ok s ps" "mset ps = mset qs"
  shows "pool_ok s qs"
proof -
  have d: "distinct (om_free s @ qs)" using mset_eq_imp_distinct_iff [of "om_free s @ ps" "om_free s @ qs"] assms by (simp add: pool_ok_def)
  have e: "set (om_free s @ qs) = set (om_free s @ ps)" using mset_eq_setD [OF assms(2)] by simp
  have l: "length qs = length ps" using mset_eq_length [OF assms(2)] by simp
  show ?thesis using assms(1) d unfolding pool_ok_def e l by blast
qed

lemma recover_maps_ok:
  assumes w: "window s R (K @ D)" and D: "\<forall>x \<in> set D. wo_off x" and f: "entry_ok (fresh\<lparr>mm_store_mask := 0\<rparr>)"
  shows "\<exists>md'. recover_map fresh (s\<lparr>td_seq_op_list := map wo_ptr K\<rparr>) = Some (s\<lparr>td_seq_op_list := map wo_ptr K, td_map_data := md'\<rparr>) \<and>
    md_proc_id md' = td_proc_id s \<and> regs_ok (R @ K) md' \<and> stores_rel (md_oracle_mem_hash md') K D"
proof -
  note win = w [unfolded window_def]
  let ?on = "filter (\<lambda>x. \<not> wo_off x) K" and ?off = "filter wo_off K" and ?md = "td_map_data s"
  have st: "stores_ok (md_oracle_mem_hash ?md) (K @ D)" and regs: "regs_ok (R @ K @ D) ?md" using win by simp_all
  then have m: "mem_ok (md_oracle_mem_hash ?md)" by (simp add: stores_rel_def)
  obtain h where h: "recover_mem_hash (md_oracle_mem_hash ?md) = Some h" "mem_ok h" "mem_store h = mem_store (md_oracle_mem_hash ?md)"
    "\<forall>b. \<not> mem_flag h b" using recover_mem_hash_ok [OF m] by blast
  have D': "filter (\<lambda>x. \<not> wo_off x) D = []" and R': "filter (\<lambda>x. \<not> wo_off x) R = R"
    using D win by (simp_all add: filter_empty_conv filter_id_conv)
  have paths: "path_ok K" "path_ok (R @ K)" using win path_okD(1) [of "R @ K" D] path_okD(2) [of R K] by simp_all
  note K = path_split [OF paths(1)]
  define md1 where "md1 = ?md\<lparr>md_map_flags := map (\<lambda>_. False) (md_map_flags ?md), md_last_store_flag := False, md_oracle_mem_hash := h\<rparr>"
  have md1: "md_proc_id md1 = td_proc_id s" "regs_ok (R @ ?on) md1" "stores_rel (md_oracle_mem_hash md1) ?on (K @ D)"
    using win regs_recover [OF regs, of h] stores_rel_clear [OF st h(2-4)] R' D' by (simp_all add: md1_def)
  let ?s1 = "s\<lparr>td_seq_op_list := map wo_ptr K, td_map_data := md1\<rparr>"
  have g: "get_op q ?s1 = get_op q s" for q by (simp add: get_op_def)
  have ops: "\<exists>op. get_op (wo_ptr x) ?s1 = Some op \<and> op_is (td_proc_id s) x op \<and> fetched_ok (wo_info x)" if "x \<in> set K" for x
  proof -
    have "win_ops (td_proc_id s) s (K @ D)" "x \<in> set (K @ D)" using win that by simp_all
    then show ?thesis using win that g by (auto elim: win_opsD)
  qed
  have "\<exists>md'. loop (rebuild_op fresh) (map wo_ptr ?off) ?s1 = Some (?s1\<lparr>td_map_data := md'\<rparr>) \<and> md_proc_id md' = td_proc_id s \<and>
    regs_ok (R @ ?on @ ?off) md' \<and> stores_rel (md_oracle_mem_hash md') (?on @ ?off) (K @ D)"
  proof (rule rebuild_ok)
    show "length ?on + length ?off + length (K @ D) \<le> 2 ^ 14"
    proof -
      have "length ?on + length ?off = length K" using K(1) by (metis length_append)
      moreover have "length (K @ D) \<le> 8192" using win by blast
      ultimately show ?thesis by simp
    qed
    show "path_ok (R @ ?on @ ?off)" using paths(2) unfolding K(1) [symmetric] .
    show "\<forall>x \<in> set (?on @ K @ D). fetched_ok (wo_info x)" using win by auto
  qed (use ops md1 f in simp_all)
  then obtain md' where md': "loop (rebuild_op fresh) (map wo_ptr ?off) ?s1 = Some (?s1\<lparr>td_map_data := md'\<rparr>)" "md_proc_id md' = td_proc_id s"
    "regs_ok (R @ K) md'" "stores_rel (md_oracle_mem_hash md') K (K @ D)" unfolding K(1) [symmetric] by blast
  have "po_off_path (om_ops ?s1 ! wo_ptr x) = wo_off x" if "x \<in> set K" for x
    using ops [OF that] by (auto simp: op_is_def dest!: get_opD)
  then have "dropWhile (\<lambda>p. \<not> po_off_path (om_ops ?s1 ! p)) (map wo_ptr K) = map wo_ptr (dropWhile (\<lambda>x. \<not> wo_off x) K)"
    unfolding dropWhile_map comp_def by (simp cong: dropWhile_cong)
  then have "rebuild_offpath_map fresh ?s1 = Some (?s1\<lparr>td_map_data := md'\<rparr>)"
    using md'(1) md1(1) K(2) by (simp add: rebuild_offpath_map_def)
  then have "recover_map fresh (s\<lparr>td_seq_op_list := map wo_ptr K\<rparr>) = Some (s\<lparr>td_seq_op_list := map wo_ptr K, td_map_data := md'\<rparr>)"
    using h(1) by (simp add: recover_map_def Let_def md1_def)
  moreover have "stores_rel (md_oracle_mem_hash md') K D" by (rule stores_rel_less [OF md'(4)]) auto
  ultimately show ?thesis using md'(2,3) by blast
qed

lemma recover_ok:
  assumes w: "window s R (K @ D)" and r: "can_recover s K D n" "mset F = mset D" and a: "off_ops \<longrightarrow> agrees"
    and f: "entry_ok (fresh\<lparr>mm_store_mask := 0\<rparr>)"
  shows "\<exists>s'. recover_window off_ops fresh agrees n (map wo_ptr F) s = Some s' \<and> window s' R K \<and> td_proc_id s' = td_proc_id s \<and>
    op_count s' = n + 1"
proof -
  note win = w [unfolded window_def]
  have D: "\<forall>x \<in> set D. wo_off x" using r(1) by (simp add: can_recover_def)
  have F: "set F = set D" using r(2) by (rule mset_eq_setD)
  let ?s1 = "s\<lparr>td_seq_op_list := map wo_ptr K\<rparr>"
  obtain md where md: "recover_map fresh ?s1 = Some (?s1\<lparr>td_map_data := md\<rparr>)" "md_proc_id md = td_proc_id s" "regs_ok (R @ K) md"
    "stores_rel (md_oracle_mem_hash md) K D" using recover_maps_ok [OF w D f] by auto
  let ?s2 = "?s1\<lparr>td_map_data := md\<rparr>"
  have thread: "recover_thread off_ops fresh agrees n s = Some ?s2"
    using recover_seq_ok [OF w r(1)] md(1) a by (simp add: recover_thread_def)
  have "mset (map wo_ptr (K @ D)) = mset (map wo_ptr (K @ F))" using r(2) by simp
  moreover have "pool_ok s (map wo_ptr (K @ D))" using win by blast
  ultimately have pool: "pool_ok s (map wo_ptr (K @ F))" by (rule pool_ok_perm [rotated])
  then have pool2: "pool_ok ?s2 (map wo_ptr (K @ F))" by (simp add: pool_ok_def)
  have ops: "win_ops (md_proc_id (td_map_data ?s2)) ?s2 (K @ F)"
  proof -
    have "get_op q ?s2 = get_op q s" for q by (simp add: get_op_def)
    moreover have "distinct (map wo_ptr (K @ F))" using pool by (simp add: pool_ok_def)
    moreover have "win_ops (td_proc_id s) s (K @ D)" using win by blast
    moreover have "set (K @ F) = set (K @ D)" using F by simp
    ultimately show ?thesis using md(2) unfolding win_ops_def by simp
  qed
  have "stores_rel (md_oracle_mem_hash (td_map_data ?s2)) K F" using stores_rel_less [OF md(4), of F] F by simp
  from flush_ok [OF pool2 ops this] obtain s3 where s3: "loop free_op (map wo_ptr F) ?s2 = Some s3" "pool_ok s3 (map wo_ptr K)"
    "win_ops (md_proc_id (td_map_data s3)) s3 K" "stores_ok (md_oracle_mem_hash (td_map_data s3)) K" "same_rest ?s2 s3"
    "same_maps (td_map_data ?s2) (td_map_data s3)" using win F D by auto
  let ?s' = "s3\<lparr>op_count := n + 1\<rparr>"
  have rest: "td_proc_id s3 = td_proc_id s" "td_seq_op_list s3 = map wo_ptr K" "md_proc_id (td_map_data s3) = td_proc_id s"
    using s3(5,6) md(2) by (simp_all add: same_rest_def same_maps_def)
  have nums: "sorted_wrt (\<lambda>x y. wo_op_num x < wo_op_num y) (R @ K @ D)" "\<forall>x \<in> set (R @ K @ D). 0 < wo_op_num x \<and> wo_op_num x < op_count s"
    "0 < op_count s" using win unfolding numbers_ok_def by blast+
  have n: "wo_op_num x < n + 1" if "x \<in> set (R @ K)" for x
  proof (cases "K = []")
    case False
    then have last: "n = wo_op_num (last K)" "last K \<in> set K" using r(1) by (simp_all add: can_recover_def)
    then have "n < op_count s" using nums(2) by auto
    then have "n + 1 \<noteq> 0" by (metis add_eq_0_iff2 not_less word_order.extremum)
    moreover have "wo_op_num x \<le> n"
    proof -
      obtain K' z where Kz: "K = K' @ [z]" using False by (cases K rule: rev_cases) auto
      then show ?thesis using last(1) nums(1) that by (auto simp: sorted_wrt_append less_imp_le)
    qed
    ultimately show ?thesis using less_next [of n] by (meson le_less_trans)
  next
    case True
    show ?thesis
    proof (cases D)
      case Nil
      then show ?thesis using True r(1) nums(2) that by (auto simp: can_recover_def)
    next
      case (Cons y D')
      then show ?thesis using True r(1) nums(1) that by (auto simp: can_recover_def sorted_wrt_append)
    qed
  qed
  have n0: "0 < n + 1"
  proof (cases "R @ K")
    case Nil
    then show ?thesis using r(1) nums by (cases D) (auto simp: can_recover_def)
  next
    case (Cons x H)
    then show ?thesis using n [of x] by (metis list.set_intros(1) word_gt_0 word_less_1 not_less_zero word_coorder.extremum_strict)
  qed
  have "window ?s' R K" unfolding window_def
  proof (intro conjI)
    show "md_proc_id (td_map_data ?s') = td_proc_id ?s'" "td_seq_op_list ?s' = map wo_ptr K" using rest by simp_all
    show "length K \<le> 8192" "\<forall>x \<in> set R. \<not> wo_off x" "\<forall>x \<in> set K. fetched_ok (wo_info x)" using win by simp_all
    show "pool_ok ?s' (map wo_ptr K)" using s3(2) by (simp add: pool_ok_def)
    have "get_op q ?s' = get_op q s3" for q by (simp add: get_op_def)
    then show "win_ops (td_proc_id ?s') ?s' K" using s3(3) rest by (simp add: win_ops_def)
    show "numbers_ok (R @ K) (op_count ?s')" using nums n n0 by (auto simp: numbers_ok_def sorted_wrt_append)
    show "path_ok (R @ K)" using win path_okD(1) [of "R @ K" D] by simp
    show "regs_ok (R @ K) (td_map_data ?s')" using md(3) regs_ok_same [OF s3(6)] by simp
    show "stores_ok (md_oracle_mem_hash (td_map_data ?s')) K" using s3(4) by simp
  qed
  moreover have "recover_window off_ops fresh agrees n (map wo_ptr F) s = Some ?s'"
    using thread s3(1) by (simp add: recover_window_def)
  ultimately show ?thesis using rest by auto
qed

end
