(* ===== verification/Op_Props.thy ===== *)
theory Op_Props
  imports Op_Recover
begin

text \<open>
  Runs of the machine of ops: from the initialised pool and thread, ops are fetched, retire from the front and are
  dropped by recoveries. The properties say that the code never fails on a run and what its maps hold.
\<close>

section \<open>Runs\<close>

definition cold :: "Op_Machine \<Rightarrow> bool" where
  "cold s \<longleftrightarrow> length (om_ops s) = 1 \<and> om_free s = [] \<and> td_proc_id s = 0 \<and> op_count s = 1"

inductive op_run :: "map_params \<Rightarrow> Mem_Map_Entry \<Rightarrow> Op_Machine \<Rightarrow> Win_Op list \<Rightarrow> Win_Op list \<Rightarrow> bool"
  for P :: map_params and fresh :: Mem_Map_Entry where
  start: "cold s0 \<Longrightarrow> init_op_pool s0 = Some s1 \<Longrightarrow> init_thread P s1 = Some s \<Longrightarrow> op_run P fresh s [] []"
| fetch: "op_run P fresh s R W \<Longrightarrow> can_fetch P s W f \<Longrightarrow> fetch_op P fresh f s = Some (p, s') \<Longrightarrow>
    op_run P fresh s' R (W @ [fetched_op p f s])"
| retire: "op_run P fresh s R (x # W) \<Longrightarrow> \<not> wo_off x \<Longrightarrow> retire_op (wo_ptr x) s = Some s' \<Longrightarrow> op_run P fresh s' (R @ [x]) W"
| recover: "op_run P fresh s R (K @ D) \<Longrightarrow> can_recover s K D n \<Longrightarrow> mset F = mset D \<Longrightarrow> off_ops \<longrightarrow> agrees \<Longrightarrow>
    recover_window off_ops fresh agrees n (map wo_ptr F) s = Some s' \<Longrightarrow> op_run P fresh s' R K"

definition params_ok :: "map_params \<Rightarrow> Mem_Map_Entry \<Rightarrow> bool" where
  "params_ok P fresh \<longleftrightarrow> MEM_OBEY_STORE_DEP P \<and> 0 < NODE_TABLE_SIZE P \<and> length (mm_op fresh) = 16"

lemma params_okD: "params_ok P fresh \<Longrightarrow> MEM_OBEY_STORE_DEP P" "params_ok P fresh \<Longrightarrow> entry_ok (fresh\<lparr>mm_store_mask := 0\<rparr>)"
  by (simp_all add: params_ok_def entry_ok_def)

lemma empty_stores: "0 < n \<Longrightarrow> stores_ok (init_hash_table name n m) []"
proof -
  assume n: "0 < n"
  let ?h = "init_hash_table name n m :: Mem_Map_Entry Hash_Table"
  have i: "ht_inv ?h" unfolding init_hash_table_def by (rule ht_inv_init [OF n])
  have "hash_table_access ?h k = None" for k
    using access_None [OF i, of k] by (simp add: all_nodes_def init_hash_table_def init_complex_hash_table_def)
  then show ?thesis using i by (simp add: stores_rel_def mem_ok_def mem_store_def mem_flag_def)
qed

lemma start_ok:
  assumes "cold s0" "0 < NODE_TABLE_SIZE P"
  shows "\<exists>s1 s. init_op_pool s0 = Some s1 \<and> init_thread P s1 = Some s \<and> window s [] [] \<and> op_count s = 1"
proof -
  define s00 where "s00 = reset_op_pool
            (upd_op invalid_op (\<lambda>op. (op_pool_init_op op)\<lparr>po_valid := False, po_op_num := 0, po_unique_num := 0\<rparr>) s0)"
  have "pool_ok s00 []" using assms(1) by (auto simp: pool_ok_def s00_def reset_op_pool_def upd_op_def cold_def)
  moreover have "length (om_ops s00) + 128 \<le> OP_POOL_ENTRIES_INC * 128 + 1"
    using assms(1) by (simp add: s00_def reset_op_pool_def upd_op_def cold_def OP_POOL_ENTRIES_INC_def)
  ultimately obtain s1 where s1: "expand_op_pool s00 = Some s1" "pool_ok s1 []" "same_rest s00 s1" using expand_ok by blast
  have i1: "init_op_pool s0 = Some s1"
    using assms(1) s1(1) by (simp add: init_op_pool_def get_op_def invalid_op_def cold_def s00_def)
  have r: "td_proc_id s1 = 0" "op_count s1 = 1"
    using s1(3) assms(1) by (simp_all add: same_rest_def s00_def reset_op_pool_def cold_def)
  define md where "md = \<lparr>md_proc_id = 0, md_reg_map = replicate (NUM_REG_IDS * 2) zero_entry,
             md_map_flags = replicate NUM_REG_IDS False, md_last_store = replicate 2 zero_entry,
             md_last_store_flag = False, md_oracle_mem_hash = init_hash_table ''oracle mem dependence map'' (NODE_TABLE_SIZE P) 136,
             md_free_list = 256, md_wake_up_entries = 256, md_active_wake_up_entries = 0\<rparr>"
  let ?s = "s1\<lparr>td_map_data := md, td_seq_op_list := []\<rparr>"
  have i2: "init_thread P s1 = Some ?s"
    by (simp add: init_thread_def init_map_def expand_wake_up_entries_def WAKE_UP_ENTRIES_INC_def md_def)
  have "cell_ok Q [] zero_entry off False" for Q off by (simp add: cell_ok_def entry_of_def)
  then have "regs_ok [] md" by (simp add: regs_ok_def md_def)
  moreover have "stores_ok (md_oracle_mem_hash md) []" using empty_stores [OF assms(2)] by (simp add: md_def)
  ultimately have "window ?s [] []"
    using s1(2) r by (simp add: window_def md_def pool_ok_def win_ops_def numbers_ok_def path_ok_def)
  then show ?thesis using i1 i2 r by auto
qed

lemma op_run_window:
  assumes "op_run P fresh s R W" "params_ok P fresh"
  shows "window s R W"
  using assms(1)
proof induction
  case (start s0 s1 s)
  then show ?case using start_ok [of s0 P] assms(2) by (auto simp: params_ok_def)
next
  case (fetch s R W f p s')
  then show ?case using fetch_ok [OF fetch.IH fetch.hyps(2) params_okD [OF assms(2)]] by auto
next
  case (retire s R x W s')
  then show ?case using retire_ok [OF retire.IH retire.hyps(2)] by auto
next
  case (recover s R K D n F off_ops agrees s')
  then show ?case using recover_ok [OF recover.IH recover.hyps(2-4) params_okD(2) [OF assms(2)]] by auto
qed

section \<open>Properties\<close>

text \<open>C5: what an op that is fetched depends on. On every run, with stores obeyed, the fetch succeeds, and the sources of
  the new op are, in order: for each register that it reads the last op fetched that writes it and was not dropped
  by a recovery, the last store for every memory op when stores are in order, and for a load the youngest store in
  the window to each of its bytes, each store once (or the youngest overlapping store when stores are in order).\<close>

theorem fetched_op_sources:
  assumes "op_run P fresh s R W" "params_ok P fresh" "can_fetch P s W f"
  shows "\<exists>p s' op. fetch_op P fresh f s = Some (p, s') \<and> get_op p s' = Some op \<and> srcs op = op_sources P R W f"
  using fetch_ok [OF op_run_window [OF assms(1,2)] assms(3) params_okD [OF assms(2)]] by blast

definition ex_params :: map_params where
  "ex_params = \<lparr>OBEY_REG_DEP = True, MEM_OBEY_STORE_DEP = True, MEM_OOO_STORES = True, TRACK_L1_MISS_DEPS = False, NODE_TABLE_SIZE = 128\<rparr>"

definition ex_fresh :: Mem_Map_Entry where
  "ex_fresh = \<lparr>mm_op = replicate 16 0, mm_flag_mask = 0, mm_store_mask = 0\<rparr>"

definition ex_machine :: Op_Machine where
  "ex_machine = \<lparr>om_ops = [zero_op], om_free = [], op_pool_entries = 0, op_pool_active_ops = 0, td_proc_id = 0,
     td_map_data = \<lparr>md_proc_id = 0, md_reg_map = [], md_map_flags = [], md_last_store = [], md_last_store_flag = False,
       md_oracle_mem_hash = init_hash_table ''oracle mem dependence map'' 1 136, md_free_list = 0, md_wake_up_entries = 0,
       md_active_wake_up_entries = 0\<rparr>,
     td_seq_op_list = [], op_count = 1, unique_count = 1, unique_count_per_core = 1, rdy_head = []\<rparr>"

text \<open>A store of eight bytes that also writes register 3, and a load that reads the register and half of the bytes.\<close>

definition ex_store :: "bool \<Rightarrow> Fetched" where
  "ex_store off = \<lparr>fe_table_info = \<lparr>ti_mem_type = MEM_ST, ti_num_dest_regs = 1, ti_num_src_regs = 0\<rparr>,
     fe_inst_info = \<lparr>ii_srcs = [], ii_dests = [3], ii_fake_inst = False\<rparr>, fe_va = 100, fe_mem_size = 8, fe_off_path = off\<rparr>"

definition ex_load :: Fetched where
  "ex_load = \<lparr>fe_table_info = \<lparr>ti_mem_type = MEM_LD, ti_num_dest_regs = 0, ti_num_src_regs = 1\<rparr>,
     fe_inst_info = \<lparr>ii_srcs = [3], ii_dests = [], ii_fake_inst = False\<rparr>, fe_va = 104, fe_mem_size = 8, fe_off_path = False\<rparr>"

lemmas ex_defs = ex_params_def ex_fresh_def ex_store_def ex_load_def

lemma ex_params_ok: "params_ok ex_params ex_fresh"
  by (simp add: params_ok_def ex_defs)

lemma ex_fetched_ok: "fetched_ok (ex_store off)" "fetched_ok ex_load"
  by (simp_all add: fetched_ok_def access_ok_def src_regs_def dest_regs_def ex_defs NUM_REG_IDS_def)

lemma ex_run_store:
  "\<exists>s x. op_run ex_params ex_fresh s [] [x] \<and> wo_info x = ex_store False \<and> wo_op_num x = 1 \<and> op_count s = 2"
proof -
  have "cold ex_machine" by (simp add: cold_def ex_machine_def)
  from start_ok [OF this, of ex_params] obtain s1 s where s: "init_op_pool ex_machine = Some s1" "init_thread ex_params s1 = Some s"
    "window s [] []" "op_count s = 1" by (auto simp: ex_params_def)
  then have run: "op_run ex_params ex_fresh s [] []" using op_run.start [OF \<open>cold ex_machine\<close>] by blast
  have c: "can_fetch ex_params s [] (ex_store False)"
    using s(4) ex_fetched_ok by (simp add: can_fetch_def) (simp add: ex_store_def src_regs_def mem_type_of_def)
  obtain p s' where "fetch_op ex_params ex_fresh (ex_store False) s = Some (p, s')" "op_count s' = 2"
    using fetch_ok [OF s(3) c params_okD [OF ex_params_ok]] s(4) by auto
  with op_run.fetch [OF run c this(1)] s(4) show ?thesis
    by (intro exI [of _ s'] exI [of _ "fetched_op p (ex_store False) s"]) (simp add: fetched_op_def)
qed

theorem fetched_op_sources_witness:
  "\<exists>s x p s' op. op_run ex_params ex_fresh s [] [x] \<and> fetch_op ex_params ex_fresh ex_load s = Some (p, s') \<and>
     get_op p s' = Some op \<and> srcs op =
       [\<lparr>sr_type = REG_DATA_DEP, sr_op = wo_ptr x, sr_op_num = 1, sr_unique_num = wo_unique x\<rparr>,
        \<lparr>sr_type = MEM_DATA_DEP, sr_op = wo_ptr x, sr_op_num = 1, sr_unique_num = wo_unique x\<rparr>]"
proof -
  obtain s x where r: "op_run ex_params ex_fresh s [] [x]" "wo_info x = ex_store False" "wo_op_num x = 1" "op_count s = 2"
    using ex_run_store by blast
  have "can_fetch ex_params s [x] ex_load"
    using r(2,4) ex_fetched_ok(2) by (simp add: can_fetch_def) (simp add: ex_defs src_regs_def wo_off_def)
  from fetched_op_sources [OF r(1) ex_params_ok this] obtain p s' op where f: "fetch_op ex_params ex_fresh ex_load s = Some (p, s')"
    "get_op p s' = Some op" "srcs op = op_sources ex_params [] [x] ex_load" by blast
  have w: "youngest Q [x] = (if Q x then Some x else None)" for Q using youngest_snoc [of Q "[]" x] by simp
  have st: "stores_to b x \<longleftrightarrow> 100 \<le> b \<and> b < 108" for b
    using r(2) by (simp add: stores_to_def is_store_def mem_type_of_def bytes_at_def ex_defs)
  have "[104 ..< 112] = [104, 105, 106, 107, 108, 109, 110, 111 :: nat]" by (simp add: upt_rec)
  then have "load_stores [x] [104 ..< 112] = [x]" by (simp add: load_stores_def w st List.map_filter_def)
  moreover have "writes_reg 3 x" using r(2) by (simp add: writes_reg_def dest_regs_def ex_defs)
  ultimately have "op_sources ex_params [] [x] ex_load = [src_of REG_DATA_DEP (entry_of (Some x)), mem_src x]"
    by (simp add: op_sources_def reg_sources_def addr_sources_def load_sources_def w ex_defs src_regs_def mem_type_of_def)
  then have "srcs op = [\<lparr>sr_type = REG_DATA_DEP, sr_op = wo_ptr x, sr_op_num = 1, sr_unique_num = wo_unique x\<rparr>,
      \<lparr>sr_type = MEM_DATA_DEP, sr_op = wo_ptr x, sr_op_num = 1, sr_unique_num = wo_unique x\<rparr>]"
    unfolding f(3) using r(3) by (simp add: src_of_def entry_of_def mem_src_def)
  with f(1,2) r(1) show ?thesis by blast
qed

text \<open>C6: the tables agree with the window. On every run, the sequential list holds the ops in flight in order, they and the
  free ops partition the pool, each one's record is the one that was filled, and whatever was fetched, retired and
  dropped before, each register's current map entry is its youngest writer and a byte's current store is the youngest
  store to it.\<close>

theorem maps_follow_window:
  assumes "op_run P fresh s R W" "params_ok P fresh"
  shows "td_seq_op_list s = map wo_ptr W \<and> unat (op_pool_active_ops s) = length W \<and>
    distinct (om_free s @ map wo_ptr W) \<and> set (om_free s @ map wo_ptr W) = {1 ..< length (om_ops s)} \<and>
    (\<forall>x \<in> set W. \<exists>op. get_op (wo_ptr x) s = Some op \<and> op_is (td_proc_id s) x op) \<and>
    (\<forall>i. unat i < NUM_REG_IDS \<longrightarrow> md_reg_map (td_map_data s) ! reg_ind i (md_map_flags (td_map_data s) ! unat i) =
       entry_of (youngest (writes_reg (unat i)) (R @ W))) \<and>
    md_last_store (td_map_data s) ! of_bool (md_last_store_flag (td_map_data s)) = entry_of (youngest is_store (R @ W)) \<and>
    (\<forall>b < 2 ^ 64. supplier (md_oracle_mem_hash (td_map_data s)) b = map_option wo_ptr (youngest (stores_to b) W))"
proof -
  note win = op_run_window [OF assms, unfolded window_def]
  have "path_ok (R @ W)" "path_ok W" "regs_ok (R @ W) (td_map_data s)" using win path_okD(2) by blast+
  then show ?thesis using win reg_lookup store_lookup supplier_youngest by (auto simp: pool_ok_def win_ops_def)
qed

theorem maps_follow_window_witness:
  "\<exists>s x. op_run ex_params ex_fresh s [] [x] \<and> td_seq_op_list s = [wo_ptr x] \<and>
     supplier (md_oracle_mem_hash (td_map_data s)) 105 = Some (wo_ptr x) \<and> supplier (md_oracle_mem_hash (td_map_data s)) 108 = None"
proof -
  obtain s x where r: "op_run ex_params ex_fresh s [] [x]" "wo_info x = ex_store False" using ex_run_store by blast
  have w: "youngest Q [x] = (if Q x then Some x else None)" for Q using youngest_snoc [of Q "[]" x] by simp
  have "stores_to b x \<longleftrightarrow> 100 \<le> b \<and> b < 108" for b
    using r(2) by (simp add: stores_to_def is_store_def mem_type_of_def bytes_at_def ex_defs)
  moreover have "\<forall>b < 2 ^ 64. supplier (md_oracle_mem_hash (td_map_data s)) b = map_option wo_ptr (youngest (stores_to b) [x])"
    "td_seq_op_list s = [wo_ptr x]" using maps_follow_window [OF r(1) ex_params_ok] by simp_all
  ultimately have "td_seq_op_list s = [wo_ptr x]" "supplier (md_oracle_mem_hash (td_map_data s)) 105 = Some (wo_ptr x)"
    "supplier (md_oracle_mem_hash (td_map_data s)) 108 = None" by (simp_all add: w)
  with r(1) show ?thesis by blast
qed

text \<open>C7: retiring and recovering never fail. On every run, no assertion of the pool, the sequential list or the maps fails
  when the oldest op retires, or when a recovery to an op of the window (or to the one before its oldest) drops the
  ops after it, whatever the order in which the stages free them.\<close>

theorem window_never_fails:
  assumes "op_run P fresh s R (K @ D)" "params_ok P fresh"
  shows "(K @ D = x # W \<and> \<not> wo_off x \<longrightarrow> retire_op (wo_ptr x) s \<noteq> None) \<and>
    (can_recover s K D n \<and> mset F = mset D \<and> (off_ops \<longrightarrow> agrees) \<longrightarrow>
       recover_window off_ops fresh agrees n (map wo_ptr F) s \<noteq> None)"
proof (intro conjI impI; elim conjE)
  note w = op_run_window [OF assms]
  assume "K @ D = x # W" "\<not> wo_off x"
  then show "retire_op (wo_ptr x) s \<noteq> None" using retire_ok [of s R x W] w by auto
next
  note w = op_run_window [OF assms]
  assume "can_recover s K D n" "mset F = mset D" "off_ops \<longrightarrow> agrees"
  from recover_ok [OF w this params_okD(2) [OF assms(2)]] show "recover_window off_ops fresh agrees n (map wo_ptr F) s \<noteq> None" by auto
qed

theorem window_never_fails_witness:
  "\<exists>s x y. op_run ex_params ex_fresh s [] [x, y] \<and> wo_off y \<and> retire_op (wo_ptr x) s \<noteq> None \<and>
     recover_window False ex_fresh True 1 [wo_ptr y] s \<noteq> None"
proof -
  obtain s x where r: "op_run ex_params ex_fresh s [] [x]" "wo_info x = ex_store False" "wo_op_num x = 1" "op_count s = 2"
    using ex_run_store by blast
  have c: "can_fetch ex_params s [x] (ex_store True)"
    using r(2,4) ex_fetched_ok by (simp add: can_fetch_def) (simp add: ex_store_def src_regs_def mem_type_of_def)
  obtain p s' where f: "fetch_op ex_params ex_fresh (ex_store True) s = Some (p, s')"
    using fetch_ok [OF op_run_window [OF r(1) ex_params_ok] c params_okD [OF ex_params_ok]] by auto
  let ?y = "fetched_op p (ex_store True) s"
  have run: "op_run ex_params ex_fresh s' [] ([x] @ [?y])" by (rule op_run.fetch [OF r(1) c f])
  have "wo_off ?y" "\<not> wo_off x" using r(2) by (simp_all add: fetched_op_def wo_off_def ex_store_def)
  then show ?thesis
    using window_never_fails [OF run ex_params_ok, of x "[?y]" 1 "[?y]" False True] run r(3)
    by (intro exI [of _ s'] exI [of _ x] exI [of _ ?y]) (simp add: can_recover_def)
qed

end
