(* ===== verification/Op_Wake.thy ===== *)
theory Op_Wake
  imports Op_Types Op_Map
begin

text \<open>
  The wake-up lists: what \<^verbatim>\<open>map.c\<close> asks of the function to call on a wake-up, as a locale, and the invariant that
  ties the not-ready bits of the ops to the lists of their sources.
\<close>

section \<open>What a wake-up may change\<close>

definition core :: "Pool_Op \<Rightarrow> Pool_Op" where
  "core op = op\<lparr>po_rdy_cycle := 0, po_state := OS_FETCHED, po_in_rdy_list := False, po_dep_on_l1_miss := False\<rparr>"

definition view :: "Op_Machine \<Rightarrow> opp \<Rightarrow> Pool_Op option" where
  "view s q = map_option core (get_op q s)"

definition quiet :: "Op_Machine \<Rightarrow> Op_Machine \<Rightarrow> bool" where
  "quiet s s' \<longleftrightarrow> view s' = view s \<and> s' = s\<lparr>om_ops := om_ops s', rdy_head := rdy_head s'\<rparr> \<and> length (om_ops s') = length (om_ops s)"

locale waking =
  fixes act :: wake_action and c :: uns
  assumes act_quiet: "act sp dp b s = Some s' \<Longrightarrow> quiet s s'"
    and act_total: "get_op sp s = Some a \<Longrightarrow> get_op dp s = Some d \<Longrightarrow> po_proc_id a = c \<Longrightarrow> po_proc_id d = c \<Longrightarrow>
      sp \<noteq> invalid_op \<Longrightarrow> dp \<noteq> invalid_op \<Longrightarrow> \<exists>s'. act sp dp b s = Some s'"

lemma core_simps [simp]:
  "po_valid (core op) = po_valid op" "po_proc_id (core op) = po_proc_id op" "po_unique_num (core op) = po_unique_num op"
  "po_num_srcs (core op) = po_num_srcs op" "po_src_info (core op) = po_src_info op"
  "po_srcs_not_rdy_vector (core op) = po_srcs_not_rdy_vector op" "po_wake_up_signaled (core op) = po_wake_up_signaled op"
  "po_wake_up_list (core op) = po_wake_up_list op" "po_wake_up_count (core op) = po_wake_up_count op" "po_replay (core op) = po_replay op"
  by (simp_all add: core_def)

lemma quiet_refl [simp]: "quiet s s"
  by (simp add: quiet_def)

lemma quiet_trans: "quiet s s1 \<Longrightarrow> quiet s1 s2 \<Longrightarrow> quiet s s2"
  unfolding quiet_def by (metis Op_Machine.surjective Op_Machine.update_convs(1,11))

lemma view_upd: "view (upd_op p f s) q = (if q = p then map_option (\<lambda>op. core (f op)) (get_op p s) else view s q)"
  by (simp add: view_def option.map_comp comp_def)

lemma view_other [simp]: "view (s\<lparr>rdy_head := l\<rparr>) = view s" "view (upd_md g s) = view s"
  by (simp_all add: view_def get_op_def fun_eq_iff)

text \<open>An update that the core does not see.\<close>

lemma quiet_upd:
  assumes "\<And>op. core (f op) = core op"
  shows "quiet s (upd_op p f (s\<lparr>rdy_head := l\<rparr>))"
proof -
  have "view (upd_op p f (s\<lparr>rdy_head := l\<rparr>)) = view s"
    by (rule ext) (simp add: view_upd assms, simp add: view_def get_op_def)
  then show ?thesis by (simp add: quiet_def upd_op_def)
qed

lemma simple_wake_quiet: "simple_wake n sp dp b s = Some s' \<Longrightarrow> quiet s s'"
  by (auto simp: simple_wake_def bind_eq_Some_conv Let_def intro!: quiet_upd [of _ s dp "rdy_head s", simplified] simp: core_def)

interpretation simple: waking "simple_wake n" c
proof
  show "simple_wake n sp dp b s = Some s' \<Longrightarrow> quiet s s'" for sp dp b s s' by (rule simple_wake_quiet)
qed (simp add: simple_wake_def Let_def)

interpretation cmp: waking "cmp_wake c n" c
proof
  fix sp dp b s s' assume w: "cmp_wake c n sp dp b s = Some s'"
  obtain d where d: "get_op dp s = Some d" using w by (auto simp: cmp_wake_def bind_eq_Some_conv)
  show "quiet s s'"
  proof (cases "po_state d = OS_IN_RS")
    case False
    then show ?thesis using w d
      by (auto simp: cmp_wake_def bind_eq_Some_conv intro!: quiet_upd [of _ s dp "rdy_head s", simplified] simp: core_def)
  next
    case True
    then obtain s1 d1 where s1: "simple_wake n sp dp b s = Some s1" "get_op dp s1 = Some d1"
      "s' = (if po_srcs_not_rdy_vector d1 = 0 \<and> po_issue_cycle d1 \<le> n \<and> \<not> po_in_rdy_list d1
         then upd_op dp (\<lambda>op. op\<lparr>po_in_rdy_list := True\<rparr>) (s1\<lparr>rdy_head := dp # rdy_head s1\<rparr>) else s1)"
      using w d by (auto simp: cmp_wake_def bind_eq_Some_conv)
    have "quiet s1 s'" unfolding s1(3) by (auto intro!: quiet_upd simp: core_def)
    then show ?thesis using quiet_trans [OF simple_wake_quiet [OF s1(1)]] by blast
  qed
next
  fix sp dp b s a d
  assume a: "get_op sp s = Some a" "get_op dp s = Some d" "po_proc_id a = c" "po_proc_id d = c" "sp \<noteq> invalid_op" "dp \<noteq> invalid_op"
  then obtain s1 where s1: "simple_wake n sp dp b s = Some s1" using simple.act_total by blast
  then have "view s1 dp = view s dp" using simple_wake_quiet by (simp add: quiet_def)
  then obtain d1 where "get_op dp s1 = Some d1" using a(2) by (auto simp: view_def)
  then show "\<exists>s'. cmp_wake c n sp dp b s = Some s'" using a s1 by (simp add: cmp_wake_def)
qed

section \<open>Bits\<close>

lemma bit_cleared: "bit (and v (not (push_bit n 1))) i \<longleftrightarrow> bit v i \<and> i \<noteq> n" for v :: uns
  by (auto simp: bit_simps dest: bit_imp_le_length)

lemma bit_tested: "n < 32 \<Longrightarrow> 0 < and v (push_bit n 1) \<longleftrightarrow> bit v n" for v :: uns
  by (simp add: and_exp_eq_0_iff_not_bit word_gt_0)

section \<open>The invariant\<close>

text \<open>A source that is still the op that it was, and one whose wake-up is still to come.\<close>

type_synonym op_view = "opp \<Rightarrow> Pool_Op option"

definition live :: "op_view \<Rightarrow> Src_Info \<Rightarrow> bool" where
  "live v r \<longleftrightarrow> (\<exists>op. v (sr_op r) = Some op \<and> po_valid op \<and> po_unique_num op = sr_unique_num r)"

definition pending :: "op_view \<Rightarrow> Src_Info \<Rightarrow> bool" where
  "pending v r \<longleftrightarrow> (\<exists>op. v (sr_op r) = Some op \<and> po_valid op \<and> po_unique_num op = sr_unique_num r \<and>
     sr_type r \<notin> po_wake_up_signaled op)"

definition listed :: "op_view \<Rightarrow> opp \<Rightarrow> Pool_Op \<Rightarrow> nat \<Rightarrow> bool" where
  "listed v d op i \<longleftrightarrow> (\<exists>src. v (sr_op (po_src_info op ! i)) = Some src \<and>
     \<lparr>wu_op = d, wu_unique_num = po_unique_num op, wu_dep_type = sr_type (po_src_info op ! i), wu_rdy_bit = of_nat i\<rparr>
       \<in> set (po_wake_up_list src))"

text \<open>The first \<open>prog d\<close> sources of op \<open>d\<close> have been entered into the lists.\<close>

definition bits_ok :: "op_view \<Rightarrow> (opp \<Rightarrow> nat) \<Rightarrow> bool" where
  "bits_ok v prog \<longleftrightarrow> (\<forall>d op. v d = Some op \<and> po_valid op \<longrightarrow> (\<forall>i < unat (po_num_srcs op).
     if i < prog d then (bit (po_srcs_not_rdy_vector op) i \<longleftrightarrow> pending v (po_src_info op ! i)) \<and>
       (pending v (po_src_info op ! i) \<longrightarrow> listed v d op i)
     else bit (po_srcs_not_rdy_vector op) i))"

definition entries_ok :: "op_view \<Rightarrow> (opp \<Rightarrow> nat) \<Rightarrow> bool" where
  "entries_ok v prog \<longleftrightarrow> (\<forall>q src e. v q = Some src \<and> e \<in> set (po_wake_up_list src) \<longrightarrow> v (wu_op e) \<noteq> None \<and>
     (\<forall>op. v (wu_op e) = Some op \<and> po_valid op \<and> po_unique_num op = wu_unique_num e \<longrightarrow>
        unat (wu_rdy_bit e) < prog (wu_op e) \<and> unat (wu_rdy_bit e) < unat (po_num_srcs op) \<and>
        sr_op (po_src_info op ! unat (wu_rdy_bit e)) = q \<and> sr_type (po_src_info op ! unat (wu_rdy_bit e)) = wu_dep_type e \<and>
        sr_unique_num (po_src_info op ! unat (wu_rdy_bit e)) = po_unique_num src))"

definition uniques_ok :: "op_view \<Rightarrow> uns \<Rightarrow> Counter \<Rightarrow> bool" where
  "uniques_ok v c u \<longleftrightarrow> (\<forall>q op. v q = Some op \<longrightarrow> (\<forall>e \<in> set (po_wake_up_list op). wu_unique_num e < u) \<and>
     (if po_valid op then q \<noteq> invalid_op \<and> po_proc_id op = c \<and> po_unique_num op < u \<and> unat (po_num_srcs op) \<le> 32 \<and>
          length (po_src_info op) = MAX_DEPS \<and>
          (\<forall>i < unat (po_num_srcs op). v (sr_op (po_src_info op ! i)) \<noteq> None \<and> sr_unique_num (po_src_info op ! i) < po_unique_num op)
      else po_wake_up_list op = [])) \<and> v invalid_op \<noteq> None"

definition wake_inv :: "op_view \<Rightarrow> (opp \<Rightarrow> nat) \<Rightarrow> uns \<Rightarrow> Counter \<Rightarrow> bool" where
  "wake_inv v prog c u \<longleftrightarrow> bits_ok v prog \<and> entries_ok v prog \<and> uniques_ok v c u"

lemma pending_live: "pending v r \<Longrightarrow> live v r"
  by (auto simp: pending_def live_def)

lemma unat_rdy_bit: "i < 32 \<Longrightarrow> unat (of_nat i :: uns8) = i" "i < 32 \<Longrightarrow> unat (ucast (of_nat i :: uns8) :: uns) = i"
  "unat (ucast b :: uns) = unat (b :: uns8)"
proof -
  show u: "unat (ucast b :: uns) = unat (b :: uns8)" for b
    using unsigned_less [where 'a = nat, of b] by (simp add: unsigned_ucast_eq take_bit_nat_eq_self)
  show "i < 32 \<Longrightarrow> unat (of_nat i :: uns8) = i" by (simp add: unat_of_nat)
  then show "i < 32 \<Longrightarrow> unat (ucast (of_nat i :: uns8) :: uns) = i" using u by simp
qed

section \<open>Clearing bits\<close>

text \<open>The view \<open>v'\<close> is \<open>v\<close> with some bits cleared.\<close>

definition cleared :: "(opp \<times> nat) set \<Rightarrow> op_view \<Rightarrow> op_view \<Rightarrow> bool" where
  "cleared C v v' \<longleftrightarrow> (\<forall>d. (v' d = None \<longleftrightarrow> v d = None) \<and> (\<forall>op. v d = Some op \<longrightarrow>
     (\<exists>w. v' d = Some (op\<lparr>po_srcs_not_rdy_vector := w\<rparr>) \<and> (\<forall>i. bit w i \<longleftrightarrow> bit (po_srcs_not_rdy_vector op) i \<and> (d, i) \<notin> C))))"

lemma cleared_refl: "cleared {} v v"
  unfolding cleared_def
proof (intro allI conjI impI refl)
  fix d op assume "v d = Some op"
  then show "\<exists>w. v d = Some (op\<lparr>po_srcs_not_rdy_vector := w\<rparr>) \<and> (\<forall>i. bit w i \<longleftrightarrow> bit (po_srcs_not_rdy_vector op) i \<and> (d, i) \<notin> {})"
    by (intro exI [of _ "po_srcs_not_rdy_vector op"]) simp
qed

lemma clearedD:
  assumes "cleared C v v'" "v d = Some op"
  obtains w where "v' d = Some (op\<lparr>po_srcs_not_rdy_vector := w\<rparr>)" "\<And>i. bit w i \<longleftrightarrow> bit (po_srcs_not_rdy_vector op) i \<and> (d, i) \<notin> C"
  using assms unfolding cleared_def by blast

lemma cleared_None: "cleared C v v' \<Longrightarrow> v' d = None \<longleftrightarrow> v d = None"
  by (simp add: cleared_def)

lemma cleared_back:
  assumes "cleared C v v'" "v' d = Some op'"
  obtains op w where "v d = Some op" "op' = op\<lparr>po_srcs_not_rdy_vector := w\<rparr>"
    "\<And>i. bit w i \<longleftrightarrow> bit (po_srcs_not_rdy_vector op) i \<and> (d, i) \<notin> C"
proof -
  obtain op where op: "v d = Some op" using assms cleared_None [OF assms(1), of d] by (cases "v d") auto
  obtain w where "v' d = Some (op\<lparr>po_srcs_not_rdy_vector := w\<rparr>)" "\<And>i. bit w i \<longleftrightarrow> bit (po_srcs_not_rdy_vector op) i \<and> (d, i) \<notin> C"
    using clearedD [OF assms(1) op] by blast
  then show ?thesis using that [OF op] assms(2) by simp
qed

text \<open>Clearing one bit more.\<close>

lemma clear_bit_ok:
  assumes c: "cleared C v (view s)" and op: "v d = Some op" and b: "unat b < unat (po_num_srcs op)" "unat b < 32"
  shows "\<exists>s'. clear_not_rdy_bit d b s = Some s' \<and> cleared (insert (d, unat b) C) v (view s') \<and> td_map_data s' = td_map_data s \<and>
    s' = s\<lparr>om_ops := om_ops s'\<rparr> \<and> length (om_ops s') = length (om_ops s)"
proof -
  obtain w where w: "view s d = Some (op\<lparr>po_srcs_not_rdy_vector := w\<rparr>)" "\<And>i. bit w i \<longleftrightarrow> bit (po_srcs_not_rdy_vector op) i \<and> (d, i) \<notin> C"
    using clearedD [OF c op] by blast
  obtain dop where dop: "get_op d s = Some dop" "core dop = op\<lparr>po_srcs_not_rdy_vector := w\<rparr>" using w(1) by (auto simp: view_def)
  have n: "po_num_srcs dop = po_num_srcs op" "po_srcs_not_rdy_vector dop = w"
    using arg_cong [OF dop(2), of po_num_srcs] arg_cong [OF dop(2), of po_srcs_not_rdy_vector] by simp_all
  let ?f = "\<lambda>op. op\<lparr>po_srcs_not_rdy_vector := and (po_srcs_not_rdy_vector op) (not (push_bit (unat b) 1))\<rparr>"
  let ?s' = "upd_op d ?f s"
  have "b < po_num_srcs dop" "b < 32" using b n by (simp_all add: word_less_nat_alt)
  then have "clear_not_rdy_bit d b s = Some ?s'" using dop(1) by (simp add: clear_not_rdy_bit_def rdy_bit_ok_def)
  moreover have "core (?f dop) = (core dop)\<lparr>po_srcs_not_rdy_vector := and w (not (push_bit (unat b) 1))\<rparr>"
    using n by (simp add: core_def)
  then have new: "view ?s' d = Some (op\<lparr>po_srcs_not_rdy_vector := and w (not (push_bit (unat b) 1))\<rparr>)"
    using dop by (simp add: view_upd)
  have "cleared (insert (d, unat b) C) v (view ?s')"
    unfolding cleared_def
  proof (intro allI conjI impI)
    fix q
    show "view ?s' q = None \<longleftrightarrow> v q = None" using cleared_None [OF c, of q] by (auto simp: view_upd view_def)
    fix op' assume op': "v q = Some op'"
    show "\<exists>w. view ?s' q = Some (op'\<lparr>po_srcs_not_rdy_vector := w\<rparr>) \<and>
      (\<forall>i. bit w i \<longleftrightarrow> bit (po_srcs_not_rdy_vector op') i \<and> (q, i) \<notin> insert (d, unat b) C)"
    proof (cases "q = d")
      case True
      then show ?thesis using new op op' w(2) bit_cleared [of w "unat b"]
        by (intro exI [of _ "and w (not (push_bit (unat b) 1))"]) auto
    next
      case False
      then show ?thesis using clearedD [OF c op'] by (simp add: view_upd) metis
    qed
  qed
  moreover have "td_map_data ?s' = td_map_data s" "?s' = s\<lparr>om_ops := om_ops ?s'\<rparr>" "length (om_ops ?s') = length (om_ops s)"
    by (simp_all add: upd_op_def)
  ultimately show ?thesis by blast
qed

lemma cleared_insert_absent:
  assumes "cleared C v v'" "v' d = Some op'" "\<not> bit (po_srcs_not_rdy_vector op') i"
  shows "cleared (insert (d, i) C) v v'"
  unfolding cleared_def
proof (intro allI conjI impI)
  fix q show "v' q = None \<longleftrightarrow> v q = None" by (rule cleared_None [OF assms(1)])
  fix op assume op: "v q = Some op"
  obtain w where w: "v' q = Some (op\<lparr>po_srcs_not_rdy_vector := w\<rparr>)" "\<And>j. bit w j \<longleftrightarrow> bit (po_srcs_not_rdy_vector op) j \<and> (q, j) \<notin> C"
    using clearedD [OF assms(1) op] by blast
  have "\<not> bit w i" if "q = d" using w(1) assms(2,3) that by auto
  then have "bit w j \<longleftrightarrow> bit (po_srcs_not_rdy_vector op) j \<and> (q, j) \<notin> insert (d, i) C" for j using w(2) [of j] by auto
  with w(1) show "\<exists>w. v' q = Some (op\<lparr>po_srcs_not_rdy_vector := w\<rparr>) \<and>
      (\<forall>j. bit w j \<longleftrightarrow> bit (po_srcs_not_rdy_vector op) j \<and> (q, j) \<notin> insert (d, i) C)" by blast
qed

section \<open>Signalling\<close>

definition calm :: "Op_Machine \<Rightarrow> Op_Machine \<Rightarrow> bool" where
  "calm s s' \<longleftrightarrow> s' = s\<lparr>om_ops := om_ops s', rdy_head := rdy_head s'\<rparr> \<and> length (om_ops s') = length (om_ops s)"

lemma calm_refl [simp]: "calm s s"
  by (simp add: calm_def)

lemma calm_trans: "calm s s1 \<Longrightarrow> calm s1 s2 \<Longrightarrow> calm s s2"
  unfolding calm_def by (metis Op_Machine.surjective Op_Machine.update_convs(1,11))

lemma quiet_calm: "quiet s s' \<Longrightarrow> calm s s'" "quiet s s' \<Longrightarrow> view s' = view s"
  by (simp_all add: quiet_def calm_def)

lemma calm_ops: "s' = s\<lparr>om_ops := om_ops s'\<rparr> \<Longrightarrow> length (om_ops s') = length (om_ops s) \<Longrightarrow> calm s s'"
  unfolding calm_def by (metis Op_Machine.surjective Op_Machine.update_convs(1,11))

definition target :: "op_view \<Rightarrow> Dep_Type \<Rightarrow> Wake_Up_Entry \<Rightarrow> (opp \<times> nat) set" where
  "target v t e = (if wu_dep_type e = t \<and> (\<exists>op. v (wu_op e) = Some op \<and> po_valid op \<and> po_unique_num op = wu_unique_num e)
     then {(wu_op e, unat (wu_rdy_bit e))} else {})"

lemma wake_invD:
  assumes "wake_inv v prog c u" "v q = Some op" "po_valid op"
  shows "q \<noteq> invalid_op" "po_proc_id op = c" "po_unique_num op < u" "unat (po_num_srcs op) \<le> 32" "length (po_src_info op) = MAX_DEPS"
    "i < unat (po_num_srcs op) \<Longrightarrow> v (sr_op (po_src_info op ! i)) \<noteq> None"
    "i < unat (po_num_srcs op) \<Longrightarrow> sr_unique_num (po_src_info op ! i) < po_unique_num op"
  using assms unfolding wake_inv_def uniques_ok_def by (blast | presburger)+

lemma wake_entryD:
  assumes "wake_inv v prog c u" "v q = Some src" "e \<in> set (po_wake_up_list src)"
  shows "v (wu_op e) \<noteq> None"
    and "v (wu_op e) = Some op \<Longrightarrow> po_valid op \<Longrightarrow> po_unique_num op = wu_unique_num e \<Longrightarrow>
      unat (wu_rdy_bit e) < prog (wu_op e) \<and> unat (wu_rdy_bit e) < unat (po_num_srcs op) \<and>
      sr_op (po_src_info op ! unat (wu_rdy_bit e)) = q \<and> sr_type (po_src_info op ! unat (wu_rdy_bit e)) = wu_dep_type e \<and>
      sr_unique_num (po_src_info op ! unat (wu_rdy_bit e)) = po_unique_num src"
  using assms unfolding wake_inv_def entries_ok_def by blast+

lemma view_get:
  assumes "view s q = Some op"
  obtains o' where "get_op q s = Some o'" "core o' = op"
  using assms by (auto simp: view_def)

context waking begin

lemma wake_one_ok:
  assumes inv: "wake_inv v prog c u" and cl: "cleared C v (view s)" and q: "v q = Some src" "po_valid src"
    and e: "e \<in> set (po_wake_up_list src)"
  shows "\<exists>s'. wake_up_one q t act e s = Some s' \<and> cleared (C \<union> target v t e) v (view s') \<and> calm s s'"
proof (cases "wu_dep_type e = t")
  case False
  then show ?thesis using cl by (simp add: wake_up_one_def target_def)
next
  case True
  let ?d = "wu_op e" and ?b = "wu_rdy_bit e"
  obtain dop where dop: "v ?d = Some dop" using wake_entryD(1) [OF inv q(1) e] by auto
  obtain w where w: "view s ?d = Some (dop\<lparr>po_srcs_not_rdy_vector := w\<rparr>)" using clearedD [OF cl dop] by blast
  obtain d' where d': "get_op ?d s = Some d'" "core d' = dop\<lparr>po_srcs_not_rdy_vector := w\<rparr>" by (rule view_get [OF w])
  obtain wq where "view s q = Some (src\<lparr>po_srcs_not_rdy_vector := wq\<rparr>)" using clearedD [OF cl q(1)] by blast
  then obtain q' where q': "get_op q s = Some q'" "core q' = src\<lparr>po_srcs_not_rdy_vector := wq\<rparr>" by (rule view_get)
  have f: "po_valid d' = po_valid dop" "po_unique_num d' = po_unique_num dop" "po_proc_id d' = po_proc_id dop"
    "po_num_srcs d' = po_num_srcs dop" "po_srcs_not_rdy_vector d' = w" "po_proc_id q' = po_proc_id src"
    using arg_cong [OF d'(2), of po_valid] arg_cong [OF d'(2), of po_unique_num] arg_cong [OF d'(2), of po_proc_id]
      arg_cong [OF d'(2), of po_num_srcs] arg_cong [OF d'(2), of po_srcs_not_rdy_vector] arg_cong [OF q'(2), of po_proc_id] by simp_all
  show ?thesis
  proof (cases "po_unique_num dop = wu_unique_num e \<and> po_valid dop")
    case False
    then show ?thesis using True dop d'(1) q'(1) f cl by (auto simp: wake_up_one_def target_def)
  next
    case live: True
    have b: "unat ?b < unat (po_num_srcs dop)" "unat ?b < 32"
      using wake_entryD(2) [OF inv q(1) e dop] wake_invD(4) [OF inv dop] live by auto
    have ids: "po_proc_id dop = c" "po_proc_id src = c" "?d \<noteq> invalid_op" "q \<noteq> invalid_op"
      using wake_invD(1,2) [OF inv dop] wake_invD(1,2) [OF inv q] live by auto
    have t: "target v t e = {(?d, unat ?b)}" using True dop live by (simp add: target_def)
    have "rdy_bit_ok d' (ucast ?b)" using b f unfolding rdy_bit_ok_def word_less_nat_alt unat_rdy_bit(3) by simp
    then have test: "test_not_rdy_bit ?d (ucast ?b) s = Some (bit w (unat ?b))"
      using d'(1) f(5) bit_tested [OF b(2), of w] by (simp add: test_not_rdy_bit_def unat_rdy_bit(3))
    have one: "wake_up_one q t act e s = (if bit w (unat ?b)
        then do { s \<leftarrow> clear_not_rdy_bit ?d (ucast ?b) s; act q ?d ?b s } else Some s)"
      using True q'(1) d'(1) f live ids test by (simp add: wake_up_one_def)
    show ?thesis
    proof (cases "bit w (unat ?b)")
      case False
      then have "cleared (insert (?d, unat ?b) C) v (view s)" by (intro cleared_insert_absent [OF cl w]) simp
      then show ?thesis using one False t by simp
    next
      case True
      obtain s1 where s1: "clear_not_rdy_bit ?d (ucast ?b) s = Some s1" "cleared (insert (?d, unat ?b) C) v (view s1)" "calm s s1"
        using clear_bit_ok [OF cl dop, of "ucast ?b"] b calm_ops unfolding unat_rdy_bit(3) by blast
      obtain wd where "view s1 ?d = Some (dop\<lparr>po_srcs_not_rdy_vector := wd\<rparr>)" using clearedD [OF s1(2) dop] by blast
      then obtain d1 where d1: "get_op ?d s1 = Some d1" "core d1 = dop\<lparr>po_srcs_not_rdy_vector := wd\<rparr>" by (rule view_get)
      obtain wq where "view s1 q = Some (src\<lparr>po_srcs_not_rdy_vector := wq\<rparr>)" using clearedD [OF s1(2) q(1)] by blast
      then obtain q1 where q1: "get_op q s1 = Some q1" "core q1 = src\<lparr>po_srcs_not_rdy_vector := wq\<rparr>" by (rule view_get)
      have "po_proc_id d1 = c" "po_proc_id q1 = c" using arg_cong [OF d1(2), of po_proc_id] arg_cong [OF q1(2), of po_proc_id] ids by simp_all
      then obtain s2 where s2: "act q ?d ?b s1 = Some s2" using act_total [OF q1(1) d1(1)] ids by blast
      note qt = act_quiet [OF s2]
      show ?thesis using one True s1 s2 t quiet_calm [OF qt] calm_trans [OF s1(3)] by auto
    qed
  qed
qed

lemma wake_list_ok:
  assumes inv: "wake_inv v prog c u" and q: "v q = Some src" "po_valid src"
  shows "set es \<subseteq> set (po_wake_up_list src) \<Longrightarrow> cleared C v (view s) \<Longrightarrow>
    \<exists>s'. loop (wake_up_one q t act) es s = Some s' \<and> cleared (C \<union> (\<Union>e \<in> set es. target v t e)) v (view s') \<and> calm s s'"
proof (induction es arbitrary: C s)
  case (Cons e es)
  then obtain s1 where s1: "wake_up_one q t act e s = Some s1" "cleared (C \<union> target v t e) v (view s1)" "calm s s1"
    using wake_one_ok [OF inv Cons.prems(2) q, of e t] by auto
  obtain s2 where s2: "loop (wake_up_one q t act) es s1 = Some s2"
    "cleared ((C \<union> target v t e) \<union> (\<Union>e \<in> set es. target v t e)) v (view s2)" "calm s1 s2"
    using Cons.IH [OF _ s1(2)] Cons.prems(1) by auto
  have "(C \<union> target v t e) \<union> (\<Union>e \<in> set es. target v t e) = C \<union> (\<Union>e \<in> set (e # es). target v t e)" by auto
  then show ?case using s1(1) s2 calm_trans [OF s1(3) s2(3)] by (intro exI [of _ s2]) simp
qed simp

end

definition signalled :: "opp \<Rightarrow> Dep_Type \<Rightarrow> (opp \<times> nat) set \<Rightarrow> op_view \<Rightarrow> op_view \<Rightarrow> bool" where
  "signalled q t C v v' \<longleftrightarrow> (\<forall>d. (v' d = None \<longleftrightarrow> v d = None) \<and> (\<forall>op. v d = Some op \<longrightarrow>
     (\<exists>w. v' d = Some (op\<lparr>po_srcs_not_rdy_vector := w,
          po_wake_up_signaled := (if d = q then insert t (po_wake_up_signaled op) else po_wake_up_signaled op)\<rparr>) \<and>
        (\<forall>i. bit w i \<longleftrightarrow> bit (po_srcs_not_rdy_vector op) i \<and> (d, i) \<notin> C))))"

lemma signalled_fwd:
  assumes "signalled q t C v v'" "v d = Some op"
  obtains w where "v' d = Some (op\<lparr>po_srcs_not_rdy_vector := w,
          po_wake_up_signaled := (if d = q then insert t (po_wake_up_signaled op) else po_wake_up_signaled op)\<rparr>)"
    "\<And>i. bit w i \<longleftrightarrow> bit (po_srcs_not_rdy_vector op) i \<and> (d, i) \<notin> C"
  using assms unfolding signalled_def by blast

lemma signalled_back:
  assumes "signalled q t C v v'" "v' d = Some op'"
  obtains op w where "v d = Some op" "op' = op\<lparr>po_srcs_not_rdy_vector := w,
          po_wake_up_signaled := (if d = q then insert t (po_wake_up_signaled op) else po_wake_up_signaled op)\<rparr>"
    "\<And>i. bit w i \<longleftrightarrow> bit (po_srcs_not_rdy_vector op) i \<and> (d, i) \<notin> C"
proof -
  have "v' d = None \<longleftrightarrow> v d = None" using assms(1) unfolding signalled_def by blast
  then obtain op where op: "v d = Some op" using assms(2) by (cases "v d") auto
  from signalled_fwd [OF assms(1) op] show ?thesis using that [OF op] assms(2) by auto
qed

lemma signalled_pending:
  assumes "signalled q t C v v'"
  shows "pending v' r \<longleftrightarrow> pending v r \<and> \<not> (sr_op r = q \<and> sr_type r = t)"
proof
  assume "pending v' r"
  then obtain o' where o': "v' (sr_op r) = Some o'" "po_valid o'" "po_unique_num o' = sr_unique_num r" "sr_type r \<notin> po_wake_up_signaled o'"
    unfolding pending_def by blast
  from signalled_back [OF assms o'(1)] obtain op w where "v (sr_op r) = Some op" "o' = op\<lparr>po_srcs_not_rdy_vector := w,
     po_wake_up_signaled := (if sr_op r = q then insert t (po_wake_up_signaled op) else po_wake_up_signaled op)\<rparr>" by blast
  then show "pending v r \<and> \<not> (sr_op r = q \<and> sr_type r = t)" using o'(2-4) by (auto simp: pending_def split: if_splits)
next
  assume p: "pending v r \<and> \<not> (sr_op r = q \<and> sr_type r = t)"
  then obtain op where op: "v (sr_op r) = Some op" "po_valid op" "po_unique_num op = sr_unique_num r" "sr_type r \<notin> po_wake_up_signaled op"
    unfolding pending_def by blast
  from signalled_fwd [OF assms op(1)] obtain w where "v' (sr_op r) = Some (op\<lparr>po_srcs_not_rdy_vector := w,
     po_wake_up_signaled := (if sr_op r = q then insert t (po_wake_up_signaled op) else po_wake_up_signaled op)\<rparr>)" by blast
  then show "pending v' r" using op(2-4) p by (auto simp: pending_def)
qed

lemma signalled_hit:
  assumes inv: "wake_inv v prog c u" and q: "v q = Some src" "po_valid src"
    and d: "v d = Some op" "po_valid op" "i < prog d" "i < unat (po_num_srcs op)" "bit (po_srcs_not_rdy_vector op) i"
  shows "(d, i) \<in> (\<Union>e \<in> set (po_wake_up_list src). target v t e) \<longleftrightarrow>
    sr_op (po_src_info op ! i) = q \<and> sr_type (po_src_info op ! i) = t \<and> pending v (po_src_info op ! i)" (is "_ \<in> ?C \<longleftrightarrow> _")
proof
  assume "(d, i) \<in> ?C"
  then obtain e where e: "e \<in> set (po_wake_up_list src)" "wu_dep_type e = t" "d = wu_op e" "i = unat (wu_rdy_bit e)"
    "\<exists>op. v (wu_op e) = Some op \<and> po_valid op \<and> po_unique_num op = wu_unique_num e" by (auto simp: target_def split: if_splits)
  then have "po_unique_num op = wu_unique_num e" "v (wu_op e) = Some op" using d(1) by auto
  from wake_entryD(2) [OF inv q(1) e(1) this(2) d(2) this(1)]
  have "sr_op (po_src_info op ! i) = q" "sr_type (po_src_info op ! i) = t" using e by simp_all
  moreover have "pending v (po_src_info op ! i)" using inv d unfolding wake_inv_def bits_ok_def by metis
  ultimately show "sr_op (po_src_info op ! i) = q \<and> sr_type (po_src_info op ! i) = t \<and> pending v (po_src_info op ! i)" by blast
next
  assume a: "sr_op (po_src_info op ! i) = q \<and> sr_type (po_src_info op ! i) = t \<and> pending v (po_src_info op ! i)"
  then have "listed v d op i" using inv d unfolding wake_inv_def bits_ok_def by metis
  then have e: "\<lparr>wu_op = d, wu_unique_num = po_unique_num op, wu_dep_type = t, wu_rdy_bit = of_nat i\<rparr> \<in> set (po_wake_up_list src)"
    using a q(1) by (simp add: listed_def)
  have "i < 32" using wake_invD(4) [OF inv d(1,2)] d(4) by simp
  then show "(d, i) \<in> ?C" using e d(1,2) by (intro UN_I [OF e]) (simp add: target_def unat_rdy_bit)
qed

lemma signalled_lists:
  assumes s: "signalled q t C v v'"
  shows "map_option po_wake_up_list (v' p) = map_option po_wake_up_list (v p)"
proof (cases "v p")
  case None
  then show ?thesis using s unfolding signalled_def by simp
next
  case (Some op)
  obtain w where "v' p = Some (op\<lparr>po_srcs_not_rdy_vector := w,
    po_wake_up_signaled := (if p = q then insert t (po_wake_up_signaled op) else po_wake_up_signaled op)\<rparr>)"
    using signalled_fwd [OF s Some] by blast
  then show ?thesis using Some by simp
qed

lemma signalled_bits:
  assumes inv: "wake_inv v prog c u" and q: "v q = Some src" "po_valid src"
    and s: "signalled q t (\<Union>e \<in> set (po_wake_up_list src). target v t e) v v'"
  shows "bits_ok v' prog"
  unfolding bits_ok_def
proof (intro allI impI; elim conjE)
  fix d op' i assume d': "v' d = Some op'" "po_valid op'" and i': "i < unat (po_num_srcs op')"
  from signalled_back [OF s d'(1)] obtain op w where op: "v d = Some op" "op' = op\<lparr>po_srcs_not_rdy_vector := w,
     po_wake_up_signaled := (if d = q then insert t (po_wake_up_signaled op) else po_wake_up_signaled op)\<rparr>"
    "\<And>i. bit w i \<longleftrightarrow> bit (po_srcs_not_rdy_vector op) i \<and> (d, i) \<notin> (\<Union>e \<in> set (po_wake_up_list src). target v t e)" by blast
  have f: "po_valid op" "i < unat (po_num_srcs op)" "po_src_info op' = po_src_info op" "po_srcs_not_rdy_vector op' = w"
    "po_unique_num op' = po_unique_num op" using d'(2) i' op(2) by simp_all
  have l: "listed v' d op' i \<longleftrightarrow> listed v d op i"
  proof -
    have "(\<exists>y. v' x = Some y \<and> Q (po_wake_up_list y)) \<longleftrightarrow> (\<exists>y. v x = Some y \<and> Q (po_wake_up_list y))" for x Q
      using signalled_lists [OF s, of x] by (cases "v' x"; cases "v x") auto
    then show ?thesis unfolding listed_def f(3,5) .
  qed
  have b: "if i < prog d then (bit (po_srcs_not_rdy_vector op) i \<longleftrightarrow> pending v (po_src_info op ! i)) \<and>
     (pending v (po_src_info op ! i) \<longrightarrow> listed v d op i) else bit (po_srcs_not_rdy_vector op) i"
    using inv op(1) f(1,2) unfolding wake_inv_def bits_ok_def by blast
  show "if i < prog d then (bit (po_srcs_not_rdy_vector op') i \<longleftrightarrow> pending v' (po_src_info op' ! i)) \<and>
     (pending v' (po_src_info op' ! i) \<longrightarrow> listed v' d op' i) else bit (po_srcs_not_rdy_vector op') i"
  proof (cases "i < prog d")
    case True
    then show ?thesis using b signalled_hit [where t = t, OF inv q op(1) f(1) True f(2)] op(3) [of i] signalled_pending [OF s] l unfolding f(3,4) by auto
  next
    case False
    have "(d, i) \<notin> (\<Union>e \<in> set (po_wake_up_list src). target v t e)"
    proof
      assume "(d, i) \<in> (\<Union>e \<in> set (po_wake_up_list src). target v t e)"
      then obtain e where "e \<in> set (po_wake_up_list src)" "d = wu_op e" "i = unat (wu_rdy_bit e)"
        "\<exists>op. v (wu_op e) = Some op \<and> po_valid op \<and> po_unique_num op = wu_unique_num e" by (auto simp: target_def split: if_splits)
      then show False using wake_entryD(2) [OF inv q(1)] False by blast
    qed
    then show ?thesis using False b op(3) [of i] f(4) by simp
  qed
qed

lemma signalled_entries:
  assumes inv: "wake_inv v prog c u" and q: "v q = Some src" "po_valid src"
    and s: "signalled q t (\<Union>e \<in> set (po_wake_up_list src). target v t e) v v'"
  shows "entries_ok v' prog"
  unfolding entries_ok_def
proof (intro allI impI; elim conjE)
  fix p src' e assume a: "v' p = Some src'" "e \<in> set (po_wake_up_list src')"
  from signalled_back [OF s a(1)] obtain so w where so: "v p = Some so" "src' = so\<lparr>po_srcs_not_rdy_vector := w,
     po_wake_up_signaled := (if p = q then insert t (po_wake_up_signaled so) else po_wake_up_signaled so)\<rparr>" by blast
  have e: "e \<in> set (po_wake_up_list so)" "po_unique_num src' = po_unique_num so" using a(2) so(2) by simp_all
  show "v' (wu_op e) \<noteq> None \<and> (\<forall>op. v' (wu_op e) = Some op \<and> po_valid op \<and> po_unique_num op = wu_unique_num e \<longrightarrow>
      unat (wu_rdy_bit e) < prog (wu_op e) \<and> unat (wu_rdy_bit e) < unat (po_num_srcs op) \<and>
      sr_op (po_src_info op ! unat (wu_rdy_bit e)) = p \<and> sr_type (po_src_info op ! unat (wu_rdy_bit e)) = wu_dep_type e \<and>
      sr_unique_num (po_src_info op ! unat (wu_rdy_bit e)) = po_unique_num src')"
  proof (intro conjI allI impI; (elim conjE)?)
    have "v' (wu_op e) = None \<longleftrightarrow> v (wu_op e) = None" using s unfolding signalled_def by blast
    then show "v' (wu_op e) \<noteq> None" using wake_entryD(1) [OF inv so(1) e(1)] by simp
    fix op' assume o': "v' (wu_op e) = Some op'" "po_valid op'" "po_unique_num op' = wu_unique_num e"
    from signalled_back [OF s o'(1)] obtain op w where op: "v (wu_op e) = Some op" "op' = op\<lparr>po_srcs_not_rdy_vector := w,
       po_wake_up_signaled := (if wu_op e = q then insert t (po_wake_up_signaled op) else po_wake_up_signaled op)\<rparr>" by blast
    have "po_valid op" "po_unique_num op = wu_unique_num e" using o'(2,3) op(2) by simp_all
    note x = wake_entryD(2) [OF inv so(1) e(1) op(1) this]
    show "unat (wu_rdy_bit e) < prog (wu_op e)" "unat (wu_rdy_bit e) < unat (po_num_srcs op')"
      "sr_op (po_src_info op' ! unat (wu_rdy_bit e)) = p" "sr_type (po_src_info op' ! unat (wu_rdy_bit e)) = wu_dep_type e"
      "sr_unique_num (po_src_info op' ! unat (wu_rdy_bit e)) = po_unique_num src'" using x op(2) e(2) by simp_all
  qed
qed

lemma signalled_uniques:
  assumes inv: "wake_inv v prog c u" and q: "v q = Some src" "po_valid src"
    and s: "signalled q t (\<Union>e \<in> set (po_wake_up_list src). target v t e) v v'"
  shows "uniques_ok v' c u"
proof -
  have none: "v' p = None \<longleftrightarrow> v p = None" for p using s unfolding signalled_def by blast
  have u: "uniques_ok v c u" using inv by (simp add: wake_inv_def)
  show ?thesis unfolding uniques_ok_def
  proof (intro conjI allI impI)
    show "v' invalid_op \<noteq> None" using u none by (simp add: uniques_ok_def)
    fix p op' assume "v' p = Some op'"
    from signalled_back [OF s this] obtain op w where op: "v p = Some op" "op' = op\<lparr>po_srcs_not_rdy_vector := w,
       po_wake_up_signaled := (if p = q then insert t (po_wake_up_signaled op) else po_wake_up_signaled op)\<rparr>" by blast
    have o: "(\<forall>e \<in> set (po_wake_up_list op). wu_unique_num e < u) \<and>
      (if po_valid op then p \<noteq> invalid_op \<and> po_proc_id op = c \<and> po_unique_num op < u \<and> unat (po_num_srcs op) \<le> 32 \<and>
        length (po_src_info op) = MAX_DEPS \<and>
        (\<forall>i < unat (po_num_srcs op). v (sr_op (po_src_info op ! i)) \<noteq> None \<and> sr_unique_num (po_src_info op ! i) < po_unique_num op)
      else po_wake_up_list op = [])" using u op(1) unfolding uniques_ok_def by blast
    then show "\<forall>e \<in> set (po_wake_up_list op'). wu_unique_num e < u"
      "if po_valid op' then p \<noteq> invalid_op \<and> po_proc_id op' = c \<and> po_unique_num op' < u \<and> unat (po_num_srcs op') \<le> 32 \<and>
        length (po_src_info op') = MAX_DEPS \<and>
        (\<forall>i < unat (po_num_srcs op'). v' (sr_op (po_src_info op' ! i)) \<noteq> None \<and> sr_unique_num (po_src_info op' ! i) < po_unique_num op')
      else po_wake_up_list op' = []" using op(2) none by (simp_all only: none) (simp_all split: if_splits)
  qed
qed

lemma signal_inv:
  assumes inv: "wake_inv v prog c u" and q: "v q = Some src" "po_valid src"
    and s: "signalled q t (\<Union>e \<in> set (po_wake_up_list src). target v t e) v v'"
  shows "wake_inv v' prog c u"
  using signalled_bits [OF assms] signalled_entries [OF assms] signalled_uniques [OF assms] by (simp add: wake_inv_def)

context waking begin

lemma wake_up_ops_ok:
  assumes inv: "wake_inv (view s) prog c u" and q: "get_op q s = Some src" "po_valid src" "t \<notin> po_wake_up_signaled src \<or> po_replay src"
  shows "\<exists>s' C. wake_up_ops q t act s = Some s' \<and> wake_inv (view s') prog c u \<and> calm s s' \<and> signalled q t C (view s) (view s')"
proof -
  have v: "view s q = Some (core src)" using q(1) by (simp add: view_def)
  let ?C = "\<Union>e \<in> set (po_wake_up_list (core src)). target (view s) t e" and ?f = "\<lambda>op. op\<lparr>po_wake_up_signaled := insert t (po_wake_up_signaled op)\<rparr>"
  obtain s1 where s1: "loop (wake_up_one q t act) (po_wake_up_list src) s = Some s1" "cleared ?C (view s) (view s1)" "calm s s1"
    using wake_list_ok [OF inv v, of "po_wake_up_list src" "{}" s t] q(2) cleared_refl by auto
  let ?s' = "upd_op q ?f s1"
  have "signalled q t ?C (view s) (view ?s')" unfolding signalled_def
  proof (intro allI conjI impI)
    fix d show "view ?s' d = None \<longleftrightarrow> view s d = None" using cleared_None [OF s1(2), of d] by (auto simp: view_upd view_def)
    fix op assume d: "view s d = Some op"
    obtain w where w: "view s1 d = Some (op\<lparr>po_srcs_not_rdy_vector := w\<rparr>)"
      "\<And>i. bit w i \<longleftrightarrow> bit (po_srcs_not_rdy_vector op) i \<and> (d, i) \<notin> ?C" using clearedD [OF s1(2) d] by blast
    obtain d' where d': "get_op d s1 = Some d'" "core d' = op\<lparr>po_srcs_not_rdy_vector := w\<rparr>" by (rule view_get [OF w(1)])
    have "core (?f d') = (core d')\<lparr>po_wake_up_signaled := insert t (po_wake_up_signaled (core d'))\<rparr>" by (simp add: core_def)
    then have "view ?s' d = Some (op\<lparr>po_srcs_not_rdy_vector := w,
          po_wake_up_signaled := (if d = q then insert t (po_wake_up_signaled op) else po_wake_up_signaled op)\<rparr>)"
      using w(1) d' by (auto simp: view_upd)
    with w(2) show "\<exists>w. view ?s' d = Some (op\<lparr>po_srcs_not_rdy_vector := w,
          po_wake_up_signaled := (if d = q then insert t (po_wake_up_signaled op) else po_wake_up_signaled op)\<rparr>) \<and>
        (\<forall>i. bit w i \<longleftrightarrow> bit (po_srcs_not_rdy_vector op) i \<and> (d, i) \<notin> ?C)" by blast
  qed
  moreover have "wake_up_ops q t act s = Some ?s'" using q s1(1) by (simp add: wake_up_ops_def)
  moreover have "calm s ?s'" using calm_trans [OF s1(3) calm_ops [of ?s' s1]] by (simp add: upd_op_def)
  ultimately show ?thesis using signal_inv [OF inv v] q(2) by auto
qed

end

section \<open>Entering the lists\<close>

definition wake_entry :: "opp \<Rightarrow> Pool_Op \<Rightarrow> nat \<Rightarrow> Wake_Up_Entry" where
  "wake_entry p op i = \<lparr>wu_op = p, wu_unique_num = po_unique_num op, wu_dep_type = sr_type (po_src_info op ! i), wu_rdy_bit = of_nat i\<rparr>"

text \<open>The entry is appended to the list of the source, and the bit is cleared if the source has signalled.\<close>

definition linked :: "opp \<Rightarrow> nat \<Rightarrow> op_view \<Rightarrow> op_view \<Rightarrow> bool" where
  "linked p i v v' \<longleftrightarrow> (\<exists>op so w n. v p = Some op \<and> v (sr_op (po_src_info op ! i)) = Some so \<and> sr_op (po_src_info op ! i) \<noteq> p \<and>
     n = (if po_wake_up_list so = [] then 1 else po_wake_up_count so + 1) \<and>
     (\<forall>j. bit w j \<longleftrightarrow> bit (po_srcs_not_rdy_vector op) j \<and> (j = i \<longrightarrow> sr_type (po_src_info op ! i) \<notin> po_wake_up_signaled so)) \<and>
     v' = v(sr_op (po_src_info op ! i) := Some (so\<lparr>po_wake_up_list := po_wake_up_list so @ [wake_entry p op i], po_wake_up_count := n\<rparr>),
            p := Some (op\<lparr>po_srcs_not_rdy_vector := w\<rparr>)))"

definition unlinked :: "opp \<Rightarrow> nat \<Rightarrow> op_view \<Rightarrow> op_view \<Rightarrow> bool" where
  "unlinked p i v v' \<longleftrightarrow> (\<exists>op w. v p = Some op \<and> (\<forall>j. bit w j \<longleftrightarrow> bit (po_srcs_not_rdy_vector op) j \<and> j \<noteq> i) \<and>
     v' = v(p := Some (op\<lparr>po_srcs_not_rdy_vector := w, po_src_info := (po_src_info op)[i := (po_src_info op ! i)\<lparr>sr_op := invalid_op\<rparr>]\<rparr>)))"

text \<open>Views in which the ops are the same but for their bits and lists.\<close>

definition same_srcs :: "op_view \<Rightarrow> op_view \<Rightarrow> bool" where
  "same_srcs v v' \<longleftrightarrow> (\<forall>q. (v' q = None \<longleftrightarrow> v q = None) \<and> (\<forall>op op'. v q = Some op \<longrightarrow> v' q = Some op' \<longrightarrow>
     po_valid op' = po_valid op \<and> po_unique_num op' = po_unique_num op \<and> po_wake_up_signaled op' = po_wake_up_signaled op \<and>
     po_num_srcs op' = po_num_srcs op \<and> po_proc_id op' = po_proc_id op \<and> set (po_wake_up_list op) \<subseteq> set (po_wake_up_list op')))"

lemma same_srcsE:
  assumes "same_srcs v v'" "v q = Some op"
  obtains op' where "v' q = Some op'" "po_valid op' = po_valid op" "po_unique_num op' = po_unique_num op"
    "po_wake_up_signaled op' = po_wake_up_signaled op" "po_num_srcs op' = po_num_srcs op" "po_proc_id op' = po_proc_id op"
    "set (po_wake_up_list op) \<subseteq> set (po_wake_up_list op')"
proof -
  have "v' q \<noteq> None" using assms unfolding same_srcs_def by (metis option.distinct(1))
  then obtain op' where "v' q = Some op'" by blast
  then show ?thesis using assms that unfolding same_srcs_def by meson
qed

lemma same_srcs_None: "same_srcs v v' \<Longrightarrow> v' q = None \<longleftrightarrow> v q = None"
  by (simp add: same_srcs_def)

lemma same_srcs_pending:
  assumes "same_srcs v v'"
  shows "pending v' r = pending v r"
proof (cases "v (sr_op r)")
  case None
  then show ?thesis using same_srcs_None [OF assms, of "sr_op r"] by (simp add: pending_def)
next
  case (Some op)
  from same_srcsE [OF assms Some] obtain op' where "v' (sr_op r) = Some op'" "po_valid op' = po_valid op"
    "po_unique_num op' = po_unique_num op" "po_wake_up_signaled op' = po_wake_up_signaled op" by blast
  then show ?thesis using Some by (simp add: pending_def)
qed

lemma same_srcs_listed:
  assumes "same_srcs v v'" "listed v d op i" "po_src_info op' ! i = po_src_info op ! i" "po_unique_num op' = po_unique_num op"
  shows "listed v' d op' i"
proof -
  obtain src where src: "v (sr_op (po_src_info op ! i)) = Some src"
    "\<lparr>wu_op = d, wu_unique_num = po_unique_num op, wu_dep_type = sr_type (po_src_info op ! i), wu_rdy_bit = of_nat i\<rparr>
       \<in> set (po_wake_up_list src)" using assms(2) unfolding listed_def by blast
  from same_srcsE [OF assms(1) src(1)] obtain src' where "v' (sr_op (po_src_info op ! i)) = Some src'"
    "set (po_wake_up_list src) \<subseteq> set (po_wake_up_list src')" by blast
  then show ?thesis using src(2) assms(3,4) unfolding listed_def by auto
qed

lemma linked_same: "linked p i v v' \<Longrightarrow> same_srcs v v'"
  unfolding linked_def same_srcs_def by (elim exE conjE) auto

lemma unlinked_same: "unlinked p i v v' \<Longrightarrow> same_srcs v v'"
  unfolding unlinked_def same_srcs_def by (elim exE conjE) auto

end
