(* ===== verification/Op_Schedule.thy ===== *)
theory Op_Schedule
  imports Op_Wake Op_Recover
begin

text \<open>
  Entering an op into the wake-up lists of its sources, one source after the other.
\<close>

section \<open>One source\<close>

lemma bits_step:
  assumes inv: "wake_inv v prog c u" and s: "same_srcs v v'" and p: "v p = Some op" "po_valid op" "prog p = i"
    and other: "\<And>q op'. q \<noteq> p \<Longrightarrow> v' q = Some op' \<Longrightarrow> \<exists>o2. v q = Some o2 \<and> po_src_info op' = po_src_info o2 \<and>
      po_srcs_not_rdy_vector op' = po_srcs_not_rdy_vector o2"
    and new: "v' p = Some op'" "\<And>j. j \<noteq> i \<Longrightarrow> po_src_info op' ! j = po_src_info op ! j"
      "\<And>j. j \<noteq> i \<Longrightarrow> bit (po_srcs_not_rdy_vector op') j = bit (po_srcs_not_rdy_vector op) j"
      "(bit (po_srcs_not_rdy_vector op') i \<longleftrightarrow> pending v (po_src_info op' ! i)) \<and> (pending v (po_src_info op' ! i) \<longrightarrow> listed v' p op' i)"
  shows "bits_ok v' (prog(p := Suc i))"
  unfolding bits_ok_def
proof (intro allI impI; elim conjE)
  fix d d' j assume d': "v' d = Some d'" "po_valid d'" and j: "j < unat (po_num_srcs d')"
  have "v d \<noteq> None" using d'(1) same_srcs_None [OF s, of d] by simp
  then obtain dop where dop: "v d = Some dop" by blast
  then have f: "po_valid dop = po_valid d'" "po_unique_num d' = po_unique_num dop" "po_num_srcs d' = po_num_srcs dop"
    using same_srcsE [OF s dop] d'(1) by auto
  have b: "if j < prog d then (bit (po_srcs_not_rdy_vector dop) j \<longleftrightarrow> pending v (po_src_info dop ! j)) \<and>
       (pending v (po_src_info dop ! j) \<longrightarrow> listed v d dop j) else bit (po_srcs_not_rdy_vector dop) j"
    using inv dop f d'(2) j unfolding wake_inv_def bits_ok_def by (metis (no_types, lifting))
  note pend = same_srcs_pending [OF s]
  show "if j < (prog(p := Suc i)) d then (bit (po_srcs_not_rdy_vector d') j \<longleftrightarrow> pending v' (po_src_info d' ! j)) \<and>
       (pending v' (po_src_info d' ! j) \<longrightarrow> listed v' d d' j) else bit (po_srcs_not_rdy_vector d') j"
  proof (cases "d = p \<and> j = i")
    case True
    then show ?thesis using new(1,4) d'(1) pend by simp
  next
    case False
    have "po_src_info d' ! j = po_src_info dop ! j \<and> bit (po_srcs_not_rdy_vector d') j = bit (po_srcs_not_rdy_vector dop) j"
    proof (cases "d = p")
      case True
      then have "d' = op'" "dop = op" "j \<noteq> i" using False new(1) d'(1) dop p(1) by simp_all
      then show ?thesis using new(2,3) by simp
    next
      case d: False
      then show ?thesis using other [OF d d'(1)] dop by auto
    qed
    then have e: "po_src_info d' ! j = po_src_info dop ! j" "bit (po_srcs_not_rdy_vector d') j = bit (po_srcs_not_rdy_vector dop) j"
      by blast+
    have "listed v d dop j \<Longrightarrow> listed v' d d' j" by (rule same_srcs_listed [OF s _ e(1) f(2)])
    moreover have "j < (prog(p := Suc i)) d \<longleftrightarrow> j < prog d" using False p(3) by (auto simp: less_Suc_eq)
    ultimately show ?thesis using b e pend by (auto split: if_splits)
  qed
qed

lemma link_inv:
  assumes inv: "wake_inv v prog c u" and l: "linked p i v v'" and p: "v p = Some op" "po_valid op" "prog p = i" "i < unat (po_num_srcs op)"
    and live: "live v (po_src_info op ! i)"
  shows "wake_inv v' (prog(p := Suc i)) c u"
proof -
  let ?r = "po_src_info op ! i" and ?q = "sr_op (po_src_info op ! i)"
  obtain so w n where so: "v ?q = Some so" "?q \<noteq> p"
    "\<And>j. bit w j \<longleftrightarrow> bit (po_srcs_not_rdy_vector op) j \<and> (j = i \<longrightarrow> sr_type ?r \<notin> po_wake_up_signaled so)"
    and v': "v' = v(?q := Some (so\<lparr>po_wake_up_list := po_wake_up_list so @ [wake_entry p op i], po_wake_up_count := n\<rparr>),
            p := Some (op\<lparr>po_srcs_not_rdy_vector := w\<rparr>))"
    using l p(1) unfolding linked_def by auto
  let ?op' = "op\<lparr>po_srcs_not_rdy_vector := w\<rparr>"
  have s: "same_srcs v v'" by (rule linked_same [OF l])
  have val: "po_valid so" "po_unique_num so = sr_unique_num ?r" using live so(1) by (auto simp: live_def)
  have i32: "i < 32" using wake_invD(4) [OF inv p(1,2)] p(4) by simp
  have pend: "pending v ?r \<longleftrightarrow> sr_type ?r \<notin> po_wake_up_signaled so" using so(1) val by (auto simp: pending_def)
  have vp: "v' p = Some ?op'" by (simp add: v')
  have bit_i: "bit (po_srcs_not_rdy_vector op) i" using inv p unfolding wake_inv_def bits_ok_def by (metis less_irrefl)
  have "bits_ok v' (prog(p := Suc i))"
  proof (rule bits_step [OF inv s p(1-3) _ vp])
    show "\<exists>o2. v q = Some o2 \<and> po_src_info op' = po_src_info o2 \<and> po_srcs_not_rdy_vector op' = po_srcs_not_rdy_vector o2"
      if "q \<noteq> p" "v' q = Some op'" for q op' using that so(1) by (auto simp: v' split: if_splits)
    show "(bit (po_srcs_not_rdy_vector ?op') i \<longleftrightarrow> pending v (po_src_info ?op' ! i)) \<and>
        (pending v (po_src_info ?op' ! i) \<longrightarrow> listed v' p ?op' i)"
      using so(2,3) pend bit_i by (auto simp: listed_def v' wake_entry_def)
  qed (use so(3) in auto)
  moreover have "entries_ok v' (prog(p := Suc i))" unfolding entries_ok_def
  proof (intro allI impI; elim conjE)
    fix q src e assume src: "v' q = Some src" "e \<in> set (po_wake_up_list src)"
    then obtain src0 where src0: "v q = Some src0" "po_unique_num src = po_unique_num src0" "e \<in> set (po_wake_up_list src0) \<or> q = ?q \<and> e = wake_entry p op i"
      using so p(1) by (auto simp: v' split: if_splits)
    show "v' (wu_op e) \<noteq> None \<and> (\<forall>d. v' (wu_op e) = Some d \<and> po_valid d \<and> po_unique_num d = wu_unique_num e \<longrightarrow>
        unat (wu_rdy_bit e) < (prog(p := Suc i)) (wu_op e) \<and> unat (wu_rdy_bit e) < unat (po_num_srcs d) \<and>
        sr_op (po_src_info d ! unat (wu_rdy_bit e)) = q \<and> sr_type (po_src_info d ! unat (wu_rdy_bit e)) = wu_dep_type e \<and>
        sr_unique_num (po_src_info d ! unat (wu_rdy_bit e)) = po_unique_num src)"
    proof (cases "e \<in> set (po_wake_up_list src0)")
      case True
      note old = wake_entryD [OF inv src0(1) True]
      have bk: "\<exists>d0. v (wu_op e) = Some d0 \<and> po_valid d0 = po_valid d \<and> po_unique_num d0 = po_unique_num d \<and>
          po_num_srcs d0 = po_num_srcs d \<and> po_src_info d0 = po_src_info d" if "v' (wu_op e) = Some d" for d
        using that so(1) p(1) by (auto simp: v' split: if_splits)
      have "unat (wu_rdy_bit e) < (prog(p := Suc i)) (wu_op e)" if "unat (wu_rdy_bit e) < prog (wu_op e)" using that p(3) by auto
      then show ?thesis using old(1) same_srcs_None [OF s, of "wu_op e"] old(2) bk src0(2) by (metis (no_types, lifting))
    next
      case False
      then have e: "q = ?q" "e = wake_entry p op i" using src0(3) by simp_all
      then have "po_unique_num src = sr_unique_num ?r" using src0(1,2) so(1) val by simp
      then show ?thesis using vp p(4) e i32 by (simp add: wake_entry_def unat_rdy_bit)
    qed
  qed
  moreover have "uniques_ok v' c u"
  proof -
    have u: "uniques_ok v c u" using inv by (simp add: wake_inv_def)
    have "wu_unique_num (wake_entry p op i) < u" using wake_invD(3) [OF inv p(1,2)] by (simp add: wake_entry_def)
    then show ?thesis using u val(1) so(1,2) p(1,2) same_srcs_None [OF s] unfolding uniques_ok_def by (auto simp: v' split: if_splits)
  qed
  ultimately show ?thesis by (simp add: wake_inv_def)
qed

lemma unlink_inv:
  assumes inv: "wake_inv v prog c u" and l: "unlinked p i v v'" and p: "v p = Some op" "po_valid op" "prog p = i" "i < unat (po_num_srcs op)"
  shows "wake_inv v' (prog(p := Suc i)) c u"
proof -
  obtain w where w: "\<And>j. bit w j \<longleftrightarrow> bit (po_srcs_not_rdy_vector op) j \<and> j \<noteq> i"
    and v': "v' = v(p := Some (op\<lparr>po_srcs_not_rdy_vector := w, po_src_info := (po_src_info op)[i := (po_src_info op ! i)\<lparr>sr_op := invalid_op\<rparr>]\<rparr>))"
    using l p(1) unfolding unlinked_def by auto
  let ?op' = "op\<lparr>po_srcs_not_rdy_vector := w, po_src_info := (po_src_info op)[i := (po_src_info op ! i)\<lparr>sr_op := invalid_op\<rparr>]\<rparr>"
  have s: "same_srcs v v'" by (rule unlinked_same [OF l])
  have i: "i < length (po_src_info op)" using wake_invD(4,5) [OF inv p(1,2)] p(4) by (simp add: MAX_DEPS_def)
  have vp: "v' p = Some ?op'" by (simp add: v')
  have "bits_ok v' (prog(p := Suc i))"
  proof (rule bits_step [OF inv s p(1-3) _ vp])
    show "\<exists>o2. v q = Some o2 \<and> po_src_info op' = po_src_info o2 \<and> po_srcs_not_rdy_vector op' = po_srcs_not_rdy_vector o2"
      if "q \<noteq> p" "v' q = Some op'" for q op' using that by (simp add: v')
    have "\<not> pending v (po_src_info ?op' ! i)"
      using wake_invD(1) [OF inv, of invalid_op] i by (auto simp: pending_def)
    then show "(bit (po_srcs_not_rdy_vector ?op') i \<longleftrightarrow> pending v (po_src_info ?op' ! i)) \<and>
        (pending v (po_src_info ?op' ! i) \<longrightarrow> listed v' p ?op' i)" using w [of i] by simp
  qed (use w in auto)
  moreover have "entries_ok v' (prog(p := Suc i))" unfolding entries_ok_def
  proof (intro allI impI; elim conjE)
    fix q src e assume src: "v' q = Some src" "e \<in> set (po_wake_up_list src)"
    then obtain src0 where src0: "v q = Some src0" "po_unique_num src = po_unique_num src0" "e \<in> set (po_wake_up_list src0)"
      using p(1) by (auto simp: v' split: if_splits)
    note old = wake_entryD [OF inv src0(1,3)]
    show "v' (wu_op e) \<noteq> None \<and> (\<forall>d. v' (wu_op e) = Some d \<and> po_valid d \<and> po_unique_num d = wu_unique_num e \<longrightarrow>
        unat (wu_rdy_bit e) < (prog(p := Suc i)) (wu_op e) \<and> unat (wu_rdy_bit e) < unat (po_num_srcs d) \<and>
        sr_op (po_src_info d ! unat (wu_rdy_bit e)) = q \<and> sr_type (po_src_info d ! unat (wu_rdy_bit e)) = wu_dep_type e \<and>
        sr_unique_num (po_src_info d ! unat (wu_rdy_bit e)) = po_unique_num src)"
    proof (cases "wu_op e = p")
      case True
      then show ?thesis using old(2) [of op] p vp src0(2) by (auto simp: nth_list_update)
    next
      case False
      then show ?thesis using old src0(2) by (simp add: v')
    qed
  qed
  moreover have "uniques_ok v' c u"
    unfolding uniques_ok_def
  proof (intro conjI allI impI)
    have u: "uniques_ok v c u" using inv by (simp add: wake_inv_def)
    note none = same_srcs_None [OF s]
    show "v' invalid_op \<noteq> None" using u none by (simp add: uniques_ok_def)
    fix q op' assume q: "v' q = Some op'"
    have old: "(\<forall>e \<in> set (po_wake_up_list o1). wu_unique_num e < u) \<and>
        (if po_valid o1 then q \<noteq> invalid_op \<and> po_proc_id o1 = c \<and> po_unique_num o1 < u \<and> unat (po_num_srcs o1) \<le> 32 \<and>
          length (po_src_info o1) = MAX_DEPS \<and>
          (\<forall>i < unat (po_num_srcs o1). v (sr_op (po_src_info o1 ! i)) \<noteq> None \<and> sr_unique_num (po_src_info o1 ! i) < po_unique_num o1)
        else po_wake_up_list o1 = [])" if "v q = Some o1" for o1 using u that unfolding uniques_ok_def by blast
    have z: "v invalid_op \<noteq> None" using u by (simp add: uniques_ok_def)
    show "\<forall>e \<in> set (po_wake_up_list op'). wu_unique_num e < u"
      using old q p(1) by (cases "q = p") (auto simp: v')
    show "if po_valid op' then q \<noteq> invalid_op \<and> po_proc_id op' = c \<and> po_unique_num op' < u \<and> unat (po_num_srcs op') \<le> 32 \<and>
          length (po_src_info op') = MAX_DEPS \<and>
          (\<forall>i < unat (po_num_srcs op'). v' (sr_op (po_src_info op' ! i)) \<noteq> None \<and> sr_unique_num (po_src_info op' ! i) < po_unique_num op')
        else po_wake_up_list op' = []"
    proof (cases "q = p")
      case True
      then have "op' = ?op'" using q vp by simp
      then show ?thesis using old [of op] p True z none i by (auto simp: nth_list_update)
    next
      case False
      then have "v q = Some op'" using q by (simp add: v')
      then show ?thesis using old [of op'] none by simp
    qed
  qed
  ultimately show ?thesis by (simp add: wake_inv_def)
qed

section \<open>The entries of the lists\<close>

definition list_len :: "op_view \<Rightarrow> opp \<Rightarrow> nat" where
  "list_len v q = (case v q of None \<Rightarrow> 0 | Some op \<Rightarrow> length (po_wake_up_list op))"

definition wake_pool :: "Op_Machine \<Rightarrow> bool" where
  "wake_pool s \<longleftrightarrow> md_free_list (td_map_data s) + unat (md_active_wake_up_entries (td_map_data s)) = unat (md_wake_up_entries (td_map_data s)) \<and>
     unat (md_wake_up_entries (td_map_data s)) \<le> WAKE_UP_ENTRIES_INC * 128 \<and>
     unat (md_active_wake_up_entries (td_map_data s)) = (\<Sum>q < length (om_ops s). list_len (view s) q) \<and>
     (\<forall>q op. view s q = Some op \<and> po_wake_up_list op \<noteq> [] \<longrightarrow> unat (po_wake_up_count op) = length (po_wake_up_list op))"

lemma wake_pool_count:
  assumes "wake_pool s" "get_op q s = Some op" "po_wake_up_list op \<noteq> []"
  shows "unat (po_wake_up_count op) = length (po_wake_up_list op)"
proof -
  have "view s q = Some (core op)" "po_wake_up_list (core op) \<noteq> []" using assms(2,3) by (simp_all add: view_def)
  then have "unat (po_wake_up_count (core op)) = length (po_wake_up_list (core op))" using assms(1) unfolding wake_pool_def by blast
  then show ?thesis by simp
qed

lemma linked_len:
  assumes "linked p i v v'" "v p = Some op" "sr_op (po_src_info op ! i) < n"
  shows "(\<Sum>q < n. list_len v' q) = Suc (\<Sum>q < n. list_len v q)"
proof -
  let ?q = "sr_op (po_src_info op ! i)"
  have l: "list_len v' q = list_len v q + (if q = ?q then 1 else 0)" for q
    using assms(1,2) by (auto simp: linked_def list_len_def)
  have "(\<Sum>q < n. if q = ?q then 1 else 0 :: nat) = 1" using assms(3) by simp
  then show ?thesis by (simp only: l sum.distrib)
qed

lemma unlinked_len: "unlinked p i v v' \<Longrightarrow> list_len v' = list_len v"
  by (auto simp: unlinked_def list_len_def fun_eq_iff)

lemma take_entry_ok:
  assumes "md_free_list md + unat (md_active_wake_up_entries md) = unat (md_wake_up_entries md)"
    "unat (md_wake_up_entries md) \<le> WAKE_UP_ENTRIES_INC * 128" "unat (md_active_wake_up_entries md) \<le> WAKE_UP_ENTRIES_INC * 127"
  shows "\<exists>md'. take_wake_up_entry md = Some md' \<and> same_maps md md' \<and> md_oracle_mem_hash md' = md_oracle_mem_hash md \<and>
    md_free_list md' + unat (md_active_wake_up_entries md') = unat (md_wake_up_entries md') \<and>
    unat (md_wake_up_entries md') \<le> WAKE_UP_ENTRIES_INC * 128 \<and>
    unat (md_active_wake_up_entries md') = Suc (unat (md_active_wake_up_entries md))"
proof -
  have a: "unat (md_active_wake_up_entries md + 1) = Suc (unat (md_active_wake_up_entries md))"
    using assms(3) by (simp add: WAKE_UP_ENTRIES_INC_def unat_word_ariths)
  show ?thesis
  proof (cases "md_free_list md = 0")
    case True
    then have "md_active_wake_up_entries md = md_wake_up_entries md" using assms(1) by (simp add: word_unat_eq_iff)
    moreover have "unat (md_wake_up_entries md + 256) = unat (md_wake_up_entries md) + 256"
      using assms(1,3) True by (simp add: WAKE_UP_ENTRIES_INC_def unat_word_ariths)
    ultimately show ?thesis using assms True a
      by (simp add: take_wake_up_entry_def expand_wake_up_entries_def WAKE_UP_ENTRIES_INC_def same_maps_def)
  next
    case False
    then show ?thesis using assms a by (simp add: take_wake_up_entry_def same_maps_def)
  qed
qed

section \<open>What does not change\<close>

definition ident :: "Pool_Op \<Rightarrow> Pool_Op" where
  "ident op = op\<lparr>po_src_info := replicate (length (po_src_info op)) \<lparr>sr_type = REG_DATA_DEP, sr_op = 0, sr_op_num = 0, sr_unique_num = 0\<rparr>,
     po_srcs_not_rdy_vector := 0, po_wake_up_signaled := {}, po_wake_up_list := [], po_wake_up_count := 0\<rparr>"

definition kept :: "op_view \<Rightarrow> op_view \<Rightarrow> bool" where
  "kept v v' \<longleftrightarrow> (\<forall>q. map_option ident (v' q) = map_option ident (v q))"

definition steady :: "Op_Machine \<Rightarrow> Op_Machine \<Rightarrow> bool" where
  "steady s s' \<longleftrightarrow> s' = s\<lparr>om_ops := om_ops s', td_map_data := td_map_data s', rdy_head := rdy_head s'\<rparr> \<and>
     length (om_ops s') = length (om_ops s) \<and> same_maps (td_map_data s) (td_map_data s') \<and>
     md_oracle_mem_hash (td_map_data s') = md_oracle_mem_hash (td_map_data s) \<and> kept (view s) (view s')"

lemma kept_refl [simp]: "kept v v"
  by (simp add: kept_def)

lemma kept_trans: "kept v v1 \<Longrightarrow> kept v1 v2 \<Longrightarrow> kept v v2"
  by (simp add: kept_def)

lemma steady_refl [simp]: "steady s s"
  by (simp add: steady_def same_maps_def)

lemma steady_trans:
  assumes "steady s s1" "steady s1 s2"
  shows "steady s s2"
proof -
  have h: "s1 = s\<lparr>om_ops := om_ops s1, td_map_data := td_map_data s1, rdy_head := rdy_head s1\<rparr>" using assms(1) by (simp add: steady_def)
  have "s2 = s1\<lparr>om_ops := om_ops s2, td_map_data := td_map_data s2, rdy_head := rdy_head s2\<rparr>" using assms(2) by (simp add: steady_def)
  also have "\<dots> = s\<lparr>om_ops := om_ops s2, td_map_data := td_map_data s2, rdy_head := rdy_head s2\<rparr>" by (subst h) simp
  finally have "s2 = s\<lparr>om_ops := om_ops s2, td_map_data := td_map_data s2, rdy_head := rdy_head s2\<rparr>" .
  then show ?thesis using assms kept_trans unfolding steady_def same_maps_def by metis
qed

lemma steady_ops: "s' = s\<lparr>om_ops := om_ops s'\<rparr> \<Longrightarrow> s' = s\<lparr>om_ops := om_ops s', td_map_data := td_map_data s', rdy_head := rdy_head s'\<rparr>"
  by (cases s; cases s') simp

lemma linked_kept:
  assumes "linked p i v v'"
  shows "kept v v'"
proof -
  obtain op so w n where v: "v p = Some op" "v (sr_op (po_src_info op ! i)) = Some so"
    "v' = v(sr_op (po_src_info op ! i) := Some (so\<lparr>po_wake_up_list := po_wake_up_list so @ [wake_entry p op i], po_wake_up_count := n\<rparr>),
            p := Some (op\<lparr>po_srcs_not_rdy_vector := w\<rparr>))" using assms unfolding linked_def by blast
  have "ident (so\<lparr>po_wake_up_list := po_wake_up_list so @ [wake_entry p op i], po_wake_up_count := n\<rparr>) = ident so"
    "ident (op\<lparr>po_srcs_not_rdy_vector := w\<rparr>) = ident op" by (simp_all add: ident_def)
  then show ?thesis unfolding kept_def v(3) using v(1,2) by simp
qed

lemma unlinked_kept:
  assumes "unlinked p i v v'"
  shows "kept v v'"
proof -
  obtain op w where v: "v p = Some op"
    "v' = v(p := Some (op\<lparr>po_srcs_not_rdy_vector := w, po_src_info := (po_src_info op)[i := (po_src_info op ! i)\<lparr>sr_op := invalid_op\<rparr>]\<rparr>))"
    using assms unfolding unlinked_def by blast
  have "ident (op\<lparr>po_srcs_not_rdy_vector := w, po_src_info := (po_src_info op)[i := (po_src_info op ! i)\<lparr>sr_op := invalid_op\<rparr>]\<rparr>) = ident op"
    by (simp add: ident_def)
  then show ?thesis unfolding kept_def v(2) using v(1) by simp
qed

lemma signalled_kept:
  assumes "signalled q t C v v'"
  shows "kept v v'"
  unfolding kept_def
proof
  fix d show "map_option ident (v' d) = map_option ident (v d)"
  proof (cases "v d")
    case None
    then show ?thesis using assms unfolding signalled_def by simp
  next
    case (Some op)
    obtain w where "v' d = Some (op\<lparr>po_srcs_not_rdy_vector := w,
      po_wake_up_signaled := (if d = q then insert t (po_wake_up_signaled op) else po_wake_up_signaled op)\<rparr>)"
      using signalled_fwd [OF assms Some] by blast
    then show ?thesis using Some by (simp add: ident_def)
  qed
qed

lemma cleared_single:
  assumes "cleared {(p, i)} v v'" "v p = Some op"
  obtains w where "v' = v(p := Some (op\<lparr>po_srcs_not_rdy_vector := w\<rparr>))" "\<And>j. bit w j \<longleftrightarrow> bit (po_srcs_not_rdy_vector op) j \<and> j \<noteq> i"
proof -
  obtain w where w: "v' p = Some (op\<lparr>po_srcs_not_rdy_vector := w\<rparr>)" "\<And>j. bit w j \<longleftrightarrow> bit (po_srcs_not_rdy_vector op) j \<and> (p, j) \<notin> {(p, i)}"
    using clearedD [OF assms] by blast
  have "v' q = v q" if q: "q \<noteq> p" for q
  proof (cases "v q")
    case None
    then show ?thesis using cleared_None [OF assms(1)] by simp
  next
    case (Some oq)
    obtain w' where w': "v' q = Some (oq\<lparr>po_srcs_not_rdy_vector := w'\<rparr>)"
      "\<And>j. bit w' j \<longleftrightarrow> bit (po_srcs_not_rdy_vector oq) j \<and> (q, j) \<notin> {(p, i)}" using clearedD [OF assms(1) Some] by blast
    then have "w' = po_srcs_not_rdy_vector oq" using q by (intro bit_eqI) auto
    then show ?thesis using w'(1) Some by simp
  qed
  then have "v' = v(p := Some (op\<lparr>po_srcs_not_rdy_vector := w\<rparr>))" using w(1) by auto
  with w(2) show ?thesis using that by auto
qed

lemma linkedI:
  assumes "v p = Some op" "v (sr_op (po_src_info op ! i)) = Some so" "sr_op (po_src_info op ! i) \<noteq> p"
    "\<And>j. bit w j \<longleftrightarrow> bit (po_srcs_not_rdy_vector op) j \<and> (j = i \<longrightarrow> sr_type (po_src_info op ! i) \<notin> po_wake_up_signaled so)"
    "v' p = Some (op\<lparr>po_srcs_not_rdy_vector := w\<rparr>)"
    "v' (sr_op (po_src_info op ! i)) = Some (so\<lparr>po_wake_up_list := po_wake_up_list so @ [wake_entry p op i], po_wake_up_count := n\<rparr>)"
    "\<And>q. q \<noteq> p \<Longrightarrow> q \<noteq> sr_op (po_src_info op ! i) \<Longrightarrow> v' q = v q"
    "n = (if po_wake_up_list so = [] then 1 else po_wake_up_count so + 1)"
  shows "linked p i v v'"
  unfolding linked_def
proof (intro exI conjI allI)
  show "v' = v(sr_op (po_src_info op ! i) := Some (so\<lparr>po_wake_up_list := po_wake_up_list so @ [wake_entry p op i], po_wake_up_count := n\<rparr>),
            p := Some (op\<lparr>po_srcs_not_rdy_vector := w\<rparr>))" using assms(3,5-7) by (intro ext) simp
qed (rule assms)+

context waking begin

lemma depend_linked:
  assumes inv: "wake_inv (view s) prog c u" and p: "get_op p s = Some op" "po_valid op" "prog p = i" "i < unat (po_num_srcs op)"
    and so: "get_op (sr_op (po_src_info op ! i)) s = Some so" "po_valid so" "po_unique_num so = sr_unique_num (po_src_info op ! i)"
    and cond: "OBEY_REG_DEP P \<or> sr_type (po_src_info op ! i) \<noteq> REG_DATA_DEP"
    and md: "take_wake_up_entry (td_map_data s) = Some md" "same_maps (td_map_data s) md" "md_oracle_mem_hash md = md_oracle_mem_hash (td_map_data s)"
  shows "\<exists>s'. depend_on_src P act p i s = Some s' \<and> linked p i (view s) (view s') \<and> steady s s' \<and> td_map_data s' = md"
proof -
  let ?r = "po_src_info op ! i" and ?q = "sr_op (po_src_info op ! i)"
  have vp: "view s p = Some (core op)" and vq: "view s ?q = Some (core so)" using p(1) so(1) by (simp_all add: view_def)
  have ids: "po_proc_id op = c" "po_proc_id so = c" "p \<noteq> invalid_op" "?q \<noteq> invalid_op"
    using wake_invD(1,2) [OF inv vp] wake_invD(1,2) [OF inv vq] p(2) so(2) by simp_all
  have "sr_unique_num ?r < po_unique_num op" using wake_invD(7) [OF inv vp] p(2,4) by simp
  then have ne: "?q \<noteq> p" using so(1,3) p(1) by auto
  have i32: "i < 32" using wake_invD(4) [OF inv vp] p(2,4) by simp
  define s1 where "s1 = upd_op ?q (append_wake (wake_entry p op i)) (s\<lparr>td_map_data := md\<rparr>)"
  define s2 where "s2 = (if TRACK_L1_MISS_DEPS P \<and> (po_l1_miss so \<and> \<not> po_l1_miss_satisfied so \<or> po_dep_on_l1_miss so)
                     then upd_op p (\<lambda>op. op\<lparr>po_dep_on_l1_miss := True\<rparr>) s1 else s1)"
  let ?so' = "(core so)\<lparr>po_wake_up_list := po_wake_up_list so @ [wake_entry p op i],
      po_wake_up_count := (if po_wake_up_list so = [] then 1 else po_wake_up_count so + 1)\<rparr>"
  have "core (append_wake (wake_entry p op i) so) = ?so'" by (simp add: append_wake_def core_def)
  moreover have "view (s\<lparr>td_map_data := md\<rparr>) = view s" "get_op x (s\<lparr>td_map_data := md\<rparr>) = get_op x s" for x
    by (simp_all add: view_def get_op_def fun_eq_iff)
  ultimately have v1: "view s1 = (view s)(?q := Some ?so')" using so(1) by (auto simp: s1_def view_upd fun_eq_iff)
  have v2: "view s2 = (view s)(?q := Some ?so')"
  proof -
    have "core (op\<lparr>po_dep_on_l1_miss := True\<rparr>) = core op" for op by (simp add: core_def)
    then have "view (upd_op p (\<lambda>op. op\<lparr>po_dep_on_l1_miss := True\<rparr>) s1) q = view s1 q" for q
      by (simp add: view_upd) (simp add: view_def)
    then show ?thesis using v1 by (simp add: s2_def fun_eq_iff)
  qed
  have r2: "s2 = s\<lparr>om_ops := om_ops s2, td_map_data := md\<rparr>" "length (om_ops s2) = length (om_ops s)"
    by (simp_all add: s2_def s1_def upd_op_def)
  have dep: "depend_on_src P act p i s = (if sr_type ?r \<in> po_wake_up_signaled so
      then do { s \<leftarrow> clear_not_rdy_bit p (of_nat i) s2; act ?q p (of_nat i) s } else Some s2)"
    using p(1,2) so cond ids md(1)
    by (simp add: depend_on_src_def Let_def s2_def s1_def wake_entry_def cong: if_cong)
  have vp2: "view s2 p = Some (core op)" using v2 vp ne by simp
  have same: "wake_entry p (core op) i = wake_entry p op i" "(core op)\<lparr>po_srcs_not_rdy_vector := po_srcs_not_rdy_vector op\<rparr> = core op"
    by (simp_all add: wake_entry_def core_def)
  show ?thesis
  proof (cases "sr_type ?r \<in> po_wake_up_signaled so")
    case False
    have lk: "linked p i (view s) (view s2)"
      by (rule linkedI [where op = "core op" and so = "core so" and w = "po_srcs_not_rdy_vector op"
            and n = "if po_wake_up_list so = [] then 1 else po_wake_up_count so + 1"])
        (use vp vq ne v2 False same in simp_all)
    have m2: "td_map_data s2 = md" by (subst r2(1)) simp
    have "rdy_head s2 = rdy_head s" by (subst r2(1)) simp
    then have "s2 = s\<lparr>om_ops := om_ops s2, td_map_data := md, rdy_head := rdy_head s2\<rparr>" by (subst r2(1)) simp
    then have "steady s s2" unfolding steady_def m2
      using r2(2) md(2,3) linked_kept [OF lk] by simp
    then show ?thesis using dep False lk m2 by auto
  next
    case True
    have b: "unat (of_nat i :: uns) = i" using i32 by (simp add: unat_of_nat)
    obtain s3 where s3: "clear_not_rdy_bit p (of_nat i) s2 = Some s3" "cleared {(p, i)} (view s2) (view s3)" "td_map_data s3 = td_map_data s2"
      "s3 = s2\<lparr>om_ops := om_ops s3\<rparr>" "length (om_ops s3) = length (om_ops s2)"
      using clear_bit_ok [OF cleared_refl vp2, of "of_nat i"] p(4) i32 b by auto
    obtain w where w: "view s3 = (view s2)(p := Some ((core op)\<lparr>po_srcs_not_rdy_vector := w\<rparr>))"
      "\<And>j. bit w j \<longleftrightarrow> bit (po_srcs_not_rdy_vector (core op)) j \<and> j \<noteq> i" using cleared_single [OF s3(2) vp2] by blast
    have "view s3 p = Some ((core op)\<lparr>po_srcs_not_rdy_vector := w\<rparr>)" "view s3 ?q = Some ?so'" using w(1) v2 ne by simp_all
    then obtain p3 q3 where g3: "get_op p s3 = Some p3" "get_op ?q s3 = Some q3" "core p3 = (core op)\<lparr>po_srcs_not_rdy_vector := w\<rparr>" "core q3 = ?so'"
      by (auto simp: view_def)
    have "po_proc_id p3 = c" "po_proc_id q3 = c" using arg_cong [OF g3(3), of po_proc_id] arg_cong [OF g3(4), of po_proc_id] ids by simp_all
    then obtain s4 where s4: "act ?q p (of_nat i) s3 = Some s4" using act_total [OF g3(2,1)] ids by blast
    note qt = act_quiet [OF s4]
    have v4: "view s4 = view s3" using quiet_calm(2) [OF qt] .
    have lk: "linked p i (view s) (view s4)"
      by (rule linkedI [where op = "core op" and so = "core so" and w = w
            and n = "if po_wake_up_list so = [] then 1 else po_wake_up_count so + 1"])
        (use vp vq ne v2 w True v4 same in auto)
    have r4: "s4 = s3\<lparr>om_ops := om_ops s4, rdy_head := rdy_head s4\<rparr>" "length (om_ops s4) = length (om_ops s3)"
      using qt by (simp_all add: quiet_def)
    have "s4 = s2\<lparr>om_ops := om_ops s4, rdy_head := rdy_head s4\<rparr>" by (subst r4(1), subst s3(4)) simp
    also have "\<dots> = s\<lparr>om_ops := om_ops s4, td_map_data := md, rdy_head := rdy_head s4\<rparr>" by (subst r2(1)) simp
    finally have e4: "s4 = s\<lparr>om_ops := om_ops s4, td_map_data := md, rdy_head := rdy_head s4\<rparr>" .
    have m4: "td_map_data s4 = md" by (subst e4) simp
    have "steady s s4" unfolding steady_def m4
      using e4 r4(2) s3(5) r2(2) md(2,3) linked_kept [OF lk] by simp
    then show ?thesis using dep True s3(1) s4 lk m4 by auto
  qed
qed

end

context waking begin

lemma depend_unlinked:
  assumes inv: "wake_inv (view s) prog c u" and p: "get_op p s = Some op" "po_valid op" "prog p = i" "i < unat (po_num_srcs op)"
    and so: "get_op (sr_op (po_src_info op ! i)) s = Some so"
      "\<not> ((OBEY_REG_DEP P \<or> sr_type (po_src_info op ! i) \<noteq> REG_DATA_DEP) \<and> po_valid so \<and> po_unique_num so = sr_unique_num (po_src_info op ! i))"
  shows "\<exists>s'. depend_on_src P act p i s = Some s' \<and> unlinked p i (view s) (view s') \<and> steady s s' \<and> td_map_data s' = td_map_data s"
proof -
  let ?f = "\<lambda>o2. o2\<lparr>po_src_info := (po_src_info o2)[i := (po_src_info op ! i)\<lparr>sr_op := invalid_op\<rparr>]\<rparr>"
  have vp: "view s p = Some (core op)" using p(1) by (simp add: view_def)
  have i32: "i < 32" using wake_invD(4) [OF inv vp] p(2,4) by simp
  then have b: "unat (of_nat i :: uns) = i" by (simp add: unat_of_nat)
  let ?s1 = "upd_op p ?f s"
  have c1: "core (?f op) = ?f (core op)" by (simp add: core_def)
  have v1: "view ?s1 = (view s)(p := Some (?f (core op)))" using p(1) by (auto simp: view_upd c1)
  then have v1p: "view ?s1 p = Some (?f (core op))" by simp
  have n1: "unat (po_num_srcs (?f (core op))) = unat (po_num_srcs op)" by simp
  obtain s2 where s2: "clear_not_rdy_bit p (of_nat i) ?s1 = Some s2" "cleared {(p, i)} (view ?s1) (view s2)" "td_map_data s2 = td_map_data ?s1"
    "s2 = ?s1\<lparr>om_ops := om_ops s2\<rparr>" "length (om_ops s2) = length (om_ops ?s1)"
    using clear_bit_ok [OF cleared_refl v1p, of "of_nat i"] p(4) i32 unfolding b n1 by auto
  obtain w where w: "view s2 = (view ?s1)(p := Some ((?f (core op))\<lparr>po_srcs_not_rdy_vector := w\<rparr>))"
    "\<And>j. bit w j \<longleftrightarrow> bit (po_srcs_not_rdy_vector (?f (core op))) j \<and> j \<noteq> i" using cleared_single [OF s2(2) v1p] by blast
  have ul: "unlinked p i (view s) (view s2)" unfolding unlinked_def
    by (intro exI [of _ "core op"] exI [of _ w] conjI allI) (use vp w v1 in \<open>simp_all add: fun_eq_iff core_def\<close>)
  have "td_map_data ?s1 = td_map_data s" by simp
  moreover have "s2 = s\<lparr>om_ops := om_ops s2\<rparr>" by (subst s2(4)) (simp add: upd_op_def)
  note steady_ops [OF this]
  ultimately have "steady s s2" using s2(3,5) unlinked_kept [OF ul] by (simp add: steady_def same_maps_def upd_op_def)
  moreover have "depend_on_src P act p i s = clear_not_rdy_bit p (of_nat i) ?s1"
    using p(1) so by (auto simp: depend_on_src_def Let_def)
  ultimately show ?thesis using s2(1,3) ul by auto
qed

lemma depend_ok:
  assumes inv: "wake_inv (view s) prog c u" and p: "get_op p s = Some op" "po_valid op" "prog p = i" "i < unat (po_num_srcs op)"
    and pool: "wake_pool s" "unat (md_active_wake_up_entries (td_map_data s)) \<le> WAKE_UP_ENTRIES_INC * 127"
  shows "\<exists>s'. depend_on_src P act p i s = Some s' \<and> wake_inv (view s') (prog(p := Suc i)) c u \<and> wake_pool s' \<and> steady s s' \<and>
    unat (md_active_wake_up_entries (td_map_data s')) \<le> Suc (unat (md_active_wake_up_entries (td_map_data s)))"
proof -
  let ?r = "po_src_info op ! i" and ?q = "sr_op (po_src_info op ! i)"
  have vp: "view s p = Some (core op)" using p(1) by (simp add: view_def)
  have "view s ?q \<noteq> None" using wake_invD(6) [OF inv vp] p(2,4) by simp
  then obtain so where so: "get_op ?q s = Some so" by (auto simp: view_def)
  show ?thesis
  proof (cases "(OBEY_REG_DEP P \<or> sr_type ?r \<noteq> REG_DATA_DEP) \<and> po_valid so \<and> po_unique_num so = sr_unique_num ?r")
    case True
    obtain md where md: "take_wake_up_entry (td_map_data s) = Some md" "same_maps (td_map_data s) md"
      "md_oracle_mem_hash md = md_oracle_mem_hash (td_map_data s)"
      "md_free_list md + unat (md_active_wake_up_entries md) = unat (md_wake_up_entries md)"
      "unat (md_wake_up_entries md) \<le> WAKE_UP_ENTRIES_INC * 128"
      "unat (md_active_wake_up_entries md) = Suc (unat (md_active_wake_up_entries (td_map_data s)))"
      using take_entry_ok [of "td_map_data s"] pool unfolding wake_pool_def by blast
    obtain s' where s': "depend_on_src P act p i s = Some s'" "linked p i (view s) (view s')" "steady s s'" "td_map_data s' = md"
      using depend_linked [OF inv p so] True md(1-3) by blast
    have "live (view s) (po_src_info (core op) ! i)" using True so by (auto simp: live_def view_def)
    from link_inv [OF inv s'(2) vp _ _ _ this] have "wake_inv (view s') (prog(p := Suc i)) c u" using p by simp
    moreover have "wake_pool s'"
    proof -
      have "?q < length (om_ops s)" using so by (auto dest: get_opD)
      then have "(\<Sum>q < length (om_ops s). list_len (view s') q) = Suc (\<Sum>q < length (om_ops s). list_len (view s) q)"
        using linked_len [OF s'(2) vp, of "length (om_ops s)"] by simp
      moreover have "length (om_ops s') = length (om_ops s)" using s'(3) by (simp add: steady_def)
      moreover have "unat (po_wake_up_count o') = length (po_wake_up_list o')"
        if "view s' q = Some o'" "po_wake_up_list o' \<noteq> []" for q o'
      proof (cases "q = ?q")
        case True
        have "list_len (view s) ?q \<le> (\<Sum>q < length (om_ops s). list_len (view s) q)"
          using \<open>?q < length (om_ops s)\<close> by (intro member_le_sum) simp_all
        then have len: "length (po_wake_up_list so) \<le> WAKE_UP_ENTRIES_INC * 127"
          using pool so unfolding wake_pool_def by (simp add: list_len_def view_def)
        have "o' = (core so)\<lparr>po_wake_up_list := po_wake_up_list so @ [wake_entry p (core op) i],
            po_wake_up_count := (if po_wake_up_list so = [] then 1 else po_wake_up_count (core so) + 1)\<rparr>"
        proof -
          have "view s ?q = Some (core so)" using so by (simp add: view_def)
          then obtain w where "?q \<noteq> p" "view s' = (view s)(?q := Some ((core so)\<lparr>po_wake_up_list := po_wake_up_list so @ [wake_entry p (core op) i],
              po_wake_up_count := (if po_wake_up_list so = [] then 1 else po_wake_up_count (core so) + 1)\<rparr>),
              p := Some ((core op)\<lparr>po_srcs_not_rdy_vector := w\<rparr>))" using s'(2) vp unfolding linked_def by auto
          then show ?thesis using that(1) True by simp
        qed
        moreover have "po_wake_up_list so \<noteq> [] \<Longrightarrow> unat (po_wake_up_count so) = length (po_wake_up_list so)"
          by (rule wake_pool_count [OF pool(1) so])
        ultimately show ?thesis using len by (simp add: WAKE_UP_ENTRIES_INC_def unat_word_ariths)
      next
        case False
        obtain x w where v': "view s' = (view s)(?q := x, p := Some ((core op)\<lparr>po_srcs_not_rdy_vector := w\<rparr>))"
          using s'(2) vp unfolding linked_def by auto
        obtain o0 where o0: "view s q = Some o0" "po_wake_up_list o' = po_wake_up_list o0" "po_wake_up_count o' = po_wake_up_count o0"
        proof (cases "q = p")
          case True
          then have "o' = (core op)\<lparr>po_srcs_not_rdy_vector := w\<rparr>" using v' \<open>view s' q = Some o'\<close> by simp
          then show ?thesis using that [of "core op"] vp True by simp
        next
          case np: False
          then have "view s q = Some o'" using v' False \<open>view s' q = Some o'\<close> by simp
          then show ?thesis using that by blast
        qed
        have "\<forall>q op. view s q = Some op \<and> po_wake_up_list op \<noteq> [] \<longrightarrow> unat (po_wake_up_count op) = length (po_wake_up_list op)"
          using pool(1) unfolding wake_pool_def by blast
        then show ?thesis using o0 that(2) by simp
      qed
      then have "\<forall>q op. view s' q = Some op \<and> po_wake_up_list op \<noteq> [] \<longrightarrow> unat (po_wake_up_count op) = length (po_wake_up_list op)" by blast
      ultimately show ?thesis using pool(1) md(4-6) s'(4) unfolding wake_pool_def by simp
    qed
    ultimately show ?thesis using s' md(6) by auto
  next
    case False
    obtain s' where s': "depend_on_src P act p i s = Some s'" "unlinked p i (view s) (view s')" "steady s s'" "td_map_data s' = td_map_data s"
      using depend_unlinked [OF inv p so False] by blast
    have "wake_inv (view s') (prog(p := Suc i)) c u" using unlink_inv [OF inv s'(2) vp] p by simp
    moreover have "wake_pool s'"
    proof -
      have "length (om_ops s') = length (om_ops s)" using s'(3) by (simp add: steady_def)
      moreover have "unat (po_wake_up_count o') = length (po_wake_up_list o')"
        if "view s' q = Some o'" "po_wake_up_list o' \<noteq> []" for q o'
        using that s'(2) pool(1) unfolding wake_pool_def unlinked_def by (auto split: if_splits)
      then have "\<forall>q op. view s' q = Some op \<and> po_wake_up_list op \<noteq> [] \<longrightarrow> unat (po_wake_up_count op) = length (po_wake_up_list op)" by blast
      ultimately show ?thesis using pool(1) s'(4) unlinked_len [OF s'(2)] unfolding wake_pool_def by simp
    qed
    ultimately show ?thesis using s' by auto
  qed
qed

end

section \<open>All sources\<close>

text \<open>Any progress past the number of sources says the same.\<close>

lemma wake_inv_progress:
  assumes inv: "wake_inv v prog c u" and n: "v p = Some op" "unat (po_num_srcs op) \<le> prog p" "unat (po_num_srcs op) \<le> n"
  shows "wake_inv v (prog(p := n)) c u"
proof -
  have "bits_ok v (prog(p := n))" unfolding bits_ok_def
  proof (intro allI impI; elim conjE)
    fix d d' i assume a: "v d = Some d'" "po_valid d'" "i < unat (po_num_srcs d')"
    have "(if i < prog d then (bit (po_srcs_not_rdy_vector d') i \<longleftrightarrow> pending v (po_src_info d' ! i)) \<and>
       (pending v (po_src_info d' ! i) \<longrightarrow> listed v d d' i) else bit (po_srcs_not_rdy_vector d') i)"
      using inv a unfolding wake_inv_def bits_ok_def by blast
    moreover have "i < (prog(p := n)) d \<longleftrightarrow> i < prog d" using a n by auto
    ultimately show "if i < (prog(p := n)) d then (bit (po_srcs_not_rdy_vector d') i \<longleftrightarrow> pending v (po_src_info d' ! i)) \<and>
       (pending v (po_src_info d' ! i) \<longrightarrow> listed v d d' i) else bit (po_srcs_not_rdy_vector d') i" by simp
  qed
  moreover have "entries_ok v (prog(p := n))" unfolding entries_ok_def
  proof (intro allI impI; elim conjE)
    fix q src e assume a: "v q = Some src" "e \<in> set (po_wake_up_list src)"
    note old = wake_entryD [OF inv a]
    show "v (wu_op e) \<noteq> None \<and> (\<forall>d. v (wu_op e) = Some d \<and> po_valid d \<and> po_unique_num d = wu_unique_num e \<longrightarrow>
        unat (wu_rdy_bit e) < (prog(p := n)) (wu_op e) \<and> unat (wu_rdy_bit e) < unat (po_num_srcs d) \<and>
        sr_op (po_src_info d ! unat (wu_rdy_bit e)) = q \<and> sr_type (po_src_info d ! unat (wu_rdy_bit e)) = wu_dep_type e \<and>
        sr_unique_num (po_src_info d ! unat (wu_rdy_bit e)) = po_unique_num src)"
    proof (intro conjI [OF old(1)] allI impI; elim conjE)
      fix d assume d: "v (wu_op e) = Some d" "po_valid d" "po_unique_num d = wu_unique_num e"
      note o = old(2) [OF d]
      then have "unat (wu_rdy_bit e) < (prog(p := n)) (wu_op e)" using n d(1) by (cases "wu_op e = p") auto
      with o show "unat (wu_rdy_bit e) < (prog(p := n)) (wu_op e) \<and> unat (wu_rdy_bit e) < unat (po_num_srcs d) \<and>
        sr_op (po_src_info d ! unat (wu_rdy_bit e)) = q \<and> sr_type (po_src_info d ! unat (wu_rdy_bit e)) = wu_dep_type e \<and>
        sr_unique_num (po_src_info d ! unat (wu_rdy_bit e)) = po_unique_num src" by blast
    qed
  qed
  ultimately show ?thesis using inv by (simp add: wake_inv_def)
qed

lemma kept_get:
  assumes "kept (view s) (view s')" "get_op p s = Some op"
  obtains op' where "get_op p s' = Some op'" "ident (core op') = ident (core op)"
proof -
  have "map_option ident (view s' p) = Some (ident (core op))" using assms by (simp add: kept_def view_def)
  then show ?thesis using that by (auto simp: view_def)
qed

lemma ident_core:
  assumes "ident (core op') = ident (core op)"
  shows "po_valid op' = po_valid op" "po_proc_id op' = po_proc_id op" "po_op_num op' = po_op_num op" "po_unique_num op' = po_unique_num op"
    "po_num_srcs op' = po_num_srcs op" "length (po_src_info op') = length (po_src_info op)" "po_marked op' = po_marked op"
    "po_table_info op' = po_table_info op" "po_inst_info op' = po_inst_info op" "po_va op' = po_va op" "po_mem_size op' = po_mem_size op"
    "po_off_path op' = po_off_path op"
proof -
  note c = arg_cong [OF assms]
  show "po_valid op' = po_valid op" using c [where f = po_valid] by (simp add: ident_def)
  show "po_proc_id op' = po_proc_id op" using c [where f = po_proc_id] by (simp add: ident_def)
  show "po_op_num op' = po_op_num op" using c [where f = po_op_num] by (simp add: ident_def core_def)
  show "po_unique_num op' = po_unique_num op" using c [where f = po_unique_num] by (simp add: ident_def)
  show "po_num_srcs op' = po_num_srcs op" using c [where f = po_num_srcs] by (simp add: ident_def)
  show "length (po_src_info op') = length (po_src_info op)" using c [where f = "\<lambda>op. length (po_src_info op)"] by (simp add: ident_def)
  show "po_marked op' = po_marked op" using c [where f = po_marked] by (simp add: ident_def core_def)
  show "po_table_info op' = po_table_info op" using c [where f = po_table_info] by (simp add: ident_def core_def)
  show "po_inst_info op' = po_inst_info op" using c [where f = po_inst_info] by (simp add: ident_def core_def)
  show "po_va op' = po_va op" using c [where f = po_va] by (simp add: ident_def core_def)
  show "po_mem_size op' = po_mem_size op" using c [where f = po_mem_size] by (simp add: ident_def core_def)
  show "po_off_path op' = po_off_path op" using c [where f = po_off_path] by (simp add: ident_def core_def)
qed

context waking begin

lemma schedule_ok:
  assumes inv: "wake_inv (view s) prog c u" and p: "get_op p s = Some op" "po_valid op" "prog p = 0"
    and pool: "wake_pool s" "unat (md_active_wake_up_entries (td_map_data s)) + 32 \<le> WAKE_UP_ENTRIES_INC * 127"
    and id: "md_proc_id (td_map_data s) = c"
  shows "\<exists>s'. add_to_wake_up_lists P act p s = Some s' \<and> wake_inv (view s') (prog(p := unat (po_num_srcs op))) c u \<and>
    wake_pool s' \<and> steady s s'"
proof -
  let ?n = "unat (po_num_srcs op)" and ?a = "\<lambda>s. unat (md_active_wake_up_entries (td_map_data s))"
  let ?Q = "\<lambda>k s1. wake_inv (view s1) (prog(p := k)) c u \<and> wake_pool s1 \<and> steady s s1 \<and> ?a s1 \<le> ?a s + k"
  have vp: "view s p = Some (core op)" using p(1) by (simp add: view_def)
  have n32: "?n \<le> 32" using wake_invD(4) [OF inv vp] p(2) by simp
  have "prog(p := 0) = prog" using p(3) by auto
  then have "?Q 0 s" using inv pool by simp
  then have "\<exists>s'. loop (depend_on_src P act p) [0 ..< ?n] s = Some s' \<and> ?Q ?n s'"
  proof (rule loop_upt [rotated])
    fix k s1 assume k: "k < ?n" and Q: "?Q k s1"
    obtain op1 where op1: "get_op p s1 = Some op1" "ident (core op1) = ident (core op)"
      using Q kept_get [of s s1 p op] p(1) unfolding steady_def by blast
    note i = ident_core [OF op1(2)]
    have "k < unat (po_num_srcs op1)" "po_valid op1" using k p(2) i by simp_all
    moreover have "?a s1 \<le> WAKE_UP_ENTRIES_INC * 127" using Q pool(2) k n32 by simp
    ultimately obtain s2 where s2: "depend_on_src P act p k s1 = Some s2" "wake_inv (view s2) (prog(p := k, p := Suc k)) c u"
      "wake_pool s2" "steady s1 s2" "?a s2 \<le> Suc (?a s1)"
      using depend_ok [of s1 "prog(p := k)" u p op1 k P] Q op1(1) by auto
    have "prog(p := k, p := Suc k) = prog(p := Suc k)" by simp
    moreover have "steady s s2" using steady_trans [OF _ s2(4)] Q by blast
    moreover have "?a s2 \<le> ?a s + Suc k" using s2(5) Q by linarith
    ultimately show "\<exists>s2. depend_on_src P act p k s1 = Some s2 \<and> ?Q (Suc k) s2" using s2(1-3) by auto
  qed simp
  moreover have "po_proc_id op = md_proc_id (td_map_data s)" using wake_invD(2) [OF inv vp] p(2) id by simp
  ultimately show ?thesis using p(1) by (auto simp: add_to_wake_up_lists_def)
qed

end

end
