(* ===== verification/Op_Grow.thy ===== *)
theory Op_Grow
  imports Op_Schedule
begin

text \<open>
  What the rest of the code does to the wake-up lists: mapping an op only sets not-ready bits of that op, and
  freeing and recovering only empty the lists of the ops that are freed.
\<close>

section \<open>Mapping\<close>

definition all_waiting :: "Pool_Op \<Rightarrow> bool" where
  "all_waiting op \<longleftrightarrow> unat (po_num_srcs op) \<le> 32 \<and> (\<forall>i < unat (po_num_srcs op). bit (po_srcs_not_rdy_vector op) i)"

definition grown :: "Pool_Op \<Rightarrow> Pool_Op \<Rightarrow> bool" where
  "grown op op' \<longleftrightarrow> po_wake_up_list op' = po_wake_up_list op \<and> po_wake_up_signaled op' = po_wake_up_signaled op \<and>
     (all_waiting op \<longrightarrow> all_waiting op')"

definition same_counts :: "Map_Data \<Rightarrow> Map_Data \<Rightarrow> bool" where
  "same_counts md md' \<longleftrightarrow> md_free_list md' = md_free_list md \<and> md_wake_up_entries md' = md_wake_up_entries md \<and>
     md_active_wake_up_entries md' = md_active_wake_up_entries md"

definition grows :: "opp \<Rightarrow> Op_Machine \<Rightarrow> Op_Machine \<Rightarrow> bool" where
  "grows p s s' \<longleftrightarrow> same_counts (td_map_data s) (td_map_data s') \<and>
     (\<forall>op. get_op p s = Some op \<longrightarrow> (\<exists>op'. get_op p s' = Some op' \<and> grown op op'))"

lemma grows_refl [simp]: "grows p s s"
  by (simp add: grows_def grown_def same_counts_def)

lemma grows_trans: "grows p s s1 \<Longrightarrow> grows p s1 s2 \<Longrightarrow> grows p s s2"
  unfolding grows_def grown_def same_counts_def by (metis (no_types, lifting))

lemma grows_loop:
  assumes "loop f xs s = Some s'" "\<And>x s s'. x \<in> set xs \<Longrightarrow> f x s = Some s' \<Longrightarrow> grows p s s'"
  shows "grows p s s'"
  by (rule loop_inv [OF assms(1), of "grows p s"]) (use assms(2) grows_trans in \<open>blast | simp\<close>)+

lemma grows_upd: "(\<And>op. grown op (f op)) \<Longrightarrow> grows p s (upd_op q f s)"
  by (auto simp: grows_def same_counts_def) (simp add: grown_def)

lemma grows_md: "same_counts (td_map_data s) md \<Longrightarrow> grows p s (s\<lparr>td_map_data := md\<rparr>)"
  by (simp add: grows_def get_op_def grown_def)

lemma push_src_grows:
  assumes "push_src p info s = Some s'"
  shows "grows p s s'"
proof -
  obtain op where op: "get_op p s = Some op" using assms by (auto simp: push_src_def bind_eq_Some_conv)
  let ?n = "po_num_srcs op"
  define op' where "op' = op\<lparr>po_num_srcs := ?n + 1, po_src_info := (po_src_info op)[unat ?n := info],
     po_srcs_not_rdy_vector := or (po_srcs_not_rdy_vector op) (push_bit (unat ?n) 1)\<rparr>"
  have n: "?n < ?n + 1" "?n < 32" and s': "td_map_data s' = td_map_data s" "get_op p s' = Some op'"
    using assms op by (auto simp: push_src_def Let_def set_not_rdy_bit_def rdy_bit_ok_def bind_eq_Some_conv op'_def split: if_splits)
  have lt: "unat ?n < 32" using n(2) by (simp add: word_less_nat_alt)
  then have n1: "unat (?n + 1) = Suc (unat ?n)" by (simp add: unat_word_ariths)
  have "all_waiting op'" if "all_waiting op"
    using that n1 lt unfolding all_waiting_def op'_def by (auto simp: bit_simps less_Suc_eq)
  then have "grown op op'" by (simp add: grown_def) (simp add: op'_def)
  then show ?thesis using op s' by (simp add: grows_def same_counts_def)
qed

lemma read_reg_grows: "read_reg p i s = Some s' \<Longrightarrow> grows p s s'"
  by (auto simp: read_reg_def add_src_from_map_entry_def bind_eq_Some_conv Let_def intro: push_src_grows)

lemma write_reg_counts: "write_reg p op i md = Some md' \<Longrightarrow> same_counts md md'"
  by (auto simp: write_reg_def same_counts_def)

lemma same_counts_trans: "same_counts a b \<Longrightarrow> same_counts b c \<Longrightarrow> same_counts a c"
  by (simp add: same_counts_def)

lemma update_map_counts:
  assumes "update_map p s = Some s'"
  shows "s' = s\<lparr>td_map_data := td_map_data s'\<rparr> \<and> same_counts (td_map_data s) (td_map_data s')"
proof -
  have 1: "same_counts (td_map_data s) md" if "loop (write_reg p op) is (td_map_data s) = Some md" for op "is" md
    by (rule loop_inv [OF that, of "same_counts (td_map_data s)"])
      (use write_reg_counts same_counts_trans in \<open>blast | simp add: same_counts_def\<close>)+
  then have 2: "same_counts (td_map_data s) (write_store p op' md)" if "loop (write_reg p op) is (td_map_data s) = Some md" for op "is" md op'
    using that by (simp add: write_store_def same_counts_def)
  show ?thesis using assms by (auto simp: update_map_def bind_eq_Some_conv intro: 1 2)
qed

lemma map_op_grows:
  assumes "map_op P p s = Some s'"
  shows "grows p s s'"
proof -
  obtain s1 s2 where s: "read_reg_map p s = Some s1" "read_store_map P p s1 = Some s2" "update_map p s2 = Some s'"
    using assms by (auto simp: map_op_def bind_eq_Some_conv)
  have "grows p s s1" using s(1) by (auto simp: read_reg_map_def bind_eq_Some_conv intro: grows_loop read_reg_grows)
  moreover have "grows p s1 s2" using s(2)
    by (auto simp: read_store_map_def add_src_from_map_entry_def bind_eq_Some_conv Let_def intro: push_src_grows split: if_splits)
  moreover have "grows p s2 s'" using update_map_counts [OF s(3)] grows_md [of s2 "td_map_data s'" p] by metis
  ultimately show ?thesis using grows_trans by blast
qed

section \<open>The stores in flight\<close>

text \<open>A loop over the entries of the memory map that returns keeps what its body keeps.\<close>

lemma mem_map_entries_inv:
  assumes "mem_map_entries body t s = Some s'" "Q s" "\<And>t s s'. Q s \<Longrightarrow> body t s = Some s' \<Longrightarrow> Q s'"
  shows "Q s'"
proof -
  have "(\<forall>t s s'. Q s \<longrightarrow> body t s = Some s' \<longrightarrow> Q s') \<longrightarrow> Q s \<longrightarrow> Q s'"
  proof (rule mem_map_entries.raw_induct [OF _ assms(1)])
    fix f body t s s'
    assume IH: "\<And>body t s s'. f body t s = Some s' \<Longrightarrow> (\<forall>t s s'. Q s \<longrightarrow> body t s = Some s' \<longrightarrow> Q s') \<longrightarrow> Q s \<longrightarrow> Q s'"
      and s': "(if mem_map_entry_traversal_done t then Some s else body t s \<bind> f body (mem_map_entry_traversal_next t)) = Some s'"
    show "(\<forall>t s s'. Q s \<longrightarrow> body t s = Some s' \<longrightarrow> Q s') \<longrightarrow> Q s \<longrightarrow> Q s'"
    proof (intro impI)
      assume b: "\<forall>t s s'. Q s \<longrightarrow> body t s = Some s' \<longrightarrow> Q s'" and q: "Q s"
      show "Q s'"
      proof (cases "mem_map_entry_traversal_done t")
        case False
        then obtain s1 where "body t s = Some s1" "f body (mem_map_entry_traversal_next t) s1 = Some s'"
          using s' by (auto simp: bind_eq_Some_conv)
        then show ?thesis using IH b q by metis
      qed (use s' q in simp)
    qed
  qed
  then show ?thesis using assms(2,3) by blast
qed

lemma update_store_hash_counts:
  "update_store_hash fresh p s = Some s' \<Longrightarrow> s' = s\<lparr>td_map_data := td_map_data s'\<rparr> \<and> same_counts (td_map_data s) (td_map_data s')"
  by (auto simp: update_store_hash_def bind_eq_Some_conv same_counts_def)

lemma load_byte_grows:
  assumes "load_byte P p e b st = Some st'"
  shows "grows p (snd st) (snd st')"
proof -
  obtain l s where st: "st = (l, s)" by force
  let ?i = "MEM_MAP_BYTE_INDEX b (bit (mm_flag_mask e) (unat b))"
  have m: "grows p s (upd_op q (\<lambda>o'. o'\<lparr>po_marked := True\<rparr>) s)" for q s
    by (intro grows_upd) (simp add: grown_def all_waiting_def)
  show ?thesis
  proof (cases "bit (mm_store_mask e) ?i")
    case False
    then show ?thesis using assms st by (auto simp: load_byte_def Let_def)
  next
    case True
    let ?sp = "mm_op e ! ?i"
    have a: "grows p s s2" if "add_src_from_op p ?sp MEM_DATA_DEP s = Some s2" for s2
      using that by (auto simp: add_src_from_op_def bind_eq_Some_conv intro: push_src_grows)
    have "grows p s s1" if "(if MEM_OOO_STORES P \<and> \<not> po_marked so
        then do { s \<leftarrow> add_src_from_op p ?sp MEM_DATA_DEP s; Some (upd_op ?sp (\<lambda>o'. o'\<lparr>po_marked := True\<rparr>) s) } else Some s) = Some s1"
      for so s1 using that a m grows_trans by (auto simp: bind_eq_Some_conv split: if_splits)
    then show ?thesis using assms True st by (cases l) (auto simp: load_byte_def Let_def bind_eq_Some_conv)
  qed
qed

lemma load_entry_grows:
  assumes "load_entry P p t st = Some st'"
  shows "grows p (snd st) (snd st')"
proof -
  have "grows p (snd st) (snd st')" if "loop (load_byte P p e) bytes st = Some st'" for e bytes
    by (rule loop_inv [OF that, of "\<lambda>st'. grows p (snd st) (snd st')"]) (use load_byte_grows grows_trans in \<open>blast | simp\<close>)+
  then show ?thesis using assms by (auto simp: load_entry_def bind_eq_Some_conv split: option.splits)
qed

lemma add_store_deps_grows:
  assumes "add_store_deps P p s = Some r"
  shows "grows p s (snd r)"
proof -
  have 1: "grows p s s1" if "mem_map_entries (load_entry P p) t (None, s) = Some (l, s1)" for t l s1
  proof -
    have "grows p s (snd (l, s1))"
      by (rule mem_map_entries_inv [OF that, of "\<lambda>st. grows p s (snd st)"]) (use load_entry_grows grows_trans in \<open>blast | simp\<close>)+
    then show ?thesis by simp
  qed
  have 2: "grows p s1 s2" if "loop (unmark_src p) is s1 = Some s2" for "is" s1 s2
  proof (rule grows_loop [OF that])
    show "grows p s s'" if "unmark_src p i s = Some s'" for i s s'
      using that by (auto simp: unmark_src_def Let_def bind_eq_Some_conv intro!: grows_upd simp: grown_def all_waiting_def)
  qed
  have 3: "grows p s1 s2" if "add_src_from_op p q MEM_DATA_DEP s1 = Some s2" for q s1 s2
    using that by (auto simp: add_src_from_op_def bind_eq_Some_conv intro: push_src_grows)
  obtain op l s1 where s1: "get_op p s = Some op"
    "mem_map_entries (load_entry P p) (mem_map_entry_traversal_init (po_va op) (po_mem_size op)) (None, s) = Some (l, s1)"
    using assms by (auto simp: add_store_deps_def bind_eq_Some_conv)
  have "grows p s1 (snd r)"
  proof (cases l)
    case None
    then show ?thesis using assms s1 by (auto simp: add_store_deps_def)
  next
    case (Some a)
    then show ?thesis using assms s1 by (auto simp: add_store_deps_def bind_eq_Some_conv split: if_splits intro: 2 3)
  qed
  then show ?thesis using 1 [OF s1(2)] grows_trans by blast
qed

lemma map_mem_dep_grows:
  assumes "map_mem_dep P fresh p s = Some s'"
  shows "grows p s s'"
proof (cases "MEM_OBEY_STORE_DEP P")
  case True
  then obtain t s1 where s1: "s1 = s \<or> update_store_hash fresh p s = Some s1"
    "s' = s1 \<or> (\<exists>r. add_store_deps P p s1 = Some r \<and> s' = snd r)"
    using assms by (auto simp: map_mem_dep_def bind_eq_Some_conv split: if_splits)
  have "grows p s s1" using s1(1) update_store_hash_counts [of fresh p s s1] grows_md [of s "td_map_data s1" p] by (metis grows_refl)
  then show ?thesis using s1(2) add_store_deps_grows grows_trans by blast
qed (use assms in \<open>simp add: map_mem_dep_def\<close>)

text \<open>A whole fetch, for the op that is fetched.\<close>

lemma fetch_grows:
  assumes "fetch_op P fresh f s = Some (p, s')" "alloc_op (td_proc_id s) s = Some (p, s1)" "get_op p s1 = Some op1"
  obtains op where "get_op p s' = Some op" "grown (fill_op f op1) op" "same_counts (td_map_data s1) (td_map_data s')"
proof -
  obtain s2 s3 s4 where s: "add_to_seq_op_list p (upd_op p (fill_op f) s1) = Some s2" "map_op P p s2 = Some s3"
    "map_mem_dep P fresh p s3 = Some s4" "td_map_data s' = td_map_data s4" "get_op p s' = get_op p s4"
    using assms(1,2) by (auto simp: fetch_op_def thread_map_op_def thread_map_mem_dep_def bind_eq_Some_conv get_op_def)
  have "get_op p s2 = Some (fill_op f op1)" "td_map_data s2 = td_map_data s1"
    using s(1) assms(3) by (auto simp: add_to_seq_op_list_def bind_eq_Some_conv get_op_def upd_op_def split: if_splits)
  moreover have "grows p s2 s4" using map_op_grows [OF s(2)] map_mem_dep_grows [OF s(3)] grows_trans by blast
  ultimately show ?thesis using that s(4,5) by (auto simp: grows_def)
qed

section \<open>Allocation\<close>

text \<open>An op that is not in use has an empty list; the new ops of a larger pool are zeroed.\<close>

lemma expand_pool_view:
  assumes "expand_op_pool s = Some s'"
  shows "length (om_ops s) \<le> length (om_ops s')" "td_map_data s' = td_map_data s" "unique_count s' = unique_count s"
    "get_op q s' = (if q < length (om_ops s) then get_op q s else if q < length (om_ops s') then Some (op_pool_init_op zero_op) else None)"
  using assms by (auto simp: expand_op_pool_def Let_def bind_eq_Some_conv get_op_def nth_append)

lemma alloc_view:
  assumes "alloc_op c s = Some (p, s')" "\<And>q op. get_op q s = Some op \<Longrightarrow> \<not> po_valid op \<Longrightarrow> po_wake_up_list op = []"
  obtains op where "get_op p s' = Some op" "po_valid op" "po_wake_up_list op = []" "po_wake_up_signaled op = {}" "po_num_srcs op = 0"
    "po_unique_num op = unique_count s" "po_proc_id op = c" "td_map_data s' = td_map_data s" "length (om_ops s) \<le> length (om_ops s')"
    "p < length (om_ops s')" "\<And>op0. get_op p s = Some op0 \<Longrightarrow> \<not> po_valid op0"
    "\<And>q. q \<noteq> p \<Longrightarrow> get_op q s' = (if q < length (om_ops s) then get_op q s else if q < length (om_ops s') then Some (op_pool_init_op zero_op) else None)"
proof -
  from assms(1) obtain s1 op0 s2 where s: "(if om_free s = [] then do { ensure (op_pool_active_ops s = op_pool_entries s); expand_op_pool s } else Some s) = Some s1"
    "p = hd (om_free s1)" "get_op p s1 = Some op0" "\<not> po_valid op0" "op_pool_setup_op c p (upd_op p (\<lambda>op. op\<lparr>po_valid := True\<rparr>) s1) = Some s2"
    "s' = s2\<lparr>op_pool_active_ops := op_pool_active_ops s2 + 1, om_free := tl (om_free s2)\<rparr>"
    by (auto simp: alloc_op_def bind_eq_Some_conv Let_def)
  have "length (om_ops s) \<le> length (om_ops s1) \<and> td_map_data s1 = td_map_data s \<and> unique_count s1 = unique_count s \<and>
    (\<forall>q. get_op q s1 = (if q < length (om_ops s) then get_op q s else if q < length (om_ops s1) then Some (op_pool_init_op zero_op) else None))"
  proof (cases "om_free s = []")
    case True
    then have "expand_op_pool s = Some s1" using s(1) by (auto simp: bind_eq_Some_conv)
    from expand_pool_view [OF this] show ?thesis by blast
  next
    case False
    then have "s1 = s" using s(1) by simp
    then show ?thesis by (simp add: get_op_def)
  qed
  then have v1: "length (om_ops s) \<le> length (om_ops s1)" "td_map_data s1 = td_map_data s" "unique_count s1 = unique_count s"
    "get_op q s1 = (if q < length (om_ops s) then get_op q s else if q < length (om_ops s1) then Some (op_pool_init_op zero_op) else None)" for q
    by blast+
  have "po_wake_up_list op0 = []"
    using v1(4) [of p] s(3,4) assms(2) by (auto simp: op_pool_init_op_def zero_op_def split: if_splits)
  obtain op where op: "get_op p s' = Some op" "po_valid op" "po_wake_up_list op = po_wake_up_list op0" "po_wake_up_signaled op = {}" "po_num_srcs op = 0"
    "po_unique_num op = unique_count s1" "po_proc_id op = c" "td_map_data s' = td_map_data s1" "length (om_ops s') = length (om_ops s1)"
    using s(3,5,6) by (auto simp: op_pool_setup_op_def bind_eq_Some_conv upd_op_def get_op_def split: if_splits)
  have o: "get_op q s' = get_op q s1" if "q \<noteq> p" for q
    using s(5,6) that by (auto simp: op_pool_setup_op_def bind_eq_Some_conv upd_op_def get_op_def)
  have "p < length (om_ops s')" using op(1) by (auto dest: get_opD)
  moreover have "\<not> po_valid op0'" if "get_op p s = Some op0'" for op0' 
  proof -
    have "p < length (om_ops s)" using that by (auto dest: get_opD)
    then show ?thesis using v1(4) [of p] that s(3,4) by simp
  qed
  ultimately show ?thesis using that [OF op(1,2)] op(3-9) v1 o \<open>po_wake_up_list op0 = []\<close> by simp
qed

section \<open>Ops that enter and leave\<close>

definition entered :: "opp \<Rightarrow> uns \<Rightarrow> Counter \<Rightarrow> op_view \<Rightarrow> op_view \<Rightarrow> bool" where
  "entered p c u v v' \<longleftrightarrow> p \<noteq> invalid_op \<and> (\<forall>q op. q \<noteq> p \<and> v q = Some op \<longrightarrow> v' q = Some op) \<and> (\<forall>op. v p = Some op \<longrightarrow> \<not> po_valid op \<and> po_wake_up_list op = []) \<and>
     (\<forall>q op. q \<noteq> p \<and> v q = None \<and> v' q = Some op \<longrightarrow> \<not> po_valid op \<and> po_wake_up_list op = []) \<and>
     (\<exists>op. v' p = Some op \<and> po_valid op \<and> po_wake_up_list op = [] \<and> all_waiting op \<and> po_unique_num op = u \<and> po_proc_id op = c \<and>
        length (po_src_info op) = MAX_DEPS \<and>
        (\<forall>i < unat (po_num_srcs op). v' (sr_op (po_src_info op ! i)) \<noteq> None \<and> sr_unique_num (po_src_info op ! i) < u))"

lemma wake_inv_agree:
  assumes inv: "wake_inv v prog c u" and a: "\<And>d op. v d = Some op \<Longrightarrow> po_valid op \<Longrightarrow> prog' d = prog d"
  shows "wake_inv v prog' c u"
proof -
  have "bits_ok v prog'" unfolding bits_ok_def
  proof (intro allI impI; elim conjE)
    fix d op i assume d: "v d = Some op" "po_valid op" "i < unat (po_num_srcs op)"
    then show "if i < prog' d then (bit (po_srcs_not_rdy_vector op) i \<longleftrightarrow> pending v (po_src_info op ! i)) \<and>
       (pending v (po_src_info op ! i) \<longrightarrow> listed v d op i) else bit (po_srcs_not_rdy_vector op) i"
      using inv unfolding a [OF d(1,2)] wake_inv_def bits_ok_def by blast
  qed
  moreover have "entries_ok v prog'" unfolding entries_ok_def
  proof (intro allI impI; elim conjE)
    fix q src e assume q: "v q = Some src" "e \<in> set (po_wake_up_list src)"
    note old = wake_entryD [OF inv q]
    show "v (wu_op e) \<noteq> None \<and> (\<forall>op. v (wu_op e) = Some op \<and> po_valid op \<and> po_unique_num op = wu_unique_num e \<longrightarrow>
        unat (wu_rdy_bit e) < prog' (wu_op e) \<and> unat (wu_rdy_bit e) < unat (po_num_srcs op) \<and>
        sr_op (po_src_info op ! unat (wu_rdy_bit e)) = q \<and> sr_type (po_src_info op ! unat (wu_rdy_bit e)) = wu_dep_type e \<and>
        sr_unique_num (po_src_info op ! unat (wu_rdy_bit e)) = po_unique_num src)"
      using old(1) old(2) a by (intro conjI allI impI; (elim conjE)?) simp_all
  qed
  ultimately show ?thesis using inv by (simp add: wake_inv_def)
qed

lemma entered_pending:
  assumes inv: "wake_inv v prog c u" and e: "entered p c u v v'" and d: "v d = Some op" "po_valid op" "i < unat (po_num_srcs op)"
  shows "pending v' (po_src_info op ! i) \<longleftrightarrow> pending v (po_src_info op ! i)" "listed v d op i \<Longrightarrow> listed v' d op i"
proof -
  let ?r = "po_src_info op ! i"
  obtain so where so: "v (sr_op ?r) = Some so" using wake_invD(6) [OF inv d] by auto
  have r: "sr_unique_num ?r < u" using wake_invD(3) [OF inv d(1,2)] wake_invD(7) [OF inv d] by (rule less_trans [rotated])
  show "pending v' ?r \<longleftrightarrow> pending v ?r"
  proof (cases "sr_op ?r = p")
    case True
    then have "\<not> po_valid so" "\<exists>np. v' (sr_op ?r) = Some np \<and> po_unique_num np = u" using e so unfolding entered_def by blast+
    then show ?thesis using so r by (auto simp: pending_def)
  next
    case False
    then have "v' (sr_op ?r) = Some so" using e so unfolding entered_def by blast
    then show ?thesis using so by (simp add: pending_def)
  qed
  show "listed v' d op i" if "listed v d op i"
  proof -
    have "po_wake_up_list so \<noteq> []" using that so by (auto simp: listed_def)
    then have "sr_op ?r \<noteq> p" using e so unfolding entered_def by blast
    then have "v' (sr_op ?r) = Some so" using e so unfolding entered_def by blast
    then show ?thesis using that so by (simp add: listed_def)
  qed
qed

lemma entered_inv:
  assumes inv: "wake_inv v prog c u" and e: "entered p c u v v'" and p: "prog p = 0" and u: "u < u + 1"
  shows "wake_inv v' prog c (u + 1)"
proof -
  obtain np where np: "v' p = Some np" "po_valid np" "po_wake_up_list np = []" "all_waiting np" "po_unique_num np = u" "po_proc_id np = c"
    "length (po_src_info np) = MAX_DEPS"
    "\<And>i. i < unat (po_num_srcs np) \<Longrightarrow> v' (sr_op (po_src_info np ! i)) \<noteq> None \<and> sr_unique_num (po_src_info np ! i) < u"
    using e unfolding entered_def by blast
  have old: "v q = Some op \<or> \<not> po_valid op \<and> po_wake_up_list op = []" if "v' q = Some op" "q \<noteq> p" for q op
    using e that unfolding entered_def by (cases "v q") fastforce+
  have keep: "v' q \<noteq> None" if "v q \<noteq> None" for q using e that np(1) unfolding entered_def by (cases "q = p") auto
  have "bits_ok v' prog" unfolding bits_ok_def
  proof (intro allI impI; elim conjE)
    fix d op i assume d: "v' d = Some op" "po_valid op" "i < unat (po_num_srcs op)"
    show "if i < prog d then (bit (po_srcs_not_rdy_vector op) i \<longleftrightarrow> pending v' (po_src_info op ! i)) \<and>
       (pending v' (po_src_info op ! i) \<longrightarrow> listed v' d op i) else bit (po_srcs_not_rdy_vector op) i"
    proof (cases "d = p")
      case True
      then show ?thesis using d np(1,4) p by (simp add: all_waiting_def)
    next
      case False
      then have v: "v d = Some op" using old d by blast
      have "if i < prog d then (bit (po_srcs_not_rdy_vector op) i \<longleftrightarrow> pending v (po_src_info op ! i)) \<and>
         (pending v (po_src_info op ! i) \<longrightarrow> listed v d op i) else bit (po_srcs_not_rdy_vector op) i"
        using inv v d(2,3) unfolding wake_inv_def bits_ok_def by blast
      then show ?thesis using entered_pending [OF inv e v d(2,3)] by (auto split: if_splits)
    qed
  qed
  moreover have "entries_ok v' prog" unfolding entries_ok_def
  proof (intro allI impI; elim conjE)
    fix q src en assume q: "v' q = Some src" "en \<in> set (po_wake_up_list src)"
    then have "q \<noteq> p" "po_wake_up_list src \<noteq> []" using np(1,3) by auto
    then have v: "v q = Some src" using old q(1) by blast
    note o = wake_entryD [OF inv v q(2)]
    have "wu_unique_num en < u" using inv v q(2) unfolding wake_inv_def uniques_ok_def by blast
    then have "v (wu_op en) = Some op" if "v' (wu_op en) = Some op" "po_valid op" "po_unique_num op = wu_unique_num en" for op
      using old [OF that(1)] that np(1,5) by (cases "wu_op en = p") auto
    then show "v' (wu_op en) \<noteq> None \<and> (\<forall>op. v' (wu_op en) = Some op \<and> po_valid op \<and> po_unique_num op = wu_unique_num en \<longrightarrow>
        unat (wu_rdy_bit en) < prog (wu_op en) \<and> unat (wu_rdy_bit en) < unat (po_num_srcs op) \<and>
        sr_op (po_src_info op ! unat (wu_rdy_bit en)) = q \<and> sr_type (po_src_info op ! unat (wu_rdy_bit en)) = wu_dep_type en \<and>
        sr_unique_num (po_src_info op ! unat (wu_rdy_bit en)) = po_unique_num src)"
      using keep [OF o(1)] o(2) by blast
  qed
  moreover have "uniques_ok v' c (u + 1)" unfolding uniques_ok_def
  proof (intro conjI allI impI)
    show "v' invalid_op \<noteq> None" using inv keep by (simp add: wake_inv_def uniques_ok_def)
    fix q op assume q: "v' q = Some op"
    have o: "(\<forall>e \<in> set (po_wake_up_list o1). wu_unique_num e < u) \<and>
        (if po_valid o1 then q \<noteq> invalid_op \<and> po_proc_id o1 = c \<and> po_unique_num o1 < u \<and> unat (po_num_srcs o1) \<le> 32 \<and>
          length (po_src_info o1) = MAX_DEPS \<and>
          (\<forall>i < unat (po_num_srcs o1). v (sr_op (po_src_info o1 ! i)) \<noteq> None \<and> sr_unique_num (po_src_info o1 ! i) < po_unique_num o1)
        else po_wake_up_list o1 = [])" if "v q = Some o1" for o1 using inv that unfolding wake_inv_def uniques_ok_def by blast
    have lt: "w < u + 1" if "w < u" for w using that u by (rule less_trans)
    have "(\<forall>e \<in> set (po_wake_up_list op). wu_unique_num e < u + 1) \<and>
        (if po_valid op then q \<noteq> invalid_op \<and> po_proc_id op = c \<and> po_unique_num op < u + 1 \<and> unat (po_num_srcs op) \<le> 32 \<and>
          length (po_src_info op) = MAX_DEPS \<and>
          (\<forall>i < unat (po_num_srcs op). v' (sr_op (po_src_info op ! i)) \<noteq> None \<and> sr_unique_num (po_src_info op ! i) < po_unique_num op)
        else po_wake_up_list op = [])"
    proof (cases "q = p")
      case True
      then show ?thesis using q np e u by (simp add: all_waiting_def entered_def)
    next
      case False
      then show ?thesis using old [OF q] o keep lt by (cases "v q") auto
    qed
    then show "\<forall>e \<in> set (po_wake_up_list op). wu_unique_num e < u + 1"
      "if po_valid op then q \<noteq> invalid_op \<and> po_proc_id op = c \<and> po_unique_num op < u + 1 \<and> unat (po_num_srcs op) \<le> 32 \<and>
          length (po_src_info op) = MAX_DEPS \<and>
          (\<forall>i < unat (po_num_srcs op). v' (sr_op (po_src_info op ! i)) \<noteq> None \<and> sr_unique_num (po_src_info op ! i) < po_unique_num op)
        else po_wake_up_list op = []" by blast+
  qed
  ultimately show ?thesis by (simp add: wake_inv_def)
qed

definition left_ops :: "opp set \<Rightarrow> op_view \<Rightarrow> op_view \<Rightarrow> bool" where
  "left_ops A v v' \<longleftrightarrow> (\<forall>q. if q \<in> A then v q \<noteq> None \<and> (\<exists>op. v' q = Some op \<and> \<not> po_valid op \<and> po_wake_up_list op = []) else v' q = v q)"

lemma left_inv:
  assumes inv: "wake_inv v prog c u" and l: "left_ops A v v'"
    and w: "\<And>d op i. v d = Some op \<Longrightarrow> po_valid op \<Longrightarrow> d \<notin> A \<Longrightarrow> i < unat (po_num_srcs op) \<Longrightarrow> i < prog d \<Longrightarrow>
      sr_op (po_src_info op ! i) \<in> A \<Longrightarrow> \<not> pending v (po_src_info op ! i)"
  shows "wake_inv v' prog c u"
proof -
  have none: "v' q = None \<longleftrightarrow> v q = None" for q using l by (cases "q \<in> A") (auto simp: left_ops_def dest!: spec [of _ q])
  have gone: "\<not> po_valid op" "po_wake_up_list op = []" if "v' q = Some op" "q \<in> A" for q op
    using l that by (auto simp: left_ops_def dest!: spec [of _ q])
  have stay: "v' q = v q" if "q \<notin> A" for q using l that by (auto simp: left_ops_def)
  have "bits_ok v' prog" unfolding bits_ok_def
  proof (intro allI impI; elim conjE)
    fix d op i assume d: "v' d = Some op" "po_valid op" "i < unat (po_num_srcs op)"
    then have dA: "d \<notin> A" "v d = Some op" using gone stay by (blast, metis)
    have b: "if i < prog d then (bit (po_srcs_not_rdy_vector op) i \<longleftrightarrow> pending v (po_src_info op ! i)) \<and>
       (pending v (po_src_info op ! i) \<longrightarrow> listed v d op i) else bit (po_srcs_not_rdy_vector op) i"
      using inv dA(2) d(2,3) unfolding wake_inv_def bits_ok_def by blast
    show "if i < prog d then (bit (po_srcs_not_rdy_vector op) i \<longleftrightarrow> pending v' (po_src_info op ! i)) \<and>
       (pending v' (po_src_info op ! i) \<longrightarrow> listed v' d op i) else bit (po_srcs_not_rdy_vector op) i"
    proof (cases "sr_op (po_src_info op ! i) \<in> A")
      case True
      then have "\<not> pending v' (po_src_info op ! i)" using gone by (auto simp: pending_def)
      then show ?thesis using b w [OF dA(2) d(2) dA(1) d(3) _ True] by auto
    next
      case False
      have "pending v' (po_src_info op ! i) = pending v (po_src_info op ! i)" "listed v' d op i = listed v d op i"
        using stay [OF False] by (simp_all add: pending_def listed_def)
      then show ?thesis using b by simp
    qed
  qed
  moreover have "entries_ok v' prog" unfolding entries_ok_def
  proof (intro allI impI; elim conjE)
    fix q src e assume q: "v' q = Some src" "e \<in> set (po_wake_up_list src)"
    then have "v q = Some src" using gone(2) stay by (metis empty_iff list.set(1))
    note o = wake_entryD [OF inv this q(2)]
    show "v' (wu_op e) \<noteq> None \<and> (\<forall>op. v' (wu_op e) = Some op \<and> po_valid op \<and> po_unique_num op = wu_unique_num e \<longrightarrow>
        unat (wu_rdy_bit e) < prog (wu_op e) \<and> unat (wu_rdy_bit e) < unat (po_num_srcs op) \<and>
        sr_op (po_src_info op ! unat (wu_rdy_bit e)) = q \<and> sr_type (po_src_info op ! unat (wu_rdy_bit e)) = wu_dep_type e \<and>
        sr_unique_num (po_src_info op ! unat (wu_rdy_bit e)) = po_unique_num src)"
      using o(1) none o(2) gone(1) stay by (metis (no_types, lifting))
  qed
  moreover have "uniques_ok v' c u" unfolding uniques_ok_def
  proof (intro conjI allI impI)
    show "v' invalid_op \<noteq> None" using inv none by (simp add: wake_inv_def uniques_ok_def)
    fix q op assume q: "v' q = Some op"
    have "v q = Some op \<or> \<not> po_valid op \<and> po_wake_up_list op = []" using q gone stay by metis
    moreover have "(\<forall>e \<in> set (po_wake_up_list o1). wu_unique_num e < u) \<and>
        (if po_valid o1 then q \<noteq> invalid_op \<and> po_proc_id o1 = c \<and> po_unique_num o1 < u \<and> unat (po_num_srcs o1) \<le> 32 \<and>
          length (po_src_info o1) = MAX_DEPS \<and>
          (\<forall>i < unat (po_num_srcs o1). v (sr_op (po_src_info o1 ! i)) \<noteq> None \<and> sr_unique_num (po_src_info o1 ! i) < po_unique_num o1)
        else po_wake_up_list o1 = [])" if "v q = Some o1" for o1 using inv that unfolding wake_inv_def uniques_ok_def by blast
    ultimately show "\<forall>e \<in> set (po_wake_up_list op). wu_unique_num e < u"
      "if po_valid op then q \<noteq> invalid_op \<and> po_proc_id op = c \<and> po_unique_num op < u \<and> unat (po_num_srcs op) \<le> 32 \<and>
          length (po_src_info op) = MAX_DEPS \<and>
          (\<forall>i < unat (po_num_srcs op). v' (sr_op (po_src_info op ! i)) \<noteq> None \<and> sr_unique_num (po_src_info op ! i) < po_unique_num op)
        else po_wake_up_list op = []" unfolding none by (auto split: if_splits)
  qed
  ultimately show ?thesis by (simp add: wake_inv_def)
qed

end
