(* ===== verification/Op_Life.thy ===== *)
theory Op_Life
  imports Op_Grow
begin

text \<open>
  The wake-up lists over the life of the window: fetching, scheduling, signalling, retiring and recovering each keep
  the invariant of the lists together with that of the window.
\<close>

section \<open>Freeing\<close>

lemma wake_pool_same:
  assumes "wake_pool s" "same_counts (td_map_data s) (td_map_data s')" "length (om_ops s') \<ge> length (om_ops s)"
    "\<And>q op. view s' q = Some op \<Longrightarrow> po_wake_up_list op \<noteq> [] \<Longrightarrow> view s q = Some op"
    "\<And>q op. view s q = Some op \<Longrightarrow> po_wake_up_list op \<noteq> [] \<Longrightarrow> view s' q = Some op"
  shows "wake_pool s'"
proof -
  have l: "list_len (view s') q = list_len (view s) q" for q
  proof (cases "list_len (view s) q = 0 \<and> list_len (view s') q = 0")
    case False
    then have "(\<exists>op. view s q = Some op \<and> po_wake_up_list op \<noteq> []) \<or> (\<exists>op. view s' q = Some op \<and> po_wake_up_list op \<noteq> [])"
      by (auto simp: list_len_def split: option.splits)
    then have "view s' q = view s q" using assms(4,5) by metis
    then show ?thesis by (simp add: list_len_def)
  qed simp
  have z: "list_len (view s) q = 0" if "q \<ge> length (om_ops s)" for q using that by (simp add: list_len_def view_def get_op_def)
  have "(\<Sum>q < length (om_ops s'). list_len (view s) q) = (\<Sum>q < length (om_ops s). list_len (view s) q)"
    by (rule sum.mono_neutral_right) (use assms(3) z in auto)
  then show ?thesis using assms(1,2,4) unfolding wake_pool_def l same_counts_def by metis
qed

lemma free_op_view:
  assumes "free_op p s = Some s'" "get_op p s = Some op"
  obtains op' where "get_op p s' = Some op'" "\<not> po_valid op'" "po_wake_up_list op' = []" "\<And>q. q \<noteq> p \<Longrightarrow> get_op q s' = get_op q s"
    "length (om_ops s') = length (om_ops s)" "md_free_list (td_map_data s') = md_free_list (td_map_data s) + length (po_wake_up_list op)"
    "md_wake_up_entries (td_map_data s') = md_wake_up_entries (td_map_data s)"
    "md_active_wake_up_entries (td_map_data s') = md_active_wake_up_entries (td_map_data s) - (if po_wake_up_list op = [] then 0 else po_wake_up_count op)"
proof -
  let ?s0 = "upd_op p (\<lambda>op. op\<lparr>po_valid := False\<rparr>) (s\<lparr>op_pool_active_ops := op_pool_active_ops s - 1\<rparr>)"
  obtain t where t: "po_table_info op = Some t" using assms by (auto simp: free_op_def bind_eq_Some_conv Let_def)
  let ?d = "if ti_mem_type t = MEM_ST then delete_store_hash_entry p ?s0 else Some ?s0"
  obtain s1 where s1: "?d = Some s1" using assms t by (cases ?d) (simp_all add: free_op_def Let_def)
  obtain s2 where s2: "free_fake_inst p s1 = Some s2" using assms t s1 by (cases "free_fake_inst p s1") (simp_all add: free_op_def Let_def)
  have s: "?d = Some s1" "free_fake_inst p s1 = Some s2" "free_wake_up_list p (s2\<lparr>om_free := p # om_free s2\<rparr>) = Some s'"
    using assms t s1 s2 by (simp_all add: free_op_def Let_def)
  have 1: "om_ops s1 = om_ops ?s0" "same_counts (td_map_data s) (td_map_data s1)"
    using s(1) by (auto simp: delete_store_hash_entry_def bind_eq_Some_conv same_counts_def upd_op_def split: if_splits)
  have p: "p < length (om_ops s)" "om_ops s ! p = op" using assms(2) by (auto dest: get_opD)
  then have g1: "get_op p s1 = Some (op\<lparr>po_valid := False\<rparr>)" "\<And>q. q \<noteq> p \<Longrightarrow> get_op q s1 = get_op q s" "length (om_ops s1) = length (om_ops s)"
    using 1(1) by (simp_all add: get_op_def upd_op_def)
  obtain o2 where 2: "get_op p s2 = Some o2" "po_valid o2 = False" "po_wake_up_list o2 = po_wake_up_list op" "po_wake_up_count o2 = po_wake_up_count op"
    "td_map_data s2 = td_map_data s1" "\<And>q. q \<noteq> p \<Longrightarrow> get_op q s2 = get_op q s" "length (om_ops s2) = length (om_ops s)"
  proof (cases "po_inst_info op")
    case None
    then have "s2 = s1" using s(2) g1(1) by (simp add: free_fake_inst_def)
    then show ?thesis using that g1 by simp
  next
    case (Some inst)
    then have s2: "s2 = (if ii_fake_inst inst then upd_op p (\<lambda>op. op\<lparr>po_table_info := None, po_inst_info := None\<rparr>) s1 else s1)"
      using s(2) g1(1) by (simp add: free_fake_inst_def)
    have len: "length (om_ops (upd_op p h s1)) = length (om_ops s1)" for h by (simp add: upd_op_def)
    show ?thesis
    proof (cases "ii_fake_inst inst")
      case True
      then show ?thesis
        by (intro that [of "op\<lparr>po_valid := False, po_table_info := None, po_inst_info := None\<rparr>"]) (simp_all add: s2 g1 len)
    next
      case False
      then show ?thesis by (intro that [of "op\<lparr>po_valid := False\<rparr>"]) (simp_all add: s2 g1)
    qed
  qed
  have g: "get_op q (s2\<lparr>om_free := p # om_free s2\<rparr>) = get_op q s2" for q by (simp add: get_op_def)
  show ?thesis
  proof (cases "po_wake_up_list op = []")
    case True
    then have "s' = s2\<lparr>om_free := p # om_free s2\<rparr>" using s(3) g 2(1,3) by (auto simp: free_wake_up_list_def)
    then show ?thesis using that [of o2] g 2 1(2) True by (simp add: same_counts_def)
  next
    case False
    then have "s' = upd_op p (\<lambda>op. op\<lparr>po_wake_up_list := []\<rparr>)
                 (upd_md (\<lambda>md. md\<lparr>md_free_list := md_free_list md + length (po_wake_up_list o2),
                                  md_active_wake_up_entries := md_active_wake_up_entries md - po_wake_up_count o2\<rparr>) (s2\<lparr>om_free := p # om_free s2\<rparr>))"
      using s(3) g 2(1,3) by (auto simp: free_wake_up_list_def)
    then show ?thesis using that [of "o2\<lparr>po_wake_up_list := []\<rparr>"] g 2 1(2) False by (simp add: same_counts_def) (simp add: upd_op_def)
  qed
qed

lemma free_wakes:
  assumes f: "free_op p s = Some s'" and w: "wake_pool s"
  shows "left_ops {p} (view s) (view s') \<and> wake_pool s'"
proof -
  obtain op where op: "get_op p s = Some op" using f by (auto simp: free_op_def bind_eq_Some_conv)
  obtain op' where op': "get_op p s' = Some op'" "\<not> po_valid op'" "po_wake_up_list op' = []" "\<And>q. q \<noteq> p \<Longrightarrow> get_op q s' = get_op q s"
    "length (om_ops s') = length (om_ops s)" "md_free_list (td_map_data s') = md_free_list (td_map_data s) + length (po_wake_up_list op)"
    "md_wake_up_entries (td_map_data s') = md_wake_up_entries (td_map_data s)"
    "md_active_wake_up_entries (td_map_data s') = md_active_wake_up_entries (td_map_data s) - (if po_wake_up_list op = [] then 0 else po_wake_up_count op)"
    using free_op_view [OF f op] by blast
  have v: "view s' q = (if q = p then Some (core op') else view s q)" for q using op'(1,4) by (simp add: view_def)
  have l: "left_ops {p} (view s) (view s')" using op op'(2,3) by (simp add: left_ops_def v) (simp add: view_def)
  let ?n = "length (om_ops s)" and ?c = "if po_wake_up_list op = [] then 0 else po_wake_up_count op"
  have c: "unat ?c = length (po_wake_up_list op)" using wake_pool_count [OF w op] by simp
  have len: "list_len (view s) p = length (po_wake_up_list op)" using op by (simp add: list_len_def view_def)
  have "p < ?n" using op by (auto dest: get_opD)
  then have s: "(\<Sum>q < ?n. list_len (view s) q) = list_len (view s) p + (\<Sum>q \<in> {..< ?n} - {p}. list_len (view s) q)"
    "(\<Sum>q < ?n. list_len (view s') q) = list_len (view s') p + (\<Sum>q \<in> {..< ?n} - {p}. list_len (view s') q)"
    by (simp_all add: sum.remove)
  have "(\<Sum>q \<in> {..< ?n} - {p}. list_len (view s') q) = (\<Sum>q \<in> {..< ?n} - {p}. list_len (view s) q)"
    by (rule sum.cong) (auto simp: list_len_def v)
  moreover have "list_len (view s') p = 0" using op'(3) by (simp add: list_len_def v)
  ultimately have sum: "(\<Sum>q < ?n. list_len (view s) q) = length (po_wake_up_list op) + (\<Sum>q < ?n. list_len (view s') q)" using s len by simp
  have a: "unat (md_active_wake_up_entries (td_map_data s)) = (\<Sum>q < ?n. list_len (view s) q)" using w by (simp add: wake_pool_def)
  then have "?c \<le> md_active_wake_up_entries (td_map_data s)" using c sum by (simp add: word_le_nat_alt)
  then have d: "unat (md_active_wake_up_entries (td_map_data s')) + length (po_wake_up_list op) = unat (md_active_wake_up_entries (td_map_data s))"
    using c a sum by (simp add: op'(8) unat_sub)
  have "\<forall>q op. view s' q = Some op \<and> po_wake_up_list op \<noteq> [] \<longrightarrow> unat (po_wake_up_count op) = length (po_wake_up_list op)"
    using w op'(3) unfolding v wake_pool_def by auto
  then have "wake_pool s'" using w d a sum op'(5-7) by (simp add: wake_pool_def)
  with l show ?thesis by blast
qed

lemma left_trans: "left_ops A v v1 \<Longrightarrow> left_ops B v1 v2 \<Longrightarrow> left_ops (A \<union> B) v v2"
  unfolding left_ops_def by (simp split: if_splits) (metis option.distinct(1))

lemma frees_wakes:
  assumes "loop free_op ps s = Some s'" "wake_pool s"
  shows "left_ops (set ps) (view s) (view s') \<and> wake_pool s'"
  using assms
proof (induction ps arbitrary: s)
  case Nil
  then show ?case by (simp add: left_ops_def)
next
  case (Cons p ps)
  then obtain s1 where s1: "free_op p s = Some s1" "loop free_op ps s1 = Some s'" by (auto simp: bind_eq_Some_conv)
  note f = free_wakes [OF s1(1) Cons.prems(2)]
  have "left_ops (set ps) (view s1) (view s') \<and> wake_pool s'" using Cons.IH [OF s1(2)] f by blast
  then show ?case using left_trans [of "{p}" "view s" "view s1" "set ps" "view s'"] f by simp
qed

section \<open>Recovering\<close>

lemma rebuild_view:
  assumes "recover_thread off_ops fresh agrees n s = Some s'"
  shows "view s' = view s \<and> length (om_ops s') = length (om_ops s) \<and> same_counts (td_map_data s) (td_map_data s') \<and>
    unique_count s' = unique_count s"
proof -
  let ?Q = "\<lambda>s s'. om_ops s' = om_ops s \<and> same_counts (td_map_data s) (td_map_data s') \<and> unique_count s' = unique_count s"
  have t: "?Q s s2" if "?Q s s1" "?Q s1 s2" for s s1 s2 using that by (auto simp: same_counts_def)
  have u: "?Q s s'" if "update_map p s = Some s'" for p s s'
  proof -
    note c = update_map_counts [OF that]
    have "om_ops s' = om_ops s" "unique_count s' = unique_count s" by (subst conjunct1 [OF c], simp)+
    then show ?thesis using c by blast
  qed
  have h: "?Q s s'" if "update_store_hash fresh p s = Some s'" for p s s'
  proof -
    note c = update_store_hash_counts [OF that]
    have "om_ops s' = om_ops s" "unique_count s' = unique_count s" by (subst conjunct1 [OF c], simp)+
    then show ?thesis using c by blast
  qed
  have b: "?Q s s'" if r: "rebuild_op fresh p s = Some s'" for p s s'
  proof -
    obtain s1 where s1: "update_map p s = Some s1" "s' = s1 \<or> update_store_hash fresh p s1 = Some s'"
      using r by (simp add: rebuild_op_def bind_eq_Some_conv) (metis option.inject)
    have "?Q s1 s'" using s1(2) h by (auto simp: same_counts_def)
    then show ?thesis using t [OF u [OF s1(1)]] by blast
  qed
  have l: "?Q s s'" if "loop (rebuild_op fresh) ps s = Some s'" for ps s s'
    by (rule loop_inv [OF that, of "?Q s"]) (use b t in \<open>blast | simp add: same_counts_def\<close>)+
  obtain s1 h where s1: "recover_seq_op_list n s = Some s1" "rebuild_offpath_map fresh (s1\<lparr>td_map_data :=
      (td_map_data s1)\<lparr>md_map_flags := map (\<lambda>_. False) (md_map_flags (td_map_data s1)), md_last_store_flag := False, md_oracle_mem_hash := h\<rparr>\<rparr>) = Some s'"
    using assms by (auto simp: recover_thread_def recover_map_def Let_def bind_eq_Some_conv)
  have "\<exists>l. s1 = s\<lparr>td_seq_op_list := l\<rparr>"
  proof (cases "td_seq_op_list s")
    case Nil
    then have "s1 = s\<lparr>td_seq_op_list := td_seq_op_list s\<rparr>" using s1(1) by (simp add: recover_seq_op_list_def)
    then show ?thesis by blast
  next
    case (Cons p ps)
    then show ?thesis using s1(1) by (auto simp: recover_seq_op_list_def bind_eq_Some_conv split: if_splits)
  qed
  then have "?Q s s1" by (auto simp: same_counts_def)
  moreover have "?Q s1 s'" using s1(2) l by (auto simp: rebuild_offpath_map_def same_counts_def)
  ultimately have "?Q s s'" using t by blast
  then show ?thesis by (simp add: view_def get_op_def fun_eq_iff)
qed

end
