(* ===== verification/Op_Keep.thy ===== *)
theory Op_Keep
  imports Op_Life
begin

text \<open>
  The invariant of the window and of the wake-up lists together, and that each operation keeps it.
\<close>

section \<open>The invariant\<close>

text \<open>\<open>S\<close> are the ops that have been scheduled; an op has at most 32 sources.\<close>

definition progress :: "opp set \<Rightarrow> opp \<Rightarrow> nat" where
  "progress S p = (if p \<in> S then 32 else 0)"

definition uniq :: "Win_Op list \<Rightarrow> Counter \<Rightarrow> bool" where
  "uniq H u \<longleftrightarrow> sorted_wrt (\<lambda>x y. wo_unique x < wo_unique y) H \<and> (\<forall>x \<in> set H. wo_unique x < u) \<and> 0 < u"

definition life_inv :: "Op_Machine \<Rightarrow> Win_Op list \<Rightarrow> Win_Op list \<Rightarrow> opp set \<Rightarrow> bool" where
  "life_inv s R W S \<longleftrightarrow> window s R W \<and> wake_inv (view s) (progress S) (td_proc_id s) (unique_count s) \<and> wake_pool s \<and>
     S \<subseteq> wo_ptr ` set W \<and> uniq (R @ W) (unique_count s) \<and> (\<forall>x \<in> set R. wo_ptr x < length (om_ops s))"

section \<open>Scheduling and signalling\<close>

lemma steady_rest:
  assumes "steady s s'"
  shows "td_proc_id s' = td_proc_id s" "td_seq_op_list s' = td_seq_op_list s" "op_count s' = op_count s" "om_free s' = om_free s"
    "op_pool_entries s' = op_pool_entries s" "op_pool_active_ops s' = op_pool_active_ops s" "unique_count s' = unique_count s"
    "length (om_ops s') = length (om_ops s)"
proof -
  have e: "s' = s\<lparr>om_ops := om_ops s', td_map_data := td_map_data s', rdy_head := rdy_head s'\<rparr>" using assms by (simp add: steady_def)
  show "td_proc_id s' = td_proc_id s" "td_seq_op_list s' = td_seq_op_list s" "op_count s' = op_count s" "om_free s' = om_free s"
    "op_pool_entries s' = op_pool_entries s" "op_pool_active_ops s' = op_pool_active_ops s" "unique_count s' = unique_count s"
    by (subst e, simp)+
  show "length (om_ops s') = length (om_ops s)" using assms by (simp add: steady_def)
qed

lemma steady_window:
  assumes st: "steady s s'" and w: "window s R W"
  shows "window s' R W"
proof -
  note win = w [unfolded window_def] and rest = steady_rest [OF st]
  have md: "same_maps (td_map_data s) (td_map_data s')" "md_oracle_mem_hash (td_map_data s') = md_oracle_mem_hash (td_map_data s)"
    and k: "kept (view s) (view s')" using st by (simp_all add: steady_def)
  have "pool_ok s' (map wo_ptr W)"
  proof -
    have "\<not> po_valid (om_ops s' ! p) \<and> length (po_src_info (om_ops s' ! p)) = MAX_DEPS" if "p \<in> set (om_free s)" for p
    proof -
      have p: "p < length (om_ops s)" "\<not> po_valid (om_ops s ! p)" "length (po_src_info (om_ops s ! p)) = MAX_DEPS"
        using win that pool_free_bound(1) [of s "map wo_ptr W" p] by (auto simp: pool_ok_def)
      then have "get_op p s = Some (om_ops s ! p)" by (simp add: get_op_def)
      then obtain op' where "get_op p s' = Some op'" "ident (core op') = ident (core (om_ops s ! p))" by (rule kept_get [OF k])
      then show ?thesis using p(2,3) ident_core(1,6) by (metis get_opD)
    qed
    then show ?thesis using win by (simp add: pool_ok_def rest)
  qed
  moreover have "win_ops (td_proc_id s') s' W"
  proof -
    have "\<exists>op. get_op (wo_ptr x) s' = Some op \<and> op_is (td_proc_id s) x op" if x: "x \<in> set W" for x
    proof -
      have ww: "win_ops (td_proc_id s) s W" using win by blast
      obtain op where op: "get_op (wo_ptr x) s = Some op" "op_is (td_proc_id s) x op" by (rule win_opsD [OF ww x])
      obtain op' where op': "get_op (wo_ptr x) s' = Some op'" "ident (core op') = ident (core op)" by (rule kept_get [OF k op(1)])
      show ?thesis using op'(1) op(2) ident_core [OF op'(2)] by (simp add: op_is_def)
    qed
    then show ?thesis using win rest(1) by (simp add: win_ops_def)
  qed
  moreover have "regs_ok (R @ W) (td_map_data s')" using win regs_ok_same [OF md(1)] by simp
  moreover have "md_proc_id (td_map_data s') = td_proc_id s'" using win md(1) rest(1) by (simp add: same_maps_def)
  ultimately show ?thesis using win md(2) rest unfolding window_def by simp
qed

lemma life_op:
  assumes "life_inv s R W S" "x \<in> set W"
  obtains op where "get_op (wo_ptr x) s = Some op" "op_is (td_proc_id s) x op"
proof -
  have w: "win_ops (td_proc_id s) s W" using assms(1) by (simp add: life_inv_def window_def)
  show ?thesis by (rule win_opsD [OF w assms(2)]) (rule that)
qed

text \<open>The ops that are in use are those of the window.\<close>

lemma valid_in_window:
  assumes "life_inv s R W S" "view s q = Some op" "po_valid op"
  shows "q \<in> wo_ptr ` set W"
proof -
  have inv: "wake_inv (view s) (progress S) (td_proc_id s) (unique_count s)" and pool: "pool_ok s (map wo_ptr W)"
    using assms(1) by (simp_all add: life_inv_def window_def)
  obtain o' where o': "get_op q s = Some o'" "core o' = op" by (rule view_get [OF assms(2)])
  have "po_valid o'" using o'(2) assms(3) by (metis core_simps(1))
  moreover have "q \<noteq> 0" using wake_invD(1) [OF inv assms(2,3)] by (simp add: invalid_op_def)
  moreover have "q < length (om_ops s)" "om_ops s ! q = o'" using get_opD [OF o'(1)] by auto
  ultimately have "q \<in> set (om_free s @ map wo_ptr W)" "q \<notin> set (om_free s)" using pool by (auto simp: pool_ok_def)
  then show ?thesis by auto
qed

context waking begin

lemma schedule_keeps:
  assumes l: "life_inv s R W S" and x: "x \<in> set W" "wo_ptr x \<notin> S" and c: "td_proc_id s = c"
    and room: "unat (md_active_wake_up_entries (td_map_data s)) + 32 \<le> WAKE_UP_ENTRIES_INC * 127"
  shows "\<exists>s'. add_to_wake_up_lists P act (wo_ptr x) s = Some s' \<and> life_inv s' R W (insert (wo_ptr x) S)"
proof -
  let ?p = "wo_ptr x"
  obtain op where op: "get_op ?p s = Some op" "op_is (td_proc_id s) x op" by (rule life_op [OF l x(1)])
  have inv: "wake_inv (view s) (progress S) c (unique_count s)" using l c by (simp add: life_inv_def)
  have "po_valid op" "progress S ?p = 0" "wake_pool s" "md_proc_id (td_map_data s) = c"
    using op(2) x(2) l c by (simp_all add: op_is_def progress_def life_inv_def window_def)
  from schedule_ok [OF inv op(1) this(1,2,3) room this(4)] obtain s' where s': "add_to_wake_up_lists P act ?p s = Some s'"
    "wake_inv (view s') ((progress S)(?p := unat (po_num_srcs op))) c (unique_count s)" "wake_pool s'" "steady s s'" by blast
  note rest = steady_rest [OF s'(4)]
  have "unat (po_num_srcs op) \<le> 32" using wake_invD(4) [OF inv, of ?p "core op"] op \<open>po_valid op\<close> by (simp add: view_def)
  moreover obtain op' where op': "get_op ?p s' = Some op'" "ident (core op') = ident (core op)"
    using s'(4) kept_get [OF _ op(1)] by (auto simp: steady_def)
  ultimately have n: "view s' ?p = Some (core op')" "unat (po_num_srcs (core op')) = unat (po_num_srcs op)" "unat (po_num_srcs op) \<le> 32"
    using ident_core(5) [OF op'(2)] by (simp_all add: view_def)
  have "wake_inv (view s') ((progress S)(?p := unat (po_num_srcs op), ?p := 32)) c (unique_count s)"
    by (rule wake_inv_progress [OF s'(2) n(1)]) (use n(2,3) in simp_all)
  moreover have "(progress S)(?p := unat (po_num_srcs op), ?p := 32) = progress (insert ?p S)"
    by (simp add: progress_def fun_eq_iff)
  ultimately have "wake_inv (view s') (progress (insert ?p S)) c (unique_count s)" by simp
  then have "life_inv s' R W (insert ?p S)"
    using l s'(3) steady_window [OF s'(4)] rest x(1) c by (simp add: life_inv_def)
  then show ?thesis using s'(1) by blast
qed

lemma signal_keeps:
  assumes l: "life_inv s R W S" and x: "x \<in> set W" "get_op (wo_ptr x) s = Some op" "t \<notin> po_wake_up_signaled op \<or> po_replay op"
    and c: "td_proc_id s = c"
  shows "\<exists>s'. wake_up_ops (wo_ptr x) t act s = Some s' \<and> life_inv s' R W S"
proof -
  let ?p = "wo_ptr x"
  have v: "po_valid op" using life_op [OF l x(1)] x(2) by (auto simp: op_is_def)
  have inv: "wake_inv (view s) (progress S) c (unique_count s)" using l c by (simp add: life_inv_def)
  obtain s' C where s': "wake_up_ops ?p t act s = Some s'" "wake_inv (view s') (progress S) c (unique_count s)" "calm s s'"
    "signalled ?p t C (view s) (view s')" using wake_up_ops_ok [OF inv x(2) v x(3)] by blast
  have e: "s' = s\<lparr>om_ops := om_ops s', rdy_head := rdy_head s'\<rparr>" "length (om_ops s') = length (om_ops s)" using s'(3) by (simp_all add: calm_def)
  have m: "td_map_data s' = td_map_data s" by (subst e(1)) simp
  have st: "steady s s'"
    using e m signalled_kept [OF s'(4)] by (simp add: steady_def same_maps_def)
  note rest = steady_rest [OF st]
  have "wake_pool s'"
  proof -
    have w: "wake_pool s" using l by (simp add: life_inv_def)
    have len: "list_len (view s') = list_len (view s)"
    proof
      fix q show "list_len (view s') q = list_len (view s) q"
        using signalled_lists [OF s'(4), of q] by (cases "view s q"; cases "view s' q") (simp_all add: list_len_def)
    qed
    have "unat (po_wake_up_count o') = length (po_wake_up_list o')" if o': "view s' q = Some o'" "po_wake_up_list o' \<noteq> []" for q o'
    proof -
      from signalled_back [OF s'(4) o'(1)] obtain o1 w where o1: "view s q = Some o1" "o' = o1\<lparr>po_srcs_not_rdy_vector := w,
          po_wake_up_signaled := (if q = ?p then insert t (po_wake_up_signaled o1) else po_wake_up_signaled o1)\<rparr>" by blast
      then show ?thesis using w o'(2) by (auto simp: wake_pool_def)
    qed
    then have "\<forall>q op. view s' q = Some op \<and> po_wake_up_list op \<noteq> [] \<longrightarrow> unat (po_wake_up_count op) = length (po_wake_up_list op)" by blast
    then show ?thesis using w m e(2) len unfolding wake_pool_def by simp
  qed
  then have "life_inv s' R W S" using l s'(2) steady_window [OF st] rest c by (simp add: life_inv_def)
  then show ?thesis using s'(1) by blast
qed

end

section \<open>Fetching\<close>

lemma source_of_window:
  assumes "r \<in> set (op_sources P R W f)"
  shows "(sr_op r = 0 \<and> sr_unique_num r = 0) \<or> (\<exists>x \<in> set (R @ W). sr_op r = wo_ptr x \<and> sr_unique_num r = wo_unique x)"
proof -
  have e: "(me_op en = 0 \<and> me_unique_num en = 0) \<or> (\<exists>x \<in> set H. me_op en = wo_ptr x \<and> me_unique_num en = wo_unique x)"
    if "en = entry_of (youngest Q H)" for en Q H
    using that youngest_Some [of Q H] by (cases "youngest Q H") (auto simp: entry_of_def zero_entry_def invalid_op_def)
  have ls: "set (load_stores W bs) \<subseteq> set W" for bs
    by (auto simp: load_stores_def List.map_filter_def dest: youngest_Some)
  have "r \<in> set (reg_sources (R @ W) f) \<or> r \<in> set (addr_sources P (R @ W) f) \<or> r \<in> set (load_sources P W f)"
    using assms by (simp add: op_sources_def)
  then show ?thesis
  proof (elim disjE)
    assume "r \<in> set (reg_sources (R @ W) f)"
    then obtain Q where "r = src_of REG_DATA_DEP (entry_of (youngest Q (R @ W)))" by (auto simp: reg_sources_def)
    then show ?thesis using e [of _ Q "R @ W"] by (simp add: src_of_def)
  next
    assume "r \<in> set (addr_sources P (R @ W) f)"
    then have "r = src_of MEM_ADDR_DEP (entry_of (youngest is_store (R @ W)))" by (simp add: addr_sources_def split: if_splits)
    then show ?thesis using e [of _ is_store "R @ W"] by (simp add: src_of_def)
  next
    assume "r \<in> set (load_sources P W f)"
    then have "\<exists>x \<in> set W. r = mem_src x"
    proof (cases "MEM_OOO_STORES P")
      case True
      then show ?thesis using \<open>r \<in> set (load_sources P W f)\<close> ls by (auto simp: load_sources_def split: if_splits)
    next
      case False
      then show ?thesis using \<open>r \<in> set (load_sources P W f)\<close>
        by (auto simp: load_sources_def split: if_splits option.splits dest!: youngest_Some [OF sym])
    qed
    then show ?thesis by (auto simp: mem_src_def src_of_def entry_of_def)
  qed
qed

lemma wake_free_list:
  assumes "wake_inv (view s) prog c u" "get_op q s = Some op" "\<not> po_valid op"
  shows "po_wake_up_list op = []"
proof -
  have "view s q = Some (core op)" using assms(2) by (simp add: view_def)
  then have "if po_valid (core op) then True else po_wake_up_list (core op) = []"
    using assms(1) unfolding wake_inv_def uniques_ok_def by (metis (no_types, lifting))
  then show ?thesis using assms(3) by simp
qed

lemma fetch_keeps:
  assumes l: "life_inv s R W S" and f: "can_fetch P s W f" "unique_count s + 1 \<noteq> 0"
    and P: "MEM_OBEY_STORE_DEP P" "entry_ok (fresh\<lparr>mm_store_mask := 0\<rparr>)" and s': "fetch_op P fresh f s = Some (p, s')"
  shows "life_inv s' R (W @ [fetched_op p f s]) S"
proof -
  let ?x = "fetched_op p f s" and ?u = "unique_count s" and ?c = "td_proc_id s"
  have w: "window s R W" and inv: "wake_inv (view s) (progress S) ?c ?u" and pool: "wake_pool s" and S: "S \<subseteq> wo_ptr ` set W"
    and u: "uniq (R @ W) ?u" and R: "\<forall>x \<in> set R. wo_ptr x < length (om_ops s)" using l by (simp_all add: life_inv_def)
  obtain op s1 where o: "window s' R (W @ [?x])" "td_proc_id s' = ?c" "get_op p s' = Some op" "srcs op = op_sources P R W f"
    "unique_count s' = ?u + 1" "alloc_op ?c s = Some (p, s1)" "length (om_ops s') = length (om_ops s1)" "\<And>q. q \<noteq> p \<Longrightarrow> get_op q s' = get_op q s1"
    using fetch_ok [OF w f(1) P] s' by auto
  have empty: "po_wake_up_list op = []" if "get_op q s = Some op" "\<not> po_valid op" for q op
    by (rule wake_free_list [OF inv that])
  obtain op1 where a: "get_op p s1 = Some op1" "po_wake_up_list op1 = []" "po_num_srcs op1 = 0" "td_map_data s1 = td_map_data s"
    "length (om_ops s) \<le> length (om_ops s1)" "\<And>op0. get_op p s = Some op0 \<Longrightarrow> \<not> po_valid op0"
    "\<And>q. q \<noteq> p \<Longrightarrow> get_op q s1 = (if q < length (om_ops s) then get_op q s else if q < length (om_ops s1) then Some (op_pool_init_op zero_op) else None)"
    by (rule alloc_view [OF o(6)]) (erule (1) empty, (rule that; (assumption | blast)))
  have g: "grown (fill_op f op1) op" "same_counts (td_map_data s) (td_map_data s')"
    using fetch_grows [OF s' o(6) a(1)] o(3) a(4) by auto
  have others: "view s' q = (if q < length (om_ops s) then view s q else if q < length (om_ops s1) then Some (core (op_pool_init_op zero_op)) else None)"
    if "q \<noteq> p" for q using o(8) [OF that] a(7) [OF that] by (simp add: view_def)
  have vp: "view s' p = Some (core op)" using o(3) by (simp add: view_def)
  have is_op: "op_is ?c ?x op"
  proof -
    have ww: "win_ops (td_proc_id s') s' (W @ [?x])" using o(1) by (simp add: window_def)
    show ?thesis by (rule win_opsD [OF ww, of ?x]) (use o(2,3) in \<open>auto simp: fetched_op_def\<close>)
  qed
  have z: "po_wake_up_list (core (op_pool_init_op zero_op)) = []" "\<not> po_valid (core (op_pool_init_op zero_op))"
    by (simp_all add: op_pool_init_op_def zero_op_def)
  have e: "entered p ?c ?u (view s) (view s')" unfolding entered_def
  proof (intro conjI allI impI; (elim conjE)?)
    have "pool_ok s' (map wo_ptr (W @ [?x]))" using o(1) by (simp add: window_def)
    then show "p \<noteq> invalid_op" using pool_okD(2) [of s' "map wo_ptr (W @ [?x])" p] by (simp add: fetched_op_def invalid_op_def)
    show "view s' q = Some o'" if "q \<noteq> p" "view s q = Some o'" for q o'
      using others [OF that(1)] that(2) by (auto simp: view_def dest: get_opD)
    show "\<not> po_valid o'" "po_wake_up_list o' = []" if "view s p = Some o'" for o'
      using view_get [OF that] a(6) empty by (metis core_simps(1), metis core_simps(8))
    show "\<not> po_valid o'" "po_wake_up_list o' = []" if "q \<noteq> p" "view s q = None" "view s' q = Some o'" for q o'
    proof -
      have "\<not> q < length (om_ops s)" using that(2) by (auto simp: view_def get_op_def split: if_splits)
      then have "o' = core (op_pool_init_op zero_op)" using others [OF that(1)] that(3) by (simp split: if_splits)
      then show "\<not> po_valid o'" "po_wake_up_list o' = []" using z by simp_all
    qed
    have n: "po_src_info (core op) ! i \<in> set (op_sources P R W f)" if "i < unat (po_num_srcs op)" for i
    proof -
      have "all_waiting op" using g(1) a(3) by (simp add: grown_def fill_op_def all_waiting_def)
      then have "i < length (srcs op)" using that is_op by (simp add: srcs_def op_is_def all_waiting_def MAX_DEPS_def)
      moreover have "srcs op ! i = po_src_info op ! i" using that by (simp add: srcs_def)
      ultimately show ?thesis using o(4) nth_mem by fastforce
    qed
    have src: "view s' (sr_op r) \<noteq> None \<and> sr_unique_num r < ?u" if "r \<in> set (op_sources P R W f)" for r
    proof -
      have len: "wo_ptr x < length (om_ops s)" if "x \<in> set (R @ W)" for x
        using that R life_op [OF l, of x] by (auto dest: get_opD)
      have "0 < length (om_ops s)" using inv by (auto simp: wake_inv_def uniques_ok_def view_def invalid_op_def get_op_def)
      then have "sr_op r < length (om_ops s) \<and> sr_unique_num r < ?u"
        using source_of_window [OF that] len u unfolding uniq_def by (metis (no_types, lifting))
      then show ?thesis using a(5) o(7) by (simp add: view_def get_op_def)
    qed
    show "\<exists>op. view s' p = Some op \<and> po_valid op \<and> po_wake_up_list op = [] \<and> all_waiting op \<and> po_unique_num op = ?u \<and> po_proc_id op = ?c \<and>
        length (po_src_info op) = MAX_DEPS \<and>
        (\<forall>i < unat (po_num_srcs op). view s' (sr_op (po_src_info op ! i)) \<noteq> None \<and> sr_unique_num (po_src_info op ! i) < ?u)"
    proof (intro exI [of _ "core op"] conjI allI impI)
      show "all_waiting (core op)" "po_wake_up_list (core op) = []"
        using g(1) a(2,3) by (simp_all add: grown_def fill_op_def all_waiting_def)
    qed (use vp is_op src n in \<open>auto simp: op_is_def fetched_op_def\<close>)
  qed
  have p: "p \<notin> S" 
  proof
    assume "p \<in> S"
    then obtain x where "x \<in> set W" "wo_ptr x = p" using S by auto
    then show False using life_op [OF l, of x] a(6) by (auto simp: op_is_def)
  qed
  have lt: "?u < ?u + 1" using f(2) by (rule less_next)
  have "wake_inv (view s') (progress S) ?c (?u + 1)" by (rule entered_inv [OF inv e _ lt]) (use p in \<open>simp add: progress_def\<close>)
  moreover have "wake_pool s'"
  proof (rule wake_pool_same [OF pool g(2)])
    show "length (om_ops s) \<le> length (om_ops s')" using a(5) o(7) by simp
    show "view s q = Some o'" if "view s' q = Some o'" "po_wake_up_list o' \<noteq> []" for q o'
    proof -
      have "q \<noteq> p" using that vp g(1) a(2) by (auto simp: grown_def fill_op_def)
      then show ?thesis using others [of q] that z by (auto split: if_splits)
    qed
    show "view s' q = Some o'" if "view s q = Some o'" "po_wake_up_list o' \<noteq> []" for q o'
      using that e unfolding entered_def by metis
  qed
  moreover have "uniq (R @ W @ [?x]) (?u + 1)"
  proof -
    have "wo_unique y < ?u + 1" if "y \<in> set (R @ W)" for y using u that lt unfolding uniq_def by (metis less_trans)
    moreover have "wo_unique ?x = ?u" by (simp add: fetched_op_def)
    ultimately show ?thesis using u lt unfolding uniq_def by (auto simp: sorted_wrt_append)
  qed
  moreover have "\<forall>x \<in> set R. wo_ptr x < length (om_ops s')" using R a(5) o(7) by auto
  ultimately show ?thesis using o(1,2,5) S unfolding life_inv_def by auto
qed

section \<open>Retiring and recovering\<close>

lemma free_unique: "free_op p s = Some s' \<Longrightarrow> unique_count s' = unique_count s"
proof -
  assume f: "free_op p s = Some s'"
  let ?s0 = "upd_op p (\<lambda>op. op\<lparr>po_valid := False\<rparr>) (s\<lparr>op_pool_active_ops := op_pool_active_ops s - 1\<rparr>)"
  obtain op where op: "get_op p s = Some op" using f by (cases "get_op p s") (simp_all add: free_op_def)
  obtain t where t: "po_table_info op = Some t" using f op by (cases "po_table_info op") (auto simp: free_op_def Let_def ensure_def)
  let ?d = "if ti_mem_type t = MEM_ST then delete_store_hash_entry p ?s0 else Some ?s0"
  obtain s1 where s1: "?d = Some s1" using f op t by (cases ?d) (auto simp: free_op_def Let_def ensure_def)
  obtain s2 where s2: "free_fake_inst p s1 = Some s2" using f op t s1 by (cases "free_fake_inst p s1") (auto simp: free_op_def Let_def ensure_def)
  have s3: "free_wake_up_list p (s2\<lparr>om_free := p # om_free s2\<rparr>) = Some s'"
    using f op t s1 s2 by (auto simp: free_op_def Let_def)
  have "unique_count s1 = unique_count s"
    using s1 by (auto simp: delete_store_hash_entry_def bind_eq_Some_conv upd_op_def split: if_splits)
  moreover have "unique_count s2 = unique_count s1"
    using s2 by (auto simp: free_fake_inst_def bind_eq_Some_conv upd_op_def split: option.splits if_splits)
  moreover have "unique_count s' = unique_count s2"
    using s3 by (auto simp: free_wake_up_list_def bind_eq_Some_conv upd_op_def split: if_splits)
  ultimately show ?thesis by simp
qed

lemma frees_unique: "loop free_op ps s = Some s' \<Longrightarrow> unique_count s' = unique_count s"
  by (rule loop_inv [of free_op ps s s' "\<lambda>s'. unique_count s' = unique_count s"]) (auto dest: free_unique)

lemma left_length:
  assumes "left_ops A (view s) (view s')"
  shows "length (om_ops s) \<le> length (om_ops s')"
proof (rule ccontr)
  assume "\<not> length (om_ops s) \<le> length (om_ops s')"
  then have "view s (length (om_ops s')) \<noteq> None" "view s' (length (om_ops s')) = None" by (simp_all add: view_def get_op_def)
  then show False using assms unfolding left_ops_def by (metis option.distinct(1))
qed

lemma view_cong: "om_ops s' = om_ops s \<Longrightarrow> view s' = view s"
  by (simp add: view_def get_op_def fun_eq_iff)

lemma wake_pool_cong: "om_ops s' = om_ops s \<Longrightarrow> td_map_data s' = td_map_data s \<Longrightarrow> wake_pool s' = wake_pool s"
  using view_cong [of s' s] by (simp add: wake_pool_def)

lemma progress_less: "d \<notin> A \<Longrightarrow> progress (S - A) d = progress S d"
  by (simp add: progress_def)

text \<open>What both have in common: the ops of \<open>A\<close> leave, and no scheduled op that stays waits for one of them.\<close>

lemma leave_keeps:
  assumes inv: "wake_inv (view s) (progress S) c u" and l: "left_ops A (view s) (view s')"
    and w: "\<And>d op i. view s d = Some op \<Longrightarrow> po_valid op \<Longrightarrow> d \<in> S \<Longrightarrow> d \<notin> A \<Longrightarrow> i < unat (po_num_srcs op) \<Longrightarrow>
      sr_op (po_src_info op ! i) \<in> A \<Longrightarrow> \<not> pending (view s) (po_src_info op ! i)"
  shows "wake_inv (view s') (progress (S - A)) c u"
proof -
  have "wake_inv (view s') (progress S) c u"
    by (rule left_inv [OF inv l]) (use w in \<open>auto simp: progress_def split: if_splits\<close>)
  then show ?thesis
  proof (rule wake_inv_agree)
    fix d op assume "view s' d = Some op" "po_valid op"
    then have "d \<notin> A" using l unfolding left_ops_def by (metis option.inject)
    then show "progress (S - A) d = progress S d" by (rule progress_less)
  qed
qed

text \<open>An op may retire when it has signalled all that its list waits for.\<close>

definition all_signalled :: "Pool_Op \<Rightarrow> bool" where
  "all_signalled op \<longleftrightarrow> (\<forall>e \<in> set (po_wake_up_list op). wu_dep_type e \<in> po_wake_up_signaled op)"

lemma retire_keeps:
  assumes l: "life_inv s R (x # W) S" and x: "\<not> wo_off x" "get_op (wo_ptr x) s = Some op" "all_signalled op"
    and s': "retire_op (wo_ptr x) s = Some s'"
  shows "life_inv s' (R @ [x]) W (S - {wo_ptr x})"
proof -
  let ?p = "wo_ptr x" and ?c = "td_proc_id s" and ?u = "unique_count s"
  have w: "window s R (x # W)" and inv: "wake_inv (view s) (progress S) ?c ?u" and pool: "wake_pool s" and S: "S \<subseteq> wo_ptr ` set (x # W)"
    and u: "uniq (R @ x # W) ?u" and R: "\<forall>x \<in> set R. wo_ptr x < length (om_ops s)" using l by (simp_all add: life_inv_def)
  have o: "window s' (R @ [x]) W" "td_proc_id s' = ?c" using retire_ok [OF w x(1)] s' by auto
  obtain s1 where s1: "remove_from_seq_op_list ?p s = Some s1" "free_op ?p s1 = Some s'" using s' by (auto simp: retire_op_def bind_eq_Some_conv)
  have "s1 = s\<lparr>td_seq_op_list := td_seq_op_list s1\<rparr>"
    using s1(1) by (auto simp: remove_from_seq_op_list_def remove_next_from_seq_op_list_def bind_eq_Some_conv split: list.splits)
  then have e: "om_ops s1 = om_ops s" "td_map_data s1 = td_map_data s" "unique_count s1 = ?u" by (metis Op_Machine.select_convs Op_Machine.update_convs(7) Op_Machine.surjective)+
  have v1: "view s1 = view s" by (rule view_cong [OF e(1)])
  have p1: "wake_pool s1" using wake_pool_cong [OF e(1,2)] pool by blast
  note f = free_wakes [OF s1(2) p1, unfolded v1]
  have "wake_inv (view s') (progress (S - {?p})) ?c ?u"
  proof (rule leave_keeps [OF inv])
    show "left_ops {?p} (view s) (view s')" using f by blast
    fix d dop i assume d: "view s d = Some dop" "po_valid dop" "d \<in> S" "i < unat (po_num_srcs dop)" "sr_op (po_src_info dop ! i) \<in> {?p}"
    show "\<not> pending (view s) (po_src_info dop ! i)"
    proof
      assume pd: "pending (view s) (po_src_info dop ! i)"
      have "i < progress S d" using wake_invD(4) [OF inv d(1,2)] d(3,4) by (simp add: progress_def)
      then have "listed (view s) d dop i" using inv d(1,2,4) pd unfolding wake_inv_def bits_ok_def by metis
      then have "sr_type (po_src_info dop ! i) \<in> po_wake_up_signaled op" using x(2,3) d(5) by (auto simp: listed_def view_def all_signalled_def)
      then show False using pd x(2) d(5) by (auto simp: pending_def view_def)
    qed
  qed
  moreover have "S - {?p} \<subseteq> wo_ptr ` set W" using S by auto
  moreover have len: "length (om_ops s) \<le> length (om_ops s')" using left_length f by blast
  moreover have "?p < length (om_ops s)" using x(2) by (auto dest: get_opD)
  ultimately show ?thesis
    using o f u R free_unique [OF s1(2)] e(3) unfolding life_inv_def by auto
qed

lemma recover_keeps:
  assumes l: "life_inv s R (K @ D) S" and r: "can_recover s K D n" "mset F = mset D" "off_ops \<longrightarrow> agrees"
    and f: "entry_ok (fresh\<lparr>mm_store_mask := 0\<rparr>)" and s': "recover_window off_ops fresh agrees n (map wo_ptr F) s = Some s'"
  shows "life_inv s' R K (S - wo_ptr ` set D)"
proof -
  let ?c = "td_proc_id s" and ?u = "unique_count s" and ?A = "wo_ptr ` set D"
  have w: "window s R (K @ D)" and inv: "wake_inv (view s) (progress S) ?c ?u" and pool: "wake_pool s" and S: "S \<subseteq> wo_ptr ` set (K @ D)"
    and u: "uniq (R @ K @ D) ?u" and R: "\<forall>x \<in> set R. wo_ptr x < length (om_ops s)" using l by (simp_all add: life_inv_def)
  have o: "window s' R K" "td_proc_id s' = ?c" using recover_ok [OF w r f] s' by auto
  obtain s1 s2 where s1: "recover_thread off_ops fresh agrees n s = Some s1" "loop free_op (map wo_ptr F) s1 = Some s2" "s' = s2\<lparr>op_count := n + 1\<rparr>"
    using s' by (auto simp: recover_window_def bind_eq_Some_conv)
  note b = rebuild_view [OF s1(1)]
  have p1: "wake_pool s1" by (rule wake_pool_same [OF pool]) (use b in auto)
  have A: "set (map wo_ptr F) = ?A" using mset_eq_setD [OF r(2)] by simp
  have e: "om_ops s' = om_ops s2" "td_map_data s' = td_map_data s2" "unique_count s' = unique_count s2" by (simp_all add: s1(3))
  have vb: "view s1 = view s" using b by blast
  note v2 = view_cong [OF e(1)] wake_pool_cong [OF e(1,2)]
  have fr: "left_ops ?A (view s) (view s')" "wake_pool s'" using frees_wakes [OF s1(2) p1] unfolding v2 A vb by blast+
  have num: "wo_unique y = po_unique_num op" if y: "y \<in> set (K @ D)" "view s (wo_ptr y) = Some op" for y op
  proof -
    obtain o1 where "get_op (wo_ptr y) s = Some o1" "op_is (td_proc_id s) y o1" by (rule life_op [OF l y(1)])
    then show ?thesis using y(2) by (auto simp: op_is_def view_def)
  qed
  have "wake_inv (view s') (progress (S - ?A)) ?c ?u"
  proof (rule leave_keeps [OF inv fr(1)])
    fix d dop i assume d: "view s d = Some dop" "po_valid dop" "d \<in> S" "d \<notin> ?A" "i < unat (po_num_srcs dop)" "sr_op (po_src_info dop ! i) \<in> ?A"
    obtain x where x: "x \<in> set K" "wo_ptr x = d" using S d(3,4) by auto
    obtain y where y: "y \<in> set D" "wo_ptr y = sr_op (po_src_info dop ! i)" using d(6) by auto
    have "wo_unique x < wo_unique y" using u x(1) y(1) by (auto simp: uniq_def sorted_wrt_append)
    moreover have "wo_unique x = po_unique_num dop" using num [of x dop] x d(1) by simp
    moreover have "sr_unique_num (po_src_info dop ! i) < po_unique_num dop" by (rule wake_invD(7) [OF inv d(1,2,5)])
    ultimately have "sr_unique_num (po_src_info dop ! i) \<noteq> wo_unique y" by auto
    then show "\<not> pending (view s) (po_src_info dop ! i)" using num [of y] y by (auto simp: pending_def)
  qed
  moreover have "S - ?A \<subseteq> wo_ptr ` set K" using S by auto
  moreover have "unique_count s' = ?u" using frees_unique [OF s1(2)] b e(3) by simp
  moreover have "uniq (R @ K) ?u" using u by (auto simp: uniq_def sorted_wrt_append)
  moreover have "length (om_ops s) \<le> length (om_ops s')" by (rule left_length [OF fr(1)])
  ultimately show ?thesis using o fr(2) R unfolding life_inv_def by auto
qed

end
