(* ===== verification/Op_Wake_Props.thy ===== *)
theory Op_Wake_Props
  imports Op_Keep Op_Props
begin

text \<open>
  Runs of the ops in flight with their wake-ups: between fetch and retirement an op is scheduled once, by the map
  stage, and signals its dependents when it produces its values. The properties say when an op waits.
\<close>

section \<open>Runs\<close>

text \<open>The functions to call on a wake-up, at any cycle.\<close>

definition wake_actions :: "uns \<Rightarrow> wake_action set" where
  "wake_actions c = {act. \<exists>n. act = simple_wake n \<or> act = cmp_wake c n}"

lemma wake_action_waking: "act \<in> wake_actions c \<Longrightarrow> waking act c"
  using simple.waking_axioms cmp.waking_axioms by (auto simp: wake_actions_def)

text \<open>There is room for the wake-up entries of one more op.\<close>

definition wake_room :: "Op_Machine \<Rightarrow> bool" where
  "wake_room s \<longleftrightarrow> unat (md_active_wake_up_entries (td_map_data s)) + 32 \<le> WAKE_UP_ENTRIES_INC * 127"

inductive op_life :: "map_params \<Rightarrow> Mem_Map_Entry \<Rightarrow> Op_Machine \<Rightarrow> Win_Op list \<Rightarrow> Win_Op list \<Rightarrow> opp set \<Rightarrow> bool"
  for P :: map_params and fresh :: Mem_Map_Entry where
  start: "cold s0 \<Longrightarrow> om_ops s0 = [zero_op] \<Longrightarrow> unique_count s0 = 1 \<Longrightarrow> init_op_pool s0 = Some s1 \<Longrightarrow> init_thread P s1 = Some s \<Longrightarrow>
    op_life P fresh s [] [] {}"
| fetch: "op_life P fresh s R W S \<Longrightarrow> can_fetch P s W f \<Longrightarrow> unique_count s + 1 \<noteq> 0 \<Longrightarrow> fetch_op P fresh f s = Some (p, s') \<Longrightarrow>
    op_life P fresh s' R (W @ [fetched_op p f s]) S"
| schedule: "op_life P fresh s R W S \<Longrightarrow> x \<in> set W \<Longrightarrow> wo_ptr x \<notin> S \<Longrightarrow> act \<in> wake_actions (td_proc_id s) \<Longrightarrow> wake_room s \<Longrightarrow>
    add_to_wake_up_lists P act (wo_ptr x) s = Some s' \<Longrightarrow> op_life P fresh s' R W (insert (wo_ptr x) S)"
| signal: "op_life P fresh s R W S \<Longrightarrow> x \<in> set W \<Longrightarrow> act \<in> wake_actions (td_proc_id s) \<Longrightarrow>
    wake_up_ops (wo_ptr x) t act s = Some s' \<Longrightarrow> op_life P fresh s' R W S"
| retire: "op_life P fresh s R (x # W) S \<Longrightarrow> \<not> wo_off x \<Longrightarrow> get_op (wo_ptr x) s = Some op \<Longrightarrow> all_signalled op \<Longrightarrow>
    retire_op (wo_ptr x) s = Some s' \<Longrightarrow> op_life P fresh s' (R @ [x]) W (S - {wo_ptr x})"
| recover: "op_life P fresh s R (K @ D) S \<Longrightarrow> can_recover s K D n \<Longrightarrow> mset F = mset D \<Longrightarrow> off_ops \<longrightarrow> agrees \<Longrightarrow>
    recover_window off_ops fresh agrees n (map wo_ptr F) s = Some s' \<Longrightarrow> op_life P fresh s' R K (S - wo_ptr ` set D)"

lemma life_start:
  assumes "cold s0" "om_ops s0 = [zero_op]" "unique_count s0 = 1" "init_op_pool s0 = Some s1" "init_thread P s1 = Some s" "0 < NODE_TABLE_SIZE P"
  shows "life_inv s [] [] {}"
proof -
  have w: "window s [] []" using start_ok [OF assms(1,6)] assms(4,5) by auto
  define z where "z = (op_pool_init_op zero_op)\<lparr>po_valid := False, po_op_num := 0, po_unique_num := 0\<rparr>"
  have i: "om_ops s1 = z # replicate OP_POOL_ENTRIES_INC (op_pool_init_op zero_op)" "unique_count s1 = 1" "td_proc_id s1 = 0"
    using assms(1-4) by (auto simp: init_op_pool_def bind_eq_Some_conv expand_op_pool_def Let_def reset_op_pool_def upd_op_def get_op_def
        invalid_op_def z_def cold_def)
  have t: "om_ops s = om_ops s1" "unique_count s = 1" "td_proc_id s = 0" "md_free_list (td_map_data s) = 256"
    "md_wake_up_entries (td_map_data s) = 256" "md_active_wake_up_entries (td_map_data s) = 0"
    using assms(5) i by (auto simp: init_thread_def init_map_def bind_eq_Some_conv expand_wake_up_entries_def WAKE_UP_ENTRIES_INC_def Let_def)
  have e: "po_wake_up_list op = [] \<and> \<not> po_valid op" if v: "view s q = Some op" for q op
  proof -
    obtain o' where o': "get_op q s = Some o'" "core o' = op" by (rule view_get [OF v])
    then have "o' = z \<or> o' = op_pool_init_op zero_op"
      using t(1) i(1) by (cases q) (auto simp: get_op_def split: if_splits)
    then show ?thesis using o'(2) by (auto simp: z_def op_pool_init_op_def zero_op_def)
  qed
  have "view s invalid_op \<noteq> None" using t(1) i(1) by (simp add: view_def get_op_def invalid_op_def)
  moreover have "bits_ok (view s) (progress {})" by (auto simp: bits_ok_def dest: e)
  moreover have "entries_ok (view s) (progress {})" unfolding entries_ok_def using e by fastforce
  ultimately have "wake_inv (view s) (progress {}) 0 1" using e by (simp add: wake_inv_def uniques_ok_def)
  moreover have "list_len (view s) q = 0" for q by (auto simp: list_len_def split: option.splits dest: e)
  then have "wake_pool s" using t(4-6) by (auto simp: wake_pool_def WAKE_UP_ENTRIES_INC_def dest: e)
  ultimately show ?thesis using w t(2,3) by (simp add: life_inv_def uniq_def)
qed

lemma op_life_inv:
  assumes "op_life P fresh s R W S" "params_ok P fresh"
  shows "life_inv s R W S"
  using assms(1)
proof induction
  case (start s0 s1 s)
  then show ?case using life_start assms(2) by (auto simp: params_ok_def)
next
  case (fetch s R W S f p s')
  then show ?case using fetch_keeps [OF fetch.IH fetch.hyps(2,3) params_okD [OF assms(2)]] by blast
next
  case (schedule s R W S x act s')
  then have c: "waking act (td_proc_id s)" by (simp add: wake_action_waking)
  show ?case using waking.schedule_keeps [OF c schedule.IH schedule.hyps(2,3) refl, of P] schedule.hyps(5,6) by (auto simp: wake_room_def)
next
  case (signal s R W S x act t s')
  then have c: "waking act (td_proc_id s)" by (simp add: wake_action_waking)
  obtain op where op: "get_op (wo_ptr x) s = Some op" "t \<notin> po_wake_up_signaled op \<or> po_replay op"
    using signal.hyps(4) by (auto simp: wake_up_ops_def bind_eq_Some_conv)
  show ?case using waking.signal_keeps [OF c signal.IH signal.hyps(2) op refl] signal.hyps(4) by auto
next
  case (retire s R x W S op s')
  then show ?case using retire_keeps by blast
next
  case (recover s R K D S n F off_ops agrees s')
  then show ?case using recover_keeps params_okD(2) [OF assms(2)] by blast
qed

section \<open>The start of a run\<close>

lemma life_fetch:
  assumes l: "op_life P fresh s R W S" and P: "params_ok P fresh" and f: "can_fetch P s W f" "unique_count s + 1 \<noteq> 0"
  shows "\<exists>p s' op. op_life P fresh s' R (W @ [fetched_op p f s]) S \<and> get_op p s' = Some op \<and>
    unat (po_num_srcs op) = length (op_sources P R W f) \<and> po_wake_up_signaled op = {} \<and> same_counts (td_map_data s) (td_map_data s') \<and>
    op_count s' = op_count s + 1 \<and> unique_count s' = unique_count s + 1 \<and> td_proc_id s' = td_proc_id s"
proof -
  have i: "life_inv s R W S" by (rule op_life_inv [OF l P])
  then have w: "window s R W" and inv: "wake_inv (view s) (progress S) (td_proc_id s) (unique_count s)" by (simp_all add: life_inv_def)
  obtain p s' op s1 where o: "fetch_op P fresh f s = Some (p, s')" "window s' R (W @ [fetched_op p f s])" "td_proc_id s' = td_proc_id s"
    "op_count s' = op_count s + 1" "get_op p s' = Some op" "srcs op = op_sources P R W f" "unique_count s' = unique_count s + 1"
    "alloc_op (td_proc_id s) s = Some (p, s1)" using fetch_ok [OF w f(1) params_okD [OF P]] by blast
  have empty: "po_wake_up_list op = []" if "get_op q s = Some op" "\<not> po_valid op" for q op
    by (rule wake_free_list [OF inv that])
  obtain op1 where a: "get_op p s1 = Some op1" "po_wake_up_signaled op1 = {}" "po_num_srcs op1 = 0" "td_map_data s1 = td_map_data s"
    by (rule alloc_view [OF o(8)]) (erule (1) empty, (rule that; (assumption | blast)))
  obtain op2 where g: "get_op p s' = Some op2" "grown (fill_op f op1) op2" "same_counts (td_map_data s1) (td_map_data s')"
    by (rule fetch_grows [OF o(1,8) a(1)])
  have "all_waiting op" "po_wake_up_signaled op = {}" using g(1,2) o(5) a(2,3) by (simp_all add: grown_def fill_op_def all_waiting_def)
  moreover have "length (po_src_info op) = MAX_DEPS"
  proof -
    have ww: "win_ops (td_proc_id s') s' (W @ [fetched_op p f s])" using o(2) by (simp add: window_def)
    show ?thesis by (rule win_opsD [OF ww, of "fetched_op p f s"]) (use o(5) in \<open>auto simp: fetched_op_def op_is_def\<close>)
  qed
  ultimately have "unat (po_num_srcs op) = length (srcs op)" by (simp add: srcs_def all_waiting_def MAX_DEPS_def)
  then show ?thesis using op_life.fetch [OF l f o(1)] o \<open>po_wake_up_signaled op = {}\<close> g(3) a(4) by auto
qed

lemma life_begin:
  "\<exists>s. op_life ex_params ex_fresh s [] [] {} \<and> op_count s = 1 \<and> unique_count s = 1 \<and> td_proc_id s = 0 \<and>
     md_active_wake_up_entries (td_map_data s) = 0"
proof -
  have c: "cold ex_machine" "om_ops ex_machine = [zero_op]" "unique_count ex_machine = 1" by (simp_all add: cold_def ex_machine_def)
  obtain s1 s where s: "init_op_pool ex_machine = Some s1" "init_thread ex_params s1 = Some s" "op_count s = 1"
    using start_ok [OF c(1), of ex_params] by (auto simp: ex_params_def)
  have "unique_count s1 = 1" "td_proc_id s1 = 0"
    using s(1) by (auto simp: init_op_pool_def bind_eq_Some_conv expand_op_pool_def Let_def reset_op_pool_def upd_op_def ex_machine_def)
  then have "unique_count s = 1" "td_proc_id s = 0" "md_active_wake_up_entries (td_map_data s) = 0"
    using s(2) by (auto simp: init_thread_def init_map_def bind_eq_Some_conv expand_wake_up_entries_def Let_def)
  then show ?thesis using op_life.start [OF c s(1,2)] s(3) by blast
qed

text \<open>The store of the examples, with the load after it; and the load alone.\<close>

lemma life_store:
  "\<exists>s x op. op_life ex_params ex_fresh s [] [x] {} \<and> wo_info x = ex_store False \<and> get_op (wo_ptr x) s = Some op \<and>
     po_wake_up_signaled op = {} \<and> op_count s = 2 \<and> unique_count s = 2 \<and> td_proc_id s = 0 \<and>
     md_active_wake_up_entries (td_map_data s) = 0 \<and> wake_room s"
proof -
  obtain s where s: "op_life ex_params ex_fresh s [] [] {}" "op_count s = 1" "unique_count s = 1" "td_proc_id s = 0"
    "md_active_wake_up_entries (td_map_data s) = 0" using life_begin by blast
  have "can_fetch ex_params s [] (ex_store False)"
    using s(2) ex_fetched_ok by (simp add: can_fetch_def) (simp add: ex_store_def src_regs_def mem_type_of_def)
  then show ?thesis using life_fetch [OF s(1) ex_params_ok] s(2-5)
    by (fastforce simp: fetched_op_def same_counts_def wake_room_def WAKE_UP_ENTRIES_INC_def)
qed

lemma ex_load_sources:
  assumes "wo_info x = ex_store False"
  shows "length (op_sources ex_params [] [x] ex_load) = 2"
proof -
  have w: "youngest Q [x] = (if Q x then Some x else None)" for Q using youngest_snoc [of Q "[]" x] by simp
  have st: "stores_to b x \<longleftrightarrow> 100 \<le> b \<and> b < 108" for b
    using assms by (simp add: stores_to_def is_store_def mem_type_of_def bytes_at_def ex_defs)
  have "[104 ..< 112] = [104, 105, 106, 107, 108, 109, 110, 111 :: nat]" by (simp add: upt_rec)
  then have "load_stores [x] [104 ..< 112] = [x]" by (simp add: load_stores_def w st List.map_filter_def)
  then show ?thesis
    by (simp add: op_sources_def reg_sources_def addr_sources_def load_sources_def ex_defs src_regs_def mem_type_of_def)
qed

lemma life_schedule:
  assumes l: "op_life P fresh s R W S" and P: "params_ok P fresh" and x: "x \<in> set W" "wo_ptr x \<notin> S" "wake_room s"
    and op: "get_op (wo_ptr x) s = Some op"
  shows "\<exists>s' op'. op_life P fresh s' R W (insert (wo_ptr x) S) \<and> get_op (wo_ptr x) s' = Some op' \<and> po_num_srcs op' = po_num_srcs op"
proof -
  have i: "life_inv s R W S" by (rule op_life_inv [OF l P])
  then have inv: "wake_inv (view s) (progress S) (td_proc_id s) (unique_count s)" and pool: "wake_pool s"
    and id: "md_proc_id (td_map_data s) = td_proc_id s" by (simp_all add: life_inv_def window_def)
  have v: "po_valid op" using life_op [OF i x(1)] op by (auto simp: op_is_def)
  have "progress S (wo_ptr x) = 0" using x(2) by (simp add: progress_def)
  from simple.schedule_ok [OF inv op v this pool x(3) [unfolded wake_room_def] id, of P 0] obtain s' where
    s': "add_to_wake_up_lists P (simple_wake 0) (wo_ptr x) s = Some s'" "steady s s'" by blast
  have "kept (view s) (view s')" using s'(2) by (simp add: steady_def)
  from kept_get [OF this op] obtain op' where "get_op (wo_ptr x) s' = Some op'" "ident (core op') = ident (core op)" by blast
  moreover have "simple_wake 0 \<in> wake_actions (td_proc_id s)" by (auto simp: wake_actions_def)
  ultimately show ?thesis using op_life.schedule [OF l x(1,2) _ x(3) s'(1)] ident_core(5) by blast
qed

section \<open>Properties\<close>

text \<open>An op in flight that is source \<open>r\<close> of another and has not signalled it, and the entry that source \<open>i\<close> of the op
  \<open>op\<close> at \<open>p\<close> has in the list of its source.\<close>

definition unsignalled :: "Op_Machine \<Rightarrow> Win_Op list \<Rightarrow> Src_Info \<Rightarrow> bool" where
  "unsignalled s W r \<longleftrightarrow> (\<exists>y \<in> set W. \<exists>src. get_op (wo_ptr y) s = Some src \<and> sr_op r = wo_ptr y \<and> sr_unique_num r = wo_unique y \<and>
     sr_type r \<notin> po_wake_up_signaled src)"

definition on_list :: "Op_Machine \<Rightarrow> opp \<Rightarrow> Pool_Op \<Rightarrow> nat \<Rightarrow> bool" where
  "on_list s p op i \<longleftrightarrow> (\<exists>src. get_op (sr_op (po_src_info op ! i)) s = Some src \<and>
     wake_entry p op i \<in> set (po_wake_up_list src))"

lemma life_pending:
  assumes l: "life_inv s R W S"
  shows "pending (view s) r \<longleftrightarrow> unsignalled s W r"
proof
  assume p: "pending (view s) r"
  then obtain op where op: "view s (sr_op r) = Some op" "po_valid op" "po_unique_num op = sr_unique_num r" "sr_type r \<notin> po_wake_up_signaled op"
    by (auto simp: pending_def)
  obtain y where y: "y \<in> set W" "wo_ptr y = sr_op r" using valid_in_window [OF l op(1,2)] by auto
  obtain o1 where o1: "get_op (wo_ptr y) s = Some o1" "op_is (td_proc_id s) y o1" by (rule life_op [OF l y(1)])
  have "core o1 = op" using o1(1) op(1) y(2) by (simp add: view_def)
  then have "sr_type r \<notin> po_wake_up_signaled o1" "wo_unique y = sr_unique_num r" using op(3,4) o1(2) by (auto simp: op_is_def)
  then have "get_op (wo_ptr y) s = Some o1 \<and> sr_op r = wo_ptr y \<and> sr_unique_num r = wo_unique y \<and> sr_type r \<notin> po_wake_up_signaled o1"
    using y(2) o1(1) by simp
  with y(1) show "unsignalled s W r" unfolding unsignalled_def by blast
next
  assume "unsignalled s W r"
  then obtain y src where y: "y \<in> set W" "get_op (wo_ptr y) s = Some src" "sr_op r = wo_ptr y" "sr_unique_num r = wo_unique y"
    "sr_type r \<notin> po_wake_up_signaled src" by (auto simp: unsignalled_def)
  obtain o1 where o1: "get_op (wo_ptr y) s = Some o1" "op_is (td_proc_id s) y o1" by (rule life_op [OF l y(1)])
  then show "pending (view s) r" using y by (auto simp: pending_def view_def op_is_def)
qed

lemma life_bits:
  assumes l: "life_inv s R W S" and x: "x \<in> set W" "get_op (wo_ptr x) s = Some op" "i < unat (po_num_srcs op)"
  shows "if wo_ptr x \<in> S then (bit (po_srcs_not_rdy_vector op) i \<longleftrightarrow> unsignalled s W (po_src_info op ! i)) \<and>
      (bit (po_srcs_not_rdy_vector op) i \<longrightarrow> on_list s (wo_ptr x) op i) else bit (po_srcs_not_rdy_vector op) i"
proof -
  have inv: "wake_inv (view s) (progress S) (td_proc_id s) (unique_count s)" using l by (simp add: life_inv_def)
  obtain o1 where o1: "get_op (wo_ptr x) s = Some o1" "op_is (td_proc_id s) x o1" by (rule life_op [OF l x(1)])
  have v: "view s (wo_ptr x) = Some (core op)" "po_valid (core op)" using x(2) o1 by (simp_all add: view_def op_is_def)
  have "i < 32" using wake_invD(4) [OF inv v] x(3) by simp
  then have p: "i < progress S (wo_ptr x) \<longleftrightarrow> wo_ptr x \<in> S" by (simp add: progress_def)
  have li: "listed (view s) (wo_ptr x) (core op) i \<longleftrightarrow> on_list s (wo_ptr x) op i"
    by (auto simp: listed_def on_list_def view_def wake_entry_def)
  have "i < unat (po_num_srcs (core op))" using x(3) by simp
  with inv v have "if i < progress S (wo_ptr x) then (bit (po_srcs_not_rdy_vector (core op)) i \<longleftrightarrow> pending (view s) (po_src_info (core op) ! i)) \<and>
       (pending (view s) (po_src_info (core op) ! i) \<longrightarrow> listed (view s) (wo_ptr x) (core op) i) else bit (po_srcs_not_rdy_vector (core op)) i"
    unfolding wake_inv_def bits_ok_def by blast
  then show ?thesis unfolding p li life_pending [OF l] by (auto split: if_splits)
qed

text \<open>C8: when an op waits. On every run, whatever was fetched, signalled, retired and dropped before and however the
  records of the pool were reused, an op that has not been scheduled waits for all its sources, and a scheduled one
  waits for a source exactly as long as that source is in flight and has not signalled the value; the entry of the
  source's list that will wake it is then there.\<close>

theorem op_waits_exactly:
  assumes "op_life P fresh s R W S" "params_ok P fresh" "x \<in> set W" "get_op (wo_ptr x) s = Some op" "i < unat (po_num_srcs op)"
  shows "if wo_ptr x \<in> S then (bit (po_srcs_not_rdy_vector op) i \<longleftrightarrow> unsignalled s W (po_src_info op ! i)) \<and>
      (bit (po_srcs_not_rdy_vector op) i \<longrightarrow> on_list s (wo_ptr x) op i) else bit (po_srcs_not_rdy_vector op) i"
  by (rule life_bits [OF op_life_inv [OF assms(1,2)] assms(3-5)])

theorem op_waits_exactly_witness:
  "\<exists>s x y op s' op'. op_life ex_params ex_fresh s [] [x, y] {} \<and> get_op (wo_ptr y) s = Some op \<and>
     bit (po_srcs_not_rdy_vector op) 0 \<and> bit (po_srcs_not_rdy_vector op) 1 \<and>
     op_life ex_params ex_fresh s' [] [x, y] {wo_ptr y} \<and> get_op (wo_ptr y) s' = Some op' \<and>
     (bit (po_srcs_not_rdy_vector op') 1 \<longleftrightarrow> unsignalled s' [x, y] (po_src_info op' ! 1))"
proof -
  obtain s0 x where s0: "op_life ex_params ex_fresh s0 [] [x] {}" "wo_info x = ex_store False" "op_count s0 = 2" "unique_count s0 = 2"
    "md_active_wake_up_entries (td_map_data s0) = 0" using life_store by blast
  have c: "can_fetch ex_params s0 [x] ex_load"
    using s0(2,3) ex_fetched_ok(2) by (simp add: can_fetch_def) (simp add: ex_defs src_regs_def wo_off_def)
  obtain p s op where s: "op_life ex_params ex_fresh s [] [x, fetched_op p ex_load s0] {}" "get_op p s = Some op"
    "unat (po_num_srcs op) = length (op_sources ex_params [] [x] ex_load)" "same_counts (td_map_data s0) (td_map_data s)"
    using life_fetch [OF s0(1) ex_params_ok c] s0(4) by auto
  define y where "y = fetched_op p ex_load s0"
  have y: "wo_ptr y = p" by (simp add: y_def fetched_op_def)
  have n: "unat (po_num_srcs op) = 2" using s(3) ex_load_sources [OF s0(2)] by simp
  have room: "wake_room s" using s(4) s0(5) by (simp add: same_counts_def wake_room_def WAKE_UP_ENTRIES_INC_def)
  obtain s' op' where s': "op_life ex_params ex_fresh s' [] [x, y] {p}" "get_op p s' = Some op'" "po_num_srcs op' = po_num_srcs op"
    using life_schedule [OF s(1) ex_params_ok, of y] room s(2) y by (auto simp: y_def)
  have "bit (po_srcs_not_rdy_vector op) i" if "i < 2" for i
    using op_waits_exactly [OF s(1) ex_params_ok, of y op i] that n s(2) y by (simp add: y_def)
  moreover have "bit (po_srcs_not_rdy_vector op') 1 \<longleftrightarrow> unsignalled s' [x, y] (po_src_info op' ! 1)"
    using op_waits_exactly [OF s'(1) ex_params_ok, of y op' 1] s'(2,3) n y by simp
  ultimately show ?thesis using s(1,2) s'(1,2) y unfolding y_def [symmetric]
    by (intro exI [of _ s] exI [of _ x] exI [of _ y] exI [of _ op] exI [of _ s'] exI [of _ op']) simp
qed

text \<open>C9: no op waits for ever. On every run the oldest op in flight, once scheduled, waits for nothing: so it can
  execute, signal and retire.\<close>

theorem oldest_never_waits:
  assumes "op_life P fresh s R (x # W) S" "params_ok P fresh" "wo_ptr x \<in> S" "get_op (wo_ptr x) s = Some op" "i < unat (po_num_srcs op)"
  shows "\<not> bit (po_srcs_not_rdy_vector op) i"
proof
  assume b: "bit (po_srcs_not_rdy_vector op) i"
  have l: "life_inv s R (x # W) S" by (rule op_life_inv [OF assms(1,2)])
  then have inv: "wake_inv (view s) (progress S) (td_proc_id s) (unique_count s)" and u: "uniq (R @ x # W) (unique_count s)"
    by (simp_all add: life_inv_def)
  obtain o1 where o1: "get_op (wo_ptr x) s = Some o1" "op_is (td_proc_id s) x o1" by (rule life_op [OF l, of x]) simp_all
  have v: "view s (wo_ptr x) = Some (core op)" "po_valid (core op)" "po_unique_num op = wo_unique x"
    using assms(4) o1 by (auto simp: view_def op_is_def)
  have "sr_unique_num (po_src_info op ! i) < wo_unique x" using wake_invD(7) [OF inv v(1,2)] assms(5) v(3) by simp
  moreover have "unsignalled s (x # W) (po_src_info op ! i)" using life_bits [OF l _ assms(4,5)] assms(3) b by simp
  ultimately show False using u by (fastforce simp: unsignalled_def uniq_def sorted_wrt_append)
qed

theorem oldest_never_waits_witness:
  "\<exists>s x op. op_life ex_params ex_fresh s [] [x] {wo_ptr x} \<and> get_op (wo_ptr x) s = Some op \<and> po_num_srcs op = 1 \<and>
     \<not> bit (po_srcs_not_rdy_vector op) 0"
proof -
  obtain s0 where s0: "op_life ex_params ex_fresh s0 [] [] {}" "op_count s0 = 1" "unique_count s0 = 1"
    "md_active_wake_up_entries (td_map_data s0) = 0" using life_begin by blast
  have c: "can_fetch ex_params s0 [] ex_load"
    using s0(2) ex_fetched_ok(2) by (simp add: can_fetch_def) (simp add: ex_defs src_regs_def)
  obtain p s op where s: "op_life ex_params ex_fresh s [] [fetched_op p ex_load s0] {}" "get_op p s = Some op"
    "unat (po_num_srcs op) = length (op_sources ex_params [] [] ex_load)" "same_counts (td_map_data s0) (td_map_data s)"
    using life_fetch [OF s0(1) ex_params_ok c] s0(3) by auto
  define x where "x = fetched_op p ex_load s0"
  have x: "wo_ptr x = p" by (simp add: x_def fetched_op_def)
  have "load_stores [] bs = []" for bs by (simp add: load_stores_def List.map_filter_def)
  then have "length (op_sources ex_params [] [] ex_load) = 1"
    by (simp add: op_sources_def reg_sources_def addr_sources_def load_sources_def ex_defs src_regs_def mem_type_of_def)
  then have n: "po_num_srcs op = 1" using s(3) by (simp add: word_unat_eq_iff)
  have room: "wake_room s" using s(4) s0(4) by (simp add: same_counts_def wake_room_def WAKE_UP_ENTRIES_INC_def)
  obtain s' op' where s': "op_life ex_params ex_fresh s' [] [x] {p}" "get_op p s' = Some op'" "po_num_srcs op' = po_num_srcs op"
    using life_schedule [OF s(1) ex_params_ok, of x] room s(2) x by (auto simp: x_def)
  have "\<not> bit (po_srcs_not_rdy_vector op') 0"
    using oldest_never_waits [OF s'(1) ex_params_ok, of op' 0] s'(2,3) n x by simp
  then show ?thesis using s' n x by (intro exI [of _ s'] exI [of _ x] exI [of _ op']) simp
qed

text \<open>C10: scheduling and signalling never fail. On every run no assertion fails when an op in flight that has not been
  scheduled is entered into the lists of its sources, as long as wake-up entries are left, nor when an op in flight
  signals a value that it has not signalled before; and the entries in the lists and the free ones are all there
  are.\<close>

theorem wake_ups_never_fail:
  assumes "op_life P fresh s R W S" "params_ok P fresh" "x \<in> set W" "act \<in> wake_actions (td_proc_id s)" "get_op (wo_ptr x) s = Some op"
  shows "(wo_ptr x \<notin> S \<and> wake_room s \<longrightarrow> add_to_wake_up_lists P act (wo_ptr x) s \<noteq> None) \<and>
    (t \<notin> po_wake_up_signaled op \<or> po_replay op \<longrightarrow> wake_up_ops (wo_ptr x) t act s \<noteq> None) \<and>
    md_free_list (td_map_data s) + (\<Sum>q < length (om_ops s). length (po_wake_up_list (om_ops s ! q))) = unat (md_wake_up_entries (td_map_data s))"
proof -
  have l: "life_inv s R W S" by (rule op_life_inv [OF assms(1,2)])
  have w: "waking act (td_proc_id s)" by (rule wake_action_waking [OF assms(4)])
  have "list_len (view s) q = length (po_wake_up_list (om_ops s ! q))" if "q < length (om_ops s)" for q
    using that by (simp add: list_len_def view_def get_op_def)
  then have "(\<Sum>q < length (om_ops s). length (po_wake_up_list (om_ops s ! q))) = (\<Sum>q < length (om_ops s). list_len (view s) q)" by simp
  moreover have "wake_pool s" using l by (simp add: life_inv_def)
  ultimately have a: "md_free_list (td_map_data s) + (\<Sum>q < length (om_ops s). length (po_wake_up_list (om_ops s ! q))) =
      unat (md_wake_up_entries (td_map_data s))" by (simp add: wake_pool_def)
  then show ?thesis
    using waking.schedule_keeps [OF w l assms(3) _ refl, of P] waking.signal_keeps [OF w l assms(3,5) _ refl, of t]
    by (auto simp: wake_room_def)
qed

theorem wake_ups_never_fail_witness:
  "\<exists>s x. op_life ex_params ex_fresh s [] [x] {} \<and> add_to_wake_up_lists ex_params (cmp_wake 0 7) (wo_ptr x) s \<noteq> None \<and>
     wake_up_ops (wo_ptr x) MEM_DATA_DEP (cmp_wake 0 7) s \<noteq> None"
proof -
  obtain s x op where s: "op_life ex_params ex_fresh s [] [x] {}" "get_op (wo_ptr x) s = Some op" "po_wake_up_signaled op = {}"
    "td_proc_id s = 0" "wake_room s" using life_store by blast
  have "cmp_wake 0 7 \<in> wake_actions (td_proc_id s)" using s(4) by (auto simp: wake_actions_def)
  from wake_ups_never_fail [OF s(1) ex_params_ok _ this s(2), of MEM_DATA_DEP] show ?thesis using s by auto
qed

end
