(* ===== verification/Spec2Isabelle.thy ===== *)
theory Spec2Isabelle
  imports Pref_SPP_Props Lib_Props List_Props Cache_Props Pref_Other_Props Bp_Props Bp_Front_Props Freq_Props Op_Props Op_Wake_Props
begin

text \<open>
  A verification of parts of Scarab, a cycle-level processor simulator written in C, and of the
  Signature Path Prefetcher (SPP) that the project adds to it. All paths are under
  \<^verbatim>\<open>src/scarab/src/\<close>.

  \<^bold>\<open>The program.\<close> Scarab runs a pipeline (\<^verbatim>\<open>icache_stage.c\<close>, \<^verbatim>\<open>decode_stage.c\<close>, \<^verbatim>\<open>map_stage.c\<close>,
  \<^verbatim>\<open>node_stage.c\<close>, \<^verbatim>\<open>exec_stage.c\<close>, \<^verbatim>\<open>dcache_stage.c\<close>) in front of a memory system (\<^verbatim>\<open>memory/\<close>,
  \<^verbatim>\<open>ramulator/\<close>). The caches of all levels are instances of \<^verbatim>\<open>libs/cache_lib.c\<close>, and the stages keep
  their state in the hash tables, lists and ports of \<^verbatim>\<open>libs/\<close>. The memory system reports the misses and
  hits of every cache level to the prefetcher framework, \<^verbatim>\<open>prefetcher/pref_common.c\<close>, which calls each
  enabled prefetcher; a prefetcher answers by putting lines into a request queue of the framework, and
  the framework drains the queues into the memory system and keeps the feedback counters that throttle
  the prefetchers.

  \<^bold>\<open>Conventions.\<close> A C struct is a record, an enum a datatype, an integer a word of its width (a C \<^verbatim>\<open>int\<close>
  is a 32-bit word read with \<open>sint\<close>), a C array a list indexed by \<open>unat\<close>. The knobs (\<^verbatim>\<open>*.param.def\<close>) are
  fields of parameter records. An operation that can fail an \<^verbatim>\<open>ASSERT\<close>, leave an array, divide by zero or
  follow a bad pointer returns an option, and \<open>None\<close> is that failure. Global variables and structures
  reached through pointers are threaded as explicit state. \<^verbatim>\<open>DEBUG\<close> output is left out; statistics are
  kept only for the SPP.

  \<^bold>\<open>Theories.\<close>

  \<^item> \<^verbatim>\<open>Scarab_Prelude\<close>: integer types, macros of \<^verbatim>\<open>globals/utils.h\<close> and the scanning loops shared by the
    components.
  \<^item> \<^verbatim>\<open>Pref_Common\<close>: \<^verbatim>\<open>prefetcher/pref_common.c\<close>: initialisation, dispatch, the three request queues, the
    feedback counters, the dynamic degree, the pollution bit vector and the useless-prefetch filter.
    \<^verbatim>\<open>Pref_Queue\<close> states what an insertion into a queue promises as the locale \<open>prefetch_sink\<close> and interprets it
    for the three queues.
  \<^item> \<^verbatim>\<open>Pref_SPP\<close>: \<^verbatim>\<open>prefetcher/pref_spp.c\<close>, function by function: signature table, pattern table, filter,
    global history register and the lookahead loop. \<^verbatim>\<open>Pref_SPP_Inv\<close> has the invariants of the tables and
    that every operation keeps them, \<^verbatim>\<open>Pref_SPP_Run\<close> the states reachable through the callbacks,
    \<^verbatim>\<open>Pref_SPP_Func\<close> what the tables learn, \<^verbatim>\<open>Pref_SPP_Props\<close> the properties.
  \<^item> \<^verbatim>\<open>Pref_Update\<close>: the drain of the request queues in every cycle, \<^verbatim>\<open>pref_update\<close> and \<^verbatim>\<open>pref_update_core\<close>, into
    the data caches, their ports and the memory system.
  \<^item> \<^verbatim>\<open>Pref_Stride\<close>, \<^verbatim>\<open>Pref_StridePC\<close>, \<^verbatim>\<open>Pref_Markov\<close>, \<^verbatim>\<open>Pref_Phase\<close>: the prefetchers of
    \<^verbatim>\<open>pref_stride.c\<close>, \<^verbatim>\<open>pref_stridepc.c\<close>, \<^verbatim>\<open>pref_markov.c\<close> and \<^verbatim>\<open>pref_phase.c\<close>; \<^verbatim>\<open>Pref_Other_Props\<close> their
    properties, with those of the queues and their drain.
  \<^item> \<^verbatim>\<open>Hash_Lib\<close>, \<^verbatim>\<open>Port_Lib\<close>, \<^verbatim>\<open>Lib_Props\<close>: \<^verbatim>\<open>libs/hash_lib.c\<close> and \<^verbatim>\<open>libs/port_lib.c\<close>.
  \<^item> \<^verbatim>\<open>List_Lib\<close>, \<^verbatim>\<open>List_Inv\<close>, \<^verbatim>\<open>List_Props\<close>: \<^verbatim>\<open>libs/list_lib.c\<close> on a heap of entries with explicit
    pointers; the locale \<open>entry_store\<close> is what a caller that keeps data in the entries relies on.
  \<^item> \<^verbatim>\<open>Cache_Lib\<close>: \<^verbatim>\<open>libs/cache_lib.c\<close> with every replacement policy. \<^verbatim>\<open>Cache_Inv\<close> has the invariant of the
    entries and the abstract map of resident lines, \<^verbatim>\<open>Cache_Policies\<close> the facts about single policies and the
    reachable caches, \<^verbatim>\<open>Cache_Props\<close> the properties.
  \<^item> \<^verbatim>\<open>Bp_Types\<close>: the op, the recovery information and the data of the branch predictor (\<^verbatim>\<open>op.h\<close>,
    \<^verbatim>\<open>op_info.h\<close>, \<^verbatim>\<open>bp/bp.h\<close>). \<^verbatim>\<open>Bp_Crs\<close> and \<^verbatim>\<open>Bp_Targ\<close>: the call return stacks and the target buffers of
    \<^verbatim>\<open>bp/bp_targ_mech.c\<close>; \<^verbatim>\<open>Bp_Conf\<close>: the confidence estimators of \<^verbatim>\<open>bp/bp_conf.c\<close>; \<^verbatim>\<open>Bp_Dir\<close>:
    \<^verbatim>\<open>bp/gshare.cc\<close>, \<^verbatim>\<open>bp/hybridgp.cc\<close> and the ring of \<^verbatim>\<open>bp/template_lib/utils.h\<close>; \<^verbatim>\<open>Bp_Main\<close>: \<^verbatim>\<open>bp/bp.c\<close>, which
    calls all of them through the tables of \<^verbatim>\<open>Bp_Table\<close>. The theories ending in \<^verbatim>\<open>_Inv\<close> have their lemmas.
    What \<^verbatim>\<open>bp.c\<close> relies on in a mechanism is a locale (\<open>dir_frame\<close>, \<open>btb_frame\<close>, \<open>ibtb_frame\<close>, \<open>conf_frame\<close>
    for what a mechanism leaves alone, \<open>dir_total\<close>, \<open>btb_total\<close>, \<open>ibtb_total\<close> for that it always answers),
    interpreted on the rows of the tables; \<open>bp_frames\<close> and \<open>bp_total\<close> put them together, and \<^verbatim>\<open>Bp_Run\<close> runs
    sequences of calls. \<^verbatim>\<open>Bp_Props\<close> and \<^verbatim>\<open>Bp_Front_Props\<close> have the properties.
  \<^item> \<^verbatim>\<open>Freq\<close> and \<^verbatim>\<open>Freq_Props\<close>: the clock domains of \<^verbatim>\<open>freq.c\<close>, which decide what is simulated when.
  \<^item> \<^verbatim>\<open>Op_Types\<close>, \<^verbatim>\<open>Op_Map\<close> and \<^verbatim>\<open>Op_Pool\<close>: the ops in flight: \<^verbatim>\<open>map.c\<close> (register map, map of the stores
    in flight, wake-up lists), \<^verbatim>\<open>op_pool.c\<close> and \<^verbatim>\<open>thread.c\<close>, with the steps of the stages that bring an op
    into the window and take it out. \<^verbatim>\<open>Op_Mem_Inv\<close> reads the map of stores, a hash table of eight-byte entries, as a
    map from byte addresses; \<^verbatim>\<open>Op_Window\<close> says what the maps hold for a list of ops in program order,
    \<^verbatim>\<open>Op_Sources\<close> and \<^verbatim>\<open>Op_Load\<close> what an op reads from them, \<^verbatim>\<open>Op_Run\<close> and \<^verbatim>\<open>Op_Recover\<close> that fetching,
    retiring and recovering keep this, and \<^verbatim>\<open>Op_Props\<close> has the runs and their properties.
  \<^item> \<^verbatim>\<open>Op_Wake\<close> to \<^verbatim>\<open>Op_Wake_Props\<close>: the wake-up lists of \<^verbatim>\<open>map.c\<close> over the life of the window. What it asks
    of the function to call on a wake-up is the locale \<open>waking\<close> of \<^verbatim>\<open>Op_Wake\<close>, interpreted on \<open>simple_wake\<close> and
    \<open>cmp_wake\<close>; the invariant \<open>wake_inv\<close> ties each not-ready bit of a scheduled op to the list of its source.
    \<^verbatim>\<open>Op_Schedule\<close> enters an op into the lists, \<^verbatim>\<open>Op_Grow\<close> and \<^verbatim>\<open>Op_Life\<close> say what mapping, freeing and recovering
    do to them, \<^verbatim>\<open>Op_Keep\<close> puts the invariants together, and \<^verbatim>\<open>Op_Wake_Props\<close> has the runs \<open>op_life\<close>, in which an op
    may retire when it has signalled all that its list waits for, as the pipeline sees to.

  \<^bold>\<open>What the lemmas show.\<close> For the SPP: a demand access returns and keeps the tables well
  formed (C1, C2, C16, C17, C20), prefetches stay in the page (C3), the signature table implements an abstract
  map from pages, in which an access changes only its own page and the page it evicts (C4), and the
  pattern table and the filter learn what they are meant to (C18, C19). For the ops in flight: on every run an op depends on exactly the last writers of its registers and the youngest stores to the bytes
  it loads (C5), the pool and the maps hold what the list of ops in flight says, across recoveries (C6), and
  retirement and recovery never fail an assertion (C7). With the wake-ups, an op waits for exactly the sources
  that are in flight and have not signalled (C8), so the oldest op never waits (C9), and scheduling and
  signalling never fail (C10). For the branch predictor: the calls of the pipeline never fail an assertion
  in the configuration \<open>knobs_ok\<close>, which leaves out confidence estimation, the realistic stack and a stack of more
  than 128 entries (C11), a recovery restores the global history (C12) and the two call return stacks
  (C14, C31), the marks of a prediction are exact (C13), the windows of branches in flight are queues (C15, C27), the branch target buffer
  is a map (C28), gshare learns a steady branch (C29) and the oldest op recovers (C30). The clock domains tick
  at the multiples of their cycle times (C21) and convert future cycles exactly (C22). For the cache: under the
  six policies that keep their lines in the main entries (\<open>direct_policy\<close>; the shadow and ideal policies are
  modelled, but not covered by these theorems) lookups, insertions and invalidations implement updates of
  the map of resident lines (C23 to C26), and the policies evict what their names say (C32, C33). The hash table implements a
  map (C34, C35). Offers to the UL1 queue are never lost or altered (C36), and a memory system that accepts requests gets them in order (C39), but the
  requests for the L1 data cache never leave their queue, which takes in no more once it is full, if it may not
  overwrite (C38). The stride prefetcher stays in its tables (C37).
  The linked list implements a double-ended queue (C40).

  \<^bold>\<open>Bounds and fuel.\<close> There is no fuel: loops over tables are structural or folds over the table, the SPP's
  lookahead terminates by the measure \<^verbatim>\<open>PREF_SPP_MAX_DEPTH - depth\<close>, and the pointer loops of the list library
  are partial functions whose termination on well-formed lists is proved (\<open>free_chain_seg\<close>,
  \<open>traverse_remove_ok\<close>). The loop of the stack's recovery is a partial function too, since it does not end for
  more than 255 entries (\<open>crs_clear_ends\<close>), and the walks over the window of the on-path estimator visit at
  most its 512 entries. Counters that a theorem needs not to wrap are bounded in its hypotheses.

  \<^bold>\<open>Parameters of the model.\<close> The random victim of \<^verbatim>\<open>REPL_RANDOM\<close>, the simulation time and the retired
  instruction count are arguments, as are the cycle count and what \<^verbatim>\<open>malloc\<close> leaves in new memory, and so is the memory system behind the request queues (its buffer count and whether
  it accepts a request). The comparison of a single-precision quotient in \<^verbatim>\<open>pref_phase.c\<close> is an
  argument \<open>below\<close>. What the front end
  puts into a fetched op, and whether it agrees with the address of a recovery, are arguments of the steps of the ops;
  the new entries of the map of stores hold what \<^verbatim>\<open>smalloc\<close> left in them.

  \<^bold>\<open>Not modelled.\<close> The floating-point degree feedback of \<^verbatim>\<open>pref_common.c\<close>; the other prefetchers (\<^verbatim>\<open>pref_ghb.c\<close>, \<^verbatim>\<open>pref_2dc.c\<close>, \<^verbatim>\<open>pref_stream.c\<close>,
  \<^verbatim>\<open>stream_pref.c\<close>, \<^verbatim>\<open>l2l1pref.c\<close>, \<^verbatim>\<open>l2markv_pref.c\<close>, \<^verbatim>\<open>l2way_pref.c\<close>); the TAGE and
  championship branch predictors, which are class templates taken over from elsewhere; the pipeline stages,
  of which only the window of ops is here (their queues, ports and the fetch of lines are not); the memory
  controller, the largest file of the repository, whose queues call every other part; DVFS and the power model,
  which are floating-point; the front ends, which are built on PIN and on C++ libraries; Ramulator, which is a library
  of its own; the simulation loop; parameter parsing, statistics output, tracing and the other input and output.
\<close>

end
